(* ===== verification/Crt_Prelude.thy ===== *)
theory Crt_Prelude
  imports Main "HOL-Library.Word" "HOL-Library.Monad_Syntax"
begin

text \<open>
  What the components share: the machine types of the target (a 32-bit RISC-V core, see
  \<^verbatim>\<open>src/host_driven/main.cc\<close>), bounds-checked arrays, the little-endian layout of integers
  in memory and on the wire, and the error codes of
  \<^verbatim>\<open>include/tvm/runtime/crt/error_codes.h\<close>.

  A function that can stop the program returns an \<^typ>\<open>'a option\<close>: \<open>None\<close> is a failed
  \<^verbatim>\<open>CHECK\<close> (\<^verbatim>\<open>TVMPlatformAbort\<close>, which does not return) or an access outside an object.
  An error the code reports to its caller is a value, never \<open>None\<close>.
\<close>

section \<open>Machine types\<close>

unbundle bit_operations_syntax

type_synonym u8 = "8 word"
type_synonym u16 = "16 word"
type_synonym u32 = "32 word"
type_synonym u64 = "64 word"

text \<open>Addresses are integers: pointer arithmetic never wraps in a C program that is defined.\<close>

type_synonym addr = int

named_theorems crt_defs \<open>definitions of straight-line helpers, unfolded by the component proofs\<close>

section \<open>Partial operations\<close>

text \<open>\<^verbatim>\<open>CHECK(x)\<close> of \<^verbatim>\<open>logging.h\<close>: the run stops when the condition fails.\<close>

definition CHECK :: "bool \<Rightarrow> unit option" where
  "CHECK b = (if b then Some () else None)"

lemma CHECK_True [simp]: "CHECK True = Some ()"
  by (simp add: CHECK_def)

lemma CHECK_False [simp]: "CHECK False = None"
  by (simp add: CHECK_def)

lemma CHECK_eq_Some [simp]: "CHECK b = Some u \<longleftrightarrow> b"
  by (simp add: CHECK_def)

lemma CHECK_eq_None [simp]: "CHECK b = None \<longleftrightarrow> \<not> b"
  by (simp add: CHECK_def)

text \<open>An array access: \<open>None\<close> outside the array.\<close>

definition arr_get :: "'a list \<Rightarrow> nat \<Rightarrow> 'a option" where
  "arr_get xs i = (if i < length xs then Some (xs ! i) else None)"

definition arr_set :: "'a list \<Rightarrow> nat \<Rightarrow> 'a \<Rightarrow> 'a list option" where
  "arr_set xs i v = (if i < length xs then Some (xs[i := v]) else None)"

lemma arr_get_in [simp]: "i < length xs \<Longrightarrow> arr_get xs i = Some (xs ! i)"
  by (simp add: arr_get_def)

lemma arr_get_out [simp]: "length xs \<le> i \<Longrightarrow> arr_get xs i = None"
  by (simp add: arr_get_def)

lemma arr_set_in [simp]: "i < length xs \<Longrightarrow> arr_set xs i v = Some (xs[i := v])"
  by (simp add: arr_set_def)

lemma arr_set_out [simp]: "length xs \<le> i \<Longrightarrow> arr_set xs i v = None"
  by (simp add: arr_set_def)

lemma arr_get_eq_Some: "arr_get xs i = Some x \<longleftrightarrow> i < length xs \<and> xs ! i = x"
  by (auto simp: arr_get_def)

lemma arr_set_eq_Some: "arr_set xs i v = Some ys \<longleftrightarrow> i < length xs \<and> ys = xs[i := v]"
  by (auto simp: arr_set_def)

text \<open>
  A \<^verbatim>\<open>memcpy\<close> out of and into an object: \<open>None\<close> when the range leaves it.
\<close>

definition mem_read :: "'a list \<Rightarrow> nat \<Rightarrow> nat \<Rightarrow> 'a list option" where
  "mem_read xs off n = (if off + n \<le> length xs then Some (take n (drop off xs)) else None)"

definition mem_write :: "'a list \<Rightarrow> nat \<Rightarrow> 'a list \<Rightarrow> 'a list option" where
  "mem_write xs off ys =
     (if off + length ys \<le> length xs then Some (take off xs @ ys @ drop (off + length ys) xs) else None)"

lemma mem_read_in [simp]: "off + n \<le> length xs \<Longrightarrow> mem_read xs off n = Some (take n (drop off xs))"
  by (simp add: mem_read_def)

lemma mem_write_in [simp]:
  "off + length ys \<le> length xs \<Longrightarrow>
   mem_write xs off ys = Some (take off xs @ ys @ drop (off + length ys) xs)"
  by (simp add: mem_write_def)

lemma mem_write_eq_Some: "mem_write xs off ys = Some zs \<longleftrightarrow>
    off + length ys \<le> length xs \<and> zs = take off xs @ ys @ drop (off + length ys) xs"
  by (auto simp: mem_write_def)

lemma length_mem_write: "mem_write xs off ys = Some zs \<Longrightarrow> length zs = length xs"
  by (auto simp: mem_write_eq_Some)

text \<open>
  A \<^verbatim>\<open>size_t\<close> is a natural number below \<open>2 ^ 32\<close>; a subtraction below zero wraps.
\<close>

definition size_sub :: "nat \<Rightarrow> nat \<Rightarrow> nat" where
  "size_sub a b = (if b \<le> a then a - b else a + 2 ^ 32 - b)"

lemma size_sub_le [simp]: "b \<le> a \<Longrightarrow> size_sub a b = a - b"
  by (simp add: size_sub_def)

lemma bind_eq_Some: "Option.bind m f = Some y \<longleftrightarrow> (\<exists>x. m = Some x \<and> f x = Some y)"
  by (cases m) auto

section \<open>Little-endian integers\<close>

text \<open>
  \<open>le_bytes n v\<close> is the memory image of the \<open>n\<close>-byte unsigned integer \<open>v mod 256 ^ n\<close> on a
  little-endian machine (\<^verbatim>\<open>memcpy\<close> and \<^verbatim>\<open>reinterpret_cast\<close> of integers in the source;
  \<^verbatim>\<open>minrpc_server.h\<close> asserts \<^verbatim>\<open>DMLC_LITTLE_ENDIAN\<close>), and \<open>le_value\<close> reads it back.
\<close>

fun le_bytes :: "nat \<Rightarrow> nat \<Rightarrow> u8 list" where
  "le_bytes 0 v = []"
| "le_bytes (Suc n) v = of_nat v # le_bytes n (v div 256)"

fun le_value :: "u8 list \<Rightarrow> nat" where
  "le_value [] = 0"
| "le_value (b # bs) = unat b + 256 * le_value bs"

lemma length_le_bytes [simp]: "length (le_bytes n v) = n"
  by (induction n arbitrary: v) auto

lemma le_value_le_bytes: "le_value (le_bytes n v) = v mod 256 ^ n"
proof (induction n arbitrary: v)
  case 0
  show ?case by simp
next
  case (Suc n)
  have "unat (of_nat v :: u8) = v mod 256"
    by (simp add: unat_of_nat)
  then show ?case
    by (simp add: Suc.IH mod_mult2_eq)
qed

lemma le_value_bound: "le_value bs < 256 ^ length bs"
proof (induction bs)
  case Nil
  show ?case by simp
next
  case (Cons b bs)
  have "unat b < 256"
    using unsigned_less [of b] by simp
  moreover have "le_value bs + 1 \<le> 256 ^ length bs"
    using Cons.IH by simp
  then have "256 * (le_value bs + 1) \<le> 256 * 256 ^ length bs"
    by (rule mult_le_mono2)
  ultimately show ?case by simp
qed

lemma le_bytes_le_value: "le_bytes (length bs) (le_value bs) = bs"
proof (induction bs)
  case Nil
  show ?case by simp
next
  case (Cons b bs)
  have b: "unat b < 256"
    using unsigned_less [of b] by simp
  have "(of_nat (unat b + 256 * le_value bs) :: u8) = b"
    by (rule word_unat_eq_iff [THEN iffD2]) (use b in \<open>simp add: unat_of_nat del: of_nat_add of_nat_mult\<close>)
  moreover have "(unat b + 256 * le_value bs) div 256 = le_value bs"
    using b by simp
  ultimately show ?case
    using Cons.IH by (simp del: of_nat_add of_nat_mult)
qed

lemma le_bytes_inj: "u < 256 ^ n \<Longrightarrow> v < 256 ^ n \<Longrightarrow> le_bytes n u = le_bytes n v \<Longrightarrow> u = v"
  by (metis le_value_le_bytes mod_less)

section \<open>Error codes\<close>

text \<open>
  The categories and the codes of \<^verbatim>\<open>error_codes.h\<close>. A negative number returned by a stream is
  cast to the enum unchanged; \<open>kTvmErrorSystem n\<close> is the one whose value is \<open>- n - 1\<close>, so
  \<^verbatim>\<open>kTvmErrorSystemErrorMask\<close> (the least \<^verbatim>\<open>int\<close>) is \<open>kTvmErrorSystem 2147483647\<close>.
\<close>

datatype tvm_crt_error_category =
    kTvmErrorCategoryFunctionRegistry
  | kTvmErrorCategoryFraming
  | kTvmErrorCategoryWriteStream
  | kTvmErrorCategorySession
  | kTvmErrorCategoryPlatform
  | kTvmErrorCategoryGenerated
  | kTvmErrorCategoryExecutor
  | kTvmErrorCategoryFunctionCall
  | kTvmErrorCategoryTimeEvaluator

fun tvm_crt_error_category_value :: "tvm_crt_error_category \<Rightarrow> nat" where
  "tvm_crt_error_category_value kTvmErrorCategoryFunctionRegistry = 1"
| "tvm_crt_error_category_value kTvmErrorCategoryFraming = 2"
| "tvm_crt_error_category_value kTvmErrorCategoryWriteStream = 3"
| "tvm_crt_error_category_value kTvmErrorCategorySession = 4"
| "tvm_crt_error_category_value kTvmErrorCategoryPlatform = 5"
| "tvm_crt_error_category_value kTvmErrorCategoryGenerated = 6"
| "tvm_crt_error_category_value kTvmErrorCategoryExecutor = 7"
| "tvm_crt_error_category_value kTvmErrorCategoryFunctionCall = 8"
| "tvm_crt_error_category_value kTvmErrorCategoryTimeEvaluator = 9"

text \<open>\<^verbatim>\<open>DEFINE_TVM_CRT_ERROR(category, code)\<close>: the code in bits 0-7, the category in bits 8-15.\<close>

definition DEFINE_TVM_CRT_ERROR :: "tvm_crt_error_category \<Rightarrow> nat \<Rightarrow> nat" where
  "DEFINE_TVM_CRT_ERROR category c = push_bit 8 (tvm_crt_error_category_value category) OR push_bit 0 c"

datatype tvm_crt_error =
    kTvmErrorNoError
  | kTvmErrorFunctionNameNotFound
  | kTvmErrorFunctionIndexInvalid
  | kTvmErrorFunctionRegistryFull
  | kTvmErrorFunctionAlreadyDefined
  | kTvmErrorBufferTooSmall
  | kTvmErrorFramingInvalidState
  | kTvmErrorFramingShortPacket
  | kTvmErrorFramingInvalidEscape
  | kTvmErrorFramingPayloadOverflow
  | kTvmErrorFramingPayloadIncomplete
  | kTvmErrorWriteStreamShortWrite
  | kTvmErrorWriteStreamLongWrite
  | kTvmErrorSessionInvalidState
  | kTvmErrorSessionReceiveBufferBusy
  | kTvmErrorSessionReceiveBufferShortWrite
  | kTvmErrorPlatformCheckFailure
  | kTvmErrorPlatformMemoryManagerInitialized
  | kTvmErrorPlatformShutdown
  | kTvmErrorPlatformNoMemory
  | kTvmErrorPlatformTimerBadState
  | kTvmErrorPlatformStackAllocBadFree
  | kTvmErrorGeneratedInvalidStorageId
  | kTvmErrorExecutorModuleAlreadyCreated
  | kTvmErrorExecutorModuleBadContext
  | kTvmErrorExecutorModuleNoSuchInput
  | kTvmErrorFunctionCallNumArguments
  | kTvmErrorFunctionCallWrongArgType
  | kTvmErrorFunctionCallNotImplemented
  | kTvmErrorFunctionCallInvalidArg
  | kTvmErrorTimeEvaluatorBadHandle
  | kTvmErrorSystem nat

fun tvm_crt_error_code :: "tvm_crt_error \<Rightarrow> int" where
  "tvm_crt_error_code kTvmErrorNoError = 0"
| "tvm_crt_error_code kTvmErrorFunctionNameNotFound = int (DEFINE_TVM_CRT_ERROR kTvmErrorCategoryFunctionRegistry 0)"
| "tvm_crt_error_code kTvmErrorFunctionIndexInvalid = int (DEFINE_TVM_CRT_ERROR kTvmErrorCategoryFunctionRegistry 1)"
| "tvm_crt_error_code kTvmErrorFunctionRegistryFull = int (DEFINE_TVM_CRT_ERROR kTvmErrorCategoryFunctionRegistry 2)"
| "tvm_crt_error_code kTvmErrorFunctionAlreadyDefined = int (DEFINE_TVM_CRT_ERROR kTvmErrorCategoryFunctionRegistry 3)"
| "tvm_crt_error_code kTvmErrorBufferTooSmall = int (DEFINE_TVM_CRT_ERROR kTvmErrorCategoryFunctionRegistry 4)"
| "tvm_crt_error_code kTvmErrorFramingInvalidState = int (DEFINE_TVM_CRT_ERROR kTvmErrorCategoryFraming 0)"
| "tvm_crt_error_code kTvmErrorFramingShortPacket = int (DEFINE_TVM_CRT_ERROR kTvmErrorCategoryFraming 1)"
| "tvm_crt_error_code kTvmErrorFramingInvalidEscape = int (DEFINE_TVM_CRT_ERROR kTvmErrorCategoryFraming 2)"
| "tvm_crt_error_code kTvmErrorFramingPayloadOverflow = int (DEFINE_TVM_CRT_ERROR kTvmErrorCategoryFraming 3)"
| "tvm_crt_error_code kTvmErrorFramingPayloadIncomplete = int (DEFINE_TVM_CRT_ERROR kTvmErrorCategoryFraming 4)"
| "tvm_crt_error_code kTvmErrorWriteStreamShortWrite = int (DEFINE_TVM_CRT_ERROR kTvmErrorCategoryWriteStream 0)"
| "tvm_crt_error_code kTvmErrorWriteStreamLongWrite = int (DEFINE_TVM_CRT_ERROR kTvmErrorCategoryWriteStream 1)"
| "tvm_crt_error_code kTvmErrorSessionInvalidState = int (DEFINE_TVM_CRT_ERROR kTvmErrorCategorySession 0)"
| "tvm_crt_error_code kTvmErrorSessionReceiveBufferBusy = int (DEFINE_TVM_CRT_ERROR kTvmErrorCategorySession 1)"
| "tvm_crt_error_code kTvmErrorSessionReceiveBufferShortWrite = int (DEFINE_TVM_CRT_ERROR kTvmErrorCategorySession 2)"
| "tvm_crt_error_code kTvmErrorPlatformCheckFailure = int (DEFINE_TVM_CRT_ERROR kTvmErrorCategoryPlatform 0)"
| "tvm_crt_error_code kTvmErrorPlatformMemoryManagerInitialized = int (DEFINE_TVM_CRT_ERROR kTvmErrorCategoryPlatform 1)"
| "tvm_crt_error_code kTvmErrorPlatformShutdown = int (DEFINE_TVM_CRT_ERROR kTvmErrorCategoryPlatform 2)"
| "tvm_crt_error_code kTvmErrorPlatformNoMemory = int (DEFINE_TVM_CRT_ERROR kTvmErrorCategoryPlatform 3)"
| "tvm_crt_error_code kTvmErrorPlatformTimerBadState = int (DEFINE_TVM_CRT_ERROR kTvmErrorCategoryPlatform 4)"
| "tvm_crt_error_code kTvmErrorPlatformStackAllocBadFree = int (DEFINE_TVM_CRT_ERROR kTvmErrorCategoryPlatform 5)"
| "tvm_crt_error_code kTvmErrorGeneratedInvalidStorageId = int (DEFINE_TVM_CRT_ERROR kTvmErrorCategoryGenerated 0)"
| "tvm_crt_error_code kTvmErrorExecutorModuleAlreadyCreated = int (DEFINE_TVM_CRT_ERROR kTvmErrorCategoryExecutor 0)"
| "tvm_crt_error_code kTvmErrorExecutorModuleBadContext = int (DEFINE_TVM_CRT_ERROR kTvmErrorCategoryExecutor 1)"
| "tvm_crt_error_code kTvmErrorExecutorModuleNoSuchInput = int (DEFINE_TVM_CRT_ERROR kTvmErrorCategoryExecutor 2)"
| "tvm_crt_error_code kTvmErrorFunctionCallNumArguments = int (DEFINE_TVM_CRT_ERROR kTvmErrorCategoryFunctionCall 0)"
| "tvm_crt_error_code kTvmErrorFunctionCallWrongArgType = int (DEFINE_TVM_CRT_ERROR kTvmErrorCategoryFunctionCall 1)"
| "tvm_crt_error_code kTvmErrorFunctionCallNotImplemented = int (DEFINE_TVM_CRT_ERROR kTvmErrorCategoryFunctionCall 2)"
| "tvm_crt_error_code kTvmErrorFunctionCallInvalidArg = int (DEFINE_TVM_CRT_ERROR kTvmErrorCategoryFunctionCall 3)"
| "tvm_crt_error_code kTvmErrorTimeEvaluatorBadHandle = int (DEFINE_TVM_CRT_ERROR kTvmErrorCategoryTimeEvaluator 0)"
| "tvm_crt_error_code (kTvmErrorSystem n) = - int n - 1"

text \<open>A negative \<^verbatim>\<open>ssize_t\<close> read as an error code.\<close>

definition system_error :: "int \<Rightarrow> tvm_crt_error" where
  "system_error r = kTvmErrorSystem (nat (- r - 1))"

lemma tvm_crt_error_code_system_error: "r < 0 \<Longrightarrow> tvm_crt_error_code (system_error r) = r"
  by (simp add: system_error_def)

text \<open>The closed values of the codes.\<close>

lemma tvm_crt_error_code_values [simp]:
  "DEFINE_TVM_CRT_ERROR kTvmErrorCategoryFunctionRegistry 0 = 0x100"
  "DEFINE_TVM_CRT_ERROR kTvmErrorCategoryFunctionRegistry (Suc 0) = 0x101"
  "DEFINE_TVM_CRT_ERROR kTvmErrorCategoryFunctionRegistry 2 = 0x102"
  "DEFINE_TVM_CRT_ERROR kTvmErrorCategoryFunctionRegistry 3 = 0x103"
  "DEFINE_TVM_CRT_ERROR kTvmErrorCategoryFunctionRegistry 4 = 0x104"
  "DEFINE_TVM_CRT_ERROR kTvmErrorCategoryFraming 0 = 0x200"
  "DEFINE_TVM_CRT_ERROR kTvmErrorCategoryFraming (Suc 0) = 0x201"
  "DEFINE_TVM_CRT_ERROR kTvmErrorCategoryFraming 2 = 0x202"
  "DEFINE_TVM_CRT_ERROR kTvmErrorCategoryFraming 3 = 0x203"
  "DEFINE_TVM_CRT_ERROR kTvmErrorCategoryFraming 4 = 0x204"
  "DEFINE_TVM_CRT_ERROR kTvmErrorCategoryWriteStream 0 = 0x300"
  "DEFINE_TVM_CRT_ERROR kTvmErrorCategoryWriteStream (Suc 0) = 0x301"
  "DEFINE_TVM_CRT_ERROR kTvmErrorCategorySession 0 = 0x400"
  "DEFINE_TVM_CRT_ERROR kTvmErrorCategorySession (Suc 0) = 0x401"
  "DEFINE_TVM_CRT_ERROR kTvmErrorCategorySession 2 = 0x402"
  "DEFINE_TVM_CRT_ERROR kTvmErrorCategoryPlatform 0 = 0x500"
  "DEFINE_TVM_CRT_ERROR kTvmErrorCategoryPlatform (Suc 0) = 0x501"
  "DEFINE_TVM_CRT_ERROR kTvmErrorCategoryPlatform 2 = 0x502"
  "DEFINE_TVM_CRT_ERROR kTvmErrorCategoryPlatform 3 = 0x503"
  "DEFINE_TVM_CRT_ERROR kTvmErrorCategoryPlatform 4 = 0x504"
  "DEFINE_TVM_CRT_ERROR kTvmErrorCategoryPlatform 5 = 0x505"
  "DEFINE_TVM_CRT_ERROR kTvmErrorCategoryGenerated 0 = 0x600"
  "DEFINE_TVM_CRT_ERROR kTvmErrorCategoryExecutor 0 = 0x700"
  "DEFINE_TVM_CRT_ERROR kTvmErrorCategoryExecutor (Suc 0) = 0x701"
  "DEFINE_TVM_CRT_ERROR kTvmErrorCategoryExecutor 2 = 0x702"
  "DEFINE_TVM_CRT_ERROR kTvmErrorCategoryFunctionCall 0 = 0x800"
  "DEFINE_TVM_CRT_ERROR kTvmErrorCategoryFunctionCall (Suc 0) = 0x801"
  "DEFINE_TVM_CRT_ERROR kTvmErrorCategoryFunctionCall 2 = 0x802"
  "DEFINE_TVM_CRT_ERROR kTvmErrorCategoryFunctionCall 3 = 0x803"
  "DEFINE_TVM_CRT_ERROR kTvmErrorCategoryTimeEvaluator 0 = 0x900"
  by (simp_all add: DEFINE_TVM_CRT_ERROR_def push_bit_eq_mult)

lemma tvm_crt_error_code_eq_iff: "tvm_crt_error_code e = tvm_crt_error_code e' \<longleftrightarrow> e = e'"
  by (cases e; cases e') simp_all

lemma tvm_crt_error_code_eq_0 [simp]: "tvm_crt_error_code e = 0 \<longleftrightarrow> e = kTvmErrorNoError"
  by (cases e) simp_all

text \<open>The enum compares as its values do.\<close>

instantiation tvm_crt_error :: linorder
begin

definition less_eq_tvm_crt_error :: "tvm_crt_error \<Rightarrow> tvm_crt_error \<Rightarrow> bool" where
  "less_eq_tvm_crt_error e e' \<longleftrightarrow> tvm_crt_error_code e \<le> tvm_crt_error_code e'"

definition less_tvm_crt_error :: "tvm_crt_error \<Rightarrow> tvm_crt_error \<Rightarrow> bool" where
  "less_tvm_crt_error e e' \<longleftrightarrow> tvm_crt_error_code e < tvm_crt_error_code e'"

instance
  by standard
    (auto simp: less_eq_tvm_crt_error_def less_tvm_crt_error_def tvm_crt_error_code_eq_iff)

end

end
