(* ===== verification/Crc.thy ===== *)
theory Crc
  imports Crt_Prelude
begin

text \<open>
  The CCITT checksum of the framing layer: the table of \<^verbatim>\<open>tab/gentab_ccitt.inc\<close> and the
  routines of \<^verbatim>\<open>microtvm_rpc_common/crcccitt.c\<close>. The lemmas show that the table-driven update
  is the division by the polynomial \<open>0x1021\<close>, bit by bit, that the update is a bijection in the
  running value and in the byte, and that a message altered within two adjacent bytes always has
  another checksum.
\<close>

section \<open>The code\<close>

definition crc_tabccitt :: "u16 list" where
  "crc_tabccitt =
    [0x0000, 0x1021, 0x2042, 0x3063, 0x4084, 0x50A5, 0x60C6, 0x70E7,
     0x8108, 0x9129, 0xA14A, 0xB16B, 0xC18C, 0xD1AD, 0xE1CE, 0xF1EF,
     0x1231, 0x0210, 0x3273, 0x2252, 0x52B5, 0x4294, 0x72F7, 0x62D6,
     0x9339, 0x8318, 0xB37B, 0xA35A, 0xD3BD, 0xC39C, 0xF3FF, 0xE3DE,
     0x2462, 0x3443, 0x0420, 0x1401, 0x64E6, 0x74C7, 0x44A4, 0x5485,
     0xA56A, 0xB54B, 0x8528, 0x9509, 0xE5EE, 0xF5CF, 0xC5AC, 0xD58D,
     0x3653, 0x2672, 0x1611, 0x0630, 0x76D7, 0x66F6, 0x5695, 0x46B4,
     0xB75B, 0xA77A, 0x9719, 0x8738, 0xF7DF, 0xE7FE, 0xD79D, 0xC7BC,
     0x48C4, 0x58E5, 0x6886, 0x78A7, 0x0840, 0x1861, 0x2802, 0x3823,
     0xC9CC, 0xD9ED, 0xE98E, 0xF9AF, 0x8948, 0x9969, 0xA90A, 0xB92B,
     0x5AF5, 0x4AD4, 0x7AB7, 0x6A96, 0x1A71, 0x0A50, 0x3A33, 0x2A12,
     0xDBFD, 0xCBDC, 0xFBBF, 0xEB9E, 0x9B79, 0x8B58, 0xBB3B, 0xAB1A,
     0x6CA6, 0x7C87, 0x4CE4, 0x5CC5, 0x2C22, 0x3C03, 0x0C60, 0x1C41,
     0xEDAE, 0xFD8F, 0xCDEC, 0xDDCD, 0xAD2A, 0xBD0B, 0x8D68, 0x9D49,
     0x7E97, 0x6EB6, 0x5ED5, 0x4EF4, 0x3E13, 0x2E32, 0x1E51, 0x0E70,
     0xFF9F, 0xEFBE, 0xDFDD, 0xCFFC, 0xBF1B, 0xAF3A, 0x9F59, 0x8F78,
     0x9188, 0x81A9, 0xB1CA, 0xA1EB, 0xD10C, 0xC12D, 0xF14E, 0xE16F,
     0x1080, 0x00A1, 0x30C2, 0x20E3, 0x5004, 0x4025, 0x7046, 0x6067,
     0x83B9, 0x9398, 0xA3FB, 0xB3DA, 0xC33D, 0xD31C, 0xE37F, 0xF35E,
     0x02B1, 0x1290, 0x22F3, 0x32D2, 0x4235, 0x5214, 0x6277, 0x7256,
     0xB5EA, 0xA5CB, 0x95A8, 0x8589, 0xF56E, 0xE54F, 0xD52C, 0xC50D,
     0x34E2, 0x24C3, 0x14A0, 0x0481, 0x7466, 0x6447, 0x5424, 0x4405,
     0xA7DB, 0xB7FA, 0x8799, 0x97B8, 0xE75F, 0xF77E, 0xC71D, 0xD73C,
     0x26D3, 0x36F2, 0x0691, 0x16B0, 0x6657, 0x7676, 0x4615, 0x5634,
     0xD94C, 0xC96D, 0xF90E, 0xE92F, 0x99C8, 0x89E9, 0xB98A, 0xA9AB,
     0x5844, 0x4865, 0x7806, 0x6827, 0x18C0, 0x08E1, 0x3882, 0x28A3,
     0xCB7D, 0xDB5C, 0xEB3F, 0xFB1E, 0x8BF9, 0x9BD8, 0xABBB, 0xBB9A,
     0x4A75, 0x5A54, 0x6A37, 0x7A16, 0x0AF1, 0x1AD0, 0x2AB3, 0x3A92,
     0xFD2E, 0xED0F, 0xDD6C, 0xCD4D, 0xBDAA, 0xAD8B, 0x9DE8, 0x8DC9,
     0x7C26, 0x6C07, 0x5C64, 0x4C45, 0x3CA2, 0x2C83, 0x1CE0, 0x0CC1,
     0xEF1F, 0xFF3E, 0xCF5D, 0xDF7C, 0xAF9B, 0xBFBA, 0x8FD9, 0x9FF8,
     0x6E17, 0x7E36, 0x4E55, 0x5E74, 0x2E93, 0x3EB2, 0x0ED1, 0x1EF0]"

definition CRC_POLY_CCITT :: u16 where
  "CRC_POLY_CCITT = 0x1021"

definition CRC_START_XMODEM :: u16 where
  "CRC_START_XMODEM = 0x0000"

definition CRC_START_CCITT_1D0F :: u16 where
  "CRC_START_CCITT_1D0F = 0x1D0F"

definition CRC_START_CCITT_FFFF :: u16 where
  "CRC_START_CCITT_FFFF = 0xFFFF"

text \<open>
  The body of the loop and of \<^verbatim>\<open>update_crc_ccitt\<close> are the same expression. The index is masked
  with \<open>0xFF\<close>, so it is always inside the table of 256 entries.
\<close>

definition update_crc_ccitt :: "u16 \<Rightarrow> u8 \<Rightarrow> u16" where
  "update_crc_ccitt crc c =
     push_bit 8 crc XOR crc_tabccitt ! unat ((drop_bit 8 crc XOR ucast c) AND 0x00FF)"

text \<open>
  \<^verbatim>\<open>input_str\<close> is either \<^verbatim>\<open>NULL\<close> (\<open>None\<close>) or points to \<^verbatim>\<open>num_bytes\<close> readable bytes.
\<close>

fun crc_ccitt_loop :: "u16 \<Rightarrow> u8 list \<Rightarrow> u16" where
  "crc_ccitt_loop crc [] = crc"
| "crc_ccitt_loop crc (c # cs) =
     crc_ccitt_loop
       (push_bit 8 crc XOR crc_tabccitt ! unat ((drop_bit 8 crc XOR ucast c) AND 0x00FF)) cs"

definition crc_ccitt_generic :: "u8 list option \<Rightarrow> u16 \<Rightarrow> u16" where
  "crc_ccitt_generic input_str start_value =
     (case input_str of None \<Rightarrow> start_value | Some bytes \<Rightarrow> crc_ccitt_loop start_value bytes)"

definition crc_xmodem :: "u8 list option \<Rightarrow> u16" where
  "crc_xmodem input_str = crc_ccitt_generic input_str CRC_START_XMODEM"

definition crc_ccitt_1d0f :: "u8 list option \<Rightarrow> u16" where
  "crc_ccitt_1d0f input_str = crc_ccitt_generic input_str CRC_START_CCITT_1D0F"

definition crc_ccitt_ffff :: "u8 list option \<Rightarrow> u16" where
  "crc_ccitt_ffff input_str = crc_ccitt_generic input_str CRC_START_CCITT_FFFF"

section \<open>The reference: division by the polynomial\<close>

definition crc_bit :: "u16 \<Rightarrow> u16" where
  "crc_bit x = (if bit x 15 then push_bit 1 x XOR CRC_POLY_CCITT else push_bit 1 x)"

definition crc_bits :: "nat \<Rightarrow> u16 \<Rightarrow> u16" where
  "crc_bits n = crc_bit ^^ n"

definition crc_byte_spec :: "u16 \<Rightarrow> u8 \<Rightarrow> u16" where
  "crc_byte_spec crc c = crc_bits 8 (crc XOR push_bit 8 (ucast c))"

fun crc_spec :: "u16 \<Rightarrow> u8 list \<Rightarrow> u16" where
  "crc_spec crc [] = crc"
| "crc_spec crc (c # cs) = crc_spec (crc_byte_spec crc c) cs"

section \<open>Linearity\<close>

lemma crc_bit_xor: "crc_bit (x XOR y) = crc_bit x XOR crc_bit y"
  by (simp add: crc_bit_def bit_xor_iff push_bit_xor ac_simps)

lemma crc_bits_0 [simp]: "crc_bits 0 x = x"
  by (simp add: crc_bits_def)

lemma crc_bits_Suc: "crc_bits (Suc n) x = crc_bits n (crc_bit x)"
  by (simp add: crc_bits_def funpow_swap1)

lemma crc_bits_add: "crc_bits (m + n) x = crc_bits m (crc_bits n x)"
  by (simp add: crc_bits_def funpow_add)

lemma crc_bits_xor: "crc_bits n (x XOR y) = crc_bits n x XOR crc_bits n y"
  by (induction n arbitrary: x y) (simp_all add: crc_bits_Suc crc_bit_xor)

text \<open>The table holds the remainder of every byte: 256 evaluations.\<close>

lemma crc_tabccitt_length [simp]: "length crc_tabccitt = 256"
  by (simp add: crc_tabccitt_def)

lemma crc_bits_8: "crc_bits 8 x = crc_bit (crc_bit (crc_bit (crc_bit (crc_bit (crc_bit (crc_bit (crc_bit x)))))))"
  by (simp add: crc_bits_def numeral_eq_Suc)


lemma upt_words: "map of_nat [0..<256] = [0 :: u16, 1, 2, 3, 4, 5, 6, 7, 8, 9, 10, 11, 12, 13, 14, 15, 16, 17, 18, 19, 20, 21, 22, 23, 24, 25, 26, 27, 28, 29, 30, 31, 32, 33, 34, 35, 36, 37, 38, 39, 40, 41, 42, 43, 44, 45, 46, 47, 48, 49, 50, 51, 52, 53, 54, 55, 56, 57, 58, 59, 60, 61, 62, 63, 64, 65, 66, 67, 68, 69, 70, 71, 72, 73, 74, 75, 76, 77, 78, 79, 80, 81, 82, 83, 84, 85, 86, 87, 88, 89, 90, 91, 92, 93, 94, 95, 96, 97, 98, 99, 100, 101, 102, 103, 104, 105, 106, 107, 108, 109, 110, 111, 112, 113, 114, 115, 116, 117, 118, 119, 120, 121, 122, 123, 124, 125, 126, 127, 128, 129, 130, 131, 132, 133, 134, 135, 136, 137, 138, 139, 140, 141, 142, 143, 144, 145, 146, 147, 148, 149, 150, 151, 152, 153, 154, 155, 156, 157, 158, 159, 160, 161, 162, 163, 164, 165, 166, 167, 168, 169, 170, 171, 172, 173, 174, 175, 176, 177, 178, 179, 180, 181, 182, 183, 184, 185, 186, 187, 188, 189, 190, 191, 192, 193, 194, 195, 196, 197, 198, 199, 200, 201, 202, 203, 204, 205, 206, 207, 208, 209, 210, 211, 212, 213, 214, 215, 216, 217, 218, 219, 220, 221, 222, 223, 224, 225, 226, 227, 228, 229, 230, 231, 232, 233, 234, 235, 236, 237, 238, 239, 240, 241, 242, 243, 244, 245, 246, 247, 248, 249, 250, 251, 252, 253, 254, 255]"
  by (simp add: upt_rec)

lemma crc_tabccitt_map: "crc_tabccitt = map (\<lambda>i. crc_bits 8 (push_bit 8 i)) (map of_nat [0..<256])"
  unfolding upt_words list.map crc_tabccitt_def list.inject
  by (intro conjI refl) (simp_all add: crc_bits_8 crc_bit_def CRC_POLY_CCITT_def)
lemma crc_tabccitt_nth: "i < 256 \<Longrightarrow> crc_tabccitt ! i = crc_bits 8 (push_bit 8 (of_nat i))"
  by (simp add: crc_tabccitt_map)

section \<open>The table-driven update is the division\<close>

lemma and_0xFF: "(x :: u16) AND 0xFF = take_bit 8 x"
  by (simp add: take_bit_eq_mask mask_eq_exp_minus_1)

text \<open>Bits that stay below bit 15 are only shifted.\<close>

lemma crc_bits_shift:
  "m + n \<le> 8 \<Longrightarrow> crc_bits n (push_bit m (take_bit 8 x)) = push_bit (m + n) (take_bit 8 x)"
proof (induction n arbitrary: m)
  case 0
  show ?case by simp
next
  case (Suc n)
  have "crc_bit (push_bit m (take_bit 8 x)) = push_bit (Suc m) (take_bit 8 x)"
    using Suc.prems by (auto simp: crc_bit_def bit_push_bit_iff bit_take_bit_iff push_bit_push_bit)
  then show ?case
    using Suc.IH [of "Suc m"] Suc.prems by (simp add: crc_bits_Suc)
qed

lemma crc_bits_low_byte: "crc_bits 8 (take_bit 8 x) = push_bit 8 x"
proof -
  have "crc_bits 8 (push_bit 0 (take_bit 8 x)) = push_bit (0 + 8) (take_bit 8 x)"
    by (rule crc_bits_shift) simp
  also have "\<dots> = push_bit 8 x"
    by (rule bit_eqI) (auto simp: bit_simps)
  finally show ?thesis by simp
qed

lemma crc_index_split:
  "(crc :: u16) XOR push_bit 8 (ucast (c :: u8)) =
   take_bit 8 crc XOR push_bit 8 (take_bit 8 (drop_bit 8 crc XOR ucast c))"
  by (rule bit_eqI) (auto simp: bit_simps)

lemma crc_index_bound: "unat (take_bit 8 (x :: u16)) < 256"
proof -
  have "unat (take_bit 8 x) = take_bit 8 (unat x)"
    by (simp add: unsigned_take_bit_eq)
  then show ?thesis by (simp add: take_bit_eq_mod)
qed

lemma update_crc_ccitt_spec: "update_crc_ccitt crc c = crc_byte_spec crc c"
proof -
  define h where "h = drop_bit 8 crc XOR ucast c"
  have "crc_tabccitt ! unat (take_bit 8 h) = crc_bits 8 (push_bit 8 (take_bit 8 h))"
    using crc_tabccitt_nth [OF crc_index_bound [of h]] by simp
  then have "update_crc_ccitt crc c = push_bit 8 crc XOR crc_bits 8 (push_bit 8 (take_bit 8 h))"
    by (simp only: update_crc_ccitt_def and_0xFF h_def)
  also have "\<dots> = crc_byte_spec crc c"
    by (simp only: crc_byte_spec_def crc_index_split [of crc c] crc_bits_xor crc_bits_low_byte h_def)
  finally show ?thesis .
qed

lemma crc_ccitt_loop_spec: "crc_ccitt_loop crc bytes = crc_spec crc bytes"
  by (induction bytes arbitrary: crc)
    (simp_all add: update_crc_ccitt_def [symmetric] update_crc_ccitt_spec)

section \<open>The update is a bijection\<close>

lemma crc_bit_eq_0:
  assumes "crc_bit x = 0"
  shows "x = 0"
proof -
  have "bit (crc_bit x) 0 = bit x 15"
    by (simp only: crc_bit_def CRC_POLY_CCITT_def bit_xor_iff bit_push_bit_iff if_distrib [of "\<lambda>w. bit w 0"])
      (simp add: bit_0)
  with assms have top: "\<not> bit x 15"
    by simp
  with assms have "push_bit 1 x = 0"
    by (simp add: crc_bit_def)
  then have shifted: "\<not> bit (push_bit 1 x) n" for n
    by (simp only: bit_0_eq bot_apply) simp
  have "\<not> bit x n" if "Suc n < 16" for n
    using shifted [of "Suc n"] that unfolding bit_push_bit_iff by simp
  with top have "\<not> bit x n" if "n < 16" for n
    using that by (cases "n = 15") auto
  then show ?thesis
    by (intro bit_eqI) simp
qed

lemma crc_bits_eq_0: "crc_bits n x = 0 \<Longrightarrow> x = 0"
  by (induction n arbitrary: x) (auto simp: crc_bits_Suc dest: crc_bit_eq_0)

lemma crc_bits_inject [simp]: "crc_bits n x = crc_bits n y \<longleftrightarrow> x = y"
proof
  assume "crc_bits n x = crc_bits n y"
  then have "crc_bits n (x XOR y) = 0"
    by (simp add: crc_bits_xor)
  then have "x XOR y = 0"
    by (rule crc_bits_eq_0)
  then have "(x XOR y) XOR y = 0 XOR y"
    by (rule arg_cong)
  then show "x = y"
    by (simp add: xor.assoc)
qed simp

lemma xor_cancel_right [simp]: "(x :: 'a :: len word) XOR z = y XOR z \<longleftrightarrow> x = y"
  by (metis xor.assoc xor.right_neutral xor_self_eq)

lemma crc_byte_spec_inject_crc [simp]: "crc_byte_spec x c = crc_byte_spec y c \<longleftrightarrow> x = y"
  by (simp add: crc_byte_spec_def)

lemma crc_spec_inject_crc [simp]: "crc_spec x bytes = crc_spec y bytes \<longleftrightarrow> x = y"
  by (induction bytes arbitrary: x y) auto

lemma crc_spec_append: "crc_spec crc (xs @ ys) = crc_spec (crc_spec crc xs) ys"
  by (induction xs arbitrary: crc) auto

lemma crc_two_bytes:
  "crc_byte_spec (crc_byte_spec crc a) b =
   crc_bits 16 (crc XOR (push_bit 8 (ucast a) XOR ucast b))"
proof -
  have "take_bit 8 (ucast b :: u16) = ucast b"
    by (rule bit_eqI) (auto simp: bit_simps dest: bit_imp_le_length)
  then have b: "push_bit 8 (ucast b :: u16) = crc_bits 8 (ucast b)"
    using crc_bits_low_byte [of "ucast b"] by simp
  have "crc_byte_spec (crc_byte_spec crc a) b =
      crc_bits 8 (crc_bits 8 (crc XOR push_bit 8 (ucast a)) XOR crc_bits 8 (ucast b))"
    by (simp only: crc_byte_spec_def b)
  also have "\<dots> = crc_bits (8 + 8) ((crc XOR push_bit 8 (ucast a)) XOR ucast b)"
    by (simp only: crc_bits_add crc_bits_xor)
  finally show ?thesis
    by (simp add: xor.assoc)
qed

lemma two_bytes_inject:
  "push_bit 8 (ucast (a :: u8) :: u16) XOR ucast (b :: u8) = push_bit 8 (ucast a') XOR ucast b' \<longleftrightarrow>
   a = a' \<and> b = b'"
proof
  assume eq: "push_bit 8 (ucast a :: u16) XOR ucast b = push_bit 8 (ucast a') XOR ucast b'"
  have "bit a n = bit a' n" if "n < 8" for n
    using arg_cong [OF eq, of "\<lambda>w. bit w (n + 8)"] that
    by (auto simp: bit_simps dest: bit_imp_le_length)
  moreover have "bit b n = bit b' n" if "n < 8" for n
    using arg_cong [OF eq, of "\<lambda>w. bit w n"] that by (simp add: bit_simps)
  ultimately show "a = a' \<and> b = b'"
    by (auto intro!: bit_eqI)
qed simp

section \<open>Properties\<close>

text \<open>
  C18. The table-driven checksum of \<^verbatim>\<open>crcccitt.c\<close> is the remainder of the message by the
  polynomial \<open>0x1021\<close>, computed one bit at a time, for every message and start value, and one
  call of \<^verbatim>\<open>update_crc_ccitt\<close> is one byte of it.
\<close>

theorem crc_table_equals_division:
  "crc_ccitt_generic (Some bytes) start_value = crc_spec start_value bytes
   \<and> update_crc_ccitt crc c = crc_byte_spec crc c"
  by (simp add: crc_ccitt_generic_def crc_ccitt_loop_spec update_crc_ccitt_spec)

text \<open>
  C19. Every error burst of at most 16 bits inside two adjacent bytes is detected: two messages
  that differ only in two neighbouring bytes have different checksums, from every start value.
\<close>

theorem crc_detects_burst:
  assumes "(a, b) \<noteq> (a', b')"
  shows "crc_ccitt_generic (Some (pre @ [a, b] @ post)) start_value
    \<noteq> crc_ccitt_generic (Some (pre @ [a', b'] @ post)) start_value"
  using assms
  by (simp add: crc_ccitt_generic_def crc_ccitt_loop_spec crc_spec_append crc_two_bytes
      xor.commute [of "crc_spec start_value pre"] two_bytes_inject)

theorem crc_detects_burst_witness:
  "((0xFF :: u8), (0xFD :: u8)) \<noteq> (0xFF, 0xFC)
   \<and> crc_ccitt_generic (Some ([1] @ [0xFF, 0xFD] @ [2])) CRC_START_CCITT_FFFF
     \<noteq> crc_ccitt_generic (Some ([1] @ [0xFF, 0xFC] @ [2])) CRC_START_CCITT_FFFF"
proof
  show ne: "((0xFF :: u8), (0xFD :: u8)) \<noteq> (0xFF, 0xFC)" by simp
  show "crc_ccitt_generic (Some ([1] @ [0xFF, 0xFD] @ [2])) CRC_START_CCITT_FFFF
     \<noteq> crc_ccitt_generic (Some ([1] @ [0xFF, 0xFC] @ [2])) CRC_START_CCITT_FFFF"
    by (rule crc_detects_burst [OF ne])
qed

end
