(* ===== verification/Ring_Buffer.thy ===== *)
theory Ring_Buffer
  imports Crt_Prelude
begin

text \<open>
  The ring buffer of \<^verbatim>\<open>src/host_driven/ringbuffer.c\<close>, with its 16-bit indices, and the contract of
  a byte queue as a locale. The buffer refines a queue of at most \<open>size - 1\<close> bytes; writing to a
  full buffer is not refused and empties it.
\<close>

section \<open>The code\<close>

text \<open>
  \<^verbatim>\<open>data\<close> is a flexible array member: the storage behind the header, as long as its owner made it.
\<close>

record ring_buffer =
  rb_head :: u16
  rb_tail :: u16
  rb_size :: u16
  rb_data :: "u8 list"

definition buf_reset :: "ring_buffer \<Rightarrow> int \<Rightarrow> ring_buffer" where
  "buf_reset buf sz = buf\<lparr>rb_head := 0, rb_tail := 0, rb_size := word_of_int sz\<rparr>"

definition buf_len :: "ring_buffer \<Rightarrow> int" where
  "buf_len buf =
     (let len = uint (rb_tail buf) - uint (rb_head buf)
      in if len < 0 then len + uint (rb_size buf) else len)"

definition buf_isfull :: "ring_buffer \<Rightarrow> bool" where
  "buf_isfull buf \<longleftrightarrow> buf_len buf = uint (rb_size buf) - 1"

definition buf_isempty :: "ring_buffer \<Rightarrow> bool" where
  "buf_isempty buf \<longleftrightarrow> rb_head buf = rb_tail buf"

definition advance :: "u16 \<Rightarrow> u16 \<Rightarrow> int" where
  "advance i sz = (let i = i + 1 in if i \<ge> sz then 0 else uint i)"

definition buf_get_byte :: "ring_buffer \<Rightarrow> (u8 \<times> ring_buffer) option" where
  "buf_get_byte buf = do {
     item \<leftarrow> arr_get (rb_data buf) (unat (rb_head buf));
     Some (item, buf\<lparr>rb_head := word_of_int (advance (rb_head buf) (rb_size buf))\<rparr>)
   }"

definition buf_put_byte :: "ring_buffer \<Rightarrow> u8 \<Rightarrow> ring_buffer option" where
  "buf_put_byte buf v = do {
     d \<leftarrow> arr_set (rb_data buf) (unat (rb_tail buf)) v;
     Some (buf\<lparr>rb_data := d, rb_tail := word_of_int (advance (rb_tail buf) (rb_size buf))\<rparr>)
   }"

section \<open>The contract of a byte queue\<close>

fun put_bytes :: "('q \<Rightarrow> u8 \<Rightarrow> 'q option) \<Rightarrow> 'q \<Rightarrow> u8 list \<Rightarrow> 'q option" where
  "put_bytes put q [] = Some q"
| "put_bytes put q (v # vs) = do { q' \<leftarrow> put q v; put_bytes put q' vs }"

fun get_bytes :: "('q \<Rightarrow> (u8 \<times> 'q) option) \<Rightarrow> 'q \<Rightarrow> nat \<Rightarrow> (u8 list \<times> 'q) option" where
  "get_bytes get q 0 = Some ([], q)"
| "get_bytes get q (Suc n) = do {
     (v, q') \<leftarrow> get q;
     (vs, q'') \<leftarrow> get_bytes get q' n;
     Some (v # vs, q'')
   }"

locale byte_queue =
  fixes inv :: "'q \<Rightarrow> bool"
    and contents :: "'q \<Rightarrow> u8 list"
    and room :: "'q \<Rightarrow> nat"
    and put :: "'q \<Rightarrow> u8 \<Rightarrow> 'q option"
    and get :: "'q \<Rightarrow> (u8 \<times> 'q) option"
  assumes put_ok: "inv q \<Longrightarrow> 0 < room q \<Longrightarrow>
      \<exists>q'. put q v = Some q' \<and> inv q' \<and> contents q' = contents q @ [v] \<and> room q' = room q - 1"
    and get_ok: "inv q \<Longrightarrow> contents q = v # vs \<Longrightarrow>
      \<exists>q'. get q = Some (v, q') \<and> inv q' \<and> contents q' = vs \<and> room q' = Suc (room q)"
begin

lemma put_bytes_ok:
  "inv q \<Longrightarrow> length vs \<le> room q \<Longrightarrow>
   \<exists>q'. put_bytes put q vs = Some q' \<and> inv q' \<and> contents q' = contents q @ vs
     \<and> room q' = room q - length vs"
proof (induction vs arbitrary: q)
  case Nil
  then show ?case by simp
next
  case (Cons v vs)
  then obtain q1 where "put q v = Some q1" and q1: "inv q1" "contents q1 = contents q @ [v]"
    "room q1 = room q - 1"
    using put_ok [of q v] by auto
  moreover have "length vs \<le> room q1"
    using Cons.prems q1 by simp
  ultimately show ?case
    using Cons.IH [of q1] by auto
qed

lemma get_bytes_ok:
  "inv q \<Longrightarrow> contents q = vs @ ws \<Longrightarrow>
   \<exists>q'. get_bytes get q (length vs) = Some (vs, q') \<and> inv q' \<and> contents q' = ws
     \<and> room q' = room q + length vs"
proof (induction vs arbitrary: q)
  case Nil
  then show ?case by simp
next
  case (Cons v vs)
  then obtain q1 where "get q = Some (v, q1)" and q1: "inv q1" "contents q1 = vs @ ws"
    "room q1 = Suc (room q)"
    using get_ok [of q v "vs @ ws"] by auto
  then show ?case
    using Cons.IH [OF q1(1,2)] by auto
qed

text \<open>What is put in comes out, in order, and the queue has the room it had before.\<close>

lemma queue_round_trip:
  assumes "inv q" and "contents q = []" and "length vs \<le> room q"
  shows "\<exists>q1 q2. put_bytes put q vs = Some q1 \<and> get_bytes get q1 (length vs) = Some (vs, q2)
    \<and> inv q2 \<and> contents q2 = [] \<and> room q2 = room q"
  using put_bytes_ok [OF assms(1,3)] get_bytes_ok [of _ vs "[]"] assms(2,3) by fastforce

end

section \<open>The ring buffer is a byte queue\<close>

definition rb_wf :: "ring_buffer \<Rightarrow> bool" where
  "rb_wf buf \<longleftrightarrow> rb_head buf < rb_size buf \<and> rb_tail buf < rb_size buf
     \<and> unat (rb_size buf) \<le> length (rb_data buf)"

definition rb_contents :: "ring_buffer \<Rightarrow> u8 list" where
  "rb_contents buf =
     map (\<lambda>i. rb_data buf ! ((unat (rb_head buf) + i) mod unat (rb_size buf))) [0..<nat (buf_len buf)]"

definition rb_room :: "ring_buffer \<Rightarrow> nat" where
  "rb_room buf = unat (rb_size buf) - 1 - nat (buf_len buf)"

text \<open>The indices as natural numbers.\<close>

lemma unat_advance:
  assumes "i < sz"
  shows "unat (word_of_int (advance i sz) :: u16) = Suc (unat i) mod unat sz"
proof -
  have i: "unat i < unat sz" and s: "unat sz < 65536"
    using assms unsigned_less [of sz] by (simp_all add: word_less_nat_alt)
  then have "unat (i + 1) = Suc (unat i)"
    by (simp add: unat_word_ariths)
  then show ?thesis
    using i by (auto simp: advance_def Let_def word_le_nat_alt mod_Suc)
qed

lemma rb_wfD:
  assumes "rb_wf buf"
  shows "unat (rb_head buf) < unat (rb_size buf)" "unat (rb_tail buf) < unat (rb_size buf)"
    "unat (rb_tail buf) < length (rb_data buf)" "unat (rb_head buf) < length (rb_data buf)"
  using assms by (auto simp: rb_wf_def word_less_nat_alt)

lemma buf_len_unat:
  "buf_len buf = (let len = int (unat (rb_tail buf)) - int (unat (rb_head buf))
     in if len < 0 then len + int (unat (rb_size buf)) else len)"
  unfolding buf_len_def uint_nat ..

text \<open>
  The arithmetic of the indices, on natural numbers: \<open>s\<close> is the size, \<open>h\<close> the head and \<open>t\<close> the
  tail.
\<close>

definition rb_dist :: "nat \<Rightarrow> nat \<Rightarrow> nat \<Rightarrow> nat" where
  "rb_dist s h t = (if h \<le> t then t - h else t + s - h)"

lemma rb_dist_less: "h < s \<Longrightarrow> t < s \<Longrightarrow> rb_dist s h t < s"
  by (auto simp: rb_dist_def)

lemma rb_dist_put:
  "h < s \<Longrightarrow> t < s \<Longrightarrow> rb_dist s h t < s - 1 \<Longrightarrow> rb_dist s h (Suc t mod s) = Suc (rb_dist s h t)"
  by (cases "Suc t = s") (auto simp: rb_dist_def split: if_splits)

lemma rb_dist_put_full:
  "h < s \<Longrightarrow> t < s \<Longrightarrow> rb_dist s h t = s - 1 \<Longrightarrow> Suc t mod s = h"
  by (cases "Suc t = s") (auto simp: rb_dist_def split: if_splits)

lemma rb_dist_get:
  "h < s \<Longrightarrow> t < s \<Longrightarrow> rb_dist s h t = Suc n \<Longrightarrow> rb_dist s (Suc h mod s) t = n"
  by (cases "Suc h = s") (auto simp: rb_dist_def split: if_splits)

lemma rb_dist_tail: "h < s \<Longrightarrow> t < s \<Longrightarrow> (h + rb_dist s h t) mod s = t"
  by (auto simp: rb_dist_def)

lemma rb_index_less_tail:
  assumes "h < s" and "t < s" and "i < rb_dist s h t"
  shows "(h + i) mod s \<noteq> t"
proof
  assume "(h + i) mod s = t"
  then show False
    using assms by (cases "h + i < s") (auto simp: rb_dist_def mod_if split: if_splits)
qed

lemma buf_len_dist:
  assumes "rb_wf buf"
  shows "buf_len buf = int (rb_dist (unat (rb_size buf)) (unat (rb_head buf)) (unat (rb_tail buf)))"
  using rb_wfD(1,2) [OF assms] unfolding buf_len_unat rb_dist_def Let_def
  by (simp del: of_nat_unat add: of_nat_diff not_le)

lemma nat_buf_len: "rb_wf buf \<Longrightarrow>
  nat (buf_len buf) = rb_dist (unat (rb_size buf)) (unat (rb_head buf)) (unat (rb_tail buf))"
  by (simp add: buf_len_dist del: of_nat_unat)

lemma length_rb_contents [simp]: "length (rb_contents buf) = nat (buf_len buf)"
  by (simp add: rb_contents_def)

lemma buf_put_byte_ok:
  assumes wf: "rb_wf buf" and room: "0 < rb_room buf"
  shows "\<exists>buf'. buf_put_byte buf v = Some buf' \<and> rb_wf buf' \<and> rb_contents buf' = rb_contents buf @ [v]
    \<and> rb_room buf' = rb_room buf - 1"
proof -
  let ?s = "unat (rb_size buf)" and ?h = "unat (rb_head buf)" and ?t = "unat (rb_tail buf)"
  let ?b = "buf\<lparr>rb_data := (rb_data buf)[?t := v], rb_tail := word_of_int (advance (rb_tail buf) (rb_size buf))\<rparr>"
  note b = rb_wfD [OF wf]
  have put: "buf_put_byte buf v = Some ?b"
    using b by (simp add: buf_put_byte_def)
  have t: "unat (rb_tail ?b) = Suc ?t mod ?s"
    using unat_advance [of "rb_tail buf" "rb_size buf"] wf by (simp add: rb_wf_def)
  have wf': "rb_wf ?b"
    using wf t b by (simp add: rb_wf_def word_less_nat_alt)
  have d: "rb_dist ?s ?h ?t < ?s - 1"
    using room wf by (simp add: rb_room_def nat_buf_len)
  have len: "nat (buf_len ?b) = Suc (nat (buf_len buf))"
    using nat_buf_len [OF wf'] nat_buf_len [OF wf] t rb_dist_put [OF b(1,2) d] by simp
  have old: "rb_data ?b ! ((?h + i) mod ?s) = rb_data buf ! ((?h + i) mod ?s)" if "i < nat (buf_len buf)" for i
    using rb_index_less_tail [OF b(1,2), of i] that nat_buf_len [OF wf] by (simp add: nth_list_update)
  have new: "rb_data ?b ! ((?h + nat (buf_len buf)) mod ?s) = v"
    using rb_dist_tail [OF b(1,2)] nat_buf_len [OF wf] b by simp
  have "rb_contents ?b = rb_contents buf @ [v]"
    unfolding rb_contents_def len upt_Suc_append [OF le0] map_append
    using old new by (intro arg_cong2 [where f = "(@)"] map_cong) simp_all
  then show ?thesis
    using put wf' len by (simp add: rb_room_def)
qed

lemma buf_get_byte_ok:
  assumes wf: "rb_wf buf" and c: "rb_contents buf = v # vs"
  shows "\<exists>buf'. buf_get_byte buf = Some (v, buf') \<and> rb_wf buf' \<and> rb_contents buf' = vs
    \<and> rb_room buf' = Suc (rb_room buf)"
proof -
  let ?s = "unat (rb_size buf)" and ?h = "unat (rb_head buf)" and ?t = "unat (rb_tail buf)"
  let ?b = "buf\<lparr>rb_head := word_of_int (advance (rb_head buf) (rb_size buf))\<rparr>"
  note b = rb_wfD [OF wf]
  have h: "unat (rb_head ?b) = Suc ?h mod ?s"
    using unat_advance [of "rb_head buf" "rb_size buf"] wf by (simp add: rb_wf_def)
  have wf': "rb_wf ?b"
    using wf h b by (simp add: rb_wf_def word_less_nat_alt)
  have n: "nat (buf_len buf) = Suc (length vs)"
    using arg_cong [OF c, of length] by simp
  have d: "rb_dist ?s ?h ?t = Suc (length vs)"
    using n nat_buf_len [OF wf] by simp
  have len: "nat (buf_len ?b) = length vs"
    using nat_buf_len [OF wf'] h rb_dist_get [OF b(1,2) d] by simp
  have cs: "v # vs = map (\<lambda>i. rb_data buf ! ((?h + i) mod ?s)) (0 # map Suc [0..<length vs])"
    using c unfolding rb_contents_def n upt_conv_Cons [OF zero_less_Suc] map_Suc_upt by simp
  then have v: "rb_data buf ! ?h = v"
    using b by simp
  have "rb_contents ?b = map (\<lambda>i. rb_data buf ! ((Suc ?h mod ?s + i) mod ?s)) [0..<length vs]"
    unfolding rb_contents_def len using h by simp
  also have "\<dots> = vs"
    using cs by (simp add: mod_add_left_eq comp_def)
  finally have "rb_contents ?b = vs" .
  moreover have "buf_get_byte buf = Some (v, ?b)"
    using v b by (simp add: buf_get_byte_def)
  moreover have "rb_room ?b = Suc (rb_room buf)"
    using len n rb_dist_less [OF b(1,2)] d by (simp add: rb_room_def)
  ultimately show ?thesis
    using wf' by blast
qed

interpretation rbq: byte_queue rb_wf rb_contents rb_room buf_put_byte buf_get_byte
  by unfold_locales (rule buf_put_byte_ok buf_get_byte_ok; assumption)+

lemma buf_put_byte_full:
  assumes wf: "rb_wf buf" and full: "buf_isfull buf"
  shows "\<exists>buf'. buf_put_byte buf v = Some buf' \<and> rb_wf buf' \<and> buf_isempty buf'"
proof -
  let ?s = "unat (rb_size buf)" and ?h = "unat (rb_head buf)" and ?t = "unat (rb_tail buf)"
  note b = rb_wfD [OF wf]
  have "int (rb_dist ?s ?h ?t) = int ?s - 1"
    using full buf_len_dist [OF wf] unfolding buf_isfull_def uint_nat by simp
  then have "rb_dist ?s ?h ?t = ?s - 1"
    by linarith
  then have t: "Suc ?t mod ?s = ?h"
    by (rule rb_dist_put_full [OF b(1,2)])
  then have "word_of_int (advance (rb_tail buf) (rb_size buf)) = rb_head buf"
    using unat_advance [of "rb_tail buf" "rb_size buf"] wf
    by (intro word_unat_eq_iff [THEN iffD2]) (simp add: rb_wf_def)
  then show ?thesis
    using wf b by (simp add: buf_put_byte_def rb_wf_def buf_isempty_def)
qed

lemma buf_reset_wf:
  assumes "0 < sz" and "sz < 65536" and "nat sz \<le> length (rb_data buf)"
  shows "rb_wf (buf_reset buf sz) \<and> rb_contents (buf_reset buf sz) = []
    \<and> rb_room (buf_reset buf sz) = nat sz - 1"
  using assms
  by (simp add: rb_wf_def buf_reset_def rb_contents_def rb_room_def buf_len_def word_less_nat_alt
      unsigned_of_int take_bit_int_eq_self nat_less_iff)

section \<open>Properties\<close>

text \<open>
  C33. The serial buffer delivers what was put in, in order: after a reset to \<open>sz\<close> bytes, any \<open>sz - 1\<close>
  bytes or fewer are accepted one by one and read back as they were written, every access stays
  inside the storage, and the buffer is empty again.
\<close>

theorem ring_buffer_fifo:
  assumes "0 < sz" and "sz < 65536" and "nat sz \<le> length (rb_data buf)" and "length vs < nat sz"
  shows "\<exists>b1 b2. put_bytes buf_put_byte (buf_reset buf sz) vs = Some b1
    \<and> buf_len b1 = int (length vs)
    \<and> get_bytes buf_get_byte b1 (length vs) = Some (vs, b2) \<and> buf_isempty b2"
proof -
  note r = buf_reset_wf [OF assms(1-3)]
  have "length vs \<le> rb_room (buf_reset buf sz)"
    using r assms by simp
  then obtain b1 where b1: "put_bytes buf_put_byte (buf_reset buf sz) vs = Some b1" "rb_wf b1"
    "rb_contents b1 = vs"
    using rbq.put_bytes_ok [of "buf_reset buf sz" vs] r by auto
  then obtain b2 where b2: "get_bytes buf_get_byte b1 (length vs) = Some (vs, b2)" "rb_wf b2"
    "rb_contents b2 = []"
    using rbq.get_bytes_ok [of b1 vs "[]"] by auto
  have "buf_len b1 = int (length vs)"
    using arg_cong [OF b1(3), of length] buf_len_dist [OF b1(2)] by simp
  moreover have "buf_isempty b2"
    using arg_cong [OF b2(3), of length] nat_buf_len [OF b2(2)] rb_wfD [OF b2(2)]
    by (auto simp: buf_isempty_def rb_dist_def word_unat_eq_iff split: if_splits)
  ultimately show ?thesis
    using b1 b2 by blast
qed

text \<open>A buffer of four bytes behind the header, and three bytes through it.\<close>

definition rb_example :: ring_buffer where
  "rb_example = \<lparr>rb_head = 9, rb_tail = 2, rb_size = 0, rb_data = [0, 0, 0, 0]\<rparr>"

theorem ring_buffer_fifo_witness:
  "\<exists>b1 b2. put_bytes buf_put_byte (buf_reset rb_example 4) [7, 8, 9] = Some b1
    \<and> buf_len b1 = int (length [7, 8, 9 :: u8])
    \<and> get_bytes buf_get_byte b1 (length [7, 8, 9 :: u8]) = Some ([7, 8, 9], b2) \<and> buf_isempty b2"
  by (rule ring_buffer_fifo) (simp_all add: rb_example_def)

text \<open>
  A write is not guarded: putting a byte into a full buffer is accepted, and the buffer is then
  empty, so all \<open>size - 1\<close> unread bytes and the new one are lost.
\<close>

lemma ring_buffer_overrun:
  assumes "rb_wf buf" and "buf_isfull buf"
  shows "\<exists>buf'. buf_put_byte buf v = Some buf' \<and> buf_isempty buf' \<and> rb_contents buf' = []"
proof -
  obtain buf' where "buf_put_byte buf v = Some buf'" "rb_wf buf'" "buf_isempty buf'"
    using buf_put_byte_full [OF assms] by blast
  moreover have "rb_contents buf' = []"
    using \<open>buf_isempty buf'\<close> by (simp add: rb_contents_def buf_isempty_def buf_len_def)
  ultimately show ?thesis
    by blast
qed

end
