(* ===== verification/Frame_Buffer.thy ===== *)
theory Frame_Buffer
  imports Crt_Prelude
begin

text \<open>
  \<^verbatim>\<open>FrameBuffer\<close> of \<^verbatim>\<open>microtvm_rpc_common/frame_buffer.cc\<close>: the linear buffer in which a packet
  is assembled and from which it is read. The lemmas show that it is a FIFO of bytes of bounded
  capacity which takes as much of a write as fits, and never touches memory outside its storage.
\<close>

section \<open>The code\<close>

record frame_buffer =
  fb_data :: "u8 list"
  fb_capacity :: nat
  fb_num_valid_bytes :: nat
  fb_read_cursor :: nat

definition FrameBuffer :: "u8 list \<Rightarrow> nat \<Rightarrow> frame_buffer" where
  "FrameBuffer data data_size_bytes =
     \<lparr>fb_data = data, fb_capacity = data_size_bytes, fb_num_valid_bytes = 0, fb_read_cursor = 0\<rparr>"

definition FrameBuffer_Write :: "frame_buffer \<Rightarrow> u8 list \<Rightarrow> (nat \<times> frame_buffer) option" where
  "FrameBuffer_Write fb data =
     (let num_bytes_available = size_sub (fb_capacity fb) (fb_num_valid_bytes fb);
          num_bytes_to_copy =
            (if num_bytes_available < length data then num_bytes_available else length data)
      in do {
           d \<leftarrow> mem_write (fb_data fb) (fb_num_valid_bytes fb) (take num_bytes_to_copy data);
           Some (num_bytes_to_copy,
             fb\<lparr>fb_data := d, fb_num_valid_bytes := fb_num_valid_bytes fb + num_bytes_to_copy\<rparr>)
         })"

text \<open>The bytes copied are the result; their number is what the code returns.\<close>

definition FrameBuffer_Read :: "frame_buffer \<Rightarrow> nat \<Rightarrow> (u8 list \<times> frame_buffer) option" where
  "FrameBuffer_Read fb data_size_bytes =
     (let num_bytes_available = size_sub (fb_num_valid_bytes fb) (fb_read_cursor fb);
          num_bytes_to_copy =
            (if num_bytes_available < data_size_bytes then num_bytes_available else data_size_bytes)
      in do {
           data \<leftarrow> mem_read (fb_data fb) (fb_read_cursor fb) num_bytes_to_copy;
           Some (data, fb\<lparr>fb_read_cursor := fb_read_cursor fb + num_bytes_to_copy\<rparr>)
         })"

definition FrameBuffer_Clear :: "frame_buffer \<Rightarrow> frame_buffer" where
  "FrameBuffer_Clear fb = fb\<lparr>fb_num_valid_bytes := 0, fb_read_cursor := 0\<rparr>"

definition FrameBuffer_ReadAvailable :: "frame_buffer \<Rightarrow> nat" where
  "FrameBuffer_ReadAvailable fb = size_sub (fb_num_valid_bytes fb) (fb_read_cursor fb)"

definition FrameBuffer_Size :: "frame_buffer \<Rightarrow> nat" where
  "FrameBuffer_Size fb = fb_num_valid_bytes fb"

section \<open>The buffer as a queue\<close>

definition fb_wf :: "frame_buffer \<Rightarrow> bool" where
  "fb_wf fb \<longleftrightarrow> fb_read_cursor fb \<le> fb_num_valid_bytes fb \<and> fb_num_valid_bytes fb \<le> fb_capacity fb
     \<and> fb_capacity fb \<le> length (fb_data fb)"

definition fb_contents :: "frame_buffer \<Rightarrow> u8 list" where
  "fb_contents fb =
     take (fb_num_valid_bytes fb - fb_read_cursor fb) (drop (fb_read_cursor fb) (fb_data fb))"

definition fb_room :: "frame_buffer \<Rightarrow> nat" where
  "fb_room fb = fb_capacity fb - fb_num_valid_bytes fb"

lemma length_fb_contents: "fb_wf fb \<Longrightarrow> length (fb_contents fb) = fb_num_valid_bytes fb - fb_read_cursor fb"
  by (auto simp: fb_contents_def fb_wf_def)

lemma fb_contents_alt:
  "fb_wf fb \<Longrightarrow> fb_contents fb = drop (fb_read_cursor fb) (take (fb_num_valid_bytes fb) (fb_data fb))"
  by (simp add: fb_contents_def fb_wf_def drop_take)

lemma FrameBuffer_new:
  "n \<le> length data \<Longrightarrow> fb_wf (FrameBuffer data n) \<and> fb_contents (FrameBuffer data n) = []
     \<and> fb_room (FrameBuffer data n) = n"
  by (simp add: FrameBuffer_def fb_wf_def fb_contents_def fb_room_def)

lemma FrameBuffer_Clear_ok:
  "fb_wf fb \<Longrightarrow> fb_wf (FrameBuffer_Clear fb) \<and> fb_contents (FrameBuffer_Clear fb) = []
     \<and> fb_room (FrameBuffer_Clear fb) = fb_capacity fb"
  by (simp add: FrameBuffer_Clear_def fb_wf_def fb_contents_def fb_room_def)

lemma FrameBuffer_Write_ok:
  assumes "fb_wf fb"
  shows "\<exists>fb'. FrameBuffer_Write fb data = Some (min (length data) (fb_room fb), fb') \<and> fb_wf fb'
    \<and> fb_contents fb' = fb_contents fb @ take (fb_room fb) data
    \<and> fb_room fb' = fb_room fb - length data \<and> fb_capacity fb' = fb_capacity fb"
proof -
  let ?v = "fb_num_valid_bytes fb" and ?c = "fb_read_cursor fb"
  let ?n = "min (length data) (fb_room fb)"
  let ?d = "take ?v (fb_data fb) @ take ?n data @ drop (?v + ?n) (fb_data fb)"
  let ?f = "fb\<lparr>fb_data := ?d, fb_num_valid_bytes := ?v + ?n\<rparr>"
  have wf: "?c \<le> ?v" "?v \<le> fb_capacity fb" "fb_capacity fb \<le> length (fb_data fb)"
    using assms by (simp_all add: fb_wf_def)
  have fits: "?v + ?n \<le> length (fb_data fb)" and n: "length (take ?n data) = ?n"
    using wf by (simp_all add: fb_room_def)
  have "size_sub (fb_capacity fb) ?v = fb_room fb"
    using wf by (simp add: fb_room_def)
  then have "FrameBuffer_Write fb data = Some (?n, ?f)"
    using fits by (auto simp: FrameBuffer_Write_def Let_def mem_write_def min_def)
  moreover have wf': "fb_wf ?f"
    using wf by (auto simp: fb_wf_def fb_room_def)
  moreover have "fb_contents ?f = fb_contents fb @ take (fb_room fb) data"
  proof -
    have "take (?v + ?n) ?d = take ?v (fb_data fb) @ take ?n data"
      using wf fits n by (simp add: take_add)
    moreover have "take ?n data = take (fb_room fb) data"
      by (simp add: min_def)
    ultimately show ?thesis
      using wf unfolding fb_contents_alt [OF assms] fb_contents_alt [OF wf'] by simp
  qed
  moreover have "fb_room ?f = fb_room fb - length data"
    by (simp add: fb_room_def)
  ultimately show ?thesis
    by (intro exI [of _ ?f]) simp
qed

lemma FrameBuffer_Read_ok:
  assumes "fb_wf fb"
  shows "\<exists>fb'. FrameBuffer_Read fb n = Some (take n (fb_contents fb), fb') \<and> fb_wf fb'
    \<and> fb_contents fb' = drop n (fb_contents fb) \<and> fb_room fb' = fb_room fb
    \<and> fb_capacity fb' = fb_capacity fb"
proof -
  let ?v = "fb_num_valid_bytes fb" and ?c = "fb_read_cursor fb"
  have wf: "?c \<le> ?v" "?v \<le> fb_capacity fb" "fb_capacity fb \<le> length (fb_data fb)"
    using assms by (simp_all add: fb_wf_def)
  show ?thesis
    using wf
    by (auto simp: FrameBuffer_Read_def Let_def fb_wf_def fb_room_def fb_contents_def drop_take
        add.commute)
qed

text \<open>A write that fits is stored whole, and a read of all that is there returns it.\<close>

lemma FrameBuffer_Write_fits:
  assumes "fb_wf fb" and "length data \<le> fb_room fb"
  shows "\<exists>fb'. FrameBuffer_Write fb data = Some (length data, fb') \<and> fb_wf fb'
    \<and> fb_contents fb' = fb_contents fb @ data \<and> fb_room fb' = fb_room fb - length data
    \<and> fb_capacity fb' = fb_capacity fb"
  using FrameBuffer_Write_ok [OF assms(1), of data] assms(2) by (simp add: min_def)

text \<open>Writes that fit add up: the state after two of them is the state after one.\<close>

definition fb_append :: "frame_buffer \<Rightarrow> u8 list \<Rightarrow> frame_buffer" where
  "fb_append fb xs = fb\<lparr>fb_data := take (fb_num_valid_bytes fb) (fb_data fb) @ xs
       @ drop (fb_num_valid_bytes fb + length xs) (fb_data fb),
     fb_num_valid_bytes := fb_num_valid_bytes fb + length xs\<rparr>"

lemma FrameBuffer_Write_append:
  assumes "fb_wf fb" and "length xs \<le> fb_room fb"
  shows "FrameBuffer_Write fb xs = Some (length xs, fb_append fb xs)"
  using assms
  by (auto simp: FrameBuffer_Write_def fb_wf_def fb_room_def fb_append_def Let_def mem_write_def)

lemma fb_append_append:
  assumes "fb_wf fb" and "length xs + length ys \<le> fb_room fb"
  shows "fb_append (fb_append fb xs) ys = fb_append fb (xs @ ys)"
  using assms by (simp add: fb_append_def fb_wf_def fb_room_def add.commute add.left_commute)

lemma fb_append_Nil [simp]: "fb_append fb [] = fb"
  by (simp add: fb_append_def)

lemma fb_append_ok:
  assumes "fb_wf fb" and "length xs \<le> fb_room fb"
  shows "fb_wf (fb_append fb xs)" "fb_contents (fb_append fb xs) = fb_contents fb @ xs"
    "fb_room (fb_append fb xs) = fb_room fb - length xs"
  using FrameBuffer_Write_fits [OF assms] FrameBuffer_Write_append [OF assms] by auto

text \<open>A read that finds all it asks for.\<close>

lemma FrameBuffer_Read_prefix:
  assumes "fb_wf fb" and "fb_contents fb = xs @ ys"
  shows "\<exists>fb'. FrameBuffer_Read fb (length xs) = Some (xs, fb') \<and> fb_wf fb' \<and> fb_contents fb' = ys
    \<and> fb_room fb' = fb_room fb"
  using FrameBuffer_Read_ok [OF assms(1), of "length xs"] assms(2) by auto

end
