(* ===== verification/Write_Stream.thy ===== *)
theory Write_Stream
  imports Crt_Prelude
begin

text \<open>
  \<^verbatim>\<open>WriteStream::WriteAll\<close> of \<^verbatim>\<open>microtvm_rpc_common/write_stream.cc\<close>, which pushes all of a
  buffer through a stream that may take it in pieces, the contract of a stream that loses nothing
  as a locale, and the stream to the UART (\<^verbatim>\<open>SerialWriteStream\<close> of
  \<^verbatim>\<open>microtvm_rpc_server/rpc_server.cc\<close> over \<^verbatim>\<open>write_serial\<close> of \<^verbatim>\<open>src/host_driven/main.cc\<close>),
  which keeps it.
\<close>

section \<open>WriteAll\<close>

text \<open>
  A stream is its \<^verbatim>\<open>Write\<close>: what it returns, a byte count or a negative error, and its new
  state, or \<open>None\<close> when it stops the program. \<open>WriteAll\<close> returns the error code,
  \<^verbatim>\<open>*bytes_consumed\<close> and the stream.
\<close>

type_synonym 's stream_write = "'s \<Rightarrow> u8 list \<Rightarrow> (int \<times> 's) option"

function WriteAll_loop ::
    "'s stream_write \<Rightarrow> 's \<Rightarrow> u8 list \<Rightarrow> nat \<Rightarrow> (tvm_crt_error \<times> nat \<times> 's) option" where
  "WriteAll_loop wr s data bytes_consumed =
     (if data = [] then Some (kTvmErrorNoError, bytes_consumed, s)
      else do {
        (to_return, s) \<leftarrow> wr s data;
        if to_return = 0 then Some (kTvmErrorWriteStreamShortWrite, bytes_consumed, s)
        else if to_return < 0 then Some (system_error to_return, bytes_consumed, s)
        else if to_return > int (length data)
        then Some (kTvmErrorWriteStreamLongWrite, bytes_consumed, s)
        else WriteAll_loop wr s (drop (nat to_return) data) (bytes_consumed + nat to_return)
      })"
  by auto
termination
  by (relation "measure (\<lambda>(_, _, data, _). length data)") auto

declare WriteAll_loop.simps [simp del]

definition WriteAll ::
    "'s stream_write \<Rightarrow> 's \<Rightarrow> u8 list \<Rightarrow> (tvm_crt_error \<times> nat \<times> 's) option" where
  "WriteAll wr s data = WriteAll_loop wr s data 0"

lemma WriteAll_Nil [simp]: "WriteAll wr s [] = Some (kTvmErrorNoError, 0, s)"
  by (simp add: WriteAll_def WriteAll_loop.simps)

text \<open>The count never exceeds what there was to write, whatever the stream answers.\<close>

lemma WriteAll_loop_consumed:
  "WriteAll_loop wr s data m = Some (e, n, s') \<Longrightarrow>
   m \<le> n \<and> n \<le> m + length data \<and> (e = kTvmErrorNoError \<longrightarrow> n = m + length data)"
proof (induction wr s data m rule: WriteAll_loop.induct)
  case (1 wr s data m)
  show ?case
  proof (cases "data = []")
    case True
    then show ?thesis
      using "1.prems" by (simp add: WriteAll_loop.simps)
  next
    case False
    then obtain r t where w: "wr s data = Some (r, t)"
      using "1.prems" by (auto simp: WriteAll_loop.simps [of wr s data] bind_eq_Some)
    show ?thesis
    proof (cases "0 < r \<and> r \<le> int (length data)")
      case True
      then show ?thesis
        using "1.IH" [OF False w] "1.prems" w False
        by (force simp: WriteAll_loop.simps [of wr s data])
    next
      case False
      then show ?thesis
        using "1.prems" w \<open>data \<noteq> []\<close>
        by (auto simp: WriteAll_loop.simps [of wr s data] system_error_def split: if_splits)
    qed
  qed
qed

lemma WriteAll_consumed:
  "WriteAll wr s data = Some (e, n, s') \<Longrightarrow>
   n \<le> length data \<and> (e = kTvmErrorNoError \<longrightarrow> n = length data)"
  using WriteAll_loop_consumed [of wr s data 0 e n s'] by (simp add: WriteAll_def)

text \<open>
  The rule for \<open>WriteAll\<close>: a relation between the stream and what is left to write, kept by every
  partial write, holds at the end with nothing left.
\<close>

lemma WriteAll_loop_rule:
  assumes step: "\<And>s d. R s d \<Longrightarrow> d \<noteq> [] \<Longrightarrow>
      \<exists>r s'. wr s d = Some (r, s') \<and> 0 < r \<and> nat r \<le> length d \<and> R s' (drop (nat r) d)"
  shows "R s data \<Longrightarrow>
    \<exists>s'. WriteAll_loop wr s data m = Some (kTvmErrorNoError, m + length data, s') \<and> R s' []"
proof (induction "length data" arbitrary: s data m rule: less_induct)
  case less
  show ?case
  proof (cases "data = []")
    case True
    then show ?thesis
      using less.prems by (simp add: WriteAll_loop.simps)
  next
    case False
    then obtain r s1 where w: "wr s data = Some (r, s1)" "0 < r" "nat r \<le> length data"
      "R s1 (drop (nat r) data)"
      using step [OF less.prems] by blast
    then show ?thesis
      using less.hyps [of "drop (nat r) data" s1 "m + nat r"] False
      by (auto simp: WriteAll_loop.simps [of wr s data])
  qed
qed

lemma WriteAll_rule:
  assumes "\<And>s d. R s d \<Longrightarrow> d \<noteq> [] \<Longrightarrow>
      \<exists>r s'. wr s d = Some (r, s') \<and> 0 < r \<and> nat r \<le> length d \<and> R s' (drop (nat r) d)"
    and "R s data"
  shows "\<exists>s'. WriteAll wr s data = Some (kTvmErrorNoError, length data, s') \<and> R s' []"
  using WriteAll_loop_rule [of R wr s data 0] assms by (simp add: WriteAll_def)

section \<open>Streams that lose nothing\<close>

text \<open>
  \<open>accepts s n\<close>: the stream takes \<open>n\<close> more bytes, in one piece or in several, and \<open>out\<close> is what
  it has taken. Everything framed and sent rests on this contract only.
\<close>

locale write_stream =
  fixes wr :: "'s stream_write"
    and accepts :: "'s \<Rightarrow> nat \<Rightarrow> bool"
    and out :: "'s \<Rightarrow> u8 list"
  assumes write_ok: "accepts s n \<Longrightarrow> data \<noteq> [] \<Longrightarrow> length data \<le> n \<Longrightarrow>
      \<exists>r s'. wr s data = Some (r, s') \<and> 0 < r \<and> nat r \<le> length data
        \<and> out s' = out s @ take (nat r) data \<and> accepts s' (n - nat r)"
begin

lemma WriteAll_ok:
  assumes "accepts s n" and "length data \<le> n"
  shows "\<exists>s'. WriteAll wr s data = Some (kTvmErrorNoError, length data, s')
     \<and> out s' = out s @ data \<and> accepts s' (n - length data)"
proof -
  let ?R = "\<lambda>s' d. out s' @ d = out s @ data \<and> (\<exists>m. accepts s' m \<and> m + length data = n + length d)"
  have "\<exists>r s2. wr s1 d = Some (r, s2) \<and> 0 < r \<and> nat r \<le> length d \<and> ?R s2 (drop (nat r) d)"
    if R: "?R s1 d" and d: "d \<noteq> []" for s1 d
  proof -
    obtain m where m: "accepts s1 m" "m + length data = n + length d"
      using R by blast
    moreover have "length d \<le> m"
      using m assms by linarith
    ultimately obtain r s2 where w: "wr s1 d = Some (r, s2)" "0 < r" "nat r \<le> length d"
      "out s2 = out s1 @ take (nat r) d" "accepts s2 (m - nat r)"
      using write_ok [OF _ d] by blast
    moreover have "m - nat r + length data = n + length (drop (nat r) d)"
      using m w \<open>length d \<le> m\<close> by simp
    ultimately show ?thesis
      using R by (intro exI [of _ r] exI [of _ s2]) auto
  qed
  then obtain s' where "WriteAll wr s data = Some (kTvmErrorNoError, length data, s')" "?R s' []"
    using WriteAll_rule [of ?R wr s data] assms by blast
  then show ?thesis
    by auto
qed

end

section \<open>The stream to the UART\<close>

text \<open>
  \<^verbatim>\<open>semihost_write\<close> traps to the debugger, with the operation number and the address of its
  arguments. What the host is asked is recorded; what it answers is not used.
\<close>

record serial =
  g_num_bytes_requested :: u32
  g_num_bytes_written :: u32
  semihost_requests :: "(nat \<times> int \<times> u8 list) list"

definition SEMIHOSTING_SYS_WRITE :: nat where
  "SEMIHOSTING_SYS_WRITE = 0x05"

definition STDOUT_FILENO :: int where
  "STDOUT_FILENO = 1"

definition semihost_write :: "int \<Rightarrow> u8 list \<Rightarrow> serial \<Rightarrow> serial" where
  "semihost_write fd buffer s =
     s\<lparr>semihost_requests := semihost_requests s @ [(SEMIHOSTING_SYS_WRITE, fd, buffer)]\<rparr>"

text \<open>The \<^verbatim>\<open>size_t\<close> is returned as a \<^verbatim>\<open>ssize_t\<close>.\<close>

definition write_serial :: "serial stream_write" where
  "write_serial s data =
     (let n = of_nat (length data) :: u32;
          s = s\<lparr>g_num_bytes_requested := g_num_bytes_requested s + n\<rparr>;
          s = semihost_write STDOUT_FILENO data s;
          s = s\<lparr>g_num_bytes_written := g_num_bytes_written s + n\<rparr>
      in Some (sint n, s))"

text \<open>\<^verbatim>\<open>SerialWriteStream::Write\<close> calls the write function the server was given.\<close>

definition SerialWriteStream_Write :: "serial stream_write" where
  "SerialWriteStream_Write s data = write_serial s data"

definition SerialWriteStream_PacketDone :: "serial \<Rightarrow> bool \<Rightarrow> serial option" where
  "SerialWriteStream_PacketDone s is_valid = Some s"

text \<open>What has gone to standard output.\<close>

definition serial_out :: "serial \<Rightarrow> u8 list" where
  "serial_out s = concat (map (\<lambda>(_, _, b). b)
     (filter (\<lambda>(oper, fd, _). oper = SEMIHOSTING_SYS_WRITE \<and> fd = STDOUT_FILENO) (semihost_requests s)))"

definition serial_accepts :: "serial \<Rightarrow> nat \<Rightarrow> bool" where
  "serial_accepts s n \<longleftrightarrow> n < 2 ^ 31 \<and> g_num_bytes_written s = g_num_bytes_requested s"

lemma sint_of_nat_u32: "n < 2 ^ 31 \<Longrightarrow> sint (of_nat n :: u32) = int n"
  by (subst signed_of_nat) (simp add: signed_take_bit_int_eq_self)

interpretation uart: write_stream SerialWriteStream_Write serial_accepts serial_out
  by unfold_locales
    (auto simp: SerialWriteStream_Write_def write_serial_def semihost_write_def serial_accepts_def
      serial_out_def Let_def sint_of_nat_u32)

text \<open>A stream for the examples: it takes at most three bytes at a time.\<close>

definition trickle_write :: "u8 list stream_write" where
  "trickle_write s data = Some (int (min 3 (length data)), s @ take 3 data)"

interpretation trickle: write_stream trickle_write "\<lambda>_ _. True" "\<lambda>s. s"
  by unfold_locales (auto simp: trickle_write_def min_def take_Cons' split: if_splits)

section \<open>Properties\<close>

text \<open>
  C32. \<open>WriteAll\<close> ends on every stream that answers, and reports no more bytes than it was given: all
  of them on success, and on an error the count of the complete \<^verbatim>\<open>Write\<close> calls before it.
\<close>

theorem WriteAll_total:
  assumes "\<And>s d. wr s d \<noteq> None"
  shows "\<exists>e n s'. WriteAll wr s data = Some (e, n, s') \<and> n \<le> length data
    \<and> (e = kTvmErrorNoError \<longrightarrow> n = length data)"
proof -
  have "WriteAll_loop wr s data m \<noteq> None" for m
    using assms
  proof (induction wr s data m rule: WriteAll_loop.induct)
    case (1 wr s data m)
    obtain r t where w: "wr s data = Some (r, t)"
      using "1.prems" [of s data] by auto
    show ?case
      using "1.IH" [OF _ w refl] "1.prems" w
      by (auto simp: WriteAll_loop.simps [of wr s data])
  qed
  then show ?thesis
    using WriteAll_consumed [of wr s data] by (fastforce simp: WriteAll_def)
qed

theorem WriteAll_total_witness:
  "\<exists>e n s'. WriteAll trickle_write [9] [1, 2, 3, 4] = Some (e, n, s') \<and> n \<le> length [1, 2, 3, 4 :: u8]
    \<and> (e = kTvmErrorNoError \<longrightarrow> n = length [1, 2, 3, 4 :: u8])"
  by (rule WriteAll_total) (simp add: trickle_write_def)

text \<open>
  Everything given to the serial stream is sent to standard output in order, and the counters the
  main loop compares stay equal.
\<close>

lemma serial_write_all:
  assumes "length data < 2 ^ 31" and "g_num_bytes_written s = g_num_bytes_requested s"
  shows "\<exists>s'. WriteAll SerialWriteStream_Write s data = Some (kTvmErrorNoError, length data, s')
    \<and> serial_out s' = serial_out s @ data \<and> g_num_bytes_written s' = g_num_bytes_requested s'"
  using uart.WriteAll_ok [of s "length data" data] assms by (auto simp: serial_accepts_def)

end
