(* ===== verification/Framer.thy ===== *)
theory Framer
  imports Crc Write_Stream
begin

text \<open>
  The sending half of \<^verbatim>\<open>microtvm_rpc_common/framing.cc\<close>: \<^verbatim>\<open>Framer\<close> escapes a packet, buffers it in
  pieces of 128 bytes and pushes them through a write stream, with a running checksum over the
  escaped bytes. The specification is the packet as a list of bytes (\<open>frame_packet\<close>); the lemmas
  show that over any stream that loses nothing the framer writes exactly that, in one call or in
  chunks.
\<close>

section \<open>The wire format\<close>

definition kEscapeStart :: u8 where
  "kEscapeStart = 0xff"

definition kEscapeNop :: u8 where
  "kEscapeNop = 0xfe"

definition kPacketStart :: u8 where
  "kPacketStart = 0xfd"

lemmas Escape_defs = kEscapeStart_def kEscapeNop_def kPacketStart_def

definition kPayloadLength :: nat where
  "kPayloadLength = 4"

definition kCrc :: nat where
  "kCrc = 2"

text \<open>\<^verbatim>\<open>previous_crc\<close> may be null.\<close>

definition crc16_compute :: "u8 list \<Rightarrow> u16 option \<Rightarrow> u16" where
  "crc16_compute data previous_crc =
     fold (\<lambda>c crc. update_crc_ccitt crc c) data
       (case previous_crc of None \<Rightarrow> 0xffff | Some crc \<Rightarrow> crc)"

lemma crc16_compute_append:
  "crc16_compute (xs @ ys) p = crc16_compute ys (Some (crc16_compute xs p))"
  by (simp add: crc16_compute_def)

lemma crc16_compute_Nil [simp]: "crc16_compute [] (Some crc) = crc"
  by (simp add: crc16_compute_def)

lemma crc16_compute_Cons:
  "crc16_compute (c # cs) (Some crc) = crc16_compute cs (Some (update_crc_ccitt crc c))"
  by (simp add: crc16_compute_def)

lemma crc16_compute_None: "crc16_compute xs None = crc16_compute xs (Some 0xffff)"
  by (simp add: crc16_compute_def)

lemma crc16_compute_spec: "crc16_compute xs (Some crc) = crc_spec crc xs"
  by (induction xs arbitrary: crc) (simp_all add: crc16_compute_Cons update_crc_ccitt_spec)

section \<open>The code\<close>

datatype framer_state = kReset | kIdle | kTransmitPacketPayload

record framer =
  fr_state :: framer_state
  fr_num_payload_bytes_remaining :: nat
  fr_crc :: u16

text \<open>The constructor leaves \<^verbatim>\<open>crc_\<close> unset: the argument is what the memory held.\<close>

definition Framer :: "u16 \<Rightarrow> framer" where
  "Framer crc = \<lparr>fr_state = kReset, fr_num_payload_bytes_remaining = 0, fr_crc = crc\<rparr>"

definition Framer_Reset :: "framer \<Rightarrow> framer" where
  "Framer_Reset fr = fr\<lparr>fr_state := kReset\<rparr>"

definition kMaxStackBufferSizeBytes :: nat where
  "kMaxStackBufferSizeBytes = 128"

text \<open>
  The inner loop of \<^verbatim>\<open>WriteAndCrc\<close>: \<open>buffer\<close> is filled until it is full or the data ends, and an
  escape that needs two bytes is left for the next round when only one is free. The result is the
  buffer and the data not yet taken.
\<close>

fun escape_chunk :: "bool \<Rightarrow> u8 list \<Rightarrow> u8 list \<Rightarrow> u8 list \<times> u8 list" where
  "escape_chunk escape [] buffer = (buffer, [])"
| "escape_chunk escape (c # cs) buffer =
     (if length buffer = kMaxStackBufferSizeBytes then (buffer, c # cs)
      else if \<not> escape \<or> c \<noteq> kEscapeStart then escape_chunk escape cs (buffer @ [c])
      else if length buffer = kMaxStackBufferSizeBytes - 1 then (buffer, c # cs)
      else escape_chunk escape cs (buffer @ [kEscapeStart, kEscapeStart]))"

lemma escape_chunk_length: "length (snd (escape_chunk escape data buffer)) \<le> length data"
  by (induction escape data buffer rule: escape_chunk.induct) (auto simp: le_SucI)

lemma escape_chunk_progress:
  "data \<noteq> [] \<Longrightarrow> length (snd (escape_chunk escape data [])) < length data"
  by (cases data)
    (auto simp: kMaxStackBufferSizeBytes_def less_Suc_eq_le escape_chunk_length)

function Framer_WriteAndCrc ::
    "'s stream_write \<Rightarrow> framer \<Rightarrow> 's \<Rightarrow> u8 list \<Rightarrow> bool \<Rightarrow> bool
     \<Rightarrow> (tvm_crt_error \<times> framer \<times> 's) option" where
  "Framer_WriteAndCrc wr fr s data escape update_crc =
     (if data = [] then Some (kTvmErrorNoError, fr, s)
      else do {
        let (buffer, rest) = escape_chunk escape data [];
        (to_return, bytes_consumed, s) \<leftarrow> WriteAll wr s buffer;
        if to_return \<noteq> kTvmErrorNoError then Some (to_return, fr, s)
        else do {
          let fr = (if update_crc then fr\<lparr>fr_crc := crc16_compute buffer (Some (fr_crc fr))\<rparr> else fr);
          Framer_WriteAndCrc wr fr s rest escape update_crc
        }
      })"
  by auto
termination
proof (relation "measure (\<lambda>(_, _, _, data, _, _). length data)", goal_cases)
  case 1
  show ?case by simp
next
  case (2 wr fr s data escape update_crc x xa)
  then show ?case
    using escape_chunk_progress [of data escape] by (cases "escape_chunk escape data []") auto
qed

declare Framer_WriteAndCrc.simps [simp del]

definition Framer_StartPacket ::
    "'s stream_write \<Rightarrow> framer \<Rightarrow> 's \<Rightarrow> nat \<Rightarrow> (tvm_crt_error \<times> framer \<times> 's) option" where
  "Framer_StartPacket wr fr s payload_size_bytes = do {
     (to_return, fr, s) \<leftarrow>
       (if fr_state fr = kReset then Framer_WriteAndCrc wr fr s [kEscapeNop] False False
        else Some (kTvmErrorNoError, fr, s));
     if to_return \<noteq> kTvmErrorNoError then Some (to_return, fr, s)
     else do {
       let fr = fr\<lparr>fr_crc := 0xffff\<rparr>;
       (to_return, fr, s) \<leftarrow> Framer_WriteAndCrc wr fr s [kEscapeStart, kPacketStart] False True;
       if to_return \<noteq> kTvmErrorNoError then Some (to_return, fr, s)
       else do {
         (to_return, fr, s) \<leftarrow>
           Framer_WriteAndCrc wr fr s (le_bytes 4 payload_size_bytes) True True;
         if to_return = kTvmErrorNoError
         then Some (to_return, fr\<lparr>fr_state := kTransmitPacketPayload,
                fr_num_payload_bytes_remaining := payload_size_bytes\<rparr>, s)
         else Some (to_return, fr, s)
       }
     }
   }"

definition Framer_WritePayloadChunk ::
    "'s stream_write \<Rightarrow> framer \<Rightarrow> 's \<Rightarrow> u8 list \<Rightarrow> (tvm_crt_error \<times> framer \<times> 's) option" where
  "Framer_WritePayloadChunk wr fr s payload_chunk =
     (if fr_state fr \<noteq> kTransmitPacketPayload then Some (kTvmErrorFramingInvalidState, fr, s)
      else if length payload_chunk > fr_num_payload_bytes_remaining fr
      then Some (kTvmErrorFramingPayloadOverflow, fr, s)
      else do {
        (to_return, fr, s) \<leftarrow> Framer_WriteAndCrc wr fr s payload_chunk True True;
        if to_return \<noteq> kTvmErrorNoError then Some (to_return, fr\<lparr>fr_state := kReset\<rparr>, s)
        else Some (kTvmErrorNoError,
          fr\<lparr>fr_num_payload_bytes_remaining :=
               fr_num_payload_bytes_remaining fr - length payload_chunk\<rparr>, s)
      })"

definition Framer_FinishPacket ::
    "'s stream_write \<Rightarrow> framer \<Rightarrow> 's \<Rightarrow> (tvm_crt_error \<times> framer \<times> 's) option" where
  "Framer_FinishPacket wr fr s =
     (if fr_state fr \<noteq> kTransmitPacketPayload then Some (kTvmErrorFramingInvalidState, fr, s)
      else if fr_num_payload_bytes_remaining fr \<noteq> 0
      then Some (kTvmErrorFramingPayloadIncomplete, fr, s)
      else do {
        (to_return, fr, s) \<leftarrow> Framer_WriteAndCrc wr fr s (le_bytes 2 (unat (fr_crc fr))) True False;
        if to_return \<noteq> kTvmErrorNoError then Some (to_return, fr\<lparr>fr_state := kReset\<rparr>, s)
        else Some (to_return, fr\<lparr>fr_state := kIdle\<rparr>, s)
      })"

definition Framer_Write ::
    "'s stream_write \<Rightarrow> framer \<Rightarrow> 's \<Rightarrow> u8 list \<Rightarrow> (tvm_crt_error \<times> framer \<times> 's) option" where
  "Framer_Write wr fr s payload = do {
     (to_return, fr, s) \<leftarrow> Framer_StartPacket wr fr s (length payload);
     if to_return \<noteq> kTvmErrorNoError then Some (to_return, fr, s)
     else do {
       (to_return, fr, s) \<leftarrow> Framer_WritePayloadChunk wr fr s payload;
       if to_return \<noteq> kTvmErrorNoError then Some (to_return, fr, s)
       else Framer_FinishPacket wr fr s
     }
   }"

section \<open>The specification of a frame\<close>

definition escape_byte :: "u8 \<Rightarrow> u8 list" where
  "escape_byte c = (if c = kEscapeStart then [kEscapeStart, kEscapeStart] else [c])"

definition escape_bytes :: "u8 list \<Rightarrow> u8 list" where
  "escape_bytes data = concat (map escape_byte data)"

definition frame_head :: "nat \<Rightarrow> u8 list" where
  "frame_head n = [kEscapeStart, kPacketStart] @ escape_bytes (le_bytes 4 n)"

definition frame_crc :: "u8 list \<Rightarrow> u8 list" where
  "frame_crc body = escape_bytes (le_bytes 2 (unat (crc16_compute body None)))"

definition frame_packet :: "u8 list \<Rightarrow> u8 list" where
  "frame_packet payload =
     (let body = frame_head (length payload) @ escape_bytes payload in body @ frame_crc body)"

lemma escape_bytes_Nil [simp]: "escape_bytes [] = []"
  by (simp add: escape_bytes_def)

lemma escape_bytes_Cons: "escape_bytes (c # cs) = escape_byte c @ escape_bytes cs"
  by (simp add: escape_bytes_def)

lemma escape_bytes_append [simp]: "escape_bytes (xs @ ys) = escape_bytes xs @ escape_bytes ys"
  by (simp add: escape_bytes_def)

lemma length_escape_bytes:
  "length xs \<le> length (escape_bytes xs)" "length (escape_bytes xs) \<le> 2 * length xs"
  by (induction xs) (auto simp: escape_bytes_Cons escape_byte_def)

lemma length_frame_head: "length (frame_head n) \<le> 10"
  using length_escape_bytes(2) [of "le_bytes 4 n"] by (simp add: frame_head_def)

lemma length_frame_crc: "length (frame_crc body) \<le> 4"
  using length_escape_bytes(2) [of "le_bytes 2 (unat (crc16_compute body None))"]
  by (simp add: frame_crc_def)

lemma length_frame_packet: "length (frame_packet payload) \<le> 2 * length payload + 14"
  using length_escape_bytes(2) [of payload] length_frame_head [of "length payload"]
    length_frame_crc [of "frame_head (length payload) @ escape_bytes payload"]
  by (simp add: frame_packet_def Let_def)

section \<open>The framer writes the frame\<close>

definition wire_bytes :: "bool \<Rightarrow> u8 list \<Rightarrow> u8 list" where
  "wire_bytes escape data = (if escape then escape_bytes data else data)"

lemma wire_bytes_append [simp]: "wire_bytes e (xs @ ys) = wire_bytes e xs @ wire_bytes e ys"
  by (simp add: wire_bytes_def)

lemma escape_chunk_spec:
  "escape_chunk e data buffer = (buffer', rest) \<Longrightarrow>
   buffer' @ wire_bytes e rest = buffer @ wire_bytes e data"
  by (induction e data buffer rule: escape_chunk.induct)
    (auto simp: wire_bytes_def escape_bytes_Cons escape_byte_def split: if_splits)

lemma escape_chunk_bound:
  "escape_chunk e data buffer = (buffer', rest) \<Longrightarrow> length buffer \<le> kMaxStackBufferSizeBytes \<Longrightarrow>
   length buffer' \<le> kMaxStackBufferSizeBytes"
  by (induction e data buffer rule: escape_chunk.induct)
    (auto simp: kMaxStackBufferSizeBytes_def split: if_splits)

text \<open>After a reset the framer sends an escaped no-op first, to end a frame cut short.\<close>

definition lead :: "framer \<Rightarrow> u8 list" where
  "lead fr = (if fr_state fr = kReset then [kEscapeNop] else [])"

definition upd_crc :: "bool \<Rightarrow> u8 list \<Rightarrow> framer \<Rightarrow> framer" where
  "upd_crc upd bytes fr =
     (if upd then fr\<lparr>fr_crc := crc16_compute bytes (Some (fr_crc fr))\<rparr> else fr)"

lemma upd_crc_simps [simp]:
  "upd_crc upd ys (upd_crc upd xs fr) = upd_crc upd (xs @ ys) fr"
  "upd_crc upd [] fr = fr" "upd_crc False xs fr = fr"
  "upd_crc True xs fr = fr\<lparr>fr_crc := crc16_compute xs (Some (fr_crc fr))\<rparr>"
  by (simp_all add: upd_crc_def crc16_compute_append)

context write_stream
begin

lemma WriteAndCrc_ok:
  "accepts s n \<Longrightarrow> length (wire_bytes e data) \<le> n \<Longrightarrow>
   \<exists>s'. Framer_WriteAndCrc wr fr s data e upd
         = Some (kTvmErrorNoError, upd_crc upd (wire_bytes e data) fr, s')
     \<and> out s' = out s @ wire_bytes e data \<and> accepts s' (n - length (wire_bytes e data))"
proof (induction "length data" arbitrary: data fr s n rule: less_induct)
  case less
  show ?case
  proof (cases "data = []")
    case True
    then show ?thesis
      using less.prems by (simp add: Framer_WriteAndCrc.simps wire_bytes_def)
  next
    case False
    obtain b r where c: "escape_chunk e data [] = (b, r)"
      by fastforce
    then have w: "wire_bytes e data = b @ wire_bytes e r" and r: "length r < length data"
      using escape_chunk_spec [OF c] escape_chunk_progress [OF False, of e] by simp_all
    obtain s1 where s1: "WriteAll wr s b = Some (kTvmErrorNoError, length b, s1)"
      "out s1 = out s @ b" "accepts s1 (n - length b)"
      using WriteAll_ok [OF less.prems(1), of b] less.prems(2) w by auto
    have "length (wire_bytes e r) \<le> n - length b"
      using less.prems(2) w by simp
    then obtain s2 where s2: "Framer_WriteAndCrc wr (upd_crc upd b fr) s1 r e upd
        = Some (kTvmErrorNoError, upd_crc upd (b @ wire_bytes e r) fr, s2)"
      "out s2 = out s1 @ wire_bytes e r" "accepts s2 (n - length b - length (wire_bytes e r))"
      using less.hyps [OF r s1(3), of "upd_crc upd b fr"] by auto
    then show ?thesis
      using False c s1 w
      by (auto simp: Framer_WriteAndCrc.simps [of wr fr s data] upd_crc_def)
  qed
qed

lemma StartPacket_ok:
  assumes "accepts s n" and "length (lead fr @ frame_head sz) \<le> n"
  shows "\<exists>s'. Framer_StartPacket wr fr s sz = Some (kTvmErrorNoError,
       \<lparr>fr_state = kTransmitPacketPayload, fr_num_payload_bytes_remaining = sz,
        fr_crc = crc16_compute (frame_head sz) None\<rparr>, s')
     \<and> out s' = out s @ lead fr @ frame_head sz
     \<and> accepts s' (n - length (lead fr @ frame_head sz))"
proof -
  let ?n1 = "n - length (lead fr)"
  have len: "length (frame_head sz) = 2 + length (escape_bytes (le_bytes 4 sz))"
    by (simp add: frame_head_def)
  obtain s1 where s1: "(if fr_state fr = kReset then Framer_WriteAndCrc wr fr s [kEscapeNop] False False
      else Some (kTvmErrorNoError, fr, s)) = Some (kTvmErrorNoError, fr, s1)"
    "out s1 = out s @ lead fr" "accepts s1 ?n1"
    using WriteAndCrc_ok [OF assms(1), of False "[kEscapeNop]" fr False] assms
    by (cases "fr_state fr = kReset") (auto simp: wire_bytes_def lead_def)
  let ?fr1 = "fr\<lparr>fr_crc := 0xffff\<rparr>"
  have "length (wire_bytes False [kEscapeStart, kPacketStart]) \<le> ?n1"
    using assms(2) len by (simp add: wire_bytes_def)
  then obtain s2 where s2: "Framer_WriteAndCrc wr ?fr1 s1 [kEscapeStart, kPacketStart] False True
      = Some (kTvmErrorNoError, fr\<lparr>fr_crc := crc16_compute [kEscapeStart, kPacketStart] None\<rparr>, s2)"
    "out s2 = out s1 @ [kEscapeStart, kPacketStart]" "accepts s2 (?n1 - 2)"
    using WriteAndCrc_ok [OF s1(3), of False "[kEscapeStart, kPacketStart]" ?fr1 True]
    by (auto simp: wire_bytes_def crc16_compute_None)
  let ?fr2 = "fr\<lparr>fr_crc := crc16_compute [kEscapeStart, kPacketStart] None\<rparr>"
  have crc: "crc16_compute (frame_head sz) None = crc16_compute (escape_bytes (le_bytes 4 sz))
      (Some (crc16_compute [kEscapeStart, kPacketStart] None))"
    unfolding frame_head_def crc16_compute_append ..
  have "length (wire_bytes True (le_bytes 4 sz)) \<le> ?n1 - 2"
    using assms(2) len by (simp add: wire_bytes_def)
  then obtain s3 where s3: "Framer_WriteAndCrc wr ?fr2 s2 (le_bytes 4 sz) True True
      = Some (kTvmErrorNoError, fr\<lparr>fr_crc := crc16_compute (frame_head sz) None\<rparr>, s3)"
    "out s3 = out s2 @ escape_bytes (le_bytes 4 sz)"
    "accepts s3 (?n1 - 2 - length (escape_bytes (le_bytes 4 sz)))"
    using WriteAndCrc_ok [OF s2(3), of True "le_bytes 4 sz" ?fr2 True]
    by (auto simp: wire_bytes_def crc)
  show ?thesis
    using s1 s2 s3 len by (auto simp: Framer_StartPacket_def frame_head_def)
qed

lemma WritePayloadChunk_ok:
  assumes "accepts s n" and "length (escape_bytes chunk) \<le> n"
    and "fr_state fr = kTransmitPacketPayload" and "length chunk \<le> fr_num_payload_bytes_remaining fr"
  shows "\<exists>s'. Framer_WritePayloadChunk wr fr s chunk = Some (kTvmErrorNoError,
       \<lparr>fr_state = kTransmitPacketPayload,
        fr_num_payload_bytes_remaining = fr_num_payload_bytes_remaining fr - length chunk,
        fr_crc = crc16_compute (escape_bytes chunk) (Some (fr_crc fr))\<rparr>, s')
     \<and> out s' = out s @ escape_bytes chunk \<and> accepts s' (n - length (escape_bytes chunk))"
  using WriteAndCrc_ok [OF assms(1), of True chunk fr True] assms(2-4)
  by (auto simp: Framer_WritePayloadChunk_def wire_bytes_def)

lemma FinishPacket_ok:
  assumes "accepts s n" and "fr_state fr = kTransmitPacketPayload"
    and "fr_num_payload_bytes_remaining fr = 0" and "fr_crc fr = crc16_compute body None"
    and "length (frame_crc body) \<le> n"
  shows "\<exists>s'. Framer_FinishPacket wr fr s = Some (kTvmErrorNoError, fr\<lparr>fr_state := kIdle\<rparr>, s')
     \<and> out s' = out s @ frame_crc body \<and> accepts s' (n - length (frame_crc body))"
  using WriteAndCrc_ok [OF assms(1), of True "le_bytes 2 (unat (fr_crc fr))" fr False] assms(2-5)
  by (auto simp: Framer_FinishPacket_def wire_bytes_def frame_crc_def)

end

text \<open>A payload sent in pieces.\<close>

fun Framer_WriteChunks ::
    "'s stream_write \<Rightarrow> framer \<Rightarrow> 's \<Rightarrow> u8 list list \<Rightarrow> (tvm_crt_error \<times> framer \<times> 's) option" where
  "Framer_WriteChunks wr fr s [] = Some (kTvmErrorNoError, fr, s)"
| "Framer_WriteChunks wr fr s (c # cs) = do {
     (to_return, fr, s) \<leftarrow> Framer_WritePayloadChunk wr fr s c;
     if to_return \<noteq> kTvmErrorNoError then Some (to_return, fr, s)
     else Framer_WriteChunks wr fr s cs
   }"

definition Framer_Send ::
    "'s stream_write \<Rightarrow> framer \<Rightarrow> 's \<Rightarrow> u8 list list \<Rightarrow> (tvm_crt_error \<times> framer \<times> 's) option" where
  "Framer_Send wr fr s chunks = do {
     (to_return, fr, s) \<leftarrow> Framer_StartPacket wr fr s (length (concat chunks));
     if to_return \<noteq> kTvmErrorNoError then Some (to_return, fr, s)
     else do {
       (to_return, fr, s) \<leftarrow> Framer_WriteChunks wr fr s chunks;
       if to_return \<noteq> kTvmErrorNoError then Some (to_return, fr, s)
       else Framer_FinishPacket wr fr s
     }
   }"

lemma Framer_Write_Send: "Framer_Write wr fr s payload = Framer_Send wr fr s [payload]"
  unfolding Framer_Write_def Framer_Send_def
  by (auto intro!: arg_cong2 [where f = Option.bind] simp: fun_eq_iff Option.bind_assoc split: Option.bind_split)

context write_stream
begin

lemma WriteChunks_ok:
  "accepts s n \<Longrightarrow> length (escape_bytes (concat chunks)) \<le> n \<Longrightarrow>
   fr_state fr = kTransmitPacketPayload \<Longrightarrow>
   length (concat chunks) \<le> fr_num_payload_bytes_remaining fr \<Longrightarrow>
   \<exists>s'. Framer_WriteChunks wr fr s chunks = Some (kTvmErrorNoError,
       \<lparr>fr_state = kTransmitPacketPayload,
        fr_num_payload_bytes_remaining = fr_num_payload_bytes_remaining fr - length (concat chunks),
        fr_crc = crc16_compute (escape_bytes (concat chunks)) (Some (fr_crc fr))\<rparr>, s')
     \<and> out s' = out s @ escape_bytes (concat chunks)
     \<and> accepts s' (n - length (escape_bytes (concat chunks)))"
proof (induction chunks arbitrary: fr s n)
  case Nil
  then show ?case
    by (cases fr) auto
next
  case (Cons c cs)
  have len: "length (escape_bytes (concat cs)) \<le> n - length (escape_bytes c)"
    using Cons.prems(2) by simp
  obtain s1 where s1: "Framer_WritePayloadChunk wr fr s c = Some (kTvmErrorNoError,
       \<lparr>fr_state = kTransmitPacketPayload,
        fr_num_payload_bytes_remaining = fr_num_payload_bytes_remaining fr - length c,
        fr_crc = crc16_compute (escape_bytes c) (Some (fr_crc fr))\<rparr>, s1)"
      (is "_ = Some (_, ?fr, _)")
    "out s1 = out s @ escape_bytes c" "accepts s1 (n - length (escape_bytes c))"
    using WritePayloadChunk_ok [OF Cons.prems(1), of c fr] Cons.prems by auto
  show ?case
    using Cons.IH [OF s1(3) len, of ?fr] Cons.prems s1
    by (auto simp: crc16_compute_append)
qed

lemma Send_ok:
  assumes "accepts s n" and "length (lead fr @ frame_packet (concat chunks)) \<le> n"
  shows "\<exists>fr' s'. Framer_Send wr fr s chunks = Some (kTvmErrorNoError, fr', s')
     \<and> fr_state fr' = kIdle \<and> out s' = out s @ lead fr @ frame_packet (concat chunks)
     \<and> accepts s' (n - length (lead fr @ frame_packet (concat chunks)))"
proof -
  let ?p = "concat chunks"
  let ?b = "frame_head (length ?p) @ escape_bytes ?p"
  have len: "length (frame_packet ?p) = length (frame_head (length ?p)) + length (escape_bytes ?p)
      + length (frame_crc ?b)" and packet: "frame_packet ?p = ?b @ frame_crc ?b"
    by (simp_all add: frame_packet_def Let_def)
  let ?fr1 = "\<lparr>fr_state = kTransmitPacketPayload, fr_num_payload_bytes_remaining = length ?p,
        fr_crc = crc16_compute (frame_head (length ?p)) None\<rparr>"
  let ?n1 = "n - length (lead fr @ frame_head (length ?p))"
  obtain s1 where s1: "Framer_StartPacket wr fr s (length ?p) = Some (kTvmErrorNoError, ?fr1, s1)"
    "out s1 = out s @ lead fr @ frame_head (length ?p)" "accepts s1 ?n1"
    using StartPacket_ok [OF assms(1), of fr "length ?p"] assms(2) len by auto
  let ?fr2 = "\<lparr>fr_state = kTransmitPacketPayload, fr_num_payload_bytes_remaining = 0,
        fr_crc = crc16_compute ?b None\<rparr>"
  have "length (escape_bytes ?p) \<le> ?n1"
    using assms(2) len by simp
  then obtain s2 where s2: "Framer_WriteChunks wr ?fr1 s1 chunks = Some (kTvmErrorNoError, ?fr2, s2)"
    "out s2 = out s1 @ escape_bytes ?p" "accepts s2 (?n1 - length (escape_bytes ?p))"
    using WriteChunks_ok [OF s1(3), of chunks ?fr1] by (auto simp: crc16_compute_append)
  have "length (frame_crc ?b) \<le> ?n1 - length (escape_bytes ?p)"
    using assms(2) len by simp
  then obtain s3 where s3: "Framer_FinishPacket wr ?fr2 s2 = Some (kTvmErrorNoError, ?fr2\<lparr>fr_state := kIdle\<rparr>, s3)"
    "out s3 = out s2 @ frame_crc ?b"
    "accepts s3 (?n1 - length (escape_bytes ?p) - length (frame_crc ?b))"
    using FinishPacket_ok [OF s2(3), of ?fr2 ?b] by auto
  have "Framer_Send wr fr s chunks = Some (kTvmErrorNoError, ?fr2\<lparr>fr_state := kIdle\<rparr>, s3)"
    using s1(1) s2(1) s3(1) by (simp add: Framer_Send_def)
  moreover have "out s3 = out s @ lead fr @ frame_packet ?p"
    using s1(2) s2(2) s3(2) packet by simp
  moreover have "accepts s3 (n - length (lead fr @ frame_packet ?p))"
    using s3(3) len by (simp add: add.assoc)
  ultimately show ?thesis
    by (intro exI [of _ "?fr2\<lparr>fr_state := kIdle\<rparr>"] exI [of _ s3]) simp
qed

end

section \<open>Properties\<close>

text \<open>
  C20. Over the serial line, a packet sent as any sequence of payload chunks is one frame on the wire:
  the header, the escaped length, the escaped payload and the escaped checksum, after an escaped
  no-op if the framer had been reset; every call succeeds and the framer ends idle.
\<close>

theorem framer_sends_frame:
  assumes "2 * length (concat chunks) + 15 < 2 ^ 31"
    and "g_num_bytes_written s = g_num_bytes_requested s"
  shows "\<exists>fr' s'. Framer_Send SerialWriteStream_Write fr s chunks = Some (kTvmErrorNoError, fr', s')
    \<and> fr_state fr' = kIdle
    \<and> serial_out s' = serial_out s @ (if fr_state fr = kReset then [kEscapeNop] else [])
        @ frame_packet (concat chunks)"
proof -
  let ?n = "2 * length (concat chunks) + 15"
  have "serial_accepts s ?n"
    using assms by (simp add: serial_accepts_def)
  moreover have "length (lead fr @ frame_packet (concat chunks)) \<le> ?n"
    using length_frame_packet [of "concat chunks"] by (simp add: lead_def)
  ultimately show ?thesis
    using uart.Send_ok [of s ?n fr chunks] unfolding lead_def by blast
qed

theorem framer_sends_frame_witness:
  "\<exists>fr' s'. Framer_Send SerialWriteStream_Write (Framer 0) (serial.make 0 0 []) [[1, 0xff], [2]]
      = Some (kTvmErrorNoError, fr', s') \<and> fr_state fr' = kIdle
    \<and> serial_out s' = serial_out (serial.make 0 0 []) @ (if fr_state (Framer 0) = kReset then [kEscapeNop] else [])
        @ frame_packet (concat [[1, 0xff], [2]])"
  by (rule framer_sends_frame) (simp_all add: serial.make_def)

end
