(* ===== verification/Unframer.thy ===== *)
theory Unframer
  imports Framer
begin

text \<open>
  The receiving half of \<^verbatim>\<open>microtvm_rpc_common/framing.cc\<close>: \<^verbatim>\<open>Unframer\<close>, a state machine that is
  fed the wire in arbitrary pieces, unescapes it into a 128-byte buffer, hands the payload to a
  write stream and reports the end of every packet. The reference (\<open>rx_run\<close>) reads one byte at a
  time and produces the events of the stream.
\<close>

section \<open>The code\<close>

datatype unframer_state = kFindPacketStart | kFindPacketLength | kFindPacketCrc | kFindCrcEnd

text \<open>
  \<^verbatim>\<open>input_\<close> is not a field: \<^verbatim>\<open>input_ + input_size_bytes_\<close> is the end of the caller's \<^verbatim>\<open>data\<close> in
  every state, because both are always moved by the same amount, so the bytes at \<^verbatim>\<open>input_\<close> are the
  last \<open>uf_input_size_bytes\<close> of \<open>uf_data\<close>. Reading them is a fault when there are not that many.
\<close>

record unframer =
  uf_state :: unframer_state
  uf_data :: "u8 list"
  uf_input_size_bytes :: nat
  uf_saw_escape_start :: bool
  uf_buffer :: "u8 list"
  uf_num_buffer_bytes_valid :: nat
  uf_num_payload_bytes_remaining :: nat
  uf_crc :: u16

text \<open>The constructor sets three fields; the rest is what the memory \<open>m\<close> held.\<close>

definition Unframer :: "unframer \<Rightarrow> unframer" where
  "Unframer m = m\<lparr>uf_state := kFindPacketStart, uf_saw_escape_start := False,
     uf_num_buffer_bytes_valid := 0\<rparr>"

definition uf_input :: "unframer \<Rightarrow> u8 list option" where
  "uf_input u = (if uf_input_size_bytes u \<le> length (uf_data u)
     then Some (drop (length (uf_data u) - uf_input_size_bytes u) (uf_data u)) else None)"

definition Unframer_Reset :: "unframer \<Rightarrow> unframer" where
  "Unframer_Reset u = u\<lparr>uf_state := kFindPacketStart, uf_saw_escape_start := False,
     uf_num_buffer_bytes_valid := 0\<rparr>"

definition Unframer_BytesNeeded :: "unframer \<Rightarrow> nat" where
  "Unframer_BytesNeeded u =
     (case uf_state u of
        kFindPacketStart \<Rightarrow> 1
      | kFindPacketLength \<Rightarrow>
          (if kPayloadLength > uf_num_buffer_bytes_valid u
           then kPayloadLength - uf_num_buffer_bytes_valid u else 0)
      | kFindPacketCrc \<Rightarrow> uf_num_payload_bytes_remaining u
      | kFindCrcEnd \<Rightarrow>
          (if kCrc > uf_num_buffer_bytes_valid u then kCrc - uf_num_buffer_bytes_valid u else 0))"

definition Unframer_IsBufferFull :: "unframer \<Rightarrow> nat \<Rightarrow> bool" where
  "Unframer_IsBufferFull u buffer_full_bytes \<longleftrightarrow> uf_num_buffer_bytes_valid u \<ge> buffer_full_bytes"

definition Unframer_ClearBuffer :: "unframer \<Rightarrow> unframer" where
  "Unframer_ClearBuffer u = u\<lparr>uf_num_buffer_bytes_valid := 0\<rparr>"

text \<open>The loop of \<^verbatim>\<open>FindPacketStart\<close>; \<open>i\<close> counts the bytes taken.\<close>

fun FindPacketStart_loop :: "u8 list \<Rightarrow> nat \<Rightarrow> unframer \<Rightarrow> nat \<times> unframer" where
  "FindPacketStart_loop [] i u = (i, u)"
| "FindPacketStart_loop (c # cs) i u =
     (if c = kEscapeStart then FindPacketStart_loop cs (i + 1) (u\<lparr>uf_saw_escape_start := True\<rparr>)
      else if c = kPacketStart \<and> uf_saw_escape_start u
      then (i + 1, u\<lparr>uf_crc := crc16_compute [kEscapeStart, kPacketStart] None,
              uf_saw_escape_start := False, uf_state := kFindPacketLength\<rparr>)
      else FindPacketStart_loop cs (i + 1) (u\<lparr>uf_saw_escape_start := False\<rparr>))"

definition Unframer_FindPacketStart :: "unframer \<Rightarrow> (tvm_crt_error \<times> unframer) option" where
  "Unframer_FindPacketStart u = do {
     input \<leftarrow> uf_input u;
     let (i, u) = FindPacketStart_loop input 0 u;
     Some (kTvmErrorNoError, u\<lparr>uf_input_size_bytes := uf_input_size_bytes u - i\<rparr>)
   }"

text \<open>
  The loop of \<^verbatim>\<open>ConsumeInput\<close>, which has one caller, with \<^verbatim>\<open>buffer_\<close> and
  \<^verbatim>\<open>num_buffer_bytes_valid_\<close>; \<open>n\<close> is \<^verbatim>\<open>buffer_size_bytes\<close>.
\<close>

fun ConsumeInput_loop ::
    "u8 list \<Rightarrow> nat \<Rightarrow> nat \<Rightarrow> unframer \<Rightarrow> (tvm_crt_error \<times> nat \<times> unframer) option" where
  "ConsumeInput_loop [] i n u = Some (kTvmErrorNoError, i, u)"
| "ConsumeInput_loop (c # cs) i n u =
     (if uf_saw_escape_start u \<and> c = kPacketStart
      then Some (kTvmErrorFramingShortPacket, i,
        u\<lparr>uf_crc := crc16_compute [kEscapeStart] None, uf_saw_escape_start := True\<rparr>)
      else if uf_saw_escape_start u \<and> c = kEscapeNop
      then ConsumeInput_loop cs (i + 1) n (u\<lparr>uf_saw_escape_start := False\<rparr>)
      else if uf_saw_escape_start u \<and> c \<noteq> kEscapeStart
      then Some (kTvmErrorFramingInvalidEscape, i + 1, u\<lparr>uf_saw_escape_start := False\<rparr>)
      else if \<not> uf_saw_escape_start u \<and> c = kEscapeStart
      then ConsumeInput_loop cs (i + 1) n (u\<lparr>uf_saw_escape_start := True\<rparr>)
      else do {
        buffer \<leftarrow> arr_set (uf_buffer u) (uf_num_buffer_bytes_valid u) c;
        let u = u\<lparr>uf_saw_escape_start := False, uf_buffer := buffer,
                  uf_num_buffer_bytes_valid := uf_num_buffer_bytes_valid u + 1\<rparr>;
        if uf_num_buffer_bytes_valid u = n then Some (kTvmErrorNoError, i + 1, u)
        else ConsumeInput_loop cs (i + 1) n u
      })"

definition Unframer_ConsumeInput ::
    "unframer \<Rightarrow> nat \<Rightarrow> bool \<Rightarrow> (tvm_crt_error \<times> unframer) option" where
  "Unframer_ConsumeInput u buffer_size_bytes update_crc = do {
     CHECK (uf_num_buffer_bytes_valid u < buffer_size_bytes);
     input \<leftarrow> uf_input u;
     (to_return, i, u) \<leftarrow> ConsumeInput_loop input 0 buffer_size_bytes u;
     let u = (if update_crc then u\<lparr>uf_crc := crc16_compute (take i input) (Some (uf_crc u))\<rparr> else u);
     Some (to_return, u\<lparr>uf_input_size_bytes := uf_input_size_bytes u - i\<rparr>)
   }"

definition Unframer_AddToBuffer ::
    "unframer \<Rightarrow> nat \<Rightarrow> bool \<Rightarrow> (tvm_crt_error \<times> unframer) option" where
  "Unframer_AddToBuffer u buffer_full_bytes update_crc = do {
     CHECK (\<not> Unframer_IsBufferFull u buffer_full_bytes);
     Unframer_ConsumeInput u buffer_full_bytes update_crc
   }"

definition Unframer_FindPacketLength :: "unframer \<Rightarrow> (tvm_crt_error \<times> unframer) option" where
  "Unframer_FindPacketLength u = do {
     (to_return, u) \<leftarrow> Unframer_AddToBuffer u kPayloadLength True;
     if to_return \<noteq> kTvmErrorNoError then Some (to_return, u)
     else if \<not> Unframer_IsBufferFull u kPayloadLength then Some (to_return, u)
     else do {
       field \<leftarrow> mem_read (uf_buffer u) 0 4;
       let u = u\<lparr>uf_num_payload_bytes_remaining := le_value field\<rparr>;
       let u = Unframer_ClearBuffer u;
       Some (to_return, u\<lparr>uf_state := kFindPacketCrc\<rparr>)
     }
   }"

text \<open>
  The rewind after a failed \<^verbatim>\<open>WriteAll\<close>: how many bytes of the input hold \<open>n\<close> bytes that are not the
  escape byte. The input is read from where it stood before \<^verbatim>\<open>AddToBuffer\<close>, and running past the end
  of the data is a fault.
\<close>

fun rewind_count :: "u8 list \<Rightarrow> nat \<Rightarrow> nat option" where
  "rewind_count input 0 = Some 0"
| "rewind_count [] (Suc n) = None"
| "rewind_count (c # cs) (Suc n) = do {
     k \<leftarrow> rewind_count cs (if c \<noteq> kEscapeStart then n else Suc n);
     Some (k + 1)
   }"

lemma ConsumeInput_loop_bound:
  "ConsumeInput_loop input i n u = Some (e, j, u') \<Longrightarrow>
   i \<le> j \<and> j \<le> i + length input \<and> uf_input_size_bytes u' = uf_input_size_bytes u
   \<and> (e = kTvmErrorNoError \<longrightarrow> input \<noteq> [] \<longrightarrow> i < j)"
proof (induction input i n u rule: ConsumeInput_loop.induct)
  case (1 i n u)
  then show ?case by simp
next
  case (2 c cs i n u)
  let ?saw = "uf_saw_escape_start u"
  consider (short) "?saw \<and> c = kPacketStart" | (nop) "?saw \<and> c = kEscapeNop" "c \<noteq> kPacketStart"
    | (bad) "?saw" "c \<noteq> kPacketStart" "c \<noteq> kEscapeNop" "c \<noteq> kEscapeStart"
    | (esc) "\<not> ?saw" "c = kEscapeStart"
    | (store) "(?saw \<and> c = kEscapeStart) \<or> (\<not> ?saw \<and> c \<noteq> kEscapeStart)"
    by blast
  then show ?case
  proof cases
    case short
    then show ?thesis using "2.prems" by auto
  next
    case nop
    then show ?thesis using "2.prems" "2.IH"(1) by simp
  next
    case bad
    then show ?thesis using "2.prems" by auto
  next
    case esc
    then show ?thesis using "2.prems" "2.IH"(2) by simp
  next
    case store
    then have n: "\<not> (?saw \<and> c = kPacketStart)" "\<not> (?saw \<and> c = kEscapeNop)"
      "\<not> (?saw \<and> c \<noteq> kEscapeStart)" "\<not> (\<not> ?saw \<and> c = kEscapeStart)"
      by (auto simp: Escape_defs)
    obtain b where b: "arr_set (uf_buffer u) (uf_num_buffer_bytes_valid u) c = Some b"
      using "2.prems" n by (auto simp: bind_eq_Some simp del: arr_set_in)
    let ?u = "u\<lparr>uf_saw_escape_start := False, uf_buffer := b,
                  uf_num_buffer_bytes_valid := uf_num_buffer_bytes_valid u + 1\<rparr>"
    show ?thesis
    proof (cases "uf_num_buffer_bytes_valid ?u = n")
      case True
      then show ?thesis
        using "2.prems" n b by auto
    next
      case False
      then have "ConsumeInput_loop cs (i + 1) n ?u = Some (e, j, u')"
        using "2.prems" n b by auto
      then show ?thesis
        using "2.IH"(3) [OF n b refl False] by simp
    qed
  qed
qed

lemma AddToBuffer_bound:
  assumes "Unframer_AddToBuffer u n upd = Some (e, u')"
  shows "uf_input_size_bytes u' \<le> uf_input_size_bytes u"
    "e = kTvmErrorNoError \<Longrightarrow> 0 < uf_input_size_bytes u \<Longrightarrow> uf_input_size_bytes u' < uf_input_size_bytes u"
    "e = kTvmErrorNoError \<Longrightarrow> uf_num_buffer_bytes_valid u \<noteq> uf_num_buffer_bytes_valid u' \<Longrightarrow>
      uf_input_size_bytes u' < uf_input_size_bytes u"
proof -
  obtain input j w where s: "uf_input u = Some input"
    "ConsumeInput_loop input 0 n u = Some (e, j, w)"
    "uf_input_size_bytes u' = uf_input_size_bytes w - j"
    "uf_num_buffer_bytes_valid u' = uf_num_buffer_bytes_valid w"
    using assms
    by (auto simp: Unframer_AddToBuffer_def Unframer_ConsumeInput_def bind_eq_Some Let_def
        split: if_splits)
  have len: "length input = uf_input_size_bytes u"
    using s(1) by (auto simp: uf_input_def split: if_splits)
  note b = ConsumeInput_loop_bound [OF s(2)]
  show "uf_input_size_bytes u' \<le> uf_input_size_bytes u"
    using s b by simp
  show *: "uf_input_size_bytes u' < uf_input_size_bytes u"
    if e: "e = kTvmErrorNoError" and pos: "0 < uf_input_size_bytes u"
  proof -
    have "input \<noteq> []"
      using len pos by auto
    then have "0 < j" and "uf_input_size_bytes w = uf_input_size_bytes u"
      using b e by simp_all
    then show ?thesis
      using s(3) pos by simp
  qed
  show "uf_input_size_bytes u' < uf_input_size_bytes u"
    if e: "e = kTvmErrorNoError" and ne: "uf_num_buffer_bytes_valid u \<noteq> uf_num_buffer_bytes_valid u'"
  proof (rule * [OF e])
    have "input \<noteq> []"
      using s(2,4) ne by (cases input) auto
    then show "0 < uf_input_size_bytes u"
      unfolding len [symmetric] by simp
  qed
qed

text \<open>
  The loop of \<^verbatim>\<open>FindPacketCrc\<close>. When the stream fails, the rewind moves \<^verbatim>\<open>input_\<close> back by
  \<^verbatim>\<open>prev_input_size_bytes - buffer_bytes_consumed\<close>.
\<close>

function FindPacketCrc_loop ::
    "'s stream_write \<Rightarrow> unframer \<Rightarrow> 's \<Rightarrow> (tvm_crt_error \<times> unframer \<times> 's) option" where
  "FindPacketCrc_loop wr u s =
     (if uf_num_payload_bytes_remaining u = 0
      then Some (kTvmErrorNoError, u\<lparr>uf_state := kFindCrcEnd\<rparr>, s)
      else do {
        let num_bytes_to_buffer =
          (if uf_num_payload_bytes_remaining u > 128 then 128 else uf_num_payload_bytes_remaining u);
        let prev_input_size_bytes = uf_input_size_bytes u;
        prev_input \<leftarrow> uf_input u;
        let prev_num_buffer_bytes_valid = uf_num_buffer_bytes_valid u;
        (to_return, u) \<leftarrow> Unframer_AddToBuffer u num_bytes_to_buffer True;
        if to_return \<noteq> kTvmErrorNoError then Some (to_return, u, s)
        else if prev_num_buffer_bytes_valid = uf_num_buffer_bytes_valid u
        then Some (kTvmErrorNoError, u, s)
        else do {
          buffer \<leftarrow> mem_read (uf_buffer u) 0 (uf_num_buffer_bytes_valid u);
          (to_return, bytes_consumed, s) \<leftarrow> WriteAll wr s buffer;
          let u = u\<lparr>uf_num_payload_bytes_remaining :=
                    size_sub (uf_num_payload_bytes_remaining u) bytes_consumed\<rparr>;
          if to_return \<noteq> kTvmErrorNoError
          then do {
            buffer_bytes_consumed \<leftarrow> rewind_count prev_input bytes_consumed;
            let bytes_to_rewind = size_sub prev_input_size_bytes buffer_bytes_consumed;
            let u = u\<lparr>uf_input_size_bytes := (uf_input_size_bytes u + bytes_to_rewind) mod 2 ^ 32,
                      uf_saw_escape_start := False\<rparr>;
            Some (to_return, u, s)
          }
          else FindPacketCrc_loop wr (Unframer_ClearBuffer u) s
        }
      })"
  by auto
termination
proof (relation "measure (\<lambda>(_, u, _). uf_input_size_bytes u)", goal_cases)
  case 1
  show ?case by simp
next
  case (2 wr u s)
  then show ?case
    using AddToBuffer_bound(3) by (fastforce simp: Unframer_ClearBuffer_def)
qed

declare FindPacketCrc_loop.simps [simp del]

definition Unframer_FindPacketCrc ::
    "'s stream_write \<Rightarrow> unframer \<Rightarrow> 's \<Rightarrow> (tvm_crt_error \<times> unframer \<times> 's) option" where
  "Unframer_FindPacketCrc wr u s = FindPacketCrc_loop wr u s"

type_synonym 's stream_done = "'s \<Rightarrow> bool \<Rightarrow> 's option"

definition Unframer_FindCrcEnd ::
    "'s stream_done \<Rightarrow> unframer \<Rightarrow> 's \<Rightarrow> (tvm_crt_error \<times> unframer \<times> 's) option" where
  "Unframer_FindCrcEnd done_packet u s = do {
     (to_return, u) \<leftarrow> Unframer_AddToBuffer u kCrc False;
     if to_return \<noteq> kTvmErrorNoError then Some (to_return, u, s)
     else if \<not> Unframer_IsBufferFull u kCrc then Some (kTvmErrorNoError, u, s)
     else do {
       field \<leftarrow> mem_read (uf_buffer u) 0 2;
       s \<leftarrow> done_packet s (unat (uf_crc u) = le_value field);
       let u = Unframer_ClearBuffer u;
       Some (kTvmErrorNoError, u\<lparr>uf_state := kFindPacketStart\<rparr>, s)
     }
   }"

text \<open>One round of the loop of \<^verbatim>\<open>Write\<close>; the enum has no value for the default case.\<close>

definition Unframer_dispatch ::
    "'s stream_write \<Rightarrow> 's stream_done \<Rightarrow> unframer \<Rightarrow> 's \<Rightarrow> (tvm_crt_error \<times> unframer \<times> 's) option" where
  "Unframer_dispatch wr done_packet u s =
     (case uf_state u of
        kFindPacketStart \<Rightarrow> do { (e, u) \<leftarrow> Unframer_FindPacketStart u; Some (e, u, s) }
      | kFindPacketLength \<Rightarrow> do { (e, u) \<leftarrow> Unframer_FindPacketLength u; Some (e, u, s) }
      | kFindPacketCrc \<Rightarrow> Unframer_FindPacketCrc wr u s
      | kFindCrcEnd \<Rightarrow> Unframer_FindCrcEnd done_packet u s)"

lemma FindPacketStart_loop_bound:
  "FindPacketStart_loop input i u = (j, u') \<Longrightarrow>
   i \<le> j \<and> j \<le> i + length input \<and> (input \<noteq> [] \<longrightarrow> i < j)
   \<and> uf_input_size_bytes u' = uf_input_size_bytes u"
  by (induction input i u rule: FindPacketStart_loop.induct) (force split: if_splits)+

lemma FindPacketCrc_bound:
  "FindPacketCrc_loop wr u s = Some (kTvmErrorNoError, u', s') \<Longrightarrow>
   uf_input_size_bytes u' < uf_input_size_bytes u
   \<or> uf_input_size_bytes u' = uf_input_size_bytes u
     \<and> (uf_state u' = kFindCrcEnd \<or> uf_input_size_bytes u = 0)"
proof (induction "uf_input_size_bytes u" arbitrary: u s rule: less_induct)
  case less
  show ?case
  proof (cases "uf_num_payload_bytes_remaining u = 0")
    case True
    then show ?thesis
      using less.prems by (auto simp: FindPacketCrc_loop.simps [of wr u s])
  next
    case False
    let ?n = "if uf_num_payload_bytes_remaining u > 128 then 128 else uf_num_payload_bytes_remaining u"
    obtain e u1 where add: "Unframer_AddToBuffer u ?n True = Some (e, u1)"
      using less.prems False by (auto simp: FindPacketCrc_loop.simps [of wr u s] bind_eq_Some Let_def)
    have e: "e = kTvmErrorNoError"
      using less.prems False add
      by (auto simp: FindPacketCrc_loop.simps [of wr u s] bind_eq_Some Let_def split: if_splits)
    note bound = AddToBuffer_bound [OF add [unfolded e]]
    show ?thesis
    proof (cases "uf_num_buffer_bytes_valid u = uf_num_buffer_bytes_valid u1")
      case True
      then have "u' = u1"
        using less.prems False add e
        by (auto simp: FindPacketCrc_loop.simps [of wr u s] bind_eq_Some Let_def)
      then show ?thesis
        using bound by auto
    next
      case ne: False
      then obtain u2 s2 where nx: "FindPacketCrc_loop wr u2 s2 = Some (kTvmErrorNoError, u', s')"
        "uf_input_size_bytes u2 = uf_input_size_bytes u1"
        using less.prems False add e
        by (auto simp: FindPacketCrc_loop.simps [of wr u s] bind_eq_Some Let_def Unframer_ClearBuffer_def
            split: if_splits)
      have "uf_input_size_bytes u1 < uf_input_size_bytes u"
        using bound(3) ne by simp
      then show ?thesis
        using less.hyps [OF _ nx(1)] nx(2) by auto
    qed
  qed
qed

lemma dispatch_bound:
  assumes "Unframer_dispatch wr done_packet u s = Some (kTvmErrorNoError, u', s')"
    and "0 < uf_input_size_bytes u"
  shows "uf_input_size_bytes u' < uf_input_size_bytes u
    \<or> uf_input_size_bytes u' = uf_input_size_bytes u \<and> uf_state u = kFindPacketCrc
      \<and> uf_state u' = kFindCrcEnd"
proof (cases "uf_state u")
  case kFindPacketStart
  obtain input where i: "uf_input u = Some input"
    using assms(1) kFindPacketStart
    by (auto simp: Unframer_dispatch_def Unframer_FindPacketStart_def bind_eq_Some)
  moreover obtain i w where "FindPacketStart_loop input 0 u = (i, w)"
    by fastforce
  ultimately have *: "uf_input u = Some input" "FindPacketStart_loop input 0 u = (i, w)"
    "u' = w\<lparr>uf_input_size_bytes := uf_input_size_bytes w - i\<rparr>"
    using assms(1) kFindPacketStart
    by (auto simp: Unframer_dispatch_def Unframer_FindPacketStart_def bind_eq_Some)
  moreover have "input \<noteq> []"
    using *(1) assms(2) by (auto simp: uf_input_def split: if_splits)
  ultimately show ?thesis
    using FindPacketStart_loop_bound [OF *(2)] assms(2) by auto
next
  case kFindPacketLength
  then obtain w where "Unframer_AddToBuffer u kPayloadLength True = Some (kTvmErrorNoError, w)"
    "uf_input_size_bytes u' = uf_input_size_bytes w"
    using assms(1)
    by (auto simp: Unframer_dispatch_def Unframer_FindPacketLength_def bind_eq_Some Let_def
        Unframer_ClearBuffer_def split: if_splits)
  then show ?thesis
    using AddToBuffer_bound(2) assms(2) by simp
next
  case kFindPacketCrc
  then show ?thesis
    using assms FindPacketCrc_bound [of wr u s u' s']
    by (auto simp: Unframer_dispatch_def Unframer_FindPacketCrc_def)
next
  case kFindCrcEnd
  then obtain w where "Unframer_AddToBuffer u kCrc False = Some (kTvmErrorNoError, w)"
    "uf_input_size_bytes u' = uf_input_size_bytes w"
    using assms(1)
    by (auto simp: Unframer_dispatch_def Unframer_FindCrcEnd_def bind_eq_Some Let_def
        Unframer_ClearBuffer_def split: if_splits)
  then show ?thesis
    using AddToBuffer_bound(2) assms(2) by simp
qed

function Unframer_Write_loop ::
    "'s stream_write \<Rightarrow> 's stream_done \<Rightarrow> unframer \<Rightarrow> 's \<Rightarrow> (tvm_crt_error \<times> unframer \<times> 's) option" where
  "Unframer_Write_loop wr done_packet u s =
     (if uf_input_size_bytes u = 0 then Some (kTvmErrorNoError, u, s)
      else do {
        (return_code, u, s) \<leftarrow> Unframer_dispatch wr done_packet u s;
        if return_code = kTvmErrorNoError then Unframer_Write_loop wr done_packet u s
        else Some (return_code, u, s)
      })"
  by auto
termination
  by (relation "measures [\<lambda>(_, _, u, _). uf_input_size_bytes u,
        \<lambda>(_, _, u, _). if uf_state u = kFindPacketCrc then 1 else 0]")
    (auto dest: dispatch_bound)

declare Unframer_Write_loop.simps [simp del]

text \<open>The results are the error code, \<^verbatim>\<open>*bytes_consumed\<close>, and the new states.\<close>

definition Unframer_Write ::
    "'s stream_write \<Rightarrow> 's stream_done \<Rightarrow> unframer \<Rightarrow> 's \<Rightarrow> u8 list
     \<Rightarrow> (tvm_crt_error \<times> nat \<times> unframer \<times> 's) option" where
  "Unframer_Write wr done_packet u s data = do {
     let u = u\<lparr>uf_data := data, uf_input_size_bytes := length data\<rparr>;
     (return_code, u, s) \<leftarrow> Unframer_Write_loop wr done_packet u s;
     let bytes_consumed = size_sub (length data) (uf_input_size_bytes u);
     let u = u\<lparr>uf_data := [], uf_input_size_bytes := 0\<rparr>;
     let u = (if return_code \<noteq> kTvmErrorNoError
              then Unframer_ClearBuffer (u\<lparr>uf_state := kFindPacketStart\<rparr>) else u);
     Some (return_code, bytes_consumed, u, s)
   }"

section \<open>Unescaping\<close>

text \<open>
  \<open>unesc saw k cs\<close>: what \<^verbatim>\<open>ConsumeInput\<close> makes of \<open>cs\<close> when it still wants \<open>k > 0\<close> bytes: the
  error, the number of bytes taken, whether an escape is pending, and the bytes it yields.
\<close>

fun unesc :: "bool \<Rightarrow> nat \<Rightarrow> u8 list \<Rightarrow> tvm_crt_error \<times> nat \<times> bool \<times> u8 list" where
  "unesc saw k [] = (kTvmErrorNoError, 0, saw, [])"
| "unesc saw k (c # cs) =
     (if saw \<and> c = kPacketStart then (kTvmErrorFramingShortPacket, 0, True, [])
      else if saw \<and> c = kEscapeNop then (case unesc False k cs of (e, j, t, bs) \<Rightarrow> (e, Suc j, t, bs))
      else if saw \<and> c \<noteq> kEscapeStart then (kTvmErrorFramingInvalidEscape, 1, False, [])
      else if \<not> saw \<and> c = kEscapeStart then (case unesc True k cs of (e, j, t, bs) \<Rightarrow> (e, Suc j, t, bs))
      else if k = 1 then (kTvmErrorNoError, 1, False, [c])
      else (case unesc False (k - 1) cs of (e, j, t, bs) \<Rightarrow> (e, Suc j, t, c # bs)))"

text \<open>The five cases of one byte.\<close>

lemma escape_cases:
  obtains (short) "saw" "c = kPacketStart"
    | (nop) "saw" "c = kEscapeNop"
    | (bad) "saw" "c \<noteq> kPacketStart" "c \<noteq> kEscapeNop" "c \<noteq> kEscapeStart"
    | (esc) "\<not> saw" "c = kEscapeStart"
    | (plain) "saw \<and> c = kEscapeStart \<or> \<not> saw \<and> c \<noteq> kEscapeStart"
  by blast

lemma Escape_distinct [simp]:
  "kEscapeNop \<noteq> kPacketStart" "kEscapeStart \<noteq> kPacketStart" "kEscapeNop \<noteq> kEscapeStart"
  "kPacketStart \<noteq> kEscapeNop" "kPacketStart \<noteq> kEscapeStart" "kEscapeStart \<noteq> kEscapeNop"
  by (simp_all add: Escape_defs)

lemma unesc_simps [simp]:
  "unesc True k (kPacketStart # cs) = (kTvmErrorFramingShortPacket, 0, True, [])"
  "unesc True k (kEscapeNop # cs) = (case unesc False k cs of (e, j, t, bs) \<Rightarrow> (e, Suc j, t, bs))"
  "unesc False k (kEscapeStart # cs) = (case unesc True k cs of (e, j, t, bs) \<Rightarrow> (e, Suc j, t, bs))"
  by (auto split: prod.splits)

lemma unesc_plain:
  "saw \<and> c = kEscapeStart \<or> \<not> saw \<and> c \<noteq> kEscapeStart \<Longrightarrow>
   unesc saw k (c # cs) = (if k = 1 then (kTvmErrorNoError, 1, False, [c])
     else (case unesc False (k - 1) cs of (e, j, t, bs) \<Rightarrow> (e, Suc j, t, c # bs)))"
  by (elim disjE conjE) simp_all

lemma unesc_bad:
  "saw \<Longrightarrow> c \<noteq> kPacketStart \<Longrightarrow> c \<noteq> kEscapeNop \<Longrightarrow> c \<noteq> kEscapeStart \<Longrightarrow>
   unesc saw k (c # cs) = (kTvmErrorFramingInvalidEscape, 1, False, [])"
  by simp

declare unesc.simps(2) [simp del]

lemma unesc_bounds:
  "0 < k \<Longrightarrow> unesc saw k cs = (e, j, t, bs) \<Longrightarrow>
   length bs \<le> k \<and> length bs \<le> j \<and> j \<le> length cs
   \<and> (e = kTvmErrorNoError \<longrightarrow> length bs < k \<longrightarrow> j = length cs)
   \<and> (e = kTvmErrorNoError \<longrightarrow> length bs = k \<longrightarrow> \<not> t)
   \<and> (e \<noteq> kTvmErrorNoError \<longrightarrow> length bs < k \<and> (t \<longleftrightarrow> e = kTvmErrorFramingShortPacket))"
proof (induction cs arbitrary: saw k e j t bs)
  case Nil
  then show ?case by simp
next
  case (Cons c cs)
  show ?case
  proof (cases rule: escape_cases [of saw c])
    case short
    then show ?thesis using Cons.prems by auto
  next
    case nop
    then show ?thesis
      using Cons.prems Cons.IH [of k False] by (auto split: prod.splits)
  next
    case bad
    then show ?thesis using Cons.prems by (auto simp: unesc_bad)
  next
    case esc
    then show ?thesis
      using Cons.prems Cons.IH [of k True] by (auto split: prod.splits)
  next
    case plain
    then show ?thesis
      using Cons.prems Cons.IH [of "k - 1" False]
      by (auto simp: unesc_plain [OF plain] split: prod.splits if_splits)
  qed
qed

lemma take_update_Suc: "n < length xs \<Longrightarrow> take (Suc n) (xs[n := c]) = take n xs @ [c]"
  by (simp add: take_Suc_conv_app_nth)

text \<open>What a call adds to the buffer.\<close>

definition uf_fill :: "u8 list \<Rightarrow> bool \<Rightarrow> unframer \<Rightarrow> unframer" where
  "uf_fill bs t u = u\<lparr>uf_saw_escape_start := t,
     uf_buffer := take (uf_num_buffer_bytes_valid u) (uf_buffer u) @ bs
       @ drop (uf_num_buffer_bytes_valid u + length bs) (uf_buffer u),
     uf_num_buffer_bytes_valid := uf_num_buffer_bytes_valid u + length bs\<rparr>"

lemma ConsumeInput_loop_unesc:
  "uf_num_buffer_bytes_valid u + k = n \<Longrightarrow> 0 < k \<Longrightarrow> n \<le> length (uf_buffer u) \<Longrightarrow>
   unesc (uf_saw_escape_start u) k cs = (e, j, t, bs) \<Longrightarrow>
   ConsumeInput_loop cs i n u = Some (e, i + j, (uf_fill bs t u)\<lparr>uf_crc :=
     if e = kTvmErrorFramingShortPacket then crc16_compute [kEscapeStart] None else uf_crc u\<rparr>)"
proof (induction cs arbitrary: u k e j t bs i)
  case Nil
  then show ?case by (simp add: uf_fill_def)
next
  case (Cons c cs)
  show ?case
  proof (cases rule: escape_cases [of "uf_saw_escape_start u" c])
    case short
    then show ?thesis using Cons.prems by (auto simp: uf_fill_def)
  next
    case nop
    then show ?thesis
      using Cons.prems Cons.IH [of "u\<lparr>uf_saw_escape_start := False\<rparr>" k]
      by (auto simp: uf_fill_def split: prod.splits)
  next
    case bad
    then show ?thesis using Cons.prems by (auto simp: unesc_bad uf_fill_def)
  next
    case esc
    then show ?thesis
      using Cons.prems Cons.IH [of "u\<lparr>uf_saw_escape_start := True\<rparr>" k]
      by (auto simp: uf_fill_def split: prod.splits)
  next
    case plain
    let ?v = "uf_num_buffer_bytes_valid u"
    let ?u = "u\<lparr>uf_saw_escape_start := False, uf_buffer := (uf_buffer u)[?v := c],
                uf_num_buffer_bytes_valid := ?v + 1\<rparr>"
    have v: "?v < length (uf_buffer u)"
      using Cons.prems by simp
    have step: "ConsumeInput_loop (c # cs) i n u =
      (if ?v + 1 = n then Some (kTvmErrorNoError, i + 1, ?u) else ConsumeInput_loop cs (i + 1) n ?u)"
      using plain v by (elim disjE conjE) simp_all
    have fill: "uf_fill bs' t' ?u = uf_fill (c # bs') t' u" for bs' t'
      using v by (simp add: uf_fill_def take_update_Suc)
    show ?thesis
    proof (cases "k = 1")
      case True
      then show ?thesis
        using Cons.prems step v upd_conv_take_nth_drop [OF v]
        by (auto simp: unesc_plain [OF plain] uf_fill_def)
    next
      case False
      obtain e' j' t' bs' where un: "unesc False (k - 1) cs = (e', j', t', bs')"
        by (cases "unesc False (k - 1) cs") auto
      have eq: "e = e'" "j = Suc j'" "t = t'" "bs = c # bs'"
        using Cons.prems(4) False un by (simp_all add: unesc_plain [OF plain])
      have "ConsumeInput_loop cs (i + 1) n ?u = Some (e, i + 1 + j', (uf_fill bs' t' ?u)\<lparr>uf_crc :=
         if e = kTvmErrorFramingShortPacket then crc16_compute [kEscapeStart] None else uf_crc ?u\<rparr>)"
        using Cons.IH [of ?u "k - 1" e' j' t' bs' "i + 1"] Cons.prems(1-3) False un eq(1) by simp
      moreover have "?v + 1 \<noteq> n"
        using Cons.prems(1) False by simp
      ultimately show ?thesis
        unfolding step fill eq by simp
    qed
  qed
qed

section \<open>The reference receiver\<close>

text \<open>
  One state per phase of a frame, read byte by byte: the pending escape, the bytes of the field so
  far or the payload bytes still to come, and the running checksum.
\<close>

datatype rx =
    RxStart bool
  | RxLength bool "u8 list" u16
  | RxPayload bool nat u16
  | RxCrc bool "u8 list" u16

datatype rx_event = RxByte u8 | RxDone bool

definition rx_first_crc :: u16 where
  "rx_first_crc = crc16_compute [kEscapeStart, kPacketStart] None"

definition rx_after_length :: "u8 list \<Rightarrow> u16 \<Rightarrow> rx" where
  "rx_after_length field crc =
     (if le_value field = 0 then RxCrc False [] crc else RxPayload False (le_value field) crc)"

fun rx_saw :: "rx \<Rightarrow> bool" where
  "rx_saw (RxStart t) = t"
| "rx_saw (RxLength t acc crc) = t"
| "rx_saw (RxPayload t n crc) = t"
| "rx_saw (RxCrc t acc crc) = t"

text \<open>A byte that belongs to an escape sequence.\<close>

fun rx_escape :: "rx \<Rightarrow> bool \<Rightarrow> u8 \<Rightarrow> rx" where
  "rx_escape (RxStart _) t c = RxStart t"
| "rx_escape (RxLength _ acc crc) t c = RxLength t acc (update_crc_ccitt crc c)"
| "rx_escape (RxPayload _ n crc) t c = RxPayload t n (update_crc_ccitt crc c)"
| "rx_escape (RxCrc _ acc crc) t c = RxCrc t acc crc"

text \<open>A byte of a field or of the payload.\<close>

fun rx_byte :: "rx \<Rightarrow> u8 \<Rightarrow> rx_event list \<times> rx" where
  "rx_byte (RxStart t) c = ([], RxStart t)"
| "rx_byte (RxLength _ acc crc) c =
     (let crc = update_crc_ccitt crc c; acc = acc @ [c]
      in ([], if length acc = 4 then rx_after_length acc crc else RxLength False acc crc))"
| "rx_byte (RxPayload _ n crc) c =
     (let crc = update_crc_ccitt crc c
      in ([RxByte c], if n = 1 then RxCrc False [] crc else RxPayload False (n - 1) crc))"
| "rx_byte (RxCrc _ acc crc) c =
     (let acc = acc @ [c]
      in if length acc = 2 then ([RxDone (unat crc = le_value acc)], RxStart False)
         else ([], RxCrc False acc crc))"

definition rx_emit :: "rx_event list \<Rightarrow> rx_event list \<times> 'b \<Rightarrow> rx_event list \<times> 'b" where
  "rx_emit evs x = (evs @ fst x, snd x)"

lemma rx_emit_simps [simp]:
  "rx_emit [] x = x" "rx_emit xs (rx_emit ys x) = rx_emit (xs @ ys) x"
  "rx_emit xs (ys, y) = (xs @ ys, y)" "fst (rx_emit xs x) = xs @ fst x" "snd (rx_emit xs x) = snd x"
  by (simp_all add: rx_emit_def)

text \<open>
  The events, the error that stopped the run, the bytes left unread, and the state.
\<close>

fun rx_run :: "rx \<Rightarrow> u8 list \<Rightarrow> rx_event list \<times> tvm_crt_error \<times> u8 list \<times> rx" where
  "rx_run r [] = ([], kTvmErrorNoError, [], r)"
| "rx_run (RxStart saw) (c # cs) =
     (if c = kEscapeStart then rx_run (RxStart True) cs
      else if c = kPacketStart \<and> saw then rx_run (RxLength False [] rx_first_crc) cs
      else rx_run (RxStart False) cs)"
| "rx_run r (c # cs) =
     (if rx_saw r \<and> c = kPacketStart then ([], kTvmErrorFramingShortPacket, c # cs, RxStart True)
      else if rx_saw r \<and> c = kEscapeNop then rx_run (rx_escape r False c) cs
      else if rx_saw r \<and> c \<noteq> kEscapeStart then ([], kTvmErrorFramingInvalidEscape, cs, RxStart False)
      else if \<not> rx_saw r \<and> c = kEscapeStart then rx_run (rx_escape r True c) cs
      else (case rx_byte r c of (evs, r') \<Rightarrow> rx_emit evs (rx_run r' cs)))"

lemma unesc_ConsE:
  assumes "(case x of (e, j, t, bs) \<Rightarrow> (e, Suc j, t, c # bs)) = (e', j', t', bs')"
  obtains i bs where "x = (e', i, t', bs)" "j' = Suc i" "bs' = c # bs"
  using assms by (cases x) auto

lemma rx_run_Length:
  "0 < k \<Longrightarrow> length acc + k = 4 \<Longrightarrow> unesc saw k cs = (e, j, t, bs) \<Longrightarrow>
   rx_run (RxLength saw acc crc) cs =
     (let crc' = crc16_compute (take j cs) (Some crc)
      in if e \<noteq> kTvmErrorNoError then ([], e, drop j cs, RxStart (e = kTvmErrorFramingShortPacket))
         else rx_run (if length bs = k then rx_after_length (acc @ bs) crc' else RxLength t (acc @ bs) crc')
                (drop j cs))"
proof (induction cs arbitrary: saw acc k e j t bs crc)
  case Nil
  then show ?case by auto
next
  case (Cons c cs)
  show ?case
  proof (cases rule: escape_cases [of saw c])
    case short
    then show ?thesis using Cons.prems by auto
  next
  case nop
    then obtain i where i: "unesc False k cs = (e, i, t, bs)" "j = Suc i"
      using Cons.prems(3) by (cases "unesc False k cs") auto
    show ?thesis
      using nop Cons.IH [OF Cons.prems(1,2) i(1)] i(2) by (simp add: crc16_compute_Cons Let_def)
  next
    case bad
    then show ?thesis using Cons.prems by (auto simp: unesc_bad)
  next
    case esc
    then obtain i where i: "unesc True k cs = (e, i, t, bs)" "j = Suc i"
      using Cons.prems(3) by (cases "unesc True k cs") auto
    show ?thesis
      using esc Cons.IH [OF Cons.prems(1,2) i(1)] i(2) by (simp add: crc16_compute_Cons Let_def)
  next
    case plain
    have step: "rx_run (RxLength saw acc crc) (c # cs) =
        rx_run (snd (rx_byte (RxLength saw acc crc) c)) cs"
      using plain by (elim disjE conjE) (simp_all add: Let_def)
    show ?thesis
    proof (cases "k = 1")
      case True
      then show ?thesis
        using Cons.prems unfolding step
        by (auto simp: unesc_plain [OF plain] crc16_compute_Cons Let_def)
    next
      case False
      then obtain i bs' where i: "unesc False (k - 1) cs = (e, i, t, bs')" "j = Suc i" "bs = c # bs'"
        using Cons.prems(3) unesc_plain [OF plain, of k cs] by (auto elim: unesc_ConsE)
      obtain m where m: "k = Suc m" "0 < m"
        using False Cons.prems(1) by (cases k) auto
      show ?thesis
        using Cons.prems(1,2) Cons.IH [of "k - 1" "acc @ [c]" False e i t bs'] i
          m(2)
        unfolding step m(1) by (simp add: crc16_compute_Cons Let_def)
    qed
  qed
qed

lemma rx_run_Payload:
  "0 < k \<Longrightarrow> k \<le> n \<Longrightarrow> unesc saw k cs = (e, j, t, bs) \<Longrightarrow>
   rx_run (RxPayload saw n crc) cs =
     (let crc' = crc16_compute (take j cs) (Some crc)
      in if e \<noteq> kTvmErrorNoError
         then (map RxByte bs, e, drop j cs, RxStart (e = kTvmErrorFramingShortPacket))
         else rx_emit (map RxByte bs)
                (rx_run (if length bs = n then RxCrc False [] crc' else RxPayload t (n - length bs) crc')
                  (drop j cs)))"
proof (induction cs arbitrary: saw n k e j t bs crc)
  case Nil
  then show ?case by auto
next
  case (Cons c cs)
  show ?case
  proof (cases rule: escape_cases [of saw c])
    case short
    then show ?thesis using Cons.prems by auto
  next
  case nop
    then obtain i where i: "unesc False k cs = (e, i, t, bs)" "j = Suc i"
      using Cons.prems(3) by (cases "unesc False k cs") auto
    show ?thesis
      using nop Cons.IH [OF Cons.prems(1,2) i(1)] i(2) by (simp add: crc16_compute_Cons Let_def)
  next
    case bad
    then show ?thesis using Cons.prems by (auto simp: unesc_bad)
  next
    case esc
    then obtain i where i: "unesc True k cs = (e, i, t, bs)" "j = Suc i"
      using Cons.prems(3) by (cases "unesc True k cs") auto
    show ?thesis
      using esc Cons.IH [OF Cons.prems(1,2) i(1)] i(2) by (simp add: crc16_compute_Cons Let_def)
  next
    case plain
    have step: "rx_run (RxPayload saw n crc) (c # cs) =
        rx_emit [RxByte c] (rx_run (snd (rx_byte (RxPayload saw n crc) c)) cs)"
      using plain by (elim disjE conjE) (simp_all add: Let_def)
    show ?thesis
    proof (cases "k = 1")
      case True
      then show ?thesis
        using Cons.prems unfolding step
        by (auto simp: unesc_plain [OF plain] crc16_compute_Cons Let_def)
    next
      case False
      then obtain i bs' where i: "unesc False (k - 1) cs = (e, i, t, bs')" "j = Suc i" "bs = c # bs'"
        using Cons.prems(3) unesc_plain [OF plain, of k cs] by (auto elim: unesc_ConsE)
      obtain m where m: "k = Suc m" "0 < m"
        using False Cons.prems(1) by (cases k) auto
      obtain n' where n: "n = Suc n'"
        using m(1) Cons.prems(2) by (cases n) auto
      show ?thesis
        using Cons.prems(1,2) Cons.IH [of "k - 1" n' False e i t bs'] i
          m(2)
        unfolding step unfolding m(1) n by (simp add: crc16_compute_Cons Let_def)
    qed
  qed
qed

lemma rx_run_Crc:
  "0 < k \<Longrightarrow> length acc + k = 2 \<Longrightarrow> unesc saw k cs = (e, j, t, bs) \<Longrightarrow>
   rx_run (RxCrc saw acc crc) cs =
     (if e \<noteq> kTvmErrorNoError then ([], e, drop j cs, RxStart (e = kTvmErrorFramingShortPacket))
      else if length bs = k
      then rx_emit [RxDone (unat crc = le_value (acc @ bs))] (rx_run (RxStart False) (drop j cs))
      else rx_run (RxCrc t (acc @ bs) crc) (drop j cs))"
proof (induction cs arbitrary: saw acc k e j t bs)
  case Nil
  then show ?case by auto
next
  case (Cons c cs)
  show ?case
  proof (cases rule: escape_cases [of saw c])
    case short
    then show ?thesis using Cons.prems by auto
  next
  case nop
    then obtain i where i: "unesc False k cs = (e, i, t, bs)" "j = Suc i"
      using Cons.prems(3) by (cases "unesc False k cs") auto
    show ?thesis
      using nop Cons.IH [OF Cons.prems(1,2) i(1)] i(2) by (simp add: crc16_compute_Cons Let_def)
  next
    case bad
    then show ?thesis using Cons.prems by (auto simp: unesc_bad)
  next
    case esc
    then obtain i where i: "unesc True k cs = (e, i, t, bs)" "j = Suc i"
      using Cons.prems(3) by (cases "unesc True k cs") auto
    show ?thesis
      using esc Cons.IH [OF Cons.prems(1,2) i(1)] i(2) by (simp add: crc16_compute_Cons Let_def)
  next
    case plain
    have step: "rx_run (RxCrc saw acc crc) (c # cs) =
        (case rx_byte (RxCrc saw acc crc) c of (evs, r) \<Rightarrow> rx_emit evs (rx_run r cs))"
      using plain by (elim disjE conjE) (simp_all add: Let_def)
    show ?thesis
    proof (cases "k = 1")
      case True
      then obtain a where "acc = [a]"
        using Cons.prems(2) by (cases acc) auto
      then show ?thesis
        using Cons.prems unfolding step True
        by (auto simp: unesc_plain [OF plain] Let_def)
    next
      case False
      then obtain i bs' where i: "unesc False (k - 1) cs = (e, i, t, bs')" "j = Suc i" "bs = c # bs'"
        using Cons.prems(3) unesc_plain [OF plain, of k cs] by (auto elim: unesc_ConsE)
      obtain m where m: "k = Suc m" "0 < m"
        using False Cons.prems(1) by (cases k) auto
      show ?thesis
        using Cons.prems(1,2) Cons.IH [of "k - 1" "acc @ [c]" False e i t bs'] i
          m(2)
        unfolding step m(1) by (simp add: crc16_compute_Cons Let_def)
    qed
  qed
qed

end
