(* ===== verification/Framing.thy ===== *)
theory Framing
  imports Unframer
begin

text \<open>
  The two halves of \<^verbatim>\<open>framing.cc\<close> together. Over any stream that takes what it is given, the unframer
  behaves as the byte-by-byte receiver, however the wire is cut into pieces, and receives every
  frame the framer sends.
\<close>

section \<open>The state of the unframer as a state of the receiver\<close>

definition uf_rest :: "unframer \<Rightarrow> u8 list" where
  "uf_rest u = drop (length (uf_data u) - uf_input_size_bytes u) (uf_data u)"

definition uf_field :: "unframer \<Rightarrow> u8 list" where
  "uf_field u = take (uf_num_buffer_bytes_valid u) (uf_buffer u)"

definition uf_abs :: "unframer \<Rightarrow> rx" where
  "uf_abs u =
     (case uf_state u of
        kFindPacketStart \<Rightarrow> RxStart (uf_saw_escape_start u)
      | kFindPacketLength \<Rightarrow> RxLength (uf_saw_escape_start u) (uf_field u) (uf_crc u)
      | kFindPacketCrc \<Rightarrow>
          (if uf_num_payload_bytes_remaining u = 0 then RxCrc (uf_saw_escape_start u) [] (uf_crc u)
           else RxPayload (uf_saw_escape_start u) (uf_num_payload_bytes_remaining u) (uf_crc u))
      | kFindCrcEnd \<Rightarrow> RxCrc (uf_saw_escape_start u) (uf_field u) (uf_crc u))"

definition uf_wf :: "unframer \<Rightarrow> bool" where
  "uf_wf u \<longleftrightarrow> length (uf_buffer u) = 128 \<and> uf_input_size_bytes u \<le> length (uf_data u)
     \<and> (case uf_state u of
          kFindPacketStart \<Rightarrow> uf_num_buffer_bytes_valid u = 0
        | kFindPacketLength \<Rightarrow> uf_num_buffer_bytes_valid u < 4
        | kFindPacketCrc \<Rightarrow> uf_num_buffer_bytes_valid u = 0
        | kFindCrcEnd \<Rightarrow> uf_num_buffer_bytes_valid u < 2)"

lemma uf_input_rest: "uf_input_size_bytes u \<le> length (uf_data u) \<Longrightarrow> uf_input u = Some (uf_rest u)"
  by (simp add: uf_input_def uf_rest_def)

lemma length_uf_rest: "uf_input_size_bytes u \<le> length (uf_data u) \<Longrightarrow> length (uf_rest u) = uf_input_size_bytes u"
  by (simp add: uf_rest_def)

text \<open>Moving the input forward.\<close>

definition uf_advance :: "nat \<Rightarrow> unframer \<Rightarrow> unframer" where
  "uf_advance j u = u\<lparr>uf_input_size_bytes := uf_input_size_bytes u - j\<rparr>"

lemma uf_rest_advance:
  "uf_input_size_bytes u \<le> length (uf_data u) \<Longrightarrow> j \<le> uf_input_size_bytes u \<Longrightarrow>
   uf_rest (uf_advance j u) = drop j (uf_rest u)"
  by (simp add: uf_rest_def uf_advance_def add.commute)

lemma AddToBuffer_unesc:
  assumes "length (uf_buffer u) = 128" and "uf_input_size_bytes u \<le> length (uf_data u)"
    and "uf_num_buffer_bytes_valid u + k = n" and "0 < k" and "n \<le> 128"
    and "unesc (uf_saw_escape_start u) k (uf_rest u) = (e, j, t, bs)"
  obtains crc where "Unframer_AddToBuffer u n upd
      = Some (e, uf_advance j ((uf_fill bs t u)\<lparr>uf_crc := crc\<rparr>))"
    "e = kTvmErrorNoError \<Longrightarrow> crc = (if upd then crc16_compute (take j (uf_rest u)) (Some (uf_crc u)) else uf_crc u)"
proof -
  let ?c = "if e = kTvmErrorFramingShortPacket then crc16_compute [kEscapeStart] None else uf_crc u"
  have "ConsumeInput_loop (uf_rest u) 0 n u = Some (e, j, (uf_fill bs t u)\<lparr>uf_crc := ?c\<rparr>)"
    using ConsumeInput_loop_unesc [of u k n "uf_rest u" e j t bs 0] assms by simp
  then have "Unframer_AddToBuffer u n upd
      = Some (e, uf_advance j ((uf_fill bs t u)\<lparr>uf_crc :=
          if upd then crc16_compute (take j (uf_rest u)) (Some ?c) else ?c\<rparr>))"
    using assms
    by (simp add: Unframer_AddToBuffer_def Unframer_IsBufferFull_def Unframer_ConsumeInput_def
        uf_input_rest uf_advance_def)
  then show thesis
    by (rule that) simp
qed

lemma uf_field_fill:
  "uf_num_buffer_bytes_valid u + length bs \<le> length (uf_buffer u) \<Longrightarrow>
   uf_field (uf_fill bs t u) = uf_field u @ bs"
  by (simp add: uf_field_def uf_fill_def)

lemma uf_fill_simps [simp]:
  "uf_state (uf_fill bs t u) = uf_state u" "uf_data (uf_fill bs t u) = uf_data u"
  "uf_input_size_bytes (uf_fill bs t u) = uf_input_size_bytes u"
  "uf_saw_escape_start (uf_fill bs t u) = t"
  "uf_num_buffer_bytes_valid (uf_fill bs t u) = uf_num_buffer_bytes_valid u + length bs"
  "uf_num_payload_bytes_remaining (uf_fill bs t u) = uf_num_payload_bytes_remaining u"
  "uf_crc (uf_fill bs t u) = uf_crc u"
  by (simp_all add: uf_fill_def)

lemma length_uf_fill:
  "uf_num_buffer_bytes_valid u + length bs \<le> length (uf_buffer u) \<Longrightarrow>
   length (uf_buffer (uf_fill bs t u)) = length (uf_buffer u)"
  by (simp add: uf_fill_def)

lemma uf_advance_simps [simp]:
  "uf_state (uf_advance j u) = uf_state u" "uf_data (uf_advance j u) = uf_data u"
  "uf_input_size_bytes (uf_advance j u) = uf_input_size_bytes u - j"
  "uf_saw_escape_start (uf_advance j u) = uf_saw_escape_start u"
  "uf_num_buffer_bytes_valid (uf_advance j u) = uf_num_buffer_bytes_valid u"
  "uf_buffer (uf_advance j u) = uf_buffer u"
  "uf_num_payload_bytes_remaining (uf_advance j u) = uf_num_payload_bytes_remaining u"
  "uf_crc (uf_advance j u) = uf_crc u"
  by (simp_all add: uf_advance_def)

section \<open>One step of the unframer\<close>

text \<open>
  \<open>rx_sim u e u' evs\<close>: from \<open>u\<close> the unframer has moved to \<open>u'\<close> with the error \<open>e\<close>, having sent
  \<open>evs\<close> downstream, as the receiver does. On an error the payload bytes still in the buffer are not
  sent, so the events are a prefix of the receiver's.
\<close>

definition rx_sim :: "unframer \<Rightarrow> tvm_crt_error \<Rightarrow> unframer \<Rightarrow> rx_event list \<Rightarrow> bool" where
  "rx_sim u e u' evs \<longleftrightarrow>
     length (uf_buffer u') = 128 \<and> uf_input_size_bytes u' \<le> uf_input_size_bytes u
     \<and> uf_data u' = uf_data u \<and>
     (if e = kTvmErrorNoError
      then uf_wf u' \<and> rx_run (uf_abs u) (uf_rest u) = rx_emit evs (rx_run (uf_abs u') (uf_rest u'))
      else \<exists>more. rx_run (uf_abs u) (uf_rest u)
             = (evs @ more, e, uf_rest u', RxStart (uf_saw_escape_start u')))"

lemma FindPacketStart_loop_spec:
  "FindPacketStart_loop cs i u = (j, u') \<Longrightarrow> uf_state u = kFindPacketStart \<Longrightarrow>
   uf_num_buffer_bytes_valid u = 0 \<Longrightarrow>
   rx_run (uf_abs u) cs = rx_run (uf_abs u') (drop (j - i) cs) \<and> i \<le> j \<and> j \<le> i + length cs
   \<and> uf_state u' \<in> {kFindPacketStart, kFindPacketLength}
   \<and> uf_data u' = uf_data u \<and> uf_input_size_bytes u' = uf_input_size_bytes u
   \<and> uf_buffer u' = uf_buffer u \<and> uf_num_buffer_bytes_valid u' = 0"
proof (induction cs i u rule: FindPacketStart_loop.induct)
  case (1 i u)
  then show ?case by simp
next
  case (2 c cs i u)
  let ?t = "u\<lparr>uf_saw_escape_start := True\<rparr>" and ?f = "u\<lparr>uf_saw_escape_start := False\<rparr>"
  show ?case
  proof (cases "c = kEscapeStart")
    case True
    then show ?thesis
      using 2 by (cases j) (auto simp: uf_abs_def Suc_diff_le)
  next
    case ne: False
    show ?thesis
    proof (cases "c = kPacketStart \<and> uf_saw_escape_start u")
      case True
      then show ?thesis
        using ne "2.prems" by (auto simp: uf_abs_def rx_first_crc_def uf_field_def)
    next
      case False
      then show ?thesis
        using ne 2 by (cases j) (auto simp: uf_abs_def Suc_diff_le)
    qed
  qed
qed

lemma FindPacketStart_sim:
  assumes "uf_wf u" and "uf_state u = kFindPacketStart"
  shows "\<exists>u'. Unframer_FindPacketStart u = Some (kTvmErrorNoError, u') \<and> rx_sim u kTvmErrorNoError u' []"
proof -
  obtain j w where l: "FindPacketStart_loop (uf_rest u) 0 u = (j, w)"
    by fastforce
  have wf: "uf_input_size_bytes u \<le> length (uf_data u)" "length (uf_buffer u) = 128"
    "uf_num_buffer_bytes_valid u = 0"
    using assms by (simp_all add: uf_wf_def)
  note spec = FindPacketStart_loop_spec [OF l assms(2) wf(3)]
  have rest: "uf_rest (uf_advance j w) = drop j (uf_rest u)"
    using spec length_uf_rest [OF wf(1)] wf by (simp add: uf_rest_def add.commute)
  have "Unframer_FindPacketStart u = Some (kTvmErrorNoError, uf_advance j w)"
    using l by (simp add: Unframer_FindPacketStart_def uf_input_rest [OF wf(1)] uf_advance_def)
  moreover have "uf_wf (uf_advance j w)"
    using spec wf by (auto simp: uf_wf_def)
  moreover have "uf_abs (uf_advance j w) = uf_abs w"
    by (simp add: uf_abs_def uf_field_def split: unframer_state.splits)
  ultimately show ?thesis
    using spec wf rest by (auto simp: rx_sim_def)
qed

lemma FindPacketLength_sim:
  assumes "uf_wf u" and "uf_state u = kFindPacketLength"
  shows "\<exists>e u'. Unframer_FindPacketLength u = Some (e, u') \<and> rx_sim u e u' []"
proof -
  have wf: "uf_input_size_bytes u \<le> length (uf_data u)" "length (uf_buffer u) = 128"
    "uf_num_buffer_bytes_valid u < 4"
    using assms by (simp_all add: uf_wf_def)
  let ?k = "4 - uf_num_buffer_bytes_valid u"
  obtain e j t bs where un: "unesc (uf_saw_escape_start u) ?k (uf_rest u) = (e, j, t, bs)"
    by (cases "unesc (uf_saw_escape_start u) ?k (uf_rest u)") auto
  have k: "0 < ?k" "uf_num_buffer_bytes_valid u + ?k = 4"
    using wf by simp_all
  note b = unesc_bounds [OF k(1) un]
  obtain crc where add: "Unframer_AddToBuffer u 4 True = Some (e, uf_advance j ((uf_fill bs t u)\<lparr>uf_crc := crc\<rparr>))"
    and crc: "e = kTvmErrorNoError \<Longrightarrow> crc = crc16_compute (take j (uf_rest u)) (Some (uf_crc u))"
    using AddToBuffer_unesc [OF wf(2,1) k(2,1) _ un, of True] by auto
  let ?w = "uf_advance j ((uf_fill bs t u)\<lparr>uf_crc := crc\<rparr>)"
  have fits: "uf_num_buffer_bytes_valid u + length bs \<le> length (uf_buffer u)"
    using b k wf by linarith
  have j: "j \<le> uf_input_size_bytes u"
    using b length_uf_rest [OF wf(1)] by simp
  have rest: "uf_rest ?w = drop j (uf_rest u)"
    using wf j by (simp add: uf_rest_def add.commute)
  have field: "uf_field ?w = uf_field u @ bs"
    using uf_field_fill [OF fits] by (simp add: uf_field_def)
  have len: "length (uf_field u) + ?k = 4"
    using wf by (simp add: uf_field_def)
  note run = rx_run_Length [OF k(1) len un, of "uf_crc u"]
  show ?thesis
  proof (cases "e = kTvmErrorNoError")
    case False
    then show ?thesis
      using add run rest b wf length_uf_fill [OF fits] assms(2)
      by (auto simp: Unframer_FindPacketLength_def kPayloadLength_def rx_sim_def uf_abs_def)
  next
    case ok: True
    show ?thesis
    proof (cases "length bs = ?k")
      case False
      then have "uf_num_buffer_bytes_valid u + length bs < 4"
        using b k by linarith
      then show ?thesis
        using ok add run rest b wf length_uf_fill [OF fits] assms(2) field crc [OF ok] False j
        by (auto simp: Unframer_FindPacketLength_def kPayloadLength_def Unframer_IsBufferFull_def
            rx_sim_def uf_abs_def uf_wf_def)
    next
      case True
      then have v: "uf_num_buffer_bytes_valid u + length bs = 4" and t: "\<not> t"
        using b k ok by auto
      let ?n = "le_value (uf_field u @ bs)"
      let ?u = "(Unframer_ClearBuffer (?w\<lparr>uf_num_payload_bytes_remaining := ?n\<rparr>))\<lparr>uf_state := kFindPacketCrc\<rparr>"
      have "mem_read (uf_buffer ?w) 0 4 = Some (uf_field u @ bs)"
        using field v wf length_uf_fill [OF fits] by (simp add: uf_field_def)
      then have "Unframer_FindPacketLength u = Some (kTvmErrorNoError, ?u)"
        using ok add v
        by (simp add: Unframer_FindPacketLength_def kPayloadLength_def Unframer_IsBufferFull_def)
      moreover have "uf_abs ?u = rx_after_length (uf_field u @ bs) (crc16_compute (take j (uf_rest u)) (Some (uf_crc u)))"
        using t crc [OF ok] by (simp add: uf_abs_def Unframer_ClearBuffer_def rx_after_length_def)
      moreover have "uf_rest ?u = drop j (uf_rest u)"
        using rest by (simp add: uf_rest_def Unframer_ClearBuffer_def)
      ultimately show ?thesis
        using ok True run wf length_uf_fill [OF fits] assms(2) j
        by (auto simp: rx_sim_def uf_wf_def Unframer_ClearBuffer_def uf_abs_def)
    qed
  qed
qed

section \<open>Streams of packets\<close>

text \<open>
  The contract of what lies behind the unframer. \<open>reached evs s\<close>: the stream is in a state it can
  be in after the events \<open>evs\<close>; \<open>ok evs\<close>: it takes these events.
\<close>

locale packet_stream =
  fixes wr :: "'s stream_write"
    and done_packet :: "'s stream_done"
    and ok :: "rx_event list \<Rightarrow> bool"
    and reached :: "rx_event list \<Rightarrow> 's \<Rightarrow> bool"
  assumes ok_prefix: "ok (xs @ ys) \<Longrightarrow> ok xs"
    and write_ok: "reached evs s \<Longrightarrow> data \<noteq> [] \<Longrightarrow> ok (evs @ map RxByte data) \<Longrightarrow>
      \<exists>r s'. wr s data = Some (r, s') \<and> 0 < r \<and> nat r \<le> length data
        \<and> reached (evs @ map RxByte (take (nat r) data)) s'"
    and done_ok: "reached evs s \<Longrightarrow> ok (evs @ [RxDone b]) \<Longrightarrow>
      \<exists>s'. done_packet s b = Some s' \<and> reached (evs @ [RxDone b]) s'"
begin

lemma WriteAll_ok:
  assumes "reached evs s" and "ok (evs @ map RxByte data)"
  shows "\<exists>s'. WriteAll wr s data = Some (kTvmErrorNoError, length data, s')
    \<and> reached (evs @ map RxByte data) s'"
proof -
  let ?R = "\<lambda>s1 d. \<exists>pre. data = pre @ d \<and> reached (evs @ map RxByte pre) s1"
  have "\<exists>r s2. wr s1 d = Some (r, s2) \<and> 0 < r \<and> nat r \<le> length d \<and> ?R s2 (drop (nat r) d)"
    if R: "?R s1 d" and d: "d \<noteq> []" for s1 d
  proof -
    obtain pre where pre: "data = pre @ d" "reached (evs @ map RxByte pre) s1"
      using R by blast
    then obtain r s2 where "wr s1 d = Some (r, s2)" "0 < r" "nat r \<le> length d"
      "reached ((evs @ map RxByte pre) @ map RxByte (take (nat r) d)) s2"
      using write_ok [OF pre(2) d] assms(2) by auto
    then show ?thesis
      using pre(1) by (intro exI [of _ r] exI [of _ s2] conjI exI [of _ "pre @ take (nat r) d"]) auto
  qed
  moreover have "?R s data"
    using assms by (intro exI [of _ "[]"]) simp
  ultimately obtain s' where "WriteAll wr s data = Some (kTvmErrorNoError, length data, s')" "?R s' []"
    using WriteAll_rule [of ?R wr s data] by blast
  then show ?thesis
    by auto
qed

lemma FindCrcEnd_sim:
  assumes "uf_wf u" and "uf_state u = kFindCrcEnd" and "reached evs s"
    and "ok (evs @ fst (rx_run (uf_abs u) (uf_rest u)))"
  shows "\<exists>e u' s' evs'. Unframer_FindCrcEnd done_packet u s = Some (e, u', s')
    \<and> rx_sim u e u' evs' \<and> reached (evs @ evs') s'"
proof -
  have wf: "uf_input_size_bytes u \<le> length (uf_data u)" "length (uf_buffer u) = 128"
    "uf_num_buffer_bytes_valid u < 2"
    using assms by (simp_all add: uf_wf_def)
  let ?k = "2 - uf_num_buffer_bytes_valid u"
  obtain e j t bs where un: "unesc (uf_saw_escape_start u) ?k (uf_rest u) = (e, j, t, bs)"
    by (cases "unesc (uf_saw_escape_start u) ?k (uf_rest u)") auto
  have k: "0 < ?k" "uf_num_buffer_bytes_valid u + ?k = 2"
    using wf by simp_all
  note b = unesc_bounds [OF k(1) un]
  obtain crc where add: "Unframer_AddToBuffer u 2 False = Some (e, uf_advance j ((uf_fill bs t u)\<lparr>uf_crc := crc\<rparr>))"
    and crc: "e = kTvmErrorNoError \<Longrightarrow> crc = uf_crc u"
    using AddToBuffer_unesc [OF wf(2,1) k(2,1) _ un, of False] by auto
  let ?w = "uf_advance j ((uf_fill bs t u)\<lparr>uf_crc := crc\<rparr>)"
  have fits: "uf_num_buffer_bytes_valid u + length bs \<le> length (uf_buffer u)"
    using b k wf by linarith
  have j: "j \<le> uf_input_size_bytes u"
    using b length_uf_rest [OF wf(1)] by simp
  have rest: "uf_rest ?w = drop j (uf_rest u)"
    using wf j by (simp add: uf_rest_def add.commute)
  have field: "uf_field ?w = uf_field u @ bs"
    using uf_field_fill [OF fits] by (simp add: uf_field_def)
  have len: "length (uf_field u) + ?k = 2"
    using wf by (simp add: uf_field_def)
  note run = rx_run_Crc [OF k(1) len un, of "uf_crc u"]
  show ?thesis
  proof (cases "e = kTvmErrorNoError")
    case False
    then have "Unframer_FindCrcEnd done_packet u s = Some (e, ?w, s)"
      using add by (simp add: Unframer_FindCrcEnd_def kCrc_def)
    moreover have "rx_sim u e ?w []"
      using False run rest b wf length_uf_fill [OF fits] assms(2)
      by (auto simp: rx_sim_def uf_abs_def)
    ultimately show ?thesis
      using assms(3) by (intro exI [of _ e] exI [of _ ?w] exI [of _ s] exI [of _ "[]"]) simp
  next
    case e: True
    show ?thesis
    proof (cases "length bs = ?k")
      case False
      then have v: "uf_num_buffer_bytes_valid u + length bs < 2"
        using b k by linarith
      then have "Unframer_FindCrcEnd done_packet u s = Some (e, ?w, s)"
        using add e by (simp add: Unframer_FindCrcEnd_def kCrc_def Unframer_IsBufferFull_def)
      moreover have "rx_sim u e ?w []"
        using e run rest b wf length_uf_fill [OF fits] assms(2) field crc [OF e] False j v
        by (auto simp: rx_sim_def uf_abs_def uf_wf_def)
      ultimately show ?thesis
        using assms(3) by (intro exI [of _ e] exI [of _ ?w] exI [of _ s] exI [of _ "[]"]) simp
    next
      case True
      then have v: "uf_num_buffer_bytes_valid u + length bs = 2" and t: "\<not> t"
        using b k e by auto
      let ?b = "unat (uf_crc u) = le_value (uf_field u @ bs)"
      let ?u = "(Unframer_ClearBuffer ?w)\<lparr>uf_state := kFindPacketStart\<rparr>"
      have run': "rx_run (uf_abs u) (uf_rest u) = rx_emit [RxDone ?b] (rx_run (RxStart False) (drop j (uf_rest u)))"
        using run True e assms(2) by (simp add: uf_abs_def)
      then have "ok (evs @ [RxDone ?b])"
        using assms(4) ok_prefix [of "evs @ [RxDone ?b]"] by simp
      then obtain s' where s': "done_packet s ?b = Some s'" "reached (evs @ [RxDone ?b]) s'"
        using done_ok [OF assms(3)] by blast
      have "mem_read (uf_buffer ?w) 0 2 = Some (uf_field u @ bs)"
        using field v wf length_uf_fill [OF fits] by (simp add: uf_field_def)
      then have "Unframer_FindCrcEnd done_packet u s = Some (e, ?u, s')"
        using e add v s' crc [OF e]
        by (simp add: Unframer_FindCrcEnd_def kCrc_def Unframer_IsBufferFull_def)
      moreover have "rx_sim u e ?u [RxDone ?b]"
        using e run' wf rest t length_uf_fill [OF fits] j
        by (auto simp: rx_sim_def uf_wf_def uf_abs_def Unframer_ClearBuffer_def uf_rest_def)
      ultimately show ?thesis
        using s'(2) by (intro exI [of _ e] exI [of _ ?u] exI [of _ s'] exI [of _ "[RxDone ?b]"]) simp
    qed
  qed
qed

end

lemma rx_sim_trans:
  assumes "rx_sim u kTvmErrorNoError v evs" and "rx_sim v e w evs'"
  shows "rx_sim u e w (evs @ evs')"
  using assms by (auto simp: rx_sim_def split: if_splits)

context packet_stream
begin

lemma FindPacketCrc_sim:
  "uf_wf u \<Longrightarrow> uf_state u = kFindPacketCrc \<Longrightarrow> reached evs s \<Longrightarrow>
   ok (evs @ fst (rx_run (uf_abs u) (uf_rest u))) \<Longrightarrow>
   \<exists>e u' s' evs'. FindPacketCrc_loop wr u s = Some (e, u', s')
     \<and> rx_sim u e u' evs' \<and> reached (evs @ evs') s'"
proof (induction "uf_input_size_bytes u" arbitrary: u s evs rule: less_induct)
  case less
  note wf = less.prems(1)[unfolded uf_wf_def less.prems(2), simplified]
  have wf1: "uf_input_size_bytes u \<le> length (uf_data u)" and wf2: "length (uf_buffer u) = 128"
    and v: "uf_num_buffer_bytes_valid u = 0"
    using wf by auto
  let ?rem = "uf_num_payload_bytes_remaining u"
  show ?case
  proof (cases "?rem = 0")
    case True
    then have "FindPacketCrc_loop wr u s = Some (kTvmErrorNoError, u\<lparr>uf_state := kFindCrcEnd\<rparr>, s)"
      by (simp add: FindPacketCrc_loop.simps [of wr u s])
    moreover have "rx_sim u kTvmErrorNoError (u\<lparr>uf_state := kFindCrcEnd\<rparr>) []"
      using True wf less.prems(2)
      by (auto simp: rx_sim_def uf_wf_def uf_abs_def uf_field_def uf_rest_def)
    ultimately show ?thesis
      using less.prems(3) by (intro exI conjI) (assumption, assumption, simp)
  next
    case rem: False
    let ?n = "if ?rem > 128 then 128 else ?rem"
    obtain e j t bs where un: "unesc (uf_saw_escape_start u) ?n (uf_rest u) = (e, j, t, bs)"
      by (cases "unesc (uf_saw_escape_start u) ?n (uf_rest u)") auto
    have n: "0 < ?n" "?n \<le> 128" "?n \<le> ?rem"
      using rem by auto
    note b = unesc_bounds [OF n(1) un]
    obtain crc where add: "Unframer_AddToBuffer u ?n True = Some (e, uf_advance j ((uf_fill bs t u)\<lparr>uf_crc := crc\<rparr>))"
      and crc: "e = kTvmErrorNoError \<Longrightarrow> crc = crc16_compute (take j (uf_rest u)) (Some (uf_crc u))"
      using AddToBuffer_unesc [OF wf2 wf1 _ n(1,2) un, of True] v by auto
    let ?w = "uf_advance j ((uf_fill bs t u)\<lparr>uf_crc := crc\<rparr>)"
    have fits: "uf_num_buffer_bytes_valid u + length bs \<le> length (uf_buffer u)"
      using b n v wf2 by linarith
    have j: "j \<le> uf_input_size_bytes u"
      using b length_uf_rest [OF wf1] by simp
    have rest: "uf_rest ?w = drop j (uf_rest u)"
      using wf1 j by (simp add: uf_rest_def add.commute)
    have field: "uf_field ?w = bs"
      using uf_field_fill [OF fits, of t] v by (simp add: uf_field_def)
    note run = rx_run_Payload [OF n(1,3) un, of "uf_crc u"]
    have abs: "uf_abs u = RxPayload (uf_saw_escape_start u) ?rem (uf_crc u)"
      using less.prems(2) rem by (simp add: uf_abs_def)
    note step = FindPacketCrc_loop.simps [of wr u s] uf_input_rest [OF wf1]
    show ?thesis
    proof (cases "e = kTvmErrorNoError")
      case False
      then have "FindPacketCrc_loop wr u s = Some (e, ?w, s)"
        using rem add by (simp add: step)
      moreover have "rx_sim u e ?w []"
        using False run abs rest b wf2 length_uf_fill [OF fits] j by (auto simp: rx_sim_def)
      ultimately show ?thesis
        using less.prems(3) by (intro exI conjI) (assumption, assumption, simp)
    next
      case e: True
      show ?thesis
      proof (cases "bs = []")
        case True
        then have "FindPacketCrc_loop wr u s = Some (kTvmErrorNoError, ?w, s)"
          using rem add e by (simp add: step)
        moreover have "rx_sim u kTvmErrorNoError ?w []"
          using True run abs rest wf2 wf1 length_uf_fill [OF fits] j e crc [OF e] rem v less.prems(2)
          by (auto simp: rx_sim_def uf_wf_def uf_abs_def)
        ultimately show ?thesis
          using less.prems(3) by (intro exI conjI) (assumption, assumption, simp)
      next
        case bs: False
        let ?u = "Unframer_ClearBuffer (?w\<lparr>uf_num_payload_bytes_remaining := ?rem - length bs\<rparr>)"
        have len: "length bs \<le> ?rem" "0 < length bs"
          using b n bs by simp_all
        have t: "length bs = ?rem \<Longrightarrow> \<not> t"
          using b n e by (metis le_antisym)
        have sim: "rx_sim u kTvmErrorNoError ?u (map RxByte bs)"
          using run abs rest wf2 wf1 length_uf_fill [OF fits] j e crc [OF e] rem len less.prems(2) t
          by (auto simp: rx_sim_def uf_wf_def uf_abs_def Unframer_ClearBuffer_def uf_rest_def)
        then have eq: "rx_run (uf_abs u) (uf_rest u) = rx_emit (map RxByte bs) (rx_run (uf_abs ?u) (uf_rest ?u))"
          by (simp add: rx_sim_def)
        then have "ok (evs @ map RxByte bs)"
          using less.prems(4) ok_prefix [of "evs @ map RxByte bs"] by simp
        then obtain s1 where s1: "WriteAll wr s bs = Some (kTvmErrorNoError, length bs, s1)"
          "reached (evs @ map RxByte bs) s1"
          using WriteAll_ok [OF less.prems(3)] by blast
        have "mem_read (uf_buffer ?w) 0 (uf_num_buffer_bytes_valid ?w) = Some bs"
          using field v wf2 length_uf_fill [OF fits] fits by (simp add: uf_field_def)
        then have loop: "FindPacketCrc_loop wr u s = FindPacketCrc_loop wr ?u s1"
          using rem add e v len s1(1) by (simp add: step rem)
        have "uf_input_size_bytes ?u < uf_input_size_bytes u"
        proof -
          have "0 < j" "j \<le> uf_input_size_bytes u"
            using b len j by linarith+
          then show ?thesis
            by (simp add: Unframer_ClearBuffer_def)
        qed
        moreover have "uf_wf ?u" "uf_state ?u = kFindPacketCrc"
          using sim less.prems(2) by (simp_all add: rx_sim_def Unframer_ClearBuffer_def)
        moreover have "ok ((evs @ map RxByte bs) @ fst (rx_run (uf_abs ?u) (uf_rest ?u)))"
          using less.prems(4) eq by simp
        ultimately obtain e2 u2 s2 evs2 where r: "FindPacketCrc_loop wr ?u s1 = Some (e2, u2, s2)"
          "rx_sim ?u e2 u2 evs2" "reached ((evs @ map RxByte bs) @ evs2) s2"
          using less.hyps [of ?u "evs @ map RxByte bs" s1] s1(2) by blast
        then have "rx_sim u e2 u2 (map RxByte bs @ evs2)"
          using rx_sim_trans [OF sim] by blast
        then show ?thesis
          using r loop by auto
      qed
    qed
  qed
qed

lemma dispatch_sim:
  assumes "uf_wf u" and "reached evs s" and "ok (evs @ fst (rx_run (uf_abs u) (uf_rest u)))"
  shows "\<exists>e u' s' evs'. Unframer_dispatch wr done_packet u s = Some (e, u', s')
    \<and> rx_sim u e u' evs' \<and> reached (evs @ evs') s'"
proof (cases "uf_state u")
  case kFindPacketStart
  then obtain u' where "Unframer_FindPacketStart u = Some (kTvmErrorNoError, u')"
    "rx_sim u kTvmErrorNoError u' []"
    using FindPacketStart_sim [OF assms(1)] by blast
  then show ?thesis
    using assms(2) kFindPacketStart by (auto simp: Unframer_dispatch_def intro!: exI [of _ "[]"])
next
  case kFindPacketLength
  then obtain e u' where "Unframer_FindPacketLength u = Some (e, u')" "rx_sim u e u' []"
    using FindPacketLength_sim [OF assms(1)] by blast
  then show ?thesis
    using assms(2) kFindPacketLength by (auto simp: Unframer_dispatch_def intro!: exI [of _ "[]"])
next
  case kFindPacketCrc
  then show ?thesis
    using FindPacketCrc_sim [OF assms(1) _ assms(2,3)]
    by (simp add: Unframer_dispatch_def Unframer_FindPacketCrc_def)
next
  case kFindCrcEnd
  then show ?thesis
    using FindCrcEnd_sim [OF assms(1) _ assms(2,3)] by (simp add: Unframer_dispatch_def)
qed

lemma Write_loop_sim:
  "uf_wf u \<Longrightarrow> reached evs s \<Longrightarrow> ok (evs @ fst (rx_run (uf_abs u) (uf_rest u))) \<Longrightarrow>
   \<exists>e u' s' evs'. Unframer_Write_loop wr done_packet u s = Some (e, u', s')
     \<and> rx_sim u e u' evs' \<and> reached (evs @ evs') s'
     \<and> (e = kTvmErrorNoError \<longrightarrow> uf_input_size_bytes u' = 0)"
proof (induction "2 * uf_input_size_bytes u + (if uf_state u = kFindPacketCrc then 1 else 0)"
    arbitrary: u s evs rule: less_induct)
  case less
  show ?case
  proof (cases "uf_input_size_bytes u = 0")
    case True
    then show ?thesis
      using less.prems
      by (intro exI [of _ kTvmErrorNoError] exI [of _ u] exI [of _ s] exI [of _ "[]"])
        (simp add: Unframer_Write_loop.simps [of wr done_packet u s] rx_sim_def uf_wf_def)
  next
    case False
    obtain e u1 s1 evs1 where d: "Unframer_dispatch wr done_packet u s = Some (e, u1, s1)"
      "rx_sim u e u1 evs1" "reached (evs @ evs1) s1"
      using dispatch_sim [OF less.prems] by blast
    show ?thesis
    proof (cases "e = kTvmErrorNoError")
      case err: False
      then have "Unframer_Write_loop wr done_packet u s = Some (e, u1, s1)"
        using d(1) False by (simp add: Unframer_Write_loop.simps [of wr done_packet u s])
      then show ?thesis
        using d err by blast
    next
      case e: True
      have loop: "Unframer_Write_loop wr done_packet u s = Unframer_Write_loop wr done_packet u1 s1"
        using d(1) e False by (simp add: Unframer_Write_loop.simps [of wr done_packet u s])
      have wf: "uf_wf u1"
        and run: "rx_run (uf_abs u) (uf_rest u) = rx_emit evs1 (rx_run (uf_abs u1) (uf_rest u1))"
        using d(2) e by (simp_all add: rx_sim_def)
      have "2 * uf_input_size_bytes u1 + (if uf_state u1 = kFindPacketCrc then 1 else 0)
          < 2 * uf_input_size_bytes u + (if uf_state u = kFindPacketCrc then 1 else 0)"
        using dispatch_bound [OF d(1) [unfolded e]] False by auto
      moreover have "ok ((evs @ evs1) @ fst (rx_run (uf_abs u1) (uf_rest u1)))"
        using less.prems(3) run by simp
      ultimately obtain e2 u2 s2 evs2 where r: "Unframer_Write_loop wr done_packet u1 s1 = Some (e2, u2, s2)"
        "rx_sim u1 e2 u2 evs2" "reached ((evs @ evs1) @ evs2) s2"
        "e2 = kTvmErrorNoError \<longrightarrow> uf_input_size_bytes u2 = 0"
        using less.hyps [OF _ wf d(3)] by blast
      then have "rx_sim u e2 u2 (evs1 @ evs2)"
        using rx_sim_trans d(2) e by blast
      then show ?thesis
        using r loop by auto
    qed
  qed
qed

text \<open>
  The call of \<^verbatim>\<open>Write\<close>: the events, the error and the number of bytes taken are the receiver's; only
  payload bytes that came just before an escape error, and are still in the buffer, may be missing.
\<close>

lemma Unframer_Write_ok:
  assumes "uf_wf u" and "reached evs s" and "rx_run (uf_abs u) data = (evs', e, rest, r)"
    and "ok (evs @ evs')"
  shows "\<exists>n u' s' evs1 evs2. Unframer_Write wr done_packet u s data = Some (e, n, u', s')
    \<and> rest = drop n data \<and> n \<le> length data \<and> uf_wf u' \<and> uf_abs u' = r
    \<and> evs' = evs1 @ evs2 \<and> (e = kTvmErrorNoError \<longrightarrow> evs2 = []) \<and> reached (evs @ evs1) s'"
proof -
  let ?u = "u\<lparr>uf_data := data, uf_input_size_bytes := length data\<rparr>"
  have wf: "uf_wf ?u" and rest: "uf_rest ?u = data" and abs: "uf_abs ?u = uf_abs u"
    using assms(1)
    by (simp_all add: uf_wf_def uf_rest_def uf_abs_def uf_field_def split: unframer_state.splits)
  have "ok (evs @ fst (rx_run (uf_abs ?u) (uf_rest ?u)))"
    using assms(3,4) rest abs by simp
  then obtain e1 u1 s1 evs1 where l: "Unframer_Write_loop wr done_packet ?u s = Some (e1, u1, s1)"
    "rx_sim ?u e1 u1 evs1" "reached (evs @ evs1) s1" "e1 = kTvmErrorNoError \<longrightarrow> uf_input_size_bytes u1 = 0"
    using Write_loop_sim [OF wf assms(2)] by blast
  have u1: "uf_data u1 = data" "uf_input_size_bytes u1 \<le> length data" "length (uf_buffer u1) = 128"
    using l(2) by (simp_all add: rx_sim_def)
  let ?n = "length data - uf_input_size_bytes u1"
  let ?v = "u1\<lparr>uf_data := [], uf_input_size_bytes := 0\<rparr>"
  let ?v' = "if e1 \<noteq> kTvmErrorNoError then Unframer_ClearBuffer (?v\<lparr>uf_state := kFindPacketStart\<rparr>) else ?v"
  have wrt: "Unframer_Write wr done_packet u s data = Some (e1, ?n, ?v', s1)"
    using l(1) u1 by (simp add: Unframer_Write_def)
  show ?thesis
  proof (cases "e1 = kTvmErrorNoError")
    case True
    then have sim: "uf_wf u1" "rx_run (uf_abs u) data = rx_emit evs1 (rx_run (uf_abs u1) (uf_rest u1))"
      using l(2) rest abs by (simp_all add: rx_sim_def)
    moreover have "uf_rest u1 = []"
      using True l(4) u1 by (simp add: uf_rest_def)
    moreover have "uf_wf ?v" "uf_abs ?v = uf_abs u1"
      using sim(1)
      by (simp_all add: uf_wf_def uf_abs_def uf_field_def split: unframer_state.splits)
    ultimately show ?thesis
      using True wrt assms(3) l(3,4) by (intro exI [of _ ?n] exI [of _ ?v'] exI [of _ s1]) auto
  next
    case False
    then obtain more where "rx_run (uf_abs u) data
        = (evs1 @ more, e1, uf_rest u1, RxStart (uf_saw_escape_start u1))"
      using l(2) rest abs by (auto simp: rx_sim_def)
    moreover have "uf_wf ?v'" "uf_abs ?v' = RxStart (uf_saw_escape_start u1)"
      using False u1 by (simp_all add: uf_wf_def uf_abs_def Unframer_ClearBuffer_def)
    ultimately show ?thesis
      using False wrt assms(3) l(3) u1
      by (intro exI [of _ ?n] exI [of _ ?v'] exI [of _ s1] exI [of _ evs1] exI [of _ more])
        (simp add: uf_rest_def)
  qed
qed

end

section \<open>The receiver reads frames\<close>

text \<open>Reading in pieces.\<close>

lemma rx_run_append:
  "rx_run r xs = (evs, kTvmErrorNoError, rest, r') \<Longrightarrow> rx_run r (xs @ ys) = rx_emit evs (rx_run r' ys)"
proof (induction xs arbitrary: r evs)
  case Nil
  then show ?case by simp
next
  case (Cons c cs)
  have emit: "\<exists>evs'. rx_run s cs = (evs', kTvmErrorNoError, rest, r') \<and> evs = ev @ evs'"
    if "rx_emit ev (rx_run s cs) = (evs, kTvmErrorNoError, rest, r')" for ev s
    using that by (cases "rx_run s cs") auto
  show ?case
  proof (cases r)
    case (RxStart t)
    then show ?thesis
      using Cons.prems Cons.IH by (auto split: if_splits)
  next
    case (RxLength t acc crc)
    then show ?thesis
      using Cons.prems Cons.IH by (auto simp: Let_def split: if_splits)
  next
    case (RxPayload t n crc)
    then show ?thesis
      using Cons.prems Cons.IH by (auto simp: Let_def split: if_splits dest!: emit)
  next
    case (RxCrc t acc crc)
    then show ?thesis
      using Cons.prems Cons.IH by (auto simp: Let_def split: if_splits dest!: emit)
  qed
qed

lemma rx_run_escaped_Cons:
  assumes "\<not> rx_saw r" and "\<And>t. r \<noteq> RxStart t"
  shows "rx_run r (escape_bytes (c # cs) @ ys) =
    (case rx_byte (if c = kEscapeStart then rx_escape r True c else r) c of
       (evs, r') \<Rightarrow> rx_emit evs (rx_run r' (escape_bytes cs @ ys)))"
  using assms by (cases r) (auto simp: escape_bytes_Cons escape_byte_def Let_def)

lemma crc16_compute_escape:
  "crc16_compute (escape_bytes (c # cs)) (Some crc) = crc16_compute (escape_bytes cs)
     (Some (update_crc_ccitt (if c = kEscapeStart then update_crc_ccitt crc c else crc) c))"
  by (simp add: escape_bytes_Cons escape_byte_def crc16_compute_Cons)

lemma rx_run_escaped_Length:
  "length acc + length p \<le> 4 \<Longrightarrow> length acc < 4 \<Longrightarrow>
   rx_run (RxLength False acc crc) (escape_bytes p @ ys) =
     (let crc' = crc16_compute (escape_bytes p) (Some crc)
      in rx_run (if length (acc @ p) = 4 then rx_after_length (acc @ p) crc'
           else RxLength False (acc @ p) crc') ys)"
proof (induction p arbitrary: acc crc)
  case Nil
  then show ?case by simp
next
  case (Cons c p)
  show ?case
  proof (cases "length acc = 3")
    case True
    then have "p = []"
      using Cons.prems by simp
    then show ?thesis
      using True by (simp add: rx_run_escaped_Cons crc16_compute_escape Let_def)
  next
    case False
    then have "length (acc @ [c]) + length p \<le> 4" "length (acc @ [c]) < 4"
      using Cons.prems by simp_all
    then show ?thesis
      using Cons.IH [of "acc @ [c]"] False
      by (cases "c = kEscapeStart") (simp_all add: rx_run_escaped_Cons crc16_compute_escape Let_def)
  qed
qed

lemma rx_run_escaped_Payload:
  "length p \<le> n \<Longrightarrow> 0 < n \<Longrightarrow>
   rx_run (RxPayload False n crc) (escape_bytes p @ ys) =
     (let crc' = crc16_compute (escape_bytes p) (Some crc)
      in rx_emit (map RxByte p)
           (rx_run (if length p = n then RxCrc False [] crc' else RxPayload False (n - length p) crc') ys))"
proof (induction p arbitrary: n crc)
  case Nil
  then show ?case by simp
next
  case (Cons c p)
  then obtain m where m: "n = Suc m"
    by (cases n) auto
  show ?case
  proof (cases "m = 0")
    case True
    then have "p = []"
      using Cons.prems m by simp
    then show ?thesis
      using True m by (simp add: rx_run_escaped_Cons crc16_compute_escape Let_def)
  next
    case False
    then show ?thesis
      using Cons.prems Cons.IH [of m] m
      by (simp add: rx_run_escaped_Cons crc16_compute_escape Let_def)
  qed
qed

lemma rx_run_escaped_Crc:
  "rx_run (RxCrc False [] crc) (escape_bytes [a, b] @ ys) =
     rx_emit [RxDone (unat crc = le_value [a, b])] (rx_run (RxStart False) ys)"
  by (simp add: rx_run_escaped_Cons Let_def)

text \<open>
  A frame, in whatever state the search for a packet was: its payload, then the end of a valid
  packet.
\<close>

lemma rx_run_frame_body:
  fixes payload :: "u8 list"
  defines "body \<equiv> frame_head (length payload) @ escape_bytes payload"
  assumes "length payload < 2 ^ 32"
  shows "rx_run (RxStart t) (body @ ys) =
    rx_emit (map RxByte payload) (rx_run (RxCrc False [] (crc16_compute body None)) ys)"
proof -
  let ?len = "le_bytes 4 (length payload)"
  let ?crc1 = "crc16_compute (escape_bytes ?len) (Some rx_first_crc)"
  let ?crc = "crc16_compute (escape_bytes payload) (Some ?crc1)"
  have crc: "?crc = crc16_compute body None"
    unfolding body_def frame_head_def rx_first_crc_def by (simp only: crc16_compute_append)
  have len: "le_value ?len = length payload"
    using le_value_le_bytes [of 4 "length payload"] assms(2) by simp
  have "rx_run (RxStart t) (body @ ys) = rx_run (RxLength False [] rx_first_crc) (escape_bytes ?len @ escape_bytes payload @ ys)"
    by (simp add: body_def frame_head_def)
  also have "\<dots> = rx_run (rx_after_length ?len ?crc1) (escape_bytes payload @ ys)"
    by (subst rx_run_escaped_Length) simp_all
  also have "\<dots> = rx_emit (map RxByte payload) (rx_run (RxCrc False [] ?crc) ys)"
  proof (cases "payload = []")
    case True
    then show ?thesis
      using len by (simp add: rx_after_length_def)
  next
    case False
    then show ?thesis
      by (simp add: rx_after_length_def len rx_run_escaped_Payload)
  qed
  finally show ?thesis
    unfolding crc .
qed

lemma rx_run_frame:
  assumes "length payload < 2 ^ 32"
  shows "rx_run (RxStart t) (frame_packet payload @ ys) =
    rx_emit (map RxByte payload @ [RxDone True]) (rx_run (RxStart False) ys)"
proof -
  let ?crc = "crc16_compute (frame_head (length payload) @ escape_bytes payload) None"
  obtain a b where ab: "le_bytes 2 (unat ?crc) = [a, b]"
    by (simp add: numeral_2_eq_2)
  have "unat ?crc < 65536"
    using unsigned_less [of ?crc] by simp
  then have "le_value [a, b] = unat ?crc"
    using le_value_le_bytes [of 2 "unat ?crc"] by (simp add: ab)
  then show ?thesis
    using rx_run_frame_body [OF assms, of t "escape_bytes [a, b] @ ys"] rx_run_escaped_Crc [of ?crc a b ys]
    by (simp add: frame_packet_def frame_crc_def ab Let_def)
qed

text \<open>Before its last byte the frame has brought the payload and nothing else.\<close>

lemma rx_run_frame_butlast:
  assumes "length payload < 2 ^ 32"
  obtains r where "rx_run (RxStart t) (butlast (frame_packet payload)) = (map RxByte payload, kTvmErrorNoError, [], r)"
proof -
  let ?body = "frame_head (length payload) @ escape_bytes payload"
  let ?crc = "crc16_compute ?body None"
  obtain a b where ab: "le_bytes 2 (unat ?crc) = [a, b]"
    by (simp add: numeral_2_eq_2)
  have "frame_packet payload = ?body @ escape_bytes [a] @ escape_bytes [b]"
    by (simp add: frame_packet_def frame_crc_def ab Let_def escape_bytes_Cons)
  then have "butlast (frame_packet payload) = ?body @ escape_bytes [a] @ (if b = kEscapeStart then [kEscapeStart] else [])"
    by (auto simp: butlast_append escape_bytes_Cons escape_byte_def)
  moreover have "\<exists>r. rx_run (RxCrc False [] ?crc) (escape_bytes [a] @ (if b = kEscapeStart then [kEscapeStart] else []))
      = ([], kTvmErrorNoError, [], r)"
    by (auto simp: rx_run_escaped_Cons Let_def)
  ultimately show thesis
    using that rx_run_frame_body [OF assms, of t] by auto
qed

lemma rx_run_append_error:
  "rx_run r xs = (evs, e, rest, r') \<Longrightarrow> e \<noteq> kTvmErrorNoError \<Longrightarrow>
   rx_run r (xs @ ys) = (evs, e, rest @ ys, r')"
proof (induction xs arbitrary: r evs)
  case Nil
  then show ?case by simp
next
  case (Cons c cs)
  have emit: "\<exists>evs'. rx_run s cs = (evs', e, rest, r') \<and> evs = ev @ evs'"
    if "rx_emit ev (rx_run s cs) = (evs, e, rest, r')" for ev s
    using that by (cases "rx_run s cs") auto
  show ?case
  proof (cases r)
    case (RxStart t)
    then show ?thesis
      using Cons.prems Cons.IH by (auto split: if_splits)
  next
    case (RxLength t acc crc)
    then show ?thesis
      using Cons.prems Cons.IH by (auto simp: Let_def split: if_splits)
  next
    case (RxPayload t n crc)
    then show ?thesis
      using Cons.prems Cons.IH by (auto simp: Let_def split: if_splits dest!: emit)
  next
    case (RxCrc t acc crc)
    then show ?thesis
      using Cons.prems Cons.IH by (auto simp: Let_def split: if_splits dest!: emit)
  qed
qed

lemma rx_run_splitE:
  assumes "rx_run r (xs @ ys) = (evs, kTvmErrorNoError, rest, r')"
  obtains evs1 r1 rest1 evs2 where "rx_run r xs = (evs1, kTvmErrorNoError, rest1, r1)"
    "rx_run r1 ys = (evs2, kTvmErrorNoError, rest, r')" "evs = evs1 @ evs2"
proof -
  obtain evs1 e rest1 r1 where x: "rx_run r xs = (evs1, e, rest1, r1)"
    by (cases "rx_run r xs") auto
  then have "e = kTvmErrorNoError"
    using assms rx_run_append_error [OF x, of ys] by auto
  then have "rx_emit evs1 (rx_run r1 ys) = (evs, kTvmErrorNoError, rest, r')"
    using x rx_run_append [of r xs evs1 rest1 r1 ys] assms by simp
  then show thesis
    using x \<open>e = kTvmErrorNoError\<close> that by (cases "rx_run r1 ys") auto
qed

text \<open>The wire fed to the unframer in pieces, until one is refused.\<close>

fun Unframer_Feed ::
    "'s stream_write \<Rightarrow> 's stream_done \<Rightarrow> unframer \<Rightarrow> 's \<Rightarrow> u8 list list
     \<Rightarrow> (tvm_crt_error \<times> unframer \<times> 's) option" where
  "Unframer_Feed wr done_packet u s [] = Some (kTvmErrorNoError, u, s)"
| "Unframer_Feed wr done_packet u s (c # cs) = do {
     (e, n, u, s) \<leftarrow> Unframer_Write wr done_packet u s c;
     if e \<noteq> kTvmErrorNoError then Some (e, u, s) else Unframer_Feed wr done_packet u s cs
   }"

context packet_stream
begin

lemma Feed_ok:
  "uf_wf u \<Longrightarrow> reached evs s \<Longrightarrow> rx_run (uf_abs u) (concat chunks) = (evs', kTvmErrorNoError, rest, r) \<Longrightarrow>
   ok (evs @ evs') \<Longrightarrow>
   \<exists>u' s'. Unframer_Feed wr done_packet u s chunks = Some (kTvmErrorNoError, u', s')
     \<and> uf_wf u' \<and> uf_abs u' = r \<and> reached (evs @ evs') s'"
proof (induction chunks arbitrary: u s evs evs')
  case Nil
  then show ?case by simp
next
  case (Cons c cs)
  obtain evs1 r1 rest1 evs2 where c: "rx_run (uf_abs u) c = (evs1, kTvmErrorNoError, rest1, r1)"
    and cs: "rx_run r1 (concat cs) = (evs2, kTvmErrorNoError, rest, r)" and evs: "evs' = evs1 @ evs2"
    using Cons.prems(3) by (auto elim: rx_run_splitE)
  have "ok (evs @ evs1)"
    using Cons.prems(4) ok_prefix [of "evs @ evs1"] evs by simp
  then obtain n u1 s1 where w: "Unframer_Write wr done_packet u s c = Some (kTvmErrorNoError, n, u1, s1)"
    "uf_wf u1" "uf_abs u1 = r1" "reached (evs @ evs1) s1"
    using Unframer_Write_ok [OF Cons.prems(1,2) c] by auto
  then show ?case
    using Cons.IH [OF w(2,4), of evs2] cs evs Cons.prems(4) by auto
qed

end

text \<open>
  A frame that begins inside another one: the unfinished packet is given up before the second byte
  of the start sequence, and the search goes on from there.
\<close>

lemma rx_run_short_packet:
  assumes "\<not> rx_saw r" and "\<And>t. r \<noteq> RxStart t"
  shows "rx_run r (frame_packet payload) =
    ([], kTvmErrorFramingShortPacket, tl (frame_packet payload), RxStart True)"
proof -
  obtain w where w: "frame_packet payload = kEscapeStart # kPacketStart # w"
    by (simp add: frame_packet_def frame_head_def Let_def)
  then show ?thesis
    using assms by (cases r) auto
qed

lemma rx_run_after_short_packet:
  assumes "length payload < 2 ^ 32"
  shows "rx_run (RxStart True) (tl (frame_packet payload)) =
    (map RxByte payload @ [RxDone True], kTvmErrorNoError, [], RxStart False)"
proof -
  obtain w where w: "frame_packet payload = kEscapeStart # kPacketStart # w"
    by (simp add: frame_packet_def frame_head_def Let_def)
  then show ?thesis
    using rx_run_frame [OF assms, of True "[]"] by simp
qed

section \<open>Properties\<close>

text \<open>A stream for the examples, which keeps the list of its events.\<close>

definition rec_write :: "rx_event list stream_write" where
  "rec_write s data = Some (int (length data), s @ map RxByte data)"

definition rec_done :: "rx_event list stream_done" where
  "rec_done s b = Some (s @ [RxDone b])"

lemma recorder_stream: "packet_stream rec_write rec_done (\<lambda>_. True) (\<lambda>evs s. s = evs)"
  by unfold_locales (auto simp: rec_write_def rec_done_def)

interpretation recorder: packet_stream rec_write rec_done "\<lambda>_. True" "\<lambda>evs s. s = evs"
  by (rule recorder_stream)

definition uf_example :: unframer where
  "uf_example = Unframer \<lparr>uf_state = kFindCrcEnd, uf_data = [], uf_input_size_bytes = 0,
     uf_saw_escape_start = True, uf_buffer = replicate 128 0, uf_num_buffer_bytes_valid = 77,
     uf_num_payload_bytes_remaining = 5, uf_crc = 0\<rparr>"

lemma uf_example_wf: "uf_wf uf_example" "uf_state uf_example = kFindPacketStart"
  "uf_abs uf_example = RxStart False"
  by (simp_all add: uf_example_def Unframer_def uf_wf_def uf_abs_def)

text \<open>
  C12. Frames arrive. What a framer sends over the serial line, cut into pieces anywhere and fed to an
  unframer that is between packets, reaches the stream behind the unframer as exactly the payload
  followed by the end of a valid packet; no call reports an error and the unframer is between packets
  again. The stream may be any that keeps the contract \<open>packet_stream\<close>.
\<close>

theorem frame_round_trip:
  assumes "packet_stream wr done_packet ok reached" and "reached evs t"
    and "ok (evs @ map RxByte (concat pieces) @ [RxDone True])"
    and "uf_wf u" and "uf_state u = kFindPacketStart"
    and "2 * length (concat pieces) + 15 < 2 ^ 31"
    and "g_num_bytes_written s = g_num_bytes_requested s"
    and "Framer_Send SerialWriteStream_Write fr s pieces = Some (kTvmErrorNoError, fr', s')"
    and "serial_out s' = serial_out s @ concat chunks"
  shows "\<exists>u' t'. Unframer_Feed wr done_packet u t chunks = Some (kTvmErrorNoError, u', t')
    \<and> uf_wf u' \<and> uf_state u' = kFindPacketStart
    \<and> reached (evs @ map RxByte (concat pieces) @ [RxDone True]) t'"
proof -
  let ?n = "2 * length (concat pieces) + 15"
  have "length (lead fr @ frame_packet (concat pieces)) \<le> ?n" "serial_accepts s ?n"
    using length_frame_packet [of "concat pieces"] assms(6,7) by (simp_all add: lead_def serial_accepts_def)
  then have wire: "concat chunks = lead fr @ frame_packet (concat pieces)"
    using uart.Send_ok [of s ?n fr pieces] assms(8,9) by auto
  have abs: "uf_abs u = RxStart (uf_saw_escape_start u)"
    using assms(5) by (simp add: uf_abs_def)
  have "rx_run (RxStart t) (lead fr @ frame_packet (concat pieces)) =
      (map RxByte (concat pieces) @ [RxDone True], kTvmErrorNoError, [], RxStart False)" for t
    using rx_run_frame [of "concat pieces" _ "[]"] assms(6) by (auto simp: lead_def)
  then have run: "rx_run (uf_abs u) (concat chunks)
      = (map RxByte (concat pieces) @ [RxDone True], kTvmErrorNoError, [], RxStart False)"
    unfolding abs wire .
  obtain u' t' where r: "Unframer_Feed wr done_packet u t chunks = Some (kTvmErrorNoError, u', t')" "uf_wf u'"
    "uf_abs u' = RxStart False" "reached (evs @ map RxByte (concat pieces) @ [RxDone True]) t'"
    using packet_stream.Feed_ok [OF assms(1,4,2) run assms(3)] by blast
  moreover have "uf_state u' = kFindPacketStart"
    using r(3) by (auto simp: uf_abs_def split: unframer_state.splits if_splits)
  ultimately show ?thesis
    by blast
qed

theorem frame_round_trip_witness:
  "\<exists>chunks u' t'. Unframer_Feed rec_write rec_done uf_example [] chunks = Some (kTvmErrorNoError, u', t')
    \<and> t' = map RxByte [7, 0xff] @ [RxDone True]"
proof -
  obtain fr' s' where send: "Framer_Send SerialWriteStream_Write (Framer 0) (serial.make 0 0 []) [[7], [0xff]]
      = Some (kTvmErrorNoError, fr', s')"
    "serial_out s' = serial_out (serial.make 0 0 []) @ (if fr_state (Framer 0) = kReset then [kEscapeNop] else [])
       @ frame_packet (concat [[7], [0xff]])"
    using uart.Send_ok [of "serial.make 0 0 []" 100 "Framer 0" "[[7], [0xff]]"]
      length_frame_packet [of "[7, 0xff]"]
    by (auto simp: serial_accepts_def serial.make_def lead_def Framer_def)
  have "\<exists>u' t'. Unframer_Feed rec_write rec_done uf_example [] [kEscapeNop # frame_packet [7, 0xff]]
      = Some (kTvmErrorNoError, u', t')
    \<and> uf_wf u' \<and> uf_state u' = kFindPacketStart
    \<and> t' = [] @ map RxByte (concat [[7], [0xff]]) @ [RxDone True]"
    by (rule frame_round_trip [OF recorder_stream _ _ uf_example_wf(1,2) _ _ send(1)])
      (use send(2) in \<open>simp_all add: serial.make_def Framer_def\<close>)
  then show ?thesis
    unfolding append_Nil concat.simps append_Nil2 append_Cons by blast
qed

text \<open>
  C13. The unframer is a byte-by-byte receiver. From every state it can be in, on every input, over a
  stream that keeps its contract, one \<^verbatim>\<open>Write\<close> returns: no check fails, nothing outside the buffer
  or the input is touched; the error, the bytes left unread and the new state are the receiver's, and
  so are the events, all of them unless an escape error ended the call.
\<close>

theorem unframer_refines_receiver:
  assumes "packet_stream wr done_packet ok reached" and "reached evs s" and "uf_wf u"
    and "rx_run (uf_abs u) data = (evs', e, rest, r)" and "ok (evs @ evs')"
  shows "\<exists>n u' s' evs1 evs2. Unframer_Write wr done_packet u s data = Some (e, n, u', s')
    \<and> rest = drop n data \<and> n \<le> length data \<and> uf_wf u' \<and> uf_abs u' = r
    \<and> evs' = evs1 @ evs2 \<and> (e = kTvmErrorNoError \<longrightarrow> evs2 = []) \<and> reached (evs @ evs1) s'"
  using packet_stream.Unframer_Write_ok [OF assms(1,3,2,4,5)] .

theorem unframer_refines_receiver_witness:
  "\<exists>n u' s' evs1 evs2. Unframer_Write rec_write rec_done uf_example [RxDone False] [3, 0xff]
      = Some (kTvmErrorNoError, n, u', s')
    \<and> [] = drop n [3, 0xff :: u8] \<and> n \<le> length [3, 0xff :: u8] \<and> uf_wf u' \<and> uf_abs u' = RxStart True
    \<and> [] = evs1 @ evs2 \<and> (kTvmErrorNoError = kTvmErrorNoError \<longrightarrow> evs2 = []) \<and> s' = [RxDone False] @ evs1"
  by (rule unframer_refines_receiver [OF recorder_stream refl uf_example_wf(1)])
    (simp_all add: uf_example_wf Escape_defs)

text \<open>
  C35. A sender that restarts in the middle of a packet is heard: when a frame begins inside another
  one, the unframer reports the short packet and leaves the rest unread, and reading that rest
  delivers the new frame whole.
\<close>

theorem unframer_resynchronises:
  assumes "packet_stream wr done_packet ok reached" and "reached evs s" and "uf_wf u"
    and "uf_state u \<noteq> kFindPacketStart" and "\<not> uf_saw_escape_start u"
    and "length payload < 2 ^ 32" and "ok (evs @ map RxByte payload @ [RxDone True])"
  shows "\<exists>n u1 s1 u2 s2.
    Unframer_Write wr done_packet u s (frame_packet payload) = Some (kTvmErrorFramingShortPacket, n, u1, s1)
    \<and> Unframer_Write wr done_packet u1 s1 (drop n (frame_packet payload))
        = Some (kTvmErrorNoError, length (frame_packet payload) - n, u2, s2)
    \<and> uf_state u2 = kFindPacketStart \<and> reached (evs @ map RxByte payload @ [RxDone True]) s2"
proof -
  have "rx_run (uf_abs u) (frame_packet payload) =
      ([], kTvmErrorFramingShortPacket, tl (frame_packet payload), RxStart True)"
    by (rule rx_run_short_packet)
      (use assms(4,5) in \<open>auto simp: uf_abs_def split: unframer_state.splits\<close>)
  moreover have "ok (evs @ [])"
    using packet_stream.ok_prefix [OF assms(1,7)] by simp
  ultimately obtain n u1 s1 where 1: "Unframer_Write wr done_packet u s (frame_packet payload)
        = Some (kTvmErrorFramingShortPacket, n, u1, s1)"
      "tl (frame_packet payload) = drop n (frame_packet payload)" "uf_wf u1" "uf_abs u1 = RxStart True"
      "reached evs s1" "n \<le> length (frame_packet payload)"
    using packet_stream.Unframer_Write_ok [OF assms(1,3,2)] by fastforce
  have "rx_run (uf_abs u1) (drop n (frame_packet payload)) =
    (map RxByte payload @ [RxDone True], kTvmErrorNoError, [], RxStart False)"
    using rx_run_after_short_packet [OF assms(6)] 1(2,4) by simp
  then obtain m u2 s2 where 2: "Unframer_Write wr done_packet u1 s1 (drop n (frame_packet payload))
        = Some (kTvmErrorNoError, m, u2, s2)" "[] = drop m (drop n (frame_packet payload))"
      "m \<le> length (drop n (frame_packet payload))" "uf_abs u2 = RxStart False"
      "reached (evs @ map RxByte payload @ [RxDone True]) s2"
    using packet_stream.Unframer_Write_ok [OF assms(1) 1(3,5) _ assms(7)] by fastforce
  have "m = length (frame_packet payload) - n"
    using arg_cong [OF 2(2), of length] 2(3) by simp
  moreover have "uf_state u2 = kFindPacketStart"
    using 2(4) by (auto simp: uf_abs_def split: unframer_state.splits if_splits)
  ultimately show ?thesis
    using 1 2 by blast
qed

theorem unframer_resynchronises_witness:
  "\<exists>n u1 s1 u2 s2.
    Unframer_Write rec_write rec_done (uf_example\<lparr>uf_state := kFindPacketCrc\<rparr>) [] (frame_packet [1])
      = Some (kTvmErrorFramingShortPacket, n, u1, s1)
    \<and> Unframer_Write rec_write rec_done u1 s1 (drop n (frame_packet [1]))
        = Some (kTvmErrorNoError, length (frame_packet [1]) - n, u2, s2)
    \<and> uf_state u2 = kFindPacketStart \<and> s2 = [] @ map RxByte [1] @ [RxDone True]"
  by (rule unframer_resynchronises [OF recorder_stream])
    (simp_all add: uf_example_def Unframer_def uf_wf_def)

text \<open>A stream that takes nothing.\<close>

definition stuck_write :: "unit stream_write" where
  "stuck_write s data = Some (0, s)"

text \<open>
  A stream that refuses a payload makes the unframer give back more input than it took. With one
  payload byte still to come and three bytes of input, of which the stream takes none, the rewind
  leaves five bytes of input out of three, and \<^verbatim>\<open>*bytes_consumed\<close> wraps below zero.
\<close>

lemma unframer_rewind_overshoots:
  "\<exists>u' s'. Unframer_Write stuck_write (\<lambda>s _. Some s)
      (uf_example\<lparr>uf_state := kFindPacketCrc, uf_num_payload_bytes_remaining := 1\<rparr>) () [7, 0xAA, 0xBB]
    = Some (kTvmErrorWriteStreamShortWrite, 2 ^ 32 - 2, u', s')"
  by (simp add: Unframer_Write_def Unframer_Write_loop.simps Unframer_dispatch_def
      Unframer_FindPacketCrc_def FindPacketCrc_loop.simps Unframer_AddToBuffer_def
      Unframer_ConsumeInput_def Unframer_IsBufferFull_def uf_input_def uf_example_def Unframer_def
      Escape_defs WriteAll_def WriteAll_loop.simps stuck_write_def size_sub_def)

end
