(* ===== verification/Session.thy ===== *)
theory Session
  imports Frame_Buffer Framing
begin

text \<open>
  \<^verbatim>\<open>Session\<close> of \<^verbatim>\<open>microtvm_rpc_common/session.cc\<close>: the handshake that agrees on a session id made of
  two nonces, the header of every message, and the receiver that stands behind the unframer.
\<close>

section \<open>The code\<close>

text \<open>The enum is read off the wire, so a message type is any byte.\<close>

type_synonym message_type = u8

definition kStartSessionInit :: message_type where "kStartSessionInit = 0x00"
definition kStartSessionReply :: message_type where "kStartSessionReply = 0x01"
definition kTerminateSession :: message_type where "kTerminateSession = 0x02"
definition kLog :: message_type where "kLog = 0x03"
definition kNormal :: message_type where "kNormal = 0x10"

lemmas message_type_defs =
  kStartSessionInit_def kStartSessionReply_def kTerminateSession_def kLog_def kNormal_def

record session_header =
  sh_session_id :: u16
  sh_message_type :: message_type

text \<open>The packed struct as bytes.\<close>

definition session_header_bytes :: "session_header \<Rightarrow> u8 list" where
  "session_header_bytes h = le_bytes 2 (unat (sh_session_id h)) @ [sh_message_type h]"

definition session_header_of_bytes :: "u8 list \<Rightarrow> session_header" where
  "session_header_of_bytes bs =
     \<lparr>sh_session_id = of_nat (le_value (take 2 bs)), sh_message_type = bs ! 2\<rparr>"

definition sizeof_SessionHeader :: nat where
  "sizeof_SessionHeader = 3"

datatype session_state = kSessionReset | kNoSessionEstablished | kStartSessionSent | kSessionEstablished

definition kInvalidNonce :: u8 where
  "kInvalidNonce = 0"

definition kVersion :: u8 where
  "kVersion = 1"

text \<open>
  A session with the objects it points to: its framer and the stream behind it, the receive buffer,
  and the context of the message callback.
\<close>

record ('s, 'c) session =
  local_nonce :: u8
  session_id :: u16
  session_state :: session_state
  receive_buffer_has_complete_message :: bool
  session_framer :: framer
  session_stream :: 's
  receive_buffer :: frame_buffer
  callback_context :: 'c

text \<open>
  The message callback: the type of the message, whether \<^verbatim>\<open>buf\<close> is the receive buffer or
  \<^verbatim>\<open>NULL\<close>, and the whole state, since the callback may use the session.
\<close>

type_synonym ('s, 'c) message_received_func =
  "message_type \<Rightarrow> bool \<Rightarrow> ('s, 'c) session \<Rightarrow> ('s, 'c) session option"

definition Session :: "framer \<Rightarrow> 's \<Rightarrow> frame_buffer \<Rightarrow> 'c \<Rightarrow> ('s, 'c) session" where
  "Session framer s buffer context =
     \<lparr>local_nonce = kInvalidNonce, session_id = 0, session_state = kSessionReset,
      receive_buffer_has_complete_message = False, session_framer = framer, session_stream = s,
      receive_buffer = FrameBuffer_Clear buffer, callback_context = context\<rparr>"

definition SetSessionId :: "u8 \<Rightarrow> u8 \<Rightarrow> ('s, 'c) session \<Rightarrow> ('s, 'c) session" where
  "SetSessionId initiator_nonce responder_nonce ss =
     ss\<lparr>session_id := ucast initiator_nonce OR push_bit 8 (ucast responder_nonce)\<rparr>"

definition InitiatorNonce :: "u16 \<Rightarrow> u8" where
  "InitiatorNonce sid = ucast (sid AND 0xff)"

definition ResponderNonce :: "u16 \<Rightarrow> u8" where
  "ResponderNonce sid = ucast (drop_bit 8 sid AND 0xff)"

definition Session_IsEstablished :: "('s, 'c) session \<Rightarrow> bool" where
  "Session_IsEstablished ss \<longleftrightarrow> session_state ss = kSessionEstablished"

definition Session_RegenerateNonce :: "('s, 'c) session \<Rightarrow> ('s, 'c) session" where
  "Session_RegenerateNonce ss =
     (let n = (push_bit 5 (local_nonce ss) OR drop_bit 5 (local_nonce ss)) + 1;
          n = (if n = kInvalidNonce then n + 1 else n)
      in ss\<lparr>local_nonce := n\<rparr>)"

definition Session_StartMessage ::
    "'s stream_write \<Rightarrow> ('s, 'c) session \<Rightarrow> message_type \<Rightarrow> nat
     \<Rightarrow> (tvm_crt_error \<times> ('s, 'c) session) option" where
  "Session_StartMessage wr ss message_type message_size_bytes = do {
     let header = \<lparr>sh_session_id = session_id ss, sh_message_type = message_type\<rparr>;
     let header = (if message_type = kLog then header\<lparr>sh_session_id := 0\<rparr> else header);
     (to_return, fr, s) \<leftarrow> Framer_StartPacket wr (session_framer ss) (session_stream ss)
       (message_size_bytes + sizeof_SessionHeader);
     let ss = ss\<lparr>session_framer := fr, session_stream := s\<rparr>;
     if to_return \<noteq> kTvmErrorNoError then Some (to_return, ss)
     else do {
       (to_return, fr, s) \<leftarrow> Framer_WritePayloadChunk wr (session_framer ss) (session_stream ss)
         (session_header_bytes header);
       Some (to_return, ss\<lparr>session_framer := fr, session_stream := s\<rparr>)
     }
   }"

definition Session_SendBodyChunk ::
    "'s stream_write \<Rightarrow> ('s, 'c) session \<Rightarrow> u8 list
     \<Rightarrow> (tvm_crt_error \<times> ('s, 'c) session) option" where
  "Session_SendBodyChunk wr ss chunk = do {
     (to_return, fr, s) \<leftarrow> Framer_WritePayloadChunk wr (session_framer ss) (session_stream ss) chunk;
     Some (to_return, ss\<lparr>session_framer := fr, session_stream := s\<rparr>)
   }"

definition Session_FinishMessage ::
    "'s stream_write \<Rightarrow> ('s, 'c) session \<Rightarrow> (tvm_crt_error \<times> ('s, 'c) session) option" where
  "Session_FinishMessage wr ss = do {
     (to_return, fr, s) \<leftarrow> Framer_FinishPacket wr (session_framer ss) (session_stream ss);
     Some (to_return, ss\<lparr>session_framer := fr, session_stream := s\<rparr>)
   }"

definition Session_SendInternal ::
    "'s stream_write \<Rightarrow> ('s, 'c) session \<Rightarrow> message_type \<Rightarrow> u8 list
     \<Rightarrow> (tvm_crt_error \<times> ('s, 'c) session) option" where
  "Session_SendInternal wr ss message_type message_data = do {
     (to_return, ss) \<leftarrow> Session_StartMessage wr ss message_type (length message_data);
     if to_return \<noteq> kTvmErrorNoError then Some (to_return, ss)
     else do {
       (to_return, ss) \<leftarrow> (if length message_data > 0 then Session_SendBodyChunk wr ss message_data
                          else Some (kTvmErrorNoError, ss));
       if to_return \<noteq> kTvmErrorNoError then Some (to_return, ss)
       else Session_FinishMessage wr ss
     }
   }"

definition Session_StartSession ::
    "'s stream_write \<Rightarrow> ('s, 'c) session \<Rightarrow> (tvm_crt_error \<times> ('s, 'c) session) option" where
  "Session_StartSession wr ss = do {
     CHECK (session_state ss \<noteq> kSessionReset);
     let ss = Session_RegenerateNonce ss;
     let ss = SetSessionId (local_nonce ss) 0 ss;
     (to_return, ss) \<leftarrow> Session_SendInternal wr ss kStartSessionInit [kVersion];
     Some (to_return,
       if to_return = kTvmErrorNoError then ss\<lparr>session_state := kStartSessionSent\<rparr> else ss)
   }"

definition Session_TerminateSession ::
    "'s stream_write \<Rightarrow> ('s, 'c) session \<Rightarrow> (tvm_crt_error \<times> ('s, 'c) session) option" where
  "Session_TerminateSession wr ss =
     (let ss = SetSessionId 0 0 ss; ss = ss\<lparr>session_state := kNoSessionEstablished\<rparr>
      in Session_SendInternal wr ss kTerminateSession [])"

definition Session_Initialize ::
    "'s stream_write \<Rightarrow> ('s, 'c) session \<Rightarrow> u8 \<Rightarrow> (tvm_crt_error \<times> ('s, 'c) session) option" where
  "Session_Initialize wr ss initial_session_nonce =
     Session_TerminateSession wr (ss\<lparr>local_nonce := initial_session_nonce\<rparr>)"

definition Session_SendMessage ::
    "'s stream_write \<Rightarrow> ('s, 'c) session \<Rightarrow> message_type \<Rightarrow> u8 list
     \<Rightarrow> (tvm_crt_error \<times> ('s, 'c) session) option" where
  "Session_SendMessage wr ss message_type message_data =
     (if session_state ss \<noteq> kSessionEstablished \<and> message_type \<noteq> kLog
      then Some (kTvmErrorSessionInvalidState, ss)
      else Session_SendInternal wr ss message_type message_data)"

text \<open>The error codes are returned as byte counts.\<close>

definition SessionReceiver_Write :: "('s, 'c) session stream_write" where
  "SessionReceiver_Write ss data =
     (if receive_buffer_has_complete_message ss
      then Some (tvm_crt_error_code kTvmErrorSessionReceiveBufferBusy, ss)
      else do {
        (bytes_written, fb) \<leftarrow> FrameBuffer_Write (receive_buffer ss) data;
        let ss = ss\<lparr>receive_buffer := fb\<rparr>;
        if bytes_written \<noteq> length data
        then Some (tvm_crt_error_code kTvmErrorSessionReceiveBufferShortWrite, ss)
        else Some (sint (of_nat bytes_written :: u32), ss)
      })"

definition OnSessionEstablishedMessage ::
    "('s, 'c) message_received_func \<Rightarrow> ('s, 'c) session \<Rightarrow> ('s, 'c) session option" where
  "OnSessionEstablishedMessage cb ss = cb kStartSessionReply False ss"

definition OnSessionTerminatedMessage ::
    "('s, 'c) message_received_func \<Rightarrow> ('s, 'c) session \<Rightarrow> ('s, 'c) session option" where
  "OnSessionTerminatedMessage cb ss = cb kTerminateSession False ss"

definition Session_ClearReceiveBuffer :: "('s, 'c) session \<Rightarrow> ('s, 'c) session" where
  "Session_ClearReceiveBuffer ss =
     ss\<lparr>receive_buffer_has_complete_message := False,
        receive_buffer := FrameBuffer_Clear (receive_buffer ss)\<rparr>"

definition SendSessionStartReply ::
    "'s stream_write \<Rightarrow> ('s, 'c) message_received_func \<Rightarrow> ('s, 'c) session \<Rightarrow> session_header
     \<Rightarrow> ('s, 'c) session option" where
  "SendSessionStartReply wr cb ss header = do {
     let ss = Session_RegenerateNonce ss;
     let ss = SetSessionId (InitiatorNonce (sh_session_id header)) (local_nonce ss) ss;
     (to_return, ss) \<leftarrow> Session_SendInternal wr ss kStartSessionReply [kVersion];
     let ss = ss\<lparr>session_state := kSessionEstablished\<rparr>;
     CHECK (to_return = kTvmErrorNoError);
     OnSessionEstablishedMessage cb ss
   }"

definition ProcessStartSessionInit ::
    "'s stream_write \<Rightarrow> ('s, 'c) message_received_func \<Rightarrow> ('s, 'c) session \<Rightarrow> session_header
     \<Rightarrow> ('s, 'c) session option" where
  "ProcessStartSessionInit wr cb ss header =
     (if InitiatorNonce (sh_session_id header) = kInvalidNonce then Some ss
      else do {
        (payload, fb) \<leftarrow> FrameBuffer_Read (receive_buffer ss) 1;
        let ss = ss\<lparr>receive_buffer := fb\<rparr>;
        if length payload \<noteq> 1 then Some ss
        else (case session_state ss of
            kSessionReset \<Rightarrow> SendSessionStartReply wr cb ss header
          | kNoSessionEstablished \<Rightarrow> SendSessionStartReply wr cb ss header
          | kStartSessionSent \<Rightarrow>
              (if InitiatorNonce (sh_session_id header) < local_nonce ss
               then (if payload ! 0 = kVersion then SendSessionStartReply wr cb ss header else Some ss)
               else if InitiatorNonce (sh_session_id header) = local_nonce ss
               then do { (_, ss) \<leftarrow> Session_StartSession wr ss; Some ss }
               else Some ss)
          | kSessionEstablished \<Rightarrow> do {
              ss \<leftarrow> SendSessionStartReply wr cb ss header;
              OnSessionEstablishedMessage cb ss
            })
      })"

definition ProcessStartSessionReply ::
    "'s stream_write \<Rightarrow> ('s, 'c) message_received_func \<Rightarrow> ('s, 'c) session \<Rightarrow> session_header
     \<Rightarrow> ('s, 'c) session option" where
  "ProcessStartSessionReply wr cb ss header =
     (if ResponderNonce (sh_session_id header) = kInvalidNonce then Some ss
      else do {
        (payload, fb) \<leftarrow> FrameBuffer_Read (receive_buffer ss) 1;
        let ss = ss\<lparr>receive_buffer := fb\<rparr>;
        if length payload \<noteq> 1 then Some ss
        else (case session_state ss of
            kSessionReset \<Rightarrow> Some ss
          | kNoSessionEstablished \<Rightarrow> Some ss
          | kStartSessionSent \<Rightarrow>
              (if InitiatorNonce (sh_session_id header) = local_nonce ss \<and> payload ! 0 = kVersion
               then do {
                 let ss = SetSessionId (local_nonce ss) (ResponderNonce (sh_session_id header)) ss;
                 OnSessionEstablishedMessage cb (ss\<lparr>session_state := kSessionEstablished\<rparr>)
               }
               else Some ss)
          | kSessionEstablished \<Rightarrow>
              (if InitiatorNonce (sh_session_id header) \<noteq> kInvalidNonce
                  \<and> ResponderNonce (sh_session_id header) = kInvalidNonce
               then (if payload ! 0 = kVersion then SendSessionStartReply wr cb ss header
                     else Some ((SetSessionId (local_nonce ss) 0 ss)\<lparr>session_state := kSessionReset\<rparr>))
               else Some (ss\<lparr>session_state := kSessionReset\<rparr>)))
      })"

definition SessionReceiver_PacketDone ::
    "'s stream_write \<Rightarrow> ('s, 'c) message_received_func \<Rightarrow> ('s, 'c) session stream_done" where
  "SessionReceiver_PacketDone wr cb ss is_valid =
     (if \<not> is_valid then Some ss
      else do {
        (bytes, fb) \<leftarrow> FrameBuffer_Read (receive_buffer ss) sizeof_SessionHeader;
        let ss = ss\<lparr>receive_buffer := fb\<rparr>;
        if length bytes \<noteq> sizeof_SessionHeader then Some ss
        else do {
          let header = session_header_of_bytes bytes;
          let ss = ss\<lparr>receive_buffer_has_complete_message := True\<rparr>;
          if sh_message_type header = kStartSessionInit
          then do {
            ss \<leftarrow> ProcessStartSessionInit wr cb ss header;
            Some (ss\<lparr>receive_buffer_has_complete_message := False\<rparr>)
          }
          else if sh_message_type header = kStartSessionReply
          then do {
            ss \<leftarrow> ProcessStartSessionReply wr cb ss header;
            Some (ss\<lparr>receive_buffer_has_complete_message := False\<rparr>)
          }
          else if sh_message_type header = kTerminateSession
          then do {
            ss \<leftarrow> (if session_state ss = kSessionEstablished
                  then OnSessionTerminatedMessage cb (ss\<lparr>session_state := kNoSessionEstablished\<rparr>)
                  else Some ss);
            Some (ss\<lparr>receive_buffer_has_complete_message := False\<rparr>)
          }
          else if sh_message_type header = kLog
          then (if sh_session_id header = 0 \<or> sh_session_id header = session_id ss
                then cb (sh_message_type header) True ss else Some ss)
          else (if session_state ss = kSessionEstablished \<and> sh_session_id header = session_id ss
                then cb (sh_message_type header) True ss else Some ss)
        }
      })"

section \<open>Nonces and headers\<close>

lemma RegenerateNonce_simps [simp]:
  "session_id (Session_RegenerateNonce ss) = session_id ss"
  "session_state (Session_RegenerateNonce ss) = session_state ss"
  "receive_buffer_has_complete_message (Session_RegenerateNonce ss) = receive_buffer_has_complete_message ss"
  "session_framer (Session_RegenerateNonce ss) = session_framer ss"
  "session_stream (Session_RegenerateNonce ss) = session_stream ss"
  "receive_buffer (Session_RegenerateNonce ss) = receive_buffer ss"
  "callback_context (Session_RegenerateNonce ss) = callback_context ss"
  by (simp_all add: Session_RegenerateNonce_def Let_def)

lemma RegenerateNonce_valid [simp]: "local_nonce (Session_RegenerateNonce ss) \<noteq> 0"
  by (simp add: Session_RegenerateNonce_def Let_def kInvalidNonce_def)

lemma SetSessionId_simps [simp]:
  "local_nonce (SetSessionId i r ss) = local_nonce ss"
  "session_state (SetSessionId i r ss) = session_state ss"
  "receive_buffer_has_complete_message (SetSessionId i r ss) = receive_buffer_has_complete_message ss"
  "session_framer (SetSessionId i r ss) = session_framer ss"
  "session_stream (SetSessionId i r ss) = session_stream ss"
  "receive_buffer (SetSessionId i r ss) = receive_buffer ss"
  "callback_context (SetSessionId i r ss) = callback_context ss"
  by (simp_all add: SetSessionId_def)

definition sid :: "u8 \<Rightarrow> u8 \<Rightarrow> u16" where
  "sid i r = ucast i OR push_bit 8 (ucast r)"

lemma session_id_SetSessionId [simp]: "session_id (SetSessionId i r ss) = sid i r"
  by (simp add: SetSessionId_def sid_def)

lemma InitiatorNonce_sid [simp]: "InitiatorNonce (sid i r) = i"
  by (rule bit_eqI) (auto simp: InitiatorNonce_def sid_def and_0xFF bit_simps dest: bit_imp_le_length)

lemma ResponderNonce_sid [simp]: "ResponderNonce (sid i r) = r"
  by (rule bit_eqI) (auto simp: ResponderNonce_def sid_def and_0xFF bit_simps dest: bit_imp_le_length)

lemma length_session_header_bytes [simp]: "length (session_header_bytes h) = 3"
  by (simp add: session_header_bytes_def)

lemma session_header_round_trip [simp]: "session_header_of_bytes (session_header_bytes h) = h"
proof -
  have "unat (sh_session_id h) < 65536"
    using unsigned_less [of "sh_session_id h"] by simp
  then have "le_value (le_bytes 2 (unat (sh_session_id h))) = unat (sh_session_id h)"
    using le_value_le_bytes [of 2 "unat (sh_session_id h)"] by simp
  then show ?thesis
    by (cases h) (simp add: session_header_of_bytes_def session_header_bytes_def nth_append)
qed

section \<open>Sending\<close>

definition message_header :: "('s, 'c) session \<Rightarrow> message_type \<Rightarrow> session_header" where
  "message_header ss t = \<lparr>sh_session_id = (if t = kLog then 0 else session_id ss), sh_message_type = t\<rparr>"

text \<open>A message is one packet: the header and, if there is a body, the body.\<close>

lemma SendInternal_Framer:
  "Session_SendInternal wr ss t d = do {
     (e, fr, s) \<leftarrow> Framer_Send wr (session_framer ss) (session_stream ss)
       (session_header_bytes (message_header ss t) # (if d = [] then [] else [d]));
     Some (e, ss\<lparr>session_framer := fr, session_stream := s\<rparr>)
   }"
proof -
  have h: "(if t = kLog then \<lparr>sh_session_id = session_id ss, sh_message_type = t\<rparr>\<lparr>sh_session_id := 0\<rparr>
      else \<lparr>sh_session_id = session_id ss, sh_message_type = t\<rparr>) = message_header ss t"
    by (simp add: message_header_def)
  let ?h = "session_header_bytes (message_header ss t)"
  have len: "length (concat (?h # (if d = [] then [] else [d]))) = length d + 3"
    by simp
  note defs = Session_SendInternal_def Session_StartMessage_def Framer_Send_def h len Let_def
    Session_SendBodyChunk_def Session_FinishMessage_def sizeof_SessionHeader_def
  show ?thesis
  proof (cases "Framer_StartPacket wr (session_framer ss) (session_stream ss) (length d + 3)")
    case None
    then show ?thesis by (simp only: defs Option.bind.simps)
  next
    case (Some x)
    obtain e fr s where x: "x = (e, fr, s)" by (cases x)
    show ?thesis
    proof (cases "e = kTvmErrorNoError")
      case False
      then show ?thesis using Some x unfolding defs by simp
    next
      case e: True
      show ?thesis
      proof (cases "Framer_WritePayloadChunk wr fr s ?h")
        case None
        then show ?thesis using Some x e unfolding defs by simp
      next
        case (Some y)
        obtain e2 fr2 s2 where y: "y = (e2, fr2, s2)" by (cases y)
        note st = Some \<open>Framer_StartPacket wr _ _ _ = _\<close> x e y
        show ?thesis
        proof (cases "e2 = kTvmErrorNoError \<and> d \<noteq> []")
          case False
          then show ?thesis using st unfolding defs
            by (auto split: Option.bind_split)
        next
          case True
          then show ?thesis using st unfolding defs
            by (cases "Framer_WritePayloadChunk wr fr2 s2 d") (auto split: Option.bind_split)
        qed
      qed
    qed
  qed
qed

context write_stream
begin

lemma SendInternal_ok:
  assumes "accepts (session_stream ss) n" and "2 * length d + 21 \<le> n"
  shows "\<exists>fr s. Session_SendInternal wr ss t d
      = Some (kTvmErrorNoError, ss\<lparr>session_framer := fr, session_stream := s\<rparr>)
    \<and> fr_state fr = kIdle
    \<and> out s = out (session_stream ss) @ lead (session_framer ss)
        @ frame_packet (session_header_bytes (message_header ss t) @ d)
    \<and> accepts s (n - length (lead (session_framer ss)
        @ frame_packet (session_header_bytes (message_header ss t) @ d)))"
proof -
  let ?h = "session_header_bytes (message_header ss t)"
  let ?ch = "?h # (if d = [] then [] else [d])"
  have c: "concat ?ch = ?h @ d"
    by simp
  have "length (lead (session_framer ss) @ frame_packet (concat ?ch)) \<le> n"
    using length_frame_packet [of "?h @ d"] assms(2) unfolding c by (simp add: lead_def)
  then obtain fr s where "Framer_Send wr (session_framer ss) (session_stream ss) ?ch = Some (kTvmErrorNoError, fr, s)"
    "fr_state fr = kIdle" "out s = out (session_stream ss) @ lead (session_framer ss) @ frame_packet (?h @ d)"
    "accepts s (n - length (lead (session_framer ss) @ frame_packet (?h @ d)))"
    using Send_ok [OF assms(1), of "session_framer ss" ?ch] unfolding c by blast
  then show ?thesis
    by (intro exI [of _ fr] exI [of _ s]) (simp add: SendInternal_Framer)
qed

end

section \<open>Receiving\<close>

text \<open>
  The receiver as a packet stream, for one packet: from \<open>ss\<close>, whose buffer has room for it and
  holds no complete message, it takes the bytes of \<open>payload\<close> and then the end of a valid packet.
\<close>

definition rcv_filled :: "('s, 'c) session \<Rightarrow> u8 list \<Rightarrow> ('s, 'c) session" where
  "rcv_filled ss bs = ss\<lparr>receive_buffer := fb_append (receive_buffer ss) bs\<rparr>"

definition rcv_ok ::
    "'s stream_write \<Rightarrow> ('s, 'c) message_received_func \<Rightarrow> ('s, 'c) session \<Rightarrow> u8 list
     \<Rightarrow> rx_event list \<Rightarrow> bool" where
  "rcv_ok wr cb ss payload evs \<longleftrightarrow> fb_wf (receive_buffer ss)
     \<and> \<not> receive_buffer_has_complete_message ss \<and> length payload \<le> fb_room (receive_buffer ss)
     \<and> length payload < 2 ^ 31
     \<and> SessionReceiver_PacketDone wr cb (rcv_filled ss payload) True \<noteq> None
     \<and> (\<exists>ws. evs @ ws = map RxByte payload @ [RxDone True])"

definition rcv_reached ::
    "'s stream_write \<Rightarrow> ('s, 'c) message_received_func \<Rightarrow> ('s, 'c) session \<Rightarrow> u8 list
     \<Rightarrow> rx_event list \<Rightarrow> ('s, 'c) session \<Rightarrow> bool" where
  "rcv_reached wr cb ss payload evs ss' \<longleftrightarrow>
     (\<exists>bs ws. payload = bs @ ws \<and> evs = map RxByte bs \<and> ss' = rcv_filled ss bs)
     \<or> (evs = map RxByte payload @ [RxDone True]
        \<and> SessionReceiver_PacketDone wr cb (rcv_filled ss payload) True = Some ss')"

lemma map_RxByte_prefix:
  "map RxByte xs @ ws = map RxByte ys @ [RxDone b] \<Longrightarrow> \<exists>zs. ys = xs @ zs"
proof (induction xs arbitrary: ys)
  case Nil
  then show ?case by simp
next
  case (Cons x xs)
  then show ?case by (cases ys) auto
qed

lemma SessionReceiver_Write_fits:
  assumes "fb_wf (receive_buffer ss)" and "\<not> receive_buffer_has_complete_message ss"
    and "length (bs @ data) \<le> fb_room (receive_buffer ss)" and "length data < 2 ^ 31"
  shows "SessionReceiver_Write (rcv_filled ss bs) data
    = Some (int (length data), rcv_filled ss (bs @ data))"
proof -
  have "length bs \<le> fb_room (receive_buffer ss)" "length bs + length data \<le> fb_room (receive_buffer ss)"
    using assms(3) by simp_all
  note ok = fb_append_ok [OF assms(1) this(1)] fb_append_append [OF assms(1) this(2)]
  have "FrameBuffer_Write (fb_append (receive_buffer ss) bs) data
      = Some (length data, fb_append (receive_buffer ss) (bs @ data))"
    using FrameBuffer_Write_append [OF ok(1), of data] ok(3,4) assms(3) by simp
  then show ?thesis
    using assms(2,4) by (simp add: SessionReceiver_Write_def rcv_filled_def sint_of_nat_u32)
qed

interpretation receiver: packet_stream SessionReceiver_Write "SessionReceiver_PacketDone wr cb"
  "rcv_ok wr cb ss payload" "rcv_reached wr cb ss payload"
  for wr :: "'s stream_write" and cb :: "('s, 'c) message_received_func"
    and ss :: "('s, 'c) session" and payload :: "u8 list"
proof
  show "rcv_ok wr cb ss payload xs" if "rcv_ok wr cb ss payload (xs @ ys)" for xs ys
    using that by (auto simp: rcv_ok_def)
next
  fix evs :: "rx_event list" and s :: "('s, 'c) session" and data :: "u8 list"
  assume r: "rcv_reached wr cb ss payload evs s" and d: "data \<noteq> []"
    and ok: "rcv_ok wr cb ss payload (evs @ map RxByte data)"
  obtain b bd where d': "data = b # bd"
    using d by (cases data) auto
  from ok have "evs \<noteq> map RxByte payload @ [RxDone True]"
    by (auto simp: rcv_ok_def d')
  then obtain bs where bs: "evs = map RxByte bs" "s = rcv_filled ss bs"
    using r by (auto simp: rcv_reached_def)
  then obtain zs where zs: "payload = (bs @ data) @ zs"
    using ok map_RxByte_prefix [of "bs @ data" _ payload True] by (auto simp: rcv_ok_def)
  have "rcv_reached wr cb ss payload (evs @ map RxByte data) (rcv_filled ss (bs @ data))"
    unfolding rcv_reached_def using zs bs
    by (intro disjI1 exI [of _ "bs @ data"] exI [of _ zs]) simp
  then show "\<exists>r s'. SessionReceiver_Write s data = Some (r, s') \<and> 0 < r \<and> nat r \<le> length data
      \<and> rcv_reached wr cb ss payload (evs @ map RxByte (take (nat r) data)) s'"
    using SessionReceiver_Write_fits [of ss bs data] ok bs d zs
    by (intro exI [of _ "int (length data)"]) (auto simp: rcv_ok_def)
next
  fix evs :: "rx_event list" and s :: "('s, 'c) session" and b :: bool
  assume r: "rcv_reached wr cb ss payload evs s" and ok: "rcv_ok wr cb ss payload (evs @ [RxDone b])"
  obtain ws where ws: "evs @ RxDone b # ws = map RxByte payload @ [RxDone True]"
    using ok by (auto simp: rcv_ok_def)
  from r consider (filling) bs zs where "payload = bs @ zs" "evs = map RxByte bs" "s = rcv_filled ss bs"
    | (over) "evs = map RxByte payload @ [RxDone True]"
    by (auto simp: rcv_reached_def)
  then show "\<exists>s'. SessionReceiver_PacketDone wr cb s b = Some s'
      \<and> rcv_reached wr cb ss payload (evs @ [RxDone b]) s'"
  proof cases
    case filling
    have "zs = []"
      using ws filling by (cases zs) auto
    moreover from this have "b"
      using ws filling by auto
    ultimately show ?thesis
      using ok filling by (auto simp: rcv_ok_def rcv_reached_def)
  next
    case over
    then show ?thesis
      using ws by simp
  qed
qed

text \<open>A packet that fits is handed over whole, whatever the pieces it comes in.\<close>

lemma session_receives_packet:
  assumes "uf_wf u" and "uf_state u = kFindPacketStart"
    and "concat chunks = lead fr @ frame_packet payload"
    and "fb_wf (receive_buffer ss)" and "\<not> receive_buffer_has_complete_message ss"
    and "length payload \<le> fb_room (receive_buffer ss)" and "length payload < 2 ^ 31"
    and "SessionReceiver_PacketDone wr cb (rcv_filled ss payload) True = Some ss'"
  shows "\<exists>u'. Unframer_Feed SessionReceiver_Write (SessionReceiver_PacketDone wr cb) u ss chunks
      = Some (kTvmErrorNoError, u', ss') \<and> uf_wf u' \<and> uf_state u' = kFindPacketStart"
proof -
  have "rx_run (RxStart t) (lead fr @ frame_packet payload) =
      (map RxByte payload @ [RxDone True], kTvmErrorNoError, [], RxStart False)" for t
    using rx_run_frame [of payload _ "[]"] assms(7) by (auto simp: lead_def)
  then have run: "rx_run (uf_abs u) (concat chunks)
      = (map RxByte payload @ [RxDone True], kTvmErrorNoError, [], RxStart False)"
    using assms(2,3) by (simp add: uf_abs_def)
  have "rcv_reached wr cb ss payload [] ss"
    by (auto simp: rcv_reached_def rcv_filled_def intro!: exI [of _ "[]"])
  moreover have "rcv_ok wr cb ss payload ([] @ map RxByte payload @ [RxDone True])"
    using assms by (simp add: rcv_ok_def)
  ultimately obtain u' s' where "Unframer_Feed SessionReceiver_Write (SessionReceiver_PacketDone wr cb) u ss chunks
      = Some (kTvmErrorNoError, u', s')" "uf_wf u'" "uf_abs u' = RxStart False"
    "rcv_reached wr cb ss payload (map RxByte payload @ [RxDone True]) s'"
    using receiver.Feed_ok [OF assms(1) _ run] by fastforce
  moreover from this have "s' = ss'"
    using assms(8) by (auto simp: rcv_reached_def dest: arg_cong [of _ _ last])
  moreover have "uf_state u' = kFindPacketStart"
    using \<open>uf_abs u' = _\<close> by (auto simp: uf_abs_def split: unframer_state.splits if_splits)
  ultimately show ?thesis
    by blast
qed

end
