(* ===== verification/Session_Protocol.thy ===== *)
theory Session_Protocol
  imports Session
begin

text \<open>
  What the sessions of two devices achieve together: messages are delivered to the peer of the same
  session, the handshake gives both sides the same session id, and the step relation of the state
  machine keeps its invariant under every callback that keeps it; and what goes wrong with a message of another session.
\<close>

section \<open>One packet at the receiver\<close>

text \<open>A buffer all of whose bytes have been read.\<close>

definition rcv_ready :: "('s, 'c) session \<Rightarrow> nat \<Rightarrow> bool" where
  "rcv_ready ss n \<longleftrightarrow> fb_wf (receive_buffer ss) \<and> fb_contents (receive_buffer ss) = []
     \<and> \<not> receive_buffer_has_complete_message ss \<and> n \<le> fb_room (receive_buffer ss) \<and> n < 2 ^ 31"

lemma header_read:
  assumes "rcv_ready ss (3 + length d)"
  obtains fb where "FrameBuffer_Read (receive_buffer (rcv_filled ss (session_header_bytes h @ d))) 3
      = Some (session_header_bytes h, fb)"
    "fb_wf fb" "fb_contents fb = d" "fb_room fb = fb_room (receive_buffer ss) - (3 + length d)"
proof -
  let ?fb = "fb_append (receive_buffer ss) (session_header_bytes h @ d)"
  have "fb_wf ?fb" "fb_contents ?fb = session_header_bytes h @ d"
    "fb_room ?fb = fb_room (receive_buffer ss) - (3 + length d)"
    using assms fb_append_ok [of "receive_buffer ss" "session_header_bytes h @ d"]
    by (auto simp: rcv_ready_def)
  then show thesis
    using FrameBuffer_Read_prefix [of ?fb "session_header_bytes h" d] that
    by (auto simp: rcv_filled_def)
qed

text \<open>The state in which the header of a packet with body \<open>d\<close> has been read.\<close>

definition rcv_read :: "('s, 'c) session \<Rightarrow> frame_buffer \<Rightarrow> ('s, 'c) session" where
  "rcv_read ss fb = ss\<lparr>receive_buffer := fb, receive_buffer_has_complete_message := True\<rparr>"

lemma PacketDone_header:
  assumes "rcv_ready ss (3 + length d)"
  obtains fb where "fb_wf fb" "fb_contents fb = d"
    "fb_room fb = fb_room (receive_buffer ss) - (3 + length d)"
    "SessionReceiver_PacketDone wr cb (rcv_filled ss (session_header_bytes h @ d)) True =
      (if sh_message_type h = kStartSessionInit
       then do {
         ss \<leftarrow> ProcessStartSessionInit wr cb (rcv_read ss fb) h;
         Some (ss\<lparr>receive_buffer_has_complete_message := False\<rparr>)
       }
       else if sh_message_type h = kStartSessionReply
       then do {
         ss \<leftarrow> ProcessStartSessionReply wr cb (rcv_read ss fb) h;
         Some (ss\<lparr>receive_buffer_has_complete_message := False\<rparr>)
       }
       else if sh_message_type h = kTerminateSession
       then do {
         ss \<leftarrow> (if session_state ss = kSessionEstablished
               then OnSessionTerminatedMessage cb ((rcv_read ss fb)\<lparr>session_state := kNoSessionEstablished\<rparr>)
               else Some (rcv_read ss fb));
         Some (ss\<lparr>receive_buffer_has_complete_message := False\<rparr>)
       }
       else if sh_message_type h = kLog
       then (if sh_session_id h = 0 \<or> sh_session_id h = session_id ss
             then cb (sh_message_type h) True (rcv_read ss fb) else Some (rcv_read ss fb))
       else (if session_state ss = kSessionEstablished \<and> sh_session_id h = session_id ss
             then cb (sh_message_type h) True (rcv_read ss fb) else Some (rcv_read ss fb)))"
proof -
  obtain fb where fb: "FrameBuffer_Read (receive_buffer (rcv_filled ss (session_header_bytes h @ d))) 3
      = Some (session_header_bytes h, fb)"
    "fb_wf fb" "fb_contents fb = d" "fb_room fb = fb_room (receive_buffer ss) - (3 + length d)"
    using header_read [OF assms] .
  have eq: "(rcv_filled ss xs)\<lparr>receive_buffer := fb, receive_buffer_has_complete_message := True\<rparr> = rcv_read ss fb" for xs
    by (simp add: rcv_filled_def rcv_read_def)
  show thesis
    by (rule that [OF fb(2-4)])
      (simp add: SessionReceiver_PacketDone_def sizeof_SessionHeader_def fb(1) Let_def eq,
       simp add: rcv_read_def rcv_filled_def)
qed

lemma message_type_distinct [simp]:
  "kStartSessionReply \<noteq> kStartSessionInit" "kTerminateSession \<noteq> kStartSessionInit"
  "kTerminateSession \<noteq> kStartSessionReply" "kLog \<noteq> kStartSessionInit" "kLog \<noteq> kStartSessionReply"
  "kLog \<noteq> kTerminateSession" "kNormal \<noteq> kStartSessionInit" "kNormal \<noteq> kStartSessionReply"
  "kNormal \<noteq> kTerminateSession" "kNormal \<noteq> kLog" "kStartSessionInit \<noteq> kLog"
  "kStartSessionReply \<noteq> kLog" "kTerminateSession \<noteq> kLog"
  by (simp_all add: message_type_defs)

section \<open>Delivery\<close>

text \<open>
  C3. A message sent in an established session is delivered once and whole. The sender frames it with
  the header of the session and writes it to the serial line; however the line is cut, the receiver,
  which is in the same session and has room for it, calls its message callback exactly at the end of
  the packet, with a receive buffer that holds the body and nothing else.
\<close>

theorem session_delivers_message:
  assumes "session_state a = kSessionEstablished" and "session_state b = kSessionEstablished"
    and "session_id a = session_id b"
    and "g_num_bytes_written (session_stream a) = g_num_bytes_requested (session_stream a)"
    and "2 * length d + 21 < 2 ^ 31" and "rcv_ready b (3 + length d)"
    and "uf_wf u" and "uf_state u = kFindPacketStart"
    and "\<And>ss. cb kNormal True ss \<noteq> None"
  shows "\<exists>a'. Session_SendMessage SerialWriteStream_Write a kNormal d = Some (kTvmErrorNoError, a')
    \<and> (\<forall>chunks. serial_out (session_stream a') = serial_out (session_stream a) @ concat chunks \<longrightarrow>
        (\<exists>u' b1 b2. cb kNormal True b1 = Some b2 \<and> fb_contents (receive_buffer b1) = d
          \<and> session_id b1 = session_id b
          \<and> Unframer_Feed SessionReceiver_Write (SessionReceiver_PacketDone wr cb) u b chunks
              = Some (kTvmErrorNoError, u', b2)
          \<and> uf_state u' = kFindPacketStart))"
proof -
  let ?h = "message_header a kNormal" and ?n = "2 * length d + 21"
  have h: "?h = \<lparr>sh_session_id = session_id b, sh_message_type = kNormal\<rparr>"
    using assms(3) by (simp add: message_header_def message_type_defs)
  have acc: "serial_accepts (session_stream a) ?n"
    using assms(4,5) by (simp add: serial_accepts_def)
  obtain fr s where send: "Session_SendInternal SerialWriteStream_Write a kNormal d
      = Some (kTvmErrorNoError, a\<lparr>session_framer := fr, session_stream := s\<rparr>)"
    "serial_out s = serial_out (session_stream a) @ lead (session_framer a)
        @ frame_packet (session_header_bytes ?h @ d)"
    using uart.SendInternal_ok [OF acc le_refl, of kNormal] by auto
  have ht: "sh_message_type ?h = kNormal" "sh_session_id ?h = session_id b"
    by (simp_all add: h)
  obtain fb where fb: "fb_contents fb = d"
    "SessionReceiver_PacketDone wr cb (rcv_filled b (session_header_bytes ?h @ d)) True
      = cb kNormal True (rcv_read b fb)"
    by (rule PacketDone_header [OF assms(6), of wr cb ?h])
      (use assms(2) in \<open>simp add: ht\<close>)
  obtain b2 where b2: "cb kNormal True (rcv_read b fb) = Some b2"
    using assms(9) by blast
  show ?thesis
  proof (rule exI [of _ "a\<lparr>session_framer := fr, session_stream := s\<rparr>"], intro conjI allI impI)
    show "Session_SendMessage SerialWriteStream_Write a kNormal d
        = Some (kTvmErrorNoError, a\<lparr>session_framer := fr, session_stream := s\<rparr>)"
      using send(1) assms(1) by (simp add: Session_SendMessage_def)
  next
    fix chunks
    assume "serial_out (session_stream (a\<lparr>session_framer := fr, session_stream := s\<rparr>))
      = serial_out (session_stream a) @ concat chunks"
    then have wire: "concat chunks = lead (session_framer a) @ frame_packet (session_header_bytes ?h @ d)"
      using send(2) by simp
    obtain u' where "Unframer_Feed SessionReceiver_Write (SessionReceiver_PacketDone wr cb) u b chunks
        = Some (kTvmErrorNoError, u', b2)" "uf_state u' = kFindPacketStart"
      using session_receives_packet [OF assms(7,8) wire, of b wr cb b2] assms(6) fb(2) b2
      by (auto simp: rcv_ready_def)
    then show "\<exists>u' b1 b2. cb kNormal True b1 = Some b2 \<and> fb_contents (receive_buffer b1) = d
          \<and> session_id b1 = session_id b
          \<and> Unframer_Feed SessionReceiver_Write (SessionReceiver_PacketDone wr cb) u b chunks
              = Some (kTvmErrorNoError, u', b2)
          \<and> uf_state u' = kFindPacketStart"
      using b2 fb(1) by (intro exI [of _ u'] exI [of _ "rcv_read b fb"] exI [of _ b2]) (simp add: rcv_read_def)
  qed
qed

text \<open>A message callback that may change its own context and nothing else.\<close>

definition context_only :: "(message_type \<Rightarrow> bool \<Rightarrow> 'c \<Rightarrow> 'c) \<Rightarrow> ('s, 'c) message_received_func" where
  "context_only f t b ss = Some (ss\<lparr>callback_context := f t b (callback_context ss)\<rparr>)"

text \<open>A device with a fresh receive buffer of 32 bytes, for the examples.\<close>

definition device :: "u8 \<Rightarrow> u16 \<Rightarrow> session_state \<Rightarrow> (serial, nat) session" where
  "device nonce i st = (Session (Framer 0) (serial.make 0 0 []) (FrameBuffer (replicate 32 0) 32) 0)
     \<lparr>local_nonce := nonce, session_id := i, session_state := st\<rparr>"

lemma device_simps [simp]:
  "session_state (device n i st) = st" "session_id (device n i st) = i" "local_nonce (device n i st) = n"
  "g_num_bytes_written (session_stream (device n i st)) = 0"
  "g_num_bytes_requested (session_stream (device n i st)) = 0"
  "k \<le> 32 \<Longrightarrow> rcv_ready (device n i st) k"
  by (auto simp: device_def Session_def serial.make_def rcv_ready_def FrameBuffer_Clear_def FrameBuffer_def
      fb_wf_def fb_contents_def fb_room_def)

theorem session_delivers_message_witness:
  "\<exists>a'. Session_SendMessage SerialWriteStream_Write (device 5 0x0305 kSessionEstablished) kNormal [1, 0xff, 2]
      = Some (kTvmErrorNoError, a')
    \<and> (\<forall>chunks. serial_out (session_stream a')
          = serial_out (session_stream (device 5 0x0305 kSessionEstablished)) @ concat chunks \<longrightarrow>
        (\<exists>u' b1 b2. context_only (\<lambda>_ _ n. n + 1) kNormal True b1 = Some b2 \<and> fb_contents (receive_buffer b1) = [1, 0xff, 2]
          \<and> session_id b1 = session_id (device 3 0x0305 kSessionEstablished)
          \<and> Unframer_Feed SessionReceiver_Write
              (SessionReceiver_PacketDone SerialWriteStream_Write (context_only (\<lambda>_ _ n. n + 1)))
              uf_example (device 3 0x0305 kSessionEstablished) chunks = Some (kTvmErrorNoError, u', b2)
          \<and> uf_state u' = kFindPacketStart))"
  by (rule session_delivers_message [where cb = "context_only (\<lambda>_ _ n. n + 1)"]) (simp_all add: uf_example_wf context_only_def)

section \<open>The handshake\<close>

lemma StartSession_ok:
  assumes "session_state a \<noteq> kSessionReset"
    and "g_num_bytes_written (session_stream a) = g_num_bytes_requested (session_stream a)"
  obtains fr s where
    "Session_StartSession SerialWriteStream_Write a = Some (kTvmErrorNoError,
       (SetSessionId (local_nonce (Session_RegenerateNonce a)) 0 (Session_RegenerateNonce a))
         \<lparr>session_framer := fr, session_stream := s, session_state := kStartSessionSent\<rparr>)"
    "serial_out s = serial_out (session_stream a) @ lead (session_framer a) @ frame_packet
       (session_header_bytes \<lparr>sh_session_id = sid (local_nonce (Session_RegenerateNonce a)) 0,
          sh_message_type = kStartSessionInit\<rparr> @ [kVersion])"
proof -
  let ?a = "Session_RegenerateNonce a"
  let ?b = "SetSessionId (local_nonce ?a) 0 ?a"
  have "serial_accepts (session_stream ?b) 100"
    using assms(2) by (simp add: serial_accepts_def)
  from uart.SendInternal_ok [OF this, of "[kVersion]" kStartSessionInit]
  obtain fr s where "Session_SendInternal SerialWriteStream_Write ?b kStartSessionInit [kVersion]
      = Some (kTvmErrorNoError, ?b\<lparr>session_framer := fr, session_stream := s\<rparr>)"
    "serial_out s = serial_out (session_stream a) @ lead (session_framer a) @ frame_packet
       (session_header_bytes (message_header ?b kStartSessionInit) @ [kVersion])"
    by auto
  then show thesis
    using assms(1) by (intro that [of s fr]) (simp_all add: Session_StartSession_def message_header_def Let_def)
qed

lemma SendSessionStartReply_ok:
  assumes "g_num_bytes_written (session_stream ss) = g_num_bytes_requested (session_stream ss)"
  obtains fr s where
    "SendSessionStartReply SerialWriteStream_Write (context_only f) ss h = Some
       ((SetSessionId (InitiatorNonce (sh_session_id h)) (local_nonce (Session_RegenerateNonce ss))
           (Session_RegenerateNonce ss))
         \<lparr>session_framer := fr, session_stream := s, session_state := kSessionEstablished,
          callback_context := f kStartSessionReply False (callback_context ss)\<rparr>)"
    "serial_out s = serial_out (session_stream ss) @ lead (session_framer ss) @ frame_packet
       (session_header_bytes \<lparr>sh_session_id = sid (InitiatorNonce (sh_session_id h))
           (local_nonce (Session_RegenerateNonce ss)), sh_message_type = kStartSessionReply\<rparr> @ [kVersion])"
    "g_num_bytes_written s = g_num_bytes_requested s"
proof -
  let ?a = "Session_RegenerateNonce ss"
  let ?b = "SetSessionId (InitiatorNonce (sh_session_id h)) (local_nonce ?a) ?a"
  have "serial_accepts (session_stream ?b) 100"
    using assms by (simp add: serial_accepts_def)
  from uart.SendInternal_ok [OF this, of "[kVersion]" kStartSessionReply]
  obtain fr s where "Session_SendInternal SerialWriteStream_Write ?b kStartSessionReply [kVersion]
      = Some (kTvmErrorNoError, ?b\<lparr>session_framer := fr, session_stream := s\<rparr>)"
    "serial_out s = serial_out (session_stream ss) @ lead (session_framer ss) @ frame_packet
       (session_header_bytes (message_header ?b kStartSessionReply) @ [kVersion])"
    "serial_accepts s (100 - length (lead (session_framer ss)
        @ frame_packet (session_header_bytes (message_header ?b kStartSessionReply) @ [kVersion])))"
    by auto
  then show thesis
    by (intro that [of s fr])
      (simp_all add: Let_def SendSessionStartReply_def message_header_def OnSessionEstablishedMessage_def
        context_only_def serial_accepts_def)
qed

lemma rcv_read_simps [simp]:
  "session_state (rcv_read ss fb) = session_state ss" "session_id (rcv_read ss fb) = session_id ss"
  "local_nonce (rcv_read ss fb) = local_nonce ss" "receive_buffer (rcv_read ss fb) = fb"
  "session_stream (rcv_read ss fb) = session_stream ss" "session_framer (rcv_read ss fb) = session_framer ss"
  "callback_context (rcv_read ss fb) = callback_context ss"
  by (simp_all add: rcv_read_def)

lemma read_version:
  assumes "fb_wf fb" and "fb_contents fb = [kVersion]"
  obtains fb' where "FrameBuffer_Read fb 1 = Some ([kVersion], fb')"
  using FrameBuffer_Read_prefix [OF assms(1), of "[kVersion]" "[]"] assms(2) by auto

text \<open>The answer to a start of session.\<close>

lemma PacketDone_init:
  assumes "rcv_ready b 4" and "session_state b \<noteq> kStartSessionSent" and "na \<noteq> 0"
    and "g_num_bytes_written (session_stream b) = g_num_bytes_requested (session_stream b)"
  obtains b' fr nb where
    "SessionReceiver_PacketDone SerialWriteStream_Write (context_only f)
       (rcv_filled b (session_header_bytes \<lparr>sh_session_id = sid na 0, sh_message_type = kStartSessionInit\<rparr>
          @ [kVersion])) True = Some b'"
    "session_state b' = kSessionEstablished" "session_id b' = sid na nb" "nb \<noteq> 0"
    "serial_out (session_stream b') = serial_out (session_stream b) @ lead fr @ frame_packet
       (session_header_bytes \<lparr>sh_session_id = sid na nb, sh_message_type = kStartSessionReply\<rparr> @ [kVersion])"
proof -
  let ?h = "\<lparr>sh_session_id = sid na 0, sh_message_type = kStartSessionInit\<rparr>"
  have ready: "rcv_ready b (3 + length [kVersion])"
    using assms(1) by simp
  obtain fb where fb: "fb_wf fb" "fb_contents fb = [kVersion]"
    "SessionReceiver_PacketDone SerialWriteStream_Write (context_only f)
       (rcv_filled b (session_header_bytes ?h @ [kVersion])) True
     = do { ss \<leftarrow> ProcessStartSessionInit SerialWriteStream_Write (context_only f) (rcv_read b fb) ?h;
            Some (ss\<lparr>receive_buffer_has_complete_message := False\<rparr>) }"
    by (rule PacketDone_header [OF ready, of SerialWriteStream_Write "context_only f" ?h]) simp
  obtain fb' where fb': "FrameBuffer_Read fb 1 = Some ([kVersion], fb')"
    using read_version [OF fb(1,2)] .
  let ?b = "(rcv_read b fb)\<lparr>receive_buffer := fb'\<rparr>"
  have "g_num_bytes_written (session_stream ?b) = g_num_bytes_requested (session_stream ?b)"
    using assms(4) by simp
  note send = SendSessionStartReply_ok [OF this, of f ?h]
  have sn: "InitiatorNonce (sh_session_id ?h) = na"
    by simp
  obtain fr s where "SendSessionStartReply SerialWriteStream_Write (context_only f) ?b ?h = Some
       ((SetSessionId (InitiatorNonce (sh_session_id ?h)) (local_nonce (Session_RegenerateNonce ?b)) (Session_RegenerateNonce ?b))
         \<lparr>session_framer := fr, session_stream := s, session_state := kSessionEstablished,
          callback_context := f kStartSessionReply False (callback_context ?b)\<rparr>)"
    "serial_out s = serial_out (session_stream ?b) @ lead (session_framer ?b) @ frame_packet
       (session_header_bytes \<lparr>sh_session_id = sid (InitiatorNonce (sh_session_id ?h))
           (local_nonce (Session_RegenerateNonce ?b)), sh_message_type = kStartSessionReply\<rparr> @ [kVersion])"
    by (rule send)
  note reply = this [unfolded sn]
  let ?nb = "local_nonce (Session_RegenerateNonce ?b)"
  let ?r = "(SetSessionId na ?nb (Session_RegenerateNonce ?b))
         \<lparr>session_framer := fr, session_stream := s, session_state := kSessionEstablished,
          callback_context := f kStartSessionReply False (callback_context ?b)\<rparr>"
  have "ProcessStartSessionInit SerialWriteStream_Write (context_only f) (rcv_read b fb) ?h
      = (if session_state b = kSessionEstablished
         then context_only f kStartSessionReply False ?r else Some ?r)"
    using assms(2,3) fb'
    by (cases "session_state b")
      (simp_all add: ProcessStartSessionInit_def kInvalidNonce_def OnSessionEstablishedMessage_def
        reply(1))
  then have "\<exists>c. ProcessStartSessionInit SerialWriteStream_Write (context_only f) (rcv_read b fb) ?h = Some
       ((SetSessionId na ?nb (Session_RegenerateNonce ?b))
         \<lparr>session_framer := fr, session_stream := s, session_state := kSessionEstablished,
          callback_context := c\<rparr>)"
    by (cases "session_state b = kSessionEstablished") (auto simp: context_only_def)
  then obtain c where "ProcessStartSessionInit SerialWriteStream_Write (context_only f) (rcv_read b fb) ?h = Some
       ((SetSessionId na ?nb (Session_RegenerateNonce ?b))
         \<lparr>session_framer := fr, session_stream := s, session_state := kSessionEstablished,
          callback_context := c\<rparr>)" ..
  note done_eq = fb(3) [unfolded this]
  show thesis
    by (rule that [OF done_eq [unfolded Option.bind.simps], of ?nb "session_framer b"])
      (simp_all add: reply(2) RegenerateNonce_valid)
qed

text \<open>The initiator's side of the answer.\<close>

lemma PacketDone_reply:
  assumes "\<And>ss. cb kStartSessionReply False ss = Some (told ss)"
    and "\<And>ss. session_state (told ss) = session_state ss \<and> session_id (told ss) = session_id ss"
    and "rcv_ready a 4" and "session_state a = kStartSessionSent" and "local_nonce a = na" and "nb \<noteq> 0"
  obtains a' where
    "SessionReceiver_PacketDone wr cb
       (rcv_filled a (session_header_bytes \<lparr>sh_session_id = sid na nb, sh_message_type = kStartSessionReply\<rparr>
          @ [kVersion])) True = Some a'"
    "session_state a' = kSessionEstablished" "session_id a' = sid na nb"
proof -
  let ?h = "\<lparr>sh_session_id = sid na nb, sh_message_type = kStartSessionReply\<rparr>"
  have ready: "rcv_ready a (3 + length [kVersion])"
    using assms(3) by simp
  obtain fb where fb: "fb_wf fb" "fb_contents fb = [kVersion]"
    "SessionReceiver_PacketDone wr cb
       (rcv_filled a (session_header_bytes ?h @ [kVersion])) True
     = do { ss \<leftarrow> ProcessStartSessionReply wr cb (rcv_read a fb) ?h;
            Some (ss\<lparr>receive_buffer_has_complete_message := False\<rparr>) }"
    by (rule PacketDone_header [OF ready, of wr cb ?h]) simp
  obtain fb' where fb': "FrameBuffer_Read fb 1 = Some ([kVersion], fb')"
    using read_version [OF fb(1,2)] .
  show thesis
    by (rule that)
      (use assms fb(3) fb' in \<open>auto simp: ProcessStartSessionReply_def kInvalidNonce_def
         OnSessionEstablishedMessage_def\<close>)
qed

text \<open>
  C14. The handshake agrees. A device that starts a session, and a peer that is not itself starting one,
  exchange two packets over their serial lines, each cut anywhere; both end in the established state
  with the same session id, whose two nonces are valid, and no call reports an error. The callbacks of the
  two may do anything to the context of their session.
\<close>

theorem handshake_agrees:
  assumes "session_state a \<noteq> kSessionReset" and "session_state b \<noteq> kStartSessionSent"
    and "rcv_ready a 4" and "rcv_ready b 4"
    and "g_num_bytes_written (session_stream a) = g_num_bytes_requested (session_stream a)"
    and "g_num_bytes_written (session_stream b) = g_num_bytes_requested (session_stream b)"
    and "uf_wf ua" and "uf_state ua = kFindPacketStart"
    and "uf_wf ub" and "uf_state ub = kFindPacketStart"
  shows "\<exists>a1. Session_StartSession SerialWriteStream_Write a = Some (kTvmErrorNoError, a1) \<and>
    (\<forall>chunks. serial_out (session_stream a1) = serial_out (session_stream a) @ concat chunks \<longrightarrow>
      (\<exists>ub' b1. Unframer_Feed SessionReceiver_Write
          (SessionReceiver_PacketDone SerialWriteStream_Write (context_only g)) ub b chunks
            = Some (kTvmErrorNoError, ub', b1) \<and>
        (\<forall>chunks'. serial_out (session_stream b1) = serial_out (session_stream b) @ concat chunks' \<longrightarrow>
          (\<exists>ua' a2. Unframer_Feed SessionReceiver_Write
              (SessionReceiver_PacketDone SerialWriteStream_Write (context_only f)) ua a1 chunks'
                = Some (kTvmErrorNoError, ua', a2)
            \<and> session_state a2 = kSessionEstablished \<and> session_state b1 = kSessionEstablished
            \<and> session_id a2 = session_id b1
            \<and> InitiatorNonce (session_id a2) \<noteq> kInvalidNonce
            \<and> ResponderNonce (session_id a2) \<noteq> kInvalidNonce))))"
proof -
  let ?na = "local_nonce (Session_RegenerateNonce a)"
  let ?p = "session_header_bytes \<lparr>sh_session_id = sid ?na 0, sh_message_type = kStartSessionInit\<rparr> @ [kVersion]"
  obtain a1 where a1: "Session_StartSession SerialWriteStream_Write a = Some (kTvmErrorNoError, a1)"
    "session_state a1 = kStartSessionSent" "local_nonce a1 = ?na" "rcv_ready a1 4"
    "serial_out (session_stream a1) = serial_out (session_stream a) @ lead (session_framer a) @ frame_packet ?p"
    by (rule StartSession_ok [OF assms(1,5)]) (use assms(3) in \<open>auto simp: rcv_ready_def\<close>)
  obtain b1 fr nb where b1: "SessionReceiver_PacketDone SerialWriteStream_Write (context_only g) (rcv_filled b ?p) True = Some b1"
    "session_state b1 = kSessionEstablished" "session_id b1 = sid ?na nb" "nb \<noteq> 0"
    "serial_out (session_stream b1) = serial_out (session_stream b) @ lead fr @ frame_packet
       (session_header_bytes \<lparr>sh_session_id = sid ?na nb, sh_message_type = kStartSessionReply\<rparr> @ [kVersion])"
    by (rule PacketDone_init [where f = g, OF assms(4,2) RegenerateNonce_valid [of a] assms(6)])
  let ?q = "session_header_bytes \<lparr>sh_session_id = sid ?na nb, sh_message_type = kStartSessionReply\<rparr> @ [kVersion]"
  obtain a2 where a2: "SessionReceiver_PacketDone SerialWriteStream_Write (context_only f) (rcv_filled a1 ?q) True = Some a2"
    "session_state a2 = kSessionEstablished" "session_id a2 = sid ?na nb"
    by (rule PacketDone_reply [where cb = "context_only f" and na = ?na and nb = nb
          and told = "\<lambda>ss. ss\<lparr>callback_context := f kStartSessionReply False (callback_context ss)\<rparr>",
          OF context_only_def _ a1(4,2,3) b1(4)]) simp_all
  have feed1: "\<exists>ub'. Unframer_Feed SessionReceiver_Write
      (SessionReceiver_PacketDone SerialWriteStream_Write (context_only g)) ub b chunks
        = Some (kTvmErrorNoError, ub', b1)"
    if "serial_out (session_stream a1) = serial_out (session_stream a) @ concat chunks" for chunks
    using session_receives_packet [OF assms(9,10) _ _ _ _ _ b1(1), of chunks "session_framer a"] that a1(5) assms(4)
    by (auto simp: rcv_ready_def)
  have feed2: "\<exists>ua'. Unframer_Feed SessionReceiver_Write
      (SessionReceiver_PacketDone SerialWriteStream_Write (context_only f)) ua a1 chunks
        = Some (kTvmErrorNoError, ua', a2)"
    if "serial_out (session_stream b1) = serial_out (session_stream b) @ concat chunks" for chunks
    using session_receives_packet [OF assms(7,8) _ _ _ _ _ a2(1), of chunks fr] that b1(5) a1(4)
    by (auto simp: rcv_ready_def)
  show ?thesis
    using a1(1) feed1 feed2 a2 b1 by (fastforce simp: kInvalidNonce_def)
qed

theorem handshake_agrees_witness:
  "\<exists>a1. Session_StartSession SerialWriteStream_Write (device 7 0 kNoSessionEstablished) = Some (kTvmErrorNoError, a1) \<and>
    (\<forall>chunks. serial_out (session_stream a1)
        = serial_out (session_stream (device 7 0 kNoSessionEstablished)) @ concat chunks \<longrightarrow>
      (\<exists>ub' b1. Unframer_Feed SessionReceiver_Write
          (SessionReceiver_PacketDone SerialWriteStream_Write (context_only (\<lambda>_ _ n. n + 1))) uf_example
            (device 9 0 kNoSessionEstablished) chunks = Some (kTvmErrorNoError, ub', b1) \<and>
        (\<forall>chunks'. serial_out (session_stream b1)
            = serial_out (session_stream (device 9 0 kNoSessionEstablished)) @ concat chunks' \<longrightarrow>
          (\<exists>ua' a2. Unframer_Feed SessionReceiver_Write
              (SessionReceiver_PacketDone SerialWriteStream_Write (context_only (\<lambda>_ _ n. n))) uf_example a1 chunks'
                = Some (kTvmErrorNoError, ua', a2)
            \<and> session_state a2 = kSessionEstablished \<and> session_state b1 = kSessionEstablished
            \<and> session_id a2 = session_id b1
            \<and> InitiatorNonce (session_id a2) \<noteq> kInvalidNonce
            \<and> ResponderNonce (session_id a2) \<noteq> kInvalidNonce))))"
  by (rule handshake_agrees) (simp_all add: uf_example_wf)

section \<open>Messages of another session, and packets with a wrong checksum\<close>

text \<open>
  One stale message stops the receiver for good. When an established device receives a valid packet
  of another session, the callback is not called and the packet is dropped, but the receive buffer
  stays marked as holding a complete message: every later payload byte is refused, as a stream error.
  (The session start that would recover is refused like any other packet.)
\<close>

lemma stale_message_wedges_receiver:
  assumes "session_state b = kSessionEstablished" and "sh_message_type h = kNormal"
    and "sh_session_id h \<noteq> session_id b" and "rcv_ready b (3 + length d)"
    and "uf_wf u" and "uf_state u = kFindPacketStart"
    and "concat chunks = frame_packet (session_header_bytes h @ d)"
  shows "\<exists>u' b'. Unframer_Feed SessionReceiver_Write (SessionReceiver_PacketDone wr cb) u b chunks
      = Some (kTvmErrorNoError, u', b')
    \<and> callback_context b' = callback_context b
    \<and> (\<forall>data. data \<noteq> [] \<and> length data < 0x401 \<longrightarrow>
         WriteAll SessionReceiver_Write b' data = Some (kTvmErrorWriteStreamLongWrite, 0, b'))"
proof -
  obtain fb where fb: "SessionReceiver_PacketDone wr cb (rcv_filled b (session_header_bytes h @ d)) True
      = Some (rcv_read b fb)"
    by (rule PacketDone_header [OF assms(4), of wr cb h]) (use assms(1-3) in simp)
  have "concat chunks = lead ((Framer 0)\<lparr>fr_state := kIdle\<rparr>) @ frame_packet (session_header_bytes h @ d)"
    using assms(7) by (simp add: lead_def)
  then obtain u' where "Unframer_Feed SessionReceiver_Write (SessionReceiver_PacketDone wr cb) u b chunks
      = Some (kTvmErrorNoError, u', rcv_read b fb)"
    using session_receives_packet [OF assms(5,6) _ _ _ _ _ fb, of chunks] assms(4)
    by (auto simp: rcv_ready_def)
  moreover have "WriteAll SessionReceiver_Write (rcv_read b fb) data
      = Some (kTvmErrorWriteStreamLongWrite, 0, rcv_read b fb)" if "data \<noteq> []" "length data < 0x401" for data
    using that
    by (simp add: WriteAll_def WriteAll_loop.simps [of SessionReceiver_Write] SessionReceiver_Write_def
        rcv_read_def)
  ultimately show ?thesis
    by (intro exI [of _ u'] exI [of _ "rcv_read b fb"]) simp
qed

text \<open>
  C39. A packet with a wrong checksum is not dropped but waits in the receive buffer: when the next
  valid packet ends, of whatever kind and session, the receiver reads the header of the bad packet and,
  if it names the session, calls the message callback on the bad packet's body followed by the good
  packet.
\<close>

theorem bad_packet_delivered_later:
  assumes "session_state b = kSessionEstablished" and "sh_message_type h = kNormal"
    and "sh_session_id h = session_id b" and "rcv_ready b (3 + length d + length p)"
  shows "\<exists>b1 b2. SessionReceiver_PacketDone wr cb (rcv_filled b (session_header_bytes h @ d)) False = Some b1
    \<and> SessionReceiver_PacketDone wr cb (rcv_filled b1 p) True = cb kNormal True b2
    \<and> fb_contents (receive_buffer b2) = d @ p"
proof -
  have "rcv_ready b (3 + length (d @ p))"
    using assms(4) by (simp add: add.assoc)
  then obtain fb where fb: "fb_contents fb = d @ p"
    "SessionReceiver_PacketDone wr cb (rcv_filled b (session_header_bytes h @ d @ p)) True
       = cb kNormal True (rcv_read b fb)"
    by (rule PacketDone_header [of b "d @ p" wr cb h]) (use assms(1-3) in simp)
  have "rcv_filled (rcv_filled b (session_header_bytes h @ d)) p = rcv_filled b (session_header_bytes h @ d @ p)"
    using fb_append_append [of "receive_buffer b" "session_header_bytes h @ d" p] assms(4)
    by (simp add: rcv_filled_def rcv_ready_def)
  then show ?thesis
    using fb
    by (intro exI [of _ "rcv_filled b (session_header_bytes h @ d)"] exI [of _ "rcv_read b fb"])
      (simp add: SessionReceiver_PacketDone_def)
qed

theorem bad_packet_delivered_later_witness:
  "\<exists>b1 b2. SessionReceiver_PacketDone SerialWriteStream_Write (context_only (\<lambda>_ _ n. n))
      (rcv_filled (device 3 0x0305 kSessionEstablished)
        (session_header_bytes \<lparr>sh_session_id = 0x0305, sh_message_type = kNormal\<rparr> @ [6])) False = Some b1
    \<and> SessionReceiver_PacketDone SerialWriteStream_Write (context_only (\<lambda>_ _ n. n)) (rcv_filled b1 [9, 9]) True
        = context_only (\<lambda>_ _ n. n) kNormal True b2
    \<and> fb_contents (receive_buffer b2) = [6] @ [9, 9]"
  by (rule bad_packet_delivered_later) simp_all

section \<open>The invariant of the state machine\<close>

text \<open>
  Every operation of a session, as a step. The callback and the stream behind the framer are arbitrary;
  what owns them may change them between two operations.
\<close>

inductive session_step ::
    "'s stream_write \<Rightarrow> ('s, 'c) message_received_func \<Rightarrow> ('s, 'c) session \<Rightarrow> ('s, 'c) session \<Rightarrow> bool"
  for wr :: "'s stream_write" and cb :: "('s, 'c) message_received_func" where
  initialize: "Session_Initialize wr ss nonce = Some (e, ss') \<Longrightarrow> session_step wr cb ss ss'"
| terminate: "Session_TerminateSession wr ss = Some (e, ss') \<Longrightarrow> session_step wr cb ss ss'"
| start: "Session_StartSession wr ss = Some (e, ss') \<Longrightarrow> session_step wr cb ss ss'"
| send: "Session_SendMessage wr ss t d = Some (e, ss') \<Longrightarrow> session_step wr cb ss ss'"
| start_message: "Session_StartMessage wr ss t n = Some (e, ss') \<Longrightarrow> session_step wr cb ss ss'"
| body: "Session_SendBodyChunk wr ss d = Some (e, ss') \<Longrightarrow> session_step wr cb ss ss'"
| finish: "Session_FinishMessage wr ss = Some (e, ss') \<Longrightarrow> session_step wr cb ss ss'"
| receive: "SessionReceiver_Write ss d = Some (n, ss') \<Longrightarrow> session_step wr cb ss ss'"
| packet: "SessionReceiver_PacketDone wr cb ss v = Some ss' \<Longrightarrow> session_step wr cb ss ss'"
| clear: "session_step wr cb ss (Session_ClearReceiveBuffer ss)"
| outside: "session_step wr cb ss (ss\<lparr>session_stream := s, callback_context := c\<rparr>)"

inductive session_reachable ::
    "'s stream_write \<Rightarrow> ('s, 'c) message_received_func \<Rightarrow> ('s, 'c) session \<Rightarrow> bool"
  for wr :: "'s stream_write" and cb :: "('s, 'c) message_received_func" where
  new: "session_reachable wr cb (Session fr s fb c)"
| step: "session_reachable wr cb ss \<Longrightarrow> session_step wr cb ss ss' \<Longrightarrow> session_reachable wr cb ss'"

definition session_inv :: "('s, 'c) session \<Rightarrow> bool" where
  "session_inv ss \<longleftrightarrow>
     (session_state ss = kStartSessionSent \<longrightarrow> local_nonce ss \<noteq> 0 \<and> session_id ss = sid (local_nonce ss) 0)
     \<and> (session_state ss = kSessionEstablished \<longrightarrow> InitiatorNonce (session_id ss) \<noteq> 0)"

text \<open>The fields the invariant reads are the ones sending and filling do not touch.\<close>

definition same_id :: "('s, 'c) session \<Rightarrow> ('s, 'c) session \<Rightarrow> bool" where
  "same_id ss ss' \<longleftrightarrow> local_nonce ss' = local_nonce ss \<and> session_id ss' = session_id ss
     \<and> session_state ss' = session_state ss"

lemma same_id_inv: "same_id ss ss' \<Longrightarrow> session_inv ss \<Longrightarrow> session_inv ss'"
  by (simp add: same_id_def session_inv_def)

lemma SendInternal_same_id: "Session_SendInternal wr ss t d = Some (e, ss') \<Longrightarrow> same_id ss ss'"
  unfolding SendInternal_Framer by (auto simp: bind_eq_Some same_id_def)

lemma sending_same_id:
  "Session_SendBodyChunk wr ss d = Some (e, ss') \<Longrightarrow> same_id ss ss'"
  "Session_FinishMessage wr ss = Some (e, ss') \<Longrightarrow> same_id ss ss'"
  "Session_StartMessage wr ss t n = Some (e, ss') \<Longrightarrow> same_id ss ss'"
  "Session_SendMessage wr ss t d = Some (e, ss') \<Longrightarrow> same_id ss ss'"
  "SessionReceiver_Write ss d = Some (r, ss') \<Longrightarrow> same_id ss ss'"
  by (auto simp: Session_SendBodyChunk_def Session_FinishMessage_def Session_StartMessage_def
      Session_SendMessage_def SessionReceiver_Write_def bind_eq_Some Let_def same_id_def
      dest: SendInternal_same_id split: if_splits)

lemma TerminateSession_inv: "Session_TerminateSession wr ss = Some (e, ss') \<Longrightarrow> session_inv ss'"
  by (auto simp: Session_TerminateSession_def Let_def same_id_def session_inv_def
      dest!: SendInternal_same_id)

lemma StartSession_inv:
  assumes "Session_StartSession wr ss = Some (e, ss')" and "session_inv ss"
  shows "session_inv ss'"
proof -
  let ?n = "local_nonce (Session_RegenerateNonce ss)"
  obtain w where w: "Session_SendInternal wr (SetSessionId ?n 0 (Session_RegenerateNonce ss))
      kStartSessionInit [kVersion] = Some (e, w)"
    "ss' = (if e = kTvmErrorNoError then w\<lparr>session_state := kStartSessionSent\<rparr> else w)"
    using assms(1) by (auto simp: Session_StartSession_def bind_eq_Some Let_def)
  have "same_id (SetSessionId ?n 0 (Session_RegenerateNonce ss)) w"
    by (rule SendInternal_same_id [OF w(1)])
  then show ?thesis
    using w(2) by (auto simp: same_id_def session_inv_def)
qed

text \<open>What the session needs of its callback: that it keeps the invariant, as every operation does.\<close>

locale session_callback =
  fixes cb :: "('s, 'c) message_received_func"
  assumes cb: "cb t b ss = Some ss' \<Longrightarrow> session_inv ss \<Longrightarrow> session_inv ss'"
begin

lemma SendSessionStartReply_inv:
  assumes "SendSessionStartReply wr cb ss h = Some ss'" and "InitiatorNonce (sh_session_id h) \<noteq> 0"
  shows "session_inv ss'"
proof -
  let ?n = "local_nonce (Session_RegenerateNonce ss)"
  let ?s = "SetSessionId (InitiatorNonce (sh_session_id h)) ?n (Session_RegenerateNonce ss)"
  obtain e w where w: "Session_SendInternal wr ?s kStartSessionReply [kVersion] = Some (e, w)"
    "cb kStartSessionReply False (w\<lparr>session_state := kSessionEstablished\<rparr>) = Some ss'"
    using assms(1)
    by (auto simp: SendSessionStartReply_def bind_eq_Some Let_def OnSessionEstablishedMessage_def)
  have "same_id ?s w"
    by (rule SendInternal_same_id [OF w(1)])
  then have "session_inv (w\<lparr>session_state := kSessionEstablished\<rparr>)"
    using assms(2) by (simp add: same_id_def session_inv_def)
  then show ?thesis
    by (rule cb [OF w(2)])
qed

lemma ProcessStartSessionInit_inv:
  assumes "ProcessStartSessionInit wr cb ss h = Some ss'" and "session_inv ss"
  shows "session_inv ss'"
proof (cases "InitiatorNonce (sh_session_id h) = kInvalidNonce")
  case True
  then show ?thesis
    using assms by (simp add: ProcessStartSessionInit_def)
next
  case False
  then have n: "InitiatorNonce (sh_session_id h) \<noteq> 0"
    by (simp add: kInvalidNonce_def)
  obtain p fb where r: "FrameBuffer_Read (receive_buffer ss) 1 = Some (p, fb)"
    using assms(1) False by (auto simp: ProcessStartSessionInit_def bind_eq_Some)
  have i: "session_inv (ss\<lparr>receive_buffer := fb\<rparr>)"
    using assms(2) by (simp add: session_inv_def)
  show ?thesis
    using assms(1) False r i
    by (auto simp: ProcessStartSessionInit_def bind_eq_Some Let_def OnSessionEstablishedMessage_def
        split: if_splits session_state.splits
        dest: SendSessionStartReply_inv [OF _ n] StartSession_inv cb)
qed

lemma ProcessStartSessionReply_inv:
  assumes "ProcessStartSessionReply wr cb ss h = Some ss'" and "session_inv ss"
  shows "session_inv ss'"
proof (cases "ResponderNonce (sh_session_id h) = kInvalidNonce")
  case True
  then show ?thesis
    using assms by (simp add: ProcessStartSessionReply_def)
next
  case False
  obtain p fb where r: "FrameBuffer_Read (receive_buffer ss) 1 = Some (p, fb)"
    using assms(1) False by (auto simp: ProcessStartSessionReply_def bind_eq_Some)
  have i: "session_inv (ss\<lparr>receive_buffer := fb\<rparr>)"
    "session_state ss = kStartSessionSent \<Longrightarrow> session_inv
       ((SetSessionId (local_nonce ss) (ResponderNonce (sh_session_id h)) (ss\<lparr>receive_buffer := fb\<rparr>))
          \<lparr>session_state := kSessionEstablished\<rparr>)"
    "session_inv (ss\<lparr>receive_buffer := fb, session_state := kSessionReset\<rparr>)"
    using assms(2) by (simp_all add: session_inv_def)
  show ?thesis
    using assms(1) False r i
    by (auto simp: ProcessStartSessionReply_def bind_eq_Some Let_def OnSessionEstablishedMessage_def
        split: if_splits session_state.splits dest: cb)
qed

lemma PacketDone_inv:
  assumes "SessionReceiver_PacketDone wr cb ss v = Some ss'" and "session_inv ss"
  shows "session_inv ss'"
proof (cases v)
  case False
  then show ?thesis
    using assms by (simp add: SessionReceiver_PacketDone_def)
next
  case True
  obtain p fb where r: "FrameBuffer_Read (receive_buffer ss) sizeof_SessionHeader = Some (p, fb)"
    using assms(1) True by (auto simp: SessionReceiver_PacketDone_def bind_eq_Some)
  let ?s = "ss\<lparr>receive_buffer := fb, receive_buffer_has_complete_message := True\<rparr>"
  have i: "session_inv (ss\<lparr>receive_buffer := fb\<rparr>)" "session_inv ?s"
    "session_inv (?s\<lparr>session_state := kNoSessionEstablished\<rparr>)"
    using assms(2) by (simp_all add: session_inv_def)
  have b: "session_inv (s\<lparr>receive_buffer_has_complete_message := False\<rparr>) = session_inv s" for s :: "('a, 'b) session"
    by (simp add: session_inv_def)
  show ?thesis
    using assms(1) True r i
    by (auto simp: SessionReceiver_PacketDone_def bind_eq_Some Let_def OnSessionTerminatedMessage_def b
        split: if_splits dest: cb ProcessStartSessionInit_inv ProcessStartSessionReply_inv)
qed

lemma session_step_inv: "session_step wr cb ss ss' \<Longrightarrow> session_inv ss \<Longrightarrow> session_inv ss'"
proof (induction rule: session_step.induct)
  case (initialize ss nonce e ss')
  then show ?case
    by (auto simp: Session_Initialize_def dest: TerminateSession_inv)
next
  case (terminate ss e ss')
  then show ?case
    by (auto dest: TerminateSession_inv)
next
  case (start ss e ss')
  then show ?case
    by (auto dest: StartSession_inv)
next
  case (packet ss v ss')
  then show ?case
    by (auto dest: PacketDone_inv)
next
  case (clear ss)
  then show ?case
    by (simp add: session_inv_def Session_ClearReceiveBuffer_def)
next
  case (outside ss s c)
  then show ?case
    by (simp add: session_inv_def)
qed (auto dest: sending_same_id same_id_inv)

lemma session_reachable_inv: "session_reachable wr cb ss \<Longrightarrow> session_inv ss"
proof (induction rule: session_reachable.induct)
  case (new fr s fb c)
  then show ?case
    by (simp add: session_inv_def Session_def)
next
  case (step ss ss')
  then show ?case
    using session_step_inv by blast
qed

end

end
