(* ===== verification/Page_Allocator.thy ===== *)
theory Page_Allocator
  imports Crt_Prelude "HOL-Library.Signed_Division"
begin

text \<open>
  The heap of the runtime, \<^verbatim>\<open>memory/page_allocator.c\<close>: a page table, a table from addresses to pages
  and a list of free pages, all in arrays of fixed length at the end of the pool. The contract of an
  allocator is a locale; the page allocator keeps it for blocks of at least one byte.
\<close>

section \<open>The data\<close>

text \<open>\<^verbatim>\<open>tvm_index_t\<close> has 64 bits and counts pages, at most \<open>2 ^ 32\<close> of them: an integer here.\<close>

record page =
  ptable_begin :: int
  num_pages :: int
  page_data :: addr

record page_table =
  pt_memory_pool :: addr
  pt_page_size_bytes :: nat
  pt_page :: "page list"
  pt_page_at :: addr
  pt_max_pages :: nat
  pt_num_pages :: nat

record page_entry =
  pe_addr :: addr
  pe_page :: page

record tlb =
  tlb_entries :: "page_entry list"
  tlb_entries_at :: addr
  tlb_max_pages :: nat
  tlb_num_pages :: nat

record indexed_entry =
  ie_index :: int
  ie_page :: page

record multi_map =
  mm_entries :: "indexed_entry list"
  mm_entries_at :: addr
  mm_max_entries :: nat
  mm_num_entries :: nat

record memory_manager =
  vleak_size :: int
  ptable :: page_table
  pmap :: tlb
  free_map :: multi_map

section \<open>The tables\<close>

definition PageCreate :: "addr \<Rightarrow> nat \<Rightarrow> int \<Rightarrow> int \<Rightarrow> page" where
  "PageCreate memory_pool page_size_bytes begin_page n =
     \<lparr>ptable_begin = begin_page, num_pages = n,
      page_data = memory_pool + begin_page * int page_size_bytes\<rparr>"

text \<open>\<open>n\<close> slots from \<open>idx\<close> on are set.\<close>

fun PageTable_fill :: "page list \<Rightarrow> nat \<Rightarrow> nat \<Rightarrow> page \<Rightarrow> page list option" where
  "PageTable_fill ps idx 0 p = Some ps"
| "PageTable_fill ps idx (Suc n) p = do {
     ps \<leftarrow> arr_set ps idx p;
     PageTable_fill ps (idx + 1) n p
   }"

definition PageTable_Resize :: "page_table \<Rightarrow> nat \<Rightarrow> page \<Rightarrow> page_table option" where
  "PageTable_Resize pt new_size p = do {
     CHECK (pt_num_pages pt \<le> new_size);
     ps \<leftarrow> PageTable_fill (pt_page pt) (pt_num_pages pt) (new_size - pt_num_pages pt) p;
     Some (pt\<lparr>pt_page := ps, pt_num_pages := new_size\<rparr>)
   }"

text \<open>A search: the first of \<open>n\<close> slots from \<open>idx\<close> on that satisfies the condition.\<close>

fun find_from :: "('a \<Rightarrow> bool) \<Rightarrow> 'a list \<Rightarrow> nat \<Rightarrow> nat \<Rightarrow> nat option option" where
  "find_from P xs idx 0 = Some None"
| "find_from P xs idx (Suc n) = do {
     x \<leftarrow> arr_get xs idx;
     if P x then Some (Some idx) else find_from P xs (idx + 1) n
   }"

text \<open>The entry is given by its index, or is null.\<close>

definition TLB_Find :: "tlb \<Rightarrow> addr \<Rightarrow> nat option option" where
  "TLB_Find t data = find_from (\<lambda>e. pe_addr e = data) (tlb_entries t) 0 (tlb_num_pages t)"

definition TLB_Set :: "tlb \<Rightarrow> addr \<Rightarrow> page \<Rightarrow> tlb option" where
  "TLB_Set t data p = do {
     entry \<leftarrow> TLB_Find t data;
     case entry of
       None \<Rightarrow> do {
         es \<leftarrow> arr_set (tlb_entries t) (tlb_num_pages t) \<lparr>pe_addr = data, pe_page = p\<rparr>;
         Some (t\<lparr>tlb_entries := es, tlb_num_pages := tlb_num_pages t + 1\<rparr>)
       }
     | Some i \<Rightarrow> do {
         es \<leftarrow> arr_set (tlb_entries t) i \<lparr>pe_addr = data, pe_page = p\<rparr>;
         Some (t\<lparr>tlb_entries := es\<rparr>)
       }
   }"

definition MultiMap_LowerBound :: "multi_map \<Rightarrow> int \<Rightarrow> nat option option" where
  "MultiMap_LowerBound m npage =
     find_from (\<lambda>e. ie_index e \<ge> npage) (mm_entries m) 0 (mm_num_entries m)"

definition MultiMap_End :: "multi_map \<Rightarrow> nat option" where
  "MultiMap_End m = None"

function shift_down :: "'a list \<Rightarrow> nat \<Rightarrow> nat \<Rightarrow> 'a list option" where
  "shift_down xs src_idx n =
     (if src_idx < n then do {
        x \<leftarrow> arr_get xs src_idx;
        xs \<leftarrow> arr_set xs (src_idx - 1) x;
        shift_down xs (src_idx + 1) n
      }
      else Some xs)"
  by auto
termination
  by (relation "measure (\<lambda>(_, src_idx, n). n - src_idx)") auto

declare shift_down.simps [simp del]

text \<open>The entry is found by its address, that is by its index.\<close>

definition MultiMap_Erase :: "multi_map \<Rightarrow> nat \<Rightarrow> multi_map option" where
  "MultiMap_Erase m entry =
     (if entry < mm_num_entries m then do {
        es \<leftarrow> shift_down (mm_entries m) (entry + 1) (mm_num_entries m);
        Some (m\<lparr>mm_entries := es, mm_num_entries := mm_num_entries m - 1\<rparr>)
      }
      else Some m)"

text \<open>The loop of the insertion writes the same slot \<open>npage\<close> times.\<close>

fun MultiMap_store :: "indexed_entry list \<Rightarrow> nat \<Rightarrow> nat \<Rightarrow> indexed_entry \<Rightarrow> indexed_entry list option" where
  "MultiMap_store es i 0 e = Some es"
| "MultiMap_store es i (Suc n) e = do { es \<leftarrow> arr_set es i e; MultiMap_store es i n e }"

definition MultiMap_Insert :: "multi_map \<Rightarrow> int \<Rightarrow> page \<Rightarrow> multi_map option" where
  "MultiMap_Insert m npage p = do {
     CHECK (mm_num_entries m + 1 \<le> mm_max_entries m);
     es \<leftarrow> MultiMap_store (mm_entries m) (mm_num_entries m) (nat npage) \<lparr>ie_index = npage, ie_page = p\<rparr>;
     Some (m\<lparr>mm_entries := es, mm_num_entries := mm_num_entries m + 1\<rparr>)
   }"

section \<open>The memory manager\<close>

text \<open>The page count is computed in \<^verbatim>\<open>size_t\<close>, where the sum can wrap.\<close>

definition pages_needed :: "memory_manager \<Rightarrow> nat \<Rightarrow> int" where
  "pages_needed mgr num_bytes =
     int (((num_bytes + pt_page_size_bytes (ptable mgr) - 1) mod 2 ^ 32) div pt_page_size_bytes (ptable mgr))"

text \<open>The result holds \<^verbatim>\<open>*out_ptr\<close>.\<close>

definition PageMemoryManager_Allocate ::
    "memory_manager \<Rightarrow> nat \<Rightarrow> (tvm_crt_error \<times> addr \<times> memory_manager) option" where
  "PageMemoryManager_Allocate mgr num_bytes = do {
     let npage = pages_needed mgr num_bytes;
     it \<leftarrow> MultiMap_LowerBound (free_map mgr) npage;
     if it \<noteq> MultiMap_End (free_map mgr)
     then do {
       e \<leftarrow> arr_get (mm_entries (free_map mgr)) (the it);
       let p = ie_page e;
       fm \<leftarrow> MultiMap_Erase (free_map mgr) (the it);
       Some (kTvmErrorNoError, page_data p, mgr\<lparr>free_map := fm, vleak_size := vleak_size mgr + 1\<rparr>)
     }
     else do {
       let start = int (pt_num_pages (ptable mgr));
       if (start + npage) mod 2 ^ 32 > int (pt_max_pages (ptable mgr))
       then Some (kTvmErrorPlatformNoMemory, 0, mgr)
       else do {
         let p = PageCreate (pt_memory_pool (ptable mgr)) (pt_page_size_bytes (ptable mgr)) start npage;
         pt \<leftarrow> PageTable_Resize (ptable mgr) (nat (start + npage)) p;
         t \<leftarrow> TLB_Set (pmap mgr) (page_data p) p;
         Some (kTvmErrorNoError, page_data p,
           mgr\<lparr>ptable := pt, pmap := t, vleak_size := vleak_size mgr + 1\<rparr>)
       }
     }
   }"

definition PageMemoryManager_Free ::
    "memory_manager \<Rightarrow> addr \<Rightarrow> (tvm_crt_error \<times> memory_manager) option" where
  "PageMemoryManager_Free mgr ptr = do {
     CHECK (tlb_num_pages (pmap mgr) \<noteq> 0);
     entry \<leftarrow> TLB_Find (pmap mgr) ptr;
     CHECK (entry \<noteq> None);
     e \<leftarrow> arr_get (tlb_entries (pmap mgr)) (the entry);
     let p = pe_page e;
     fm \<leftarrow> MultiMap_Insert (free_map mgr) (num_pages p) p;
     Some (kTvmErrorNoError, mgr\<lparr>free_map := fm, vleak_size := vleak_size mgr - 1\<rparr>)
   }"

text \<open>
  Reallocation, which the manager's interface does not offer. \<open>ptr\<close> is the address of the caller's
  pointer, which is read first, so a null \<open>ptr\<close> faults and the second half of the function is dead.
  It is also the address that is looked up. The result holds the arguments of \<^verbatim>\<open>memcpy\<close>, if it is called.
\<close>

definition PageMemoryManager_Realloc ::
    "memory_manager \<Rightarrow> addr \<Rightarrow> int \<Rightarrow> (tvm_crt_error \<times> (addr \<times> addr \<times> nat) option \<times> memory_manager) option" where
  "PageMemoryManager_Realloc mgr ptr num_bytes = do {
     let ps = pt_page_size_bytes (ptable mgr);
     let npage = (num_bytes + int ps - 1) sdiv int ps;
     CHECK (ptr \<noteq> 0);
     CHECK (tlb_num_pages (pmap mgr) \<noteq> 0);
     entry \<leftarrow> TLB_Find (pmap mgr) ptr;
     CHECK (entry \<noteq> None);
     e \<leftarrow> arr_get (tlb_entries (pmap mgr)) (the entry);
     if num_pages (pe_page e) < npage
     then do {
       it \<leftarrow> MultiMap_LowerBound (free_map mgr) (npage mod 2 ^ 32);
       if it \<noteq> MultiMap_End (free_map mgr)
       then do {
         ie \<leftarrow> arr_get (mm_entries (free_map mgr)) (the it);
         fm \<leftarrow> MultiMap_Erase (free_map mgr) (the it);
         let pptr = pe_page e;
         fm \<leftarrow> MultiMap_Insert fm (num_pages pptr mod 2 ^ 32) pptr;
         Some (kTvmErrorNoError, Some (page_data (ie_page ie), ptr, ps * nat (num_pages pptr)),
           mgr\<lparr>free_map := fm\<rparr>)
       }
       else do {
         let start = int (pt_num_pages (ptable mgr));
         if (start + npage) mod 2 ^ 32 > int (pt_max_pages (ptable mgr))
         then Some (kTvmErrorPlatformNoMemory, None, mgr)
         else do {
           let p = PageCreate (pt_memory_pool (ptable mgr)) ps start npage;
           pt \<leftarrow> PageTable_Resize (ptable mgr) (nat ((start + npage) mod 2 ^ 32)) p;
           t \<leftarrow> TLB_Set (pmap mgr) (page_data p) p;
           e \<leftarrow> arr_get (tlb_entries t) (the entry);
           let pptr = pe_page e;
           fm \<leftarrow> MultiMap_Insert (free_map mgr) (num_pages pptr mod 2 ^ 32) pptr;
           Some (kTvmErrorNoError, Some (page_data p, ptr, ps * nat (num_pages pptr)),
             mgr\<lparr>ptable := pt, pmap := t, free_map := fm\<rparr>)
         }
       }
     }
     else Some (kTvmErrorNoError, None, mgr)
   }"

text \<open>The sizes of the structures on the 32-bit target.\<close>

definition sizeof_Page :: nat where "sizeof_Page = 24"
definition sizeof_PageEntry :: nat where "sizeof_PageEntry = 32"
definition sizeof_IndexedEntry :: nat where "sizeof_IndexedEntry = 32"
definition sizeof_MemoryManager :: nat where "sizeof_MemoryManager = 84"

lemmas sizeof_defs = sizeof_Page_def sizeof_PageEntry_def sizeof_IndexedEntry_def sizeof_MemoryManager_def

definition zero_page :: page where
  "zero_page = \<lparr>ptable_begin = 0, num_pages = 0, page_data = 0\<rparr>"

text \<open>
  The pool is cleared first, so every field and entry that is not set is zero. The results are the
  error code, the address of the manager inside the pool, and the manager.
\<close>

definition PageMemoryManagerCreate ::
    "addr \<Rightarrow> nat \<Rightarrow> nat \<Rightarrow> tvm_crt_error \<times> addr \<times> memory_manager" where
  "PageMemoryManagerCreate memory_pool memory_pool_size_bytes page_size_bytes_log2 =
     (let page_size_bytes = 2 ^ page_size_bytes_log2;
          metadata_bytes_per_page = sizeof_Page + sizeof_PageEntry + sizeof_IndexedEntry;
          bytes_needed_per_page = page_size_bytes + metadata_bytes_per_page;
          n = size_sub memory_pool_size_bytes sizeof_MemoryManager div bytes_needed_per_page;
          metadata_cursor = memory_pool + int (n * page_size_bytes);
          page_at = metadata_cursor + int sizeof_MemoryManager;
          entries_at = page_at + int (sizeof_Page * n);
          free_at = entries_at + int (sizeof_PageEntry * n)
      in (kTvmErrorNoError, metadata_cursor,
          \<lparr>vleak_size = 0,
           ptable = \<lparr>pt_memory_pool = memory_pool, pt_page_size_bytes = page_size_bytes,
             pt_page = replicate n zero_page, pt_page_at = page_at, pt_max_pages = n, pt_num_pages = 0\<rparr>,
           pmap = \<lparr>tlb_entries = replicate n \<lparr>pe_addr = 0, pe_page = zero_page\<rparr>,
             tlb_entries_at = entries_at, tlb_max_pages = n, tlb_num_pages = 0\<rparr>,
           free_map = \<lparr>mm_entries = replicate n \<lparr>ie_index = 0, ie_page = zero_page\<rparr>,
             mm_entries_at = free_at, mm_max_entries = n, mm_num_entries = 0\<rparr>\<rparr>))"

section \<open>The contract of an allocator\<close>

text \<open>
  \<open>inv m live\<close>: the state \<open>m\<close> with the blocks \<open>live\<close>, a map from addresses to sizes. A block that
  is handed out is new, long enough, inside the pool and apart from every live block.
\<close>

definition apart :: "addr \<Rightarrow> nat \<Rightarrow> addr \<Rightarrow> nat \<Rightarrow> bool" where
  "apart a m b n \<longleftrightarrow> a + int m \<le> b \<or> b + int n \<le> a"

locale allocator =
  fixes alloc :: "'m \<Rightarrow> nat \<Rightarrow> (tvm_crt_error \<times> addr \<times> 'm) option"
    and release :: "'m \<Rightarrow> addr \<Rightarrow> (tvm_crt_error \<times> 'm) option"
    and inv :: "'m \<Rightarrow> (addr \<rightharpoonup> nat) \<Rightarrow> bool"
    and low :: "'m \<Rightarrow> addr"
    and high :: "'m \<Rightarrow> addr"
    and fits :: "'m \<Rightarrow> nat \<Rightarrow> bool"
  assumes alloc_ok: "inv m live \<Longrightarrow> fits m n \<Longrightarrow>
      (\<exists>p sz m'. alloc m n = Some (kTvmErrorNoError, p, m') \<and> inv m' (live(p \<mapsto> sz))
         \<and> n \<le> sz \<and> live p = None \<and> low m' = low m \<and> high m' = high m \<and> fits m' = fits m
         \<and> low m \<le> p \<and> p + int sz \<le> high m
         \<and> (\<forall>q k. live q = Some k \<longrightarrow> apart p sz q k))
      \<or> alloc m n = Some (kTvmErrorPlatformNoMemory, 0, m)"
    and release_ok: "inv m live \<Longrightarrow> live p = Some sz \<Longrightarrow>
      \<exists>m'. release m p = Some (kTvmErrorNoError, m') \<and> inv m' (live(p := None))
        \<and> low m' = low m \<and> high m' = high m \<and> fits m' = fits m"
begin

text \<open>
  A client that holds the blocks \<open>bs\<close>: each has an address, the size asked for, and a size in the
  allocator's books.
\<close>

definition holds :: "'m \<Rightarrow> (addr \<times> nat) list \<Rightarrow> bool" where
  "holds m bs \<longleftrightarrow> (\<exists>live. inv m live \<and> distinct (map fst bs) \<and> dom live = fst ` set bs
     \<and> (\<forall>(p, n) \<in> set bs. \<exists>k. live p = Some k \<and> n \<le> k)
     \<and> (\<forall>p q k l. live p = Some k \<longrightarrow> live q = Some l \<longrightarrow> p \<noteq> q \<longrightarrow> apart p k q l)
     \<and> (\<forall>p k. live p = Some k \<longrightarrow> low m \<le> p \<and> p + int k \<le> high m))"

lemma apart_mono: "apart p k q l \<Longrightarrow> k' \<le> k \<Longrightarrow> l' \<le> l \<Longrightarrow> apart p k' q l'"
  by (auto simp: apart_def)

lemma apart_sym: "apart p k q l = apart q l p k"
  by (auto simp: apart_def)

lemma alloc_holds:
  assumes "holds m bs" and "fits m n"
  shows "(\<exists>p m'. alloc m n = Some (kTvmErrorNoError, p, m') \<and> holds m' ((p, n) # bs)
      \<and> low m' = low m \<and> high m' = high m \<and> fits m' = fits m)
    \<or> alloc m n = Some (kTvmErrorPlatformNoMemory, 0, m)"
proof -
  obtain live where live: "inv m live" "distinct (map fst bs)" "dom live = fst ` set bs"
    "\<forall>(p, n) \<in> set bs. \<exists>k. live p = Some k \<and> n \<le> k"
    "\<forall>p q k l. live p = Some k \<longrightarrow> live q = Some l \<longrightarrow> p \<noteq> q \<longrightarrow> apart p k q l"
    "\<forall>p k. live p = Some k \<longrightarrow> low m \<le> p \<and> p + int k \<le> high m"
    using assms(1) unfolding holds_def by blast
  from alloc_ok [OF live(1) assms(2)] show ?thesis
  proof (elim disjE exE conjE)
    fix p sz m'
    assume a: "alloc m n = Some (kTvmErrorNoError, p, m')" "inv m' (live(p \<mapsto> sz))" "n \<le> sz"
      "live p = None" "low m' = low m" "high m' = high m" "fits m' = fits m"
      "low m \<le> p" "p + int sz \<le> high m" "\<forall>q k. live q = Some k \<longrightarrow> apart p sz q k"
    have p: "p \<notin> fst ` set bs"
      using a(4) live(3) by (metis domIff)
    have "holds m' ((p, n) # bs)"
      unfolding holds_def
    proof (intro exI [of _ "live(p \<mapsto> sz)"] conjI)
      show "distinct (map fst ((p, n) # bs))"
        using p live(2) by simp
      show "dom (live(p \<mapsto> sz)) = fst ` set ((p, n) # bs)"
        using live(3) by simp
      show "\<forall>(q, k) \<in> set ((p, n) # bs). \<exists>l. (live(p \<mapsto> sz)) q = Some l \<and> k \<le> l"
        using live(4) p a(3) by (fastforce simp: image_iff)
      show "\<forall>q r k l. (live(p \<mapsto> sz)) q = Some k \<longrightarrow> (live(p \<mapsto> sz)) r = Some l \<longrightarrow> q \<noteq> r \<longrightarrow> apart q k r l"
        using live(5) a(10) by (auto simp: apart_sym)
      show "\<forall>q k. (live(p \<mapsto> sz)) q = Some k \<longrightarrow> low m' \<le> q \<and> q + int k \<le> high m'"
        using live(6) a(5,6,8,9) by auto
    qed (use a(2) in simp)
    then show ?thesis
      using a by blast
  qed blast
qed

lemma release_holds:
  assumes "holds m (bs1 @ (p, n) # bs2)"
  shows "\<exists>m'. release m p = Some (kTvmErrorNoError, m') \<and> holds m' (bs1 @ bs2)
      \<and> low m' = low m \<and> high m' = high m \<and> fits m' = fits m"
proof -
  let ?bs = "bs1 @ (p, n) # bs2"
  obtain live where live: "inv m live" "distinct (map fst ?bs)" "dom live = fst ` set ?bs"
    "\<forall>(p, n) \<in> set ?bs. \<exists>k. live p = Some k \<and> n \<le> k"
    "\<forall>p q k l. live p = Some k \<longrightarrow> live q = Some l \<longrightarrow> p \<noteq> q \<longrightarrow> apart p k q l"
    "\<forall>p k. live p = Some k \<longrightarrow> low m \<le> p \<and> p + int k \<le> high m"
    using assms(1) unfolding holds_def by blast
  obtain k where "live p = Some k"
    using live(4) by auto
  then obtain m' where m': "release m p = Some (kTvmErrorNoError, m')" "inv m' (live(p := None))"
    "low m' = low m" "high m' = high m" "fits m' = fits m"
    using release_ok [OF live(1)] by blast
  have p: "p \<notin> fst ` set (bs1 @ bs2)"
    using live(2) by (auto simp: image_iff)
  have "holds m' (bs1 @ bs2)"
    unfolding holds_def
  proof (intro exI [of _ "live(p := None)"] conjI)
    show "distinct (map fst (bs1 @ bs2))"
      using live(2) by auto
    show "dom (live(p := None)) = fst ` set (bs1 @ bs2)"
      using live(3) p by auto
    show "\<forall>(q, k) \<in> set (bs1 @ bs2). \<exists>l. (live(p := None)) q = Some l \<and> k \<le> l"
    proof (clarify)
      fix q k
      assume q: "(q, k) \<in> set (bs1 @ bs2)"
      then have "q \<noteq> p"
        using p by force
      moreover have "\<exists>l. live q = Some l \<and> k \<le> l"
        using bspec [OF live(4), of "(q, k)"] q by auto
      ultimately show "\<exists>l. (live(p := None)) q = Some l \<and> k \<le> l"
        by simp
    qed
    show "\<forall>q r k l. (live(p := None)) q = Some k \<longrightarrow> (live(p := None)) r = Some l \<longrightarrow> q \<noteq> r \<longrightarrow> apart q k r l"
      using live(5) by auto
    show "\<forall>q k. (live(p := None)) q = Some k \<longrightarrow> low m' \<le> q \<and> q + int k \<le> high m'"
      using live(6) m'(3,4) by auto
  qed (use m'(2) in simp)
  then show ?thesis
    using m' by blast
qed

end

text \<open>
  A client as a list of requests: a block of a size, or the release of the \<open>i\<close>-th block it holds.
  The result is the allocator and the blocks held, with the sizes asked for.
\<close>

datatype request = Get nat | Give nat

fun client ::
    "('m \<Rightarrow> nat \<Rightarrow> (tvm_crt_error \<times> addr \<times> 'm) option) \<Rightarrow> ('m \<Rightarrow> addr \<Rightarrow> (tvm_crt_error \<times> 'm) option)
     \<Rightarrow> 'm \<Rightarrow> (addr \<times> nat) list \<Rightarrow> request list \<Rightarrow> ('m \<times> (addr \<times> nat) list) option" where
  "client alloc release m bs [] = Some (m, bs)"
| "client alloc release m bs (Get n # rs) = do {
     (e, p, m) \<leftarrow> alloc m n;
     client alloc release m (if e = kTvmErrorNoError then (p, n) # bs else bs) rs
   }"
| "client alloc release m bs (Give i # rs) =
     (if i < length bs then do {
        (e, m) \<leftarrow> release m (fst (bs ! i));
        client alloc release m (take i bs @ drop (Suc i) bs) rs
      }
      else client alloc release m bs rs)"

context allocator
begin

lemma client_ok:
  "holds m bs \<Longrightarrow> (\<forall>n. Get n \<in> set rs \<longrightarrow> fits m n) \<Longrightarrow>
   \<exists>m' bs'. client alloc release m bs rs = Some (m', bs') \<and> holds m' bs' \<and> low m' = low m \<and> high m' = high m"
proof (induction rs arbitrary: m bs)
  case Nil
  then show ?case by simp
next
  case (Cons r rs)
  show ?case
  proof (cases r)
    case (Get n)
    then have "fits m n"
      using Cons.prems(2) by simp
    from alloc_holds [OF Cons.prems(1) this] show ?thesis
    proof (elim disjE exE conjE)
      fix p m'
      assume a: "alloc m n = Some (kTvmErrorNoError, p, m')" "holds m' ((p, n) # bs)"
        "low m' = low m" "high m' = high m" "fits m' = fits m"
      then show ?thesis
        using Cons.IH [OF a(2)] Cons.prems(2) Get by simp
    next
      assume "alloc m n = Some (kTvmErrorPlatformNoMemory, 0, m)"
      then show ?thesis
        using Cons.IH [OF Cons.prems(1)] Cons.prems(2) Get by simp
    qed
  next
    case (Give i)
    show ?thesis
    proof (cases "i < length bs")
      case True
      then have "bs = take i bs @ (fst (bs ! i), snd (bs ! i)) # drop (Suc i) bs"
        unfolding prod.collapse by (rule id_take_nth_drop)
      then obtain m' where "release m (fst (bs ! i)) = Some (kTvmErrorNoError, m')"
        "holds m' (take i bs @ drop (Suc i) bs)" "low m' = low m" "high m' = high m" "fits m' = fits m"
        using release_holds [of m "take i bs" "fst (bs ! i)" "snd (bs ! i)" "drop (Suc i) bs"] Cons.prems(1)
        by metis
      then show ?thesis
        using Cons.IH [of m' "take i bs @ drop (Suc i) bs"] Cons.prems(2) True Give by auto
    next
      case False
      then show ?thesis
        using Cons.IH [OF Cons.prems(1)] Cons.prems(2) Give by auto
    qed
  qed
qed

text \<open>The blocks a client holds are inside the pool and apart from each other.\<close>

lemma holds_apart:
  assumes "holds m bs"
  shows "\<forall>i < length bs. low m \<le> fst (bs ! i) \<and> fst (bs ! i) + int (snd (bs ! i)) \<le> high m"
    and "\<forall>i < length bs. \<forall>j < length bs. i \<noteq> j \<longrightarrow>
      apart (fst (bs ! i)) (snd (bs ! i)) (fst (bs ! j)) (snd (bs ! j))"
proof -
  obtain live where live: "distinct (map fst bs)"
    "\<forall>(p, n) \<in> set bs. \<exists>k. live p = Some k \<and> n \<le> k"
    "\<forall>p q k l. live p = Some k \<longrightarrow> live q = Some l \<longrightarrow> p \<noteq> q \<longrightarrow> apart p k q l"
    "\<forall>p k. live p = Some k \<longrightarrow> low m \<le> p \<and> p + int k \<le> high m"
    using assms(1) unfolding holds_def by blast
  have ith: "\<exists>k. live (fst (bs ! i)) = Some k \<and> snd (bs ! i) \<le> k" if "i < length bs" for i
    using live(2) nth_mem [OF that] by (auto simp: case_prod_beta)
  show "\<forall>i < length bs. low m \<le> fst (bs ! i) \<and> fst (bs ! i) + int (snd (bs ! i)) \<le> high m"
    using ith live(4) by fastforce
  show "\<forall>i < length bs. \<forall>j < length bs. i \<noteq> j \<longrightarrow>
      apart (fst (bs ! i)) (snd (bs ! i)) (fst (bs ! j)) (snd (bs ! j))"
  proof (intro allI impI)
    fix i j
    assume ij: "i < length bs" "j < length bs" "i \<noteq> j"
    then have ne: "fst (bs ! i) \<noteq> fst (bs ! j)"
      using live(1) by (metis distinct_conv_nth length_map nth_map)
    obtain k l where "live (fst (bs ! i)) = Some k" "snd (bs ! i) \<le> k"
      "live (fst (bs ! j)) = Some l" "snd (bs ! j) \<le> l"
      using ith ij by blast
    then show "apart (fst (bs ! i)) (snd (bs ! i)) (fst (bs ! j)) (snd (bs ! j))"
      using live(3) ne apart_mono by blast
  qed
qed

end

section \<open>The arrays\<close>

lemma find_from_spec:
  "idx + n \<le> length xs \<Longrightarrow>
   (find_from P xs idx n = Some None \<and> (\<forall>i. idx \<le> i \<longrightarrow> i < idx + n \<longrightarrow> \<not> P (xs ! i)))
   \<or> (\<exists>i. find_from P xs idx n = Some (Some i) \<and> idx \<le> i \<and> i < idx + n \<and> P (xs ! i))"
proof (induction n arbitrary: idx)
  case 0
  then show ?case by simp
next
  case (Suc n)
  then have "idx < length xs" "Suc idx + n \<le> length xs"
    by simp_all
  then show ?case
    using Suc.IH [of "Suc idx"] by (cases "P (xs ! idx)") (auto, metis le_neq_implies_less less_eq_Suc_le)
qed

lemma shift_down_spec:
  "1 \<le> src \<Longrightarrow> src \<le> n \<Longrightarrow> n \<le> length xs \<Longrightarrow>
   \<exists>ys. shift_down xs src n = Some ys \<and> length ys = length xs
     \<and> take (n - 1) ys = take (src - 1) xs @ take (n - src) (drop src xs)"
proof (induction xs src n rule: shift_down.induct)
  case (1 xs src n)
  show ?case
  proof (cases "src < n")
    case False
    then show ?thesis
      using "1.prems" by (simp add: shift_down.simps)
  next
    case True
    then have g: "arr_get xs src = Some (xs ! src)" "arr_set xs (src - 1) (xs ! src) = Some (xs[src - 1 := xs ! src])"
      using "1.prems" by simp_all
    from "1.IH" [OF True g] "1.prems" True
    obtain ys where ys: "shift_down (xs[src - 1 := xs ! src]) (src + 1) n = Some ys" "length ys = length xs"
      "take (n - 1) ys = take src (xs[src - 1 := xs ! src]) @ take (n - (src + 1)) (drop (src + 1) (xs[src - 1 := xs ! src]))"
      by auto
    have a: "take src (xs[src - 1 := xs ! src]) = take (src - 1) xs @ [xs ! src]"
      using "1.prems" True by (cases src) (simp_all add: take_Suc_conv_app_nth)
    have b: "take (n - src) (drop src xs) = xs ! src # take (n - (src + 1)) (drop (src + 1) xs)"
      using "1.prems" True by (subst Cons_nth_drop_Suc [symmetric]) (auto simp: take_Cons' Suc_diff_Suc)
    have c: "drop (src + 1) (xs[src - 1 := xs ! src]) = drop (src + 1) xs"
      using "1.prems" by simp
    show ?thesis
      using ys g True a b c by (intro exI [of _ ys]) (simp add: shift_down.simps [of xs src n])
  qed
qed

lemma PageTable_fill_ok:
  "idx + n \<le> length ps \<Longrightarrow> \<exists>qs. PageTable_fill ps idx n p = Some qs \<and> length qs = length ps"
proof (induction n arbitrary: ps idx)
  case 0
  then show ?case by simp
next
  case (Suc n)
  then show ?case
    using Suc.IH [of "Suc idx" "ps[idx := p]"] by simp
qed

lemma MultiMap_store_ok:
  "i < length es \<Longrightarrow> 0 < n \<Longrightarrow> MultiMap_store es i n e = Some (es[i := e])"
proof (induction n arbitrary: es)
  case 0
  then show ?case by simp
next
  case (Suc n)
  then show ?case
    using Suc.IH [of "es[i := e]"] by (cases n) simp_all
qed

section \<open>The pages tile the pool\<close>

text \<open>The pages of a list, in order, fill the table from page \<open>b\<close> to page \<open>e\<close>.\<close>

fun tiles :: "addr \<Rightarrow> nat \<Rightarrow> nat \<Rightarrow> page list \<Rightarrow> nat \<Rightarrow> bool" where
  "tiles pool ps b [] e \<longleftrightarrow> e = b"
| "tiles pool ps b (p # qs) e \<longleftrightarrow>
     (\<exists>k > 0. p = PageCreate pool ps (int b) (int k) \<and> tiles pool ps (b + k) qs e)"

definition block_size :: "nat \<Rightarrow> page \<Rightarrow> nat" where
  "block_size ps p = nat (num_pages p) * ps"

lemma tiles_append: "tiles pool ps b (xs @ ys) e \<longleftrightarrow> (\<exists>m. tiles pool ps b xs m \<and> tiles pool ps m ys e)"
  by (induction xs arbitrary: b) auto

lemma tiles_le: "tiles pool ps b xs e \<Longrightarrow> b + length xs \<le> e"
  by (induction xs arbitrary: b) fastforce+

lemma tiles_range:
  "tiles pool ps b xs e \<Longrightarrow> p \<in> set xs \<Longrightarrow>
   \<exists>c k. 0 < k \<and> b \<le> c \<and> c + k \<le> e \<and> p = PageCreate pool ps (int c) (int k)"
proof (induction xs arbitrary: b)
  case Nil
  then show ?case by simp
next
  case (Cons q xs)
  then obtain k where k: "0 < k" "q = PageCreate pool ps (int b) (int k)" "tiles pool ps (b + k) xs e"
    by auto
  show ?case
  proof (cases "p = q")
    case True
    then show ?thesis
      using k tiles_le [OF k(3)] by (intro exI [of _ b] exI [of _ k]) simp
  next
    case False
    then have "p \<in> set xs"
      using Cons.prems(2) by simp
    then obtain c l where "0 < l" "b + k \<le> c" "c + l \<le> e" "p = PageCreate pool ps (int c) (int l)"
      using Cons.IH [OF k(3)] by blast
    then show ?thesis
      by (intro exI [of _ c] exI [of _ l]) simp
  qed
qed

lemma PageCreate_simps [simp]:
  "ptable_begin (PageCreate pool ps b k) = b" "num_pages (PageCreate pool ps b k) = k"
  "page_data (PageCreate pool ps b k) = pool + b * int ps"
  "block_size ps (PageCreate pool ps b (int n)) = n * ps"
  by (simp_all add: PageCreate_def block_size_def)

lemma tiles_apart:
  "tiles pool ps b xs e \<Longrightarrow> p \<in> set xs \<Longrightarrow> q \<in> set xs \<Longrightarrow> p \<noteq> q \<Longrightarrow>
   apart (page_data p) (block_size ps p) (page_data q) (block_size ps q)"
proof (induction xs arbitrary: b)
  case Nil
  then show ?case by simp
next
  case (Cons r xs)
  then obtain k where k: "0 < k" "r = PageCreate pool ps (int b) (int k)" "tiles pool ps (b + k) xs e"
    by auto
  have head: "page_data r + int (block_size ps r) \<le> page_data s" if s: "s \<in> set xs" for s
  proof -
    obtain c l where "b + k \<le> c" "s = PageCreate pool ps (int c) (int l)"
      using tiles_range [OF k(3) s] by blast
    then show ?thesis
      using k(2) mult_right_mono [of "int b + int k" "int c" "int ps"] by (simp add: algebra_simps)
  qed
  show ?case
    using Cons.IH [OF k(3)] Cons.prems(2-4) head by (auto simp: apart_def)
qed

lemma tiles_data_distinct:
  "tiles pool ps b xs e \<Longrightarrow> 0 < ps \<Longrightarrow> distinct (map page_data xs)"
proof (induction xs arbitrary: b)
  case Nil
  then show ?case by simp
next
  case (Cons r xs)
  then obtain k where k: "0 < k" "r = PageCreate pool ps (int b) (int k)" "tiles pool ps (b + k) xs e"
    by auto
  have "page_data r < page_data s" if s: "s \<in> set xs" for s
  proof -
    obtain c l where "b + k \<le> c" "s = PageCreate pool ps (int c) (int l)"
      using tiles_range [OF k(3) s] by blast
    then show ?thesis
      using k(1,2) Cons.prems(2) by simp
  qed
  then show ?case
    using Cons.IH [OF k(3) Cons.prems(2)] by fastforce
qed

lemma tiles_data_inj:
  "tiles pool ps b xs e \<Longrightarrow> 0 < ps \<Longrightarrow> p \<in> set xs \<Longrightarrow> q \<in> set xs \<Longrightarrow> page_data p = page_data q \<Longrightarrow> p = q"
  using tiles_data_distinct by (metis distinct_map inj_onD)

section \<open>The page allocator keeps the contract\<close>

definition tlb_pages :: "memory_manager \<Rightarrow> page list" where
  "tlb_pages mgr = map pe_page (take (tlb_num_pages (pmap mgr)) (tlb_entries (pmap mgr)))"

definition free_pages :: "memory_manager \<Rightarrow> page list" where
  "free_pages mgr = map ie_page (take (mm_num_entries (free_map mgr)) (mm_entries (free_map mgr)))"

abbreviation page_size :: "memory_manager \<Rightarrow> nat" where
  "page_size mgr \<equiv> pt_page_size_bytes (ptable mgr)"

definition pm_wf :: "memory_manager \<Rightarrow> bool" where
  "pm_wf mgr \<longleftrightarrow>
     (let n = pt_max_pages (ptable mgr)
      in 2 \<le> page_size mgr \<and> n < 2 ^ 31 \<and> pt_num_pages (ptable mgr) \<le> n
       \<and> length (pt_page (ptable mgr)) = n \<and> length (tlb_entries (pmap mgr)) = n
       \<and> length (mm_entries (free_map mgr)) = n \<and> mm_max_entries (free_map mgr) = n
       \<and> tlb_num_pages (pmap mgr) \<le> n \<and> mm_num_entries (free_map mgr) \<le> n
       \<and> (\<forall>i < tlb_num_pages (pmap mgr). pe_addr (tlb_entries (pmap mgr) ! i)
            = page_data (pe_page (tlb_entries (pmap mgr) ! i)))
       \<and> (\<forall>i < mm_num_entries (free_map mgr). ie_index (mm_entries (free_map mgr) ! i)
            = num_pages (ie_page (mm_entries (free_map mgr) ! i)))
       \<and> tiles (pt_memory_pool (ptable mgr)) (page_size mgr) 0 (tlb_pages mgr) (pt_num_pages (ptable mgr))
       \<and> distinct (free_pages mgr) \<and> set (free_pages mgr) \<subseteq> set (tlb_pages mgr)
       \<and> vleak_size mgr = int (length (tlb_pages mgr)) - int (length (free_pages mgr)))"

text \<open>The blocks handed out are the pages of the table that are not free.\<close>

definition pm_inv :: "memory_manager \<Rightarrow> (addr \<rightharpoonup> nat) \<Rightarrow> bool" where
  "pm_inv mgr live \<longleftrightarrow> pm_wf mgr
     \<and> (\<forall>a k. live a = Some k \<longleftrightarrow> (\<exists>p. p \<in> set (tlb_pages mgr) \<and> p \<notin> set (free_pages mgr)
          \<and> page_data p = a \<and> block_size (page_size mgr) p = k))"

definition pm_low :: "memory_manager \<Rightarrow> addr" where
  "pm_low mgr = pt_memory_pool (ptable mgr)"

definition pm_high :: "memory_manager \<Rightarrow> addr" where
  "pm_high mgr = pt_memory_pool (ptable mgr) + int (pt_max_pages (ptable mgr) * page_size mgr)"

definition pm_fits :: "memory_manager \<Rightarrow> nat \<Rightarrow> bool" where
  "pm_fits mgr n \<longleftrightarrow> 0 < n \<and> n + page_size mgr - 1 < 2 ^ 32"

lemma pages_needed_bounds:
  assumes "pm_fits mgr n" and "2 \<le> page_size mgr"
  obtains k where "pages_needed mgr n = int k" "0 < k" "n \<le> k * page_size mgr" "k < 2 ^ 31"
proof -
  let ?ps = "page_size mgr" and ?k = "(n + page_size mgr - 1) div page_size mgr"
  have "pages_needed mgr n = int ?k"
    using assms by (simp add: pages_needed_def pm_fits_def)
  moreover have "0 < ?k"
  proof -
    have "?ps \<le> n + ?ps - 1"
      using assms unfolding pm_fits_def by linarith
    then show ?thesis
      using assms(2) by (simp add: div_greater_zero_iff)
  qed
  moreover have "n \<le> ?k * ?ps"
  proof -
    have "n + ?ps - 1 < (?k + 1) * ?ps"
      using assms dividend_less_div_times [of ?ps "n + ?ps - 1"] by simp
    then show ?thesis
      using assms by (simp add: algebra_simps)
  qed
  moreover have "?k < 2 ^ 31"
  proof -
    have "?k * 2 \<le> ?k * ?ps"
      using assms by simp
    also have "\<dots> \<le> n + ?ps - 1"
      by simp
    finally show ?thesis
      using assms by (simp add: pm_fits_def)
  qed
  ultimately show thesis
    by (rule that)
qed

lemma pm_page_range:
  assumes "pm_wf mgr" and "p \<in> set (tlb_pages mgr)"
  shows "pm_low mgr \<le> page_data p" "page_data p + int (block_size (page_size mgr) p) \<le> pm_high mgr"
    "0 < num_pages p"
proof -
  obtain c k where ck: "0 < k" "c + k \<le> pt_num_pages (ptable mgr)"
    "p = PageCreate (pt_memory_pool (ptable mgr)) (page_size mgr) (int c) (int k)"
    using assms tiles_range unfolding pm_wf_def Let_def by blast
  then show "pm_low mgr \<le> page_data p" "0 < num_pages p"
    by (simp_all add: pm_low_def)
  have "c + k \<le> pt_max_pages (ptable mgr)"
    using ck(2) assms(1) by (simp add: pm_wf_def Let_def)
  then have "(c + k) * page_size mgr \<le> pt_max_pages (ptable mgr) * page_size mgr"
    by (rule mult_le_mono1)
  then have "int ((c + k) * page_size mgr) \<le> int (pt_max_pages (ptable mgr) * page_size mgr)"
    by (rule zle_int [THEN iffD2])
  then show "page_data p + int (block_size (page_size mgr) p) \<le> pm_high mgr"
    using ck(3) by (simp add: pm_high_def algebra_simps)
qed

lemma TLB_Find_page:
  assumes "pm_wf mgr" and "p \<in> set (tlb_pages mgr)"
  obtains i where "TLB_Find (pmap mgr) (page_data p) = Some (Some i)" "i < length (tlb_entries (pmap mgr))"
    "pe_page (tlb_entries (pmap mgr) ! i) = p" "tlb_num_pages (pmap mgr) \<noteq> 0"
proof -
  let ?es = "tlb_entries (pmap mgr)" and ?n = "tlb_num_pages (pmap mgr)"
  have wf: "?n \<le> length ?es" "\<forall>i < ?n. pe_addr (?es ! i) = page_data (pe_page (?es ! i))"
    "0 < page_size mgr"
    "tiles (pt_memory_pool (ptable mgr)) (page_size mgr) 0 (tlb_pages mgr) (pt_num_pages (ptable mgr))"
    using assms(1) by (simp_all add: pm_wf_def Let_def)
  obtain j where j: "j < ?n" "pe_page (?es ! j) = p"
    using assms(2) wf(1) by (auto simp: tlb_pages_def in_set_conv_nth)
  obtain i where i: "TLB_Find (pmap mgr) (page_data p) = Some (Some i)" "i < ?n" "pe_addr (?es ! i) = page_data p"
    using find_from_spec [of 0 ?n ?es "\<lambda>e. pe_addr e = page_data p"] wf(1,2) j
    by (auto simp: TLB_Find_def)
  have "pe_page (?es ! i) \<in> set (tlb_pages mgr)"
    using nth_mem [of i "tlb_pages mgr"] i(2) wf(1) by (simp add: tlb_pages_def)
  then have "pe_page (?es ! i) = p"
    using tiles_data_inj [OF wf(4,3)] assms(2) i(2,3) wf(2) by auto
  then show thesis
    using i wf(1) by (intro that [of i]) auto
qed

lemma PageMemoryManager_Free_ok:
  assumes inv: "pm_inv mgr live" and "live ptr = Some sz"
  shows "\<exists>mgr'. PageMemoryManager_Free mgr ptr = Some (kTvmErrorNoError, mgr')
    \<and> pm_inv mgr' (live(ptr := None)) \<and> pm_low mgr' = pm_low mgr \<and> pm_high mgr' = pm_high mgr
    \<and> pm_fits mgr' = pm_fits mgr"
proof -
  obtain p where p: "p \<in> set (tlb_pages mgr)" "p \<notin> set (free_pages mgr)" "page_data p = ptr"
    using assms unfolding pm_inv_def by blast
  have wf: "pm_wf mgr"
    using inv by (simp add: pm_inv_def)
  let ?fm = "free_map mgr"
  let ?n = "mm_num_entries ?fm" and ?e = "\<lparr>ie_index = num_pages p, ie_page = p\<rparr>"
  note w = wf [unfolded pm_wf_def Let_def]
  obtain i where i: "TLB_Find (pmap mgr) (page_data p) = Some (Some i)" "i < length (tlb_entries (pmap mgr))"
    "pe_page (tlb_entries (pmap mgr) ! i) = p" "tlb_num_pages (pmap mgr) \<noteq> 0"
    using TLB_Find_page [OF wf p(1)] .
  have "card (set (free_pages mgr)) < card (set (tlb_pages mgr))"
    using w p by (intro psubset_card_mono) auto
  also have "\<dots> \<le> length (tlb_pages mgr)"
    by (rule card_length)
  also have "\<dots> \<le> length (mm_entries ?fm)"
    using w by (simp add: tlb_pages_def)
  finally have room: "?n < length (mm_entries ?fm)"
    using w distinct_card [of "free_pages mgr"] by (simp add: free_pages_def min_def split: if_splits)
  let ?fm' = "?fm\<lparr>mm_entries := (mm_entries ?fm)[?n := ?e], mm_num_entries := ?n + 1\<rparr>"
  have "MultiMap_Insert ?fm (num_pages p) p = Some ?fm'"
    using room w pm_page_range(3) [OF wf p(1)] by (simp add: MultiMap_Insert_def MultiMap_store_ok)
  then have free: "PageMemoryManager_Free mgr ptr
      = Some (kTvmErrorNoError, mgr\<lparr>free_map := ?fm', vleak_size := vleak_size mgr - 1\<rparr>)"
    using i p(3) by (simp add: PageMemoryManager_Free_def)
  let ?m = "mgr\<lparr>free_map := ?fm', vleak_size := vleak_size mgr - 1\<rparr>"
  have T: "tlb_pages ?m = tlb_pages mgr" and F: "free_pages ?m = free_pages mgr @ [p]"
    using room by (simp_all add: tlb_pages_def free_pages_def take_Suc_conv_app_nth)
  have "pm_wf ?m"
    unfolding pm_wf_def Let_def T F using w p room by (auto simp: nth_list_update)
  moreover have "(live(ptr := None)) a = Some k \<longleftrightarrow> (\<exists>q. q \<in> set (tlb_pages ?m) \<and> q \<notin> set (free_pages ?m)
          \<and> page_data q = a \<and> block_size (page_size ?m) q = k)" for a k
  proof -
    have "0 < page_size mgr" "tiles (pt_memory_pool (ptable mgr)) (page_size mgr) 0 (tlb_pages mgr) (pt_num_pages (ptable mgr))"
      using w by simp_all
    note inj = tiles_data_inj [OF this(2,1)]
    show ?thesis
    proof (cases "a = ptr")
      case True
      then have "q = p" if "q \<in> set (tlb_pages mgr)" "page_data q = a" for q
        using inj [OF that(1) p(1)] that(2) p(3) by simp
      then show ?thesis
        unfolding T F using True by auto
    next
      case False
      have "live a = Some k \<longleftrightarrow> (\<exists>q. q \<in> set (tlb_pages mgr) \<and> q \<notin> set (free_pages mgr)
          \<and> page_data q = a \<and> block_size (page_size mgr) q = k)"
        using inv by (simp add: pm_inv_def)
      then show ?thesis
        unfolding T F using False p(3) by auto
    qed
  qed
  ultimately have "pm_inv ?m (live(ptr := None))"
    unfolding pm_inv_def by blast
  then show ?thesis
    using free by (intro exI [of _ ?m]) (simp add: pm_low_def pm_high_def pm_fits_def fun_eq_iff)
qed

lemma pm_inv_apart:
  assumes "pm_inv mgr live" and "live a = Some k" and "p \<in> set (tlb_pages mgr)" and "page_data p \<noteq> a"
  shows "apart (page_data p) (block_size (page_size mgr) p) a k"
proof -
  obtain q where q: "q \<in> set (tlb_pages mgr)" "page_data q = a" "block_size (page_size mgr) q = k"
    using assms(1,2) unfolding pm_inv_def by blast
  have "tiles (pt_memory_pool (ptable mgr)) (page_size mgr) 0 (tlb_pages mgr) (pt_num_pages (ptable mgr))"
    using assms(1) by (simp add: pm_inv_def pm_wf_def Let_def)
  then show ?thesis
    using tiles_apart [OF _ assms(3) q(1)] assms(4) q(2,3) by auto
qed

text \<open>The allocator takes a page off the free list, \<dots>\<close>

lemma Allocate_reuse_ok:
  assumes inv: "pm_inv mgr live" and n: "pages_needed mgr n = int k" "n \<le> k * page_size mgr"
    and it: "MultiMap_LowerBound (free_map mgr) (int k) = Some (Some i)" "i < mm_num_entries (free_map mgr)"
      "int k \<le> ie_index (mm_entries (free_map mgr) ! i)"
  shows "\<exists>p sz mgr'. PageMemoryManager_Allocate mgr n = Some (kTvmErrorNoError, p, mgr')
    \<and> pm_inv mgr' (live(p \<mapsto> sz)) \<and> n \<le> sz \<and> live p = None
    \<and> pm_low mgr' = pm_low mgr \<and> pm_high mgr' = pm_high mgr \<and> pm_fits mgr' = pm_fits mgr
    \<and> pm_low mgr \<le> p \<and> p + int sz \<le> pm_high mgr \<and> (\<forall>q l. live q = Some l \<longrightarrow> apart p sz q l)"
proof -
  have wf: "pm_wf mgr"
    using inv by (simp add: pm_inv_def)
  note w = wf [unfolded pm_wf_def Let_def]
  let ?fm = "free_map mgr" and ?F = "free_pages mgr"
  let ?es = "mm_entries ?fm" and ?n = "mm_num_entries ?fm"
  let ?p = "ie_page (?es ! i)"
  have lenF: "length ?F = ?n" and Fi: "?F ! i = ?p"
    using w it(2) by (simp_all add: free_pages_def)
  then have pF: "?p \<in> set ?F"
    using it(2) nth_mem [of i ?F] by simp
  then have pT: "?p \<in> set (tlb_pages mgr)"
    using w by blast
  obtain es' where es': "shift_down ?es (i + 1) ?n = Some es'" "length es' = length ?es"
    "take (?n - 1) es' = take i ?es @ take (?n - (i + 1)) (drop (i + 1) ?es)"
    using shift_down_spec [of "i + 1" ?n ?es] it(2) w by auto
  let ?fm' = "?fm\<lparr>mm_entries := es', mm_num_entries := ?n - 1\<rparr>"
  let ?m = "mgr\<lparr>free_map := ?fm', vleak_size := vleak_size mgr + 1\<rparr>"
  have alloc: "PageMemoryManager_Allocate mgr n = Some (kTvmErrorNoError, page_data ?p, ?m)"
    using n(1) it es' w by (simp add: PageMemoryManager_Allocate_def MultiMap_End_def MultiMap_Erase_def)
  have T: "tlb_pages ?m = tlb_pages mgr"
    by (simp add: tlb_pages_def)
  have F: "free_pages ?m = take i ?F @ drop (Suc i) ?F"
    using es'(3) it(2) w by (simp add: free_pages_def take_map drop_map drop_take min_def)
  have Feq: "?F = take i ?F @ ?p # drop (Suc i) ?F"
    using id_take_nth_drop [of i ?F] it(2) lenF Fi by simp
  then have dist: "distinct (take i ?F @ ?p # drop (Suc i) ?F)" and set: "set ?F = insert ?p (set (free_pages ?m))"
    using w F by (metis, metis list.simps(15) set_append Un_insert_right)
  have pF': "?p \<notin> set (free_pages ?m)"
    using dist F by simp
  have "pm_wf ?m"
    unfolding pm_wf_def Let_def T
  proof (intro conjI)
    show "\<forall>j < mm_num_entries (free_map ?m). ie_index (mm_entries (free_map ?m) ! j)
        = num_pages (ie_page (mm_entries (free_map ?m) ! j))"
    proof (intro allI impI)
      fix j assume "j < mm_num_entries (free_map ?m)"
      then have j: "j < ?n - 1"
        by simp
      then have "es' ! j = (take (?n - 1) es') ! j"
        by simp
      also have "\<dots> = (if j < i then ?es ! j else ?es ! Suc j)"
        using j it(2) w unfolding es'(3) by (simp add: nth_append min_def)
      finally show "ie_index (mm_entries (free_map ?m) ! j) = num_pages (ie_page (mm_entries (free_map ?m) ! j))"
        using w j by (auto split: if_splits)
    qed
    show "distinct (free_pages ?m)"
      using dist F by simp
    show "set (free_pages ?m) \<subseteq> set (tlb_pages mgr)"
      using set w by auto
    show "vleak_size ?m = int (length (tlb_pages mgr)) - int (length (free_pages ?m))"
    proof -
      have "length (free_pages ?m) = ?n - 1"
        unfolding F using it(2) lenF by simp
      moreover have "vleak_size mgr = int (length (tlb_pages mgr)) - int ?n" "vleak_size ?m = vleak_size mgr + 1"
        using w lenF by simp_all
      ultimately show ?thesis
        using it(2) by linarith
    qed
    have "?n \<le> pt_max_pages (ptable mgr)"
      using w by simp
    then have "?n - 1 \<le> pt_max_pages (ptable mgr)"
      by linarith
    then show "mm_num_entries (free_map ?m) \<le> pt_max_pages (ptable ?m)"
      by simp
  qed (use w es'(2) it(2) in simp_all)
  moreover have inj: "q = ?p" if "q \<in> set (tlb_pages mgr)" "page_data q = page_data ?p" for q
    using tiles_data_inj [of "pt_memory_pool (ptable mgr)" "page_size mgr" 0 "tlb_pages mgr"
        "pt_num_pages (ptable mgr)" q ?p] that pT w by auto
  have live: "live a = Some l \<longleftrightarrow> (\<exists>q. q \<in> set (tlb_pages mgr) \<and> q \<notin> set ?F
      \<and> page_data q = a \<and> block_size (page_size mgr) q = l)" for a l
    using inv by (simp add: pm_inv_def)
  moreover have "(live(page_data ?p \<mapsto> block_size (page_size mgr) ?p)) a = Some l
      \<longleftrightarrow> (\<exists>q. q \<in> set (tlb_pages ?m) \<and> q \<notin> set (free_pages ?m)
          \<and> page_data q = a \<and> block_size (page_size ?m) q = l)" for a l
  proof (cases "a = page_data ?p")
    case True
    then show ?thesis
      unfolding T using pT pF' inj by auto
  next
    case False
    then show ?thesis
      unfolding T using live [of a l] set by auto
  qed
  ultimately have inv': "pm_inv ?m (live(page_data ?p \<mapsto> block_size (page_size mgr) ?p))"
    unfolding pm_inv_def by blast
  have none: "live (page_data ?p) = None"
    using live [of "page_data ?p"] inj pF by (cases "live (page_data ?p)") auto
  have "int k \<le> num_pages ?p"
    using it(2,3) w by auto
  then have "k \<le> nat (num_pages ?p)"
    by linarith
  then have "n \<le> block_size (page_size mgr) ?p"
    unfolding block_size_def by (rule order_trans [OF n(2) mult_le_mono1])
  moreover have "apart (page_data ?p) (block_size (page_size mgr) ?p) q l" if "live q = Some l" for q l
    by (rule pm_inv_apart [OF inv that pT]) (use that none in auto)
  ultimately show ?thesis
    using alloc inv' none pm_page_range(1,2) [OF wf pT]
    by (intro exI [of _ "page_data ?p"] exI [of _ "block_size (page_size mgr) ?p"] exI [of _ ?m])
      (simp add: pm_low_def pm_high_def pm_fits_def fun_eq_iff)
qed

text \<open>\<dots> or opens a new one.\<close>

lemma live_extend:
  assumes "\<forall>a l. live a = Some l \<longleftrightarrow> (\<exists>q. q \<in> T \<and> q \<notin> F \<and> d q = a \<and> b q = l)"
    and "\<And>q. q \<in> T \<Longrightarrow> d q \<noteq> d p" and "p \<notin> F"
  shows "\<forall>a l. (live(d p \<mapsto> b p)) a = Some l
    \<longleftrightarrow> (\<exists>q. q \<in> insert p T \<and> q \<notin> F \<and> d q = a \<and> b q = l)"
proof (intro allI)
  fix a l
  show "(live(d p \<mapsto> b p)) a = Some l
    \<longleftrightarrow> (\<exists>q. q \<in> insert p T \<and> q \<notin> F \<and> d q = a \<and> b q = l)"
  proof (cases "a = d p")
    case True
    then show ?thesis
      using assms(2,3) by auto
  next
    case False
    then show ?thesis
      using assms(1) by auto
  qed
qed

lemma Allocate_fresh_ok:
  assumes inv: "pm_inv mgr live" and n: "pages_needed mgr n = int k" "n \<le> k * page_size mgr" "0 < k" "k < 2 ^ 31"
    and it: "MultiMap_LowerBound (free_map mgr) (int k) = Some None"
  shows "(\<exists>p sz mgr'. PageMemoryManager_Allocate mgr n = Some (kTvmErrorNoError, p, mgr')
    \<and> pm_inv mgr' (live(p \<mapsto> sz)) \<and> n \<le> sz \<and> live p = None
    \<and> pm_low mgr' = pm_low mgr \<and> pm_high mgr' = pm_high mgr \<and> pm_fits mgr' = pm_fits mgr
    \<and> pm_low mgr \<le> p \<and> p + int sz \<le> pm_high mgr \<and> (\<forall>q l. live q = Some l \<longrightarrow> apart p sz q l))
    \<or> PageMemoryManager_Allocate mgr n = Some (kTvmErrorPlatformNoMemory, 0, mgr)"
proof -
  have wf: "pm_wf mgr"
    using inv by (simp add: pm_inv_def)
  note w = wf [unfolded pm_wf_def Let_def]
  let ?pt = "ptable mgr" and ?t = "pmap mgr"
  let ?start = "pt_num_pages ?pt" and ?pool = "pt_memory_pool ?pt" and ?ps = "page_size mgr"
  let ?T = "tlb_pages mgr" and ?n = "tlb_num_pages ?t"
  have mod: "(int ?start + int k) mod 2 ^ 32 = int (?start + k)"
    using w n(4) by simp
  show ?thesis
  proof (cases "?start + k \<le> pt_max_pages ?pt")
    case False
    then have "int (?start + k) > int (pt_max_pages ?pt)"
      by simp
    then have "PageMemoryManager_Allocate mgr n = Some (kTvmErrorPlatformNoMemory, 0, mgr)"
      using n(1) it mod by (simp add: PageMemoryManager_Allocate_def MultiMap_End_def)
    then show ?thesis ..
  next
    case True
    let ?p = "PageCreate ?pool ?ps (int ?start) (int k)"
    obtain qs where qs: "PageTable_fill (pt_page ?pt) ?start k ?p = Some qs" "length qs = length (pt_page ?pt)"
      using PageTable_fill_ok [of ?start k "pt_page ?pt" ?p] True w by auto
    let ?pt' = "?pt\<lparr>pt_page := qs, pt_num_pages := ?start + k\<rparr>"
    have resize: "PageTable_Resize ?pt (?start + k) ?p = Some ?pt'"
      using qs by (simp add: PageTable_Resize_def)
    have tiles: "tiles ?pool ?ps 0 ?T ?start"
      using w by simp
    have below: "page_data q < page_data ?p" if q: "q \<in> set ?T" for q
    proof -
      obtain c l where "0 < l" "c + l \<le> ?start" "q = PageCreate ?pool ?ps (int c) (int l)"
        using tiles_range [OF tiles q] by blast
      then show ?thesis
        using w by simp
    qed
    then have new: "?p \<notin> set ?T"
      by blast
    have lenT: "length ?T = ?n"
      using w by (simp add: tlb_pages_def)
    then have n_less: "?n < length (tlb_entries ?t)"
      using tiles_le [OF tiles] True n(3) w by simp
    have addr: "pe_addr (tlb_entries ?t ! i) \<in> page_data ` set ?T" if "i < ?n" for i
    proof -
      have "?T ! i = pe_page (tlb_entries ?t ! i)"
        using that n_less by (simp add: tlb_pages_def)
      then show ?thesis
        using w that lenT nth_mem [of i ?T] by auto
    qed
    have "TLB_Find ?t (page_data ?p) = Some None"
      using find_from_spec [of 0 ?n "tlb_entries ?t" "\<lambda>e. pe_addr e = page_data ?p"] n_less addr below
      unfolding TLB_Find_def by force
    then have tset: "TLB_Set ?t (page_data ?p) ?p = Some (?t\<lparr>tlb_entries := (tlb_entries ?t)
          [?n := \<lparr>pe_addr = page_data ?p, pe_page = ?p\<rparr>], tlb_num_pages := ?n + 1\<rparr>)"
        (is "_ = Some ?t'")
      using n_less by (simp add: TLB_Set_def)
    let ?m = "mgr\<lparr>ptable := ?pt', pmap := ?t', vleak_size := vleak_size mgr + 1\<rparr>"
    have "\<not> int (pt_max_pages ?pt) < int (?start + k)"
      using True by simp
    moreover have "nat (int ?start + int k) = ?start + k"
      by simp
    ultimately have alloc: "PageMemoryManager_Allocate mgr n = Some (kTvmErrorNoError, page_data ?p, ?m)"
      unfolding PageMemoryManager_Allocate_def Let_def n(1) it MultiMap_End_def Option.bind.simps mod
      by (simp only: resize tset Option.bind.simps simp_thms if_False if_True option.simps)
    have T: "tlb_pages ?m = ?T @ [?p]" and F: "free_pages ?m = free_pages mgr"
      using n_less by (simp_all add: tlb_pages_def free_pages_def take_Suc_conv_app_nth)
    have "tiles ?pool ?ps 0 (?T @ [?p]) (?start + k)"
      using tiles n(3) by (auto simp: tiles_append)
    then have wf': "pm_wf ?m"
      unfolding pm_wf_def Let_def T F using w qs(2) True n_less new by (auto simp: nth_list_update)
    have p_new: "?p \<notin> set (free_pages mgr)"
      using new w by blast
    have others: "page_data q \<noteq> page_data ?p" if "q \<in> set ?T" for q
      using below [OF that] by simp
    have "\<forall>a l. live a = Some l \<longleftrightarrow> (\<exists>q. q \<in> set ?T \<and> q \<notin> set (free_pages mgr)
        \<and> page_data q = a \<and> block_size ?ps q = l)"
      using inv by (simp add: pm_inv_def)
    from live_extend [where d = page_data and p = ?p and b = "block_size ?ps", OF this others p_new]
    have "\<forall>a l. (live(page_data ?p \<mapsto> k * ?ps)) a = Some l
      \<longleftrightarrow> (\<exists>q. q \<in> set (tlb_pages ?m) \<and> q \<notin> set (free_pages ?m)
          \<and> page_data q = a \<and> block_size (page_size ?m) q = l)"
      unfolding T F by (simp add: block_size_def)
    then have inv': "pm_inv ?m (live(page_data ?p \<mapsto> k * ?ps))"
      using wf' unfolding pm_inv_def by blast
    have none: "live (page_data ?p) = None"
    proof (cases "live (page_data ?p)")
      case (Some l)
      then obtain q where "q \<in> set ?T" "page_data q = page_data ?p"
        using inv unfolding pm_inv_def by blast
      then show ?thesis
        using below by fastforce
    qed
    have "pm_inv ?m (live(page_data ?p \<mapsto> k * ?ps))" "?p \<in> set (tlb_pages ?m)"
      using inv' T by simp_all
    note ap = pm_inv_apart [OF this(1) _ this(2)]
    have "apart (page_data ?p) (k * ?ps) q l" if "live q = Some l" for q l
    proof -
      have "q \<noteq> page_data ?p"
        using that none by auto
      then show ?thesis
        using ap [of q l] that by simp
    qed
    moreover have "pm_low ?m \<le> page_data ?p" "page_data ?p + int (k * ?ps) \<le> pm_high ?m"
      using pm_page_range(1,2) [OF wf', of ?p] T by simp_all
    ultimately show ?thesis
      using alloc inv' none n(2)
      by (intro disjI1 exI [of _ "page_data ?p"] exI [of _ "k * ?ps"] exI [of _ ?m])
        (simp add: pm_low_def pm_high_def pm_fits_def fun_eq_iff)
  qed
qed

lemma PageMemoryManager_Allocate_ok:
  assumes inv: "pm_inv mgr live" and fits: "pm_fits mgr n"
  shows "(\<exists>p sz mgr'. PageMemoryManager_Allocate mgr n = Some (kTvmErrorNoError, p, mgr')
    \<and> pm_inv mgr' (live(p \<mapsto> sz)) \<and> n \<le> sz \<and> live p = None
    \<and> pm_low mgr' = pm_low mgr \<and> pm_high mgr' = pm_high mgr \<and> pm_fits mgr' = pm_fits mgr
    \<and> pm_low mgr \<le> p \<and> p + int sz \<le> pm_high mgr \<and> (\<forall>q l. live q = Some l \<longrightarrow> apart p sz q l))
    \<or> PageMemoryManager_Allocate mgr n = Some (kTvmErrorPlatformNoMemory, 0, mgr)"
proof -
  have w: "2 \<le> page_size mgr" "mm_num_entries (free_map mgr) \<le> length (mm_entries (free_map mgr))"
    using inv by (simp_all add: pm_inv_def pm_wf_def Let_def)
  obtain k where k: "pages_needed mgr n = int k" "0 < k" "n \<le> k * page_size mgr" "k < 2 ^ 31"
    using pages_needed_bounds [OF fits w(1)] .
  from find_from_spec [of 0 "mm_num_entries (free_map mgr)" "mm_entries (free_map mgr)" "\<lambda>e. int k \<le> ie_index e"] w(2)
  consider (none) "MultiMap_LowerBound (free_map mgr) (int k) = Some None"
    | (found) i where "MultiMap_LowerBound (free_map mgr) (int k) = Some (Some i)"
        "i < mm_num_entries (free_map mgr)" "int k \<le> ie_index (mm_entries (free_map mgr) ! i)"
    unfolding MultiMap_LowerBound_def by auto
  then show ?thesis
  proof cases
    case none
    then show ?thesis
      using Allocate_fresh_ok [OF inv k(1,3,2,4)] by blast
  next
    case found
    then show ?thesis
      using Allocate_reuse_ok [OF inv k(1,3) found] by blast
  qed
qed

interpretation heap: allocator PageMemoryManager_Allocate PageMemoryManager_Free pm_inv pm_low pm_high pm_fits
  by unfold_locales (rule PageMemoryManager_Allocate_ok PageMemoryManager_Free_ok; assumption)+

section \<open>The fresh heap\<close>

abbreviation fresh_heap :: "addr \<Rightarrow> nat \<Rightarrow> nat \<Rightarrow> memory_manager" where
  "fresh_heap pool sz lg \<equiv> snd (snd (PageMemoryManagerCreate pool sz lg))"

lemmas fresh_simps = PageMemoryManagerCreate_def Let_def

lemma fresh_max_pages:
  assumes "84 \<le> sz"
  shows "pt_max_pages (ptable (fresh_heap pool sz lg)) = (sz - 84) div (2 ^ lg + 88)"
  using assms by (simp add: fresh_simps sizeof_defs size_sub_def)

lemma fresh_pm_inv:
  assumes "84 \<le> sz" and "sz < 2 ^ 32" and "1 \<le> lg"
  shows "pm_inv (fresh_heap pool sz lg) Map.empty"
proof -
  let ?m = "fresh_heap pool sz lg"
  have "(2::nat) ^ 1 \<le> 2 ^ lg"
    using assms(3) by (intro power_increasing) simp_all
  then have two: "2 \<le> (2::nat) ^ lg"
    by simp
  have "(sz - 84) div (2 ^ lg + 88) \<le> (sz - 84) div 88"
    by (intro div_le_mono2) simp_all
  then have "pt_max_pages (ptable ?m) < 2 ^ 31"
    unfolding fresh_max_pages [OF assms(1)] using assms(2) by simp
  moreover have "tlb_pages ?m = []" "free_pages ?m = []"
    by (simp_all add: tlb_pages_def free_pages_def fresh_simps)
  ultimately show ?thesis
    using two by (simp add: pm_inv_def pm_wf_def fresh_simps)
qed

lemma fresh_holds:
  assumes "84 \<le> sz" and "sz < 2 ^ 32" and "1 \<le> lg"
  shows "heap.holds (fresh_heap pool sz lg) []"
  unfolding heap.holds_def using fresh_pm_inv [OF assms] by (intro exI [of _ Map.empty]) simp

lemma fresh_fits: "pm_fits (fresh_heap pool sz lg) n \<longleftrightarrow> 0 < n \<and> n + 2 ^ lg - 1 < 2 ^ 32"
  by (simp add: pm_fits_def fresh_simps)

text \<open>The pool and the tables behind it fit into the memory given.\<close>

lemma fresh_layout:
  assumes "84 \<le> sz"
  shows "fst (snd (PageMemoryManagerCreate pool sz lg)) = pm_high (fresh_heap pool sz lg)"
    and "mm_entries_at (free_map (fresh_heap pool sz lg))
      + int (sizeof_IndexedEntry * mm_max_entries (free_map (fresh_heap pool sz lg))) \<le> pool + int sz"
proof -
  let ?n = "(sz - 84) div (2 ^ lg + 88)"
  show "fst (snd (PageMemoryManagerCreate pool sz lg)) = pm_high (fresh_heap pool sz lg)"
    by (simp add: fresh_simps pm_high_def)
  have "?n * (2 ^ lg + 88) \<le> sz - 84"
    by (simp add: div_times_less_eq_dividend)
  then have "?n * 2 ^ lg + ?n * 88 + 84 \<le> sz"
    using assms by (simp add: algebra_simps)
  then have "int (?n * 2 ^ lg + ?n * 88 + 84) \<le> int sz"
    by (simp only: of_nat_le_iff)
  then show "mm_entries_at (free_map (fresh_heap pool sz lg))
      + int (sizeof_IndexedEntry * mm_max_entries (free_map (fresh_heap pool sz lg))) \<le> pool + int sz"
    using assms by (simp add: fresh_simps sizeof_defs size_sub_def algebra_simps)
qed

text \<open>The leak counter counts the live blocks.\<close>

lemma pm_inv_vleak:
  assumes "pm_inv mgr live"
  shows "vleak_size mgr = int (card (dom live))"
proof -
  have w: "tiles (pt_memory_pool (ptable mgr)) (page_size mgr) 0 (tlb_pages mgr) (pt_num_pages (ptable mgr))"
    "distinct (free_pages mgr)" "set (free_pages mgr) \<subseteq> set (tlb_pages mgr)" "0 < page_size mgr"
    "vleak_size mgr = int (length (tlb_pages mgr)) - int (length (free_pages mgr))"
    using assms by (simp_all add: pm_inv_def pm_wf_def Let_def)
  have dist: "distinct (map page_data (tlb_pages mgr))"
    by (rule tiles_data_distinct [OF w(1,4)])
  have "dom live = page_data ` (set (tlb_pages mgr) - set (free_pages mgr))"
    using assms unfolding pm_inv_def by (auto simp: dom_def)
  moreover have "inj_on page_data (set (tlb_pages mgr) - set (free_pages mgr))"
    using dist by (auto simp: distinct_map intro: inj_on_subset)
  ultimately have "card (dom live) = card (set (tlb_pages mgr) - set (free_pages mgr))"
    by (simp add: card_image)
  also have "\<dots> = length (tlb_pages mgr) - length (free_pages mgr)"
    using w(2,3) dist by (simp add: card_Diff_subset distinct_card distinct_map)
  finally show ?thesis
    using w(2,3,5) dist card_mono [OF finite_set w(3)] by (simp add: distinct_card distinct_map)
qed

lemma holds_vleak:
  assumes "heap.holds mgr bs"
  shows "vleak_size mgr = int (length bs)"
proof -
  obtain live where "pm_inv mgr live" "distinct (map fst bs)" "dom live = fst ` set bs"
    using assms unfolding heap.holds_def by blast
  then show ?thesis
    using pm_inv_vleak distinct_card [of "map fst bs"] by simp
qed

text \<open>
  C6. A client of a fresh heap that asks for any sequence of blocks of at least one byte, none so large
  that rounding it up to pages wraps, and releases
  any of the blocks it holds never fails a check or runs out of the tables; the blocks it holds at
  the end lie inside the pool, before the tables, and no two of them overlap.
\<close>
theorem page_allocator_safe:
  assumes "84 \<le> sz" and "sz < 2 ^ 32" and "1 \<le> lg"
    and "\<forall>n. Get n \<in> set rs \<longrightarrow> 0 < n \<and> n + 2 ^ lg - 1 < 2 ^ 32"
  shows "\<exists>m bs. client PageMemoryManager_Allocate PageMemoryManager_Free
        (snd (snd (PageMemoryManagerCreate pool sz lg))) [] rs = Some (m, bs)
    \<and> (\<forall>i < length bs. pool \<le> fst (bs ! i)
        \<and> fst (bs ! i) + int (snd (bs ! i)) \<le> fst (snd (PageMemoryManagerCreate pool sz lg)))
    \<and> (\<forall>i < length bs. \<forall>j < length bs. i \<noteq> j \<longrightarrow>
        apart (fst (bs ! i)) (snd (bs ! i)) (fst (bs ! j)) (snd (bs ! j)))"
proof -
  have "\<forall>n. Get n \<in> set rs \<longrightarrow> pm_fits (fresh_heap pool sz lg) n"
    using assms(4) by (simp add: fresh_fits)
  from heap.client_ok [OF fresh_holds [OF assms(1-3)] this]
  obtain m bs where m: "client PageMemoryManager_Allocate PageMemoryManager_Free (fresh_heap pool sz lg) [] rs = Some (m, bs)"
    "heap.holds m bs" "pm_low m = pm_low (fresh_heap pool sz lg)" "pm_high m = pm_high (fresh_heap pool sz lg)"
    by blast
  have "pm_low m = pool"
    unfolding m(3) by (simp add: pm_low_def fresh_simps)
  then show ?thesis
    using m(1) heap.holds_apart [OF m(2)] unfolding m(4) fresh_layout(1) [OF assms(1)] by auto
qed

lemma page_allocator_safe_witness:
  "\<exists>m bs. client PageMemoryManager_Allocate PageMemoryManager_Free
        (snd (snd (PageMemoryManagerCreate 4096 4096 8))) [] [Get 300, Get 10, Give 1, Get 100] = Some (m, bs)
    \<and> (\<forall>i < length bs. 4096 \<le> fst (bs ! i)
        \<and> fst (bs ! i) + int (snd (bs ! i)) \<le> fst (snd (PageMemoryManagerCreate 4096 4096 8)))
    \<and> (\<forall>i < length bs. \<forall>j < length bs. i \<noteq> j \<longrightarrow>
        apart (fst (bs ! i)) (snd (bs ! i)) (fst (bs ! j)) (snd (bs ! j)))"
  by (rule page_allocator_safe) auto

text \<open>
  The counter of the manager, from which leaks are read off, is the number of blocks the client
  has asked for and not released; no page is lost, because a released page is found again.
\<close>
lemma vleak_counts_live_blocks:
  assumes "84 \<le> sz" and "sz < 2 ^ 32" and "1 \<le> lg"
    and "\<forall>n. Get n \<in> set rs \<longrightarrow> 0 < n \<and> n + 2 ^ lg - 1 < 2 ^ 32"
    and "client PageMemoryManager_Allocate PageMemoryManager_Free
        (snd (snd (PageMemoryManagerCreate pool sz lg))) [] rs = Some (m, bs)"
  shows "vleak_size m = int (length bs)"
proof -
  have "\<forall>n. Get n \<in> set rs \<longrightarrow> pm_fits (fresh_heap pool sz lg) n"
    using assms(4) by (simp add: fresh_fits)
  from heap.client_ok [OF fresh_holds [OF assms(1-3)] this] assms(5) have "heap.holds m bs"
    by auto
  then show ?thesis
    by (rule holds_vleak)
qed

lemma replicate_2: "replicate 2 x = [x, x]"
  by (simp add: numeral_2_eq_2)

lemma fresh_two_pages:
  "snd (snd (PageMemoryManagerCreate 4096 772 8)) = \<lparr>vleak_size = 0,
      ptable = \<lparr>pt_memory_pool = 4096, pt_page_size_bytes = 256, pt_page = [zero_page, zero_page],
        pt_page_at = 4692, pt_max_pages = 2, pt_num_pages = 0\<rparr>,
      pmap = \<lparr>tlb_entries = [\<lparr>pe_addr = 0, pe_page = zero_page\<rparr>, \<lparr>pe_addr = 0, pe_page = zero_page\<rparr>],
        tlb_entries_at = 4740, tlb_max_pages = 2, tlb_num_pages = 0\<rparr>,
      free_map = \<lparr>mm_entries = [\<lparr>ie_index = 0, ie_page = zero_page\<rparr>, \<lparr>ie_index = 0, ie_page = zero_page\<rparr>],
        mm_entries_at = 4804, mm_max_entries = 2, mm_num_entries = 0\<rparr>\<rparr>"
  by (simp add: fresh_simps sizeof_defs replicate_2)

lemma wrapped_request:
  assumes "lg < 32" and "n = 0 \<or> 2 ^ 32 \<le> n + 2 ^ lg - 1" and "n < 2 ^ 32"
  shows "(n + 2 ^ lg - 1) mod 2 ^ 32 < (2 :: nat) ^ lg"
proof -
  have two: "(2::nat) ^ lg < 2 ^ 32"
    using assms(1) by (intro power_strict_increasing) simp_all
  show ?thesis
  proof (cases "n = 0")
    case True
    then show ?thesis
      using two by simp
  next
    case False
    then have "2 ^ 32 \<le> n + 2 ^ lg - 1"
      using assms(2) by simp
    then have "(n + 2 ^ lg - 1) mod 2 ^ 32 = n + 2 ^ lg - 1 - 2 ^ 32"
      using assms(3) two by (simp add: mod_if)
    moreover have "0 < (2::nat) ^ lg"
      by simp
    ultimately show ?thesis
      using assms(3) by linarith
  qed
qed

lemma one_page_needed:
  assumes "lg < 32" and "0 < k" and "k \<le> 2 ^ lg"
  shows "((k + 2 ^ lg - 1) mod 2 ^ 32) div 2 ^ lg = (1 :: nat)"
proof -
  have "k + 2 ^ lg - 1 = (k - 1) + 2 ^ lg" "(k - 1) div 2 ^ lg = 0"
    using assms(2,3) by simp_all
  then have "(k + 2 ^ lg - 1) div 2 ^ lg = 1"
    using div_add_self2 [of "2 ^ lg" "k - 1"] by (simp only:) simp
  moreover have "(2::nat) ^ lg \<le> 2 ^ 31"
    using assms(1) by (intro power_increasing) simp_all
  then have "k + 2 ^ lg - 1 < 2 ^ 31 + 2 ^ 31"
    using assms(2,3) by linarith
  ultimately show ?thesis
    by simp
qed

text \<open>The state after an empty block and a block of one page have been asked for.\<close>

definition aliased_heap :: "addr \<Rightarrow> nat \<Rightarrow> nat \<Rightarrow> memory_manager" where
  "aliased_heap pool sz lg =
     (let m = fresh_heap pool sz lg; p = PageCreate pool (2 ^ lg) 0 1
      in m\<lparr>ptable := (ptable m)\<lparr>pt_page := (pt_page (ptable m))[0 := p], pt_num_pages := 1\<rparr>,
           pmap := (pmap m)\<lparr>tlb_entries := (tlb_entries (pmap m))[0 := \<lparr>pe_addr = pool, pe_page = p\<rparr>], tlb_num_pages := 1\<rparr>,
           vleak_size := 2\<rparr>)"

lemma fresh_fields:
  fixes pool :: addr and sz lg :: nat
  assumes "84 \<le> sz"
  defines "m \<equiv> fresh_heap pool sz lg" and "N \<equiv> (sz - 84) div (2 ^ lg + 88)"
  shows "pt_max_pages (ptable m) = N" "pt_num_pages (ptable m) = 0" "page_size m = 2 ^ lg"
    "tlb_num_pages (pmap m) = 0" "length (tlb_entries (pmap m)) = N" "mm_num_entries (free_map m) = 0"
    "mm_max_entries (free_map m) = N" "length (mm_entries (free_map m)) = N"
    "pt_memory_pool (ptable m) = pool" "length (pt_page (ptable m)) = N" "vleak_size m = 0"
  using assms(1) unfolding m_def N_def by (simp_all add: fresh_simps sizeof_defs size_sub_def)

lemma empty_then_page:
  assumes "84 \<le> sz" and "sz < 2 ^ 32" and "lg < 32"
    and "n = 0 \<or> 2 ^ 32 \<le> n + 2 ^ lg - 1" and "n < 2 ^ 32"
    and "0 < k" and "k \<le> 2 ^ lg" and "2 ^ lg + 172 \<le> sz"
  shows "\<exists>m. PageMemoryManager_Allocate (fresh_heap pool sz lg) n = Some (kTvmErrorNoError, pool, m)
    \<and> PageMemoryManager_Allocate m k = Some (kTvmErrorNoError, pool, aliased_heap pool sz lg)"
proof -
  let ?m = "fresh_heap pool sz lg" and ?N = "(sz - 84) div (2 ^ lg + 88)"
  note mx = fresh_fields [OF assms(1), of pool lg]
  have N: "0 < ?N"
    using assms(1,8) by (simp add: div_greater_zero_iff)
  have 0: "pages_needed ?m n = 0"
    using wrapped_request [OF assms(3-5)] by (simp add: pages_needed_def fresh_simps)
  let ?p = "PageCreate pool (2 ^ lg) 0 0"
  let ?m1 = "?m\<lparr>pmap := (pmap ?m)\<lparr>tlb_entries := (tlb_entries (pmap ?m))[0 := \<lparr>pe_addr = pool, pe_page = ?p\<rparr>],
      tlb_num_pages := 1\<rparr>, vleak_size := 1\<rparr>"
  have "PageMemoryManager_Allocate ?m n = Some (kTvmErrorNoError, pool, ?m1)"
    using N 0 mx
    by (simp add: PageMemoryManager_Allocate_def MultiMap_LowerBound_def MultiMap_End_def PageTable_Resize_def
        TLB_Set_def TLB_Find_def)
  moreover have "PageMemoryManager_Allocate ?m1 k = Some (kTvmErrorNoError, pool, aliased_heap pool sz lg)"
    using N one_page_needed [OF assms(3,6,7)] mx
    by (simp add: PageMemoryManager_Allocate_def MultiMap_LowerBound_def MultiMap_End_def PageTable_Resize_def
        TLB_Set_def TLB_Find_def pages_needed_def Let_def aliased_heap_def)
  ultimately show ?thesis
    by blast
qed

text \<open>
  The page count of a request is not checked: zero bytes, or a size whose rounding wraps, gives
  a block of no pages, and the next block of the fresh heap is handed out at the same address.
\<close>
lemma empty_block_aliases:
  assumes "84 \<le> sz" and "sz < 2 ^ 32" and "1 \<le> lg" and "lg < 32"
    and "n = 0 \<or> 2 ^ 32 \<le> n + 2 ^ lg - 1" and "n < 2 ^ 32"
    and "0 < k" and "k \<le> 2 ^ lg" and "2 ^ lg + 172 \<le> sz"
  shows "\<exists>m m'. PageMemoryManager_Allocate (snd (snd (PageMemoryManagerCreate pool sz lg))) n
        = Some (kTvmErrorNoError, pool, m)
    \<and> PageMemoryManager_Allocate m k = Some (kTvmErrorNoError, pool, m')"
  using empty_then_page [OF assms(1,2,4-9)] by blast

text \<open>A block that is released twice is in the list of free blocks twice, and handed out twice.\<close>

lemma double_free:
  assumes "84 \<le> sz" and "sz < 2 ^ 32" and "lg < 32" and "2 * 2 ^ lg + 260 \<le> sz"
    and "0 < k" and "k \<le> 2 ^ lg" and "0 < l" and "l \<le> 2 ^ lg"
  shows "\<exists>h1 h2 h3 h4. PageMemoryManager_Free (aliased_heap pool sz lg) pool = Some (kTvmErrorNoError, h1)
    \<and> PageMemoryManager_Free h1 pool = Some (kTvmErrorNoError, h2)
    \<and> PageMemoryManager_Allocate h2 k = Some (kTvmErrorNoError, pool, h3)
    \<and> PageMemoryManager_Allocate h3 l = Some (kTvmErrorNoError, pool, h4)"
proof -
  let ?N = "(sz - 84) div (2 ^ lg + 88)"
  have "2 * (2 ^ lg + 88) \<le> sz - 84"
    using assms(1,4) by simp
  then have N: "2 \<le> ?N"
    by (simp add: less_eq_div_iff_mult_less_eq)
  show ?thesis
    using N one_page_needed [OF assms(3,5,6)] one_page_needed [OF assms(3,7,8)] fresh_fields [OF assms(1), of pool lg]
    by (simp add: PageMemoryManager_Allocate_def PageMemoryManager_Free_def MultiMap_LowerBound_def MultiMap_End_def
        MultiMap_Insert_def MultiMap_Erase_def TLB_Find_def pages_needed_def Let_def aliased_heap_def shift_down.simps)
qed

text \<open>
  Reallocation looks up the address of the caller's pointer in place of the block, so it fails its
  check for every pointer that is not itself the first word of a block.
\<close>

lemma Realloc_faults:
  assumes "pm_inv mgr live" and "ptr \<notin> page_data ` set (tlb_pages mgr)"
  shows "PageMemoryManager_Realloc mgr ptr n = None"
proof -
  let ?t = "pmap mgr"
  have w: "tlb_num_pages ?t \<le> length (tlb_entries ?t)"
    "\<forall>i < tlb_num_pages ?t. pe_addr (tlb_entries ?t ! i) = page_data (pe_page (tlb_entries ?t ! i))"
    using assms(1) by (simp_all add: pm_inv_def pm_wf_def Let_def)
  have "pe_addr (tlb_entries ?t ! i) \<noteq> ptr" if "i < tlb_num_pages ?t" for i
  proof -
    have "tlb_pages mgr ! i = pe_page (tlb_entries ?t ! i)" "i < length (tlb_pages mgr)"
      using that w(1) by (simp_all add: tlb_pages_def)
    then have "pe_page (tlb_entries ?t ! i) \<in> set (tlb_pages mgr)"
      by (metis nth_mem)
    then show ?thesis
      using w(2) that assms(2) by auto
  qed
  then have "TLB_Find ?t ptr = Some None"
    using find_from_spec [of 0 "tlb_num_pages ?t" "tlb_entries ?t" "\<lambda>e. pe_addr e = ptr"] w(1)
    unfolding TLB_Find_def by auto
  then show ?thesis
    by (simp add: PageMemoryManager_Realloc_def Let_def CHECK_def)
qed

end
