(* ===== verification/Func_Registry.thy ===== *)
theory Func_Registry
  imports Crt_Prelude
begin

text \<open>
  The function registry of \<^verbatim>\<open>common/func_registry.c\<close>: names in one byte string, looked up by a scan,
  and an array of function pointers. A mutable registry keeps both in one buffer, the names from the
  front and the pointers at the end. The specification is a list of pairs of a name and a function;
  the locale states what a registry promises to its clients.
\<close>

section \<open>The code\<close>

text \<open>
  Strings are the bytes of memory from the pointer on, terminator included. A function pointer is a
  32-bit address, an index is a \<^verbatim>\<open>uint16_t\<close>.
\<close>

record func_registry =
  fr_names :: "u8 list"
  fr_funcs :: "u32 list"

text \<open>
  The first loop of \<^verbatim>\<open>strcmp_cursor\<close>: the result is the difference found and the position of the
  cursor, which stays at a terminator and moves past a byte that differs.
\<close>

function strcmp_cursor_loop :: "u8 list \<Rightarrow> nat \<Rightarrow> u8 list \<Rightarrow> nat \<Rightarrow> (int \<times> nat) option" where
  "strcmp_cursor_loop mem cursor name j = do {
     c \<leftarrow> arr_get mem cursor;
     n \<leftarrow> arr_get name j;
     let return_value = uint c - uint n;
     if n = 0 \<or> c = 0 then Some (return_value, cursor)
     else if return_value = 0 then strcmp_cursor_loop mem (cursor + 1) name (j + 1)
     else Some (return_value, cursor + 1)
   }"
  by auto
termination
  by (relation "measure (\<lambda>(mem, cursor, name, j). length mem - cursor)") (auto simp: arr_get_def split: if_splits)

declare strcmp_cursor_loop.simps [simp del]

text \<open>The second loop: the cursor moves to the terminator.\<close>

function to_terminator :: "u8 list \<Rightarrow> nat \<Rightarrow> nat option" where
  "to_terminator mem cursor = do {
     c \<leftarrow> arr_get mem cursor;
     if c \<noteq> 0 then to_terminator mem (cursor + 1) else Some cursor
   }"
  by auto
termination
  by (relation "measure (\<lambda>(mem, cursor). length mem - cursor)") (auto simp: arr_get_def split: if_splits)

declare to_terminator.simps [simp del]

definition strcmp_cursor :: "u8 list \<Rightarrow> nat \<Rightarrow> u8 list \<Rightarrow> (int \<times> nat) option" where
  "strcmp_cursor mem cursor name = do {
     (return_value, cursor) \<leftarrow> strcmp_cursor_loop mem cursor name 0;
     cursor \<leftarrow> to_terminator mem cursor;
     Some (return_value, cursor)
   }"

lemma to_terminator_le: "to_terminator mem c = Some d \<Longrightarrow> c \<le> d"
proof (induction mem c rule: to_terminator.induct)
  case (1 mem c)
  from "1.prems" show ?case
    using "1.IH" by (subst (asm) to_terminator.simps) (auto simp: bind_eq_Some split: if_splits)
qed

lemma strcmp_cursor_loop_le: "strcmp_cursor_loop mem c name j = Some (r, d) \<Longrightarrow> c \<le> d"
proof (induction mem c name j rule: strcmp_cursor_loop.induct)
  case (1 mem c name j)
  from "1.prems" obtain a b where ab: "arr_get mem c = Some a" "arr_get name j = Some b"
    by (subst (asm) strcmp_cursor_loop.simps) (auto simp: bind_eq_Some)
  show ?case
  proof (cases "b = 0 \<or> a = 0 \<or> uint a - uint b \<noteq> 0")
    case True
    then show ?thesis
      using "1.prems" ab by (subst (asm) strcmp_cursor_loop.simps) (auto simp: Let_def split: if_splits)
  next
    case False
    then have "strcmp_cursor_loop mem (c + 1) name (j + 1) = Some (r, d)"
      using "1.prems" ab by (subst (asm) strcmp_cursor_loop.simps) simp
    then show ?thesis
      using "1.IH" [OF ab refl] False by auto
  qed
qed

lemma strcmp_cursor_le: "strcmp_cursor mem c name = Some (r, d) \<Longrightarrow> c \<le> d"
  using strcmp_cursor_loop_le to_terminator_le
  by (fastforce simp: strcmp_cursor_def bind_eq_Some)

text \<open>
  The scan that lookup and insertion share: whether the name was found, the position of the cursor,
  and the number of names before it.
\<close>

function registry_scan :: "u8 list \<Rightarrow> u8 list \<Rightarrow> nat \<Rightarrow> nat \<Rightarrow> (bool \<times> nat \<times> nat) option" where
  "registry_scan mem name reg_name_ptr idx = do {
     c \<leftarrow> arr_get mem reg_name_ptr;
     if c = 0 then Some (False, reg_name_ptr, idx)
     else do {
       r \<leftarrow> strcmp_cursor mem reg_name_ptr name;
       if fst r = 0 then Some (True, snd r, idx)
       else registry_scan mem name (snd r + 1) (idx + 1)
     }
   }"
  by auto
termination
  by (relation "measure (\<lambda>(mem, name, reg_name_ptr, idx). length mem - reg_name_ptr)")
    (auto simp: arr_get_def split: if_splits dest!: strcmp_cursor_le)

declare registry_scan.simps [simp del]

definition TVMFuncRegistry_GetNumFuncs :: "func_registry \<Rightarrow> u16 option" where
  "TVMFuncRegistry_GetNumFuncs reg = do {
     bs \<leftarrow> mem_read (fr_names reg) 0 2;
     Some (of_nat (le_value bs))
   }"

definition TVMFuncRegistry_SetNumFuncs :: "u8 list \<Rightarrow> u16 \<Rightarrow> u8 list option" where
  "TVMFuncRegistry_SetNumFuncs names num_funcs = mem_write names 0 (le_bytes 2 (unat num_funcs))"

definition TVMFuncRegistry_Get0thFunctionName :: nat where
  "TVMFuncRegistry_Get0thFunctionName = 2"

definition TVMFuncRegistry_Lookup :: "func_registry \<Rightarrow> u8 list \<Rightarrow> (tvm_crt_error \<times> u16 option) option" where
  "TVMFuncRegistry_Lookup reg name = do {
     (found, _, idx) \<leftarrow> registry_scan (fr_names reg) name TVMFuncRegistry_Get0thFunctionName 0;
     if found then Some (kTvmErrorNoError, Some (of_nat idx))
     else Some (kTvmErrorFunctionNameNotFound, None)
   }"

definition TVMFuncRegistry_GetByIndex :: "func_registry \<Rightarrow> u16 \<Rightarrow> (tvm_crt_error \<times> u32 option) option" where
  "TVMFuncRegistry_GetByIndex reg function_index = do {
     num_funcs \<leftarrow> TVMFuncRegistry_GetNumFuncs reg;
     if function_index \<ge> num_funcs then Some (kTvmErrorFunctionIndexInvalid, None)
     else do {
       f \<leftarrow> arr_get (fr_funcs reg) (unat function_index);
       Some (kTvmErrorNoError, Some f)
     }
   }"

text \<open>A mutable registry: the buffer, and the offset at which the pointers begin.\<close>

record mutable_func_registry =
  mr_buffer :: "u8 list"
  mr_funcs :: nat
  mr_max_functions :: nat

definition sizeof_ptr :: nat where "sizeof_ptr = 4"

definition TVM_AVERAGE_FUNCTION_NAME_STRLEN_BYTES :: nat where
  "TVM_AVERAGE_FUNCTION_NAME_STRLEN_BYTES = 10"

definition kTvmAverageFuncEntrySizeBytes :: nat where
  "kTvmAverageFuncEntrySizeBytes = TVM_AVERAGE_FUNCTION_NAME_STRLEN_BYTES + 1 + sizeof_ptr"

fun le_words :: "u8 list \<Rightarrow> u32 list" where
  "le_words (a # b # c # d # bs) = of_nat (le_value [a, b, c, d]) # le_words bs"
| "le_words _ = []"

text \<open>The registry inside a mutable one: both pointers point into the buffer.\<close>

definition mr_registry :: "mutable_func_registry \<Rightarrow> func_registry" where
  "mr_registry reg = \<lparr>fr_names = mr_buffer reg, fr_funcs = le_words (drop (mr_funcs reg) (mr_buffer reg))\<rparr>"

definition TVMMutableFuncRegistry_Create :: "u8 list \<Rightarrow> (tvm_crt_error \<times> mutable_func_registry option) option" where
  "TVMMutableFuncRegistry_Create buffer =
     (if length buffer < kTvmAverageFuncEntrySizeBytes then Some (kTvmErrorBufferTooSmall, None)
      else do {
        buffer \<leftarrow> arr_set buffer 0 0;
        buffer \<leftarrow> arr_set buffer 1 0;
        buffer \<leftarrow> arr_set buffer 2 0;
        let max_functions = length buffer div kTvmAverageFuncEntrySizeBytes;
        Some (kTvmErrorNoError, Some \<lparr>mr_buffer = buffer,
          mr_funcs = length buffer - max_functions * sizeof_ptr, mr_max_functions = max_functions\<rparr>)
      })"

definition store_func :: "mutable_func_registry \<Rightarrow> u8 list \<Rightarrow> nat \<Rightarrow> u32 \<Rightarrow> u8 list option" where
  "store_func reg buffer idx func = mem_write buffer (mr_funcs reg + sizeof_ptr * idx) (le_bytes 4 (unat func))"

definition TVMMutableFuncRegistry_Set ::
    "mutable_func_registry \<Rightarrow> u8 list \<Rightarrow> u32 \<Rightarrow> bool \<Rightarrow> (tvm_crt_error \<times> mutable_func_registry) option" where
  "TVMMutableFuncRegistry_Set reg name func override = do {
     (found, reg_name_ptr, idx) \<leftarrow> registry_scan (mr_buffer reg) name TVMFuncRegistry_Get0thFunctionName 0;
     if found
     then
       if \<not> override then Some (kTvmErrorFunctionAlreadyDefined, reg)
       else do {
         buffer \<leftarrow> store_func reg (mr_buffer reg) idx func;
         Some (kTvmErrorNoError, reg\<lparr>mr_buffer := buffer\<rparr>)
       }
     else if reg_name_ptr > mr_funcs reg then Some (kTvmErrorFunctionRegistryFull, reg)
     else do {
       name_len \<leftarrow> to_terminator name 0;
       let names_bytes_remaining = mr_funcs reg - reg_name_ptr;
       if idx \<ge> mr_max_functions reg \<or> name_len + 1 > names_bytes_remaining
       then Some (kTvmErrorFunctionRegistryFull, reg)
       else do {
         bs \<leftarrow> mem_read name 0 (name_len + 1);
         buffer \<leftarrow> mem_write (mr_buffer reg) reg_name_ptr bs;
         let reg_name_ptr = reg_name_ptr + (name_len + 1);
         buffer \<leftarrow> arr_set buffer reg_name_ptr 0;
         buffer \<leftarrow> store_func reg buffer idx func;
         num_funcs \<leftarrow> TVMFuncRegistry_GetNumFuncs (mr_registry (reg\<lparr>mr_buffer := buffer\<rparr>));
         buffer \<leftarrow> TVMFuncRegistry_SetNumFuncs buffer (num_funcs + 1);
         Some (kTvmErrorNoError, reg\<lparr>mr_buffer := buffer\<rparr>)
       }
     }
   }"

section \<open>The scan\<close>

text \<open>A name is a string of non-zero bytes; the names follow each other with their terminators.\<close>

definition cname :: "u8 list \<Rightarrow> bool" where
  "cname n \<longleftrightarrow> 0 \<notin> set n"

fun name_blob :: "u8 list list \<Rightarrow> u8 list" where
  "name_blob [] = []"
| "name_blob (n # ns) = n @ 0 # name_blob ns"

lemma name_blob_append: "name_blob (ms @ ns) = name_blob ms @ name_blob ns"
  by (induction ms) auto

lemma to_terminator_found:
  "d \<le> e \<Longrightarrow> e < length mem \<Longrightarrow> mem ! e = 0 \<Longrightarrow> (\<And>i. d \<le> i \<Longrightarrow> i < e \<Longrightarrow> mem ! i \<noteq> 0) \<Longrightarrow>
   to_terminator mem d = Some e"
proof (induction mem d rule: to_terminator.induct)
  case (1 mem c)
  then have g: "arr_get mem c = Some (mem ! c)"
    by simp
  show ?case
  proof (cases "c = e")
    case True
    then show ?thesis
      using "1.prems"(3) g by (subst to_terminator.simps) simp
  next
    case False
    then have "mem ! c \<noteq> 0" "to_terminator mem (c + 1) = Some e"
      using "1.prems" "1.IH" [OF g] by auto
    then show ?thesis
      using g by (subst to_terminator.simps) simp
  qed
qed

lemma to_terminator_name [simp]:
  "cname n \<Longrightarrow> to_terminator (n @ 0 # t) 0 = Some (length n)"
  by (intro to_terminator_found) (auto simp: nth_append cname_def in_set_conv_nth)

lemma strcmp_cursor_loop_spec:
  "cname a \<Longrightarrow> cname b \<Longrightarrow>
   \<exists>r d. strcmp_cursor_loop (p @ a @ 0 # t) (length p) (q @ b @ 0 # u) (length q) = Some (r, d)
     \<and> (r = 0 \<longleftrightarrow> a = b) \<and> length p \<le> d \<and> d \<le> length p + length a"
proof (induction a arbitrary: p q b)
  case Nil
  then show ?case
    by (cases b) (auto simp: strcmp_cursor_loop.simps Let_def cname_def nth_append uint_0_iff)
next
  case (Cons x a)
  show ?case
  proof (cases b)
    case Nil
    then show ?thesis
      using Cons.prems
      by (intro exI [of _ "uint x"] exI [of _ "length p"])
        (auto simp: strcmp_cursor_loop.simps [of _ "length p"] Let_def cname_def nth_append uint_0_iff)
  next
    case b: (Cons y b')
    have nz: "x \<noteq> 0" "y \<noteq> 0" "cname a" "cname b'"
      using Cons.prems b by (auto simp: cname_def)
    show ?thesis
    proof (cases "x = y")
      case True
      from Cons.IH [OF nz(3,4), of "p @ [x]" "q @ [y]"] obtain r d where
        "strcmp_cursor_loop (p @ (x # a) @ 0 # t) (length p + 1) (q @ b @ 0 # u) (length q + 1) = Some (r, d)"
        "(r = 0) = (a = b')" "length p + 1 \<le> d" "d \<le> length p + 1 + length a"
        by (auto simp: b)
      then show ?thesis
        using True nz(1,2) b
        by (intro exI [of _ r] exI [of _ d])
          (auto simp: strcmp_cursor_loop.simps [of _ "length p"] Let_def nth_append)
    next
      case False
      then have "uint x - uint y \<noteq> 0"
        by (simp add: word_uint_eq_iff)
      then show ?thesis
        using False nz(1,2) b
        by (intro exI [of _ "uint x - uint y"] exI [of _ "length p + 1"])
          (auto simp: strcmp_cursor_loop.simps [of _ "length p"] Let_def nth_append)
    qed
  qed
qed

lemma strcmp_cursor_spec:
  assumes "cname a" and "cname b"
  shows "\<exists>r. strcmp_cursor (p @ a @ 0 # t) (length p) (b @ 0 # u) = Some (r, length p + length a)
     \<and> (r = 0 \<longleftrightarrow> a = b)"
proof -
  obtain r d where r: "strcmp_cursor_loop (p @ a @ 0 # t) (length p) (b @ 0 # u) 0 = Some (r, d)"
    "r = 0 \<longleftrightarrow> a = b" "length p \<le> d" "d \<le> length p + length a"
    using strcmp_cursor_loop_spec [OF assms, of p t "[]" u] by auto
  have "to_terminator (p @ a @ 0 # t) d = Some (length p + length a)"
  proof (rule to_terminator_found)
    fix i
    assume i: "d \<le> i" "i < length p + length a"
    then have "(p @ a @ 0 # t) ! i = a ! (i - length p)" "i - length p < length a"
      using r(3) by (auto simp: nth_append)
    then show "(p @ a @ 0 # t) ! i \<noteq> 0"
      using assms(1) by (metis cname_def nth_mem)
  qed (use r(4) in \<open>simp_all add: nth_append\<close>)
  then show ?thesis
    using r(1,2) by (auto simp: strcmp_cursor_def)
qed

text \<open>The names of a registry: non-empty, so that none looks like the end of the list.\<close>

definition names_ok :: "u8 list list \<Rightarrow> bool" where
  "names_ok ns \<longleftrightarrow> (\<forall>n \<in> set ns. cname n \<and> n \<noteq> [])"

lemma registry_scan_spec:
  "names_ok ns \<Longrightarrow> cname b \<Longrightarrow>
   (b \<in> set ns \<and> (\<exists>k pos. registry_scan (p @ name_blob ns @ 0 # t) (b @ 0 # u) (length p) i = Some (True, pos, i + k)
       \<and> k < length ns \<and> ns ! k = b \<and> (\<forall>j < k. ns ! j \<noteq> b)))
   \<or> (b \<notin> set ns \<and> registry_scan (p @ name_blob ns @ 0 # t) (b @ 0 # u) (length p) i
       = Some (False, length p + length (name_blob ns), i + length ns))"
proof (induction ns arbitrary: p i)
  case Nil
  show ?case
    by (subst registry_scan.simps) (simp add: nth_append)
next
  case (Cons n ns)
  let ?mem = "p @ name_blob (n # ns) @ 0 # t"
  have n: "cname n" "n \<noteq> []" "names_ok ns"
    using Cons.prems(1) by (auto simp: names_ok_def)
  have g: "arr_get ?mem (length p) = Some (hd n)" "hd n \<noteq> 0"
    using n(1,2) by (cases n; simp add: nth_append cname_def)+
  obtain r where r: "strcmp_cursor ?mem (length p) (b @ 0 # u) = Some (r, length p + length n)" "r = 0 \<longleftrightarrow> n = b"
    using strcmp_cursor_spec [OF n(1) Cons.prems(2), of p "name_blob ns @ 0 # t" u] by auto
  show ?case
  proof (cases "n = b")
    case True
    then have "registry_scan ?mem (b @ 0 # u) (length p) i = Some (True, length p + length n, i + 0)"
      using g r by (subst registry_scan.simps) simp
    then show ?thesis
      using True by (intro disjI1) (auto intro!: exI [of _ 0])
  next
    case False
    then have step: "registry_scan ?mem (b @ 0 # u) (length p) i
        = registry_scan ((p @ n @ [0]) @ name_blob ns @ 0 # t) (b @ 0 # u) (length (p @ n @ [0])) (i + 1)"
      using g r by (subst registry_scan.simps) simp
    from Cons.IH [OF n(3) Cons.prems(2), of "p @ n @ [0]" "i + 1"] show ?thesis
    proof (elim disjE exE conjE)
      fix k pos
      assume b: "b \<in> set ns"
        and a: "registry_scan ((p @ n @ [0]) @ name_blob ns @ 0 # t) (b @ 0 # u) (length (p @ n @ [0])) (i + 1)
          = Some (True, pos, i + 1 + k)" "k < length ns" "ns ! k = b" "\<forall>j < k. ns ! j \<noteq> b"
      have "\<forall>j < Suc k. (n # ns) ! j \<noteq> b"
        using a(4) False by (auto simp: nth_Cons split: nat.splits)
      moreover have "registry_scan ?mem (b @ 0 # u) (length p) i = Some (True, pos, i + Suc k)"
        unfolding step a(1) by simp
      moreover have "Suc k < length (n # ns)" "(n # ns) ! Suc k = b" "b \<in> set (n # ns)"
        using a(2,3) b by simp_all
      ultimately show ?thesis
        by blast
    next
      assume "b \<notin> set ns"
        and "registry_scan ((p @ n @ [0]) @ name_blob ns @ 0 # t) (b @ 0 # u) (length (p @ n @ [0])) (i + 1)
          = Some (False, length (p @ n @ [0]) + length (name_blob ns), i + 1 + length ns)"
      then show ?thesis
        unfolding step using False by simp
    qed
  qed
qed

section \<open>What a registry represents\<close>

lemma length_le_words [simp]: "length (le_words bs) = length bs div 4"
  by (induction bs rule: le_words.induct) auto

lemma length_4: "length xs = 4 \<longleftrightarrow> (\<exists>a b c d. xs = [a, b, c, d])"
  by (auto simp: length_Suc_conv numeral_eq_Suc)

lemma le_words_store:
  "4 * i + 4 \<le> length bs \<Longrightarrow>
   le_words (take (4 * i) bs @ le_bytes 4 (unat w) @ drop (4 * i + 4) bs) = (le_words bs)[i := w]"
proof (induction bs arbitrary: i rule: le_words.induct)
  case (1 a b c d bs)
  show ?case
  proof (cases i)
    case 0
    have "unat w < 2 ^ 32"
      using unsigned_less [of w] by simp
    then have "le_value (le_bytes 4 (unat w)) = unat w"
      by (simp add: le_value_le_bytes)
    moreover obtain x y z v where e: "le_bytes 4 (unat w) = [x, y, z, v]"
      using length_le_bytes [of 4 "unat w"] unfolding length_4 by blast
    ultimately have "le_words ([x, y, z, v] @ bs) = w # le_words bs"
      by (simp del: le_value.simps)
    then show ?thesis
      using 0 e by simp
  next
    case (Suc j)
    have e: "4 * i = Suc (Suc (Suc (Suc (4 * j))))" "4 * i + 4 = Suc (Suc (Suc (Suc (4 * j + 4))))"
      using Suc by simp_all
    have "le_words (take (4 * j) bs @ le_bytes 4 (unat w) @ drop (4 * j + 4) bs) = (le_words bs)[j := w]"
      using "1.IH" [of j] "1.prems" Suc by simp
    then show ?thesis
      unfolding e(2) unfolding e(1) by (simp only: take_Suc_Cons drop_Suc_Cons append_Cons le_words.simps Suc list_update_code)
  qed
qed simp_all

text \<open>
  A mutable registry represents the list \<open>xs\<close> of names and functions: the count, the names and the
  end mark at the front of the buffer, and the functions in the words at its end.
\<close>

definition mr_rep :: "mutable_func_registry \<Rightarrow> (u8 list \<times> u32) list \<Rightarrow> bool" where
  "mr_rep reg xs \<longleftrightarrow> names_ok (map fst xs) \<and> distinct (map fst xs) \<and> length xs \<le> mr_max_functions reg
     \<and> mr_max_functions reg < 2 ^ 16
     \<and> (\<exists>gap fs. mr_buffer reg = le_bytes 2 (length xs) @ name_blob (map fst xs) @ 0 # gap @ fs
          \<and> mr_funcs reg = 3 + length (name_blob (map fst xs)) + length gap
          \<and> length fs = 4 * mr_max_functions reg
          \<and> take (length xs) (le_words fs) = map snd xs)"

text \<open>The bytes left for another name with its terminator and the end mark.\<close>

definition mr_room :: "mutable_func_registry \<Rightarrow> (u8 list \<times> u32) list \<Rightarrow> nat" where
  "mr_room reg xs = mr_funcs reg - (2 + length (name_blob (map fst xs)))"

lemma mr_rep_scan:
  assumes "mr_rep reg xs" and "cname b"
  shows "(b \<in> fst ` set xs \<and> (\<exists>k pos. registry_scan (mr_buffer reg) (b @ 0 # u) 2 0 = Some (True, pos, k)
       \<and> k < length xs \<and> fst (xs ! k) = b))
   \<or> (b \<notin> fst ` set xs \<and> registry_scan (mr_buffer reg) (b @ 0 # u) 2 0
       = Some (False, 2 + length (name_blob (map fst xs)), length xs))"
proof -
  obtain t where buf: "mr_buffer reg = le_bytes 2 (length xs) @ name_blob (map fst xs) @ 0 # t"
    using assms(1) by (auto simp: mr_rep_def)
  have "names_ok (map fst xs)"
    using assms(1) by (simp add: mr_rep_def)
  from registry_scan_spec [OF this assms(2), of "le_bytes 2 (length xs)" t u 0] show ?thesis
    unfolding buf by (auto simp: image_image)
qed

lemma mr_rep_num:
  assumes "mr_rep reg xs"
  shows "TVMFuncRegistry_GetNumFuncs (mr_registry reg) = Some (of_nat (length xs))"
proof -
  have "length xs < 2 ^ 16"
    using assms by (simp add: mr_rep_def)
  then have "le_value (le_bytes 2 (length xs)) = length xs"
    by (simp add: le_value_le_bytes)
  then show ?thesis
    using assms by (auto simp: mr_rep_def mr_registry_def TVMFuncRegistry_GetNumFuncs_def)
qed

lemma map_of_nth_distinct: "distinct (map fst xs) \<Longrightarrow> k < length xs \<Longrightarrow> map_of xs (fst (xs ! k)) = Some (snd (xs ! k))"
  by (simp add: map_of_eq_Some_iff)

lemma mem_write_append:
  "length ys = length zs \<Longrightarrow> k = length xs \<Longrightarrow> mem_write (xs @ ys @ t) k zs = Some (xs @ zs @ t)"
  by (simp add: mem_write_def)

lemma arr_set_append: "k = length xs \<Longrightarrow> arr_set (xs @ y # t) k v = Some (xs @ v # t)"
  by (simp add: arr_set_def list_update_append)

lemma mem_read_name [simp]: "mem_read (n @ 0 # u) 0 (Suc (length n)) = Some (n @ [0])"
  by (simp add: mem_read_def)

text \<open>A pointer stored in the words at the end of the buffer.\<close>

lemma store_func_append:
  assumes "mr_funcs reg = length pre" and "4 * idx + 4 \<le> length fs"
  shows "store_func reg (pre @ fs) idx f
    = Some (pre @ take (4 * idx) fs @ le_bytes 4 (unat f) @ drop (4 * idx + 4) fs)"
proof -
  have "fs = take (4 * idx) fs @ take 4 (drop (4 * idx) fs) @ drop (4 * idx + 4) fs"
    by (metis add.commute append_take_drop_id drop_drop)
  then have "pre @ fs = (pre @ take (4 * idx) fs) @ take 4 (drop (4 * idx) fs) @ drop (4 * idx + 4) fs"
    by simp
  moreover have "mem_write ((pre @ take (4 * idx) fs) @ take 4 (drop (4 * idx) fs) @ drop (4 * idx + 4) fs)
      (mr_funcs reg + 4 * idx) (le_bytes 4 (unat f))
    = Some ((pre @ take (4 * idx) fs) @ le_bytes 4 (unat f) @ drop (4 * idx + 4) fs)"
    using assms by (intro mem_write_append) simp_all
  ultimately show ?thesis
    unfolding store_func_def sizeof_ptr_def by (metis append_assoc)
qed

lemma num_funcs_step:
  assumes "N + 1 < 2 ^ 16"
  shows "TVMFuncRegistry_GetNumFuncs (mr_registry (reg\<lparr>mr_buffer := le_bytes 2 N @ t\<rparr>)) = Some (of_nat N)"
    and "TVMFuncRegistry_SetNumFuncs (le_bytes 2 N @ t) (of_nat N + 1) = Some (le_bytes 2 (N + 1) @ t)"
proof -
  show "TVMFuncRegistry_GetNumFuncs (mr_registry (reg\<lparr>mr_buffer := le_bytes 2 N @ t\<rparr>)) = Some (of_nat N)"
    using assms by (simp add: TVMFuncRegistry_GetNumFuncs_def mr_registry_def le_value_le_bytes)
  have "unat (of_nat N + 1 :: u16) = N + 1"
    using assms by (simp add: unat_word_ariths unat_of_nat)
  then show "TVMFuncRegistry_SetNumFuncs (le_bytes 2 N @ t) (of_nat N + 1) = Some (le_bytes 2 (N + 1) @ t)"
    unfolding TVMFuncRegistry_SetNumFuncs_def
    using mem_write_append [of "le_bytes 2 N" "le_bytes 2 (N + 1)" 0 "[]" t] by simp
qed

text \<open>A new name: the code on a buffer in the shape of the representation.\<close>

lemma Set_new_run:
  assumes rep: "mr_rep reg xs"
    and shape: "mr_buffer reg = le_bytes 2 (length xs) @ name_blob (map fst xs) @ 0 # rest @ y # t"
      "length n = length rest" "mr_funcs reg \<ge> 3 + length (name_blob (map fst xs)) + length rest"
    and n: "cname n" "n \<notin> fst ` set xs" "length xs < mr_max_functions reg"
    and st: "store_func reg (le_bytes 2 (length xs) @ name_blob (map fst xs) @ n @ 0 # 0 # t) (length xs) f
      = Some (le_bytes 2 (length xs) @ t')"
  shows "TVMMutableFuncRegistry_Set reg (n @ 0 # u) f override
    = Some (kTvmErrorNoError, reg\<lparr>mr_buffer := le_bytes 2 (length xs + 1) @ t'\<rparr>)"
proof -
  let ?b = "name_blob (map fst xs)" and ?N = "length xs"
  have scan: "registry_scan (mr_buffer reg) (n @ 0 # u) 2 0 = Some (False, 2 + length ?b, ?N)"
    using mr_rep_scan [OF rep n(1), of u] n(2) by auto
  have w1: "mem_write (mr_buffer reg) (2 + length ?b) (n @ [0]) = Some (le_bytes 2 ?N @ ?b @ n @ 0 # y # t)"
    using mem_write_append [of "0 # rest" "n @ [0]" "2 + length ?b" "le_bytes 2 ?N @ ?b" "y # t"] shape
    by simp
  have w2: "arr_set (le_bytes 2 ?N @ ?b @ n @ 0 # y # t) (2 + length ?b + (length n + 1)) 0
      = Some (le_bytes 2 ?N @ ?b @ n @ 0 # 0 # t)"
    using arr_set_append [of "2 + length ?b + (length n + 1)" "le_bytes 2 ?N @ ?b @ n @ [0]" y t 0] by simp
  have N: "?N + 1 < 2 ^ 16"
    using rep n(3) by (simp add: mr_rep_def)
  show ?thesis
    unfolding TVMMutableFuncRegistry_Set_def TVMFuncRegistry_Get0thFunctionName_def scan
    using shape(2,3) n st w2 num_funcs_step(1) [OF N, where reg = reg and t = t'] num_funcs_step(2) [OF N, where t = t'] w1
    by (simp add: Let_def)
qed

lemma mr_repI:
  assumes "names_ok (map fst xs)" and "distinct (map fst xs)" and "length xs \<le> mr_max_functions reg"
    and "mr_max_functions reg < 2 ^ 16"
    and "mr_buffer reg = le_bytes 2 (length xs) @ name_blob (map fst xs) @ 0 # gap @ fs"
    and "mr_funcs reg = 3 + length (name_blob (map fst xs)) + length gap"
    and "length fs = 4 * mr_max_functions reg" and "take (length xs) (le_words fs) = map snd xs"
  shows "mr_rep reg xs"
  unfolding mr_rep_def using assms by blast

lemma Set_new_ok:
  assumes rep: "mr_rep reg xs" and n: "cname n" "n \<noteq> []" "n \<notin> fst ` set xs"
    and room: "length xs < mr_max_functions reg" "length n + 2 \<le> mr_room reg xs"
  shows "\<exists>reg'. TVMMutableFuncRegistry_Set reg (n @ 0 # u) f override = Some (kTvmErrorNoError, reg')
    \<and> mr_rep reg' (xs @ [(n, f)]) \<and> mr_max_functions reg' = mr_max_functions reg
    \<and> mr_room reg' (xs @ [(n, f)]) + length n + 1 = mr_room reg xs"
proof -
  let ?b = "name_blob (map fst xs)" and ?N = "length xs"
  obtain gap fs where shape: "mr_buffer reg = le_bytes 2 ?N @ ?b @ 0 # gap @ fs"
    "mr_funcs reg = 3 + length ?b + length gap" "length fs = 4 * mr_max_functions reg"
    "take ?N (le_words fs) = map snd xs"
    using rep by (auto simp: mr_rep_def)
  have "length n < length gap"
    using room(2) shape(2) by (simp add: mr_room_def)
  then obtain rest y gap' where gap: "gap = rest @ y # gap'" "length rest = length n"
    by (metis append_take_drop_id Cons_nth_drop_Suc length_take min.absorb2 less_imp_le)
  let ?fs = "take (4 * ?N) fs @ le_bytes 4 (unat f) @ drop (4 * ?N + 4) fs"
  have fits: "4 * ?N + 4 \<le> length fs"
    using shape(3) room(1) by simp
  let ?pre = "le_bytes 2 ?N @ ?b @ n @ 0 # 0 # gap'"
  have "store_func reg (?pre @ fs) ?N f = Some (?pre @ ?fs)"
    using shape(2) gap fits by (intro store_func_append) simp_all
  then have run: "TVMMutableFuncRegistry_Set reg (n @ 0 # u) f override
    = Some (kTvmErrorNoError, reg\<lparr>mr_buffer := le_bytes 2 (?N + 1) @ ?b @ n @ 0 # 0 # gap' @ ?fs\<rparr>)"
    using shape(1,2) gap n room(1) by (intro Set_new_run [OF rep, where rest = rest and y = y and t = "gap' @ fs"]) simp_all
  have blob: "name_blob (map fst (xs @ [(n, f)])) = ?b @ n @ [0]"
    by (simp add: name_blob_append)
  have ws: "take (?N + 1) (le_words ?fs) = map snd (xs @ [(n, f)])"
    using le_words_store [OF fits, of f] shape(3,4) room(1)
    by (simp add: take_Suc_conv_app_nth)
  let ?reg = "reg\<lparr>mr_buffer := le_bytes 2 (?N + 1) @ ?b @ n @ 0 # 0 # gap' @ ?fs\<rparr>"
  have "mr_rep ?reg (xs @ [(n, f)])"
  proof (rule mr_repI [where gap = gap' and fs = ?fs])
    show "names_ok (map fst (xs @ [(n, f)]))" "distinct (map fst (xs @ [(n, f)]))"
      "mr_max_functions ?reg < 2 ^ 16"
      using rep n by (auto simp: mr_rep_def names_ok_def)
    show "length ?fs = 4 * mr_max_functions ?reg"
      using shape(3) fits by simp
    show "take (length (xs @ [(n, f)])) (le_words ?fs) = map snd (xs @ [(n, f)])"
      using ws by simp
  qed (use room(1) shape(2) gap in \<open>simp_all add: name_blob_append\<close>)
  moreover have "mr_room ?reg (xs @ [(n, f)]) + length n + 1 = mr_room reg xs"
    unfolding mr_room_def blob using shape(2) gap by simp
  ultimately show ?thesis
    using run by (intro exI [of _ ?reg] conjI) simp_all
qed

text \<open>A known name.\<close>

lemma Set_known_ok:
  assumes rep: "mr_rep reg xs" and n: "cname n" "n \<in> fst ` set xs"
  shows "TVMMutableFuncRegistry_Set reg (n @ 0 # u) f False = Some (kTvmErrorFunctionAlreadyDefined, reg)"
    and "\<exists>reg' k. TVMMutableFuncRegistry_Set reg (n @ 0 # u) f True = Some (kTvmErrorNoError, reg')
      \<and> k < length xs \<and> fst (xs ! k) = n \<and> mr_rep reg' (xs[k := (n, f)])
      \<and> mr_max_functions reg' = mr_max_functions reg \<and> mr_room reg' (xs[k := (n, f)]) = mr_room reg xs"
proof -
  let ?b = "name_blob (map fst xs)" and ?N = "length xs"
  obtain k pos where k: "registry_scan (mr_buffer reg) (n @ 0 # u) 2 0 = Some (True, pos, k)" "k < ?N" "fst (xs ! k) = n"
    using mr_rep_scan [OF rep n(1), of u] n(2) by auto
  show "TVMMutableFuncRegistry_Set reg (n @ 0 # u) f False = Some (kTvmErrorFunctionAlreadyDefined, reg)"
    by (simp add: TVMMutableFuncRegistry_Set_def TVMFuncRegistry_Get0thFunctionName_def k(1))
  obtain gap fs where shape: "mr_buffer reg = le_bytes 2 ?N @ ?b @ 0 # gap @ fs"
    "mr_funcs reg = 3 + length ?b + length gap" "length fs = 4 * mr_max_functions reg"
    "take ?N (le_words fs) = map snd xs" "?N \<le> mr_max_functions reg"
    using rep by (auto simp: mr_rep_def)
  let ?fs = "take (4 * k) fs @ le_bytes 4 (unat f) @ drop (4 * k + 4) fs"
  let ?reg = "reg\<lparr>mr_buffer := le_bytes 2 ?N @ ?b @ 0 # gap @ ?fs\<rparr>"
  have fits: "4 * k + 4 \<le> length fs"
    using shape(3,5) k(2) by simp
  have "store_func reg ((le_bytes 2 ?N @ ?b @ 0 # gap) @ fs) k f = Some ((le_bytes 2 ?N @ ?b @ 0 # gap) @ ?fs)"
    using shape(2) fits by (intro store_func_append) simp_all
  then have run: "TVMMutableFuncRegistry_Set reg (n @ 0 # u) f True = Some (kTvmErrorNoError, ?reg)"
    unfolding TVMMutableFuncRegistry_Set_def TVMFuncRegistry_Get0thFunctionName_def k(1) using shape(1) by simp
  have names: "map fst (xs[k := (n, f)]) = map fst xs"
    using k(2,3) by (metis fst_conv list_update_id map_update nth_map)
  have "mr_rep ?reg (xs[k := (n, f)])"
  proof (rule mr_repI [where gap = gap and fs = ?fs])
    show "take (length (xs[k := (n, f)])) (le_words ?fs) = map snd (xs[k := (n, f)])"
      using le_words_store [OF fits, of f] shape(4) by (simp add: take_update_swap map_update)
    show "length ?fs = 4 * mr_max_functions ?reg"
      using shape(3) fits by simp
  qed (use rep shape in \<open>simp_all add: names mr_rep_def\<close>)
  moreover have "mr_room ?reg (xs[k := (n, f)]) = mr_room reg xs"
    by (simp add: mr_room_def names)
  ultimately show "\<exists>reg' k. TVMMutableFuncRegistry_Set reg (n @ 0 # u) f True = Some (kTvmErrorNoError, reg')
      \<and> k < length xs \<and> fst (xs ! k) = n \<and> mr_rep reg' (xs[k := (n, f)])
      \<and> mr_max_functions reg' = mr_max_functions reg \<and> mr_room reg' (xs[k := (n, f)]) = mr_room reg xs"
    using run k(2,3) by (intro exI [of _ ?reg] exI [of _ k]) simp
qed

text \<open>No room.\<close>

lemma Set_full:
  assumes rep: "mr_rep reg xs" and n: "cname n" "n \<notin> fst ` set xs"
    and full: "mr_max_functions reg \<le> length xs \<or> mr_room reg xs < length n + 1"
  shows "TVMMutableFuncRegistry_Set reg (n @ 0 # u) f override = Some (kTvmErrorFunctionRegistryFull, reg)"
proof -
  have "registry_scan (mr_buffer reg) (n @ 0 # u) 2 0
      = Some (False, 2 + length (name_blob (map fst xs)), length xs)"
    using mr_rep_scan [OF rep n(1), of u] n(2) by auto
  moreover have "2 + length (name_blob (map fst xs)) \<le> mr_funcs reg"
    using rep by (auto simp: mr_rep_def)
  ultimately show ?thesis
    using n(1) full
    by (auto simp: TVMMutableFuncRegistry_Set_def TVMFuncRegistry_Get0thFunctionName_def Let_def mr_room_def)
qed

text \<open>Looking up, and fetching by index.\<close>

lemma Lookup_ok:
  assumes rep: "mr_rep reg xs" and n: "cname n"
  shows "n \<in> fst ` set xs \<Longrightarrow> \<exists>k < length xs. fst (xs ! k) = n
      \<and> TVMFuncRegistry_Lookup (mr_registry reg) (n @ 0 # u) = Some (kTvmErrorNoError, Some (of_nat k))"
    and "n \<notin> fst ` set xs \<Longrightarrow>
      TVMFuncRegistry_Lookup (mr_registry reg) (n @ 0 # u) = Some (kTvmErrorFunctionNameNotFound, None)"
  using mr_rep_scan [OF rep n, of u]
  by (fastforce simp: TVMFuncRegistry_Lookup_def TVMFuncRegistry_Get0thFunctionName_def mr_registry_def)+

lemma mr_rep_words:
  assumes "mr_rep reg xs" and "k < length xs"
  shows "arr_get (fr_funcs (mr_registry reg)) k = Some (snd (xs ! k))"
proof -
  obtain gap fs where shape: "mr_buffer reg = le_bytes 2 (length xs) @ name_blob (map fst xs) @ 0 # gap @ fs"
    "mr_funcs reg = 3 + length (name_blob (map fst xs)) + length gap"
    "take (length xs) (le_words fs) = map snd xs" "length xs \<le> length (le_words fs)"
    using assms(1) by (auto simp: mr_rep_def)
  have "drop (mr_funcs reg) (mr_buffer reg) = fs"
    unfolding shape(1,2) by simp
  moreover have "le_words fs ! k = take (length xs) (le_words fs) ! k"
    using assms(2) by simp
  then have "le_words fs ! k = snd (xs ! k)"
    unfolding shape(3) using assms(2) by simp
  ultimately show ?thesis
    using assms(2) shape(4) by (simp add: mr_registry_def arr_get_def)
qed

lemma GetByIndex_ok:
  assumes rep: "mr_rep reg xs"
  shows "TVMFuncRegistry_GetByIndex (mr_registry reg) i =
    Some (if unat i < length xs then (kTvmErrorNoError, Some (snd (xs ! unat i)))
          else (kTvmErrorFunctionIndexInvalid, None))"
proof -
  have "length xs < 2 ^ 16"
    using rep by (simp add: mr_rep_def)
  then have "of_nat (length xs) \<le> i \<longleftrightarrow> length xs \<le> unat i"
    by (simp add: word_le_nat_alt unat_of_nat)
  then show ?thesis
    using mr_rep_num [OF rep] mr_rep_words [OF rep, of "unat i"]
    by (auto simp: TVMFuncRegistry_GetByIndex_def)
qed

text \<open>A fresh registry.\<close>

lemma Create_ok:
  assumes "15 \<le> length buffer" and "length buffer < 15 * 2 ^ 16"
  shows "\<exists>reg. TVMMutableFuncRegistry_Create buffer = Some (kTvmErrorNoError, Some reg) \<and> mr_rep reg []
    \<and> mr_max_functions reg = length buffer div 15
    \<and> mr_room reg [] + 2 + 4 * (length buffer div 15) = length buffer"
proof -
  let ?m = "length buffer div 15"
  have m: "4 * ?m + 3 \<le> length buffer" "?m < 2 ^ 16"
    using assms by (linarith, simp)
  obtain a b c t where buf: "buffer = a # b # c # t"
    using assms(1) by (cases buffer; cases "tl buffer"; cases "tl (tl buffer)") auto
  let ?reg = "\<lparr>mr_buffer = 0 # 0 # 0 # t, mr_funcs = length buffer - ?m * 4, mr_max_functions = ?m\<rparr>"
  let ?gap = "take (length t - 4 * ?m) t" and ?fs = "drop (length t - 4 * ?m) t"
  have "mr_rep ?reg []"
  proof (rule mr_repI [where gap = ?gap and fs = ?fs])
    show "mr_buffer ?reg = le_bytes 2 (length ([] :: (u8 list \<times> u32) list)) @ name_blob (map fst []) @ 0 # ?gap @ ?fs"
      by (simp add: numeral_2_eq_2)
  qed (use m buf in \<open>simp_all add: names_ok_def\<close>)
  moreover have "TVMMutableFuncRegistry_Create buffer = Some (kTvmErrorNoError, Some ?reg)"
    using assms(1) buf
    by (simp add: TVMMutableFuncRegistry_Create_def kTvmAverageFuncEntrySizeBytes_def
        TVM_AVERAGE_FUNCTION_NAME_STRLEN_BYTES_def sizeof_ptr_def Let_def numeral_2_eq_2)
  moreover have "mr_room ?reg [] + 2 + 4 * ?m = length buffer"
    using m(1) by (simp add: mr_room_def)
  ultimately show ?thesis
    by (intro exI [of _ ?reg]) simp
qed

section \<open>The contract of a table of functions\<close>

text \<open>
  \<open>rep r m slots room\<close>: the state \<open>r\<close> holds the functions \<open>m\<close> and has place for \<open>slots\<close> more names
  of together less than \<open>room\<close> bytes, where \<open>len k\<close> is the size of the name \<open>k\<close>.
\<close>

locale function_table =
  fixes find :: "'r \<Rightarrow> 'k \<Rightarrow> 'f option option"
    and register :: "'r \<Rightarrow> 'k \<Rightarrow> 'f \<Rightarrow> bool \<Rightarrow> (tvm_crt_error \<times> 'r) option"
    and rep :: "'r \<Rightarrow> ('k \<rightharpoonup> 'f) \<Rightarrow> nat \<Rightarrow> nat \<Rightarrow> bool"
    and ok :: "'k \<Rightarrow> bool"
    and len :: "'k \<Rightarrow> nat"
  assumes find_ok: "rep r m slots room \<Longrightarrow> ok k \<Longrightarrow> find r k = Some (m k)"
    and register_new: "rep r m slots room \<Longrightarrow> ok k \<Longrightarrow> m k = None \<Longrightarrow> 0 < slots \<Longrightarrow> len k < room \<Longrightarrow>
      \<exists>r'. register r k f override = Some (kTvmErrorNoError, r') \<and> rep r' (m(k \<mapsto> f)) (slots - 1) (room - len k)"
    and register_known: "rep r m slots room \<Longrightarrow> ok k \<Longrightarrow> m k = Some g \<Longrightarrow>
      \<exists>r'. register r k f True = Some (kTvmErrorNoError, r') \<and> rep r' (m(k \<mapsto> f)) slots room"
    and register_twice: "rep r m slots room \<Longrightarrow> ok k \<Longrightarrow> m k = Some g \<Longrightarrow>
      register r k f False = Some (kTvmErrorFunctionAlreadyDefined, r)"

text \<open>A list of registrations; it stops at the first error.\<close>

fun register_all ::
    "('r \<Rightarrow> 'k \<Rightarrow> 'f \<Rightarrow> bool \<Rightarrow> (tvm_crt_error \<times> 'r) option) \<Rightarrow> 'r \<Rightarrow> ('k \<times> 'f) list \<Rightarrow> bool
     \<Rightarrow> (tvm_crt_error \<times> 'r) option" where
  "register_all reg r [] override = Some (kTvmErrorNoError, r)"
| "register_all reg r ((k, f) # xs) override = do {
     (e, r) \<leftarrow> reg r k f override;
     if e \<noteq> kTvmErrorNoError then Some (e, r) else register_all reg r xs override
   }"

context function_table
begin

lemma register_all_distinct:
  "rep r m slots room \<Longrightarrow> distinct (map fst xs) \<Longrightarrow> \<forall>k \<in> fst ` set xs. ok k \<and> m k = None \<Longrightarrow>
   length xs \<le> slots \<Longrightarrow> sum_list (map (len \<circ> fst) xs) < room \<Longrightarrow>
   \<exists>r'. register_all register r xs override = Some (kTvmErrorNoError, r')
     \<and> rep r' (m ++ map_of xs) (slots - length xs) (room - sum_list (map (len \<circ> fst) xs))"
proof (induction xs arbitrary: r m slots room)
  case Nil
  then show ?case by simp
next
  case (Cons x xs)
  obtain k f where x: "x = (k, f)"
    by fastforce
  obtain r' where r': "register r k f override = Some (kTvmErrorNoError, r')"
    "rep r' (m(k \<mapsto> f)) (slots - 1) (room - len k)"
    using register_new [OF Cons.prems(1), of k f override] Cons.prems(3-5) x by auto
  have names: "\<forall>k' \<in> fst ` set xs. ok k' \<and> (m(k \<mapsto> f)) k' = None"
    using Cons.prems(2,3) x by auto
  have rest: "distinct (map fst xs)" "length xs \<le> slots - 1" "sum_list (map (len \<circ> fst) xs) < room - len k"
    using Cons.prems(2,4,5) x by (auto simp: comp_def)
  obtain r'' where r'': "register_all register r' xs override = Some (kTvmErrorNoError, r'')"
    "rep r'' (m(k \<mapsto> f) ++ map_of xs) (slots - 1 - length xs) (room - len k - sum_list (map (len \<circ> fst) xs))"
    using Cons.IH [OF r'(2) rest(1) names rest(2,3)] by blast
  have "k \<notin> dom (map_of xs)"
    using Cons.prems(2) x by (simp add: dom_map_of_conv_image_fst)
  then have "m(k \<mapsto> f) ++ map_of xs = m ++ map_of (x # xs)"
    using x by (auto simp: map_add_def fun_eq_iff dom_def split: option.splits)
  then have "rep r'' (m ++ map_of (x # xs)) (slots - length (x # xs)) (room - sum_list (map (len \<circ> fst) (x # xs)))"
    using r''(2) x by (simp add: diff_diff_left del: map_of_Cons_code map_of.simps map_add_upd)
  moreover have "register_all register r (x # xs) override = Some (kTvmErrorNoError, r'')"
    using r'(1) r''(1) x by simp
  ultimately show ?case
    by blast
qed

lemma register_all_find:
  assumes "rep r Map.empty slots room" and "distinct (map fst xs)" and "\<forall>k \<in> fst ` set xs. ok k"
    and "length xs \<le> slots" and "sum_list (map (len \<circ> fst) xs) < room"
  shows "\<exists>r'. register_all register r xs override = Some (kTvmErrorNoError, r')
    \<and> (\<forall>k. ok k \<longrightarrow> find r' k = Some (map_of xs k))"
proof -
  from register_all_distinct [OF assms(1,2)] assms(3-5)
  obtain r' where "register_all register r xs override = Some (kTvmErrorNoError, r')"
    "rep r' (Map.empty ++ map_of xs) (slots - length xs) (room - sum_list (map (len \<circ> fst) xs))"
    by fastforce
  then show ?thesis
    using find_ok [of r' "map_of xs"] by (intro exI [of _ r']) simp
qed

lemma override_wins:
  assumes "rep r m slots room" and "ok k" and "m k = Some g"
  shows "\<exists>r'. register r k f True = Some (kTvmErrorNoError, r') \<and> find r' k = Some (Some f)
    \<and> (\<forall>k'. ok k' \<longrightarrow> k' \<noteq> k \<longrightarrow> find r' k' = find r k')"
proof -
  obtain r' where "register r k f True = Some (kTvmErrorNoError, r')" "rep r' (m(k \<mapsto> f)) slots room"
    using register_known [OF assms] by blast
  then show ?thesis
    using find_ok assms(1,2) by (intro exI [of _ r']) simp
qed

end

text \<open>Name to index to function, the way the runtime uses a registry.\<close>

definition registry_find :: "func_registry \<Rightarrow> u8 list \<Rightarrow> u32 option option" where
  "registry_find reg name = do {
     (e, i) \<leftarrow> TVMFuncRegistry_Lookup reg name;
     if e \<noteq> kTvmErrorNoError then Some None
     else do {
       (_, f) \<leftarrow> TVMFuncRegistry_GetByIndex reg (the i);
       Some f
     }
   }"

definition mr_find :: "mutable_func_registry \<Rightarrow> u8 list \<Rightarrow> u32 option option" where
  "mr_find reg n = registry_find (mr_registry reg) (n @ [0])"

definition mr_set :: "mutable_func_registry \<Rightarrow> u8 list \<Rightarrow> u32 \<Rightarrow> bool \<Rightarrow> (tvm_crt_error \<times> mutable_func_registry) option" where
  "mr_set reg n f override = TVMMutableFuncRegistry_Set reg (n @ [0]) f override"

definition mr_table :: "mutable_func_registry \<Rightarrow> (u8 list \<rightharpoonup> u32) \<Rightarrow> nat \<Rightarrow> nat \<Rightarrow> bool" where
  "mr_table reg m slots room \<longleftrightarrow> (\<exists>xs. mr_rep reg xs \<and> map_of xs = m
     \<and> mr_max_functions reg = length xs + slots \<and> mr_room reg xs = room)"

lemma map_of_append_new: "distinct (map fst (xs @ [(n, f)])) \<Longrightarrow> map_of (xs @ [(n, f)]) = (map_of xs)(n \<mapsto> f)"
  by (induction xs) (auto simp: fun_eq_iff simp del: map_of_append)

lemma map_of_update_nth:
  "distinct (map fst xs) \<Longrightarrow> k < length xs \<Longrightarrow> fst (xs ! k) = n \<Longrightarrow> map_of (xs[k := (n, f)]) = (map_of xs)(n \<mapsto> f)"
proof (induction xs arbitrary: k)
  case Nil
  then show ?case by simp
next
  case (Cons x xs)
  then show ?case
  proof (cases k)
    case (Suc j)
    then have "fst x \<noteq> n"
      using Cons.prems by (metis distinct.simps(2) length_Suc_conv length_map list.simps(9) nth_Cons_Suc
          nth_mem nth_map Suc_less_eq length_Cons)
    then show ?thesis
      using Cons.IH [of j] Cons.prems Suc by (cases x) (auto simp: fun_eq_iff)
  qed (cases x, auto simp: fun_eq_iff)
qed

lemma mr_find_ok:
  assumes "mr_rep reg xs" and "cname k"
  shows "mr_find reg k = Some (map_of xs k)"
proof (cases "k \<in> fst ` set xs")
  case True
  then obtain j where j: "j < length xs" "fst (xs ! j) = k"
    "TVMFuncRegistry_Lookup (mr_registry reg) (k @ 0 # []) = Some (kTvmErrorNoError, Some (of_nat j))"
    using Lookup_ok(1) [OF assms] by blast
  have "length xs < 2 ^ 16"
    using assms(1) by (simp add: mr_rep_def)
  then have "unat (of_nat j :: u16) = j"
    using j(1) by (simp add: unat_of_nat)
  moreover have "map_of xs k = Some (snd (xs ! j))"
    using map_of_nth_distinct j(1,2) assms(1) by (auto simp: mr_rep_def)
  ultimately show ?thesis
    using j(1,3) GetByIndex_ok [OF assms(1)] by (simp add: mr_find_def registry_find_def)
next
  case False
  then have "map_of xs k = None"
    by (simp add: map_of_eq_None_iff)
  then show ?thesis
    using Lookup_ok(2) [OF assms False, of "[]"] by (simp add: mr_find_def registry_find_def)
qed

interpretation table: function_table mr_find mr_set mr_table "\<lambda>k. cname k \<and> k \<noteq> []" "\<lambda>k. length k + 1"
proof
  fix r m slots room and k :: "u8 list" and f g override
  assume rep: "mr_table r m slots room" and k: "cname k \<and> k \<noteq> []"
  from rep obtain xs where xs: "mr_rep r xs" "map_of xs = m" "mr_max_functions r = length xs + slots" "mr_room r xs = room"
    by (auto simp: mr_table_def)
  show "mr_find r k = Some (m k)"
    using mr_find_ok xs k by blast
  {
    assume new: "m k = None" "0 < slots" "length k + 1 < room"
    then have "k \<notin> fst ` set xs"
      using xs(2) map_of_eq_None_iff by metis
    then obtain r' where r': "mr_set r k f override = Some (kTvmErrorNoError, r')" "mr_rep r' (xs @ [(k, f)])"
      "mr_max_functions r' = mr_max_functions r" "mr_room r' (xs @ [(k, f)]) + length k + 1 = mr_room r xs"
      using Set_new_ok [OF xs(1), of k "[]" f override] k new xs(3,4) by (auto simp: mr_set_def)
    have "map_of (xs @ [(k, f)]) = m(k \<mapsto> f)"
      using map_of_append_new [of xs k f] r'(2) unfolding xs(2) mr_rep_def by blast
    then have "mr_table r' (m(k \<mapsto> f)) (slots - 1) (room - (length k + 1))"
      unfolding mr_table_def using r' xs(3,4) new(2) by (intro exI [of _ "xs @ [(k, f)]"]) simp
    then show "\<exists>r'. mr_set r k f override = Some (kTvmErrorNoError, r')
        \<and> mr_table r' (m(k \<mapsto> f)) (slots - 1) (room - (length k + 1))"
      using r'(1) by blast
  }
  assume known: "m k = Some g"
  then have mem: "k \<in> fst ` set xs"
    using xs(2) by (metis map_of_eq_None_iff option.distinct(1))
  obtain r' j where r': "mr_set r k f True = Some (kTvmErrorNoError, r')" "j < length xs" "fst (xs ! j) = k"
    "mr_rep r' (xs[j := (k, f)])" "mr_max_functions r' = mr_max_functions r" "mr_room r' (xs[j := (k, f)]) = mr_room r xs"
    using Set_known_ok(2) [OF xs(1) _ mem, of "[]" f] k by (auto simp: mr_set_def)
  have "map_of (xs[j := (k, f)]) = m(k \<mapsto> f)"
    using map_of_update_nth [of xs j k f] r'(2,3) xs(1) unfolding xs(2) mr_rep_def by blast
  then have "mr_table r' (m(k \<mapsto> f)) slots room"
    unfolding mr_table_def using r' xs(3,4) by (intro exI [of _ "xs[j := (k, f)]"]) simp
  then show "\<exists>r'. mr_set r k f True = Some (kTvmErrorNoError, r') \<and> mr_table r' (m(k \<mapsto> f)) slots room"
    using r'(1) by blast
  show "mr_set r k f False = Some (kTvmErrorFunctionAlreadyDefined, r)"
    using Set_known_ok(1) [OF xs(1) _ mem] k by (simp add: mr_set_def)
qed

section \<open>The registry of functions\<close>

text \<open>
  C15. A registry created in a buffer, with functions registered under distinct names that fit,
  accepts all of them, and then every name gives the function registered under it, and every other
  name gives none.
\<close>
theorem registry_round_trip:
  assumes "15 \<le> length buffer" and "length buffer < 15 * 2 ^ 16"
    and "distinct (map fst fs)" and "\<forall>n \<in> fst ` set fs. cname n \<and> n \<noteq> []"
    and "length fs \<le> length buffer div 15"
    and "sum_list (map (\<lambda>(n, f). length n + 1) fs) + 3 + 4 * (length buffer div 15) \<le> length buffer"
  shows "\<exists>reg reg'. TVMMutableFuncRegistry_Create buffer = Some (kTvmErrorNoError, Some reg)
    \<and> register_all mr_set reg fs False = Some (kTvmErrorNoError, reg')
    \<and> (\<forall>n. cname n \<longrightarrow> n \<noteq> [] \<longrightarrow> registry_find (mr_registry reg') (n @ [0]) = Some (map_of fs n))"
proof -
  obtain reg where reg: "TVMMutableFuncRegistry_Create buffer = Some (kTvmErrorNoError, Some reg)" "mr_rep reg []"
    "mr_max_functions reg = length buffer div 15" "mr_room reg [] + 2 + 4 * (length buffer div 15) = length buffer"
    using Create_ok [OF assms(1,2)] by blast
  have "mr_table reg Map.empty (length buffer div 15) (mr_room reg [])"
    unfolding mr_table_def using reg(2,3) by (intro exI [of _ "[]"]) simp
  moreover have "sum_list (map ((\<lambda>k. length k + 1) \<circ> fst) fs) < mr_room reg []"
  proof -
    have "map ((\<lambda>k. length k + 1) \<circ> fst) fs = map (\<lambda>(n, f). length n + 1) fs"
      by auto
    from arg_cong [OF this, of sum_list]
    have "sum_list (map ((\<lambda>k. length k + 1) \<circ> fst) fs) = sum_list (map (\<lambda>(n, f). length n + 1) fs)" .
    then show ?thesis
      using assms(6) reg(4) by linarith
  qed
  ultimately obtain reg' where "register_all mr_set reg fs False = Some (kTvmErrorNoError, reg')"
    "\<forall>k. cname k \<and> k \<noteq> [] \<longrightarrow> mr_find reg' k = Some (map_of fs k)"
    using table.register_all_find [OF _ assms(3,4,5), of reg "mr_room reg []" False] by blast
  then show ?thesis
    using reg(1) unfolding mr_find_def by blast
qed

lemma registry_round_trip_witness:
  "\<exists>reg reg'. TVMMutableFuncRegistry_Create (replicate 60 7) = Some (kTvmErrorNoError, Some reg)
    \<and> register_all mr_set reg [([65, 66], 0x1000), ([65], 0x2000)] False = Some (kTvmErrorNoError, reg')
    \<and> (\<forall>n. cname n \<longrightarrow> n \<noteq> [] \<longrightarrow>
          registry_find (mr_registry reg') (n @ [0]) = Some (map_of [([65, 66], 0x1000), ([65], 0x2000)] n))"
  by (rule registry_round_trip) (simp_all add: cname_def)

text \<open>
  A name that is registered is refused without the override flag, and with it the new function
  replaces the old one and no other name changes.
\<close>
lemma registry_override:
  assumes "mr_rep reg xs" and "cname n" and "n \<noteq> []" and "n \<in> fst ` set xs"
  shows "TVMMutableFuncRegistry_Set reg (n @ [0]) f False = Some (kTvmErrorFunctionAlreadyDefined, reg)
    \<and> (\<exists>reg'. TVMMutableFuncRegistry_Set reg (n @ [0]) f True = Some (kTvmErrorNoError, reg')
      \<and> registry_find (mr_registry reg') (n @ [0]) = Some (Some f)
      \<and> (\<forall>k. cname k \<longrightarrow> k \<noteq> [] \<longrightarrow> k \<noteq> n \<longrightarrow>
           registry_find (mr_registry reg') (k @ [0]) = registry_find (mr_registry reg) (k @ [0])))"
proof -
  obtain g where g: "map_of xs n = Some g"
    using assms(4) by (metis map_of_eq_None_iff option.exhaust)
  have "mr_table reg (map_of xs) (mr_max_functions reg - length xs) (mr_room reg xs)"
    unfolding mr_table_def using assms(1) by (intro exI [of _ xs]) (simp add: mr_rep_def)
  from table.override_wins [OF this _ g, of f] table.register_twice [OF this _ g, of f] show ?thesis
    unfolding mr_find_def mr_set_def using assms(2,3) by blast
qed

text \<open>The registry with one name, as bytes.\<close>

lemma le_bytes_2: "le_bytes 2 v = [of_nat v, of_nat (v div 256)]"
  by (simp add: numeral_2_eq_2)

definition one_registry :: mutable_func_registry where
  "one_registry = \<lparr>mr_buffer = [1, 0, 65, 0, 0, 9, 9, 0x34, 0x12, 0, 0, 7, 7, 7, 7], mr_funcs = 7, mr_max_functions = 2\<rparr>"

lemma one_registry_rep: "mr_rep one_registry [([65], 0x1234)]"
  by (rule mr_repI [where gap = "[9, 9]" and fs = "[0x34, 0x12, 0, 0, 7, 7, 7, 7]"])
    (simp_all add: one_registry_def names_ok_def cname_def le_bytes_2)

text \<open>
  A name that fills the space before the pointers exactly is accepted, and the end mark of the
  names is written into the first function pointer, whose low byte becomes zero.
\<close>
lemma registry_exact_fit_corrupts:
  assumes rep: "mr_rep reg ((m, g) # xs)" and n: "cname n" "n \<noteq> []" "n \<notin> fst ` set ((m, g) # xs)"
    and room: "length xs + 1 < mr_max_functions reg" "length n + 1 = mr_room reg ((m, g) # xs)"
  shows "\<exists>reg'. TVMMutableFuncRegistry_Set reg (n @ [0]) f override = Some (kTvmErrorNoError, reg')
    \<and> TVMFuncRegistry_GetByIndex (mr_registry reg') 0
        = Some (kTvmErrorNoError, Some (of_nat (unat g div 256 * 256)))"
proof -
  let ?xs = "(m, g) # xs"
  let ?b = "name_blob (map fst ?xs)" and ?N = "length ?xs"
  obtain gap fs where shape: "mr_buffer reg = le_bytes 2 ?N @ ?b @ 0 # gap @ fs"
    "mr_funcs reg = 3 + length ?b + length gap" "length fs = 4 * mr_max_functions reg"
    "take ?N (le_words fs) = map snd ?xs"
    using rep by (auto simp: mr_rep_def)
  have "4 \<le> length fs"
    using shape(3) room(1) by linarith
  then obtain a b c d bs where fs: "fs = a # b # c # d # bs"
    using length_4 [of "take 4 fs"] by (metis append_Cons append_Nil append_take_drop_id length_take min.absorb2)
  have g: "g = of_nat (le_value [a, b, c, d])"
    using shape(4) fs by simp
  define r where "r = unat b + 256 * (unat c + 256 * unat d)"
  have ab: "unat a < 256" "unat b < 256" "unat c < 256" "unat d < 256"
    using unsigned_less [of a] unsigned_less [of b] unsigned_less [of c] unsigned_less [of d] by simp_all
  have "unat g = unat a + 256 * r"
  proof -
    have "le_value [a, b, c, d] = unat a + 256 * r"
      by (simp add: r_def)
    moreover have "unat a + 256 * r < 2 ^ 32"
      using ab by (simp add: r_def)
    ultimately show ?thesis
      unfolding g by (simp only: unat_of_nat) simp
  qed
  then have g': "unat g div 256 * 256 = 256 * r"
    using ab(1) by simp
  have "length gap = length n"
    using room(2) shape(2) by (simp add: mr_room_def)
  let ?fs = "0 # b # c # d # bs"
  let ?fs' = "take (4 * ?N) ?fs @ le_bytes 4 (unat f) @ drop (4 * ?N + 4) ?fs"
  let ?pre = "le_bytes 2 ?N @ ?b @ n @ [0]"
  have fits: "4 * ?N + 4 \<le> length ?fs"
    using shape(3) room(1) fs by simp
  have "store_func reg (?pre @ ?fs) ?N f = Some (?pre @ ?fs')"
    using shape(2) \<open>length gap = length n\<close> fits by (intro store_func_append) simp_all
  then have run: "TVMMutableFuncRegistry_Set reg (n @ 0 # []) f override
    = Some (kTvmErrorNoError, reg\<lparr>mr_buffer := le_bytes 2 (?N + 1) @ ?b @ n @ 0 # ?fs'\<rparr>)"
    using shape(1,2) fs n room(1) \<open>length gap = length n\<close>
    by (intro Set_new_run [OF rep, where rest = gap and y = a and t = "b # c # d # bs"]) simp_all
  let ?reg = "reg\<lparr>mr_buffer := le_bytes 2 (?N + 1) @ ?b @ n @ 0 # ?fs'\<rparr>"
  have len: "?N + 1 < 2 ^ 16"
    using rep room(1) by (simp add: mr_rep_def)
  then have num: "TVMFuncRegistry_GetNumFuncs (mr_registry ?reg) = Some (of_nat (?N + 1))"
    by (simp add: TVMFuncRegistry_GetNumFuncs_def mr_registry_def le_value_le_bytes)
  have "drop (mr_funcs reg) (mr_buffer ?reg) = ?fs'"
    using shape(2) \<open>length gap = length n\<close> by simp
  then have "fr_funcs (mr_registry ?reg) = (le_words ?fs)[?N := f]"
    using le_words_store [OF fits, of f] by (simp add: mr_registry_def)
  then have "arr_get (fr_funcs (mr_registry ?reg)) 0 = Some (of_nat (le_value [0, b, c, d]))"
    by simp
  moreover have "of_nat (le_value [0, b, c, d]) = (of_nat (256 * r) :: u32)"
    by (simp add: r_def)
  moreover have "\<not> (0 :: u16) \<ge> of_nat (?N + 1)"
  proof -
    have "unat (of_nat (?N + 1) :: u16) = ?N + 1"
      using len by (simp only: unat_of_nat) simp
    then show ?thesis
      by (simp only: word_le_nat_alt) simp
  qed
  ultimately show ?thesis
    using run num g' by (intro exI [of _ ?reg]) (simp add: TVMFuncRegistry_GetByIndex_def)
qed

end
