(* ===== verification/Stack_Allocator.thy ===== *)
theory Stack_Allocator
  imports Crt_Prelude
begin

text \<open>
  The stack allocator of ahead-of-time models, \<^verbatim>\<open>memory/stack_allocator.c\<close>: blocks are cut off the
  front of a workspace and must be given back in the opposite order. With the order check on, each
  block is followed by a tag word with its size.
\<close>

section \<open>The code\<close>

text \<open>
  The workspace lies in memory, a function from addresses to bytes; \<^verbatim>\<open>nbytes\<close> is an \<^verbatim>\<open>int32_t\<close> and can
  be negative.
\<close>

record tvm_workspace =
  next_alloc :: addr
  workspace :: addr
  workspace_size :: nat

definition STACK_ALLOCATOR_TAG :: u32 where "STACK_ALLOCATOR_TAG = 0xabcd1234"
definition STACK_ALLOCATOR_TAG_SIZE_BYTES :: int where "STACK_ALLOCATOR_TAG_SIZE_BYTES = 4"
definition TVM_RUNTIME_ALLOC_ALIGNMENT_BYTES :: int where "TVM_RUNTIME_ALLOC_ALIGNMENT_BYTES = 16"

lemmas stack_consts = STACK_ALLOCATOR_TAG_def STACK_ALLOCATOR_TAG_SIZE_BYTES_def TVM_RUNTIME_ALLOC_ALIGNMENT_BYTES_def

definition load_u32 :: "(addr \<Rightarrow> u8) \<Rightarrow> addr \<Rightarrow> u32" where
  "load_u32 mem a = of_nat (le_value [mem a, mem (a + 1), mem (a + 2), mem (a + 3)])"

definition store_u32 :: "(addr \<Rightarrow> u8) \<Rightarrow> addr \<Rightarrow> u32 \<Rightarrow> addr \<Rightarrow> u8" where
  "store_u32 mem a w = (\<lambda>x. if a \<le> x \<and> x < a + 4 then le_bytes 4 (unat w) ! nat (x - a) else mem x)"

text \<open>
  The result: the error, the block if \<^verbatim>\<open>*current_alloc\<close> was written, the workspace and the memory.
\<close>

definition StackMemoryManager_Allocate_Body ::
    "tvm_workspace \<Rightarrow> (addr \<Rightarrow> u8) \<Rightarrow> int \<Rightarrow> bool
     \<Rightarrow> tvm_crt_error \<times> addr option \<times> tvm_workspace \<times> (addr \<Rightarrow> u8)" where
  "StackMemoryManager_Allocate_Body ws mem nbytes do_lifo_check =
     (let offset_bytes = (TVM_RUNTIME_ALLOC_ALIGNMENT_BYTES - nbytes) AND (TVM_RUNTIME_ALLOC_ALIGNMENT_BYTES - 1);
          workspace_end = workspace ws + int (workspace_size ws)
      in if next_alloc ws + nbytes + offset_bytes > workspace_end
         then (kTvmErrorPlatformNoMemory, None, ws, mem)
         else
           let current_alloc = next_alloc ws;
               nxt = next_alloc ws + nbytes + offset_bytes
           in if do_lifo_check
              then
                if nxt + STACK_ALLOCATOR_TAG_SIZE_BYTES > workspace_end
                then (kTvmErrorPlatformNoMemory, Some current_alloc, ws, mem)
                else
                  let total_size = of_int (nbytes + offset_bytes + STACK_ALLOCATOR_TAG_SIZE_BYTES);
                      mem = store_u32 mem nxt (total_size XOR STACK_ALLOCATOR_TAG)
                  in (kTvmErrorNoError, Some current_alloc,
                      ws\<lparr>next_alloc := nxt + STACK_ALLOCATOR_TAG_SIZE_BYTES\<rparr>, mem)
              else (kTvmErrorNoError, Some current_alloc, ws\<lparr>next_alloc := nxt\<rparr>, mem))"

text \<open>The check is a compile-time option, which this project does not set.\<close>

definition StackMemoryManager_Allocate ::
    "tvm_workspace \<Rightarrow> (addr \<Rightarrow> u8) \<Rightarrow> int \<Rightarrow> tvm_crt_error \<times> addr option \<times> tvm_workspace \<times> (addr \<Rightarrow> u8)" where
  "StackMemoryManager_Allocate ws mem nbytes = StackMemoryManager_Allocate_Body ws mem nbytes False"

definition StackMemoryManager_Free_Body ::
    "tvm_workspace \<Rightarrow> (addr \<Rightarrow> u8) \<Rightarrow> addr \<Rightarrow> bool \<Rightarrow> tvm_crt_error \<times> tvm_workspace" where
  "StackMemoryManager_Free_Body ws mem ptr do_lifo_check =
     (let tag = load_u32 mem (next_alloc ws - 4);
          actual_size = of_int (next_alloc ws - ptr);
          expected_size = tag XOR STACK_ALLOCATOR_TAG
      in if do_lifo_check \<and> expected_size \<noteq> actual_size
         then (kTvmErrorPlatformStackAllocBadFree, ws)
         else (kTvmErrorNoError, ws\<lparr>next_alloc := ptr\<rparr>))"

definition StackMemoryManager_Free :: "tvm_workspace \<Rightarrow> (addr \<Rightarrow> u8) \<Rightarrow> addr \<Rightarrow> tvm_crt_error \<times> tvm_workspace" where
  "StackMemoryManager_Free ws mem ptr = StackMemoryManager_Free_Body ws mem ptr False"

definition StackMemoryManager_Init :: "addr \<Rightarrow> nat \<Rightarrow> tvm_crt_error \<times> tvm_workspace" where
  "StackMemoryManager_Init g_aot_memory sz =
     (let unaligned_mask = TVM_RUNTIME_ALLOC_ALIGNMENT_BYTES - 1;
          memory_aligned = (g_aot_memory + unaligned_mask) AND NOT unaligned_mask;
          offset = nat (memory_aligned - g_aot_memory)
      in (kTvmErrorNoError,
          \<lparr>next_alloc = memory_aligned, workspace = memory_aligned, workspace_size = size_sub sz offset\<rparr>))"

section \<open>Rounding\<close>

lemma and_15: "(x :: int) AND 15 = x mod 16"
  using take_bit_eq_mask [of 4 x] by (simp add: take_bit_eq_mod mask_eq_exp_minus_1)

lemma and_minus_16: "(x :: int) AND - 16 = x - x mod 16"
proof -
  have m: "(- 16 :: int) = NOT (mask 4)"
    by (simp add: mask_eq_exp_minus_1 not_int_def)
  have "x AND - 16 = push_bit 4 (drop_bit 4 x)"
    unfolding m by (rule bit_eqI) (auto simp: bit_simps)
  also have "\<dots> = x - x mod 16"
    using bits_ident [of 4 x] by (simp add: take_bit_eq_mod)
  finally show ?thesis .
qed

lemma Init_aligned:
  assumes "StackMemoryManager_Init a n = (e, ws)"
  shows "next_alloc ws mod 16 = 0" and "workspace ws = next_alloc ws" and "a \<le> next_alloc ws" and "next_alloc ws < a + 16"
    and "15 \<le> n \<Longrightarrow> next_alloc ws + int (workspace_size ws) = a + int n"
proof -
  have nxt: "next_alloc ws = (a + 15) - (a + 15) mod 16" and w: "workspace ws = next_alloc ws"
    and s: "workspace_size ws = size_sub n (nat (next_alloc ws - a))"
    using assms by (auto simp: StackMemoryManager_Init_def stack_consts and_minus_16 Let_def)
  show "next_alloc ws mod 16 = 0" "a \<le> next_alloc ws" "next_alloc ws < a + 16"
    unfolding nxt by presburger+
  then show "15 \<le> n \<Longrightarrow> next_alloc ws + int (workspace_size ws) = a + int n"
    unfolding s by (simp add: size_sub_def)
  show "workspace ws = next_alloc ws"
    by (rule w)
qed

lemma load_store [simp]: "load_u32 (store_u32 mem a w) a = w"
proof -
  have "le_value (le_bytes 4 (unat w)) = unat w"
    using unsigned_less [of w, where ?'a = nat] by (simp add: le_value_le_bytes)
  moreover obtain p q r s where e: "le_bytes 4 (unat w) = [p, q, r, s]"
    using length_le_bytes [of 4 "unat w"] by (auto simp: length_Suc_conv numeral_eq_Suc simp del: length_le_bytes le_bytes.simps)
  ultimately show ?thesis
    unfolding load_u32_def store_u32_def e by (simp del: le_value.simps)
qed

lemma load_cong: "(\<And>x. a \<le> x \<Longrightarrow> x < a + 4 \<Longrightarrow> mem' x = mem x) \<Longrightarrow> load_u32 mem' a = load_u32 mem a"
  by (simp add: load_u32_def)

section \<open>The stack of blocks\<close>

text \<open>
  The blocks handed out, newest first, with the sizes asked for: they follow each other from \<open>lo\<close> to
  \<open>e\<close>, and the last four bytes before the next block hold the tag.
\<close>

fun st_chain :: "addr \<Rightarrow> (addr \<Rightarrow> u8) \<Rightarrow> (addr \<times> nat) list \<Rightarrow> addr \<Rightarrow> bool" where
  "st_chain lo mem [] e \<longleftrightarrow> e = lo"
| "st_chain lo mem ((p, n) # bs) e \<longleftrightarrow> p + int n \<le> e - 4
     \<and> load_u32 mem (e - 4) = of_int (e - p) XOR STACK_ALLOCATOR_TAG \<and> st_chain lo mem bs p"

lemma st_chain_le: "st_chain lo mem bs e \<Longrightarrow> lo \<le> e"
  by (induction bs arbitrary: e) (auto, fastforce)

lemma st_chain_range: "st_chain lo mem bs e \<Longrightarrow> (q, m) \<in> set bs \<Longrightarrow> lo \<le> q \<and> q + int m \<le> e - 4"
proof (induction bs arbitrary: e)
  case (Cons b bs)
  obtain p n where b: "b = (p, n)"
    by fastforce
  with Cons.prems have p: "p + int n \<le> e - 4" "st_chain lo mem bs p"
    by auto
  show ?case
    using Cons.IH [OF p(2)] st_chain_le [OF p(2)] Cons.prems(2) b p(1) by auto
qed simp

lemma st_chain_cong:
  "(\<And>x. x < e \<Longrightarrow> mem' x = mem x) \<Longrightarrow> st_chain lo mem' bs e = st_chain lo mem bs e"
proof (induction bs arbitrary: e)
  case (Cons b bs)
  obtain p n where b: "b = (p, n)"
    by fastforce
  have "load_u32 mem' (e - 4) = load_u32 mem (e - 4)"
    by (rule load_cong) (use Cons.prems in simp)
  moreover have "st_chain lo mem' bs p = st_chain lo mem bs p" if "p + int n \<le> e - 4"
    using Cons.IH [of p] Cons.prems that by simp
  ultimately show ?case
    unfolding b by auto
qed simp

text \<open>A write inside a block leaves the tags alone.\<close>

lemma st_chain_poke:
  "st_chain lo mem bs e \<Longrightarrow> (q, m) \<in> set bs \<Longrightarrow> q \<le> a \<Longrightarrow> a < q + int m \<Longrightarrow> st_chain lo (mem(a := v)) bs e"
proof (induction bs arbitrary: e)
  case (Cons b bs)
  obtain p n where b: "b = (p, n)"
    by fastforce
  with Cons.prems have p: "p + int n \<le> e - 4" "st_chain lo mem bs p"
    and tag: "load_u32 mem (e - 4) = of_int (e - p) XOR STACK_ALLOCATOR_TAG"
    by auto
  have a: "a < e - 4"
    using st_chain_range [OF Cons.prems(1,2)] Cons.prems(4) by simp
  then have "load_u32 (mem(a := v)) (e - 4) = of_int (e - p) XOR STACK_ALLOCATOR_TAG"
    unfolding tag [symmetric] by (intro load_cong) simp
  moreover have "st_chain lo (mem(a := v)) bs p"
  proof (cases "(q, m) \<in> set bs")
    case True
    then show ?thesis
      by (rule Cons.IH [OF p(2) _ Cons.prems(3,4)])
  next
    case False
    then have "p \<le> a"
      using Cons.prems(2,3) b by simp
    then show ?thesis
      using p(2) st_chain_cong [of p "mem(a := v)" mem lo bs] by simp
  qed
  ultimately show ?case
    unfolding b st_chain.simps using p(1) by blast
qed simp

lemma offset_bounds:
  fixes n :: int
  shows "0 \<le> (16 - n) AND 15" and "(16 - n) AND 15 < 16" and "(n + ((16 - n) AND 15)) mod 16 = 0"
  unfolding and_15 by presburger+

definition st_inv :: "tvm_workspace \<Rightarrow> (addr \<Rightarrow> u8) \<Rightarrow> (addr \<times> nat) list \<Rightarrow> bool" where
  "st_inv ws mem bs \<longleftrightarrow> workspace_size ws < 2 ^ 32 \<and> st_chain (workspace ws) mem bs (next_alloc ws)
     \<and> next_alloc ws \<le> workspace ws + int (workspace_size ws)"

lemma Allocate_cases:
  assumes "st_inv ws mem bs"
  shows "(\<exists>ws' mem'. StackMemoryManager_Allocate_Body ws mem (int n) True
        = (kTvmErrorNoError, Some (next_alloc ws), ws', mem')
      \<and> st_inv ws' mem' ((next_alloc ws, n) # bs)
      \<and> workspace ws' = workspace ws \<and> workspace_size ws' = workspace_size ws)
    \<or> (\<exists>p. StackMemoryManager_Allocate_Body ws mem (int n) True = (kTvmErrorPlatformNoMemory, p, ws, mem))"
proof -
  let ?o = "(16 - int n) AND 15" and ?lim = "workspace ws + int (workspace_size ws)"
  let ?e = "next_alloc ws + int n + ?o"
  show ?thesis
  proof (cases "?e + 4 \<le> ?lim")
    case True
    let ?mem = "store_u32 mem ?e (of_int (int n + ?o + 4) XOR STACK_ALLOCATOR_TAG)"
    let ?ws = "ws\<lparr>next_alloc := ?e + 4\<rparr>"
    have run: "StackMemoryManager_Allocate_Body ws mem (int n) True
        = (kTvmErrorNoError, Some (next_alloc ws), ?ws, ?mem)"
      unfolding StackMemoryManager_Allocate_Body_def stack_consts(2,3) Let_def using True by simp
    have "st_chain (workspace ws) ?mem bs (next_alloc ws) = st_chain (workspace ws) mem bs (next_alloc ws)"
    proof (rule st_chain_cong)
      fix x
      assume "x < next_alloc ws"
      then have "\<not> ?e \<le> x"
        using offset_bounds(1) [of "int n"] by linarith
      then show "?mem x = mem x"
        by (simp only: store_u32_def) simp
    qed
    then have "st_inv ?ws ?mem ((next_alloc ws, n) # bs)"
      using assms True offset_bounds(1) [of "int n"] by (simp add: st_inv_def algebra_simps)
    then show ?thesis
      using run by (intro disjI1 exI [of _ ?ws] exI [of _ ?mem]) simp
  next
    case False
    then have "\<exists>p. StackMemoryManager_Allocate_Body ws mem (int n) True = (kTvmErrorPlatformNoMemory, p, ws, mem)"
      unfolding StackMemoryManager_Allocate_Body_def stack_consts(2,3) Let_def by simp
    then show ?thesis ..
  qed
qed

lemma Free_top:
  assumes "st_inv ws mem ((p, n) # bs)"
  shows "StackMemoryManager_Free_Body ws mem p True = (kTvmErrorNoError, ws\<lparr>next_alloc := p\<rparr>)"
    and "st_inv (ws\<lparr>next_alloc := p\<rparr>) mem bs"
  using assms by (auto simp: StackMemoryManager_Free_Body_def st_inv_def word_bw_assocs)

lemma Free_other:
  assumes "st_inv ws mem ((p, n) # bs)" and "(q, m) \<in> set bs"
  shows "StackMemoryManager_Free_Body ws mem q True = (kTvmErrorPlatformStackAllocBadFree, ws)"
proof -
  let ?e = "next_alloc ws"
  have chain: "p + int n \<le> ?e - 4" "st_chain (workspace ws) mem bs p"
    "load_u32 mem (?e - 4) = of_int (?e - p) XOR STACK_ALLOCATOR_TAG"
    and sz: "workspace_size ws < 2 ^ 32" "?e \<le> workspace ws + int (workspace_size ws)"
    using assms(1) by (auto simp: st_inv_def)
  have q: "workspace ws \<le> q" "q < p"
    using st_chain_range [OF chain(2) assms(2)] by auto
  have r: "0 \<le> ?e - p" "?e - p < ?e - q" "?e - q < 2 ^ 32"
    using q sz chain(1) by auto
  have "(of_int (?e - p) :: u32) \<noteq> of_int (?e - q)"
  proof
    assume "(of_int (?e - p) :: u32) = of_int (?e - q)"
    then have "uint (of_int (?e - p) :: u32) = uint (of_int (?e - q) :: u32)"
      by simp
    then show False
      using r by (simp only: uint_word_of_int) simp
  qed
  then show ?thesis
    using chain(3) by (simp add: StackMemoryManager_Free_Body_def word_bw_assocs)
qed

text \<open>
  A client: it asks for a block, gives back the newest one, or writes a byte into a block it holds (a
  write elsewhere is skipped). A free that fails stops the run.
\<close>

datatype stack_op = Push nat | Pop | Poke addr u8

fun stack_client ::
    "tvm_workspace \<Rightarrow> (addr \<Rightarrow> u8) \<Rightarrow> (addr \<times> nat) list \<Rightarrow> stack_op list
     \<Rightarrow> (tvm_workspace \<times> (addr \<Rightarrow> u8) \<times> (addr \<times> nat) list) option" where
  "stack_client ws mem bs [] = Some (ws, mem, bs)"
| "stack_client ws mem bs (Push n # ops) =
     (case StackMemoryManager_Allocate_Body ws mem (int n) True of (e, p, ws, mem) \<Rightarrow>
        stack_client ws mem (if e = kTvmErrorNoError then (the p, n) # bs else bs) ops)"
| "stack_client ws mem bs (Pop # ops) =
     (case bs of
        [] \<Rightarrow> stack_client ws mem bs ops
      | (p, n) # bs \<Rightarrow>
          (case StackMemoryManager_Free_Body ws mem p True of (e, ws) \<Rightarrow>
             if e = kTvmErrorNoError then stack_client ws mem bs ops else None))"
| "stack_client ws mem bs (Poke a v # ops) =
     stack_client ws (if \<exists>(p, n) \<in> set bs. p \<le> a \<and> a < p + int n then mem(a := v) else mem) bs ops"

lemma stack_client_inv:
  "st_inv ws mem bs \<Longrightarrow> \<exists>ws' mem' bs'. stack_client ws mem bs ops = Some (ws', mem', bs')
     \<and> st_inv ws' mem' bs' \<and> workspace ws' = workspace ws \<and> workspace_size ws' = workspace_size ws"
proof (induction ws mem bs ops rule: stack_client.induct)
  case (1 ws mem bs)
  then show ?case by simp
next
  case (2 ws mem bs n ops)
  from Allocate_cases [OF "2.prems", of n] show ?case
  proof (elim disjE exE conjE)
    fix ws' mem'
    assume a: "StackMemoryManager_Allocate_Body ws mem (int n) True = (kTvmErrorNoError, Some (next_alloc ws), ws', mem')"
      "st_inv ws' mem' ((next_alloc ws, n) # bs)" "workspace ws' = workspace ws" "workspace_size ws' = workspace_size ws"
    then show ?thesis
      using "2.IH" [OF a(1) [symmetric] refl refl] by simp
  next
    fix p
    assume a: "StackMemoryManager_Allocate_Body ws mem (int n) True = (kTvmErrorPlatformNoMemory, p, ws, mem)"
    then show ?thesis
      using "2.IH" [OF a [symmetric] refl refl] "2.prems" by simp
  qed
next
  case (3 ws mem bs ops)
  show ?case
  proof (cases bs)
    case Nil
    then show ?thesis
      using "3.IH"(1) "3.prems" by simp
  next
    case (Cons b bs')
    obtain p n where b: "b = (p, n)"
      by fastforce
    note free = Free_top [OF "3.prems" [unfolded Cons b]]
    show ?thesis
      using "3.IH"(2) [OF Cons b [symmetric] free(1) [symmetric] refl] free Cons b by simp
  qed
next
  case (4 ws mem bs a v ops)
  have "st_inv ws (if \<exists>(p, n) \<in> set bs. p \<le> a \<and> a < p + int n then mem(a := v) else mem) bs"
    using "4.prems" st_chain_poke by (fastforce simp: st_inv_def)
  then show ?case
    using "4.IH" by simp
qed

text \<open>The blocks of a stack are apart from each other.\<close>

lemma st_chain_apart:
  "st_chain lo mem bs e \<Longrightarrow> i < j \<Longrightarrow> j < length bs \<Longrightarrow>
   fst (bs ! j) + int (snd (bs ! j)) \<le> fst (bs ! i)"
proof (induction bs arbitrary: e i j)
  case (Cons b bs)
  obtain p n where b: "b = (p, n)"
    by fastforce
  with Cons.prems have p: "st_chain lo mem bs p"
    by auto
  obtain j' where j: "j = Suc j'" "j' < length bs"
    using Cons.prems(2,3) by (cases j) auto
  show ?case
  proof (cases i)
    case 0
    have "(fst (bs ! j'), snd (bs ! j')) \<in> set bs"
      using j(2) by simp
    from st_chain_range [OF p this] show ?thesis
      using 0 j b by simp
  next
    case (Suc i')
    then show ?thesis
      using Cons.IH [OF p, of i' j'] Cons.prems(2) j by simp
  qed
qed simp

text \<open>
  C17. With the order check on, a client of a fresh workspace that gives back the newest block first
  and writes only into its own blocks never gets an error from a free; its blocks stay inside the
  memory given and apart from each other, and once all are given back the workspace is empty again.
\<close>
theorem stack_client_safe:
  assumes "StackMemoryManager_Init base sz = (e, ws)" and "15 \<le> sz" and "sz < 2 ^ 32"
  shows "\<exists>ws' mem' bs. stack_client ws mem [] ops = Some (ws', mem', bs)
    \<and> (\<forall>(p, n) \<in> set bs. base \<le> p \<and> p + int n \<le> base + int sz)
    \<and> (\<forall>i j. i < j \<longrightarrow> j < length bs \<longrightarrow> fst (bs ! j) + int (snd (bs ! j)) \<le> fst (bs ! i))
    \<and> (bs = [] \<longrightarrow> next_alloc ws' = next_alloc ws)"
proof -
  note init = Init_aligned [OF assms(1)]
  have "workspace_size ws \<le> sz"
    using init(3,5) assms(2) by simp
  then have "st_inv ws mem []"
    using init(2) assms(3) by (simp add: st_inv_def)
  from stack_client_inv [OF this, of ops] obtain ws' mem' bs where run:
    "stack_client ws mem [] ops = Some (ws', mem', bs)" "st_inv ws' mem' bs"
    "workspace ws' = workspace ws" "workspace_size ws' = workspace_size ws"
    by blast
  have chain: "st_chain (workspace ws) mem' bs (next_alloc ws')" "next_alloc ws' \<le> base + int sz"
    using run(2-4) init(2,5) assms(2) by (simp_all add: st_inv_def)
  have "base \<le> p \<and> p + int n \<le> base + int sz" if "(p, n) \<in> set bs" for p n
    using st_chain_range [OF chain(1) that] chain(2) init(2,3) by simp
  moreover have "next_alloc ws' = next_alloc ws" if "bs = []"
    using chain(1) init(2) that by simp
  ultimately show ?thesis
    using run(1) st_chain_apart [OF chain(1)] by (intro exI [of _ ws'] exI [of _ mem'] exI [of _ bs]) auto
qed

lemma stack_client_safe_witness:
  "\<exists>ws' mem' bs. stack_client \<lparr>next_alloc = 112, workspace = 112, workspace_size = 188\<rparr> (\<lambda>_. 0) []
        [Push 20, Push 8, Poke 150 7, Pop, Push 40] = Some (ws', mem', bs)
    \<and> (\<forall>(p, n) \<in> set bs. 100 \<le> p \<and> p + int n \<le> 100 + int 200)
    \<and> (\<forall>i j. i < j \<longrightarrow> j < length bs \<longrightarrow> fst (bs ! j) + int (snd (bs ! j)) \<le> fst (bs ! i))
    \<and> (bs = [] \<longrightarrow> next_alloc ws' = next_alloc \<lparr>next_alloc = 112, workspace = 112, workspace_size = 188\<rparr>)"
  by (rule stack_client_safe [where e = kTvmErrorNoError])
    (simp_all add: StackMemoryManager_Init_def stack_consts Let_def)

text \<open>
  With the order check on, giving back a block that is not the newest one is reported as a bad
  free, whatever was written into the blocks, and the workspace does not change.
\<close>
lemma stack_detects_wrong_order:
  assumes "StackMemoryManager_Init base sz = (e, ws)" and "15 \<le> sz" and "sz < 2 ^ 32"
    and "stack_client ws mem [] ops = Some (ws', mem', b # bs)" and "(q, m) \<in> set bs"
  shows "StackMemoryManager_Free_Body ws' mem' q True = (kTvmErrorPlatformStackAllocBadFree, ws')"
proof -
  note init = Init_aligned [OF assms(1)]
  have "workspace_size ws \<le> sz"
    using init(3,5) assms(2) by simp
  then have "st_inv ws mem []"
    using init(2) assms(3) by (simp add: st_inv_def)
  then have "st_inv ws' mem' (b # bs)"
    using stack_client_inv [of ws mem "[]" ops] assms(4) by auto
  then show ?thesis
    using Free_other [of ws' mem' "fst b" "snd b" bs q m] assms(5) by simp
qed

text \<open>
  Without the check every block of a fresh workspace begins at a multiple of 16. With it, the tag
  moves the next block to 4 bytes past one: the check breaks the alignment the allocator is there for.
\<close>
lemma stack_alignment:
  assumes "next_alloc ws mod 16 = 0"
    and "StackMemoryManager_Allocate_Body ws mem n check = (kTvmErrorNoError, Some p, ws', mem')"
  shows "p mod 16 = 0 \<and> next_alloc ws' mod 16 = (if check then 4 else 0)"
proof -
  let ?o = "(16 - n) AND 15"
  have sum: "(a + b + (if check then 4 else 0)) mod 16 = (if check then 4 else 0)"
    if "a mod 16 = 0" "b mod 16 = 0" for a b :: int
    using that by (cases check; simp; presburger)
  have nxt: "p = next_alloc ws" "next_alloc ws' = next_alloc ws + (n + ?o) + (if check then 4 else 0)"
    using assms(2) unfolding StackMemoryManager_Allocate_Body_def stack_consts(2,3) Let_def
    by (auto split: if_splits)
  show ?thesis
    unfolding nxt using assms(1) sum [OF assms(1) offset_bounds(3) [of n]] by simp
qed

end
