(* ===== verification/Platform.thy ===== *)
theory Platform
  imports Complex_Main Page_Allocator
begin

text \<open>
  The platform functions the runtime calls, from \<^verbatim>\<open>src/host_driven/main.cc\<close>: memory from the one
  page allocator, the timer over the cycle counter, and the random bytes. The CPU's counter register
  and the uninitialised word are arguments.
\<close>

section \<open>Memory\<close>

text \<open>The device argument is not used.\<close>

definition TVMPlatformMemoryAllocate ::
    "memory_manager \<Rightarrow> nat \<Rightarrow> (tvm_crt_error \<times> addr \<times> memory_manager) option" where
  "TVMPlatformMemoryAllocate mgr num_bytes = PageMemoryManager_Allocate mgr num_bytes"

definition TVMPlatformMemoryFree ::
    "memory_manager \<Rightarrow> addr \<Rightarrow> (tvm_crt_error \<times> memory_manager) option" where
  "TVMPlatformMemoryFree mgr ptr = PageMemoryManager_Free mgr ptr"

interpretation platform: allocator TVMPlatformMemoryAllocate TVMPlatformMemoryFree pm_inv pm_low pm_high pm_fits
proof -
  have "TVMPlatformMemoryAllocate = PageMemoryManager_Allocate" "TVMPlatformMemoryFree = PageMemoryManager_Free"
    by (simp_all add: fun_eq_iff TVMPlatformMemoryAllocate_def TVMPlatformMemoryFree_def)
  then show "allocator TVMPlatformMemoryAllocate TVMPlatformMemoryFree pm_inv pm_low pm_high pm_fits"
    by (simp add: heap.allocator_axioms)
qed

section \<open>The timer\<close>

text \<open>
  The counter is a 32-bit register. The seconds are a rational number in place of a \<^verbatim>\<open>double\<close>: the
  cycle count is exact in a \<^verbatim>\<open>double\<close>, the quotient is rounded there.
\<close>

record platform_timer =
  g_utvm_start_time_micros :: u32
  g_utvm_timer_running :: bool

definition TVMPlatformTimerStart :: "u32 \<Rightarrow> platform_timer \<Rightarrow> tvm_crt_error \<times> platform_timer" where
  "TVMPlatformTimerStart csr t =
     (if g_utvm_timer_running t then (kTvmErrorPlatformTimerBadState, t)
      else (kTvmErrorNoError, \<lparr>g_utvm_start_time_micros = csr, g_utvm_timer_running = True\<rparr>))"

definition TVMPlatformTimerStop :: "u32 \<Rightarrow> platform_timer \<Rightarrow> tvm_crt_error \<times> rat option \<times> platform_timer" where
  "TVMPlatformTimerStop csr t =
     (if \<not> g_utvm_timer_running t then (kTvmErrorPlatformTimerBadState, None, t)
      else
        let stop = csr;
            start = g_utvm_start_time_micros t;
            t = t\<lparr>g_utvm_timer_running := False\<rparr>
        in if stop < start
           then (kTvmErrorNoError, Some (of_int (2 ^ 32 - uint (start - stop)) / 100000000), t)
           else (kTvmErrorNoError, Some (of_int (uint (stop - start)) / 100000000), t))"

lemma timer_stop_value:
  assumes "n < 2 ^ 32"
  shows "TVMPlatformTimerStop (c + of_nat n) \<lparr>g_utvm_start_time_micros = c, g_utvm_timer_running = True\<rparr>
    = (kTvmErrorNoError, Some (of_nat n / 100000000), \<lparr>g_utvm_start_time_micros = c, g_utvm_timer_running = False\<rparr>)"
proof (cases "c + of_nat n < c")
  case True
  then have "n \<noteq> 0"
    by (intro notI) simp
  have "uint (c - (c + of_nat n)) = 2 ^ 32 - int n"
  proof -
    have "c - (c + of_nat n) = of_int (- int n)"
      by simp
    then have "uint (c - (c + of_nat n)) = (- int n) mod 2 ^ 32"
      by (simp only: uint_word_of_int) simp
    also have "\<dots> = 2 ^ 32 - int n"
      using assms \<open>n \<noteq> 0\<close> by (simp add: zmod_zminus1_eq_if)
    finally show ?thesis .
  qed
  then show ?thesis
    using True by (simp add: TVMPlatformTimerStop_def Let_def)
next
  case False
  have "uint (c + of_nat n - c) = int n"
    using assms by (simp add: uint_nat unat_of_nat)
  then show ?thesis
    using False by (simp add: TVMPlatformTimerStop_def Let_def)
qed

text \<open>
  C29. A timer that is started and stopped less than \<open>2 ^ 32\<close> cycles later reports exactly the cycles
  between, also when the counter has wrapped, and can be started again.
\<close>
theorem timer_measures:
  assumes "\<not> g_utvm_timer_running t" and "n < 2 ^ 32"
    and "TVMPlatformTimerStart c t = (e, t')"
  shows "e = kTvmErrorNoError \<and> TVMPlatformTimerStart d t' = (kTvmErrorPlatformTimerBadState, t')
    \<and> (\<exists>t''. TVMPlatformTimerStop (c + of_nat n) t' = (kTvmErrorNoError, Some (of_nat n / 100000000), t'')
         \<and> \<not> g_utvm_timer_running t'')"
  using assms(1,3) timer_stop_value [OF assms(2), of c] by (auto simp: TVMPlatformTimerStart_def)

lemma timer_measures_witness:
  "kTvmErrorNoError = kTvmErrorNoError
    \<and> TVMPlatformTimerStart 9 \<lparr>g_utvm_start_time_micros = 0xfffffff0, g_utvm_timer_running = True\<rparr>
      = (kTvmErrorPlatformTimerBadState, \<lparr>g_utvm_start_time_micros = 0xfffffff0, g_utvm_timer_running = True\<rparr>)
    \<and> (\<exists>t''. TVMPlatformTimerStop (0xfffffff0 + of_nat 32) \<lparr>g_utvm_start_time_micros = 0xfffffff0, g_utvm_timer_running = True\<rparr>
          = (kTvmErrorNoError, Some (of_nat 32 / 100000000), t'')
         \<and> \<not> g_utvm_timer_running t'')"
  by (rule timer_measures [where t = "\<lparr>g_utvm_start_time_micros = 0, g_utvm_timer_running = False\<rparr>"])
    (simp_all add: TVMPlatformTimerStart_def)

section \<open>Random bytes\<close>

text \<open>\<open>random\<close> is the value of the variable, which the code never sets: it is what lies on the stack.\<close>

definition TVMPlatformGenerateRandom :: "u32 \<Rightarrow> nat \<Rightarrow> tvm_crt_error \<times> u8 list" where
  "TVMPlatformGenerateRandom random num_bytes =
     (let num_full_blocks = num_bytes div 4;
          num_tail_bytes = num_bytes mod 4
      in (kTvmErrorNoError,
          concat (replicate num_full_blocks (le_bytes 4 (unat random))) @ take num_tail_bytes (le_bytes 4 (unat random))))"

lemma GenerateRandom_length: "length (snd (TVMPlatformGenerateRandom random n)) = n"
  by (simp add: TVMPlatformGenerateRandom_def Let_def length_concat sum_list_replicate)

end
