(* ===== verification/Json_Reader.thy ===== *)
theory Json_Reader
  imports Platform
begin

text \<open>
  The JSON reader of the graph executor, \<^verbatim>\<open>graph_executor/load_json.c\<close>: a cursor into a copy of the
  text, a stack that counts the items of the open arrays and objects, and operations that read one
  token each. Malformed text is only complained about on the error stream; the number of complaints
  is part of the state here.
\<close>

section \<open>A sequence of counters\<close>

text \<open>\<^verbatim>\<open>data\<close> is the array behind the pointer; both blocks have an address, for their release.\<close>

record seq =
  seq_data :: "nat list"
  seq_allocated :: nat
  seq_size :: nat
  seq_at :: addr
  seq_data_at :: addr

text \<open>The complaint is printed and the access follows all the same; the flag says that it was printed.\<close>

definition SeqPush :: "seq \<Rightarrow> nat \<Rightarrow> (bool \<times> seq) option" where
  "SeqPush s src = do {
     data \<leftarrow> arr_set (seq_data s) (seq_size s) (src mod 2 ^ 32);
     Some (seq_size s \<ge> seq_allocated s, s\<lparr>seq_data := data, seq_size := seq_size s + 1\<rparr>)
   }"

text \<open>The value of \<^verbatim>\<open>seq->back(seq)[0]\<close>, and the assignment to it.\<close>

definition SeqBack :: "seq \<Rightarrow> (bool \<times> nat) option" where
  "SeqBack s = do {
     CHECK (seq_size s \<noteq> 0);
     v \<leftarrow> arr_get (seq_data s) (seq_size s - 1);
     Some (seq_size s \<ge> seq_allocated s, v)
   }"

definition SeqBack_incr :: "seq \<Rightarrow> (bool \<times> seq) option" where
  "SeqBack_incr s = do {
     (msg, v) \<leftarrow> SeqBack s;
     data \<leftarrow> arr_set (seq_data s) (seq_size s - 1) ((v + 1) mod 2 ^ 32);
     Some (msg, s\<lparr>seq_data := data\<rparr>)
   }"

definition SeqPop :: "seq \<Rightarrow> nat \<times> seq" where
  "SeqPop s =
     (of_bool (seq_size s \<ge> seq_allocated s) + of_bool (seq_size s = 0),
      s\<lparr>seq_size := size_sub (seq_size s) 1\<rparr>)"

definition sizeof_Seq :: nat where "sizeof_Seq = 32"

text \<open>The block of the counters is not cleared: its old content is the argument \<open>garbage\<close>.\<close>

definition SeqCreate ::
    "memory_manager \<Rightarrow> nat \<Rightarrow> nat list \<Rightarrow> (tvm_crt_error \<times> seq option \<times> memory_manager) option" where
  "SeqCreate mgr len garbage = do {
     (err, p, mgr) \<leftarrow> TVMPlatformMemoryAllocate mgr sizeof_Seq;
     if err \<noteq> kTvmErrorNoError then Some (err, None, mgr)
     else do {
       (err, d, mgr) \<leftarrow> TVMPlatformMemoryAllocate mgr ((4 * len) mod 2 ^ 32);
       if err \<noteq> kTvmErrorNoError then Some (err, None, mgr)
       else Some (err, Some \<lparr>seq_data = take len (garbage @ replicate len 0), seq_allocated = len, seq_size = 0,
              seq_at = p, seq_data_at = d\<rparr>, mgr)
     }
   }"

definition SeqRelease :: "memory_manager \<Rightarrow> seq \<Rightarrow> (tvm_crt_error \<times> memory_manager) option" where
  "SeqRelease mgr s = do {
     (err, mgr) \<leftarrow> TVMPlatformMemoryFree mgr (seq_data_at s);
     if err \<noteq> kTvmErrorNoError then Some (err, mgr)
     else TVMPlatformMemoryFree mgr (seq_at s)
   }"

section \<open>Characters\<close>

text \<open>
  \<^verbatim>\<open>char\<close> is unsigned on the target, so a character is never \<^verbatim>\<open>EOF\<close>, and the tests for it are dead:
  they are left out below.
\<close>

definition isspace :: "u8 \<Rightarrow> bool" where
  "isspace ch \<longleftrightarrow> ch = 32 \<or> 9 \<le> ch \<and> ch \<le> 13"

definition isdigit :: "u8 \<Rightarrow> bool" where
  "isdigit ch \<longleftrightarrow> 48 \<le> ch \<and> ch \<le> 57"

abbreviation "ch_quote \<equiv> 34 :: u8"
abbreviation "ch_backslash \<equiv> 92 :: u8"
abbreviation "ch_lbracket \<equiv> 91 :: u8"
abbreviation "ch_rbracket \<equiv> 93 :: u8"
abbreviation "ch_lbrace \<equiv> 123 :: u8"
abbreviation "ch_rbrace \<equiv> 125 :: u8"
abbreviation "ch_comma \<equiv> 44 :: u8"
abbreviation "ch_colon \<equiv> 58 :: u8"
abbreviation "ch_lf \<equiv> 10 :: u8"
abbreviation "ch_cr \<equiv> 13 :: u8"

text \<open>
  \<^verbatim>\<open>strtol\<close> of the C library in base 10, with a 32-bit \<^verbatim>\<open>long\<close>: white space, a sign, digits; the value
  is clamped to the range of \<^verbatim>\<open>long\<close>. The second component is the number of characters consumed,
  none when there is no digit.
\<close>

definition digits_value :: "u8 list \<Rightarrow> int" where
  "digits_value ds = foldl (\<lambda>v d. 10 * v + (uint d - 48)) 0 ds"

definition strtol :: "u8 list \<Rightarrow> (int \<times> nat) option" where
  "strtol s =
     (let ws = length (takeWhile isspace s);
          r = drop ws s;
          neg = (r \<noteq> [] \<and> hd r = 45);
          sgn = (if r \<noteq> [] \<and> (hd r = 45 \<or> hd r = 43) then 1 else 0);
          ds = takeWhile isdigit (drop sgn r);
          v = (if neg then - digits_value ds else digits_value ds)
      in do {
        CHECK (ws + sgn + length ds < length s);
        Some (if ds = [] then (0, 0) else (max (- (2 ^ 31)) (min (2 ^ 31 - 1) v), ws + sgn + length ds))
      })"

section \<open>The reader\<close>

record json_reader =
  istr :: "u8 list"
  istr_at :: addr
  isptr :: nat
  line_count_r :: nat
  line_count_n :: nat
  scope_counter :: seq
  complaints :: nat

definition complain :: "bool \<Rightarrow> json_reader \<Rightarrow> json_reader" where
  "complain b reader = reader\<lparr>complaints := complaints reader + of_bool b\<rparr>"

definition JSONReader_NextChar :: "json_reader \<Rightarrow> (u8 \<times> json_reader) option" where
  "JSONReader_NextChar reader = do {
     ch \<leftarrow> arr_get (istr reader) (isptr reader);
     Some (ch, reader\<lparr>isptr := isptr reader + 1\<rparr>)
   }"

definition JSONReader_PeekNextChar :: "json_reader \<Rightarrow> u8 option" where
  "JSONReader_PeekNextChar reader = arr_get (istr reader) (isptr reader)"

definition count_lines :: "u8 \<Rightarrow> json_reader \<Rightarrow> json_reader" where
  "count_lines ch reader =
     reader\<lparr>line_count_n := line_count_n reader + of_bool (ch = ch_lf),
            line_count_r := line_count_r reader + of_bool (ch = ch_cr)\<rparr>"

lemma NextChar_eq_Some:
  "JSONReader_NextChar r = Some (ch, r') \<longleftrightarrow>
   isptr r < length (istr r) \<and> ch = istr r ! isptr r \<and> r' = r\<lparr>isptr := isptr r + 1\<rparr>"
  by (auto simp: JSONReader_NextChar_def arr_get_def)

lemma count_lines_simps [simp]:
  "istr (count_lines ch r) = istr r" "isptr (count_lines ch r) = isptr r"
  "scope_counter (count_lines ch r) = scope_counter r" "complaints (count_lines ch r) = complaints r"
  "istr_at (count_lines ch r) = istr_at r"
  by (simp_all add: count_lines_def)

lemma complain_simps [simp]:
  "istr (complain b r) = istr r" "isptr (complain b r) = isptr r"
  "scope_counter (complain b r) = scope_counter r" "complain False r = r"
  "line_count_n (complain b r) = line_count_n r" "line_count_r (complain b r) = line_count_r r"
  "istr_at (complain b r) = istr_at r"
  by (simp_all add: complain_def)

function JSONReader_NextNonSpace :: "json_reader \<Rightarrow> (u8 \<times> json_reader) option" where
  "JSONReader_NextNonSpace reader = do {
     (ch, reader) \<leftarrow> JSONReader_NextChar reader;
     let reader = count_lines ch reader;
     if isspace ch then JSONReader_NextNonSpace reader else Some (ch, reader)
   }"
  by auto
termination
  by (relation "measure (\<lambda>r. length (istr r) - isptr r)") (auto simp: NextChar_eq_Some)

declare JSONReader_NextNonSpace.simps [simp del]

function JSONReader_PeekNextNonSpace :: "json_reader \<Rightarrow> (u8 \<times> json_reader) option" where
  "JSONReader_PeekNextNonSpace reader = do {
     ch \<leftarrow> JSONReader_PeekNextChar reader;
     let reader = count_lines ch reader;
     if \<not> isspace ch then Some (ch, reader)
     else do {
       (_, reader) \<leftarrow> JSONReader_NextChar reader;
       JSONReader_PeekNextNonSpace reader
     }
   }"
  by auto
termination
  by (relation "measure (\<lambda>r. length (istr r) - isptr r)") (auto simp: NextChar_eq_Some)

declare JSONReader_PeekNextNonSpace.simps [simp del]

text \<open>
  A string. The output is what has been written to \<^verbatim>\<open>out_str\<close>; \<open>null\<close> says that \<^verbatim>\<open>out_str\<close> is null, where
  an escape faults.
\<close>

definition unescape :: "u8 \<Rightarrow> u8 option" where
  "unescape sch =
     (if sch = 114 then Some ch_cr
      else if sch = 110 then Some ch_lf
      else if sch = ch_backslash then Some ch_backslash
      else if sch = 116 then Some 9
      else if sch = ch_quote then Some ch_quote
      else None)"

definition ReadString_char :: "bool \<Rightarrow> u8 \<Rightarrow> u8 list \<Rightarrow> json_reader \<Rightarrow> (u8 list \<times> json_reader) option" where
  "ReadString_char null ch out reader =
     (if ch = ch_backslash
      then do {
        (sch, reader) \<leftarrow> JSONReader_NextChar reader;
        case unescape sch of
          Some c \<Rightarrow> do { CHECK (\<not> null); Some (out @ [c], reader) }
        | None \<Rightarrow> Some (out, complain True reader)
      }
      else Some (if null then out else out @ [ch], reader))"

lemma ReadString_char_moves:
  "ReadString_char null ch out r = Some (out', r') \<Longrightarrow>
   istr r' = istr r \<and> isptr r \<le> isptr r' \<and> scope_counter r' = scope_counter r"
  by (auto simp: ReadString_char_def bind_eq_Some NextChar_eq_Some split: if_splits option.splits)

function ReadString_loop :: "bool \<Rightarrow> nat \<Rightarrow> json_reader \<Rightarrow> u8 list \<Rightarrow> (u8 list \<times> json_reader) option" where
  "ReadString_loop null out_str_size reader out =
     (if length out < out_str_size \<or> null
      then do {
        (ch, reader) \<leftarrow> JSONReader_NextChar reader;
        if ch = ch_quote then Some (out, reader)
        else do {
          (out, reader) \<leftarrow> ReadString_char null ch out reader;
          if length out = size_sub out_str_size 1 then Some (out, complain True reader)
          else if ch = ch_cr \<or> ch = ch_lf then Some (out, complain True reader)
          else ReadString_loop null out_str_size reader out
        }
      }
      else Some (out, reader))"
  by auto
termination
  by (relation "measure (\<lambda>(null, n, r, out). length (istr r) - isptr r)")
    (auto simp: NextChar_eq_Some dest!: ReadString_char_moves)

declare ReadString_loop.simps [simp del]

definition JSONReader_ReadString :: "bool \<Rightarrow> nat \<Rightarrow> json_reader \<Rightarrow> (u8 list \<times> json_reader) option" where
  "JSONReader_ReadString null out_str_size reader = do {
     (_, reader) \<leftarrow> JSONReader_NextNonSpace reader;
     (out, reader) \<leftarrow> ReadString_loop null out_str_size reader [];
     CHECK (null \<or> length out < out_str_size);
     Some (out, reader)
   }"

definition JSONReader_ReadUnsignedInteger :: "json_reader \<Rightarrow> (nat \<times> json_reader) option" where
  "JSONReader_ReadUnsignedInteger reader = do {
     CHECK (isptr reader < length (istr reader));
     (number, n) \<leftarrow> strtol (drop (isptr reader) (istr reader));
     Some (nat (number mod 2 ^ 32), reader\<lparr>isptr := isptr reader + n\<rparr>)
   }"

definition JSONReader_ReadInteger :: "json_reader \<Rightarrow> (int \<times> json_reader) option" where
  "JSONReader_ReadInteger reader = do {
     CHECK (isptr reader < length (istr reader));
     (number, n) \<leftarrow> strtol (drop (isptr reader) (istr reader));
     Some (number, reader\<lparr>isptr := isptr reader + n\<rparr>)
   }"

definition push_scope :: "nat \<Rightarrow> json_reader \<Rightarrow> json_reader option" where
  "push_scope v reader = do {
     (msg, s) \<leftarrow> SeqPush (scope_counter reader) v;
     Some (complain msg (reader\<lparr>scope_counter := s\<rparr>))
   }"

definition JSONReader_BeginObject :: "json_reader \<Rightarrow> json_reader option" where
  "JSONReader_BeginObject reader = do {
     (ch, reader) \<leftarrow> JSONReader_NextNonSpace reader;
     push_scope 0 (complain (ch \<noteq> ch_lbrace) reader)
   }"

definition JSONReader_BeginArray :: "json_reader \<Rightarrow> json_reader option" where
  "JSONReader_BeginArray reader = do {
     (ch, reader) \<leftarrow> JSONReader_NextNonSpace reader;
     push_scope 0 (complain (ch \<noteq> ch_lbracket) reader)
   }"

text \<open>
  The first half of both \<^verbatim>\<open>NextObjectItem\<close> and \<^verbatim>\<open>NextArrayItem\<close>: is there another item, with the closing
  bracket or the comma consumed.
\<close>

definition next_item :: "u8 \<Rightarrow> json_reader \<Rightarrow> (bool \<times> json_reader) option" where
  "next_item close reader = do {
     (msg, n) \<leftarrow> SeqBack (scope_counter reader);
     let reader = complain msg reader;
     if n \<noteq> 0
     then do {
       (ch, reader) \<leftarrow> JSONReader_NextNonSpace reader;
       if ch = close then Some (False, reader)
       else Some (True, complain (ch \<noteq> ch_comma) reader)
     }
     else do {
       (ch, reader) \<leftarrow> JSONReader_PeekNextNonSpace reader;
       if ch = close
       then do {
         (_, reader) \<leftarrow> JSONReader_NextChar reader;
         Some (False, reader)
       }
       else Some (True, reader)
     }
   }"

definition pop_scope :: "json_reader \<Rightarrow> json_reader" where
  "pop_scope reader =
     (let (msgs, s) = SeqPop (scope_counter reader)
      in reader\<lparr>scope_counter := s, complaints := complaints reader + msgs\<rparr>)"

definition incr_scope :: "json_reader \<Rightarrow> json_reader option" where
  "incr_scope reader = do {
     (msg, s) \<leftarrow> SeqBack_incr (scope_counter reader);
     Some (complain msg (reader\<lparr>scope_counter := s\<rparr>))
   }"

definition JSONReader_NextArrayItem :: "json_reader \<Rightarrow> (bool \<times> json_reader) option" where
  "JSONReader_NextArrayItem reader = do {
     (nxt, reader) \<leftarrow> next_item ch_rbracket reader;
     if \<not> nxt then Some (False, pop_scope reader)
     else do {
       reader \<leftarrow> incr_scope reader;
       Some (True, reader)
     }
   }"

text \<open>\<^verbatim>\<open>ReadString\<close> never reports an error, so the branch that gives up on the key is dead.\<close>

definition JSONReader_NextObjectItem :: "bool \<Rightarrow> nat \<Rightarrow> json_reader \<Rightarrow> (bool \<times> u8 list \<times> json_reader) option" where
  "JSONReader_NextObjectItem null out_key_size reader = do {
     (nxt, reader) \<leftarrow> next_item ch_rbrace reader;
     if \<not> nxt then Some (False, [], pop_scope reader)
     else do {
       reader \<leftarrow> incr_scope reader;
       (key, reader) \<leftarrow> JSONReader_ReadString null out_key_size reader;
       (ch, reader) \<leftarrow> JSONReader_NextNonSpace reader;
       Some (True, key, complain (ch \<noteq> ch_colon) reader)
     }
   }"

section \<open>The length of an array\<close>

text \<open>
  The loop looks ahead over the rest of the array. Its state: whether the innermost open item is an
  array, the kinds of the items around it (\<^verbatim>\<open>kObject\<close> is 0, \<^verbatim>\<open>kArray\<close> is 1), the count, and the reader.
\<close>

record length_state =
  ls_array :: bool
  ls_scopes :: seq
  ls_count :: nat
  ls_reader :: json_reader

definition length_has_item :: "length_state \<Rightarrow> (bool \<times> length_state) option" where
  "length_has_item st =
     (if ls_array st
      then do {
        (has, reader) \<leftarrow> JSONReader_NextArrayItem (ls_reader st);
        Some (has, st\<lparr>ls_reader := reader,
          ls_count := ls_count st + of_bool (seq_size (ls_scopes st) = 0 \<and> has)\<rparr>)
      }
      else do {
        (has, _, reader) \<leftarrow> JSONReader_NextObjectItem True 0 (ls_reader st);
        Some (has, st\<lparr>ls_reader := reader\<rparr>)
      })"

definition length_push :: "length_state \<Rightarrow> bool \<Rightarrow> length_state option" where
  "length_push st is_array = do {
     (msg, s) \<leftarrow> SeqPush (ls_scopes st) (of_bool (ls_array st));
     Some (st\<lparr>ls_scopes := s, ls_array := is_array, ls_reader := complain msg (ls_reader st)\<rparr>)
   }"

text \<open>A value: a string and a number are skipped, a bracket opens a new item.\<close>

definition length_value :: "length_state \<Rightarrow> length_state option" where
  "length_value st = do {
     (c, reader) \<leftarrow> JSONReader_PeekNextNonSpace (ls_reader st);
     if c = ch_quote then do {
       (_, reader) \<leftarrow> JSONReader_ReadString True 1024 reader;
       Some (st\<lparr>ls_reader := reader\<rparr>)
     }
     else if c = ch_lbracket then do {
       reader \<leftarrow> JSONReader_BeginArray reader;
       length_push (st\<lparr>ls_reader := reader\<rparr>) True
     }
     else if c = ch_lbrace then do {
       reader \<leftarrow> JSONReader_BeginObject reader;
       length_push (st\<lparr>ls_reader := reader\<rparr>) False
     }
     else do {
       (_, reader) \<leftarrow> JSONReader_ReadInteger reader;
       Some (st\<lparr>ls_reader := reader\<rparr>)
     }
   }"

text \<open>One round; the flag says that the loop goes on.\<close>

definition length_step :: "length_state \<Rightarrow> (bool \<times> length_state) option" where
  "length_step st = do {
     (has, st) \<leftarrow> length_has_item st;
     if has then do {
       st \<leftarrow> length_value st;
       Some (True, st)
     }
     else if seq_size (ls_scopes st) > 0 then do {
       (msg, v) \<leftarrow> SeqBack (ls_scopes st);
       let (msgs, s) = SeqPop (ls_scopes st);
       let reader = ls_reader st;
       Some (True, st\<lparr>ls_array := v \<noteq> 0, ls_scopes := s,
         ls_reader := reader\<lparr>complaints := complaints reader + of_bool msg + msgs\<rparr>\<rparr>)
     }
     else Some (False, st)
   }"

text \<open>
  Every operation moves the cursor forward, and a round that moves it not at all has counted the
  first item of a scope.
\<close>

definition moves :: "json_reader \<Rightarrow> json_reader \<Rightarrow> bool" where
  "moves r r' \<longleftrightarrow> istr r' = istr r \<and> isptr r \<le> isptr r'"

definition strict_moves :: "json_reader \<Rightarrow> json_reader \<Rightarrow> bool" where
  "strict_moves r r' \<longleftrightarrow> moves r r' \<and> isptr r < isptr r' \<and> isptr r < length (istr r)"

lemma moves_refl [simp]: "moves r r"
  by (simp add: moves_def)

lemma moves_trans: "moves r s \<Longrightarrow> moves s t \<Longrightarrow> moves r t"
  by (simp add: moves_def)

lemma strict_moves_trans [trans]:
  "strict_moves r s \<Longrightarrow> moves s t \<Longrightarrow> strict_moves r t"
  "moves r s \<Longrightarrow> strict_moves s t \<Longrightarrow> strict_moves r t"
  by (auto simp: strict_moves_def moves_def)

lemma NextNonSpace_moves: "JSONReader_NextNonSpace r = Some (ch, r') \<Longrightarrow>
  strict_moves r r' \<and> scope_counter r' = scope_counter r"
proof (induction r rule: JSONReader_NextNonSpace.induct)
  case (1 r)
  from "1.prems" obtain c where c: "JSONReader_NextChar r = Some (c, r\<lparr>isptr := isptr r + 1\<rparr>)" "isptr r < length (istr r)"
    by (subst (asm) JSONReader_NextNonSpace.simps) (auto simp: bind_eq_Some NextChar_eq_Some)
  show ?case
  proof (cases "isspace c")
    case True
    then have "JSONReader_NextNonSpace (count_lines c (r\<lparr>isptr := isptr r + 1\<rparr>)) = Some (ch, r')"
      using "1.prems" c by (subst (asm) JSONReader_NextNonSpace.simps) (simp add: Let_def)
    then show ?thesis
      using "1.IH" [OF c(1) refl refl True] c(2) by (auto simp: strict_moves_def moves_def)
  next
    case False
    then show ?thesis
      using "1.prems" c by (subst (asm) JSONReader_NextNonSpace.simps) (auto simp: Let_def strict_moves_def moves_def)
  qed
qed

lemma PeekNextNonSpace_moves: "JSONReader_PeekNextNonSpace r = Some (ch, r') \<Longrightarrow>
  moves r r' \<and> scope_counter r' = scope_counter r \<and> \<not> isspace ch \<and> isptr r' < length (istr r') \<and> istr r' ! isptr r' = ch"
proof (induction r rule: JSONReader_PeekNextNonSpace.induct)
  case (1 r)
  from "1.prems" obtain c where c: "JSONReader_PeekNextChar r = Some c"
    by (subst (asm) JSONReader_PeekNextNonSpace.simps) (auto simp: bind_eq_Some)
  then have at: "isptr r < length (istr r)" "istr r ! isptr r = c"
    by (auto simp: JSONReader_PeekNextChar_def arr_get_def split: if_splits)
  let ?r = "count_lines c r"
  have nxt: "JSONReader_NextChar ?r = Some (c, ?r\<lparr>isptr := isptr r + 1\<rparr>)"
    using at by (simp add: NextChar_eq_Some)
  show ?case
  proof (cases "isspace c")
    case True
    then have "JSONReader_PeekNextNonSpace (?r\<lparr>isptr := isptr r + 1\<rparr>) = Some (ch, r')"
      using "1.prems" c nxt by (subst (asm) JSONReader_PeekNextNonSpace.simps) (simp add: Let_def)
    then show ?thesis
      using "1.IH" [OF c refl _ nxt refl] True by (auto simp: moves_def)
  next
    case False
    then show ?thesis
      using "1.prems" c at by (subst (asm) JSONReader_PeekNextNonSpace.simps) (auto simp: Let_def moves_def)
  qed
qed

lemma ReadString_loop_moves: "ReadString_loop null n r out = Some (out', r') \<Longrightarrow>
  moves r r' \<and> scope_counter r' = scope_counter r"
proof (induction null n r out rule: ReadString_loop.induct)
  case (1 null n r out)
  show ?case
  proof (cases "(length out < n \<or> null) \<and> isptr r < length (istr r)")
    case False
    then show ?thesis
      using "1.prems" by (subst (asm) ReadString_loop.simps) (auto simp: bind_eq_Some NextChar_eq_Some split: if_splits)
  next
    case True
    let ?r = "r\<lparr>isptr := isptr r + 1\<rparr>"
    obtain c where c: "JSONReader_NextChar r = Some (c, ?r)"
      using True by (simp add: NextChar_eq_Some)
    show ?thesis
    proof (cases "c = ch_quote")
      case True
      then show ?thesis
        using "1.prems" c by (subst (asm) ReadString_loop.simps) (auto simp: moves_def split: if_splits)
    next
      case False
      obtain o2 r2 where p: "ReadString_char null c out ?r = Some (o2, r2)"
        and run: "(if length o2 = size_sub n 1 \<or> c = ch_cr \<or> c = ch_lf then Some (o2, complain True r2)
          else ReadString_loop null n r2 o2) = Some (out', r')"
        using "1.prems" True c False
        by (subst (asm) ReadString_loop.simps) (auto simp: bind_eq_Some split: if_splits)
      have m: "istr r2 = istr r \<and> isptr r < isptr r2 \<and> scope_counter r2 = scope_counter r"
        using ReadString_char_moves [OF p] by simp
      have "moves r2 r' \<and> scope_counter r' = scope_counter r2"
      proof (cases "length o2 = size_sub n 1 \<or> c = ch_cr \<or> c = ch_lf")
        case True
        then show ?thesis
          using run by (auto simp: moves_def)
      next
        case stop: False
        then have "ReadString_loop null n r2 o2 = Some (out', r')"
          using run by simp
        then show ?thesis
          using "1.IH" [OF conjunct1 [OF True] c refl False p refl] stop by simp
      qed
      then show ?thesis
        using m by (auto simp: moves_def)
    qed
  qed
qed

lemma ReadString_moves: "JSONReader_ReadString null n r = Some (out, r') \<Longrightarrow>
  strict_moves r r' \<and> scope_counter r' = scope_counter r"
  unfolding JSONReader_ReadString_def
  by (auto simp: bind_eq_Some dest!: NextNonSpace_moves ReadString_loop_moves intro: strict_moves_trans)

lemma ReadInteger_moves: "JSONReader_ReadInteger r = Some (v, r') \<Longrightarrow>
  moves r r' \<and> scope_counter r' = scope_counter r"
  by (auto simp: JSONReader_ReadInteger_def bind_eq_Some moves_def)

text \<open>The innermost scope has no item yet.\<close>

definition fresh_scope :: "seq \<Rightarrow> bool" where
  "fresh_scope s \<longleftrightarrow> (\<exists>msg. SeqBack s = Some (msg, 0))"

definition todo :: "json_reader \<Rightarrow> nat" where
  "todo r = 2 * (length (istr r) - isptr r) + of_bool (fresh_scope (scope_counter r))"

lemma todo_strict: "strict_moves r r' \<Longrightarrow> todo r' < todo r"
  by (auto simp: todo_def strict_moves_def moves_def)

lemma todo_moves: "moves r r' \<Longrightarrow> scope_counter r' = scope_counter r \<Longrightarrow> todo r' \<le> todo r"
  by (auto simp: todo_def moves_def)

lemma next_item_moves:
  assumes "next_item close r = Some (nxt, r')"
  shows "scope_counter r' = scope_counter r" and "moves r r'"
    and "\<not> nxt \<or> \<not> fresh_scope (scope_counter r) \<Longrightarrow> strict_moves r r'"
proof -
  obtain msg n where bk: "SeqBack (scope_counter r) = Some (msg, n)"
    using assms by (auto simp: next_item_def bind_eq_Some)
  have "scope_counter r' = scope_counter r \<and> moves r r' \<and> (\<not> nxt \<or> n \<noteq> 0 \<longrightarrow> strict_moves r r')"
  proof (cases "n = 0")
    case False
    then obtain ch r1 where "JSONReader_NextNonSpace (complain msg r) = Some (ch, r1)"
      "r' = (if ch = close then r1 else complain (ch \<noteq> ch_comma) r1)"
      using assms bk by (auto simp: next_item_def bind_eq_Some Let_def split: if_splits)
    then show ?thesis
      using NextNonSpace_moves [of "complain msg r" ch r1] by (auto simp: strict_moves_def moves_def)
  next
    case True
    then obtain ch r1 where p: "JSONReader_PeekNextNonSpace (complain msg r) = Some (ch, r1)"
      "r' = (if ch = close then r1\<lparr>isptr := isptr r1 + 1\<rparr> else r1)" "nxt \<longleftrightarrow> ch \<noteq> close"
      using assms bk by (auto simp: next_item_def bind_eq_Some Let_def NextChar_eq_Some split: if_splits)
    then show ?thesis
      using PeekNextNonSpace_moves [OF p(1)] True by (auto simp: strict_moves_def moves_def)
  qed
  then show "scope_counter r' = scope_counter r" "moves r r'"
    "\<not> nxt \<or> \<not> fresh_scope (scope_counter r) \<Longrightarrow> strict_moves r r'"
    using bk by (auto simp: fresh_scope_def)
qed

lemma incr_scope_moves:
  assumes "incr_scope r = Some r'"
  shows "moves r r'" and "istr r' = istr r" and "isptr r' = isptr r"
    and "fresh_scope (scope_counter r) \<Longrightarrow> \<not> fresh_scope (scope_counter r')"
proof -
  obtain msg s where s: "SeqBack_incr (scope_counter r) = Some (msg, s)" "r' = complain msg (r\<lparr>scope_counter := s\<rparr>)"
    using assms by (auto simp: incr_scope_def bind_eq_Some)
  then show "moves r r'" "istr r' = istr r" "isptr r' = isptr r"
    by (simp_all add: moves_def)
  assume "fresh_scope (scope_counter r)"
  then have "SeqBack s = Some (msg, 1)"
    using s(1) by (auto simp: fresh_scope_def SeqBack_incr_def SeqBack_def bind_eq_Some arr_get_def arr_set_def split: if_splits)
  then show "\<not> fresh_scope (scope_counter r')"
    using s(2) by (simp add: fresh_scope_def)
qed

lemma next_incr_todo:
  assumes "next_item close r = Some (True, r1)" and "incr_scope r1 = Some r2"
  shows "todo r2 < todo r"
proof (cases "fresh_scope (scope_counter r)")
  case True
  then have "\<not> fresh_scope (scope_counter r2)"
    using incr_scope_moves(4) [OF assms(2)] next_item_moves(1) [OF assms(1)] by simp
  then show ?thesis
    using True incr_scope_moves(2,3) [OF assms(2)] next_item_moves(2) [OF assms(1)]
    by (auto simp: todo_def moves_def)
next
  case False
  then have "strict_moves r r1"
    using next_item_moves(3) [OF assms(1)] by simp
  then have "strict_moves r r2"
    using incr_scope_moves(2,3) [OF assms(2)] by (auto simp: strict_moves_def moves_def)
  then show ?thesis
    by (rule todo_strict)
qed

lemma NextArrayItem_moves:
  assumes "JSONReader_NextArrayItem r = Some (has, r')"
  shows "has \<Longrightarrow> todo r' < todo r" and "\<not> has \<Longrightarrow> strict_moves r r'" and "moves r r'"
proof -
  obtain nxt r1 where n: "next_item ch_rbracket r = Some (nxt, r1)"
    using assms by (auto simp: JSONReader_NextArrayItem_def bind_eq_Some)
  note m = next_item_moves [OF n]
  have rest: "if nxt then has \<and> incr_scope r1 = Some r' else \<not> has \<and> r' = pop_scope r1"
    using assms n by (auto simp: JSONReader_NextArrayItem_def bind_eq_Some split: if_splits)
  then show "has \<Longrightarrow> todo r' < todo r"
    using next_incr_todo n by (auto split: if_splits)
  have "istr (pop_scope r1) = istr r1" "isptr (pop_scope r1) = isptr r1"
    by (simp_all add: pop_scope_def SeqPop_def)
  then show "\<not> has \<Longrightarrow> strict_moves r r'"
    using rest m by (auto simp: strict_moves_def moves_def split: if_splits)
  show "moves r r'"
    using rest m incr_scope_moves(2,3) \<open>istr (pop_scope r1) = istr r1\<close> \<open>isptr (pop_scope r1) = isptr r1\<close>
    by (auto simp: moves_def split: if_splits)
qed

lemma NextObjectItem_moves:
  assumes "JSONReader_NextObjectItem null n r = Some (has, key, r')"
  shows "has \<Longrightarrow> todo r' < todo r" and "\<not> has \<Longrightarrow> strict_moves r r'" and "moves r r'"
proof -
  obtain nxt r1 where n: "next_item ch_rbrace r = Some (nxt, r1)"
    using assms by (auto simp: JSONReader_NextObjectItem_def bind_eq_Some)
  note m = next_item_moves [OF n]
  have pop: "istr (pop_scope r1) = istr r1" "isptr (pop_scope r1) = isptr r1"
    by (simp_all add: pop_scope_def SeqPop_def)
  have "if nxt then has \<and> todo r' < todo r \<and> moves r r' else \<not> has \<and> strict_moves r r'"
  proof (cases nxt)
    case True
    then obtain r2 r3 ch r4 where r: "incr_scope r1 = Some r2" "JSONReader_ReadString null n r2 = Some (key, r3)"
      "JSONReader_NextNonSpace r3 = Some (ch, r4)" "r' = complain (ch \<noteq> ch_colon) r4" "has"
      using assms n by (auto simp: JSONReader_NextObjectItem_def bind_eq_Some)
    have "strict_moves r2 r3" "strict_moves r3 r4" "scope_counter r4 = scope_counter r2"
      using ReadString_moves [OF r(2)] NextNonSpace_moves [OF r(3)] by auto
    then have "moves r2 r'" "scope_counter r' = scope_counter r2"
      using r(4) by (auto simp: strict_moves_def moves_def)
    then show ?thesis
      using next_incr_todo [of ch_rbrace r r1 r2] n r(1) todo_moves [of r2 r'] r(5) True m(2)
        incr_scope_moves(1) [OF r(1)] by (auto intro: moves_trans)
  next
    case False
    then show ?thesis
      using assms n pop m(3) by (auto simp: JSONReader_NextObjectItem_def strict_moves_def moves_def)
  qed
  then show "has \<Longrightarrow> todo r' < todo r" "\<not> has \<Longrightarrow> strict_moves r r'" "moves r r'"
    by (auto simp: strict_moves_def split: if_splits)
qed

lemma push_scope_moves: "push_scope v r = Some r' \<Longrightarrow> istr r' = istr r \<and> isptr r' = isptr r"
  by (auto simp: push_scope_def bind_eq_Some)

lemma Begin_moves:
  "JSONReader_BeginArray r = Some r' \<Longrightarrow> strict_moves r r'"
  "JSONReader_BeginObject r = Some r' \<Longrightarrow> strict_moves r r'"
  by (auto simp: JSONReader_BeginArray_def JSONReader_BeginObject_def bind_eq_Some strict_moves_def moves_def
      dest!: NextNonSpace_moves push_scope_moves)

lemma length_value_todo:
  assumes "length_value st = Some st'"
  shows "todo (ls_reader st') \<le> todo (ls_reader st)" and "moves (ls_reader st) (ls_reader st')"
proof -
  obtain c r where p: "JSONReader_PeekNextNonSpace (ls_reader st) = Some (c, r)"
    using assms by (auto simp: length_value_def bind_eq_Some)
  have a: "todo r \<le> todo (ls_reader st)" "moves (ls_reader st) r"
    using PeekNextNonSpace_moves [OF p] todo_moves by blast+
  have "todo (ls_reader st') \<le> todo r \<and> moves r (ls_reader st')"
  proof -
    have c: "strict_moves r r' \<Longrightarrow> strict_moves r (complain b r')" for b r'
      by (auto simp: strict_moves_def moves_def)
    have "strict_moves r (ls_reader st') \<or> moves r (ls_reader st') \<and> scope_counter (ls_reader st') = scope_counter r"
      using assms p
      by (auto simp: length_value_def length_push_def bind_eq_Some split: if_splits
          dest!: ReadString_moves Begin_moves ReadInteger_moves intro: c)
    then show ?thesis
      using todo_strict [of r "ls_reader st'"] todo_moves [of r "ls_reader st'"]
      by (auto simp: strict_moves_def)
  qed
  then show "todo (ls_reader st') \<le> todo (ls_reader st)" "moves (ls_reader st) (ls_reader st')"
    using a by (auto intro: moves_trans)
qed

lemma length_step_todo:
  assumes "length_step st = Some (go, st')"
  shows "go \<Longrightarrow> todo (ls_reader st') < todo (ls_reader st)" and "moves (ls_reader st) (ls_reader st')"
proof -
  obtain has st1 where h: "length_has_item st = Some (has, st1)"
    using assms by (auto simp: length_step_def bind_eq_Some)
  have h1: "has \<Longrightarrow> todo (ls_reader st1) < todo (ls_reader st)"
    "\<not> has \<Longrightarrow> strict_moves (ls_reader st) (ls_reader st1)" "moves (ls_reader st) (ls_reader st1)"
    using h NextArrayItem_moves NextObjectItem_moves
    by (auto simp: length_has_item_def bind_eq_Some split: if_splits)
  have "(go \<longrightarrow> todo (ls_reader st') < todo (ls_reader st)) \<and> moves (ls_reader st) (ls_reader st')"
  proof (cases has)
    case True
    then have "length_value st1 = Some st'"
      using assms h by (auto simp: length_step_def bind_eq_Some)
    then show ?thesis
      using length_value_todo [of st1 st'] h1(1) [OF True] h1(3) by (auto intro: moves_trans)
  next
    case False
    then have "istr (ls_reader st') = istr (ls_reader st1)" "isptr (ls_reader st') = isptr (ls_reader st1)"
      using assms h by (auto simp: length_step_def bind_eq_Some SeqPop_def Let_def split: if_splits)
    then have "strict_moves (ls_reader st) (ls_reader st')"
      using h1(2) [OF False] by (auto simp: strict_moves_def moves_def)
    then show ?thesis
      using todo_strict by (auto simp: strict_moves_def)
  qed
  then show "go \<Longrightarrow> todo (ls_reader st') < todo (ls_reader st)" "moves (ls_reader st) (ls_reader st')"
    by auto
qed

function length_loop :: "length_state \<Rightarrow> length_state option" where
  "length_loop st = do {
     (go, st) \<leftarrow> length_step st;
     if go then length_loop st else Some st
   }"
  by auto
termination
  by (relation "measure (\<lambda>st. todo (ls_reader st))") (auto dest: length_step_todo(1))

declare length_loop.simps [simp del]

text \<open>The result: the status, the length if it was written, the heap and the reader.\<close>

definition JSONReader_ArrayLength ::
    "memory_manager \<Rightarrow> nat list \<Rightarrow> json_reader \<Rightarrow> (int \<times> nat option \<times> memory_manager \<times> json_reader) option" where
  "JSONReader_ArrayLength mgr garbage reader = do {
     let old_isptr = isptr reader;
     let old_line_count_r = line_count_r reader;
     let old_line_count_n = line_count_n reader;
     (msg, old_scope_counter_back) \<leftarrow> SeqBack (scope_counter reader);
     let reader = complain msg reader;
     (err, scopes, mgr) \<leftarrow> SeqCreate mgr 10 garbage;
     if err \<noteq> kTvmErrorNoError then Some (- 1, None, mgr, reader)
     else do {
       st \<leftarrow> length_loop \<lparr>ls_array = True, ls_scopes = the scopes, ls_count = 0, ls_reader = reader\<rparr>;
       let reader = (ls_reader st)\<lparr>isptr := old_isptr, line_count_r := old_line_count_r,
         line_count_n := old_line_count_n\<rparr>;
       reader \<leftarrow> push_scope old_scope_counter_back reader;
       (err, mgr) \<leftarrow> SeqRelease mgr (ls_scopes st);
       Some (if err \<noteq> kTvmErrorNoError then - 1 else 0, Some (ls_count st), mgr, reader)
     }
   }"

section \<open>A reader\<close>

text \<open>The text is a string of non-zero characters; the reader works on a copy with its terminator.\<close>

definition JSONReader_Create ::
    "memory_manager \<Rightarrow> nat list \<Rightarrow> u8 list \<Rightarrow> (tvm_crt_error \<times> json_reader option \<times> memory_manager) option" where
  "JSONReader_Create mgr garbage txt = do {
     (err, s, mgr) \<leftarrow> SeqCreate mgr 200 garbage;
     if err \<noteq> kTvmErrorNoError then Some (err, None, mgr)
     else do {
       (err, p, mgr) \<leftarrow> TVMPlatformMemoryAllocate mgr (length txt + 1);
       if err \<noteq> kTvmErrorNoError then Some (err, None, mgr)
       else Some (err, Some \<lparr>istr = txt @ [0], istr_at = p, isptr = 0, line_count_r = 0, line_count_n = 0,
              scope_counter = the s, complaints = 0\<rparr>, mgr)
     }
   }"

definition JSONReader_Release :: "memory_manager \<Rightarrow> json_reader \<Rightarrow> (tvm_crt_error \<times> memory_manager) option" where
  "JSONReader_Release mgr reader = do {
     (err, mgr) \<leftarrow> SeqRelease mgr (scope_counter reader);
     if err \<noteq> kTvmErrorNoError then Some (err, mgr)
     else TVMPlatformMemoryFree mgr (istr_at reader)
   }"

section \<open>A node entry\<close>

record json_node_entry =
  jne_node_id :: nat
  jne_index :: nat
  jne_version :: nat

text \<open>The complaints are printed when there is an item, except for the last one.\<close>

definition JSONNodeEntryLoad :: "json_reader \<Rightarrow> (json_node_entry \<times> json_reader) option" where
  "JSONNodeEntryLoad reader = do {
     reader \<leftarrow> JSONReader_BeginArray reader;
     (has, reader) \<leftarrow> JSONReader_NextArrayItem reader;
     (node_id, reader) \<leftarrow> JSONReader_ReadUnsignedInteger (complain has reader);
     (has, reader) \<leftarrow> JSONReader_NextArrayItem reader;
     (idx, reader) \<leftarrow> JSONReader_ReadUnsignedInteger (complain has reader);
     (has, reader) \<leftarrow> JSONReader_NextArrayItem reader;
     if has then do {
       (version, reader) \<leftarrow> JSONReader_ReadUnsignedInteger reader;
       (has, reader) \<leftarrow> JSONReader_NextArrayItem reader;
       Some (\<lparr>jne_node_id = node_id, jne_index = idx, jne_version = version\<rparr>, complain (\<not> has) reader)
     }
     else Some (\<lparr>jne_node_id = node_id, jne_index = idx, jne_version = 0\<rparr>, reader)
   }"

end
