(* ===== verification/Json_Text.thy ===== *)
theory Json_Text
  imports Json_Reader
begin

text \<open>
  The JSON reader on JSON text. The counters of the open scopes behave as a bounded stack, stated as
  a locale and interpreted on the code's sequence; values are printed with arbitrary white space, and
  the look-ahead of \<^verbatim>\<open>JSONReader_ArrayLength\<close> counts the items of a printed array and restores the
  reader, when its memory is granted (\<open>Heap_Room\<close> has the property, with the heap).
\<close>

section \<open>A bounded stack\<close>

text \<open>\<open>rep cap s stk\<close>: the state \<open>s\<close> of capacity \<open>cap\<close> holds the values \<open>stk\<close>, the newest first.\<close>

locale bounded_stack =
  fixes push :: "'s \<Rightarrow> nat \<Rightarrow> (bool \<times> 's) option"
    and top :: "'s \<Rightarrow> (bool \<times> nat) option"
    and pop :: "'s \<Rightarrow> nat \<times> 's"
    and rep :: "nat \<Rightarrow> 's \<Rightarrow> nat list \<Rightarrow> bool"
  assumes push_ok: "rep cap s stk \<Longrightarrow> length stk + 1 < cap \<Longrightarrow> v < 2 ^ 32 \<Longrightarrow>
      \<exists>s'. push s v = Some (False, s') \<and> rep cap s' (v # stk)"
    and top_ok: "rep cap s (v # stk) \<Longrightarrow> top s = Some (False, v)"
    and pop_ok: "rep cap s (v # stk) \<Longrightarrow> \<exists>s'. pop s = (0, s') \<and> rep cap s' stk"
    and rep_bound: "rep cap s stk \<Longrightarrow> length stk < cap"
begin

text \<open>Values pushed one after the other, and popped.\<close>

fun push_all :: "'s \<Rightarrow> nat list \<Rightarrow> 's option" where
  "push_all s [] = Some s"
| "push_all s (v # vs) = do { (_, s) \<leftarrow> push s v; push_all s vs }"

lemma push_all_ok:
  "rep cap s stk \<Longrightarrow> length stk + length vs < cap \<Longrightarrow> \<forall>v \<in> set vs. v < 2 ^ 32 \<Longrightarrow>
   \<exists>s'. push_all s vs = Some s' \<and> rep cap s' (rev vs @ stk)"
proof (induction vs arbitrary: s stk)
  case (Cons v vs)
  then obtain s1 where s1: "push s v = Some (False, s1)" "rep cap s1 (v # stk)"
    using push_ok [OF Cons.prems(1), of v] by auto
  then show ?case
    using Cons.IH [OF s1(2)] Cons.prems(2,3) by simp
qed simp

lemma push_pop:
  assumes "rep cap s stk" and "length stk + 1 < cap" and "v < 2 ^ 32"
  shows "\<exists>s' s''. push s v = Some (False, s') \<and> top s' = Some (False, v) \<and> pop s' = (0, s'') \<and> rep cap s'' stk"
  using push_ok [OF assms] top_ok pop_ok by blast

end

definition seq_rep :: "nat \<Rightarrow> seq \<Rightarrow> nat list \<Rightarrow> bool" where
  "seq_rep cap s stk \<longleftrightarrow> seq_allocated s = cap \<and> length (seq_data s) = cap \<and> seq_size s = length stk
     \<and> length stk < cap \<and> cap < 2 ^ 32 \<and> take (seq_size s) (seq_data s) = rev stk"

lemma seq_rep_top:
  assumes "seq_rep cap s (v # stk)"
  shows "seq_data s ! length stk = v"
proof -
  have "take (Suc (length stk)) (seq_data s) = rev stk @ [v]"
    using assms by (auto simp: seq_rep_def)
  from arg_cong [OF this, of "\<lambda>xs. xs ! length stk"] show ?thesis
    by (simp add: nth_append)
qed

interpretation scopes: bounded_stack SeqPush SeqBack SeqPop seq_rep
proof
  fix cap s stk v
  show "seq_rep cap s stk \<Longrightarrow> length stk + 1 < cap \<Longrightarrow> v < 2 ^ 32 \<Longrightarrow>
      \<exists>s'. SeqPush s v = Some (False, s') \<and> seq_rep cap s' (v # stk)"
    by (auto simp: SeqPush_def seq_rep_def take_Suc_conv_app_nth)
  show "seq_rep cap s (v # stk) \<Longrightarrow> SeqBack s = Some (False, v)"
    using seq_rep_top [of cap s v stk] by (auto simp: SeqBack_def seq_rep_def)
  show "seq_rep cap s (v # stk) \<Longrightarrow> \<exists>s'. SeqPop s = (0, s') \<and> seq_rep cap s' stk"
  proof -
    assume a: "seq_rep cap s (v # stk)"
    then have "take (Suc (length stk)) (seq_data s) = rev stk @ [v]"
      by (auto simp: seq_rep_def)
    from arg_cong [OF this, of "take (length stk)"] have "take (length stk) (seq_data s) = rev stk"
      by simp
    then show ?thesis
      using a by (auto simp: SeqPop_def seq_rep_def)
  qed
  show "seq_rep cap s stk \<Longrightarrow> length stk < cap"
    by (simp add: seq_rep_def)
qed

section \<open>The reader on a text\<close>

text \<open>
  The reader has the text \<open>rst\<close> before it and the counters \<open>stk\<close>, and has complained \<open>k\<close> times.
\<close>

definition rd :: "u8 list \<Rightarrow> nat \<Rightarrow> nat \<Rightarrow> json_reader \<Rightarrow> u8 list \<Rightarrow> nat list \<Rightarrow> bool" where
  "rd T cap k r rst stk \<longleftrightarrow> istr r = T \<and> isptr r \<le> length T \<and> drop (isptr r) T = rst
     \<and> complaints r = k \<and> seq_rep cap (scope_counter r) stk"

lemma rd_char:
  assumes "rd T cap k r (c # rst) stk"
  shows "isptr r < length (istr r)" and "istr r ! isptr r = c" and "drop (Suc (isptr r)) T = rst"
proof -
  have d: "drop (isptr r) T = c # rst" and T: "istr r = T" "isptr r \<le> length T"
    using assms by (simp_all add: rd_def)
  show lt: "isptr r < length (istr r)"
    using d T by (metis drop_all le_neq_implies_less list.distinct(1) le_refl)
  show "istr r ! isptr r = c" "drop (Suc (isptr r)) T = rst"
    using d lt T Cons_nth_drop_Suc [of "isptr r" T] by simp_all
qed

lemma NextChar_rd:
  assumes "rd T cap k r (c # rst) stk"
  shows "\<exists>r'. JSONReader_NextChar r = Some (c, r') \<and> rd T cap k r' rst stk \<and> isptr r' = isptr r + 1"
  using rd_char [OF assms] assms by (auto simp: NextChar_eq_Some rd_def)

lemma rd_count_lines [simp]: "rd T cap k (count_lines c r) rst stk = rd T cap k r rst stk"
  by (simp add: rd_def)

text \<open>White space is skipped.\<close>

definition white :: "u8 list \<Rightarrow> bool" where
  "white w \<longleftrightarrow> (\<forall>c \<in> set w. isspace c)"

lemma NextNonSpace_rd:
  "rd T cap k r (w @ c # rst) stk \<Longrightarrow> white w \<Longrightarrow> \<not> isspace c \<Longrightarrow>
   \<exists>r'. JSONReader_NextNonSpace r = Some (c, r') \<and> rd T cap k r' rst stk"
proof (induction w arbitrary: r)
  case Nil
  from NextChar_rd [of T cap k r c rst stk] Nil show ?case
    by (subst JSONReader_NextNonSpace.simps) (auto simp: Let_def)
next
  case (Cons d w)
  from NextChar_rd [of T cap k r d "w @ c # rst" stk] Cons.prems(1)
  obtain r1 where r1: "JSONReader_NextChar r = Some (d, r1)" "rd T cap k r1 (w @ c # rst) stk"
    by auto
  have "isspace d" "white w"
    using Cons.prems(2) by (auto simp: white_def)
  then show ?case
    using Cons.IH [of "count_lines d r1"] r1 Cons.prems(3)
    by (subst JSONReader_NextNonSpace.simps) (simp add: Let_def)
qed

lemma PeekNextNonSpace_rd:
  "rd T cap k r (w @ c # rst) stk \<Longrightarrow> white w \<Longrightarrow> \<not> isspace c \<Longrightarrow>
   \<exists>r'. JSONReader_PeekNextNonSpace r = Some (c, r') \<and> rd T cap k r' (c # rst) stk"
proof (induction w arbitrary: r)
  case Nil
  then have "JSONReader_PeekNextChar r = Some c"
    using rd_char [of T cap k r c rst stk] by (simp add: JSONReader_PeekNextChar_def)
  then show ?case
    using Nil by (subst JSONReader_PeekNextNonSpace.simps) (simp add: Let_def)
next
  case (Cons d w)
  have p: "JSONReader_PeekNextChar r = Some d"
    using rd_char [of T cap k r d "w @ c # rst" stk] Cons.prems(1) by (simp add: JSONReader_PeekNextChar_def)
  from NextChar_rd [of T cap k "count_lines d r" d "w @ c # rst" stk] Cons.prems(1)
  obtain r1 where r1: "JSONReader_NextChar (count_lines d r) = Some (d, r1)" "rd T cap k r1 (w @ c # rst) stk"
    by auto
  have "isspace d" "white w"
    using Cons.prems(2) by (auto simp: white_def)
  then show ?case
    using Cons.IH [of r1] p r1 Cons.prems(3)
    by (subst JSONReader_PeekNextNonSpace.simps) (simp add: Let_def)
qed

text \<open>A string without escapes is skipped.\<close>

definition plain :: "u8 list \<Rightarrow> bool" where
  "plain s \<longleftrightarrow> (\<forall>c \<in> set s. c \<notin> {ch_quote, ch_backslash, ch_cr, ch_lf, 0})"

lemma ReadString_loop_skip:
  "rd T cap k r (s @ ch_quote # rst) stk \<Longrightarrow> plain s \<Longrightarrow> n \<noteq> 1 \<Longrightarrow>
   \<exists>r'. ReadString_loop True n r [] = Some ([], r') \<and> rd T cap k r' rst stk"
proof (induction s arbitrary: r)
  case Nil
  from NextChar_rd [of T cap k r ch_quote rst stk] Nil show ?case
    by (subst ReadString_loop.simps) auto
next
  case (Cons c s)
  from NextChar_rd [of T cap k r c "s @ ch_quote # rst" stk] Cons.prems(1)
  obtain r1 where r1: "JSONReader_NextChar r = Some (c, r1)" "rd T cap k r1 (s @ ch_quote # rst) stk"
    by auto
  have c: "c \<noteq> ch_quote" "c \<noteq> ch_backslash" "c \<noteq> ch_cr" "c \<noteq> ch_lf" "plain s"
    using Cons.prems(2) by (auto simp: plain_def)
  have "size_sub n 1 \<noteq> 0"
    using Cons.prems(3) by (auto simp: size_sub_def)
  then show ?case
    using Cons.IH [OF r1(2) c(5) Cons.prems(3)] r1 c
    by (subst ReadString_loop.simps) (simp add: ReadString_char_def)
qed

lemma ReadString_skip:
  assumes "rd T cap k r (w @ ch_quote # s @ ch_quote # rst) stk" and "white w" and "plain s" and "n \<noteq> 1"
  shows "\<exists>r'. JSONReader_ReadString True n r = Some ([], r') \<and> rd T cap k r' rst stk"
proof -
  have "\<not> isspace ch_quote"
    by (simp add: isspace_def)
  from NextNonSpace_rd [OF assms(1,2) this] obtain r1 where
    "JSONReader_NextNonSpace r = Some (ch_quote, r1)" "rd T cap k r1 (s @ ch_quote # rst) stk"
    by blast
  then show ?thesis
    using ReadString_loop_skip [of T cap k r1 s rst stk n] assms(3,4)
    by (auto simp: JSONReader_ReadString_def)
qed

section \<open>Numbers\<close>

text \<open>The decimal digits of a number.\<close>

fun dec :: "nat \<Rightarrow> u8 list" where
  "dec n = (if n < 10 then [of_nat (48 + n)] else dec (n div 10) @ [of_nat (48 + n mod 10)])"

declare dec.simps [simp del]

lemma digit_facts:
  assumes "d < 10"
  shows "isdigit (of_nat (48 + d))" and "uint (of_nat (48 + d) :: u8) = 48 + int d"
    and "\<not> isspace (of_nat (48 + d))" and "of_nat (48 + d) \<notin> {ch_quote, ch_lbracket, ch_lbrace, ch_rbracket, ch_rbrace, 45, 43 :: u8}"
proof -
  have "d \<in> {0, 1, 2, 3, 4, 5, 6, 7, 8, 9}"
    using assms by auto
  then show "isdigit (of_nat (48 + d))" "uint (of_nat (48 + d) :: u8) = 48 + int d"
    "\<not> isspace (of_nat (48 + d))" "of_nat (48 + d) \<notin> {ch_quote, ch_lbracket, ch_lbrace, ch_rbracket, ch_rbrace, 45, 43 :: u8}"
    by (auto simp: isdigit_def isspace_def)
qed

lemma digits_value_append: "digits_value (xs @ [x]) = 10 * digits_value xs + (uint x - 48)"
  by (simp add: digits_value_def)

lemma dec_facts:
  "digits_value (dec n) = int n \<and> (\<forall>c \<in> set (dec n). isdigit c)
   \<and> (\<exists>d < 10. hd (dec n) = of_nat (48 + d)) \<and> dec n \<noteq> []"
proof (induction n rule: dec.induct)
  case (1 n)
  show ?case
  proof (cases "n < 10")
    case True
    then show ?thesis
      using digit_facts [OF True] by (subst (1 2 3 4) dec.simps) (auto simp: digits_value_def)
  next
    case False
    have m: "n mod 10 < 10"
      by simp
    have "digits_value (dec n) = 10 * int (n div 10) + int (n mod 10)"
      using 1 False digit_facts(2) [OF m] by (subst dec.simps) (simp add: digits_value_append)
    also have "\<dots> = int n"
      by presburger
    finally have "digits_value (dec n) = int n" .
    then show ?thesis
      using 1 False digit_facts(1) [OF m] by (subst (2 3 4) dec.simps) auto
  qed
qed

lemma takeWhile_stop: "(\<forall>c \<in> set ds. P c) \<Longrightarrow> \<not> P c \<Longrightarrow> takeWhile P (ds @ c # t) = ds"
  by (induction ds) auto

lemma strtol_dec:
  assumes "white w" and "\<not> isdigit c"
  shows "strtol (w @ dec n @ c # t) = Some (min (2 ^ 31 - 1) (int n), length w + length (dec n))"
proof -
  obtain d where d: "d < 10" "hd (dec n) = of_nat (48 + d)" and ne: "dec n \<noteq> []"
    using dec_facts by blast
  have r: "dec n @ c # t = hd (dec n) # (tl (dec n) @ c # t)"
    using ne by simp
  have "takeWhile isspace (w @ dec n @ c # t) = w"
    unfolding r using takeWhile_stop [of w isspace "hd (dec n)"] assms(1) digit_facts(3) [OF d(1)] d(2)
    by (simp add: white_def)
  moreover have "takeWhile isdigit (dec n @ c # t) = dec n"
    using takeWhile_stop [of "dec n" isdigit c t] dec_facts assms(2) by simp
  moreover have "hd (dec n @ c # t) \<noteq> 45" "hd (dec n @ c # t) \<noteq> 43"
    using digit_facts(4) [OF d(1)] d(2) ne by auto
  moreover have "digits_value (dec n) = int n"
    using dec_facts by blast
  ultimately show ?thesis
    using ne by (simp add: strtol_def Let_def)
qed

lemma ReadInteger_rd:
  assumes "rd T cap k r (w @ dec n @ c # rst) stk" and "white w" and "\<not> isdigit c"
  shows "\<exists>r'. JSONReader_ReadInteger r = Some (min (2 ^ 31 - 1) (int n), r') \<and> rd T cap k r' (c # rst) stk"
    and "\<exists>r'. JSONReader_ReadUnsignedInteger r = Some (nat (min (2 ^ 31 - 1) (int n)), r') \<and> rd T cap k r' (c # rst) stk"
proof -
  have d: "drop (isptr r) (istr r) = w @ dec n @ c # rst" "istr r = T" "isptr r \<le> length T"
    using assms(1) by (simp_all add: rd_def)
  have lt: "isptr r + length w + length (dec n) < length (istr r)"
    using arg_cong [OF d(1), of length] d(2,3) by simp
  let ?r = "r\<lparr>isptr := isptr r + (length w + length (dec n))\<rparr>"
  have "drop (length w + length (dec n)) (drop (isptr r) T) = c # rst"
    using d(1,2) by simp
  then have "rd T cap k ?r (c # rst) stk"
    using assms(1) lt d(2) by (simp add: rd_def add.commute)
  moreover have "(min (2 ^ 31 - 1) (int n)) mod 2 ^ 32 = min (2 ^ 31 - 1) (int n)"
    by (rule mod_pos_pos_trivial) auto
  ultimately show "\<exists>r'. JSONReader_ReadInteger r = Some (min (2 ^ 31 - 1) (int n), r') \<and> rd T cap k r' (c # rst) stk"
    "\<exists>r'. JSONReader_ReadUnsignedInteger r = Some (nat (min (2 ^ 31 - 1) (int n)), r') \<and> rd T cap k r' (c # rst) stk"
    using strtol_dec [OF assms(2,3), of n rst] lt d(1)
    by (auto simp: JSONReader_ReadInteger_def JSONReader_ReadUnsignedInteger_def)
qed

section \<open>Items\<close>

lemma push_scope_rd:
  assumes "rd T cap k r rst stk" and "length stk + 1 < cap" and "v < 2 ^ 32"
  shows "\<exists>r'. push_scope v r = Some r' \<and> rd T cap k r' rst (v # stk)"
proof -
  have "seq_rep cap (scope_counter r) stk"
    using assms(1) by (simp add: rd_def)
  then obtain s' where "SeqPush (scope_counter r) v = Some (False, s')" "seq_rep cap s' (v # stk)"
    using scopes.push_ok assms(2,3) by blast
  then show ?thesis
    using assms(1) by (auto simp: push_scope_def rd_def)
qed

lemma pop_scope_rd:
  assumes "rd T cap k r rst (v # stk)"
  shows "rd T cap k (pop_scope r) rst stk"
proof -
  have "seq_rep cap (scope_counter r) (v # stk)"
    using assms by (simp add: rd_def)
  then obtain s' where "SeqPop (scope_counter r) = (0, s')" "seq_rep cap s' stk"
    using scopes.pop_ok by blast
  then show ?thesis
    using assms by (auto simp: pop_scope_def rd_def)
qed

lemma incr_scope_rd:
  assumes "rd T cap k r rst (v # stk)"
  shows "\<exists>r'. incr_scope r = Some r' \<and> rd T cap k r' rst ((v + 1) mod 2 ^ 32 # stk)"
proof -
  have s: "seq_rep cap (scope_counter r) (v # stk)"
    using assms by (simp add: rd_def)
  let ?s = "(scope_counter r)\<lparr>seq_data := (seq_data (scope_counter r))[length stk := (v + 1) mod 2 ^ 32]\<rparr>"
  have "take (Suc (length stk)) (seq_data (scope_counter r)) = rev stk @ [v]"
    using s by (auto simp: seq_rep_def)
  then have "take (Suc (length stk)) (seq_data ?s) = rev stk @ [(v + 1) mod 2 ^ 32]"
    by (simp add: take_update_swap list_update_append)
  then have "seq_rep cap ?s ((v + 1) mod 2 ^ 32 # stk)"
    using s by (simp add: seq_rep_def)
  moreover have "SeqBack_incr (scope_counter r) = Some (False, ?s)"
    using scopes.top_ok [OF s] s by (auto simp: SeqBack_incr_def seq_rep_def)
  ultimately show ?thesis
    using assms by (auto simp: incr_scope_def rd_def)
qed

lemma Begin_rd:
  assumes "rd T cap k r (w @ b # rst) stk" and "white w" and "length stk + 1 < cap"
  shows "b = ch_lbracket \<Longrightarrow> \<exists>r'. JSONReader_BeginArray r = Some r' \<and> rd T cap k r' rst (0 # stk)"
    and "b = ch_lbrace \<Longrightarrow> \<exists>r'. JSONReader_BeginObject r = Some r' \<and> rd T cap k r' rst (0 # stk)"
proof -
  have n: "\<exists>r1. JSONReader_NextNonSpace r = Some (b, r1) \<and> rd T cap k r1 rst stk" if "\<not> isspace b"
    by (rule NextNonSpace_rd [OF assms(1,2) that])
  show "\<exists>r'. JSONReader_BeginArray r = Some r' \<and> rd T cap k r' rst (0 # stk)" if b: "b = ch_lbracket"
  proof -
    obtain r1 where "JSONReader_NextNonSpace r = Some (b, r1)" "rd T cap k r1 rst stk"
      using n b by (auto simp: isspace_def)
    then show ?thesis
      using push_scope_rd [of T cap k r1 rst stk 0] assms(3) b by (auto simp: JSONReader_BeginArray_def)
  qed
  show "\<exists>r'. JSONReader_BeginObject r = Some r' \<and> rd T cap k r' rst (0 # stk)" if b: "b = ch_lbrace"
  proof -
    obtain r1 where "JSONReader_NextNonSpace r = Some (b, r1)" "rd T cap k r1 rst stk"
      using n b by (auto simp: isspace_def)
    then show ?thesis
      using push_scope_rd [of T cap k r1 rst stk 0] assms(3) b by (auto simp: JSONReader_BeginObject_def)
  qed
qed

text \<open>The end of a scope, the first item, and the next item.\<close>

lemma next_item_end:
  assumes "rd T cap k r (w @ cl # rst) (v # stk)" and "white w" and "\<not> isspace cl"
  shows "\<exists>r'. next_item cl r = Some (False, r') \<and> rd T cap k r' rst (v # stk)"
proof -
  have top: "SeqBack (scope_counter r) = Some (False, v)"
    using scopes.top_ok assms(1) by (auto simp: rd_def)
  show ?thesis
  proof (cases "v = 0")
    case True
    obtain r1 where r1: "JSONReader_PeekNextNonSpace r = Some (cl, r1)" "rd T cap k r1 (cl # rst) (v # stk)"
      using PeekNextNonSpace_rd [OF assms] by blast
    then show ?thesis
      using NextChar_rd [OF r1(2)] top True by (auto simp: next_item_def)
  next
    case False
    then show ?thesis
      using NextNonSpace_rd [OF assms] top by (auto simp: next_item_def)
  qed
qed

lemma next_item_first:
  assumes "rd T cap k r (w @ c # rst) (0 # stk)" and "white w" and "\<not> isspace c" and "c \<noteq> cl"
  shows "\<exists>r'. next_item cl r = Some (True, r') \<and> rd T cap k r' (c # rst) (0 # stk)"
proof -
  have "SeqBack (scope_counter r) = Some (False, 0)"
    using scopes.top_ok assms(1) by (auto simp: rd_def)
  then show ?thesis
    using PeekNextNonSpace_rd [OF assms(1-3)] assms(4) by (auto simp: next_item_def)
qed

lemma next_item_comma:
  assumes "rd T cap k r (w @ ch_comma # rst) (v # stk)" and "white w" and "v \<noteq> 0" and "cl \<noteq> ch_comma"
  shows "\<exists>r'. next_item cl r = Some (True, r') \<and> rd T cap k r' rst (v # stk)"
proof -
  have "SeqBack (scope_counter r) = Some (False, v)"
    using scopes.top_ok assms(1) by (auto simp: rd_def)
  moreover have "\<not> isspace ch_comma"
    by (simp add: isspace_def)
  ultimately show ?thesis
    using NextNonSpace_rd [OF assms(1,2)] assms(3,4) by (auto simp: next_item_def)
qed

section \<open>Printed values\<close>

datatype json = JInt nat | JStr "u8 list" | JArr "json list" | JObj "(u8 list \<times> json) list"

text \<open>The items of a list of texts, with the white space \<open>w\<close> before every item and every comma.\<close>

fun items_txt :: "u8 list \<Rightarrow> bool \<Rightarrow> u8 list list \<Rightarrow> u8 list" where
  "items_txt w first [] = []"
| "items_txt w first (b # bs) = (if first then w else w @ ch_comma # w) @ b @ items_txt w False bs"

definition pair_txt :: "u8 list \<Rightarrow> u8 list \<Rightarrow> u8 list \<Rightarrow> u8 list" where
  "pair_txt w key b = ch_quote # key @ ch_quote # w @ ch_colon # w @ b"

text \<open>A value with the white space \<open>w\<close> before each of its tokens but the first.\<close>

fun json_txt :: "u8 list \<Rightarrow> json \<Rightarrow> u8 list" where
  "json_txt w (JInt n) = dec n"
| "json_txt w (JStr s) = ch_quote # s @ [ch_quote]"
| "json_txt w (JArr xs) = ch_lbracket # items_txt w True (map (json_txt w) xs) @ w @ [ch_rbracket]"
| "json_txt w (JObj kvs) = ch_lbrace # items_txt w True (map (\<lambda>(key, v). pair_txt w key (json_txt w v)) kvs) @ w @ [ch_rbrace]"

text \<open>Strings and keys without escapes, and the nesting depth.\<close>

fun json_plain :: "json \<Rightarrow> bool" where
  "json_plain (JInt n) = True"
| "json_plain (JStr s) = plain s"
| "json_plain (JArr xs) = (\<forall>x \<in> set xs. json_plain x)"
| "json_plain (JObj kvs) = (\<forall>(key, v) \<in> set kvs. plain key \<and> json_plain v)"

fun depth_of :: "json \<Rightarrow> nat" where
  "depth_of (JInt n) = 0"
| "depth_of (JStr s) = 0"
| "depth_of (JArr xs) = Suc (Max (insert 0 (set (map depth_of xs))))"
| "depth_of (JObj kvs) = Suc (Max (insert 0 (set (map (\<lambda>(key, v). depth_of v) kvs))))"

text \<open>The number of items of every array and object is below \<open>2 ^ 32\<close>.\<close>

fun json_short :: "json \<Rightarrow> bool" where
  "json_short (JInt n) = True"
| "json_short (JStr s) = True"
| "json_short (JArr xs) = (length xs < 2 ^ 32 \<and> (\<forall>x \<in> set xs. json_short x))"
| "json_short (JObj kvs) = (length kvs < 2 ^ 32 \<and> (\<forall>(key, v) \<in> set kvs. json_short v))"

lemma depth_JArr: "x \<in> set xs \<Longrightarrow> depth_of x < depth_of (JArr xs)"
  by (simp add: le_imp_less_Suc)

lemma depth_JObj: "(key, v) \<in> set kvs \<Longrightarrow> depth_of v < depth_of (JObj kvs)"
  by (force simp: intro!: le_imp_less_Suc Max_ge)

text \<open>Every value begins with a character that is no white space and no closing bracket.\<close>

definition opens :: "u8 list \<Rightarrow> bool" where
  "opens t \<longleftrightarrow> (\<exists>c t'. t = c # t' \<and> \<not> isspace c \<and> c \<noteq> ch_rbracket \<and> c \<noteq> ch_rbrace)"

lemma opens_json: "opens (json_txt w v)"
proof (cases v)
  case (JInt n)
  obtain d where d: "d < 10" "hd (dec n) = of_nat (48 + d)" "dec n \<noteq> []"
    using dec_facts by blast
  then have "dec n = of_nat (48 + d) # tl (dec n)"
    by (metis list.collapse)
  then show ?thesis
    using digit_facts(3,4) [OF d(1)] JInt unfolding opens_def
    by (intro exI [of _ "of_nat (48 + d)"] exI [of _ "tl (dec n)"]) simp
qed (auto simp: opens_def isspace_def)

section \<open>The look-ahead\<close>

text \<open>The loop state: the mode, the kinds of the items around, the count, and the reader.\<close>

definition ls_rep ::
    "u8 list \<Rightarrow> nat \<Rightarrow> nat \<Rightarrow> length_state \<Rightarrow> bool \<Rightarrow> nat list \<Rightarrow> nat \<Rightarrow> u8 list \<Rightarrow> nat list \<Rightarrow> bool" where
  "ls_rep T cap k st is_arr kinds n rst stk \<longleftrightarrow> ls_array st = is_arr \<and> seq_rep 10 (ls_scopes st) kinds
     \<and> ls_count st = n \<and> rd T cap k (ls_reader st) rst stk"

text \<open>
  A value of depth \<open>d\<close> is passed over: after some rounds the loop is behind it, with the same scopes.
\<close>

definition passes :: "u8 list \<Rightarrow> nat \<Rightarrow> nat \<Rightarrow> u8 list \<Rightarrow> nat \<Rightarrow> bool" where
  "passes T cap k b d \<longleftrightarrow> (\<forall>st is_arr kinds n ws c rst stk.
     ls_rep T cap k st is_arr kinds n (ws @ b @ c # rst) stk \<longrightarrow> white ws \<longrightarrow> \<not> isdigit c \<longrightarrow>
     length kinds + d < 10 \<longrightarrow> length stk + d < cap \<longrightarrow>
     (\<exists>st1 st'. length_value st = Some st1 \<and> length_loop st1 = length_loop st'
        \<and> ls_rep T cap k st' is_arr kinds n (c # rst) stk))"

lemma passesD:
  assumes "passes T cap k b d" and "ls_rep T cap k st is_arr kinds n (ws @ b @ c # rst) stk" and "white ws"
    and "\<not> isdigit c" and "length kinds + d < 10" and "length stk + d < cap"
  obtains st1 st' where "length_value st = Some st1" "length_loop st1 = length_loop st'"
    "ls_rep T cap k st' is_arr kinds n (c # rst) stk"
  using assms unfolding passes_def by blast

text \<open>One round at an item.\<close>

lemma length_loop_value:
  assumes "length_has_item st = Some (True, st0)" and "length_value st0 = Some st1" and "length_loop st1 = length_loop st'"
  shows "length_loop st = length_loop st'"
  using assms by (subst length_loop.simps) (simp add: length_step_def)

text \<open>The item before an item or a comma: the reader is left at the item, white space apart.\<close>

lemma next_item_rd:
  assumes r: "rd T cap k r ((if first then w else w @ ch_comma # w) @ b @ rst) (v # stk)"
    and v: "first \<longleftrightarrow> v = 0" and w: "white w" "opens b" and cl: "cl = ch_rbracket \<or> cl = ch_rbrace"
  shows "\<exists>r' ws. next_item cl r = Some (True, r') \<and> white ws \<and> rd T cap k r' (ws @ b @ rst) (v # stk)"
proof (cases first)
  case True
  obtain c t where b: "b = c # t" "\<not> isspace c" "c \<noteq> cl"
    using w(2) cl by (auto simp: opens_def)
  have "rd T cap k r (w @ c # t @ rst) (0 # stk)"
    using r True v b(1) by simp
  from next_item_first [OF this w(1) b(2,3)] obtain r' where
    "next_item cl r = Some (True, r')" "rd T cap k r' (c # t @ rst) (0 # stk)"
    by blast
  then show ?thesis
    using True v b(1) by (intro exI [of _ r'] exI [of _ "[]"]) (simp add: white_def)
next
  case False
  then have "rd T cap k r (w @ ch_comma # w @ b @ rst) (v # stk)"
    using r by simp
  from next_item_comma [OF this w(1), of cl] obtain r' where
    "next_item cl r = Some (True, r')" "rd T cap k r' (w @ b @ rst) (v # stk)"
    using False v cl by auto
  then show ?thesis
    using w(1) by blast
qed

lemma array_item:
  assumes st: "ls_rep T cap k st True kinds n ((if first then w else w @ ch_comma # w) @ b @ c # rst) (v # stk)"
    and v: "first \<longleftrightarrow> v = 0" "v + 1 < 2 ^ 32" and w: "white w" "opens b"
    and p: "passes T cap k b d" "\<not> isdigit c" "length kinds + d < 10" "length stk + 1 + d < cap"
  shows "\<exists>st'. length_loop st = length_loop st'
    \<and> ls_rep T cap k st' True kinds (n + of_bool (kinds = [])) (c # rst) ((v + 1) # stk)"
proof -
  obtain r ws where r: "next_item ch_rbracket (ls_reader st) = Some (True, r)" "white ws"
    "rd T cap k r (ws @ b @ c # rst) (v # stk)"
    using next_item_rd [of T cap k "ls_reader st" first w b "c # rst" v stk ch_rbracket] st v(1) w
    by (auto simp: ls_rep_def)
  obtain r' where r': "incr_scope r = Some r'" "rd T cap k r' (ws @ b @ c # rst) ((v + 1) # stk)"
    using incr_scope_rd [OF r(3)] v(2) by auto
  have sz: "seq_size (ls_scopes st) = length kinds" and arr: "ls_array st"
    using st by (simp_all add: ls_rep_def seq_rep_def)
  let ?st0 = "st\<lparr>ls_reader := r', ls_count := ls_count st + of_bool (kinds = [])\<rparr>"
  have has: "length_has_item st = Some (True, ?st0)"
    using r(1) r'(1) sz arr by (simp add: length_has_item_def JSONReader_NextArrayItem_def)
  have st0: "ls_rep T cap k ?st0 True kinds (n + of_bool (kinds = [])) (ws @ b @ c # rst) ((v + 1) # stk)"
    using st r'(2) by (simp add: ls_rep_def)
  from passesD [OF p(1) st0 r(2) p(2,3)] p(4) obtain st1 st' where
    "length_value ?st0 = Some st1" "length_loop st1 = length_loop st'"
    "ls_rep T cap k st' True kinds (n + of_bool (kinds = [])) (c # rst) ((v + 1) # stk)"
    by auto
  then show ?thesis
    using length_loop_value [OF has] by blast
qed

lemma object_item:
  assumes st: "ls_rep T cap k st False kinds n ((if first then w else w @ ch_comma # w) @ pair_txt w key b @ c # rst) (v # stk)"
    and v: "first \<longleftrightarrow> v = 0" "v + 1 < 2 ^ 32" and w: "white w" "plain key"
    and p: "passes T cap k b d" "\<not> isdigit c" "length kinds + d < 10" "length stk + 1 + d < cap"
  shows "\<exists>st'. length_loop st = length_loop st' \<and> ls_rep T cap k st' False kinds n (c # rst) ((v + 1) # stk)"
proof -
  have "opens (pair_txt w key b)"
    by (simp add: opens_def pair_txt_def isspace_def)
  then obtain r ws where r: "next_item ch_rbrace (ls_reader st) = Some (True, r)" "white ws"
    "rd T cap k r (ws @ pair_txt w key b @ c # rst) (v # stk)"
    using next_item_rd [of T cap k "ls_reader st" first w "pair_txt w key b" "c # rst" v stk ch_rbrace] st v(1) w(1)
    by (auto simp: ls_rep_def)
  obtain r1 where r1: "incr_scope r = Some r1"
    "rd T cap k r1 (ws @ ch_quote # key @ ch_quote # w @ ch_colon # w @ b @ c # rst) ((v + 1) # stk)"
    using incr_scope_rd [OF r(3)] v(2) by (auto simp: pair_txt_def)
  obtain r2 where r2: "JSONReader_ReadString True 0 r1 = Some ([], r2)"
    "rd T cap k r2 (w @ ch_colon # w @ b @ c # rst) ((v + 1) # stk)"
    using ReadString_skip [OF r1(2) r(2) w(2), of 0] by auto
  have "\<not> isspace ch_colon"
    by (simp add: isspace_def)
  from NextNonSpace_rd [OF r2(2) w(1) this] obtain r3 where r3: "JSONReader_NextNonSpace r2 = Some (ch_colon, r3)"
    "rd T cap k r3 (w @ b @ c # rst) ((v + 1) # stk)"
    by blast
  let ?st0 = "st\<lparr>ls_reader := r3\<rparr>"
  have has: "length_has_item st = Some (True, ?st0)"
    using r(1) r1(1) r2(1) r3(1) st by (simp add: length_has_item_def JSONReader_NextObjectItem_def ls_rep_def)
  have st0: "ls_rep T cap k ?st0 False kinds n (w @ b @ c # rst) ((v + 1) # stk)"
    using st r3(2) by (simp add: ls_rep_def)
  from passesD [OF p(1) st0 w(1) p(2,3)] p(4) obtain st1 st' where
    "length_value ?st0 = Some st1" "length_loop st1 = length_loop st'"
    "ls_rep T cap k st' False kinds n (c # rst) ((v + 1) # stk)"
    by auto
  then show ?thesis
    using length_loop_value [OF has] by blast
qed

text \<open>All items of a scope.\<close>

lemma items_txt_next:
  assumes "white w" and "\<not> isdigit c"
  shows "\<exists>c' t. items_txt w False bs @ w @ c # rst = c' # t \<and> \<not> isdigit c'"
proof -
  have sp: "\<not> isdigit d" if "isspace d" for d
    using that by (auto simp: isspace_def isdigit_def word_le_nat_alt)
  show ?thesis
    using assms sp by (cases bs; cases w) (auto simp: white_def isdigit_def)
qed

lemma array_items:
  assumes "white w" and "\<not> isdigit cl"
  shows "ls_rep T cap k st True kinds n (items_txt w (v = 0) bs @ w @ cl # rst) (v # stk) \<Longrightarrow>
   v + length bs < 2 ^ 32 \<Longrightarrow> \<forall>b \<in> set bs. opens b \<and> passes T cap k b d \<Longrightarrow>
   length kinds + d < 10 \<Longrightarrow> length stk + 1 + d < cap \<Longrightarrow>
   \<exists>st'. length_loop st = length_loop st' \<and> ls_rep T cap k st' True kinds
     (n + (if kinds = [] then length bs else 0)) (w @ cl # rst) ((v + length bs) # stk)"
proof (induction bs arbitrary: st n v)
  case Nil
  then show ?case by auto
next
  case (Cons b bs)
  obtain c' t where c': "items_txt w False bs @ w @ cl # rst = c' # t" "\<not> isdigit c'"
    using items_txt_next [OF assms] by blast
  have st: "ls_rep T cap k st True kinds n ((if v = 0 then w else w @ ch_comma # w) @ b @ c' # t) (v # stk)"
    using Cons.prems(1) c'(1) by simp
  have b: "opens b" "passes T cap k b d" and v1: "v + 1 < 2 ^ 32"
    using Cons.prems(2,3) by auto
  from array_item [OF st refl v1 assms(1) b c'(2) Cons.prems(4,5)] obtain st1 where st1:
    "length_loop st = length_loop st1"
    "ls_rep T cap k st1 True kinds (n + of_bool (kinds = [])) (items_txt w (v + 1 = 0) bs @ w @ cl # rst) ((v + 1) # stk)"
    using c'(1) by auto
  have "v + 1 + length bs < 2 ^ 32" "\<forall>b \<in> set bs. opens b \<and> passes T cap k b d"
    using Cons.prems(2,3) by auto
  from Cons.IH [OF st1(2) this Cons.prems(4,5)] show ?case
    using st1(1) by (auto simp: add.assoc)
qed

lemma object_items:
  assumes "white w" and "\<not> isdigit cl"
  shows "ls_rep T cap k st False kinds n (items_txt w (v = 0) (map (\<lambda>(key, b). pair_txt w key b) kbs) @ w @ cl # rst) (v # stk) \<Longrightarrow>
   v + length kbs < 2 ^ 32 \<Longrightarrow> \<forall>(key, b) \<in> set kbs. plain key \<and> passes T cap k b d \<Longrightarrow>
   length kinds + d < 10 \<Longrightarrow> length stk + 1 + d < cap \<Longrightarrow>
   \<exists>st'. length_loop st = length_loop st' \<and> ls_rep T cap k st' False kinds n (w @ cl # rst) ((v + length kbs) # stk)"
proof (induction kbs arbitrary: st v)
  case Nil
  then show ?case by auto
next
  case (Cons kb kbs)
  obtain key b where kb: "kb = (key, b)"
    by fastforce
  let ?ts = "map (\<lambda>(key, b). pair_txt w key b) kbs"
  obtain c' t where c': "items_txt w False ?ts @ w @ cl # rst = c' # t" "\<not> isdigit c'"
    using items_txt_next [OF assms] by blast
  have st: "ls_rep T cap k st False kinds n ((if v = 0 then w else w @ ch_comma # w) @ pair_txt w key b @ c' # t) (v # stk)"
    using Cons.prems(1) c'(1) kb by simp
  have b: "plain key" "passes T cap k b d" and v1: "v + 1 < 2 ^ 32"
    using Cons.prems(2,3) kb by auto
  from object_item [OF st refl v1 assms(1) b c'(2) Cons.prems(4,5)] obtain st1 where st1:
    "length_loop st = length_loop st1"
    "ls_rep T cap k st1 False kinds n (items_txt w (v + 1 = 0) ?ts @ w @ cl # rst) ((v + 1) # stk)"
    using c'(1) by auto
  have "v + 1 + length kbs < 2 ^ 32" "\<forall>(key, b) \<in> set kbs. plain key \<and> passes T cap k b d"
    using Cons.prems(2,3) by auto
  from Cons.IH [OF st1(2) this Cons.prems(4,5)] show ?case
    using st1(1) by auto
qed

text \<open>The end of an inner scope.\<close>

lemma scope_end:
  assumes st: "ls_rep T cap k st is_arr (of_bool outer # kinds) n (w @ cl # rst) (v # stk)" and "white w"
    and cl: "cl = (if is_arr then ch_rbracket else ch_rbrace)"
  shows "\<exists>st'. length_loop st = length_loop st' \<and> ls_rep T cap k st' outer kinds n rst stk"
proof -
  have "\<not> isspace cl"
    using cl by (simp add: isspace_def)
  then obtain r where r: "next_item cl (ls_reader st) = Some (False, r)" "rd T cap k r rst (v # stk)"
    using next_item_end [of T cap k "ls_reader st" w cl rst v stk] st assms(2) by (auto simp: ls_rep_def)
  have s: "seq_rep 10 (ls_scopes st) (of_bool outer # kinds)" and arr: "ls_array st = is_arr"
    using st by (simp_all add: ls_rep_def)
  obtain s' where s': "SeqPop (ls_scopes st) = (0, s')" "seq_rep 10 s' kinds"
    using scopes.pop_ok [OF s] by blast
  have sz: "seq_size (ls_scopes st) = Suc (length kinds)"
    using s by (simp add: seq_rep_def)
  let ?st' = "st\<lparr>ls_array := outer, ls_scopes := s', ls_reader := pop_scope r\<rparr>"
  have has: "length_has_item st = Some (False, st\<lparr>ls_reader := pop_scope r\<rparr>)"
    using r(1) cl arr sz
    by (cases is_arr) (simp_all add: length_has_item_def JSONReader_NextArrayItem_def JSONReader_NextObjectItem_def)
  have "length_step st = Some (True, ?st')"
    using has sz scopes.top_ok [OF s] s'(1) by (simp add: length_step_def Let_def)
  then have "length_loop st = length_loop ?st'"
    by (subst length_loop.simps) simp
  moreover have "ls_rep T cap k ?st' outer kinds n rst stk"
    using st s'(2) pop_scope_rd [OF r(2)] by (simp add: ls_rep_def)
  ultimately show ?thesis
    by blast
qed

text \<open>Opening a scope.\<close>

lemma scope_begin:
  assumes st: "ls_rep T cap k st is_arr kinds n (ws @ op # rst) stk" and "white ws"
    and op: "op = (if inner then ch_lbracket else ch_lbrace)"
    and room: "length kinds + 1 < 10" "length stk + 1 < cap"
  shows "\<exists>st1. length_value st = Some st1 \<and> ls_rep T cap k st1 inner (of_bool is_arr # kinds) n rst (0 # stk)"
proof -
  have sp: "\<not> isspace op"
    using op by (simp add: isspace_def)
  obtain r where r: "JSONReader_PeekNextNonSpace (ls_reader st) = Some (op, r)" "rd T cap k r (op # rst) stk"
    using PeekNextNonSpace_rd [of T cap k "ls_reader st" ws op rst stk] st assms(2) sp by (auto simp: ls_rep_def)
  have r0: "rd T cap k r ([] @ op # rst) stk" "white []"
    using r(2) by (simp_all add: white_def)
  obtain r1 where r1: "(if inner then JSONReader_BeginArray r else JSONReader_BeginObject r) = Some r1"
    "rd T cap k r1 rst (0 # stk)"
    using Begin_rd [OF r0 room(2)] op by (cases inner) auto
  have s: "seq_rep 10 (ls_scopes st) kinds"
    using st by (simp add: ls_rep_def)
  obtain s' where s': "SeqPush (ls_scopes st) (of_bool (ls_array st)) = Some (False, s')"
    "seq_rep 10 s' (of_bool (ls_array st) # kinds)"
    using scopes.push_ok [OF s room(1), of "of_bool (ls_array st)"] by (cases "ls_array st") auto
  let ?st1 = "st\<lparr>ls_reader := r1, ls_scopes := s', ls_array := inner\<rparr>"
  have "length_value st = Some ?st1"
    using r(1) r1(1) s'(1) op by (cases inner) (simp_all add: length_value_def length_push_def)
  moreover have "ls_rep T cap k ?st1 inner (of_bool is_arr # kinds) n rst (0 # stk)"
    using st s'(2) r1(2) by (simp add: ls_rep_def)
  ultimately show ?thesis
    by blast
qed

section \<open>Values are passed over\<close>

lemma passes_mono: "passes T cap k b d \<Longrightarrow> d \<le> d' \<Longrightarrow> passes T cap k b d'"
  unfolding passes_def by (meson add_left_mono le_less_trans)

lemma passes_scope:
  assumes w: "white w" and body: "b = op # items @ w @ [cl]"
    and op: "op = (if inner then ch_lbracket else ch_lbrace)" "cl = (if inner then ch_rbracket else ch_rbrace)"
    and items: "\<And>st kinds n rst stk. kinds \<noteq> [] \<Longrightarrow> ls_rep T cap k st inner kinds n (items @ w @ cl # rst) (0 # stk) \<Longrightarrow>
      length kinds + d < 10 \<Longrightarrow> length stk + 1 + d < cap \<Longrightarrow>
      \<exists>st' m. length_loop st = length_loop st' \<and> ls_rep T cap k st' inner kinds n (w @ cl # rst) (m # stk)"
  shows "passes T cap k b (Suc d)"
  unfolding passes_def
proof (intro allI impI)
  fix st is_arr kinds n ws c rst stk
  assume st: "ls_rep T cap k st is_arr kinds n (ws @ b @ c # rst) stk" and ws: "white ws"
    and room: "length kinds + Suc d < 10" "length stk + Suc d < cap"
  have st': "ls_rep T cap k st is_arr kinds n (ws @ op # (items @ w @ cl # c # rst)) stk"
    using st body by simp
  have "length kinds + 1 < 10" "length stk + 1 < cap"
    using room by simp_all
  from scope_begin [OF st' ws op(1) this] obtain st1 where st1: "length_value st = Some st1"
    "ls_rep T cap k st1 inner (of_bool is_arr # kinds) n (items @ w @ cl # c # rst) (0 # stk)"
    by blast
  have "length (of_bool is_arr # kinds) + d < 10" "length stk + 1 + d < cap"
    using room by simp_all
  from items [OF _ st1(2) this] obtain st2 m where st2: "length_loop st1 = length_loop st2"
    "ls_rep T cap k st2 inner (of_bool is_arr # kinds) n (w @ cl # c # rst) (m # stk)"
    by auto
  from scope_end [OF st2(2) w op(2)] show "\<exists>st1 st'. length_value st = Some st1 \<and> length_loop st1 = length_loop st'
      \<and> ls_rep T cap k st' is_arr kinds n (c # rst) stk"
    using st1(1) st2(1) by auto
qed

lemma Max_depth:
  "x \<in> set xs \<Longrightarrow> f x \<le> Max (insert 0 (set (map f xs)))"
  by simp

lemma json_passes:
  "white w \<Longrightarrow> json_plain v \<Longrightarrow> json_short v \<Longrightarrow> passes T cap k (json_txt w v) (depth_of v)"
proof (induction v)
  case (JInt i)
  show ?case
    unfolding passes_def
  proof (intro allI impI)
    fix st is_arr kinds n ws c rst stk
    assume st: "ls_rep T cap k st is_arr kinds n (ws @ json_txt w (JInt i) @ c # rst) stk" "white ws" "\<not> isdigit c"
    obtain d where d: "d < 10" "hd (dec i) = of_nat (48 + d)" "dec i \<noteq> []"
      using dec_facts by blast
    let ?c = "of_nat (48 + d) :: u8"
    have dec: "dec i = ?c # tl (dec i)"
      using d by (metis list.collapse)
    note facts = digit_facts(3,4) [OF d(1)]
    have t: "ws @ json_txt w (JInt i) @ c # rst = ws @ ?c # (tl (dec i) @ c # rst)"
      by (subst json_txt.simps, subst dec) (simp del: of_nat_add)
    have "rd T cap k (ls_reader st) (ws @ ?c # (tl (dec i) @ c # rst)) stk"
      using st(1) unfolding t by (simp add: ls_rep_def)
    from PeekNextNonSpace_rd [OF this st(2) facts(1)] obtain r where r:
      "JSONReader_PeekNextNonSpace (ls_reader st) = Some (?c, r)" "rd T cap k r (?c # tl (dec i) @ c # rst) stk"
      by blast
    have "rd T cap k r ([] @ dec i @ c # rst) stk"
      using r(2) by (subst dec) (simp del: of_nat_add)
    from ReadInteger_rd(1) [OF this _ st(3)] obtain x r' where r':
      "JSONReader_ReadInteger r = Some (x, r')" "rd T cap k r' (c # rst) stk"
      by (auto simp: white_def)
    have "length_value st = Some (st\<lparr>ls_reader := r'\<rparr>)"
      using r(1) r'(1) facts(2) by (simp add: length_value_def del: of_nat_add)
    moreover have "ls_rep T cap k (st\<lparr>ls_reader := r'\<rparr>) is_arr kinds n (c # rst) stk"
      using st(1) r'(2) by (simp add: ls_rep_def)
    ultimately show "\<exists>st1 st'. length_value st = Some st1 \<and> length_loop st1 = length_loop st'
        \<and> ls_rep T cap k st' is_arr kinds n (c # rst) stk"
      by blast
  qed
next
  case (JStr s)
  show ?case
    unfolding passes_def
  proof (intro allI impI)
    fix st is_arr kinds n ws c rst stk
    assume st: "ls_rep T cap k st is_arr kinds n (ws @ json_txt w (JStr s) @ c # rst) stk" "white ws"
    have "rd T cap k (ls_reader st) (ws @ ch_quote # (s @ ch_quote # c # rst)) stk" "\<not> isspace ch_quote"
      using st(1) by (simp_all add: ls_rep_def isspace_def)
    from PeekNextNonSpace_rd [OF this(1) st(2) this(2)] obtain r where r:
      "JSONReader_PeekNextNonSpace (ls_reader st) = Some (ch_quote, r)"
      "rd T cap k r ([] @ ch_quote # s @ ch_quote # c # rst) stk"
      by auto
    have "white []" "plain s"
      using JStr.prems(2) by (simp_all add: white_def)
    from ReadString_skip [OF r(2) this, of 1024] obtain r' where r':
      "JSONReader_ReadString True 1024 r = Some ([], r')" "rd T cap k r' (c # rst) stk"
      by auto
    have "length_value st = Some (st\<lparr>ls_reader := r'\<rparr>)"
      using r(1) r'(1) by (simp add: length_value_def)
    moreover have "ls_rep T cap k (st\<lparr>ls_reader := r'\<rparr>) is_arr kinds n (c # rst) stk"
      using st(1) r'(2) by (simp add: ls_rep_def)
    ultimately show "\<exists>st1 st'. length_value st = Some st1 \<and> length_loop st1 = length_loop st'
        \<and> ls_rep T cap k st' is_arr kinds n (c # rst) stk"
      by blast
  qed
next
  case (JArr xs)
  let ?d = "Max (insert 0 (set (map depth_of xs)))"
  have p: "\<forall>b \<in> set (map (json_txt w) xs). opens b \<and> passes T cap k b ?d"
  proof
    fix b
    assume "b \<in> set (map (json_txt w) xs)"
    then obtain x where x: "x \<in> set xs" "b = json_txt w x"
      by auto
    then have "passes T cap k b (depth_of x)"
      using JArr by simp
    then show "opens b \<and> passes T cap k b ?d"
      using passes_mono Max_depth [OF x(1), of depth_of] opens_json x(2) by blast
  qed
  have "passes T cap k (json_txt w (JArr xs)) (Suc ?d)"
  proof (rule passes_scope [OF JArr.prems(1), where inner = True])
    fix st and kinds :: "nat list" and n rst stk
    assume "kinds \<noteq> []" and "ls_rep T cap k st True kinds n (items_txt w True (map (json_txt w) xs) @ w @ ch_rbracket # rst) (0 # stk)"
      and "length kinds + ?d < 10" "length stk + 1 + ?d < cap"
    then show "\<exists>st' m. length_loop st = length_loop st' \<and> ls_rep T cap k st' True kinds n (w @ ch_rbracket # rst) (m # stk)"
      using array_items [OF JArr.prems(1), of ch_rbracket T cap k st kinds n 0 "map (json_txt w) xs" rst stk ?d] p JArr.prems(3)
      by (auto simp: isdigit_def)
  qed simp_all
  then show ?case
    by simp
next
  case (JObj kvs)
  let ?d = "Max (insert 0 (set (map (\<lambda>(key, v). depth_of v) kvs)))"
  let ?kbs = "map (\<lambda>(key, v). (key, json_txt w v)) kvs"
  have p: "\<forall>(key, b) \<in> set ?kbs. plain key \<and> passes T cap k b ?d"
  proof
    fix kb
    assume "kb \<in> set ?kbs"
    then obtain key v where m: "(key, v) \<in> set kvs" and kb: "kb = (key, json_txt w v)"
      by auto
    have key: "plain key"
      using m JObj.prems(2) by auto
    have "passes T cap k (json_txt w v) (depth_of v)"
      using JObj.IH [of "(key, v)" v] m JObj.prems by (auto split: prod.splits)
    moreover have "depth_of v \<le> ?d"
      using Max_depth [OF m, of "\<lambda>(key, v). depth_of v"] by simp
    ultimately have "passes T cap k (json_txt w v) ?d"
      by (rule passes_mono)
    then show "case kb of (key, b) \<Rightarrow> plain key \<and> passes T cap k b ?d"
      using key by (simp only: kb prod.case simp_thms)
  qed
  have texts: "map (\<lambda>(key, v). pair_txt w key (json_txt w v)) kvs = map (\<lambda>(key, b). pair_txt w key b) ?kbs"
    by auto
  have "passes T cap k (json_txt w (JObj kvs)) (Suc ?d)"
  proof (rule passes_scope [OF JObj.prems(1), where inner = False])
    fix st and kinds :: "nat list" and n rst stk
    assume "ls_rep T cap k st False kinds n
        (items_txt w True (map (\<lambda>(key, v). pair_txt w key (json_txt w v)) kvs) @ w @ ch_rbrace # rst) (0 # stk)"
      and "length kinds + ?d < 10" "length stk + 1 + ?d < cap"
    then show "\<exists>st' m. length_loop st = length_loop st' \<and> ls_rep T cap k st' False kinds n (w @ ch_rbrace # rst) (m # stk)"
      unfolding texts
      using object_items [OF JObj.prems(1), of ch_rbrace T cap k st kinds n 0 ?kbs rst stk ?d] p JObj.prems(3)
      by (auto simp: isdigit_def)
  qed simp_all
  then show ?case
    by simp
qed

section \<open>The length of a printed array\<close>

text \<open>The heap after a sequence is made and released again.\<close>

lemma SeqCreate_ok:
  assumes inv: "pm_inv mgr live" and fits: "pm_fits mgr 32" "pm_fits mgr (4 * len)" and len: "4 * len < 2 ^ 32" "1 < len"
  shows "(TVMPlatformMemoryAllocate mgr 32 = Some (kTvmErrorPlatformNoMemory, 0, mgr)
        \<and> SeqCreate mgr len g = Some (kTvmErrorPlatformNoMemory, None, mgr))
    \<or> (\<exists>p sz mgr1. TVMPlatformMemoryAllocate mgr 32 = Some (kTvmErrorNoError, p, mgr1) \<and> live p = None
        \<and> pm_inv mgr1 (live(p \<mapsto> sz))
        \<and> ((TVMPlatformMemoryAllocate mgr1 (4 * len) = Some (kTvmErrorPlatformNoMemory, 0, mgr1)
             \<and> SeqCreate mgr len g = Some (kTvmErrorPlatformNoMemory, None, mgr1))
          \<or> (\<exists>d s mgr'. TVMPlatformMemoryAllocate mgr1 (4 * len) = Some (kTvmErrorNoError, d, mgr')
             \<and> SeqCreate mgr len g = Some (kTvmErrorNoError, Some s, mgr') \<and> seq_rep len s []
             \<and> (\<forall>s'. seq_at s' = seq_at s \<longrightarrow> seq_data_at s' = seq_data_at s \<longrightarrow>
                  (\<exists>mgr''. SeqRelease mgr' s' = Some (kTvmErrorNoError, mgr'') \<and> pm_inv mgr'' live)))))"
proof -
  have m: "4 * len mod 2 ^ 32 = 4 * len"
    using len by simp
  from platform.alloc_ok [OF inv fits(1)] show ?thesis
  proof (elim disjE exE conjE)
    fix p sz mgr1
    assume a: "TVMPlatformMemoryAllocate mgr 32 = Some (kTvmErrorNoError, p, mgr1)" "pm_inv mgr1 (live(p \<mapsto> sz))"
      "live p = None" "pm_fits mgr1 = pm_fits mgr"
    have "pm_fits mgr1 (4 * len)"
      using a(4) fits(2) by simp
    from platform.alloc_ok [OF a(2) this] show ?thesis
    proof (elim disjE exE conjE)
      fix d sz2 mgr2
      assume b: "TVMPlatformMemoryAllocate mgr1 (4 * len) = Some (kTvmErrorNoError, d, mgr2)"
        "pm_inv mgr2 ((live(p \<mapsto> sz))(d \<mapsto> sz2))" "(live(p \<mapsto> sz)) d = None"
      let ?s = "\<lparr>seq_data = take len (g @ replicate len 0), seq_allocated = len, seq_size = 0,
              seq_at = p, seq_data_at = d\<rparr>"
      have "SeqCreate mgr len g = Some (kTvmErrorNoError, Some ?s, mgr2)"
        unfolding SeqCreate_def sizeof_Seq_def m by (simp add: a(1) b(1))
      moreover have "seq_rep len ?s []"
        using len by (simp add: seq_rep_def)
      moreover have "\<exists>mgr''. SeqRelease mgr2 s' = Some (kTvmErrorNoError, mgr'') \<and> pm_inv mgr'' live"
        if s': "seq_at s' = p" "seq_data_at s' = d" for s'
      proof -
        have "d \<noteq> p"
          using b(3) by auto
        obtain mgr3 where f1: "TVMPlatformMemoryFree mgr2 d = Some (kTvmErrorNoError, mgr3)"
          "pm_inv mgr3 (((live(p \<mapsto> sz))(d \<mapsto> sz2))(d := None))"
          using platform.release_ok [OF b(2), of d sz2] by auto
        have e1: "((live(p \<mapsto> sz))(d \<mapsto> sz2))(d := None) = live(p \<mapsto> sz)"
          using b(3) \<open>d \<noteq> p\<close> by (auto simp: fun_eq_iff)
        obtain mgr4 where f2: "TVMPlatformMemoryFree mgr3 p = Some (kTvmErrorNoError, mgr4)"
          "pm_inv mgr4 ((live(p \<mapsto> sz))(p := None))"
          using platform.release_ok [OF f1(2) [unfolded e1], of p sz] by auto
        have "(live(p \<mapsto> sz))(p := None) = live"
          using a(3) by (auto simp: fun_eq_iff)
        then show ?thesis
          using f1(1) f2 s' by (auto simp: SeqRelease_def)
      qed
      ultimately have "\<exists>d s mgr'. TVMPlatformMemoryAllocate mgr1 (4 * len) = Some (kTvmErrorNoError, d, mgr')
             \<and> SeqCreate mgr len g = Some (kTvmErrorNoError, Some s, mgr') \<and> seq_rep len s []
             \<and> (\<forall>s'. seq_at s' = seq_at s \<longrightarrow> seq_data_at s' = seq_data_at s \<longrightarrow>
                  (\<exists>mgr''. SeqRelease mgr' s' = Some (kTvmErrorNoError, mgr'') \<and> pm_inv mgr'' live))"
        using b(1) by (intro exI [of _ d] exI [of _ ?s] exI [of _ mgr2]) simp
      then show ?thesis
        using a by blast
    next
      assume "TVMPlatformMemoryAllocate mgr1 (4 * len) = Some (kTvmErrorPlatformNoMemory, 0, mgr1)"
      moreover from this have "SeqCreate mgr len g = Some (kTvmErrorPlatformNoMemory, None, mgr1)"
        unfolding SeqCreate_def sizeof_Seq_def m by (simp add: a(1))
      ultimately show ?thesis
        using a by blast
    qed
  next
    assume "TVMPlatformMemoryAllocate mgr 32 = Some (kTvmErrorPlatformNoMemory, 0, mgr)"
    then show ?thesis
      unfolding SeqCreate_def sizeof_Seq_def by simp
  qed
qed

text \<open>The operations do not move the blocks of the counters of the look-ahead.\<close>

lemma length_step_blocks:
  assumes "length_step st = Some (go, st')"
  shows "seq_at (ls_scopes st') = seq_at (ls_scopes st)" and "seq_data_at (ls_scopes st') = seq_data_at (ls_scopes st)"
proof -
  have push: "SeqPush s v = Some (m, s') \<Longrightarrow> seq_at s' = seq_at s \<and> seq_data_at s' = seq_data_at s" for s s' v m
    by (auto simp: SeqPush_def bind_eq_Some)
  have has: "length_has_item st = Some (h, st1) \<Longrightarrow> ls_scopes st1 = ls_scopes st" for h st1
    by (auto simp: length_has_item_def bind_eq_Some split: if_splits)
  have val: "length_value st1 = Some st2 \<Longrightarrow> seq_at (ls_scopes st2) = seq_at (ls_scopes st1)
      \<and> seq_data_at (ls_scopes st2) = seq_data_at (ls_scopes st1)" for st1 st2
    by (auto simp: length_value_def length_push_def bind_eq_Some split: if_splits dest!: push)
  show "seq_at (ls_scopes st') = seq_at (ls_scopes st)" "seq_data_at (ls_scopes st') = seq_data_at (ls_scopes st)"
    using assms by (auto simp: length_step_def bind_eq_Some SeqPop_def Let_def split: if_splits dest!: has val)
qed

lemma length_loop_blocks:
  "length_loop st = Some st' \<Longrightarrow>
   seq_at (ls_scopes st') = seq_at (ls_scopes st) \<and> seq_data_at (ls_scopes st') = seq_data_at (ls_scopes st)"
proof (induction st rule: length_loop.induct)
  case (1 st)
  from "1.prems" obtain go st1 where s: "length_step st = Some (go, st1)"
    "(if go then length_loop st1 else Some st1) = Some st'"
    by (subst (asm) length_loop.simps) (auto simp: bind_eq_Some)
  show ?case
    using "1.IH" [OF s(1) refl] s(2) length_step_blocks [OF s(1)] by (cases go) auto
qed

lemma length_loop_top:
  assumes st: "ls_rep T cap k st True [] n (w @ ch_rbracket # rst) (v # stk)" and w: "white w"
  shows "\<exists>st'. length_loop st = Some st' \<and> ls_rep T cap k st' True [] n rst stk"
proof -
  have sp: "\<not> isspace ch_rbracket"
    by (simp add: isspace_def)
  obtain r where r: "next_item ch_rbracket (ls_reader st) = Some (False, r)" "rd T cap k r rst (v # stk)"
    using next_item_end [of T cap k "ls_reader st" w ch_rbracket rst v stk] w sp st by (auto simp: ls_rep_def)
  have "seq_size (ls_scopes st) = 0" "ls_array st"
    using st by (simp_all add: ls_rep_def seq_rep_def)
  then have "length_loop st = Some (st\<lparr>ls_reader := pop_scope r\<rparr>)"
    using r(1) by (subst length_loop.simps) (simp add: length_step_def length_has_item_def JSONReader_NextArrayItem_def)
  moreover have "ls_rep T cap k (st\<lparr>ls_reader := pop_scope r\<rparr>) True [] n rst stk"
    using st pop_scope_rd [OF r(2)] by (simp add: ls_rep_def)
  ultimately show ?thesis
    by blast
qed

text \<open>
  The look-ahead at the beginning of an array, with its own stack of ten counters in the blocks of \<open>s\<close>.
\<close>

lemma ArrayLength_counts:
  assumes s: "SeqCreate mgr 10 g = Some (kTvmErrorNoError, Some s, mgr1)" "seq_rep 10 s []"
    and rel: "\<And>s'. seq_at s' = seq_at s \<Longrightarrow> seq_data_at s' = seq_data_at s \<Longrightarrow> SeqRelease mgr1 s' = Some (kTvmErrorNoError, mgr2)"
    and w: "white w" and len: "length xs < 2 ^ 32"
    and xs: "\<forall>x \<in> set xs. json_plain x \<and> json_short x \<and> depth_of x \<le> d" and d: "d < 10" "length stk + 1 + d < cap"
    and r: "rd T cap k r (items_txt w True (map (json_txt w) xs) @ w @ ch_rbracket # rst) (0 # stk)"
  shows "\<exists>r'. JSONReader_ArrayLength mgr g r = Some (0, Some (length xs), mgr2, r')
        \<and> rd T cap k r' (items_txt w True (map (json_txt w) xs) @ w @ ch_rbracket # rst) (0 # stk)
        \<and> line_count_n r' = line_count_n r \<and> line_count_r r' = line_count_r r"
proof -
  let ?txt = "items_txt w True (map (json_txt w) xs) @ w @ ch_rbracket # rst"
  have top: "SeqBack (scope_counter r) = Some (False, 0)"
    using scopes.top_ok r by (auto simp: rd_def)
  let ?st = "\<lparr>ls_array = True, ls_scopes = s, ls_count = 0, ls_reader = r\<rparr>"
  have st: "ls_rep T cap k ?st True [] 0 (items_txt w (0 = 0) (map (json_txt w) xs) @ w @ ch_rbracket # rst) (0 # stk)"
    using s(2) r by (simp add: ls_rep_def)
  have "\<forall>b \<in> set (map (json_txt w) xs). opens b \<and> passes T cap k b d"
    using xs json_passes [OF w] passes_mono opens_json by auto blast
  from array_items [OF w _ st _ this] len d obtain st1 where st1: "length_loop ?st = length_loop st1"
    "ls_rep T cap k st1 True [] (length xs) (w @ ch_rbracket # rst) (length xs # stk)"
    by (auto simp: isdigit_def)
  obtain st2 where st2: "length_loop st1 = Some st2" "ls_rep T cap k st2 True [] (length xs) rst stk"
    using length_loop_top [OF st1(2) w] by blast
  have loop: "length_loop ?st = Some st2"
    using st1(1) st2(1) by simp
  let ?r2 = "(ls_reader st2)\<lparr>isptr := isptr r, line_count_r := line_count_r r, line_count_n := line_count_n r\<rparr>"
  have "rd T cap k ?r2 ?txt stk"
    using st2(2) r by (simp add: ls_rep_def rd_def)
  then obtain r3 where r3: "push_scope 0 ?r2 = Some r3" "rd T cap k r3 ?txt (0 # stk)"
    using push_scope_rd [of T cap k ?r2 ?txt stk 0] d(2) by auto
  have lines: "line_count_n r3 = line_count_n r" "line_count_r r3 = line_count_r r"
    using r3(1) by (auto simp: push_scope_def bind_eq_Some)
  have "SeqRelease mgr1 (ls_scopes st2) = Some (kTvmErrorNoError, mgr2)"
    using rel length_loop_blocks [OF loop] by simp
  moreover have "ls_count st2 = length xs"
    using st2(2) by (simp add: ls_rep_def)
  ultimately have "JSONReader_ArrayLength mgr g r = Some (0, Some (length xs), mgr2, r3)"
    using s(1) loop r3(1) top by (simp add: JSONReader_ArrayLength_def Let_def)
  then show ?thesis
    using r3(2) lines by blast
qed

section \<open>Strings\<close>

text \<open>The text of a string: the five escapes the reader knows.\<close>

definition esc :: "u8 \<Rightarrow> u8 list" where
  "esc c = (if c = ch_cr then [ch_backslash, 114] else if c = ch_lf then [ch_backslash, 110]
     else if c = ch_backslash then [ch_backslash, ch_backslash] else if c = 9 then [ch_backslash, 116]
     else if c = ch_quote then [ch_backslash, ch_quote] else [c])"

definition enc :: "u8 list \<Rightarrow> u8 list" where
  "enc s = concat (map esc s)"

text \<open>One character, with room for it or as the last one that fits.\<close>

lemma ReadString_esc:
  assumes r: "rd T cap k r (esc c @ rst) stk" and n: "length out + 2 \<le> n"
  shows "\<exists>r'. rd T cap k r' rst stk \<and> ReadString_loop False n r out =
    (if length out + 2 < n then ReadString_loop False n r' (out @ [c]) else Some (out @ [c], complain True r'))"
proof -
  have sub: "size_sub n 1 = n - 1"
    using n by (simp add: size_sub_def)
  show ?thesis
  proof (cases "esc c = [c]")
    case True
    then have c: "c \<noteq> ch_cr" "c \<noteq> ch_lf" "c \<noteq> ch_backslash" "c \<noteq> ch_quote"
      by (auto simp: esc_def split: if_splits)
    obtain r1 where r1: "JSONReader_NextChar r = Some (c, r1)" "rd T cap k r1 rst stk"
      using NextChar_rd [of T cap k r c rst stk] r True by auto
    have "ReadString_char False c out r1 = Some (out @ [c], r1)"
      using c(3) by (simp add: ReadString_char_def)
    then have "ReadString_loop False n r out = (if length out + 2 < n then ReadString_loop False n r1 (out @ [c])
        else Some (out @ [c], complain True r1))"
      using n c r1(1) sub by (subst ReadString_loop.simps) auto
    then show ?thesis
      using r1(2) by blast
  next
    case False
    then obtain d where d: "esc c = [ch_backslash, d]" "unescape d = Some c"
      by (auto simp: esc_def unescape_def split: if_splits)
    obtain r1 where r1: "JSONReader_NextChar r = Some (ch_backslash, r1)" "rd T cap k r1 (d # rst) stk"
      using NextChar_rd [of T cap k r ch_backslash "d # rst" stk] r d(1) by auto
    obtain r2 where r2: "JSONReader_NextChar r1 = Some (d, r2)" "rd T cap k r2 rst stk"
      using NextChar_rd [OF r1(2)] by auto
    have "ReadString_char False ch_backslash out r1 = Some (out @ [c], r2)"
      using r2(1) d(2) by (simp add: ReadString_char_def)
    then have "ReadString_loop False n r out = (if length out + 2 < n then ReadString_loop False n r2 (out @ [c])
        else Some (out @ [c], complain True r2))"
      using n r1(1) sub by (subst ReadString_loop.simps) auto
    then show ?thesis
      using r2(2) by blast
  qed
qed

lemma ReadString_enc:
  "rd T cap k r (enc s @ rst) stk \<Longrightarrow> length out + length s + 1 < n \<Longrightarrow>
   \<exists>r'. ReadString_loop False n r out = ReadString_loop False n r' (out @ s) \<and> rd T cap k r' rst stk"
proof (induction s arbitrary: r out)
  case Nil
  then show ?case
    by (auto simp: enc_def)
next
  case (Cons c s)
  have "rd T cap k r (esc c @ enc s @ rst) stk"
    using Cons.prems(1) by (simp add: enc_def)
  then obtain r1 where r1: "rd T cap k r1 (enc s @ rst) stk"
    "ReadString_loop False n r out = ReadString_loop False n r1 (out @ [c])"
    using ReadString_esc [of T cap k r c "enc s @ rst" stk out n] Cons.prems(2) by auto
  then show ?case
    using Cons.IH [OF r1(1), of "out @ [c]"] Cons.prems(2) by simp
qed

lemma ReadString_open:
  assumes "rd T cap k r (w @ ch_quote # rst) stk" and "white w"
  shows "\<exists>r'. rd T cap k r' rst stk \<and> JSONReader_ReadString null n r =
    do { (out, r'') \<leftarrow> ReadString_loop null n r' []; CHECK (null \<or> length out < n); Some (out, r'') }"
proof -
  have "\<not> isspace ch_quote"
    by (simp add: isspace_def)
  from NextNonSpace_rd [OF assms this] show ?thesis
    by (auto simp: JSONReader_ReadString_def)
qed

lemma ReadString_str:
  assumes r: "rd T cap k r (w @ ch_quote # enc s @ ch_quote # rst) stk" and w: "white w" and n: "length s + 1 < n"
  shows "\<exists>r'. JSONReader_ReadString False n r = Some (s, r') \<and> rd T cap k r' rst stk"
proof -
  obtain r1 where r1: "rd T cap k r1 (enc s @ ch_quote # rst) stk" "JSONReader_ReadString False n r =
    do { (out, r'') \<leftarrow> ReadString_loop False n r1 []; CHECK (False \<or> length out < n); Some (out, r'') }"
    using ReadString_open [OF r w, of False n] by blast
  obtain r2 where r2: "ReadString_loop False n r1 [] = ReadString_loop False n r2 s" "rd T cap k r2 (ch_quote # rst) stk"
    using ReadString_enc [OF r1(1), of "[]" n] n by auto
  obtain r3 where r3: "JSONReader_NextChar r2 = Some (ch_quote, r3)" "rd T cap k r3 rst stk"
    using NextChar_rd [OF r2(2)] by auto
  have "ReadString_loop False n r2 s = Some (s, r3)"
    using r3(1) n by (subst ReadString_loop.simps) simp
  then show ?thesis
    using r1(2) r2(1) r3(2) n by simp
qed

text \<open>
  C34. A string is read back with its escapes undone when it is at least two bytes shorter than the
  buffer. A string that fits with its terminator and no byte to spare is also stored, but the reader
  complains and stops before the closing quote.
\<close>
theorem string_round_trip:
  assumes r: "rd T cap k r (w @ ch_quote # enc s @ ch_quote # rst) stk" and w: "white w" and n: "length s < n" "2 \<le> n"
  shows "\<exists>r'. JSONReader_ReadString False n r = Some (s, r')
    \<and> (if length s + 1 < n then rd T cap k r' rst stk else rd T cap (k + 1) r' (ch_quote # rst) stk)"
proof (cases "length s + 1 < n")
  case True
  then show ?thesis
    using ReadString_str [OF r w True] by auto
next
  case False
  obtain r1 where r1: "rd T cap k r1 (enc s @ ch_quote # rst) stk" "JSONReader_ReadString False n r =
    do { (out, r'') \<leftarrow> ReadString_loop False n r1 []; CHECK (False \<or> length out < n); Some (out, r'') }"
    using ReadString_open [OF r w, of False n] by blast
  from False obtain s' c where s: "s = s' @ [c]" and len: "length s' + 2 = n"
    using n by (cases s rule: rev_cases) auto
  have e: "enc s @ ch_quote # rst = enc s' @ (esc c @ ch_quote # rst)"
    by (simp add: s enc_def)
  obtain r2 where r2: "ReadString_loop False n r1 [] = ReadString_loop False n r2 s'"
    "rd T cap k r2 (esc c @ ch_quote # rst) stk"
    using ReadString_enc [of T cap k r1 s' "esc c @ ch_quote # rst" stk "[]" n] r1(1) e len by auto
  obtain r3 where r3: "rd T cap k r3 (ch_quote # rst) stk" "ReadString_loop False n r2 s' = Some (s, complain True r3)"
    using ReadString_esc [OF r2(2), of s' n] len s by auto
  have "rd T cap (k + 1) (complain True r3) (ch_quote # rst) stk"
    using r3(1) by (simp add: rd_def complain_def)
  then show ?thesis
    using r1(2) r2(1) r3(2) False n(1) by simp
qed

text \<open>A reader at the beginning of a text, with one open scope.\<close>

definition reader_of :: "u8 list \<Rightarrow> json_reader" where
  "reader_of T = \<lparr>istr = T, istr_at = 0, isptr = 0, line_count_r = 0, line_count_n = 0,
     scope_counter = \<lparr>seq_data = [0, 0, 0, 0], seq_allocated = 4, seq_size = 1, seq_at = 0, seq_data_at = 0\<rparr>,
     complaints = 0\<rparr>"

lemma reader_of_rd: "rd T 4 0 (reader_of T) T [0]"
  by (simp add: rd_def reader_of_def seq_rep_def)

lemma string_round_trip_witness:
  "\<exists>r'. JSONReader_ReadString False 10 (reader_of ([32] @ ch_quote # enc [97, 10] @ ch_quote # [0])) = Some ([97, 10], r')
    \<and> (if length [97, 10 :: u8] + 1 < 10
       then rd ([32] @ ch_quote # enc [97, 10] @ ch_quote # [0]) 4 0 r' [0] [0]
       else rd ([32] @ ch_quote # enc [97, 10] @ ch_quote # [0]) 4 (0 + 1) r' (ch_quote # [0]) [0])"
  by (rule string_round_trip [OF reader_of_rd]) (simp_all add: white_def isspace_def)

lemma ReadString_loop_bound:
  "ReadString_loop False n r out = Some (out', r') \<Longrightarrow> length out + 1 < n \<Longrightarrow> length out' < n"
proof (induction False n r out rule: ReadString_loop.induct)
  case (1 n r out)
  have lt: "length out < n \<or> False"
    using "1.prems"(2) by simp
  obtain c r1 where c: "JSONReader_NextChar r = Some (c, r1)"
    using "1.prems"(1) lt by (subst (asm) ReadString_loop.simps) (auto simp: bind_eq_Some)
  show ?case
  proof (cases "c = ch_quote")
    case True
    then show ?thesis
      using "1.prems" c by (subst (asm) ReadString_loop.simps) simp
  next
    case False
    obtain o2 r2 where o2: "ReadString_char False c out r1 = Some (o2, r2)"
      using "1.prems"(1) lt c False by (subst (asm) ReadString_loop.simps) (auto simp: bind_eq_Some)
    have len: "length o2 \<le> length out + 1"
      using o2 by (auto simp: ReadString_char_def bind_eq_Some split: if_splits option.splits)
    have sub: "size_sub n 1 = n - 1"
      using "1.prems"(2) by (simp add: size_sub_def)
    show ?thesis
    proof (cases "length o2 = n - 1 \<or> c = ch_cr \<or> c = ch_lf")
      case True
      then have "out' = o2"
        using "1.prems"(1) lt c False o2 sub by (subst (asm) ReadString_loop.simps) (auto split: if_splits)
      then show ?thesis
        using len "1.prems"(2) by simp
    next
      case stop: False
      then have "ReadString_loop False n r2 o2 = Some (out', r')"
        using "1.prems"(1) lt c False o2 sub by (subst (asm) ReadString_loop.simps) (auto split: if_splits)
      moreover have "length o2 + 1 < n"
        using len stop "1.prems"(2) by auto
      ultimately show ?thesis
        using "1.hyps" [OF lt c refl False o2 refl] stop sub by auto
    qed
  qed
qed

text \<open>
  A string is never written past a buffer of two bytes or more, whatever the text is: the
  terminator always fits.
\<close>
lemma string_within_buffer:
  assumes "2 \<le> n" and "ReadString_loop False n r [] = Some (out, r')"
  shows "length out < n"
  using ReadString_loop_bound [of n r "[]" out r'] assms by simp

text \<open>A buffer of one byte overflows on every string that is not empty.\<close>

lemma one_byte_buffer_overflows:
  assumes r: "rd T cap k r (w @ ch_quote # c # rst) stk" "white w" and c: "plain [c]"
  shows "JSONReader_ReadString False 1 r = None"
proof -
  obtain r3 where r3: "rd T cap k r3 (c # rst) stk" "JSONReader_ReadString False 1 r =
    do { (out, r'') \<leftarrow> ReadString_loop False 1 r3 []; CHECK (False \<or> length out < 1); Some (out, r'') }"
    using ReadString_open [OF r, of False 1] by blast
  obtain r4 where r4: "JSONReader_NextChar r3 = Some (c, r4)"
    using NextChar_rd [OF r3(1)] by blast
  have "ReadString_loop False 1 r3 [] = ReadString_loop False 1 r4 [c]"
    using r4 c by (subst ReadString_loop.simps) (simp add: ReadString_char_def plain_def size_sub_def)
  also have "\<dots> = Some ([c], r4)"
    by (subst ReadString_loop.simps) simp
  finally show ?thesis
    using r3(2) by simp
qed

text \<open>
  A string that is not closed before the end of the text is read past the end of the copy of the
  text: the terminator is taken for a character of the string.
\<close>
lemma unterminated_string_faults:
  assumes r: "rd T cap k r (w @ ch_quote # s) stk" and w: "white w" and n: "n \<noteq> 1"
    and s: "\<forall>c \<in> set s. c \<notin> {ch_quote, ch_backslash, ch_cr, ch_lf}"
  shows "JSONReader_ReadString True n r = None"
proof -
  have loop: "rd T cap k r s stk \<Longrightarrow> \<forall>c \<in> set s. c \<notin> {ch_quote, ch_backslash, ch_cr, ch_lf} \<Longrightarrow>
    ReadString_loop True n r [] = None" for r s
  proof (induction s arbitrary: r)
    case Nil
    then have "JSONReader_NextChar r = None"
      by (auto simp: JSONReader_NextChar_def rd_def)
    then show ?case
      by (subst ReadString_loop.simps) simp
  next
    case (Cons c s)
    obtain r1 where r1: "JSONReader_NextChar r = Some (c, r1)" "rd T cap k r1 s stk"
      using NextChar_rd [OF Cons.prems(1)] by blast
    have "size_sub n 1 \<noteq> 0"
      using n by (auto simp: size_sub_def)
    then show ?case
      using Cons.IH [OF r1(2)] Cons.prems(2) r1(1) by (subst ReadString_loop.simps) (simp add: ReadString_char_def)
  qed
  show ?thesis
    using ReadString_open [OF r w, of True n] loop s by auto
qed

section \<open>Node entries\<close>

lemma NextArrayItem_rd:
  assumes "rd T cap k r ((if v = 0 then w else w @ ch_comma # w) @ b @ rst) (v # stk)"
    and "white w" and "opens b" and "v + 1 < 2 ^ 32"
  shows "\<exists>r' ws. JSONReader_NextArrayItem r = Some (True, r') \<and> white ws \<and> rd T cap k r' (ws @ b @ rst) ((v + 1) # stk)"
proof -
  obtain r1 ws where r1: "next_item ch_rbracket r = Some (True, r1)" "white ws" "rd T cap k r1 (ws @ b @ rst) (v # stk)"
    using next_item_rd [OF assms(1) _ assms(2,3), of ch_rbracket] by auto
  obtain r2 where r2: "incr_scope r1 = Some r2" "rd T cap k r2 (ws @ b @ rst) ((v + 1) # stk)"
    using incr_scope_rd [OF r1(3)] assms(4) by auto
  show ?thesis
    using r1(1,2) r2 by (intro exI [of _ r2] exI [of _ ws]) (simp add: JSONReader_NextArrayItem_def)
qed

lemma NextArrayItem_rd_end:
  assumes "rd T cap k r (w @ ch_rbracket # rst) (v # stk)" and "white w"
  shows "\<exists>r'. JSONReader_NextArrayItem r = Some (False, r') \<and> rd T cap k r' rst stk"
proof -
  have "\<not> isspace ch_rbracket"
    by (simp add: isspace_def)
  from next_item_end [OF assms this] show ?thesis
    using pop_scope_rd by (force simp: JSONReader_NextArrayItem_def)
qed

lemma rd_complain: "rd T cap k r txt stk \<Longrightarrow> rd T cap (k + of_bool b) (complain b r) txt stk"
  by (simp add: rd_def complain_def)

lemma opens_dec: "opens (dec n)"
  using opens_json [of "[]" "JInt n"] by simp

text \<open>An item that is a number.\<close>

lemma array_number:
  assumes r: "rd T cap k r (items_txt w (v = 0) (map dec (a # xs)) @ w @ ch_rbracket # rst) (v # stk)"
    and w: "white w" and v: "v + 1 < 2 ^ 32" and a: "a < 2 ^ 31"
  shows "\<exists>r1 r2. JSONReader_NextArrayItem r = Some (True, r1)
    \<and> JSONReader_ReadUnsignedInteger (complain b r1) = Some (a, r2)
    \<and> rd T cap (k + of_bool b) r2 (items_txt w False (map dec xs) @ w @ ch_rbracket # rst) ((v + 1) # stk)"
proof -
  obtain c t where c: "items_txt w False (map dec xs) @ w @ ch_rbracket # rst = c # t" "\<not> isdigit c"
    using items_txt_next [OF w, of ch_rbracket "map dec xs" rst] by (auto simp: isdigit_def)
  obtain r1 ws where r1: "JSONReader_NextArrayItem r = Some (True, r1)" "white ws"
    "rd T cap k r1 (ws @ dec a @ c # t) ((v + 1) # stk)"
    using NextArrayItem_rd [of T cap k r v w "dec a" "c # t" stk] r c(1) w opens_dec v by auto
  have m: "nat (min (2 ^ 31 - 1) (int a)) = a"
    using a by simp
  from ReadInteger_rd(2) [OF rd_complain [OF r1(3), of b] r1(2) c(2)] obtain r2 where
    "JSONReader_ReadUnsignedInteger (complain b r1) = Some (a, r2)" "rd T cap (k + of_bool b) r2 (c # t) ((v + 1) # stk)"
    unfolding m by blast
  then show ?thesis
    using r1(1) c(1) by auto
qed

text \<open>
  An entry \<open>[id, index]\<close> or \<open>[id, index, version]\<close> is read back, but the tests of the reader are
  upside down: it complains twice about the first form and three times about the second.
\<close>
lemma node_entry_complains:
  assumes r: "rd T cap k r (w @ ch_lbracket # items_txt w True (map dec (a # b # vs)) @ w @ ch_rbracket # rst) stk"
    and w: "white w" and room: "length stk + 1 < cap"
    and vs: "length vs \<le> 1" and bounds: "a < 2 ^ 31" "b < 2 ^ 31" "\<forall>v \<in> set vs. v < 2 ^ 31"
  shows "\<exists>r'. JSONNodeEntryLoad r = Some (\<lparr>jne_node_id = a, jne_index = b,
      jne_version = (case vs of [] \<Rightarrow> 0 | v # _ \<Rightarrow> v)\<rparr>, r') \<and> rd T cap (k + 2 + length vs) r' rst stk"
proof -
  obtain r0 where r0: "JSONReader_BeginArray r = Some r0"
    "rd T cap k r0 (items_txt w (0 = (0 :: nat)) (map dec (a # b # vs)) @ w @ ch_rbracket # rst) (0 # stk)"
    using Begin_rd(1) [OF r w room refl] by auto
  obtain r1 r2 where r1: "JSONReader_NextArrayItem r0 = Some (True, r1)"
    "JSONReader_ReadUnsignedInteger (complain True r1) = Some (a, r2)"
    "rd T cap (k + 1) r2 (items_txt w (1 = (0 :: nat)) (map dec (b # vs)) @ w @ ch_rbracket # rst) (1 # stk)"
    using array_number [OF r0(2) w _ bounds(1), of True] by auto
  obtain r3 r4 where r3: "JSONReader_NextArrayItem r2 = Some (True, r3)"
    "JSONReader_ReadUnsignedInteger (complain True r3) = Some (b, r4)"
    "rd T cap (k + 1 + of_bool True) r4 (items_txt w False (map dec vs) @ w @ ch_rbracket # rst) ((1 + 1) # stk)"
    using array_number [OF r1(3) w _ bounds(2), of True] by auto
  have two: "k + 1 + of_bool True = k + 2" "(1 :: nat) + 1 = 2"
    by simp_all
  have r4: "rd T cap (k + 2) r4 (items_txt w (2 = (0 :: nat)) (map dec vs) @ w @ ch_rbracket # rst) (2 # stk)"
    using r3(3) unfolding two by simp
  show ?thesis
  proof (cases vs)
    case Nil
    obtain r5 where "JSONReader_NextArrayItem r4 = Some (False, r5)" "rd T cap (k + 2) r5 rst stk"
      using NextArrayItem_rd_end [of T cap "k + 2" r4 w rst 2 stk] r4 Nil w by auto
    then show ?thesis
      using r0(1) r1(1,2) r3(1,2) Nil by (simp add: JSONNodeEntryLoad_def)
  next
    case (Cons v vs')
    then have "vs' = []" "v < 2 ^ 31"
      using vs bounds(3) by auto
    then obtain r5 r6 where r5: "JSONReader_NextArrayItem r4 = Some (True, r5)"
      "JSONReader_ReadUnsignedInteger (complain False r5) = Some (v, r6)"
      "rd T cap (k + 2) r6 (w @ ch_rbracket # rst) (3 # stk)"
      using array_number [of T cap "k + 2" r4 w 2 v "[]" rst stk False] r4 Cons w by auto
    obtain r7 where r7: "JSONReader_NextArrayItem r6 = Some (False, r7)" "rd T cap (k + 2) r7 rst stk"
      using NextArrayItem_rd_end [OF r5(3) w] by blast
    then show ?thesis
      using r0(1) r1(1,2) r3(1,2) r5(1,2) Cons \<open>vs' = []\<close> rd_complain [OF r7(2), of True]
      by (simp add: JSONNodeEntryLoad_def)
  qed
qed

end
