(* ===== verification/Machine.thy ===== *)
theory Machine
  imports Platform
begin

text \<open>
  The memory the runtime works on and the data of \<^verbatim>\<open>dlpack.h\<close>: devices, data types and tensors. The
  machine is the byte memory and the heap that hands out parts of it.
\<close>

section \<open>Signed integers of fixed width\<close>

text \<open>
  Arithmetic in \<^verbatim>\<open>int64_t\<close> and \<^verbatim>\<open>int32_t\<close>, in two's complement: the compiler of the target wraps.
\<close>

abbreviation to_i64 :: "int \<Rightarrow> int" where "to_i64 v \<equiv> signed_take_bit 63 v"
abbreviation to_i32 :: "int \<Rightarrow> int" where "to_i32 v \<equiv> signed_take_bit 31 v"
abbreviation to_size :: "int \<Rightarrow> nat" where "to_size v \<equiv> nat (v mod 2 ^ 32)"

lemma to_i64_id: "- (2 ^ 63) \<le> v \<Longrightarrow> v < 2 ^ 63 \<Longrightarrow> to_i64 v = v"
  by (rule signed_take_bit_int_eq_self) simp_all

lemma to_i32_id: "- (2 ^ 31) \<le> v \<Longrightarrow> v < 2 ^ 31 \<Longrightarrow> to_i32 v = v"
  by (rule signed_take_bit_int_eq_self) simp_all

lemma to_size_id: "0 \<le> v \<Longrightarrow> v < 2 ^ 32 \<Longrightarrow> to_size v = nat v"
  by simp

text \<open>The memory image of a signed integer, and the integer of an image.\<close>

definition i64_bytes :: "int \<Rightarrow> u8 list" where
  "i64_bytes v = le_bytes 8 (nat (v mod 2 ^ 64))"

definition i64_value :: "u8 list \<Rightarrow> int" where
  "i64_value bs = to_i64 (int (le_value bs))"

definition i32_value :: "u8 list \<Rightarrow> int" where
  "i32_value bs = to_i32 (int (le_value bs))"

definition i32_bytes :: "int \<Rightarrow> u8 list" where
  "i32_bytes v = le_bytes 4 (nat (v mod 2 ^ 32))"

lemma length_i64_bytes [simp]: "length (i64_bytes v) = 8"
  by (simp add: i64_bytes_def)

lemma length_i32_bytes [simp]: "length (i32_bytes v) = 4"
  by (simp add: i32_bytes_def)

lemma signed_take_bit_mod:
  "signed_take_bit n (v mod 2 ^ Suc n) = signed_take_bit n (v :: int)"
proof -
  have "signed_take_bit n (take_bit (Suc n) v) = signed_take_bit n v"
    by (rule signed_take_bit_take_bit [THEN trans]) simp
  then show ?thesis
    by (simp add: take_bit_eq_mod)
qed

lemma i64_value_bytes: "- (2 ^ 63) \<le> v \<Longrightarrow> v < 2 ^ 63 \<Longrightarrow> i64_value (i64_bytes v) = v"
proof -
  assume v: "- (2 ^ 63) \<le> v" "v < 2 ^ 63"
  have "nat (v mod 2 ^ 64) < 256 ^ 8"
    using pos_mod_bound [of "2 ^ 64" v] by (simp add: nat_less_iff)
  then have "i64_value (i64_bytes v) = to_i64 (v mod 2 ^ 64)"
    by (simp add: i64_value_def i64_bytes_def le_value_le_bytes)
  also have "\<dots> = to_i64 v"
    using signed_take_bit_mod [of 63 v] by simp
  also have "\<dots> = v"
    using v by (rule to_i64_id)
  finally show ?thesis .
qed

lemma i32_value_bytes: "- (2 ^ 31) \<le> v \<Longrightarrow> v < 2 ^ 31 \<Longrightarrow> i32_value (i32_bytes v) = v"
proof -
  assume v: "- (2 ^ 31) \<le> v" "v < 2 ^ 31"
  have "nat (v mod 2 ^ 32) < 256 ^ 4"
    using pos_mod_bound [of "2 ^ 32" v] by (simp add: nat_less_iff)
  then have "i32_value (i32_bytes v) = to_i32 (v mod 2 ^ 32)"
    by (simp add: i32_value_def i32_bytes_def le_value_le_bytes)
  also have "\<dots> = to_i32 v"
    using signed_take_bit_mod [of 31 v] by simp
  also have "\<dots> = v"
    using v by (rule to_i32_id)
  finally show ?thesis .
qed

section \<open>The byte memory\<close>

text \<open>
  Every address holds a byte. Nothing checks a pointer on this target, so a write past the end of a
  block changes what lies behind it.
\<close>

type_synonym ram = "addr \<Rightarrow> u8"

definition load_bytes :: "ram \<Rightarrow> addr \<Rightarrow> nat \<Rightarrow> u8 list" where
  "load_bytes r a n = map (\<lambda>i. r (a + int i)) [0..<n]"

definition store_bytes :: "ram \<Rightarrow> addr \<Rightarrow> u8 list \<Rightarrow> ram" where
  "store_bytes r a bs = (\<lambda>x. if a \<le> x \<and> x < a + int (length bs) then bs ! nat (x - a) else r x)"

lemma length_load_bytes [simp]: "length (load_bytes r a n) = n"
  by (simp add: load_bytes_def)

lemma load_bytes_nth: "i < n \<Longrightarrow> load_bytes r a n ! i = r (a + int i)"
  by (simp add: load_bytes_def)

lemma load_bytes_cong:
  "(\<And>x. a \<le> x \<Longrightarrow> x < a + int n \<Longrightarrow> r x = r' x) \<Longrightarrow> load_bytes r a n = load_bytes r' a n"
  by (simp add: load_bytes_def)

lemma store_bytes_outside: "x < a \<or> a + int (length bs) \<le> x \<Longrightarrow> store_bytes r a bs x = r x"
  by (auto simp: store_bytes_def)

lemma load_store_same: "load_bytes (store_bytes r a bs) a (length bs) = bs"
  by (rule nth_equalityI) (simp_all add: load_bytes_nth store_bytes_def)

lemma store_load_same: "store_bytes r a (load_bytes r a n) = r"
  by (auto simp: fun_eq_iff store_bytes_def load_bytes_nth)

lemma load_store_apart:
  assumes "a + int n \<le> b \<or> b + int (length bs) \<le> a"
  shows "load_bytes (store_bytes r b bs) a n = load_bytes r a n"
  by (rule load_bytes_cong) (use assms in \<open>auto simp: store_bytes_def\<close>)

lemma load_bytes_append: "load_bytes r a (m + n) = load_bytes r a m @ load_bytes r (a + int m) n"
  by (rule nth_equalityI) (auto simp: load_bytes_nth nth_append)

lemma load_bytes_split:
  "load_bytes r a (length xs + n) = xs @ ys \<longleftrightarrow> load_bytes r a (length xs) = xs \<and> load_bytes r (a + int (length xs)) n = ys"
  by (simp add: load_bytes_append)

text \<open>A \<^verbatim>\<open>memcpy\<close> between two places of the memory, and a \<^verbatim>\<open>memset\<close> to zero.\<close>

definition copy_bytes :: "ram \<Rightarrow> addr \<Rightarrow> addr \<Rightarrow> nat \<Rightarrow> ram" where
  "copy_bytes r dst src n = store_bytes r dst (load_bytes r src n)"

definition clear_bytes :: "ram \<Rightarrow> addr \<Rightarrow> nat \<Rightarrow> ram" where
  "clear_bytes r a n = store_bytes r a (replicate n 0)"

definition load_i64 :: "ram \<Rightarrow> addr \<Rightarrow> int" where
  "load_i64 r a = i64_value (load_bytes r a 8)"

text \<open>An array of \<^verbatim>\<open>n\<close> integers of eight bytes.\<close>

definition load_i64s :: "ram \<Rightarrow> addr \<Rightarrow> nat \<Rightarrow> int list" where
  "load_i64s r a n = map (\<lambda>i. load_i64 r (a + 8 * int i)) [0..<n]"

lemma length_load_i64s [simp]: "length (load_i64s r a n) = n"
  by (simp add: load_i64s_def)

lemma load_i64s_cong:
  assumes "\<And>x. a \<le> x \<Longrightarrow> x < a + 8 * int n \<Longrightarrow> r x = r' x"
  shows "load_i64s r a n = load_i64s r' a n"
proof -
  have "load_bytes r (a + 8 * int i) 8 = load_bytes r' (a + 8 * int i) 8" if "i < n" for i
    by (rule load_bytes_cong) (use that assms in auto)
  then show ?thesis
    by (simp add: load_i64s_def load_i64_def)
qed

lemma load_i64s_Suc: "load_i64s r a (Suc n) = load_i64 r a # load_i64s r (a + 8) n"
  by (rule nth_equalityI) (auto simp: load_i64s_def nth_Cons algebra_simps simp del: upt_Suc split: nat.split)

definition i64s_bytes :: "int list \<Rightarrow> u8 list" where
  "i64s_bytes vs = concat (map i64_bytes vs)"

lemma length_i64s_bytes [simp]: "length (i64s_bytes vs) = 8 * length vs"
  by (induction vs) (simp_all add: i64s_bytes_def)

lemma load_i64s_image:
  "load_bytes r a (8 * length vs) = i64s_bytes vs \<Longrightarrow> (\<forall>v\<in>set vs. - (2 ^ 63) \<le> v \<and> v < 2 ^ 63) \<Longrightarrow>
   load_i64s r a (length vs) = vs"
proof (induction vs arbitrary: a)
  case Nil
  show ?case by (simp add: load_i64s_def)
next
  case (Cons v vs)
  have "load_bytes r a (length (i64_bytes v) + 8 * length vs) = i64_bytes v @ i64s_bytes vs"
    using Cons.prems(1) by (simp add: i64s_bytes_def)
  then have "load_bytes r a 8 = i64_bytes v" "load_bytes r (a + 8) (8 * length vs) = i64s_bytes vs"
    unfolding load_bytes_split by simp_all
  then show ?case
    using Cons.IH [of "a + 8"] Cons.prems(2) i64_value_bytes [of v]
    by (simp add: load_i64s_Suc load_i64_def)
qed

section \<open>The machine\<close>

record machine =
  heap :: memory_manager
  ram :: ram

section \<open>Tensors\<close>

text \<open>The device kinds and the data type codes the code names.\<close>

definition kDLCPU :: int where "kDLCPU = 1"

definition kDLInt :: nat where "kDLInt = 0"
definition kDLUInt :: nat where "kDLUInt = 1"
definition kDLFloat :: nat where "kDLFloat = 2"
definition kDLBfloat :: nat where "kDLBfloat = 4"

record dl_device =
  device_type :: int
  device_id :: int

record dl_data_type =
  code :: u8
  bits :: u8
  lanes :: u16

text \<open>\<open>dt_strides = 0\<close> is the null pointer: the tensor is compact.\<close>

record dl_tensor =
  dt_data :: addr
  dt_device :: dl_device
  dt_ndim :: int
  dt_dtype :: dl_data_type
  dt_shape :: addr
  dt_strides :: addr
  dt_byte_offset :: nat

end
