(* ===== verification/Nd_Array.thy ===== *)
theory Nd_Array
  imports Machine
begin

text \<open>
  Arrays on the device: \<^verbatim>\<open>common/ndarray.c\<close> and the workspace functions of
  \<^verbatim>\<open>common/crt_backend_api.c\<close>. An array owns two blocks of the heap, its shape and its data.
\<close>

section \<open>Workspaces\<close>

text \<open>The assertion and the check of the result stop the program.\<close>

definition TVMBackendAllocWorkspace ::
    "machine \<Rightarrow> int \<Rightarrow> int \<Rightarrow> nat \<Rightarrow> int \<Rightarrow> int \<Rightarrow> (addr \<times> machine) option" where
  "TVMBackendAllocWorkspace m dev_type dev_id nbytes dtype_code_hint dtype_bits_hint = do {
     CHECK (nbytes > 0);
     (err, ptr, h) \<leftarrow> TVMPlatformMemoryAllocate (heap m) (nbytes mod 2 ^ 32);
     CHECK (err = kTvmErrorNoError);
     Some (ptr, m\<lparr>heap := h\<rparr>)
   }"

definition TVMBackendFreeWorkspace :: "machine \<Rightarrow> int \<Rightarrow> int \<Rightarrow> addr \<Rightarrow> (int \<times> machine) option" where
  "TVMBackendFreeWorkspace m dev_type dev_id ptr = do {
     (err, h) \<leftarrow> TVMPlatformMemoryFree (heap m) ptr;
     Some (tvm_crt_error_code err, m\<lparr>heap := h\<rparr>)
   }"

text \<open>
  There is one worker: the task runs as number 0 of 1, whatever was asked for, and its result is dropped.
\<close>

definition TVMBackendParallelLaunch ::
    "(int \<Rightarrow> int \<Rightarrow> 'c \<Rightarrow> 's \<Rightarrow> (int \<times> 's) option) \<Rightarrow> 'c \<Rightarrow> int \<Rightarrow> 's \<Rightarrow> (int \<times> 's) option" where
  "TVMBackendParallelLaunch flambda cdata num_task s = do {
     let env_num_task = 1;
     (r, s) \<leftarrow> flambda 0 env_num_task cdata s;
     Some (0, s)
   }"

section \<open>Arrays\<close>

definition kTVMNDArrayMagic :: u64 where "kTVMNDArrayMagic = 0xDD5E40F096B4A13F"

definition TVM_CRT_MAX_NDIM :: nat where "TVM_CRT_MAX_NDIM = 6"

record ndarray =
  arr_tensor :: dl_tensor
  reference_count :: u32

definition zero_tensor :: dl_tensor where
  "zero_tensor = \<lparr>dt_data = 0, dt_device = \<lparr>device_type = 0, device_id = 0\<rparr>, dt_ndim = 0,
     dt_dtype = \<lparr>code = 0, bits = 0, lanes = 0\<rparr>, dt_shape = 0, dt_strides = 0, dt_byte_offset = 0\<rparr>"

text \<open>
  The shape is the array the argument points to; reading past its end is \<open>None\<close>. The byte count is
  computed in \<^verbatim>\<open>size_t\<close>, from a negative rank too.
\<close>

definition NDArray_Create ::
    "machine \<Rightarrow> int \<Rightarrow> int list \<Rightarrow> dl_data_type \<Rightarrow> dl_device \<Rightarrow> (int \<times> ndarray \<times> machine) option" where
  "NDArray_Create m ndim shape dtype dev = do {
     let arr = \<lparr>arr_tensor = zero_tensor\<lparr>dt_ndim := ndim\<rparr>, reference_count = 0\<rparr>;
     (err, p, h) \<leftarrow> TVMPlatformMemoryAllocate (heap m) (to_size (8 * ndim));
     if err \<noteq> kTvmErrorNoError
     then Some (- 1, arr, m\<lparr>heap := h\<rparr>)
     else do {
       bs \<leftarrow> mem_read (i64s_bytes shape) 0 (to_size (8 * ndim));
       Some (0, arr\<lparr>arr_tensor := (arr_tensor arr)\<lparr>dt_shape := p, dt_dtype := dtype, dt_device := dev, dt_data := 0\<rparr>\<rparr>,
         m\<lparr>heap := h, ram := store_bytes (ram m) p bs\<rparr>)
     }
   }"

definition tensor_shape :: "ram \<Rightarrow> dl_tensor \<Rightarrow> int list" where
  "tensor_shape r t = load_i64s r (dt_shape t) (nat (dt_ndim t))"

text \<open>The loops over the dimensions.\<close>

definition num_elems :: "ram \<Rightarrow> dl_tensor \<Rightarrow> int" where
  "num_elems r t = foldl (\<lambda>n d. to_i64 (n * d)) 1 (tensor_shape r t)"

definition TVMNDArray_DataSizeBytes :: "ram \<Rightarrow> ndarray \<Rightarrow> int" where
  "TVMNDArray_DataSizeBytes r arr =
     to_i64 (to_i64 (num_elems r (arr_tensor arr) * uint (bits (dt_dtype (arr_tensor arr)))) + 7) sdiv 8"

text \<open>The size is narrowed to \<^verbatim>\<open>int\<close>, then widened for the allocation.\<close>

definition TVMNDArray_Empty ::
    "machine \<Rightarrow> int \<Rightarrow> int list \<Rightarrow> dl_data_type \<Rightarrow> dl_device \<Rightarrow> (int \<times> ndarray \<times> machine) option" where
  "TVMNDArray_Empty m ndim shape dtype dev = do {
     (status, arr, m) \<leftarrow> NDArray_Create m ndim shape dtype dev;
     if status \<noteq> 0 then Some (status, arr, m)
     else do {
       let total_elem_bytes = to_i32 (TVMNDArray_DataSizeBytes (ram m) arr);
       (p, m) \<leftarrow> TVMBackendAllocWorkspace m kDLCPU 0 (nat (total_elem_bytes mod 2 ^ 64))
         (uint (code dtype)) (uint (bits dtype));
       Some (0, arr\<lparr>arr_tensor := (arr_tensor arr)\<lparr>dt_data := p\<rparr>\<rparr>,
         m\<lparr>ram := clear_bytes (ram m) p (to_size total_elem_bytes)\<rparr>)
     }
   }"

text \<open>A stream is the bytes that are left; reading past its end is \<open>None\<close>.\<close>

definition sread :: "nat \<Rightarrow> u8 list \<Rightarrow> (u8 list \<times> u8 list) option" where
  "sread n strm = (if n \<le> length strm then Some (take n strm, drop n strm) else None)"

fun NDArray_Load_shape :: "int list \<Rightarrow> nat \<Rightarrow> nat \<Rightarrow> u8 list \<Rightarrow> (int list \<times> u8 list) option" where
  "NDArray_Load_shape shape idx 0 strm = Some (shape, strm)"
| "NDArray_Load_shape shape idx (Suc n) strm = do {
     (b, strm) \<leftarrow> sread 8 strm;
     shape \<leftarrow> arr_set shape idx (i64_value b);
     NDArray_Load_shape shape (idx + 1) n strm
   }"

text \<open>
  Each failed test sets the status and goes on; the call of \<open>TVMNDArray_Empty\<close> overwrites it. The
  results are the status, the array, the machine and the rest of the stream.
\<close>

definition TVMNDArray_Load ::
    "machine \<Rightarrow> u8 list \<Rightarrow> (int \<times> ndarray \<times> machine \<times> u8 list) option" where
  "TVMNDArray_Load m strm = do {
     let status = (0 :: int);
     (header, strm) \<leftarrow> sread 8 strm;
     let status = (if le_value header \<noteq> unat kTVMNDArrayMagic then - 1 else status);
     (reserved, strm) \<leftarrow> sread 8 strm;
     (dt, strm) \<leftarrow> sread 4 strm;
     (di, strm) \<leftarrow> sread 4 strm;
     let dev = \<lparr>device_type = i32_value dt, device_id = i32_value di\<rparr>;
     (nd, strm) \<leftarrow> sread 4 strm;
     let ndim = i32_value nd;
     (ty, strm) \<leftarrow> sread 4 strm;
     let dtype = \<lparr>code = ty ! 0, bits = ty ! 1, lanes = of_nat (le_value (drop 2 ty))\<rparr>;
     let status = (if ndim < 0 \<or> ndim > int TVM_CRT_MAX_NDIM then - 1 else status);
     let status = (if device_type dev \<noteq> kDLCPU then - 1 else status);
     (shape, strm) \<leftarrow> NDArray_Load_shape (replicate TVM_CRT_MAX_NDIM 0) 0 (nat ndim) strm;
     (status, ret, m) \<leftarrow> TVMNDArray_Empty m ndim shape dtype dev;
     if status \<noteq> 0 then Some (status, ret, m, strm)
     else do {
       let elem_bytes = (uint (bits (dt_dtype (arr_tensor ret))) + 7) div 8;
       let n = num_elems (ram m) (arr_tensor ret);
       (sz, strm) \<leftarrow> sread 8 strm;
       let data_byte_size = i64_value sz;
       let status = (if data_byte_size \<noteq> to_i64 (n * elem_bytes) then - 1 else status);
       (dat, strm) \<leftarrow> sread (to_size data_byte_size) strm;
       Some (status, ret, m\<lparr>ram := store_bytes (ram m) (dt_data (arr_tensor ret)) dat\<rparr>, strm)
     }
   }"

definition TVMNDArray_CreateView ::
    "machine \<Rightarrow> ndarray \<Rightarrow> int list \<Rightarrow> int \<Rightarrow> dl_data_type \<Rightarrow> (int \<times> ndarray \<times> machine) option" where
  "TVMNDArray_CreateView m arr shape ndim dtype = do {
     (status, view, m) \<leftarrow> NDArray_Create m ndim shape dtype (dt_device (arr_tensor arr));
     if status \<noteq> 0 then Some (status, view, m)
     else Some (0, view\<lparr>arr_tensor := (arr_tensor view)\<lparr>dt_data := dt_data (arr_tensor arr)\<rparr>\<rparr>, m)
   }"

definition TVMNDArray_RandomFill :: "u32 \<Rightarrow> machine \<Rightarrow> ndarray \<Rightarrow> int \<times> machine" where
  "TVMNDArray_RandomFill random m arr =
     (let num_bytes = TVMNDArray_DataSizeBytes (ram m) arr
      in if num_bytes < 0 \<or> num_bytes > 2 ^ 32 - 1
         then (tvm_crt_error_code kTvmErrorFunctionCallInvalidArg, m)
         else
           let (err, bs) = TVMPlatformGenerateRandom random (nat num_bytes)
           in (tvm_crt_error_code err, m\<lparr>ram := store_bytes (ram m) (dt_data (arr_tensor arr)) bs\<rparr>))"

definition TVMNDArray_IncrementReference :: "ndarray \<Rightarrow> ndarray" where
  "TVMNDArray_IncrementReference arr = arr\<lparr>reference_count := reference_count arr + 1\<rparr>"

definition TVMNDArray_DecrementReference :: "ndarray \<Rightarrow> u32 \<times> ndarray" where
  "TVMNDArray_DecrementReference arr =
     (let arr = (if reference_count arr > 0 then arr\<lparr>reference_count := reference_count arr - 1\<rparr> else arr)
      in (reference_count arr, arr))"

definition TVMNDArray_Release :: "machine \<Rightarrow> ndarray \<Rightarrow> (int \<times> ndarray \<times> machine) option" where
  "TVMNDArray_Release m arr = do {
     let (count, arr) = TVMNDArray_DecrementReference arr;
     if count > 0 then Some (0, arr, m)
     else do {
       (err, h) \<leftarrow> TVMPlatformMemoryFree (heap m) (dt_data (arr_tensor arr));
       let m = m\<lparr>heap := h\<rparr>;
       if err \<noteq> kTvmErrorNoError then Some (tvm_crt_error_code err, arr, m)
       else do {
         let arr = arr\<lparr>arr_tensor := (arr_tensor arr)\<lparr>dt_data := 0\<rparr>\<rparr>;
         (err, h) \<leftarrow> TVMPlatformMemoryFree (heap m) (dt_shape (arr_tensor arr));
         let m = m\<lparr>heap := h\<rparr>;
         if err \<noteq> kTvmErrorNoError then Some (tvm_crt_error_code err, arr, m)
         else Some (0, arr\<lparr>arr_tensor := (arr_tensor arr)\<lparr>dt_shape := 0\<rparr>\<rparr>, m)
       }
     }
   }"

section \<open>Building and loading an array\<close>

lemma prod_list_pos: "(\<forall>d\<in>set ds. 1 \<le> d) \<Longrightarrow> 1 \<le> prod_list (ds :: int list)"
proof (induction ds)
  case (Cons d ds)
  then have "1 * 1 \<le> d * prod_list ds"
    by (intro mult_mono) auto
  then show ?case by simp
qed simp

text \<open>No partial product wraps when the whole product does not.\<close>

lemma foldl_to_i64:
  "(\<forall>d\<in>set ds. 1 \<le> d) \<Longrightarrow> 1 \<le> n \<Longrightarrow> n * prod_list ds < 2 ^ 63 \<Longrightarrow>
   foldl (\<lambda>n d. to_i64 (n * d)) n ds = n * prod_list ds"
proof (induction ds arbitrary: n)
  case (Cons d ds)
  have p: "1 \<le> prod_list ds"
    using Cons.prems(1) by (intro prod_list_pos) simp
  have nd: "1 * 1 \<le> n * d"
    using Cons.prems by (intro mult_mono) auto
  then have "n * d * 1 \<le> n * d * prod_list ds"
    using p by (intro mult_left_mono) auto
  then have "n * d < 2 ^ 63"
    using Cons.prems(3) by (simp add: mult.assoc)
  then have "to_i64 (n * d) = n * d"
    using nd by (intro to_i64_id) simp_all
  then show ?case
    using Cons.IH [of "n * d"] Cons.prems nd by (simp add: mult.assoc)
qed simp

text \<open>A shape whose array fits: every dimension counts, and the data has between 1 and \<open>2 ^ 31 - 1\<close> bytes.\<close>

definition array_bytes :: "int list \<Rightarrow> dl_data_type \<Rightarrow> int" where
  "array_bytes shape dtype = (prod_list shape * uint (bits dtype) + 7) div 8"

definition good_shape :: "int list \<Rightarrow> dl_data_type \<Rightarrow> bool" where
  "good_shape shape dtype \<longleftrightarrow> (\<forall>d\<in>set shape. 1 \<le> d) \<and> 1 \<le> uint (bits dtype)
     \<and> array_bytes shape dtype < 2 ^ 31"

lemma good_shape_bounds:
  assumes "good_shape shape dtype"
  shows "1 \<le> prod_list shape" and "prod_list shape * uint (bits dtype) < 2 ^ 34"
    and "prod_list shape < 2 ^ 34" and "1 \<le> array_bytes shape dtype"
proof -
  let ?p = "prod_list shape" and ?b = "uint (bits dtype)"
  show p: "1 \<le> ?p"
    using assms by (simp add: good_shape_def prod_list_pos)
  have b: "1 \<le> ?b"
    using assms by (simp add: good_shape_def)
  have "x < 2 ^ 34" if "(x + 7) div 8 < 2 ^ 31" for x :: int
  proof -
    have "x + 7 = 8 * ((x + 7) div 8) + (x + 7) mod 8" "(x + 7) mod 8 < 8"
      by simp_all
    then show ?thesis
      using that by simp
  qed
  then show pb: "?p * ?b < 2 ^ 34"
    using assms unfolding good_shape_def array_bytes_def by blast
  have "?p * 1 \<le> ?p * ?b"
    using p b by (intro mult_left_mono) simp_all
  then show "?p < 2 ^ 34"
    using pb by simp
  have "1 * 1 \<le> ?p * ?b"
    using p b by (intro mult_mono) simp_all
  then show "1 \<le> array_bytes shape dtype"
    by (simp add: array_bytes_def)
qed

lemma member_le_prod_list: "(\<forall>d\<in>set ds. 1 \<le> d) \<Longrightarrow> x \<in> set ds \<Longrightarrow> x \<le> prod_list (ds :: int list)"
proof (induction ds)
  case (Cons d ds)
  have p: "1 \<le> prod_list ds"
    using Cons.prems(1) by (intro prod_list_pos) simp
  show ?case
  proof (cases "x = d")
    case True
    have "d * 1 \<le> d * prod_list ds"
      using p Cons.prems(1) by (intro mult_left_mono) auto
    then show ?thesis using True by simp
  next
    case False
    then have "x \<le> prod_list ds"
      using Cons by simp
    also have "1 * prod_list ds \<le> d * prod_list ds"
      using p Cons.prems(1) by (intro mult_right_mono) auto
    finally show ?thesis by simp
  qed
qed simp

lemma good_shape_dims:
  assumes "good_shape shape dtype"
  shows "\<forall>d\<in>set shape. - (2 ^ 63) \<le> d \<and> d < 2 ^ 63"
  using assms member_le_prod_list [of shape] good_shape_bounds(3) [OF assms]
  by (fastforce simp: good_shape_def)

lemma DataSizeBytes_good:
  assumes "good_shape shape (dt_dtype (arr_tensor arr))" and "tensor_shape r (arr_tensor arr) = shape"
  shows "TVMNDArray_DataSizeBytes r arr = array_bytes shape (dt_dtype (arr_tensor arr))"
    and "num_elems r (arr_tensor arr) = prod_list shape"
proof -
  note b = good_shape_bounds [OF assms(1)]
  show n: "num_elems r (arr_tensor arr) = prod_list shape"
    unfolding num_elems_def assms(2)
    using foldl_to_i64 [of shape 1] assms(1) b(3) by (simp add: good_shape_def)
  let ?x = "prod_list shape * uint (bits (dt_dtype (arr_tensor arr)))"
  have x: "0 \<le> ?x"
    using b(1) by simp
  have 1: "to_i64 ?x = ?x" "to_i64 (?x + 7) = ?x + 7"
    using x b(2) by (auto intro!: to_i64_id)
  have 2: "(?x + 7) sdiv 8 = (?x + 7) div 8"
    using x by (simp add: signed_divide_int_def)
  show "TVMNDArray_DataSizeBytes r arr = array_bytes shape (dt_dtype (arr_tensor arr))"
    unfolding TVMNDArray_DataSizeBytes_def n 1 2 array_bytes_def ..
qed

lemma NDArray_Create_ok:
  assumes "length shape < 2 ^ 28" and "take (length shape) dims = shape"
    and "TVMPlatformMemoryAllocate (heap m) (8 * length shape) = Some (kTvmErrorNoError, p, h)"
  shows "NDArray_Create m (int (length shape)) dims dtype dev = Some (0,
      \<lparr>arr_tensor = \<lparr>dt_data = 0, dt_device = dev, dt_ndim = int (length shape), dt_dtype = dtype,
         dt_shape = p, dt_strides = 0, dt_byte_offset = 0\<rparr>, reference_count = 0\<rparr>,
      \<lparr>heap = h, ram = store_bytes (ram m) p (i64s_bytes shape)\<rparr>)"
proof -
  have n: "to_size (8 * int (length shape)) = 8 * length shape"
    using assms(1) by (subst to_size_id) simp_all
  have le: "length shape \<le> length dims"
    using arg_cong [OF assms(2), of length] by simp
  obtain tl where dims: "dims = shape @ tl"
    using append_take_drop_id [of "length shape" dims] assms(2) by metis
  have "mem_read (i64s_bytes dims) 0 (8 * length shape) = Some (i64s_bytes shape)"
    using le by (simp add: dims i64s_bytes_def length_i64s_bytes [unfolded i64s_bytes_def])
  then show ?thesis
    unfolding NDArray_Create_def n assms(3) by (simp add: zero_tensor_def)
qed

lemma alloc_block:
  assumes "pm_inv h live" and "pm_fits h n" and "TVMPlatformMemoryAllocate h n = Some (kTvmErrorNoError, p, h')"
  obtains sz where "n \<le> sz" "pm_inv h' (live(p \<mapsto> sz))" "live p = None" "pm_fits h' = pm_fits h"
    "\<And>q k. live q = Some k \<Longrightarrow> apart p sz q k"
  using platform.alloc_ok [OF assms(1,2)] assms(3) by auto

abbreviation new_tensor :: "dl_device \<Rightarrow> int list \<Rightarrow> dl_data_type \<Rightarrow> addr \<Rightarrow> addr \<Rightarrow> dl_tensor" where
  "new_tensor dev shape dtype sp dp \<equiv> \<lparr>dt_data = dp, dt_device = dev, dt_ndim = int (length shape), dt_dtype = dtype,
     dt_shape = sp, dt_strides = 0, dt_byte_offset = 0\<rparr>"

lemma tensor_shape_stored:
  assumes "good_shape shape dtype" and "load_bytes r sp (8 * length shape) = i64s_bytes shape"
  shows "tensor_shape r (new_tensor dev shape dtype sp dp) = shape"
  using load_i64s_image [OF assms(2) good_shape_dims [OF assms(1)]] by (simp add: tensor_shape_def)

lemma load_store_i64s: "load_bytes (store_bytes r a (i64s_bytes vs)) a (8 * length vs) = i64s_bytes vs"
  using load_store_same [of r a "i64s_bytes vs"] by simp

lemma TVMNDArray_Empty_ok:
  assumes "good_shape shape dtype" and "length shape < 2 ^ 28" and "take (length shape) dims = shape"
    and "TVMPlatformMemoryAllocate (heap m) (8 * length shape) = Some (kTvmErrorNoError, sp, h)"
    and "TVMPlatformMemoryAllocate h (nat (array_bytes shape dtype)) = Some (kTvmErrorNoError, dp, h')"
  shows "TVMNDArray_Empty m (int (length shape)) dims dtype dev = Some (0,
      \<lparr>arr_tensor = new_tensor dev shape dtype sp dp, reference_count = 0\<rparr>,
      \<lparr>heap = h', ram = clear_bytes (store_bytes (ram m) sp (i64s_bytes shape)) dp (nat (array_bytes shape dtype))\<rparr>)"
proof -
  let ?n = "array_bytes shape dtype"
  have n: "1 \<le> ?n" "?n < 2 ^ 31"
    using good_shape_bounds(4) [OF assms(1)] assms(1) by (simp_all add: good_shape_def)
  have "TVMNDArray_DataSizeBytes (store_bytes (ram m) sp (i64s_bytes shape))
      \<lparr>arr_tensor = new_tensor dev shape dtype sp 0, reference_count = 0\<rparr> = ?n"
    using DataSizeBytes_good(1) [of shape "\<lparr>arr_tensor = new_tensor dev shape dtype sp 0, reference_count = 0\<rparr>"]
      tensor_shape_stored [OF assms(1)] assms(1) by (simp add: load_store_i64s)
  moreover have "to_i32 ?n = ?n"
    using n by (intro to_i32_id) simp_all
  moreover have "nat (?n mod 2 ^ 64) = nat ?n" "to_size ?n = nat ?n" "nat ?n mod 2 ^ 32 = nat ?n" "0 < nat ?n"
    using n by (simp_all add: nat_less_iff)
  ultimately show ?thesis
    unfolding TVMNDArray_Empty_def NDArray_Create_ok [OF assms(2-4)]
    using assms(5) by (simp add: TVMBackendAllocWorkspace_def)
qed

section \<open>The stored form\<close>

text \<open>The fields in the order they are read.\<close>

definition array_image ::
    "u8 list \<Rightarrow> u8 list \<Rightarrow> dl_device \<Rightarrow> dl_data_type \<Rightarrow> int list \<Rightarrow> u8 list \<Rightarrow> u8 list" where
  "array_image magic reserved dev dtype shape dat =
     magic @ reserved @ i32_bytes (device_type dev) @ i32_bytes (device_id dev) @ i32_bytes (int (length shape))
     @ (code dtype # bits dtype # le_bytes 2 (unat (lanes dtype)))
     @ i64s_bytes shape @ i64_bytes (int (length dat)) @ dat"

lemma sread_append: "length xs = n \<Longrightarrow> sread n (xs @ ys) = Some (xs, ys)"
  by (auto simp: sread_def)

lemma NDArray_Load_shape_ok:
  "(\<forall>v\<in>set vs. - (2 ^ 63) \<le> v \<and> v < 2 ^ 63) \<Longrightarrow> length pre + length vs \<le> length shape \<Longrightarrow>
   take (length pre) shape = pre \<Longrightarrow>
   \<exists>shape'. NDArray_Load_shape shape (length pre) (length vs) (i64s_bytes vs @ strm) = Some (shape', strm)
     \<and> take (length pre + length vs) shape' = pre @ vs"
proof (induction vs arbitrary: pre shape)
  case Nil
  then show ?case by (simp add: i64s_bytes_def)
next
  case (Cons v vs)
  let ?shape = "shape[length pre := v]"
  have "take (length (pre @ [v])) ?shape = pre @ [v]"
    using Cons.prems(2,3) by (simp add: take_Suc_conv_app_nth)
  then obtain shape' where "NDArray_Load_shape ?shape (length (pre @ [v])) (length vs) (i64s_bytes vs @ strm) = Some (shape', strm)"
    "take (length (pre @ [v]) + length vs) shape' = (pre @ [v]) @ vs"
    using Cons.IH [of "pre @ [v]" ?shape] Cons.prems by auto
  then show ?case
    using Cons.prems i64_value_bytes [of v] sread_append [of "i64_bytes v" 8 "i64s_bytes vs @ strm"]
    by (simp add: i64s_bytes_def)
qed

lemma two_blocks_apart:
  assumes "pm_inv (heap m) live" and "page_size (heap m) \<le> 2 ^ 31"
    and "0 < k" and "k < 2 ^ 31" and "0 < n" and "n < 2 ^ 31"
    and "TVMPlatformMemoryAllocate (heap m) k = Some (kTvmErrorNoError, sp, h)"
    and "TVMPlatformMemoryAllocate h n = Some (kTvmErrorNoError, dp, h')"
  obtains a b where "pm_inv h' (live(sp \<mapsto> a, dp \<mapsto> b))" "k \<le> a" "n \<le> b" "live sp = None" "live dp = None"
    "sp \<noteq> dp" "apart dp n sp k"
proof -
  have "pm_fits (heap m) k" "pm_fits (heap m) n"
    using assms(2-6) by (simp_all add: pm_fits_def)
  from alloc_block [OF assms(1) this(1) assms(7)] this(2)
  obtain a where a: "k \<le> a" "pm_inv h (live(sp \<mapsto> a))" "live sp = None" "pm_fits h n"
    by metis
  from alloc_block [OF a(2,4) assms(8)]
  obtain b where b: "n \<le> b" "pm_inv h' ((live(sp \<mapsto> a))(dp \<mapsto> b))" "(live(sp \<mapsto> a)) dp = None" "apart dp b sp a"
    by (metis fun_upd_same)
  have "apart dp n sp k"
    using b(1,4) a(1) by (rule_tac heap.apart_mono)
  then show thesis
    using a b by (intro that [of a b]) (auto split: if_splits)
qed

lemma whole_bytes:
  assumes "uint (bits dtype) mod 8 = 0"
  shows "prod_list shape * ((uint (bits dtype) + 7) div 8) = array_bytes shape dtype"
proof -
  obtain k where k: "uint (bits dtype) = 8 * k"
    using assms by (metis mult_div_mod_eq add.right_neutral)
  have "(8 * (prod_list shape * k) + 7) div 8 = prod_list shape * k" "(8 * k + 7) div 8 = k"
    by linarith+
  then show ?thesis
    unfolding array_bytes_def k by (simp add: mult.left_commute)
qed

text \<open>The shape is written, the data are cleared and then written: what is in the memory afterwards.\<close>

lemma shape_then_data:
  fixes r :: ram
  assumes "apart dp (length dat) sp (8 * length shape)" and "good_shape shape dtype"
    and r1: "r1 = store_bytes r sp (i64s_bytes shape)"
  shows "tensor_shape (store_bytes (clear_bytes r1 dp (length dat)) dp dat) (new_tensor dev shape dtype sp dp) = shape"
    and "tensor_shape (clear_bytes r1 dp (length dat)) (new_tensor dev shape dtype sp dp) = shape"
    and "(x < sp \<or> sp + 8 * int (length shape) \<le> x) \<Longrightarrow> (x < dp \<or> dp + int (length dat) \<le> x) \<Longrightarrow>
      store_bytes (clear_bytes r1 dp (length dat)) dp dat x = r x"
proof -
  let ?r2 = "clear_bytes r1 dp (length dat)"
  have "load_bytes (store_bytes ?r2 dp dat) sp (8 * length shape) = load_bytes r1 sp (8 * length shape)"
    and "load_bytes ?r2 sp (8 * length shape) = load_bytes r1 sp (8 * length shape)"
    using assms(1) by (auto simp: apart_def clear_bytes_def load_store_apart)
  then show "tensor_shape (store_bytes ?r2 dp dat) (new_tensor dev shape dtype sp dp) = shape"
    and "tensor_shape ?r2 (new_tensor dev shape dtype sp dp) = shape"
    by (auto intro!: tensor_shape_stored assms(2) simp: r1 load_store_i64s)
qed (simp add: r1 clear_bytes_def store_bytes_outside)

text \<open>
  C16. Loading the stored form of an array whose element size is a whole number of bytes gives back its
  device, type, shape and data, consumes exactly its bytes, and changes no memory outside the two
  blocks it asks the heap for. The eight bytes of the magic number and the kind of the device can be
  anything: the tests of them have no effect on the result.
\<close>
theorem array_round_trip:
  assumes "pm_inv (heap m) live" and "page_size (heap m) \<le> 2 ^ 31"
    and "good_shape shape dtype" and "uint (bits dtype) mod 8 = 0" and "1 \<le> length shape" and "length shape \<le> 6"
    and "length magic = 8" and "length reserved = 8"
    and "- (2 ^ 31) \<le> device_type dev \<and> device_type dev < 2 ^ 31" and "- (2 ^ 31) \<le> device_id dev \<and> device_id dev < 2 ^ 31"
    and "int (length dat) = array_bytes shape dtype"
    and "TVMPlatformMemoryAllocate (heap m) (8 * length shape) = Some (kTvmErrorNoError, sp, h)"
    and "TVMPlatformMemoryAllocate h (length dat) = Some (kTvmErrorNoError, dp, h')"
  shows "\<exists>m'. TVMNDArray_Load m (array_image magic reserved dev dtype shape dat @ rest)
        = Some (0, \<lparr>arr_tensor = new_tensor dev shape dtype sp dp, reference_count = 0\<rparr>, m', rest)
    \<and> heap m' = h' \<and> tensor_shape (ram m') (new_tensor dev shape dtype sp dp) = shape
    \<and> load_bytes (ram m') dp (length dat) = dat
    \<and> (\<forall>x. (x < sp \<or> sp + 8 * int (length shape) \<le> x) \<and> (x < dp \<or> dp + int (length dat) \<le> x) \<longrightarrow> ram m' x = ram m x)"
proof -
  let ?arr = "\<lparr>arr_tensor = new_tensor dev shape dtype sp dp, reference_count = 0\<rparr>"
  let ?r1 = "store_bytes (ram m) sp (i64s_bytes shape)"
  let ?r2 = "clear_bytes ?r1 dp (length dat)"
  let ?r3 = "store_bytes ?r2 dp dat"
  have n: "1 \<le> array_bytes shape dtype" "array_bytes shape dtype < 2 ^ 31"
    using good_shape_bounds(4) [OF assms(3)] assms(3) by (simp_all add: good_shape_def)
  have dat: "nat (array_bytes shape dtype) = length dat" "0 < length dat" "length dat < 2 ^ 31"
    using n unfolding assms(11) [symmetric] by (simp_all del: length_greater_0_conv)
  have ap: "apart dp (length dat) sp (8 * length shape)"
    by (rule two_blocks_apart [OF assms(1,2) _ _ dat(2,3) assms(12,13)]) (use assms(5,6) in \<open>simp_all del: length_greater_0_conv\<close>)
  note mem = shape_then_data [OF ap assms(3) refl, where r = "ram m"]
  have eb: "prod_list shape * ((uint (bits dtype) + 7) div 8) = int (length dat)"
    using whole_bytes [OF assms(4)] assms(11) by simp
  have sz: "i64_value (i64_bytes (int (length dat))) = int (length dat)" "to_i64 (int (length dat)) = int (length dat)"
    "int (length dat) mod 4294967296 = int (length dat)"
    using dat(3) by (simp_all add: i64_value_bytes to_i64_id)
  have nd: "i32_value (i32_bytes (int (length shape))) = int (length shape)"
    using assms(6) by (simp add: i32_value_bytes)
  have dv: "\<lparr>device_type = i32_value (i32_bytes (device_type dev)), device_id = i32_value (i32_bytes (device_id dev))\<rparr> = dev"
    using assms(9,10) by (simp add: i32_value_bytes)
  have ln: "(of_nat (le_value (le_bytes 2 (unat (lanes dtype)))) :: u16) = lanes dtype"
    using unsigned_less [of "lanes dtype", where ?'a = nat] by (simp add: le_value_le_bytes)
  have ty: "sread 4 (code dtype # bits dtype # le_bytes 2 v @ ys) = Some (code dtype # bits dtype # le_bytes 2 v, ys)" for v ys
    using sread_append [of "code dtype # bits dtype # le_bytes 2 v" 4 ys] by simp
  have rec: "\<lparr>code = code dtype, bits = bits dtype, lanes = lanes dtype\<rparr> = dtype"
    by simp
  obtain dims where dims: "NDArray_Load_shape (replicate TVM_CRT_MAX_NDIM 0) 0 (length shape)
      (i64s_bytes shape @ i64_bytes (int (length dat)) @ dat @ rest) = Some (dims, i64_bytes (int (length dat)) @ dat @ rest)"
    "take (length shape) dims = shape"
    using NDArray_Load_shape_ok [of shape "[]" "replicate TVM_CRT_MAX_NDIM 0" "i64_bytes (int (length dat)) @ dat @ rest"]
      good_shape_dims [OF assms(3)] assms(6) by (auto simp: TVM_CRT_MAX_NDIM_def)
  have empty: "TVMNDArray_Empty m (int (length shape)) dims dtype dev = Some (0, ?arr, \<lparr>heap = h', ram = ?r2\<rparr>)"
    using TVMNDArray_Empty_ok [OF assms(3) _ dims(2) assms(12), of dp h' dev] assms(6,13) unfolding dat(1) by simp
  have num: "num_elems ?r2 (new_tensor dev shape dtype sp dp) = prod_list shape"
    using DataSizeBytes_good(2) [of shape ?arr ?r2] assms(3) mem(2) by simp
  have "TVMNDArray_Load m (array_image magic reserved dev dtype shape dat @ rest)
      = Some (0, ?arr, \<lparr>heap = h', ram = ?r3\<rparr>, rest)"
    unfolding TVMNDArray_Load_def array_image_def
    by (simp add: sread_append assms(7,8) nd dv ty ln rec dims(1) empty num eb sz)
  then show ?thesis
    using mem(1,3) load_store_same [of ?r2 dp dat] by auto
qed

lemma platform_alloc [simp]: "TVMPlatformMemoryAllocate = PageMemoryManager_Allocate"
  by (simp add: fun_eq_iff TVMPlatformMemoryAllocate_def)

lemma platform_free [simp]: "TVMPlatformMemoryFree = PageMemoryManager_Free"
  by (simp add: fun_eq_iff TVMPlatformMemoryFree_def)

lemmas heap_eval = PageMemoryManager_Allocate_def PageMemoryManager_Free_def pages_needed_def Let_def
  MultiMap_LowerBound_def MultiMap_End_def PageTable_Resize_def TLB_Set_def TLB_Find_def PageCreate_def
  MultiMap_Insert_def MultiMap_Erase_def shift_down.simps CHECK_def

lemma two_pages_allocated:
  "\<exists>h h'. PageMemoryManager_Allocate (snd (snd (PageMemoryManagerCreate 4096 772 8))) 8 = Some (kTvmErrorNoError, 4096, h)
     \<and> PageMemoryManager_Allocate h 4 = Some (kTvmErrorNoError, 4352, h')"
  unfolding fresh_two_pages by (simp add: heap_eval)

lemma array_round_trip_witness:
  "\<exists>h' m'. TVMNDArray_Load \<lparr>heap = snd (snd (PageMemoryManagerCreate 4096 772 8)), ram = (\<lambda>_. 0)\<rparr>
        (array_image [1, 2, 3, 4, 5, 6, 7, 8] [0, 0, 0, 0, 0, 0, 0, 0] \<lparr>device_type = 2, device_id = 0\<rparr>
          \<lparr>code = 2, bits = 32, lanes = 1\<rparr> [1] [10, 20, 30, 40] @ [99])
        = Some (0, \<lparr>arr_tensor = new_tensor \<lparr>device_type = 2, device_id = 0\<rparr> [1] \<lparr>code = 2, bits = 32, lanes = 1\<rparr> 4096 4352,
            reference_count = 0\<rparr>, m', [99])
    \<and> heap m' = h' \<and> tensor_shape (ram m') (new_tensor \<lparr>device_type = 2, device_id = 0\<rparr> [1] \<lparr>code = 2, bits = 32, lanes = 1\<rparr> 4096 4352) = [1]
    \<and> load_bytes (ram m') 4352 (length [10, 20, 30, 40 :: u8]) = [10, 20, 30, 40]"
proof -
  let ?m = "\<lparr>heap = snd (snd (PageMemoryManagerCreate 4096 772 8)), ram = (\<lambda>_. 0)\<rparr>"
  obtain h h' where "PageMemoryManager_Allocate (heap ?m) 8 = Some (kTvmErrorNoError, 4096, h)"
    "PageMemoryManager_Allocate h 4 = Some (kTvmErrorNoError, 4352, h')"
    using two_pages_allocated by auto
  moreover have four: "Suc (Suc (Suc (Suc 0))) = 4"
    by simp
  moreover have "pm_inv (heap ?m) Map.empty"
    using fresh_pm_inv [of 772 8 4096] by simp
  moreover have "page_size (heap ?m) \<le> 2 ^ 31"
    by (simp add: fresh_simps)
  ultimately have "\<exists>m'. TVMNDArray_Load ?m (array_image [1, 2, 3, 4, 5, 6, 7, 8] [0, 0, 0, 0, 0, 0, 0, 0] \<lparr>device_type = 2, device_id = 0\<rparr>
          \<lparr>code = 2, bits = 32, lanes = 1\<rparr> [1] [10, 20, 30, 40] @ [99])
        = Some (0, \<lparr>arr_tensor = new_tensor \<lparr>device_type = 2, device_id = 0\<rparr> [1] \<lparr>code = 2, bits = 32, lanes = 1\<rparr> 4096 4352,
            reference_count = 0\<rparr>, m', [99])
    \<and> heap m' = h' \<and> tensor_shape (ram m') (new_tensor \<lparr>device_type = 2, device_id = 0\<rparr> [1] \<lparr>code = 2, bits = 32, lanes = 1\<rparr> 4096 4352) = [1]
    \<and> load_bytes (ram m') 4352 (length [10, 20, 30, 40 :: u8]) = [10, 20, 30, 40]
    \<and> (\<forall>x. (x < 4096 \<or> 4096 + 8 * int (length [1 :: int]) \<le> x) \<and> (x < 4352 \<or> 4352 + int (length [10, 20, 30, 40 :: u8]) \<le> x)
        \<longrightarrow> ram m' x = ram ?m x)"
    by (rule_tac array_round_trip) (simp_all add: good_shape_def array_bytes_def four)
  then show ?thesis
    by blast
qed

section \<open>References\<close>

text \<open>Releasing an array several times: the results, the array and the machine.\<close>

fun release_times :: "nat \<Rightarrow> machine \<Rightarrow> ndarray \<Rightarrow> (int list \<times> ndarray \<times> machine) option" where
  "release_times 0 m arr = Some ([], arr, m)"
| "release_times (Suc n) m arr = do {
     (r, arr, m) \<leftarrow> TVMNDArray_Release m arr;
     (rs, arr, m) \<leftarrow> release_times n m arr;
     Some (r # rs, arr, m)
   }"

lemma increment_times:
  "(TVMNDArray_IncrementReference ^^ n) arr = arr\<lparr>reference_count := reference_count arr + of_nat n\<rparr>"
  by (induction n) (simp_all add: TVMNDArray_IncrementReference_def algebra_simps)

lemma release_early:
  assumes "1 < c" and "c < 2 ^ 32"
  shows "TVMNDArray_Release m (arr\<lparr>reference_count := of_nat c\<rparr>) = Some (0, arr\<lparr>reference_count := of_nat (c - 1)\<rparr>, m)"
proof -
  have "unat (of_nat c :: u32) = c" "unat (of_nat (c - 1) :: u32) = c - 1"
    using assms by (simp_all add: unat_of_nat del: of_nat_diff)
  then have "(0 :: u32) < of_nat c" "(0 :: u32) < of_nat (c - 1)"
    using assms by (simp_all add: word_less_nat_alt)
  moreover have "(of_nat c - 1 :: u32) = of_nat (c - 1)"
    using assms by (simp add: of_nat_diff)
  ultimately show ?thesis
    by (simp add: TVMNDArray_Release_def TVMNDArray_DecrementReference_def Let_def)
qed

lemma release_times_early:
  "n < c \<Longrightarrow> c < 2 ^ 32 \<Longrightarrow> release_times n m (arr\<lparr>reference_count := of_nat c\<rparr>)
     = Some (replicate n 0, arr\<lparr>reference_count := of_nat (c - n)\<rparr>, m)"
proof (induction n arbitrary: c)
  case (Suc n)
  then show ?case
    using Suc.IH [of "c - 1"] release_early [of c m arr] by (simp add: diff_diff_left)
qed simp

lemma release_times_add:
  "release_times (m + n) s arr = do {
     (rs, arr, s) \<leftarrow> release_times m s arr;
     (qs, arr, s) \<leftarrow> release_times n s arr;
     Some (rs @ qs, arr, s)
   }"
proof (induction m arbitrary: s arr)
  case 0
  show ?case by (cases "release_times n s arr") auto
next
  case (Suc m)
  show ?case
  proof (cases "TVMNDArray_Release s arr")
    case (Some x)
    then obtain r arr1 s1 where r: "TVMNDArray_Release s arr = Some (r, arr1, s1)"
      by (cases x) auto
    show ?thesis
      unfolding add_Suc release_times.simps(2) r
      by (cases "release_times m s1 arr1") (auto simp: Suc.IH split_def)
  qed simp
qed

lemma release_last:
  assumes "pm_inv (heap m) live" and "live (dt_data (arr_tensor arr)) = Some a" and "live (dt_shape (arr_tensor arr)) = Some b"
    and "dt_data (arr_tensor arr) \<noteq> dt_shape (arr_tensor arr)" and "reference_count arr \<le> 1"
  shows "\<exists>arr' m'. TVMNDArray_Release m arr = Some (0, arr', m') \<and> dt_data (arr_tensor arr') = 0 \<and> dt_shape (arr_tensor arr') = 0
    \<and> ram m' = ram m \<and> pm_inv (heap m') (live(dt_data (arr_tensor arr) := None, dt_shape (arr_tensor arr) := None))"
proof -
  have "reference_count arr = 0 \<or> reference_count arr = 1"
    using assms(5) by (auto simp: word_le_nat_alt word_unat_eq_iff le_Suc_eq)
  then have cnt: "\<exists>arr'. TVMNDArray_DecrementReference arr = (0, arr') \<and> arr_tensor arr' = arr_tensor arr"
    by (auto simp: TVMNDArray_DecrementReference_def Let_def)
  obtain h1 where h1: "TVMPlatformMemoryFree (heap m) (dt_data (arr_tensor arr)) = Some (kTvmErrorNoError, h1)"
    "pm_inv h1 (live(dt_data (arr_tensor arr) := None))"
    using platform.release_ok [OF assms(1,2)] by blast
  have "(live(dt_data (arr_tensor arr) := None)) (dt_shape (arr_tensor arr)) = Some b"
    using assms(3,4) by simp
  from platform.release_ok [OF h1(2) this]
  obtain h2 where h2: "TVMPlatformMemoryFree h1 (dt_shape (arr_tensor arr)) = Some (kTvmErrorNoError, h2)"
    "pm_inv h2 (live(dt_data (arr_tensor arr) := None, dt_shape (arr_tensor arr) := None))"
    by blast
  show ?thesis
    using cnt h1 h2 by (auto simp: TVMNDArray_Release_def simp del: platform_free)
qed

text \<open>
  C31. An array with \<open>n\<close> references: the first \<open>n - 1\<close> releases change nothing but the count, the last
  one gives both of its blocks back to the heap and clears its pointers.
\<close>
theorem last_release_frees:
  assumes "pm_inv (heap m) live" and "live (dt_data (arr_tensor arr)) = Some a" and "live (dt_shape (arr_tensor arr)) = Some b"
    and "dt_data (arr_tensor arr) \<noteq> dt_shape (arr_tensor arr)" and "reference_count arr = 0" and "0 < n" and "n < 2 ^ 32"
  shows "release_times (n - 1) m ((TVMNDArray_IncrementReference ^^ n) arr)
        = Some (replicate (n - 1) 0, (TVMNDArray_IncrementReference ^^ 1) arr, m)
    \<and> (\<exists>arr' m'. release_times n m ((TVMNDArray_IncrementReference ^^ n) arr) = Some (replicate n 0, arr', m')
        \<and> dt_data (arr_tensor arr') = 0 \<and> dt_shape (arr_tensor arr') = 0 \<and> ram m' = ram m
        \<and> pm_inv (heap m') (live(dt_data (arr_tensor arr) := None, dt_shape (arr_tensor arr) := None)))"
proof -
  let ?arr = "arr\<lparr>reference_count := of_nat 1\<rparr>"
  have early: "release_times (n - 1) m (arr\<lparr>reference_count := of_nat n\<rparr>) = Some (replicate (n - 1) 0, ?arr, m)"
    using release_times_early [of "n - 1" n m arr] assms(6,7) by simp
  obtain arr' m' where last: "TVMNDArray_Release m ?arr = Some (0, arr', m')" "dt_data (arr_tensor arr') = 0"
    "dt_shape (arr_tensor arr') = 0" "ram m' = ram m"
    "pm_inv (heap m') (live(dt_data (arr_tensor arr) := None, dt_shape (arr_tensor arr) := None))"
    using release_last [of m live ?arr a b] assms(1-4) by auto
  have "release_times n m (arr\<lparr>reference_count := of_nat n\<rparr>) = Some (replicate (n - 1) 0 @ [0], arr', m')"
    using release_times_add [of "n - 1" 1 m "arr\<lparr>reference_count := of_nat n\<rparr>"] assms(6) early last(1) by simp
  moreover have "replicate (n - 1) (0 :: int) @ [0] = replicate n 0"
    using assms(6) by (cases n) (simp_all flip: replicate_append_same)
  ultimately show ?thesis
    using early last(2-) assms(5) by (simp add: increment_times TVMNDArray_IncrementReference_def)
qed

lemma two_pages_live:
  "\<exists>h' a b. pm_inv h' [4096 \<mapsto> a, 4352 \<mapsto> b]"
proof -
  let ?m = "\<lparr>heap = snd (snd (PageMemoryManagerCreate 4096 772 8)), ram = (\<lambda>_. 0)\<rparr>"
  obtain h h' where "PageMemoryManager_Allocate (heap ?m) 8 = Some (kTvmErrorNoError, 4096, h)"
    "PageMemoryManager_Allocate h 4 = Some (kTvmErrorNoError, 4352, h')"
    using two_pages_allocated by auto
  moreover have "pm_inv (heap ?m) Map.empty"
    using fresh_pm_inv [of 772 8 4096] by simp
  moreover have "page_size (heap ?m) \<le> 2 ^ 31"
    by (simp add: fresh_simps)
  ultimately show ?thesis
    using two_blocks_apart [of ?m Map.empty 8 4 4096 h 4352 h'] by simp blast
qed

lemma last_release_frees_witness:
  "\<exists>h a b arr' m'. pm_inv h [4096 \<mapsto> a, 4352 \<mapsto> b]
    \<and> release_times (3 - 1) \<lparr>heap = h, ram = (\<lambda>_. 0)\<rparr> ((TVMNDArray_IncrementReference ^^ 3)
        \<lparr>arr_tensor = zero_tensor\<lparr>dt_shape := 4096, dt_data := 4352\<rparr>, reference_count = 0\<rparr>)
      = Some (replicate (3 - 1) 0, (TVMNDArray_IncrementReference ^^ 1)
          \<lparr>arr_tensor = zero_tensor\<lparr>dt_shape := 4096, dt_data := 4352\<rparr>, reference_count = 0\<rparr>, \<lparr>heap = h, ram = (\<lambda>_. 0)\<rparr>)
    \<and> release_times 3 \<lparr>heap = h, ram = (\<lambda>_. 0)\<rparr> ((TVMNDArray_IncrementReference ^^ 3)
        \<lparr>arr_tensor = zero_tensor\<lparr>dt_shape := 4096, dt_data := 4352\<rparr>, reference_count = 0\<rparr>)
      = Some (replicate 3 0, arr', m') \<and> pm_inv (heap m') Map.empty"
proof -
  obtain h a b where inv: "pm_inv h [4096 \<mapsto> a, 4352 \<mapsto> b]"
    using two_pages_live by blast
  have e: "[4096 \<mapsto> a, 4352 \<mapsto> b](4352 := None, 4096 := None) = Map.empty"
    by (rule ext) simp
  show ?thesis
    using inv last_release_frees [of "\<lparr>heap = h, ram = (\<lambda>_. 0)\<rparr>" "[4096 \<mapsto> a, 4352 \<mapsto> b]"
        "\<lparr>arr_tensor = zero_tensor\<lparr>dt_shape := 4096, dt_data := 4352\<rparr>, reference_count = 0\<rparr>" b a 3]
    by (intro exI [of _ h] exI [of _ a] exI [of _ b]) (auto simp: e simp del: funpow.simps)
qed

text \<open>
  A scalar array has no dimensions, so its shape is a block of no bytes. On a fresh heap its data
  then lies at the same address, releasing the array releases that address twice, and the next two
  requests of at most a page are both given it.
\<close>
lemma scalar_array_breaks_heap:
  assumes "84 \<le> sz" and "sz < 2 ^ 32" and "5 \<le> lg" and "lg < 32" and "2 * 2 ^ lg + 260 \<le> sz"
    and "1 \<le> uint (bits dtype)" and "0 < k" and "k \<le> 2 ^ lg" and "0 < l" and "l \<le> 2 ^ lg"
  shows "\<exists>arr m arr' m' h h'.
      TVMNDArray_Empty \<lparr>heap = snd (snd (PageMemoryManagerCreate pool sz lg)), ram = r\<rparr> 0 [] dtype dev = Some (0, arr, m)
    \<and> dt_data (arr_tensor arr) = pool \<and> dt_shape (arr_tensor arr) = pool
    \<and> TVMNDArray_Release m arr = Some (0, arr', m')
    \<and> TVMPlatformMemoryAllocate (heap m') k = Some (kTvmErrorNoError, pool, h)
    \<and> TVMPlatformMemoryAllocate h l = Some (kTvmErrorNoError, pool, h')"
proof -
  let ?m = "\<lparr>heap = fresh_heap pool sz lg, ram = r\<rparr>" and ?n = "array_bytes [] dtype"
  have "uint (bits dtype) < 256"
    using unsigned_less [of "bits dtype", where ?'a = int] by simp
  then have n: "1 \<le> ?n" "?n \<le> 32"
    using assms(6) by (simp_all add: array_bytes_def)
  have good: "good_shape [] dtype"
    using n assms(6) by (simp add: good_shape_def)
  have "(32::nat) \<le> 2 ^ lg"
    using power_increasing [of 5 lg "2 :: nat"] assms(3) by simp
  moreover have "0 < nat ?n" "nat ?n \<le> 32"
    using n by simp_all
  ultimately have n': "0 < nat ?n" "nat ?n \<le> 2 ^ lg" "2 ^ lg + 172 \<le> sz"
    using assms(5) by linarith+
  obtain h0 where h0: "TVMPlatformMemoryAllocate (heap ?m) (8 * length ([] :: int list)) = Some (kTvmErrorNoError, pool, h0)"
    "TVMPlatformMemoryAllocate h0 (nat ?n) = Some (kTvmErrorNoError, pool, aliased_heap pool sz lg)"
    using empty_then_page [OF assms(1,2,4), of 0 "nat ?n" pool] n' by auto
  note empty = TVMNDArray_Empty_ok [OF good _ _ h0, of "[]" dev]
  obtain h1 h2 h3 h4 where h: "PageMemoryManager_Free (aliased_heap pool sz lg) pool = Some (kTvmErrorNoError, h1)"
    "PageMemoryManager_Free h1 pool = Some (kTvmErrorNoError, h2)"
    "PageMemoryManager_Allocate h2 k = Some (kTvmErrorNoError, pool, h3)"
    "PageMemoryManager_Allocate h3 l = Some (kTvmErrorNoError, pool, h4)"
    using double_free [OF assms(1,2,4,5,7-10), of pool] by blast
  show ?thesis
    using empty h by (simp add: TVMNDArray_Release_def TVMNDArray_DecrementReference_def Let_def)
qed

end
