(* ===== verification/Runtime_Api.thy ===== *)
theory Runtime_Api
  imports Nd_Array Func_Registry
begin

text \<open>
  The C interface of the runtime, \<^verbatim>\<open>common/crt_runtime_api.c\<close>: device memory, the table of modules,
  handles of modules and functions, calls of packed functions and the time evaluator (what it measures
  is in \<open>Time_Evaluator\<close>).
\<close>

section \<open>Values\<close>

text \<open>
  \<^verbatim>\<open>TVMValue\<close> is a union of eight bytes. A pointer occupies the lower four of them, and storing one
  leaves the others as they were.
\<close>

type_synonym tvm_value = u64

definition v_int64 :: "tvm_value \<Rightarrow> int" where "v_int64 v = sint v"
definition v_handle :: "tvm_value \<Rightarrow> u32" where "v_handle v = ucast v"
definition set_int64 :: "int \<Rightarrow> tvm_value" where "set_int64 n = of_int n"
definition set_handle :: "tvm_value \<Rightarrow> u32 \<Rightarrow> tvm_value" where
  "set_handle v h = push_bit 32 (drop_bit 32 v) OR ucast h"

definition kTVMArgInt :: int where "kTVMArgInt = 0"
definition kTVMOpaqueHandle :: int where "kTVMOpaqueHandle = 3"
definition kTVMNullptr :: int where "kTVMNullptr = 4"
definition kTVMDLTensorHandle :: int where "kTVMDLTensorHandle = 7"
definition kTVMModuleHandle :: int where "kTVMModuleHandle = 9"
definition kTVMPackedFuncHandle :: int where "kTVMPackedFuncHandle = 10"
definition kTVMStr :: int where "kTVMStr = 11"
definition kTVMBytes :: int where "kTVMBytes = 12"
definition kTVMNDArrayHandle :: int where "kTVMNDArrayHandle = 13"

lemmas type_codes = kTVMArgInt_def kTVMOpaqueHandle_def kTVMNullptr_def kTVMDLTensorHandle_def kTVMModuleHandle_def
  kTVMPackedFuncHandle_def kTVMStr_def kTVMBytes_def kTVMNDArrayHandle_def

text \<open>A string in memory, with its terminator, and a string literal.\<close>

partial_function (option) c_string :: "ram \<Rightarrow> addr \<Rightarrow> u8 list option" where
  "c_string r a = (if r a = 0 then Some [0] else do { s \<leftarrow> c_string r (a + 1); Some (r a # s) })"

definition c_str :: "string \<Rightarrow> u8 list" where
  "c_str s = map of_char s @ [0]"

section \<open>The state\<close>

definition TVM_CRT_MAX_REGISTERED_MODULES :: nat where "TVM_CRT_MAX_REGISTERED_MODULES = 6"
definition TVM_CRT_GLOBAL_FUNC_REGISTRY_SIZE_BYTES :: nat where "TVM_CRT_GLOBAL_FUNC_REGISTRY_SIZE_BYTES = 512"
definition TVM_CRT_MAX_PACKET_SIZE_BYTES :: int where "TVM_CRT_MAX_PACKET_SIZE_BYTES = 4096"

record time_evaluator_state =
  te_function_index :: u16
  func_to_time :: u32
  te_device :: dl_device
  te_number :: int
  te_repeat :: int
  te_min_repeat_ms :: int
  te_limit_zero_time_iterations :: int
  te_cooldown_interval_ms :: int
  te_repeats_to_cooldown :: int

text \<open>A module is the registry of its functions. \<open>rt_cycles\<close> is the counter register the timer reads.\<close>

record runtime =
  rt_machine :: machine
  global_func_registry :: mutable_func_registry
  registered_modules :: "func_registry option list"
  system_lib_handle :: u32
  g_last_error :: string
  g_time_evaluator_state :: time_evaluator_state
  rt_timer :: platform_timer
  rt_cycles :: u32

definition TVMAPISetLastError :: "string \<Rightarrow> runtime \<Rightarrow> runtime" where
  "TVMAPISetLastError msg rt = rt\<lparr>g_last_error := take 1023 msg\<rparr>"

text \<open>The message is given formatted.\<close>

definition TVMAPIErrorf :: "string \<Rightarrow> runtime \<Rightarrow> runtime" where
  "TVMAPIErrorf msg rt = rt\<lparr>g_last_error := take 1023 msg\<rparr>"

definition TVMGetLastError :: "runtime \<Rightarrow> string" where
  "TVMGetLastError rt = g_last_error rt"

text \<open>\<^verbatim>\<open>%08x\<close> and \<^verbatim>\<open>%04x\<close>.\<close>

definition hex_digit :: "nat \<Rightarrow> char" where
  "hex_digit d = (if d < 10 then char_of (48 + d) else char_of (87 + d))"

fun hex_text :: "nat \<Rightarrow> nat \<Rightarrow> string" where
  "hex_text 0 n = []"
| "hex_text (Suc w) n = hex_text w (n div 16) @ [hex_digit (n mod 16)]"

section \<open>Arrays and device memory\<close>

definition TVMArrayAlloc ::
    "machine \<Rightarrow> int list \<Rightarrow> int \<Rightarrow> int \<Rightarrow> int \<Rightarrow> int \<Rightarrow> int \<Rightarrow> int \<Rightarrow> (int \<times> dl_tensor option \<times> machine) option" where
  "TVMArrayAlloc m shape ndim dtype_code dtype_bits dtype_lanes dev_type dev_id = do {
     let dtype = \<lparr>code = of_int dtype_code, bits = of_int dtype_bits, lanes = of_int dtype_lanes\<rparr>;
     let dev = \<lparr>device_type = dev_type, device_id = dev_id\<rparr>;
     (status, arr, m) \<leftarrow> TVMNDArray_Empty m ndim shape dtype dev;
     if status \<noteq> 0 then Some (status, None, m) else Some (0, Some (arr_tensor arr), m)
   }"

definition TVMArrayFree :: "machine \<Rightarrow> ndarray \<Rightarrow> (int \<times> ndarray \<times> machine) option" where
  "TVMArrayFree m arr = TVMNDArray_Release m arr"

definition TVMDeviceAllocDataSpace :: "machine \<Rightarrow> nat \<Rightarrow> nat \<Rightarrow> (int \<times> addr \<times> machine) option" where
  "TVMDeviceAllocDataSpace m nbytes alignment = do {
     CHECK (alignment \<noteq> 0);
     let nbytes = (if alignment \<noteq> 1
       then ((nbytes + alignment + 2 ^ 32 - 1) mod 2 ^ 32 div alignment * alignment) mod 2 ^ 32 else nbytes);
     (err, p, h) \<leftarrow> TVMPlatformMemoryAllocate (heap m) nbytes;
     Some (tvm_crt_error_code err, p, m\<lparr>heap := h\<rparr>)
   }"

text \<open>The products in \<^verbatim>\<open>size_t\<close>.\<close>

definition elems_size :: "int list \<Rightarrow> nat" where
  "elems_size shape = foldl (\<lambda>n d. n * to_size d mod 2 ^ 32) 1 shape"

definition elem_bytes :: "dl_data_type \<Rightarrow> nat" where
  "elem_bytes dtype = (unat (bits dtype) * unat (lanes dtype) + 7) div 8"

definition TVMDeviceAllocDataSpaceWithScope ::
    "machine \<Rightarrow> int list \<Rightarrow> dl_data_type \<Rightarrow> (int \<times> addr \<times> machine) option" where
  "TVMDeviceAllocDataSpaceWithScope m shape dtype =
     (let nbytes = elems_size shape * elem_bytes dtype mod 2 ^ 32;
          align = (unat (bits dtype) div 8) * unat (lanes dtype);
          align = (if align < 64 then 64 else align)
      in TVMDeviceAllocDataSpace m nbytes align)"

definition TVMDeviceFreeDataSpace :: "machine \<Rightarrow> addr \<Rightarrow> (int \<times> machine) option" where
  "TVMDeviceFreeDataSpace m ptr = do {
     (err, h) \<leftarrow> TVMPlatformMemoryFree (heap m) ptr;
     Some (tvm_crt_error_code err, m\<lparr>heap := h\<rparr>)
   }"

fun IsContiguous_loop :: "ram \<Rightarrow> dl_tensor \<Rightarrow> nat \<Rightarrow> int \<Rightarrow> bool" where
  "IsContiguous_loop r arr 0 expected_stride = True"
| "IsContiguous_loop r arr (Suc k) expected_stride =
     (if load_i64 r (dt_strides arr + 8 * int k) \<noteq> expected_stride then False
      else IsContiguous_loop r arr k (to_i64 (expected_stride * load_i64 r (dt_shape arr + 8 * int k))))"

text \<open>From a negative rank the loop runs below the arrays.\<close>

definition IsContiguous :: "ram \<Rightarrow> dl_tensor \<Rightarrow> bool option" where
  "IsContiguous r arr =
     (if dt_strides arr = 0 then Some True
      else do {
        CHECK (dt_ndim arr \<ge> 0);
        Some (IsContiguous_loop r arr (nat (dt_ndim arr)) 1)
      })"

definition TVMDeviceCopyDataFromTo :: "machine \<Rightarrow> dl_tensor \<Rightarrow> dl_tensor \<Rightarrow> (int \<times> machine) option" where
  "TVMDeviceCopyDataFromTo m src dst = do {
     a \<leftarrow> IsContiguous (ram m) src;
     CHECK a;
     b \<leftarrow> IsContiguous (ram m) dst;
     CHECK b;
     let sz = elems_size (tensor_shape (ram m) src) * elem_bytes (dt_dtype src) mod 2 ^ 32;
     Some (0, m\<lparr>ram := copy_bytes (ram m) (dt_data dst + int (dt_byte_offset dst))
                    (dt_data src + int (dt_byte_offset src)) sz\<rparr>)
   }"

text \<open>There is one stream: the stream functions do nothing and succeed.\<close>

definition TVMStreamCreate :: "int \<Rightarrow> int \<Rightarrow> int" where "TVMStreamCreate dev_type dev_id = 0"
definition TVMStreamFree :: "int \<Rightarrow> int \<Rightarrow> addr \<Rightarrow> int" where "TVMStreamFree dev_type dev_id stream = 0"
definition TVMSetStream :: "int \<Rightarrow> int \<Rightarrow> addr \<Rightarrow> int" where "TVMSetStream dev_type dev_id stream = 0"
definition TVMSynchronize :: "int \<Rightarrow> int \<Rightarrow> addr \<Rightarrow> int" where "TVMSynchronize dev_type dev_id stream = 0"

text \<open>The bytes of the array object are its pointer and its length.\<close>

definition TVMByteArrayFree :: "machine \<Rightarrow> addr \<Rightarrow> (int \<times> machine) option" where
  "TVMByteArrayFree m arr = do {
     (err, h) \<leftarrow> TVMPlatformMemoryFree (heap m) (int (le_value (load_bytes (ram m) arr 4)));
     let m = m\<lparr>heap := h\<rparr>;
     if err \<noteq> kTvmErrorNoError then Some (tvm_crt_error_code err, m)
     else do {
       (err, h) \<leftarrow> TVMPlatformMemoryFree (heap m) arr;
       Some (tvm_crt_error_code err, m\<lparr>heap := h\<rparr>)
     }
   }"

section \<open>Modules and handles\<close>

definition TVMFuncRegisterGlobal :: "u8 list \<Rightarrow> u32 \<Rightarrow> int \<Rightarrow> runtime \<Rightarrow> (tvm_crt_error \<times> runtime) option" where
  "TVMFuncRegisterGlobal name f override rt = do {
     (err, reg) \<leftarrow> TVMMutableFuncRegistry_Set (global_func_registry rt) name f (override \<noteq> 0);
     Some (err, rt\<lparr>global_func_registry := reg\<rparr>)
   }"

definition TVMBackendRegisterSystemLibSymbol :: "u8 list \<Rightarrow> u32 \<Rightarrow> runtime \<Rightarrow> (tvm_crt_error \<times> runtime) option" where
  "TVMBackendRegisterSystemLibSymbol name ptr rt = TVMFuncRegisterGlobal name ptr 0 rt"

definition kGlobalFuncModuleIndex :: u16 where "kGlobalFuncModuleIndex = of_nat TVM_CRT_MAX_REGISTERED_MODULES"
definition kTimeEvaluatorModuleIndex :: u16 where "kTimeEvaluatorModuleIndex = 0x7fff"
definition kTVMModuleHandleUninitialized :: u32 where "kTVMModuleHandleUninitialized = NOT 0"

definition DecodeModuleHandle :: "u32 \<Rightarrow> runtime \<Rightarrow> (int \<times> u16 option \<times> runtime) option" where
  "DecodeModuleHandle handle rt = do {
     let module_index = (ucast handle :: u16) AND NOT 0x8000;
     bad \<leftarrow> (if module_index > of_nat TVM_CRT_MAX_REGISTERED_MODULES then Some True
       else do { e \<leftarrow> arr_get (registered_modules rt) (unat module_index); Some (e = None) });
     if bad
     then Some (- 1, None, TVMAPIErrorf (''invalid module handle: '' @ hex_text 8 (unat module_index)) rt)
     else Some (0, Some module_index, rt)
   }"

definition EncodeModuleHandle :: "u16 \<Rightarrow> u32" where
  "EncodeModuleHandle module_index = ucast (module_index OR 0x8000)"

definition TVMModCreateFromCModule :: "func_registry \<Rightarrow> runtime \<Rightarrow> (int \<times> u32 option \<times> runtime) option" where
  "TVMModCreateFromCModule lib rt = do {
     idx \<leftarrow> find_from (\<lambda>e. e = None) (registered_modules rt) 0 TVM_CRT_MAX_REGISTERED_MODULES;
     case idx of
       None \<Rightarrow> Some (- 1, None, rt)
     | Some i \<Rightarrow> Some (0, Some (EncodeModuleHandle (of_nat i)),
         rt\<lparr>registered_modules := (registered_modules rt)[i := Some lib]\<rparr>)
   }"

definition TVMModFree :: "u32 \<Rightarrow> runtime \<Rightarrow> (int \<times> runtime) option" where
  "TVMModFree hdl rt =
     (if hdl = system_lib_handle rt \<and> system_lib_handle rt \<noteq> kTVMModuleHandleUninitialized then Some (0, rt)
      else do {
        (r, module_index, rt) \<leftarrow> DecodeModuleHandle hdl rt;
        if r \<noteq> 0 then Some (- 1, rt)
        else do {
          mods \<leftarrow> arr_set (registered_modules rt) (unat (the module_index)) None;
          Some (0, rt\<lparr>registered_modules := mods\<rparr>)
        }
      })"

definition EncodeFunctionHandle :: "u16 \<Rightarrow> u16 \<Rightarrow> u32" where
  "EncodeFunctionHandle module_index function_index =
     push_bit 16 (ucast (module_index OR 0x8000)) OR ucast (function_index OR 0x8000)"

definition DecodeFunctionHandle :: "u32 \<Rightarrow> runtime \<Rightarrow> (int \<times> (u16 \<times> u16) option \<times> runtime) option" where
  "DecodeFunctionHandle handle rt = do {
     let unvalidated_module_index = (ucast (drop_bit 16 handle) :: u16) AND NOT 0x8000;
     let function_index = (ucast (handle AND NOT 0x8000) :: u16);
     if unvalidated_module_index \<noteq> kTimeEvaluatorModuleIndex
     then
       if unvalidated_module_index > kGlobalFuncModuleIndex
       then Some (- 1, None, TVMAPIErrorf (''invalid module handle: index='' @ hex_text 8 (unat unvalidated_module_index)) rt)
       else do {
         free \<leftarrow> (if unvalidated_module_index < kGlobalFuncModuleIndex
           then do { e \<leftarrow> arr_get (registered_modules rt) (unat unvalidated_module_index); Some (e = None) }
           else Some False);
         if free
         then Some (- 1, None, TVMAPIErrorf (''unregistered module: index='' @ hex_text 8 (unat unvalidated_module_index)) rt)
         else Some (0, Some (unvalidated_module_index, function_index), rt)
       }
     else Some (0, Some (unvalidated_module_index, function_index), rt)
   }"

section \<open>Calling a function\<close>

text \<open>
  A packed function takes its arguments, their type codes and count, and the slots of its result, which
  it may write; its own results are the return code, the slots and the state.
\<close>

type_synonym packed_func =
  "tvm_value list \<Rightarrow> int list \<Rightarrow> int \<Rightarrow> tvm_value \<Rightarrow> int \<Rightarrow> runtime \<Rightarrow> (int \<times> tvm_value \<times> int \<times> runtime) option"

text \<open>
  What the linker and the generated code supply: the addresses of the functions of this file, the system
  library, the functions at all other addresses (with the resource handle), the uninitialised word of
  the random source and the image of a \<^verbatim>\<open>double\<close>.
\<close>

record image =
  at_SystemLibraryCreate :: u32
  at_ModuleGetFunction :: u32
  at_RPCTimeEvaluator :: u32
  at_RPCGetCRTMaxPacketSize :: u32
  at_RandomFill :: u32
  TVMSystemLibEntryPoint :: func_registry
  ops :: "u32 \<Rightarrow> func_registry option \<Rightarrow> packed_func"
  random_word :: u32
  double_image :: "rat \<Rightarrow> u8 list"

definition SystemLibraryCreate :: "image \<Rightarrow> packed_func" where
  "SystemLibraryCreate im args type_codes num_args ret_val ret_type_codes rt = do {
     (r, rt) \<leftarrow> (if system_lib_handle rt = kTVMModuleHandleUninitialized
       then do {
         (r, out, rt) \<leftarrow> TVMModCreateFromCModule (TVMSystemLibEntryPoint im) rt;
         Some (r, case out of None \<Rightarrow> rt | Some h \<Rightarrow> rt\<lparr>system_lib_handle := h\<rparr>)
       }
       else Some (0, rt));
     if r \<noteq> 0 then Some (- 1, ret_val, ret_type_codes, TVMAPIErrorf ''error registering system lib'' rt)
     else Some (0, set_handle ret_val (system_lib_handle rt), kTVMModuleHandle, rt)
   }"

definition FindFunctionOrSetAPIError :: "u16 \<Rightarrow> func_registry \<Rightarrow> u8 list \<Rightarrow> (tvm_crt_error \<times> u32 option) option" where
  "FindFunctionOrSetAPIError module_index registry name = do {
     (err, function_index) \<leftarrow> TVMFuncRegistry_Lookup registry name;
     if err \<noteq> kTvmErrorNoError then Some (err, None)
     else Some (kTvmErrorNoError, Some (EncodeFunctionHandle module_index (the function_index)))
   }"

definition TVMFuncGetGlobal :: "u8 list \<Rightarrow> runtime \<Rightarrow> (tvm_crt_error \<times> u32 option) option" where
  "TVMFuncGetGlobal name rt = do {
     (to_return, out) \<leftarrow>
       FindFunctionOrSetAPIError kGlobalFuncModuleIndex (mr_registry (global_func_registry rt)) name;
     if to_return = kTvmErrorFunctionNameNotFound then Some (kTvmErrorNoError, Some 0)
     else Some (to_return, out)
   }"

text \<open>The imports are not searched.\<close>

definition TVMModGetFunction :: "u32 \<Rightarrow> u8 list \<Rightarrow> bool \<Rightarrow> runtime \<Rightarrow> (int \<times> u32 option \<times> runtime) option" where
  "TVMModGetFunction hdl func_name query_imports rt = do {
     (r, module_index, rt) \<leftarrow> DecodeModuleHandle hdl rt;
     if r \<noteq> 0 then Some (- 1, None, rt)
     else do {
       entry \<leftarrow> arr_get (registered_modules rt) (unat (the module_index));
       registry \<leftarrow> entry;
       (err, out) \<leftarrow> FindFunctionOrSetAPIError (the module_index) registry func_name;
       Some (tvm_crt_error_code err, out, rt)
     }
   }"

definition ModuleGetFunction :: packed_func where
  "ModuleGetFunction args type_codes num_args ret_value ret_type_codes rt = do {
     let ret_value = set_handle ret_value 0;
     let ret_type_codes = kTVMNullptr;
     bad \<leftarrow> (if num_args \<noteq> 3 then Some True
       else do {
         tcs \<leftarrow> mem_read type_codes 0 3;
         Some (tcs \<noteq> [kTVMModuleHandle, kTVMStr, int kDLInt])
       });
     if bad then Some (0, ret_value, ret_type_codes, rt)
     else do {
       hdl \<leftarrow> arr_get args 0;
       str \<leftarrow> arr_get args 1;
       name \<leftarrow> c_string (ram (rt_machine rt)) (uint (v_handle str));
       q \<leftarrow> arr_get args 2;
       let query_imports = (v_int64 q \<noteq> 0);
       (to_return, out, rt) \<leftarrow> TVMModGetFunction (v_handle hdl) name query_imports rt;
       let ret_value = (case out of None \<Rightarrow> ret_value | Some h \<Rightarrow> set_handle ret_value h);
       let (ret_value, ret_type_codes) = (if to_return = 0 then (ret_value, kTVMPackedFuncHandle)
         else (set_handle ret_value 0, ret_type_codes));
       let to_return = (if to_return = tvm_crt_error_code kTvmErrorFunctionNameNotFound then 0 else to_return);
       Some (to_return, ret_value, ret_type_codes, rt)
     }
   }"

text \<open>The results are stored one by one.\<close>

fun TVMCFuncSetReturn ::
    "tvm_value list \<Rightarrow> int list \<Rightarrow> nat \<Rightarrow> tvm_value list \<Rightarrow> int list \<Rightarrow> nat \<Rightarrow> (tvm_value list \<times> int list) option" where
  "TVMCFuncSetReturn ret_val ret_type_code idx value type_code 0 = Some (ret_val, ret_type_code)"
| "TVMCFuncSetReturn ret_val ret_type_code idx value type_code (Suc n) = do {
     v \<leftarrow> arr_get value idx;
     t \<leftarrow> arr_get type_code idx;
     ret_val \<leftarrow> arr_set ret_val idx v;
     ret_type_code \<leftarrow> arr_set ret_type_code idx t;
     TVMCFuncSetReturn ret_val ret_type_code (idx + 1) value type_code n
   }"

definition TVMFuncFree :: "u32 \<Rightarrow> int" where
  "TVMFuncFree func = 0"

definition RPCGetCRTMaxPacketSize :: packed_func where
  "RPCGetCRTMaxPacketSize args type_codes num_args ret_value ret_type_codes rt =
     Some (0, set_int64 (TVM_CRT_MAX_PACKET_SIZE_BYTES - 11), kTVMArgInt, rt)"

text \<open>A tensor in memory, 40 bytes with the padding before the offset.\<close>

definition load_tensor :: "ram \<Rightarrow> addr \<Rightarrow> dl_tensor" where
  "load_tensor r a =
     \<lparr>dt_data = int (le_value (load_bytes r a 4)),
      dt_device = \<lparr>device_type = i32_value (load_bytes r (a + 4) 4), device_id = i32_value (load_bytes r (a + 8) 4)\<rparr>,
      dt_ndim = i32_value (load_bytes r (a + 12) 4),
      dt_dtype = \<lparr>code = r (a + 16), bits = r (a + 17), lanes = of_nat (le_value (load_bytes r (a + 18) 2))\<rparr>,
      dt_shape = int (le_value (load_bytes r (a + 20) 4)),
      dt_strides = int (le_value (load_bytes r (a + 24) 4)),
      dt_byte_offset = le_value (load_bytes r (a + 32) 8)\<rparr>"

definition RandomFill :: "image \<Rightarrow> packed_func" where
  "RandomFill im args type_codes num_args ret_val ret_type_code rt = do {
     if num_args \<noteq> 1 then Some (tvm_crt_error_code kTvmErrorFunctionCallNumArguments, ret_val, ret_type_code, rt)
     else do {
       t \<leftarrow> arr_get type_codes 0;
       if t \<noteq> kTVMDLTensorHandle
       then Some (tvm_crt_error_code kTvmErrorFunctionCallWrongArgType, ret_val, ret_type_code, rt)
       else do {
         a \<leftarrow> arr_get args 0;
         let arr = \<lparr>arr_tensor = load_tensor (ram (rt_machine rt)) (uint (v_handle a)), reference_count = 0\<rparr>;
         let (r, m) = TVMNDArray_RandomFill (random_word im) (rt_machine rt) arr;
         Some (r, ret_val, ret_type_code, rt\<lparr>rt_machine := m\<rparr>)
       }
     }
   }"

definition RPCTimeEvaluator :: packed_func where
  "RPCTimeEvaluator args type_codes num_args ret_val ret_type_code rt = do {
     let ret_val = set_handle ret_val 0;
     let ret_type_code = kTVMNullptr;
     if num_args < 11
     then Some (tvm_crt_error_code kTvmErrorFunctionCallNumArguments, ret_val, ret_type_code,
       TVMAPIErrorf ''not enough args'' rt)
     else do {
       tcs \<leftarrow> mem_read type_codes 0 11;
       if tcs \<noteq> [kTVMModuleHandle, kTVMStr, kTVMArgInt, kTVMArgInt, kTVMArgInt, kTVMArgInt, kTVMArgInt,
           kTVMArgInt, kTVMArgInt, kTVMArgInt, kTVMStr]
       then Some (tvm_crt_error_code kTvmErrorFunctionCallWrongArgType, ret_val, ret_type_code,
         TVMAPIErrorf ''one or more invalid arg types'' rt)
       else do {
         as \<leftarrow> mem_read args 0 11;
         let hdl = v_handle (as ! 0);
         name \<leftarrow> c_string (ram (rt_machine rt)) (uint (v_handle (as ! 1)));
         let arg = (\<lambda>i. to_i32 (v_int64 (as ! i)));
         let rt = rt\<lparr>g_time_evaluator_state := (g_time_evaluator_state rt)
           \<lparr>te_device := \<lparr>device_type = arg 2, device_id = arg 3\<rparr>, te_number := arg 4, te_repeat := arg 5,
            te_min_repeat_ms := arg 6, te_limit_zero_time_iterations := arg 7,
            te_cooldown_interval_ms := arg 8, te_repeats_to_cooldown := arg 9\<rparr>\<rparr>;
         (ret_code, out, rt) \<leftarrow> TVMModGetFunction hdl name False rt;
         let st = g_time_evaluator_state rt;
         let st = (case out of None \<Rightarrow> st | Some h \<Rightarrow> st\<lparr>func_to_time := h\<rparr>);
         if ret_code \<noteq> 0 then Some (ret_code, ret_val, ret_type_code, rt\<lparr>g_time_evaluator_state := st\<rparr>)
         else do {
           let st = st\<lparr>te_function_index := te_function_index st + 1\<rparr>;
           Some (0, set_handle ret_val (EncodeFunctionHandle kTimeEvaluatorModuleIndex (te_function_index st)),
             kTVMPackedFuncHandle, rt\<lparr>g_time_evaluator_state := st\<rparr>)
         }
       }
     }
   }"

section \<open>The time evaluator\<close>

definition TVMPlatformBeforeMeasurement :: tvm_crt_error where
  "TVMPlatformBeforeMeasurement = kTvmErrorNoError"

definition TVMPlatformAfterMeasurement :: tvm_crt_error where
  "TVMPlatformAfterMeasurement = kTvmErrorNoError"

text \<open>
  In the loops \<open>Inl e\<close> is the jump to the release of the result with the error \<open>e\<close>, and \<open>Inr\<close> goes on.
  A loop that does not end has no value. Seconds are rational numbers.
\<close>

type_synonym call = "u32 \<Rightarrow> tvm_value \<Rightarrow> int \<Rightarrow> runtime \<Rightarrow> (int \<times> tvm_value \<times> int \<times> runtime) option"

partial_function (option) call_loop ::
    "call \<Rightarrow> int \<Rightarrow> tvm_value \<Rightarrow> int \<Rightarrow> runtime \<Rightarrow> ((int + unit) \<times> tvm_value \<times> int \<times> runtime) option" where
  "call_loop call j ret_val ret_tc rt =
     (if j < te_number (g_time_evaluator_state rt)
      then do {
        (err, ret_val, ret_tc, rt) \<leftarrow> call (func_to_time (g_time_evaluator_state rt)) ret_val ret_tc rt;
        if err \<noteq> 0 then Some (Inl err, ret_val, ret_tc, rt)
        else call_loop call (j + 1) ret_val ret_tc rt
      }
      else Some (Inr (), ret_val, ret_tc, rt))"

definition rat_trunc :: "rat \<Rightarrow> int" where
  "rat_trunc x = (if x < 0 then - \<lfloor>- x\<rfloor> else \<lfloor>x\<rfloor>)"

definition golden_ratio :: rat where "golden_ratio = 1618 / 1000"

definition adjust_number :: "rat \<Rightarrow> rat \<Rightarrow> int \<Rightarrow> int" where
  "adjust_number min_repeat_seconds curr_res_seconds number =
     (let a = min_repeat_seconds / (curr_res_seconds / of_int number) + 1;
          b = of_int number * golden_ratio
      in to_i32 (to_i64 (rat_trunc (if a > b then a else b))))"

partial_function (option) measure_loop ::
    "call \<Rightarrow> rat \<Rightarrow> rat \<Rightarrow> int \<Rightarrow> tvm_value \<Rightarrow> int \<Rightarrow> runtime \<Rightarrow> ((int + rat) \<times> tvm_value \<times> int \<times> runtime) option" where
  "measure_loop call min_repeat_seconds curr_res_seconds absolute_zero_times ret_val ret_tc rt = do {
     let st = g_time_evaluator_state rt;
     let rt = (if curr_res_seconds > 0
       then rt\<lparr>g_time_evaluator_state := st\<lparr>te_number := adjust_number min_repeat_seconds curr_res_seconds (te_number st)\<rparr>\<rparr>
       else rt);
     if TVMPlatformBeforeMeasurement \<noteq> kTvmErrorNoError
     then Some (Inl (tvm_crt_error_code TVMPlatformBeforeMeasurement), ret_val, ret_tc, rt)
     else do {
       let (err, t) = TVMPlatformTimerStart (rt_cycles rt) (rt_timer rt);
       let rt = rt\<lparr>rt_timer := t\<rparr>;
       if err \<noteq> kTvmErrorNoError then Some (Inl (tvm_crt_error_code err), ret_val, ret_tc, rt)
       else do {
         (calls, ret_val, ret_tc, rt) \<leftarrow> call_loop call 0 ret_val ret_tc rt;
         case calls of
           Inl e \<Rightarrow> Some (Inl e, ret_val, ret_tc, rt)
         | Inr _ \<Rightarrow> do {
             let (err, secs, t) = TVMPlatformTimerStop (rt_cycles rt) (rt_timer rt);
             let rt = rt\<lparr>rt_timer := t\<rparr>;
             if err \<noteq> kTvmErrorNoError then Some (Inl (tvm_crt_error_code err), ret_val, ret_tc, rt)
             else do {
               let curr_res_seconds = (case secs of None \<Rightarrow> curr_res_seconds | Some x \<Rightarrow> x);
               if TVMPlatformAfterMeasurement \<noteq> kTvmErrorNoError
               then Some (Inl (tvm_crt_error_code TVMPlatformAfterMeasurement), ret_val, ret_tc, rt)
               else do {
                 let absolute_zero_times = (if curr_res_seconds = 0 then absolute_zero_times + 1 else absolute_zero_times);
                 if curr_res_seconds < min_repeat_seconds
                    \<and> absolute_zero_times < te_limit_zero_time_iterations (g_time_evaluator_state rt)
                 then measure_loop call min_repeat_seconds curr_res_seconds absolute_zero_times ret_val ret_tc rt
                 else Some (Inr curr_res_seconds, ret_val, ret_tc, rt)
               }
             }
           }
       }
     }
   }"

text \<open>The target has no \<^verbatim>\<open>usleep\<close>: a cooldown is an error message and the jump, with no error code.\<close>

partial_function (option) repeat_loop ::
    "image \<Rightarrow> call \<Rightarrow> rat \<Rightarrow> addr \<Rightarrow> int \<Rightarrow> tvm_value \<Rightarrow> int \<Rightarrow> runtime
     \<Rightarrow> ((int + unit) \<times> tvm_value \<times> int \<times> runtime) option" where
  "repeat_loop im call min_repeat_seconds iter i ret_val ret_tc rt =
     (if i < te_repeat (g_time_evaluator_state rt)
      then do {
        (res, ret_val, ret_tc, rt) \<leftarrow> measure_loop call min_repeat_seconds 0 0 ret_val ret_tc rt;
        case res of
          Inl e \<Rightarrow> Some (Inl e, ret_val, ret_tc, rt)
        | Inr curr_res_seconds \<Rightarrow> do {
            let st = g_time_evaluator_state rt;
            let mean_exec_seconds = curr_res_seconds / of_int (te_number st);
            let m = rt_machine rt;
            let rt = rt\<lparr>rt_machine := m\<lparr>ram := store_bytes (ram m) iter (double_image im mean_exec_seconds)\<rparr>\<rparr>;
            if te_cooldown_interval_ms st > 0
            then do {
              CHECK (te_repeats_to_cooldown st \<noteq> 0);
              if i mod \<bar>te_repeats_to_cooldown st\<bar> = 0
              then Some (Inl 0, ret_val, ret_tc, TVMAPIErrorf
                (''No support for non-zero cooldown_interval_ms for this platform: Use '' @ ''cooldown_interval_ms = 0'') rt)
              else repeat_loop im call min_repeat_seconds (iter + 8) (i + 1) ret_val ret_tc rt
            }
            else repeat_loop im call min_repeat_seconds (iter + 8) (i + 1) ret_val ret_tc rt
          }
      }
      else Some (Inr (), ret_val, ret_tc, rt))"

text \<open>The code after the label: the array object is released only when releasing its bytes failed.\<close>

definition release_and_return ::
    "int \<Rightarrow> addr \<Rightarrow> tvm_value \<Rightarrow> int \<Rightarrow> runtime \<Rightarrow> (int \<times> tvm_value \<times> int \<times> runtime) option" where
  "release_and_return err result_byte_arr ret_val ret_tc rt = do {
     CHECK (result_byte_arr \<noteq> 0);
     let m = rt_machine rt;
     (release_err, h) \<leftarrow> TVMPlatformMemoryFree (heap m) (int (le_value (load_bytes (ram m) result_byte_arr 4)));
     (release_err, h) \<leftarrow> (if release_err \<noteq> kTvmErrorNoError then TVMPlatformMemoryFree h result_byte_arr
       else Some (release_err, h));
     let err = (if err = 0 \<and> release_err \<noteq> kTvmErrorNoError then tvm_crt_error_code release_err else err);
     Some (err, ret_val, ret_tc, rt\<lparr>rt_machine := m\<lparr>heap := h\<rparr>\<rparr>)
   }"

definition RunTimeEvaluator :: "image \<Rightarrow> call \<Rightarrow> u16 \<Rightarrow> tvm_value \<Rightarrow> int \<Rightarrow> runtime \<Rightarrow>
    (int \<times> tvm_value \<times> int \<times> runtime) option" where
  "RunTimeEvaluator im call function_index ret_val ret_tc rt =
     (if function_index \<noteq> te_function_index (g_time_evaluator_state rt)
      then Some (tvm_crt_error_code kTvmErrorTimeEvaluatorBadHandle, ret_val, ret_tc, rt)
      else do {
        let m = rt_machine rt;
        (err, result_byte_arr, h) \<leftarrow> TVMPlatformMemoryAllocate (heap m) 8;
        let m = m\<lparr>heap := h\<rparr>;
        if err \<noteq> kTvmErrorNoError
        then release_and_return (tvm_crt_error_code err) result_byte_arr ret_val ret_tc (rt\<lparr>rt_machine := m\<rparr>)
        else do {
          let data_size = to_size (8 * te_repeat (g_time_evaluator_state rt));
          (err, iter, h) \<leftarrow> TVMPlatformMemoryAllocate (heap m) data_size;
          let m = m\<lparr>heap := h, ram := store_bytes (ram m) result_byte_arr (le_bytes 4 (nat iter))\<rparr>;
          if err \<noteq> kTvmErrorNoError
          then release_and_return (tvm_crt_error_code err) result_byte_arr ret_val ret_tc (rt\<lparr>rt_machine := m\<rparr>)
          else do {
            let m = m\<lparr>ram := store_bytes (ram m) (result_byte_arr + 4) (le_bytes 4 data_size)\<rparr>;
            (err, ret_val, ret_tc, rt) \<leftarrow>
              call (func_to_time (g_time_evaluator_state rt)) ret_val ret_tc (rt\<lparr>rt_machine := m\<rparr>);
            if err \<noteq> 0 then release_and_return err result_byte_arr ret_val ret_tc rt
            else do {
              let min_repeat_seconds = of_int (te_min_repeat_ms (g_time_evaluator_state rt)) / 1000;
              (res, ret_val, ret_tc, rt) \<leftarrow> repeat_loop im call min_repeat_seconds iter 0 ret_val ret_tc rt;
              case res of
                Inl e \<Rightarrow> release_and_return e result_byte_arr ret_val ret_tc rt
              | Inr _ \<Rightarrow> Some (0, set_handle ret_val (of_int result_byte_arr), kTVMBytes, rt)
            }
          }
        }
      })"

section \<open>Calls\<close>

definition call_pointer :: "image \<Rightarrow> u32 \<Rightarrow> func_registry option \<Rightarrow> packed_func" where
  "call_pointer im f resource_handle =
     (if f = at_SystemLibraryCreate im then SystemLibraryCreate im
      else if f = at_ModuleGetFunction im then ModuleGetFunction
      else if f = at_RPCTimeEvaluator im then RPCTimeEvaluator
      else if f = at_RPCGetCRTMaxPacketSize im then RPCGetCRTMaxPacketSize
      else if f = at_RandomFill im then RandomFill im
      else ops im f resource_handle)"

text \<open>
  The time evaluator calls back into \<^verbatim>\<open>TVMFuncCall\<close>. The first argument bounds the depth of that nesting:
  what is timed is never the time evaluator itself, so 2 is enough.
\<close>

fun TVMFuncCall :: "nat \<Rightarrow> image \<Rightarrow> u32 \<Rightarrow> packed_func" where
  "TVMFuncCall 0 im func_handle arg_values type_codes num_args ret_val ret_tc rt = None"
| "TVMFuncCall (Suc depth) im func_handle arg_values type_codes num_args ret_val ret_tc rt = do {
     (r, indices, rt) \<leftarrow> DecodeFunctionHandle func_handle rt;
     if r \<noteq> 0 then Some (- 1, ret_val, ret_tc, rt)
     else do {
       let (module_index, function_index) = the indices;
       if module_index = kTimeEvaluatorModuleIndex
       then RunTimeEvaluator im (\<lambda>f. TVMFuncCall depth im f arg_values type_codes num_args) function_index ret_val ret_tc rt
       else do {
         (resource_handle, registry) \<leftarrow> (if module_index = kGlobalFuncModuleIndex
           then Some (None, mr_registry (global_func_registry rt))
           else do {
             entry \<leftarrow> arr_get (registered_modules rt) (unat module_index);
             reg \<leftarrow> entry;
             Some (Some reg, reg)
           });
         (err, func) \<leftarrow> TVMFuncRegistry_GetByIndex registry function_index;
         if err \<noteq> kTvmErrorNoError
         then Some (- 1, ret_val, ret_tc, TVMAPIErrorf (''invalid function index: '' @ hex_text 4 (unat function_index)) rt)
         else call_pointer im (the func) resource_handle arg_values type_codes num_args (set_handle ret_val 0) kTVMNullptr rt
       }
     }
   }"

section \<open>Start\<close>

definition register_next :: "u8 list \<Rightarrow> u32 \<Rightarrow> tvm_crt_error \<times> runtime \<Rightarrow> (tvm_crt_error \<times> runtime) option" where
  "register_next name f = (\<lambda>(err, rt).
     if err = kTvmErrorNoError then TVMFuncRegisterGlobal name f 0 rt else Some (err, rt))"

definition TVMInitializeRuntime :: "image \<Rightarrow> runtime \<Rightarrow> (tvm_crt_error \<times> runtime) option" where
  "TVMInitializeRuntime im rt = do {
     (err, p, h) \<leftarrow> TVMPlatformMemoryAllocate (heap (rt_machine rt)) TVM_CRT_GLOBAL_FUNC_REGISTRY_SIZE_BYTES;
     let m = (rt_machine rt)\<lparr>heap := h\<rparr>;
     let rt = rt\<lparr>rt_machine := m\<rparr>;
     if err \<noteq> kTvmErrorNoError then Some (err, rt)
     else do {
       let rt = rt\<lparr>system_lib_handle := kTVMModuleHandleUninitialized\<rparr>;
       (err, reg) \<leftarrow> TVMMutableFuncRegistry_Create (load_bytes (ram m) p TVM_CRT_GLOBAL_FUNC_REGISTRY_SIZE_BYTES);
       let rt = (case reg of None \<Rightarrow> rt | Some g \<Rightarrow> rt\<lparr>global_func_registry := g\<rparr>);
       let rt = rt\<lparr>registered_modules := replicate TVM_CRT_MAX_REGISTERED_MODULES None\<rparr>;
       s \<leftarrow> register_next (c_str ''runtime.SystemLib'') (at_SystemLibraryCreate im) (err, rt);
       s \<leftarrow> register_next (c_str ''tvm.rpc.server.ModuleGetFunction'') (at_ModuleGetFunction im) s;
       s \<leftarrow> register_next (c_str ''runtime.RPCTimeEvaluator'') (at_RPCTimeEvaluator im) s;
       s \<leftarrow> register_next (c_str ''tvm.rpc.server.GetCRTMaxPacketSize'') (at_RPCGetCRTMaxPacketSize im) s;
       s \<leftarrow> register_next (c_str ''tvm.contrib.random.random_fill'') (at_RandomFill im) s;
       let (err, rt) = s;
       if err \<noteq> kTvmErrorNoError
       then do {
         (e, h) \<leftarrow> TVMPlatformMemoryFree (heap (rt_machine rt)) p;
         Some (err, rt\<lparr>rt_machine := (rt_machine rt)\<lparr>heap := h\<rparr>\<rparr>)
       }
       else Some (err, rt)
     }
   }"

section \<open>Handles\<close>

text \<open>The tag is bit 15 of an index; an index without it fits into the 15 bits below.\<close>

lemma tag_bits: "bit (0x8000 :: 'a :: len word) n \<longleftrightarrow> n = 15 \<and> 15 < LENGTH('a)"
proof -
  have "(0x8000 :: 'a word) = 2 ^ 15"
    by simp
  then show ?thesis
    by (simp only: bit_exp_iff) auto
qed

lemma index_bits: "i < 0x8000 \<Longrightarrow> bit (i :: u16) n \<Longrightarrow> n < 15"
proof -
  assume i: "i < 0x8000" "bit i n"
  then have "unat i < 2 ^ 15"
    by (simp add: word_less_nat_alt)
  then have "take_bit 15 (unat i) = unat i"
    by (rule take_bit_nat_eq_self)
  moreover have "bit (unat i) n"
    using i(2) by (simp add: bit_unsigned_iff bit_imp_le_length)
  ultimately show "n < 15"
    by (metis bit_take_bit_iff)
qed

lemma tag_bits_int: "bit (0x8000 :: int) n \<longleftrightarrow> n = 15"
proof -
  have "(0x8000 :: int) = 2 ^ 15"
    by simp
  then show ?thesis
    by (simp only: bit_exp_iff) auto
qed

lemma function_index_decoded:
  assumes "fi < 0x8000"
  shows "(ucast (EncodeFunctionHandle mi fi AND NOT 0x8000) :: u16) = fi"
  by (rule bit_word_eqI)
    (use index_bits [OF assms] in \<open>auto simp: EncodeFunctionHandle_def bit_simps tag_bits tag_bits_int\<close>)

lemma module_index_decoded:
  assumes "mi < 0x8000"
  shows "(ucast (drop_bit 16 (EncodeFunctionHandle mi fi)) :: u16) AND NOT 0x8000 = mi"
  by (rule bit_word_eqI)
    (use index_bits [OF assms] in \<open>auto simp: EncodeFunctionHandle_def bit_simps tag_bits tag_bits_int dest: bit_imp_le_length\<close>)

lemma module_handle_index:
  assumes "mi < 0x8000"
  shows "(ucast (EncodeModuleHandle mi) :: u16) AND NOT 0x8000 = mi"
  by (rule bit_word_eqI)
    (use index_bits [OF assms] in \<open>auto simp: EncodeModuleHandle_def bit_simps tag_bits tag_bits_int\<close>)

lemma small_index:
  assumes "i < 6"
  shows "unat (of_nat i :: u16) = i" and "(of_nat i :: u16) < 0x8000"
  using assms by (simp_all add: unat_of_nat word_less_nat_alt)

lemma DecodeModuleHandle_ok:
  assumes "length (registered_modules rt) = 6" and "i < 6" and "registered_modules rt ! i = Some reg"
  shows "DecodeModuleHandle (EncodeModuleHandle (of_nat i)) rt = Some (0, Some (of_nat i), rt)"
proof -
  have "\<not> (of_nat i :: u16) > 6"
    using assms(2) small_index [OF assms(2)] by (simp add: word_less_nat_alt)
  then show ?thesis
    unfolding DecodeModuleHandle_def Let_def module_handle_index [OF small_index(2) [OF assms(2)]]
    using assms small_index(1) [OF assms(2)] by (simp add: TVM_CRT_MAX_REGISTERED_MODULES_def)
qed

lemma DecodeFunctionHandle_global:
  assumes "k < 0x8000"
  shows "DecodeFunctionHandle (EncodeFunctionHandle kGlobalFuncModuleIndex k) rt = Some (0, Some (kGlobalFuncModuleIndex, k), rt)"
  using module_index_decoded [of kGlobalFuncModuleIndex k] function_index_decoded [OF assms, of kGlobalFuncModuleIndex]
  by (simp add: DecodeFunctionHandle_def kGlobalFuncModuleIndex_def TVM_CRT_MAX_REGISTERED_MODULES_def Let_def
      kTimeEvaluatorModuleIndex_def)

lemma DecodeFunctionHandle_module:
  assumes "length (registered_modules rt) = 6" and "i < 6" and "registered_modules rt ! i = Some reg" and "k < 0x8000"
  shows "DecodeFunctionHandle (EncodeFunctionHandle (of_nat i) k) rt = Some (0, Some (of_nat i, k), rt)"
proof -
  have w: "(of_nat i :: u16) < 6" "\<not> (of_nat i :: u16) > 6" "(of_nat i :: u16) \<noteq> 0x7fff"
    using assms(2) small_index(1) [OF assms(2)] by (auto simp: word_less_nat_alt word_unat_eq_iff)
  show ?thesis
    unfolding DecodeFunctionHandle_def kGlobalFuncModuleIndex_def TVM_CRT_MAX_REGISTERED_MODULES_def Let_def
      kTimeEvaluatorModuleIndex_def module_index_decoded [OF small_index(2) [OF assms(2)]] function_index_decoded [OF assms(4)]
    using assms(1-3) w small_index(1) [OF assms(2)] by simp
qed

lemma DecodeFunctionHandle_evaluator:
  assumes "k < 0x8000"
  shows "DecodeFunctionHandle (EncodeFunctionHandle kTimeEvaluatorModuleIndex k) rt = Some (0, Some (kTimeEvaluatorModuleIndex, k), rt)"
  using module_index_decoded [of kTimeEvaluatorModuleIndex k] function_index_decoded [OF assms, of kTimeEvaluatorModuleIndex]
  by (simp add: DecodeFunctionHandle_def Let_def kTimeEvaluatorModuleIndex_def)

text \<open>
  Calling by name: the handle of a function of a module's registry makes \<^verbatim>\<open>TVMFuncCall\<close> run that function,
  with the registry as the resource and an empty result slot.
\<close>

lemma module_lookup:
  assumes "length (registered_modules rt) = 6" and "i < 6" and "registered_modules rt ! i = Some reg"
    and "TVMFuncRegistry_Lookup reg name = Some (kTvmErrorNoError, Some k)"
  shows "TVMModGetFunction (EncodeModuleHandle (of_nat i)) name query_imports rt = Some (0, Some (EncodeFunctionHandle (of_nat i) k), rt)"
  using assms small_index(1) [OF assms(2)] DecodeModuleHandle_ok [OF assms(1-3)]
  by (simp add: TVMModGetFunction_def FindFunctionOrSetAPIError_def)

lemma module_call:
  assumes "length (registered_modules rt) = 6" and "i < 6" and "registered_modules rt ! i = Some reg" and "k < 0x8000"
    and "TVMFuncRegistry_GetByIndex reg k = Some (kTvmErrorNoError, Some f)"
  shows "TVMFuncCall (Suc d) im (EncodeFunctionHandle (of_nat i) k) args tcs n rv rc rt
    = call_pointer im f (Some reg) args tcs n (set_handle rv 0) kTVMNullptr rt"
proof -
  have "(of_nat i :: u16) \<noteq> 0x7fff" "(of_nat i :: u16) \<noteq> 6"
    using assms(2) small_index(1) [OF assms(2)] by (auto simp: word_unat_eq_iff)
  then show ?thesis
    using assms(1-3,5) small_index(1) [OF assms(2)] DecodeFunctionHandle_module [OF assms(1-4)]
    by (simp add: kTimeEvaluatorModuleIndex_def kGlobalFuncModuleIndex_def TVM_CRT_MAX_REGISTERED_MODULES_def)
qed

lemma module_dispatch:
  assumes "length (registered_modules rt) = 6" and "i < 6" and "registered_modules rt ! i = Some reg"
    and "TVMFuncRegistry_Lookup reg name = Some (kTvmErrorNoError, Some k)" and "k < 0x8000"
    and "TVMFuncRegistry_GetByIndex reg k = Some (kTvmErrorNoError, Some f)"
  shows "\<exists>h. TVMModGetFunction (EncodeModuleHandle (of_nat i)) name query_imports rt = Some (0, Some h, rt)
    \<and> TVMFuncCall (Suc d) im h args tcs n rv rc rt = call_pointer im f (Some reg) args tcs n (set_handle rv 0) kTVMNullptr rt"
  using module_lookup [OF assms(1-4)] module_call [OF assms(1-3,5,6)] by blast

text \<open>
  Seven module indices pass the test of \<^verbatim>\<open>DecodeModuleHandle\<close>, but the table has six entries: a handle
  with index 6 reads behind it.
\<close>
lemma module_index_six_faults:
  assumes "length (registered_modules rt) = 6" and "(ucast h :: u16) AND NOT 0x8000 = 6" and "h \<noteq> system_lib_handle rt"
  shows "TVMModGetFunction h name query_imports rt = None \<and> TVMModFree h rt = None"
proof -
  have "DecodeModuleHandle h rt = None"
    using assms(1,2) by (simp add: DecodeModuleHandle_def TVM_CRT_MAX_REGISTERED_MODULES_def)
  then show ?thesis
    using assms(3) by (simp add: TVMModGetFunction_def TVMModFree_def)
qed

text \<open>A runtime without memory, for the examples.\<close>

definition bare_runtime :: "func_registry option list \<Rightarrow> u32 \<Rightarrow> runtime" where
  "bare_runtime mods lib = \<lparr>rt_machine = \<lparr>heap = snd (snd (PageMemoryManagerCreate 4096 772 8)), ram = (\<lambda>_. 0)\<rparr>,
     global_func_registry = one_registry, registered_modules = mods, system_lib_handle = lib, g_last_error = [],
     g_time_evaluator_state = \<lparr>te_function_index = 0, func_to_time = 0, te_device = \<lparr>device_type = 0, device_id = 0\<rparr>,
       te_number = 0, te_repeat = 0, te_min_repeat_ms = 0, te_limit_zero_time_iterations = 0,
       te_cooldown_interval_ms = 0, te_repeats_to_cooldown = 0\<rparr>,
     rt_timer = \<lparr>g_utvm_start_time_micros = 0, g_utvm_timer_running = False\<rparr>, rt_cycles = 0\<rparr>"

definition bare_image :: image where
  "bare_image = \<lparr>at_SystemLibraryCreate = 16, at_ModuleGetFunction = 32, at_RPCTimeEvaluator = 48,
     at_RPCGetCRTMaxPacketSize = 64, at_RandomFill = 80, TVMSystemLibEntryPoint = mr_registry one_registry,
     ops = (\<lambda>f r args tcs n rv rc rt. Some (int (length args), rv, rc, rt)), random_word = 7, double_image = (\<lambda>x. replicate 8 0)\<rparr>"

lemma one_registry_lookup:
  "TVMFuncRegistry_Lookup (mr_registry one_registry) [65, 0] = Some (kTvmErrorNoError, Some 0)"
  "TVMFuncRegistry_GetByIndex (mr_registry one_registry) 0 = Some (kTvmErrorNoError, Some 0x1234)"
  using Lookup_ok(1) [OF one_registry_rep, of "[65]" "[]"] GetByIndex_ok [OF one_registry_rep, of 0]
  by (simp_all add: cname_def)

section \<open>The functions of the runtime\<close>

lemma mr_table_find:
  assumes "mr_table reg m slots room" and "cname n" and "m n = Some f" and "mr_max_functions reg < 2 ^ 15"
  shows "\<exists>k. TVMFuncRegistry_Lookup (mr_registry reg) (n @ [0]) = Some (kTvmErrorNoError, Some k) \<and> k < 0x8000
    \<and> TVMFuncRegistry_GetByIndex (mr_registry reg) k = Some (kTvmErrorNoError, Some f)"
proof -
  obtain xs where xs: "mr_rep reg xs" "map_of xs = m"
    using assms(1) by (auto simp: mr_table_def)
  have "n \<in> fst ` set xs"
    using assms(3) xs(2) map_of_eq_None_iff [of xs n] by auto
  from Lookup_ok(1) [OF xs(1) assms(2) this, of "[]"]
  obtain j where j: "j < length xs" "fst (xs ! j) = n"
    "TVMFuncRegistry_Lookup (mr_registry reg) (n @ [0]) = Some (kTvmErrorNoError, Some (of_nat j))"
    by auto
  have "j < 2 ^ 15"
    using j(1) xs(1) assms(4) by (simp add: mr_rep_def)
  then have u: "unat (of_nat j :: u16) = j" "(of_nat j :: u16) < 0x8000"
    by (simp_all add: unat_of_nat word_less_nat_alt)
  have "map_of xs n = Some (snd (xs ! j))"
    using map_of_nth_distinct [of xs j] j(1,2) xs(1) by (simp add: mr_rep_def)
  then have "f = snd (xs ! j)"
    using xs(2) assms(3) by simp
  then show ?thesis
    using j u GetByIndex_ok [OF xs(1), of "of_nat j"] by (intro exI [of _ "of_nat j"]) simp
qed

lemma global_call:
  assumes "mr_table (global_func_registry rt) m slots room" and "cname n" and "m n = Some f"
    and "mr_max_functions (global_func_registry rt) < 2 ^ 15"
  shows "\<exists>h. TVMFuncGetGlobal (n @ [0]) rt = Some (kTvmErrorNoError, Some h)
    \<and> (\<forall>d im args tcs k rv rc. TVMFuncCall (Suc d) im h args tcs k rv rc rt
        = call_pointer im f None args tcs k (set_handle rv 0) kTVMNullptr rt)"
proof -
  obtain k where k: "TVMFuncRegistry_Lookup (mr_registry (global_func_registry rt)) (n @ [0]) = Some (kTvmErrorNoError, Some k)"
    "k < 0x8000" "TVMFuncRegistry_GetByIndex (mr_registry (global_func_registry rt)) k = Some (kTvmErrorNoError, Some f)"
    using mr_table_find [OF assms] by blast
  show ?thesis
    using k(1,3) DecodeFunctionHandle_global [OF k(2), of rt]
    by (intro exI [of _ "EncodeFunctionHandle kGlobalFuncModuleIndex k"])
      (simp add: TVMFuncGetGlobal_def FindFunctionOrSetAPIError_def kTimeEvaluatorModuleIndex_def kGlobalFuncModuleIndex_def
        TVM_CRT_MAX_REGISTERED_MODULES_def)
qed

text \<open>The names under which the runtime registers its own functions.\<close>

definition builtins :: "image \<Rightarrow> (u8 list \<times> u32) list" where
  "builtins im = [(map of_char ''runtime.SystemLib'', at_SystemLibraryCreate im),
     (map of_char ''tvm.rpc.server.ModuleGetFunction'', at_ModuleGetFunction im),
     (map of_char ''runtime.RPCTimeEvaluator'', at_RPCTimeEvaluator im),
     (map of_char ''tvm.rpc.server.GetCRTMaxPacketSize'', at_RPCGetCRTMaxPacketSize im),
     (map of_char ''tvm.contrib.random.random_fill'', at_RandomFill im)]"

lemma register_next_list:
  assumes "register_all mr_set (global_func_registry rt) xs False = Some (kTvmErrorNoError, reg)"
  shows "foldl (\<lambda>s (n, f). Option.bind s (register_next (n @ [0]) f)) (Some (kTvmErrorNoError, rt)) xs
    = Some (kTvmErrorNoError, rt\<lparr>global_func_registry := reg\<rparr>)"
  using assms
proof (induction xs arbitrary: rt)
  case (Cons x xs)
  obtain n f where x: "x = (n, f)"
    by fastforce
  obtain r where r: "mr_set (global_func_registry rt) n f False = Some (kTvmErrorNoError, r)"
    "register_all mr_set r xs False = Some (kTvmErrorNoError, reg)"
    using Cons.prems x by (auto simp: bind_eq_Some split: if_splits)
  have "register_next (n @ [0]) f (kTvmErrorNoError, rt) = Some (kTvmErrorNoError, rt\<lparr>global_func_registry := r\<rparr>)"
    using r(1) by (simp add: register_next_def TVMFuncRegisterGlobal_def mr_set_def)
  then show ?case
    using Cons.IH [of "rt\<lparr>global_func_registry := r\<rparr>"] r(2) x by simp
qed simp

lemma builtins_ok:
  "distinct (map fst (builtins im))" "\<forall>n \<in> fst ` set (builtins im). cname n \<and> n \<noteq> []"
  "length (builtins im) = 5" "sum_list (map ((\<lambda>k. length k + 1) \<circ> fst) (builtins im)) = 142"
  by (simp_all add: builtins_def cname_def)

lemma initialized_registry:
  assumes "length buffer = 512"
  shows "\<exists>reg reg'. TVMMutableFuncRegistry_Create buffer = Some (kTvmErrorNoError, Some reg)
    \<and> register_all mr_set reg (builtins im) False = Some (kTvmErrorNoError, reg')
    \<and> mr_table reg' (map_of (builtins im)) 29 232 \<and> mr_max_functions reg' < 2 ^ 15"
proof -
  obtain reg where reg: "TVMMutableFuncRegistry_Create buffer = Some (kTvmErrorNoError, Some reg)" "mr_rep reg []"
    "mr_max_functions reg = 34" "mr_room reg [] + 2 + 4 * 34 = 512"
    using Create_ok [of buffer] assms by auto
  have "mr_table reg Map.empty 34 (mr_room reg [])"
    unfolding mr_table_def using reg(2,3) by (intro exI [of _ "[]"]) simp
  from table.register_all_distinct [OF this builtins_ok(1), of im False]
  obtain reg' where reg': "register_all mr_set reg (builtins im) False = Some (kTvmErrorNoError, reg')"
    "mr_table reg' (map_of (builtins im)) 29 (mr_room reg [] - 142)"
    using builtins_ok [of im] reg(4) by auto
  obtain xs where xs: "mr_rep reg' xs" "map_of xs = map_of (builtins im)" "mr_max_functions reg' = length xs + 29"
    using reg'(2) by (auto simp: mr_table_def)
  have "length xs = card (dom (map_of xs))"
    using xs(1) distinct_card [of "map fst xs"] by (simp add: mr_rep_def dom_map_of_conv_image_fst)
  also have "\<dots> = card (fst ` set (builtins im))"
    unfolding xs(2) by (simp add: dom_map_of_conv_image_fst)
  also have "\<dots> = 5"
    using distinct_card [of "map fst (builtins im)"] builtins_ok(1,3) [of im] by simp
  finally have "mr_max_functions reg' < 2 ^ 15"
    using xs(3) by simp
  moreover have "mr_room reg [] - 142 = 232"
    using reg(4) by simp
  ultimately show ?thesis
    using reg(1) reg' by auto
qed

lemma builtins_registered:
  assumes "register_all mr_set (global_func_registry rt) (builtins im) False = Some (kTvmErrorNoError, reg)"
  obtains s1 s2 s3 s4 where
    "register_next (c_str ''runtime.SystemLib'') (at_SystemLibraryCreate im) (kTvmErrorNoError, rt) = Some s1"
    "register_next (c_str ''tvm.rpc.server.ModuleGetFunction'') (at_ModuleGetFunction im) s1 = Some s2"
    "register_next (c_str ''runtime.RPCTimeEvaluator'') (at_RPCTimeEvaluator im) s2 = Some s3"
    "register_next (c_str ''tvm.rpc.server.GetCRTMaxPacketSize'') (at_RPCGetCRTMaxPacketSize im) s3 = Some s4"
    "register_next (c_str ''tvm.contrib.random.random_fill'') (at_RandomFill im) s4
      = Some (kTvmErrorNoError, rt\<lparr>global_func_registry := reg\<rparr>)"
  using register_next_list [OF assms] unfolding builtins_def c_str_def
  by (auto simp only: foldl.simps prod.case bind_eq_Some option.inject)

lemma TVMInitializeRuntime_run:
  assumes "TVMPlatformMemoryAllocate (heap (rt_machine rt)) 512 = Some (kTvmErrorNoError, p, h)"
    and "TVMMutableFuncRegistry_Create (load_bytes (ram (rt_machine rt)) p 512) = Some (kTvmErrorNoError, Some reg)"
    and "register_all mr_set reg (builtins im) False = Some (kTvmErrorNoError, reg')"
  shows "TVMInitializeRuntime im rt = Some (kTvmErrorNoError,
      rt\<lparr>rt_machine := (rt_machine rt)\<lparr>heap := h\<rparr>, system_lib_handle := kTVMModuleHandleUninitialized,
        global_func_registry := reg', registered_modules := replicate 6 None\<rparr>)"
proof -
  let ?rt0 = "rt\<lparr>rt_machine := (rt_machine rt)\<lparr>heap := h\<rparr>, system_lib_handle := kTVMModuleHandleUninitialized,
      global_func_registry := reg, registered_modules := replicate 6 None\<rparr>"
  have "register_all mr_set (global_func_registry ?rt0) (builtins im) False = Some (kTvmErrorNoError, reg')"
    using assms(3) by simp
  from builtins_registered [OF this]
  obtain s1 s2 s3 s4 where
    "register_next (c_str ''runtime.SystemLib'') (at_SystemLibraryCreate im) (kTvmErrorNoError, ?rt0) = Some s1"
    "register_next (c_str ''tvm.rpc.server.ModuleGetFunction'') (at_ModuleGetFunction im) s1 = Some s2"
    "register_next (c_str ''runtime.RPCTimeEvaluator'') (at_RPCTimeEvaluator im) s2 = Some s3"
    "register_next (c_str ''tvm.rpc.server.GetCRTMaxPacketSize'') (at_RPCGetCRTMaxPacketSize im) s3 = Some s4"
    "register_next (c_str ''tvm.contrib.random.random_fill'') (at_RandomFill im) s4
      = Some (kTvmErrorNoError, ?rt0\<lparr>global_func_registry := reg'\<rparr>)" .
  then show ?thesis
    using assms(1,2)
    by (simp add: TVMInitializeRuntime_def TVM_CRT_GLOBAL_FUNC_REGISTRY_SIZE_BYTES_def TVM_CRT_MAX_REGISTERED_MODULES_def
        del: platform_alloc)
qed

text \<open>
  C22. When the heap has a block for the registry, the start succeeds: every function of the runtime is
  found under its name and called through the handle found, every other name gives the null handle,
  and no module is registered.
\<close>
theorem initialize_registers_builtins:
  assumes "TVMPlatformMemoryAllocate (heap (rt_machine rt)) 512 = Some (kTvmErrorNoError, p, h)"
  shows "\<exists>rt'. TVMInitializeRuntime im rt = Some (kTvmErrorNoError, rt')
    \<and> registered_modules rt' = replicate 6 None \<and> system_lib_handle rt' = kTVMModuleHandleUninitialized
    \<and> rt_machine rt' = (rt_machine rt)\<lparr>heap := h\<rparr>
    \<and> (\<forall>(n, f) \<in> set (builtins im). \<exists>hd. TVMFuncGetGlobal (n @ [0]) rt' = Some (kTvmErrorNoError, Some hd)
        \<and> (\<forall>d args tcs k rv rc. TVMFuncCall (Suc d) im hd args tcs k rv rc rt'
            = call_pointer im f None args tcs k (set_handle rv 0) kTVMNullptr rt'))
    \<and> (\<forall>n. cname n \<longrightarrow> n \<notin> fst ` set (builtins im) \<longrightarrow> TVMFuncGetGlobal (n @ [0]) rt' = Some (kTvmErrorNoError, Some 0))"
proof -
  obtain reg reg' where reg: "TVMMutableFuncRegistry_Create (load_bytes (ram (rt_machine rt)) p 512) = Some (kTvmErrorNoError, Some reg)"
    "register_all mr_set reg (builtins im) False = Some (kTvmErrorNoError, reg')"
    "mr_table reg' (map_of (builtins im)) 29 232" "mr_max_functions reg' < 2 ^ 15"
    using initialized_registry [of "load_bytes (ram (rt_machine rt)) p 512" im] by auto
  note run = TVMInitializeRuntime_run [OF assms reg(1,2)]
  let ?rt' = "rt\<lparr>rt_machine := (rt_machine rt)\<lparr>heap := h\<rparr>, system_lib_handle := kTVMModuleHandleUninitialized,
      global_func_registry := reg', registered_modules := replicate 6 None\<rparr>"
  have "\<exists>hd. TVMFuncGetGlobal (n @ [0]) ?rt' = Some (kTvmErrorNoError, Some hd)
        \<and> (\<forall>d args tcs k rv rc. TVMFuncCall (Suc d) im hd args tcs k rv rc ?rt'
            = call_pointer im f None args tcs k (set_handle rv 0) kTVMNullptr ?rt')" if "(n, f) \<in> set (builtins im)" for n f
  proof -
    have "map_of (builtins im) n = Some f" "cname n"
      using that builtins_ok(1,2) [of im] by (auto simp: map_of_eq_Some_iff)
    then show ?thesis
      using global_call [of ?rt' "map_of (builtins im)" 29 232 n f] reg(3,4) by auto
  qed
  moreover have "TVMFuncGetGlobal (n @ [0]) ?rt' = Some (kTvmErrorNoError, Some 0)"
    if "cname n" "n \<notin> fst ` set (builtins im)" for n
  proof -
    obtain xs where xs: "mr_rep reg' xs" "map_of xs = map_of (builtins im)"
      using reg(3) by (auto simp: mr_table_def)
    then have "n \<notin> fst ` set xs"
      using that(2) by (metis dom_map_of_conv_image_fst)
    then show ?thesis
      using Lookup_ok(2) [OF xs(1) that(1), of "[]"] by (simp add: TVMFuncGetGlobal_def FindFunctionOrSetAPIError_def)
  qed
  ultimately show ?thesis
    using run by (intro exI [of _ ?rt']) auto
qed

lemma PageTable_fill_2: "PageTable_fill ps idx 2 p = PageTable_fill ps idx (Suc (Suc 0)) p"
  by (simp only: numeral_2_eq_2)

lemma initialize_registers_builtins_witness:
  "\<exists>rt'. TVMInitializeRuntime bare_image (bare_runtime [] 0) = Some (kTvmErrorNoError, rt')
    \<and> registered_modules rt' = replicate 6 None \<and> system_lib_handle rt' = kTVMModuleHandleUninitialized
    \<and> (\<exists>hd. TVMFuncGetGlobal (map of_char ''runtime.SystemLib'' @ [0]) rt' = Some (kTvmErrorNoError, Some hd)
        \<and> (\<forall>d args tcs k rv rc. TVMFuncCall (Suc d) bare_image hd args tcs k rv rc rt'
            = call_pointer bare_image 16 None args tcs k (set_handle rv 0) kTVMNullptr rt'))
    \<and> TVMFuncGetGlobal ([65] @ [0]) rt' = Some (kTvmErrorNoError, Some 0)"
proof -
  have "\<exists>h. TVMPlatformMemoryAllocate (heap (rt_machine (bare_runtime [] 0))) 512 = Some (kTvmErrorNoError, 4096, h)"
    unfolding bare_runtime_def fresh_two_pages platform_alloc by (simp add: heap_eval PageTable_fill_2)
  then obtain h where h: "TVMPlatformMemoryAllocate (heap (rt_machine (bare_runtime [] 0))) 512 = Some (kTvmErrorNoError, 4096, h)"
    by blast
  have "(map of_char ''runtime.SystemLib'', 16) \<in> set (builtins bare_image)"
    by (simp add: builtins_def bare_image_def)
  moreover have "cname [65]" "[65] \<notin> fst ` set (builtins bare_image)"
    by (simp_all add: builtins_def cname_def)
  ultimately show ?thesis
    using initialize_registers_builtins [OF h, of bare_image] by blast
qed

lemma v_handle_set [simp]: "v_handle (set_handle v h) = h"
  by (rule bit_word_eqI) (auto simp: v_handle_def set_handle_def bit_simps)

lemma handle_0: "EncodeModuleHandle 0 = 0x8000"
  by (simp add: EncodeModuleHandle_def)

text \<open>
  The null handle counts as module 0. When the system library has been created in a runtime
  without modules, \<^verbatim>\<open>TVMModFree\<close> keeps it when given its handle but removes it when given the null handle;
  asking for the library then gives the old handle again, and every look-up through it fails.
\<close>
lemma null_handle_frees_system_lib:
  assumes "length (registered_modules rt) = 6" and "registered_modules rt ! 0 = None"
    and "system_lib_handle rt = kTVMModuleHandleUninitialized"
  shows "\<exists>v rt1 rt2. SystemLibraryCreate im args tcs n rv rc rt = Some (0, v, kTVMModuleHandle, rt1)
    \<and> TVMModFree (v_handle v) rt1 = Some (0, rt1) \<and> TVMModFree 0 rt1 = Some (0, rt2)
    \<and> SystemLibraryCreate im args tcs n rv rc rt2 = Some (0, v, kTVMModuleHandle, rt2)
    \<and> (\<forall>name. \<exists>rt3. TVMModGetFunction (v_handle v) name False rt2 = Some (- 1, None, rt3))"
proof -
  let ?rt1 = "rt\<lparr>registered_modules := (registered_modules rt)[0 := Some (TVMSystemLibEntryPoint im)], system_lib_handle := 0x8000\<rparr>"
  let ?rt2 = "?rt1\<lparr>registered_modules := (registered_modules rt)[0 := None]\<rparr>"
  have six: "TVM_CRT_MAX_REGISTERED_MODULES = Suc 5"
    by (simp add: TVM_CRT_MAX_REGISTERED_MODULES_def)
  have "find_from (\<lambda>e. e = None) (registered_modules rt) 0 TVM_CRT_MAX_REGISTERED_MODULES = Some (Some 0)"
    unfolding six find_from.simps using assms(1,2) by simp
  then have create: "TVMModCreateFromCModule (TVMSystemLibEntryPoint im) rt
      = Some (0, Some 0x8000, rt\<lparr>registered_modules := (registered_modules rt)[0 := Some (TVMSystemLibEntryPoint im)]\<rparr>)"
    by (simp add: TVMModCreateFromCModule_def handle_0)
  have ne: "(0x8000 :: u32) \<noteq> kTVMModuleHandleUninitialized"
    by (simp add: kTVMModuleHandleUninitialized_def)
  have "SystemLibraryCreate im args tcs n rv rc rt = Some (0, set_handle rv 0x8000, kTVMModuleHandle, ?rt1)"
    using assms(3) create by (simp add: SystemLibraryCreate_def)
  moreover have "SystemLibraryCreate im args tcs n rv rc ?rt2 = Some (0, set_handle rv 0x8000, kTVMModuleHandle, ?rt2)"
    using ne by (simp add: SystemLibraryCreate_def)
  moreover have "TVMModFree 0x8000 ?rt1 = Some (0, ?rt1)"
    using ne by (simp add: TVMModFree_def)
  moreover have "TVMModFree 0 ?rt1 = Some (0, ?rt2)"
    using assms(1) by (simp add: TVMModFree_def DecodeModuleHandle_def Let_def)
  moreover have "\<exists>rt3. TVMModGetFunction 0x8000 name False ?rt2 = Some (- 1, None, rt3)" for name
    using assms(1) by (simp add: TVMModGetFunction_def DecodeModuleHandle_def Let_def)
  ultimately show ?thesis
    by (intro exI [of _ "set_handle rv 0x8000"] exI [of _ ?rt1] exI [of _ ?rt2]) simp
qed

section \<open>A timed call that fails\<close>

text \<open>
  When a timed call fails, the error reaches the caller with the timer still running, and from then
  on every measurement of any function ends with the timer's own error before a single call.
\<close>
lemma failed_call_blocks_timer:
  assumes "\<not> g_utvm_timer_running (rt_timer rt)" and "1 \<le> te_number (g_time_evaluator_state rt)"
    and "\<And>t. call (func_to_time (g_time_evaluator_state rt)) rv rc (rt\<lparr>rt_timer := t\<rparr>) = Some (e, rv', rc', rt'\<lparr>rt_timer := t\<rparr>)"
    and "e \<noteq> 0"
  shows "\<exists>rt1. measure_loop call ms 0 z rv rc rt = Some (Inl e, rv', rc', rt1)
    \<and> (\<forall>call' ms' z' v c. measure_loop call' ms' 0 z' v c rt1
        = Some (Inl (tvm_crt_error_code kTvmErrorPlatformTimerBadState), v, c, rt1))"
proof -
  let ?t = "\<lparr>g_utvm_start_time_micros = rt_cycles rt, g_utvm_timer_running = True\<rparr>"
  let ?rt1 = "rt'\<lparr>rt_timer := ?t\<rparr>"
  have "TVMPlatformTimerStart (rt_cycles rt) (rt_timer rt) = (kTvmErrorNoError, ?t)"
    using assms(1) by (simp add: TVMPlatformTimerStart_def)
  moreover have "call_loop call 0 rv rc (rt\<lparr>rt_timer := ?t\<rparr>) = Some (Inl e, rv', rc', ?rt1)"
    using assms(2-4) by (subst call_loop.simps) simp
  ultimately have "measure_loop call ms 0 z rv rc rt = Some (Inl e, rv', rc', ?rt1)"
    by (subst measure_loop.simps) (simp add: TVMPlatformBeforeMeasurement_def Let_def)
  moreover have "measure_loop call' ms' 0 z' v c ?rt1
      = Some (Inl (tvm_crt_error_code kTvmErrorPlatformTimerBadState), v, c, ?rt1)" for call' ms' z' v c
    by (subst measure_loop.simps) (simp add: TVMPlatformBeforeMeasurement_def TVMPlatformTimerStart_def Let_def)
  ultimately show ?thesis
    by blast
qed

text \<open>
  When the function to time fails at its first call, the evaluator returns its error and gives the
  block of the bytes back to the heap, but not the block of the array object: each failure loses one.
\<close>
lemma failed_evaluation_leaks:
  assumes "function_index = te_function_index (g_time_evaluator_state rt)"
    and "te_repeat (g_time_evaluator_state rt) = int R" and "1 \<le> R" and "R < 2 ^ 28"
    and "\<And>m. call (func_to_time (g_time_evaluator_state rt)) rv rc (rt\<lparr>rt_machine := m\<rparr>) = Some (e, rv, rc, rt\<lparr>rt_machine := m\<rparr>)"
    and "e \<noteq> 0"
    and "pm_inv (heap (rt_machine rt)) live" and "page_size (heap (rt_machine rt)) \<le> 2 ^ 31"
    and "TVMPlatformMemoryAllocate (heap (rt_machine rt)) 8 = Some (kTvmErrorNoError, arr, h)"
    and "TVMPlatformMemoryAllocate h (8 * R) = Some (kTvmErrorNoError, iter, h')"
    and "arr \<noteq> 0" and "0 \<le> iter" and "iter < 2 ^ 32"
  shows "\<exists>rt' sz. RunTimeEvaluator im call function_index rv rc rt = Some (e, rv, rc, rt')
    \<and> live arr = None \<and> pm_inv (heap (rt_machine rt')) (live(arr \<mapsto> sz))"
proof -
  let ?r1 = "store_bytes (ram (rt_machine rt)) arr (le_bytes 4 (nat iter))"
  let ?r2 = "store_bytes ?r1 (arr + 4) (le_bytes 4 (8 * R))"
  let ?m = "(rt_machine rt)\<lparr>heap := h', ram := ?r2\<rparr>"
  have sz: "8 * R < 2 ^ 31" "0 < 8 * R" "to_size (8 * int R) = 8 * R"
    using assms(3,4) by (simp_all add: nat_less_iff zless_nat_eq_int_zless)
  obtain a b where ab: "pm_inv h' (live(arr \<mapsto> a, iter \<mapsto> b))" "live arr = None" "live iter = None" "arr \<noteq> iter"
    by (rule two_blocks_apart [OF assms(7,8) _ _ sz(2,1) assms(9,10)]) simp_all
  obtain h2 where h2: "TVMPlatformMemoryFree h' iter = Some (kTvmErrorNoError, h2)"
    "pm_inv h2 ((live(arr \<mapsto> a, iter \<mapsto> b))(iter := None))"
    using platform.release_ok [OF ab(1), of iter b] by auto
  have "(live(arr \<mapsto> a, iter \<mapsto> b))(iter := None) = live(arr \<mapsto> a)"
    using ab(3,4) by (auto simp: fun_eq_iff)
  moreover have "load_bytes ?r2 arr 4 = le_bytes 4 (nat iter)"
    using load_store_apart [of arr 4 "arr + 4" "le_bytes 4 (8 * R)" ?r1] load_store_same [of "ram (rt_machine rt)" arr "le_bytes 4 (nat iter)"]
    by simp
  then have "int (le_value (load_bytes ?r2 arr 4)) = iter"
    using assms(12,13) by (simp add: le_value_le_bytes)
  then have "release_and_return e arr rv rc (rt\<lparr>rt_machine := ?m\<rparr>) = Some (e, rv, rc, rt\<lparr>rt_machine := ?m\<lparr>heap := h2\<rparr>\<rparr>)"
    using assms(11,6) h2(1) by (simp add: release_and_return_def del: platform_free)
  then have "RunTimeEvaluator im call function_index rv rc rt = Some (e, rv, rc, rt\<lparr>rt_machine := ?m\<lparr>heap := h2\<rparr>\<rparr>)"
    using assms(1,2,6,9,10) assms(5) [of ?m] sz(3) by (simp add: RunTimeEvaluator_def Let_def nat_mult_distrib del: platform_alloc)
  ultimately show ?thesis
    using ab(2) h2(2) by auto
qed

end
