(* ===== verification/Time_Evaluator.thy ===== *)
theory Time_Evaluator
  imports Runtime_Api
begin

text \<open>
  The time evaluator of \<^verbatim>\<open>common/crt_runtime_api.c\<close> on a function of a registered module, as
  \<^verbatim>\<open>TVMFuncCall\<close> runs it: every call goes through the handle of the function, and what a call leaves in
  the result slots is what the next one is given.
\<close>

section \<open>The function that is timed\<close>

text \<open>
  \<open>k\<close> calls of \<open>c\<close> cycles each have passed between two states of the runtime: they wrote to the addresses
  \<open>W\<close> at most, and the blocks that the heap has handed out are the same.
\<close>

definition ran :: "addr set \<Rightarrow> nat \<Rightarrow> nat \<Rightarrow> runtime \<Rightarrow> runtime \<Rightarrow> bool" where
  "ran W c k rt rt' \<longleftrightarrow> registered_modules rt' = registered_modules rt \<and> g_time_evaluator_state rt' = g_time_evaluator_state rt
     \<and> rt_cycles rt' = rt_cycles rt + of_nat (k * c) \<and> (\<forall>x. x \<notin> W \<longrightarrow> ram (rt_machine rt') x = ram (rt_machine rt) x)
     \<and> (\<forall>live. pm_inv (heap (rt_machine rt)) live \<longrightarrow> pm_inv (heap (rt_machine rt')) live)"

lemma ran_refl: "ran W c 0 rt rt"
  by (simp add: ran_def)

lemma ran_trans: "ran W c j rt rt' \<Longrightarrow> ran W c k rt' rt'' \<Longrightarrow> ran W c (j + k) rt rt''"
  unfolding ran_def by (simp add: algebra_simps)

lemma ran_more: "ran W c k rt rt' \<Longrightarrow> W \<subseteq> V \<Longrightarrow> ran V c k rt rt'"
  unfolding ran_def by blast

text \<open>
  The operator: in every memory with \<open>K\<close> it succeeds in \<open>c\<close> cycles, keeps \<open>K\<close>, writes to \<open>W\<close> at most and
  leaves the timer and the tables of the runtime alone. It may write its result slots.
\<close>

definition timed_operator :: "packed_func \<Rightarrow> tvm_value list \<Rightarrow> int list \<Rightarrow> int \<Rightarrow> nat \<Rightarrow> (machine \<Rightarrow> bool) \<Rightarrow> addr set \<Rightarrow> bool" where
  "timed_operator f args tcs n c K W \<longleftrightarrow> (\<forall>rv rt. K (rt_machine rt) \<longrightarrow>
     (\<exists>rv' rc' rt'. f args tcs n rv kTVMNullptr rt = Some (0, rv', rc', rt') \<and> ran W c 1 rt rt' \<and> rt_timer rt' = rt_timer rt
        \<and> K (rt_machine rt')))"

text \<open>The same of a call with a handle, in a runtime with the modules \<open>mods\<close>.\<close>

definition timed_call :: "call \<Rightarrow> u32 \<Rightarrow> nat \<Rightarrow> (machine \<Rightarrow> bool) \<Rightarrow> addr set \<Rightarrow> func_registry option list \<Rightarrow> bool" where
  "timed_call call f c K W mods \<longleftrightarrow> (\<forall>rv rc rt. registered_modules rt = mods \<longrightarrow> K (rt_machine rt) \<longrightarrow>
     (\<exists>rv' rc' rt'. call f rv rc rt = Some (0, rv', rc', rt') \<and> ran W c 1 rt rt' \<and> rt_timer rt' = rt_timer rt \<and> K (rt_machine rt')))"

lemma timed_callD:
  assumes "timed_call call f c K W mods" and "registered_modules rt = mods" and "K (rt_machine rt)"
  obtains rv' rc' rt' where "call f rv rc rt = Some (0, rv', rc', rt')" "ran W c 1 rt rt'" "rt_timer rt' = rt_timer rt" "K (rt_machine rt')"
  using assms unfolding timed_call_def by blast

text \<open>A registered operator is called through its handle.\<close>

lemma timed_call_module:
  assumes "length mods = 6" and "i < 6" and "mods ! i = Some reg" and "k < 0x8000"
    and "TVMFuncRegistry_GetByIndex reg k = Some (kTvmErrorNoError, Some f)"
    and "timed_operator (call_pointer im f (Some reg)) args tcs n c K W"
  shows "timed_call (\<lambda>f. TVMFuncCall (Suc d) im f args tcs n) (EncodeFunctionHandle (of_nat i) k) c K W mods"
  unfolding timed_call_def
proof (intro allI impI)
  fix rv :: tvm_value and rc :: int and rt :: runtime
  assume rt: "registered_modules rt = mods" "K (rt_machine rt)"
  have "TVMFuncCall (Suc d) im (EncodeFunctionHandle (of_nat i) k) args tcs n rv rc rt
      = call_pointer im f (Some reg) args tcs n (set_handle rv 0) kTVMNullptr rt"
    by (rule module_call) (use rt(1) assms(1-5) in simp_all)
  then show "\<exists>rv' rc' rt'. TVMFuncCall (Suc d) im (EncodeFunctionHandle (of_nat i) k) args tcs n rv rc rt = Some (0, rv', rc', rt')
      \<and> ran W c 1 rt rt' \<and> rt_timer rt' = rt_timer rt \<and> K (rt_machine rt')"
    using assms(6) rt(2) unfolding timed_operator_def by presburger
qed

section \<open>The loops\<close>

lemma call_loop_timed:
  "timed_call call (func_to_time (g_time_evaluator_state rt)) c K W (registered_modules rt) \<Longrightarrow> K (rt_machine rt) \<Longrightarrow>
   \<exists>rv' rc' rt'. call_loop call j rv rc rt = Some (Inr (), rv', rc', rt')
     \<and> ran W c (nat (te_number (g_time_evaluator_state rt) - j)) rt rt' \<and> rt_timer rt' = rt_timer rt \<and> K (rt_machine rt')"
proof (induction "nat (te_number (g_time_evaluator_state rt) - j)" arbitrary: j rt rv rc)
  case 0
  then show ?case
    by (subst call_loop.simps) (simp add: ran_refl)
next
  case (Suc k)
  let ?n = "te_number (g_time_evaluator_state rt)"
  have j: "j < ?n" "nat (?n - j) = Suc k" "nat (?n - (j + 1)) = k"
    using Suc.hyps(2) by linarith+
  obtain rv1 rc1 rt1 where 1: "call (func_to_time (g_time_evaluator_state rt)) rv rc rt = Some (0, rv1, rc1, rt1)" "ran W c 1 rt rt1"
    "rt_timer rt1 = rt_timer rt" "K (rt_machine rt1)"
    by (rule timed_callD [OF Suc.prems(1) refl Suc.prems(2)])
  have st: "g_time_evaluator_state rt1 = g_time_evaluator_state rt" "registered_modules rt1 = registered_modules rt"
    using 1(2) by (simp_all add: ran_def)
  obtain rv' rc' rt' where r: "call_loop call (j + 1) rv1 rc1 rt1 = Some (Inr (), rv', rc', rt')" "ran W c k rt1 rt'"
    "rt_timer rt' = rt_timer rt1" "K (rt_machine rt')"
    using Suc.hyps(1) [of rt1 "j + 1" rv1 rc1] j(3) Suc.prems(1) 1(4) by (auto simp: st)
  have "ran W c (Suc k) rt rt'"
    using ran_trans [OF 1(2) r(2)] by simp
  then show ?case
    using 1(1,3) r(1,3,4) j by (subst call_loop.simps) simp
qed

text \<open>One pass when no minimal time is asked for.\<close>

lemma measure_loop_timed:
  assumes "timed_call call (func_to_time (g_time_evaluator_state rt)) c K W (registered_modules rt)" and "K (rt_machine rt)"
    and "\<not> g_utvm_timer_running (rt_timer rt)" and "nat (te_number (g_time_evaluator_state rt)) * c < 2 ^ 32"
  obtains rv' rc' rt' where "measure_loop call 0 0 z rv rc rt
      = Some (Inr (of_nat (nat (te_number (g_time_evaluator_state rt)) * c) / 100000000), rv', rc', rt')"
    "ran W c (nat (te_number (g_time_evaluator_state rt))) rt rt'" "\<not> g_utvm_timer_running (rt_timer rt')" "K (rt_machine rt')"
proof -
  let ?n = "nat (te_number (g_time_evaluator_state rt))"
  let ?t = "\<lparr>g_utvm_start_time_micros = rt_cycles rt, g_utvm_timer_running = True\<rparr>"
  let ?rt = "rt\<lparr>rt_timer := ?t\<rparr>"
  have start: "TVMPlatformTimerStart (rt_cycles rt) (rt_timer rt) = (kTvmErrorNoError, ?t)"
    using assms(3) by (simp add: TVMPlatformTimerStart_def)
  obtain rv' rc' rt1 where 1: "call_loop call 0 rv rc ?rt = Some (Inr (), rv', rc', rt1)" "ran W c ?n ?rt rt1" "rt_timer rt1 = ?t"
    "K (rt_machine rt1)"
    using call_loop_timed [of call ?rt c K W 0 rv rc] assms(1,2) by auto
  have "rt_cycles rt1 = rt_cycles rt + of_nat (?n * c)"
    using 1(2) by (simp add: ran_def)
  then have stop: "TVMPlatformTimerStop (rt_cycles rt1) (rt_timer rt1) = (kTvmErrorNoError, Some (of_nat (?n * c) / 100000000),
      \<lparr>g_utvm_start_time_micros = rt_cycles rt, g_utvm_timer_running = False\<rparr>)"
    using timer_stop_value [OF assms(4), of "rt_cycles rt"] 1(3) by simp
  let ?rt' = "rt1\<lparr>rt_timer := \<lparr>g_utvm_start_time_micros = rt_cycles rt, g_utvm_timer_running = False\<rparr>\<rparr>"
  have "measure_loop call 0 0 z rv rc rt = Some (Inr (of_nat (?n * c) / 100000000), rv', rc', ?rt')"
    by (subst measure_loop.simps)
      (simp add: start 1(1) stop TVMPlatformBeforeMeasurement_def TVMPlatformAfterMeasurement_def Let_def del: of_nat_mult)
  then show thesis
    by (rule that) (use 1(2,4) in \<open>simp_all add: ran_def\<close>)
qed

text \<open>The values are stored one behind the other.\<close>

lemma repeat_loop_timed:
  fixes im :: image and c N :: nat
  defines "img \<equiv> double_image im (of_nat c / 100000000)"
  assumes img: "length img = 8" and N: "1 \<le> N" "N * c < 2 ^ 32"
  shows "timed_call call (func_to_time (g_time_evaluator_state rt)) c K W (registered_modules rt) \<Longrightarrow> K (rt_machine rt) \<Longrightarrow>
    (\<And>m r. K m \<Longrightarrow> (\<And>x. x < iter \<or> iter + 8 * int k \<le> x \<Longrightarrow> r x = ram m x) \<Longrightarrow> K (m\<lparr>ram := r\<rparr>)) \<Longrightarrow>
    (\<And>x. x \<in> W \<Longrightarrow> x < iter \<or> iter + 8 * int k \<le> x) \<Longrightarrow> \<not> g_utvm_timer_running (rt_timer rt) \<Longrightarrow>
    te_number (g_time_evaluator_state rt) = int N \<Longrightarrow> te_cooldown_interval_ms (g_time_evaluator_state rt) \<le> 0 \<Longrightarrow>
    te_repeat (g_time_evaluator_state rt) = i + int k \<Longrightarrow>
    \<exists>rv' rc' rt'. repeat_loop im call 0 iter i rv rc rt = Some (Inr (), rv', rc', rt')
      \<and> ran (W \<union> {iter ..< iter + 8 * int k}) c (k * N) rt rt' \<and> \<not> g_utvm_timer_running (rt_timer rt')
      \<and> (\<forall>j < k. load_bytes (ram (rt_machine rt')) (iter + 8 * int j) 8 = img)"
proof (induction k arbitrary: i iter rt rv rc)
  case 0
  then show ?case
    by (subst repeat_loop.simps) (simp add: ran_refl)
next
  case (Suc k)
  note call = Suc.prems(1) and K = Suc.prems(2) and stable = Suc.prems(3) and W = Suc.prems(4)
  let ?st = "g_time_evaluator_state rt"
  have lt: "i < te_repeat ?st"
    using Suc.prems(8) by simp
  have n: "nat (te_number ?st) = N"
    using Suc.prems(6) by simp
  obtain rv1 rc1 rt1 where m: "measure_loop call 0 0 0 rv rc rt = Some (Inr (of_nat (N * c) / 100000000), rv1, rc1, rt1)"
    "ran W c N rt rt1" "\<not> g_utvm_timer_running (rt_timer rt1)" "K (rt_machine rt1)"
    by (rule measure_loop_timed [OF call K Suc.prems(5), unfolded n, OF N(2)])
  have st: "g_time_evaluator_state rt1 = ?st" "registered_modules rt1 = registered_modules rt"
    using m(2) by (simp_all add: ran_def)
  have mean: "of_nat (N * c) / (100000000 * of_int (te_number ?st)) = (of_nat c / 100000000 :: rat)"
    using N(1) Suc.prems(6) by simp
  let ?rt2 = "rt1\<lparr>rt_machine := (rt_machine rt1)\<lparr>ram := store_bytes (ram (rt_machine rt1)) iter img\<rparr>\<rparr>"
  have "K ((rt_machine rt1)\<lparr>ram := store_bytes (ram (rt_machine rt1)) iter img\<rparr>)"
    by (rule stable [OF m(4)]) (use img in \<open>auto simp: store_bytes_outside\<close>)
  then have K2: "K (rt_machine ?rt2)"
    by simp
  have s2: "g_time_evaluator_state ?rt2 = ?st" "registered_modules ?rt2 = registered_modules rt"
    by (simp_all add: st)
  have stable2: "K (m\<lparr>ram := r\<rparr>)" if "K m" "\<And>x. x < iter + 8 \<or> iter + 8 + 8 * int k \<le> x \<Longrightarrow> r x = ram m x" for m r
    by (rule stable [OF that(1)]) (use that(2) in auto)
  have W2: "x < iter + 8 \<or> iter + 8 + 8 * int k \<le> x" if "x \<in> W" for x
    using W [OF that] by auto
  obtain rv' rc' rt' where r: "repeat_loop im call 0 (iter + 8) (i + 1) rv1 rc1 ?rt2 = Some (Inr (), rv', rc', rt')"
    "ran (W \<union> {iter + 8 ..< iter + 8 + 8 * int k}) c (k * N) ?rt2 rt'" "\<not> g_utvm_timer_running (rt_timer rt')"
    "\<forall>j < k. load_bytes (ram (rt_machine rt')) (iter + 8 + 8 * int j) 8 = img"
    using Suc.IH [of ?rt2 "iter + 8" "i + 1" rv1 rc1] call K2 stable2 W2 m(3) Suc.prems(6-8) unfolding s2 by auto
  have run: "repeat_loop im call 0 iter i rv rc rt = Some (Inr (), rv', rc', rt')"
    using lt Suc.prems(7) m(1) r(1)
    by (subst repeat_loop.simps) (simp add: Let_def st img_def mean del: of_nat_mult)
  have "ran (W \<union> {iter ..< iter + 8 * int (Suc k)}) c N rt ?rt2"
    using m(2) img unfolding ran_def by (auto simp: store_bytes_outside)
  moreover have "ran (W \<union> {iter ..< iter + 8 * int (Suc k)}) c (k * N) ?rt2 rt'"
    by (rule ran_more [OF r(2)]) auto
  ultimately have "ran (W \<union> {iter ..< iter + 8 * int (Suc k)}) c (N + k * N) rt rt'"
    by (rule ran_trans)
  moreover have "load_bytes (ram (rt_machine rt')) iter 8 = img"
  proof -
    have "load_bytes (ram (rt_machine rt')) iter 8 = load_bytes (ram (rt_machine ?rt2)) iter 8"
    proof (rule load_bytes_cong)
      fix x
      assume "iter \<le> x" "x < iter + int 8"
      then have "x \<notin> W \<union> {iter + 8 ..< iter + 8 + 8 * int k}"
        using W [of x] by auto
      then show "ram (rt_machine rt') x = ram (rt_machine ?rt2) x"
        using r(2) unfolding ran_def by blast
    qed
    then show ?thesis
      using load_store_same [of "ram (rt_machine rt1)" iter img] img by simp
  qed
  then have "load_bytes (ram (rt_machine rt')) (iter + 8 * int j) 8 = img" if "j < Suc k" for j
    using that r(4) by (cases j) (simp_all add: algebra_simps)
  ultimately show ?case
    using run r(3) by auto
qed

section \<open>The evaluator\<close>

text \<open>
  C28. A function of a registered module that takes \<open>c\<close> cycles is timed through the handle of the time
  evaluator, \<open>R\<close> times in runs of \<open>N\<close> calls, without a minimal time or a cooldown, on a heap with room:
  the result is a byte array whose bytes are \<open>R\<close> times the image of \<open>c / 10 ^ 8\<close> seconds, the time of one
  call at 100 MHz. The function has been called exactly \<open>1 + R * N\<close> times, the blocks of the array are the
  only ones the heap has handed out more than before, nothing but these blocks and what the function
  writes has changed in memory, and the timer is free again.
\<close>
theorem evaluation_reports_mean:
  assumes eval: "te_function_index (g_time_evaluator_state rt) = k" "k < 0x8000"
    and func: "func_to_time (g_time_evaluator_state rt) = EncodeFunctionHandle (of_nat i) j" "i < 6" "j < 0x8000"
      "length (registered_modules rt) = 6" "registered_modules rt ! i = Some reg"
      "TVMFuncRegistry_GetByIndex reg j = Some (kTvmErrorNoError, Some f)"
    and timing: "te_number (g_time_evaluator_state rt) = int N" "1 \<le> N" "N * c < 2 ^ 32"
      "te_repeat (g_time_evaluator_state rt) = int R" "1 \<le> R" "R < 2 ^ 28" "te_min_repeat_ms (g_time_evaluator_state rt) = 0"
      "te_cooldown_interval_ms (g_time_evaluator_state rt) \<le> 0" "\<not> g_utvm_timer_running (rt_timer rt)"
    and image: "length (double_image im (of_nat c / 100000000)) = 8"
    and heap: "pm_inv (heap (rt_machine rt)) live" "page_size (heap (rt_machine rt)) \<le> 2 ^ 31"
      "TVMPlatformMemoryAllocate (heap (rt_machine rt)) 8 = Some (kTvmErrorNoError, arr, h)"
      "TVMPlatformMemoryAllocate h (8 * R) = Some (kTvmErrorNoError, iter, h')" "0 \<le> iter" "iter < 2 ^ 32"
    and op: "timed_operator (call_pointer im f (Some reg)) args tcs n c K W"
      "W \<inter> ({arr ..< arr + 8} \<union> {iter ..< iter + 8 * int R}) = {}" "K ((rt_machine rt)\<lparr>heap := h'\<rparr>)"
      "\<And>m r. K m \<Longrightarrow> (\<And>x. x \<notin> {arr ..< arr + 8} \<union> {iter ..< iter + 8 * int R} \<Longrightarrow> r x = ram m x) \<Longrightarrow> K (m\<lparr>ram := r\<rparr>)"
  shows "\<exists>rv' rt' a b. TVMFuncCall (Suc (Suc d)) im (EncodeFunctionHandle kTimeEvaluatorModuleIndex k) args tcs n rv rc rt
      = Some (0, rv', kTVMBytes, rt') \<and> v_handle rv' = of_int arr
    \<and> le_value (load_bytes (ram (rt_machine rt')) arr 4) = nat iter
    \<and> le_value (load_bytes (ram (rt_machine rt')) (arr + 4) 4) = 8 * R
    \<and> (\<forall>i < R. load_bytes (ram (rt_machine rt')) (iter + 8 * int i) 8 = double_image im (of_nat c / 100000000))
    \<and> rt_cycles rt' = rt_cycles rt + of_nat ((1 + R * N) * c) \<and> \<not> g_utvm_timer_running (rt_timer rt')
    \<and> live arr = None \<and> live iter = None \<and> arr \<noteq> iter \<and> pm_inv (heap (rt_machine rt')) (live(arr \<mapsto> a, iter \<mapsto> b))
    \<and> (\<forall>x. x \<notin> W \<union> {arr ..< arr + 8} \<union> {iter ..< iter + 8 * int R} \<longrightarrow> ram (rt_machine rt') x = ram (rt_machine rt) x)"
proof -
  let ?call = "\<lambda>f. TVMFuncCall (Suc d) im f args tcs n" and ?fh = "func_to_time (g_time_evaluator_state rt)"
  let ?r1 = "store_bytes (ram (rt_machine rt)) arr (le_bytes 4 (nat iter))"
  let ?r2 = "store_bytes ?r1 (arr + 4) (le_bytes 4 (8 * R))"
  let ?rt2 = "rt\<lparr>rt_machine := (rt_machine rt)\<lparr>heap := h', ram := ?r2\<rparr>\<rparr>"
  have sz: "8 * R < 2 ^ 31" "0 < 8 * R" "to_size (8 * int R) = 8 * R"
    using timing(5,6) by (simp_all add: nat_less_iff zless_nat_eq_int_zless)
  obtain a b where ab: "pm_inv h' (live(arr \<mapsto> a, iter \<mapsto> b))" "live arr = None" "live iter = None" "arr \<noteq> iter"
    "apart iter (8 * R) arr 8"
    by (rule two_blocks_apart [OF heap(1,2) _ _ sz(2,1) heap(3,4)]) simp_all
  have tc: "timed_call ?call ?fh c K W (registered_modules rt)"
    unfolding func(1) by (rule timed_call_module [OF func(4,2,5,3,6) op(1)])
  have "K (((rt_machine rt)\<lparr>heap := h'\<rparr>)\<lparr>ram := ?r2\<rparr>)"
    by (rule op(4) [OF op(3)]) (auto simp: store_bytes_outside)
  then have K2: "K (rt_machine ?rt2)"
    by simp
  obtain rv1 rc1 rt3 where 1: "?call ?fh rv rc ?rt2 = Some (0, rv1, rc1, rt3)" "ran W c 1 ?rt2 rt3" "rt_timer rt3 = rt_timer ?rt2"
    "K (rt_machine rt3)"
    by (rule timed_callD [OF tc _ K2]) auto
  have s3: "g_time_evaluator_state rt3 = g_time_evaluator_state rt" "registered_modules rt3 = registered_modules rt"
    using 1(2) by (simp_all add: ran_def)
  have stable: "K (m\<lparr>ram := r\<rparr>)" if "K m" "\<And>x. x < iter \<or> iter + 8 * int R \<le> x \<Longrightarrow> r x = ram m x" for m r
    by (rule op(4) [OF that(1)]) (rule that(2), auto)
  have W: "x < iter \<or> iter + 8 * int R \<le> x" if "x \<in> W" for x
    using that op(2) by force
  obtain rv2 rc2 rt4 where 2: "repeat_loop im ?call 0 iter 0 rv1 rc1 rt3 = Some (Inr (), rv2, rc2, rt4)"
    "ran (W \<union> {iter ..< iter + 8 * int R}) c (R * N) rt3 rt4" "\<not> g_utvm_timer_running (rt_timer rt4)"
    "\<forall>i < R. load_bytes (ram (rt_machine rt4)) (iter + 8 * int i) 8 = double_image im (of_nat c / 100000000)"
    using repeat_loop_timed [OF image timing(2,3), of ?call rt3 K W iter R 0 rv1 rc1] tc 1(3,4) stable W timing(1,4,8,9)
    unfolding s3 by auto
  have all: "ran (W \<union> {iter ..< iter + 8 * int R}) c (1 + R * N) ?rt2 rt4"
    by (rule ran_trans [OF ran_more [OF 1(2)] 2(2)]) auto
  have keep: "ram (rt_machine rt4) x = ?r2 x" if "x \<notin> W \<union> {iter ..< iter + 8 * int R}" for x
    using all that by (simp add: ran_def)
  have arr: "x \<notin> W \<union> {iter ..< iter + 8 * int R}" if "arr \<le> x" "x < arr + 8" for x
    using that op(2) ab(5) by (force simp: apart_def)
  have dec: "DecodeFunctionHandle (EncodeFunctionHandle kTimeEvaluatorModuleIndex k) rt = Some (0, Some (kTimeEvaluatorModuleIndex, k), rt)"
    by (rule DecodeFunctionHandle_evaluator [OF eval(2)])
  have "RunTimeEvaluator im ?call k rv rc rt = Some (0, set_handle rv2 (of_int arr), kTVMBytes, rt4)"
    using eval(1) timing(4,7) heap(3,4) sz(3) 1(1) 2(1) s3(1)
    by (simp add: RunTimeEvaluator_def Let_def nat_mult_distrib del: platform_alloc TVMFuncCall.simps)
  then have "TVMFuncCall (Suc (Suc d)) im (EncodeFunctionHandle kTimeEvaluatorModuleIndex k) args tcs n rv rc rt
      = Some (0, set_handle rv2 (of_int arr), kTVMBytes, rt4)"
    by (subst TVMFuncCall.simps) (simp add: dec del: TVMFuncCall.simps)
  moreover have "load_bytes (ram (rt_machine rt4)) arr 4 = le_bytes 4 (nat iter)"
  proof -
    have "load_bytes (ram (rt_machine rt4)) arr 4 = load_bytes ?r2 arr 4"
      by (rule load_bytes_cong) (rule keep, rule arr, auto)
    also have "\<dots> = load_bytes ?r1 arr 4"
      by (rule load_store_apart) simp
    finally show ?thesis
      using load_store_same [of "ram (rt_machine rt)" arr "le_bytes 4 (nat iter)"] by simp
  qed
  moreover have "load_bytes (ram (rt_machine rt4)) (arr + 4) 4 = le_bytes 4 (8 * R)"
  proof -
    have "load_bytes (ram (rt_machine rt4)) (arr + 4) 4 = load_bytes ?r2 (arr + 4) 4"
      by (rule load_bytes_cong) (rule keep, rule arr, auto)
    then show ?thesis
      using load_store_same [of ?r1 "arr + 4" "le_bytes 4 (8 * R)"] by simp
  qed
  moreover have "nat iter < 256 ^ 4"
    using heap(5,6) by simp
  moreover have "rt_cycles rt4 = rt_cycles rt + of_nat ((1 + R * N) * c)" "pm_inv (heap (rt_machine rt4)) (live(arr \<mapsto> a, iter \<mapsto> b))"
    using all ab(1) by (simp_all add: ran_def)
  moreover have "ram (rt_machine rt4) x = ram (rt_machine rt) x"
    if "x \<notin> W \<union> {arr ..< arr + 8} \<union> {iter ..< iter + 8 * int R}" for x
  proof -
    have "ram (rt_machine rt4) x = ?r2 x"
      using keep that by simp
    then show ?thesis
      using that by (auto simp: store_bytes_outside)
  qed
  ultimately show ?thesis
    using sz(1) 2(3,4) ab(2-4)
    by (intro exI [of _ "set_handle rv2 (of_int arr)"] exI [of _ rt4] exI [of _ a] exI [of _ b]) (simp add: le_value_le_bytes)
qed

text \<open>
  A module with one function, which takes 50 cycles, writes one byte and returns 3; the time evaluator
  has been asked to time it once in a run of two calls.
\<close>

definition timing_image :: image where
  "timing_image = bare_image\<lparr>ops := (\<lambda>f reg args tcs n rv rc rt. Some (0, 3, kTVMArgInt,
     rt\<lparr>rt_machine := (rt_machine rt)\<lparr>ram := (ram (rt_machine rt))(9 := 1)\<rparr>, rt_cycles := rt_cycles rt + 50\<rparr>))\<rparr>"

definition timing_runtime :: runtime where
  "timing_runtime = (bare_runtime (Some (mr_registry one_registry) # replicate 5 None) 0)\<lparr>g_time_evaluator_state :=
     \<lparr>te_function_index = 1, func_to_time = EncodeFunctionHandle 0 0, te_device = \<lparr>device_type = 1, device_id = 0\<rparr>,
      te_number = 2, te_repeat = 1, te_min_repeat_ms = 0, te_limit_zero_time_iterations = 1, te_cooldown_interval_ms = 0,
      te_repeats_to_cooldown = 1\<rparr>\<rparr>"

lemma two_pages_eight:
  "\<exists>h h'. PageMemoryManager_Allocate (snd (snd (PageMemoryManagerCreate 4096 772 8))) 8 = Some (kTvmErrorNoError, 4096, h)
     \<and> PageMemoryManager_Allocate h 8 = Some (kTvmErrorNoError, 4352, h')"
  unfolding fresh_two_pages by (simp add: heap_eval)

lemma evaluation_reports_mean_witness:
  "\<exists>rv' rt'. TVMFuncCall 2 timing_image (EncodeFunctionHandle kTimeEvaluatorModuleIndex 1) [] [] 0 5 0 timing_runtime
      = Some (0, rv', kTVMBytes, rt') \<and> v_handle rv' = of_int 4096
    \<and> le_value (load_bytes (ram (rt_machine rt')) 4096 4) = nat 4352
    \<and> le_value (load_bytes (ram (rt_machine rt')) (4096 + 4) 4) = 8 * 1
    \<and> load_bytes (ram (rt_machine rt')) (4352 + 8 * int 0) 8 = double_image timing_image (of_nat 50 / 100000000)
    \<and> rt_cycles rt' = rt_cycles timing_runtime + of_nat ((1 + 1 * 2) * 50) \<and> \<not> g_utvm_timer_running (rt_timer rt')"
proof -
  obtain h h' where h: "PageMemoryManager_Allocate (heap (rt_machine timing_runtime)) 8 = Some (kTvmErrorNoError, 4096, h)"
    "PageMemoryManager_Allocate h 8 = Some (kTvmErrorNoError, 4352, h')"
    using two_pages_eight by (auto simp: timing_runtime_def bare_runtime_def)
  have a: "TVMPlatformMemoryAllocate (heap (rt_machine timing_runtime)) 8 = Some (kTvmErrorNoError, 4096, h)"
    "TVMPlatformMemoryAllocate h (8 * 1) = Some (kTvmErrorNoError, 4352, h')"
    using h by simp_all
  have inv: "pm_inv (heap (rt_machine timing_runtime)) Map.empty" "page_size (heap (rt_machine timing_runtime)) \<le> 2 ^ 31"
    using fresh_pm_inv [of 772 8 4096] by (simp_all add: timing_runtime_def bare_runtime_def fresh_simps)
  have op: "timed_operator (call_pointer timing_image 0x1234 (Some (mr_registry one_registry))) [] [] 0 50 (\<lambda>_. True) {9}"
    by (simp add: timed_operator_def ran_def call_pointer_def timing_image_def bare_image_def)
  have st: "te_function_index (g_time_evaluator_state timing_runtime) = 1" "(1 :: u16) < 0x8000"
    "func_to_time (g_time_evaluator_state timing_runtime) = EncodeFunctionHandle (of_nat 0) 0" "(0 :: nat) < 6" "(0 :: u16) < 0x8000"
    "length (registered_modules timing_runtime) = 6" "registered_modules timing_runtime ! 0 = Some (mr_registry one_registry)"
    "TVMFuncRegistry_GetByIndex (mr_registry one_registry) 0 = Some (kTvmErrorNoError, Some 0x1234)"
    "te_number (g_time_evaluator_state timing_runtime) = int 2" "(1 :: nat) \<le> 2" "2 * 50 < (2 :: nat) ^ 32"
    "te_repeat (g_time_evaluator_state timing_runtime) = int 1" "(1 :: nat) \<le> 1" "(1 :: nat) < 2 ^ 28"
    "te_min_repeat_ms (g_time_evaluator_state timing_runtime) = 0" "te_cooldown_interval_ms (g_time_evaluator_state timing_runtime) \<le> 0"
    "\<not> g_utvm_timer_running (rt_timer timing_runtime)" "length (double_image timing_image (of_nat 50 / 100000000)) = 8"
    by (simp_all add: timing_runtime_def bare_runtime_def timing_image_def bare_image_def one_registry_lookup)
  have two: "Suc (Suc 0) = 2"
    by simp
  from evaluation_reports_mean [OF st inv a _ _ op, of 0 5 0] show ?thesis
    unfolding two by auto
qed

end
