(* ===== verification/Packed_Func.thy ===== *)
theory Packed_Func
  imports Runtime_Api Json_Text
begin

text \<open>
  Packed functions with their arguments, \<^verbatim>\<open>common/packed_func.c\<close>: the text of a data type, argument lists
  of fixed length, and functions looked up by name.
\<close>

section \<open>Data types as text\<close>

definition lit :: "string \<Rightarrow> u8 list" where
  "lit s = map of_char s"

text \<open>
  \<^verbatim>\<open>strtoul\<close> of the C library in base 10 with a 32-bit \<^verbatim>\<open>long\<close>, on the characters before the
  terminator: the value, clamped and then negated after a minus sign, and the number of characters read.
\<close>

definition strtoul :: "u8 list \<Rightarrow> nat \<times> nat" where
  "strtoul s =
     (let ws = length (takeWhile isspace s);
          r = drop ws s;
          neg = (r \<noteq> [] \<and> hd r = 45);
          sgn = (if r \<noteq> [] \<and> (hd r = 45 \<or> hd r = 43) then 1 else 0);
          ds = takeWhile isdigit (drop sgn r);
          v = digits_value ds
      in if ds = [] then (0, 0)
         else if v > 2 ^ 32 - 1 then (2 ^ 32 - 1, ws + sgn + length ds)
         else (nat ((if neg then - v else v) mod 2 ^ 32), ws + sgn + length ds))"

text \<open>
  The argument holds the characters before the terminator. The type of an unknown name is not set: it is
  the old content \<open>junk\<close> of the variable. The messages are not part of the result.
\<close>

definition dtype_name :: "u8 \<Rightarrow> u8 list \<Rightarrow> dl_data_type \<times> nat option" where
  "dtype_name junk s =
     (if take 3 s = lit ''int'' then (\<lparr>code = of_nat kDLInt, bits = 32, lanes = 1\<rparr>, Some 3)
      else if take 4 s = lit ''uint'' then (\<lparr>code = of_nat kDLUInt, bits = 32, lanes = 1\<rparr>, Some 4)
      else if take 5 s = lit ''float'' then (\<lparr>code = of_nat kDLFloat, bits = 32, lanes = 1\<rparr>, Some 5)
      else if take 6 s = lit ''bfloat'' then (\<lparr>code = of_nat kDLBfloat, bits = 32, lanes = 1\<rparr>, Some 6)
      else if take 6 s = lit ''handle'' then (\<lparr>code = of_int kTVMOpaqueHandle, bits = 64, lanes = 1\<rparr>, Some 6)
      else if s = lit ''bool'' then (\<lparr>code = of_nat kDLUInt, bits = 1, lanes = 1\<rparr>, None)
      else (\<lparr>code = junk, bits = 32, lanes = 1\<rparr>, Some 0))"

definition String2DLDataType :: "u8 \<Rightarrow> u8 list \<Rightarrow> dl_data_type" where
  "String2DLDataType junk s =
     (if length s = 0 then \<lparr>code = of_int kTVMOpaqueHandle, bits = 0, lanes = 0\<rparr>
      else case dtype_name junk s of
        (t, None) \<Rightarrow> t
      | (t, Some scan) \<Rightarrow>
          let (v, n) = strtoul (drop scan s);
              b = of_nat v;
              t = (if b \<noteq> 0 then t\<lparr>bits := b\<rparr> else t);
              xdelim = scan + n
          in if xdelim < length s \<and> s ! xdelim = 120
             then t\<lparr>lanes := of_nat (fst (strtoul (drop (xdelim + 1) s)))\<rparr>
             else t)"

section \<open>Arguments\<close>

definition TVM_CRT_MAX_ARGS :: nat where "TVM_CRT_MAX_ARGS = 10"

record tvm_args =
  arg_values :: "tvm_value list"
  arg_tcodes :: "int list"
  values_count :: nat

definition zero_args :: tvm_args where
  "zero_args = \<lparr>arg_values = replicate TVM_CRT_MAX_ARGS 0, arg_tcodes = replicate TVM_CRT_MAX_ARGS 0, values_count = 0\<rparr>"

fun TVMArgs_fill :: "tvm_args \<Rightarrow> tvm_value list \<Rightarrow> int list \<Rightarrow> nat \<Rightarrow> nat \<Rightarrow> tvm_args option" where
  "TVMArgs_fill args values tcodes idx 0 = Some args"
| "TVMArgs_fill args values tcodes idx (Suc n) = do {
     v \<leftarrow> arr_get values idx;
     vs \<leftarrow> arr_set (arg_values args) idx v;
     t \<leftarrow> arr_get tcodes idx;
     ts \<leftarrow> arr_set (arg_tcodes args) idx t;
     TVMArgs_fill (args\<lparr>arg_values := vs, arg_tcodes := ts\<rparr>) values tcodes (idx + 1) n
   }"

definition TVMArgs_Create :: "tvm_value list \<Rightarrow> int list \<Rightarrow> nat \<Rightarrow> tvm_args option" where
  "TVMArgs_Create values tcodes count = do {
     args \<leftarrow> TVMArgs_fill zero_args values tcodes 0 count;
     Some (args\<lparr>values_count := count\<rparr>)
   }"

text \<open>A wrong index or type stops the program.\<close>

definition TVMArgs_AsModuleHandle :: "tvm_args \<Rightarrow> nat \<Rightarrow> u32 option" where
  "TVMArgs_AsModuleHandle args index = do {
     CHECK (index < values_count args);
     t \<leftarrow> arr_get (arg_tcodes args) index;
     CHECK (t = kTVMModuleHandle);
     v \<leftarrow> arr_get (arg_values args) index;
     Some (v_handle v)
   }"

section \<open>Packed functions\<close>

text \<open>The two members that hold functions always hold the same two: they are called directly.\<close>

record tvm_packed_func =
  pf_name :: "u8 list"
  pf_fexec :: u32
  pf_args :: tvm_args
  pf_ret_value :: tvm_args

definition TVMPackedFunc_SetArgs :: "tvm_packed_func \<Rightarrow> tvm_args \<Rightarrow> tvm_packed_func" where
  "TVMPackedFunc_SetArgs pf args = pf\<lparr>pf_args := args\<rparr>"

text \<open>A name is given with its terminator; the copy holds 199 characters.\<close>

definition pf_set_name :: "tvm_packed_func \<Rightarrow> u8 list \<Rightarrow> tvm_packed_func" where
  "pf_set_name pf name = pf\<lparr>pf_name := take 199 (butlast name)\<rparr>"

definition TVMPackedFunc_InitGlobalFunc ::
    "tvm_packed_func \<Rightarrow> u8 list \<Rightarrow> tvm_args \<Rightarrow> runtime \<Rightarrow> (int \<times> tvm_packed_func) option" where
  "TVMPackedFunc_InitGlobalFunc pf name args rt = do {
     (status, out) \<leftarrow> TVMFuncGetGlobal name rt;
     let pf = (case out of None \<Rightarrow> pf | Some h \<Rightarrow> pf\<lparr>pf_fexec := h\<rparr>);
     if status \<noteq> kTvmErrorNoError then Some (tvm_crt_error_code status, pf)
     else Some (0, TVMPackedFunc_SetArgs (pf_set_name pf name) args)
   }"

definition TVMPackedFunc_InitModuleFunc ::
    "tvm_packed_func \<Rightarrow> u32 \<Rightarrow> u8 list \<Rightarrow> tvm_args \<Rightarrow> runtime \<Rightarrow> (int \<times> tvm_packed_func \<times> runtime) option" where
  "TVMPackedFunc_InitModuleFunc pf hdl name args rt = do {
     (status, out, rt) \<leftarrow> TVMModGetFunction hdl name False rt;
     let pf = (case out of None \<Rightarrow> pf | Some h \<Rightarrow> pf\<lparr>pf_fexec := h\<rparr>);
     if status \<noteq> 0 then Some (status, pf, rt)
     else Some (0, TVMPackedFunc_SetArgs (pf_set_name pf name) args, rt)
   }"

definition TVMPackedFunc_Call :: "nat \<Rightarrow> image \<Rightarrow> tvm_packed_func \<Rightarrow> runtime \<Rightarrow> (int \<times> tvm_packed_func \<times> runtime) option" where
  "TVMPackedFunc_Call depth im pf rt = do {
     tcs \<leftarrow> arr_set (arg_tcodes (pf_ret_value pf)) 0 kTVMNullptr;
     rv \<leftarrow> arr_get (arg_values (pf_ret_value pf)) 0;
     (r, rv, rc, rt) \<leftarrow> TVMFuncCall depth im (pf_fexec pf) (arg_values (pf_args pf)) (arg_tcodes (pf_args pf))
       (int (values_count (pf_args pf))) rv kTVMNullptr rt;
     Some (r, pf\<lparr>pf_ret_value := \<lparr>arg_values = (arg_values (pf_ret_value pf))[0 := rv], arg_tcodes = tcs[0 := rc],
       values_count = 1\<rparr>\<rparr>, rt)
   }"

section \<open>Reading a data type\<close>

lemma lit_names:
  "lit ''int'' = [105, 110, 116]" "lit ''uint'' = [117, 105, 110, 116]" "lit ''float'' = [102, 108, 111, 97, 116]"
  "lit ''bfloat'' = [98, 102, 108, 111, 97, 116]" "lit ''handle'' = [104, 97, 110, 100, 108, 101]" "lit ''bool'' = [98, 111, 111, 108]"
  by (simp_all add: lit_def)

lemma strtoul_dec:
  assumes "t = [] \<or> \<not> isdigit (hd t)" and "n < 2 ^ 32"
  shows "strtoul (dec n @ t) = (n, length (dec n))"
proof -
  obtain d where d: "d < 10" "hd (dec n) = of_nat (48 + d)" and ne: "dec n \<noteq> []"
    using dec_facts by blast
  have r: "dec n @ t = hd (dec n) # (tl (dec n) @ t)"
    using ne by simp
  have ws: "takeWhile isspace (dec n @ t) = []"
    unfolding r using digit_facts(3) [OF d(1)] d(2) by simp
  have sg: "hd (dec n) \<noteq> 45" "hd (dec n) \<noteq> 43"
    using digit_facts(4) [OF d(1)] d(2) ne by auto
  have ds: "takeWhile isdigit (dec n @ t) = dec n"
    using dec_facts [of n] assms(1) takeWhile_stop [of "dec n" isdigit "hd t" "tl t"] by (cases t) auto
  have v: "digits_value (dec n) = int n"
    using dec_facts by blast
  show ?thesis
    using assms(2) ne by (simp add: strtoul_def Let_def ws sg ds v)
qed

lemma dec_first: "\<exists>c cs. dec n = c # cs \<and> isdigit c"
  using dec_facts [of n] by (cases "dec n") auto

lemma dtype_name_known:
  assumes "(k, c) \<in> {(''int'', kDLInt), (''uint'', kDLUInt), (''float'', kDLFloat), (''bfloat'', kDLBfloat)}"
  shows "dtype_name junk (lit k @ t) = (\<lparr>code = of_nat c, bits = 32, lanes = 1\<rparr>, Some (length (lit k)))" and "lit k \<noteq> []"
proof -
  have "k = ''int'' \<and> c = kDLInt \<or> k = ''uint'' \<and> c = kDLUInt \<or> k = ''float'' \<and> c = kDLFloat \<or> k = ''bfloat'' \<and> c = kDLBfloat"
    using assms by simp
  then show "dtype_name junk (lit k @ t) = (\<lparr>code = of_nat c, bits = 32, lanes = 1\<rparr>, Some (length (lit k)))" "lit k \<noteq> []"
    by (elim disjE conjE; simp add: dtype_name_def lit_names)+
qed

lemma dtype_read:
  assumes "(k, c) \<in> {(''int'', kDLInt), (''uint'', kDLUInt), (''float'', kDLFloat), (''bfloat'', kDLBfloat)}"
    and "b < 2 ^ 32" and "l < 2 ^ 32"
  shows "String2DLDataType junk (lit k @ dec b @ 120 # dec l)
      = \<lparr>code = of_nat c, bits = (if b mod 256 = 0 then 32 else of_nat b), lanes = of_nat l\<rparr>
    \<and> String2DLDataType junk (lit k @ dec b)
      = \<lparr>code = of_nat c, bits = (if b mod 256 = 0 then 32 else of_nat b), lanes = 1\<rparr>"
proof -
  note name = dtype_name_known [OF assms(1)]
  have x: "\<not> isdigit 120"
    by (simp add: isdigit_def)
  have "strtoul (dec b @ 120 # dec l) = (b, length (dec b))" "strtoul (dec b) = (b, length (dec b))"
    "strtoul (dec l) = (l, length (dec l))"
    using strtoul_dec [of "120 # dec l" b] strtoul_dec [of "[]" b] strtoul_dec [of "[]" l] assms(2,3) x by simp_all
  moreover have "(of_nat b :: u8) = 0 \<longleftrightarrow> b mod 256 = 0"
    by (simp add: word_unat_eq_iff unat_of_nat)
  moreover have "drop (Suc (length (dec b))) (dec b @ 120 # dec l) = dec l" "(dec b @ 120 # dec l) ! length (dec b) = 120"
    by simp_all
  ultimately show ?thesis
    using name(2) by (simp add: String2DLDataType_def name(1) nth_append drop_append Suc_diff_le)
qed

text \<open>
  The text of a numeric type with the number of bits and of lanes is read back, for all counts of
  the C type of the fields; larger counts lose their upper bits, and bits that are a multiple of 256
  count as not given.
\<close>
lemma dtype_text_read:
  assumes "(k, c) \<in> {(''int'', kDLInt), (''uint'', kDLUInt), (''float'', kDLFloat), (''bfloat'', kDLBfloat)}"
    and "b < 2 ^ 32" and "l < 2 ^ 32"
  shows "String2DLDataType junk (lit k @ dec b @ 120 # dec l)
      = \<lparr>code = of_nat c, bits = (if b mod 256 = 0 then 32 else of_nat b), lanes = of_nat l\<rparr>
    \<and> String2DLDataType junk (lit k @ dec b)
      = \<lparr>code = of_nat c, bits = (if b mod 256 = 0 then 32 else of_nat b), lanes = 1\<rparr>"
  by (rule dtype_read [OF assms])

section \<open>Calling a packed function\<close>

lemma TVMArgs_fill_ok:
  "length pre + length vs \<le> length (arg_values args) \<Longrightarrow> length pre + length vs \<le> length (arg_tcodes args) \<Longrightarrow>
   length ts = length vs \<Longrightarrow> length pret = length pre \<Longrightarrow>
   take (length pre) (arg_values args) = pre \<Longrightarrow> take (length pre) (arg_tcodes args) = pret \<Longrightarrow>
   \<exists>args'. TVMArgs_fill args (pre @ vs) (pret @ ts) (length pre) (length vs) = Some args'
     \<and> take (length pre + length vs) (arg_values args') = pre @ vs \<and> take (length pre + length vs) (arg_tcodes args') = pret @ ts
     \<and> length (arg_values args') = length (arg_values args) \<and> length (arg_tcodes args') = length (arg_tcodes args)
     \<and> values_count args' = values_count args"
proof (induction vs arbitrary: pre pret ts args)
  case Nil
  then show ?case by simp
next
  case (Cons v vs)
  then obtain t ts' where ts: "ts = t # ts'" "length ts' = length vs"
    by (cases ts) auto
  let ?args = "args\<lparr>arg_values := (arg_values args)[length pre := v], arg_tcodes := (arg_tcodes args)[length pre := t]\<rparr>"
  have tk: "take (length (pre @ [v])) (arg_values ?args) = pre @ [v]" "take (length (pre @ [v])) (arg_tcodes ?args) = pret @ [t]"
    using Cons.prems by (simp_all add: take_Suc_conv_app_nth)
  obtain args' where args': "TVMArgs_fill ?args ((pre @ [v]) @ vs) ((pret @ [t]) @ ts') (length (pre @ [v])) (length vs) = Some args'"
    "take (length (pre @ [v]) + length vs) (arg_values args') = (pre @ [v]) @ vs"
    "take (length (pre @ [v]) + length vs) (arg_tcodes args') = (pret @ [t]) @ ts'"
    "length (arg_values args') = length (arg_values args)" "length (arg_tcodes args') = length (arg_tcodes args)"
    "values_count args' = values_count args"
    using Cons.IH [of "pre @ [v]" ?args ts' "pret @ [t]"] Cons.prems ts(2) tk by auto
  then show ?case
    using Cons.prems ts by (auto simp: nth_append)
qed

lemma TVMArgs_Create_ok:
  assumes "length vs \<le> 10" and "length ts = length vs"
  obtains args where "TVMArgs_Create vs ts (length vs) = Some args" "take (length vs) (arg_values args) = vs"
    "take (length vs) (arg_tcodes args) = ts" "values_count args = length vs" "length (arg_values args) = 10"
proof -
  obtain args where "TVMArgs_fill zero_args vs ts 0 (length vs) = Some args" "take (length vs) (arg_values args) = vs"
    "take (length vs) (arg_tcodes args) = ts" "length (arg_values args) = 10"
    using TVMArgs_fill_ok [of "[]" vs zero_args ts "[]"] assms by (auto simp: zero_args_def TVM_CRT_MAX_ARGS_def)
  then show thesis
    by (intro that [of "args\<lparr>values_count := length vs\<rparr>"]) (simp_all add: TVMArgs_Create_def)
qed

lemma TVMArgs_fill_overflow:
  "idx \<le> length (arg_values args) \<Longrightarrow> length (arg_values args) < idx + n \<Longrightarrow> TVMArgs_fill args values tcodes idx n = None"
proof (induction n arbitrary: idx args)
  case (Suc n)
  show ?case
  proof (cases "idx < length (arg_values args)")
    case True
    have "TVMArgs_fill (args\<lparr>arg_values := vs, arg_tcodes := ts\<rparr>) values tcodes (idx + 1) n = None"
      if "length vs = length (arg_values args)" for vs ts
      using Suc.IH [of "idx + 1" "args\<lparr>arg_values := vs, arg_tcodes := ts\<rparr>"] Suc.prems that True by simp
    then show ?thesis
      by (auto simp: arr_get_def arr_set_def)
  qed (simp add: arr_set_def bind_eq_None_conv)
qed simp

text \<open>
  C23. A packed function made for a name in a module's registry and an argument list of at most ten
  values runs the function registered under the name, with these arguments, and keeps its result.
\<close>
theorem packed_func_runs_named:
  assumes "length (registered_modules rt) = 6" and "i < 6" and "registered_modules rt ! i = Some reg"
    and "TVMFuncRegistry_Lookup reg name = Some (kTvmErrorNoError, Some k)" and "k < 0x8000"
    and "TVMFuncRegistry_GetByIndex reg k = Some (kTvmErrorNoError, Some f)"
    and "length vs \<le> 10" and "length ts = length vs"
    and "arg_values (pf_ret_value pf) = v # rvs" and "arg_tcodes (pf_ret_value pf) = t # rts"
  shows "\<exists>args pf'. TVMArgs_Create vs ts (length vs) = Some args
    \<and> take (length vs) (arg_values args) = vs \<and> take (length vs) (arg_tcodes args) = ts
    \<and> TVMPackedFunc_InitModuleFunc pf (EncodeModuleHandle (of_nat i)) name args rt = Some (0, pf', rt)
    \<and> TVMPackedFunc_Call (Suc d) im pf' rt = do {
        (r, rv, rc, rt') \<leftarrow> call_pointer im f (Some reg) (arg_values args) (arg_tcodes args) (int (length vs))
          (set_handle v 0) kTVMNullptr rt;
        Some (r, pf'\<lparr>pf_ret_value := \<lparr>arg_values = rv # rvs, arg_tcodes = rc # rts, values_count = 1\<rparr>\<rparr>, rt')
      }"
proof -
  obtain args where args: "TVMArgs_Create vs ts (length vs) = Some args" "take (length vs) (arg_values args) = vs"
    "take (length vs) (arg_tcodes args) = ts" "values_count args = length vs"
    using TVMArgs_Create_ok [OF assms(7,8)] by metis
  obtain h where h: "TVMModGetFunction (EncodeModuleHandle (of_nat i)) name False rt = Some (0, Some h, rt)"
    "TVMFuncCall (Suc d) im h (arg_values args) (arg_tcodes args) (int (length vs)) v kTVMNullptr rt
      = call_pointer im f (Some reg) (arg_values args) (arg_tcodes args) (int (length vs)) (set_handle v 0) kTVMNullptr rt"
    using module_dispatch [OF assms(1-6)] by blast
  let ?pf = "TVMPackedFunc_SetArgs (pf_set_name (pf\<lparr>pf_fexec := h\<rparr>) name) args"
  have "TVMPackedFunc_InitModuleFunc pf (EncodeModuleHandle (of_nat i)) name args rt = Some (0, ?pf, rt)"
    using h(1) by (simp add: TVMPackedFunc_InitModuleFunc_def)
  then show ?thesis
    using args h(2) assms(9,10)
    by (intro exI [of _ args] exI [of _ ?pf])
      (simp add: TVMPackedFunc_Call_def TVMPackedFunc_SetArgs_def pf_set_name_def del: TVMFuncCall.simps)
qed

lemma packed_func_runs_named_witness:
  "\<exists>args pf'. TVMArgs_Create [11, 12] [0, 0] (length [11, 12 :: tvm_value]) = Some args
    \<and> take (length [11, 12 :: tvm_value]) (arg_values args) = [11, 12] \<and> take (length [11, 12 :: tvm_value]) (arg_tcodes args) = [0, 0]
    \<and> TVMPackedFunc_InitModuleFunc \<lparr>pf_name = [], pf_fexec = 0, pf_args = zero_args,
          pf_ret_value = \<lparr>arg_values = [5], arg_tcodes = [0], values_count = 0\<rparr>\<rparr>
        (EncodeModuleHandle (of_nat 1)) [65, 0] args (bare_runtime [None, Some (mr_registry one_registry), None, None, None, None] 0x8000)
      = Some (0, pf', bare_runtime [None, Some (mr_registry one_registry), None, None, None, None] 0x8000)
    \<and> TVMPackedFunc_Call (Suc 0) bare_image pf' (bare_runtime [None, Some (mr_registry one_registry), None, None, None, None] 0x8000)
      = do {
        (r, rv, rc, rt') \<leftarrow> call_pointer bare_image 0x1234 (Some (mr_registry one_registry)) (arg_values args) (arg_tcodes args)
          (int (length [11, 12 :: tvm_value])) (set_handle 5 0) kTVMNullptr
          (bare_runtime [None, Some (mr_registry one_registry), None, None, None, None] 0x8000);
        Some (r, pf'\<lparr>pf_ret_value := \<lparr>arg_values = [rv], arg_tcodes = [rc], values_count = 1\<rparr>\<rparr>, rt')
      }"
  by (rule packed_func_runs_named [OF _ _ _ one_registry_lookup(1) _ one_registry_lookup(2)])
    (simp_all add: bare_runtime_def)

end
