(* ===== verification/Runtime_Typed.thy ===== *)
theory Runtime_Typed
  imports Runtime_Api
begin

text \<open>
  The C interface of the runtime as a typed machine. Its tables stay well formed under every sequence of
  well-typed calls, no such call faults, and a function handle, whatever bits the host puts into it, leads
  to an entry point of the program or is refused.
\<close>

section \<open>Typed registries and runtimes\<close>

text \<open>
  \<open>P\<close> are the entry points of the program. A registry has a count, names that end with an empty one, and
  at least as many pointers as the count says, all of them to entry points.
\<close>

definition registry_typed :: "u32 set \<Rightarrow> func_registry \<Rightarrow> bool" where
  "registry_typed P reg \<longleftrightarrow> (\<exists>a b ns t. fr_names reg = [a, b] @ name_blob ns @ 0 # t \<and> names_ok ns
     \<and> le_value [a, b] \<le> length (fr_funcs reg) \<and> set (take (le_value [a, b]) (fr_funcs reg)) \<subseteq> P)"

definition runtime_typed :: "u32 set \<Rightarrow> runtime \<Rightarrow> bool" where
  "runtime_typed P rt \<longleftrightarrow> length (registered_modules rt) = 6
     \<and> (\<forall>reg. Some reg \<in> set (registered_modules rt) \<longrightarrow> registry_typed P reg)
     \<and> (\<exists>fs. mr_rep (global_func_registry rt) fs \<and> snd ` set fs \<subseteq> P)
     \<and> length (g_last_error rt) \<le> 1023"

lemma runtime_typed_error [simp]: "runtime_typed P rt \<Longrightarrow> runtime_typed P (TVMAPIErrorf msg rt)"
  by (simp add: runtime_typed_def TVMAPIErrorf_def)

lemma typed_module: "runtime_typed P rt \<Longrightarrow> i < 6 \<Longrightarrow> registered_modules rt ! i = Some reg \<Longrightarrow> registry_typed P reg"
  by (metis runtime_typed_def nth_mem)

lemma typed_update:
  assumes "runtime_typed P rt" and "\<And>reg. e = Some reg \<Longrightarrow> registry_typed P reg"
  shows "runtime_typed P (rt\<lparr>registered_modules := (registered_modules rt)[i := e]\<rparr>)"
  using assms set_update_subset_insert [of "registered_modules rt" i e] by (auto simp: runtime_typed_def)

section \<open>Registries\<close>

lemma typed_lookup:
  assumes "registry_typed P reg" and "cname n"
  shows "\<exists>k. TVMFuncRegistry_Lookup reg (n @ [0]) = Some (kTvmErrorNoError, Some k)
    \<or> TVMFuncRegistry_Lookup reg (n @ [0]) = Some (kTvmErrorFunctionNameNotFound, None)"
proof -
  obtain a b ns t where reg: "fr_names reg = [a, b] @ name_blob ns @ 0 # t" "names_ok ns"
    using assms(1) by (auto simp: registry_typed_def)
  show ?thesis
    using registry_scan_spec [OF reg(2) assms(2), of "[a, b]" t "[]" 0] unfolding reg(1)
    by (auto simp: TVMFuncRegistry_Lookup_def TVMFuncRegistry_Get0thFunctionName_def reg(1) numeral_2_eq_2)
qed

lemma typed_fetch:
  assumes "registry_typed P reg"
  shows "TVMFuncRegistry_GetByIndex reg k = Some (kTvmErrorFunctionIndexInvalid, None)
    \<or> (\<exists>f \<in> P. TVMFuncRegistry_GetByIndex reg k = Some (kTvmErrorNoError, Some f))"
proof -
  obtain a b ns t where reg: "fr_names reg = [a, b] @ name_blob ns @ 0 # t"
    and n: "le_value [a, b] \<le> length (fr_funcs reg)" "set (take (le_value [a, b]) (fr_funcs reg)) \<subseteq> P"
    using assms by (auto simp: registry_typed_def)
  have num: "TVMFuncRegistry_GetNumFuncs reg = Some (of_nat (le_value [a, b]))"
    by (simp add: TVMFuncRegistry_GetNumFuncs_def reg numeral_2_eq_2)
  have "le_value [a, b] < 2 ^ 16"
  proof -
    have "unat a < 256" "unat b < 256"
      using unsigned_less [of a] unsigned_less [of b] by simp_all
    then show ?thesis
      by simp
  qed
  then have u: "unat (of_nat (le_value [a, b]) :: u16) = le_value [a, b]"
    by (simp only: unat_of_nat) simp
  show ?thesis
  proof (cases "unat k < le_value [a, b]")
    case True
    then have "fr_funcs reg ! unat k \<in> set (take (le_value [a, b]) (fr_funcs reg))"
      using n(1) by (metis in_set_conv_nth length_take min.absorb2 nth_take)
    then have "fr_funcs reg ! unat k \<in> P"
      using n(2) by blast
    then show ?thesis
      using True n(1) num u by (auto simp: TVMFuncRegistry_GetByIndex_def word_le_nat_alt simp del: le_value.simps)
  next
    case False
    then show ?thesis
      using num u by (simp add: TVMFuncRegistry_GetByIndex_def word_le_nat_alt del: le_value.simps)
  qed
qed

lemma global_typed: "mr_rep reg fs \<Longrightarrow> snd ` set fs \<subseteq> P \<Longrightarrow>
  TVMFuncRegistry_GetByIndex (mr_registry reg) k = Some (kTvmErrorFunctionIndexInvalid, None)
  \<or> (\<exists>f \<in> P. TVMFuncRegistry_GetByIndex (mr_registry reg) k = Some (kTvmErrorNoError, Some f))"
  by (auto simp: GetByIndex_ok)

section \<open>Handles\<close>

definition module_of_handle :: "u32 \<Rightarrow> u16" where
  "module_of_handle h = (ucast h :: u16) AND NOT 0x8000"

definition module_of_function :: "u32 \<Rightarrow> u16" where
  "module_of_function h = (ucast (drop_bit 16 h) :: u16) AND NOT 0x8000"

text \<open>The index 6 passes the test of the code and lies behind the table.\<close>

lemma decode_module:
  assumes "length (registered_modules rt) = 6" and "module_of_handle h \<noteq> 6"
  shows "(\<exists>msg. DecodeModuleHandle h rt = Some (- 1, None, TVMAPIErrorf msg rt))
    \<or> (\<exists>mi reg. DecodeModuleHandle h rt = Some (0, Some mi, rt) \<and> unat mi < 6 \<and> registered_modules rt ! unat mi = Some reg)"
proof -
  let ?i = "module_of_handle h"
  have big: "unat ?i < 6" if "\<not> ?i > 6"
    using that assms(2) by (simp add: word_less_nat_alt word_unat_eq_iff)
  show ?thesis
    using assms(1) big
    by (cases "registered_modules rt ! unat ?i"; cases "?i > 6")
      (auto simp: DecodeModuleHandle_def module_of_handle_def TVM_CRT_MAX_REGISTERED_MODULES_def Let_def)
qed

lemma decode_function:
  assumes "length (registered_modules rt) = 6" and "module_of_function h \<noteq> kTimeEvaluatorModuleIndex"
  shows "(\<exists>msg. DecodeFunctionHandle h rt = Some (- 1, None, TVMAPIErrorf msg rt))
    \<or> (\<exists>fi. DecodeFunctionHandle h rt = Some (0, Some (kGlobalFuncModuleIndex, fi), rt))
    \<or> (\<exists>mi fi reg. DecodeFunctionHandle h rt = Some (0, Some (mi, fi), rt) \<and> unat mi < 6 \<and> registered_modules rt ! unat mi = Some reg)"
proof -
  let ?i = "module_of_function h"
  consider "?i > 6" | "?i = 6" | "unat ?i < 6" "?i < 6"
    using linorder_less_linear [of ?i 6] by (auto simp: word_less_nat_alt)
  then show ?thesis
  proof cases
    case 3
    then have "\<not> ?i > 6"
      by simp
    then show ?thesis
      using assms 3 by (cases "registered_modules rt ! unat ?i")
        (auto simp: DecodeFunctionHandle_def module_of_function_def kGlobalFuncModuleIndex_def TVM_CRT_MAX_REGISTERED_MODULES_def Let_def)
  qed (use assms in \<open>auto simp: DecodeFunctionHandle_def module_of_function_def kGlobalFuncModuleIndex_def
      TVM_CRT_MAX_REGISTERED_MODULES_def Let_def\<close>)
qed

section \<open>Calls of the interface\<close>

text \<open>Strings are given with their terminator, as the code reads them.\<close>

datatype api_call = Register_Global "u8 list" u32 int | Create_Module func_registry | Free_Module u32
  | Find_Global "u8 list" | Find_Function u32 "u8 list" | Open_System_Library | Report_Error string

fun api_run :: "image \<Rightarrow> api_call \<Rightarrow> runtime \<Rightarrow> runtime option" where
  "api_run im (Register_Global name f override) rt = do { (e, rt) \<leftarrow> TVMFuncRegisterGlobal name f override rt; Some rt }"
| "api_run im (Create_Module lib) rt = do { (e, h, rt) \<leftarrow> TVMModCreateFromCModule lib rt; Some rt }"
| "api_run im (Free_Module h) rt = do { (e, rt) \<leftarrow> TVMModFree h rt; Some rt }"
| "api_run im (Find_Global name) rt = do { (e, h) \<leftarrow> TVMFuncGetGlobal name rt; Some rt }"
| "api_run im (Find_Function h name) rt = do { (e, f, rt) \<leftarrow> TVMModGetFunction h name False rt; Some rt }"
| "api_run im Open_System_Library rt = do { (e, rv, rc, rt) \<leftarrow> SystemLibraryCreate im [] [] 0 0 0 rt; Some rt }"
| "api_run im (Report_Error msg) rt = Some (TVMAPISetLastError msg rt)"

definition c_name :: "u8 list \<Rightarrow> bool" where
  "c_name name \<longleftrightarrow> name \<noteq> [] \<and> last name = 0 \<and> cname (butlast name)"

lemma c_nameD: "c_name name \<Longrightarrow> name = butlast name @ [0] \<and> cname (butlast name)"
  unfolding c_name_def using append_butlast_last_id [of name] by simp

text \<open>
  A new name that fills the space before the pointers exactly is accepted by the code, and its end mark
  lands in the first pointer.
\<close>

definition exact_fit :: "mutable_func_registry \<Rightarrow> u8 list \<Rightarrow> bool" where
  "exact_fit reg name = (case registry_scan (mr_buffer reg) name 2 0 of
     Some (False, pos, _) \<Rightarrow> pos + length name = mr_funcs reg
   | _ \<Rightarrow> False)"

text \<open>
  Typing: names are not empty, pointers are entry points, modules are typed, and a module handle does not
  have the index 6.
\<close>

fun call_typed :: "u32 set \<Rightarrow> api_call \<Rightarrow> runtime \<Rightarrow> bool" where
  "call_typed P (Register_Global name f override) rt
     \<longleftrightarrow> c_name name \<and> butlast name \<noteq> [] \<and> f \<in> P \<and> \<not> exact_fit (global_func_registry rt) name"
| "call_typed P (Create_Module lib) rt \<longleftrightarrow> registry_typed P lib"
| "call_typed P (Free_Module h) rt \<longleftrightarrow> module_of_handle h \<noteq> 6"
| "call_typed P (Find_Global name) rt \<longleftrightarrow> c_name name"
| "call_typed P (Find_Function h name) rt \<longleftrightarrow> module_of_handle h \<noteq> 6 \<and> c_name name"
| "call_typed P Open_System_Library rt \<longleftrightarrow> True"
| "call_typed P (Report_Error msg) rt \<longleftrightarrow> True"

inductive api_reach :: "u32 set \<Rightarrow> image \<Rightarrow> runtime \<Rightarrow> runtime \<Rightarrow> bool" for P im rt0 where
  api_start: "api_reach P im rt0 rt0"
| api_call: "api_reach P im rt0 rt \<Longrightarrow> call_typed P c rt \<Longrightarrow> api_run im c rt = Some rt' \<Longrightarrow> api_reach P im rt0 rt'"

subsection \<open>Progress and preservation, call by call\<close>

lemma set_typed:
  assumes rep: "mr_rep reg fs" "snd ` set fs \<subseteq> P" and f: "f \<in> P" and n: "cname n" "n \<noteq> []"
    and fit: "\<not> exact_fit reg (n @ [0])"
  shows "\<exists>e reg' fs'. TVMMutableFuncRegistry_Set reg (n @ [0]) f override = Some (e, reg') \<and> mr_rep reg' fs' \<and> snd ` set fs' \<subseteq> P"
proof (cases "n \<in> fst ` set fs")
  case True
  show ?thesis
  proof (cases override)
    case True
    obtain reg' k where k: "TVMMutableFuncRegistry_Set reg (n @ [0]) f True = Some (kTvmErrorNoError, reg')" "mr_rep reg' (fs[k := (n, f)])"
      using Set_known_ok(2) [OF rep(1) n(1) \<open>n \<in> fst ` set fs\<close>, of "[]" f] by auto
    have "snd ` set (fs[k := (n, f)]) \<subseteq> P"
      using set_update_subset_insert [of fs k "(n, f)"] rep(2) f by fastforce
    then show ?thesis
      using k True by (intro exI [of _ kTvmErrorNoError] exI [of _ reg'] exI [of _ "fs[k := (n, f)]"]) simp
  next
    case False
    then show ?thesis
      using Set_known_ok(1) [OF rep(1) n(1) \<open>n \<in> fst ` set fs\<close>, of "[]" f] rep by auto
  qed
next
  case False
  have scan: "registry_scan (mr_buffer reg) (n @ [0]) 2 0 = Some (False, 2 + length (name_blob (map fst fs)), length fs)"
    using mr_rep_scan [OF rep(1) n(1), of "[]"] False by auto
  have "3 + length (name_blob (map fst fs)) \<le> mr_funcs reg"
    using rep(1) by (auto simp: mr_rep_def)
  then have "mr_room reg fs \<noteq> length n + 1"
    using fit scan by (simp add: exact_fit_def mr_room_def)
  then consider "mr_max_functions reg \<le> length fs \<or> mr_room reg fs < length n + 1"
    | "length fs < mr_max_functions reg" "length n + 2 \<le> mr_room reg fs"
    by linarith
  then show ?thesis
  proof cases
    case 1
    then show ?thesis
      using Set_full [OF rep(1) n(1) False, of "[]" f override] rep by auto
  next
    case 2
    obtain reg' where "TVMMutableFuncRegistry_Set reg (n @ [0]) f override = Some (kTvmErrorNoError, reg')" "mr_rep reg' (fs @ [(n, f)])"
      using Set_new_ok [OF rep(1) n False 2, of "[]" f override] by auto
    then show ?thesis
      using rep(2) f by (intro exI [of _ kTvmErrorNoError] exI [of _ reg'] exI [of _ "fs @ [(n, f)]"]) auto
  qed
qed

lemma register_typed:
  assumes "runtime_typed P rt" and "call_typed P (Register_Global name f override) rt"
  shows "\<exists>rt'. api_run im (Register_Global name f override) rt = Some rt' \<and> runtime_typed P rt'"
proof -
  obtain fs where fs: "mr_rep (global_func_registry rt) fs" "snd ` set fs \<subseteq> P"
    using assms(1) by (auto simp: runtime_typed_def)
  obtain n where n: "name = n @ [0]" "cname n" "n \<noteq> []" "f \<in> P" "\<not> exact_fit (global_func_registry rt) (n @ [0])"
    using assms(2) c_nameD [of name] by auto
  show ?thesis
    using set_typed [OF fs n(4,2,3,5), of "override \<noteq> 0"] assms(1)
    by (auto simp: n(1) TVMFuncRegisterGlobal_def runtime_typed_def)
qed

lemma create_typed:
  assumes "runtime_typed P rt" and "registry_typed P lib"
  shows "\<exists>e h rt'. TVMModCreateFromCModule lib rt = Some (e, h, rt') \<and> runtime_typed P rt' \<and> (e = 0 \<longleftrightarrow> h \<noteq> None)"
proof -
  have len: "length (registered_modules rt) = 6"
    using assms(1) by (simp add: runtime_typed_def)
  obtain idx where "find_from (\<lambda>e. e = None) (registered_modules rt) 0 6 = Some idx"
    using find_from_spec [of 0 6 "registered_modules rt" "\<lambda>e. e = None"] len by auto
  then show ?thesis
    using assms typed_update [OF assms(1), of "Some lib"]
    by (cases idx) (simp_all add: TVMModCreateFromCModule_def TVM_CRT_MAX_REGISTERED_MODULES_def)
qed

lemma free_typed:
  assumes rt: "runtime_typed P rt" and h: "module_of_handle h \<noteq> 6"
  shows "\<exists>rt'. api_run im (Free_Module h) rt = Some rt' \<and> runtime_typed P rt'"
proof -
  have len: "length (registered_modules rt) = 6"
    using rt by (simp add: runtime_typed_def)
  show ?thesis
    using decode_module [OF len h] rt len typed_update [OF rt, of None] by (auto simp: TVMModFree_def)
qed

lemma find_global_typed:
  assumes rt: "runtime_typed P rt" and n: "c_name name"
  shows "api_run im (Find_Global name) rt = Some rt"
proof -
  obtain fs where fs: "mr_rep (global_func_registry rt) fs"
    using rt by (auto simp: runtime_typed_def)
  obtain n where name: "name = n @ [0]" "cname n"
    using c_nameD [OF n] by auto
  show ?thesis
    using Lookup_ok [OF fs name(2), of "[]"] by (cases "n \<in> fst ` set fs")
      (auto simp: name(1) TVMFuncGetGlobal_def FindFunctionOrSetAPIError_def)
qed

lemma find_function_typed:
  assumes rt: "runtime_typed P rt" and h: "module_of_handle h \<noteq> 6" and n: "c_name name"
  shows "\<exists>rt'. api_run im (Find_Function h name) rt = Some rt' \<and> runtime_typed P rt'"
proof -
  have len: "length (registered_modules rt) = 6"
    using rt by (simp add: runtime_typed_def)
  obtain n where name: "name = n @ [0]" "cname n"
    using c_nameD [OF n] by auto
  from decode_module [OF len h] show ?thesis
  proof (elim disjE exE conjE)
    fix mi reg
    assume d: "DecodeModuleHandle h rt = Some (0, Some mi, rt)" "unat mi < 6" "registered_modules rt ! unat mi = Some reg"
    then show ?thesis
      using typed_lookup [OF typed_module [OF rt d(2,3)] name(2)] len rt
      by (auto simp: name(1) TVMModGetFunction_def FindFunctionOrSetAPIError_def)
  qed (use rt in \<open>auto simp: TVMModGetFunction_def\<close>)
qed

lemma open_typed:
  assumes rt: "runtime_typed P rt" and lib: "registry_typed P (TVMSystemLibEntryPoint im)"
  shows "\<exists>rt'. api_run im Open_System_Library rt = Some rt' \<and> runtime_typed P rt'"
proof -
  obtain e h rt' where c: "TVMModCreateFromCModule (TVMSystemLibEntryPoint im) rt = Some (e, h, rt')" "runtime_typed P rt'"
    using create_typed [OF rt lib] by auto
  have lib_free: "runtime_typed P (r\<lparr>system_lib_handle := x\<rparr>) = runtime_typed P r" for r x
    by (simp add: runtime_typed_def)
  show ?thesis
    using rt c lib_free by (cases h) (auto simp: SystemLibraryCreate_def)
qed

lemma api_run_typed:
  assumes rt: "runtime_typed P rt" and lib: "registry_typed P (TVMSystemLibEntryPoint im)" and c: "call_typed P c rt"
  shows "\<exists>rt'. api_run im c rt = Some rt' \<and> runtime_typed P rt'"
proof (cases c)
  case (Create_Module m)
  then show ?thesis
    using create_typed [OF rt, of m] c by auto
next
  case (Report_Error msg)
  then show ?thesis
    using rt by (simp add: TVMAPISetLastError_def runtime_typed_def)
qed (use register_typed [OF rt] free_typed [OF rt] find_global_typed [OF rt] find_function_typed [OF rt] open_typed [OF rt lib] c rt
  in \<open>simp_all del: api_run.simps\<close>)

lemma api_reach_typed:
  assumes "api_reach P im rt0 rt" and "runtime_typed P rt0" and "registry_typed P (TVMSystemLibEntryPoint im)"
  shows "runtime_typed P rt"
  using assms(1) by (induction rule: api_reach.induct) (use assms(2,3) api_run_typed in \<open>fastforce\<close>)+

section \<open>The start and calls through handles\<close>

lemma start_typed:
  assumes run: "TVMInitializeRuntime im rt0 = Some (kTvmErrorNoError, rt1)"
    and P: "snd ` set (builtins im) \<subseteq> P" and msg: "length (g_last_error rt0) \<le> 1023"
  shows "runtime_typed P rt1"
proof -
  obtain err p h where alloc: "TVMPlatformMemoryAllocate (heap (rt_machine rt0)) 512 = Some (err, p, h)"
    using run by (auto simp: TVMInitializeRuntime_def TVM_CRT_GLOBAL_FUNC_REGISTRY_SIZE_BYTES_def bind_eq_Some simp del: platform_alloc)
  have "err = kTvmErrorNoError"
    using run alloc by (cases "err = kTvmErrorNoError")
      (simp_all add: TVMInitializeRuntime_def TVM_CRT_GLOBAL_FUNC_REGISTRY_SIZE_BYTES_def Let_def del: platform_alloc)
  note alloc = alloc [unfolded this]
  obtain reg reg' where reg: "TVMMutableFuncRegistry_Create (load_bytes (ram (rt_machine rt0)) p 512) = Some (kTvmErrorNoError, Some reg)"
    "register_all mr_set reg (builtins im) False = Some (kTvmErrorNoError, reg')" "mr_table reg' (map_of (builtins im)) 29 232"
    using initialized_registry [of "load_bytes (ram (rt_machine rt0)) p 512" im] by auto
  obtain fs where fs: "mr_rep reg' fs" "map_of fs = map_of (builtins im)"
    using reg(3) by (auto simp: mr_table_def)
  have "snd ` set fs = ran (map_of fs)"
    using fs(1) by (simp add: mr_rep_def ran_distinct)
  also have "\<dots> = snd ` set (builtins im)"
    unfolding fs(2) by (rule ran_distinct) (rule builtins_ok(1))
  finally show ?thesis
    using TVMInitializeRuntime_run [OF alloc reg(1,2)] run P msg fs(1) by (auto simp: runtime_typed_def)
qed

lemma handle_call:
  assumes rt: "runtime_typed P rt" and h: "module_of_function h \<noteq> kTimeEvaluatorModuleIndex"
  shows "(\<exists>rt'. TVMFuncCall (Suc d) im h args tcs n rv rc rt = Some (- 1, rv, rc, rt') \<and> runtime_typed P rt')
    \<or> (\<exists>f \<in> P. \<exists>res. TVMFuncCall (Suc d) im h args tcs n rv rc rt = call_pointer im f res args tcs n (set_handle rv 0) kTVMNullptr rt)"
proof -
  have len: "length (registered_modules rt) = 6"
    using rt by (simp add: runtime_typed_def)
  obtain fs where fs: "mr_rep (global_func_registry rt) fs" "snd ` set fs \<subseteq> P"
    using rt by (auto simp: runtime_typed_def)
  from decode_function [OF len h] show ?thesis
  proof (elim disjE exE conjE)
    fix fi
    assume "DecodeFunctionHandle h rt = Some (0, Some (kGlobalFuncModuleIndex, fi), rt)"
    then show ?thesis
      using global_typed [OF fs, of fi] rt by (auto simp: kGlobalFuncModuleIndex_def kTimeEvaluatorModuleIndex_def TVM_CRT_MAX_REGISTERED_MODULES_def) blast
  next
    fix mi fi reg
    assume d: "DecodeFunctionHandle h rt = Some (0, Some (mi, fi), rt)" "unat mi < 6" "registered_modules rt ! unat mi = Some reg"
    have "mi \<noteq> kTimeEvaluatorModuleIndex" "mi \<noteq> kGlobalFuncModuleIndex"
      using d(2) by (auto simp: kGlobalFuncModuleIndex_def kTimeEvaluatorModuleIndex_def TVM_CRT_MAX_REGISTERED_MODULES_def)
    then show ?thesis
      using typed_fetch [OF typed_module [OF rt d(2,3)], of fi] d len rt by auto blast
  qed (use rt in auto)
qed

section \<open>Type safety\<close>

text \<open>
  C11. The C interface is type safe. After the start and any sequence of well-typed calls the tables of the
  runtime are well formed; the next well-typed call does not fault; and a call through any 32-bit handle
  that does not name the time evaluator is refused with an error, or runs an entry point of the program.
\<close>
theorem runtime_type_safe:
  assumes "TVMInitializeRuntime im rt0 = Some (kTvmErrorNoError, rt1)" and "length (g_last_error rt0) \<le> 1023"
    and "snd ` set (builtins im) \<subseteq> P" and "registry_typed P (TVMSystemLibEntryPoint im)"
    and "api_reach P im rt1 rt"
  shows "runtime_typed P rt \<and> (\<forall>c. call_typed P c rt \<longrightarrow> (\<exists>rt'. api_run im c rt = Some rt' \<and> runtime_typed P rt'))
    \<and> (\<forall>h d args tcs n rv rc. module_of_function h \<noteq> kTimeEvaluatorModuleIndex \<longrightarrow>
        (\<exists>rt'. TVMFuncCall (Suc d) im h args tcs n rv rc rt = Some (- 1, rv, rc, rt') \<and> runtime_typed P rt')
        \<or> (\<exists>f \<in> P. \<exists>res. TVMFuncCall (Suc d) im h args tcs n rv rc rt
              = call_pointer im f res args tcs n (set_handle rv 0) kTVMNullptr rt))"
proof -
  have rt: "runtime_typed P rt"
    by (rule api_reach_typed [OF assms(5) start_typed [OF assms(1,3,2)] assms(4)])
  show ?thesis
    using rt api_run_typed [OF rt assms(4)] handle_call [OF rt] by blast
qed

lemma one_registry_typed: "registry_typed {0x1234, 0, 16, 32, 48, 64, 80} (mr_registry one_registry)"
  unfolding registry_typed_def
  by (rule exI [of _ 1], rule exI [of _ 0], rule exI [of _ "[[65]]"], rule exI [of _ "[9, 9, 0x34, 0x12, 0, 0, 7, 7, 7, 7]"])
    (simp add: mr_registry_def one_registry_def names_ok_def cname_def)

lemma bare_start:
  "\<exists>rt1. TVMInitializeRuntime bare_image (bare_runtime [] 0) = Some (kTvmErrorNoError, rt1)
    \<and> registered_modules rt1 = replicate 6 None \<and> system_lib_handle rt1 = kTVMModuleHandleUninitialized"
proof -
  let ?rt = "bare_runtime [] 0"
  obtain h where h: "TVMPlatformMemoryAllocate (heap (rt_machine ?rt)) 512 = Some (kTvmErrorNoError, 4096, h)"
    unfolding bare_runtime_def fresh_two_pages platform_alloc by (simp add: heap_eval PageTable_fill_2)
  show ?thesis
    using TVMInitializeRuntime_run [OF h] initialized_registry [of "load_bytes (ram (rt_machine ?rt)) 4096 512" bare_image]
    by fastforce
qed

text \<open>
  A device with a library of one function: the library is opened, its function is looked up, and a handle
  with an index that the host made up is refused.
\<close>
lemma runtime_type_safe_witness:
  "\<exists>rt1 rt rt2 rt'. TVMInitializeRuntime bare_image (bare_runtime [] 0) = Some (kTvmErrorNoError, rt1)
    \<and> api_run bare_image Open_System_Library rt1 = Some rt \<and> registered_modules rt ! 0 = Some (mr_registry one_registry)
    \<and> api_run bare_image (Find_Function 0x8000 [65, 0]) rt = Some rt2 \<and> runtime_typed {0x1234, 0, 16, 32, 48, 64, 80} rt2
    \<and> TVMFuncCall (Suc 0) bare_image 0x90000000 [] [] 0 0 0 rt = Some (- 1, 0, 0, rt') \<and> runtime_typed {0x1234, 0, 16, 32, 48, 64, 80} rt'"
proof -
  let ?P = "{0x1234, 0, 16, 32, 48, 64, 80} :: u32 set"
  obtain rt1 where rt1: "TVMInitializeRuntime bare_image (bare_runtime [] 0) = Some (kTvmErrorNoError, rt1)"
    "registered_modules rt1 = replicate 6 None" "system_lib_handle rt1 = kTVMModuleHandleUninitialized"
    using bare_start by blast
  obtain rt where rt: "api_run bare_image Open_System_Library rt1 = Some rt" "registered_modules rt ! 0 = Some (mr_registry one_registry)"
    using rt1(2,3) by (auto simp: SystemLibraryCreate_def TVMModCreateFromCModule_def TVM_CRT_MAX_REGISTERED_MODULES_def
        bare_image_def numeral_eq_Suc)
  have "api_reach ?P bare_image rt1 rt"
    by (rule api_call [OF api_start _ rt(1)]) simp
  moreover have "length (g_last_error (bare_runtime [] 0)) \<le> 1023" "snd ` set (builtins bare_image) \<subseteq> ?P"
    by (simp_all add: bare_runtime_def builtins_def bare_image_def)
  moreover have "registry_typed ?P (TVMSystemLibEntryPoint bare_image)"
    using one_registry_typed by (simp add: bare_image_def)
  ultimately have safe: "runtime_typed ?P rt"
    "call_typed ?P c rt \<Longrightarrow> \<exists>rt'. api_run bare_image c rt = Some rt' \<and> runtime_typed ?P rt'"
    "module_of_function h \<noteq> kTimeEvaluatorModuleIndex \<Longrightarrow>
        (\<exists>rt'. TVMFuncCall (Suc d) bare_image h args tcs n rv rc rt = Some (- 1, rv, rc, rt') \<and> runtime_typed ?P rt')
        \<or> (\<exists>f \<in> ?P. \<exists>res. TVMFuncCall (Suc d) bare_image h args tcs n rv rc rt
              = call_pointer bare_image f res args tcs n (set_handle rv 0) kTVMNullptr rt)" for c h d args tcs n rv rc
    using runtime_type_safe [OF rt1(1), of ?P rt] by blast+
  obtain rt2 where rt2: "api_run bare_image (Find_Function 0x8000 [65, 0]) rt = Some rt2" "runtime_typed ?P rt2"
    using safe(2) [of "Find_Function 0x8000 [65, 0]"] by (auto simp: module_of_handle_def c_name_def cname_def)
  obtain rt' where "TVMFuncCall (Suc 0) bare_image 0x90000000 [] [] 0 0 0 rt = Some (- 1, 0, 0, rt')"
    by (auto simp: DecodeFunctionHandle_def kTimeEvaluatorModuleIndex_def kGlobalFuncModuleIndex_def TVM_CRT_MAX_REGISTERED_MODULES_def)
  moreover have "runtime_typed ?P rt'"
    using safe(1) calculation by (auto simp: DecodeFunctionHandle_def kTimeEvaluatorModuleIndex_def kGlobalFuncModuleIndex_def
        TVM_CRT_MAX_REGISTERED_MODULES_def)
  ultimately show ?thesis
    using rt1(1) rt rt2 by blast
qed

end
