(* ===== verification/Graph_Json.thy ===== *)
theory Graph_Json
  imports Packed_Func
begin

text \<open>
  Reading a graph: the first half of \<^verbatim>\<open>graph_executor/graph_executor.c\<close>, from the JSON text to the nodes,
  the inputs, the outputs and the attributes of the executor. The heap and the reader are passed along.
\<close>

section \<open>The data\<close>

text \<open>
  An array in a block of the heap has an address and its elements; an element that has not been written
  is \<open>None\<close>, and so is every read of it. Strings are the characters before the terminator.
\<close>

record op_param =
  op_func_name :: "u8 list"
  op_num_inputs :: nat
  op_num_outputs :: nat
  op_flatten_data :: nat

record node_entry =
  ne_node_id :: nat
  ne_index :: nat
  ne_version :: nat

record graph_node =
  gn_op_type :: "u8 list"
  gn_name :: "u8 list"
  gn_param :: "op_param option"
  gn_inputs :: "node_entry option list"
  gn_inputs_at :: addr
  gn_inputs_count :: nat

text \<open>A shape is its first \<^verbatim>\<open>ndim\<close> dimensions; the rest of its six places is not written.\<close>

record graph_attr =
  ga_storage_id :: "nat option list"
  ga_storage_id_at :: addr
  ga_device_index :: "nat option list"
  ga_device_index_at :: addr
  ga_dltype :: "u8 list option list"
  ga_dltype_at :: addr
  ga_dltype_count :: nat
  ga_shape :: "int list option list"
  ga_shape_at :: addr
  ga_ndim_at :: addr
  ga_shape_count :: nat

text \<open>A block for \<open>n\<close> elements; when there is none the pointer is null.\<close>

definition alloc_items ::
    "memory_manager \<Rightarrow> nat \<Rightarrow> nat \<Rightarrow> (tvm_crt_error \<times> addr \<times> 'a option list \<times> memory_manager) option" where
  "alloc_items mgr elem_size n = do {
     let nbytes = elem_size * n mod 2 ^ 32;
     (err, p, mgr) \<leftarrow> TVMPlatformMemoryAllocate mgr nbytes;
     Some (err, p, if err = kTvmErrorNoError then replicate (nbytes div elem_size) None else [], mgr)
   }"

definition sizeof_NodeEntry :: nat where "sizeof_NodeEntry = 16"
definition sizeof_Node :: nat where "sizeof_Node = 364"
definition TVM_CRT_MAX_STRLEN_DLTYPE :: nat where "TVM_CRT_MAX_STRLEN_DLTYPE = 10"
definition TVM_CRT_MAX_STRLEN_FUNCTION_NAME :: nat where "TVM_CRT_MAX_STRLEN_FUNCTION_NAME = 120"

section \<open>Node entries\<close>

definition NodeEntry_Load :: "json_reader \<Rightarrow> (int \<times> node_entry \<times> json_reader) option" where
  "NodeEntry_Load reader = do {
     let status = 0;
     reader \<leftarrow> JSONReader_BeginArray reader;
     (has, reader) \<leftarrow> JSONReader_NextArrayItem reader;
     let status = (if \<not> has then - 1 else status);
     (node_id, reader) \<leftarrow> JSONReader_ReadUnsignedInteger (complain (\<not> has) reader);
     (has, reader) \<leftarrow> JSONReader_NextArrayItem reader;
     let status = (if \<not> has then - 1 else status);
     (index, reader) \<leftarrow> JSONReader_ReadUnsignedInteger (complain (\<not> has) reader);
     (has, reader) \<leftarrow> JSONReader_NextArrayItem reader;
     if has
     then do {
       (version, reader) \<leftarrow> JSONReader_ReadUnsignedInteger reader;
       (has, reader) \<leftarrow> JSONReader_NextArrayItem reader;
       Some (if has then - 1 else status, \<lparr>ne_node_id = node_id, ne_index = index, ne_version = version\<rparr>, complain has reader)
     }
     else Some (status, \<lparr>ne_node_id = node_id, ne_index = index, ne_version = 0\<rparr>, reader)
   }"

section \<open>Operator parameters\<close>

text \<open>The status of \<^verbatim>\<open>ReadString\<close> is always 0, so the branches for its errors are dead.\<close>

partial_function (option) LoadAttrs_loop ::
    "nat \<Rightarrow> op_param \<Rightarrow> json_reader \<Rightarrow> (nat \<times> op_param \<times> json_reader) option" where
  "LoadAttrs_loop bitmask param reader = do {
     (has, key, reader) \<leftarrow> JSONReader_NextObjectItem False 20 reader;
     if \<not> has then Some (bitmask, param, reader)
     else do {
       (value, reader) \<leftarrow> JSONReader_ReadString False TVM_CRT_MAX_STRLEN_FUNCTION_NAME reader;
       if key = lit ''func_name'' then LoadAttrs_loop (bitmask OR 1) (param\<lparr>op_func_name := value\<rparr>) reader
       else if key = lit ''num_inputs'' then LoadAttrs_loop (bitmask OR 2) (param\<lparr>op_num_inputs := fst (strtoul value)\<rparr>) reader
       else if key = lit ''num_outputs'' then LoadAttrs_loop (bitmask OR 4) (param\<lparr>op_num_outputs := fst (strtoul value)\<rparr>) reader
       else if key = lit ''flatten_data'' then LoadAttrs_loop (bitmask OR 8) (param\<lparr>op_flatten_data := fst (strtoul value)\<rparr>) reader
       else LoadAttrs_loop bitmask param reader
     }
   }"

definition TVMGraphExecutorNode_LoadAttrs :: "json_reader \<Rightarrow> (op_param \<times> json_reader) option" where
  "TVMGraphExecutorNode_LoadAttrs reader = do {
     reader \<leftarrow> JSONReader_BeginObject reader;
     (bitmask, param, reader) \<leftarrow>
       LoadAttrs_loop 0 \<lparr>op_func_name = [], op_num_inputs = 0, op_num_outputs = 0, op_flatten_data = 0\<rparr> reader;
     Some (param, complain (bitmask \<noteq> 15) reader)
   }"

section \<open>Nodes\<close>

text \<open>What happens after one item of a loop: the next one, a \<^verbatim>\<open>break\<close>, or a \<^verbatim>\<open>return\<close>.\<close>

datatype flow = Next | Break | Return

text \<open>One entry of the inputs. A failed test breaks the loop over the entries.\<close>

definition Node_input :: "json_reader \<Rightarrow> (node_entry option \<times> json_reader) option" where
  "Node_input reader = do {
     reader \<leftarrow> JSONReader_BeginArray reader;
     (has, reader) \<leftarrow> JSONReader_NextArrayItem reader;
     if \<not> has then Some (None, complain True reader)
     else do {
       (node_id, reader) \<leftarrow> JSONReader_ReadUnsignedInteger reader;
       (has, reader) \<leftarrow> JSONReader_NextArrayItem reader;
       if \<not> has then Some (None, complain True reader)
       else do {
         (index, reader) \<leftarrow> JSONReader_ReadUnsignedInteger reader;
         (has, reader) \<leftarrow> JSONReader_NextArrayItem reader;
         if has
         then do {
           (version, reader) \<leftarrow> JSONReader_ReadUnsignedInteger reader;
           (has, reader) \<leftarrow> JSONReader_NextArrayItem reader;
           if has then Some (None, complain True reader)
           else Some (Some \<lparr>ne_node_id = node_id, ne_index = index, ne_version = version\<rparr>, reader)
         }
         else Some (Some \<lparr>ne_node_id = node_id, ne_index = index, ne_version = 0\<rparr>, reader)
       }
     }
   }"

partial_function (option) Node_inputs_loop ::
    "nat \<Rightarrow> nat \<Rightarrow> node_entry option list \<Rightarrow> json_reader
     \<Rightarrow> ((flow \<times> int) \<times> nat \<times> node_entry option list \<times> json_reader) option" where
  "Node_inputs_loop num_inputs count inputs reader = do {
     (has, reader) \<leftarrow> JSONReader_NextArrayItem reader;
     if \<not> has then Some ((Next, 0), count, inputs, reader)
     else if count = num_inputs then Some ((Return, - 1), count, inputs, complain True reader)
     else do {
       (entry, reader) \<leftarrow> Node_input reader;
       case entry of
         None \<Rightarrow> Some ((Next, - 1), count, inputs, reader)
       | Some e \<Rightarrow> do {
           inputs \<leftarrow> arr_set inputs count (Some e);
           Node_inputs_loop num_inputs (count + 1) inputs reader
         }
     }
   }"

text \<open>The value of one key: what follows, the status, the node, the bit mask, the reader and the heap.\<close>

definition Node_key ::
    "nat list \<Rightarrow> u8 list \<Rightarrow> graph_node \<Rightarrow> nat \<Rightarrow> json_reader \<Rightarrow> memory_manager
     \<Rightarrow> ((flow \<times> int) \<times> graph_node \<times> nat \<times> json_reader \<times> memory_manager) option" where
  "Node_key garbage key node bitmask reader mgr =
     (if key = lit ''op'' then do {
        (s, reader) \<leftarrow> JSONReader_ReadString False 16 reader;
        Some ((Next, 0), node\<lparr>gn_op_type := s\<rparr>, bitmask OR 1, reader, mgr)
      }
      else if key = lit ''name'' then do {
        (s, reader) \<leftarrow> JSONReader_ReadString False TVM_CRT_MAX_STRLEN_FUNCTION_NAME reader;
        Some ((Next, 0), node\<lparr>gn_name := s\<rparr>, bitmask OR 2, reader, mgr)
      }
      else if key = lit ''inputs'' then do {
        reader \<leftarrow> JSONReader_BeginArray reader;
        (r, num_inputs, mgr, reader) \<leftarrow> JSONReader_ArrayLength mgr garbage reader;
        if r \<noteq> 0 then Some ((Break, 0), node, bitmask, complain True reader, mgr)
        else do {
          (err, p, arr, mgr) \<leftarrow> alloc_items mgr sizeof_NodeEntry (the num_inputs);
          let node = node\<lparr>gn_inputs := arr, gn_inputs_at := p\<rparr>;
          if err \<noteq> kTvmErrorNoError then Some ((Return, - 1), node, bitmask, complain True reader, mgr)
          else do {
            ((flow, status), count, arr, reader) \<leftarrow> Node_inputs_loop (the num_inputs) 0 arr reader;
            if flow = Return then Some ((Return, status), node\<lparr>gn_inputs := arr\<rparr>, bitmask, reader, mgr)
            else Some ((Next, status), node\<lparr>gn_inputs := arr, gn_inputs_count := count\<rparr>, bitmask OR 4, reader, mgr)
          }
        }
      }
      else if key = lit ''attr'' \<or> key = lit ''attrs'' then do {
        (param, reader) \<leftarrow> TVMGraphExecutorNode_LoadAttrs reader;
        Some ((Next, 0), node\<lparr>gn_param := Some param\<rparr>, bitmask, reader, mgr)
      }
      else Some ((Next, - 1), node, bitmask, complain True reader, mgr))"

partial_function (option) Node_loop ::
    "nat list \<Rightarrow> graph_node \<Rightarrow> nat \<Rightarrow> json_reader \<Rightarrow> memory_manager
     \<Rightarrow> ((flow \<times> int) \<times> graph_node \<times> nat \<times> json_reader \<times> memory_manager) option" where
  "Node_loop garbage node bitmask reader mgr = do {
     (has, key, reader) \<leftarrow> JSONReader_NextObjectItem False 20 reader;
     if \<not> has then Some ((Next, 0), node, bitmask, reader, mgr)
     else do {
       ((flow, status), node, bitmask, reader, mgr) \<leftarrow> Node_key garbage key node bitmask reader mgr;
       if flow \<noteq> Next \<or> status \<noteq> 0 then Some ((flow, status), node, bitmask, reader, mgr)
       else Node_loop garbage node bitmask reader mgr
     }
   }"

text \<open>The memory of the node is not cleared: \<open>node\<close> is its old content.\<close>

definition TVMGraphExecutorNode_Load ::
    "nat list \<Rightarrow> graph_node \<Rightarrow> json_reader \<Rightarrow> memory_manager
     \<Rightarrow> (int \<times> graph_node \<times> json_reader \<times> memory_manager) option" where
  "TVMGraphExecutorNode_Load garbage node reader mgr = do {
     reader \<leftarrow> JSONReader_BeginObject reader;
     ((flow, status), node, bitmask, reader, mgr) \<leftarrow> Node_loop garbage node 0 reader mgr;
     if flow = Return then Some (status, node, reader, mgr)
     else if bitmask \<noteq> 7 then Some (- 1, node, complain True reader, mgr)
     else Some (status, node, reader, mgr)
   }"

definition TVMGraphExecutorNodeCreate :: graph_node where
  "TVMGraphExecutorNodeCreate =
     \<lparr>gn_op_type = [], gn_name = [], gn_param = Some \<lparr>op_func_name = [], op_num_inputs = 0, op_num_outputs = 0, op_flatten_data = 0\<rparr>,
      gn_inputs = [], gn_inputs_at = 0, gn_inputs_count = 0\<rparr>"

text \<open>A null node is given as \<open>None\<close>.\<close>

definition TVMGraphExecutorNodeRelease ::
    "graph_node option \<Rightarrow> memory_manager \<Rightarrow> (int \<times> graph_node option \<times> memory_manager) option" where
  "TVMGraphExecutorNodeRelease node mgr =
     (case node of
        None \<Rightarrow> Some (0, None, mgr)
      | Some n \<Rightarrow>
          if gn_inputs_at n \<noteq> 0
          then do {
            (err, mgr) \<leftarrow> TVMPlatformMemoryFree mgr (gn_inputs_at n);
            let n = n\<lparr>gn_inputs_at := 0\<rparr>;
            if err \<noteq> kTvmErrorNoError then Some (- 1, Some n, mgr) else Some (0, Some n, mgr)
          }
          else Some (0, Some n, mgr))"

section \<open>Graph attributes\<close>

text \<open>
  The opening \<^verbatim>\<open>["type", [\<close> of a list, up to the count of its items; \<open>None\<close> when a test fails, which
  sets the status and breaks the loop over the keys.
\<close>

definition open_typed_list ::
    "nat list \<Rightarrow> string \<Rightarrow> json_reader \<Rightarrow> memory_manager \<Rightarrow> (nat option \<times> json_reader \<times> memory_manager) option" where
  "open_typed_list garbage typ reader mgr = do {
     reader \<leftarrow> JSONReader_BeginArray reader;
     (has, reader) \<leftarrow> JSONReader_NextArrayItem reader;
     if \<not> has then Some (None, complain True reader, mgr)
     else do {
       (ty, reader) \<leftarrow> JSONReader_ReadString False 16 reader;
       if ty \<noteq> lit typ then Some (None, complain True reader, mgr)
       else do {
         (has, reader) \<leftarrow> JSONReader_NextArrayItem reader;
         if \<not> has then Some (None, complain True reader, mgr)
         else do {
           reader \<leftarrow> JSONReader_BeginArray reader;
           (r, n, mgr, reader) \<leftarrow> JSONReader_ArrayLength mgr garbage reader;
           if r \<noteq> 0 then Some (None, complain True reader, mgr)
           else Some (n, reader, mgr)
         }
       }
     }
   }"

text \<open>
  The loop that fills an array of \<open>num_items\<close> places from place \<open>count\<close> on; it returns when the text
  has more items than were counted.
\<close>

partial_function (option) fill_items ::
    "nat \<Rightarrow> (json_reader \<Rightarrow> ('a \<times> json_reader) option) \<Rightarrow> nat \<Rightarrow> 'a option list \<Rightarrow> json_reader
     \<Rightarrow> (flow \<times> nat \<times> 'a option list \<times> json_reader) option" where
  "fill_items num_items item count arr reader = do {
     (has, reader) \<leftarrow> JSONReader_NextArrayItem reader;
     if \<not> has then Some (Next, count, arr, reader)
     else if count = num_items then Some (Return, count, arr, complain True reader)
     else do {
       (v, reader) \<leftarrow> item reader;
       arr \<leftarrow> arr_set arr count (Some v);
       fill_items num_items item (count + 1) arr reader
     }
   }"

text \<open>The dimensions of a shape: one, then up to five more, then the end of the array.\<close>

fun read_dims :: "nat \<Rightarrow> int list \<Rightarrow> json_reader \<Rightarrow> (int list \<times> json_reader) option" where
  "read_dims 0 dims reader = do {
     (_, reader) \<leftarrow> JSONReader_NextArrayItem reader;
     Some (dims, reader)
   }"
| "read_dims (Suc n) dims reader = do {
     (has, reader) \<leftarrow> JSONReader_NextArrayItem reader;
     if has
     then do {
       (v, reader) \<leftarrow> JSONReader_ReadInteger reader;
       read_dims n (dims @ [v]) reader
     }
     else Some (dims, reader)
   }"

definition read_shape :: "json_reader \<Rightarrow> (int list \<times> json_reader) option" where
  "read_shape reader = do {
     reader \<leftarrow> JSONReader_BeginArray reader;
     (v, reader) \<leftarrow> JSONReader_ReadInteger reader;
     (has, reader) \<leftarrow> JSONReader_NextArrayItem reader;
     if has then read_dims (TVM_CRT_MAX_NDIM - 1) [v] reader
     else Some ([v], reader)
   }"

text \<open>The end of a typed list; another item is an error.\<close>

definition close_typed_list :: "nat \<Rightarrow> graph_attr \<Rightarrow> nat \<Rightarrow> json_reader \<Rightarrow> memory_manager
     \<Rightarrow> ((flow \<times> int) \<times> graph_attr \<times> nat \<times> json_reader \<times> memory_manager) option" where
  "close_typed_list flag attr bitmask reader mgr = do {
     (has, reader) \<leftarrow> JSONReader_NextArrayItem reader;
     if has then Some ((Break, - 1), attr, bitmask, complain True reader, mgr)
     else Some ((Next, 0), attr, bitmask OR flag, reader, mgr)
   }"

definition Attr_dltype ::
    "nat list \<Rightarrow> graph_attr \<Rightarrow> nat \<Rightarrow> json_reader \<Rightarrow> memory_manager
     \<Rightarrow> ((flow \<times> int) \<times> graph_attr \<times> nat \<times> json_reader \<times> memory_manager) option" where
  "Attr_dltype garbage attr bitmask reader mgr = do {
     (n, reader, mgr) \<leftarrow> open_typed_list garbage ''list_str'' reader mgr;
     case n of
       None \<Rightarrow> Some ((Break, - 1), attr, bitmask, reader, mgr)
     | Some num_items \<Rightarrow> do {
         (err, p, arr, mgr) \<leftarrow> alloc_items mgr TVM_CRT_MAX_STRLEN_DLTYPE num_items;
         let attr = attr\<lparr>ga_dltype := arr, ga_dltype_at := p\<rparr>;
         if err \<noteq> kTvmErrorNoError then Some ((Return, - 1), attr, bitmask, complain True reader, mgr)
         else do {
           (flow, count, arr, reader) \<leftarrow>
             fill_items num_items (JSONReader_ReadString False TVM_CRT_MAX_STRLEN_DLTYPE) 0 arr reader;
           if flow = Return then Some ((Return, - 1), attr\<lparr>ga_dltype := arr\<rparr>, bitmask, reader, mgr)
           else close_typed_list 1 (attr\<lparr>ga_dltype := arr, ga_dltype_count := count\<rparr>) bitmask reader mgr
         }
       }
   }"

definition Attr_storage_id ::
    "nat list \<Rightarrow> graph_attr \<Rightarrow> nat \<Rightarrow> json_reader \<Rightarrow> memory_manager
     \<Rightarrow> ((flow \<times> int) \<times> graph_attr \<times> nat \<times> json_reader \<times> memory_manager) option" where
  "Attr_storage_id garbage attr bitmask reader mgr = do {
     (n, reader, mgr) \<leftarrow> open_typed_list garbage ''list_int'' reader mgr;
     case n of
       None \<Rightarrow> Some ((Break, - 1), attr, bitmask, reader, mgr)
     | Some num_items \<Rightarrow> do {
         (err, p, arr, mgr) \<leftarrow> alloc_items mgr 4 num_items;
         let attr = attr\<lparr>ga_storage_id := arr, ga_storage_id_at := p\<rparr>;
         if err \<noteq> kTvmErrorNoError then Some ((Return, - 1), attr, bitmask, complain True reader, mgr)
         else do {
           (flow, count, arr, reader) \<leftarrow> fill_items num_items JSONReader_ReadUnsignedInteger 0 arr reader;
           if flow = Return then Some ((Return, - 1), attr\<lparr>ga_storage_id := arr\<rparr>, bitmask, reader, mgr)
           else close_typed_list 2 (attr\<lparr>ga_storage_id := arr\<rparr>) bitmask reader mgr
         }
       }
   }"

text \<open>Two blocks, for the dimensions and for their number; failed allocations break here.\<close>

definition Attr_shape ::
    "nat list \<Rightarrow> graph_attr \<Rightarrow> nat \<Rightarrow> json_reader \<Rightarrow> memory_manager
     \<Rightarrow> ((flow \<times> int) \<times> graph_attr \<times> nat \<times> json_reader \<times> memory_manager) option" where
  "Attr_shape garbage attr bitmask reader mgr = do {
     (n, reader, mgr) \<leftarrow> open_typed_list garbage ''list_shape'' reader mgr;
     case n of
       None \<Rightarrow> Some ((Break, - 1), attr, bitmask, reader, mgr)
     | Some num_items \<Rightarrow> do {
         (err, p, arr, mgr) \<leftarrow> alloc_items mgr (8 * TVM_CRT_MAX_NDIM) num_items;
         let attr = attr\<lparr>ga_shape := arr, ga_shape_at := p\<rparr>;
         if err \<noteq> kTvmErrorNoError then Some ((Break, - 1), attr, bitmask, complain True reader, mgr)
         else do {
           (err, q, h) \<leftarrow> TVMPlatformMemoryAllocate mgr (4 * num_items mod 2 ^ 32);
           let mgr = h;
           let attr = attr\<lparr>ga_ndim_at := q\<rparr>;
           if err \<noteq> kTvmErrorNoError then Some ((Break, - 1), attr, bitmask, complain True reader, mgr)
           else do {
             (flow, count, arr, reader) \<leftarrow> fill_items num_items read_shape 0 arr reader;
             if flow = Return then Some ((Return, - 1), attr\<lparr>ga_shape := arr\<rparr>, bitmask, reader, mgr)
             else close_typed_list 4 (attr\<lparr>ga_shape := arr, ga_shape_count := count\<rparr>) bitmask reader mgr
           }
         }
       }
   }"

definition Attr_device_index ::
    "nat list \<Rightarrow> graph_attr \<Rightarrow> nat \<Rightarrow> json_reader \<Rightarrow> memory_manager
     \<Rightarrow> ((flow \<times> int) \<times> graph_attr \<times> nat \<times> json_reader \<times> memory_manager) option" where
  "Attr_device_index garbage attr bitmask reader mgr = do {
     (n, reader, mgr) \<leftarrow> open_typed_list garbage ''list_int'' reader mgr;
     case n of
       None \<Rightarrow> Some ((Break, - 1), attr, bitmask, reader, mgr)
     | Some num_items \<Rightarrow> do {
         (err, p, arr, mgr) \<leftarrow> alloc_items mgr 4 num_items;
         let attr = attr\<lparr>ga_device_index := arr, ga_device_index_at := p\<rparr>;
         if err \<noteq> kTvmErrorNoError then Some ((Break, - 1), attr, bitmask, complain True reader, mgr)
         else do {
           (flow, count, arr, reader) \<leftarrow> fill_items num_items JSONReader_ReadUnsignedInteger 0 arr reader;
           if flow = Return then Some ((Return, - 1), attr\<lparr>ga_device_index := arr\<rparr>, bitmask, reader, mgr)
           else close_typed_list 0 (attr\<lparr>ga_device_index := arr\<rparr>) bitmask reader mgr
         }
       }
   }"

text \<open>An unknown attribute: a list of integers or a size is read and dropped.\<close>

partial_function (option) skip_ints :: "json_reader \<Rightarrow> json_reader option" where
  "skip_ints reader = do {
     (has, reader) \<leftarrow> JSONReader_NextArrayItem reader;
     if \<not> has then Some reader
     else do {
       (_, reader) \<leftarrow> JSONReader_ReadUnsignedInteger reader;
       skip_ints reader
     }
   }"

definition Attr_other ::
    "graph_attr \<Rightarrow> nat \<Rightarrow> json_reader \<Rightarrow> memory_manager
     \<Rightarrow> ((flow \<times> int) \<times> graph_attr \<times> nat \<times> json_reader \<times> memory_manager) option" where
  "Attr_other attr bitmask reader mgr = do {
     reader \<leftarrow> JSONReader_BeginArray reader;
     (has, reader) \<leftarrow> JSONReader_NextArrayItem reader;
     if \<not> has then Some ((Break, - 1), attr, bitmask, complain True reader, mgr)
     else do {
       (ty, reader) \<leftarrow> JSONReader_ReadString False 16 reader;
       if ty = lit ''list_int'' then do {
         (has, reader) \<leftarrow> JSONReader_NextArrayItem reader;
         if \<not> has then Some ((Break, - 1), attr, bitmask, complain True reader, mgr)
         else do {
           reader \<leftarrow> JSONReader_BeginArray reader;
           reader \<leftarrow> skip_ints reader;
           close_typed_list 0 attr bitmask reader mgr
         }
       }
       else if ty = lit ''size_t'' then do {
         (has, reader) \<leftarrow> JSONReader_NextArrayItem reader;
         if \<not> has then Some ((Break, - 1), attr, bitmask, complain True reader, mgr)
         else do {
           (_, reader) \<leftarrow> JSONReader_ReadUnsignedInteger reader;
           close_typed_list 0 attr bitmask reader mgr
         }
       }
       else Some ((Break, - 1), attr, bitmask, complain True reader, mgr)
     }
   }"

definition Attr_key ::
    "nat list \<Rightarrow> u8 list \<Rightarrow> graph_attr \<Rightarrow> nat \<Rightarrow> json_reader \<Rightarrow> memory_manager
     \<Rightarrow> ((flow \<times> int) \<times> graph_attr \<times> nat \<times> json_reader \<times> memory_manager) option" where
  "Attr_key garbage key attr bitmask reader mgr =
     (if key = lit ''dltype'' then Attr_dltype garbage attr bitmask reader mgr
      else if key = lit ''storage_id'' then Attr_storage_id garbage attr bitmask reader mgr
      else if key = lit ''shape'' then Attr_shape garbage attr bitmask reader mgr
      else if key = lit ''device_index'' then Attr_device_index garbage attr bitmask reader mgr
      else Attr_other attr bitmask reader mgr)"

partial_function (option) Attr_loop ::
    "nat list \<Rightarrow> graph_attr \<Rightarrow> nat \<Rightarrow> json_reader \<Rightarrow> memory_manager
     \<Rightarrow> ((flow \<times> int) \<times> graph_attr \<times> nat \<times> json_reader \<times> memory_manager) option" where
  "Attr_loop garbage attr bitmask reader mgr = do {
     (has, key, reader) \<leftarrow> JSONReader_NextObjectItem False 16 reader;
     if \<not> has then Some ((Next, 0), attr, bitmask, reader, mgr)
     else do {
       ((flow, status), attr, bitmask, reader, mgr) \<leftarrow> Attr_key garbage key attr bitmask reader mgr;
       if flow \<noteq> Next then Some ((flow, status), attr, bitmask, reader, mgr)
       else Attr_loop garbage attr bitmask reader mgr
     }
   }"

definition TVMGraphExecutorGraphAttr_Load ::
    "nat list \<Rightarrow> graph_attr \<Rightarrow> json_reader \<Rightarrow> memory_manager
     \<Rightarrow> (int \<times> graph_attr \<times> json_reader \<times> memory_manager) option" where
  "TVMGraphExecutorGraphAttr_Load garbage attr reader mgr = do {
     reader \<leftarrow> JSONReader_BeginObject reader;
     ((flow, status), attr, bitmask, reader, mgr) \<leftarrow> Attr_loop garbage attr 0 reader mgr;
     if flow = Return then Some (status, attr, reader, mgr)
     else if bitmask \<noteq> 7 then Some (- 1, attr, complain True reader, mgr)
     else Some (status, attr, reader, mgr)
   }"

text \<open>A block that is there is released and its pointer cleared; an error stops the sequence.\<close>

definition release_field :: "addr \<Rightarrow> memory_manager \<Rightarrow> (bool \<times> memory_manager) option" where
  "release_field p mgr =
     (if p = 0 then Some (True, mgr)
      else do { (err, mgr) \<leftarrow> TVMPlatformMemoryFree mgr p; Some (err = kTvmErrorNoError, mgr) })"

definition TVMGraphExecutorGraphAttr_Release ::
    "graph_attr \<Rightarrow> memory_manager \<Rightarrow> (int \<times> graph_attr \<times> memory_manager) option" where
  "TVMGraphExecutorGraphAttr_Release attr mgr = do {
     (ok, mgr) \<leftarrow> release_field (ga_storage_id_at attr) mgr;
     let attr = attr\<lparr>ga_storage_id_at := 0\<rparr>;
     if \<not> ok then Some (- 1, attr, mgr)
     else do {
       (ok, mgr) \<leftarrow> release_field (ga_device_index_at attr) mgr;
       let attr = attr\<lparr>ga_device_index_at := 0\<rparr>;
       if \<not> ok then Some (- 1, attr, mgr)
       else do {
         (ok, mgr) \<leftarrow> release_field (ga_dltype_at attr) mgr;
         let attr = attr\<lparr>ga_dltype_at := 0\<rparr>;
         if \<not> ok then Some (- 1, attr, mgr)
         else do {
           (ok, mgr) \<leftarrow> release_field (ga_shape_at attr) mgr;
           let attr = attr\<lparr>ga_shape_at := 0\<rparr>;
           if \<not> ok then Some (- 1, attr, mgr)
           else do {
             (ok, mgr) \<leftarrow> release_field (ga_ndim_at attr) mgr;
             let attr = attr\<lparr>ga_ndim_at := 0\<rparr>;
             Some (if ok then 0 else - 1, attr, mgr)
           }
         }
       }
     }
   }"

section \<open>The graph\<close>

text \<open>
  The executor. The arrays the reader fills are lists with their addresses; the storage pool and the
  entries of the data are bytes in memory, because the operators read and write them there.
\<close>

record graph_executor =
  ge_nodes :: "graph_node option list"
  ge_nodes_at :: addr
  ge_nodes_count :: nat
  ge_input_nodes :: "nat option list"
  ge_input_nodes_at :: addr
  ge_input_nodes_count :: nat
  ge_node_row_ptr :: "nat option list"
  ge_node_row_ptr_at :: addr
  ge_node_row_ptr_count :: nat
  ge_outputs :: "node_entry option list"
  ge_outputs_at :: addr
  ge_outputs_count :: nat
  ge_attrs :: graph_attr
  ge_module_handle :: u32
  ge_device :: dl_device
  ge_storage_pool_at :: addr
  ge_storage_pool_count :: nat
  ge_data_entry_at :: addr
  ge_data_entry_count :: nat
  ge_op_execs :: "tvm_packed_func option list"
  ge_op_execs_at :: addr
  ge_op_execs_count :: nat

text \<open>The cleared executor.\<close>

definition blank_attr :: graph_attr where
  "blank_attr = \<lparr>ga_storage_id = [], ga_storage_id_at = 0, ga_device_index = [], ga_device_index_at = 0, ga_dltype = [],
     ga_dltype_at = 0, ga_dltype_count = 0, ga_shape = [], ga_shape_at = 0, ga_ndim_at = 0, ga_shape_count = 0\<rparr>"

definition blank_executor :: graph_executor where
  "blank_executor = \<lparr>ge_nodes = [], ge_nodes_at = 0, ge_nodes_count = 0, ge_input_nodes = [], ge_input_nodes_at = 0,
     ge_input_nodes_count = 0, ge_node_row_ptr = [], ge_node_row_ptr_at = 0, ge_node_row_ptr_count = 0, ge_outputs = [],
     ge_outputs_at = 0, ge_outputs_count = 0, ge_attrs = blank_attr, ge_module_handle = 0,
     ge_device = \<lparr>device_type = 0, device_id = 0\<rparr>, ge_storage_pool_at = 0, ge_storage_pool_count = 0, ge_data_entry_at = 0,
     ge_data_entry_count = 0, ge_op_execs = [], ge_op_execs_at = 0, ge_op_execs_count = 0\<rparr>"

text \<open>The node of a cleared or of a fresh block: none of its fields is read before it is loaded.\<close>

definition blank_node :: graph_node where
  "blank_node = \<lparr>gn_op_type = [], gn_name = [], gn_param = None, gn_inputs = [], gn_inputs_at = 0, gn_inputs_count = 0\<rparr>"

text \<open>
  The loop that fills an array with items that can fail, from place \<open>count\<close> on. An item that fails ends
  the loop with its status and is not counted.
\<close>

partial_function (option) load_items ::
    "nat \<Rightarrow> (json_reader \<Rightarrow> memory_manager \<Rightarrow> (int \<times> 'a \<times> json_reader \<times> memory_manager) option) \<Rightarrow> nat
     \<Rightarrow> 'a option list \<Rightarrow> json_reader \<Rightarrow> memory_manager
     \<Rightarrow> ((flow \<times> int) \<times> nat \<times> 'a option list \<times> json_reader \<times> memory_manager) option" where
  "load_items num_items item count arr reader mgr = do {
     (has, reader) \<leftarrow> JSONReader_NextArrayItem reader;
     if \<not> has then Some ((Next, 0), count, arr, reader, mgr)
     else if count = num_items then Some ((Return, - 1), count, arr, complain True reader, mgr)
     else do {
       (status, v, reader, mgr) \<leftarrow> item reader mgr;
       arr \<leftarrow> arr_set arr count (Some v);
       if status \<noteq> 0 then Some ((Next, status), count, arr, complain True reader, mgr)
       else load_items num_items item (count + 1) arr reader mgr
     }
   }"

text \<open>
  The block for a list whose items have been counted: \<open>None\<close> for the elements when the count or the
  allocation fails. The pointer of the executor is overwritten even when an earlier block is there.
\<close>

definition list_block ::
    "nat list \<Rightarrow> nat \<Rightarrow> json_reader \<Rightarrow> memory_manager
     \<Rightarrow> ((nat \<times> 'a option list) option \<times> addr option \<times> json_reader \<times> memory_manager) option" where
  "list_block garbage elem_size reader mgr = do {
     reader \<leftarrow> JSONReader_BeginArray reader;
     (r, n, mgr, reader) \<leftarrow> JSONReader_ArrayLength mgr garbage reader;
     if r \<noteq> 0 then Some (None, None, complain True reader, mgr)
     else do {
       (err, p, arr, mgr) \<leftarrow> alloc_items mgr elem_size (the n);
       if err \<noteq> kTvmErrorNoError then Some (None, Some p, complain True reader, mgr)
       else Some (Some (the n, arr), Some p, reader, mgr)
     }
   }"

definition at_or :: "addr \<Rightarrow> addr option \<Rightarrow> addr" where
  "at_or old p = (case p of None \<Rightarrow> old | Some a \<Rightarrow> a)"

definition Load_nodes ::
    "nat list \<Rightarrow> graph_executor \<Rightarrow> nat \<Rightarrow> json_reader \<Rightarrow> memory_manager
     \<Rightarrow> ((flow \<times> int) \<times> graph_executor \<times> nat \<times> json_reader \<times> memory_manager) option" where
  "Load_nodes garbage ex bitmask reader mgr = do {
     (block, p, reader, mgr) \<leftarrow> list_block garbage sizeof_Node reader mgr;
     let ex = ex\<lparr>ge_nodes_at := at_or (ge_nodes_at ex) p\<rparr>;
     case block of
       None \<Rightarrow> Some ((Break, - 1), ex, bitmask, reader, mgr)
     | Some (num_items, arr) \<Rightarrow> do {
         ((flow, status), count, arr, reader, mgr) \<leftarrow>
           load_items num_items (TVMGraphExecutorNode_Load garbage blank_node) (ge_nodes_count ex) arr reader mgr;
         Some ((flow, status), ex\<lparr>ge_nodes := arr, ge_nodes_count := count\<rparr>,
           if flow = Return then bitmask else bitmask OR 1, reader, mgr)
       }
   }"

definition Load_arg_nodes ::
    "nat list \<Rightarrow> graph_executor \<Rightarrow> nat \<Rightarrow> json_reader \<Rightarrow> memory_manager
     \<Rightarrow> ((flow \<times> int) \<times> graph_executor \<times> nat \<times> json_reader \<times> memory_manager) option" where
  "Load_arg_nodes garbage ex bitmask reader mgr = do {
     (block, p, reader, mgr) \<leftarrow> list_block garbage 4 reader mgr;
     let ex = ex\<lparr>ge_input_nodes_at := at_or (ge_input_nodes_at ex) p\<rparr>;
     case block of
       None \<Rightarrow> Some ((Break, - 1), ex, bitmask, reader, mgr)
     | Some (num_items, arr) \<Rightarrow> do {
         (flow, count, arr, reader) \<leftarrow>
           fill_items num_items JSONReader_ReadUnsignedInteger (ge_input_nodes_count ex) arr reader;
         let ex = ex\<lparr>ge_input_nodes := arr, ge_input_nodes_count := count\<rparr>;
         if flow = Return then Some ((Return, - 1), ex, bitmask, reader, mgr)
         else Some ((Next, 0), ex, bitmask OR 2, reader, mgr)
       }
   }"

definition Load_node_row_ptr ::
    "nat list \<Rightarrow> graph_executor \<Rightarrow> nat \<Rightarrow> json_reader \<Rightarrow> memory_manager
     \<Rightarrow> ((flow \<times> int) \<times> graph_executor \<times> nat \<times> json_reader \<times> memory_manager) option" where
  "Load_node_row_ptr garbage ex bitmask reader mgr = do {
     (block, p, reader, mgr) \<leftarrow> list_block garbage 4 reader mgr;
     let ex = ex\<lparr>ge_node_row_ptr_at := at_or (ge_node_row_ptr_at ex) p\<rparr>;
     case block of
       None \<Rightarrow> Some ((Break, - 1), ex, bitmask, reader, mgr)
     | Some (num_items, arr) \<Rightarrow> do {
         (flow, count, arr, reader) \<leftarrow>
           fill_items num_items JSONReader_ReadUnsignedInteger (ge_node_row_ptr_count ex) arr reader;
         let ex = ex\<lparr>ge_node_row_ptr := arr, ge_node_row_ptr_count := count\<rparr>;
         if flow = Return then Some ((Return, - 1), ex, bitmask, reader, mgr)
         else Some ((Next, 0), ex, bitmask OR 4, reader, mgr)
       }
   }"

definition Load_heads ::
    "nat list \<Rightarrow> graph_executor \<Rightarrow> nat \<Rightarrow> json_reader \<Rightarrow> memory_manager
     \<Rightarrow> ((flow \<times> int) \<times> graph_executor \<times> nat \<times> json_reader \<times> memory_manager) option" where
  "Load_heads garbage ex bitmask reader mgr = do {
     (block, p, reader, mgr) \<leftarrow> list_block garbage sizeof_NodeEntry reader mgr;
     let ex = ex\<lparr>ge_outputs_at := at_or (ge_outputs_at ex) p\<rparr>;
     case block of
       None \<Rightarrow> Some ((Break, - 1), ex, bitmask, reader, mgr)
     | Some (num_items, arr) \<Rightarrow> do {
         ((flow, status), count, arr, reader, mgr) \<leftarrow>
           load_items num_items
             (\<lambda>reader mgr. do { (status, e, reader) \<leftarrow> NodeEntry_Load reader; Some (status, e, reader, mgr) })
             (ge_outputs_count ex) arr reader mgr;
         Some ((flow, status), ex\<lparr>ge_outputs := arr, ge_outputs_count := count\<rparr>,
           if flow = Return then bitmask else bitmask OR 8, reader, mgr)
       }
   }"

definition Load_key ::
    "nat list \<Rightarrow> u8 list \<Rightarrow> graph_executor \<Rightarrow> nat \<Rightarrow> json_reader \<Rightarrow> memory_manager
     \<Rightarrow> ((flow \<times> int) \<times> graph_executor \<times> nat \<times> json_reader \<times> memory_manager) option" where
  "Load_key garbage key ex bitmask reader mgr =
     (if key = lit ''nodes'' then Load_nodes garbage ex bitmask reader mgr
      else if key = lit ''arg_nodes'' then Load_arg_nodes garbage ex bitmask reader mgr
      else if key = lit ''node_row_ptr'' then Load_node_row_ptr garbage ex bitmask reader mgr
      else if key = lit ''heads'' then Load_heads garbage ex bitmask reader mgr
      else if key = lit ''attrs'' then do {
        (status, attrs, reader, mgr) \<leftarrow> TVMGraphExecutorGraphAttr_Load garbage (ge_attrs ex) reader mgr;
        Some ((Next, status), ex\<lparr>ge_attrs := attrs\<rparr>, if status \<noteq> 0 then bitmask else bitmask OR 16,
          complain (status \<noteq> 0) reader, mgr)
      }
      else if key = lit ''metadata'' then Some ((Break, 0), ex, bitmask, reader, mgr)
      else Some ((Next, - 1), ex, bitmask, complain True reader, mgr))"

partial_function (option) Load_loop ::
    "nat list \<Rightarrow> graph_executor \<Rightarrow> nat \<Rightarrow> json_reader \<Rightarrow> memory_manager
     \<Rightarrow> ((flow \<times> int) \<times> graph_executor \<times> nat \<times> json_reader \<times> memory_manager) option" where
  "Load_loop garbage ex bitmask reader mgr = do {
     (has, key, reader) \<leftarrow> JSONReader_NextObjectItem False 20 reader;
     if \<not> has then Some ((Next, 0), ex, bitmask, reader, mgr)
     else do {
       ((flow, status), ex, bitmask, reader, mgr) \<leftarrow> Load_key garbage key ex bitmask reader mgr;
       if flow \<noteq> Next \<or> status \<noteq> 0 then Some ((flow, status), ex, bitmask, reader, mgr)
       else Load_loop garbage ex bitmask reader mgr
     }
   }"

definition TVMGraphExecutor_Load ::
    "nat list \<Rightarrow> graph_executor \<Rightarrow> json_reader \<Rightarrow> memory_manager
     \<Rightarrow> (int \<times> graph_executor \<times> json_reader \<times> memory_manager) option" where
  "TVMGraphExecutor_Load garbage ex reader mgr = do {
     reader \<leftarrow> JSONReader_BeginObject reader;
     ((flow, status), ex, bitmask, reader, mgr) \<leftarrow> Load_loop garbage ex 0 reader mgr;
     if flow = Return then Some (status, ex, reader, mgr)
     else if bitmask \<noteq> 31 then Some (- 1, ex, complain True reader, mgr)
     else Some (status, ex, reader, mgr)
   }"

end
