(* ===== verification/Heap_Room.thy ===== *)
theory Heap_Room
  imports Json_Text
begin

text \<open>
  A heap with enough untouched pages: there no allocation fails. Used for the code that reads a graph,
  where every list takes a block of its own and the look-ahead takes two more for a while; and the look-ahead
  itself, on any heap.
\<close>

section \<open>Untouched pages\<close>

definition fresh_pages :: "memory_manager \<Rightarrow> nat" where
  "fresh_pages mgr = pt_max_pages (ptable mgr) - pt_num_pages (ptable mgr)"

definition pages_of :: "nat \<Rightarrow> nat \<Rightarrow> nat" where
  "pages_of ps n = (n + ps - 1) div ps"

lemma TLB_Set_keeps: "TLB_Set t a p = Some t' \<Longrightarrow> length (tlb_entries t') = length (tlb_entries t)"
  by (auto simp: TLB_Set_def bind_eq_Some arr_set_eq_Some split: option.splits)

lemma Allocate_pages:
  assumes "PageMemoryManager_Allocate mgr n = Some (err, p, mgr')" and "n + page_size mgr - 1 < 2 ^ 32"
    and "pt_num_pages (ptable mgr) \<le> pt_max_pages (ptable mgr)" and "pt_max_pages (ptable mgr) < 2 ^ 31"
  shows "page_size mgr' = page_size mgr"
    and "fresh_pages mgr \<le> fresh_pages mgr' + pages_of (page_size mgr) n"
    and "pages_of (page_size mgr) n \<le> fresh_pages mgr \<Longrightarrow> err = kTvmErrorNoError"
proof -
  have np: "pages_needed mgr n = int (pages_of (page_size mgr) n)"
    using assms(2) by (simp add: pages_needed_def pages_of_def)
  let ?k = "pages_of (page_size mgr) n"
  have "page_size mgr' = page_size mgr \<and> fresh_pages mgr \<le> fresh_pages mgr' + ?k
      \<and> (?k \<le> fresh_pages mgr \<longrightarrow> err = kTvmErrorNoError)"
    using assms(1,3,4)
    by (auto simp: PageMemoryManager_Allocate_def Let_def np bind_eq_Some fresh_pages_def PageTable_Resize_def
        split: if_splits)
  then show "page_size mgr' = page_size mgr" "fresh_pages mgr \<le> fresh_pages mgr' + ?k"
    "?k \<le> fresh_pages mgr \<Longrightarrow> err = kTvmErrorNoError"
    by blast+
qed

lemma Free_pages:
  "PageMemoryManager_Free mgr p = Some (err, mgr') \<Longrightarrow>
   page_size mgr' = page_size mgr \<and> fresh_pages mgr' = fresh_pages mgr \<and> mm_num_entries (free_map mgr') = mm_num_entries (free_map mgr) + 1"
  by (auto simp: PageMemoryManager_Free_def MultiMap_Insert_def Let_def bind_eq_Some fresh_pages_def)

text \<open>A request succeeds while there are pages; one for no bytes takes a free block, if there is one.\<close>

definition room :: "(addr \<rightharpoonup> nat) \<Rightarrow> nat \<Rightarrow> nat \<Rightarrow> memory_manager \<Rightarrow> bool" where
  "room live ps r mgr \<longleftrightarrow> pm_inv mgr live \<and> page_size mgr = ps \<and> r \<le> fresh_pages mgr"

lemma alloc_room:
  assumes "room live ps (pages_of ps n + r) mgr" and "n + ps - 1 < 2 ^ 32" and "0 < n \<or> 0 < mm_num_entries (free_map mgr)"
  obtains p sz mgr' where "PageMemoryManager_Allocate mgr n = Some (kTvmErrorNoError, p, mgr')"
    "room (live(p \<mapsto> sz)) ps r mgr'" "live p = None" "n \<le> sz"
proof -
  have inv: "pm_inv mgr live" and ps: "page_size mgr = ps" and fresh: "pages_of ps n + r \<le> fresh_pages mgr"
    using assms(1) by (simp_all add: room_def)
  have w: "pt_num_pages (ptable mgr) \<le> pt_max_pages (ptable mgr)" "pt_max_pages (ptable mgr) < 2 ^ 31" "2 \<le> ps"
    using inv ps by (simp_all add: pm_inv_def pm_wf_def Let_def)
  have "\<exists>p sz mgr' err. PageMemoryManager_Allocate mgr n = Some (err, p, mgr')
      \<and> (err = kTvmErrorNoError \<longrightarrow> pm_inv mgr' (live(p \<mapsto> sz)) \<and> live p = None \<and> n \<le> sz)"
  proof (cases "n = 0")
    case False
    then have "pm_fits mgr n"
      using assms(2) ps by (simp add: pm_fits_def)
    from PageMemoryManager_Allocate_ok [OF inv this] show ?thesis
      by (elim disjE exE conjE) (metis, auto)
  next
    case True
    have p0: "pages_needed mgr 0 = int 0"
      using w(3) ps assms(2) by (simp add: pages_needed_def)
    let ?es = "mm_entries (free_map mgr)"
    have 0: "0 < mm_num_entries (free_map mgr)" "mm_num_entries (free_map mgr) \<le> length ?es"
      using True assms(3) inv by (simp_all add: pm_inv_def pm_wf_def Let_def)
    have "0 \<le> ie_index (?es ! 0)"
    proof -
      have "ie_page (?es ! 0) \<in> set (free_pages mgr)"
        using 0 nth_mem [of 0 "free_pages mgr"] by (simp add: free_pages_def)
      then show ?thesis
        using inv 0(1) pm_page_range(3) [of mgr "ie_page (?es ! 0)"] by (auto simp: pm_inv_def pm_wf_def Let_def)
    qed
    moreover have "\<exists>m. mm_num_entries (free_map mgr) = Suc m"
      using 0(1) by (cases "mm_num_entries (free_map mgr)") auto
    ultimately have "MultiMap_LowerBound (free_map mgr) (int 0) = Some (Some 0)"
      using 0 by (cases ?es) (auto simp: MultiMap_LowerBound_def)
    from Allocate_reuse_ok [OF inv p0 _ this 0(1)] \<open>0 \<le> ie_index (?es ! 0)\<close> True show ?thesis
      by auto
  qed
  then obtain p sz mgr' err where a: "PageMemoryManager_Allocate mgr n = Some (err, p, mgr')"
    "err = kTvmErrorNoError \<longrightarrow> pm_inv mgr' (live(p \<mapsto> sz)) \<and> live p = None \<and> n \<le> sz"
    by blast
  note s = Allocate_pages [OF a(1) _ w(1,2)]
  have "err = kTvmErrorNoError" "page_size mgr' = ps" "r \<le> fresh_pages mgr'"
    using s assms(2) ps fresh by auto
  then show thesis
    using a by (intro that [of p mgr' sz]) (simp_all add: room_def)
qed

lemma free_room:
  assumes "room live ps r mgr" and "live p = Some sz"
  obtains mgr' where "PageMemoryManager_Free mgr p = Some (kTvmErrorNoError, mgr')"
    "room (live(p := None)) ps r mgr'" "0 < mm_num_entries (free_map mgr')"
proof -
  obtain mgr' where "PageMemoryManager_Free mgr p = Some (kTvmErrorNoError, mgr')" "pm_inv mgr' (live(p := None))"
    using PageMemoryManager_Free_ok [of mgr live p sz] assms by (auto simp: room_def)
  then show thesis
    using that Free_pages assms(1) by (fastforce simp: room_def)
qed

section \<open>The look-ahead in a heap with room\<close>

text \<open>The two blocks of the look-ahead: 32 and 40 bytes.\<close>

definition scope_pages :: "nat \<Rightarrow> nat" where
  "scope_pages ps = pages_of ps 32 + pages_of ps 40"

lemma ArrayLength_room:
  assumes h: "room live ps (scope_pages ps + r) mgr" and ps: "ps \<le> 2 ^ 31"
    and w: "white w" and len: "length xs < 2 ^ 32"
    and xs: "\<forall>x \<in> set xs. json_plain x \<and> json_short x \<and> depth_of x < 10 \<and> length stk + 1 + depth_of x < cap"
    and room: "length stk + 1 < cap"
    and rd: "rd T cap k rdr (items_txt w True (map (json_txt w) xs) @ w @ ch_rbracket # rst) (0 # stk)"
  obtains mgr' rdr' where "JSONReader_ArrayLength mgr g rdr = Some (0, Some (length xs), mgr', rdr')"
    "room live ps r mgr'" "0 < mm_num_entries (free_map mgr')"
    "rd T cap k rdr' (items_txt w True (map (json_txt w) xs) @ w @ ch_rbracket # rst) (0 # stk)"
proof -
  have h1: "room live ps (pages_of ps 32 + (pages_of ps 40 + r)) mgr"
    using h by (simp add: scope_pages_def add.assoc)
  obtain p sz m1 where a: "PageMemoryManager_Allocate mgr 32 = Some (kTvmErrorNoError, p, m1)"
    "room (live(p \<mapsto> sz)) ps (pages_of ps 40 + r) m1" "live p = None"
    by (rule alloc_room [OF h1]) (use ps in auto)
  obtain q sz2 m2 where b: "PageMemoryManager_Allocate m1 40 = Some (kTvmErrorNoError, q, m2)"
    "room ((live(p \<mapsto> sz))(q \<mapsto> sz2)) ps r m2" "(live(p \<mapsto> sz)) q = None"
    by (rule alloc_room [OF a(2)]) (use ps in auto)
  have qp: "q \<noteq> p"
    using b(3) by auto
  obtain m3 where c: "PageMemoryManager_Free m2 q = Some (kTvmErrorNoError, m3)" "room (((live(p \<mapsto> sz))(q \<mapsto> sz2))(q := None)) ps r m3"
    using free_room [OF b(2), of q sz2] by auto
  have e: "((live(p \<mapsto> sz))(q \<mapsto> sz2))(q := None) = live(p \<mapsto> sz)"
    using b(3) by (auto simp: fun_eq_iff)
  obtain m4 where d: "PageMemoryManager_Free m3 p = Some (kTvmErrorNoError, m4)" "room ((live(p \<mapsto> sz))(p := None)) ps r m4"
    "0 < mm_num_entries (free_map m4)"
    using free_room [OF c(2) [unfolded e], of p sz] by auto
  have "(live(p \<mapsto> sz))(p := None) = live"
    using a(3) by (auto simp: fun_eq_iff)
  with d(2) have d2: "room live ps r m4"
    by simp
  let ?s = "\<lparr>seq_data = take 10 (g @ replicate 10 0), seq_allocated = 10, seq_size = 0, seq_at = p, seq_data_at = q\<rparr>"
  have s: "SeqCreate mgr 10 g = Some (kTvmErrorNoError, Some ?s, m2)"
    using a(1) b(1) by (simp add: SeqCreate_def sizeof_Seq_def TVMPlatformMemoryAllocate_def)
  have rep: "seq_rep 10 ?s []"
    by (simp add: seq_rep_def)
  have rel: "SeqRelease m2 s' = Some (kTvmErrorNoError, m4)" if "seq_at s' = seq_at ?s" "seq_data_at s' = seq_data_at ?s" for s'
    using that c(1) d(1) by (simp add: SeqRelease_def TVMPlatformMemoryFree_def)
  define dd where "dd = Max (insert 0 (depth_of ` set xs))"
  have dd: "\<forall>x \<in> set xs. json_plain x \<and> json_short x \<and> depth_of x \<le> dd" "dd < 10" "length stk + 1 + dd < cap"
  proof -
    have "dd \<in> insert 0 (depth_of ` set xs)"
      unfolding dd_def by (rule Max_in) simp_all
    then show "dd < 10" "length stk + 1 + dd < cap"
      using xs room by auto
    show "\<forall>x \<in> set xs. json_plain x \<and> json_short x \<and> depth_of x \<le> dd"
      using xs by (simp add: dd_def)
  qed
  from ArrayLength_counts [OF s rep rel w len dd rd] show thesis
    using that d2 d(3) by blast
qed

section \<open>Counting the items of an array\<close>

text \<open>
  C24. At the beginning of an array, printed with any white space, the look-ahead returns the number
  of its items, however they are nested up to the depth of ten its own stack allows, leaves the
  reader where it was without a complaint, and gives back the memory it took. It fails only where one of
  its two requests for memory fails, of 32 and of 40 bytes: then it returns -1 and has read nothing. When
  the second one fails the block of the first is lost.
\<close>
theorem array_length_correct:
  assumes inv: "pm_inv mgr live" and fits: "pm_fits mgr 32" "pm_fits mgr 40"
    and w: "white w" and len: "length xs < 2 ^ 32"
    and xs: "\<forall>x \<in> set xs. json_plain x \<and> json_short x \<and> depth_of x \<le> d" and d: "d < 10" "length stk + 1 + d < cap"
    and r: "rd T cap k r (items_txt w True (map (json_txt w) xs) @ w @ ch_rbracket # rst) (0 # stk)"
  shows "(TVMPlatformMemoryAllocate mgr 32 = Some (kTvmErrorPlatformNoMemory, 0, mgr)
        \<and> JSONReader_ArrayLength mgr g r = Some (- 1, None, mgr, r))
    \<or> (\<exists>p sz m1. TVMPlatformMemoryAllocate mgr 32 = Some (kTvmErrorNoError, p, m1) \<and> live p = None \<and> pm_inv m1 (live(p \<mapsto> sz))
        \<and> ((TVMPlatformMemoryAllocate m1 40 = Some (kTvmErrorPlatformNoMemory, 0, m1)
             \<and> JSONReader_ArrayLength mgr g r = Some (- 1, None, m1, r))
          \<or> (\<exists>q m2 mgr' r'. TVMPlatformMemoryAllocate m1 40 = Some (kTvmErrorNoError, q, m2)
             \<and> JSONReader_ArrayLength mgr g r = Some (0, Some (length xs), mgr', r') \<and> pm_inv mgr' live
             \<and> rd T cap k r' (items_txt w True (map (json_txt w) xs) @ w @ ch_rbracket # rst) (0 # stk)
             \<and> line_count_n r' = line_count_n r \<and> line_count_r r' = line_count_r r)))"
proof -
  have top: "SeqBack (scope_counter r) = Some (False, 0)"
    using scopes.top_ok r by (auto simp: rd_def)
  have full: "JSONReader_ArrayLength mgr g r = Some (- 1, None, m, r)"
    if "SeqCreate mgr 10 g = Some (kTvmErrorPlatformNoMemory, None, m)" for m
    using that by (simp add: JSONReader_ArrayLength_def top)
  have counts: "\<exists>mgr' r'. JSONReader_ArrayLength mgr g r = Some (0, Some (length xs), mgr', r') \<and> pm_inv mgr' live
      \<and> rd T cap k r' (items_txt w True (map (json_txt w) xs) @ w @ ch_rbracket # rst) (0 # stk)
      \<and> line_count_n r' = line_count_n r \<and> line_count_r r' = line_count_r r"
    if s: "SeqCreate mgr 10 g = Some (kTvmErrorNoError, Some s, m)" "seq_rep 10 s []"
      and rel: "\<forall>s'. seq_at s' = seq_at s \<longrightarrow> seq_data_at s' = seq_data_at s \<longrightarrow>
             (\<exists>mgr''. SeqRelease m s' = Some (kTvmErrorNoError, mgr'') \<and> pm_inv mgr'' live)" for s m
  proof -
    obtain m' where m': "SeqRelease m s = Some (kTvmErrorNoError, m')" "pm_inv m' live"
      using rel by auto
    have "SeqRelease m s' = Some (kTvmErrorNoError, m')"
      if "seq_at s' = seq_at s" "seq_data_at s' = seq_data_at s" for s'
      using m'(1) unfolding SeqRelease_def that .
    from ArrayLength_counts [OF s this w len xs d r] m'(2) show ?thesis
      by auto
  qed
  have "pm_fits mgr (4 * 10)" "4 * 10 < (2 :: nat) ^ 32" "1 < (10 :: nat)"
    using fits(2) by simp_all
  from SeqCreate_ok [OF inv fits(1) this, of g] show ?thesis
    by (elim disjE exE conjE) (use full counts in \<open>simp; blast\<close>)+
qed

text \<open>An array of three items, in a heap with room for the look-ahead.\<close>

lemma array_length_correct_witness:
  "let xs = [JInt 7, JArr [JStr [97], JObj [([98], JInt 1)]], JInt 12];
       T = items_txt [32] True (map (json_txt [32]) xs) @ [32] @ ch_rbracket # [0];
       r = \<lparr>istr = T, istr_at = 0, isptr = 0, line_count_r = 0, line_count_n = 0,
         scope_counter = \<lparr>seq_data = replicate 200 0, seq_allocated = 200, seq_size = 1, seq_at = 0, seq_data_at = 0\<rparr>,
         complaints = 0\<rparr>
   in \<exists>mgr' r'. JSONReader_ArrayLength (fresh_heap 4096 8192 8) [] r = Some (0, Some 3, mgr', r') \<and> pm_inv mgr' Map.empty
        \<and> rd T 200 0 r' T [0] \<and> line_count_n r' = 0 \<and> line_count_r r' = 0"
proof -
  let ?xs = "[JInt 7, JArr [JStr [97], JObj [([98], JInt 1)]], JInt 12]"
  let ?T = "items_txt [32] True (map (json_txt [32]) ?xs) @ [32] @ ch_rbracket # [0]"
  let ?r = "\<lparr>istr = ?T, istr_at = 0, isptr = 0, line_count_r = 0, line_count_n = 0,
         scope_counter = \<lparr>seq_data = replicate 200 0, seq_allocated = 200, seq_size = 1, seq_at = 0, seq_data_at = 0\<rparr>,
         complaints = 0\<rparr>"
  let ?m = "fresh_heap 4096 8192 8"
  have r: "rd ?T 200 0 ?r ?T [0]"
    by (simp add: rd_def seq_rep_def del: items_txt.simps json_txt.simps)
  have inv: "pm_inv ?m Map.empty"
    by (rule fresh_pm_inv) simp_all
  have fits: "pm_fits ?m 32" "pm_fits ?m 40"
    by (simp_all add: fresh_fits)
  have xs: "\<forall>x \<in> set ?xs. json_plain x \<and> json_short x \<and> depth_of x \<le> 2"
    by (simp add: plain_def)
  have h: "room Map.empty 256 (pages_of 256 32 + (pages_of 256 40 + 0)) ?m"
    using inv by (simp add: room_def pages_of_def fresh_pages_def fresh_simps sizeof_defs size_sub_def)
  obtain p sz m1 where a: "TVMPlatformMemoryAllocate ?m 32 = Some (kTvmErrorNoError, p, m1)"
    "room (Map.empty(p \<mapsto> sz)) 256 (pages_of 256 40 + 0) m1"
    by (rule alloc_room [OF h]) (auto simp: TVMPlatformMemoryAllocate_def)
  obtain q m2 where b: "TVMPlatformMemoryAllocate m1 40 = Some (kTvmErrorNoError, q, m2)"
    by (rule alloc_room [OF a(2)]) (auto simp: TVMPlatformMemoryAllocate_def)
  have t: "white [32]" "length ?xs < 2 ^ 32" "(2 :: nat) < 10" "length [] + 1 + 2 < (200 :: nat)"
    by (simp_all add: white_def isspace_def)
  from array_length_correct [OF inv fits t(1,2) xs t(3,4) r, of "[]"] show ?thesis
    unfolding Let_def using a(1) b by (simp del: items_txt.simps json_txt.simps add: numeral_3_eq_3)
qed

end
