(* ===== verification/Graph_Executor.thy ===== *)
theory Graph_Executor
  imports Graph_Json
begin

text \<open>
  Running a graph: the second half of \<^verbatim>\<open>graph_executor/graph_executor.c\<close>, from the storage plan and the
  operators to inputs, outputs and parameters. Tensors are bytes in memory: the operators, the reader of
  parameters and the executor share them through their addresses.
\<close>

section \<open>Tensors in memory\<close>

text \<open>The image of a tensor, 40 bytes on this target, and of an array, 48 bytes; the padding is cleared.\<close>

definition tensor_bytes :: "dl_tensor \<Rightarrow> u8 list" where
  "tensor_bytes t =
     le_bytes 4 (nat (dt_data t)) @ i32_bytes (device_type (dt_device t)) @ i32_bytes (device_id (dt_device t))
     @ i32_bytes (dt_ndim t) @ [code (dt_dtype t), bits (dt_dtype t)] @ le_bytes 2 (unat (lanes (dt_dtype t)))
     @ le_bytes 4 (nat (dt_shape t)) @ le_bytes 4 (nat (dt_strides t)) @ replicate 4 0 @ le_bytes 8 (dt_byte_offset t)"

definition sizeof_NDArray :: nat where "sizeof_NDArray = 48"

definition ndarray_bytes :: "ndarray \<Rightarrow> u8 list" where
  "ndarray_bytes a = tensor_bytes (arr_tensor a) @ le_bytes 4 (unat (reference_count a)) @ replicate 4 0"

definition load_ndarray :: "ram \<Rightarrow> addr \<Rightarrow> ndarray" where
  "load_ndarray r a =
     \<lparr>arr_tensor = load_tensor r a, reference_count = of_nat (le_value (load_bytes r (a + 40) 4))\<rparr>"

abbreviation rt_ram :: "runtime \<Rightarrow> ram" where "rt_ram rt \<equiv> ram (rt_machine rt)"

definition rt_store :: "addr \<Rightarrow> u8 list \<Rightarrow> runtime \<Rightarrow> runtime" where
  "rt_store a bs rt = rt\<lparr>rt_machine := (rt_machine rt)\<lparr>ram := store_bytes (rt_ram rt) a bs\<rparr>\<rparr>"

definition rt_alloc :: "nat \<Rightarrow> runtime \<Rightarrow> (tvm_crt_error \<times> addr \<times> runtime) option" where
  "rt_alloc n rt = do {
     (err, p, h) \<leftarrow> TVMPlatformMemoryAllocate (heap (rt_machine rt)) (n mod 2 ^ 32);
     Some (err, p, rt\<lparr>rt_machine := (rt_machine rt)\<lparr>heap := h\<rparr>\<rparr>)
   }"

definition rt_free :: "addr \<Rightarrow> runtime \<Rightarrow> (tvm_crt_error \<times> runtime) option" where
  "rt_free p rt = do {
     (err, h) \<leftarrow> TVMPlatformMemoryFree (heap (rt_machine rt)) p;
     Some (err, rt\<lparr>rt_machine := (rt_machine rt)\<lparr>heap := h\<rparr>\<rparr>)
   }"

text \<open>An element of an array of the graph; unwritten elements cannot be read.\<close>

definition item :: "'a option list \<Rightarrow> nat \<Rightarrow> 'a option" where
  "item xs i = do { e \<leftarrow> arr_get xs i; e }"

section \<open>Sizes and entries\<close>

text \<open>The product in \<^verbatim>\<open>int64_t\<close> stops at a dimension of zero and is narrowed.\<close>

fun Shape_Accumulate_loop :: "int list \<Rightarrow> int \<Rightarrow> int" where
  "Shape_Accumulate_loop [] accum = accum"
| "Shape_Accumulate_loop (d # shape) accum =
     (if d = 0 then accum else Shape_Accumulate_loop shape (to_i64 (accum * d)))"

definition Shape_Accumulate :: "int list \<Rightarrow> nat" where
  "Shape_Accumulate shape = to_size (Shape_Accumulate_loop shape 1)"

definition Shape_Accumulate_at :: "ram \<Rightarrow> dl_tensor \<Rightarrow> nat" where
  "Shape_Accumulate_at r t = Shape_Accumulate (load_i64s r (dt_shape t) (to_size (dt_ndim t)))"

definition TVMGraphExecutor_GetEntryId :: "graph_executor \<Rightarrow> nat \<Rightarrow> nat \<Rightarrow> nat option" where
  "TVMGraphExecutor_GetEntryId ex nid index = do {
     row \<leftarrow> item (ge_node_row_ptr ex) nid;
     Some ((row + index) mod 2 ^ 32)
   }"

text \<open>The address of an entry of the data, which starts with its tensor.\<close>

definition entry_at :: "graph_executor \<Rightarrow> nat \<Rightarrow> addr" where
  "entry_at ex eid = (ge_data_entry_at ex + int (sizeof_NDArray * eid)) mod 2 ^ 32"

section \<open>Inputs and outputs\<close>

definition TVMGraphExecutor_GetNumInputs :: "graph_executor \<Rightarrow> int" where
  "TVMGraphExecutor_GetNumInputs ex = to_i32 (int (ge_input_nodes_count ex))"

definition TVMGraphExecutor_GetNumOutputs :: "graph_executor \<Rightarrow> int" where
  "TVMGraphExecutor_GetNumOutputs ex = to_i32 (int (ge_outputs_count ex))"

fun GetInputIndex_loop :: "graph_executor \<Rightarrow> u8 list \<Rightarrow> nat \<Rightarrow> nat \<Rightarrow> int option" where
  "GetInputIndex_loop ex name i 0 = Some (- 1)"
| "GetInputIndex_loop ex name i (Suc n) = do {
     nid \<leftarrow> item (ge_input_nodes ex) i;
     node \<leftarrow> item (ge_nodes ex) nid;
     if gn_name node = name then Some (to_i32 (int i)) else GetInputIndex_loop ex name (i + 1) n
   }"

text \<open>A name that is not there stops the program.\<close>

definition TVMGraphExecutor_GetInputIndex :: "graph_executor \<Rightarrow> u8 list \<Rightarrow> int option" where
  "TVMGraphExecutor_GetInputIndex ex name = do {
     rv \<leftarrow> GetInputIndex_loop ex name 0 (ge_input_nodes_count ex);
     CHECK (rv \<ge> 0);
     Some rv
   }"

definition TVMGraphExecutor_SetInput ::
    "graph_executor \<Rightarrow> u8 list \<Rightarrow> dl_tensor \<Rightarrow> runtime \<Rightarrow> runtime option" where
  "TVMGraphExecutor_SetInput ex name data_in rt = do {
     index \<leftarrow> TVMGraphExecutor_GetInputIndex ex name;
     nid \<leftarrow> item (ge_input_nodes ex) (nat index);
     eid \<leftarrow> TVMGraphExecutor_GetEntryId ex nid 0;
     Some (rt_store (entry_at ex eid) (le_bytes 4 (nat (dt_data data_in))) rt)
   }"

text \<open>The size of the copy is computed in \<^verbatim>\<open>int64_t\<close> from the narrowed number of elements.\<close>

definition TVMGraphExecutor_GetOutput ::
    "graph_executor \<Rightarrow> int \<Rightarrow> dl_tensor \<Rightarrow> runtime \<Rightarrow> (int \<times> runtime) option" where
  "TVMGraphExecutor_GetOutput ex idx out rt = do {
     CHECK (idx \<ge> 0);
     e \<leftarrow> item (ge_outputs ex) (nat idx);
     eid \<leftarrow> TVMGraphExecutor_GetEntryId ex (ne_node_id e) (ne_index e);
     let elem_bytes = uint (bits (dt_dtype out)) div 8;
     let count = int (Shape_Accumulate_at (rt_ram rt) out);
     let tensor = load_tensor (rt_ram rt) (entry_at ex eid);
     CHECK (dt_ndim out = dt_ndim tensor);
     CHECK (bits (dt_dtype out) = bits (dt_dtype tensor));
     CHECK (Shape_Accumulate_at (rt_ram rt) out = Shape_Accumulate_at (rt_ram rt) tensor);
     Some (0, rt\<lparr>rt_machine := (rt_machine rt)
       \<lparr>ram := copy_bytes (rt_ram rt) (dt_data out) (dt_data tensor) (to_size (count * elem_bytes))\<rparr>\<rparr>)
   }"

section \<open>Parameters\<close>

definition kTVMNDArrayListMagic :: u64 where "kTVMNDArrayListMagic = 0xF7E58D4F05049CB7"
definition TVM_CRT_MAX_STRLEN_PARAM_NAME :: nat where "TVM_CRT_MAX_STRLEN_PARAM_NAME = 80"

text \<open>
  The names go to a block of 80 bytes per node. A name that is too long is reported and copied all the
  same; the block is not longer than the number of nodes allows, whatever the file says.
\<close>

fun LoadParams_names :: "addr \<Rightarrow> nat \<Rightarrow> nat \<Rightarrow> int \<Rightarrow> u8 list \<Rightarrow> runtime \<Rightarrow> (int \<times> u8 list \<times> runtime) option" where
  "LoadParams_names names idx 0 status bptr rt = Some (status, bptr, rt)"
| "LoadParams_names names idx (Suc n) status bptr rt = do {
     (len, bptr) \<leftarrow> sread 8 bptr;
     let name_length = le_value len;
     let status = (if name_length \<ge> TVM_CRT_MAX_STRLEN_PARAM_NAME then - 1 else status);
     (name, bptr) \<leftarrow> sread (name_length mod 2 ^ 32) bptr;
     LoadParams_names names (idx + 1) n status bptr (rt_store (names + int (TVM_CRT_MAX_STRLEN_PARAM_NAME * idx)) name rt)
   }"

text \<open>A member of an entry that is set is released and cleared; a failure is noted in the status.\<close>

definition drop_member :: "addr \<Rightarrow> int \<Rightarrow> runtime \<Rightarrow> (int \<times> runtime) option" where
  "drop_member field status rt =
     (let p = int (le_value (load_bytes (rt_ram rt) field 4))
      in if p = 0 then Some (status, rt)
         else do {
           (err, rt) \<leftarrow> rt_free p rt;
           Some (if err \<noteq> kTvmErrorNoError then - 1 else status, rt_store field (le_bytes 4 0) rt)
         })"

text \<open>
  One parameter. The test that the name is an input is \<open>in_idx > 0\<close>, and an entry that does not exist is
  reported and written all the same.
\<close>

definition LoadParams_one ::
    "graph_executor \<Rightarrow> addr \<Rightarrow> nat \<Rightarrow> int \<Rightarrow> u8 list \<Rightarrow> runtime \<Rightarrow> (int \<times> u8 list \<times> runtime) option" where
  "LoadParams_one ex names idx status bptr rt = do {
     name \<leftarrow> c_string (rt_ram rt) (names + int (TVM_CRT_MAX_STRLEN_PARAM_NAME * idx));
     in_idx \<leftarrow> TVMGraphExecutor_GetInputIndex ex (butlast name);
     CHECK (in_idx > 0);
     nid \<leftarrow> item (ge_input_nodes ex) (nat in_idx);
     eid \<leftarrow> TVMGraphExecutor_GetEntryId ex nid 0;
     let status = (if eid < ge_data_entry_count ex then status else - 1);
     (status, rt) \<leftarrow> drop_member (entry_at ex eid + 20) status rt;
     (status, rt) \<leftarrow> drop_member (entry_at ex eid) status rt;
     (r, ret, m, bptr) \<leftarrow> TVMNDArray_Load (rt_machine rt) bptr;
     Some (status OR r, bptr, rt_store (entry_at ex eid) (ndarray_bytes ret) (rt\<lparr>rt_machine := m\<rparr>))
   }"

fun LoadParams_loop ::
    "graph_executor \<Rightarrow> addr \<Rightarrow> nat \<Rightarrow> nat \<Rightarrow> int \<Rightarrow> u8 list \<Rightarrow> runtime \<Rightarrow> (int \<times> u8 list \<times> runtime) option" where
  "LoadParams_loop ex names idx 0 status bptr rt = Some (status, bptr, rt)"
| "LoadParams_loop ex names idx (Suc n) status bptr rt = do {
     (status, bptr, rt) \<leftarrow> LoadParams_one ex names idx status bptr rt;
     LoadParams_loop ex names (idx + 1) n status bptr rt
   }"

text \<open>The size argument is not used: reading past the end of the blob is \<open>None\<close>.\<close>

definition TVMGraphExecutor_LoadParams :: "graph_executor \<Rightarrow> u8 list \<Rightarrow> runtime \<Rightarrow> (int \<times> runtime) option" where
  "TVMGraphExecutor_LoadParams ex param_blob rt = do {
     (header, bptr) \<leftarrow> sread 8 param_blob;
     let status = (if le_value header \<noteq> unat kTVMNDArrayListMagic then - 1 else (0 :: int));
     (reserved, bptr) \<leftarrow> sread 8 bptr;
     (err, names, rt) \<leftarrow> rt_alloc (TVM_CRT_MAX_STRLEN_PARAM_NAME * ge_nodes_count ex) rt;
     if err \<noteq> kTvmErrorNoError then Some (- 1, rt)
     else do {
       let rt = rt_store names (replicate (TVM_CRT_MAX_STRLEN_PARAM_NAME * ge_nodes_count ex mod 2 ^ 32) 0) rt;
       (n, bptr) \<leftarrow> sread 8 bptr;
       let names_count = le_value n;
       (status, bptr, rt) \<leftarrow> LoadParams_names names 0 names_count status bptr rt;
       (sz, bptr) \<leftarrow> sread 8 bptr;
       let count = le_value sz mod 2 ^ 32;
       let status = (if count \<noteq> names_count then - 1 else status);
       (status, bptr, rt) \<leftarrow> LoadParams_loop ex names 0 count status bptr rt;
       (err, rt) \<leftarrow> rt_free names rt;
       Some (if err \<noteq> kTvmErrorNoError then - 1 else status, rt)
     }
   }"

section \<open>The storage plan\<close>

text \<open>
  The parts of the stack that the code reads before it writes them all: the stack of the array reader,
  the code of an unknown data type, and the packed functions for the parameters and the operators.
\<close>

record stack_junk =
  sj_scopes :: "nat list"
  sj_code :: "nat \<Rightarrow> u8"
  sj_lookup :: tvm_packed_func
  sj_op :: "nat \<Rightarrow> tvm_packed_func"

record pool_entry =
  pe_size :: nat
  pe_device_type :: int
  pe_entry_id :: nat

definition sizeof_PoolEntry :: nat where "sizeof_PoolEntry = 12"
definition sizeof_StorageEntry :: nat where "sizeof_StorageEntry = 56"

text \<open>The types of the entries, from their text.\<close>

fun read_types :: "(nat \<Rightarrow> u8) \<Rightarrow> graph_attr \<Rightarrow> nat \<Rightarrow> nat \<Rightarrow> dl_data_type list option" where
  "read_types junk attrs idx 0 = Some []"
| "read_types junk attrs idx (Suc n) = do {
     s \<leftarrow> item (ga_dltype attrs) idx;
     ts \<leftarrow> read_types junk attrs (idx + 1) n;
     Some (String2DLDataType (junk idx) s # ts)
   }"

text \<open>The bytes an entry needs, in \<^verbatim>\<open>size_t\<close>.\<close>

definition entry_bytes :: "int list \<Rightarrow> dl_data_type \<Rightarrow> nat" where
  "entry_bytes shape t =
     (let nbits = unat (bits t) * unat (lanes t) in ((nbits + 7) div 8) * Shape_Accumulate shape mod 2 ^ 32)"

text \<open>
  The size of a place of the pool is the largest one of its entries. There are as many places as nodes:
  a storage id beyond them is written outside the block.
\<close>

definition plan_step ::
    "graph_attr \<Rightarrow> dl_data_type list \<Rightarrow> int \<Rightarrow> nat \<Rightarrow> pool_entry list \<times> nat \<Rightarrow> (pool_entry list \<times> nat) option" where
  "plan_step attrs vtype dev idx s = do {
     let (pool, pool_entry_count) = s;
     sid \<leftarrow> item (ga_storage_id attrs) idx;
     shape \<leftarrow> item (ga_shape attrs) idx;
     t \<leftarrow> arr_get vtype idx;
     let pool_entry_count = (if sid \<ge> pool_entry_count then (sid + 1) mod 2 ^ 32 else pool_entry_count);
     e \<leftarrow> arr_get pool sid;
     pool \<leftarrow> arr_set pool sid
       \<lparr>pe_size = max (pe_size e) (entry_bytes shape t), pe_device_type = dev, pe_entry_id = idx\<rparr>;
     Some (pool, pool_entry_count)
   }"

fun plan_loop ::
    "graph_attr \<Rightarrow> dl_data_type list \<Rightarrow> int \<Rightarrow> nat \<Rightarrow> nat \<Rightarrow> pool_entry list \<times> nat \<Rightarrow> (pool_entry list \<times> nat) option" where
  "plan_loop attrs vtype dev idx 0 s = Some s"
| "plan_loop attrs vtype dev idx (Suc n) s = do {
     s \<leftarrow> plan_step attrs vtype dev idx s;
     plan_loop attrs vtype dev (idx + 1) n s
   }"

definition storage_at :: "graph_executor \<Rightarrow> nat \<Rightarrow> addr" where
  "storage_at ex i = (ge_storage_pool_at ex + int (sizeof_StorageEntry * i)) mod 2 ^ 32"

text \<open>
  A parameter that is linked into the program takes its place without a block. Its rank is that of the
  last entry of the place, its shape the one at the number of the place.
\<close>

definition linked_entry :: "graph_executor \<Rightarrow> nat \<Rightarrow> pool_entry \<Rightarrow> u32 \<Rightarrow> runtime \<Rightarrow> runtime option" where
  "linked_entry ex idx pit p rt = do {
     let base = storage_at ex (ge_storage_pool_count ex);
     shape \<leftarrow> item (ga_shape (ge_attrs ex)) (pe_entry_id pit);
     let rt = rt_store base [1] rt;
     let rt = rt_store (base + 8) (le_bytes 4 (unat p) @ i32_bytes (device_type (ge_device ex))
       @ i32_bytes (device_id (ge_device ex)) @ i32_bytes (int (length shape))) rt;
     let rt = rt_store (base + 28) (le_bytes 4 (nat ((ga_shape_at (ge_attrs ex) + int (8 * TVM_CRT_MAX_NDIM * idx)) mod 2 ^ 32))
       @ le_bytes 4 0) rt;
     Some (rt_store (base + 40) (le_bytes 8 0) rt)
   }"

text \<open>
  One place of the pool. Only a linked parameter sets the flag \<^verbatim>\<open>is_linked_param\<close>: for the others it
  keeps what the block held before.
\<close>

definition storage_step ::
    "image \<Rightarrow> pool_entry list \<Rightarrow> tvm_packed_func option \<Rightarrow> nat \<Rightarrow> graph_executor \<Rightarrow> runtime
     \<Rightarrow> (tvm_packed_func option \<times> graph_executor \<times> runtime) option" where
  "storage_step im pool lookup idx ex rt = do {
     pit \<leftarrow> arr_get pool idx;
     (found, lookup, rt) \<leftarrow> (case lookup of
         None \<Rightarrow> Some (0, None, rt)
       | Some pf \<Rightarrow> do {
           vs \<leftarrow> arr_set (arg_values (pf_args pf)) 0 (set_int64 (int idx));
           (r, pf, rt) \<leftarrow> TVMPackedFunc_Call 2 im (pf\<lparr>pf_args := (pf_args pf)\<lparr>arg_values := vs\<rparr>\<rparr>) rt;
           CHECK (r = 0);
           rv \<leftarrow> arr_get (arg_values (pf_ret_value pf)) 0;
           Some (v_handle rv, Some pf, rt)
         });
     rt \<leftarrow> (if found \<noteq> 0 then linked_entry ex idx pit found rt
       else do {
         let shape = int ((pe_size pit + 3) mod 2 ^ 32 div 4) # replicate (TVM_CRT_MAX_NDIM - 1) 0;
         (status, arr, m) \<leftarrow> TVMNDArray_Empty (rt_machine rt) 1 shape
           \<lparr>code = of_nat kDLFloat, bits = 32, lanes = 1\<rparr> (ge_device ex);
         CHECK (status = 0);
         Some (rt_store (storage_at ex (ge_storage_pool_count ex) + 8) (ndarray_bytes arr) (rt\<lparr>rt_machine := m\<rparr>))
       });
     Some (lookup, ex\<lparr>ge_storage_pool_count := ge_storage_pool_count ex + 1\<rparr>, rt)
   }"

fun storage_loop ::
    "image \<Rightarrow> pool_entry list \<Rightarrow> tvm_packed_func option \<Rightarrow> nat \<Rightarrow> nat \<Rightarrow> graph_executor \<Rightarrow> runtime
     \<Rightarrow> (graph_executor \<times> runtime) option" where
  "storage_loop im pool lookup idx 0 ex rt = Some (ex, rt)"
| "storage_loop im pool lookup idx (Suc n) ex rt = do {
     (lookup, ex, rt) \<leftarrow> storage_step im pool lookup idx ex rt;
     storage_loop im pool lookup (idx + 1) n ex rt
   }"

text \<open>Every entry is a view of its place, with its own shape and type.\<close>

definition view_step :: "dl_data_type list \<Rightarrow> graph_executor \<Rightarrow> nat \<Rightarrow> runtime \<Rightarrow> runtime option" where
  "view_step vtype ex idx rt = do {
     storage_id \<leftarrow> item (ga_storage_id (ge_attrs ex)) idx;
     CHECK (storage_id < ge_storage_pool_count ex);
     shape \<leftarrow> item (ga_shape (ge_attrs ex)) idx;
     t \<leftarrow> arr_get vtype idx;
     (status, view, m) \<leftarrow> TVMNDArray_CreateView (rt_machine rt)
       (load_ndarray (rt_ram rt) (storage_at ex storage_id + 8)) shape (int (length shape)) t;
     CHECK (status = 0);
     Some (rt_store (entry_at ex idx) (ndarray_bytes (TVMNDArray_IncrementReference view)) (rt\<lparr>rt_machine := m\<rparr>))
   }"

fun view_loop :: "dl_data_type list \<Rightarrow> graph_executor \<Rightarrow> nat \<Rightarrow> nat \<Rightarrow> runtime \<Rightarrow> runtime option" where
  "view_loop vtype ex idx 0 rt = Some rt"
| "view_loop vtype ex idx (Suc n) rt = do {
     rt \<leftarrow> view_step vtype ex idx rt;
     view_loop vtype ex (idx + 1) n rt
   }"

text \<open>The function of the linked parameters, when the module has one.\<close>

definition find_lookup ::
    "tvm_packed_func \<Rightarrow> graph_executor \<Rightarrow> runtime \<Rightarrow> (tvm_packed_func option \<times> runtime) option" where
  "find_lookup junk ex rt = do {
     vs \<leftarrow> arr_set (arg_values (pf_args junk)) 0 (set_int64 0);
     ts \<leftarrow> arr_set (arg_tcodes (pf_args junk)) 0 kTVMArgInt;
     (status, pf, rt) \<leftarrow> TVMPackedFunc_InitModuleFunc junk (ge_module_handle ex) (c_str ''_lookup_linked_param'')
       \<lparr>arg_values = vs, arg_tcodes = ts, values_count = 1\<rparr> rt;
     Some (if status = 0 then Some pf else None, rt)
   }"

definition TVMGraphExecutor_SetupStorage ::
    "image \<Rightarrow> stack_junk \<Rightarrow> graph_executor \<Rightarrow> runtime \<Rightarrow> (int \<times> graph_executor \<times> runtime) option" where
  "TVMGraphExecutor_SetupStorage im junk ex rt = do {
     (lookup, rt) \<leftarrow> find_lookup (sj_lookup junk) ex rt;
     let attrs = ge_attrs ex;
     (err, vtype_at, rt) \<leftarrow> rt_alloc (4 * ga_dltype_count attrs) rt;
     if err \<noteq> kTvmErrorNoError then Some (- 1, ex, rt)
     else do {
       vtype \<leftarrow> read_types (sj_code junk) attrs 0 (ga_dltype_count attrs);
       (err, pool_at, rt) \<leftarrow> rt_alloc (sizeof_PoolEntry * ge_nodes_count ex) rt;
       if err \<noteq> kTvmErrorNoError then Some (- 1, ex, rt)
       else do {
         (pool, pool_entry_count) \<leftarrow> plan_loop attrs vtype (device_type (ge_device ex)) 0 (ga_shape_count attrs)
           (replicate (ge_nodes_count ex) \<lparr>pe_size = 0, pe_device_type = 0, pe_entry_id = 0\<rparr>, 0);
         (err, p, rt) \<leftarrow> rt_alloc (sizeof_StorageEntry * pool_entry_count) rt;
         let ex = ex\<lparr>ge_storage_pool_at := p\<rparr>;
         if err \<noteq> kTvmErrorNoError then Some (- 1, ex, rt)
         else do {
           (ex, rt) \<leftarrow> storage_loop im pool lookup 0 pool_entry_count ex rt;
           count \<leftarrow> item (ge_node_row_ptr ex) ((ge_node_row_ptr_count ex + 2 ^ 32 - 1) mod 2 ^ 32);
           (err, p, rt) \<leftarrow> rt_alloc (sizeof_NDArray * count) rt;
           let ex = ex\<lparr>ge_data_entry_count := count, ge_data_entry_at := p\<rparr>;
           if err \<noteq> kTvmErrorNoError then Some (- 1, ex, rt)
           else do {
             rt \<leftarrow> view_loop vtype ex 0 count rt;
             (err, rt) \<leftarrow> rt_free vtype_at rt;
             if err \<noteq> kTvmErrorNoError then Some (tvm_crt_error_code err, ex, rt)
             else do {
               (err, rt) \<leftarrow> rt_free pool_at rt;
               Some (if err \<noteq> kTvmErrorNoError then - 1 else 0, ex, rt)
             }
           }
         }
       }
     }
   }"

section \<open>The operators\<close>

text \<open>
  The arguments are the addresses of the tensors. Flattening works on a cleared tensor of the function's
  own frame, whose shape is null: the count 1 is written at address 0.
\<close>

fun flatten_args :: "nat \<Rightarrow> runtime \<Rightarrow> runtime" where
  "flatten_args 0 rt = rt"
| "flatten_args (Suc n) rt = flatten_args n (rt_store 0 (i64_bytes (int (Shape_Accumulate []))) rt)"

definition TVMGraphExecutor_CreateTVMOp ::
    "graph_executor \<Rightarrow> op_param \<Rightarrow> addr list \<Rightarrow> tvm_packed_func \<Rightarrow> runtime
     \<Rightarrow> (int \<times> tvm_packed_func \<times> runtime) option" where
  "TVMGraphExecutor_CreateTVMOp ex param args pf rt = do {
     CHECK (length args \<le> TVM_CRT_MAX_ARGS);
     let rt = (if op_flatten_data param \<noteq> 0 then flatten_args (length args) rt else rt);
     targs \<leftarrow> TVMArgs_Create (map (\<lambda>a. set_handle 0 (of_int a)) args) (replicate (length args) kTVMNDArrayHandle) (length args);
     TVMPackedFunc_InitModuleFunc pf (ge_module_handle ex) (op_func_name param @ [0]) targs rt
   }"

text \<open>The array for the arguments has ten places; the count is tested only when all are written.\<close>

fun op_inputs :: "graph_executor \<Rightarrow> graph_node \<Rightarrow> nat \<Rightarrow> nat \<Rightarrow> addr list \<Rightarrow> addr list option" where
  "op_inputs ex inode idx 0 args = Some args"
| "op_inputs ex inode idx (Suc n) args = do {
     e \<leftarrow> item (gn_inputs inode) idx;
     eid \<leftarrow> TVMGraphExecutor_GetEntryId ex (ne_node_id e) (ne_index e);
     CHECK (length args < TVM_CRT_MAX_ARGS);
     op_inputs ex inode (idx + 1) n (args @ [entry_at ex eid])
   }"

fun op_outputs :: "graph_executor \<Rightarrow> nat \<Rightarrow> nat \<Rightarrow> nat \<Rightarrow> addr list \<Rightarrow> addr list option" where
  "op_outputs ex nid idx 0 args = Some args"
| "op_outputs ex nid idx (Suc n) args = do {
     eid \<leftarrow> TVMGraphExecutor_GetEntryId ex nid idx;
     CHECK (length args < TVM_CRT_MAX_ARGS);
     op_outputs ex nid (idx + 1) n (args @ [entry_at ex eid])
   }"

definition null_op :: tvm_packed_func where
  "null_op = \<lparr>pf_name = [], pf_fexec = 0, pf_args = zero_args, pf_ret_value = zero_args\<rparr>"

text \<open>
  The operator of one node; \<open>None\<close> in the place of the operator ends the loop with an error. That the
  function was not found is not noticed: the operator is then what was on the stack.
\<close>

definition setup_op ::
    "(nat \<Rightarrow> tvm_packed_func) \<Rightarrow> graph_executor \<Rightarrow> nat \<Rightarrow> runtime \<Rightarrow> (tvm_packed_func option \<times> runtime) option" where
  "setup_op junk ex nid rt = do {
     inode \<leftarrow> item (ge_nodes ex) nid;
     if gn_op_type inode = lit ''null'' then Some (Some null_op, rt)
     else do {
       args \<leftarrow> op_inputs ex inode 0 (gn_inputs_count inode) [];
       param \<leftarrow> gn_param inode;
       args \<leftarrow> op_outputs ex nid 0 (op_num_outputs param) args;
       if gn_op_type inode \<noteq> lit ''tvm_op'' then Some (None, rt)
       else if length args \<ge> TVM_CRT_MAX_ARGS then Some (None, rt)
       else do {
         (_, pf, rt) \<leftarrow> TVMGraphExecutor_CreateTVMOp ex param args (junk nid) rt;
         Some (Some pf, rt)
       }
     }
   }"

fun setup_ops_loop ::
    "(nat \<Rightarrow> tvm_packed_func) \<Rightarrow> graph_executor \<Rightarrow> nat \<Rightarrow> nat \<Rightarrow> runtime \<Rightarrow> (int \<times> graph_executor \<times> runtime) option" where
  "setup_ops_loop junk ex nid 0 rt = Some (0, ex, rt)"
| "setup_ops_loop junk ex nid (Suc n) rt = do {
     (op, rt) \<leftarrow> setup_op junk ex nid rt;
     case op of
       None \<Rightarrow> Some (- 1, ex, rt)
     | Some pf \<Rightarrow> do {
         ops \<leftarrow> arr_set (ge_op_execs ex) nid (Some pf);
         setup_ops_loop junk (ex\<lparr>ge_op_execs := ops\<rparr>) (nid + 1) n rt
       }
   }"

definition sizeof_PackedFunc :: nat where "sizeof_PackedFunc = 472"

definition TVMGraphExecutor_SetupOpExecs ::
    "stack_junk \<Rightarrow> graph_executor \<Rightarrow> runtime \<Rightarrow> (int \<times> graph_executor \<times> runtime) option" where
  "TVMGraphExecutor_SetupOpExecs junk ex rt = do {
     let ex = ex\<lparr>ge_op_execs_count := ge_nodes_count ex\<rparr>;
     (err, p, arr, h) \<leftarrow> alloc_items (heap (rt_machine rt)) sizeof_PackedFunc (ge_op_execs_count ex);
     let rt = rt\<lparr>rt_machine := (rt_machine rt)\<lparr>heap := h\<rparr>\<rparr>;
     let ex = ex\<lparr>ge_op_execs := arr, ge_op_execs_at := p\<rparr>;
     if err \<noteq> kTvmErrorNoError then Some (- 1, ex, rt)
     else setup_ops_loop (sj_op junk) ex 0 (ge_nodes_count ex) rt
   }"

text \<open>The operators run in the order of the nodes; their results are dropped.\<close>

fun Run_loop :: "image \<Rightarrow> nat \<Rightarrow> nat \<Rightarrow> graph_executor \<Rightarrow> runtime \<Rightarrow> (graph_executor \<times> runtime) option" where
  "Run_loop im idx 0 ex rt = Some (ex, rt)"
| "Run_loop im idx (Suc n) ex rt = do {
     pf \<leftarrow> item (ge_op_execs ex) idx;
     if pf_fexec pf \<noteq> 0
     then do {
       (_, pf, rt) \<leftarrow> TVMPackedFunc_Call 2 im pf rt;
       Run_loop im (idx + 1) n (ex\<lparr>ge_op_execs := (ge_op_execs ex)[idx := Some pf]\<rparr>) rt
     }
     else Run_loop im (idx + 1) n ex rt
   }"

definition TVMGraphExecutor_Run :: "image \<Rightarrow> graph_executor \<Rightarrow> runtime \<Rightarrow> (graph_executor \<times> runtime) option" where
  "TVMGraphExecutor_Run im ex rt = Run_loop im 0 (ge_op_execs_count ex) ex rt"

section \<open>Creation and release\<close>

definition rt_heap :: "memory_manager \<Rightarrow> runtime \<Rightarrow> runtime" where
  "rt_heap h rt = rt\<lparr>rt_machine := (rt_machine rt)\<lparr>heap := h\<rparr>\<rparr>"

text \<open>The result of reading the graph is not looked at.\<close>

definition TVMGraphExecutor_Init ::
    "image \<Rightarrow> stack_junk \<Rightarrow> graph_executor \<Rightarrow> u8 list \<Rightarrow> u32 \<Rightarrow> dl_device \<Rightarrow> runtime
     \<Rightarrow> (int \<times> graph_executor \<times> runtime) option" where
  "TVMGraphExecutor_Init im junk ex graph_json module_handle dev rt = do {
     (err, reader, h) \<leftarrow> JSONReader_Create (heap (rt_machine rt)) (sj_scopes junk) graph_json;
     let rt = rt_heap h rt;
     if err \<noteq> kTvmErrorNoError then Some (- 1, ex, rt)
     else do {
       (_, ex, reader, h) \<leftarrow> TVMGraphExecutor_Load (sj_scopes junk) ex (the reader) h;
       (err, h) \<leftarrow> JSONReader_Release h reader;
       let rt = rt_heap h rt;
       if err \<noteq> kTvmErrorNoError then Some (- 1, ex, rt)
       else do {
         (status, ex, rt) \<leftarrow> TVMGraphExecutor_SetupStorage im junk
           (ex\<lparr>ge_module_handle := module_handle, ge_device := dev\<rparr>) rt;
         if status \<noteq> 0 then Some (status, ex, rt)
         else TVMGraphExecutor_SetupOpExecs junk ex rt
       }
     }
   }"

definition sizeof_GraphExecutor :: nat where "sizeof_GraphExecutor = 104"

definition TVMGraphExecutor_Create ::
    "image \<Rightarrow> stack_junk \<Rightarrow> u8 list \<Rightarrow> u32 \<Rightarrow> dl_device \<Rightarrow> runtime
     \<Rightarrow> (int \<times> addr \<times> graph_executor option \<times> runtime) option" where
  "TVMGraphExecutor_Create im junk sym_json module_handle dev rt = do {
     (err, p, rt) \<leftarrow> rt_alloc sizeof_GraphExecutor rt;
     if err \<noteq> kTvmErrorNoError then Some (- 1, p, None, rt)
     else do {
       (status, ex, rt) \<leftarrow> TVMGraphExecutor_Init im junk blank_executor sym_json module_handle dev rt;
       Some (status, p, Some ex, rt)
     }
   }"

text \<open>A sequence of releases stops at the first failure, whose code is the result.\<close>

fun release_nodes :: "graph_executor \<Rightarrow> nat \<Rightarrow> nat \<Rightarrow> runtime \<Rightarrow> (int \<times> graph_executor \<times> runtime) option" where
  "release_nodes ex idx 0 rt = Some (0, ex, rt)"
| "release_nodes ex idx (Suc n) rt = do {
     node \<leftarrow> item (ge_nodes ex) idx;
     (status, node, h) \<leftarrow> TVMGraphExecutorNodeRelease (Some node) (heap (rt_machine rt));
     let ex = ex\<lparr>ge_nodes := (ge_nodes ex)[idx := node]\<rparr>;
     if status \<noteq> 0 then Some (status, ex, rt_heap h rt)
     else release_nodes ex (idx + 1) n (rt_heap h rt)
   }"

fun release_storage :: "graph_executor \<Rightarrow> nat \<Rightarrow> nat \<Rightarrow> runtime \<Rightarrow> (int \<times> runtime) option" where
  "release_storage ex idx 0 rt = Some (0, rt)"
| "release_storage ex idx (Suc n) rt =
     (if rt_ram rt (storage_at ex idx) = 0
      then do {
        (status, arr, m) \<leftarrow> TVMNDArray_Release (rt_machine rt) (load_ndarray (rt_ram rt) (storage_at ex idx + 8));
        let rt = rt_store (storage_at ex idx + 8) (ndarray_bytes arr) (rt\<lparr>rt_machine := m\<rparr>);
        if status \<noteq> 0 then Some (status, rt)
        else release_storage ex (idx + 1) n rt
      }
      else release_storage ex (idx + 1) n rt)"

fun release_views :: "graph_executor \<Rightarrow> nat \<Rightarrow> nat \<Rightarrow> runtime \<Rightarrow> (int \<times> runtime) option" where
  "release_views ex idx 0 rt = Some (0, rt)"
| "release_views ex idx (Suc n) rt = do {
     (err, rt) \<leftarrow> rt_free (dt_shape (load_tensor (rt_ram rt) (entry_at ex idx))) rt;
     if err \<noteq> kTvmErrorNoError then Some (tvm_crt_error_code err, rt)
     else release_views ex (idx + 1) n rt
   }"

fun release_blocks :: "addr list \<Rightarrow> runtime \<Rightarrow> (int \<times> runtime) option" where
  "release_blocks [] rt = Some (0, rt)"
| "release_blocks (p # ps) rt = do {
     (err, rt) \<leftarrow> rt_free p rt;
     if err \<noteq> kTvmErrorNoError then Some (tvm_crt_error_code err, rt)
     else release_blocks ps rt
   }"

text \<open>The table \<^verbatim>\<open>g_fexecs\<close> that would be released last is never allocated by any part of the program.\<close>

definition TVMGraphExecutor_Release :: "addr \<Rightarrow> graph_executor \<Rightarrow> runtime \<Rightarrow> (int \<times> graph_executor \<times> runtime) option" where
  "TVMGraphExecutor_Release self ex rt = do {
     (status, ex, rt) \<leftarrow> release_nodes ex 0 (ge_nodes_count ex) rt;
     if status \<noteq> 0 then Some (status, ex, rt)
     else do {
       (status, rt) \<leftarrow> release_blocks [ge_nodes_at ex] rt;
       if status \<noteq> 0 then Some (status, ex, rt)
       else do {
         (status, attrs, h) \<leftarrow> TVMGraphExecutorGraphAttr_Release (ge_attrs ex) (heap (rt_machine rt));
         let ex = ex\<lparr>ge_attrs := attrs\<rparr>;
         let rt = rt_heap h rt;
         if status \<noteq> 0 then Some (status, ex, rt)
         else do {
           (status, rt) \<leftarrow> release_storage ex 0 (ge_storage_pool_count ex) rt;
           if status \<noteq> 0 then Some (status, ex, rt)
           else do {
             (status, rt) \<leftarrow> release_views ex 0 (ge_data_entry_count ex) rt;
             if status \<noteq> 0 then Some (status, ex, rt)
             else do {
               (status, rt) \<leftarrow> release_blocks [ge_input_nodes_at ex, ge_node_row_ptr_at ex, ge_outputs_at ex,
                 ge_storage_pool_at ex, ge_data_entry_at ex, ge_op_execs_at ex, self] rt;
               Some (status, ex, rt)
             }
           }
         }
       }
     }
   }"

section \<open>The image of a tensor\<close>

lemma load_bytes_part:
  assumes "load_bytes r a (length bs) = bs" and "off + n \<le> length bs"
  shows "load_bytes r (a + int off) n = take n (drop off bs)"
proof (rule nth_equalityI)
  fix i
  assume "i < length (load_bytes r (a + int off) n)"
  then have i: "i < n"
    by simp
  have "bs ! (off + i) = r (a + int (off + i))"
    using load_bytes_nth [of "off + i" "length bs" r a] assms i by simp
  then show "load_bytes r (a + int off) n ! i = take n (drop off bs) ! i"
    using i assms(2) by (simp add: load_bytes_nth add.assoc)
qed (use assms(2) in simp)

text \<open>The fields that fit their C types.\<close>

definition word_addr :: "addr \<Rightarrow> bool" where "word_addr a \<longleftrightarrow> 0 \<le> a \<and> a < 2 ^ 32"
definition i32_ok :: "int \<Rightarrow> bool" where "i32_ok v \<longleftrightarrow> - (2 ^ 31) \<le> v \<and> v < 2 ^ 31"

definition tensor_ok :: "dl_tensor \<Rightarrow> bool" where
  "tensor_ok t \<longleftrightarrow> word_addr (dt_data t) \<and> word_addr (dt_shape t) \<and> word_addr (dt_strides t) \<and> i32_ok (device_type (dt_device t))
     \<and> i32_ok (device_id (dt_device t)) \<and> i32_ok (dt_ndim t) \<and> dt_byte_offset t < 2 ^ 64"

lemma length_tensor_bytes [simp]: "length (tensor_bytes t) = 40"
  by (simp add: tensor_bytes_def)

lemma length_ndarray_bytes [simp]: "length (ndarray_bytes a) = 48"
  by (simp add: ndarray_bytes_def)

lemma word_addr_bytes: "word_addr a \<Longrightarrow> int (le_value (le_bytes 4 (nat a))) = a"
proof -
  assume a: "word_addr a"
  then have "nat a < 256 ^ 4"
    by (simp add: word_addr_def nat_less_iff)
  then show ?thesis
    using a by (simp only: le_value_le_bytes mod_less) (simp add: word_addr_def)
qed

lemma load_tensor_image:
  assumes ok: "tensor_ok t" and img: "load_bytes r a 40 = tensor_bytes t"
  shows "load_tensor r a = t"
proof -
  have part: "load_bytes r (a + int off) n = take n (drop off (tensor_bytes t))" if "off + n \<le> 40" for off n
    using load_bytes_part [of r a "tensor_bytes t" off n] img that by simp
  have 1: "load_bytes r a 4 = le_bytes 4 (nat (dt_data t))"
    using part [of 0 4] by (simp add: tensor_bytes_def)
  have 2: "load_bytes r (a + 4) 4 = i32_bytes (device_type (dt_device t))" "load_bytes r (a + 8) 4 = i32_bytes (device_id (dt_device t))"
    "load_bytes r (a + 12) 4 = i32_bytes (dt_ndim t)"
    using part [of 4 4] part [of 8 4] part [of 12 4] by (simp_all add: tensor_bytes_def)
  have 3: "load_bytes r (a + 16) 2 = [code (dt_dtype t), bits (dt_dtype t)]" "load_bytes r (a + 18) 2 = le_bytes 2 (unat (lanes (dt_dtype t)))"
    using part [of 16 2] part [of 18 2] by (simp_all add: tensor_bytes_def numeral_2_eq_2)
  have 4: "load_bytes r (a + 20) 4 = le_bytes 4 (nat (dt_shape t))" "load_bytes r (a + 24) 4 = le_bytes 4 (nat (dt_strides t))"
    "load_bytes r (a + 32) 8 = le_bytes 8 (dt_byte_offset t)"
    using part [of 20 4] part [of 24 4] part [of 32 8] by (simp_all add: tensor_bytes_def)
  have b: "r (a + 16) = code (dt_dtype t)" "r (a + 17) = bits (dt_dtype t)"
    using 3(1) by (simp_all add: load_bytes_def numeral_2_eq_2 add.assoc)
  have l: "le_value (le_bytes 2 (unat (lanes (dt_dtype t)))) = unat (lanes (dt_dtype t))"
    using unsigned_less [of "lanes (dt_dtype t)", where 'a = nat] by (simp add: le_value_le_bytes)
  have off: "le_value (le_bytes 8 (dt_byte_offset t)) = dt_byte_offset t"
    using ok by (simp add: le_value_le_bytes tensor_ok_def)
  show ?thesis
    using ok unfolding load_tensor_def 1 2 3(2) 4 b l off
    by (intro dl_tensor.equality dl_device.equality dl_data_type.equality)
      (simp_all add: tensor_ok_def word_addr_bytes i32_value_bytes i32_ok_def)
qed

lemma load_store_ndarray:
  assumes "tensor_ok (arr_tensor x)"
  shows "load_ndarray (store_bytes r a (ndarray_bytes x)) a = x"
proof -
  let ?r = "store_bytes r a (ndarray_bytes x)"
  have img: "load_bytes ?r a (length (ndarray_bytes x)) = ndarray_bytes x"
    by (rule load_store_same)
  have "load_bytes ?r a 40 = tensor_bytes (arr_tensor x)" "load_bytes ?r (a + 40) 4 = le_bytes 4 (unat (reference_count x))"
    using load_bytes_part [OF img, of 0 40] load_bytes_part [OF img, of 40 4] by (simp_all add: ndarray_bytes_def)
  moreover have "le_value (le_bytes 4 (unat (reference_count x))) = unat (reference_count x)"
    using unsigned_less [of "reference_count x", where 'a = nat] by (simp add: le_value_le_bytes)
  ultimately show ?thesis
    using load_tensor_image [OF assms] by (simp add: load_ndarray_def)
qed

lemma load_tensor_cong:
  assumes "\<And>x. a \<le> x \<Longrightarrow> x < a + 40 \<Longrightarrow> r x = r' x"
  shows "load_tensor r a = load_tensor r' a"
proof -
  have "load_bytes r (a + int off) n = load_bytes r' (a + int off) n" if "off + n \<le> 40" for off n
    using assms that by (intro load_bytes_cong) auto
  from this [of 0 4] this [of 4 4] this [of 8 4] this [of 12 4] this [of 18 2] this [of 20 4] this [of 24 4] this [of 32 8]
  show ?thesis
    using assms [of "a + 16"] assms [of "a + 17"] by (simp add: load_tensor_def)
qed

lemma load_ndarray_cong:
  assumes "\<And>x. a \<le> x \<Longrightarrow> x < a + 48 \<Longrightarrow> r x = r' x"
  shows "load_ndarray r a = load_ndarray r' a"
  using assms load_tensor_cong [of a r r'] load_bytes_cong [of "a + 40" 4 r r'] by (simp add: load_ndarray_def)

lemma load_ndarray_apart:
  assumes "a + 48 \<le> b \<or> b + int (length bs) \<le> a"
  shows "load_ndarray (store_bytes r b bs) a = load_ndarray r a"
  using assms by (intro load_ndarray_cong) (auto simp: store_bytes_def)

end
