(* ===== verification/Owned_Blocks.thy ===== *)
theory Owned_Blocks
  imports Heap_Room Graph_Executor
begin

text \<open>
  Blocks of the heap together with their contents. What a part of the program keeps in a block stays
  there while other parts allocate, fill, change and free blocks of their own.
\<close>

section \<open>Contents of blocks\<close>

text \<open>
  A machine in which every block of \<open>keep\<close> is handed out, is at least as long as its contents, and
  holds them; the heap lies in the address space and has \<open>r\<close> untouched pages.
\<close>

definition owns :: "nat \<Rightarrow> nat \<Rightarrow> (addr \<rightharpoonup> u8 list) \<Rightarrow> machine \<Rightarrow> bool" where
  "owns ps r keep m \<longleftrightarrow> ps \<le> 2 ^ 31 \<and> 0 < pm_low (heap m) \<and> pm_high (heap m) \<le> 2 ^ 32
     \<and> (\<exists>live. room live ps r (heap m)
         \<and> (\<forall>p bs. keep p = Some bs \<longrightarrow> (\<exists>k. live p = Some k \<and> length bs \<le> k \<and> load_bytes (ram m) p (length bs) = bs)))"

lemma ownsE:
  assumes "owns ps r keep m"
  obtains live where "room live ps r (heap m)" "ps \<le> 2 ^ 31" "0 < pm_low (heap m)" "pm_high (heap m) \<le> 2 ^ 32"
    "\<And>p bs. keep p = Some bs \<Longrightarrow> \<exists>k. live p = Some k \<and> length bs \<le> k \<and> load_bytes (ram m) p (length bs) = bs"
  using assms by (auto simp: owns_def)

lemma ownsI:
  assumes "room live ps r (heap m)" and "ps \<le> 2 ^ 31" and "0 < pm_low (heap m)" and "pm_high (heap m) \<le> 2 ^ 32"
    and "\<And>p bs. keep p = Some bs \<Longrightarrow> \<exists>k. live p = Some k \<and> length bs \<le> k \<and> load_bytes (ram m) p (length bs) = bs"
  shows "owns ps r keep m"
  using assms unfolding owns_def by blast

lemma owns_fewer: "owns ps r keep m \<Longrightarrow> keep' \<subseteq>\<^sub>m keep \<Longrightarrow> r' \<le> r \<Longrightarrow> owns ps r' keep' m"
  by (force simp: owns_def room_def map_le_def dom_def)

lemma pm_inv_range:
  assumes "pm_inv mgr live" and "live p = Some k"
  shows "pm_low mgr \<le> p" and "p + int k \<le> pm_high mgr"
proof -
  obtain q where q: "q \<in> set (tlb_pages mgr)" "page_data q = p" "block_size (page_size mgr) q = k"
    using assms unfolding pm_inv_def by blast
  have "pm_wf mgr"
    using assms(1) by (simp add: pm_inv_def)
  from pm_page_range(1,2) [OF this q(1)] show "pm_low mgr \<le> p" "p + int k \<le> pm_high mgr"
    using q(2,3) by simp_all
qed

lemma pm_inv_blocks_apart:
  assumes "pm_inv mgr live" and "live p = Some k" and "live q = Some l" and "p \<noteq> q"
  shows "apart p k q l"
proof -
  obtain x where x: "x \<in> set (tlb_pages mgr)" "page_data x = p" "block_size (page_size mgr) x = k"
    using assms(1,2) unfolding pm_inv_def by blast
  then show ?thesis
    using pm_inv_apart [OF assms(1,3) x(1)] assms(4) by simp
qed

lemma owns_range:
  assumes "owns ps r keep m" and "keep p = Some bs"
  shows "0 < p" and "p + int (length bs) \<le> 2 ^ 32"
proof -
  obtain live where l: "room live ps r (heap m)" "ps \<le> 2 ^ 31" "0 < pm_low (heap m)" "pm_high (heap m) \<le> 2 ^ 32"
    "\<And>p bs. keep p = Some bs \<Longrightarrow> \<exists>k. live p = Some k \<and> length bs \<le> k \<and> load_bytes (ram m) p (length bs) = bs"
    using ownsE [OF assms(1)] by metis
  obtain k where "live p = Some k" "length bs \<le> k"
    using l(5) [OF assms(2)] by blast
  then show "0 < p" "p + int (length bs) \<le> 2 ^ 32"
    using pm_inv_range [of "heap m" live p k] l(1,3,4) by (simp_all add: room_def)
qed

lemma owns_load:
  assumes "owns ps r keep m" and "keep p = Some bs" and "off + n \<le> length bs"
  shows "load_bytes (ram m) (p + int off) n = take n (drop off bs)"
  using assms by (intro load_bytes_part) (auto simp: owns_def)

lemma owns_load_all: "owns ps r keep m \<Longrightarrow> keep p = Some bs \<Longrightarrow> load_bytes (ram m) p (length bs) = bs"
  using owns_load [of ps r keep m p bs 0 "length bs"] by simp

section \<open>Using the heap\<close>

text \<open>The new block takes any contents that fit; the other blocks keep theirs.\<close>

text \<open>The blocks in use are determined by the heap.\<close>

lemma pm_inv_unique:
  assumes "pm_inv mgr live" and "pm_inv mgr live'"
  shows "live = live'"
proof (rule ext)
  fix a
  have "live a = Some k \<longleftrightarrow> live' a = Some k" for k
    using assms unfolding pm_inv_def by blast
  then show "live a = live' a"
    by (metis not_Some_eq)
qed

text \<open>Blocks begin at multiples of the page size from the beginning of the pool.\<close>

lemma block_address:
  assumes "pm_inv mgr live" and "live p = Some k"
  obtains c where "p = pm_low mgr + int (c * page_size mgr)"
proof -
  obtain q where q: "q \<in> set (tlb_pages mgr)" "page_data q = p"
    using assms unfolding pm_inv_def by blast
  have "tiles (pt_memory_pool (ptable mgr)) (page_size mgr) 0 (tlb_pages mgr) (pt_num_pages (ptable mgr))"
    using assms(1) by (simp add: pm_inv_def pm_wf_def Let_def)
  from tiles_range [OF this q(1)] obtain c l where "q = PageCreate (pt_memory_pool (ptable mgr)) (page_size mgr) (int c) (int l)"
    by blast
  then show thesis
    using that [of c] q(2) by (simp add: pm_low_def PageCreate_def)
qed

lemma owns_live: "owns ps r keep m \<Longrightarrow> keep p = Some bs \<Longrightarrow> pm_inv (heap m) live \<Longrightarrow> \<exists>sz. live p = Some sz"
  by (metis ownsE pm_inv_unique room_def)

lemma owns_alloc:
  assumes o: "owns ps (pages_of ps n + r) keep m" and n: "0 < n" "n < 2 ^ 31"
  obtains p h where "PageMemoryManager_Allocate (heap m) n = Some (kTvmErrorNoError, p, h)" "keep p = None" "0 < p" "p + int n \<le> 2 ^ 32"
    "\<And>bs m'. length bs = n \<Longrightarrow> heap m' = h \<Longrightarrow> ram m' = store_bytes (ram m) p bs \<Longrightarrow> owns ps r (keep(p \<mapsto> bs)) m'"
proof -
  obtain live where live: "room live ps (pages_of ps n + r) (heap m)" "ps \<le> 2 ^ 31" "0 < pm_low (heap m)" "pm_high (heap m) \<le> 2 ^ 32"
    "\<And>p bs. keep p = Some bs \<Longrightarrow> \<exists>k. live p = Some k \<and> length bs \<le> k \<and> load_bytes (ram m) p (length bs) = bs"
    using ownsE [OF o] by metis
  have inv: "pm_inv (heap m) live" and ps: "page_size (heap m) = ps"
    using live(1) by (simp_all add: room_def)
  obtain p sz h where a: "PageMemoryManager_Allocate (heap m) n = Some (kTvmErrorNoError, p, h)" "room (live(p \<mapsto> sz)) ps r h"
    "live p = None" "n \<le> sz"
    by (rule alloc_room [OF live(1)]) (use n live(2) in auto)
  have "pm_fits (heap m) n"
    using n live(2) ps by (simp add: pm_fits_def)
  from PageMemoryManager_Allocate_ok [OF inv this] a(1)
  have h: "pm_low h = pm_low (heap m)" "pm_high h = pm_high (heap m)"
    by auto
  have inv': "pm_inv h (live(p \<mapsto> sz))"
    using a(2) by (simp add: room_def)
  have range: "pm_low (heap m) \<le> p" "p + int sz \<le> pm_high (heap m)"
    using pm_inv_range [OF inv', of p sz] h by simp_all
  have keep: "keep p = None"
    using live(5) [of p] a(3) by (cases "keep p") auto
  have "owns ps r (keep(p \<mapsto> bs)) m'"
    if m': "length bs = n" "heap m' = h" "ram m' = store_bytes (ram m) p bs" for bs m'
  proof -
    have "\<exists>k. (live(p \<mapsto> sz)) q = Some k \<and> length cs \<le> k \<and> load_bytes (ram m') q (length cs) = cs"
      if "(keep(p \<mapsto> bs)) q = Some cs" for q cs
    proof (cases "q = p")
      case True
      then show ?thesis
        using that m' a(4) load_store_same [of "ram m" p cs] by simp
    next
      case False
      then have "keep q = Some cs"
        using that by simp
      then obtain k where k: "live q = Some k" "length cs \<le> k" "load_bytes (ram m) q (length cs) = cs"
        using live(5) by blast
      have "apart p sz q k"
        using pm_inv_blocks_apart [OF inv', of p sz q k] False k(1) by simp
      then have "load_bytes (ram m') q (length cs) = load_bytes (ram m) q (length cs)"
        unfolding m'(3) using k(2) a(4) m'(1) by (intro load_store_apart) (auto simp: apart_def)
      then show ?thesis
        using False k by simp
    qed
    then show ?thesis
      using a(2) live(2-4) h m'(2) by (intro ownsI [of "live(p \<mapsto> sz)"]) simp_all
  qed
  then show thesis
    using that [of p h] a(1,4) keep range live(3,4) by simp
qed

lemma owns_free:
  assumes o: "owns ps r keep m" and p: "keep p = Some bs"
  obtains h where "PageMemoryManager_Free (heap m) p = Some (kTvmErrorNoError, h)"
    "\<And>m'. heap m' = h \<Longrightarrow> ram m' = ram m \<Longrightarrow> owns ps r (keep(p := None)) m'"
proof -
  obtain live where live0: "room live ps r (heap m)" "ps \<le> 2 ^ 31" "0 < pm_low (heap m)" "pm_high (heap m) \<le> 2 ^ 32"
    "\<And>p bs. keep p = Some bs \<Longrightarrow> \<exists>k. live p = Some k \<and> length bs \<le> k \<and> load_bytes (ram m) p (length bs) = bs"
    using ownsE [OF o] by metis
  then obtain k where "live p = Some k"
    using p by blast
  note live = live0 this
  obtain h where h: "PageMemoryManager_Free (heap m) p = Some (kTvmErrorNoError, h)" "room (live(p := None)) ps r h"
    using free_room [OF live(1,6)] by metis
  have "pm_low h = pm_low (heap m)" "pm_high h = pm_high (heap m)"
    using PageMemoryManager_Free_ok [of "heap m" live p k] live(1,6) h(1) by (auto simp: room_def)
  then have "owns ps r (keep(p := None)) m'" if "heap m' = h" "ram m' = ram m" for m'
    using that h(2) live(2-5) by (intro ownsI [of "live(p := None)"]) (auto split: if_splits)
  then show thesis
    using that h(1) by blast
qed

section \<open>Writing into a block\<close>

definition patch :: "'a list \<Rightarrow> nat \<Rightarrow> 'a list \<Rightarrow> 'a list" where
  "patch bs off ws = take off bs @ ws @ drop (off + length ws) bs"

lemma length_patch [simp]: "off + length ws \<le> length bs \<Longrightarrow> length (patch bs off ws) = length bs"
  by (simp add: patch_def)

lemma patch_same: "off + length ws \<le> length bs \<Longrightarrow> take (length ws) (drop off (patch bs off ws)) = ws"
  by (simp add: patch_def)

lemma patch_apart:
  assumes "off + length ws \<le> length bs" and "o' + n \<le> off \<or> off + length ws \<le> o'"
  shows "take n (drop o' (patch bs off ws)) = take n (drop o' bs)"
  using assms(2)
proof
  assume n: "o' + n \<le> off"
  then have "drop o' (patch bs off ws) = take (off - o') (drop o' bs) @ ws @ drop (off + length ws) bs"
    using assms(1) by (simp add: patch_def drop_take)
  then show ?thesis
    using n assms(1) by (simp add: min_absorb1)
next
  assume "off + length ws \<le> o'"
  then show ?thesis
    using assms(1) by (simp add: patch_def)
qed

lemma owns_store:
  assumes o: "owns ps r keep m" and p: "keep p = Some bs" and ws: "off + length ws \<le> length bs"
    and m': "heap m' = heap m" "ram m' = store_bytes (ram m) (p + int off) ws"
  shows "owns ps r (keep(p \<mapsto> patch bs off ws)) m'"
proof -
  obtain live where live0: "room live ps r (heap m)" "ps \<le> 2 ^ 31" "0 < pm_low (heap m)" "pm_high (heap m) \<le> 2 ^ 32"
    "\<And>p bs. keep p = Some bs \<Longrightarrow> \<exists>k. live p = Some k \<and> length bs \<le> k \<and> load_bytes (ram m) p (length bs) = bs"
    using ownsE [OF o] by metis
  then obtain k where "live p = Some k" "length bs \<le> k" "load_bytes (ram m) p (length bs) = bs"
    using p by blast
  note live = live0 this
  have inv: "pm_inv (heap m) live"
    using live(1) by (simp add: room_def)
  have "\<exists>k. live q = Some k \<and> length cs \<le> k \<and> load_bytes (ram m') q (length cs) = cs"
    if "(keep(p \<mapsto> patch bs off ws)) q = Some cs" for q cs
  proof (cases "q = p")
    case True
    then have cs: "cs = patch bs off ws"
      using that by simp
    have "load_bytes (ram m') p (length bs) = patch bs off ws"
    proof (rule nth_equalityI)
      fix i
      assume "i < length (load_bytes (ram m') p (length bs))"
      then have i: "i < length bs"
        by simp
      have "ram m (p + int i) = bs ! i"
        using load_bytes_nth [OF i, of "ram m" p] live(8) by simp
      then show "load_bytes (ram m') p (length bs) ! i = patch bs off ws ! i"
        using i ws by (auto simp: load_bytes_nth m'(2) store_bytes_def patch_def nth_append nat_diff_distrib' min_def)
    qed (use ws in simp)
    then show ?thesis
      using True cs live(6,7) ws by simp
  next
    case False
    then have "keep q = Some cs"
      using that by simp
    then obtain l where l: "live q = Some l" "length cs \<le> l" "load_bytes (ram m) q (length cs) = cs"
      using live(5) by blast
    have "apart p k q l"
      using pm_inv_blocks_apart [OF inv live(6) l(1)] False by simp
    then have "load_bytes (ram m') q (length cs) = load_bytes (ram m) q (length cs)"
      unfolding m'(2) using l(2) live(7) ws by (intro load_store_apart) (auto simp: apart_def)
    then show ?thesis
      using l by simp
  qed
  then show ?thesis
    using live(1-4) m'(1) by (intro ownsI [of live]) simp_all
qed

section \<open>Arrays\<close>

text \<open>An empty array of one of the good shapes takes two blocks, one with its shape and one of zeros.\<close>

lemma TVMNDArray_Empty_owns:
  assumes o: "owns ps (pages_of ps (8 * length shape) + (pages_of ps (nat (array_bytes shape dtype)) + r)) keep m"
    and sh: "good_shape shape dtype" "length shape < 2 ^ 27" "shape \<noteq> []" "take (length shape) dims = shape"
  obtains sp dp m' where "TVMNDArray_Empty m (int (length shape)) dims dtype dev
      = Some (0, \<lparr>arr_tensor = new_tensor dev shape dtype sp dp, reference_count = 0\<rparr>, m')"
    "owns ps r (keep(sp \<mapsto> i64s_bytes shape, dp \<mapsto> replicate (nat (array_bytes shape dtype)) 0)) m'"
    "keep sp = None" "keep dp = None" "sp \<noteq> dp" "0 < sp" "sp < 2 ^ 32" "0 < dp" "dp < 2 ^ 32"
proof -
  let ?n = "nat (array_bytes shape dtype)"
  have n: "0 < ?n" "?n < 2 ^ 31"
    using good_shape_bounds(4) [OF sh(1)] sh(1) by (auto simp: good_shape_def nat_less_iff)
  obtain sp h where a: "PageMemoryManager_Allocate (heap m) (8 * length shape) = Some (kTvmErrorNoError, sp, h)" "keep sp = None"
    "0 < sp" "sp + int (8 * length shape) \<le> 2 ^ 32"
    "\<And>bs m'. length bs = 8 * length shape \<Longrightarrow> heap m' = h \<Longrightarrow> ram m' = store_bytes (ram m) sp bs
       \<Longrightarrow> owns ps (pages_of ps ?n + r) (keep(sp \<mapsto> bs)) m'"
    by (rule owns_alloc [OF o]) (use sh(2,3) in auto)
  let ?m1 = "\<lparr>heap = h, ram = store_bytes (ram m) sp (i64s_bytes shape)\<rparr>"
  have o1: "owns ps (pages_of ps ?n + r) (keep(sp \<mapsto> i64s_bytes shape)) ?m1"
    by (rule a(5)) simp_all
  obtain dp h' where b: "PageMemoryManager_Allocate (heap ?m1) ?n = Some (kTvmErrorNoError, dp, h')"
    "(keep(sp \<mapsto> i64s_bytes shape)) dp = None" "0 < dp" "dp + int ?n \<le> 2 ^ 32"
    "\<And>bs m'. length bs = ?n \<Longrightarrow> heap m' = h' \<Longrightarrow> ram m' = store_bytes (ram ?m1) dp bs
       \<Longrightarrow> owns ps r (keep(sp \<mapsto> i64s_bytes shape, dp \<mapsto> bs)) m'"
    by (rule owns_alloc [OF o1 n], rule that)
  let ?m2 = "\<lparr>heap = h', ram = clear_bytes (ram ?m1) dp ?n\<rparr>"
  have "TVMNDArray_Empty m (int (length shape)) dims dtype dev
      = Some (0, \<lparr>arr_tensor = new_tensor dev shape dtype sp dp, reference_count = 0\<rparr>, ?m2)"
    using TVMNDArray_Empty_ok [OF sh(1) _ sh(4), of m sp h dp h' dev] sh(2) a(1) b(1) by simp
  moreover have "owns ps r (keep(sp \<mapsto> i64s_bytes shape, dp \<mapsto> replicate ?n 0)) ?m2"
    by (rule b(5)) (simp_all add: clear_bytes_def)
  moreover have "sp < 2 ^ 32" "dp < 2 ^ 32"
    using a(4) b(4) n(1) sh(3) length_greater_0_conv [of shape] by linarith+
  moreover have "keep dp = None" "sp \<noteq> dp"
    using b(2) by (auto split: if_splits)
  ultimately show thesis
    using a(2,3) b(3) by (intro that [of dp sp ?m2])
qed

text \<open>A view takes one block for its shape and shares the data.\<close>

lemma TVMNDArray_CreateView_owns:
  assumes o: "owns ps (pages_of ps (8 * length shape) + r) keep m" and sh: "length shape < 2 ^ 27" "shape \<noteq> []"
  obtains sp m' where "TVMNDArray_CreateView m arr shape (int (length shape)) dtype
      = Some (0, \<lparr>arr_tensor = new_tensor (dt_device (arr_tensor arr)) shape dtype sp (dt_data (arr_tensor arr)), reference_count = 0\<rparr>, m')"
    "owns ps r (keep(sp \<mapsto> i64s_bytes shape)) m'" "keep sp = None" "0 < sp" "sp < 2 ^ 32"
proof -
  obtain sp h where a: "PageMemoryManager_Allocate (heap m) (8 * length shape) = Some (kTvmErrorNoError, sp, h)" "keep sp = None"
    "0 < sp" "sp + int (8 * length shape) \<le> 2 ^ 32"
    "\<And>bs m'. length bs = 8 * length shape \<Longrightarrow> heap m' = h \<Longrightarrow> ram m' = store_bytes (ram m) sp bs
       \<Longrightarrow> owns ps r (keep(sp \<mapsto> bs)) m'"
    by (rule owns_alloc [OF o]) (use sh in auto)
  let ?m1 = "\<lparr>heap = h, ram = store_bytes (ram m) sp (i64s_bytes shape)\<rparr>"
  have "TVMNDArray_CreateView m arr shape (int (length shape)) dtype = Some (0,
      \<lparr>arr_tensor = new_tensor (dt_device (arr_tensor arr)) shape dtype sp (dt_data (arr_tensor arr)), reference_count = 0\<rparr>, ?m1)"
    using NDArray_Create_ok [of shape shape m sp h dtype "dt_device (arr_tensor arr)"] sh(1) a(1)
    by (simp add: TVMNDArray_CreateView_def)
  moreover have "owns ps r (keep(sp \<mapsto> i64s_bytes shape)) ?m1"
    by (rule a(5)) simp_all
  moreover have "sp < 2 ^ 32"
    using a(4) sh(2) length_greater_0_conv [of shape] by linarith
  ultimately show thesis
    using that [of sp ?m1] a(2,3) by auto
qed

end
