(* ===== verification/Graph_Text.thy ===== *)
theory Graph_Text
  imports Graph_Json Heap_Room
begin

text \<open>
  A graph that is printed and read again: every list of the executor, every node with its parameters and
  every attribute comes back. The text may have any white space between its tokens.
\<close>

section \<open>Reading one value\<close>

text \<open>
  \<open>f\<close> reads the text \<open>b\<close> as \<open>x\<close>, with white space before it, and stops behind it without a complaint. It
  needs room for \<open>d\<close> open scopes.
\<close>

definition reads :: "u8 list \<Rightarrow> nat \<Rightarrow> (json_reader \<Rightarrow> ('a \<times> json_reader) option) \<Rightarrow> u8 list \<Rightarrow> 'a \<Rightarrow> nat \<Rightarrow> bool" where
  "reads T cap f b x d \<longleftrightarrow> opens b \<and> (\<forall>k r ws c rst stk.
     rd T cap k r (ws @ b @ c # rst) stk \<longrightarrow> white ws \<longrightarrow> \<not> isdigit c \<longrightarrow> length stk + d < cap \<longrightarrow>
     (\<exists>r'. f r = Some (x, r') \<and> rd T cap k r' (c # rst) stk))"

lemma readsD:
  assumes "reads T cap f b x d" and "rd T cap k r (ws @ b @ c # rst) stk" and "white ws" and "\<not> isdigit c"
    and "length stk + d < cap"
  obtains r' where "f r = Some (x, r')" "rd T cap k r' (c # rst) stk"
  using assms unfolding reads_def by blast

text \<open>
  The heap has handed out the blocks \<open>bs\<close>, each with the bytes asked for, beside those of \<open>base\<close>, and
  no other. \<open>hold\<close> says it of a heap that has \<open>n\<close> pages left.
\<close>

definition handed_out :: "(addr \<rightharpoonup> nat) \<Rightarrow> (addr \<times> nat) list \<Rightarrow> (addr \<rightharpoonup> nat) \<Rightarrow> bool" where
  "handed_out base bs live \<longleftrightarrow> distinct (map fst bs) \<and> fst ` set bs \<inter> dom base = {} \<and> dom live = dom base \<union> fst ` set bs
     \<and> base \<subseteq>\<^sub>m live \<and> (\<forall>(p, n) \<in> set bs. \<exists>sz. live p = Some sz \<and> n \<le> sz)"

definition hold :: "(addr \<rightharpoonup> nat) \<Rightarrow> (addr \<times> nat) list \<Rightarrow> nat \<Rightarrow> nat \<Rightarrow> memory_manager \<Rightarrow> bool" where
  "hold base bs ps n mgr \<longleftrightarrow> (\<exists>live. handed_out base bs live \<and> room live ps n mgr)"

lemma handed_out_none [simp]: "handed_out base [] live \<longleftrightarrow> live = base"
proof
  assume "handed_out base [] live"
  then have "base \<subseteq>\<^sub>m live" "dom live = dom base"
    by (simp_all add: handed_out_def)
  then show "live = base"
    by (auto simp: map_le_def intro: map_le_antisym)
qed (simp add: handed_out_def map_le_refl)

lemma handed_out_more:
  assumes "handed_out base bs live" and "live p = None" and "n \<le> sz"
  shows "handed_out base (bs @ [(p, n)]) (live(p \<mapsto> sz))"
proof -
  have b: "distinct (map fst bs)" "fst ` set bs \<inter> dom base = {}" "dom live = dom base \<union> fst ` set bs" "base \<subseteq>\<^sub>m live"
    "\<forall>(q, n) \<in> set bs. \<exists>sz. live q = Some sz \<and> n \<le> sz"
    using assms(1) by (simp_all add: handed_out_def)
  have new: "p \<notin> fst ` set bs" "p \<notin> dom base"
    using assms(2) b(3) by auto
  have "base \<subseteq>\<^sub>m live(p \<mapsto> sz)"
    using b(4) new(2) by (auto simp: map_le_def)
  moreover have "\<forall>(q, n) \<in> set bs. \<exists>sz'. (live(p \<mapsto> sz)) q = Some sz' \<and> n \<le> sz'"
  proof safe
    fix q n
    assume "(q, n) \<in> set bs"
    then have "q \<noteq> p" "\<exists>sz. live q = Some sz \<and> n \<le> sz"
      using new(1) b(5) by force+
    then show "\<exists>sz'. (live(p \<mapsto> sz)) q = Some sz' \<and> n \<le> sz'"
      by simp
  qed
  ultimately show ?thesis
    using b(1-3) new assms(3) by (auto simp: handed_out_def)
qed

lemma hold_alloc:
  assumes "hold base bs ps (pages_of ps n + r) mgr" and "n + ps - 1 < 2 ^ 32" and "0 < n \<or> 0 < mm_num_entries (free_map mgr)"
  obtains p mgr' where "PageMemoryManager_Allocate mgr n = Some (kTvmErrorNoError, p, mgr')" "hold base (bs @ [(p, n)]) ps r mgr'"
proof -
  obtain live where live: "handed_out base bs live" "room live ps (pages_of ps n + r) mgr"
    using assms(1) by (auto simp: hold_def)
  obtain p sz mgr' where "PageMemoryManager_Allocate mgr n = Some (kTvmErrorNoError, p, mgr')"
    "room (live(p \<mapsto> sz)) ps r mgr'" "live p = None" "n \<le> sz"
    by (rule alloc_room [OF live(2) assms(2,3)])
  then show thesis
    using that [of p mgr'] handed_out_more [OF live(1)] by (auto simp: hold_def)
qed

text \<open>The same for a reader that takes memory: at most \<open>cost\<close> pages, and the blocks \<open>blk\<close> of what it read.\<close>

definition loads ::
    "u8 list \<Rightarrow> nat \<Rightarrow> nat \<Rightarrow> (json_reader \<Rightarrow> memory_manager \<Rightarrow> (int \<times> 'a \<times> json_reader \<times> memory_manager) option)
     \<Rightarrow> u8 list \<Rightarrow> ('a \<Rightarrow> bool) \<Rightarrow> ('a \<Rightarrow> (addr \<times> nat) list) \<Rightarrow> nat \<Rightarrow> nat \<Rightarrow> bool" where
  "loads T cap ps f b P blk d cost \<longleftrightarrow> opens b \<and> (\<forall>k r ws c rst stk base bs n mgr.
     rd T cap k r (ws @ b @ c # rst) stk \<longrightarrow> white ws \<longrightarrow> \<not> isdigit c \<longrightarrow> length stk + d < cap \<longrightarrow>
     hold base bs ps (cost + n) mgr \<longrightarrow>
     (\<exists>x r' mgr'. f r mgr = Some (0, x, r', mgr') \<and> P x \<and> rd T cap k r' (c # rst) stk
        \<and> hold base (bs @ blk x) ps n mgr'))"

lemma loadsD:
  assumes "loads T cap ps f b P blk d cost" and "rd T cap k r (ws @ b @ c # rst) stk" and "white ws" and "\<not> isdigit c"
    and "length stk + d < cap" and "hold base bs ps (cost + n) mgr"
  obtains x r' mgr' where "f r mgr = Some (0, x, r', mgr')" "P x" "rd T cap k r' (c # rst) stk"
    "hold base (bs @ blk x) ps n mgr'"
  using assms unfolding loads_def by blast

text \<open>Numbers, and strings that need no escape and fit.\<close>

definition str_ok :: "u8 list \<Rightarrow> nat \<Rightarrow> bool" where
  "str_ok s n \<longleftrightarrow> plain s \<and> enc s = s \<and> length s + 1 < n"

lemma reads_nat: "n < 2 ^ 31 \<Longrightarrow> reads T cap JSONReader_ReadUnsignedInteger (dec n) n d"
  using ReadInteger_rd(2) [where n = n] opens_dec unfolding reads_def by fastforce

lemma reads_int: "n < 2 ^ 31 \<Longrightarrow> reads T cap JSONReader_ReadInteger (dec n) (int n) d"
  using ReadInteger_rd(1) [where n = n] opens_dec unfolding reads_def by fastforce

lemma opens_str: "opens (ch_quote # s)"
  by (simp add: opens_def isspace_def)

lemma reads_str: "str_ok s n \<Longrightarrow> reads T cap (JSONReader_ReadString False n) (json_txt w (JStr s)) s d"
  using ReadString_str [where s = s and n = n] opens_str unfolding reads_def str_ok_def by fastforce

section \<open>The keys of an object\<close>

lemma next_key:
  assumes r: "rd T cap k r ((if v = 0 then w else w @ ch_comma # w) @ pair_txt w key b @ rst) (v # stk)"
    and v: "v + 1 < 2 ^ 32" and w: "white w" and key: "str_ok key n"
  obtains r' where "JSONReader_NextObjectItem False n r = Some (True, key, r')"
    "rd T cap k r' (w @ b @ rst) ((v + 1) # stk)"
proof -
  have "opens (pair_txt w key b)"
    by (simp add: opens_def pair_txt_def isspace_def)
  then obtain r0 ws where r0: "next_item ch_rbrace r = Some (True, r0)" "white ws"
    "rd T cap k r0 (ws @ pair_txt w key b @ rst) (v # stk)"
    using next_item_rd [OF r refl w] by blast
  obtain r1 where r1: "incr_scope r0 = Some r1"
    "rd T cap k r1 (ws @ ch_quote # enc key @ ch_quote # w @ ch_colon # w @ b @ rst) ((v + 1) # stk)"
    using incr_scope_rd [OF r0(3)] v key by (auto simp: pair_txt_def str_ok_def)
  obtain r2 where r2: "JSONReader_ReadString False n r1 = Some (key, r2)"
    "rd T cap k r2 (w @ ch_colon # w @ b @ rst) ((v + 1) # stk)"
    using ReadString_str [OF r1(2) r0(2)] key by (auto simp: str_ok_def)
  have "\<not> isspace ch_colon"
    by (simp add: isspace_def)
  from NextNonSpace_rd [OF r2(2) w this] obtain r3 where r3: "JSONReader_NextNonSpace r2 = Some (ch_colon, r3)"
    "rd T cap k r3 (w @ b @ rst) ((v + 1) # stk)"
    by blast
  show thesis
    using r0(1) r1(1) r2(1) r3 by (intro that [of r3]) (simp_all add: JSONReader_NextObjectItem_def)
qed

lemma no_more_keys:
  assumes "rd T cap k r (w @ ch_rbrace # rst) (v # stk)" and "white w"
  obtains r' where "JSONReader_NextObjectItem False n r = Some (False, [], r')" "rd T cap k r' rst stk"
proof -
  have "\<not> isspace ch_rbrace"
    by (simp add: isspace_def)
  from next_item_end [OF assms this] obtain r1 where "next_item ch_rbrace r = Some (False, r1)" "rd T cap k r1 rst (v # stk)"
    by blast
  then show thesis
    using pop_scope_rd by (intro that [of "pop_scope r1"]) (auto simp: JSONReader_NextObjectItem_def)
qed

section \<open>The items of an array\<close>

lemma fill_items_text:
  assumes "white w" and "length stk + 1 + d < cap"
  shows "list_all2 (\<lambda>b x. reads T cap f b x d) bs xs \<Longrightarrow>
    rd T cap k r (items_txt w (v = 0) bs @ w @ ch_rbracket # rst) (v # stk) \<Longrightarrow> v + length bs < 2 ^ 32 \<Longrightarrow>
    n = length pre + length bs \<Longrightarrow>
    \<exists>r'. fill_items n f (length pre) (pre @ replicate (length bs) None) r = Some (Next, n, pre @ map Some xs, r')
      \<and> rd T cap k r' rst stk"
proof (induction bs arbitrary: xs pre v r)
  case Nil
  then obtain r' where "JSONReader_NextArrayItem r = Some (False, r')" "rd T cap k r' rst stk"
    using NextArrayItem_rd_end [of T cap k r w rst v stk] assms(1) by auto
  then show ?case
    using Nil by (subst fill_items.simps) simp
next
  case (Cons b bs)
  then obtain x xs' where xs: "xs = x # xs'" "reads T cap f b x d" "list_all2 (\<lambda>b x. reads T cap f b x d) bs xs'"
    by (auto simp: list_all2_Cons1)
  obtain c t where c: "items_txt w False bs @ w @ ch_rbracket # rst = c # t" "\<not> isdigit c"
    using items_txt_next [OF assms(1), of ch_rbracket bs rst] by (auto simp: isdigit_def)
  have "opens b"
    using xs(2) by (simp add: reads_def)
  then obtain r1 ws where r1: "JSONReader_NextArrayItem r = Some (True, r1)" "white ws"
    "rd T cap k r1 (ws @ b @ c # t) ((v + 1) # stk)"
    using NextArrayItem_rd [of T cap k r v w b "c # t" stk] Cons.prems(2,3) assms(1) c(1) by auto
  obtain r2 where r2: "f r1 = Some (x, r2)" "rd T cap k r2 (c # t) ((v + 1) # stk)"
    using readsD [OF xs(2) r1(3,2) c(2)] assms(2) by auto
  have r2': "rd T cap k r2 (items_txt w (v + 1 = 0) bs @ w @ ch_rbracket # rst) ((v + 1) # stk)"
    using r2(2) c(1) by simp
  obtain r3 where "fill_items n f (length (pre @ [Some x])) ((pre @ [Some x]) @ replicate (length bs) None) r2
      = Some (Next, n, (pre @ [Some x]) @ map Some xs', r3)" "rd T cap k r3 rst stk"
    using Cons.IH [OF xs(3) r2', of "pre @ [Some x]"] Cons.prems(3,4) by auto
  moreover have "fill_items n f (length pre) (pre @ replicate (length (b # bs)) None) r
      = fill_items n f (length (pre @ [Some x])) ((pre @ [Some x]) @ replicate (length bs) None) r2"
    using r1(1) r2(1) Cons.prems(4) by (subst fill_items.simps) (simp add: list_update_append)
  ultimately show ?case
    using xs(1) by simp
qed

lemma load_items_text:
  assumes "white w" and "length stk + 1 + d < cap"
  shows "list_all2 (\<lambda>b x. loads T cap ps f b (P x) blk d (cost x)) bs xs \<Longrightarrow>
    rd T cap k r (items_txt w (v = 0) bs @ w @ ch_rbracket # rst) (v # stk) \<Longrightarrow> v + length bs < 2 ^ 32 \<Longrightarrow>
    n = length pre + length bs \<Longrightarrow> hold base blocks ps (sum_list (map cost xs) + m) mgr \<Longrightarrow>
    \<exists>r' ys mgr'. load_items n f (length pre) (pre @ replicate (length bs) None) r mgr
        = Some ((Next, 0), n, pre @ map Some ys, r', mgr')
      \<and> list_all2 P xs ys \<and> rd T cap k r' rst stk \<and> hold base (blocks @ concat (map blk ys)) ps m mgr'"
proof (induction bs arbitrary: xs pre v r mgr blocks)
  case Nil
  then obtain r' where "JSONReader_NextArrayItem r = Some (False, r')" "rd T cap k r' rst stk"
    using NextArrayItem_rd_end [of T cap k r w rst v stk] assms(1) by auto
  then show ?case
    using Nil by (subst load_items.simps) auto
next
  case (Cons b bs)
  then obtain x xs' where xs: "xs = x # xs'" "loads T cap ps f b (P x) blk d (cost x)"
    "list_all2 (\<lambda>b x. loads T cap ps f b (P x) blk d (cost x)) bs xs'"
    by (auto simp: list_all2_Cons1)
  obtain c t where c: "items_txt w False bs @ w @ ch_rbracket # rst = c # t" "\<not> isdigit c"
    using items_txt_next [OF assms(1), of ch_rbracket bs rst] by (auto simp: isdigit_def)
  have "opens b"
    using xs(2) by (simp add: loads_def)
  then obtain r1 ws where r1: "JSONReader_NextArrayItem r = Some (True, r1)" "white ws"
    "rd T cap k r1 (ws @ b @ c # t) ((v + 1) # stk)"
    using NextArrayItem_rd [of T cap k r v w b "c # t" stk] Cons.prems(2,3) assms(1) c(1) by auto
  have room: "hold base blocks ps (cost x + (sum_list (map cost xs') + m)) mgr"
    using Cons.prems(5) xs(1) by (simp add: add.assoc)
  obtain y r2 mgr1 where r2: "f r1 mgr = Some (0, y, r2, mgr1)" "P x y" "rd T cap k r2 (c # t) ((v + 1) # stk)"
    "hold base (blocks @ blk y) ps (sum_list (map cost xs') + m) mgr1"
    by (rule loadsD [OF xs(2) r1(3,2) c(2) _ room]) (use assms(2) in auto)
  have r2': "rd T cap k r2 (items_txt w (v + 1 = 0) bs @ w @ ch_rbracket # rst) ((v + 1) # stk)"
    using r2(3) c(1) by simp
  obtain r3 ys mgr' where r3: "load_items n f (length (pre @ [Some y])) ((pre @ [Some y]) @ replicate (length bs) None) r2 mgr1
      = Some ((Next, 0), n, (pre @ [Some y]) @ map Some ys, r3, mgr')" "list_all2 P xs' ys" "rd T cap k r3 rst stk"
    "hold base ((blocks @ blk y) @ concat (map blk ys)) ps m mgr'"
    using Cons.IH [OF xs(3) r2' _ _ r2(4), of "pre @ [Some y]"] Cons.prems(3,4) by auto
  have "load_items n f (length pre) (pre @ replicate (length (b # bs)) None) r mgr
      = load_items n f (length (pre @ [Some y])) ((pre @ [Some y]) @ replicate (length bs) None) r2 mgr1"
    using r1(1) r2(1) Cons.prems(4) by (subst load_items.simps) (simp add: list_update_append)
  then show ?case
    using r3 r2(2) xs(1) by (intro exI [of _ r3] exI [of _ "y # ys"] exI [of _ mgr']) simp
qed

section \<open>The block of a list\<close>

definition small :: "json list \<Rightarrow> bool" where
  "small js \<longleftrightarrow> length js < 2 ^ 32 \<and> (\<forall>j \<in> set js. json_plain j \<and> json_short j \<and> depth_of j \<le> 4)"

definition list_pages :: "nat \<Rightarrow> nat \<Rightarrow> nat \<Rightarrow> nat" where
  "list_pages ps elem_size n = scope_pages ps + pages_of ps (elem_size * n)"

text \<open>The items are counted and a block for them is taken; the reader is before the first one.\<close>

lemma counted_list:
  assumes r: "rd T cap k r (ws @ json_txt w (JArr js) @ rst) stk" and w: "white ws" "white w" and js: "small js"
    and cap: "length stk + 6 < cap" and h: "hold base bs ps (list_pages ps e (length js) + m) mgr"
    and ps: "ps \<le> 2 ^ 31" and e: "0 < e" "e * length js < 2 ^ 31"
  obtains r1 mgr1 r2 p mgr2 where "JSONReader_BeginArray r = Some r1"
    "JSONReader_ArrayLength mgr g r1 = Some (0, Some (length js), mgr1, r2)"
    "alloc_items mgr1 e (length js) = Some (kTvmErrorNoError, p, replicate (length js) None, mgr2)"
    "rd T cap k r2 (items_txt w True (map (json_txt w) js) @ w @ ch_rbracket # rst) (0 # stk)"
    "hold base (bs @ [(p, e * length js)]) ps m mgr2"
proof -
  obtain r1 where r1: "JSONReader_BeginArray r = Some r1"
    "rd T cap k r1 (items_txt w True (map (json_txt w) js) @ w @ ch_rbracket # rst) (0 # stk)"
    using Begin_rd(1) [OF _ w(1), of T cap k r ch_lbracket _ stk] r cap by auto
  have len: "length js < 2 ^ 32" and js': "\<forall>x \<in> set js. json_plain x \<and> json_short x \<and> depth_of x < 10 \<and> length stk + 1 + depth_of x < cap"
    using js cap by (fastforce simp: small_def)+
  obtain live where live: "handed_out base bs live" "room live ps (scope_pages ps + (pages_of ps (e * length js) + m)) mgr"
    using h by (auto simp: hold_def list_pages_def add.assoc)
  from ArrayLength_room [OF live(2) ps w(2) len js' _ r1(2), of g] cap obtain mgr1 r2 where r2:
    "JSONReader_ArrayLength mgr g r1 = Some (0, Some (length js), mgr1, r2)" "room live ps (pages_of ps (e * length js) + m) mgr1"
    "0 < mm_num_entries (free_map mgr1)"
    "rd T cap k r2 (items_txt w True (map (json_txt w) js) @ w @ ch_rbracket # rst) (0 # stk)"
    by auto
  have h1: "hold base bs ps (pages_of ps (e * length js) + m) mgr1"
    using live(1) r2(2) by (auto simp: hold_def)
  obtain p mgr2 where a: "PageMemoryManager_Allocate mgr1 (e * length js) = Some (kTvmErrorNoError, p, mgr2)"
    "hold base (bs @ [(p, e * length js)]) ps m mgr2"
    by (rule hold_alloc [OF h1]) (use ps e(2) r2(3) in auto)
  have "alloc_items mgr1 e (length js) = Some (kTvmErrorNoError, p, replicate (length js) None, mgr2)"
    using a(1) e by (simp add: alloc_items_def)
  then show thesis
    using that r1(1) r2(1,4) a(2) by blast
qed

section \<open>The keys of an object, one after the other\<close>

text \<open>
  The loops over the keys of a node, of the attributes and of the graph have one form: the next key, what
  it asks for, and around again.
\<close>

fun chain :: "('x \<Rightarrow> 'x \<Rightarrow> bool) list \<Rightarrow> 'x \<Rightarrow> 'x \<Rightarrow> bool" where
  "chain [] s t \<longleftrightarrow> t = s"
| "chain (R # Rs) s t \<longleftrightarrow> (\<exists>u. R s u \<and> chain Rs u t)"

text \<open>
  In a state with \<open>Q\<close> the value \<open>b\<close> of a key is read, and changes the state, the mask and the list of the
  blocks that were taken as \<open>R\<close> says.
\<close>

type_synonym 'x reading = "'x \<times> nat \<times> (addr \<times> nat) list"
type_synonym 'x effect = "'x reading \<Rightarrow> 'x reading \<Rightarrow> bool"

definition takes ::
    "(u8 list \<Rightarrow> 'x \<Rightarrow> nat \<Rightarrow> json_reader \<Rightarrow> memory_manager
      \<Rightarrow> ((flow \<times> int) \<times> 'x \<times> nat \<times> json_reader \<times> memory_manager) option) \<Rightarrow> nat
     \<Rightarrow> u8 list \<Rightarrow> nat \<Rightarrow> nat \<Rightarrow> u8 list \<Rightarrow> u8 list \<Rightarrow> ('x \<Rightarrow> bool) \<Rightarrow> 'x effect \<Rightarrow> nat \<Rightarrow> nat \<Rightarrow> bool" where
  "takes step key_size T cap ps key b Q R d cost \<longleftrightarrow> str_ok key key_size \<and> (\<forall>x bm k r ws c rst stk base bs n mgr.
     Q x \<longrightarrow> rd T cap k r (ws @ b @ c # rst) stk \<longrightarrow> white ws \<longrightarrow> \<not> isdigit c \<longrightarrow> length stk + d < cap \<longrightarrow>
     hold base bs ps (cost + n) mgr \<longrightarrow>
     (\<exists>x' bm' bs' r' mgr'. step key x bm r mgr = Some ((Next, 0), x', bm', r', mgr') \<and> R (x, bm, bs) (x', bm', bs')
        \<and> rd T cap k r' (c # rst) stk \<and> hold base bs' ps n mgr'))"

lemma takesD:
  assumes "takes step key_size T cap ps key b Q R d cost" and "Q x" and "rd T cap k r (ws @ b @ c # rst) stk" and "white ws"
    and "\<not> isdigit c" and "length stk + d < cap" and "hold base bs ps (cost + n) mgr"
  obtains x' bm' bs' r' mgr' where "step key x bm r mgr = Some ((Next, 0), x', bm', r', mgr')" "R (x, bm, bs) (x', bm', bs')"
    "rd T cap k r' (c # rst) stk" "hold base bs' ps n mgr'"
  using assms unfolding takes_def by blast

text \<open>The conditions of all keys hold in their turn.\<close>

fun guarded :: "(u8 list \<Rightarrow> 'x \<Rightarrow> bool) \<Rightarrow> (u8 list \<times> u8 list \<times> 'x effect \<times> nat) list \<Rightarrow> 'x reading \<Rightarrow> bool" where
  "guarded Q [] s \<longleftrightarrow> True"
| "guarded Q ((key, b, R, cost) # ks) s \<longleftrightarrow> Q key (fst s) \<and> (\<forall>t. R s t \<longrightarrow> guarded Q ks t)"

lemma guarded_True [simp]: "guarded (\<lambda>_ _. True) ks s"
  by (induction ks arbitrary: s) auto

locale key_loop =
  fixes loop :: "'x \<Rightarrow> nat \<Rightarrow> json_reader \<Rightarrow> memory_manager
      \<Rightarrow> ((flow \<times> int) \<times> 'x \<times> nat \<times> json_reader \<times> memory_manager) option"
    and step :: "u8 list \<Rightarrow> 'x \<Rightarrow> nat \<Rightarrow> json_reader \<Rightarrow> memory_manager
      \<Rightarrow> ((flow \<times> int) \<times> 'x \<times> nat \<times> json_reader \<times> memory_manager) option"
    and key_size :: nat
  assumes loop_end: "JSONReader_NextObjectItem False key_size r = Some (False, key, r') \<Longrightarrow>
      loop x bm r mgr = Some ((Next, 0), x, bm, r', mgr)"
    and loop_next: "JSONReader_NextObjectItem False key_size r = Some (True, key, r') \<Longrightarrow>
      step key x bm r' mgr = Some ((Next, 0), x', bm', r'', mgr') \<Longrightarrow> loop x bm r mgr = loop x' bm' r'' mgr'"
begin

lemma keys_text:
  assumes w: "white w" and cap: "length stk + 1 + d < cap"
  shows "list_all (\<lambda>(key, b, R, cost). takes step key_size T cap ps key b (Q key) R d cost) ks \<Longrightarrow>
    rd T cap k r (items_txt w (v = 0) (map (\<lambda>(key, b, _). pair_txt w key b) ks) @ w @ ch_rbrace # rst) (v # stk) \<Longrightarrow>
    v + length ks < 2 ^ 32 \<Longrightarrow> hold base bs ps (sum_list (map (\<lambda>(_, _, _, cost). cost) ks) + m) mgr \<Longrightarrow>
    guarded Q ks (x, bm, bs) \<Longrightarrow>
    \<exists>x' bm' bs' r' mgr'. loop x bm r mgr = Some ((Next, 0), x', bm', r', mgr')
      \<and> chain (map (\<lambda>(_, _, R, _). R) ks) (x, bm, bs) (x', bm', bs') \<and> rd T cap k r' rst stk
      \<and> hold base bs' ps m mgr'"
proof (induction ks arbitrary: v r x bm bs mgr)
  case Nil
  then obtain r' where r': "JSONReader_NextObjectItem False key_size r = Some (False, [], r')" "rd T cap k r' rst stk"
    using no_more_keys [of T cap k r w rst v stk key_size] w by auto
  from loop_end [OF r'(1)] show ?case
    using r'(2) Nil.prems(4) by auto
next
  case (Cons h ks)
  obtain key b R cost where h: "h = (key, b, R, cost)"
    by (cases h)
  have tk: "takes step key_size T cap ps key b (Q key) R d cost"
    using Cons.prems(1) h by simp
  obtain c t where c: "items_txt w False (map (\<lambda>(key, b, _). pair_txt w key b) ks) @ w @ ch_rbrace # rst = c # t" "\<not> isdigit c"
    using items_txt_next [OF w, of ch_rbrace "map (\<lambda>(key, b, _). pair_txt w key b) ks" rst] by (auto simp: isdigit_def)
  have "rd T cap k r ((if v = 0 then w else w @ ch_comma # w) @ pair_txt w key b @ c # t) (v # stk)"
    using Cons.prems(2) h c(1) by simp
  moreover have "str_ok key key_size" "v + 1 < 2 ^ 32"
    using tk Cons.prems(3) by (simp_all add: takes_def)
  ultimately obtain r1 where r1: "JSONReader_NextObjectItem False key_size r = Some (True, key, r1)"
    "rd T cap k r1 (w @ b @ c # t) ((v + 1) # stk)"
    using next_key w by blast
  have rm: "hold base bs ps (cost + (sum_list (map (\<lambda>(_, _, _, cost). cost) ks) + m)) mgr"
    using Cons.prems(4) h by (simp add: add.assoc)
  have cp: "length ((v + 1) # stk) + d < cap"
    using cap by simp
  have q: "Q key x"
    using Cons.prems(5) h by simp
  obtain x1 bm1 bs1 r2 mgr1 where r2:
    "step key x bm r1 mgr = Some ((Next, 0), x1, bm1, r2, mgr1)" "R (x, bm, bs) (x1, bm1, bs1)" "rd T cap k r2 (c # t) ((v + 1) # stk)"
    "hold base bs1 ps (sum_list (map (\<lambda>(_, _, _, cost). cost) ks) + m) mgr1"
    by (rule takesD [OF tk q r1(2) w c(2) cp rm])
  have r2': "rd T cap k r2 (items_txt w (v + 1 = 0) (map (\<lambda>(key, b, _). pair_txt w key b) ks) @ w @ ch_rbrace # rst) ((v + 1) # stk)"
    using r2(3) c(1) by simp
  have "list_all (\<lambda>(key, b, R, cost). takes step key_size T cap ps key b (Q key) R d cost) ks" "v + 1 + length ks < 2 ^ 32"
    "guarded Q ks (x1, bm1, bs1)"
    using Cons.prems(1,3,5) h r2(2) by auto
  from Cons.IH [OF this(1) r2' this(2) r2(4) this(3)] obtain x' bm' bs' r' mgr' where
    r3: "loop x1 bm1 r2 mgr1 = Some ((Next, 0), x', bm', r', mgr')" "rd T cap k r' rst stk" "hold base bs' ps m mgr'"
    "chain (map (\<lambda>(_, _, R, _). R) ks) (x1, bm1, bs1) (x', bm', bs')"
    by blast
  moreover have "chain (map (\<lambda>(_, _, R, _). R) (h # ks)) (x, bm, bs) (x', bm', bs')"
    unfolding h list.map prod.case chain.simps by (rule exI, rule conjI [OF r2(2) r3(4)])
  ultimately show ?case
    using loop_next [OF r1(1) r2(1)]
    by (intro exI [of _ x'] exI [of _ bm'] exI [of _ bs'] exI [of _ r'] exI [of _ mgr']) simp
qed

end

interpretation node_keys: key_loop "Node_loop g" "Node_key g" 20
proof
  fix r key r' x bm mgr x' bm' r'' mgr'
  show "Node_loop g x bm r mgr = Some ((Next, 0), x, bm, r', mgr)"
    if "JSONReader_NextObjectItem False 20 r = Some (False, key, r')"
    using that by (subst Node_loop.simps) simp
  show "Node_loop g x bm r mgr = Node_loop g x' bm' r'' mgr'"
    if "JSONReader_NextObjectItem False 20 r = Some (True, key, r')" "Node_key g key x bm r' mgr = Some ((Next, 0), x', bm', r'', mgr')"
    using that by (subst Node_loop.simps) simp
qed

interpretation attr_keys: key_loop "Attr_loop g" "Attr_key g" 16
proof
  fix r key r' x bm mgr x' bm' r'' mgr'
  show "Attr_loop g x bm r mgr = Some ((Next, 0), x, bm, r', mgr)"
    if "JSONReader_NextObjectItem False 16 r = Some (False, key, r')"
    using that by (subst Attr_loop.simps) simp
  show "Attr_loop g x bm r mgr = Attr_loop g x' bm' r'' mgr'"
    if "JSONReader_NextObjectItem False 16 r = Some (True, key, r')" "Attr_key g key x bm r' mgr = Some ((Next, 0), x', bm', r'', mgr')"
    using that by (subst Attr_loop.simps) simp
qed

interpretation graph_keys: key_loop "Load_loop g" "Load_key g" 20
proof
  fix r key r' x bm mgr x' bm' r'' mgr'
  show "Load_loop g x bm r mgr = Some ((Next, 0), x, bm, r', mgr)"
    if "JSONReader_NextObjectItem False 20 r = Some (False, key, r')"
    using that by (subst Load_loop.simps) simp
  show "Load_loop g x bm r mgr = Load_loop g x' bm' r'' mgr'"
    if "JSONReader_NextObjectItem False 20 r = Some (True, key, r')" "Load_key g key x bm r' mgr = Some ((Next, 0), x', bm', r'', mgr')"
    using that by (subst Load_loop.simps) simp
qed

section \<open>Entries\<close>

lemma inj_of_char_u8: "inj (of_char :: char \<Rightarrow> u8)"
proof (rule injI)
  fix c d :: char
  assume "(of_char c :: u8) = of_char d"
  then have "(of_nat (of_char c) :: u8) = of_nat (of_char d)"
    by (simp only: of_nat_of_char)
  then have "unat (of_nat (of_char c) :: u8) = unat (of_nat (of_char d) :: u8)"
    by (rule arg_cong)
  then have "(of_char c :: nat) mod 256 = of_char d mod 256"
    by (simp only: unat_of_nat) simp
  then show "c = d"
    by simp
qed

lemma lit_eq [simp]: "lit s = lit t \<longleftrightarrow> s = t"
  by (simp add: lit_def inj_map_eq_map [OF inj_of_char_u8])

definition entry_json :: "node_entry \<Rightarrow> json" where
  "entry_json e = JArr [JInt (ne_node_id e), JInt (ne_index e), JInt (ne_version e)]"

definition entry_ok :: "node_entry \<Rightarrow> bool" where
  "entry_ok e \<longleftrightarrow> ne_node_id e < 2 ^ 31 \<and> ne_index e < 2 ^ 31 \<and> ne_version e < 2 ^ 31"

lemma complain_False [simp]: "complain False r = r"
  by (simp add: complain_def)

text \<open>The calls that read an entry.\<close>

lemma entry_numbers:
  assumes r: "rd T cap k r (ws @ json_txt w (entry_json e) @ rst) stk" and w: "white ws" "white w"
    and cap: "length stk + 1 < cap" and e: "entry_ok e"
  obtains r0 r1 r2 r3 r4 r5 r6 r7 where "JSONReader_BeginArray r = Some r0"
    "JSONReader_NextArrayItem r0 = Some (True, r1)" "JSONReader_ReadUnsignedInteger r1 = Some (ne_node_id e, r2)"
    "JSONReader_NextArrayItem r2 = Some (True, r3)" "JSONReader_ReadUnsignedInteger r3 = Some (ne_index e, r4)"
    "JSONReader_NextArrayItem r4 = Some (True, r5)" "JSONReader_ReadUnsignedInteger r5 = Some (ne_version e, r6)"
    "JSONReader_NextArrayItem r6 = Some (False, r7)" "rd T cap k r7 rst stk"
proof -
  note n = array_number [where b = False, unfolded complain_False]
  obtain r0 where r0: "JSONReader_BeginArray r = Some r0"
    "rd T cap k r0 (items_txt w (0 = (0 :: nat)) (map dec [ne_node_id e, ne_index e, ne_version e]) @ w @ ch_rbracket # rst) (0 # stk)"
    using Begin_rd(1) [OF _ w(1), of T cap k r ch_lbracket _ stk] r cap by (auto simp: entry_json_def)
  obtain r1 r2 where r2: "JSONReader_NextArrayItem r0 = Some (True, r1)" "JSONReader_ReadUnsignedInteger r1 = Some (ne_node_id e, r2)"
    "rd T cap k r2 (items_txt w (1 = (0 :: nat)) (map dec [ne_index e, ne_version e]) @ w @ ch_rbracket # rst) (1 # stk)"
    using n [OF r0(2) w(2)] e by (auto simp: entry_ok_def)
  obtain r3 r4 where r4: "JSONReader_NextArrayItem r2 = Some (True, r3)" "JSONReader_ReadUnsignedInteger r3 = Some (ne_index e, r4)"
    "rd T cap k r4 (items_txt w (2 = (0 :: nat)) (map dec [ne_version e]) @ w @ ch_rbracket # rst) (2 # stk)"
    using n [OF r2(3) w(2)] e by (auto simp: entry_ok_def numeral_2_eq_2 [symmetric])
  obtain r5 r6 where r6: "JSONReader_NextArrayItem r4 = Some (True, r5)" "JSONReader_ReadUnsignedInteger r5 = Some (ne_version e, r6)"
    "rd T cap k r6 (w @ ch_rbracket # rst) (Suc 2 # stk)"
    using n [OF r4(3) w(2)] e by (auto simp: entry_ok_def)
  obtain r7 where "JSONReader_NextArrayItem r6 = Some (False, r7)" "rd T cap k r7 rst stk"
    using NextArrayItem_rd_end [OF r6(3) w(2)] by blast
  then show thesis
    using that r0(1) r2(1,2) r4(1,2) r6(1,2) by blast
qed

lemma opens_entry: "opens (json_txt w (entry_json e))"
  by (rule opens_json)

lemma reads_Node_input:
  assumes "entry_ok e" and "white w"
  shows "reads T cap Node_input (json_txt w (entry_json e)) (Some e) 1"
  unfolding reads_def
proof (intro conjI allI impI)
  fix k r ws c rst stk
  assume r: "rd T cap k r (ws @ json_txt w (entry_json e) @ c # rst) stk" "white ws" "length stk + 1 < cap"
  show "\<exists>r'. Node_input r = Some (Some e, r') \<and> rd T cap k r' (c # rst) stk"
    by (rule entry_numbers [OF r(1,2) assms(2) r(3) assms(1)]) (auto simp: Node_input_def)
qed (rule opens_entry)

definition Head_item :: "json_reader \<Rightarrow> memory_manager \<Rightarrow> (int \<times> node_entry \<times> json_reader \<times> memory_manager) option" where
  "Head_item reader mgr = do { (status, e, reader) \<leftarrow> NodeEntry_Load reader; Some (status, e, reader, mgr) }"

lemma loads_head:
  assumes "entry_ok e" and "white w"
  shows "loads T cap ps Head_item (json_txt w (entry_json e)) (\<lambda>x. x = e) (\<lambda>_. []) 1 0"
  unfolding loads_def
proof (intro conjI allI impI)
  fix k r ws c rst stk base bs n mgr
  assume r: "rd T cap k r (ws @ json_txt w (entry_json e) @ c # rst) stk" "white ws" "length stk + 1 < cap" "hold base bs ps (0 + n) mgr"
  have "\<exists>r'. NodeEntry_Load r = Some (0, e, r') \<and> rd T cap k r' (c # rst) stk"
    by (rule entry_numbers [OF r(1,2) assms(2) r(3) assms(1)]) (auto simp: NodeEntry_Load_def)
  then show "\<exists>x r' mgr'. Head_item r mgr = Some (0, x, r', mgr') \<and> x = e \<and> rd T cap k r' (c # rst) stk
      \<and> hold base (bs @ []) ps n mgr'"
    using r(4) by (auto simp: Head_item_def)
qed (rule opens_entry)

text \<open>The inputs of a node.\<close>

lemma node_inputs_text:
  assumes "white w" and "length stk + 2 < cap"
  shows "list_all entry_ok es \<Longrightarrow>
    rd T cap k r (items_txt w (v = 0) (map (json_txt w) (map entry_json es)) @ w @ ch_rbracket # rst) (v # stk) \<Longrightarrow>
    v + length es < 2 ^ 32 \<Longrightarrow> n = length pre + length es \<Longrightarrow>
    \<exists>r'. Node_inputs_loop n (length pre) (pre @ replicate (length es) None) r = Some ((Next, 0), n, pre @ map Some es, r')
      \<and> rd T cap k r' rst stk"
proof (induction es arbitrary: pre v r)
  case Nil
  then obtain r' where "JSONReader_NextArrayItem r = Some (False, r')" "rd T cap k r' rst stk"
    using NextArrayItem_rd_end [of T cap k r w rst v stk] assms(1) by auto
  then show ?case
    using Nil by (subst Node_inputs_loop.simps) simp
next
  case (Cons e es)
  let ?bs = "map (json_txt w) (map entry_json es)"
  obtain c t where c: "items_txt w False ?bs @ w @ ch_rbracket # rst = c # t" "\<not> isdigit c"
    using items_txt_next [OF assms(1), of ch_rbracket ?bs rst] by (auto simp: isdigit_def)
  obtain r1 ws where r1: "JSONReader_NextArrayItem r = Some (True, r1)" "white ws"
    "rd T cap k r1 (ws @ json_txt w (entry_json e) @ c # t) ((v + 1) # stk)"
    using NextArrayItem_rd [of T cap k r v w "json_txt w (entry_json e)" "c # t" stk] Cons.prems(2,3) assms(1) c(1) opens_entry
    by auto
  have rn: "reads T cap Node_input (json_txt w (entry_json e)) (Some e) 1"
    using Cons.prems(1) assms(1) by (intro reads_Node_input) simp_all
  obtain r2 where r2: "Node_input r1 = Some (Some e, r2)" "rd T cap k r2 (c # t) ((v + 1) # stk)"
    by (rule readsD [OF rn r1(3,2) c(2)]) (use assms(2) in auto)
  have r2': "rd T cap k r2 (items_txt w (v + 1 = 0) ?bs @ w @ ch_rbracket # rst) ((v + 1) # stk)"
    using r2(2) c(1) by simp
  obtain r3 where "Node_inputs_loop n (length (pre @ [Some e])) ((pre @ [Some e]) @ replicate (length es) None) r2
      = Some ((Next, 0), n, (pre @ [Some e]) @ map Some es, r3)" "rd T cap k r3 rst stk"
    using Cons.IH [OF _ r2', of "pre @ [Some e]"] Cons.prems(1,3,4) by auto
  moreover have "Node_inputs_loop n (length pre) (pre @ replicate (length (e # es)) None) r
      = Node_inputs_loop n (length (pre @ [Some e])) ((pre @ [Some e]) @ replicate (length es) None) r2"
    using r1(1) r2(1) Cons.prems(4) by (subst Node_inputs_loop.simps) (simp add: list_update_append)
  ultimately show ?case
    by simp
qed

section \<open>The parameters of an operator\<close>

lemma length_dec: "0 < k \<Longrightarrow> n < 10 ^ k \<Longrightarrow> length (dec n) \<le> k"
proof (induction n arbitrary: k rule: dec.induct)
  case (1 n)
  show ?case
  proof (cases "n < 10")
    case False
    obtain j where j: "k = Suc j"
      using "1.prems"(1) by (cases k) auto
    then have k: "k = Suc j" "0 < j"
      using "1.prems"(2) False by (cases j; simp)+
    have "n div 10 < 10 ^ j"
      using "1.prems"(2) k(1) by (simp add: less_mult_imp_div_less mult.commute)
    then show ?thesis
      using "1.IH" [OF False k(2)] False k(1) by (subst dec.simps) simp
  qed (use "1.prems" in \<open>subst dec.simps, simp\<close>)
qed

lemma digit_plain: "isdigit c \<Longrightarrow> esc c = [c] \<and> c \<notin> {ch_quote, ch_backslash, ch_cr, ch_lf, 0}"
  by (auto simp: isdigit_def esc_def)

lemma enc_same: "\<forall>c \<in> set s. esc c = [c] \<Longrightarrow> enc s = s"
  by (induction s) (simp_all add: enc_def)

lemma str_ok_dec: "n < 2 ^ 32 \<Longrightarrow> str_ok (dec n) 120"
  using dec_facts [of n] length_dec [of 10 n] digit_plain enc_same [of "dec n"] by (fastforce simp: str_ok_def plain_def)

definition param_pairs :: "op_param \<Rightarrow> (u8 list \<times> u8 list) list" where
  "param_pairs p = [(lit ''num_outputs'', dec (op_num_outputs p)), (lit ''num_inputs'', dec (op_num_inputs p)),
     (lit ''flatten_data'', dec (op_flatten_data p)), (lit ''func_name'', op_func_name p)]"

definition param_json :: "op_param \<Rightarrow> json" where
  "param_json p = JObj (map (\<lambda>(key, s). (key, JStr s)) (param_pairs p))"

definition param_ok :: "op_param \<Rightarrow> bool" where
  "param_ok p \<longleftrightarrow> str_ok (op_func_name p) 120 \<and> op_num_inputs p < 2 ^ 32 \<and> op_num_outputs p < 2 ^ 32 \<and> op_flatten_data p < 2 ^ 32"

text \<open>What one pair does to the mask and the parameters.\<close>

fun set_param :: "u8 list \<times> u8 list \<Rightarrow> nat \<times> op_param \<Rightarrow> nat \<times> op_param" where
  "set_param (key, s) (bm, p) =
     (if key = lit ''func_name'' then (bm OR 1, p\<lparr>op_func_name := s\<rparr>)
      else if key = lit ''num_inputs'' then (bm OR 2, p\<lparr>op_num_inputs := fst (strtoul s)\<rparr>)
      else if key = lit ''num_outputs'' then (bm OR 4, p\<lparr>op_num_outputs := fst (strtoul s)\<rparr>)
      else if key = lit ''flatten_data'' then (bm OR 8, p\<lparr>op_flatten_data := fst (strtoul s)\<rparr>)
      else (bm, p))"

lemma attrs_loop_text:
  assumes "white w"
  shows "rd T cap k r (items_txt w (v = 0) (map (\<lambda>(key, s). pair_txt w key (json_txt w (JStr s))) kvs) @ w @ ch_rbrace # rst) (v # stk) \<Longrightarrow>
    v + length kvs < 2 ^ 32 \<Longrightarrow> \<forall>(key, s) \<in> set kvs. str_ok key 20 \<and> str_ok s 120 \<Longrightarrow>
    \<exists>r'. LoadAttrs_loop bm p r = Some (fst (fold set_param kvs (bm, p)), snd (fold set_param kvs (bm, p)), r')
      \<and> rd T cap k r' rst stk"
proof (induction kvs arbitrary: v r bm p)
  case Nil
  then obtain r' where r': "JSONReader_NextObjectItem False 20 r = Some (False, [], r')" "rd T cap k r' rst stk"
    using no_more_keys [of T cap k r w rst v stk 20] assms by auto
  then show ?case
    by (subst LoadAttrs_loop.simps) simp
next
  case (Cons h kvs)
  obtain key s where h: "h = (key, s)"
    by (cases h)
  let ?ts = "map (\<lambda>(key, s). pair_txt w key (json_txt w (JStr s))) kvs"
  obtain c t where c: "items_txt w False ?ts @ w @ ch_rbrace # rst = c # t" "\<not> isdigit c"
    using items_txt_next [OF assms, of ch_rbrace ?ts rst] by (auto simp: isdigit_def)
  have "rd T cap k r ((if v = 0 then w else w @ ch_comma # w) @ pair_txt w key (json_txt w (JStr s)) @ c # t) (v # stk)"
    using Cons.prems(1) h c(1) by simp
  moreover have ok: "str_ok key 20" "str_ok s 120" "v + 1 < 2 ^ 32"
    using Cons.prems(2,3) h by auto
  ultimately obtain r1 where r1: "JSONReader_NextObjectItem False 20 r = Some (True, key, r1)"
    "rd T cap k r1 (w @ json_txt w (JStr s) @ c # t) ((v + 1) # stk)"
    using next_key assms by blast
  obtain r2 where r2: "JSONReader_ReadString False 120 r1 = Some (s, r2)" "rd T cap k r2 (c # t) ((v + 1) # stk)"
    using ReadString_str [of T cap k r1 w s "c # t" "(v + 1) # stk" 120] r1(2) ok(2) assms by (auto simp: str_ok_def)
  have r2': "rd T cap k r2 (items_txt w (v + 1 = 0) ?ts @ w @ ch_rbrace # rst) ((v + 1) # stk)"
    using r2(2) c(1) by simp
  obtain bm1 p1 where u: "set_param (key, s) (bm, p) = (bm1, p1)"
    by fastforce
  have "LoadAttrs_loop bm p r = LoadAttrs_loop bm1 p1 r2"
    using r1(1) r2(1) u by (subst LoadAttrs_loop.simps) (auto simp: TVM_CRT_MAX_STRLEN_FUNCTION_NAME_def split: if_splits)
  then show ?case
    using Cons.IH [OF r2', of bm1 p1] Cons.prems(2,3) h u by auto
qed

lemma lit_key: "plain (lit s) \<Longrightarrow> enc (lit s) = lit s \<Longrightarrow> length s + 1 < n \<Longrightarrow> str_ok (lit s) n"
  by (simp add: str_ok_def lit_def)

lemma reads_params:
  assumes "param_ok p" and "white w"
  shows "reads T cap TVMGraphExecutorNode_LoadAttrs (json_txt w (param_json p)) p 1"
  unfolding reads_def
proof (intro conjI allI impI)
  fix k r ws c rst stk
  assume r: "rd T cap k r (ws @ json_txt w (param_json p) @ c # rst) stk" "white ws" "length stk + 1 < cap"
  have r0: "rd T cap k r (ws @ ch_lbrace # items_txt w True (map (\<lambda>(key, s). pair_txt w key (json_txt w (JStr s))) (param_pairs p))
      @ w @ ch_rbrace # c # rst) stk"
    using r(1) by (simp add: param_json_def comp_def case_prod_unfold del: items_txt.simps)
  from Begin_rd(2) [OF r0 r(2,3) refl] obtain r1 where r1: "JSONReader_BeginObject r = Some r1"
    "rd T cap k r1 (items_txt w (0 = (0 :: nat)) (map (\<lambda>(key, s). pair_txt w key (json_txt w (JStr s))) (param_pairs p))
      @ w @ ch_rbrace # c # rst) (0 # stk)"
    by auto
  have ok: "\<forall>(key, s) \<in> set (param_pairs p). str_ok key 20 \<and> str_ok s 120" "0 + length (param_pairs p) < 2 ^ 32"
    using assms(1) by (simp_all add: param_pairs_def param_ok_def str_ok_dec)
      (simp_all add: str_ok_def plain_def enc_def esc_def lit_def)
  let ?z = "\<lparr>op_func_name = [], op_num_inputs = 0, op_num_outputs = 0, op_flatten_data = 0\<rparr>"
  have st: "fst (strtoul (dec n)) = n" if "n < 2 ^ 32" for n
    using strtoul_dec [of "[]" n] that by simp
  have "fold set_param (param_pairs p) (0, ?z) = (15, p)"
    using assms(1) by (simp add: param_pairs_def param_ok_def st)
  with attrs_loop_text [OF assms(2) r1(2) ok(2,1), of 0 ?z] obtain r' where
    "LoadAttrs_loop 0 ?z r1 = Some (15, p, r')" "rd T cap k r' (c # rst) stk"
    by auto
  then show "\<exists>r'. TVMGraphExecutorNode_LoadAttrs r = Some (p, r') \<and> rd T cap k r' (c # rst) stk"
    using r1(1) by (simp add: TVMGraphExecutorNode_LoadAttrs_def)
qed (rule opens_json)

section \<open>Nodes\<close>

record node_text =
  nt_op :: "u8 list"
  nt_name :: "u8 list"
  nt_param :: "op_param option"
  nt_inputs :: "node_entry list"

definition node_ok :: "node_text \<Rightarrow> bool" where
  "node_ok n \<longleftrightarrow> str_ok (nt_op n) 16 \<and> str_ok (nt_name n) 120 \<and> (case nt_param n of None \<Rightarrow> True | Some p \<Rightarrow> param_ok p)
     \<and> list_all entry_ok (nt_inputs n) \<and> length (nt_inputs n) < 2 ^ 26"

definition node_json :: "node_text \<Rightarrow> json" where
  "node_json n = JObj ([(lit ''op'', JStr (nt_op n)), (lit ''name'', JStr (nt_name n))]
     @ (case nt_param n of None \<Rightarrow> [] | Some p \<Rightarrow> [(lit ''attrs'', param_json p)])
     @ [(lit ''inputs'', JArr (map entry_json (nt_inputs n)))])"

text \<open>The node in the executor that a printed node becomes, up to the address of its inputs.\<close>

definition node_shown :: "node_text \<Rightarrow> graph_node \<Rightarrow> bool" where
  "node_shown n x \<longleftrightarrow> gn_op_type x = nt_op n \<and> gn_name x = nt_name n \<and> gn_param x = nt_param n
     \<and> gn_inputs x = map Some (nt_inputs n) \<and> gn_inputs_count x = length (nt_inputs n)"

definition node_blocks :: "graph_node \<Rightarrow> (addr \<times> nat) list" where
  "node_blocks x = [(gn_inputs_at x, 16 * gn_inputs_count x)]"

lemma takes_pure:
  assumes "str_ok key n" and "reads T cap f b x d"
    and "\<And>s bm r r' mgr. f r = Some (x, r') \<Longrightarrow> step key s bm r mgr = Some ((Next, 0), upd s, bm OR flag, r', mgr)"
  shows "takes step n T cap ps key b Q (\<lambda>(s, bm, bs) (s', bm', bs'). s' = upd s \<and> bm' = bm OR flag \<and> bs' = bs) d 0"
  unfolding takes_def
proof (intro conjI allI impI)
  fix s bm k r ws c rst stk base bs m mgr
  assume "Q s" and r: "rd T cap k r (ws @ b @ c # rst) stk" "white ws" "\<not> isdigit c" "length stk + d < cap" "hold base bs ps (0 + m) mgr"
  obtain r' where r': "f r = Some (x, r')" "rd T cap k r' (c # rst) stk"
    using readsD [OF assms(2) r(1-4)] by blast
  from assms(3) [OF r'(1)] show "\<exists>x' bm' bs' r' mgr'. step key s bm r mgr = Some ((Next, 0), x', bm', r', mgr')
      \<and> (case (s, bm, bs) of (s, bm, bs) \<Rightarrow> \<lambda>(s', bm', bs'). s' = upd s \<and> bm' = bm OR flag \<and> bs' = bs) (x', bm', bs')
      \<and> rd T cap k r' (c # rst) stk \<and> hold base bs' ps m mgr'"
    using r'(2) r(5) by (intro exI [of _ "upd s"] exI [of _ "bm OR flag"] exI [of _ bs] exI [of _ r'] exI [of _ mgr]) simp
qed (rule assms(1))

lemma key_ok: "str_ok (lit ''op'') 20" "str_ok (lit ''name'') 20" "str_ok (lit ''attrs'') 20" "str_ok (lit ''inputs'') 20"
  "str_ok (lit ''nodes'') 20" "str_ok (lit ''arg_nodes'') 20" "str_ok (lit ''node_row_ptr'') 20" "str_ok (lit ''heads'') 20"
  "str_ok (lit ''dltype'') 16" "str_ok (lit ''storage_id'') 16" "str_ok (lit ''shape'') 16"
  "str_ok (lit ''list_str'') 16" "str_ok (lit ''list_int'') 16" "str_ok (lit ''list_shape'') 16"
  by (simp_all add: str_ok_def plain_def enc_def esc_def lit_def)

lemma small_entries: "list_all entry_ok es \<Longrightarrow> length es < 2 ^ 26 \<Longrightarrow> small (map entry_json es)"
  by (auto simp: small_def entry_json_def)

lemma takes_inputs:
  assumes es: "list_all entry_ok es" "length es < 2 ^ 26" and w: "white w" and ps: "ps \<le> 2 ^ 31"
  shows "takes (Node_key g) 20 T cap ps (lit ''inputs'') (json_txt w (JArr (map entry_json es))) Q
    (\<lambda>(s, bm, bs) (s', bm', bs'). (\<exists>p. s' = s\<lparr>gn_inputs := map Some es, gn_inputs_at := p, gn_inputs_count := length es\<rparr> \<and> bs' = bs @ [(p, 16 * length es)]) \<and> bm' = bm OR 4)
    6 (list_pages ps 16 (length es))"
  unfolding takes_def
proof (intro conjI allI impI)
  fix s :: graph_node and bm k r ws c rst stk base bs m mgr
  assume "Q s" and r: "rd T cap k r (ws @ json_txt w (JArr (map entry_json es)) @ c # rst) stk" "white ws" "\<not> isdigit c"
    "length stk + 6 < cap" "hold base bs ps (list_pages ps 16 (length es) + m) mgr"
  have "hold base bs ps (list_pages ps 16 (length (map entry_json es)) + m) mgr" "16 * length (map entry_json es) < 2 ^ 31" "0 < (16 :: nat)"
    using r(5) es(2) by simp_all
  note cl = counted_list [OF r(1,2) w small_entries [OF es] r(4) this(1) ps this(3,2), of g, unfolded length_map]
  obtain r1 mgr1 r2 p mgr2 where b: "JSONReader_BeginArray r = Some r1"
    "JSONReader_ArrayLength mgr g r1 = Some (0, Some (length es), mgr1, r2)"
    "alloc_items mgr1 16 (length es) = Some (kTvmErrorNoError, p, replicate (length es) (None :: node_entry option), mgr2)"
    "rd T cap k r2 (items_txt w True (map (json_txt w) (map entry_json es)) @ w @ ch_rbracket # c # rst) (0 # stk)"
    "hold base (bs @ [(p, 16 * length es)]) ps m mgr2"
    by (rule cl)
  have "rd T cap k r2 (items_txt w (0 = (0 :: nat)) (map (json_txt w) (map entry_json es)) @ w @ ch_rbracket # c # rst) (0 # stk)"
    using b(4) by simp
  from node_inputs_text [OF w _ es(1) this, of "length es" "[]"] r(4) es(2) obtain r3 where r3:
    "Node_inputs_loop (length es) 0 (replicate (length es) None) r2 = Some ((Next, 0), length es, map Some es, r3)"
    "rd T cap k r3 (c # rst) stk"
    by auto
  let ?s = "s\<lparr>gn_inputs := map Some es, gn_inputs_at := p, gn_inputs_count := length es\<rparr>"
  have "Node_key g (lit ''inputs'') s bm r mgr = Some ((Next, 0), ?s, bm OR 4, r3, mgr2)"
    using b(1-3) r3(1) by (simp add: Node_key_def sizeof_NodeEntry_def)
  then show "\<exists>x' bm' bs' r' mgr'. Node_key g (lit ''inputs'') s bm r mgr = Some ((Next, 0), x', bm', r', mgr')
      \<and> (case (s, bm, bs) of (s, bm, bs) \<Rightarrow> \<lambda>(s', bm', bs'). (\<exists>p. s' = s\<lparr>gn_inputs := map Some es, gn_inputs_at := p,
          gn_inputs_count := length es\<rparr> \<and> bs' = bs @ [(p, 16 * length es)]) \<and> bm' = bm OR 4) (x', bm', bs')
      \<and> rd T cap k r' (c # rst) stk \<and> hold base bs' ps m mgr'"
    using r3(2) b(5)
    by (intro exI [of _ ?s] exI [of _ "bm OR 4"] exI [of _ "bs @ [(p, 16 * length es)]"] exI [of _ r3] exI [of _ mgr2]) auto
qed (rule key_ok)

lemma reads_mono: "reads T cap f b x d \<Longrightarrow> d \<le> d' \<Longrightarrow> reads T cap f b x d'"
  unfolding reads_def by (meson add_le_mono1 le_less_trans nat_add_left_cancel_le)

text \<open>The keys of a printed node with what they do.\<close>

definition node_steps ::
    "u8 list \<Rightarrow> nat \<Rightarrow> node_text \<Rightarrow> (u8 list \<times> u8 list \<times> graph_node effect \<times> nat) list" where
  "node_steps w ps n =
     [(lit ''op'', json_txt w (JStr (nt_op n)), \<lambda>(s, bm, bs) (s', bm', bs'). s' = s\<lparr>gn_op_type := nt_op n\<rparr> \<and> bm' = bm OR 1 \<and> bs' = bs, 0),
      (lit ''name'', json_txt w (JStr (nt_name n)), \<lambda>(s, bm, bs) (s', bm', bs'). s' = s\<lparr>gn_name := nt_name n\<rparr> \<and> bm' = bm OR 2 \<and> bs' = bs, 0)]
     @ (case nt_param n of None \<Rightarrow> []
        | Some p \<Rightarrow> [(lit ''attrs'', json_txt w (param_json p), \<lambda>(s, bm, bs) (s', bm', bs'). s' = s\<lparr>gn_param := Some p\<rparr> \<and> bm' = bm OR 0 \<and> bs' = bs, 0)])
     @ [(lit ''inputs'', json_txt w (JArr (map entry_json (nt_inputs n))),
         \<lambda>(s, bm, bs) (s', bm', bs'). (\<exists>p. s' = s\<lparr>gn_inputs := map Some (nt_inputs n), gn_inputs_at := p,
            gn_inputs_count := length (nt_inputs n)\<rparr> \<and> bs' = bs @ [(p, 16 * length (nt_inputs n))]) \<and> bm' = bm OR 4,
         list_pages ps 16 (length (nt_inputs n)))]"

lemma node_steps_take:
  assumes "node_ok n" and w: "white w" and ps: "ps \<le> 2 ^ 31"
  shows "list_all (\<lambda>(key, b, R, cost). takes (Node_key g) 20 T cap ps key b (Q key) R 6 cost) (node_steps w ps n)"
proof -
  have ok: "str_ok (nt_op n) 16" "str_ok (nt_name n) 120" "\<And>p. nt_param n = Some p \<Longrightarrow> param_ok p"
    "list_all entry_ok (nt_inputs n)" "length (nt_inputs n) < 2 ^ 26"
    using assms(1) by (auto simp: node_ok_def)
  have 1: "takes (Node_key g) 20 T cap ps (lit ''op'') (json_txt w (JStr (nt_op n))) (Q (lit ''op''))
      (\<lambda>(s, bm, bs) (s', bm', bs'). s' = s\<lparr>gn_op_type := nt_op n\<rparr> \<and> bm' = bm OR 1 \<and> bs' = bs) 6 0"
    by (rule takes_pure [OF key_ok(1) reads_str [OF ok(1)]]) (simp add: Node_key_def)
  have 2: "takes (Node_key g) 20 T cap ps (lit ''name'') (json_txt w (JStr (nt_name n))) (Q (lit ''name''))
      (\<lambda>(s, bm, bs) (s', bm', bs'). s' = s\<lparr>gn_name := nt_name n\<rparr> \<and> bm' = bm OR 2 \<and> bs' = bs) 6 0"
    by (rule takes_pure [OF key_ok(2) reads_str [OF ok(2)]]) (simp add: Node_key_def TVM_CRT_MAX_STRLEN_FUNCTION_NAME_def)
  have 3: "takes (Node_key g) 20 T cap ps (lit ''attrs'') (json_txt w (param_json p)) (Q (lit ''attrs''))
      (\<lambda>(s, bm, bs) (s', bm', bs'). s' = s\<lparr>gn_param := Some p\<rparr> \<and> bm' = bm OR 0 \<and> bs' = bs) 6 0" if "nt_param n = Some p" for p
    by (rule takes_pure [OF key_ok(3) reads_mono [OF reads_params [OF ok(3) [OF that] w]]]) (simp_all add: Node_key_def)
  show ?thesis
    using 1 2 3 takes_inputs [OF ok(4,5) w ps] by (simp add: node_steps_def split: option.split)
qed

lemma loads_node:
  assumes n: "node_ok n" and w: "white w" and ps: "ps \<le> 2 ^ 31"
  shows "loads T cap ps (TVMGraphExecutorNode_Load g blank_node) (json_txt w (node_json n)) (node_shown n) node_blocks 7
    (list_pages ps 16 (length (nt_inputs n)))"
  unfolding loads_def
proof (intro conjI allI impI)
  fix k r ws c rst stk base bs m mgr
  assume r: "rd T cap k r (ws @ json_txt w (node_json n) @ c # rst) stk" "white ws" "length stk + 7 < cap"
    "hold base bs ps (list_pages ps 16 (length (nt_inputs n)) + m) mgr"
  let ?ks = "node_steps w ps n"
  have tx: "json_txt w (node_json n) = ch_lbrace # items_txt w (0 = (0 :: nat)) (map (\<lambda>(key, b, _). pair_txt w key b) ?ks)
      @ w @ [ch_rbrace]"
    by (cases "nt_param n") (simp_all add: node_json_def node_steps_def del: items_txt.simps)
  have r0: "rd T cap k r (ws @ ch_lbrace # items_txt w (0 = (0 :: nat)) (map (\<lambda>(key, b, _). pair_txt w key b) ?ks)
      @ w @ ch_rbrace # c # rst) stk"
    using r(1) unfolding tx by simp
  have cap: "length stk + 1 < cap" "length stk + 1 + 6 < cap" "0 + length ?ks < 2 ^ 32"
    using r(3) by (simp_all add: node_steps_def split: option.split)
  obtain r1 where r1: "JSONReader_BeginObject r = Some r1"
    "rd T cap k r1 (items_txt w (0 = (0 :: nat)) (map (\<lambda>(key, b, _). pair_txt w key b) ?ks) @ w @ ch_rbrace # c # rst) (0 # stk)"
    using Begin_rd(2) [OF r0 r(2) cap(1) refl] by blast
  have cost: "hold base bs ps (sum_list (map (\<lambda>(_, _, _, cost). cost) ?ks) + m) mgr"
    using r(4) by (cases "nt_param n") (simp_all add: node_steps_def)
  obtain x bm bs' r' mgr' where l: "Node_loop g blank_node 0 r1 mgr = Some ((Next, 0), x, bm, r', mgr')"
    "chain (map (\<lambda>(_, _, R, _). R) ?ks) (blank_node, 0, bs) (x, bm, bs')" "rd T cap k r' (c # rst) stk" "hold base bs' ps m mgr'"
    using node_keys.keys_text [OF w cap(2) node_steps_take [OF n w ps] r1(2) cap(3) cost guarded_True, where x = blank_node and bm = 0 and g = g]
    by blast
  have "node_shown n x \<and> bm = 7 \<and> bs' = bs @ node_blocks x"
    using l(2) by (cases "nt_param n") (auto simp: node_steps_def node_shown_def blank_node_def node_blocks_def)
  then show "\<exists>x r' mgr'. TVMGraphExecutorNode_Load g blank_node r mgr = Some (0, x, r', mgr') \<and> node_shown n x
      \<and> rd T cap k r' (c # rst) stk \<and> hold base (bs @ node_blocks x) ps m mgr'"
    using l r1(1)
    by (intro exI [of _ x] exI [of _ r'] exI [of _ mgr']) (simp add: TVMGraphExecutorNode_Load_def)
qed (unfold node_json_def, rule opens_json)

section \<open>Shapes\<close>

text \<open>
  The first dimension is read without asking for an item, so the comma behind it is still there when the
  first item is asked for; the second request takes it.
\<close>

lemma next_after_comma:
  assumes "rd T cap k r (ws @ ch_comma # rst) (v # stk)" and "white ws" and "v \<noteq> 0" and "v + 1 < 2 ^ 32"
  obtains r' where "JSONReader_NextArrayItem r = Some (True, r')" "rd T cap k r' rst ((v + 1) # stk)"
proof -
  obtain r1 where r1: "next_item ch_rbracket r = Some (True, r1)" "rd T cap k r1 rst (v # stk)"
    using next_item_comma [OF assms(1-3), of ch_rbracket] by auto
  obtain r2 where "incr_scope r1 = Some r2" "rd T cap k r2 rst ((v + 1) # stk)"
    using incr_scope_rd [OF r1(2)] assms(4) by auto
  then show thesis
    using r1(1) by (intro that [of r2]) (simp_all add: JSONReader_NextArrayItem_def)
qed

lemma read_int_at:
  assumes "rd T cap k r (w @ dec n @ rst) stk" and "white w" and "rst = c # t" and "\<not> isdigit c" and "n < 2 ^ 31"
  obtains r' where "JSONReader_ReadInteger r = Some (int n, r')" "rd T cap k r' rst stk"
  using ReadInteger_rd(1) [of T cap k r w n c t stk] assms by auto

lemma read_dims_text:
  assumes w: "white w"
  shows "rd T cap k r (ws @ ch_comma # w @ dec e @ items_txt w False (map dec es) @ w @ ch_rbracket # rst) (v # stk) \<Longrightarrow>
    white ws \<Longrightarrow> v \<noteq> 0 \<Longrightarrow> v + length es + 2 < 2 ^ 32 \<Longrightarrow> length es < n \<Longrightarrow> \<forall>d \<in> set (e # es). d < 2 ^ 31 \<Longrightarrow>
    \<exists>r'. read_dims n dims r = Some (dims @ map int (e # es), r') \<and> rd T cap k r' rst stk"
proof (induction es arbitrary: e n v r ws dims)
  case Nil
  then obtain m where n: "n = Suc m"
    by (cases n) auto
  obtain r1 where r1: "JSONReader_NextArrayItem r = Some (True, r1)"
    "rd T cap k r1 (w @ dec e @ w @ ch_rbracket # rst) ((v + 1) # stk)"
    using next_after_comma [OF Nil.prems(1-3)] Nil.prems(4) by auto
  obtain c t where c: "w @ ch_rbracket # rst = c # t" "\<not> isdigit c"
    using items_txt_next [OF w, of ch_rbracket "[]" rst] by (auto simp: isdigit_def)
  obtain r2 where r2: "JSONReader_ReadInteger r1 = Some (int e, r2)" "rd T cap k r2 (w @ ch_rbracket # rst) ((v + 1) # stk)"
    by (rule read_int_at [OF r1(2) w c]) (use Nil.prems(6) in auto)
  obtain r3 where "JSONReader_NextArrayItem r2 = Some (False, r3)" "rd T cap k r3 rst stk"
    using NextArrayItem_rd_end [OF r2(2) w] by blast
  then show ?case
    using r1(1) r2(1) n by (cases m) simp_all
next
  case (Cons e' es)
  then obtain m where n: "n = Suc m" "length es < m"
    by (cases n) auto
  let ?rest = "ch_comma # w @ dec e' @ items_txt w False (map dec es) @ w @ ch_rbracket # rst"
  obtain r1 where r1: "JSONReader_NextArrayItem r = Some (True, r1)" "rd T cap k r1 (w @ dec e @ w @ ?rest) ((v + 1) # stk)"
    using next_after_comma [OF Cons.prems(1-3)] Cons.prems(4) by auto
  obtain c t where c: "w @ ?rest = c # t" "\<not> isdigit c"
    using items_txt_next [OF w, of ch_rbracket "map dec (e' # es)" rst] by (auto simp: isdigit_def)
  obtain r2 where r2: "JSONReader_ReadInteger r1 = Some (int e, r2)" "rd T cap k r2 (w @ ?rest) ((v + 1) # stk)"
    by (rule read_int_at [OF r1(2) w c]) (use Cons.prems(6) in auto)
  have "\<forall>d \<in> set (e' # es). d < 2 ^ 31" "v + 1 \<noteq> 0" "v + 1 + length es + 2 < 2 ^ 32"
    using Cons.prems(4,6) by auto
  from Cons.IH [OF r2(2) w this(2,3) n(2) this(1), of "dims @ [int e]"] show ?case
    using r1(1) r2(1) n(1) by auto
qed

definition shape_ok :: "nat list \<Rightarrow> bool" where
  "shape_ok ds \<longleftrightarrow> ds \<noteq> [] \<and> length ds \<le> TVM_CRT_MAX_NDIM \<and> (\<forall>d \<in> set ds. d < 2 ^ 31)"

lemma reads_shape:
  assumes "shape_ok ds" and w: "white w"
  shows "reads T cap read_shape (json_txt w (JArr (map JInt ds))) (map int ds) 1"
  unfolding reads_def
proof (intro conjI allI impI)
  fix k r ws c rst stk
  assume r: "rd T cap k r (ws @ json_txt w (JArr (map JInt ds)) @ c # rst) stk" "white ws" "length stk + 1 < cap"
  obtain d es where ds: "ds = d # es" "length es \<le> 5" "d < 2 ^ 31" "\<forall>e \<in> set es. e < 2 ^ 31"
    using assms(1) by (cases ds) (auto simp: shape_ok_def TVM_CRT_MAX_NDIM_def)
  let ?rest = "items_txt w False (map dec es) @ w @ ch_rbracket # c # rst"
  obtain r0 where r0: "JSONReader_BeginArray r = Some r0" "rd T cap k r0 (w @ dec d @ ?rest) (0 # stk)"
    using Begin_rd(1) [OF _ r(2), of T cap k r ch_lbracket _ stk] r(1,3) ds(1) by (auto simp: comp_def)
  obtain c' t where c: "?rest = c' # t" "\<not> isdigit c'"
    using items_txt_next [OF w, of ch_rbracket "map dec es" "c # rst"] by (auto simp: isdigit_def)
  obtain r1 where r1: "JSONReader_ReadInteger r0 = Some (int d, r1)" "rd T cap k r1 ?rest (0 # stk)"
    by (rule read_int_at [OF r0(2) w c ds(3)])
  show "\<exists>r'. read_shape r = Some (map int ds, r') \<and> rd T cap k r' (c # rst) stk"
  proof (cases es)
    case Nil
    then obtain r2 where "JSONReader_NextArrayItem r1 = Some (False, r2)" "rd T cap k r2 (c # rst) stk"
      using NextArrayItem_rd_end [of T cap k r1 w "c # rst" 0 stk] r1(2) w by auto
    then show ?thesis
      using r0(1) r1(1) ds(1) Nil by (simp add: read_shape_def)
  next
    case (Cons e es')
    let ?b = "ch_comma # w @ dec e @ items_txt w False (map dec es') @ w @ ch_rbracket # c # rst"
    have "opens ?b"
      by (simp add: opens_def isspace_def)
    then obtain r2 ws' where r2: "JSONReader_NextArrayItem r1 = Some (True, r2)" "white ws'" "rd T cap k r2 (ws' @ ?b) (1 # stk)"
      using NextArrayItem_rd [of T cap k r1 0 w ?b "[]" stk] r1(2) Cons w by auto
    have "\<forall>d \<in> set (e # es'). d < 2 ^ 31" "length es' < TVM_CRT_MAX_NDIM - 1" "1 + length es' + 2 < 2 ^ 32"
      using ds(2,4) Cons by (auto simp: TVM_CRT_MAX_NDIM_def)
    from read_dims_text [OF w r2(3,2) _ this(3,2,1), of "[int d]"] show ?thesis
      using r0(1) r1(1) r2(1) ds(1) Cons by (auto simp: read_shape_def)
  qed
qed (rule opens_json)

section \<open>Attributes\<close>

text \<open>A list with the name of its type before it, up to its block.\<close>

definition typed_json :: "string \<Rightarrow> json list \<Rightarrow> json" where
  "typed_json ty js = JArr [JStr (lit ty), JArr js]"

lemma next_first:
  assumes "rd T cap k r (w @ b @ rst) (0 # stk)" and "white w" and "opens b"
  obtains r' ws where "JSONReader_NextArrayItem r = Some (True, r')" "white ws" "rd T cap k r' (ws @ b @ rst) (1 # stk)"
  using NextArrayItem_rd [of T cap k r 0 w b rst stk] assms by auto

lemma typed_list:
  assumes r: "rd T cap k r (ws @ json_txt w (typed_json ty js) @ rst) stk" and w: "white ws" "white w"
    and ty: "str_ok (lit ty) 16" and js: "small js" and cap: "length stk + 7 < cap"
    and h: "hold base bs ps (list_pages ps e (length js) + m) mgr" and ps: "ps \<le> 2 ^ 31" and e: "0 < e" "e * length js < 2 ^ 31"
  obtains r2 mgr1 p mgr2 where "open_typed_list g ty r mgr = Some (Some (length js), r2, mgr1)"
    "alloc_items mgr1 e (length js) = Some (kTvmErrorNoError, p, replicate (length js) None, mgr2)"
    "rd T cap k r2 (items_txt w (0 = (0 :: nat)) (map (json_txt w) js) @ w @ ch_rbracket # w @ ch_rbracket # rst) (0 # 2 # stk)"
    "hold base (bs @ [(p, e * length js)]) ps m mgr2"
proof -
  let ?b2 = "json_txt w (JArr js)" and ?b1 = "json_txt w (JStr (lit ty))"
  obtain r0 where r0: "JSONReader_BeginArray r = Some r0"
    "rd T cap k r0 (w @ ?b1 @ (w @ ch_comma # w) @ ?b2 @ w @ ch_rbracket # rst) (0 # stk)"
    using Begin_rd(1) [OF _ w(1), of T cap k r ch_lbracket _ stk] r cap by (auto simp: typed_json_def)
  obtain r1 ws1 where r1: "JSONReader_NextArrayItem r0 = Some (True, r1)" "white ws1"
    "rd T cap k r1 (ws1 @ ?b1 @ (w @ ch_comma # w) @ ?b2 @ w @ ch_rbracket # rst) (1 # stk)"
    by (rule next_first [OF r0(2) w(2) opens_json])
  obtain c t where c: "(w @ ch_comma # w) @ ?b2 @ w @ ch_rbracket # rst = c # t" "\<not> isdigit c"
    using items_txt_next [OF w(2), of ch_rbracket "[?b2]" rst] by (auto simp: isdigit_def)
  have r1c: "rd T cap k r1 (ws1 @ ?b1 @ c # t) (1 # stk)"
    using r1(3) c(1) by simp
  obtain r2 where r2: "JSONReader_ReadString False 16 r1 = Some (lit ty, r2)"
    "rd T cap k r2 ((w @ ch_comma # w) @ ?b2 @ w @ ch_rbracket # rst) (1 # stk)"
    by (rule readsD [OF reads_str [OF ty, where d = 0] r1c r1(2) c(2)]) (use c(1) cap in auto)
  have "rd T cap k r2 (w @ ch_comma # w @ ?b2 @ w @ ch_rbracket # rst) (1 # stk)"
    using r2(2) by simp
  then obtain r3 where r3: "JSONReader_NextArrayItem r2 = Some (True, r3)"
    "rd T cap k r3 (w @ ?b2 @ w @ ch_rbracket # rst) (2 # stk)"
    by (rule next_after_comma) (use w(2) in \<open>auto simp: numeral_2_eq_2 [symmetric]\<close>)
  have "length (2 # stk) + 6 < cap"
    using cap by simp
  note cl = counted_list [OF r3(2) w(2,2) js this h ps e, of g]
  obtain r4 mgr1 r5 p mgr2 where b: "JSONReader_BeginArray r3 = Some r4"
    "JSONReader_ArrayLength mgr g r4 = Some (0, Some (length js), mgr1, r5)"
    "alloc_items mgr1 e (length js) = Some (kTvmErrorNoError, p, replicate (length js) (None :: 'a option), mgr2)"
    "rd T cap k r5 (items_txt w True (map (json_txt w) js) @ w @ ch_rbracket # w @ ch_rbracket # rst) (0 # 2 # stk)"
    "hold base (bs @ [(p, e * length js)]) ps m mgr2"
    by (rule cl)
  show thesis
    using that [of r5 mgr1 p mgr2] b r0(1) r1(1) r2(1) r3(1) by (simp add: open_typed_list_def)
qed

lemma close_text:
  assumes "rd T cap k r (w @ ch_rbracket # rst) (v # stk)" and "white w"
  obtains r' where "close_typed_list flag a bm r mgr = Some ((Next, 0), a, bm OR flag, r', mgr)" "rd T cap k r' rst stk"
  using NextArrayItem_rd_end [OF assms] by (auto simp: close_typed_list_def)

text \<open>The same up to the end of the inner list, with the items that were read.\<close>

lemma typed_fill:
  assumes r: "rd T cap k r (ws @ json_txt w (typed_json ty js) @ rst) stk" and w: "white ws" "white w"
    and ty: "str_ok (lit ty) 16" and js: "small js" and cap: "length stk + 7 < cap"
    and h: "hold base bs ps (list_pages ps e (length js) + m) mgr" and ps: "ps \<le> 2 ^ 31" and e: "0 < e" "e * length js < 2 ^ 31"
    and all: "list_all2 (\<lambda>j x. reads T cap f (json_txt w j) x 1) js xs"
  obtains r2 mgr1 p mgr2 r3 where "open_typed_list g ty r mgr = Some (Some (length js), r2, mgr1)"
    "alloc_items mgr1 e (length js) = Some (kTvmErrorNoError, p, replicate (length js) (None :: 'a option), mgr2)"
    "fill_items (length js) f 0 (replicate (length js) None) r2 = Some (Next, length js, map Some xs, r3)"
    "rd T cap k r3 (w @ ch_rbracket # rst) (2 # stk)" "hold base (bs @ [(p, e * length js)]) ps m mgr2"
proof -
  note tl = typed_list [OF r w ty js cap h ps e, of g]
  obtain r2 mgr1 p mgr2 where b: "open_typed_list g ty r mgr = Some (Some (length js), r2, mgr1)"
    "alloc_items mgr1 e (length js) = Some (kTvmErrorNoError, p, replicate (length js) (None :: 'a option), mgr2)"
    "rd T cap k r2 (items_txt w (0 = (0 :: nat)) (map (json_txt w) js) @ w @ ch_rbracket # w @ ch_rbracket # rst) (0 # 2 # stk)"
    "hold base (bs @ [(p, e * length js)]) ps m mgr2"
    by (rule tl)
  have all': "list_all2 (\<lambda>b x. reads T cap f b x 1) (map (json_txt w) js) xs"
    using all by (simp add: list_all2_map1)
  have c: "length (2 # stk) + 1 + 1 < cap" "0 + length (map (json_txt w) js) < 2 ^ 32"
    using cap js by (simp_all add: small_def)
  from fill_items_text [OF w(2) c(1) all' b(3) c(2), of "length js" "[]"] obtain r3 where
    "fill_items (length js) f 0 (replicate (length js) None) r2 = Some (Next, length js, map Some xs, r3)"
    "rd T cap k r3 (w @ ch_rbracket # rst) (2 # stk)"
    by auto
  then show thesis
    using that [of r2 mgr1 p mgr2 r3] b by blast
qed

lemma takes_dltype:
  assumes ds: "\<forall>d \<in> set ds. str_ok d 10" "length ds < 2 ^ 26" and w: "white w" and ps: "ps \<le> 2 ^ 31"
  shows "takes (Attr_key g) 16 T cap ps (lit ''dltype'') (json_txt w (typed_json ''list_str'' (map JStr ds))) Q
    (\<lambda>(s, bm, bs) (s', bm', bs'). (\<exists>p. s' = s\<lparr>ga_dltype_at := p, ga_dltype := map Some ds, ga_dltype_count := length ds\<rparr> \<and> bs' = bs @ [(p, 10 * length ds)]) \<and> bm' = bm OR 1)
    7 (list_pages ps 10 (length ds))"
  unfolding takes_def
proof (intro conjI allI impI)
  fix s :: graph_attr and bm k r ws c rst stk base bs m mgr
  assume "Q s" and r: "rd T cap k r (ws @ json_txt w (typed_json ''list_str'' (map JStr ds)) @ c # rst) stk" "white ws" "\<not> isdigit c"
    "length stk + 7 < cap" "hold base bs ps (list_pages ps 10 (length ds) + m) mgr"
  have pre: "small (map JStr ds)" "hold base bs ps (list_pages ps 10 (length (map JStr ds)) + m) mgr" "0 < (10 :: nat)"
    "10 * length (map JStr ds) < 2 ^ 31"
    "list_all2 (\<lambda>j x. reads T cap (JSONReader_ReadString False 10) (json_txt w j) x 1) (map JStr ds) ds"
    using r(5) ds reads_str by (auto simp: small_def str_ok_def list_all2_conv_all_nth simp del: json_txt.simps)
  obtain r2 mgr1 p mgr2 r3 where b: "open_typed_list g ''list_str'' r mgr = Some (Some (length ds), r2, mgr1)"
    "alloc_items mgr1 10 (length ds) = Some (kTvmErrorNoError, p, replicate (length ds) (None :: u8 list option), mgr2)"
    "fill_items (length ds) (JSONReader_ReadString False 10) 0 (replicate (length ds) None) r2 = Some (Next, length ds, map Some ds, r3)"
    "rd T cap k r3 (w @ ch_rbracket # c # rst) (2 # stk)" "hold base (bs @ [(p, 10 * length ds)]) ps m mgr2"
    by (rule typed_fill [OF r(1,2) w key_ok(12) pre(1) r(4) pre(2) ps pre(3-5), of g, unfolded length_map])
  let ?s = "s\<lparr>ga_dltype_at := p, ga_dltype := map Some ds, ga_dltype_count := length ds\<rparr>"
  obtain r4 where r4: "close_typed_list 1 ?s bm r3 mgr2 = Some ((Next, 0), ?s, bm OR 1, r4, mgr2)" "rd T cap k r4 (c # rst) stk"
    using close_text [OF b(4) w] by blast
  have "Attr_key g (lit ''dltype'') s bm r mgr = Some ((Next, 0), ?s, bm OR 1, r4, mgr2)"
    using b(1-3) r4(1) by (simp add: Attr_key_def Attr_dltype_def TVM_CRT_MAX_STRLEN_DLTYPE_def)
  then show "\<exists>x' bm' bs' r' mgr'. Attr_key g (lit ''dltype'') s bm r mgr = Some ((Next, 0), x', bm', r', mgr')
      \<and> (case (s, bm, bs) of (s, bm, bs) \<Rightarrow> \<lambda>(s', bm', bs'). (\<exists>p. s' = s\<lparr>ga_dltype_at := p, ga_dltype := map Some ds,
          ga_dltype_count := length ds\<rparr> \<and> bs' = bs @ [(p, 10 * length ds)]) \<and> bm' = bm OR 1) (x', bm', bs')
      \<and> rd T cap k r' (c # rst) stk \<and> hold base bs' ps m mgr'"
    using r4(2) b(5) by (intro exI [of _ ?s] exI [of _ "bm OR 1"] exI [of _ "bs @ [(p, 10 * length ds)]"] exI [of _ r4] exI [of _ mgr2]) auto
qed (rule key_ok)

lemma takes_storage_id:
  assumes ids: "\<forall>i \<in> set ids. i < 2 ^ 31" "length ids < 2 ^ 26" and w: "white w" and ps: "ps \<le> 2 ^ 31"
  shows "takes (Attr_key g) 16 T cap ps (lit ''storage_id'') (json_txt w (typed_json ''list_int'' (map JInt ids))) Q
    (\<lambda>(s, bm, bs) (s', bm', bs'). (\<exists>p. s' = s\<lparr>ga_storage_id_at := p, ga_storage_id := map Some ids\<rparr> \<and> bs' = bs @ [(p, 4 * length ids)]) \<and> bm' = bm OR 2)
    7 (list_pages ps 4 (length ids))"
  unfolding takes_def
proof (intro conjI allI impI)
  fix s :: graph_attr and bm k r ws c rst stk base bs m mgr
  assume "Q s" and r: "rd T cap k r (ws @ json_txt w (typed_json ''list_int'' (map JInt ids)) @ c # rst) stk" "white ws" "\<not> isdigit c"
    "length stk + 7 < cap" "hold base bs ps (list_pages ps 4 (length ids) + m) mgr"
  have pre: "small (map JInt ids)" "hold base bs ps (list_pages ps 4 (length (map JInt ids)) + m) mgr" "0 < (4 :: nat)"
    "4 * length (map JInt ids) < 2 ^ 31"
    "list_all2 (\<lambda>j x. reads T cap JSONReader_ReadUnsignedInteger (json_txt w j) x 1) (map JInt ids) ids"
    using r(5) ids reads_nat by (auto simp: small_def list_all2_conv_all_nth)
  obtain r2 mgr1 p mgr2 r3 where b: "open_typed_list g ''list_int'' r mgr = Some (Some (length ids), r2, mgr1)"
    "alloc_items mgr1 4 (length ids) = Some (kTvmErrorNoError, p, replicate (length ids) (None :: nat option), mgr2)"
    "fill_items (length ids) JSONReader_ReadUnsignedInteger 0 (replicate (length ids) None) r2 = Some (Next, length ids, map Some ids, r3)"
    "rd T cap k r3 (w @ ch_rbracket # c # rst) (2 # stk)" "hold base (bs @ [(p, 4 * length ids)]) ps m mgr2"
    by (rule typed_fill [OF r(1,2) w key_ok(13) pre(1) r(4) pre(2) ps pre(3-5), of g, unfolded length_map])
  let ?s = "s\<lparr>ga_storage_id_at := p, ga_storage_id := map Some ids\<rparr>"
  obtain r4 where r4: "close_typed_list 2 ?s bm r3 mgr2 = Some ((Next, 0), ?s, bm OR 2, r4, mgr2)" "rd T cap k r4 (c # rst) stk"
    using close_text [OF b(4) w] by blast
  have "Attr_key g (lit ''storage_id'') s bm r mgr = Some ((Next, 0), ?s, bm OR 2, r4, mgr2)"
    using b(1-3) r4(1) by (simp add: Attr_key_def Attr_storage_id_def)
  then show "\<exists>x' bm' bs' r' mgr'. Attr_key g (lit ''storage_id'') s bm r mgr = Some ((Next, 0), x', bm', r', mgr')
      \<and> (case (s, bm, bs) of (s, bm, bs) \<Rightarrow> \<lambda>(s', bm', bs'). (\<exists>p. s' = s\<lparr>ga_storage_id_at := p, ga_storage_id := map Some ids\<rparr> \<and> bs' = bs @ [(p, 4 * length ids)])
          \<and> bm' = bm OR 2) (x', bm', bs')
      \<and> rd T cap k r' (c # rst) stk \<and> hold base bs' ps m mgr'"
    using r4(2) b(5) by (intro exI [of _ ?s] exI [of _ "bm OR 2"] exI [of _ "bs @ [(p, 4 * length ids)]"] exI [of _ r4] exI [of _ mgr2]) auto
qed (rule key_ok)

lemma takes_shape:
  assumes ds: "\<forall>d \<in> set ds. shape_ok d" "length ds < 2 ^ 24" "ds \<noteq> []" and w: "white w" and ps: "ps \<le> 2 ^ 31"
  shows "takes (Attr_key g) 16 T cap ps (lit ''shape'') (json_txt w (typed_json ''list_shape'' (map (\<lambda>d. JArr (map JInt d)) ds))) Q
    (\<lambda>(s, bm, bs) (s', bm', bs'). (\<exists>p q. s' = s\<lparr>ga_shape_at := p, ga_ndim_at := q, ga_shape := map (\<lambda>d. Some (map int d)) ds,
      ga_shape_count := length ds\<rparr> \<and> bs' = bs @ [(p, 48 * length ds), (q, 4 * length ds)]) \<and> bm' = bm OR 4)
    7 (list_pages ps 48 (length ds) + pages_of ps (4 * length ds))"
  unfolding takes_def
proof (intro conjI allI impI)
  let ?js = "map (\<lambda>d. JArr (map JInt d)) ds"
  fix s :: graph_attr and bm k r ws c rst stk base bs m mgr
  assume "Q s" and r: "rd T cap k r (ws @ json_txt w (typed_json ''list_shape'' ?js) @ c # rst) stk" "white ws" "\<not> isdigit c"
    "length stk + 7 < cap" "hold base bs ps (list_pages ps 48 (length ds) + pages_of ps (4 * length ds) + m) mgr"
  have pre: "small ?js" "hold base bs ps (list_pages ps 48 (length ?js) + (pages_of ps (4 * length ds) + m)) mgr" "0 < (48 :: nat)"
    "48 * length ?js < 2 ^ 31"
    using r(5) ds by (auto simp: small_def shape_ok_def TVM_CRT_MAX_NDIM_def add.assoc)
  have all: "list_all2 (\<lambda>j x. reads T cap read_shape (json_txt w j) x 1) ?js (map (map int) ds)"
    using ds(1) by (auto simp: list_all2_conv_all_nth simp del: json_txt.simps intro!: reads_shape [OF _ w, unfolded One_nat_def])
  obtain r2 mgr1 p mgr2 r3 where b: "open_typed_list g ''list_shape'' r mgr = Some (Some (length ds), r2, mgr1)"
    "alloc_items mgr1 48 (length ds) = Some (kTvmErrorNoError, p, replicate (length ds) (None :: int list option), mgr2)"
    "fill_items (length ds) read_shape 0 (replicate (length ds) None) r2 = Some (Next, length ds, map Some (map (map int) ds), r3)"
    "rd T cap k r3 (w @ ch_rbracket # c # rst) (2 # stk)" "hold base (bs @ [(p, 48 * length ds)]) ps (pages_of ps (4 * length ds) + m) mgr2"
    by (rule typed_fill [OF r(1,2) w key_ok(14) pre(1) r(4) pre(2) ps pre(3,4) all, of g, unfolded length_map])
  obtain q mgr3 where a: "PageMemoryManager_Allocate mgr2 (4 * length ds) = Some (kTvmErrorNoError, q, mgr3)"
    "hold base ((bs @ [(p, 48 * length ds)]) @ [(q, 4 * length ds)]) ps m mgr3"
    by (rule hold_alloc [OF b(5)]) (use ps ds(2,3) in auto)
  let ?s = "s\<lparr>ga_shape_at := p, ga_ndim_at := q, ga_shape := map (\<lambda>d. Some (map int d)) ds, ga_shape_count := length ds\<rparr>"
  obtain r4 where r4: "close_typed_list 4 ?s bm r3 mgr3 = Some ((Next, 0), ?s, bm OR 4, r4, mgr3)" "rd T cap k r4 (c # rst) stk"
    using close_text [OF b(4) w] by blast
  have "Attr_key g (lit ''shape'') s bm r mgr = Some ((Next, 0), ?s, bm OR 4, r4, mgr3)"
    using b(1-3) a(1) r4(1) ds(2) by (simp add: Attr_key_def Attr_shape_def TVM_CRT_MAX_NDIM_def comp_def)
  then show "\<exists>x' bm' bs' r' mgr'. Attr_key g (lit ''shape'') s bm r mgr = Some ((Next, 0), x', bm', r', mgr')
      \<and> (case (s, bm, bs) of (s, bm, bs) \<Rightarrow> \<lambda>(s', bm', bs'). (\<exists>p q. s' = s\<lparr>ga_shape_at := p, ga_ndim_at := q,
          ga_shape := map (\<lambda>d. Some (map int d)) ds, ga_shape_count := length ds\<rparr> \<and> bs' = bs @ [(p, 48 * length ds), (q, 4 * length ds)]) \<and> bm' = bm OR 4) (x', bm', bs')
      \<and> rd T cap k r' (c # rst) stk \<and> hold base bs' ps m mgr'"
    using r4(2) a(2) by (intro exI [of _ ?s] exI [of _ "bm OR 4"] exI [of _ "(bs @ [(p, 48 * length ds)]) @ [(q, 4 * length ds)]"] exI [of _ r4] exI [of _ mgr3]) auto
qed (rule key_ok)

section \<open>The graph\<close>

record graph_text =
  gt_nodes :: "node_text list"
  gt_arg_nodes :: "nat list"
  gt_heads :: "node_entry list"
  gt_dltype :: "u8 list list"
  gt_storage_id :: "nat list"
  gt_shape :: "nat list list"
  gt_node_row_ptr :: "nat list"

definition attr_blocks :: "graph_attr \<Rightarrow> (addr \<times> nat) list" where
  "attr_blocks a = [(ga_dltype_at a, 10 * ga_dltype_count a), (ga_storage_id_at a, 4 * length (ga_storage_id a)),
     (ga_shape_at a, 48 * ga_shape_count a), (ga_ndim_at a, 4 * ga_shape_count a)]"

definition attrs_json :: "graph_text \<Rightarrow> json" where
  "attrs_json gt = JObj [(lit ''dltype'', typed_json ''list_str'' (map JStr (gt_dltype gt))),
     (lit ''storage_id'', typed_json ''list_int'' (map JInt (gt_storage_id gt))),
     (lit ''shape'', typed_json ''list_shape'' (map (\<lambda>d. JArr (map JInt d)) (gt_shape gt)))]"

definition graph_json :: "graph_text \<Rightarrow> json" where
  "graph_json gt = JObj [(lit ''nodes'', JArr (map node_json (gt_nodes gt))),
     (lit ''arg_nodes'', JArr (map JInt (gt_arg_nodes gt))),
     (lit ''heads'', JArr (map entry_json (gt_heads gt))),
     (lit ''attrs'', attrs_json gt),
     (lit ''node_row_ptr'', JArr (map JInt (gt_node_row_ptr gt)))]"

definition graph_ok :: "graph_text \<Rightarrow> bool" where
  "graph_ok gt \<longleftrightarrow> list_all node_ok (gt_nodes gt) \<and> length (gt_nodes gt) < 2 ^ 22
     \<and> (\<forall>i \<in> set (gt_arg_nodes gt). i < 2 ^ 31) \<and> length (gt_arg_nodes gt) < 2 ^ 26
     \<and> list_all entry_ok (gt_heads gt) \<and> length (gt_heads gt) < 2 ^ 26
     \<and> (\<forall>d \<in> set (gt_dltype gt). str_ok d 10) \<and> length (gt_dltype gt) < 2 ^ 26
     \<and> (\<forall>i \<in> set (gt_storage_id gt). i < 2 ^ 31) \<and> length (gt_storage_id gt) < 2 ^ 26
     \<and> (\<forall>d \<in> set (gt_shape gt). shape_ok d) \<and> length (gt_shape gt) < 2 ^ 24 \<and> gt_shape gt \<noteq> []
     \<and> (\<forall>i \<in> set (gt_node_row_ptr gt). i < 2 ^ 31) \<and> length (gt_node_row_ptr gt) < 2 ^ 26"

text \<open>What the executor holds after reading the graph.\<close>

definition attrs_shown :: "graph_text \<Rightarrow> graph_attr \<Rightarrow> bool" where
  "attrs_shown gt a \<longleftrightarrow> ga_dltype a = map Some (gt_dltype gt) \<and> ga_dltype_count a = length (gt_dltype gt)
     \<and> ga_storage_id a = map Some (gt_storage_id gt)
     \<and> ga_shape a = map (\<lambda>d. Some (map int d)) (gt_shape gt) \<and> ga_shape_count a = length (gt_shape gt)"

definition graph_shown :: "graph_text \<Rightarrow> graph_executor \<Rightarrow> bool" where
  "graph_shown gt ex \<longleftrightarrow>
     (\<exists>xs. ge_nodes ex = map Some xs \<and> list_all2 node_shown (gt_nodes gt) xs) \<and> ge_nodes_count ex = length (gt_nodes gt)
     \<and> ge_input_nodes ex = map Some (gt_arg_nodes gt) \<and> ge_input_nodes_count ex = length (gt_arg_nodes gt)
     \<and> ge_outputs ex = map Some (gt_heads gt) \<and> ge_outputs_count ex = length (gt_heads gt)
     \<and> ge_node_row_ptr ex = map Some (gt_node_row_ptr gt) \<and> ge_node_row_ptr_count ex = length (gt_node_row_ptr gt)
     \<and> attrs_shown gt (ge_attrs ex)"

text \<open>The pages the lists take.\<close>

definition attrs_pages :: "nat \<Rightarrow> graph_text \<Rightarrow> nat" where
  "attrs_pages ps gt = list_pages ps 10 (length (gt_dltype gt)) + (list_pages ps 4 (length (gt_storage_id gt))
     + (list_pages ps 48 (length (gt_shape gt)) + pages_of ps (4 * length (gt_shape gt))))"

definition nodes_pages :: "nat \<Rightarrow> graph_text \<Rightarrow> nat" where
  "nodes_pages ps gt = list_pages ps 364 (length (gt_nodes gt))
     + sum_list (map (\<lambda>n. list_pages ps 16 (length (nt_inputs n))) (gt_nodes gt))"

definition graph_pages :: "nat \<Rightarrow> graph_text \<Rightarrow> nat" where
  "graph_pages ps gt = nodes_pages ps gt + (list_pages ps 4 (length (gt_arg_nodes gt)) + (list_pages ps 16 (length (gt_heads gt))
     + (attrs_pages ps gt + list_pages ps 4 (length (gt_node_row_ptr gt)))))"

text \<open>The keys of the printed attributes with what they do.\<close>

definition attr_steps ::
    "u8 list \<Rightarrow> nat \<Rightarrow> graph_text \<Rightarrow> (u8 list \<times> u8 list \<times> graph_attr effect \<times> nat) list" where
  "attr_steps w ps gt =
     [(lit ''dltype'', json_txt w (typed_json ''list_str'' (map JStr (gt_dltype gt))),
      \<lambda>(s, bm, bs) (s', bm', bs'). (\<exists>p. s' = s\<lparr>ga_dltype_at := p, ga_dltype := map Some (gt_dltype gt), ga_dltype_count := length (gt_dltype gt)\<rparr> \<and> bs' = bs @ [(p, 10 * length (gt_dltype gt))])
        \<and> bm' = bm OR 1, list_pages ps 10 (length (gt_dltype gt))),
     (lit ''storage_id'', json_txt w (typed_json ''list_int'' (map JInt (gt_storage_id gt))),
      \<lambda>(s, bm, bs) (s', bm', bs'). (\<exists>p. s' = s\<lparr>ga_storage_id_at := p, ga_storage_id := map Some (gt_storage_id gt)\<rparr> \<and> bs' = bs @ [(p, 4 * length (gt_storage_id gt))]) \<and> bm' = bm OR 2,
      list_pages ps 4 (length (gt_storage_id gt))),
     (lit ''shape'', json_txt w (typed_json ''list_shape'' (map (\<lambda>d. JArr (map JInt d)) (gt_shape gt))),
      \<lambda>(s, bm, bs) (s', bm', bs'). (\<exists>p q. s' = s\<lparr>ga_shape_at := p, ga_ndim_at := q, ga_shape := map (\<lambda>d. Some (map int d)) (gt_shape gt),
        ga_shape_count := length (gt_shape gt)\<rparr> \<and> bs' = bs @ [(p, 48 * length (gt_shape gt)), (q, 4 * length (gt_shape gt))]) \<and> bm' = bm OR 4,
      list_pages ps 48 (length (gt_shape gt)) + pages_of ps (4 * length (gt_shape gt)))]"

lemma takes_attrs:
  assumes gt: "graph_ok gt" and w: "white w" and ps: "ps \<le> 2 ^ 31"
  shows "takes (Load_key g) 20 T cap ps (lit ''attrs'') (json_txt w (attrs_json gt)) Q
    (\<lambda>(s, bm, bs) (s', bm', bs'). (\<exists>a. s' = s\<lparr>ge_attrs := a\<rparr> \<and> attrs_shown gt a \<and> bs' = bs @ attr_blocks a) \<and> bm' = bm OR 16) 8 (attrs_pages ps gt)"
  unfolding takes_def
proof (intro conjI allI impI)
  fix s :: graph_executor and bm k r ws c rst stk base bs m mgr
  assume "Q s" and r: "rd T cap k r (ws @ json_txt w (attrs_json gt) @ c # rst) stk" "white ws" "\<not> isdigit c"
    "length stk + 8 < cap" "hold base bs ps (attrs_pages ps gt + m) mgr"
  let ?ks = "attr_steps w ps gt"
  have ks: "list_all (\<lambda>(key, b, R, cost). takes (Attr_key g) 16 T cap ps key b (\<lambda>_. True) R 7 cost) ?ks"
    using gt takes_dltype [OF _ _ w ps] takes_storage_id [OF _ _ w ps] takes_shape [OF _ _ _ w ps] by (simp add: graph_ok_def attr_steps_def)
  have r0: "rd T cap k r (ws @ ch_lbrace # items_txt w (0 = (0 :: nat)) (map (\<lambda>(key, b, _). pair_txt w key b) ?ks)
      @ w @ ch_rbrace # c # rst) stk"
    using r(1) by (simp add: attrs_json_def attr_steps_def)
  have cap: "length stk + 1 < cap" "length stk + 1 + 7 < cap" "0 + length ?ks < 2 ^ 32"
    using r(4) by (simp_all add: attr_steps_def)
  obtain r1 where r1: "JSONReader_BeginObject r = Some r1"
    "rd T cap k r1 (items_txt w (0 = (0 :: nat)) (map (\<lambda>(key, b, _). pair_txt w key b) ?ks) @ w @ ch_rbrace # c # rst) (0 # stk)"
    using Begin_rd(2) [OF r0 r(2) cap(1) refl] by blast
  have cost: "hold base bs ps (sum_list (map (\<lambda>(_, _, _, cost). cost) ?ks) + m) mgr"
    using r(5) by (simp add: attrs_pages_def attr_steps_def)
  obtain a bm' bs' r' mgr' where l: "Attr_loop g (ge_attrs s) 0 r1 mgr = Some ((Next, 0), a, bm', r', mgr')"
    "chain (map (\<lambda>(_, _, R, _). R) ?ks) (ge_attrs s, 0, bs) (a, bm', bs')" "rd T cap k r' (c # rst) stk" "hold base bs' ps m mgr'"
    using attr_keys.keys_text [OF w cap(2) ks r1(2) cap(3) cost guarded_True, where x = "ge_attrs s" and bm = 0]
    by blast
  have "attrs_shown gt a \<and> bm' = 7 \<and> bs' = bs @ attr_blocks a"
    using l(2) by (auto simp: attrs_shown_def attr_steps_def attr_blocks_def)
  then show "\<exists>x' bm' bs' r' mgr'. Load_key g (lit ''attrs'') s bm r mgr = Some ((Next, 0), x', bm', r', mgr')
      \<and> (case (s, bm, bs) of (s, bm, bs) \<Rightarrow> \<lambda>(s', bm', bs'). (\<exists>a. s' = s\<lparr>ge_attrs := a\<rparr> \<and> attrs_shown gt a \<and> bs' = bs @ attr_blocks a) \<and> bm' = bm OR 16) (x', bm', bs')
      \<and> rd T cap k r' (c # rst) stk \<and> hold base bs' ps m mgr'"
    using l r1(1)
    by (intro exI [of _ "s\<lparr>ge_attrs := a\<rparr>"] exI [of _ "bm OR 16"] exI [of _ bs'] exI [of _ r'] exI [of _ mgr'])
      (auto simp: Load_key_def TVMGraphExecutorGraphAttr_Load_def)
qed (rule key_ok)

text \<open>The lists of the graph are filled from the place their counter shows, which is 0 at first.\<close>

lemma list_block_text:
  assumes "rd T cap k r (ws @ json_txt w (JArr js) @ rst) stk" and "white ws" "white w" and "small js"
    and "length stk + 6 < cap" and "hold base bs ps (list_pages ps e (length js) + m) mgr" and "ps \<le> 2 ^ 31"
    and "0 < e" and "e * length js < 2 ^ 31"
  obtains r2 p mgr2 where
    "list_block g e r mgr = Some (Some (length js, replicate (length js) (None :: 'a option)), Some p, r2, mgr2)"
    "rd T cap k r2 (items_txt w (0 = (0 :: nat)) (map (json_txt w) js) @ w @ ch_rbracket # rst) (0 # stk)"
    "hold base (bs @ [(p, e * length js)]) ps m mgr2"
proof -
  note cl = counted_list [OF assms, of g]
  obtain r1 mgr1 r2 p mgr2 where b: "JSONReader_BeginArray r = Some r1"
    "JSONReader_ArrayLength mgr g r1 = Some (0, Some (length js), mgr1, r2)"
    "alloc_items mgr1 e (length js) = Some (kTvmErrorNoError, p, replicate (length js) (None :: 'a option), mgr2)"
    "rd T cap k r2 (items_txt w True (map (json_txt w) js) @ w @ ch_rbracket # rst) (0 # stk)"
    "hold base (bs @ [(p, e * length js)]) ps m mgr2"
    by (rule cl)
  have "list_block g e r mgr = Some (Some (length js, replicate (length js) (None :: 'a option)), Some p, r2, mgr2)"
    using b(1-3) by (simp add: list_block_def)
  then show thesis
    using that [of p r2 mgr2] b(4,5) by simp
qed

lemma nats_text:
  assumes ids: "\<forall>i \<in> set ids. i < 2 ^ 31" "length ids < 2 ^ 26" and w: "white ws" "white w" and ps: "ps \<le> 2 ^ 31"
    and r: "rd T cap k r (ws @ json_txt w (JArr (map JInt ids)) @ rst) stk" and cap: "length stk + 8 < cap"
    and h: "hold base bs ps (list_pages ps 4 (length ids) + m) mgr"
  obtains r2 p mgr2 r3 where
    "list_block g 4 r mgr = Some (Some (length ids, replicate (length ids) (None :: nat option)), Some p, r2, mgr2)"
    "fill_items (length ids) JSONReader_ReadUnsignedInteger 0 (replicate (length ids) None) r2 = Some (Next, length ids, map Some ids, r3)"
    "rd T cap k r3 rst stk" "hold base (bs @ [(p, 4 * length ids)]) ps m mgr2"
proof -
  have pre: "small (map JInt ids)" "length stk + 6 < cap" "hold base bs ps (list_pages ps 4 (length (map JInt ids)) + m) mgr"
    "0 < (4 :: nat)" "4 * length (map JInt ids) < 2 ^ 31"
    and all: "list_all2 (\<lambda>b x. reads T cap JSONReader_ReadUnsignedInteger b x 1) (map (json_txt w) (map JInt ids)) ids"
    and c: "length stk + 1 + 1 < cap" "0 + length (map (json_txt w) (map JInt ids)) < 2 ^ 32"
    using cap h ids reads_nat by (auto simp: small_def list_all2_conv_all_nth)
  obtain r2 p mgr2 where b: "list_block g 4 r mgr = Some (Some (length ids, replicate (length ids) (None :: nat option)), Some p, r2, mgr2)"
    "rd T cap k r2 (items_txt w (0 = (0 :: nat)) (map (json_txt w) (map JInt ids)) @ w @ ch_rbracket # rst) (0 # stk)"
    "hold base (bs @ [(p, 4 * length ids)]) ps m mgr2"
    by (rule list_block_text [OF r w pre(1-3) ps pre(4,5), of g, unfolded length_map])
  from fill_items_text [OF w(2) c(1) all b(2) c(2), of "length ids" "[]"] b that show thesis
    by auto
qed

lemma takes_arg_nodes:
  assumes "\<forall>i \<in> set ids. i < 2 ^ 31" and "length ids < 2 ^ 26" and w: "white w" and ps: "ps \<le> 2 ^ 31"
  shows "takes (Load_key g) 20 T cap ps (lit ''arg_nodes'') (json_txt w (JArr (map JInt ids))) (\<lambda>s. ge_input_nodes_count s = 0)
    (\<lambda>(s, bm, bs) (s', bm', bs'). (\<exists>p. s' = s\<lparr>ge_input_nodes_at := p, ge_input_nodes := map Some ids, ge_input_nodes_count := length ids\<rparr> \<and> bs' = bs @ [(p, 4 * length ids)])
      \<and> bm' = bm OR 2) 8 (list_pages ps 4 (length ids))"
  unfolding takes_def
proof (intro conjI allI impI)
  fix s :: graph_executor and bm k r ws c rst stk base bs m mgr
  assume q: "ge_input_nodes_count s = 0" and r: "rd T cap k r (ws @ json_txt w (JArr (map JInt ids)) @ c # rst) stk" "white ws"
    "length stk + 8 < cap" "hold base bs ps (list_pages ps 4 (length ids) + m) mgr"
  obtain r2 p mgr2 r3 where b:
    "list_block g 4 r mgr = Some (Some (length ids, replicate (length ids) (None :: nat option)), Some p, r2, mgr2)"
    "fill_items (length ids) JSONReader_ReadUnsignedInteger 0 (replicate (length ids) None) r2 = Some (Next, length ids, map Some ids, r3)"
    "rd T cap k r3 (c # rst) stk" "hold base (bs @ [(p, 4 * length ids)]) ps m mgr2"
    by (rule nats_text [OF assms(1,2) r(2) w ps r(1,3,4), of g])
  let ?s = "s\<lparr>ge_input_nodes_at := p, ge_input_nodes := map Some ids, ge_input_nodes_count := length ids\<rparr>"
  have "Load_key g (lit ''arg_nodes'') s bm r mgr = Some ((Next, 0), ?s, bm OR 2, r3, mgr2)"
    using b(1,2) q by (simp add: Load_key_def Load_arg_nodes_def at_or_def)
  then show "\<exists>x' bm' bs' r' mgr'. Load_key g (lit ''arg_nodes'') s bm r mgr = Some ((Next, 0), x', bm', r', mgr')
      \<and> (case (s, bm, bs) of (s, bm, bs) \<Rightarrow> \<lambda>(s', bm', bs'). (\<exists>p. s' = s\<lparr>ge_input_nodes_at := p, ge_input_nodes := map Some ids,
          ge_input_nodes_count := length ids\<rparr> \<and> bs' = bs @ [(p, 4 * length ids)]) \<and> bm' = bm OR 2) (x', bm', bs')
      \<and> rd T cap k r' (c # rst) stk \<and> hold base bs' ps m mgr'"
    using b(3,4) by (intro exI [of _ ?s] exI [of _ "bm OR 2"] exI [of _ "bs @ [(p, 4 * length ids)]"] exI [of _ r3] exI [of _ mgr2]) auto
qed (rule key_ok)

lemma takes_node_row_ptr:
  assumes "\<forall>i \<in> set ids. i < 2 ^ 31" and "length ids < 2 ^ 26" and w: "white w" and ps: "ps \<le> 2 ^ 31"
  shows "takes (Load_key g) 20 T cap ps (lit ''node_row_ptr'') (json_txt w (JArr (map JInt ids))) (\<lambda>s. ge_node_row_ptr_count s = 0)
    (\<lambda>(s, bm, bs) (s', bm', bs'). (\<exists>p. s' = s\<lparr>ge_node_row_ptr_at := p, ge_node_row_ptr := map Some ids, ge_node_row_ptr_count := length ids\<rparr> \<and> bs' = bs @ [(p, 4 * length ids)])
      \<and> bm' = bm OR 4) 8 (list_pages ps 4 (length ids))"
  unfolding takes_def
proof (intro conjI allI impI)
  fix s :: graph_executor and bm k r ws c rst stk base bs m mgr
  assume q: "ge_node_row_ptr_count s = 0" and r: "rd T cap k r (ws @ json_txt w (JArr (map JInt ids)) @ c # rst) stk" "white ws"
    "length stk + 8 < cap" "hold base bs ps (list_pages ps 4 (length ids) + m) mgr"
  obtain r2 p mgr2 r3 where b:
    "list_block g 4 r mgr = Some (Some (length ids, replicate (length ids) (None :: nat option)), Some p, r2, mgr2)"
    "fill_items (length ids) JSONReader_ReadUnsignedInteger 0 (replicate (length ids) None) r2 = Some (Next, length ids, map Some ids, r3)"
    "rd T cap k r3 (c # rst) stk" "hold base (bs @ [(p, 4 * length ids)]) ps m mgr2"
    by (rule nats_text [OF assms(1,2) r(2) w ps r(1,3,4), of g])
  let ?s = "s\<lparr>ge_node_row_ptr_at := p, ge_node_row_ptr := map Some ids, ge_node_row_ptr_count := length ids\<rparr>"
  have "Load_key g (lit ''node_row_ptr'') s bm r mgr = Some ((Next, 0), ?s, bm OR 4, r3, mgr2)"
    using b(1,2) q by (simp add: Load_key_def Load_node_row_ptr_def at_or_def)
  then show "\<exists>x' bm' bs' r' mgr'. Load_key g (lit ''node_row_ptr'') s bm r mgr = Some ((Next, 0), x', bm', r', mgr')
      \<and> (case (s, bm, bs) of (s, bm, bs) \<Rightarrow> \<lambda>(s', bm', bs'). (\<exists>p. s' = s\<lparr>ge_node_row_ptr_at := p, ge_node_row_ptr := map Some ids,
          ge_node_row_ptr_count := length ids\<rparr> \<and> bs' = bs @ [(p, 4 * length ids)]) \<and> bm' = bm OR 4) (x', bm', bs')
      \<and> rd T cap k r' (c # rst) stk \<and> hold base bs' ps m mgr'"
    using b(3,4) by (intro exI [of _ ?s] exI [of _ "bm OR 4"] exI [of _ "bs @ [(p, 4 * length ids)]"] exI [of _ r3] exI [of _ mgr2]) auto
qed (rule key_ok)

text \<open>The lists whose items are objects or arrays.\<close>

lemma loaded_text:
  assumes all: "list_all2 (\<lambda>j x. loads T cap ps f (json_txt w j) (P x) blk 7 (cost x)) js xs" and w: "white ws" "white w"
    and r: "rd T cap k r (ws @ json_txt w (JArr js) @ rst) stk" and js: "small js" and cap: "length stk + 8 < cap"
    and h: "hold base bs ps (list_pages ps e (length js) + (sum_list (map cost xs) + m)) mgr" and ps: "ps \<le> 2 ^ 31"
    and e: "0 < e" "e * length js < 2 ^ 31"
  obtains r2 p mgr2 ys r3 mgr3 where
    "list_block g e r mgr = Some (Some (length js, replicate (length js) (None :: 'a option)), Some p, r2, mgr2)"
    "load_items (length js) f 0 (replicate (length js) None) r2 mgr2 = Some ((Next, 0), length js, map Some ys, r3, mgr3)"
    "list_all2 P xs ys" "rd T cap k r3 rst stk" "hold base (bs @ (p, e * length js) # concat (map blk ys)) ps m mgr3"
proof -
  have c: "length stk + 6 < cap" "length stk + 1 + 7 < cap" "0 + length (map (json_txt w) js) < 2 ^ 32"
    using cap js by (simp_all add: small_def)
  obtain r2 p mgr2 where b: "list_block g e r mgr = Some (Some (length js, replicate (length js) (None :: 'a option)), Some p, r2, mgr2)"
    "rd T cap k r2 (items_txt w (0 = (0 :: nat)) (map (json_txt w) js) @ w @ ch_rbracket # rst) (0 # stk)"
    "hold base (bs @ [(p, e * length js)]) ps (sum_list (map cost xs) + m) mgr2"
    by (rule list_block_text [OF r w js c(1) h ps e, of g])
  have all': "list_all2 (\<lambda>b x. loads T cap ps f b (P x) blk 7 (cost x)) (map (json_txt w) js) xs"
    using all by (simp add: list_all2_map1)
  from load_items_text [OF w(2) c(2) all' b(2) c(3) _ b(3), of "length js" "[]"] obtain r3 ys mgr3 where l:
    "load_items (length js) f 0 (replicate (length js) None) r2 mgr2 = Some ((Next, 0), length js, map Some ys, r3, mgr3)"
    "list_all2 P xs ys" "rd T cap k r3 rst stk" "hold base ((bs @ [(p, e * length js)]) @ concat (map blk ys)) ps m mgr3"
    by auto
  show thesis
    using that [OF b(1) l(1-3)] l(4) by simp
qed

lemma loads_mono: "loads T cap ps f b P blk d cost \<Longrightarrow> d \<le> d' \<Longrightarrow> loads T cap ps f b P blk d' cost"
  unfolding loads_def by (meson add_le_mono1 le_less_trans nat_add_left_cancel_le)

lemma param_depth: "depth_of (param_json p) = 1"
  by (simp add: param_json_def param_pairs_def)

lemma entry_depth: "depth_of (entry_json e) = 1"
  by (simp add: entry_json_def)

lemma small_nodes: "list_all node_ok ns \<Longrightarrow> length ns < 2 ^ 22 \<Longrightarrow> small (map node_json ns)"
proof -
  assume a: "list_all node_ok ns" "length ns < 2 ^ 22"
  have "json_plain (node_json n) \<and> json_short (node_json n) \<and> depth_of (node_json n) \<le> 4" if "node_ok n" for n
  proof -
    have keys: "plain (lit ''op'')" "plain (lit ''name'')" "plain (lit ''attrs'')" "plain (lit ''inputs'')"
      "plain (lit ''num_outputs'')" "plain (lit ''num_inputs'')" "plain (lit ''flatten_data'')" "plain (lit ''func_name'')"
      by (simp_all add: plain_def lit_def)
    have digits: "plain (dec k)" if "k < 2 ^ 32" for k
      using str_ok_dec [OF that] by (simp add: str_ok_def)
    have es: "json_plain (JArr (map entry_json (nt_inputs n)))" "json_short (JArr (map entry_json (nt_inputs n)))"
      using that by (auto simp: node_ok_def entry_json_def)
    show ?thesis
    proof (cases "nt_param n")
      case None
      then show ?thesis
        using that es keys by (simp add: node_json_def node_ok_def str_ok_def entry_depth)
    next
      case (Some p)
      have ps: "json_plain (param_json p)" "json_short (param_json p)"
        using that Some keys digits by (simp_all add: param_json_def param_pairs_def node_ok_def param_ok_def str_ok_def)
      then show ?thesis
        using that es keys Some param_depth [of p] by (simp add: node_json_def node_ok_def str_ok_def entry_depth)
    qed
  qed
  then show ?thesis
    using a by (auto simp: small_def list_all_iff)
qed

lemma takes_nodes:
  assumes ns: "list_all node_ok (gt_nodes gt)" "length (gt_nodes gt) < 2 ^ 22" and w: "white w" and ps: "ps \<le> 2 ^ 31"
  shows "takes (Load_key g) 20 T cap ps (lit ''nodes'') (json_txt w (JArr (map node_json (gt_nodes gt)))) (\<lambda>s. ge_nodes_count s = 0)
    (\<lambda>(s, bm, bs) (s', bm', bs'). (\<exists>p xs. s' = s\<lparr>ge_nodes_at := p, ge_nodes := map Some xs, ge_nodes_count := length (gt_nodes gt)\<rparr> \<and> bs' = bs @ (p, 364 * length (gt_nodes gt)) # concat (map node_blocks xs)
       \<and> list_all2 node_shown (gt_nodes gt) xs) \<and> bm' = bm OR 1) 8 (nodes_pages ps gt)"
  unfolding takes_def
proof (intro conjI allI impI)
  fix s :: graph_executor and bm k r ws c rst stk base bs m mgr
  assume q: "ge_nodes_count s = 0" and r: "rd T cap k r (ws @ json_txt w (JArr (map node_json (gt_nodes gt))) @ c # rst) stk" "white ws"
    "length stk + 8 < cap" "hold base bs ps (nodes_pages ps gt + m) mgr"
  have all: "list_all2 (\<lambda>j x. loads T cap ps (TVMGraphExecutorNode_Load g blank_node) (json_txt w j) (node_shown x) node_blocks 7
      (list_pages ps 16 (length (nt_inputs x)))) (map node_json (gt_nodes gt)) (gt_nodes gt)"
    using ns(1) loads_node [OF _ w ps] by (auto simp: list_all2_conv_all_nth list_all_length)
  have pre: "hold base bs ps (list_pages ps 364 (length (map node_json (gt_nodes gt)))
      + (sum_list (map (\<lambda>n. list_pages ps 16 (length (nt_inputs n))) (gt_nodes gt)) + m)) mgr"
    "0 < (364 :: nat)" "364 * length (map node_json (gt_nodes gt)) < 2 ^ 31"
    using r(4) ns(2) by (simp_all add: nodes_pages_def add.assoc)
  obtain r2 p mgr2 xs r3 mgr3 where b:
    "list_block g 364 r mgr = Some (Some (length (gt_nodes gt), replicate (length (gt_nodes gt)) (None :: graph_node option)), Some p, r2, mgr2)"
    "load_items (length (gt_nodes gt)) (TVMGraphExecutorNode_Load g blank_node) 0 (replicate (length (gt_nodes gt)) None) r2 mgr2
      = Some ((Next, 0), length (gt_nodes gt), map Some xs, r3, mgr3)"
    "list_all2 node_shown (gt_nodes gt) xs" "rd T cap k r3 (c # rst) stk"
    "hold base (bs @ (p, 364 * length (gt_nodes gt)) # concat (map node_blocks xs)) ps m mgr3"
    by (rule loaded_text [OF all r(2) w r(1) small_nodes [OF ns] r(3) pre(1) ps pre(2,3), of g, unfolded length_map])
  let ?s = "s\<lparr>ge_nodes_at := p, ge_nodes := map Some xs, ge_nodes_count := length (gt_nodes gt)\<rparr>"
  have "Load_key g (lit ''nodes'') s bm r mgr = Some ((Next, 0), ?s, bm OR 1, r3, mgr3)"
    using b(1,2) q by (simp add: Load_key_def Load_nodes_def at_or_def sizeof_Node_def)
  then show "\<exists>x' bm' bs' r' mgr'. Load_key g (lit ''nodes'') s bm r mgr = Some ((Next, 0), x', bm', r', mgr')
      \<and> (case (s, bm, bs) of (s, bm, bs) \<Rightarrow> \<lambda>(s', bm', bs'). (\<exists>p xs. s' = s\<lparr>ge_nodes_at := p, ge_nodes := map Some xs,
          ge_nodes_count := length (gt_nodes gt)\<rparr> \<and> bs' = bs @ (p, 364 * length (gt_nodes gt)) # concat (map node_blocks xs) \<and> list_all2 node_shown (gt_nodes gt) xs) \<and> bm' = bm OR 1) (x', bm', bs')
      \<and> rd T cap k r' (c # rst) stk \<and> hold base bs' ps m mgr'"
    using b(3-5)
    by (intro exI [of _ ?s] exI [of _ "bm OR 1"] exI [of _ "bs @ (p, 364 * length (gt_nodes gt)) # concat (map node_blocks xs)"]
        exI [of _ r3] exI [of _ mgr3]) auto
qed (rule key_ok)

lemma takes_heads:
  assumes es: "list_all entry_ok es" "length es < 2 ^ 26" and w: "white w" and ps: "ps \<le> 2 ^ 31"
  shows "takes (Load_key g) 20 T cap ps (lit ''heads'') (json_txt w (JArr (map entry_json es))) (\<lambda>s. ge_outputs_count s = 0)
    (\<lambda>(s, bm, bs) (s', bm', bs'). (\<exists>p. s' = s\<lparr>ge_outputs_at := p, ge_outputs := map Some es, ge_outputs_count := length es\<rparr> \<and> bs' = bs @ [(p, 16 * length es)]) \<and> bm' = bm OR 8)
    8 (list_pages ps 16 (length es))"
  unfolding takes_def
proof (intro conjI allI impI)
  fix s :: graph_executor and bm k r ws c rst stk base bs m mgr
  assume q: "ge_outputs_count s = 0" and r: "rd T cap k r (ws @ json_txt w (JArr (map entry_json es)) @ c # rst) stk" "white ws"
    "length stk + 8 < cap" "hold base bs ps (list_pages ps 16 (length es) + m) mgr"
  have all: "list_all2 (\<lambda>j x. loads T cap ps Head_item (json_txt w j) (\<lambda>y. y = x) (\<lambda>_. []) 7 0) (map entry_json es) es"
    using es(1) loads_mono [OF loads_head [OF _ w], of _ 7] by (auto simp: list_all2_conv_all_nth list_all_length)
  have pre: "hold base bs ps (list_pages ps 16 (length (map entry_json es)) + (sum_list (map (\<lambda>_. 0) es) + m)) mgr"
    "0 < (16 :: nat)" "16 * length (map entry_json es) < 2 ^ 31"
    using r(4) es(2) by simp_all
  obtain r2 p mgr2 ys r3 mgr3 where b:
    "list_block g 16 r mgr = Some (Some (length es, replicate (length es) (None :: node_entry option)), Some p, r2, mgr2)"
    "load_items (length es) Head_item 0 (replicate (length es) None) r2 mgr2 = Some ((Next, 0), length es, map Some ys, r3, mgr3)"
    "list_all2 (\<lambda>x y. y = x) es ys" "rd T cap k r3 (c # rst) stk"
    "hold base (bs @ (p, 16 * length es) # concat (map (\<lambda>_ :: node_entry. []) ys)) ps m mgr3"
    by (rule loaded_text [OF all r(2) w r(1) small_entries [OF es] r(3) pre(1) ps pre(2,3), of g, unfolded length_map])
  have ys: "ys = es"
    using b(3) by (simp add: list_all2_conv_all_nth nth_equalityI)
  have item: "(\<lambda>reader mgr. do { (status, e, reader) \<leftarrow> NodeEntry_Load reader; Some (status, e, reader, mgr) }) = Head_item"
    by (simp add: fun_eq_iff Head_item_def)
  have "concat (map (\<lambda>_ :: node_entry. []) ys) = ([] :: (addr \<times> nat) list)"
    by simp
  with b(5) have b5: "hold base (bs @ [(p, 16 * length es)]) ps m mgr3"
    by (simp only:)
  let ?s = "s\<lparr>ge_outputs_at := p, ge_outputs := map Some es, ge_outputs_count := length es\<rparr>"
  have "Load_key g (lit ''heads'') s bm r mgr = Some ((Next, 0), ?s, bm OR 8, r3, mgr3)"
    using b(1,2) q ys by (simp add: Load_key_def Load_heads_def item at_or_def sizeof_NodeEntry_def)
  then show "\<exists>x' bm' bs' r' mgr'. Load_key g (lit ''heads'') s bm r mgr = Some ((Next, 0), x', bm', r', mgr')
      \<and> (case (s, bm, bs) of (s, bm, bs) \<Rightarrow> \<lambda>(s', bm', bs'). (\<exists>p. s' = s\<lparr>ge_outputs_at := p, ge_outputs := map Some es,
          ge_outputs_count := length es\<rparr> \<and> bs' = bs @ [(p, 16 * length es)]) \<and> bm' = bm OR 8) (x', bm', bs')
      \<and> rd T cap k r' (c # rst) stk \<and> hold base bs' ps m mgr'"
    using b(4) b5
    by (intro exI [of _ ?s] exI [of _ "bm OR 8"] exI [of _ "bs @ [(p, 16 * length es)]"] exI [of _ r3] exI [of _ mgr3]) auto
qed (rule key_ok)

text \<open>The keys of the printed graph with what they do, and what they ask of the executor.\<close>

definition graph_steps ::
    "u8 list \<Rightarrow> nat \<Rightarrow> graph_text \<Rightarrow> (u8 list \<times> u8 list \<times> graph_executor effect \<times> nat) list" where
  "graph_steps w ps gt =
     [(lit ''nodes'', json_txt w (JArr (map node_json (gt_nodes gt))),
       \<lambda>(s, bm, bs) (s', bm', bs'). (\<exists>p xs. s' = s\<lparr>ge_nodes_at := p, ge_nodes := map Some xs, ge_nodes_count := length (gt_nodes gt)\<rparr> \<and> bs' = bs @ (p, 364 * length (gt_nodes gt)) # concat (map node_blocks xs)
         \<and> list_all2 node_shown (gt_nodes gt) xs) \<and> bm' = bm OR 1, nodes_pages ps gt),
      (lit ''arg_nodes'', json_txt w (JArr (map JInt (gt_arg_nodes gt))),
       \<lambda>(s, bm, bs) (s', bm', bs'). (\<exists>p. s' = s\<lparr>ge_input_nodes_at := p, ge_input_nodes := map Some (gt_arg_nodes gt),
         ge_input_nodes_count := length (gt_arg_nodes gt)\<rparr> \<and> bs' = bs @ [(p, 4 * length (gt_arg_nodes gt))]) \<and> bm' = bm OR 2, list_pages ps 4 (length (gt_arg_nodes gt))),
      (lit ''heads'', json_txt w (JArr (map entry_json (gt_heads gt))),
       \<lambda>(s, bm, bs) (s', bm', bs'). (\<exists>p. s' = s\<lparr>ge_outputs_at := p, ge_outputs := map Some (gt_heads gt),
         ge_outputs_count := length (gt_heads gt)\<rparr> \<and> bs' = bs @ [(p, 16 * length (gt_heads gt))]) \<and> bm' = bm OR 8, list_pages ps 16 (length (gt_heads gt))),
      (lit ''attrs'', json_txt w (attrs_json gt),
       \<lambda>(s, bm, bs) (s', bm', bs'). (\<exists>a. s' = s\<lparr>ge_attrs := a\<rparr> \<and> attrs_shown gt a \<and> bs' = bs @ attr_blocks a) \<and> bm' = bm OR 16, attrs_pages ps gt),
      (lit ''node_row_ptr'', json_txt w (JArr (map JInt (gt_node_row_ptr gt))),
       \<lambda>(s, bm, bs) (s', bm', bs'). (\<exists>p. s' = s\<lparr>ge_node_row_ptr_at := p, ge_node_row_ptr := map Some (gt_node_row_ptr gt),
         ge_node_row_ptr_count := length (gt_node_row_ptr gt)\<rparr> \<and> bs' = bs @ [(p, 4 * length (gt_node_row_ptr gt))]) \<and> bm' = bm OR 4, list_pages ps 4 (length (gt_node_row_ptr gt)))]"

definition graph_guard :: "u8 list \<Rightarrow> graph_executor \<Rightarrow> bool" where
  "graph_guard key ex \<longleftrightarrow> (key = lit ''nodes'' \<longrightarrow> ge_nodes_count ex = 0) \<and> (key = lit ''arg_nodes'' \<longrightarrow> ge_input_nodes_count ex = 0)
     \<and> (key = lit ''heads'' \<longrightarrow> ge_outputs_count ex = 0) \<and> (key = lit ''node_row_ptr'' \<longrightarrow> ge_node_row_ptr_count ex = 0)"

lemma graph_guard_keys:
  "graph_guard (lit ''nodes'') = (\<lambda>s. ge_nodes_count s = 0)" "graph_guard (lit ''arg_nodes'') = (\<lambda>s. ge_input_nodes_count s = 0)"
  "graph_guard (lit ''heads'') = (\<lambda>s. ge_outputs_count s = 0)" "graph_guard (lit ''node_row_ptr'') = (\<lambda>s. ge_node_row_ptr_count s = 0)"
  by (simp_all add: fun_eq_iff graph_guard_def)

lemma graph_steps_take:
  assumes "graph_ok gt" and w: "white w" and ps: "ps \<le> 2 ^ 31"
  shows "list_all (\<lambda>(key, b, R, cost). takes (Load_key g) 20 T cap ps key b (graph_guard key) R 8 cost) (graph_steps w ps gt)"
  using assms(1) takes_nodes [OF _ _ w ps, of gt] takes_arg_nodes [OF _ _ w ps, of "gt_arg_nodes gt"]
    takes_heads [OF _ _ w ps, of "gt_heads gt"] takes_attrs [OF assms(1) w ps] takes_node_row_ptr [OF _ _ w ps, of "gt_node_row_ptr gt"]
  unfolding graph_steps_def by (simp add: graph_guard_keys graph_ok_def del: json_txt.simps)

text \<open>The blocks of a graph in the order they were taken, with the bytes they are for.\<close>

definition graph_blocks :: "graph_executor \<Rightarrow> (addr \<times> nat) list" where
  "graph_blocks ex = (ge_nodes_at ex, 364 * ge_nodes_count ex) # concat (map (case_option [] node_blocks) (ge_nodes ex))
     @ [(ge_input_nodes_at ex, 4 * ge_input_nodes_count ex), (ge_outputs_at ex, 16 * ge_outputs_count ex)]
     @ attr_blocks (ge_attrs ex) @ [(ge_node_row_ptr_at ex, 4 * ge_node_row_ptr_count ex)]"

text \<open>
  C7. A graph that is printed, with any white space between its tokens, and read into a cleared executor
  comes back in every list: the nodes with their inputs and parameters, the inputs, the outputs, the
  types, storage places and shapes of the entries and the row table. The reader stops behind the text
  without a complaint. Of the heap exactly one block per list of the executor is taken, each with room for
  its list; the blocks of the look-ahead are given back, and those in use before stay in use.
\<close>
theorem graph_round_trip:
  assumes gt: "graph_ok gt" and w: "white w" "white ws"
    and inv: "pm_inv mgr live" "page_size mgr \<le> 2 ^ 31" "graph_pages (page_size mgr) gt \<le> fresh_pages mgr"
    and r: "rd T cap k r (ws @ json_txt w (graph_json gt) @ c # rst) stk" "\<not> isdigit c" "length stk + 9 < cap"
  shows "\<exists>ex r' mgr' live'. TVMGraphExecutor_Load g blank_executor r mgr = Some (0, ex, r', mgr') \<and> graph_shown gt ex
    \<and> rd T cap k r' (c # rst) stk \<and> pm_inv mgr' live' \<and> handed_out live (graph_blocks ex) live'"
proof -
  let ?ps = "page_size mgr"
  let ?ks = "graph_steps w ?ps gt"
  have r0: "rd T cap k r (ws @ ch_lbrace # items_txt w (0 = (0 :: nat)) (map (\<lambda>(key, b, _). pair_txt w key b) ?ks)
      @ w @ ch_rbrace # c # rst) stk"
    using r(1) by (simp add: graph_json_def graph_steps_def)
  have cap: "length stk + 1 < cap" "length stk + 1 + 8 < cap" "0 + length ?ks < 2 ^ 32"
    using r(3) by (simp_all add: graph_steps_def)
  obtain r1 where r1: "JSONReader_BeginObject r = Some r1"
    "rd T cap k r1 (items_txt w (0 = (0 :: nat)) (map (\<lambda>(key, b, _). pair_txt w key b) ?ks) @ w @ ch_rbrace # c # rst) (0 # stk)"
    using Begin_rd(2) [OF r0 w(2) cap(1) refl] by blast
  have cost: "hold live [] ?ps (sum_list (map (\<lambda>(_, _, _, cost). cost) ?ks) + 0) mgr"
    using inv by (simp add: hold_def room_def graph_pages_def graph_steps_def)
  have guard: "guarded graph_guard ?ks (blank_executor, 0, [])"
    by (auto simp: graph_steps_def graph_guard_def blank_executor_def)
  obtain ex bm bs r' mgr' where l: "Load_loop g blank_executor 0 r1 mgr = Some ((Next, 0), ex, bm, r', mgr')"
    "chain (map (\<lambda>(_, _, R, _). R) ?ks) (blank_executor, 0, []) (ex, bm, bs)" "rd T cap k r' (c # rst) stk" "hold live bs ?ps 0 mgr'"
    using graph_keys.keys_text [OF w(1) cap(2) graph_steps_take [OF gt w(1) inv(2)] r1(2) cap(3) cost guard, of g] by blast
  have "graph_shown gt ex \<and> bm = 31 \<and> bs = graph_blocks ex"
    using l(2) by (auto simp: graph_steps_def graph_shown_def graph_blocks_def attrs_shown_def attr_blocks_def comp_def)
  moreover obtain live' where "handed_out live bs live'" "pm_inv mgr' live'"
    using l(4) by (auto simp: hold_def room_def)
  ultimately show ?thesis
    using l(1,3) r1(1)
    by (intro exI [of _ ex] exI [of _ r'] exI [of _ mgr'] exI [of _ live']) (simp add: TVMGraphExecutor_Load_def room_def)
qed

text \<open>A graph of one input and one operator, a reader at the beginning of a text, and its witness.\<close>

definition small_graph :: graph_text where
  "small_graph = \<lparr>
     gt_nodes = [\<lparr>nt_op = lit ''null'', nt_name = lit ''x'', nt_param = None, nt_inputs = []\<rparr>,
       \<lparr>nt_op = lit ''tvm_op'', nt_name = lit ''relu'',
         nt_param = Some \<lparr>op_func_name = lit ''fused_relu'', op_num_inputs = 1, op_num_outputs = 1, op_flatten_data = 0\<rparr>,
         nt_inputs = [\<lparr>ne_node_id = 0, ne_index = 0, ne_version = 0\<rparr>]\<rparr>],
     gt_arg_nodes = [0], gt_heads = [\<lparr>ne_node_id = 1, ne_index = 0, ne_version = 0\<rparr>],
     gt_dltype = [lit ''float32'', lit ''float32''], gt_storage_id = [0, 1], gt_shape = [[1, 10], [1, 10]],
     gt_node_row_ptr = [0, 1, 2]\<rparr>"

definition start_reader :: "u8 list \<Rightarrow> json_reader" where
  "start_reader T = \<lparr>istr = T, istr_at = 0, isptr = 0, line_count_r = 0, line_count_n = 0,
     scope_counter = \<lparr>seq_data = replicate 200 0, seq_allocated = 200, seq_size = 0, seq_at = 0, seq_data_at = 0\<rparr>,
     complaints = 0\<rparr>"

lemma start_rd: "rd T 200 0 (start_reader T) T []"
  by (simp add: rd_def start_reader_def seq_rep_def)

lemma small_graph_ok: "graph_ok small_graph"
  by (simp add: graph_ok_def small_graph_def node_ok_def entry_ok_def param_ok_def shape_ok_def TVM_CRT_MAX_NDIM_def)
    (simp add: str_ok_def plain_def enc_def esc_def lit_def)

lemma graph_round_trip_witness:
  "\<exists>ex r' mgr' live'. TVMGraphExecutor_Load [] blank_executor
      (start_reader ([] @ json_txt [32] (graph_json small_graph) @ 0 # [])) (fresh_heap 4096 131072 8) = Some (0, ex, r', mgr')
    \<and> graph_shown small_graph ex
    \<and> rd ([] @ json_txt [32] (graph_json small_graph) @ 0 # []) 200 0 r' (0 # []) [] \<and> pm_inv mgr' live' \<and> handed_out Map.empty (graph_blocks ex) live'"
proof (rule graph_round_trip [OF small_graph_ok _ _ _ _ _ start_rd])
  show "graph_pages (page_size (fresh_heap 4096 131072 8)) small_graph \<le> fresh_pages (fresh_heap 4096 131072 8)"
    by (simp add: graph_pages_def nodes_pages_def attrs_pages_def list_pages_def scope_pages_def pages_of_def small_graph_def
        fresh_pages_def fresh_simps sizeof_defs size_sub_def)
  show "pm_inv (fresh_heap 4096 131072 8) Map.empty"
    by (rule fresh_pm_inv) simp_all
  show "page_size (fresh_heap 4096 131072 8) \<le> 2 ^ 31"
    by (simp add: fresh_simps)
qed (simp_all add: white_def isspace_def isdigit_def)

end
