(* ===== verification/Graph_Storage.thy ===== *)
theory Graph_Storage
  imports Owned_Blocks Graph_Text
begin

text \<open>
  The storage of a graph: the plan that gives every entry a place of the pool, the blocks of the places,
  and the entries as views of them.
\<close>

section \<open>The plan\<close>

text \<open>The size of a place and the number of places, for entries given by their place and their bytes.\<close>

definition grow :: "nat \<Rightarrow> nat \<times> nat \<Rightarrow> nat \<Rightarrow> nat" where
  "grow p e m = (if fst e = p then max m (snd e) else m)"

definition place_size :: "(nat \<times> nat) list \<Rightarrow> nat \<Rightarrow> nat" where
  "place_size es p = fold (grow p) es 0"

definition place_count :: "(nat \<times> nat) list \<Rightarrow> nat" where
  "place_count es = fold (\<lambda>e c. max c (Suc (fst e))) es 0"

definition plan_entries :: "nat list \<Rightarrow> int list list \<Rightarrow> dl_data_type list \<Rightarrow> (nat \<times> nat) list" where
  "plan_entries sids shapes types = map (\<lambda>i. (sids ! i, entry_bytes (shapes ! i) (types ! i))) [0..<length shapes]"

lemma fold_grow_ge: "m \<le> fold (grow p) es m"
proof (induction es arbitrary: m)
  case (Cons e es)
  have "m \<le> grow p e m"
    by (simp add: grow_def)
  then show ?case
    using Cons.IH [of "grow p e m"] by simp
qed simp

lemma fold_grow_in: "fold (grow p) es m \<in> insert m {n. (p, n) \<in> set es}"
proof (induction es arbitrary: m)
  case (Cons e es)
  show ?case
    using Cons.IH [of "grow p e m"] by (cases e) (auto simp: grow_def max_def split: if_splits)
qed simp

lemma fold_grow_mem: "(p, n) \<in> set es \<Longrightarrow> n \<le> fold (grow p) es m"
proof (induction es arbitrary: m)
  case (Cons e es)
  show ?case
  proof (cases "e = (p, n)")
    case True
    then have "n \<le> grow p e m"
      by (simp add: grow_def)
    then show ?thesis
      using fold_grow_ge [of "grow p e m" p es] by simp
  qed (use Cons in auto)
qed simp

lemma fold_count_ge: "c \<le> fold (\<lambda>e c. max c (Suc (fst e))) es c"
proof (induction es arbitrary: c)
  case (Cons e es)
  show ?case
    using Cons.IH [of "max c (Suc (fst e))"] by simp
qed simp

lemma fold_count_mem: "(sid, n) \<in> set es \<Longrightarrow> sid < fold (\<lambda>e c. max c (Suc (fst e))) es c"
proof (induction es arbitrary: c)
  case (Cons e es)
  then show ?case
    using fold_count_ge [of "max c (Suc (fst e))" es] by auto
qed simp

lemma fold_count_le:
  "c \<le> b \<Longrightarrow> \<forall>e \<in> set es. fst e < b \<Longrightarrow> fold (\<lambda>e c. max c (Suc (fst e))) es c \<le> b"
  by (induction es arbitrary: c) auto

lemma place_size_ge: "(p, n) \<in> set es \<Longrightarrow> n \<le> place_size es p"
  by (simp add: place_size_def fold_grow_mem)

lemma place_size_in: "place_size es p = 0 \<or> (p, place_size es p) \<in> set es"
  using fold_grow_in [of p es 0] by (simp add: place_size_def)

lemma place_count_gt: "(p, n) \<in> set es \<Longrightarrow> p < place_count es"
  by (simp add: place_count_def fold_count_mem)

lemma place_count_le: "\<forall>e \<in> set es. fst e < b \<Longrightarrow> place_count es \<le> b"
  by (simp add: place_count_def fold_count_le)

lemma item_map: "i < length xs \<Longrightarrow> item (map Some xs) i = Some (xs ! i)"
  by (simp add: item_def arr_get_def)

lemma plan_loop_spec:
  assumes "ga_storage_id attrs = map Some sids" and "ga_shape attrs = map Some shapes"
    and "length sids = length shapes" and "length types = length shapes" and "\<forall>sid \<in> set sids. sid < length pool"
    and "length pool \<le> 2 ^ 31" and "idx + n \<le> length shapes"
  shows "\<exists>pool'. plan_loop attrs types dev idx n (pool, c)
        = Some (pool', fold (\<lambda>e c. max c (Suc (fst e))) (take n (drop idx (plan_entries sids shapes types))) c)
    \<and> length pool' = length pool
    \<and> (\<forall>p < length pool. pe_size (pool' ! p)
        = fold (grow p) (take n (drop idx (plan_entries sids shapes types))) (pe_size (pool ! p)))"
  using assms(5-7)
proof (induction n arbitrary: idx pool c)
  case (Suc n)
  let ?sid = "sids ! idx" and ?b = "entry_bytes (shapes ! idx) (types ! idx)"
  let ?e = "\<lparr>pe_size = max (pe_size (pool ! ?sid)) ?b, pe_device_type = dev, pe_entry_id = idx\<rparr>"
  have i: "idx < length shapes"
    using Suc.prems(3) by simp
  have sid: "?sid < length pool"
    using Suc.prems(1) i assms(3) nth_mem [of idx sids] by simp
  have c: "(if c \<le> ?sid then (?sid + 1) mod 2 ^ 32 else c) = max c (Suc ?sid)"
    using sid Suc.prems(2) by simp
  have "plan_step attrs types dev idx (pool, c) = Some (pool[?sid := ?e], max c (Suc ?sid))"
    using i sid c assms(1-4) by (simp add: plan_step_def item_map arr_get_def arr_set_def)
  moreover have es: "take (Suc n) (drop idx (plan_entries sids shapes types))
      = (?sid, ?b) # take n (drop (idx + 1) (plan_entries sids shapes types))"
    using i by (simp add: plan_entries_def Cons_nth_drop_Suc [symmetric])
  ultimately show ?case
    using Suc.IH [of "pool[?sid := ?e]" "idx + 1" "max c (Suc ?sid)"] Suc.prems sid
    by (auto simp: nth_list_update grow_def)
qed simp

lemma plan_loop_fresh:
  assumes "ga_storage_id attrs = map Some sids" and "ga_shape attrs = map Some shapes"
    and "length sids = length shapes" and "length types = length shapes" and "\<forall>sid \<in> set sids. sid < nodes" and "nodes \<le> 2 ^ 31"
  shows "\<exists>pool. plan_loop attrs types dev 0 (length shapes) (replicate nodes \<lparr>pe_size = 0, pe_device_type = 0, pe_entry_id = 0\<rparr>, 0)
        = Some (pool, place_count (plan_entries sids shapes types))
    \<and> length pool = nodes \<and> (\<forall>p < nodes. pe_size (pool ! p) = place_size (plan_entries sids shapes types) p)"
proof -
  have "take (length shapes) (drop 0 (plan_entries sids shapes types)) = plan_entries sids shapes types"
    by (simp add: plan_entries_def)
  then show ?thesis
    using plan_loop_spec [OF assms(1-4), of "replicate nodes \<lparr>pe_size = 0, pe_device_type = 0, pe_entry_id = 0\<rparr>" 0 "length shapes" dev 0]
      assms(5,6) by (auto simp: place_size_def place_count_def)
qed

text \<open>
  C21. The plan has a place for every storage id, none beyond the largest one; each entry fits in its
  place, and a place is no larger than its largest entry.
\<close>
theorem storage_plan_fits:
  assumes "ga_storage_id attrs = map Some sids" and "ga_shape attrs = map Some shapes"
    and "length sids = length shapes" and "length types = length shapes" and "\<forall>sid \<in> set sids. sid < nodes" and "nodes \<le> 2 ^ 31"
  shows "\<exists>pool count. plan_loop attrs types dev 0 (length shapes) (replicate nodes \<lparr>pe_size = 0, pe_device_type = 0, pe_entry_id = 0\<rparr>, 0)
        = Some (pool, count)
    \<and> length pool = nodes \<and> count = Max (insert 0 (Suc ` set sids))
    \<and> (\<forall>i < length shapes. entry_bytes (shapes ! i) (types ! i) \<le> pe_size (pool ! (sids ! i)))
    \<and> (\<forall>p < nodes. pe_size (pool ! p) = 0
         \<or> (\<exists>i < length shapes. sids ! i = p \<and> pe_size (pool ! p) = entry_bytes (shapes ! i) (types ! i)))"
proof -
  let ?es = "plan_entries sids shapes types"
  obtain pool where pool: "plan_loop attrs types dev 0 (length shapes) (replicate nodes \<lparr>pe_size = 0, pe_device_type = 0, pe_entry_id = 0\<rparr>, 0)
      = Some (pool, place_count ?es)" "length pool = nodes" "\<forall>p < nodes. pe_size (pool ! p) = place_size ?es p"
    using plan_loop_fresh [OF assms, of dev] by blast
  have es: "set ?es = {(sids ! i, entry_bytes (shapes ! i) (types ! i)) | i. i < length shapes}"
    by (auto simp: plan_entries_def)
  have sid: "sids ! i < nodes" if "i < length shapes" for i
    using assms(3,5) that nth_mem [of i sids] by simp
  have "place_count ?es = Max (insert 0 (Suc ` set sids))"
  proof -
    have "map fst ?es = sids"
      using assms(3) by (intro nth_equalityI) (simp_all add: plan_entries_def)
    then have "place_count ?es = fold (\<lambda>sid c. max c (Suc sid)) sids 0"
      using fold_map [of "\<lambda>sid c. max c (Suc sid)" fst ?es] by (simp add: place_count_def comp_def)
    moreover have "fold (\<lambda>sid c. max c (Suc sid)) xs c = Max (insert c (Suc ` set xs))" for xs c
    proof (induction xs arbitrary: c)
      case (Cons x xs)
      have "Max (insert (max c (Suc x)) (Suc ` set xs)) = Max (insert c (insert (Suc x) (Suc ` set xs)))"
        by (cases "xs = []") (auto simp: max.assoc Max_insert [of "insert _ _"])
      then show ?case
        using Cons.IH by simp
    qed simp
    ultimately show ?thesis
      by simp
  qed
  moreover have "entry_bytes (shapes ! i) (types ! i) \<le> pe_size (pool ! (sids ! i))" if "i < length shapes" for i
    using that es pool(3) sid place_size_ge [of "sids ! i" "entry_bytes (shapes ! i) (types ! i)" ?es] by auto
  moreover have "pe_size (pool ! p) = 0
      \<or> (\<exists>i < length shapes. sids ! i = p \<and> pe_size (pool ! p) = entry_bytes (shapes ! i) (types ! i))" if "p < nodes" for p
    using place_size_in [of ?es p] pool(3) es that by auto
  ultimately show ?thesis
    using pool(1,2) by blast
qed

lemma storage_plan_fits_witness:
  "\<exists>pool count. plan_loop (blank_attr\<lparr>ga_storage_id := map Some [1, 0, 1], ga_shape := map Some [[1, 10], [4], [2, 3]]\<rparr>)
        (replicate 3 \<lparr>code = 2, bits = 32, lanes = 1\<rparr>) 1 0 (length [[1, 10], [4], [2, 3 :: int]])
        (replicate 3 \<lparr>pe_size = 0, pe_device_type = 0, pe_entry_id = 0\<rparr>, 0) = Some (pool, count)
    \<and> pe_size (pool ! 1) = 40 \<and> pe_size (pool ! 0) = 16 \<and> count = 2"
proof -
  let ?shapes = "[[1, 10], [4], [2, 3 :: int]]" and ?sids = "[1, 0, 1 :: nat]"
    and ?types = "replicate 3 \<lparr>code = 2, bits = 32, lanes = 1\<rparr>"
  let ?attrs = "blank_attr\<lparr>ga_storage_id := map Some ?sids, ga_shape := map Some ?shapes\<rparr>"
  have 3: "(3 :: nat) = Suc (Suc (Suc 0))"
    by simp
  obtain pool count where p: "plan_loop ?attrs ?types 1 0 (length ?shapes)
      (replicate 3 \<lparr>pe_size = 0, pe_device_type = 0, pe_entry_id = 0\<rparr>, 0) = Some (pool, count)"
    "count = Max (insert 0 (Suc ` set ?sids))"
    "\<forall>i < length ?shapes. entry_bytes (?shapes ! i) (?types ! i) \<le> pe_size (pool ! (?sids ! i))"
    "\<forall>p < 3. pe_size (pool ! p) = 0 \<or> (\<exists>i < length ?shapes. ?sids ! i = p \<and> pe_size (pool ! p) = entry_bytes (?shapes ! i) (?types ! i))"
    using storage_plan_fits [of ?attrs ?sids ?shapes ?types 3 1] by auto
  have b: "entry_bytes [1, 10] \<lparr>code = 2, bits = 32, lanes = 1\<rparr> = 40" "entry_bytes [4] \<lparr>code = 2, bits = 32, lanes = 1\<rparr> = 16"
    "entry_bytes [2, 3] \<lparr>code = 2, bits = 32, lanes = 1\<rparr> = 24"
    by (simp_all add: entry_bytes_def Shape_Accumulate_def to_i64_id to_size_id Let_def)
  have "40 \<le> pe_size (pool ! 1)" "16 \<le> pe_size (pool ! 0)"
    using p(3) [rule_format, of 0] p(3) [rule_format, of 1] b by (simp_all add: 3)
  moreover have "pe_size (pool ! 1) \<le> 40" "pe_size (pool ! 0) \<le> 16"
    using p(4) [rule_format, of 1] p(4) [rule_format, of 0] b by (auto simp: 3 less_Suc_eq)
  ultimately show ?thesis
    using p(1,2) by (intro exI [of _ pool] exI [of _ count]) simp
qed

section \<open>Blocks of the executor\<close>

lemma rt_alloc_owns:
  assumes o: "owns ps (pages_of ps n + r) keep (rt_machine rt)" and n: "0 < n" "n < 2 ^ 31"
  obtains p rt' bs where "rt_alloc n rt = Some (kTvmErrorNoError, p, rt')" "owns ps r (keep(p \<mapsto> bs)) (rt_machine rt')"
    "keep p = None" "length bs = n" "rt' = rt\<lparr>rt_machine := rt_machine rt'\<rparr>"
proof -
  obtain p h where a: "PageMemoryManager_Allocate (heap (rt_machine rt)) n = Some (kTvmErrorNoError, p, h)" "keep p = None"
    "\<And>bs m'. length bs = n \<Longrightarrow> heap m' = h \<Longrightarrow> ram m' = store_bytes (ram (rt_machine rt)) p bs \<Longrightarrow> owns ps r (keep(p \<mapsto> bs)) m'"
    by (rule owns_alloc [OF o n]) (rule that, assumption+)
  let ?rt = "rt\<lparr>rt_machine := (rt_machine rt)\<lparr>heap := h\<rparr>\<rparr>" and ?bs = "load_bytes (rt_ram rt) p n"
  have "owns ps r (keep(p \<mapsto> ?bs)) (rt_machine ?rt)"
    by (rule a(3)) (simp_all add: store_load_same)
  moreover have "rt_alloc n rt = Some (kTvmErrorNoError, p, ?rt)"
    using a(1) n(2) by (simp add: rt_alloc_def)
  ultimately show thesis
    using a(2) by (intro that [of p ?rt ?bs]) simp_all
qed

lemma rt_free_owns:
  assumes o: "owns ps r keep (rt_machine rt)" and p: "keep p = Some bs"
  obtains rt' where "rt_free p rt = Some (kTvmErrorNoError, rt')" "owns ps r (keep(p := None)) (rt_machine rt')"
    "rt' = rt\<lparr>rt_machine := rt_machine rt'\<rparr>" "rt_ram rt' = rt_ram rt"
proof -
  obtain h where h: "PageMemoryManager_Free (heap (rt_machine rt)) p = Some (kTvmErrorNoError, h)"
    "\<And>m'. heap m' = h \<Longrightarrow> ram m' = rt_ram rt \<Longrightarrow> owns ps r (keep(p := None)) m'"
    by (rule owns_free [OF o p]) (rule that, assumption+)
  then show thesis
    by (intro that [of "rt\<lparr>rt_machine := (rt_machine rt)\<lparr>heap := h\<rparr>\<rparr>"]) (simp_all add: rt_free_def)
qed

lemma rt_store_owns:
  assumes "owns ps r keep (rt_machine rt)" and "keep p = Some bs" and "off + length ws \<le> length bs" and "a = p + int off"
  shows "owns ps r (keep(p \<mapsto> patch bs off ws)) (rt_machine (rt_store a ws rt))"
  by (rule owns_store [OF assms(1-3)]) (simp_all add: rt_store_def assms(4))

lemma tensor_ok_new:
  assumes "0 < sp" "sp < 2 ^ 32" "0 \<le> dp" "dp < 2 ^ 32" "i32_ok (device_type dev)" "i32_ok (device_id dev)" "length shape < 2 ^ 31"
  shows "tensor_ok (new_tensor dev shape dtype sp dp)"
  using assms by (simp add: tensor_ok_def word_addr_def i32_ok_def)

section \<open>The places\<close>

text \<open>A place is an array of floats that covers its size.\<close>

definition f32 :: dl_data_type where "f32 = \<lparr>code = of_nat kDLFloat, bits = 32, lanes = 1\<rparr>"

definition place_array :: "dl_device \<Rightarrow> nat \<Rightarrow> addr \<Rightarrow> addr \<Rightarrow> ndarray" where
  "place_array dev n sp dp = \<lparr>arr_tensor = new_tensor dev [int ((n + 3) div 4)] f32 sp dp, reference_count = 0\<rparr>"

definition place_pages :: "nat \<Rightarrow> nat \<Rightarrow> nat" where
  "place_pages ps n = pages_of ps 8 + pages_of ps (4 * ((n + 3) div 4))"

lemma entry_in_block:
  assumes "owns ps r keep m" and "keep p = Some bs" and "k * i + k \<le> length bs" and "0 < k"
  shows "(p + int (k * i)) mod 2 ^ 32 = p + int (k * i)"
proof -
  have "int (k * i + k) \<le> int (length bs)"
    using assms(3) by (rule zle_int [THEN iffD2])
  then have "p + int (k * i) < 2 ^ 32"
    using owns_range(2) [OF assms(1,2)] assms(4) by linarith
  moreover have "0 \<le> p + int (k * i)"
    using owns_range(1) [OF assms(1,2)] by simp
  ultimately show ?thesis
    by simp
qed

lemma storage_step_ok:
  assumes o: "owns ps (place_pages ps n + r) keep (rt_machine rt)"
    and pool: "keep (ge_storage_pool_at ex) = Some bs" "56 * ge_storage_pool_count ex + 56 \<le> length bs"
    and e: "idx < length pes" "pe_size (pes ! idx) = n" "0 < n" "n < 2 ^ 31 - 3"
    and dev: "i32_ok (device_type (ge_device ex))" "i32_ok (device_id (ge_device ex))"
  obtains sp dp rt' where "storage_step im pes None idx ex rt
      = Some (None, ex\<lparr>ge_storage_pool_count := ge_storage_pool_count ex + 1\<rparr>, rt')"
    "owns ps r (keep(sp \<mapsto> i64s_bytes [int ((n + 3) div 4)], dp \<mapsto> replicate (4 * ((n + 3) div 4)) 0, ge_storage_pool_at ex \<mapsto>
       patch bs (56 * ge_storage_pool_count ex + 8) (ndarray_bytes (place_array (ge_device ex) n sp dp)))) (rt_machine rt')"
    "keep sp = None" "keep dp = None" "sp \<noteq> dp" "tensor_ok (arr_tensor (place_array (ge_device ex) n sp dp))"
    "rt' = rt\<lparr>rt_machine := rt_machine rt'\<rparr>"
proof -
  let ?w = "(n + 3) div 4" and ?j = "ge_storage_pool_count ex" and ?dev = "ge_device ex"
  have w: "int ((n + 3) mod 2 ^ 32 div 4) = int ?w" "0 < ?w" "4 * ?w < 2 ^ 31"
    using e(3,4) by auto
  have bytes: "nat (array_bytes [int ?w] f32) = 4 * ?w"
  proof -
    have "(int ?w * 32 + 7) div 8 = 4 * int ?w"
      by linarith
    then show ?thesis
      by (simp add: array_bytes_def f32_def)
  qed
  have good: "good_shape [int ?w] f32"
  proof -
    have "array_bytes [int ?w] f32 < 2 ^ 31"
      using bytes w(3) by (simp add: nat_eq_iff split: if_splits)
    then show ?thesis
      using w(2) by (simp add: good_shape_def f32_def)
  qed
  have o': "owns ps (pages_of ps (8 * length [int ?w]) + (pages_of ps (nat (array_bytes [int ?w] f32)) + r)) keep (rt_machine rt)"
    using o by (simp add: place_pages_def bytes add.assoc)
  obtain sp dp m' where a: "TVMNDArray_Empty (rt_machine rt) 1 (int ?w # replicate (TVM_CRT_MAX_NDIM - 1) 0) f32 ?dev
      = Some (0, place_array ?dev n sp dp, m')"
    "owns ps r (keep(sp \<mapsto> i64s_bytes [int ?w], dp \<mapsto> replicate (4 * ?w) 0)) m'"
    "keep sp = None" "keep dp = None" "sp \<noteq> dp" "0 < sp" "sp < 2 ^ 32" "0 < dp" "dp < 2 ^ 32"
    by (rule TVMNDArray_Empty_owns [OF o' good, of "int ?w # replicate (TVM_CRT_MAX_NDIM - 1) 0" ?dev])
      (simp_all add: bytes place_array_def)
  let ?rt = "rt\<lparr>rt_machine := m'\<rparr>" and ?x = "place_array ?dev n sp dp"
  have ne: "sp \<noteq> ge_storage_pool_at ex" "dp \<noteq> ge_storage_pool_at ex"
    using a(3,4) pool(1) by auto
  have at: "storage_at ex ?j + 8 = ge_storage_pool_at ex + int (56 * ?j + 8)"
    using entry_in_block [OF o pool(1), of 56 ?j] pool(2) by (simp add: storage_at_def sizeof_StorageEntry_def)
  have k: "(keep(sp \<mapsto> i64s_bytes [int ?w], dp \<mapsto> replicate (4 * ?w) 0)) (ge_storage_pool_at ex) = Some bs"
    using ne pool(1) by simp
  have o2: "owns ps r (keep(sp \<mapsto> i64s_bytes [int ?w], dp \<mapsto> replicate (4 * ?w) 0)) (rt_machine ?rt)"
    using a(2) by simp
  have "storage_step im pes None idx ex rt = Some (None, ex\<lparr>ge_storage_pool_count := ?j + 1\<rparr>,
      rt_store (storage_at ex ?j + 8) (ndarray_bytes ?x) ?rt)"
    using e(1,2) a(1) by (simp add: storage_step_def arr_get_def w(1) [simplified] f32_def [symmetric])
  moreover have "owns ps r (keep(sp \<mapsto> i64s_bytes [int ?w], dp \<mapsto> replicate (4 * ?w) 0, ge_storage_pool_at ex \<mapsto>
       patch bs (56 * ?j + 8) (ndarray_bytes ?x))) (rt_machine (rt_store (storage_at ex ?j + 8) (ndarray_bytes ?x) ?rt))"
    by (rule rt_store_owns [OF o2 k _ at]) (use pool(2) in simp)
  moreover have "tensor_ok (arr_tensor ?x)"
    using tensor_ok_new [of sp dp ?dev "[int ?w]" f32] a(6-9) dev by (simp add: place_array_def)
  ultimately show thesis
    using a(3-5) by (intro that [of "rt_store (storage_at ex ?j + 8) (ndarray_bytes ?x) ?rt" sp dp]) (simp_all add: rt_store_def)
qed

text \<open>A place in the bytes of the pool with its block of zeros.\<close>

definition place_held :: "(addr \<rightharpoonup> u8 list) \<Rightarrow> u8 list \<Rightarrow> dl_device \<Rightarrow> nat \<Rightarrow> nat \<Rightarrow> addr \<Rightarrow> bool" where
  "place_held keep bs dev n i dp \<longleftrightarrow> keep dp = Some (replicate (4 * ((n + 3) div 4)) 0)
     \<and> (\<exists>sp. take 48 (drop (56 * i + 8) bs) = ndarray_bytes (place_array dev n sp dp)
          \<and> tensor_ok (arr_tensor (place_array dev n sp dp)))"

lemma place_held_mono:
  assumes "place_held keep bs dev n i dp" and "keep' dp = keep dp" and "take 48 (drop (56 * i + 8) bs') = take 48 (drop (56 * i + 8) bs)"
  shows "place_held keep' bs' dev n i dp"
  using assms by (simp add: place_held_def)

lemma storage_loop_ok:
  assumes "owns ps (sum_list (map (\<lambda>i. place_pages ps (pe_size (pes ! i))) [idx..<idx + n]) + r) keep (rt_machine rt)"
    and "keep (ge_storage_pool_at ex) = Some bs" and "56 * (idx + n) \<le> length bs" and "ge_storage_pool_count ex = idx"
    and "idx + n \<le> length pes" and "\<forall>i \<in> {idx..<idx + n}. 0 < pe_size (pes ! i) \<and> pe_size (pes ! i) < 2 ^ 31 - 3"
    and "i32_ok (device_type (ge_device ex))" "i32_ok (device_id (ge_device ex))"
  shows "\<exists>rt' keep' bs' dps. storage_loop im pes None idx n ex rt = Some (ex\<lparr>ge_storage_pool_count := idx + n\<rparr>, rt')
    \<and> owns ps r keep' (rt_machine rt') \<and> rt' = rt\<lparr>rt_machine := rt_machine rt'\<rparr>
    \<and> keep' (ge_storage_pool_at ex) = Some bs' \<and> length bs' = length bs
    \<and> (\<forall>q. q \<noteq> ge_storage_pool_at ex \<longrightarrow> keep q \<noteq> None \<longrightarrow> keep' q = keep q)
    \<and> (\<forall>off k. off + k \<le> 56 * idx + 8 \<longrightarrow> take k (drop off bs') = take k (drop off bs))
    \<and> length dps = n \<and> distinct dps \<and> (\<forall>i < n. keep (dps ! i) = None
         \<and> place_held keep' bs' (ge_device ex) (pe_size (pes ! (idx + i))) (idx + i) (dps ! i))"
  using assms
proof (induction n arbitrary: idx ex rt keep bs)
  case 0
  have "ex\<lparr>ge_storage_pool_count := idx\<rparr> = ex"
    using 0(4) by simp
  then show ?case
    using 0 by (intro exI [of _ rt] exI [of _ keep] exI [of _ bs] exI [of _ "[]"]) simp
next
  case (Suc n)
  let ?at = "ge_storage_pool_at ex" and ?n = "pe_size (pes ! idx)" and ?dev = "ge_device ex"
  let ?r = "sum_list (map (\<lambda>i. place_pages ps (pe_size (pes ! i))) [Suc idx..<Suc idx + n]) + r"
  have upt: "[idx..<idx + Suc n] = idx # [Suc idx..<Suc idx + n]"
    by (simp add: upt_conv_Cons)
  have o: "owns ps (place_pages ps ?n + ?r) keep (rt_machine rt)"
    using Suc.prems(1) by (simp only: upt list.map sum_list.Cons add.assoc)
  obtain sp dp rt1 where st: "storage_step im pes None idx ex rt = Some (None, ex\<lparr>ge_storage_pool_count := ge_storage_pool_count ex + 1\<rparr>, rt1)"
    "owns ps ?r (keep(sp \<mapsto> i64s_bytes [int ((?n + 3) div 4)], dp \<mapsto> replicate (4 * ((?n + 3) div 4)) 0,
       ?at \<mapsto> patch bs (56 * ge_storage_pool_count ex + 8) (ndarray_bytes (place_array ?dev ?n sp dp)))) (rt_machine rt1)"
    "keep sp = None" "keep dp = None" "sp \<noteq> dp" "tensor_ok (arr_tensor (place_array ?dev ?n sp dp))"
    "rt1 = rt\<lparr>rt_machine := rt_machine rt1\<rparr>"
    by (rule storage_step_ok [OF o Suc.prems(2), of idx pes]) (use Suc.prems(3-8) in simp_all)
  let ?bs = "patch bs (56 * idx + 8) (ndarray_bytes (place_array ?dev ?n sp dp))"
  let ?ex = "ex\<lparr>ge_storage_pool_count := idx + 1\<rparr>"
  let ?keep = "keep(sp \<mapsto> i64s_bytes [int ((?n + 3) div 4)], dp \<mapsto> replicate (4 * ((?n + 3) div 4)) 0, ?at \<mapsto> ?bs)"
  have o1: "owns ps ?r ?keep (rt_machine rt1)"
    using st(2) unfolding Suc.prems(4) .
  have len: "length ?bs = length bs"
    using Suc.prems(3) by simp
  have ne: "sp \<noteq> ?at" "dp \<noteq> ?at"
    using st(3,4) Suc.prems(2) by auto
  have "\<exists>rt' keep' bs' dps. storage_loop im pes None (Suc idx) n ?ex rt1 = Some (?ex\<lparr>ge_storage_pool_count := Suc idx + n\<rparr>, rt')
    \<and> owns ps r keep' (rt_machine rt') \<and> rt' = rt1\<lparr>rt_machine := rt_machine rt'\<rparr>
    \<and> keep' (ge_storage_pool_at ?ex) = Some bs' \<and> length bs' = length ?bs
    \<and> (\<forall>q. q \<noteq> ge_storage_pool_at ?ex \<longrightarrow> ?keep q \<noteq> None \<longrightarrow> keep' q = ?keep q)
    \<and> (\<forall>off k. off + k \<le> 56 * Suc idx + 8 \<longrightarrow> take k (drop off bs') = take k (drop off ?bs))
    \<and> length dps = n \<and> distinct dps \<and> (\<forall>i < n. ?keep (dps ! i) = None
         \<and> place_held keep' bs' (ge_device ?ex) (pe_size (pes ! (Suc idx + i))) (Suc idx + i) (dps ! i))"
    by (rule Suc.IH [OF o1]) (use Suc.prems(3-8) len in simp_all)
  moreover have ex1: "ge_storage_pool_at ?ex = ?at" "ge_device ?ex = ?dev"
    by simp_all
  ultimately obtain rt' keep' bs' dps where ih: "storage_loop im pes None (Suc idx) n ?ex rt1 = Some (?ex\<lparr>ge_storage_pool_count := Suc idx + n\<rparr>, rt')"
    "owns ps r keep' (rt_machine rt')" "rt' = rt1\<lparr>rt_machine := rt_machine rt'\<rparr>" "keep' ?at = Some bs'" "length bs' = length ?bs"
    "\<And>q. q \<noteq> ?at \<Longrightarrow> ?keep q \<noteq> None \<Longrightarrow> keep' q = ?keep q"
    "\<And>off k. off + k \<le> 56 * Suc idx + 8 \<Longrightarrow> take k (drop off bs') = take k (drop off ?bs)"
    "length dps = n" "distinct dps" "\<And>i. i < n \<Longrightarrow> ?keep (dps ! i) = None"
    "\<And>i. i < n \<Longrightarrow> place_held keep' bs' ?dev (pe_size (pes ! (Suc idx + i))) (Suc idx + i) (dps ! i)"
    unfolding ex1 by blast
  have kept: "keep' q = keep q" if "q \<noteq> ?at" "keep q \<noteq> None" for q
    using ih(6) [of q] that st(3,4) by (auto split: if_splits)
  have early: "take k (drop off bs') = take k (drop off bs)" if "off + k \<le> 56 * idx + 8" for off k
    using ih(7) [of off k] that Suc.prems(3) by (simp add: patch_apart)
  have this_place: "place_held keep' bs' ?dev ?n idx dp"
  proof -
    have "take 48 (drop (56 * idx + 8) ?bs) = ndarray_bytes (place_array ?dev ?n sp dp)"
      using patch_same [of "56 * idx + 8" "ndarray_bytes (place_array ?dev ?n sp dp)" bs] Suc.prems(3) by simp
    then show ?thesis
      using ih(6) [of dp] ih(7) [of "56 * idx + 8" 48] ne(2) st(6) by (auto simp: place_held_def)
  qed
  have "x \<noteq> dp \<and> keep x = None" if "?keep x = None" for x
    using that by (auto split: if_splits)
  then have each: "dps ! i \<noteq> dp \<and> keep (dps ! i) = None" if "i < n" for i
    using ih(10) that by blast
  then have new: "dp \<notin> set dps" "\<forall>i < n. keep (dps ! i) = None"
    using ih(8) by (auto simp: in_set_conv_nth)
  have "storage_loop im pes None idx (Suc n) ex rt = Some (ex\<lparr>ge_storage_pool_count := idx + Suc n\<rparr>, rt')"
    using st(1) ih(1) Suc.prems(4) by simp
  moreover have "\<forall>i < Suc n. keep ((dp # dps) ! i) = None
      \<and> place_held keep' bs' ?dev (pe_size (pes ! (idx + i))) (idx + i) ((dp # dps) ! i)"
    using this_place st(4) new(2) ih(11) by (auto simp: less_Suc_eq_0_disj)
  moreover have "rt' = rt\<lparr>rt_machine := rt_machine rt'\<rparr>"
    using ih(3) st(7) by (metis runtime.surjective runtime.update_convs(1))
  ultimately show ?case
    using ih(2,4,5,8,9) len kept early new(1)
    by (intro exI [of _ rt'] exI [of _ keep'] exI [of _ bs'] exI [of _ "dp # dps"]) simp
qed

section \<open>The views\<close>

definition view_array :: "ndarray \<Rightarrow> int list \<Rightarrow> dl_data_type \<Rightarrow> addr \<Rightarrow> ndarray" where
  "view_array arr shape t sp =
     \<lparr>arr_tensor = new_tensor (dt_device (arr_tensor arr)) shape t sp (dt_data (arr_tensor arr)), reference_count = 1\<rparr>"

definition view_held ::
    "(addr \<rightharpoonup> u8 list) \<Rightarrow> (addr \<rightharpoonup> u8 list) \<Rightarrow> u8 list \<Rightarrow> ndarray \<Rightarrow> int list \<Rightarrow> dl_data_type \<Rightarrow> nat \<Rightarrow> bool" where
  "view_held old keep bs arr shape t i \<longleftrightarrow> (\<exists>sp. old sp = None \<and> keep sp = Some (i64s_bytes shape)
     \<and> take 48 (drop (48 * i) bs) = ndarray_bytes (view_array arr shape t sp) \<and> tensor_ok (arr_tensor (view_array arr shape t sp)))"

text \<open>The arrays of the pool.\<close>

definition pool_holds :: "u8 list \<Rightarrow> nat \<Rightarrow> (nat \<Rightarrow> ndarray) \<Rightarrow> bool" where
  "pool_holds pb count arrs \<longleftrightarrow> 56 * count \<le> length pb
     \<and> (\<forall>p < count. take 48 (drop (56 * p + 8) pb) = ndarray_bytes (arrs p) \<and> tensor_ok (arr_tensor (arrs p)))"

lemma pool_load:
  assumes "owns ps r keep m" and "keep (ge_storage_pool_at ex) = Some pb" and "pool_holds pb count arrs" and "p < count"
  shows "load_ndarray (ram m) (storage_at ex p + 8) = arrs p"
proof -
  have len: "56 * p + 56 \<le> length pb"
    using assms(3,4) by (simp add: pool_holds_def)
  have at: "storage_at ex p + 8 = ge_storage_pool_at ex + int (56 * p + 8)"
    using entry_in_block [OF assms(1,2), of 56 p] len by (simp add: storage_at_def sizeof_StorageEntry_def)
  have img: "load_bytes (ram m) (storage_at ex p + 8) (length (ndarray_bytes (arrs p))) = ndarray_bytes (arrs p)"
    unfolding at using owns_load [OF assms(1,2), of "56 * p + 8" 48] assms(3,4) len by (simp add: pool_holds_def)
  have ok: "tensor_ok (arr_tensor (arrs p))"
    using assms(3,4) by (simp add: pool_holds_def)
  have "load_bytes (ram m) (storage_at ex p + 8) 40 = tensor_bytes (arr_tensor (arrs p))"
    "load_bytes (ram m) (storage_at ex p + 8 + 40) 4 = le_bytes 4 (unat (reference_count (arrs p)))"
    using load_bytes_part [OF img, of 0 40] load_bytes_part [OF img, of 40 4] by (simp_all add: ndarray_bytes_def)
  moreover have "le_value (le_bytes 4 (unat (reference_count (arrs p)))) = unat (reference_count (arrs p))"
    using unsigned_less [of "reference_count (arrs p)", where 'a = nat] by (simp add: le_value_le_bytes)
  ultimately show ?thesis
    using load_tensor_image [OF ok] by (simp add: load_ndarray_def)
qed

lemma view_step_ok:
  assumes o: "owns ps (pages_of ps (8 * length (shapes ! idx)) + r) keep (rt_machine rt)"
    and dat: "keep (ge_data_entry_at ex) = Some bs" "48 * idx + 48 \<le> length bs"
    and pool: "keep (ge_storage_pool_at ex) = Some pb" "pool_holds pb (ge_storage_pool_count ex) arrs"
    and at: "ga_storage_id (ge_attrs ex) = map Some sids" "ga_shape (ge_attrs ex) = map Some shapes"
    and i: "idx < length sids" "idx < length shapes" "idx < length types" "sids ! idx < ge_storage_pool_count ex"
      "shapes ! idx \<noteq> []" "length (shapes ! idx) \<le> 6"
  obtains sp rt' where "view_step types ex idx rt = Some rt'"
    "owns ps r (keep(sp \<mapsto> i64s_bytes (shapes ! idx), ge_data_entry_at ex \<mapsto>
       patch bs (48 * idx) (ndarray_bytes (view_array (arrs (sids ! idx)) (shapes ! idx) (types ! idx) sp)))) (rt_machine rt')"
    "keep sp = None" "tensor_ok (arr_tensor (view_array (arrs (sids ! idx)) (shapes ! idx) (types ! idx) sp))"
    "rt' = rt\<lparr>rt_machine := rt_machine rt'\<rparr>"
proof -
  let ?arr = "arrs (sids ! idx)" and ?shape = "shapes ! idx" and ?t = "types ! idx" and ?at = "ge_data_entry_at ex"
  obtain sp m' where a: "TVMNDArray_CreateView (rt_machine rt) ?arr ?shape (int (length ?shape)) ?t
      = Some (0, \<lparr>arr_tensor = new_tensor (dt_device (arr_tensor ?arr)) ?shape ?t sp (dt_data (arr_tensor ?arr)), reference_count = 0\<rparr>, m')"
    "owns ps r (keep(sp \<mapsto> i64s_bytes ?shape)) m'" "keep sp = None" "0 < sp" "sp < 2 ^ 32"
    by (rule TVMNDArray_CreateView_owns [OF o, of ?arr ?t]) (use i(5,6) in simp_all)
  let ?rt = "rt\<lparr>rt_machine := m'\<rparr>" and ?x = "view_array ?arr ?shape ?t sp"
  have view: "TVMNDArray_IncrementReference \<lparr>arr_tensor = new_tensor (dt_device (arr_tensor ?arr)) ?shape ?t sp (dt_data (arr_tensor ?arr)),
      reference_count = 0\<rparr> = ?x"
    by (simp add: TVMNDArray_IncrementReference_def view_array_def)
  have ne: "sp \<noteq> ?at"
    using a(3) dat(1) by auto
  have ea: "entry_at ex idx = ?at + int (48 * idx)"
    using entry_in_block [OF o dat(1), of 48 idx] dat(2) by (simp add: entry_at_def sizeof_NDArray_def)
  have o2: "owns ps r (keep(sp \<mapsto> i64s_bytes ?shape)) (rt_machine ?rt)"
    using a(2) by simp
  have k: "(keep(sp \<mapsto> i64s_bytes ?shape)) ?at = Some bs"
    using ne dat(1) by simp
  have "view_step types ex idx rt = Some (rt_store (entry_at ex idx) (ndarray_bytes ?x) ?rt)"
    using i at a(1) view pool_load [OF o pool i(4)]
    by (simp add: view_step_def item_map arr_get_def)
  moreover have "owns ps r (keep(sp \<mapsto> i64s_bytes ?shape, ?at \<mapsto> patch bs (48 * idx) (ndarray_bytes ?x)))
      (rt_machine (rt_store (entry_at ex idx) (ndarray_bytes ?x) ?rt))"
    by (rule rt_store_owns [OF o2 k _ ea]) (use dat(2) in simp)
  moreover have "tensor_ok (arr_tensor ?x)"
  proof -
    have "tensor_ok (arr_tensor ?arr)"
      using pool(2) i(4) by (simp add: pool_holds_def)
    then show ?thesis
      using a(4,5) i(6) by (simp add: tensor_ok_def view_array_def word_addr_def i32_ok_def)
  qed
  ultimately show thesis
    using a(3) by (intro that [of "rt_store (entry_at ex idx) (ndarray_bytes ?x) ?rt" sp]) (simp_all add: rt_store_def)
qed

lemma view_loop_ok:
  assumes "owns ps (sum_list (map (\<lambda>i. pages_of ps (8 * length (shapes ! i))) [idx..<idx + n]) + r) keep (rt_machine rt)"
    and "keep (ge_data_entry_at ex) = Some bs" and "48 * (idx + n) \<le> length bs"
    and "keep (ge_storage_pool_at ex) = Some pb" and "idx + n \<le> length shapes" and ne: "ge_storage_pool_at ex \<noteq> ge_data_entry_at ex"
    and pool: "pool_holds pb (ge_storage_pool_count ex) arrs"
    and at: "ga_storage_id (ge_attrs ex) = map Some sids" "ga_shape (ge_attrs ex) = map Some shapes"
    and len: "length sids = length shapes" "length types = length shapes"
    and ok: "\<forall>sid \<in> set sids. sid < ge_storage_pool_count ex" "\<forall>d \<in> set shapes. d \<noteq> [] \<and> length d \<le> 6"
  shows "\<exists>rt' keep' bs'. view_loop types ex idx n rt = Some rt' \<and> owns ps r keep' (rt_machine rt')
    \<and> rt' = rt\<lparr>rt_machine := rt_machine rt'\<rparr> \<and> keep' (ge_data_entry_at ex) = Some bs' \<and> length bs' = length bs
    \<and> (\<forall>q. q \<noteq> ge_data_entry_at ex \<longrightarrow> keep q \<noteq> None \<longrightarrow> keep' q = keep q)
    \<and> (\<forall>off k. off + k \<le> 48 * idx \<longrightarrow> take k (drop off bs') = take k (drop off bs))
    \<and> (\<forall>i < n. view_held keep keep' bs' (arrs (sids ! (idx + i))) (shapes ! (idx + i)) (types ! (idx + i)) (idx + i))"
  using assms(1-5)
proof (induction n arbitrary: idx rt keep bs)
  case 0
  then show ?case
    by (intro exI [of _ rt] exI [of _ keep] exI [of _ bs]) simp
next
  case (Suc n)
  let ?at = "ge_data_entry_at ex" and ?arr = "arrs (sids ! idx)" and ?shape = "shapes ! idx" and ?t = "types ! idx"
  let ?r = "sum_list (map (\<lambda>i. pages_of ps (8 * length (shapes ! i))) [Suc idx..<Suc idx + n]) + r"
  have upt: "[idx..<idx + Suc n] = idx # [Suc idx..<Suc idx + n]"
    by (simp add: upt_conv_Cons)
  have o: "owns ps (pages_of ps (8 * length ?shape) + ?r) keep (rt_machine rt)"
    using Suc.prems(1) by (simp only: upt list.map sum_list.Cons add.assoc)
  have i: "idx < length shapes" "idx < length sids" "idx < length types"
    using Suc.prems(5) len by simp_all
  have shape: "?shape \<noteq> []" "length ?shape \<le> 6" "sids ! idx < ge_storage_pool_count ex"
    using ok i nth_mem [OF i(1)] nth_mem [OF i(2)] by auto
  obtain sp rt1 where st: "view_step types ex idx rt = Some rt1"
    "owns ps ?r (keep(sp \<mapsto> i64s_bytes ?shape, ?at \<mapsto> patch bs (48 * idx) (ndarray_bytes (view_array ?arr ?shape ?t sp)))) (rt_machine rt1)"
    "keep sp = None" "tensor_ok (arr_tensor (view_array ?arr ?shape ?t sp))" "rt1 = rt\<lparr>rt_machine := rt_machine rt1\<rparr>"
    by (rule view_step_ok [OF o Suc.prems(2) _ Suc.prems(4) pool at i(2,1,3) shape(3,1,2)]) (use Suc.prems(3) in simp_all)
  let ?bs = "patch bs (48 * idx) (ndarray_bytes (view_array ?arr ?shape ?t sp))"
  let ?keep = "keep(sp \<mapsto> i64s_bytes ?shape, ?at \<mapsto> ?bs)"
  have lb: "length ?bs = length bs"
    using Suc.prems(3) by simp
  have sp: "sp \<noteq> ?at" "sp \<noteq> ge_storage_pool_at ex"
    using st(3) Suc.prems(2,4) by auto
  obtain rt' keep' bs' where ih: "view_loop types ex (Suc idx) n rt1 = Some rt'" "owns ps r keep' (rt_machine rt')"
    "rt' = rt1\<lparr>rt_machine := rt_machine rt'\<rparr>" "keep' ?at = Some bs'" "length bs' = length ?bs"
    "\<And>q. q \<noteq> ?at \<Longrightarrow> ?keep q \<noteq> None \<Longrightarrow> keep' q = ?keep q"
    "\<And>off k. off + k \<le> 48 * Suc idx \<Longrightarrow> take k (drop off bs') = take k (drop off ?bs)"
    "\<And>i. i < n \<Longrightarrow> view_held ?keep keep' bs' (arrs (sids ! (Suc idx + i))) (shapes ! (Suc idx + i)) (types ! (Suc idx + i)) (Suc idx + i)"
  proof -
    have "?keep ?at = Some ?bs" "48 * (Suc idx + n) \<le> length ?bs" "?keep (ge_storage_pool_at ex) = Some pb" "Suc idx + n \<le> length shapes"
      using Suc.prems(3-5) lb sp(2) ne by simp_all
    from Suc.IH [OF st(2) this] show thesis
      using that by blast
  qed
  have kept: "keep' q = keep q" if "q \<noteq> ?at" "keep q \<noteq> None" for q
    using ih(6) [of q] that st(3) by (auto split: if_splits)
  have early: "take k (drop off bs') = take k (drop off bs)" if "off + k \<le> 48 * idx" for off k
    using ih(7) [of off k] that Suc.prems(3) by (simp add: patch_apart)
  have this_view: "view_held keep keep' bs' ?arr ?shape ?t idx"
  proof -
    have "take 48 (drop (48 * idx) ?bs) = ndarray_bytes (view_array ?arr ?shape ?t sp)"
      using patch_same [of "48 * idx" "ndarray_bytes (view_array ?arr ?shape ?t sp)" bs] Suc.prems(3) by simp
    then show ?thesis
      using ih(6) [of sp] ih(7) [of "48 * idx" 48] sp(1) st(3,4) by (auto simp: view_held_def)
  qed
  have older: "view_held keep k' b a d t i" if "view_held ?keep k' b a d t i" for k' b a d t i
    using that unfolding view_held_def by (metis fun_upd_apply option.distinct(1))
  have "view_loop types ex idx (Suc n) rt = Some rt'"
    using st(1) ih(1) by simp
  moreover have "\<forall>i < Suc n. view_held keep keep' bs' (arrs (sids ! (idx + i))) (shapes ! (idx + i)) (types ! (idx + i)) (idx + i)"
    using this_view older [OF ih(8)] by (auto simp: less_Suc_eq_0_disj)
  moreover have "rt' = rt\<lparr>rt_machine := rt_machine rt'\<rparr>"
    using ih(3) st(5) by (metis runtime.surjective runtime.update_convs(1))
  ultimately show ?case
    using ih(2,4,5) lb kept early by (intro exI [of _ rt'] exI [of _ keep'] exI [of _ bs']) simp
qed

section \<open>A graph whose storage can be set up\<close>

definition entry_type :: "(nat \<Rightarrow> u8) \<Rightarrow> graph_text \<Rightarrow> nat \<Rightarrow> dl_data_type" where
  "entry_type junk gt i = String2DLDataType (junk i) (gt_dltype gt ! i)"

text \<open>The size of the data of an entry, without any wrap-around.\<close>

definition entry_size :: "(nat \<Rightarrow> u8) \<Rightarrow> graph_text \<Rightarrow> nat \<Rightarrow> nat" where
  "entry_size junk gt i =
     prod_list (gt_shape gt ! i) * ((unat (bits (entry_type junk gt i)) * unat (lanes (entry_type junk gt i)) + 7) div 8)"

text \<open>
  Every entry has a type, a place and a shape, its data is not empty and has less than \<open>2 ^ 31\<close> bytes,
  the storage ids have no gaps, and the row table ends with the number of entries in use.
\<close>

definition storable :: "(nat \<Rightarrow> u8) \<Rightarrow> graph_text \<Rightarrow> bool" where
  "storable junk gt \<longleftrightarrow> length (gt_dltype gt) = length (gt_shape gt) \<and> length (gt_storage_id gt) = length (gt_shape gt)
     \<and> (\<forall>i < length (gt_shape gt). (\<forall>d \<in> set (gt_shape gt ! i). 0 < d) \<and> 0 < entry_size junk gt i \<and> entry_size junk gt i < 2 ^ 31 - 3)
     \<and> (\<forall>sid \<in> set (gt_storage_id gt). sid < length (gt_nodes gt) \<and> (\<forall>p < sid. p \<in> set (gt_storage_id gt)))
     \<and> gt_node_row_ptr gt \<noteq> [] \<and> 0 < last (gt_node_row_ptr gt) \<and> last (gt_node_row_ptr gt) \<le> length (gt_shape gt)"

abbreviation gt_types :: "(nat \<Rightarrow> u8) \<Rightarrow> graph_text \<Rightarrow> dl_data_type list" where
  "gt_types junk gt \<equiv> map (entry_type junk gt) [0..<length (gt_shape gt)]"

abbreviation gt_dims :: "graph_text \<Rightarrow> int list list" where
  "gt_dims gt \<equiv> map (map int) (gt_shape gt)"

abbreviation gt_plan :: "(nat \<Rightarrow> u8) \<Rightarrow> graph_text \<Rightarrow> (nat \<times> nat) list" where
  "gt_plan junk gt \<equiv> plan_entries (gt_storage_id gt) (gt_dims gt) (gt_types junk gt)"

text \<open>The pages it takes.\<close>

definition storage_pages :: "nat \<Rightarrow> (nat \<Rightarrow> u8) \<Rightarrow> graph_text \<Rightarrow> nat" where
  "storage_pages ps junk gt = pages_of ps (4 * length (gt_dltype gt)) + (pages_of ps (12 * length (gt_nodes gt))
     + (pages_of ps (56 * place_count (gt_plan junk gt))
     + (sum_list (map (\<lambda>p. place_pages ps (place_size (gt_plan junk gt) p)) [0..<place_count (gt_plan junk gt)])
     + (pages_of ps (48 * last (gt_node_row_ptr gt))
     + sum_list (map (\<lambda>i. pages_of ps (8 * length (gt_dims gt ! i))) [0..<last (gt_node_row_ptr gt)])))))"

lemma Shape_Accumulate_loop_exact:
  "\<forall>d \<in> set shape. 1 \<le> d \<Longrightarrow> 1 \<le> n \<Longrightarrow> n * prod_list shape < 2 ^ 63 \<Longrightarrow> Shape_Accumulate_loop shape n = n * prod_list shape"
proof (induction shape arbitrary: n)
  case (Cons d shape)
  have nd: "1 \<le> n * d"
    using Cons.prems(1,2) mult_mono [of 1 n 1 d] by simp
  have "n * d * 1 \<le> n * d * prod_list shape"
    using nd Cons.prems(1) prod_list_pos [of shape] by (intro mult_left_mono) auto
  then have "to_i64 (n * d) = n * d"
    using nd Cons.prems(3) by (intro to_i64_id) (simp_all add: mult.assoc)
  then show ?case
    using Cons.IH [of "n * d"] Cons.prems nd by (simp add: mult.assoc)
qed simp

lemma prod_list_int: "prod_list (map int ds) = int (prod_list ds)"
  by (induction ds) simp_all

lemma entry_bytes_exact:
  assumes "\<forall>d \<in> set ds. 0 < d" and "prod_list ds * ((unat (bits t) * unat (lanes t) + 7) div 8) < 2 ^ 31"
    and "0 < prod_list ds * ((unat (bits t) * unat (lanes t) + 7) div 8)"
  shows "entry_bytes (map int ds) t = prod_list ds * ((unat (bits t) * unat (lanes t) + 7) div 8)"
proof -
  let ?k = "(unat (bits t) * unat (lanes t) + 7) div 8"
  have "prod_list ds * 1 \<le> prod_list ds * ?k"
    using assms(3) by (intro mult_le_mono2) simp
  then have p: "prod_list ds < 2 ^ 31"
    using assms(2) by linarith
  have "Shape_Accumulate_loop (map int ds) 1 = int (prod_list ds)"
    using Shape_Accumulate_loop_exact [of "map int ds" 1] assms(1) p by (fastforce simp: prod_list_int)
  then have "Shape_Accumulate (map int ds) = prod_list ds"
    using p by (simp add: Shape_Accumulate_def to_size_id)
  then show ?thesis
    using assms(2) by (simp add: entry_bytes_def Let_def mult.commute)
qed

lemma read_types_map:
  "ga_dltype attrs = map Some ds \<Longrightarrow> idx + n \<le> length ds \<Longrightarrow>
   read_types junk attrs idx n = Some (map (\<lambda>i. String2DLDataType (junk i) (ds ! i)) [idx..<idx + n])"
proof (induction n arbitrary: idx)
  case (Suc n)
  have "[idx..<idx + Suc n] = idx # [Suc idx..<Suc idx + n]"
    by (simp add: upt_conv_Cons)
  then show ?case
    using Suc.IH [of "Suc idx"] Suc.prems by (simp add: item_map del: upt_Suc)
qed simp

lemma storable_plan:
  assumes st: "storable junk gt" and shown: "attrs_shown gt attrs" and nodes: "length (gt_nodes gt) \<le> 2 ^ 31"
  obtains pool where "read_types junk attrs 0 (ga_dltype_count attrs) = Some (gt_types junk gt)"
    "plan_loop attrs (gt_types junk gt) dev 0 (ga_shape_count attrs)
       (replicate (length (gt_nodes gt)) \<lparr>pe_size = 0, pe_device_type = 0, pe_entry_id = 0\<rparr>, 0) = Some (pool, place_count (gt_plan junk gt))"
    "length pool = length (gt_nodes gt)" "place_count (gt_plan junk gt) \<le> length (gt_nodes gt)" "0 < place_count (gt_plan junk gt)"
    "\<And>p. p < place_count (gt_plan junk gt) \<Longrightarrow> pe_size (pool ! p) = place_size (gt_plan junk gt) p"
    "\<And>p. p < place_count (gt_plan junk gt) \<Longrightarrow> 0 < pe_size (pool ! p) \<and> pe_size (pool ! p) < 2 ^ 31 - 3"
    "\<And>i. i < length (gt_shape gt) \<Longrightarrow> gt_storage_id gt ! i < place_count (gt_plan junk gt)
       \<and> entry_size junk gt i \<le> place_size (gt_plan junk gt) (gt_storage_id gt ! i)"
proof -
  let ?es = "gt_plan junk gt" and ?n = "length (gt_shape gt)" and ?nodes = "length (gt_nodes gt)"
  have len: "length (gt_storage_id gt) = ?n" "length (gt_dltype gt) = ?n" "0 < ?n"
    using st by (auto simp: storable_def)
  have types: "read_types junk attrs 0 (ga_dltype_count attrs) = Some (gt_types junk gt)"
    using read_types_map [of attrs "gt_dltype gt" 0 ?n junk] shown len(2) by (simp add: attrs_shown_def entry_type_def cong: map_cong)
  have lt: "\<forall>sid \<in> set (gt_storage_id gt). sid < ?nodes"
    using st by (simp add: storable_def)
  obtain pool where pool: "plan_loop attrs (gt_types junk gt) dev 0 (length (gt_dims gt))
      (replicate ?nodes \<lparr>pe_size = 0, pe_device_type = 0, pe_entry_id = 0\<rparr>, 0) = Some (pool, place_count ?es)"
    "length pool = ?nodes" "\<forall>p < ?nodes. pe_size (pool ! p) = place_size ?es p"
    using plan_loop_fresh [of attrs "gt_storage_id gt" "gt_dims gt" "gt_types junk gt" ?nodes dev] shown len lt nodes
    by (auto simp: attrs_shown_def comp_def)
  have ent: "\<forall>d \<in> set (gt_shape gt ! i). 0 < d" "0 < entry_size junk gt i" "entry_size junk gt i < 2 ^ 31 - 3" if "i < ?n" for i
    using st that by (simp_all add: storable_def)
  have size: "entry_bytes (gt_dims gt ! i) (gt_types junk gt ! i) = entry_size junk gt i" if "i < ?n" for i
    using entry_bytes_exact [of "gt_shape gt ! i" "entry_type junk gt i", folded entry_size_def] ent [OF that] that by simp
  have es: "set ?es = {(gt_storage_id gt ! i, entry_size junk gt i) | i. i < ?n}"
    using size by (fastforce simp: plan_entries_def)
  have count: "place_count ?es \<le> ?nodes"
    using es lt len(1) by (intro place_count_le) auto
  have entry: "gt_storage_id gt ! i < place_count ?es \<and> entry_size junk gt i \<le> place_size ?es (gt_storage_id gt ! i)" if "i < ?n" for i
    using that es place_count_gt [of "gt_storage_id gt ! i" "entry_size junk gt i" ?es]
      place_size_ge [of "gt_storage_id gt ! i" "entry_size junk gt i" ?es] by auto
  have used: "\<exists>i < ?n. gt_storage_id gt ! i = p" if "p < place_count ?es" for p
  proof -
    have "p \<in> set (gt_storage_id gt)"
    proof (rule ccontr)
      assume p: "p \<notin> set (gt_storage_id gt)"
      have "fst e < p" if e: "e \<in> set ?es" for e
      proof -
        have sid: "fst e \<in> set (gt_storage_id gt)"
          using e es len(1) by auto
        then have "\<forall>q < fst e. q \<in> set (gt_storage_id gt)"
          using st by (simp add: storable_def)
        then show ?thesis
          using p sid by (cases p "fst e" rule: linorder_cases) auto
      qed
      then show False
        using place_count_le [of ?es p] that by auto
    qed
    then show ?thesis
      using len(1) by (metis in_set_conv_nth)
  qed
  have sizes: "0 < pe_size (pool ! p) \<and> pe_size (pool ! p) < 2 ^ 31 - 3" if p: "p < place_count ?es" for p
  proof -
    obtain i where i: "i < ?n" "gt_storage_id gt ! i = p"
      using used [OF p] by blast
    have pos: "0 < place_size ?es p"
      using entry [OF i(1)] i(2) ent(2) [OF i(1)] by simp
    then obtain j where "j < ?n" "place_size ?es p = entry_size junk gt j"
      using place_size_in [of ?es p] es by auto
    then show ?thesis
      using pos pool(3) p count ent(3) [of j] by simp
  qed
  show thesis
  proof (rule that [OF types _ pool(2) count])
    show "plan_loop attrs (gt_types junk gt) dev 0 (ga_shape_count attrs)
       (replicate ?nodes \<lparr>pe_size = 0, pe_device_type = 0, pe_entry_id = 0\<rparr>, 0) = Some (pool, place_count ?es)"
      using pool(1) shown by (simp add: attrs_shown_def)
    show "0 < place_count ?es"
      using entry [OF len(3)] by linarith
  qed (use pool(3) count sizes entry in auto)
qed

section \<open>Setting up the storage\<close>

text \<open>The block of the pool and the blocks of the places.\<close>

lemma places_ready:
  assumes o: "owns ps (pages_of ps (56 * count) + (sum_list (map (\<lambda>p. place_pages ps (pe_size (pool ! p))) [0..<count]) + r)) keep (rt_machine rt)"
    and count: "0 < count" "count \<le> length pool" "length pool \<le> 2 ^ 22"
    and size: "\<And>p. p < count \<Longrightarrow> 0 < pe_size (pool ! p) \<and> pe_size (pool ! p) < 2 ^ 31 - 3"
    and dev: "i32_ok (device_type (ge_device ex))" "i32_ok (device_id (ge_device ex))" and c0: "ge_storage_pool_count ex = 0"
  obtains sa rt1 rt2 keep' pb dps arrs where "rt_alloc (56 * count) rt = Some (kTvmErrorNoError, sa, rt1)"
    "storage_loop im pool None 0 count (ex\<lparr>ge_storage_pool_at := sa\<rparr>) rt1
       = Some (ex\<lparr>ge_storage_pool_at := sa, ge_storage_pool_count := count\<rparr>, rt2)"
    "owns ps r keep' (rt_machine rt2)" "rt2 = rt\<lparr>rt_machine := rt_machine rt2\<rparr>" "keep \<subseteq>\<^sub>m keep'" "keep sa = None" "keep' sa = Some pb"
    "pool_holds pb count arrs" "length dps = count" "distinct dps"
    "\<And>p. p < count \<Longrightarrow> keep (dps ! p) = None \<and> keep' (dps ! p) = Some (replicate (4 * ((pe_size (pool ! p) + 3) div 4)) 0)
       \<and> dt_data (arr_tensor (arrs p)) = dps ! p \<and> dt_device (arr_tensor (arrs p)) = ge_device ex"
proof -
  let ?r = "sum_list (map (\<lambda>p. place_pages ps (pe_size (pool ! p))) [0..<count]) + r"
  obtain sa rt1 b where a: "rt_alloc (56 * count) rt = Some (kTvmErrorNoError, sa, rt1)" "owns ps ?r (keep(sa \<mapsto> b)) (rt_machine rt1)"
    "keep sa = None" "length b = 56 * count" "rt1 = rt\<lparr>rt_machine := rt_machine rt1\<rparr>"
    by (rule rt_alloc_owns [OF o]) (use count in auto)
  let ?ex = "ex\<lparr>ge_storage_pool_at := sa\<rparr>"
  have "owns ps (sum_list (map (\<lambda>i. place_pages ps (pe_size (pool ! i))) [0..<0 + count]) + r) (keep(sa \<mapsto> b)) (rt_machine rt1)"
    using a(2) by simp
  from storage_loop_ok [OF this, of ?ex b im] obtain rt2 keep' pb dps where l:
    "storage_loop im pool None 0 count ?ex rt1 = Some (?ex\<lparr>ge_storage_pool_count := 0 + count\<rparr>, rt2)"
    "owns ps r keep' (rt_machine rt2)" "rt2 = rt1\<lparr>rt_machine := rt_machine rt2\<rparr>" "keep' sa = Some pb" "length pb = length b"
    "\<And>q. q \<noteq> sa \<Longrightarrow> (keep(sa \<mapsto> b)) q \<noteq> None \<Longrightarrow> keep' q = (keep(sa \<mapsto> b)) q" "length dps = count" "distinct dps"
    "\<And>i. i < count \<Longrightarrow> (keep(sa \<mapsto> b)) (dps ! i) = None
       \<and> place_held keep' pb (ge_device ex) (pe_size (pool ! i)) i (dps ! i)"
    using a(4) count(2) size dev c0 by auto
  have "\<forall>p. \<exists>sp. p < count \<longrightarrow> take 48 (drop (56 * p + 8) pb) = ndarray_bytes (place_array (ge_device ex) (pe_size (pool ! p)) sp (dps ! p))
      \<and> tensor_ok (arr_tensor (place_array (ge_device ex) (pe_size (pool ! p)) sp (dps ! p)))"
    using l(9) by (auto simp: place_held_def)
  then obtain sps where sps: "\<And>p. p < count \<Longrightarrow>
      take 48 (drop (56 * p + 8) pb) = ndarray_bytes (place_array (ge_device ex) (pe_size (pool ! p)) (sps p) (dps ! p))
      \<and> tensor_ok (arr_tensor (place_array (ge_device ex) (pe_size (pool ! p)) (sps p) (dps ! p)))"
    by metis
  let ?arrs = "\<lambda>p. place_array (ge_device ex) (pe_size (pool ! p)) (sps p) (dps ! p)"
  have "keep \<subseteq>\<^sub>m keep'"
    unfolding map_le_def
  proof
    fix q
    assume "q \<in> dom keep"
    then have "q \<noteq> sa" "keep q \<noteq> None"
      using a(3) by auto
    then show "keep q = keep' q"
      using l(6) [of q] by simp
  qed
  moreover have "pool_holds pb count ?arrs"
    using sps l(5) a(4) by (simp add: pool_holds_def)
  moreover have "keep (dps ! p) = None \<and> keep' (dps ! p) = Some (replicate (4 * ((pe_size (pool ! p) + 3) div 4)) 0)
       \<and> dt_data (arr_tensor (?arrs p)) = dps ! p \<and> dt_device (arr_tensor (?arrs p)) = ge_device ex" if "p < count" for p
    using l(9) [OF that] by (auto simp: place_held_def place_array_def split: if_splits)
  moreover have "rt2 = rt\<lparr>rt_machine := rt_machine rt2\<rparr>"
    using l(3) a(5) by (metis runtime.surjective runtime.update_convs(1))
  ultimately show thesis
    using that [of sa rt1 rt2 keep' pb ?arrs dps] a(1,3) l(1,2,4,7,8) by simp
qed

text \<open>The block of the entries and the blocks of their shapes.\<close>

lemma views_ready:
  assumes o: "owns ps (pages_of ps (48 * count) + (sum_list (map (\<lambda>i. pages_of ps (8 * length (shapes ! i))) [0..<count]) + r)) keep (rt_machine rt)"
    and count: "0 < count" "count \<le> length shapes" "length shapes \<le> 2 ^ 24"
    and pool: "keep (ge_storage_pool_at ex) = Some pb" "pool_holds pb (ge_storage_pool_count ex) arrs"
    and ga: "ga_storage_id (ge_attrs ex) = map Some sids" "ga_shape (ge_attrs ex) = map Some shapes"
    and len: "length sids = length shapes" "length types = length shapes"
    and ok: "\<forall>sid \<in> set sids. sid < ge_storage_pool_count ex" "\<forall>d \<in> set shapes. d \<noteq> [] \<and> length d \<le> 6"
  obtains da rt1 rt2 keep' bs where "rt_alloc (48 * count) rt = Some (kTvmErrorNoError, da, rt1)"
    "view_loop types (ex\<lparr>ge_data_entry_count := count, ge_data_entry_at := da\<rparr>) 0 count rt1 = Some rt2"
    "owns ps r keep' (rt_machine rt2)" "rt2 = rt\<lparr>rt_machine := rt_machine rt2\<rparr>" "keep \<subseteq>\<^sub>m keep'"
    "keep da = None" "keep' da = Some bs" "length bs = 48 * count"
    "\<And>i. i < count \<Longrightarrow> view_held keep keep' bs (arrs (sids ! i)) (shapes ! i) (types ! i) i"
proof -
  let ?r = "sum_list (map (\<lambda>i. pages_of ps (8 * length (shapes ! i))) [0..<count]) + r"
  obtain da rt1 b where a: "rt_alloc (48 * count) rt = Some (kTvmErrorNoError, da, rt1)" "owns ps ?r (keep(da \<mapsto> b)) (rt_machine rt1)"
    "keep da = None" "length b = 48 * count" "rt1 = rt\<lparr>rt_machine := rt_machine rt1\<rparr>"
    by (rule rt_alloc_owns [OF o]) (use count in auto)
  let ?ex = "ex\<lparr>ge_data_entry_count := count, ge_data_entry_at := da\<rparr>"
  have ne: "ge_storage_pool_at ex \<noteq> da"
    using a(3) pool(1) by auto
  have "owns ps (sum_list (map (\<lambda>i. pages_of ps (8 * length (shapes ! i))) [0..<0 + count]) + r) (keep(da \<mapsto> b)) (rt_machine rt1)"
    using a(2) by simp
  from view_loop_ok [OF this, of ?ex b pb arrs sids types] obtain rt2 keep' bs where l:
    "view_loop types ?ex 0 count rt1 = Some rt2" "owns ps r keep' (rt_machine rt2)" "rt2 = rt1\<lparr>rt_machine := rt_machine rt2\<rparr>"
    "keep' da = Some bs" "length bs = length b"
    "\<And>q. q \<noteq> da \<Longrightarrow> (keep(da \<mapsto> b)) q \<noteq> None \<Longrightarrow> keep' q = (keep(da \<mapsto> b)) q"
    "\<And>i. i < count \<Longrightarrow> view_held (keep(da \<mapsto> b)) keep' bs (arrs (sids ! i)) (shapes ! i) (types ! i) i"
    using a(4) count(2) pool ga len ok ne by auto
  have "keep \<subseteq>\<^sub>m keep'"
    unfolding map_le_def
  proof
    fix q
    assume "q \<in> dom keep"
    then have "q \<noteq> da" "keep q \<noteq> None"
      using a(3) by auto
    then show "keep q = keep' q"
      using l(6) [of q] by simp
  qed
  moreover have "view_held keep keep' bs (arrs (sids ! i)) (shapes ! i) (types ! i) i" if "i < count" for i
    using l(7) [OF that] unfolding view_held_def by (metis fun_upd_apply option.distinct(1))
  moreover have "rt2 = rt\<lparr>rt_machine := rt_machine rt2\<rparr>"
    using l(3) a(5) by (metis runtime.surjective runtime.update_convs(1))
  ultimately show thesis
    using that [of da rt1 rt2 keep' bs] a(1,3,4) l(1,2,4,5) by simp
qed

text \<open>An entry that is a view of a place, read from memory.\<close>

lemma view_loaded:
  assumes o: "owns ps r keep m" and k: "keep (ge_data_entry_at ex) = Some bs" "48 * i + 48 \<le> length bs"
    and v: "view_held old keep bs arr shape t i" and d: "\<forall>d \<in> set shape. 0 \<le> d \<and> d < 2 ^ 31"
  shows "\<exists>sp. load_tensor (ram m) (entry_at ex i) = new_tensor (dt_device (arr_tensor arr)) shape t sp (dt_data (arr_tensor arr))
    \<and> tensor_shape (ram m) (load_tensor (ram m) (entry_at ex i)) = shape"
proof -
  obtain sp where sp: "keep sp = Some (i64s_bytes shape)" "take 48 (drop (48 * i) bs) = ndarray_bytes (view_array arr shape t sp)"
    "tensor_ok (arr_tensor (view_array arr shape t sp))"
    using v by (auto simp: view_held_def)
  have ea: "entry_at ex i = ge_data_entry_at ex + int (48 * i)"
    using entry_in_block [OF o k(1), of 48 i] k(2) by (simp add: entry_at_def sizeof_NDArray_def)
  have "load_bytes (ram m) (entry_at ex i) 40 = take 40 (take 48 (drop (48 * i) bs))"
    unfolding ea using owns_load [OF o k(1), of "48 * i" 40] k(2) by simp
  then have "load_bytes (ram m) (entry_at ex i) 40 = tensor_bytes (arr_tensor (view_array arr shape t sp))"
    unfolding sp(2) by (simp add: ndarray_bytes_def)
  then have lt: "load_tensor (ram m) (entry_at ex i) = new_tensor (dt_device (arr_tensor arr)) shape t sp (dt_data (arr_tensor arr))"
    using load_tensor_image [OF sp(3)] by (simp add: view_array_def)
  have "load_bytes (ram m) sp (8 * length shape) = i64s_bytes shape"
    using owns_load_all [OF o sp(1)] by simp
  then have "load_i64s (ram m) sp (length shape) = shape"
    using d by (intro load_i64s_image) fastforce+
  then show ?thesis
    using lt by (simp add: tensor_shape_def)
qed

lemma map_le_kept: "keep \<subseteq>\<^sub>m keep' \<Longrightarrow> keep p = Some bs \<Longrightarrow> keep' p = Some bs"
  by (auto simp: map_le_def dom_def)

lemma map_le_new: "keep \<subseteq>\<^sub>m keep' \<Longrightarrow> keep p = None \<Longrightarrow> keep \<subseteq>\<^sub>m keep'(p := v)"
  by (auto simp: map_le_def dom_def)

text \<open>What an entry is after the set-up.\<close>

definition entry_ready ::
    "(nat \<Rightarrow> u8) \<Rightarrow> graph_text \<Rightarrow> graph_executor \<Rightarrow> (addr \<rightharpoonup> u8 list) \<Rightarrow> ram \<Rightarrow> addr list \<Rightarrow> nat \<Rightarrow> bool" where
  "entry_ready junk gt ex keep r dps i \<longleftrightarrow>
     (let t = load_tensor r (entry_at ex i); p = dps ! (gt_storage_id gt ! i)
      in dt_data t = p \<and> dt_device t = ge_device ex \<and> dt_dtype t = entry_type junk gt i \<and> tensor_shape r t = gt_dims gt ! i
       \<and> gt_storage_id gt ! i < length dps \<and> (\<exists>bs. keep p = Some bs \<and> entry_size junk gt i \<le> length bs))"

lemma storage_ready:
  assumes look: "find_lookup (sj_lookup junk) ex rt = Some (None, rt0)"
    and gt: "graph_ok gt" "graph_shown gt ex" "storable (sj_code junk) gt" and c0: "ge_storage_pool_count ex = 0"
    and dev: "i32_ok (device_type (ge_device ex))" "i32_ok (device_id (ge_device ex))"
    and o: "owns ps (storage_pages ps (sj_code junk) gt + r) keep (rt_machine rt0)"
  shows "\<exists>sa n da rt' keep' dps. TVMGraphExecutor_SetupStorage im junk ex rt = Some (0, ex\<lparr>ge_storage_pool_at := sa,
        ge_storage_pool_count := n, ge_data_entry_count := last (gt_node_row_ptr gt), ge_data_entry_at := da\<rparr>, rt')
    \<and> rt' = rt0\<lparr>rt_machine := rt_machine rt'\<rparr> \<and> owns ps r keep' (rt_machine rt') \<and> keep \<subseteq>\<^sub>m keep'
    \<and> distinct dps \<and> set dps \<inter> dom keep = {}
    \<and> (\<exists>bs. keep' da = Some bs \<and> length bs = 48 * last (gt_node_row_ptr gt))
    \<and> (\<forall>i < last (gt_node_row_ptr gt). entry_ready (sj_code junk) gt (ex\<lparr>ge_storage_pool_at := sa,
        ge_storage_pool_count := n, ge_data_entry_count := last (gt_node_row_ptr gt), ge_data_entry_at := da\<rparr>) keep' (rt_ram rt') dps i)"
proof -
  let ?junk = "sj_code junk" and ?attrs = "ge_attrs ex" and ?rows = "gt_node_row_ptr gt"
  let ?count = "place_count (gt_plan ?junk gt)" and ?last = "last ?rows" and ?n = "length (gt_shape gt)"
  have shown: "attrs_shown gt ?attrs" "ge_nodes_count ex = length (gt_nodes gt)" "ge_node_row_ptr ex = map Some ?rows"
    "ge_node_row_ptr_count ex = length ?rows"
    using gt(2) by (simp_all add: graph_shown_def)
  have st: "length (gt_dltype gt) = ?n" "length (gt_storage_id gt) = ?n" "?rows \<noteq> []" "0 < ?last" "?last \<le> ?n" "0 < ?n"
    using gt(3) by (auto simp: storable_def)
  have small: "length (gt_nodes gt) < 2 ^ 22" "?n < 2 ^ 24" "length ?rows < 2 ^ 26" "\<forall>d \<in> set (gt_shape gt). shape_ok d"
    using gt(1) by (simp_all add: graph_ok_def)
  obtain pool where pool: "read_types ?junk ?attrs 0 (ga_dltype_count ?attrs) = Some (gt_types ?junk gt)"
    "plan_loop ?attrs (gt_types ?junk gt) (device_type (ge_device ex)) 0 (ga_shape_count ?attrs)
       (replicate (length (gt_nodes gt)) \<lparr>pe_size = 0, pe_device_type = 0, pe_entry_id = 0\<rparr>, 0) = Some (pool, ?count)"
    "length pool = length (gt_nodes gt)" "?count \<le> length (gt_nodes gt)" "0 < ?count"
    "\<And>p. p < ?count \<Longrightarrow> pe_size (pool ! p) = place_size (gt_plan ?junk gt) p"
    "\<And>p. p < ?count \<Longrightarrow> 0 < pe_size (pool ! p) \<and> pe_size (pool ! p) < 2 ^ 31 - 3"
    "\<And>i. i < ?n \<Longrightarrow> gt_storage_id gt ! i < ?count \<and> entry_size ?junk gt i \<le> place_size (gt_plan ?junk gt) (gt_storage_id gt ! i)"
    using storable_plan [OF gt(3) shown(1), of "device_type (ge_device ex)"] small(1) by auto
  have sizes: "map (\<lambda>p. place_pages ps (pe_size (pool ! p))) [0..<?count]
      = map (\<lambda>p. place_pages ps (place_size (gt_plan ?junk gt) p)) [0..<?count]"
    using pool(6) by simp
  let ?vp = "sum_list (map (\<lambda>i. pages_of ps (8 * length (gt_dims gt ! i))) [0..<?last])"
  let ?r3 = "pages_of ps (48 * ?last) + (?vp + r)"
  let ?r2 = "pages_of ps (56 * ?count) + (sum_list (map (\<lambda>p. place_pages ps (pe_size (pool ! p))) [0..<?count]) + ?r3)"
  have o0: "owns ps (pages_of ps (4 * ?n) + (pages_of ps (12 * length (gt_nodes gt)) + ?r2)) keep (rt_machine rt0)"
    using o unfolding storage_pages_def sizes st(1) by (simp only: add.assoc)
  obtain va rt1 vb where v: "rt_alloc (4 * ?n) rt0 = Some (kTvmErrorNoError, va, rt1)"
    "owns ps (pages_of ps (12 * length (gt_nodes gt)) + ?r2) (keep(va \<mapsto> vb)) (rt_machine rt1)" "keep va = None"
    "rt1 = rt0\<lparr>rt_machine := rt_machine rt1\<rparr>"
    by (rule rt_alloc_owns [OF o0]) (use st(6) small(2) in auto)
  obtain pa rt2 pb where p: "rt_alloc (12 * length (gt_nodes gt)) rt1 = Some (kTvmErrorNoError, pa, rt2)"
    "owns ps ?r2 (keep(va \<mapsto> vb, pa \<mapsto> pb)) (rt_machine rt2)" "(keep(va \<mapsto> vb)) pa = None" "rt2 = rt1\<lparr>rt_machine := rt_machine rt2\<rparr>"
    by (rule rt_alloc_owns [OF v(2)]) (use small(1) pool(4,5) in auto)
  have small2: "?count \<le> length pool" "length pool \<le> 2 ^ 22" "?n \<le> 2 ^ 24"
    using pool(3,4) small(1,2) by simp_all
  obtain sa rt3 rt4 k4 sb dps arrs where s: "rt_alloc (56 * ?count) rt2 = Some (kTvmErrorNoError, sa, rt3)"
    "storage_loop im pool None 0 ?count (ex\<lparr>ge_storage_pool_at := sa\<rparr>) rt3
       = Some (ex\<lparr>ge_storage_pool_at := sa, ge_storage_pool_count := ?count\<rparr>, rt4)"
    "owns ps ?r3 k4 (rt_machine rt4)" "rt4 = rt2\<lparr>rt_machine := rt_machine rt4\<rparr>" "keep(va \<mapsto> vb, pa \<mapsto> pb) \<subseteq>\<^sub>m k4"
    "(keep(va \<mapsto> vb, pa \<mapsto> pb)) sa = None" "k4 sa = Some sb" "pool_holds sb ?count arrs" "length dps = ?count" "distinct dps"
    "\<And>p. p < ?count \<Longrightarrow> (keep(va \<mapsto> vb, pa \<mapsto> pb)) (dps ! p) = None
       \<and> k4 (dps ! p) = Some (replicate (4 * ((pe_size (pool ! p) + 3) div 4)) 0)
       \<and> dt_data (arr_tensor (arrs p)) = dps ! p \<and> dt_device (arr_tensor (arrs p)) = ge_device ex"
    by (rule places_ready [OF p(2) pool(5) small2(1,2) pool(7) dev c0, of im]) (assumption, rule that, assumption+)
  let ?ex4 = "ex\<lparr>ge_storage_pool_at := sa, ge_storage_pool_count := ?count\<rparr>"
  have row: "item (ge_node_row_ptr ?ex4) ((ge_node_row_ptr_count ?ex4 + 2 ^ 32 - 1) mod 2 ^ 32) = Some ?last"
  proof -
    have "(length ?rows + 2 ^ 32 - 1) mod 2 ^ 32 = length ?rows - 1"
      using st(3) small(3) by (cases ?rows) simp_all
    then show ?thesis
      using st(3) by (simp add: shown(3,4) item_map last_conv_nth)
  qed
  have dims: "\<forall>d \<in> set (gt_dims gt). d \<noteq> [] \<and> length d \<le> 6"
    using small(4) by (auto simp: shape_ok_def TVM_CRT_MAX_NDIM_def)
  have ids: "\<forall>sid \<in> set (gt_storage_id gt). sid < ?count"
    using pool(8) st(2) by (auto simp: in_set_conv_nth)
  have k4s: "k4 (ge_storage_pool_at ?ex4) = Some sb" and holds: "pool_holds sb (ge_storage_pool_count ?ex4) arrs"
    and ids': "\<forall>sid \<in> set (gt_storage_id gt). sid < ge_storage_pool_count ?ex4"
    and ga: "ga_storage_id (ge_attrs ?ex4) = map Some (gt_storage_id gt)" "ga_shape (ge_attrs ?ex4) = map Some (gt_dims gt)"
    using s(7,8) ids shown(1) by (simp_all add: attrs_shown_def comp_def)
  obtain da rt5 rt6 k6 db where d: "rt_alloc (48 * ?last) rt4 = Some (kTvmErrorNoError, da, rt5)"
    "view_loop (gt_types ?junk gt) (?ex4\<lparr>ge_data_entry_count := ?last, ge_data_entry_at := da\<rparr>) 0 ?last rt5 = Some rt6"
    "owns ps r k6 (rt_machine rt6)" "rt6 = rt4\<lparr>rt_machine := rt_machine rt6\<rparr>" "k4 \<subseteq>\<^sub>m k6" "k4 da = None" "k6 da = Some db"
    "length db = 48 * ?last"
    "\<And>i. i < ?last \<Longrightarrow> view_held k4 k6 db (arrs (gt_storage_id gt ! i)) (gt_dims gt ! i) (gt_types ?junk gt ! i) i"
    by (rule views_ready [OF s(3) st(4) _ _ k4s holds ga _ _ ids' dims, of "gt_types ?junk gt"])
      (use st(2,5) small2(3) in simp, use st(2,5) small2(3) in simp, use st(2) in simp, simp, rule that, assumption+)
  have k4v: "k4 va = Some vb" "k4 pa = Some pb" "va \<noteq> pa"
    using p(3) map_le_kept [OF s(5), of va vb] map_le_kept [OF s(5), of pa pb] by (auto split: if_splits)
  have k6v: "k6 va = Some vb" "k6 pa = Some pb"
    using map_le_kept [OF d(5)] k4v by auto
  obtain rt7 where f: "rt_free va rt6 = Some (kTvmErrorNoError, rt7)" "owns ps r (k6(va := None)) (rt_machine rt7)"
    "rt7 = rt6\<lparr>rt_machine := rt_machine rt7\<rparr>"
    using rt_free_owns [OF d(3) k6v(1)] by metis
  have "(k6(va := None)) pa = Some pb"
    using k6v(2) k4v(3) by simp
  from rt_free_owns [OF f(2) this] obtain rt8 where g: "rt_free pa rt7 = Some (kTvmErrorNoError, rt8)"
    "owns ps r (k6(va := None, pa := None)) (rt_machine rt8)" "rt8 = rt7\<lparr>rt_machine := rt_machine rt8\<rparr>"
    by metis
  let ?k8 = "k6(va := None, pa := None)" and ?ex = "?ex4\<lparr>ge_data_entry_count := ?last, ge_data_entry_at := da\<rparr>"
  have run: "TVMGraphExecutor_SetupStorage im junk ex rt = Some (0, ?ex, rt8)"
    using look v(1) pool(1,2) p(1) s(1,2) row d(1,2) f(1) g(1) shown(1,2) st(1)
    by (simp add: TVMGraphExecutor_SetupStorage_def sizeof_PoolEntry_def sizeof_StorageEntry_def sizeof_NDArray_def attrs_shown_def
        del: read_types.simps plan_loop.simps storage_loop.simps view_loop.simps)
  have other: "?k8 x = k6 x" if "k4 x = None \<or> (keep(va \<mapsto> vb, pa \<mapsto> pb)) x = None" for x
    using that k4v by (auto split: if_splits)
  have ready: "entry_ready ?junk gt ?ex ?k8 (rt_ram rt8) dps i" if i: "i < ?last" for i
  proof -
    let ?sid = "gt_storage_id gt ! i" and ?arr = "arrs (gt_storage_id gt ! i)"
    have sid: "?sid < ?count" "entry_size ?junk gt i \<le> pe_size (pool ! ?sid)"
      using pool(6,8) [of i] pool(8) [of i] i st(5) pool(6) by auto
    have held: "view_held k4 ?k8 db ?arr (gt_dims gt ! i) (gt_types ?junk gt ! i) i"
      using d(9) [OF i] other unfolding view_held_def by metis
    have kd: "?k8 (ge_data_entry_at ?ex) = Some db" "48 * i + 48 \<le> length db"
      using other [of da] d(6-8) i by simp_all
    have nn: "\<forall>x \<in> set (gt_dims gt ! i). 0 \<le> x \<and> x < 2 ^ 31"
      using small(4) nth_mem [of i "gt_shape gt"] i st(5) by (auto simp: shape_ok_def)
    obtain sp where t: "load_tensor (rt_ram rt8) (entry_at ?ex i)
        = new_tensor (dt_device (arr_tensor ?arr)) (gt_dims gt ! i) (gt_types ?junk gt ! i) sp (dt_data (arr_tensor ?arr))"
      "tensor_shape (rt_ram rt8) (load_tensor (rt_ram rt8) (entry_at ?ex i)) = gt_dims gt ! i"
      using view_loaded [OF g(2) kd held nn] by blast
    have "?k8 (dps ! ?sid) = Some (replicate (4 * ((pe_size (pool ! ?sid) + 3) div 4)) 0)"
      using other [of "dps ! ?sid"] s(11) [OF sid(1)] map_le_kept [OF d(5)] by simp
    moreover have "entry_size ?junk gt i \<le> 4 * ((pe_size (pool ! ?sid) + 3) div 4)"
      using sid(2) by linarith
    ultimately show ?thesis
      using t s(11) [OF sid(1)] sid(1) s(9) i st(5) by (simp add: entry_ready_def Let_def)
  qed
  have le: "keep \<subseteq>\<^sub>m ?k8"
  proof -
    have "keep \<subseteq>\<^sub>m k6"
      unfolding map_le_def
    proof
      fix x
      assume "x \<in> dom keep"
      then obtain b where "keep x = Some b"
        by blast
      then have b: "keep x = Some b" "x \<noteq> va" "x \<noteq> pa"
        using v(3) p(3) by (auto split: if_splits)
      then have "k4 x = Some b"
        using map_le_kept [OF s(5), of x b] by simp
      then show "keep x = k6 x"
        using map_le_kept [OF d(5), of x b] b(1) by simp
    qed
    moreover have "keep pa = None"
      using p(3) by (auto split: if_splits)
    ultimately show ?thesis
      using v(3) map_le_new by metis
  qed
  have fresh: "set dps \<inter> dom keep = {}"
    using s(9,11) by (fastforce simp: in_set_conv_nth split: if_splits)
  have rt8: "rt8 = rt0\<lparr>rt_machine := rt_machine rt8\<rparr>"
    using v(4) p(4) s(4) d(4) f(3) g(3) by (metis runtime.surjective runtime.update_convs(1))
  have block: "\<exists>bs. ?k8 da = Some bs \<and> length bs = 48 * ?last"
    using other [of da] d(6-8) by simp
  show ?thesis
    by (rule exI [of _ sa], rule exI [of _ ?count], rule exI [of _ da], rule exI [of _ rt8], rule exI [of _ ?k8], rule exI [of _ dps])
      (intro conjI allI impI run rt8 g(2) le s(10) fresh block ready)
qed

section \<open>The module of the operators\<close>

text \<open>A module with the functions \<open>fs\<close> by name.\<close>

definition module_has :: "runtime \<Rightarrow> u32 \<Rightarrow> (u8 list \<times> u32) list \<Rightarrow> mutable_func_registry \<Rightarrow> bool" where
  "module_has rt hdl fs reg \<longleftrightarrow> mr_rep reg fs \<and> length fs < 0x8000 \<and> length (registered_modules rt) = 6
     \<and> (\<exists>i < 6. hdl = EncodeModuleHandle (of_nat i) \<and> registered_modules rt ! i = Some (mr_registry reg))"

lemma find_lookup_none:
  assumes "module_has rt (ge_module_handle ex) fs reg" and "lit ''_lookup_linked_param'' \<notin> fst ` set fs"
    and "arg_values (pf_args junk) \<noteq> []" and "arg_tcodes (pf_args junk) \<noteq> []"
  shows "find_lookup junk ex rt = Some (None, rt)"
proof -
  obtain i where i: "mr_rep reg fs" "length (registered_modules rt) = 6" "i < 6" "ge_module_handle ex = EncodeModuleHandle (of_nat i)"
    "registered_modules rt ! i = Some (mr_registry reg)"
    using assms(1) by (auto simp: module_has_def)
  have "cname (lit ''_lookup_linked_param'')"
    by (simp add: cname_def lit_def)
  then have "TVMFuncRegistry_Lookup (mr_registry reg) (c_str ''_lookup_linked_param'') = Some (kTvmErrorFunctionNameNotFound, None)"
    using Lookup_ok(2) [OF i(1) _ assms(2), of "[]"] by (simp add: c_str_def lit_def)
  then have "TVMModGetFunction (ge_module_handle ex) (c_str ''_lookup_linked_param'') False rt
      = Some (tvm_crt_error_code kTvmErrorFunctionNameNotFound, None, rt)"
    using i(2,3,5) small_index(1) [OF i(3)] DecodeModuleHandle_ok [OF i(2,3,5)]
    by (simp add: TVMModGetFunction_def FindFunctionOrSetAPIError_def arr_get_def i(4))
  then show ?thesis
    using assms(3,4) by (simp add: find_lookup_def TVMPackedFunc_InitModuleFunc_def arr_set_def Let_def)
qed

text \<open>
  C10. When the heap has room, the set-up of a graph that was read and has no linked parameters succeeds.
  Every entry in use is then a tensor with the device, type and shape of the text and has a block of
  zeros that is long enough for its data; entries share a block just when they have the same storage
  id. The blocks are new, and all that other parts of the program keep in their blocks stays.
\<close>
theorem storage_set_up:
  assumes "graph_ok gt" and "graph_shown gt ex" and "storable (sj_code junk) gt" and "ge_storage_pool_count ex = 0"
    and "i32_ok (device_type (ge_device ex))" and "i32_ok (device_id (ge_device ex))"
    and "module_has rt (ge_module_handle ex) fs reg" and "lit ''_lookup_linked_param'' \<notin> fst ` set fs"
    and "arg_values (pf_args (sj_lookup junk)) \<noteq> []" and "arg_tcodes (pf_args (sj_lookup junk)) \<noteq> []"
    and "owns ps (storage_pages ps (sj_code junk) gt + r) keep (rt_machine rt)"
  shows "\<exists>ex' rt' keep' dps. TVMGraphExecutor_SetupStorage im junk ex rt = Some (0, ex', rt')
    \<and> graph_shown gt ex' \<and> ge_data_entry_count ex' = last (gt_node_row_ptr gt)
    \<and> owns ps r keep' (rt_machine rt') \<and> keep \<subseteq>\<^sub>m keep' \<and> distinct dps \<and> set dps \<inter> dom keep = {}
    \<and> (\<forall>i < last (gt_node_row_ptr gt). entry_ready (sj_code junk) gt ex' keep' (rt_ram rt') dps i)"
proof -
  let ?ex = "\<lambda>sa n da. ex\<lparr>ge_storage_pool_at := sa, ge_storage_pool_count := n, ge_data_entry_count := last (gt_node_row_ptr gt),
      ge_data_entry_at := da\<rparr>"
  obtain sa n da rt' keep' dps where r: "TVMGraphExecutor_SetupStorage im junk ex rt = Some (0, ?ex sa n da, rt')"
    "owns ps r keep' (rt_machine rt')" "keep \<subseteq>\<^sub>m keep'" "distinct dps" "set dps \<inter> dom keep = {}"
    "\<And>i. i < last (gt_node_row_ptr gt) \<Longrightarrow> entry_ready (sj_code junk) gt (?ex sa n da) keep' (rt_ram rt') dps i"
    using storage_ready [OF find_lookup_none [OF assms(7-10)] assms(1-6,11), of im] by blast
  have "graph_shown gt (?ex sa n da)" "ge_data_entry_count (?ex sa n da) = last (gt_node_row_ptr gt)"
    using assms(2) by (simp_all add: graph_shown_def)
  with r show ?thesis
    by blast
qed

text \<open>The executor of the small graph in a runtime whose first module has its operator.\<close>

definition relu_registry :: mutable_func_registry where
  "relu_registry = \<lparr>mr_buffer = [1, 0] @ lit ''fused_relu'' @ [0, 0, 9, 9, 0x34, 0x12, 0, 0, 7, 7, 7, 7], mr_funcs = 16, mr_max_functions = 2\<rparr>"

definition graph_runtime :: runtime where
  "graph_runtime = (bare_runtime [None, Some (mr_registry relu_registry), None, None, None, None] 0x8000)
     \<lparr>rt_machine := \<lparr>heap = fresh_heap 4096 131072 8, ram = (\<lambda>_. 0)\<rparr>\<rparr>"

definition small_nodes :: "graph_node list" where
  "small_nodes =
     [\<lparr>gn_op_type = lit ''null'', gn_name = lit ''x'', gn_param = None, gn_inputs = [], gn_inputs_at = 0, gn_inputs_count = 0\<rparr>,
      \<lparr>gn_op_type = lit ''tvm_op'', gn_name = lit ''relu'',
        gn_param = Some \<lparr>op_func_name = lit ''fused_relu'', op_num_inputs = 1, op_num_outputs = 1, op_flatten_data = 0\<rparr>,
        gn_inputs = [Some \<lparr>ne_node_id = 0, ne_index = 0, ne_version = 0\<rparr>], gn_inputs_at = 0, gn_inputs_count = 1\<rparr>]"

definition small_executor :: graph_executor where
  "small_executor = blank_executor\<lparr>ge_nodes := map Some small_nodes,
     ge_nodes_count := 2, ge_input_nodes := [Some 0], ge_input_nodes_count := 1, ge_node_row_ptr := map Some [0, 1, 2],
     ge_node_row_ptr_count := 3, ge_outputs := [Some \<lparr>ne_node_id = 1, ne_index = 0, ne_version = 0\<rparr>], ge_outputs_count := 1,
     ge_attrs := blank_attr\<lparr>ga_storage_id := map Some [0, 1], ga_dltype := map Some [lit ''float32'', lit ''float32''],
       ga_dltype_count := 2, ga_shape := map Some [[1, 10], [1, 10]], ga_shape_count := 2\<rparr>,
     ge_module_handle := EncodeModuleHandle 1, ge_device := \<lparr>device_type = 1, device_id = 0\<rparr>\<rparr>"

definition blank_junk :: stack_junk where
  "blank_junk = \<lparr>sj_scopes = [], sj_code = (\<lambda>_. 0), sj_lookup = null_op, sj_op = (\<lambda>_. null_op)\<rparr>"

lemma relu_registry_rep: "mr_rep relu_registry [(lit ''fused_relu'', 0x1234)]"
  by (rule mr_repI [where gap = "[9, 9]" and fs = "[0x34, 0x12, 0, 0, 7, 7, 7, 7]"])
    (simp_all add: relu_registry_def names_ok_def cname_def lit_def le_bytes_2)

lemma small_executor_shown: "graph_shown small_graph small_executor"
proof -
  have "list_all2 node_shown (gt_nodes small_graph) small_nodes"
    by (simp add: node_shown_def small_graph_def small_nodes_def)
  moreover have "length small_nodes = 2"
    by (simp add: small_nodes_def)
  ultimately show ?thesis
    by (auto simp: graph_shown_def attrs_shown_def small_executor_def small_graph_def blank_executor_def blank_attr_def)
qed

lemma graph_module: "module_has graph_runtime (ge_module_handle small_executor) [(lit ''fused_relu'', 0x1234)] relu_registry"
  by (auto simp: module_has_def relu_registry_rep graph_runtime_def small_executor_def bare_runtime_def intro!: exI [of _ "1 :: nat"])

lemma float_type: "String2DLDataType junk (lit ''float32'') = f32"
proof -
  have "lit ''float32'' = lit ''float'' @ dec 32"
    by (simp add: lit_def dec.simps)
  then show ?thesis
    using dtype_read [of "''float''" kDLFloat 32 1 junk] by (simp add: f32_def)
qed

lemma small_plan:
  "gt_types junk small_graph = [f32, f32]" "gt_plan junk small_graph = [(0, 40), (1, 40)]" "storable junk small_graph"
proof -
  have upt: "[0..<2] = [0, 1 :: nat]" "[0..<length (gt_shape small_graph)] = [0, 1]"
    by (simp_all add: small_graph_def upt_rec)
  have t: "entry_type junk small_graph 0 = f32" "entry_type junk small_graph 1 = f32" "entry_type junk small_graph (Suc 0) = f32"
    by (simp_all add: entry_type_def small_graph_def float_type)
  show types: "gt_types junk small_graph = [f32, f32]"
    using t by (simp add: upt)
  have b: "entry_bytes [1, 10] f32 = 40"
    by (simp add: entry_bytes_def Shape_Accumulate_def to_i64_id to_size_id Let_def f32_def)
  show "gt_plan junk small_graph = [(0, 40), (1, 40)]"
    unfolding types by (simp add: plan_entries_def small_graph_def upt b)
  show "storable junk small_graph"
    using t by (auto simp: storable_def entry_size_def small_graph_def less_Suc_eq f32_def)
qed

lemma small_storage: "storage_pages 256 junk small_graph = 10"
proof -
  have "place_count [(0, 40), (1, 40)] = 2" "place_size [(0, 40), (1, 40)] 0 = 40" "place_size [(0, 40), (1, 40)] 1 = 40"
    "place_size [(0, 40), (1, 40)] (Suc 0) = 40"
    by (simp_all add: place_count_def place_size_def grow_def)
  moreover have "[0..<2] = [0, 1 :: nat]"
    by (simp add: upt_rec)
  ultimately show ?thesis
    unfolding storage_pages_def small_plan(2)
    by (simp add: small_graph_def place_pages_def pages_of_def)
qed

lemma graph_runtime_owns: "owns 256 (m + 300) Map.empty (rt_machine graph_runtime)" if "m \<le> 80"
proof (rule ownsI)
  let ?h = "fresh_heap 4096 131072 8"
  have h: "heap (rt_machine graph_runtime) = ?h"
    by (simp add: graph_runtime_def)
  have "pm_inv ?h Map.empty"
    by (rule fresh_pm_inv) simp_all
  moreover have "m + 300 \<le> fresh_pages ?h"
    using that by (simp add: fresh_pages_def fresh_simps sizeof_defs size_sub_def)
  ultimately show "room Map.empty 256 (m + 300) (heap (rt_machine graph_runtime))"
    unfolding h by (simp add: room_def fresh_simps)
  show "0 < pm_low (heap (rt_machine graph_runtime))" "pm_high (heap (rt_machine graph_runtime)) \<le> 2 ^ 32"
    unfolding h by (simp_all add: pm_low_def pm_high_def fresh_simps sizeof_defs size_sub_def)
qed simp_all

lemma storage_set_up_witness:
  "\<exists>ex' rt' keep' dps. TVMGraphExecutor_SetupStorage bare_image blank_junk small_executor graph_runtime = Some (0, ex', rt')
    \<and> graph_shown small_graph ex' \<and> ge_data_entry_count ex' = 2
    \<and> owns 256 290 keep' (rt_machine rt') \<and> distinct dps
    \<and> entry_ready (\<lambda>_. 0) small_graph ex' keep' (rt_ram rt') dps 0 \<and> entry_ready (\<lambda>_. 0) small_graph ex' keep' (rt_ram rt') dps 1"
proof -
  have j: "sj_code blank_junk = (\<lambda>_. 0)" "last (gt_node_row_ptr small_graph) = 2"
    by (simp_all add: blank_junk_def small_graph_def)
  have o: "owns 256 (storage_pages 256 (sj_code blank_junk) small_graph + 290) Map.empty (rt_machine graph_runtime)"
    using graph_runtime_owns [of 0] by (simp add: small_storage)
  obtain ex' rt' keep' dps where "TVMGraphExecutor_SetupStorage bare_image blank_junk small_executor graph_runtime = Some (0, ex', rt')"
    "graph_shown small_graph ex'" "ge_data_entry_count ex' = last (gt_node_row_ptr small_graph)" "owns 256 290 keep' (rt_machine rt')"
    "distinct dps" "\<forall>i < last (gt_node_row_ptr small_graph). entry_ready (sj_code blank_junk) small_graph ex' keep' (rt_ram rt') dps i"
    using storage_set_up [OF small_graph_ok small_executor_shown small_plan(3) _ _ _ graph_module _ _ _ o, of bare_image]
    by (auto simp: small_executor_def blank_executor_def i32_ok_def lit_def blank_junk_def null_op_def zero_args_def TVM_CRT_MAX_ARGS_def)
  then show ?thesis
    unfolding j by (intro exI [of _ ex'] exI [of _ rt'] exI [of _ keep'] exI [of _ dps]) simp
qed

end
