(* ===== verification/Graph_Run.thy ===== *)
theory Graph_Run
  imports Graph_Storage
begin

text \<open>
  Running a graph: the operators that are made from the nodes, and what a run does with them.
\<close>

section \<open>Argument lists\<close>

lemma TVMArgs_fill_exact:
  "length pre + length vs \<le> length (arg_values args) \<Longrightarrow> length pre + length vs \<le> length (arg_tcodes args) \<Longrightarrow>
   length ts = length vs \<Longrightarrow> length pret = length pre \<Longrightarrow>
   TVMArgs_fill args (pre @ vs) (pret @ ts) (length pre) (length vs) = Some (args
     \<lparr>arg_values := take (length pre) (arg_values args) @ vs @ drop (length pre + length vs) (arg_values args),
      arg_tcodes := take (length pre) (arg_tcodes args) @ ts @ drop (length pre + length vs) (arg_tcodes args)\<rparr>)"
proof (induction vs arbitrary: pre pret ts args)
  case Nil
  then show ?case by simp
next
  case (Cons v vs)
  then obtain t ts' where ts: "ts = t # ts'" "length ts' = length vs"
    by (cases ts) auto
  let ?args = "args\<lparr>arg_values := (arg_values args)[length pre := v], arg_tcodes := (arg_tcodes args)[length pre := t]\<rparr>"
  have "TVMArgs_fill args (pre @ v # vs) (pret @ ts) (length pre) (length (v # vs))
      = TVMArgs_fill ?args ((pre @ [v]) @ vs) ((pret @ [t]) @ ts') (length (pre @ [v])) (length vs)"
    using Cons.prems ts by (simp add: arr_get_def arr_set_def nth_append)
  also have "\<dots> = Some (?args
     \<lparr>arg_values := take (length (pre @ [v])) (arg_values ?args) @ vs @ drop (length (pre @ [v]) + length vs) (arg_values ?args),
      arg_tcodes := take (length (pre @ [v])) (arg_tcodes ?args) @ ts' @ drop (length (pre @ [v]) + length vs) (arg_tcodes ?args)\<rparr>)"
    by (rule Cons.IH) (use Cons.prems ts in simp_all)
  finally show ?case
    using Cons.prems ts by (simp add: take_Suc_conv_app_nth)
qed

lemma TVMArgs_Create_exact:
  assumes "length vs \<le> 10" and "length ts = length vs"
  shows "TVMArgs_Create vs ts (length vs) = Some \<lparr>arg_values = vs @ replicate (10 - length vs) 0,
    arg_tcodes = ts @ replicate (10 - length vs) 0, values_count = length vs\<rparr>"
  using TVMArgs_fill_exact [of "[]" vs zero_args ts "[]"] assms
  by (simp add: TVMArgs_Create_def zero_args_def TVM_CRT_MAX_ARGS_def)

section \<open>The operator of a node\<close>

text \<open>The functions named by the operators, with at most nine arguments that are entries of the data.\<close>

definition node_runnable :: "(u8 list \<times> u32) list \<Rightarrow> graph_text \<Rightarrow> nat \<Rightarrow> bool" where
  "node_runnable fs gt nid \<longleftrightarrow>
     (let n = gt_nodes gt ! nid; rows = gt_node_row_ptr gt
      in nt_op n = lit ''null''
       \<or> nt_op n = lit ''tvm_op'' \<and> (\<exists>p. nt_param n = Some p \<and> op_flatten_data p = 0 \<and> cname (op_func_name p)
           \<and> op_func_name p \<in> fst ` set fs \<and> length (nt_inputs n) + op_num_outputs p < 10
           \<and> (\<forall>e \<in> set (nt_inputs n). ne_node_id e < length rows) \<and> nid < length rows))"

text \<open>The tensors of a node: those of its inputs, then those of its outputs.\<close>

definition node_entry_id :: "graph_text \<Rightarrow> nat \<Rightarrow> nat \<Rightarrow> nat" where
  "node_entry_id gt nid index = (gt_node_row_ptr gt ! nid + index) mod 2 ^ 32"

definition node_tensors :: "graph_text \<Rightarrow> graph_executor \<Rightarrow> nat \<Rightarrow> addr list" where
  "node_tensors gt ex nid =
     (let n = gt_nodes gt ! nid
      in map (\<lambda>e. entry_at ex (node_entry_id gt (ne_node_id e) (ne_index e))) (nt_inputs n)
       @ map (\<lambda>j. entry_at ex (node_entry_id gt nid j)) [0..<op_num_outputs (the (nt_param n))])"

definition tensor_args :: "addr list \<Rightarrow> tvm_args" where
  "tensor_args as = \<lparr>arg_values = map (\<lambda>a. set_handle 0 (of_int a)) as @ replicate (10 - length as) 0,
     arg_tcodes = replicate (length as) kTVMNDArrayHandle @ replicate (10 - length as) 0, values_count = length as\<rparr>"

lemma op_inputs_spec:
  assumes "ge_node_row_ptr ex = map Some (gt_node_row_ptr gt)" and "gn_inputs x = map Some es"
    and "\<forall>e \<in> set es. ne_node_id e < length (gt_node_row_ptr gt)" and "idx + n \<le> length es" and "length args + n \<le> 10"
  shows "op_inputs ex x idx n args
    = Some (args @ map (\<lambda>e. entry_at ex (node_entry_id gt (ne_node_id e) (ne_index e))) (take n (drop idx es)))"
  using assms(4,5)
proof (induction n arbitrary: idx args)
  case (Suc n)
  have e: "es ! idx \<in> set es" "take (Suc n) (drop idx es) = es ! idx # take n (drop (Suc idx) es)"
    using Suc.prems by (simp_all add: Cons_nth_drop_Suc [symmetric])
  show ?case
    using Suc.IH [of "Suc idx" "args @ [entry_at ex (node_entry_id gt (ne_node_id (es ! idx)) (ne_index (es ! idx)))]"] Suc.prems e assms(1-3)
    by (simp add: item_map TVMGraphExecutor_GetEntryId_def node_entry_id_def TVM_CRT_MAX_ARGS_def)
qed simp

lemma op_outputs_spec:
  assumes "ge_node_row_ptr ex = map Some (gt_node_row_ptr gt)" and "nid < length (gt_node_row_ptr gt)" and "length args + n \<le> 10"
  shows "op_outputs ex nid idx n args = Some (args @ map (\<lambda>j. entry_at ex (node_entry_id gt nid j)) [idx..<idx + n])"
  using assms(3)
proof (induction n arbitrary: idx args)
  case (Suc n)
  have "[idx..<idx + Suc n] = idx # [Suc idx..<Suc idx + n]"
    by (simp add: upt_conv_Cons)
  then show ?case
    using Suc.IH [of "args @ [entry_at ex (node_entry_id gt nid idx)]" "Suc idx"] Suc.prems assms(1,2)
    by (simp add: item_map TVMGraphExecutor_GetEntryId_def node_entry_id_def TVM_CRT_MAX_ARGS_def del: upt_Suc)
qed simp

text \<open>The operator in the table: null for a node without one, otherwise a handle that calls the function.\<close>

definition op_built ::
    "(u8 list \<times> u32) list \<Rightarrow> mutable_func_registry \<Rightarrow> graph_text \<Rightarrow> graph_executor \<Rightarrow> (nat \<Rightarrow> tvm_packed_func) \<Rightarrow> nat \<Rightarrow> tvm_packed_func \<Rightarrow> bool" where
  "op_built fs reg gt ex junk nid pf \<longleftrightarrow>
     (let n = gt_nodes gt ! nid
      in if nt_op n = lit ''null'' then pf_fexec pf = 0
         else pf_fexec pf \<noteq> 0 \<and> pf_args pf = tensor_args (node_tensors gt ex nid) \<and> pf_ret_value pf = pf_ret_value (junk nid)
           \<and> (\<forall>im d args tcs cnt rv rc rt. module_has rt (ge_module_handle ex) fs reg \<longrightarrow>
                TVMFuncCall (Suc d) im (pf_fexec pf) args tcs cnt rv rc rt
                = call_pointer im (the (map_of fs (op_func_name (the (nt_param n))))) (Some (mr_registry reg)) args tcs cnt
                    (set_handle rv 0) kTVMNullptr rt))"

lemma EncodeFunctionHandle_set: "EncodeFunctionHandle m k \<noteq> 0"
proof
  assume "EncodeFunctionHandle m k = 0"
  moreover have "bit (EncodeFunctionHandle m k) 15"
    by (simp add: EncodeFunctionHandle_def bit_simps)
  ultimately show False
    by simp
qed

lemma EncodeModuleHandle_inj:
  assumes "i < 6" and "j < 6" and "EncodeModuleHandle (of_nat i) = EncodeModuleHandle (of_nat j)"
  shows "i = j"
proof -
  have "(of_nat i :: u16) = of_nat j"
    using module_handle_index [OF small_index(2) [OF assms(1)]] module_handle_index [OF small_index(2) [OF assms(2)]] assms(3) by metis
  then show ?thesis
    using small_index(1) [OF assms(1)] small_index(1) [OF assms(2)] by metis
qed

lemma setup_op_built:
  assumes gt: "ge_nodes ex = map Some xs" "list_all2 node_shown (gt_nodes gt) xs" "ge_node_row_ptr ex = map Some (gt_node_row_ptr gt)"
    and nid: "nid < length (gt_nodes gt)" and ok: "node_runnable fs gt nid" and m: "module_has rt (ge_module_handle ex) fs reg"
  shows "\<exists>pf. setup_op junk ex nid rt = Some (Some pf, rt) \<and> op_built fs reg gt ex junk nid pf"
proof -
  let ?n = "gt_nodes gt ! nid" and ?x = "xs ! nid"
  have x: "node_shown ?n ?x" "nid < length xs"
    using gt(2) nid by (auto simp: list_all2_conv_all_nth)
  show ?thesis
  proof (cases "nt_op ?n = lit ''null''")
    case True
    then show ?thesis
      using gt(1) x by (auto simp: setup_op_def item_map node_shown_def op_built_def null_op_def)
  next
    case False
    then obtain p where p: "nt_op ?n = lit ''tvm_op''" "nt_param ?n = Some p" "op_flatten_data p = 0" "cname (op_func_name p)"
      "op_func_name p \<in> fst ` set fs" "length (nt_inputs ?n) + op_num_outputs p < 10"
      "\<forall>e \<in> set (nt_inputs ?n). ne_node_id e < length (gt_node_row_ptr gt)" "nid < length (gt_node_row_ptr gt)"
      using ok by (auto simp: node_runnable_def Let_def)
    obtain i where i: "mr_rep reg fs" "length fs < 0x8000" "length (registered_modules rt) = 6" "i < 6"
      "ge_module_handle ex = EncodeModuleHandle (of_nat i)" "registered_modules rt ! i = Some (mr_registry reg)"
      using m by (auto simp: module_has_def)
    obtain k where k: "k < length fs" "fst (fs ! k) = op_func_name p"
      "TVMFuncRegistry_Lookup (mr_registry reg) (op_func_name p @ [0]) = Some (kTvmErrorNoError, Some (of_nat k))"
      using Lookup_ok(1) [OF i(1) p(4,5), of "[]"] by blast
    have kw: "unat (of_nat k :: u16) = k" "(of_nat k :: u16) < 0x8000"
      using k(1) i(2) by (simp_all add: unat_of_nat word_less_nat_alt)
    have f: "TVMFuncRegistry_GetByIndex (mr_registry reg) (of_nat k) = Some (kTvmErrorNoError, Some (snd (fs ! k)))"
      using GetByIndex_ok [OF i(1), of "of_nat k"] kw(1) k(1) by simp
    have mf: "map_of fs (op_func_name p) = Some (snd (fs ! k))"
      using i(1) k(1,2) by (metis map_of_eq_Some_iff mr_rep_def nth_mem prod.collapse)
    let ?h = "EncodeFunctionHandle (of_nat i) (of_nat k)" and ?as = "node_tensors gt ex nid"
    let ?pf = "TVMPackedFunc_SetArgs (pf_set_name ((junk nid)\<lparr>pf_fexec := ?h\<rparr>) (op_func_name p @ [0])) (tensor_args ?as)"
    let ?ins = "map (\<lambda>e. entry_at ex (node_entry_id gt (ne_node_id e) (ne_index e))) (nt_inputs ?n)"
    have ins: "op_inputs ex ?x 0 (length (nt_inputs ?n)) [] = Some ?ins"
      using op_inputs_spec [OF gt(3), of ?x "nt_inputs ?n" 0 "length (nt_inputs ?n)" "[]"] x(1) p(6,7) by (simp add: node_shown_def)
    have outs: "op_outputs ex nid 0 (op_num_outputs p) ?ins = Some ?as"
      using op_outputs_spec [OF gt(3) p(8), of ?ins "op_num_outputs p" 0] p(2,6) by (simp add: node_tensors_def Let_def)
    have len: "length ?as < 10"
      using p(2,6) by (simp add: node_tensors_def Let_def)
    have "TVMGraphExecutor_CreateTVMOp ex p ?as (junk nid) rt = Some (0, ?pf, rt)"
      using TVMArgs_Create_exact [of "map (\<lambda>a. set_handle 0 (of_int a)) ?as" "replicate (length ?as) kTVMNDArrayHandle"] len p(3)
        module_lookup [OF i(3,4,6) k(3), of False]
      by (simp add: TVMGraphExecutor_CreateTVMOp_def TVM_CRT_MAX_ARGS_def TVMPackedFunc_InitModuleFunc_def i(5) tensor_args_def)
    then have "setup_op junk ex nid rt = Some (Some ?pf, rt)"
      using gt(1) x p(1,2) False ins outs len
      by (simp add: setup_op_def item_map node_shown_def TVM_CRT_MAX_ARGS_def del: op_inputs.simps op_outputs.simps)
    moreover have "op_built fs reg gt ex junk nid ?pf"
    proof -
      have "TVMFuncCall (Suc d) im ?h args tcs cnt rv rc rt'
          = call_pointer im (snd (fs ! k)) (Some (mr_registry reg)) args tcs cnt (set_handle rv 0) kTVMNullptr rt'"
        if "module_has rt' (ge_module_handle ex) fs reg" for im d args tcs cnt rv rc rt'
      proof -
        obtain j where j: "length (registered_modules rt') = 6" "j < 6"
          "ge_module_handle ex = EncodeModuleHandle (of_nat j)" "registered_modules rt' ! j = Some (mr_registry reg)"
          using \<open>module_has rt' _ fs reg\<close> by (auto simp: module_has_def)
        have "j = i"
          using EncodeModuleHandle_inj [OF j(2) i(4)] j(3) i(5) by simp
        then show ?thesis
          using module_call [OF j(1,2,4) kw(2) f] by simp
      qed
      then show ?thesis
        using False p(2) mf EncodeFunctionHandle_set
        by (simp add: op_built_def Let_def TVMPackedFunc_SetArgs_def pf_set_name_def del: TVMFuncCall.simps)
    qed
    ultimately show ?thesis
      by blast
  qed
qed

lemma op_built_execs: "op_built fs reg gt (ex\<lparr>ge_op_execs := a\<rparr>) = op_built fs reg gt ex"
  by (simp add: fun_eq_iff op_built_def node_tensors_def entry_at_def)

lemma setup_ops_loop_built:
  assumes "ge_nodes ex = map Some xs" "list_all2 node_shown (gt_nodes gt) xs" "ge_node_row_ptr ex = map Some (gt_node_row_ptr gt)"
    and "\<forall>nid < length (gt_nodes gt). node_runnable fs gt nid" and "module_has rt (ge_module_handle ex) fs reg"
    and "length (ge_op_execs ex) = length (gt_nodes gt)" and "nid + n = length (gt_nodes gt)"
  shows "\<exists>pfs. length pfs = n \<and> setup_ops_loop junk ex nid n rt = Some (0, ex\<lparr>ge_op_execs := take nid (ge_op_execs ex) @ map Some pfs\<rparr>, rt)
    \<and> (\<forall>i < n. op_built fs reg gt ex junk (nid + i) (pfs ! i))"
  using assms
proof (induction n arbitrary: nid ex)
  case (Suc n)
  have nid: "nid < length (gt_nodes gt)"
    using Suc.prems(7) by simp
  obtain pf where pf: "setup_op junk ex nid rt = Some (Some pf, rt)" "op_built fs reg gt ex junk nid pf"
    using setup_op_built [OF Suc.prems(1-3) nid _ Suc.prems(5), of junk] Suc.prems(4) nid by blast
  let ?ex = "ex\<lparr>ge_op_execs := (ge_op_execs ex)[nid := Some pf]\<rparr>"
  have "\<exists>pfs. length pfs = n \<and> setup_ops_loop junk ?ex (Suc nid) n rt
        = Some (0, ?ex\<lparr>ge_op_execs := take (Suc nid) (ge_op_execs ?ex) @ map Some pfs\<rparr>, rt)
    \<and> (\<forall>i < n. op_built fs reg gt ?ex junk (Suc nid + i) (pfs ! i))"
    by (rule Suc.IH) (use Suc.prems in simp_all)
  then obtain pfs where pfs: "length pfs = n" "setup_ops_loop junk ?ex (Suc nid) n rt
      = Some (0, ?ex\<lparr>ge_op_execs := take (Suc nid) (ge_op_execs ?ex) @ map Some pfs\<rparr>, rt)"
    "\<forall>i < n. op_built fs reg gt ex junk (Suc nid + i) (pfs ! i)"
    unfolding op_built_execs by blast
  have "take (Suc nid) ((ge_op_execs ex)[nid := Some pf]) = take nid (ge_op_execs ex) @ [Some pf]"
    using nid Suc.prems(6) by (simp add: take_Suc_conv_app_nth)
  then have "setup_ops_loop junk ex nid (Suc n) rt = Some (0, ex\<lparr>ge_op_execs := take nid (ge_op_execs ex) @ map Some (pf # pfs)\<rparr>, rt)"
    using pf(1) pfs(2) nid Suc.prems(6) by (simp add: arr_set_def)
  moreover have "\<forall>i < Suc n. op_built fs reg gt ex junk (nid + i) ((pf # pfs) ! i)"
    using pf(2) pfs(3) by (auto simp: less_Suc_eq_0_disj)
  ultimately show ?case
    using pfs(1) by (intro exI [of _ "pf # pfs"]) simp
next
  case 0
  then show ?case
    by (intro exI [of _ "[]"]) simp
qed

section \<open>A run\<close>

text \<open>
  What a run does: the functions of the operators, found by name in the module, in the order of the
  nodes and with the tensors of their node; what they return is not looked at.
\<close>

fun run_nodes ::
    "image \<Rightarrow> (nat \<Rightarrow> tvm_packed_func) \<Rightarrow> (u8 list \<times> u32) list \<Rightarrow> mutable_func_registry \<Rightarrow> graph_text \<Rightarrow> graph_executor
     \<Rightarrow> nat \<Rightarrow> nat \<Rightarrow> runtime \<Rightarrow> runtime option" where
  "run_nodes im junk fs reg gt ex nid 0 rt = Some rt"
| "run_nodes im junk fs reg gt ex nid (Suc n) rt =
     (if nt_op (gt_nodes gt ! nid) = lit ''null'' then run_nodes im junk fs reg gt ex (nid + 1) n rt
      else do {
        let f = the (map_of fs (op_func_name (the (nt_param (gt_nodes gt ! nid)))));
        let args = tensor_args (node_tensors gt ex nid);
        (_, _, _, rt) \<leftarrow> call_pointer im f (Some (mr_registry reg)) (arg_values args) (arg_tcodes args) (int (values_count args))
          (set_handle (arg_values (pf_ret_value (junk nid)) ! 0) 0) kTVMNullptr rt;
        run_nodes im junk fs reg gt ex (nid + 1) n rt
      })"

text \<open>The functions of the module leave the table of the modules as it is.\<close>

definition keeps_modules :: "image \<Rightarrow> (u8 list \<times> u32) list \<Rightarrow> mutable_func_registry \<Rightarrow> bool" where
  "keeps_modules im fs reg \<longleftrightarrow> (\<forall>name f args tcs n rv rc rt r rv' rc' rt'. (name, f) \<in> set fs \<longrightarrow>
     call_pointer im f (Some (mr_registry reg)) args tcs n rv rc rt = Some (r, rv', rc', rt') \<longrightarrow> registered_modules rt' = registered_modules rt)"

lemma Run_loop_nodes:
  assumes "idx + n = length (gt_nodes gt)" and "length (ge_op_execs e) = length (gt_nodes gt)"
    and "\<forall>nid < length (gt_nodes gt). node_runnable fs gt nid"
    and "\<forall>nid. idx \<le> nid \<and> nid < length (gt_nodes gt) \<longrightarrow> (\<exists>pf. ge_op_execs e ! nid = Some pf \<and> op_built fs reg gt ex junk nid pf)"
    and "\<forall>nid. arg_values (pf_ret_value (junk nid)) \<noteq> [] \<and> arg_tcodes (pf_ret_value (junk nid)) \<noteq> []"
    and "module_has rt (ge_module_handle ex) fs reg" and keeps: "keeps_modules im fs reg"
  shows "map_option snd (Run_loop im idx n e rt) = run_nodes im junk fs reg gt ex idx n rt"
  using assms(1-6)
proof (induction n arbitrary: idx e rt)
  case (Suc n)
  obtain pf where pf: "ge_op_execs e ! idx = Some pf" "op_built fs reg gt ex junk idx pf"
    using Suc.prems(1,4) by auto
  have it: "item (ge_op_execs e) idx = Some pf"
    using pf(1) Suc.prems(1,2) by (simp add: item_def arr_get_def)
  show ?case
  proof (cases "nt_op (gt_nodes gt ! idx) = lit ''null''")
    case True
    then have "Run_loop im idx (Suc n) e rt = Run_loop im (idx + 1) n e rt"
      using pf(2) it by (simp add: op_built_def Let_def)
    moreover have "map_option snd (Run_loop im (Suc idx) n e rt) = run_nodes im junk fs reg gt ex (Suc idx) n rt"
      by (rule Suc.IH) (use Suc.prems in simp_all)
    ultimately show ?thesis
      using True by simp
  next
    case False
    let ?f = "the (map_of fs (op_func_name (the (nt_param (gt_nodes gt ! idx)))))" and ?a = "tensor_args (node_tensors gt ex idx)"
    let ?rv = "arg_values (pf_ret_value (junk idx)) ! 0"
    have b: "pf_fexec pf \<noteq> 0" "pf_args pf = ?a" "pf_ret_value pf = pf_ret_value (junk idx)"
      "\<And>im d args tcs cnt rv rc rt. module_has rt (ge_module_handle ex) fs reg \<Longrightarrow>
         TVMFuncCall (Suc d) im (pf_fexec pf) args tcs cnt rv rc rt = call_pointer im ?f (Some (mr_registry reg)) args tcs cnt (set_handle rv 0) kTVMNullptr rt"
      using pf(2) False by (auto simp: op_built_def Let_def)
    have f: "\<exists>name. (name, ?f) \<in> set fs"
    proof -
      have "node_runnable fs gt idx"
        using Suc.prems(1,3) by simp
      then obtain p where "nt_param (gt_nodes gt ! idx) = Some p" "op_func_name p \<in> fst ` set fs"
        using False by (auto simp: node_runnable_def Let_def)
      moreover from this(2) obtain g where "map_of fs (op_func_name p) = Some g"
        by (metis map_of_eq_None_iff not_None_eq)
      ultimately show ?thesis
        using map_of_SomeD by fastforce
    qed
    have ne: "arg_values (pf_ret_value (junk idx)) \<noteq> []" "arg_tcodes (pf_ret_value (junk idx)) \<noteq> []"
      using Suc.prems(5) by simp_all
    show ?thesis
    proof (cases "call_pointer im ?f (Some (mr_registry reg)) (arg_values ?a) (arg_tcodes ?a) (int (values_count ?a)) (set_handle ?rv 0) kTVMNullptr rt")
      case None
      then show ?thesis
        using False it b(1-3) b(4) [OF Suc.prems(6), of 1] ne
        by (simp add: TVMPackedFunc_Call_def arr_get_def arr_set_def Let_def numeral_2_eq_2 del: TVMFuncCall.simps)
    next
      case (Some res)
      obtain r rv rc rt' where res: "res = (r, rv, rc, rt')"
        by (metis prod_cases4)
      have m: "module_has rt' (ge_module_handle ex) fs reg"
      proof -
        have "registered_modules rt' = registered_modules rt"
          using keeps Some f unfolding res keeps_modules_def by blast
        then show ?thesis
          using Suc.prems(6) by (simp add: module_has_def)
      qed
      obtain pf' where "Run_loop im idx (Suc n) e rt = Run_loop im (Suc idx) n (e\<lparr>ge_op_execs := (ge_op_execs e)[idx := Some pf']\<rparr>) rt'"
        using Some False it b(1-3) b(4) [OF Suc.prems(6), of 1] ne res
        by (simp add: TVMPackedFunc_Call_def arr_get_def arr_set_def Let_def numeral_2_eq_2 del: TVMFuncCall.simps)
      moreover have "map_option snd (Run_loop im (Suc idx) n (e\<lparr>ge_op_execs := (ge_op_execs e)[idx := Some pf']\<rparr>) rt')
          = run_nodes im junk fs reg gt ex (Suc idx) n rt'"
        by (rule Suc.IH) (use Suc.prems m in simp_all)
      ultimately show ?thesis
        using False Some res by (simp add: Let_def)
    qed
  qed
qed simp

lemma alloc_items_owns:
  fixes rt :: runtime
  assumes "owns ps (pages_of ps (k * n) + r) keep (rt_machine rt)" and "0 < k * n" and "k * n < 2 ^ 31"
  obtains p h where "alloc_items (heap (rt_machine rt)) k n = Some (kTvmErrorNoError, p, replicate n (None :: 'a option), h)"
    "owns ps r keep (rt_machine (rt\<lparr>rt_machine := (rt_machine rt)\<lparr>heap := h\<rparr>\<rparr>))"
proof -
  obtain p rt' bs where a: "rt_alloc (k * n) rt = Some (kTvmErrorNoError, p, rt')" "owns ps r (keep(p \<mapsto> bs)) (rt_machine rt')" "keep p = None"
    by (rule rt_alloc_owns [OF assms]) (rule that, assumption+)
  obtain h where h: "PageMemoryManager_Allocate (heap (rt_machine rt)) (k * n) = Some (kTvmErrorNoError, p, h)"
    "rt' = rt\<lparr>rt_machine := (rt_machine rt)\<lparr>heap := h\<rparr>\<rparr>"
    using a(1) assms(3) by (auto simp: rt_alloc_def bind_eq_Some)
  have "keep \<subseteq>\<^sub>m keep(p \<mapsto> bs)"
    by (rule map_le_new) (simp_all add: a(3))
  then show thesis
    using that [of p h] h owns_fewer [OF a(2), of keep r] assms(2,3) by (simp add: alloc_items_def)
qed

text \<open>
  C4. The operators of a graph that was read can be set up whenever the heap has room, its nodes are
  operators of the module with at most nine arguments, or inputs. From then on, in every state of the
  runtime that still has the module, a run calls the functions that the nodes name, in their order, each
  with the tensors of the inputs and then of the outputs of its node; an error of one of them changes
  nothing for the next.
\<close>
theorem graph_runs_operators:
  assumes "graph_ok gt" and "graph_shown gt ex" and "gt_nodes gt \<noteq> []" and "\<forall>nid < length (gt_nodes gt). node_runnable fs gt nid"
    and "module_has rt (ge_module_handle ex) fs reg" and "keeps_modules im fs reg"
    and "\<forall>nid. arg_values (pf_ret_value (sj_op junk nid)) \<noteq> [] \<and> arg_tcodes (pf_ret_value (sj_op junk nid)) \<noteq> []"
    and "owns ps (pages_of ps (472 * length (gt_nodes gt)) + r) keep (rt_machine rt)"
  shows "\<exists>ex' rt'. TVMGraphExecutor_SetupOpExecs junk ex rt = Some (0, ex', rt')
    \<and> graph_shown gt ex' \<and> owns ps r keep (rt_machine rt') \<and> rt_ram rt' = rt_ram rt
    \<and> (\<forall>rt1. module_has rt1 (ge_module_handle ex) fs reg
         \<longrightarrow> map_option snd (TVMGraphExecutor_Run im ex' rt1) = run_nodes im (sj_op junk) fs reg gt ex 0 (length (gt_nodes gt)) rt1)"
proof -
  let ?n = "length (gt_nodes gt)"
  obtain xs where xs: "ge_nodes ex = map Some xs" "list_all2 node_shown (gt_nodes gt) xs"
    using assms(2) by (auto simp: graph_shown_def)
  have n: "ge_nodes_count ex = ?n" "0 < 472 * ?n" "472 * ?n < 2 ^ 31" "ge_node_row_ptr ex = map Some (gt_node_row_ptr gt)"
    using assms(1-3) by (simp_all add: graph_shown_def graph_ok_def)
  obtain p h where a: "alloc_items (heap (rt_machine rt)) 472 ?n = Some (kTvmErrorNoError, p, replicate ?n (None :: tvm_packed_func option), h)"
    "owns ps r keep (rt_machine (rt\<lparr>rt_machine := (rt_machine rt)\<lparr>heap := h\<rparr>\<rparr>))"
    by (rule alloc_items_owns [OF assms(8) n(2,3)]) (rule that, assumption+)
  let ?rt = "rt\<lparr>rt_machine := (rt_machine rt)\<lparr>heap := h\<rparr>\<rparr>"
  let ?ex = "ex\<lparr>ge_op_execs_count := ?n, ge_op_execs := replicate ?n None, ge_op_execs_at := p\<rparr>"
  have m: "module_has ?rt (ge_module_handle ?ex) fs reg"
    using assms(5) by (simp add: module_has_def)
  have "\<exists>pfs. length pfs = ?n \<and> setup_ops_loop (sj_op junk) ?ex 0 ?n ?rt
        = Some (0, ?ex\<lparr>ge_op_execs := take 0 (ge_op_execs ?ex) @ map Some pfs\<rparr>, ?rt)
      \<and> (\<forall>i < ?n. op_built fs reg gt ?ex (sj_op junk) (0 + i) (pfs ! i))"
    by (rule setup_ops_loop_built [OF _ xs(2) _ assms(4) m]) (use xs(1) n(4) in simp_all)
  then obtain pfs where pfs: "length pfs = ?n" "setup_ops_loop (sj_op junk) ?ex 0 ?n ?rt = Some (0, ?ex\<lparr>ge_op_execs := map Some pfs\<rparr>, ?rt)"
    "\<forall>i < ?n. op_built fs reg gt ?ex (sj_op junk) i (pfs ! i)"
    by auto
  let ?ex' = "?ex\<lparr>ge_op_execs := map Some pfs\<rparr>"
  have built: "op_built fs reg gt ?ex (sj_op junk) nid pf = op_built fs reg gt ex (sj_op junk) nid pf" for nid pf
    by (simp add: op_built_def node_tensors_def entry_at_def)
  have "TVMGraphExecutor_SetupOpExecs junk ex rt = Some (0, ?ex', ?rt)"
    using a(1) pfs(2) n(1) by (simp add: TVMGraphExecutor_SetupOpExecs_def sizeof_PackedFunc_def)
  moreover have "graph_shown gt ?ex'"
    using assms(2) by (simp add: graph_shown_def)
  moreover have "map_option snd (TVMGraphExecutor_Run im ?ex' rt1) = run_nodes im (sj_op junk) fs reg gt ex 0 ?n rt1"
    if "module_has rt1 (ge_module_handle ex) fs reg" for rt1
  proof -
    have "map_option snd (Run_loop im 0 ?n ?ex' rt1) = run_nodes im (sj_op junk) fs reg gt ex 0 ?n rt1"
      by (rule Run_loop_nodes [OF _ _ assms(4) _ assms(7) that assms(6)]) (use pfs(1,3) built in simp_all)
    then show ?thesis
      by (simp add: TVMGraphExecutor_Run_def)
  qed
  ultimately show ?thesis
    using a(2) by (intro exI [of _ ?ex'] exI [of _ ?rt]) simp
qed

lemma small_runnable: "\<forall>nid < length (gt_nodes small_graph). node_runnable [(lit ''fused_relu'', 0x1234)] small_graph nid"
  by (auto simp: node_runnable_def small_graph_def less_Suc_eq cname_def lit_def)

text \<open>The operator of the small graph gets the tensors of the two entries.\<close>

lemma graph_runs_operators_witness:
  "\<exists>ex' rt'. TVMGraphExecutor_SetupOpExecs blank_junk small_executor graph_runtime = Some (0, ex', rt')
    \<and> graph_shown small_graph ex' \<and> owns 256 300 Map.empty (rt_machine rt')
    \<and> map_option snd (TVMGraphExecutor_Run bare_image ex' graph_runtime) = do {
        let args = tensor_args (map (entry_at small_executor) [0, 1]);
        (_, _, _, rt) \<leftarrow> call_pointer bare_image 0x1234 (Some (mr_registry relu_registry)) (arg_values args) (arg_tcodes args) 2
          (set_handle 0 0) kTVMNullptr graph_runtime;
        Some rt
      }"
proof -
  have keeps: "keeps_modules bare_image [(lit ''fused_relu'', 0x1234)] relu_registry"
    by (simp add: keeps_modules_def call_pointer_def bare_image_def)
  have "owns 256 (pages_of 256 (472 * length (gt_nodes small_graph)) + 300) Map.empty (rt_machine graph_runtime)"
    using graph_runtime_owns [of 4] by (simp add: pages_of_def small_graph_def)
  moreover have "\<forall>nid. arg_values (pf_ret_value (sj_op blank_junk nid)) \<noteq> [] \<and> arg_tcodes (pf_ret_value (sj_op blank_junk nid)) \<noteq> []"
    by (simp add: blank_junk_def null_op_def zero_args_def TVM_CRT_MAX_ARGS_def)
  moreover have "gt_nodes small_graph \<noteq> []"
    by (simp add: small_graph_def)
  ultimately obtain ex' rt' where r: "TVMGraphExecutor_SetupOpExecs blank_junk small_executor graph_runtime = Some (0, ex', rt')"
    "graph_shown small_graph ex'" "owns 256 300 Map.empty (rt_machine rt')"
    "map_option snd (TVMGraphExecutor_Run bare_image ex' graph_runtime)
       = run_nodes bare_image (sj_op blank_junk) [(lit ''fused_relu'', 0x1234)] relu_registry small_graph small_executor 0
           (length (gt_nodes small_graph)) graph_runtime"
    using graph_runs_operators [OF small_graph_ok small_executor_shown _ small_runnable graph_module keeps, of blank_junk 256 300 Map.empty]
      graph_module by blast
  have nodes: "length (gt_nodes small_graph) = Suc (Suc 0)" "nt_op (gt_nodes small_graph ! 0) = lit ''null''"
    "nt_op (gt_nodes small_graph ! Suc 0) \<noteq> lit ''null''" "op_func_name (the (nt_param (gt_nodes small_graph ! Suc 0))) = lit ''fused_relu''"
    by (simp_all add: small_graph_def lit_def)
  have "node_tensors small_graph small_executor (Suc 0) = map (entry_at small_executor) [0, 1]"
    by (simp add: node_tensors_def node_entry_id_def small_graph_def Let_def)
  moreover have "arg_values (pf_ret_value (sj_op blank_junk (Suc 0))) ! 0 = 0"
    by (simp add: blank_junk_def null_op_def zero_args_def TVM_CRT_MAX_ARGS_def)
  ultimately have "run_nodes bare_image (sj_op blank_junk) [(lit ''fused_relu'', 0x1234)] relu_registry small_graph small_executor 0
      (length (gt_nodes small_graph)) graph_runtime = do {
        let args = tensor_args (map (entry_at small_executor) [0, 1]);
        (_, _, _, rt) \<leftarrow> call_pointer bare_image 0x1234 (Some (mr_registry relu_registry)) (arg_values args) (arg_tcodes args) 2
          (set_handle 0 0) kTVMNullptr graph_runtime;
        Some rt
      }"
    by (simp add: nodes Let_def tensor_args_def split_def)
  then show ?thesis
    using r by (intro exI [of _ ex'] exI [of _ rt']) simp
qed

end
