(* ===== verification/Graph_Io.thy ===== *)
theory Graph_Io
  imports Graph_Run
begin

text \<open>
  Inputs, outputs and parameters of a graph, and the graphs whose operators cannot be set up.
\<close>

section \<open>Inputs\<close>

text \<open>An input is found by the name of its node, the first one when there are several.\<close>

fun input_of :: "u8 list list \<Rightarrow> u8 list \<Rightarrow> nat option" where
  "input_of [] name = None"
| "input_of (n # ns) name = (if n = name then Some 0 else map_option Suc (input_of ns name))"

lemma input_of_less: "input_of ns name = Some i \<Longrightarrow> i < length ns"
  by (induction ns arbitrary: i) (auto split: if_splits)

abbreviation input_names :: "graph_text \<Rightarrow> u8 list list" where
  "input_names gt \<equiv> map (\<lambda>nid. nt_name (gt_nodes gt ! nid)) (gt_arg_nodes gt)"

lemma GetInputIndex_loop_spec:
  assumes gt: "graph_shown gt ex" "\<forall>nid \<in> set (gt_arg_nodes gt). nid < length (gt_nodes gt)" "length (gt_arg_nodes gt) < 2 ^ 31"
    and n: "i + n = length (gt_arg_nodes gt)"
  shows "GetInputIndex_loop ex name i n
    = Some (case input_of (drop i (input_names gt)) name of None \<Rightarrow> - 1 | Some j \<Rightarrow> int (i + j))"
  using n
proof (induction n arbitrary: i)
  case (Suc n)
  obtain xs where xs: "ge_nodes ex = map Some xs" "list_all2 node_shown (gt_nodes gt) xs"
    using gt(1) by (auto simp: graph_shown_def)
  let ?nid = "gt_arg_nodes gt ! i"
  have i: "i < length (gt_arg_nodes gt)"
    using Suc.prems by simp
  then have nid: "?nid < length xs" "gn_name (xs ! ?nid) = nt_name (gt_nodes gt ! ?nid)"
    using gt(2) xs(2) by (auto simp: list_all2_conv_all_nth node_shown_def)
  have d: "drop i (input_names gt) = nt_name (gt_nodes gt ! ?nid) # drop (Suc i) (input_names gt)"
    using i by (simp add: Cons_nth_drop_Suc [symmetric])
  have it: "item (ge_input_nodes ex) i = Some ?nid" "item (ge_nodes ex) ?nid = Some (xs ! ?nid)"
    using gt(1) i nid(1) xs(1) by (simp_all add: graph_shown_def item_map)
  have "to_i32 (int i) = int i"
    using i gt(3) by (intro to_i32_id) simp_all
  then show ?case
    using Suc.IH [of "Suc i"] Suc.prems it nid(2) unfolding d by (simp split: option.splits)
qed simp

lemma GetInputIndex_spec:
  assumes "graph_shown gt ex" "\<forall>nid \<in> set (gt_arg_nodes gt). nid < length (gt_nodes gt)" "length (gt_arg_nodes gt) < 2 ^ 31"
  shows "TVMGraphExecutor_GetInputIndex ex name = map_option int (input_of (input_names gt) name)"
  using GetInputIndex_loop_spec [OF assms, of 0 "length (gt_arg_nodes gt)" name] assms(1)
  by (simp add: TVMGraphExecutor_GetInputIndex_def graph_shown_def CHECK_def split: option.splits)

lemma load_tensor_data:
  assumes "word_addr p"
  shows "load_tensor (store_bytes r a (le_bytes 4 (nat p))) a = (load_tensor r a)\<lparr>dt_data := p\<rparr>"
proof -
  let ?r = "store_bytes r a (le_bytes 4 (nat p))"
  have other: "load_bytes ?r (a + int off) n = load_bytes r (a + int off) n" if "4 \<le> off" for off n
    using that by (intro load_bytes_cong) (simp add: store_bytes_def)
  have "load_bytes ?r a 4 = le_bytes 4 (nat p)"
    using load_store_same [of r a "le_bytes 4 (nat p)"] by simp
  then have p: "int (le_value (load_bytes ?r a 4)) = p"
    by (simp add: word_addr_bytes [OF assms])
  have "?r (a + 16) = r (a + 16)" "?r (a + 17) = r (a + 17)"
    by (simp_all add: store_bytes_def)
  then show ?thesis
    using p other [of 4 4] other [of 8 4] other [of 12 4] other [of 18 2] other [of 20 4] other [of 24 4] other [of 32 8]
    by (simp add: load_tensor_def)
qed

text \<open>
  C26. Setting an input by name makes the first entry of its node point to the data of the caller; shape,
  type and every other entry stay. For a name that is no input the call gives no result (the check of
  the index fails).
\<close>
theorem set_input_redirects:
  assumes "graph_shown gt ex" and "\<forall>nid \<in> set (gt_arg_nodes gt). nid < length (gt_nodes gt) \<and> nid < length (gt_node_row_ptr gt)"
    and "length (gt_arg_nodes gt) < 2 ^ 31" and "word_addr (dt_data t)"
    and "0 \<le> ge_data_entry_at ex" and "ge_data_entry_at ex + 48 * int (ge_data_entry_count ex) \<le> 2 ^ 32"
    and "\<forall>nid \<in> set (gt_arg_nodes gt). gt_node_row_ptr gt ! nid < ge_data_entry_count ex"
  shows "case input_of (input_names gt) name of
      None \<Rightarrow> TVMGraphExecutor_SetInput ex name t rt = None
    | Some i \<Rightarrow> \<exists>rt' eid. TVMGraphExecutor_SetInput ex name t rt = Some rt' \<and> eid = gt_node_row_ptr gt ! (gt_arg_nodes gt ! i)
        \<and> load_tensor (rt_ram rt') (entry_at ex eid) = (load_tensor (rt_ram rt) (entry_at ex eid))\<lparr>dt_data := dt_data t\<rparr>
        \<and> (\<forall>e < ge_data_entry_count ex. e \<noteq> eid \<longrightarrow> load_tensor (rt_ram rt') (entry_at ex e) = load_tensor (rt_ram rt) (entry_at ex e))
        \<and> (\<forall>x. x < entry_at ex eid \<or> entry_at ex eid + 4 \<le> x \<longrightarrow> rt_ram rt' x = rt_ram rt x)"
proof (cases "input_of (input_names gt) name")
  case None
  then have "TVMGraphExecutor_GetInputIndex ex name = None"
    using GetInputIndex_spec [OF assms(1) _ assms(3), of name] assms(2) by simp
  then show ?thesis
    using None by (simp add: TVMGraphExecutor_SetInput_def)
next
  case (Some i)
  let ?nid = "gt_arg_nodes gt ! i" and ?eid = "gt_node_row_ptr gt ! (gt_arg_nodes gt ! i)"
  have i: "i < length (gt_arg_nodes gt)"
    using input_of_less [OF Some] by simp
  then have nid: "?nid < length (gt_node_row_ptr gt)" "?eid < ge_data_entry_count ex"
    using assms(2,7) by auto
  have at_e: "entry_at ex e = ge_data_entry_at ex + 48 * int e" if "e < ge_data_entry_count ex" for e
  proof -
    have "48 * int e + 48 \<le> 48 * int (ge_data_entry_count ex)"
      using that by simp
    then have "ge_data_entry_at ex + 48 * int e < 2 ^ 32"
      using assms(6) by linarith
    then show ?thesis
      using assms(5) by (simp add: entry_at_def sizeof_NDArray_def)
  qed
  let ?rt = "rt_store (entry_at ex ?eid) (le_bytes 4 (nat (dt_data t))) rt"
  have "int ?eid < 2 ^ 32"
    using nid(2) assms(5,6) by linarith
  then have "?eid < 2 ^ 32"
    by simp
  then have "TVMGraphExecutor_SetInput ex name t rt = Some ?rt"
    using GetInputIndex_spec [OF assms(1) _ assms(3), of name] assms(1,2) Some i nid(1)
    by (simp add: TVMGraphExecutor_SetInput_def TVMGraphExecutor_GetEntryId_def graph_shown_def item_map)
  moreover have "load_tensor (rt_ram ?rt) (entry_at ex ?eid) = (load_tensor (rt_ram rt) (entry_at ex ?eid))\<lparr>dt_data := dt_data t\<rparr>"
    using load_tensor_data [OF assms(4)] by (simp add: rt_store_def)
  moreover have "load_tensor (rt_ram ?rt) (entry_at ex e) = load_tensor (rt_ram rt) (entry_at ex e)"
    if "e < ge_data_entry_count ex" "e \<noteq> ?eid" for e
  proof (rule load_tensor_cong)
    fix x
    assume "entry_at ex e \<le> x" "x < entry_at ex e + 40"
    then show "rt_ram ?rt x = rt_ram rt x"
      using at_e [OF that(1)] at_e [OF nid(2)] that(2)
      by (cases "e < ?eid") (auto simp: rt_store_def store_bytes_def)
  qed
  moreover have "rt_ram ?rt x = rt_ram rt x" if "x < entry_at ex ?eid \<or> entry_at ex ?eid + 4 \<le> x" for x
    using that by (auto simp: rt_store_def store_bytes_def)
  ultimately show ?thesis
    using Some by auto
qed

lemma set_input_redirects_witness:
  "\<exists>rt'. TVMGraphExecutor_SetInput (small_executor\<lparr>ge_data_entry_at := 8192, ge_data_entry_count := 2\<rparr>) (lit ''x'')
        (zero_tensor\<lparr>dt_data := 12288\<rparr>) graph_runtime = Some rt'
    \<and> load_tensor (rt_ram rt') 8192 = (load_tensor (rt_ram graph_runtime) 8192)\<lparr>dt_data := 12288\<rparr>
    \<and> load_tensor (rt_ram rt') 8240 = load_tensor (rt_ram graph_runtime) 8240"
proof -
  let ?ex = "small_executor\<lparr>ge_data_entry_at := 8192, ge_data_entry_count := 2\<rparr>"
  have shown: "graph_shown small_graph ?ex"
    using small_executor_shown by (simp add: graph_shown_def)
  have g: "gt_arg_nodes small_graph = [0]" "length (gt_nodes small_graph) = 2" "gt_node_row_ptr small_graph = [0, 1, 2]"
    "input_of (input_names small_graph) (lit ''x'') = Some 0"
    by (simp_all add: small_graph_def)
  have at: "entry_at ?ex 0 = 8192" "entry_at ?ex 1 = 8240"
    by (simp_all add: entry_at_def sizeof_NDArray_def)
  have "case input_of (input_names small_graph) (lit ''x'') of
      None \<Rightarrow> TVMGraphExecutor_SetInput ?ex (lit ''x'') (zero_tensor\<lparr>dt_data := 12288\<rparr>) graph_runtime = None
    | Some i \<Rightarrow> \<exists>rt' eid. TVMGraphExecutor_SetInput ?ex (lit ''x'') (zero_tensor\<lparr>dt_data := 12288\<rparr>) graph_runtime = Some rt'
        \<and> eid = gt_node_row_ptr small_graph ! (gt_arg_nodes small_graph ! i)
        \<and> load_tensor (rt_ram rt') (entry_at ?ex eid) = (load_tensor (rt_ram graph_runtime) (entry_at ?ex eid))
            \<lparr>dt_data := dt_data (zero_tensor\<lparr>dt_data := 12288\<rparr>)\<rparr>
        \<and> (\<forall>e < ge_data_entry_count ?ex. e \<noteq> eid \<longrightarrow> load_tensor (rt_ram rt') (entry_at ?ex e) = load_tensor (rt_ram graph_runtime) (entry_at ?ex e))
        \<and> (\<forall>x. x < entry_at ?ex eid \<or> entry_at ?ex eid + 4 \<le> x \<longrightarrow> rt_ram rt' x = rt_ram graph_runtime x)"
    by (rule set_input_redirects [OF shown]) (simp_all add: g word_addr_def)
  then obtain rt' where r: "TVMGraphExecutor_SetInput ?ex (lit ''x'') (zero_tensor\<lparr>dt_data := 12288\<rparr>) graph_runtime = Some rt'"
    "load_tensor (rt_ram rt') 8192 = (load_tensor (rt_ram graph_runtime) 8192)\<lparr>dt_data := 12288\<rparr>"
    "\<forall>e < 2. 0 < e \<longrightarrow> load_tensor (rt_ram rt') (entry_at ?ex e) = load_tensor (rt_ram graph_runtime) (entry_at ?ex e)"
    unfolding g(4) using at(1) by (auto simp: g)
  show ?thesis
    using r(1,2) r(3) [rule_format, of 1] at(2) by (intro exI [of _ rt']) simp
qed

section \<open>Outputs\<close>

lemma tensor_elements:
  assumes "tensor_shape r t = map int ds" and "ds \<noteq> []" and "\<forall>d \<in> set ds. 0 < d" and "prod_list ds < 2 ^ 31" and "dt_ndim t < 2 ^ 32"
  shows "Shape_Accumulate_at r t = prod_list ds"
proof -
  have "length (tensor_shape r t) = length ds"
    using assms(1) by simp
  then have "nat (dt_ndim t) = length ds"
    by (simp add: tensor_shape_def)
  then have "to_size (dt_ndim t) = nat (dt_ndim t)"
    using assms(2,5) by (intro to_size_id) (cases ds; simp)+
  moreover have "Shape_Accumulate_loop (map int ds) 1 = int (prod_list ds)"
    using Shape_Accumulate_loop_exact [of "map int ds" 1] assms(3,4) by (fastforce simp: prod_list_int)
  ultimately show ?thesis
    using assms(1,4) by (simp add: Shape_Accumulate_at_def tensor_shape_def Shape_Accumulate_def to_size_id)
qed

text \<open>
  C25. Asking for an output whose entry has been set up copies exactly the data of the entry to the
  tensor of the caller, when that has the same shape and element size, and changes no other memory.
\<close>
theorem get_output_copies:
  assumes "graph_shown gt ex" and "idx < length (gt_heads gt)" and "ne_node_id (gt_heads gt ! idx) < length (gt_node_row_ptr gt)"
    and "eid = node_entry_id gt (ne_node_id (gt_heads gt ! idx)) (ne_index (gt_heads gt ! idx))"
    and "storable junk gt" and "eid < length (gt_shape gt)" and "gt_shape gt ! eid \<noteq> []"
    and "entry_ready junk gt ex keep (rt_ram rt) dps eid"
    and "unat (bits (entry_type junk gt eid)) = 8 * k" and "lanes (entry_type junk gt eid) = 1"
    and "tensor_shape (rt_ram rt) out = gt_dims gt ! eid" and "dt_ndim out < 2 ^ 31" and "bits (dt_dtype out) = bits (entry_type junk gt eid)"
  shows "\<exists>rt'. TVMGraphExecutor_GetOutput ex (int idx) out rt = Some (0, rt')
    \<and> load_bytes (rt_ram rt') (dt_data out) (entry_size junk gt eid)
        = load_bytes (rt_ram rt) (dps ! (gt_storage_id gt ! eid)) (entry_size junk gt eid)
    \<and> (\<forall>x. x < dt_data out \<or> dt_data out + int (entry_size junk gt eid) \<le> x \<longrightarrow> rt_ram rt' x = rt_ram rt x)"
proof -
  let ?t = "load_tensor (rt_ram rt) (entry_at ex eid)" and ?ds = "gt_shape gt ! eid" and ?p = "dps ! (gt_storage_id gt ! eid)"
  let ?n = "entry_size junk gt eid"
  have t: "dt_data ?t = ?p" "dt_dtype ?t = entry_type junk gt eid" "tensor_shape (rt_ram rt) ?t = map int ?ds"
    using assms(6,8) by (simp_all add: entry_ready_def Let_def)
  have ds: "\<forall>d \<in> set ?ds. 0 < d" "0 < ?n" "?n < 2 ^ 31 - 3"
    using assms(5,6) by (auto simp: storable_def)
  have n: "?n = prod_list ?ds * k"
    using assms(9,10) by (simp add: entry_size_def)
  have "0 < k"
    using ds(2) unfolding n by simp
  then have "prod_list ?ds * 1 \<le> prod_list ?ds * k"
    by (intro mult_le_mono2) simp
  then have p: "prod_list ?ds < 2 ^ 31"
    using ds(3) unfolding n by linarith
  have same: "dt_ndim out = dt_ndim ?t"
  proof -
    have "length (tensor_shape (rt_ram rt) out) = length ?ds" "length (tensor_shape (rt_ram rt) ?t) = length ?ds" "0 < length ?ds"
      using assms(6,7,11) t(3) by simp_all
    then have "nat (dt_ndim out) = length ?ds" "nat (dt_ndim ?t) = length ?ds" "0 < length ?ds"
      by (simp_all add: tensor_shape_def)
    then show ?thesis
      by linarith
  qed
  have count: "Shape_Accumulate_at (rt_ram rt) out = prod_list ?ds" "Shape_Accumulate_at (rt_ram rt) ?t = prod_list ?ds"
    using tensor_elements [OF _ assms(7) ds(1) p] assms(6,11,12) t(3) same by simp_all
  have e: "int (prod_list ?ds) * (uint (bits (dt_dtype out)) div 8) = int ?n"
  proof -
    have "uint (bits (dt_dtype out)) = int (8 * k)"
      unfolding assms(13) using assms(9) by (metis uint_nat)
    then show ?thesis
      by (simp add: n)
  qed
  let ?rt = "rt\<lparr>rt_machine := (rt_machine rt)\<lparr>ram := copy_bytes (rt_ram rt) (dt_data out) ?p ?n\<rparr>\<rparr>"
  have "item (ge_outputs ex) idx = Some (gt_heads gt ! idx)"
    using assms(1,2) by (simp add: graph_shown_def item_map)
  moreover have "TVMGraphExecutor_GetEntryId ex (ne_node_id (gt_heads gt ! idx)) (ne_index (gt_heads gt ! idx)) = Some eid"
    using assms(1,3,4) by (simp add: graph_shown_def item_map TVMGraphExecutor_GetEntryId_def node_entry_id_def)
  ultimately have "TVMGraphExecutor_GetOutput ex (int idx) out rt = Some (0, ?rt)"
    using t same count assms(13) e ds(3) by (simp add: TVMGraphExecutor_GetOutput_def Let_def to_size_id)
  then show ?thesis
    using load_store_same [of "rt_ram rt" "dt_data out" "load_bytes (rt_ram rt) ?p ?n"]
      store_bytes_outside [of _ "dt_data out" "load_bytes (rt_ram rt) ?p ?n" "rt_ram rt"]
    by (intro exI [of _ ?rt]) (auto simp: copy_bytes_def)
qed

text \<open>The storage of the small graph is set up, and its output read.\<close>

lemma get_output_copies_witness:
  "\<exists>ex rt dps out rt'. TVMGraphExecutor_SetupStorage bare_image blank_junk small_executor graph_runtime = Some (0, ex, rt)
    \<and> TVMGraphExecutor_GetOutput ex (int 0) (out\<lparr>dt_data := 90000\<rparr>) rt = Some (0, rt')
    \<and> load_bytes (rt_ram rt') 90000 40 = load_bytes (rt_ram rt) (dps ! 1) 40"
proof -
  have c: "sj_code blank_junk = (\<lambda>_. 0)" "last (gt_node_row_ptr small_graph) = 2"
    by (simp_all add: blank_junk_def small_graph_def)
  have o: "owns 256 (storage_pages 256 (sj_code blank_junk) small_graph + 290) Map.empty (rt_machine graph_runtime)"
    using graph_runtime_owns [of 0] by (simp add: small_storage)
  have look: "find_lookup (sj_lookup blank_junk) small_executor graph_runtime = Some (None, graph_runtime)"
    by (rule find_lookup_none [OF graph_module])
      (simp_all add: lit_def blank_junk_def null_op_def zero_args_def TVM_CRT_MAX_ARGS_def)
  have d: "ge_storage_pool_count small_executor = 0" "i32_ok (device_type (ge_device small_executor))"
    "i32_ok (device_id (ge_device small_executor))"
    by (simp_all add: small_executor_def blank_executor_def i32_ok_def)
  obtain sa n da rt keep dps where r: "TVMGraphExecutor_SetupStorage bare_image blank_junk small_executor graph_runtime
      = Some (0, small_executor\<lparr>ge_storage_pool_at := sa, ge_storage_pool_count := n, ge_data_entry_count := 2, ge_data_entry_at := da\<rparr>, rt)"
    "\<And>i. i < 2 \<Longrightarrow> entry_ready (\<lambda>_. 0) small_graph (small_executor\<lparr>ge_storage_pool_at := sa, ge_storage_pool_count := n,
        ge_data_entry_count := 2, ge_data_entry_at := da\<rparr>) keep (rt_ram rt) dps i"
    using storage_ready [OF look small_graph_ok small_executor_shown small_plan(3) d o, of bare_image]
    unfolding c by blast
  let ?ex = "small_executor\<lparr>ge_storage_pool_at := sa, ge_storage_pool_count := n, ge_data_entry_count := 2, ge_data_entry_at := da\<rparr>"
  let ?t = "load_tensor (rt_ram rt) (entry_at ?ex 1)"
  have shown: "graph_shown small_graph ?ex"
    using small_executor_shown by (simp add: graph_shown_def)
  have ready: "entry_ready (\<lambda>_. 0) small_graph ?ex keep (rt_ram rt) dps 1"
    using r(2) by simp
  have ty: "entry_type (\<lambda>_. 0) small_graph 1 = f32"
    by (simp add: entry_type_def small_graph_def float_type)
  have g: "gt_heads small_graph ! 0 = \<lparr>ne_node_id = 1, ne_index = 0, ne_version = 0\<rparr>" "gt_node_row_ptr small_graph = [0, 1, 2]"
    "gt_shape small_graph = [[1, 10], [1, 10]]" "gt_storage_id small_graph ! 1 = 1" "length (gt_heads small_graph) = 1"
    by (simp_all add: small_graph_def)
  have shape: "tensor_shape (rt_ram rt) ?t = gt_dims small_graph ! 1" "dt_dtype ?t = f32"
    using ready by (simp_all add: entry_ready_def Let_def ty del: One_nat_def)
  have "length (tensor_shape (rt_ram rt) ?t) = 2"
    unfolding shape by (simp add: g)
  then have nd: "dt_ndim ?t < 2 ^ 31"
    by (simp add: tensor_shape_def)
  have sz: "entry_size (\<lambda>_. 0) small_graph 1 = 40"
    unfolding entry_size_def ty by (simp add: g f32_def)
  have "\<exists>rt'. TVMGraphExecutor_GetOutput ?ex (int 0) (?t\<lparr>dt_data := 90000\<rparr>) rt = Some (0, rt')
    \<and> load_bytes (rt_ram rt') (dt_data (?t\<lparr>dt_data := 90000\<rparr>)) (entry_size (\<lambda>_. 0) small_graph 1)
        = load_bytes (rt_ram rt) (dps ! (gt_storage_id small_graph ! 1)) (entry_size (\<lambda>_. 0) small_graph 1)
    \<and> (\<forall>x. x < dt_data (?t\<lparr>dt_data := 90000\<rparr>) \<or> dt_data (?t\<lparr>dt_data := 90000\<rparr>) + int (entry_size (\<lambda>_. 0) small_graph 1) \<le> x
        \<longrightarrow> rt_ram rt' x = rt_ram rt x)"
    by (rule get_output_copies [OF shown _ _ _ small_plan(3) _ _ ready, of 0 4])
      (use shape nd g in \<open>simp_all add: ty f32_def node_entry_id_def tensor_shape_def del: One_nat_def\<close>)
  then obtain rt' where "TVMGraphExecutor_GetOutput ?ex (int 0) (?t\<lparr>dt_data := 90000\<rparr>) rt = Some (0, rt')"
    "load_bytes (rt_ram rt') 90000 40 = load_bytes (rt_ram rt) (dps ! 1) 40"
    unfolding sz g(4) by auto
  then show ?thesis
    using r(1) by (intro exI [of _ ?ex] exI [of _ rt] exI [of _ dps] exI [of _ ?t] exI [of _ rt']) simp
qed

section \<open>Parameters\<close>

text \<open>
  A parameter for the first input stops the program when it is loaded: the test that the input
  exists takes its index 0 for a failure. The same happens for a name that is no input.
\<close>
lemma first_input_parameter_stops:
  assumes "graph_shown gt ex" and "\<forall>nid \<in> set (gt_arg_nodes gt). nid < length (gt_nodes gt)" and "length (gt_arg_nodes gt) < 2 ^ 31"
    and "c_string (rt_ram rt) (names + int (TVM_CRT_MAX_STRLEN_PARAM_NAME * idx)) = Some (name @ [0])"
    and "input_of (input_names gt) name \<in> {None, Some 0}"
  shows "LoadParams_one ex names idx status bptr rt = None"
  using assms GetInputIndex_spec [OF assms(1-3), of name]
  by (auto simp: LoadParams_one_def CHECK_def)

section \<open>Operators that cannot be made\<close>

lemma op_outputs_overflow:
  "length args \<le> 10 \<Longrightarrow> 10 < length args + n \<Longrightarrow> op_outputs ex nid idx n args = None"
proof (induction n arbitrary: idx args)
  case (Suc n)
  have "op_outputs ex nid (Suc idx) n (args @ [a]) = None" if "length args < 10" for a
    by (rule Suc.IH) (use Suc.prems that in simp_all)
  then show ?case
    by (auto simp: bind_eq_None_conv CHECK_def TVM_CRT_MAX_ARGS_def)
qed simp

text \<open>
  Nobody notices that the function of an operator is not in the module: the set-up of the node
  succeeds, and its operator is whatever was on the stack. An operator with ten arguments is refused,
  and one with more has written behind the array of ten before it is.
\<close>
lemma bad_operator_set_up:
  assumes "graph_shown gt ex" and "nid < length (gt_nodes gt)" and "nt_op (gt_nodes gt ! nid) = lit ''tvm_op''"
    and "nt_param (gt_nodes gt ! nid) = Some p" and "op_flatten_data p = 0" and "cname (op_func_name p)"
    and "\<forall>e \<in> set (nt_inputs (gt_nodes gt ! nid)). ne_node_id e < length (gt_node_row_ptr gt)"
    and "nid < length (gt_node_row_ptr gt)" and "length (nt_inputs (gt_nodes gt ! nid)) \<le> 10"
    and "module_has rt (ge_module_handle ex) fs reg" and "op_func_name p \<notin> fst ` set fs"
    and "n = length (nt_inputs (gt_nodes gt ! nid)) + op_num_outputs p"
  shows "setup_op junk ex nid rt = (if n < 10 then Some (Some (junk nid), rt) else if n = 10 then Some (None, rt) else None)"
proof -
  let ?n = "gt_nodes gt ! nid"
  obtain xs where xs: "ge_nodes ex = map Some xs" "list_all2 node_shown (gt_nodes gt) xs" "ge_node_row_ptr ex = map Some (gt_node_row_ptr gt)"
    using assms(1) by (auto simp: graph_shown_def)
  let ?x = "xs ! nid"
  have x: "node_shown ?n ?x" "nid < length xs"
    using xs(2) assms(2) by (auto simp: list_all2_conv_all_nth)
  let ?ins = "map (\<lambda>e. entry_at ex (node_entry_id gt (ne_node_id e) (ne_index e))) (nt_inputs ?n)"
  have ins: "op_inputs ex ?x 0 (length (nt_inputs ?n)) [] = Some ?ins"
    using op_inputs_spec [OF xs(3), of ?x "nt_inputs ?n" 0 "length (nt_inputs ?n)" "[]"] x(1) assms(7,9) by (simp add: node_shown_def)
  have start: "setup_op junk ex nid rt = do {
      args \<leftarrow> op_outputs ex nid 0 (op_num_outputs p) ?ins;
      if length args \<ge> 10 then Some (None, rt)
      else do { (_, pf, rt) \<leftarrow> TVMGraphExecutor_CreateTVMOp ex p args (junk nid) rt; Some (Some pf, rt) }
    }"
    using xs(1) x assms(3,4) ins
    by (simp add: setup_op_def item_map node_shown_def TVM_CRT_MAX_ARGS_def lit_def del: op_inputs.simps op_outputs.simps)
  show ?thesis
  proof (cases "n \<le> 10")
    case False
    then show ?thesis
      using start op_outputs_overflow [of ?ins "op_num_outputs p" ex nid 0] assms(9,12) by simp
  next
    case True
    let ?as = "node_tensors gt ex nid"
    have outs: "op_outputs ex nid 0 (op_num_outputs p) ?ins = Some ?as" and len: "length ?as = n"
      using op_outputs_spec [OF xs(3) assms(8), of ?ins "op_num_outputs p" 0] assms(4,12) True by (simp_all add: node_tensors_def Let_def)
    obtain i where i: "mr_rep reg fs" "length (registered_modules rt) = 6" "i < 6" "ge_module_handle ex = EncodeModuleHandle (of_nat i)"
      "registered_modules rt ! i = Some (mr_registry reg)"
      using assms(10) by (auto simp: module_has_def)
    have "TVMModGetFunction (ge_module_handle ex) (op_func_name p @ [0]) False rt
        = Some (tvm_crt_error_code kTvmErrorFunctionNameNotFound, None, rt)"
      using Lookup_ok(2) [OF i(1) assms(6,11), of "[]"] i(2,3,5) small_index(1) [OF i(3)] DecodeModuleHandle_ok [OF i(2,3,5)]
      by (simp add: TVMModGetFunction_def FindFunctionOrSetAPIError_def arr_get_def i(4))
    then have "TVMGraphExecutor_CreateTVMOp ex p ?as (junk nid) rt = Some (tvm_crt_error_code kTvmErrorFunctionNameNotFound, junk nid, rt)"
      if "n < 10"
      using TVMArgs_Create_exact [of "map (\<lambda>a. set_handle 0 (of_int a)) ?as" "replicate (length ?as) kTVMNDArrayHandle"] len assms(5) that
      by (simp add: TVMGraphExecutor_CreateTVMOp_def TVM_CRT_MAX_ARGS_def TVMPackedFunc_InitModuleFunc_def)
    then show ?thesis
      using start outs len True by auto
  qed
qed

text \<open>The small executor with a module that has no operator.\<close>

definition empty_registry :: mutable_func_registry where
  "empty_registry = \<lparr>mr_buffer = [0, 0, 0, 9, 9, 0, 0, 0, 0], mr_funcs = 5, mr_max_functions = 1\<rparr>"

end
