(* ===== verification/Arena.thy ===== *)
theory Arena
  imports Runtime_Api Owned_Blocks
begin

text \<open>
  \<^verbatim>\<open>GenericArena\<close> of \<^verbatim>\<open>support/generic_arena.h\<close> over the page allocator of
  \<^verbatim>\<open>minrpc/minrpc_server.h\<close>: the memory in which the server keeps the arguments of one request.
\<close>

section \<open>The code\<close>

text \<open>\<^verbatim>\<open>ArenaPageHeader\<close>: three words at the start of a page, the next page, the size and the offset.\<close>

definition load_word :: "ram \<Rightarrow> addr \<Rightarrow> nat" where
  "load_word r a = le_value (load_bytes r a 4)"

definition mstore :: "addr \<Rightarrow> u8 list \<Rightarrow> machine \<Rightarrow> machine" where
  "mstore a bs m = m\<lparr>ram := store_bytes (ram m) a bs\<rparr>"

definition sizeof_ArenaPageHeader :: nat where "sizeof_ArenaPageHeader = 12"

definition page_next :: "machine \<Rightarrow> addr \<Rightarrow> addr" where "page_next m p = int (load_word (ram m) p)"
definition page_bytes :: "machine \<Rightarrow> addr \<Rightarrow> nat" where "page_bytes m p = load_word (ram m) (p + 4)"
definition page_offset :: "machine \<Rightarrow> addr \<Rightarrow> nat" where "page_offset m p = load_word (ram m) (p + 8)"

definition set_next :: "addr \<Rightarrow> addr \<Rightarrow> machine \<Rightarrow> machine" where "set_next p q = mstore p (le_bytes 4 (nat q))"
definition set_size :: "addr \<Rightarrow> nat \<Rightarrow> machine \<Rightarrow> machine" where "set_size p n = mstore (p + 4) (le_bytes 4 n)"
definition set_offset :: "addr \<Rightarrow> nat \<Rightarrow> machine \<Rightarrow> machine" where "set_offset p n = mstore (p + 8) (le_bytes 4 n)"

definition kPageSize :: nat where "kPageSize = 2048"
definition kPageAlign :: nat where "kPageAlign = 8"

text \<open>The page allocator of the server. \<^verbatim>\<open>Exit\<close> does not return.\<close>

definition PageAllocator_allocate :: "machine \<Rightarrow> nat \<Rightarrow> (addr \<times> machine) option" where
  "PageAllocator_allocate m min_size = do {
     let npages = (min_size + kPageSize - 1) mod 2 ^ 32 div kPageSize;
     (err, data, m) \<leftarrow> TVMDeviceAllocDataSpace m (npages * kPageSize mod 2 ^ 32) kPageAlign;
     CHECK (err = 0);
     let m = set_size data (npages * kPageSize mod 2 ^ 32) m;
     let m = set_offset data sizeof_ArenaPageHeader m;
     Some (data, m)
   }"

definition PageAllocator_deallocate :: "machine \<Rightarrow> addr \<Rightarrow> machine option" where
  "PageAllocator_deallocate m p = do {
     (err, m) \<leftarrow> TVMDeviceFreeDataSpace m p;
     CHECK (err = 0);
     Some m
   }"

record arena =
  arena_head :: addr
  arena_tail :: addr
  arena_free_list :: addr

text \<open>The constructor allocates the first page.\<close>

definition GenericArena :: "machine \<Rightarrow> (arena \<times> machine) option" where
  "GenericArena m = do {
     (p, m) \<leftarrow> PageAllocator_allocate m 1;
     Some (\<lparr>arena_head = p, arena_tail = p, arena_free_list = 0\<rparr>, set_next p 0 m)
   }"

partial_function (option) FreePageList :: "addr \<Rightarrow> machine \<Rightarrow> machine option" where
  "FreePageList p m =
     (if p = 0 then Some m
      else do {
        let temp = p;
        let p = page_next m p;
        m \<leftarrow> PageAllocator_deallocate m temp;
        FreePageList p m
      })"

definition Arena_FreeAll :: "arena \<Rightarrow> machine \<Rightarrow> (arena \<times> machine) option" where
  "Arena_FreeAll ar m = do {
     m \<leftarrow> FreePageList (arena_head ar) m;
     m \<leftarrow> FreePageList (arena_free_list ar) m;
     Some (ar\<lparr>arena_head := 0, arena_free_list := 0\<rparr>, m)
   }"

definition Arena_RecycleAll :: "arena \<Rightarrow> machine \<Rightarrow> arena \<times> machine" where
  "Arena_RecycleAll ar m =
     (let m = set_next (arena_tail ar) (arena_free_list ar) m;
          ar = ar\<lparr>arena_free_list := page_next m (arena_head ar)\<rparr>;
          m = set_next (arena_head ar) 0 m;
          m = set_offset (arena_head ar) sizeof_ArenaPageHeader m
      in (ar\<lparr>arena_tail := arena_head ar\<rparr>, m))"

definition UpperAlign :: "nat \<Rightarrow> nat \<Rightarrow> nat" where
  "UpperAlign offset align = (offset + (align - offset mod align) mod align) mod 2 ^ 32"

definition Arena_Alloc :: "arena \<Rightarrow> nat \<Rightarrow> nat \<Rightarrow> machine \<Rightarrow> (addr \<times> arena \<times> machine) option" where
  "Arena_Alloc ar n align m =
     (let offset = UpperAlign (page_offset m (arena_head ar)) align
      in if (offset + n) mod 2 ^ 32 \<le> page_bytes m (arena_head ar)
         then Some (arena_head ar + int offset, ar, set_offset (arena_head ar) ((offset + n) mod 2 ^ 32) m)
         else do {
           let offset = UpperAlign sizeof_ArenaPageHeader align;
           (new_head, ar, m) \<leftarrow>
             (if arena_free_list ar \<noteq> 0 \<and> (offset + n) mod 2 ^ 32 \<le> page_bytes m (arena_free_list ar)
              then Some (arena_free_list ar, ar\<lparr>arena_free_list := page_next m (arena_free_list ar)\<rparr>, m)
              else do {
                (p, m) \<leftarrow> PageAllocator_allocate m ((offset + n) mod 2 ^ 32);
                Some (p, ar, m)
              });
           let m = set_next new_head (arena_head ar) m;
           let m = set_offset new_head ((offset + n) mod 2 ^ 32) m;
           Some (new_head + int offset, ar\<lparr>arena_head := new_head\<rparr>, m)
         })"

text \<open>\<^verbatim>\<open>allocate_<T>(count)\<close> for a type of \<open>elt\<close> bytes; the \<^verbatim>\<open>int\<close> count becomes a \<^verbatim>\<open>size_t\<close>.\<close>

definition Arena_allocate :: "arena \<Rightarrow> nat \<Rightarrow> nat \<Rightarrow> int \<Rightarrow> machine \<Rightarrow> (addr \<times> arena \<times> machine) option" where
  "Arena_allocate ar elt align count m = Arena_Alloc ar (to_size (int elt * count)) align m"

end
