(* ===== verification/Rpc_Channel.thy ===== *)
theory Rpc_Channel
  imports Session Arena
begin

text \<open>
  The channel of the RPC server: \<^verbatim>\<open>MicroIOHandler\<close> of \<^verbatim>\<open>microtvm_rpc_server/rpc_server.cc\<close>
  between \<^verbatim>\<open>MinRPCServer\<close> and the session, and the reading and writing primitives of
  \<^verbatim>\<open>minrpc/minrpc_server.h\<close> on it. A request is read out of the receive buffer of the session; a reply
  is one message of the session.
\<close>

section \<open>Codes\<close>

text \<open>A code comes off the wire, so it is any \<^verbatim>\<open>int\<close>.\<close>

type_synonym rpc_code = int

definition kNone :: rpc_code where "kNone = 0"
definition kShutdown :: rpc_code where "kShutdown = 1"
definition kInitServer :: rpc_code where "kInitServer = 2"
definition kCallFunc :: rpc_code where "kCallFunc = 3"
definition kReturn :: rpc_code where "kReturn = 4"
definition kException :: rpc_code where "kException = 5"
definition kCopyFromRemote :: rpc_code where "kCopyFromRemote = 6"
definition kCopyToRemote :: rpc_code where "kCopyToRemote = 7"
definition kCopyAck :: rpc_code where "kCopyAck = 8"
definition kSyscallCodeStart :: rpc_code where "kSyscallCodeStart = 9"
definition kGetGlobalFunc :: rpc_code where "kGetGlobalFunc = 9"
definition kFreeHandle :: rpc_code where "kFreeHandle = 10"
definition kDevSetDevice :: rpc_code where "kDevSetDevice = 11"
definition kDevGetAttr :: rpc_code where "kDevGetAttr = 12"
definition kDevAllocData :: rpc_code where "kDevAllocData = 13"
definition kDevFreeData :: rpc_code where "kDevFreeData = 14"
definition kDevStreamSync :: rpc_code where "kDevStreamSync = 15"
definition kCopyAmongRemote :: rpc_code where "kCopyAmongRemote = 16"
definition kDevAllocDataWithScope :: rpc_code where "kDevAllocDataWithScope = 17"
definition kDevCreateStream :: rpc_code where "kDevCreateStream = 18"
definition kDevFreeStream :: rpc_code where "kDevFreeStream = 19"
definition kDevSetStream :: rpc_code where "kDevSetStream = 20"

lemmas rpc_code_defs =
  kNone_def kShutdown_def kInitServer_def kCallFunc_def kReturn_def kException_def kCopyFromRemote_def
  kCopyToRemote_def kCopyAck_def kSyscallCodeStart_def kGetGlobalFunc_def kFreeHandle_def kDevSetDevice_def
  kDevGetAttr_def kDevAllocData_def kDevFreeData_def kDevStreamSync_def kCopyAmongRemote_def
  kDevAllocDataWithScope_def kDevCreateStream_def kDevFreeStream_def kDevSetStream_def

datatype rpc_server_status =
    kSuccess
  | kInvalidTypeCodeObject
  | kInvalidTypeCodeNDArray
  | kInvalidDLTensorFieldStride
  | kInvalidDLTensorFieldByteOffset
  | kUnknownTypeCode
  | kUnknownRPCCode
  | kRPCCodeNotSupported
  | kUnknownRPCSyscall
  | kCheckError
  | kReadError
  | kWriteError
  | kAllocError

section \<open>The state\<close>

text \<open>
  The server hangs on the session: the context of the message callback is the runtime, the arena and
  the two flags, and the session has the framer, the stream and the receive buffer.
\<close>

record rpc_server =
  rpc_runtime :: runtime
  rpc_arena :: arena
  allow_clean_shutdown :: bool
  is_running :: bool

type_synonym 's server = "('s, rpc_server) session"

abbreviation srv_runtime :: "'s server \<Rightarrow> runtime" where
  "srv_runtime ss \<equiv> rpc_runtime (callback_context ss)"

abbreviation srv_machine :: "'s server \<Rightarrow> machine" where
  "srv_machine ss \<equiv> rt_machine (srv_runtime ss)"

definition set_runtime :: "runtime \<Rightarrow> 's server \<Rightarrow> 's server" where
  "set_runtime rt ss = ss\<lparr>callback_context := (callback_context ss)\<lparr>rpc_runtime := rt\<rparr>\<rparr>"

definition set_machine :: "machine \<Rightarrow> 's server \<Rightarrow> 's server" where
  "set_machine m ss = set_runtime ((srv_runtime ss)\<lparr>rt_machine := m\<rparr>) ss"

definition set_arena :: "arena \<Rightarrow> 's server \<Rightarrow> 's server" where
  "set_arena ar ss = ss\<lparr>callback_context := (callback_context ss)\<lparr>rpc_arena := ar\<rparr>\<rparr>"

definition set_flags :: "bool \<Rightarrow> 's server \<Rightarrow> 's server" where
  "set_flags b ss = ss\<lparr>callback_context := (callback_context ss)\<lparr>allow_clean_shutdown := b\<rparr>\<rparr>"

text \<open>A store to the memory of the device.\<close>

definition srv_store :: "addr \<Rightarrow> u8 list \<Rightarrow> 's server \<Rightarrow> 's server" where
  "srv_store a bs ss = set_machine (mstore a bs (srv_machine ss)) ss"

section \<open>The handler\<close>

definition MicroIOHandler_MessageStart :: "'s stream_write \<Rightarrow> nat \<Rightarrow> 's server \<Rightarrow> 's server option" where
  "MicroIOHandler_MessageStart wr message_size_bytes ss = do {
     (_, ss) \<leftarrow> Session_StartMessage wr ss kNormal ((message_size_bytes + 8) mod 2 ^ 32);
     Some ss
   }"

text \<open>A framing error is a positive code, so it is reported as a complete write.\<close>

definition MicroIOHandler_PosixWrite :: "'s stream_write \<Rightarrow> u8 list \<Rightarrow> 's server \<Rightarrow> (int \<times> 's server) option" where
  "MicroIOHandler_PosixWrite wr buf ss = do {
     (to_return, ss) \<leftarrow> Session_SendBodyChunk wr ss buf;
     if tvm_crt_error_code to_return < 0 then Some (tvm_crt_error_code to_return, ss)
     else Some (sint (of_nat (length buf) :: u32), ss)
   }"

definition MicroIOHandler_MessageDone :: "'s stream_write \<Rightarrow> 's server \<Rightarrow> 's server option" where
  "MicroIOHandler_MessageDone wr ss = do {
     (e, ss) \<leftarrow> Session_FinishMessage wr ss;
     CHECK (e = kTvmErrorNoError);
     Some ss
   }"

text \<open>The bytes that were read; their number is the result of the code.\<close>

definition MicroIOHandler_PosixRead :: "nat \<Rightarrow> 's server \<Rightarrow> (u8 list \<times> 's server) option" where
  "MicroIOHandler_PosixRead buf_size_bytes ss = do {
     (buf, fb) \<leftarrow> FrameBuffer_Read (receive_buffer ss) buf_size_bytes;
     Some (buf, ss\<lparr>receive_buffer := fb\<rparr>)
   }"

definition MicroIOHandler_Close :: "'s server \<Rightarrow> 's server" where
  "MicroIOHandler_Close ss = ss"

text \<open>An endless loop.\<close>

definition MicroIOHandler_Exit :: "rpc_server_status \<Rightarrow> 'a option" where
  "MicroIOHandler_Exit status = None"

text \<open>\<^verbatim>\<open>ThrowError\<close> of \<^verbatim>\<open>MinRPCReturns\<close>, \<^verbatim>\<open>MinRPCExecute\<close> and \<^verbatim>\<open>MinRPCServer\<close>, and
  \<^verbatim>\<open>MINRPC_CHECK\<close>.\<close>

definition ThrowError :: "rpc_server_status \<Rightarrow> 'a option" where
  "ThrowError status = MicroIOHandler_Exit status"

definition MINRPC_CHECK :: "bool \<Rightarrow> unit option" where
  "MINRPC_CHECK cond = (if \<not> cond then ThrowError kCheckError else Some ())"

lemma ThrowError_None [simp]: "ThrowError st = None" "MicroIOHandler_Exit st = None"
  by (simp_all add: ThrowError_def MicroIOHandler_Exit_def)

lemma MINRPC_CHECK_simps [simp]: "MINRPC_CHECK True = Some ()" "MINRPC_CHECK False = None"
  by (simp_all add: MINRPC_CHECK_def)

section \<open>Writing a reply\<close>

function MinRPCReturns_WriteRawBytes :: "'s stream_write \<Rightarrow> u8 list \<Rightarrow> 's server \<Rightarrow> 's server option" where
  "MinRPCReturns_WriteRawBytes wr data ss =
     (if data = [] then Some ss
      else do {
        (ret, ss) \<leftarrow> MicroIOHandler_PosixWrite wr data ss;
        if ret \<le> 0 then ThrowError kWriteError
        else MinRPCReturns_WriteRawBytes wr (drop (nat ret) data) ss
      })"
  by auto
termination
  by (relation "measure (\<lambda>(_, data, _). length data)") auto

declare MinRPCReturns_WriteRawBytes.simps [simp del]

fun write_chunks :: "'s stream_write \<Rightarrow> u8 list list \<Rightarrow> 's server \<Rightarrow> 's server option" where
  "write_chunks wr [] ss = Some ss"
| "write_chunks wr (c # cs) ss = do { ss \<leftarrow> MinRPCReturns_WriteRawBytes wr c ss; write_chunks wr cs ss }"

text \<open>
  A reply: the message of the given size is started, its parts are written one by one, the size first,
  and it is finished. The size is an \<^verbatim>\<open>uint64_t\<close> and becomes a \<^verbatim>\<open>size_t\<close> at the handler.
\<close>

definition send_reply :: "'s stream_write \<Rightarrow> nat \<Rightarrow> u8 list list \<Rightarrow> 's server \<Rightarrow> 's server option" where
  "send_reply wr packet_nbytes parts ss = do {
     ss \<leftarrow> MicroIOHandler_MessageStart wr (packet_nbytes mod 2 ^ 32) ss;
     ss \<leftarrow> write_chunks wr (le_bytes 8 packet_nbytes # parts) ss;
     MicroIOHandler_MessageDone wr ss
   }"

section \<open>Reading a request\<close>

definition MinRPCServer_Shutdown :: "'s server \<Rightarrow> 's server option" where
  "MinRPCServer_Shutdown ss = do {
     (ar, m) \<leftarrow> Arena_FreeAll (rpc_arena (callback_context ss)) (srv_machine ss);
     Some (MicroIOHandler_Close (set_arena ar (set_machine m ss)))
   }"

function MinRPCServer_ReadRawBytes :: "nat \<Rightarrow> 's server \<Rightarrow> (u8 list \<times> 's server) option" where
  "MinRPCServer_ReadRawBytes size_bytes ss =
     (if size_bytes = 0 then Some ([], ss)
      else do {
        (buf, ss) \<leftarrow> MicroIOHandler_PosixRead size_bytes ss;
        if buf = []
        then (if allow_clean_shutdown (callback_context ss)
              then do { ss \<leftarrow> MinRPCServer_Shutdown ss; MicroIOHandler_Exit kSuccess }
              else ThrowError kReadError)
        else do {
          (rest, ss) \<leftarrow> MinRPCServer_ReadRawBytes (size_bytes - length buf) ss;
          Some (buf @ rest, ss)
        }
      })"
  by auto
termination
  by (relation "measure (\<lambda>(n, _). n)") auto

declare MinRPCServer_ReadRawBytes.simps [simp del]

text \<open>\<^verbatim>\<open>Read\<close> into a variable, and \<^verbatim>\<open>ReadArray\<close> into memory, \<open>count\<close> elements of \<open>elt\<close> bytes.\<close>

definition read_nat :: "nat \<Rightarrow> 's server \<Rightarrow> (nat \<times> 's server) option" where
  "read_nat n ss = do { (bs, ss) \<leftarrow> MinRPCServer_ReadRawBytes n ss; Some (le_value bs, ss) }"

definition read_int :: "'s server \<Rightarrow> (int \<times> 's server) option" where
  "read_int ss = do { (bs, ss) \<leftarrow> MinRPCServer_ReadRawBytes 4 ss; Some (i32_value bs, ss) }"

definition ReadArray :: "addr \<Rightarrow> nat \<Rightarrow> int \<Rightarrow> 's server \<Rightarrow> 's server option" where
  "ReadArray a elt count ss = do {
     (bs, ss) \<leftarrow> MinRPCServer_ReadRawBytes (to_size (int elt * count)) ss;
     Some (srv_store a bs ss)
   }"

definition ArenaAlloc :: "nat \<Rightarrow> nat \<Rightarrow> int \<Rightarrow> 's server \<Rightarrow> (addr \<times> 's server) option" where
  "ArenaAlloc elt align count ss = do {
     (a, ar, m) \<leftarrow> Arena_allocate (rpc_arena (callback_context ss)) elt align (to_i32 count) (srv_machine ss);
     Some (a, set_arena ar (set_machine m ss))
   }"

text \<open>The reads of \<^verbatim>\<open>MinRPCExecute\<close> report the end of the data instead of stopping.\<close>

function MinRPCExecute_ReadRawBytes :: "addr \<Rightarrow> nat \<Rightarrow> 's server \<Rightarrow> (int \<times> 's server) option" where
  "MinRPCExecute_ReadRawBytes data size_bytes ss =
     (if size_bytes = 0 then Some (1, ss)
      else do {
        (buf, ss) \<leftarrow> MicroIOHandler_PosixRead size_bytes ss;
        if buf = [] then Some (0, ss)
        else MinRPCExecute_ReadRawBytes (data + int (length buf)) (size_bytes - length buf) (srv_store data buf ss)
      })"
  by auto
termination
  by (relation "measure (\<lambda>(_, n, _). n)") auto

declare MinRPCExecute_ReadRawBytes.simps [simp del]

end
