(* ===== verification/Rpc_Reference.thy ===== *)
theory Rpc_Reference
  imports Rpc_Channel
begin

text \<open>
  \<^verbatim>\<open>RPCReference\<close> of \<^verbatim>\<open>minrpc/rpc_reference.h\<close>: how a sequence of argument values is laid out in
  a packet, and how the server takes one apart into its arena.
\<close>

section \<open>Names\<close>

definition RPCCodeToString :: "rpc_code \<Rightarrow> string" where
  "RPCCodeToString c =
     (if c = kShutdown then ''kShutdown'' else if c = kInitServer then ''kInitServer''
      else if c = kCallFunc then ''kCallFunc'' else if c = kReturn then ''kReturn''
      else if c = kException then ''kException'' else if c = kCopyFromRemote then ''kCopyFromRemote''
      else if c = kCopyToRemote then ''kCopyToRemote'' else if c = kCopyAck then ''kCopyAck''
      else if c = kGetGlobalFunc then ''kGetGlobalFunc'' else if c = kFreeHandle then ''kFreeHandle''
      else if c = kDevSetDevice then ''kDevSetDevice'' else if c = kDevGetAttr then ''kDevGetAttr''
      else if c = kDevAllocData then ''kDevAllocData'' else if c = kDevFreeData then ''kDevFreeData''
      else if c = kDevCreateStream then ''kDevCreateStream'' else if c = kDevFreeStream then ''kDevFreeStream''
      else if c = kDevStreamSync then ''kDevStreamSync'' else if c = kDevSetStream then ''kDevSetStream''
      else if c = kCopyAmongRemote then ''kCopyAmongRemote''
      else if c = kDevAllocDataWithScope then ''kDevAllocDataWithScope'' else '''')"

fun RPCServerStatusToString :: "rpc_server_status \<Rightarrow> string" where
  "RPCServerStatusToString kSuccess = ''kSuccess''"
| "RPCServerStatusToString kInvalidTypeCodeObject = ''kInvalidTypeCodeObject''"
| "RPCServerStatusToString kInvalidTypeCodeNDArray = ''kInvalidTypeCodeNDArray''"
| "RPCServerStatusToString kInvalidDLTensorFieldStride = ''kInvalidDLTensorFieldStride''"
| "RPCServerStatusToString kInvalidDLTensorFieldByteOffset = ''kInvalidDLTensorFieldByteOffset''"
| "RPCServerStatusToString kUnknownTypeCode = ''kUnknownTypeCode''"
| "RPCServerStatusToString kUnknownRPCCode = ''kUnknownRPCCode''"
| "RPCServerStatusToString kRPCCodeNotSupported = ''RPCCodeNotSupported''"
| "RPCServerStatusToString kUnknownRPCSyscall = ''kUnknownRPCSyscall''"
| "RPCServerStatusToString kCheckError = ''kCheckError''"
| "RPCServerStatusToString kReadError = ''kReadError''"
| "RPCServerStatusToString kWriteError = ''kWriteError''"
| "RPCServerStatusToString kAllocError = ''kAllocError''"

section \<open>Sending\<close>

definition kTVMDataType :: int where "kTVMDataType = 5"
definition kDLDevice :: int where "kDLDevice = 6"

lemmas arg_code_defs =
  kTVMArgInt_def kTVMOpaqueHandle_def kTVMNullptr_def kTVMDataType_def kDLDevice_def kTVMDLTensorHandle_def
  kTVMModuleHandle_def kTVMPackedFuncHandle_def kTVMStr_def kTVMBytes_def kTVMNDArrayHandle_def
  kDLInt_def kDLUInt_def kDLFloat_def

partial_function (option) StrLength_loop :: "ram \<Rightarrow> addr \<Rightarrow> nat \<Rightarrow> nat option" where
  "StrLength_loop r s n = (if r (s + int n) = 0 then Some n else StrLength_loop r s (n + 1))"

definition StrLength :: "ram \<Rightarrow> addr \<Rightarrow> nat option" where
  "StrLength r s = StrLength_loop r s 0"

text \<open>
  A pointer as an \<^verbatim>\<open>uint64_t\<close>. What the wider integer holds is left to the compiler; GCC, which
  builds this target, extends the sign of the pointer.
\<close>

definition pointer_u64 :: "u32 \<Rightarrow> nat" where
  "pointer_u64 p = unat (scast p :: u64)"

definition device_bytes :: "dl_device \<Rightarrow> u8 list" where
  "device_bytes dev = i32_bytes (device_type dev) @ i32_bytes (device_id dev)"

definition data_type_bytes :: "dl_data_type \<Rightarrow> u8 list" where
  "data_type_bytes t = [code t, bits t] @ le_bytes 2 (unat (lanes t))"

text \<open>The parts written for a value, in order; \<open>None\<close> when an error is thrown.\<close>

definition SendDLTensor :: "ram \<Rightarrow> dl_tensor \<Rightarrow> u8 list list option" where
  "SendDLTensor r arr = do {
     (if dt_strides arr \<noteq> 0 then ThrowError kInvalidDLTensorFieldStride else Some ());
     Some [le_bytes 8 (pointer_u64 (of_int (dt_data arr))), device_bytes (dt_device arr), i32_bytes (dt_ndim arr),
       data_type_bytes (dt_dtype arr), load_bytes r (dt_shape arr) (to_size (8 * dt_ndim arr)),
       le_bytes 8 (dt_byte_offset arr)]
   }"

definition send_arg :: "ram \<Rightarrow> bool \<Rightarrow> int \<Rightarrow> tvm_value \<Rightarrow> u8 list list option" where
  "send_arg r client_mode tcode v =
     (if tcode = int kDLInt \<or> tcode = int kDLUInt \<or> tcode = int kDLFloat then Some [le_bytes 8 (unat v)]
      else if tcode = kTVMDataType then Some [take 4 (le_bytes 8 (unat v)), le_bytes 4 0]
      else if tcode = kDLDevice then Some [le_bytes 8 (unat v)]
      else if tcode = kTVMPackedFuncHandle \<or> tcode = kTVMModuleHandle
      then (if \<not> client_mode then ThrowError kInvalidTypeCodeObject
            else Some [le_bytes 8 (pointer_u64 (v_handle v))])
      else if tcode = kTVMOpaqueHandle then Some [le_bytes 8 (pointer_u64 (v_handle v))]
      else if tcode = kTVMNDArrayHandle then ThrowError kInvalidTypeCodeNDArray
      else if tcode = kTVMDLTensorHandle then SendDLTensor r (load_tensor r (uint (v_handle v)))
      else if tcode = kTVMNullptr then Some []
      else if tcode = kTVMStr then do {
        let s = uint (v_handle v);
        len \<leftarrow> StrLength r s;
        Some [le_bytes 8 len, load_bytes r s len]
      }
      else if tcode = kTVMBytes then do {
        let bytes = uint (v_handle v);
        let len = load_word r (bytes + 4);
        Some [le_bytes 8 len, load_bytes r (int (load_word r bytes)) len]
      }
      else ThrowError kUnknownTypeCode)"

fun send_args :: "ram \<Rightarrow> bool \<Rightarrow> int list \<Rightarrow> tvm_value list \<Rightarrow> u8 list list option" where
  "send_args r client_mode (t # ts) (v # vs) = do {
     parts \<leftarrow> send_arg r client_mode t v;
     rest \<leftarrow> send_args r client_mode ts vs;
     Some (parts @ rest)
   }"
| "send_args r client_mode ts vs = Some []"

text \<open>Both arrays have \<^verbatim>\<open>num_args\<close> elements.\<close>

definition SendPackedSeq :: "ram \<Rightarrow> tvm_value list \<Rightarrow> int list \<Rightarrow> bool \<Rightarrow> u8 list list option" where
  "SendPackedSeq r values type_codes client_mode = do {
     parts \<leftarrow> send_args r client_mode type_codes values;
     Some (i32_bytes (int (length type_codes)) # concat (map i32_bytes type_codes) # parts)
   }"

definition PackedSeqGetNumBytes :: "ram \<Rightarrow> tvm_value list \<Rightarrow> int list \<Rightarrow> bool \<Rightarrow> nat option" where
  "PackedSeqGetNumBytes r values type_codes client_mode = do {
     parts \<leftarrow> SendPackedSeq r values type_codes client_mode;
     Some (sum_list (map length parts))
   }"

text \<open>The replies.\<close>

definition ReturnVoid :: "'s stream_write \<Rightarrow> 's server \<Rightarrow> 's server option" where
  "ReturnVoid wr ss = send_reply wr (4 + 4 + 4) [i32_bytes kReturn, i32_bytes 1, i32_bytes kTVMNullptr] ss"

definition ReturnException :: "'s stream_write \<Rightarrow> string \<Rightarrow> 's server \<Rightarrow> 's server option" where
  "ReturnException wr msg ss =
     (let len = length msg
      in send_reply wr (4 + 4 + 4 + 8 + len)
           [i32_bytes kException, i32_bytes 1, i32_bytes kTVMStr, le_bytes 8 len, lit msg] ss)"

definition ReturnPackedSeq :: "'s stream_write \<Rightarrow> tvm_value list \<Rightarrow> int list \<Rightarrow> 's server \<Rightarrow> 's server option" where
  "ReturnPackedSeq wr values type_codes ss = do {
     n \<leftarrow> PackedSeqGetNumBytes (ram (srv_machine ss)) values type_codes False;
     parts \<leftarrow> SendPackedSeq (ram (srv_machine ss)) values type_codes False;
     send_reply wr (4 + n) (i32_bytes kReturn # parts) ss
   }"

section \<open>Receiving\<close>

definition load_tcode :: "ram \<Rightarrow> addr \<Rightarrow> nat \<Rightarrow> int" where
  "load_tcode r tcodes i = i32_value (load_bytes r (tcodes + 4 * int i) 4)"

definition load_value :: "ram \<Rightarrow> addr \<Rightarrow> nat \<Rightarrow> tvm_value" where
  "load_value r vals i = of_nat (le_value (load_bytes r (vals + 8 * int i) 8))"

text \<open>The fields of a \<^verbatim>\<open>DLTensor\<close> after its data pointer, read into the tensor at \<open>arr\<close>.\<close>

definition receive_fields :: "addr \<Rightarrow> 's server \<Rightarrow> 's server option" where
  "receive_fields arr ss = do {
     (dev, ss) \<leftarrow> MinRPCServer_ReadRawBytes 8 ss;
     let ss = srv_store (arr + 4) dev ss;
     (ndim, ss) \<leftarrow> MinRPCServer_ReadRawBytes 4 ss;
     let ss = srv_store (arr + 12) ndim ss;
     (dtype, ss) \<leftarrow> MinRPCServer_ReadRawBytes 4 ss;
     let ss = srv_store (arr + 16) dtype ss;
     (shape, ss) \<leftarrow> ArenaAlloc 8 8 (i32_value (load_bytes (ram (srv_machine ss)) (arr + 12) 4)) ss;
     let ss = srv_store (arr + 20) (le_bytes 4 (nat shape)) ss;
     ss \<leftarrow> ReadArray shape 8 (i32_value (load_bytes (ram (srv_machine ss)) (arr + 12) 4)) ss;
     let ss = srv_store (arr + 24) (le_bytes 4 0) ss;
     (byte_offset, ss) \<leftarrow> MinRPCServer_ReadRawBytes 8 ss;
     Some (srv_store (arr + 32) byte_offset ss)
   }"

text \<open>A handle of 64 bits is cut to the width of a pointer.\<close>

definition ReceiveDLTensor :: "'s server \<Rightarrow> (addr \<times> 's server) option" where
  "ReceiveDLTensor ss = do {
     (handle, ss) \<leftarrow> read_nat 8 ss;
     (arr, ss) \<leftarrow> ArenaAlloc 40 8 1 ss;
     let ss = srv_store arr (le_bytes 4 handle) ss;
     ss \<leftarrow> receive_fields arr ss;
     Some (arr, ss)
   }"

text \<open>One value, stored in the \<open>i\<close>-th slot of the array of values.\<close>

definition recv_arg :: "addr \<Rightarrow> int \<Rightarrow> 's server \<Rightarrow> 's server option" where
  "recv_arg slot tcode ss =
     (if tcode = int kDLInt \<or> tcode = int kDLUInt \<or> tcode = int kDLFloat then do {
        (v, ss) \<leftarrow> MinRPCServer_ReadRawBytes 8 ss;
        Some (srv_store slot v ss)
      }
      else if tcode = kTVMDataType then do {
        (t, ss) \<leftarrow> MinRPCServer_ReadRawBytes 4 ss;
        let ss = srv_store slot t ss;
        (padding, ss) \<leftarrow> MinRPCServer_ReadRawBytes 4 ss;
        Some ss
      }
      else if tcode = kDLDevice then do {
        (d, ss) \<leftarrow> MinRPCServer_ReadRawBytes 8 ss;
        Some (srv_store slot d ss)
      }
      else if tcode = kTVMPackedFuncHandle \<or> tcode = kTVMModuleHandle \<or> tcode = kTVMOpaqueHandle then do {
        (handle, ss) \<leftarrow> read_nat 8 ss;
        Some (srv_store slot (le_bytes 4 handle) ss)
      }
      else if tcode = kTVMNullptr then Some (srv_store slot (le_bytes 4 0) ss)
      else if tcode = kTVMStr then do {
        (len, ss) \<leftarrow> read_nat 8 ss;
        (str, ss) \<leftarrow> ArenaAlloc 1 1 (int len + 1) ss;
        let ss = srv_store (str + int (len mod 2 ^ 32)) [0] ss;
        ss \<leftarrow> ReadArray str 1 (int len) ss;
        Some (srv_store slot (le_bytes 4 (nat str)) ss)
      }
      else if tcode = kTVMBytes then do {
        (len, ss) \<leftarrow> read_nat 8 ss;
        (arr, ss) \<leftarrow> ArenaAlloc 8 4 1 ss;
        (data, ss) \<leftarrow> ArenaAlloc 1 1 (int len) ss;
        let ss = srv_store (arr + 4) (le_bytes 4 len) ss;
        let ss = srv_store arr (le_bytes 4 (nat data)) ss;
        ss \<leftarrow> ReadArray data 1 (int len) ss;
        Some (srv_store slot (le_bytes 4 (nat arr)) ss)
      }
      else if tcode = kTVMDLTensorHandle then do {
        (arr, ss) \<leftarrow> ReceiveDLTensor ss;
        Some (srv_store slot (le_bytes 4 (nat arr)) ss)
      }
      else ThrowError kUnknownTypeCode)"

text \<open>The type code of each argument is read from memory when its turn comes.\<close>

fun recv_args :: "addr \<Rightarrow> addr \<Rightarrow> nat \<Rightarrow> nat \<Rightarrow> 's server \<Rightarrow> 's server option" where
  "recv_args vals tcodes i 0 ss = Some ss"
| "recv_args vals tcodes i (Suc n) ss = do {
     ss \<leftarrow> recv_arg (vals + 8 * int i) (load_tcode (ram (srv_machine ss)) tcodes i) ss;
     recv_args vals tcodes (Suc i) n ss
   }"

definition RecvPackedSeq :: "'s server \<Rightarrow> (addr \<times> addr \<times> int \<times> 's server) option" where
  "RecvPackedSeq ss = do {
     (num_args, ss) \<leftarrow> read_int ss;
     if num_args = 0 then Some (0, 0, num_args, ss)
     else do {
       (vals, ss) \<leftarrow> ArenaAlloc 8 8 num_args ss;
       (tcodes, ss) \<leftarrow> ArenaAlloc 4 4 num_args ss;
       ss \<leftarrow> ReadArray tcodes 4 num_args ss;
       ss \<leftarrow> recv_args vals tcodes 0 (nat num_args) ss;
       Some (vals, tcodes, num_args, ss)
     }
   }"

end
