(* ===== verification/Minrpc_Server.thy ===== *)
theory Minrpc_Server
  imports Rpc_Reference
begin

text \<open>
  \<^verbatim>\<open>minrpc/minrpc_server.h\<close>: \<^verbatim>\<open>MinRPCServer\<close> takes one request out of the channel,
  \<^verbatim>\<open>MinRPCExecute\<close> carries it out on the runtime, and \<^verbatim>\<open>MinRPCReturns\<close> sends the reply.
\<close>

section \<open>Where the server runs\<close>

text \<open>
  The write function of the server, the image of the program, how deep packed functions call each
  other, and what the stack held where a variable is not initialised.
\<close>

record 's target =
  tg_write :: "'s stream_write"
  tg_image :: image
  tg_depth :: nat
  tg_stack :: tvm_value
  tg_stack_code :: int

section \<open>Replies\<close>

definition ReturnHandle :: "'s stream_write \<Rightarrow> u32 \<Rightarrow> 's server \<Rightarrow> 's server option" where
  "ReturnHandle wr handle ss =
     (let encode_handle = pointer_u64 handle
      in send_reply wr (4 + 4 + 4 + 8)
           [i32_bytes kReturn, i32_bytes 1, i32_bytes kTVMOpaqueHandle, le_bytes 8 encode_handle] ss)"

definition ReturnCopyFromRemote :: "'s stream_write \<Rightarrow> addr \<Rightarrow> nat \<Rightarrow> 's server \<Rightarrow> 's server option" where
  "ReturnCopyFromRemote wr data_ptr num_bytes ss =
     send_reply wr ((4 + num_bytes) mod 2 ^ 64)
       [i32_bytes kCopyAck, load_bytes (ram (srv_machine ss)) data_ptr (num_bytes mod 2 ^ 32)] ss"

definition ReturnLastTVMError :: "'s stream_write \<Rightarrow> 's server \<Rightarrow> 's server option" where
  "ReturnLastTVMError wr ss = ReturnException wr (TVMGetLastError (srv_runtime ss)) ss"

text \<open>What every call of the runtime that only has a status is followed by.\<close>

definition return_status :: "'s stream_write \<Rightarrow> int \<Rightarrow> 's server \<Rightarrow> 's server option" where
  "return_status wr call_ecode ss =
     (if call_ecode = 0 then ReturnVoid wr ss else ReturnLastTVMError wr ss)"

definition return_handle :: "'s stream_write \<Rightarrow> int \<Rightarrow> u32 \<Rightarrow> 's server \<Rightarrow> 's server option" where
  "return_handle wr call_ecode handle ss =
     (if call_ecode = 0 then ReturnHandle wr handle ss else ReturnLastTVMError wr ss)"

section \<open>Executing\<close>

definition MinRPCExecute_InitServer :: "'s target \<Rightarrow> int \<Rightarrow> 's server \<Rightarrow> 's server option" where
  "MinRPCExecute_InitServer tg num_args ss = do {
     MINRPC_CHECK (num_args = 0);
     ReturnVoid (tg_write tg) ss
   }"

text \<open>The values go back behind the type code of the result.\<close>

definition NormalCallFunc :: "'s target \<Rightarrow> u32 \<Rightarrow> tvm_value list \<Rightarrow> int list \<Rightarrow> int \<Rightarrow> 's server \<Rightarrow> 's server option" where
  "NormalCallFunc tg call_handle values tcodes num_args ss = do {
     (call_ecode, ret_value, ret_tcode, rt) \<leftarrow>
       TVMFuncCall (tg_depth tg) (tg_image tg) call_handle values tcodes num_args (tg_stack tg) (tg_stack_code tg) (srv_runtime ss);
     let ss = set_runtime rt ss;
     if call_ecode = 0
     then
       let rv_tcode = ret_tcode
       in if rv_tcode = kTVMNDArrayHandle
          then ReturnPackedSeq (tg_write tg)
                 [set_int64 rv_tcode, ret_value, set_handle (tg_stack tg) (v_handle ret_value)]
                 [int kDLInt, kTVMDLTensorHandle, kTVMOpaqueHandle] ss
          else if rv_tcode = kTVMBytes
          then do {
            ss \<leftarrow> ReturnPackedSeq (tg_write tg) [set_int64 rv_tcode, ret_value] [int kDLInt, kTVMBytes] ss;
            (_, m) \<leftarrow> TVMByteArrayFree (srv_machine ss) (uint (v_handle ret_value));
            Some (set_machine m ss)
          }
          else if rv_tcode = kTVMPackedFuncHandle \<or> rv_tcode = kTVMModuleHandle
          then ReturnPackedSeq (tg_write tg) [set_int64 rv_tcode, ret_value] [int kDLInt, kTVMOpaqueHandle] ss
          else ReturnPackedSeq (tg_write tg) [set_int64 rv_tcode, ret_value] [int kDLInt, rv_tcode] ss
     else ReturnLastTVMError (tg_write tg) ss
   }"

text \<open>The tensor in the memory of the host of the device, next to one on another device.\<close>

definition cpu_view :: "dl_tensor \<Rightarrow> addr \<Rightarrow> dl_tensor" where
  "cpu_view arr data_ptr = arr\<lparr>dt_data := data_ptr, dt_device := \<lparr>device_type = kDLCPU, device_id = 0\<rparr>,
     dt_strides := 0, dt_byte_offset := 0\<rparr>"

definition MinRPCExecute_CopyFromRemote :: "'s target \<Rightarrow> addr \<Rightarrow> nat \<Rightarrow> addr \<Rightarrow> 's server \<Rightarrow> 's server option" where
  "MinRPCExecute_CopyFromRemote tg arr_at num_bytes data_ptr ss = do {
     let arr = load_tensor (ram (srv_machine ss)) arr_at;
     (call_ecode, ss) \<leftarrow>
       (if device_type (dt_device arr) \<noteq> kDLCPU
        then do {
          (call_ecode, m) \<leftarrow> TVMDeviceCopyDataFromTo (srv_machine ss) arr (cpu_view arr data_ptr);
          let call_ecode = (if call_ecode = 0
            then TVMSynchronize (device_type (dt_device arr)) (device_id (dt_device arr)) 0 else call_ecode);
          Some (call_ecode, set_machine m ss)
        }
        else Some (0, ss));
     if call_ecode = 0 then ReturnCopyFromRemote (tg_write tg) data_ptr num_bytes ss
     else ReturnLastTVMError (tg_write tg) ss
   }"

definition MinRPCExecute_CopyToRemote :: "'s target \<Rightarrow> addr \<Rightarrow> nat \<Rightarrow> addr \<Rightarrow> 's server \<Rightarrow> (int \<times> 's server) option" where
  "MinRPCExecute_CopyToRemote tg arr_at num_bytes data_ptr ss = do {
     (ret, ss) \<leftarrow> MinRPCExecute_ReadRawBytes data_ptr (num_bytes mod 2 ^ 32) ss;
     if ret \<le> 0 then Some (ret, ss)
     else do {
       let arr = load_tensor (ram (srv_machine ss)) arr_at;
       (call_ecode, ss) \<leftarrow>
         (if device_type (dt_device arr) \<noteq> kDLCPU
          then do {
            (call_ecode, m) \<leftarrow> TVMDeviceCopyDataFromTo (srv_machine ss) (cpu_view arr data_ptr) arr;
            let call_ecode = (if call_ecode = 0
              then TVMSynchronize (device_type (dt_device arr)) (device_id (dt_device arr)) 0 else call_ecode);
            Some (call_ecode, set_machine m ss)
          }
          else Some (0, ss));
       ss \<leftarrow> return_status (tg_write tg) call_ecode ss;
       Some (1, ss)
     }
   }"

section \<open>System calls\<close>

text \<open>A \<^verbatim>\<open>DLDevice\<close> in a value: two words.\<close>

definition v_device :: "tvm_value \<Rightarrow> dl_device" where
  "v_device v = \<lparr>device_type = sint (ucast v :: u32), device_id = sint (ucast (drop_bit 32 v) :: u32)\<rparr>"

text \<open>The array is freed in place: its count, and its pointers if they are cleared.\<close>

definition free_array_at :: "addr \<Rightarrow> machine \<Rightarrow> (int \<times> machine) option" where
  "free_array_at a m = do {
     (call_ecode, arr, m) \<leftarrow> TVMArrayFree m (load_ndarray (ram m) a);
     let m = mstore (a + 40) (le_bytes 4 (unat (reference_count arr))) m;
     let m = mstore a (le_bytes 4 (nat (dt_data (arr_tensor arr)))) m;
     Some (call_ecode, mstore (a + 20) (le_bytes 4 (nat (dt_shape (arr_tensor arr)))) m)
   }"

definition SyscallFreeHandle :: "'s target \<Rightarrow> tvm_value list \<Rightarrow> int list \<Rightarrow> int \<Rightarrow> 's server \<Rightarrow> 's server option" where
  "SyscallFreeHandle tg values tcodes num_args ss = do {
     MINRPC_CHECK (num_args = 2);
     MINRPC_CHECK (tcodes ! 0 = kTVMOpaqueHandle);
     MINRPC_CHECK (tcodes ! 1 = int kDLInt);
     let handle = v_handle (values ! 0);
     let type_code = v_int64 (values ! 1);
     (call_ecode, ss) \<leftarrow>
       (if type_code = kTVMNDArrayHandle
        then do { (e, m) \<leftarrow> free_array_at (uint handle) (srv_machine ss); Some (e, set_machine m ss) }
        else if type_code = kTVMPackedFuncHandle then Some (TVMFuncFree handle, ss)
        else do {
          MINRPC_CHECK (type_code = kTVMModuleHandle);
          (e, rt) \<leftarrow> TVMModFree handle (srv_runtime ss);
          Some (e, set_runtime rt ss)
        });
     return_status (tg_write tg) call_ecode ss
   }"

definition SyscallGetGlobalFunc :: "'s target \<Rightarrow> tvm_value list \<Rightarrow> int list \<Rightarrow> int \<Rightarrow> 's server \<Rightarrow> 's server option" where
  "SyscallGetGlobalFunc tg values tcodes num_args ss = do {
     MINRPC_CHECK (num_args = 1);
     MINRPC_CHECK (tcodes ! 0 = kTVMStr);
     name \<leftarrow> c_string (ram (srv_machine ss)) (uint (v_handle (values ! 0)));
     (call_ecode, handle) \<leftarrow> TVMFuncGetGlobal name (srv_runtime ss);
     return_handle (tg_write tg) (tvm_crt_error_code call_ecode) (the handle) ss
   }"

definition SyscallCopyAmongRemote :: "'s target \<Rightarrow> tvm_value list \<Rightarrow> int list \<Rightarrow> int \<Rightarrow> 's server \<Rightarrow> 's server option" where
  "SyscallCopyAmongRemote tg values tcodes num_args ss = do {
     MINRPC_CHECK (num_args = 3);
     MINRPC_CHECK (tcodes ! 0 = kTVMDLTensorHandle);
     MINRPC_CHECK (tcodes ! 1 = kTVMDLTensorHandle);
     MINRPC_CHECK (tcodes ! 2 = kTVMOpaqueHandle);
     let r = ram (srv_machine ss);
     (call_ecode, m) \<leftarrow> TVMDeviceCopyDataFromTo (srv_machine ss)
       (load_tensor r (uint (v_handle (values ! 0)))) (load_tensor r (uint (v_handle (values ! 1))));
     return_status (tg_write tg) call_ecode (set_machine m ss)
   }"

text \<open>The device is not used; the numbers are narrowed to \<^verbatim>\<open>size_t\<close>.\<close>

definition SyscallDevAllocData :: "'s target \<Rightarrow> tvm_value list \<Rightarrow> int list \<Rightarrow> int \<Rightarrow> 's server \<Rightarrow> 's server option" where
  "SyscallDevAllocData tg values tcodes num_args ss = do {
     MINRPC_CHECK (num_args = 4);
     MINRPC_CHECK (tcodes ! 0 = kDLDevice);
     MINRPC_CHECK (tcodes ! 1 = int kDLInt);
     MINRPC_CHECK (tcodes ! 2 = int kDLInt);
     MINRPC_CHECK (tcodes ! 3 = kTVMDataType);
     let nbytes = v_int64 (values ! 1);
     let alignment = v_int64 (values ! 2);
     (call_ecode, handle, m) \<leftarrow> TVMDeviceAllocDataSpace (srv_machine ss) (to_size nbytes) (to_size alignment);
     return_handle (tg_write tg) call_ecode (of_int handle) (set_machine m ss)
   }"

definition SyscallDevAllocDataWithScope :: "'s target \<Rightarrow> tvm_value list \<Rightarrow> int list \<Rightarrow> int \<Rightarrow> 's server \<Rightarrow> 's server option" where
  "SyscallDevAllocDataWithScope tg values tcodes num_args ss = do {
     MINRPC_CHECK (num_args = 2);
     MINRPC_CHECK (tcodes ! 0 = kTVMDLTensorHandle);
     MINRPC_CHECK (tcodes ! 1 = kTVMNullptr \<or> tcodes ! 1 = kTVMStr);
     let r = ram (srv_machine ss);
     let arr = load_tensor r (uint (v_handle (values ! 0)));
     (call_ecode, handle, m) \<leftarrow> TVMDeviceAllocDataSpaceWithScope (srv_machine ss) (tensor_shape r arr) (dt_dtype arr);
     return_handle (tg_write tg) call_ecode (of_int handle) (set_machine m ss)
   }"

definition SyscallDevFreeData :: "'s target \<Rightarrow> tvm_value list \<Rightarrow> int list \<Rightarrow> int \<Rightarrow> 's server \<Rightarrow> 's server option" where
  "SyscallDevFreeData tg values tcodes num_args ss = do {
     MINRPC_CHECK (num_args = 2);
     MINRPC_CHECK (tcodes ! 0 = kDLDevice);
     MINRPC_CHECK (tcodes ! 1 = kTVMOpaqueHandle);
     (call_ecode, m) \<leftarrow> TVMDeviceFreeDataSpace (srv_machine ss) (uint (v_handle (values ! 1)));
     return_status (tg_write tg) call_ecode (set_machine m ss)
   }"

text \<open>\<^verbatim>\<open>TVMStreamCreate\<close> clears its own parameter, so the handle is what the stack held.\<close>

definition SyscallDevCreateStream :: "'s target \<Rightarrow> tvm_value list \<Rightarrow> int list \<Rightarrow> int \<Rightarrow> 's server \<Rightarrow> 's server option" where
  "SyscallDevCreateStream tg values tcodes num_args ss = do {
     MINRPC_CHECK (num_args = 1);
     MINRPC_CHECK (tcodes ! 0 = kDLDevice);
     let dev = v_device (values ! 0);
     let call_ecode = TVMStreamCreate (device_type dev) (device_id dev);
     return_handle (tg_write tg) call_ecode (v_handle (tg_stack tg)) ss
   }"

text \<open>\<^verbatim>\<open>SyscallDevFreeStream\<close>, \<^verbatim>\<open>SyscallDevStreamSync\<close> and \<^verbatim>\<open>SyscallDevSetStream\<close> differ in the
  function they call.\<close>

definition stream_call :: "(int \<Rightarrow> int \<Rightarrow> addr \<Rightarrow> int) \<Rightarrow> 's target \<Rightarrow> tvm_value list \<Rightarrow> int list \<Rightarrow> int \<Rightarrow> 's server \<Rightarrow> 's server option" where
  "stream_call f tg values tcodes num_args ss = do {
     MINRPC_CHECK (num_args = 2);
     MINRPC_CHECK (tcodes ! 0 = kDLDevice);
     MINRPC_CHECK (tcodes ! 1 = kTVMOpaqueHandle);
     let dev = v_device (values ! 0);
     return_status (tg_write tg) (f (device_type dev) (device_id dev) (uint (v_handle (values ! 1)))) ss
   }"

definition SyscallDevFreeStream :: "'s target \<Rightarrow> tvm_value list \<Rightarrow> int list \<Rightarrow> int \<Rightarrow> 's server \<Rightarrow> 's server option" where
  "SyscallDevFreeStream = stream_call TVMStreamFree"

definition SyscallDevStreamSync :: "'s target \<Rightarrow> tvm_value list \<Rightarrow> int list \<Rightarrow> int \<Rightarrow> 's server \<Rightarrow> 's server option" where
  "SyscallDevStreamSync = stream_call TVMSynchronize"

definition SyscallDevSetStream :: "'s target \<Rightarrow> tvm_value list \<Rightarrow> int list \<Rightarrow> int \<Rightarrow> 's server \<Rightarrow> 's server option" where
  "SyscallDevSetStream = stream_call TVMSetStream"

definition SysCallFunc :: "'s target \<Rightarrow> rpc_code \<Rightarrow> tvm_value list \<Rightarrow> int list \<Rightarrow> int \<Rightarrow> 's server \<Rightarrow> 's server option" where
  "SysCallFunc tg c values tcodes num_args ss =
     (if c = kFreeHandle then SyscallFreeHandle tg values tcodes num_args ss
      else if c = kGetGlobalFunc then SyscallGetGlobalFunc tg values tcodes num_args ss
      else if c = kDevSetDevice then ReturnException (tg_write tg) ''SetDevice not supported'' ss
      else if c = kDevGetAttr then ReturnException (tg_write tg) ''GetAttr not supported'' ss
      else if c = kDevAllocData then SyscallDevAllocData tg values tcodes num_args ss
      else if c = kDevAllocDataWithScope then SyscallDevAllocDataWithScope tg values tcodes num_args ss
      else if c = kDevFreeData then SyscallDevFreeData tg values tcodes num_args ss
      else if c = kDevCreateStream then SyscallDevCreateStream tg values tcodes num_args ss
      else if c = kDevFreeStream then SyscallDevFreeStream tg values tcodes num_args ss
      else if c = kDevStreamSync then SyscallDevStreamSync tg values tcodes num_args ss
      else if c = kDevSetStream then SyscallDevSetStream tg values tcodes num_args ss
      else if c = kCopyAmongRemote then SyscallCopyAmongRemote tg values tcodes num_args ss
      else ReturnException (tg_write tg) ''Syscall not recognized'' ss)"

section \<open>Handling a request\<close>

text \<open>The arrays of a received sequence, read where they are used.\<close>

definition seq_values :: "addr \<Rightarrow> int \<Rightarrow> 's server \<Rightarrow> tvm_value list" where
  "seq_values vals num_args ss = map (load_value (ram (srv_machine ss)) vals) [0..<nat num_args]"

definition seq_tcodes :: "addr \<Rightarrow> int \<Rightarrow> 's server \<Rightarrow> int list" where
  "seq_tcodes tcodes num_args ss = map (load_tcode (ram (srv_machine ss)) tcodes) [0..<nat num_args]"

definition HandleInitServer :: "'s target \<Rightarrow> 's server \<Rightarrow> 's server option" where
  "HandleInitServer tg ss = do {
     (len, ss) \<leftarrow> read_nat 8 ss;
     (proto_ver, ss) \<leftarrow> ArenaAlloc 1 1 (int len + 1) ss;
     ss \<leftarrow> ReadArray proto_ver 1 (int len) ss;
     (vals, tcodes, num_args, ss) \<leftarrow> RecvPackedSeq ss;
     MinRPCExecute_InitServer tg num_args ss
   }"

definition HandleNormalCallFunc :: "'s target \<Rightarrow> 's server \<Rightarrow> 's server option" where
  "HandleNormalCallFunc tg ss = do {
     (call_handle, ss) \<leftarrow> read_nat 8 ss;
     (vals, tcodes, num_args, ss) \<leftarrow> RecvPackedSeq ss;
     NormalCallFunc tg (of_nat call_handle) (seq_values vals num_args ss) (seq_tcodes tcodes num_args ss) num_args ss
   }"

text \<open>What the two copies read first: the tensor and the number of bytes.\<close>

definition receive_copy :: "'s server \<Rightarrow> (addr \<times> nat \<times> nat \<times> 's server) option" where
  "receive_copy ss = do {
     (arr, ss) \<leftarrow> ArenaAlloc 40 8 1 ss;
     (data_handle, ss) \<leftarrow> read_nat 8 ss;
     let ss = srv_store arr (le_bytes 4 data_handle) ss;
     ss \<leftarrow> receive_fields arr ss;
     (num_bytes, ss) \<leftarrow> read_nat 8 ss;
     Some (arr, data_handle, num_bytes, ss)
   }"

definition copy_place :: "addr \<Rightarrow> nat \<Rightarrow> nat \<Rightarrow> 's server \<Rightarrow> (addr \<times> 's server) option" where
  "copy_place arr_at data_handle num_bytes ss =
     (let arr = load_tensor (ram (srv_machine ss)) arr_at
      in if device_type (dt_device arr) = kDLCPU
         then Some (int (data_handle mod 2 ^ 32) + int (dt_byte_offset arr), ss)
         else ArenaAlloc 1 1 (int num_bytes) ss)"

definition HandleCopyFromRemote :: "'s target \<Rightarrow> 's server \<Rightarrow> 's server option" where
  "HandleCopyFromRemote tg ss = do {
     (arr, data_handle, num_bytes, ss) \<leftarrow> receive_copy ss;
     (data_ptr, ss) \<leftarrow> copy_place arr data_handle num_bytes ss;
     MinRPCExecute_CopyFromRemote tg arr num_bytes data_ptr ss
   }"

definition HandleCopyToRemote :: "'s target \<Rightarrow> 's server \<Rightarrow> 's server option" where
  "HandleCopyToRemote tg ss = do {
     (arr, data_handle, num_bytes, ss) \<leftarrow> receive_copy ss;
     (dptr, ss) \<leftarrow> copy_place arr data_handle num_bytes ss;
     (ret, ss) \<leftarrow> MinRPCExecute_CopyToRemote tg arr num_bytes dptr ss;
     ss \<leftarrow> (if ret = 0
       then (if allow_clean_shutdown (callback_context ss)
             then do { ss \<leftarrow> MinRPCServer_Shutdown ss; MicroIOHandler_Exit kSuccess }
             else ThrowError kReadError)
       else Some ss);
     if ret = - 1 then ThrowError kReadError else Some ss
   }"

definition HandleSyscallFunc :: "'s target \<Rightarrow> rpc_code \<Rightarrow> 's server \<Rightarrow> 's server option" where
  "HandleSyscallFunc tg c ss = do {
     (vals, tcodes, num_args, ss) \<leftarrow> RecvPackedSeq ss;
     SysCallFunc tg c (seq_values vals num_args ss) (seq_tcodes tcodes num_args ss) num_args ss
   }"

definition handle_code :: "'s target \<Rightarrow> rpc_code \<Rightarrow> 's server \<Rightarrow> (bool \<times> 's server) option" where
  "handle_code tg c ss =
     (if c \<ge> kSyscallCodeStart then do { ss \<leftarrow> HandleSyscallFunc tg c ss; Some (True, ss) }
      else if c = kCallFunc then do { ss \<leftarrow> HandleNormalCallFunc tg ss; Some (True, ss) }
      else if c = kInitServer then do { ss \<leftarrow> HandleInitServer tg ss; Some (True, ss) }
      else if c = kCopyFromRemote then do { ss \<leftarrow> HandleCopyFromRemote tg ss; Some (True, ss) }
      else if c = kCopyToRemote then do { ss \<leftarrow> HandleCopyToRemote tg ss; Some (True, ss) }
      else if c = kShutdown then do { ss \<leftarrow> MinRPCServer_Shutdown ss; Some (False, ss) }
      else ThrowError kUnknownRPCCode)"

text \<open>The packet has been read whole before, so its length is only compared with zero.\<close>

definition ProcessOnePacket :: "'s target \<Rightarrow> 's server \<Rightarrow> (bool \<times> 's server) option" where
  "ProcessOnePacket tg ss = do {
     let (ar, m) = Arena_RecycleAll (rpc_arena (callback_context ss)) (srv_machine ss);
     let ss = set_flags True (set_arena ar (set_machine m ss));
     (packet_len, ss) \<leftarrow> read_nat 8 ss;
     if packet_len = 0 then Some (True, ss)
     else do {
       (c, ss) \<leftarrow> read_int ss;
       handle_code tg c (set_flags False ss)
     }
   }"

end
