(* ===== verification/Rpc_Server.thy ===== *)
theory Rpc_Server
  imports Minrpc_Server
begin

text \<open>
  \<^verbatim>\<open>microtvm_rpc_server/rpc_server.cc\<close> and the main function of \<^verbatim>\<open>host_driven/main.cc\<close>: the
  server behind the UART, from its start to the loop that feeds it one byte at a time.
\<close>

section \<open>The server\<close>

record 's micro_server =
  ms_session :: "'s server"
  ms_unframer :: unframer

text \<open>What the C++ objects hold before they are constructed, their size, and where the linker has put
  the two functions that make executors.\<close>

record boot =
  boot_crc :: u16
  boot_unframer :: unframer
  sizeof_MicroRPCServer :: nat
  at_AotExecutorModule_Create :: u32
  at_GraphExecutorModule_Create :: u32

definition set_running :: "bool \<Rightarrow> 's server \<Rightarrow> 's server" where
  "set_running b ss = ss\<lparr>callback_context := (callback_context ss)\<lparr>is_running := b\<rparr>\<rparr>"

definition MicroRPCServer_HandleCompleteMessage :: "'s target \<Rightarrow> ('s, rpc_server) message_received_func" where
  "MicroRPCServer_HandleCompleteMessage tg message_type buf ss =
     (if message_type \<noteq> kNormal then Some ss
      else do {
        (b, ss) \<leftarrow> ProcessOnePacket tg ss;
        Some (Session_ClearReceiveBuffer (set_running b ss))
      })"

text \<open>The packet is handled inside the call that brings its last byte.\<close>

definition server_write :: "'s target \<Rightarrow> unframer \<Rightarrow> 's server \<Rightarrow> u8 list \<Rightarrow> (tvm_crt_error \<times> nat \<times> unframer \<times> 's server) option" where
  "server_write tg = Unframer_Write SessionReceiver_Write
     (SessionReceiver_PacketDone (tg_write tg) (MicroRPCServer_HandleCompleteMessage tg))"

definition MicroRPCServer :: "boot \<Rightarrow> u8 list \<Rightarrow> runtime \<Rightarrow> 's \<Rightarrow> 's micro_server option" where
  "MicroRPCServer bt receive_storage rt s = do {
     (ar, m) \<leftarrow> GenericArena (rt_machine rt);
     let context = \<lparr>rpc_runtime = rt\<lparr>rt_machine := m\<rparr>, rpc_arena = ar, allow_clean_shutdown = True, is_running = True\<rparr>;
     Some \<lparr>ms_session = Session (Framer (boot_crc bt)) s (FrameBuffer receive_storage (length receive_storage)) context,
       ms_unframer = Unframer (boot_unframer bt)\<rparr>
   }"

definition MicroRPCServer_Initialize :: "'s target \<Rightarrow> 's micro_server \<Rightarrow> 's micro_server option" where
  "MicroRPCServer_Initialize tg ms = do {
     let (err, bytes) = TVMPlatformGenerateRandom (random_word (tg_image tg)) 1;
     CHECK (err = kTvmErrorNoError);
     initial_session_nonce \<leftarrow> arr_get bytes 0;
     (e, ss) \<leftarrow> Session_Initialize (tg_write tg) (ms_session ms) initial_session_nonce;
     CHECK (e = kTvmErrorNoError);
     Some (ms\<lparr>ms_session := ss\<rparr>)
   }"

text \<open>The result holds the data that was not consumed.\<close>

definition MicroRPCServer_Loop :: "'s target \<Rightarrow> u8 list \<Rightarrow> 's micro_server \<Rightarrow> (tvm_crt_error \<times> u8 list \<times> 's micro_server) option" where
  "MicroRPCServer_Loop tg new_data ms =
     (if \<not> is_running (callback_context (ms_session ms)) then Some (kTvmErrorPlatformShutdown, new_data, ms)
      else do {
        (err, new_data, ms) \<leftarrow>
          (if length new_data > 0
           then do {
             (err, bytes_consumed, u, ss) \<leftarrow> server_write tg (ms_unframer ms) (ms_session ms) new_data;
             Some (err, drop bytes_consumed new_data, \<lparr>ms_session = ss, ms_unframer = u\<rparr>)
           }
           else Some (kTvmErrorNoError, new_data, ms));
        Some (if err = kTvmErrorNoError \<and> \<not> is_running (callback_context (ms_session ms))
              then kTvmErrorPlatformShutdown else err, new_data, ms)
      })"

definition MicroTVMRpcServerLoop :: "'s target \<Rightarrow> u8 list \<Rightarrow> 's micro_server \<Rightarrow> (tvm_crt_error \<times> u8 list \<times> 's micro_server) option" where
  "MicroTVMRpcServerLoop tg new_data ms = MicroRPCServer_Loop tg new_data ms"

definition MicroRPCServer_Log :: "'s target \<Rightarrow> u8 list \<Rightarrow> 's micro_server \<Rightarrow> 's micro_server option" where
  "MicroRPCServer_Log tg message ms = do {
     (to_return, ss) \<leftarrow> Session_SendMessage (tg_write tg) (ms_session ms) kLog message;
     CHECK (to_return = kTvmErrorNoError);
     Some (ms\<lparr>ms_session := ss\<rparr>)
   }"

section \<open>Logging\<close>

text \<open>
  The text is formatted into a buffer of 256 bytes, with its terminator; the length that comes back is
  that of the whole text, and a final newline is dropped.
\<close>

definition log_message :: "u8 list \<Rightarrow> u8 list option" where
  "log_message formatted = do {
     let log_buffer = take 255 formatted @ [0];
     let num_bytes_logged = length formatted;
     drop_newline \<leftarrow> (if num_bytes_logged > 0
       then do { c \<leftarrow> arr_get log_buffer (num_bytes_logged - 1); Some (c = 10) }
       else Some False);
     mem_read log_buffer 0 (if drop_newline then num_bytes_logged - 1 else num_bytes_logged)
   }"

text \<open>Before the server exists the message goes through a framer and a session of its own.\<close>

definition TVMLogf :: "'s target \<Rightarrow> boot \<Rightarrow> u8 list \<Rightarrow> 's + 's micro_server \<Rightarrow> ('s + 's micro_server) option" where
  "TVMLogf tg bt formatted g_rpc_server = do {
     text \<leftarrow> log_message formatted;
     case g_rpc_server of
       Inr ms \<Rightarrow> do { ms \<leftarrow> MicroRPCServer_Log tg text ms; Some (Inr ms) }
     | Inl s \<Rightarrow> do {
         (err, ss) \<leftarrow> Session_SendMessage (tg_write tg) (Session (Framer (boot_crc bt)) s (FrameBuffer [] 0) ()) kLog text;
         CHECK (err = kTvmErrorNoError);
         Some (Inl (session_stream ss))
       }
   }"

section \<open>Starting\<close>

definition TVMAotExecutorModule_Register :: "boot \<Rightarrow> runtime \<Rightarrow> (tvm_crt_error \<times> runtime) option" where
  "TVMAotExecutorModule_Register bt rt =
     TVMFuncRegisterGlobal (c_str ''tvm.aot_executor.create'') (at_AotExecutorModule_Create bt) 0 rt"

definition TVMGraphExecutorModule_Register :: "boot \<Rightarrow> runtime \<Rightarrow> (tvm_crt_error \<times> runtime) option" where
  "TVMGraphExecutorModule_Register bt rt =
     TVMFuncRegisterGlobal (c_str ''tvm.graph_executor.create'') (at_GraphExecutorModule_Create bt) 0 rt"

text \<open>A status that is not zero aborts.\<close>

definition MicroTVMRpcServerInit :: "'s target \<Rightarrow> boot \<Rightarrow> runtime \<Rightarrow> 's \<Rightarrow> 's micro_server option" where
  "MicroTVMRpcServerInit tg bt rt s = do {
     (err, rt) \<leftarrow> TVMInitializeRuntime (tg_image tg) rt;
     CHECK (err = kTvmErrorNoError);
     (err, rt) \<leftarrow> TVMAotExecutorModule_Register bt rt;
     CHECK (err = kTvmErrorNoError);
     (err, receive_buffer_memory, rt) \<leftarrow> rt_alloc (nat TVM_CRT_MAX_PACKET_SIZE_BYTES) rt;
     CHECK (err = kTvmErrorNoError);
     let storage = load_bytes (ram (rt_machine rt)) receive_buffer_memory (nat TVM_CRT_MAX_PACKET_SIZE_BYTES);
     (err, rpc_server_memory, rt) \<leftarrow> rt_alloc (sizeof_MicroRPCServer bt) rt;
     CHECK (err = kTvmErrorNoError);
     ms \<leftarrow> MicroRPCServer bt storage rt s;
     MicroRPCServer_Initialize tg ms
   }"

section \<open>The main function\<close>

text \<open>
  The answer of the host to a request for one byte is the number of bytes it did not read. The counters
  of the stream are compared and cleared after every call of the server.
\<close>

definition check_counters :: "serial micro_server \<Rightarrow> serial micro_server option" where
  "check_counters ms =
     (let s = session_stream (ms_session ms)
      in if g_num_bytes_written s \<noteq> 0 \<or> g_num_bytes_requested s \<noteq> 0
         then do {
           CHECK (g_num_bytes_written s = g_num_bytes_requested s);
           Some (ms\<lparr>ms_session := (ms_session ms)\<lparr>session_stream :=
             s\<lparr>g_num_bytes_written := 0, g_num_bytes_requested := 0\<rparr>\<rparr>\<rparr>)
         }
         else Some ms)"

partial_function (option) main_feed :: "serial target \<Rightarrow> u8 list \<Rightarrow> serial micro_server \<Rightarrow> serial micro_server option" where
  "main_feed tg data ms =
     (if data = [] then Some ms
      else do {
        (err, data, ms) \<leftarrow> MicroTVMRpcServerLoop tg data ms;
        CHECK (err = kTvmErrorNoError \<or> err = kTvmErrorFramingShortPacket);
        ms \<leftarrow> check_counters ms;
        main_feed tg data ms
      })"

text \<open>The result is what \<^verbatim>\<open>main\<close> returns, or nothing when it waits for more input.\<close>

fun main_loop :: "serial target \<Rightarrow> (int \<times> u8) list \<Rightarrow> serial micro_server \<Rightarrow> (int option \<times> serial micro_server) option" where
  "main_loop tg [] ms = Some (None, ms)"
| "main_loop tg ((not_read, c) # answers) ms =
     (let ret_code = 1 - not_read
      in if ret_code < 0 then Some (Some 1, ms)
         else if ret_code = 0 then Some (Some 2, ms)
         else do {
           ms \<leftarrow> main_feed tg [c] ms;
           main_loop tg answers ms
         })"

definition main_start :: "serial target \<Rightarrow> boot \<Rightarrow> addr \<Rightarrow> nat \<Rightarrow> runtime \<Rightarrow> serial \<Rightarrow> serial micro_server option" where
  "main_start tg bt memory_at memory_size_bytes rt s = do {
     let (status, _, mgr) = PageMemoryManagerCreate memory_at memory_size_bytes 8;
     CHECK (status = kTvmErrorNoError);
     ms \<leftarrow> MicroTVMRpcServerInit tg bt (rt\<lparr>rt_machine := (rt_machine rt)\<lparr>heap := mgr\<rparr>\<rparr>) s;
     let ss = ms_session ms;
     (err, rt) \<leftarrow> TVMGraphExecutorModule_Register bt (srv_runtime ss);
     CHECK (err = kTvmErrorNoError);
     g \<leftarrow> TVMLogf tg bt (lit ''microTVM GVSoC runtime - running'') (Inr (ms\<lparr>ms_session := set_runtime rt ss\<rparr>));
     case g of Inr ms \<Rightarrow> Some ms | Inl _ \<Rightarrow> None
   }"

end
