(* ===== verification/Session_Service.thy ===== *)
theory Session_Service
  imports Rpc_Server Session_Protocol
begin

text \<open>
  The session of the device with the callback that the device installs: the server of
  \<^verbatim>\<open>rpc_server.cc\<close>, which reads the request out of the receive buffer, sends the reply through the
  session and clears the buffer, leaves the nonces and the state of the session alone.
\<close>

section \<open>The server keeps the session\<close>

text \<open>What the state machine of the session reads; a server operation has to leave it as it was.\<close>

definition identity :: "('s, 'c) session \<Rightarrow> u8 \<times> u16 \<times> session_state" where
  "identity ss = (local_nonce ss, session_id ss, session_state ss)"

lemma same_id_identity: "same_id ss ss' \<longleftrightarrow> identity ss' = identity ss"
  by (auto simp: same_id_def identity_def)

named_theorems keeps

lemma identity_fields [simp]:
  "identity (set_runtime rt ss) = identity ss" "identity (set_machine m ss) = identity ss" "identity (set_arena ar ss) = identity ss"
  "identity (set_flags b ss) = identity ss" "identity (set_running b ss) = identity ss" "identity (srv_store a bs ss) = identity ss"
  "identity (ss\<lparr>receive_buffer := fb\<rparr>) = identity ss" "identity (Session_ClearReceiveBuffer ss) = identity ss"
  by (simp_all add: identity_def set_runtime_def set_machine_def set_arena_def set_flags_def set_running_def srv_store_def
      Session_ClearReceiveBuffer_def)

lemma sending_keeps:
  "Session_SendBodyChunk wr ss d = Some (e, ss') \<Longrightarrow> identity ss' = identity ss"
  "Session_FinishMessage wr ss = Some (e, ss') \<Longrightarrow> identity ss' = identity ss"
  "Session_StartMessage wr ss t n = Some (e, ss') \<Longrightarrow> identity ss' = identity ss"
  using sending_same_id unfolding same_id_identity by metis+

lemma MINRPC_CHECK_Some [simp]: "MINRPC_CHECK b = Some u \<longleftrightarrow> b"
  by (cases b) simp_all

lemma Handler_keeps [keeps]:
  "MicroIOHandler_MessageStart wr n ss = Some ss' \<Longrightarrow> identity ss' = identity ss"
  "MicroIOHandler_MessageDone wr ss = Some ss' \<Longrightarrow> identity ss' = identity ss"
  "MicroIOHandler_PosixWrite wr d ss = Some (r, ss') \<Longrightarrow> identity ss' = identity ss"
  "MicroIOHandler_PosixRead k ss = Some (d, ss') \<Longrightarrow> identity ss' = identity ss"
  by (auto simp: MicroIOHandler_MessageStart_def MicroIOHandler_MessageDone_def MicroIOHandler_PosixWrite_def
      MicroIOHandler_PosixRead_def bind_eq_Some dest: sending_keeps split: if_splits)

lemma WriteRawBytes_keeps [keeps]: "MinRPCReturns_WriteRawBytes wr d ss = Some ss' \<Longrightarrow> identity ss' = identity ss"
proof (induction wr d ss arbitrary: ss' rule: MinRPCReturns_WriteRawBytes.induct)
  case (1 wr d ss)
  then show ?case
    by (subst (asm) (2) MinRPCReturns_WriteRawBytes.simps) (fastforce simp: bind_eq_Some dest: keeps split: if_splits)
qed

lemma write_chunks_keeps [keeps]: "write_chunks wr cs ss = Some ss' \<Longrightarrow> identity ss' = identity ss"
  by (induction cs arbitrary: ss) (fastforce simp: bind_eq_Some dest: keeps)+

lemma send_reply_keeps [keeps]: "send_reply wr n parts ss = Some ss' \<Longrightarrow> identity ss' = identity ss"
  by (auto simp: send_reply_def bind_eq_Some dest!: keeps)

lemma Shutdown_keeps [keeps]: "MinRPCServer_Shutdown ss = Some ss' \<Longrightarrow> identity ss' = identity ss"
  by (auto simp: MinRPCServer_Shutdown_def MicroIOHandler_Close_def bind_eq_Some)

lemma ReadRawBytes_keeps [keeps]: "MinRPCServer_ReadRawBytes n ss = Some (d, ss') \<Longrightarrow> identity ss' = identity ss"
proof (induction n ss arbitrary: d ss' rule: MinRPCServer_ReadRawBytes.induct)
  case (1 n ss)
  then show ?case
    by (subst (asm) (2) MinRPCServer_ReadRawBytes.simps) (fastforce simp: bind_eq_Some dest: keeps split: if_splits)
qed

lemma Execute_ReadRawBytes_keeps [keeps]:
  "MinRPCExecute_ReadRawBytes a n ss = Some (r, ss') \<Longrightarrow> identity ss' = identity ss"
proof (induction a n ss arbitrary: r ss' rule: MinRPCExecute_ReadRawBytes.induct)
  case (1 a n ss)
  then show ?case
    by (subst (asm) (2) MinRPCExecute_ReadRawBytes.simps) (fastforce simp: bind_eq_Some dest: keeps split: if_splits)
qed

lemma reading_keeps [keeps]:
  "read_nat n ss = Some (v, ss') \<Longrightarrow> identity ss' = identity ss"
  "read_int ss = Some (i, ss') \<Longrightarrow> identity ss' = identity ss"
  "ReadArray a elt i ss = Some ss' \<Longrightarrow> identity ss' = identity ss"
  "ArenaAlloc elt al i ss = Some (b, ss') \<Longrightarrow> identity ss' = identity ss"
  by (auto simp: read_nat_def read_int_def ReadArray_def ArenaAlloc_def bind_eq_Some dest: keeps)

lemma receiving_keeps [keeps]:
  "receive_fields a ss = Some ss' \<Longrightarrow> identity ss' = identity ss"
  by (auto simp: receive_fields_def bind_eq_Some Let_def dest!: keeps)

lemma ReceiveDLTensor_keeps [keeps]: "ReceiveDLTensor ss = Some (b, ss') \<Longrightarrow> identity ss' = identity ss"
  by (auto simp: ReceiveDLTensor_def bind_eq_Some Let_def dest!: keeps)

lemma recv_arg_keeps [keeps]: "recv_arg slot t ss = Some ss' \<Longrightarrow> identity ss' = identity ss"
  by (auto simp: recv_arg_def bind_eq_Some Let_def dest!: keeps split: if_splits)

lemma recv_args_keeps [keeps]: "recv_args vals tcodes i n ss = Some ss' \<Longrightarrow> identity ss' = identity ss"
  by (induction n arbitrary: i ss) (fastforce simp: bind_eq_Some dest: keeps)+

lemma RecvPackedSeq_keeps [keeps]: "RecvPackedSeq ss = Some (a, b, n, ss') \<Longrightarrow> identity ss' = identity ss"
  by (auto simp: RecvPackedSeq_def bind_eq_Some dest!: keeps split: if_splits)

lemma replies_keep [keeps]:
  "ReturnVoid wr ss = Some ss' \<Longrightarrow> identity ss' = identity ss"
  "ReturnException wr msg ss = Some ss' \<Longrightarrow> identity ss' = identity ss"
  "ReturnPackedSeq wr vs ts ss = Some ss' \<Longrightarrow> identity ss' = identity ss"
  "ReturnHandle wr h ss = Some ss' \<Longrightarrow> identity ss' = identity ss"
  "ReturnCopyFromRemote wr p k ss = Some ss' \<Longrightarrow> identity ss' = identity ss"
  "ReturnLastTVMError wr ss = Some ss' \<Longrightarrow> identity ss' = identity ss"
  by (auto simp: ReturnVoid_def ReturnException_def ReturnPackedSeq_def ReturnHandle_def ReturnCopyFromRemote_def
      ReturnLastTVMError_def bind_eq_Some Let_def dest: keeps)

lemma statuses_keep [keeps]:
  "return_status wr e ss = Some ss' \<Longrightarrow> identity ss' = identity ss"
  "return_handle wr e h ss = Some ss' \<Longrightarrow> identity ss' = identity ss"
  by (auto simp: return_status_def return_handle_def dest: keeps split: if_splits)

lemma NormalCallFunc_keeps [keeps]: "NormalCallFunc tg h vs ts n ss = Some ss' \<Longrightarrow> identity ss' = identity ss"
  by (auto simp: NormalCallFunc_def bind_eq_Some Let_def dest!: keeps split: if_splits)

lemma executing_keeps [keeps]:
  "MinRPCExecute_InitServer tg n ss = Some ss' \<Longrightarrow> identity ss' = identity ss"
  "MinRPCExecute_CopyFromRemote tg a k p ss = Some ss' \<Longrightarrow> identity ss' = identity ss"
  "MinRPCExecute_CopyToRemote tg a k p ss = Some (r, ss') \<Longrightarrow> identity ss' = identity ss"
  by (auto simp: MinRPCExecute_InitServer_def MinRPCExecute_CopyFromRemote_def MinRPCExecute_CopyToRemote_def
      bind_eq_Some Let_def dest!: keeps split: if_splits)

lemma syscalls_keep [keeps]:
  "SyscallFreeHandle tg vs ts n ss = Some ss' \<Longrightarrow> identity ss' = identity ss"
  "SyscallGetGlobalFunc tg vs ts n ss = Some ss' \<Longrightarrow> identity ss' = identity ss"
  "SyscallCopyAmongRemote tg vs ts n ss = Some ss' \<Longrightarrow> identity ss' = identity ss"
  "SyscallDevAllocData tg vs ts n ss = Some ss' \<Longrightarrow> identity ss' = identity ss"
  "SyscallDevAllocDataWithScope tg vs ts n ss = Some ss' \<Longrightarrow> identity ss' = identity ss"
  "SyscallDevFreeData tg vs ts n ss = Some ss' \<Longrightarrow> identity ss' = identity ss"
  "SyscallDevCreateStream tg vs ts n ss = Some ss' \<Longrightarrow> identity ss' = identity ss"
  "stream_call f tg vs ts n ss = Some ss' \<Longrightarrow> identity ss' = identity ss"
  by (auto simp: SyscallFreeHandle_def SyscallGetGlobalFunc_def SyscallCopyAmongRemote_def SyscallDevAllocData_def
      SyscallDevAllocDataWithScope_def SyscallDevFreeData_def SyscallDevCreateStream_def stream_call_def
      bind_eq_Some Let_def dest!: keeps split: if_splits)

lemma SysCallFunc_keeps [keeps]: "SysCallFunc tg c vs ts n ss = Some ss' \<Longrightarrow> identity ss' = identity ss"
  by (auto simp: SysCallFunc_def SyscallDevFreeStream_def SyscallDevStreamSync_def SyscallDevSetStream_def dest: keeps split: if_splits)

lemma copying_keeps [keeps]:
  "receive_copy ss = Some (a, h, k, ss') \<Longrightarrow> identity ss' = identity ss"
  "copy_place a h k ss = Some (p, ss') \<Longrightarrow> identity ss' = identity ss"
  by (auto simp: receive_copy_def copy_place_def bind_eq_Some Let_def dest!: keeps split: if_splits)

lemma HandleInitServer_keeps [keeps]: "HandleInitServer tg ss = Some ss' \<Longrightarrow> identity ss' = identity ss"
  by (auto simp: HandleInitServer_def bind_eq_Some dest!: reading_keeps RecvPackedSeq_keeps executing_keeps)

lemma HandleNormalCallFunc_keeps [keeps]: "HandleNormalCallFunc tg ss = Some ss' \<Longrightarrow> identity ss' = identity ss"
  by (auto simp: HandleNormalCallFunc_def bind_eq_Some dest!: reading_keeps RecvPackedSeq_keeps NormalCallFunc_keeps)

lemma HandleCopyFromRemote_keeps [keeps]: "HandleCopyFromRemote tg ss = Some ss' \<Longrightarrow> identity ss' = identity ss"
  by (auto simp: HandleCopyFromRemote_def bind_eq_Some dest!: copying_keeps executing_keeps)

lemma HandleCopyToRemote_keeps [keeps]: "HandleCopyToRemote tg ss = Some ss' \<Longrightarrow> identity ss' = identity ss"
  by (auto simp: HandleCopyToRemote_def bind_eq_Some dest!: copying_keeps executing_keeps Shutdown_keeps split: if_splits)

lemma HandleSyscallFunc_keeps [keeps]: "HandleSyscallFunc tg c ss = Some ss' \<Longrightarrow> identity ss' = identity ss"
  by (auto simp: HandleSyscallFunc_def bind_eq_Some dest!: RecvPackedSeq_keeps SysCallFunc_keeps)

lemma handle_code_keeps [keeps]: "handle_code tg c ss = Some (b, ss') \<Longrightarrow> identity ss' = identity ss"
  by (auto simp: handle_code_def bind_eq_Some dest!: keeps split: if_splits)

lemma ProcessOnePacket_keeps [keeps]:
  assumes "ProcessOnePacket tg ss = Some (b, ss')"
  shows "identity ss' = identity ss"
proof -
  obtain ar m where rc: "Arena_RecycleAll (rpc_arena (callback_context ss)) (srv_machine ss) = (ar, m)"
    by fastforce
  define s0 where "s0 = set_flags True (set_arena ar (set_machine m ss))"
  have "ProcessOnePacket tg ss = do {
      (packet_len, s1) \<leftarrow> read_nat 8 s0;
      if packet_len = 0 then Some (True, s1) else do { (c, s2) \<leftarrow> read_int s1; handle_code tg c (set_flags False s2) }
    }"
    by (simp add: ProcessOnePacket_def rc s0_def)
  with assms have "identity ss' = identity s0"
    by (auto simp: bind_eq_Some dest!: reading_keeps handle_code_keeps split: if_splits)
  then show ?thesis
    by (simp add: s0_def)
qed

lemma HandleCompleteMessage_keeps:
  "MicroRPCServer_HandleCompleteMessage tg t b ss = Some ss' \<Longrightarrow> identity ss' = identity ss"
  by (auto simp: MicroRPCServer_HandleCompleteMessage_def bind_eq_Some dest!: keeps split: if_splits)

interpretation device: session_callback "MicroRPCServer_HandleCompleteMessage tg" for tg :: "'s target"
proof
  fix t b and ss ss' :: "'s server"
  assume "MicroRPCServer_HandleCompleteMessage tg t b ss = Some ss'" "session_inv ss"
  then show "session_inv ss'"
    by (metis HandleCompleteMessage_keeps same_id_identity same_id_inv)
qed

section \<open>Feeding the server\<close>

text \<open>What the stream and the end of a packet keep is kept by the unframer that feeds them.\<close>

lemma WriteAll_keeps:
  assumes "\<And>s d r s'. wr s d = Some (r, s') \<Longrightarrow> I s \<Longrightarrow> I s'"
  shows "WriteAll_loop wr s d k = Some (e, n, s') \<Longrightarrow> I s \<Longrightarrow> I s'"
  using assms
proof (induction wr s d k arbitrary: e n s' rule: WriteAll_loop.induct)
  case (1 wr s d k)
  then show ?case
    by (subst (asm) (2) WriteAll_loop.simps) (fastforce simp: bind_eq_Some split: if_splits)
qed

lemma FindPacketCrc_keeps:
  assumes wr: "\<And>s d r s'. wr s d = Some (r, s') \<Longrightarrow> I s \<Longrightarrow> I s'"
  shows "FindPacketCrc_loop wr u s = Some (e, u', s') \<Longrightarrow> I s \<Longrightarrow> I s'"
proof (induction "uf_input_size_bytes u" arbitrary: u s rule: less_induct)
  case less
  have all: "I t" if "WriteAll wr s d = Some (e1, n, t)" for d e1 n t
    using that WriteAll_keeps [of wr I] wr less.prems(2) unfolding WriteAll_def by blast
  show ?case
  proof (cases "uf_num_payload_bytes_remaining u = 0")
    case True
    then show ?thesis
      using less.prems by (auto simp: FindPacketCrc_loop.simps [of wr u s])
  next
    case False
    let ?n = "if uf_num_payload_bytes_remaining u > 128 then 128 else uf_num_payload_bytes_remaining u"
    obtain e1 u1 where add: "Unframer_AddToBuffer u ?n True = Some (e1, u1)"
      using less.prems False by (auto simp: FindPacketCrc_loop.simps [of wr u s] bind_eq_Some Let_def)
    show ?thesis
    proof (cases "e1 \<noteq> kTvmErrorNoError \<or> uf_num_buffer_bytes_valid u = uf_num_buffer_bytes_valid u1")
      case True
      then have "s' = s"
        using less.prems(1) False add
        by (auto simp: FindPacketCrc_loop.simps [of wr u s] bind_eq_Some Let_def split: if_splits)
      then show ?thesis
        using less.prems(2) by simp
    next
      case go: False
      then have e1: "e1 = kTvmErrorNoError" and ne: "uf_num_buffer_bytes_valid u \<noteq> uf_num_buffer_bytes_valid u1"
        by simp_all
      obtain buffer e2 k t where b: "mem_read (uf_buffer u1) 0 (uf_num_buffer_bytes_valid u1) = Some buffer"
        "WriteAll wr s buffer = Some (e2, k, t)"
        using less.prems(1) False add e1 ne
        by (auto simp: FindPacketCrc_loop.simps [of wr u s] bind_eq_Some Let_def split: if_splits)
      show ?thesis
      proof (cases "e2 = kTvmErrorNoError")
        case True
        obtain u2 where nx: "FindPacketCrc_loop wr u2 t = Some (e, u', s')" "uf_input_size_bytes u2 = uf_input_size_bytes u1"
          using less.prems(1) False add e1 ne b True
          by (auto simp: FindPacketCrc_loop.simps [of wr u s] bind_eq_Some Let_def Unframer_ClearBuffer_def split: if_splits)
        have "uf_input_size_bytes u1 < uf_input_size_bytes u"
          using AddToBuffer_bound(3) [OF add [unfolded e1]] ne by simp
        then show ?thesis
          using less.hyps [OF _ nx(1) all [OF b(2)]] nx(2) by simp
      next
        case e2: False
        then have "s' = t"
          using less.prems(1) False add e1 ne b
          by (auto simp: FindPacketCrc_loop.simps [of wr u s] bind_eq_Some Let_def split: if_splits)
        then show ?thesis
          using all [OF b(2)] by simp
      qed
    qed
  qed
qed

lemma Unframer_Write_keeps:
  assumes wr: "\<And>s d r s'. wr s d = Some (r, s') \<Longrightarrow> I s \<Longrightarrow> I s'"
    and over: "\<And>s b s'. over s b = Some s' \<Longrightarrow> I s \<Longrightarrow> I s'"
    and run: "Unframer_Write wr over u s d = Some (e, n, u', s')" "I s"
  shows "I s'"
proof -
  have round: "I s'" if d: "Unframer_dispatch wr over u s = Some (e, u', s')" "I s" for u s e u' s'
  proof (cases "uf_state u")
    case kFindPacketCrc
    then show ?thesis
      using that FindPacketCrc_keeps [of wr I, OF wr] by (auto simp: Unframer_dispatch_def Unframer_FindPacketCrc_def)
  next
    case kFindCrcEnd
    then have "s' = s \<or> (\<exists>b. over s b = Some s')"
      using d(1) by (auto simp: Unframer_dispatch_def Unframer_FindCrcEnd_def bind_eq_Some Let_def split: if_splits)
    then show ?thesis
      using over d(2) by blast
  qed (use that in \<open>auto simp: Unframer_dispatch_def bind_eq_Some\<close>)
  have loop: "Unframer_Write_loop w f u s = Some (e, u', s') \<Longrightarrow> w = wr \<Longrightarrow> f = over \<Longrightarrow> I s \<Longrightarrow> I s'" for w f u s e u' s'
  proof (induction w f u s rule: Unframer_Write_loop.induct)
    case (1 w f u s)
    show ?case
    proof (cases "uf_input_size_bytes u = 0")
      case True
      then show ?thesis
        using "1.prems" by (simp add: Unframer_Write_loop.simps [of wr over u s])
    next
      case False
      obtain e1 u1 s1 where d: "Unframer_dispatch w f u s = Some (e1, u1, s1)"
        using "1.prems"(1) False by (auto simp: Unframer_Write_loop.simps [of w f u s] bind_eq_Some)
      have "I s1"
        using round d "1.prems"(2-4) by blast
      then show ?thesis
        using "1.prems" "1.IH" [OF False d refl refl] False d
        by (auto simp: Unframer_Write_loop.simps [of wr over u s] split: if_splits)
    qed
  qed
  show ?thesis
    using run loop by (auto simp: Unframer_Write_def bind_eq_Some Let_def)
qed

lemma server_write_reachable:
  fixes tg :: "'s target" and ss :: "'s server"
  assumes "server_write tg u ss bytes = Some (e, n, u', ss')"
    and "session_reachable (tg_write tg) (MicroRPCServer_HandleCompleteMessage tg) ss"
  shows "session_reachable (tg_write tg) (MicroRPCServer_HandleCompleteMessage tg) ss'"
proof -
  let ?R = "session_reachable (tg_write tg) (MicroRPCServer_HandleCompleteMessage tg)"
  have "?R s'" if "SessionReceiver_Write s d = Some (r, s')" "?R s" for s d r s'
    using that session_step.receive session_reachable.step by metis
  moreover have "?R s'" if "SessionReceiver_PacketDone (tg_write tg) (MicroRPCServer_HandleCompleteMessage tg) s b = Some s'" "?R s" for s b s'
    using that session_step.packet session_reachable.step by metis
  ultimately show ?thesis
    using Unframer_Write_keeps [of SessionReceiver_Write ?R] assms unfolding server_write_def by blast
qed

section \<open>The nonces\<close>

lemma InitiatorNonce_0: "InitiatorNonce 0 = 0"
  by (simp add: InitiatorNonce_def)

text \<open>
  C30. The state machine of the device keeps its nonces valid. The callback is the server's own, which
  carries out requests, sends replies and clears the receive buffer. In every state the session of the
  device can reach by its operations, in any order, with any incoming packets and over any stream, a
  session being started has a valid local nonce, which is its session id, and an established session has
  a valid initiator nonce; so no message with session id 0, the id of log messages, is ever taken for one
  of the session. Whatever bytes the server is fed, it stays in such states.
\<close>

theorem session_nonces_valid:
  assumes "session_reachable (tg_write tg) (MicroRPCServer_HandleCompleteMessage tg) ss"
  shows "(session_state ss = kStartSessionSent \<longrightarrow>
      local_nonce ss \<noteq> kInvalidNonce \<and> InitiatorNonce (session_id ss) = local_nonce ss
      \<and> ResponderNonce (session_id ss) = kInvalidNonce)
    \<and> (session_state ss = kSessionEstablished \<longrightarrow>
      InitiatorNonce (session_id ss) \<noteq> kInvalidNonce \<and> session_id ss \<noteq> 0)
    \<and> (\<forall>u bytes e n u' ss'. server_write tg u ss bytes = Some (e, n, u', ss') \<longrightarrow>
      session_reachable (tg_write tg) (MicroRPCServer_HandleCompleteMessage tg) ss')"
  using device.session_reachable_inv [OF assms] InitiatorNonce_0 server_write_reachable [OF _ assms]
  by (auto simp: session_inv_def kInvalidNonce_def)

text \<open>A server that starts a session and is answered: the session is established, with the nonces 98 and 5.\<close>

definition serial_target :: "serial target" where
  "serial_target = \<lparr>tg_write = SerialWriteStream_Write, tg_image = bare_image, tg_depth = 1, tg_stack = 0, tg_stack_code = 0\<rparr>"

theorem session_nonces_valid_witness:
  "\<exists>ss. session_reachable (tg_write serial_target) (MicroRPCServer_HandleCompleteMessage serial_target) ss
    \<and> session_state ss = kSessionEstablished \<and> InitiatorNonce (session_id ss) \<noteq> kInvalidNonce \<and> session_id ss \<noteq> 0"
proof -
  let ?wr = "SerialWriteStream_Write" and ?cb = "MicroRPCServer_HandleCompleteMessage serial_target"
  let ?fb = "FrameBuffer (replicate 32 0) 32"
  let ?c = "\<lparr>rpc_runtime = bare_runtime [] 0, rpc_arena = undefined, allow_clean_shutdown = True, is_running = True\<rparr>"
  let ?new = "Session (Framer 0) (serial.make 0 0 []) ?fb ?c"
  let ?t = "(SetSessionId 0 0 (?new\<lparr>local_nonce := 3\<rparr>))\<lparr>session_state := kNoSessionEstablished\<rparr>"
  have "serial_accepts (session_stream ?t) 100"
    by (simp add: Session_def serial_accepts_def serial.make_def)
  moreover have "2 * length ([] :: u8 list) + 21 \<le> 100"
    by simp
  ultimately obtain fr s n where
    "Session_SendInternal ?wr ?t kTerminateSession []
      = Some (kTvmErrorNoError, ?t\<lparr>session_framer := fr, session_stream := s\<rparr>)" "serial_accepts s n"
    using uart.SendInternal_ok [of ?t 100 "[]" kTerminateSession] by blast
  then have "Session_Initialize ?wr ?new 3 = Some (kTvmErrorNoError, ?t\<lparr>session_framer := fr, session_stream := s\<rparr>)"
    "g_num_bytes_written s = g_num_bytes_requested s"
    by (simp_all add: Session_Initialize_def Session_TerminateSession_def serial_accepts_def Let_def)
  then obtain s1 where s1: "Session_Initialize ?wr ?new 3 = Some (kTvmErrorNoError, s1)"
    "session_state s1 = kNoSessionEstablished" "receive_buffer s1 = FrameBuffer_Clear ?fb" "\<not> receive_buffer_has_complete_message s1"
    "g_num_bytes_written (session_stream s1) = g_num_bytes_requested (session_stream s1)"
    by (intro that) (assumption | simp add: Session_def)+
  obtain s2 where s2: "Session_StartSession ?wr s1 = Some (kTvmErrorNoError, s2)" "session_state s2 = kStartSessionSent"
    "receive_buffer s2 = FrameBuffer_Clear ?fb" "\<not> receive_buffer_has_complete_message s2"
    by (rule StartSession_ok [of s1]) (simp_all add: s1)
  have fb: "fb_wf (FrameBuffer_Clear ?fb)" "fb_contents (FrameBuffer_Clear ?fb) = []" "4 \<le> fb_room (FrameBuffer_Clear ?fb)"
    using FrameBuffer_new [of 32 "replicate 32 (0 :: u8)"] FrameBuffer_Clear_ok [of ?fb]
    by (auto simp: FrameBuffer_def)
  have ready: "rcv_ready s2 4"
    using fb s2 by (simp add: rcv_ready_def)
  let ?p = "session_header_bytes \<lparr>sh_session_id = sid (local_nonce s2) 5, sh_message_type = kStartSessionReply\<rparr> @ [kVersion]"
  have filled: "SessionReceiver_Write (rcv_filled s2 []) ?p = Some (4, rcv_filled s2 ([] @ ?p))"
    by (subst SessionReceiver_Write_fits) (use ready in \<open>simp_all add: rcv_ready_def\<close>)
  have silent: "?cb kStartSessionReply False ss = Some ss" for ss
    by (simp add: MicroRPCServer_HandleCompleteMessage_def message_type_defs)
  obtain s3 where s3: "SessionReceiver_PacketDone ?wr ?cb (rcv_filled s2 ?p) True = Some s3" "session_state s3 = kSessionEstablished"
    by (rule PacketDone_reply [where cb = ?cb and told = "\<lambda>ss. ss" and nb = 5, OF silent _ ready s2(2) refl]) simp_all
  have "session_reachable ?wr ?cb s2"
    using session_reachable.intros session_step.intros(1) [OF s1(1)] session_step.intros(3) [OF s2(1)] by metis
  moreover have "rcv_filled s2 [] = s2"
    using fb(1) s2(3) by (simp add: rcv_filled_def)
  ultimately have "session_reachable ?wr ?cb s3"
    using session_reachable.step [OF session_reachable.step [OF _ session_step.receive [OF filled]]]
      session_step.packet [OF s3(1)] by simp
  then have "session_reachable (tg_write serial_target) ?cb s3"
    by (simp add: serial_target_def)
  with session_nonces_valid [OF this] s3(2) show ?thesis
    by blast
qed

end
