(* ===== verification/Arena_Pages.thy ===== *)
theory Arena_Pages
  imports Arena
begin

text \<open>
  The pages of the arena are blocks of the heap, linked into two lists. The pieces handed out since the
  last recycling are apart and keep their contents, whatever pages they take, and no page is lost.
\<close>

section \<open>Page headers\<close>

definition first :: "addr list \<Rightarrow> addr" where
  "first qs = (case qs of [] \<Rightarrow> 0 | q # _ \<Rightarrow> q)"

lemma first_simps [simp]: "first [] = 0" "first (q # qs) = q"
  by (simp_all add: first_def)

text \<open>The contents of a page: its header, with the next page and the offset of the free part.\<close>

definition header :: "u8 list \<Rightarrow> addr \<Rightarrow> nat \<Rightarrow> bool" where
  "header bs nxt off \<longleftrightarrow> 12 \<le> off \<and> off \<le> length bs \<and> kPageSize \<le> length bs \<and> length bs < 2 ^ 31
     \<and> take 12 bs = le_bytes 4 (nat nxt) @ le_bytes 4 (length bs) @ le_bytes 4 off"

lemma header_bounds: "header bs nxt off \<Longrightarrow> 12 \<le> off \<and> off \<le> length bs \<and> length bs < 2 ^ 31"
  by (simp add: header_def)

lemma header_size: "header bs nxt off \<Longrightarrow> 2048 \<le> length bs"
  by (simp add: header_def kPageSize_def)

lemma header_parts:
  assumes "header bs nxt off"
  shows "take 4 bs = le_bytes 4 (nat nxt)" "take 4 (drop 4 bs) = le_bytes 4 (length bs)" "take 4 (drop 8 bs) = le_bytes 4 off"
proof -
  have h: "take 12 bs = le_bytes 4 (nat nxt) @ le_bytes 4 (length bs) @ le_bytes 4 off"
    using assms by (simp add: header_def)
  have "take 4 (take 12 bs) = le_bytes 4 (nat nxt)" "take 4 (drop 4 (take 12 bs)) = le_bytes 4 (length bs)"
    "take 4 (drop 8 (take 12 bs)) = le_bytes 4 off"
    unfolding h by simp_all
  then show "take 4 bs = le_bytes 4 (nat nxt)" "take 4 (drop 4 bs) = le_bytes 4 (length bs)" "take 4 (drop 8 bs) = le_bytes 4 off"
    by (simp_all add: drop_take)
qed

lemma header_next: "header bs nxt off \<Longrightarrow> header (patch bs 0 (le_bytes 4 (nat q))) q off"
proof -
  assume h: "header bs nxt off"
  then have e: "take 12 bs = le_bytes 4 (nat nxt) @ le_bytes 4 (length bs) @ le_bytes 4 off" and n: "12 \<le> length bs"
    by (auto simp: header_def)
  have "drop 4 (take 12 bs) = le_bytes 4 (length bs) @ le_bytes 4 off"
    unfolding e by simp
  then have "take 12 (patch bs 0 (le_bytes 4 (nat q))) = le_bytes 4 (nat q) @ le_bytes 4 (length bs) @ le_bytes 4 off"
    using n by (simp add: patch_def drop_take)
  then show ?thesis
    using h n by (simp add: header_def)
qed

lemma header_offset: "header bs nxt off \<Longrightarrow> 12 \<le> o' \<Longrightarrow> o' \<le> length bs \<Longrightarrow> header (patch bs 8 (le_bytes 4 o')) nxt o'"
proof -
  assume h: "header bs nxt off" "12 \<le> o'" "o' \<le> length bs"
  then have e: "take 12 bs = le_bytes 4 (nat nxt) @ le_bytes 4 (length bs) @ le_bytes 4 off"
    by (simp add: header_def)
  have "take 8 (take 12 bs) = le_bytes 4 (nat nxt) @ le_bytes 4 (length bs)"
    unfolding e by simp
  then have "take 12 (patch bs 8 (le_bytes 4 o')) = le_bytes 4 (nat nxt) @ le_bytes 4 (length bs) @ le_bytes 4 o'"
    using h(2,3) by (simp add: patch_def)
  then show ?thesis
    using h by (simp add: header_def)
qed

lemma header_patch: "header bs nxt off \<Longrightarrow> 12 \<le> k \<Longrightarrow> k + length ws \<le> length bs \<Longrightarrow> header (patch bs k ws) nxt off"
  by (auto simp: header_def patch_def)

lemma drop_patch_low: "k + length ws \<le> n \<Longrightarrow> n \<le> length bs \<Longrightarrow> drop n (patch bs k ws) = drop n bs"
  by (simp add: patch_def)

lemma patch_whole: "length ws = length bs \<Longrightarrow> patch bs 0 ws = ws"
  by (simp add: patch_def)

text \<open>What the code reads from a header it owns.\<close>

lemma le_value_le_bytes_4: "n < 2 ^ 32 \<Longrightarrow> le_value (le_bytes 4 n) = n"
  by (simp add: le_value_le_bytes)

lemma header_load:
  assumes o: "owns ps r K m" and p: "K p = Some bs" and h: "header bs nxt off" and n: "word_addr nxt"
  shows "page_next m p = nxt" "page_bytes m p = length bs" "page_offset m p = off"
proof -
  have len: "12 \<le> length bs" "length bs < 2 ^ 31"
    using header_bounds [OF h] by auto
  have l: "load_bytes (ram m) p 4 = take 4 bs" "load_bytes (ram m) (p + 4) 4 = take 4 (drop 4 bs)"
    "load_bytes (ram m) (p + 8) 4 = take 4 (drop 8 bs)"
    using owns_load [OF o p, of 0 4] owns_load [OF o p, of 4 4] owns_load [OF o p, of 8 4] len by simp_all
  show "page_next m p = nxt"
    using word_addr_bytes [OF n] by (simp add: page_next_def load_word_def l header_parts [OF h])
  show "page_bytes m p = length bs" "page_offset m p = off"
    using header_bounds [OF h] len
    by (simp_all add: page_bytes_def page_offset_def load_word_def l header_parts [OF h] le_value_le_bytes_4)
qed

lemma mstore_simps [simp]: "heap (mstore a bs m) = heap m" "ram (mstore a bs m) = store_bytes (ram m) a bs"
  by (simp_all add: mstore_def)

section \<open>The lists of pages\<close>

fun linked :: "(addr \<rightharpoonup> u8 list) \<Rightarrow> addr list \<Rightarrow> bool" where
  "linked pages [] = True"
| "linked pages (p # qs) = ((\<exists>bs off. pages p = Some bs \<and> header bs (first qs) off) \<and> linked pages qs)"

lemma linked_other: "linked pages qs \<Longrightarrow> p \<notin> set qs \<Longrightarrow> linked (pages(p \<mapsto> bs)) qs"
  by (induction qs) auto

lemma linked_page: "linked pages qs \<Longrightarrow> p \<in> set qs \<Longrightarrow> \<exists>bs nxt off. pages p = Some bs \<and> header bs nxt off \<and> (nxt = 0 \<or> nxt \<in> set qs)"
proof (induction qs)
  case (Cons q qs)
  have "first qs = 0 \<or> first qs \<in> set qs"
    by (cases qs) simp_all
  then show ?case
    using Cons by (cases "p = q") fastforce+
qed simp

text \<open>A change of a page that keeps the link in its header.\<close>

lemma linked_same:
  "linked pages qs \<Longrightarrow> (\<And>bs nxt off. pages p = Some bs \<Longrightarrow> header bs nxt off \<Longrightarrow> \<exists>off'. header bs' nxt off') \<Longrightarrow>
   linked (pages(p \<mapsto> bs')) qs"
proof (induction qs)
  case (Cons q qs)
  obtain bs off where q: "pages q = Some bs" "header bs (first qs) off"
    using Cons.prems(1) by auto
  have "\<exists>b off. (pages(p \<mapsto> bs')) q = Some b \<and> header b (first qs) off"
    using q Cons.prems(2) [OF _ q(2)] by (cases "p = q") auto
  then show ?case
    using Cons by (simp del: fun_upd_apply)
qed simp

lemma linked_append:
  assumes "linked pages qs" and "linked pages xs" and "qs \<noteq> []" and "distinct (qs @ xs)"
    and "pages (last qs) = Some bs"
  shows "linked (pages(last qs \<mapsto> patch bs 0 (le_bytes 4 (nat (first xs))))) (qs @ xs)"
  using assms
proof (induction qs)
  case (Cons q qs)
  show ?case
  proof (cases "qs = []")
    case True
    then obtain off where "header bs 0 off"
      using Cons.prems by auto
    then have "\<exists>off'. header (patch bs 0 (le_bytes 4 (nat (first xs)))) (first xs) off'"
      using header_next by blast
    then show ?thesis
      using True Cons.prems linked_other [of pages xs q] by (auto simp del: fun_upd_apply simp: fun_upd_same)
  next
    case False
    have "linked (pages(last qs \<mapsto> patch bs 0 (le_bytes 4 (nat (first xs))))) (qs @ xs)"
      by (rule Cons.IH) (use Cons.prems False in auto)
    moreover have "last qs \<noteq> q" "first (qs @ xs) = first qs"
      using False Cons.prems(4) by (auto simp: first_def split: list.splits)
    moreover obtain b off where "pages q = Some b" "header b (first qs) off"
      using Cons.prems(1) by auto
    ultimately show ?thesis
      unfolding last_ConsR [OF False] append_Cons linked.simps by (auto simp del: fun_upd_apply simp: fun_upd_other)
  qed
qed simp

definition arena_ok ::
    "nat \<Rightarrow> nat \<Rightarrow> (addr \<rightharpoonup> u8 list) \<Rightarrow> (addr \<rightharpoonup> u8 list) \<Rightarrow> addr list \<Rightarrow> addr list \<Rightarrow> arena \<Rightarrow> machine \<Rightarrow> bool" where
  "arena_ok ps r keep pages used free ar m \<longleftrightarrow> owns ps r (keep ++ pages) m \<and> dom keep \<inter> set (used @ free) = {}
     \<and> dom pages = set (used @ free) \<and> distinct (used @ free) \<and> linked pages used \<and> linked pages free
     \<and> used \<noteq> [] \<and> arena_head ar = hd used \<and> arena_tail ar = last used \<and> arena_free_list ar = first free"

lemma arena_page:
  assumes "arena_ok ps r keep pages used free ar m" and "p \<in> set (used @ free)"
  obtains bs nxt off where "pages p = Some bs" "(keep ++ pages) p = Some bs" "header bs nxt off" "word_addr nxt" "0 < p" "p < 2 ^ 32"
proof -
  have *: "linked pages used" "linked pages free" "owns ps r (keep ++ pages) m" "dom pages = set (used @ free)"
    using assms(1) by (simp_all add: arena_ok_def)
  then obtain bs nxt off where p: "pages p = Some bs" "header bs nxt off" "nxt = 0 \<or> nxt \<in> set (used @ free)"
    using linked_page [of pages used p] linked_page [of pages free p] assms(2) by fastforce
  have range: "0 < q \<and> q < 2 ^ 32" if q: "q \<in> set (used @ free)" for q
  proof -
    obtain bs' nxt' off' where b: "pages q = Some bs'" "header bs' nxt' off'"
      using linked_page [of pages used q] linked_page [of pages free q] q *(1,2) by fastforce
    then show ?thesis
      using owns_range [OF *(3), of q bs'] header_bounds [OF b(2)] by (simp add: map_add_Some_iff)
  qed
  have "word_addr nxt"
    using p(3) range [of nxt] by (auto simp: word_addr_def)
  then show thesis
    using that [of bs nxt off] p range [OF assms(2)] by (simp add: map_add_Some_iff)
qed

text \<open>Writing into a page the arena has, its link and offset unchanged or replaced.\<close>

lemma arena_pages_upd:
  assumes "arena_ok ps r keep pages used free ar m" and "p \<in> set (used @ free)" and "pages p = Some bs"
    and "k + length ws \<le> length bs"
  shows "owns ps r (keep ++ pages(p \<mapsto> patch bs k ws)) (mstore (p + int k) ws m)"
    "dom (pages(p \<mapsto> patch bs k ws)) = dom pages"
proof -
  have *: "owns ps r (keep ++ pages) m" "(keep ++ pages) p = Some bs"
    using assms(1,3) by (simp_all add: arena_ok_def map_add_Some_iff)
  show "owns ps r (keep ++ pages(p \<mapsto> patch bs k ws)) (mstore (p + int k) ws m)"
    using owns_store [OF * assms(4), of "mstore (p + int k) ws m"] by simp
  show "dom (pages(p \<mapsto> patch bs k ws)) = dom pages"
    using assms(3) by auto
qed

lemma arena_store_page:
  assumes ok: "arena_ok ps r keep pages used free ar m" and p: "p \<in> set (used @ free)" "pages p = Some bs"
    and ws: "12 \<le> k" "k + length ws \<le> length bs"
  shows "arena_ok ps r keep (pages(p \<mapsto> patch bs k ws)) used free ar (mstore (p + int k) ws m)"
proof -
  have "linked (pages(p \<mapsto> patch bs k ws)) qs" if "linked pages qs" for qs
    by (rule linked_same [OF that]) (use p(2) ws header_patch in fastforce)
  then show ?thesis
    using ok arena_pages_upd [OF ok p ws(2)] by (simp add: arena_ok_def del: fun_upd_apply)
qed

lemma arena_set_offset:
  assumes ok: "arena_ok ps r keep pages used free ar m" and p: "p \<in> set (used @ free)" "pages p = Some bs"
    and off: "12 \<le> off" "off \<le> length bs"
  shows "arena_ok ps r keep (pages(p \<mapsto> patch bs 8 (le_bytes 4 off))) used free ar (set_offset p off m)"
proof -
  have "linked (pages(p \<mapsto> patch bs 8 (le_bytes 4 off))) qs" if "linked pages qs" for qs
    by (rule linked_same [OF that]) (use p(2) off header_offset in fastforce)
  moreover have "8 + length (le_bytes 4 off) \<le> length bs"
    using off by simp
  ultimately show ?thesis
    using ok arena_pages_upd [OF ok p, of 8 "le_bytes 4 off"] by (simp add: arena_ok_def set_offset_def del: fun_upd_apply)
qed

section \<open>Recycling\<close>

lemma RecycleAll_ok:
  assumes ok: "arena_ok ps r keep pages used free ar m"
  obtains pages' m' ar' bs where "Arena_RecycleAll ar m = (ar', m')"
    "arena_ok ps r keep pages' [hd used] (tl used @ free) ar' m'"
    "pages' (hd used) = Some bs" "header bs 0 12" "length bs = length (the (pages (hd used)))"
proof -
  let ?h = "hd used" and ?t = "last used"
  have st: "used \<noteq> []" "arena_head ar = ?h" "arena_tail ar = ?t" "arena_free_list ar = first free"
    "linked pages used" "linked pages free" "distinct (used @ free)" "dom pages = set (used @ free)" "dom keep \<inter> set (used @ free) = {}"
    using ok unfolding arena_ok_def by blast+
  have mem: "?h \<in> set (used @ free)" "?t \<in> set (used @ free)"
    using st(1) by simp_all
  obtain tb tn toff where t: "pages ?t = Some tb" "header tb tn toff"
    by (rule arena_page [OF ok mem(2)])
  let ?tb = "patch tb 0 (le_bytes 4 (nat (first free)))"
  let ?m1 = "set_next ?t (first free) m" and ?p1 = "pages(?t \<mapsto> ?tb)"
  have tl4: "0 + length (le_bytes 4 (nat (first free))) \<le> length tb"
    using header_bounds [OF t(2)] by simp
  have o1: "owns ps r (keep ++ ?p1) ?m1" "dom ?p1 = dom pages"
    using arena_pages_upd [OF ok mem(2) t(1) tl4] by (simp_all add: set_next_def del: fun_upd_apply)
  have l1: "linked ?p1 (used @ free)"
    by (rule linked_append [OF st(5,6,1,7) t(1)])
  obtain xs where xs: "used @ free = ?h # xs" "xs = tl used @ free"
    using st(1) by (cases used) simp_all
  obtain hb hoff where h: "?p1 ?h = Some hb" "header hb (first xs) hoff" and l2: "linked ?p1 xs"
    using l1 unfolding xs(1) by auto
  have hk: "(keep ++ ?p1) ?h = Some hb"
    by (rule map_add_find_right) (rule h(1))
  have len: "length hb = length (the (pages ?h))"
    using h(1) t(1) tl4 by (cases "?h = ?t") auto
  have "word_addr (first xs)"
  proof (cases xs)
    case (Cons x ys)
    then have "x \<in> set (used @ free)"
      unfolding xs(1) by simp
    then show ?thesis
      by (rule arena_page [OF ok]) (simp add: Cons word_addr_def)
  qed (simp add: word_addr_def)
  then have nxt: "page_next ?m1 ?h = first xs"
    using header_load(1) [OF o1(1) hk h(2)] by simp
  let ?hb = "patch hb 0 (le_bytes 4 (nat 0))"
  let ?m2 = "set_next ?h 0 ?m1" and ?p2 = "?p1(?h \<mapsto> ?hb)"
  have o2: "owns ps r (keep ++ ?p2) ?m2"
    using owns_store [OF o1(1) hk, of 0 "le_bytes 4 (nat 0)" ?m2] header_bounds [OF h(2)]
    by (simp add: set_next_def del: fun_upd_apply)
  have hh: "header ?hb 0 hoff"
    by (rule header_next [OF h(2)])
  let ?hc = "patch ?hb 8 (le_bytes 4 12)"
  let ?m3 = "set_offset ?h sizeof_ArenaPageHeader ?m2" and ?p3 = "?p2(?h \<mapsto> ?hc)"
  have o3: "owns ps r (keep ++ ?p3) ?m3"
    using owns_store [OF o2, of ?h ?hb 8 "le_bytes 4 12" ?m3] header_bounds [OF hh]
    by (simp add: set_offset_def sizeof_ArenaPageHeader_def fun_upd_same del: fun_upd_apply)
  have hc: "header ?hc 0 12"
    using header_offset [OF hh, of 12] header_bounds [OF hh] by simp
  have notin: "?h \<notin> set xs"
    using st(7) unfolding xs(1) by simp
  have "linked ?p3 xs"
    by (rule linked_other [OF linked_other [OF l2 notin] notin])
  moreover have "linked ?p3 [?h]"
    using hc by (auto simp: first_def)
  moreover have "dom ?p3 = set ([?h] @ xs)" "dom keep \<inter> set ([?h] @ xs) = {}"
    using o1(2) st(8,9) mem(1) xs(1) by (auto simp del: fun_upd_apply)
  moreover have "distinct ([?h] @ xs)"
    using st(7) unfolding xs(1) by simp
  ultimately have "arena_ok ps r keep ?p3 [?h] xs \<lparr>arena_head = ?h, arena_tail = ?h, arena_free_list = first xs\<rparr> ?m3"
    using o3 by (simp add: arena_ok_def del: fun_upd_apply linked.simps)
  moreover have "Arena_RecycleAll ar m = (\<lparr>arena_head = ?h, arena_tail = ?h, arena_free_list = first xs\<rparr>, ?m3)"
    using st(2-4) nxt by (cases ar) (simp add: Arena_RecycleAll_def Let_def)
  ultimately show thesis
    using that [of "\<lparr>arena_head = ?h, arena_tail = ?h, arena_free_list = first xs\<rparr>" ?m3 ?p3 ?hc] hc xs(2) len
      header_bounds [OF hh] header_bounds [OF h(2)] by simp
qed

section \<open>Pieces\<close>

text \<open>A piece lies in the used part of a page, behind the header.\<close>

definition in_page :: "(addr \<rightharpoonup> u8 list) \<Rightarrow> addr list \<Rightarrow> addr \<Rightarrow> u8 list \<Rightarrow> bool" where
  "in_page pages used a bs \<longleftrightarrow> (\<exists>p\<in>set used. \<exists>pb nxt off k. pages p = Some pb \<and> header pb nxt off
     \<and> a = p + int k \<and> 12 \<le> k \<and> k + length bs \<le> off \<and> take (length bs) (drop k pb) = bs)"

lemma in_pageE:
  assumes "in_page pages used a bs"
  obtains p pb nxt off k where "p \<in> set used" "pages p = Some pb" "header pb nxt off" "a = p + int k" "12 \<le> k"
    "k + length bs \<le> off" "take (length bs) (drop k pb) = bs"
  using assms unfolding in_page_def by blast

lemma in_pageI:
  assumes "p \<in> set used" and "pages p = Some pb" and "header pb nxt off" and "a = p + int k" and "12 \<le> k"
    and "k + length bs \<le> off" and "take (length bs) (drop k pb) = bs"
  shows "in_page pages used a bs"
  using assms unfolding in_page_def by blast

text \<open>A new header that does not move the offset down.\<close>

lemma in_page_header:
  assumes "in_page pages used a bs" and "pages p = Some pb" and "drop 12 pb' = drop 12 pb"
    and "\<And>nxt off. header pb nxt off \<Longrightarrow> \<exists>nxt' off'. off \<le> off' \<and> header pb' nxt' off'"
  shows "in_page (pages(p \<mapsto> pb')) used a bs"
proof -
  obtain q qb nxt off k where q: "q \<in> set used" "pages q = Some qb" "header qb nxt off" "a = q + int k" "12 \<le> k"
    "k + length bs \<le> off" "take (length bs) (drop k qb) = bs"
    by (rule in_pageE [OF assms(1)])
  show ?thesis
  proof (cases "q = p")
    case True
    then have "qb = pb"
      using q(2) assms(2) by simp
    then obtain nxt' off' where h: "off \<le> off'" "header pb' nxt' off'"
      using assms(4) q(3) by blast
    have "drop k pb' = drop k pb"
      using assms(3) q(5) drop_drop [of "k - 12" 12 pb'] drop_drop [of "k - 12" 12 pb] by simp
    then show ?thesis
      using q h True \<open>qb = pb\<close> by (intro in_pageI [of p _ _ pb' nxt' off' a k]) auto
  next
    case False
    then show ?thesis
      using q by (intro in_pageI [of q _ _ qb nxt off a k]) auto
  qed
qed

definition pieces_ok :: "(addr \<rightharpoonup> u8 list) \<Rightarrow> addr list \<Rightarrow> (addr \<rightharpoonup> u8 list) \<Rightarrow> bool" where
  "pieces_ok pages used pieces \<longleftrightarrow> (\<forall>a bs. pieces a = Some bs \<longrightarrow> in_page pages used a bs)
     \<and> (\<forall>a bs b cs. pieces a = Some bs \<longrightarrow> pieces b = Some cs \<longrightarrow> a \<noteq> b \<longrightarrow> apart a (length bs) b (length cs))"

text \<open>
  The arena holds the pieces, with \<open>n\<close> bytes left in the page it allocates from; the rest of the heap
  holds \<open>keep\<close> and has \<open>r\<close> untouched pages. First with its pages, those in use and the recycled ones.
\<close>

definition arena_at ::
    "nat \<Rightarrow> nat \<Rightarrow> (addr \<rightharpoonup> u8 list) \<Rightarrow> (addr \<rightharpoonup> u8 list) \<Rightarrow> nat \<Rightarrow> addr list \<Rightarrow> addr list \<Rightarrow> arena \<Rightarrow> machine \<Rightarrow> bool" where
  "arena_at ps r keep pieces n used free ar m \<longleftrightarrow> (\<exists>pages pb nxt off. arena_ok ps r keep pages used free ar m
     \<and> pages (hd used) = Some pb \<and> header pb nxt off \<and> off + n \<le> length pb \<and> pieces_ok pages used pieces)"

lemma arena_atI:
  assumes "arena_ok ps r keep pages used free ar m" and "pages (hd used) = Some pb"
    and "header pb nxt off" and "off + n \<le> length pb" and "pieces_ok pages used pieces"
  shows "arena_at ps r keep pieces n used free ar m"
  using assms unfolding arena_at_def by blast

definition arena_holds ::
    "nat \<Rightarrow> nat \<Rightarrow> (addr \<rightharpoonup> u8 list) \<Rightarrow> (addr \<rightharpoonup> u8 list) \<Rightarrow> nat \<Rightarrow> arena \<Rightarrow> machine \<Rightarrow> bool" where
  "arena_holds ps r keep pieces n ar m \<longleftrightarrow> (\<exists>pages used free pb nxt off. arena_ok ps r keep pages used free ar m
     \<and> pages (hd used) = Some pb \<and> header pb nxt off \<and> off + n \<le> length pb \<and> pieces_ok pages used pieces)"

lemma arena_holdsE:
  assumes "arena_holds ps r keep pieces n ar m"
  obtains pages used free pb nxt off where "arena_ok ps r keep pages used free ar m" "pages (hd used) = Some pb"
    "header pb nxt off" "off + n \<le> length pb" "pieces_ok pages used pieces"
  using assms unfolding arena_holds_def by blast

lemma arena_holdsI:
  assumes "arena_ok ps r keep pages used free ar m" and "pages (hd used) = Some pb"
    and "header pb nxt off" and "off + n \<le> length pb" and "pieces_ok pages used pieces"
  shows "arena_holds ps r keep pieces n ar m"
  using assms unfolding arena_holds_def by blast

lemma arena_at_holds: "arena_at ps r keep pieces n used free ar m \<Longrightarrow> arena_holds ps r keep pieces n ar m"
  unfolding arena_at_def arena_holds_def by blast

lemma arena_holds_at: "arena_holds ps r keep pieces n ar m \<Longrightarrow> \<exists>used free. arena_at ps r keep pieces n used free ar m"
  unfolding arena_at_def arena_holds_def by blast

text \<open>Beside the pages \<open>qs\<close> of the arena the heap has handed out exactly the blocks \<open>base\<close>.\<close>

definition beside :: "(addr \<rightharpoonup> nat) \<Rightarrow> addr list \<Rightarrow> machine \<Rightarrow> bool" where
  "beside base qs m \<longleftrightarrow> (\<exists>live. pm_inv (heap m) live \<and> set qs \<subseteq> dom live \<and> live |` (- set qs) = base)"

lemma beside_same: "beside base qs m \<Longrightarrow> heap m' = heap m \<Longrightarrow> set qs' = set qs \<Longrightarrow> beside base qs' m'"
  by (simp add: beside_def)

lemma beside_new:
  assumes "beside base qs m" and "\<And>live. pm_inv (heap m) live \<Longrightarrow> \<exists>sz. pm_inv (heap m') (live(p \<mapsto> sz)) \<and> live p = None"
    and "set qs' = insert p (set qs)"
  shows "beside base qs' m'"
proof -
  obtain live where l: "pm_inv (heap m) live" "set qs \<subseteq> dom live" "live |` (- set qs) = base"
    using assms(1) by (auto simp: beside_def)
  obtain sz where p: "pm_inv (heap m') (live(p \<mapsto> sz))" "live p = None"
    using assms(2) [OF l(1)] by blast
  have "(live(p \<mapsto> sz)) |` (- insert p (set qs)) = live |` (- set qs)"
    using p(2) by (auto simp: restrict_map_def fun_eq_iff)
  then show ?thesis
    using p(1) l(2,3) assms(3) unfolding beside_def by (intro exI [of _ "live(p \<mapsto> sz)"]) auto
qed

definition arena_exact ::
    "nat \<Rightarrow> nat \<Rightarrow> (addr \<rightharpoonup> nat) \<Rightarrow> (addr \<rightharpoonup> u8 list) \<Rightarrow> (addr \<rightharpoonup> u8 list) \<Rightarrow> nat \<Rightarrow> arena \<Rightarrow> machine \<Rightarrow> bool" where
  "arena_exact ps r base keep pieces n ar m \<longleftrightarrow>
     (\<exists>used free. arena_at ps r keep pieces n used free ar m \<and> beside base (used @ free) m)"

lemma arena_exact_holds: "arena_exact ps r base keep pieces n ar m \<Longrightarrow> arena_holds ps r keep pieces n ar m"
  by (auto simp: arena_exact_def intro: arena_at_holds)

lemma arena_owns: "arena_ok ps r keep pages used free ar m \<Longrightarrow> owns ps r (keep ++ pages) m"
  by (simp add: arena_ok_def)

lemma arena_head_in: "arena_ok ps r keep pages used free ar m \<Longrightarrow> hd used \<in> set used"
  by (simp add: arena_ok_def)

lemma arena_block: "arena_ok ps r keep pages used free ar m \<Longrightarrow> pages q = Some qb \<Longrightarrow> (keep ++ pages) q = Some qb"
  by (simp add: map_add_Some_iff)

lemma map_add_disjoint: "dom f \<inter> dom g = {} \<Longrightarrow> f p = Some x \<Longrightarrow> (f ++ g) p = Some x"
  by (auto simp: map_add_Some_iff dom_def)

lemma arena_keep:
  assumes "arena_ok ps r keep pages used free ar m" and "keep p = Some bs"
  shows "(keep ++ pages) p = Some bs"
  using assms map_add_disjoint [of keep pages p bs] by (simp add: arena_ok_def)

lemma arena_holds_owns: "arena_holds ps r keep pieces n ar m \<Longrightarrow> owns ps r keep m"
  by (erule arena_holdsE, rule owns_fewer [OF arena_owns]) (auto simp: map_le_def arena_keep)

lemma arena_piece_load:
  assumes "arena_holds ps r keep pieces n ar m" and "pieces a = Some bs" and "k + l \<le> length bs"
  shows "load_bytes (ram m) (a + int k) l = take l (drop k bs)"
proof -
  obtain pages used free pb nxt off where st: "arena_ok ps r keep pages used free ar m" "pieces_ok pages used pieces"
    using arena_holdsE [OF assms(1)] by metis
  then obtain q qb nxt off j where q: "q \<in> set used" "pages q = Some qb" "header qb nxt off" "a = q + int j" "12 \<le> j"
    "j + length bs \<le> off" "take (length bs) (drop j qb) = bs"
    using assms(2) in_pageE unfolding pieces_ok_def by metis
  have "load_bytes (ram m) (q + int (j + k)) l = take l (drop (j + k) qb)"
    using owns_load [OF arena_owns [OF st(1)] arena_block [OF st(1) q(2)], of "j + k" l] q(6) assms(3) header_bounds [OF q(3)]
    by simp
  also have "\<dots> = take l (drop k (take (length bs) (drop j qb)))"
    using assms(3) by (simp add: drop_take min_def add.commute)
  finally show ?thesis
    using q(4,7) by (simp add: add.assoc)
qed

lemma arena_piece_range:
  assumes "arena_holds ps r keep pieces n ar m" and "pieces a = Some bs"
  shows "0 < a" "a + int (length bs) \<le> 2 ^ 32"
proof -
  obtain pages used free where st: "arena_ok ps r keep pages used free ar m" "pieces_ok pages used pieces"
    using arena_holdsE [OF assms(1)] by metis
  then obtain q qb nxt off j where q: "q \<in> set used" "pages q = Some qb" "header qb nxt off" "a = q + int j"
    "j + length bs \<le> off"
    using assms(2) in_pageE unfolding pieces_ok_def by metis
  then show "0 < a" "a + int (length bs) \<le> 2 ^ 32"
    using owns_range [OF arena_owns [OF st(1)] arena_block [OF st(1) q(2)]] header_bounds [OF q(3)] by simp_all
qed

lemma owns_apart:
  assumes "owns ps r keep m" and "keep p = Some xs" and "keep q = Some ys" and "p \<noteq> q"
  shows "apart p (length xs) q (length ys)"
proof -
  obtain live where l: "room live ps r (heap m)"
    "\<And>p bs. keep p = Some bs \<Longrightarrow> \<exists>k. live p = Some k \<and> length bs \<le> k \<and> load_bytes (ram m) p (length bs) = bs"
    using ownsE [OF assms(1)] by metis
  obtain k j where "live p = Some k" "length xs \<le> k" "live q = Some j" "length ys \<le> j"
    using l(2) assms(2,3) by meson
  then show ?thesis
    using pm_inv_blocks_apart [of "heap m" live p k q j] l(1) assms(4) by (auto simp: room_def apart_def)
qed

section \<open>Using a piece\<close>

lemma in_page_apart:
  assumes "in_page pages used a bs" and "pages p = Some pb" and "k + length ws \<le> length pb" and "12 \<le> k"
    and "apart a (length bs) (p + int k) (length ws)"
  shows "in_page (pages(p \<mapsto> patch pb k ws)) used a bs"
proof -
  obtain q qb nxt off j where q: "q \<in> set used" "pages q = Some qb" "header qb nxt off" "a = q + int j" "12 \<le> j"
    "j + length bs \<le> off" "take (length bs) (drop j qb) = bs"
    by (rule in_pageE [OF assms(1)])
  show ?thesis
  proof (cases "q = p")
    case True
    then have qb: "qb = pb"
      using q(2) assms(2) by simp
    have "take (length bs) (drop j (patch pb k ws)) = bs"
      using patch_apart [OF assms(3), of j "length bs"] q(4,7) assms(5) True qb by (auto simp: apart_def)
    then show ?thesis
      using q(1,3-6) True qb header_patch [of pb nxt off k ws] assms(3,4)
      by (intro in_pageI [of p _ _ "patch pb k ws" nxt off a j]) auto
  next
    case False
    then show ?thesis
      using q by (intro in_pageI [of q _ _ qb nxt off a j]) auto
  qed
qed

lemma take_drop_patch:
  assumes "take n (drop j pb) = bs" and "j + n \<le> length pb" and "k + length ws \<le> n" and "length bs = n"
  shows "take n (drop j (patch pb (j + k) ws)) = patch bs k ws"
  using assms by (auto simp: patch_def drop_take min_def add.commute add.left_commute)

text \<open>A store into a piece changes that piece only.\<close>

lemma arena_piece_store:
  assumes h: "arena_holds ps r keep pieces n ar m" and a: "pieces a = Some bs" and ws: "k + length ws \<le> length bs"
  shows "arena_holds ps r keep (pieces(a \<mapsto> patch bs k ws)) n ar (mstore (a + int k) ws m)"
proof -
  obtain pages used free pb nxt off where st: "arena_ok ps r keep pages used free ar m" "pages (hd used) = Some pb"
    "header pb nxt off" "off + n \<le> length pb" "pieces_ok pages used pieces"
    by (rule arena_holdsE [OF h])
  obtain q qb nxt' off' j where q: "q \<in> set used" "pages q = Some qb" "header qb nxt' off'" "a = q + int j" "12 \<le> j"
    "j + length bs \<le> off'" "take (length bs) (drop j qb) = bs"
    using st(5) a in_pageE unfolding pieces_ok_def by metis
  have fit: "j + k + length ws \<le> length qb" "j + length bs \<le> length qb"
    using q(6) ws header_bounds [OF q(3)] by simp_all
  let ?P = "pages(q \<mapsto> patch qb (j + k) ws)"
  have ok: "arena_ok ps r keep ?P used free ar (mstore (a + int k) ws m)"
    using arena_store_page [OF st(1) _ q(2), of "j + k" ws] q(1,4,5) fit by (simp add: add.assoc del: fun_upd_apply)
  have hd: "\<exists>pb'. ?P (hd used) = Some pb' \<and> header pb' nxt off \<and> length pb' = length pb"
    using st(2,3) q(2,5) fit(1) header_patch [of pb nxt off "j + k" ws] by (cases "hd used = q") auto
  have "in_page ?P used b cs" if b: "(pieces(a \<mapsto> patch bs k ws)) b = Some cs" for b cs
  proof (cases "b = a")
    case True
    then have "cs = patch bs k ws"
      using b by simp
    moreover have "take (length bs) (drop j (patch qb (j + k) ws)) = patch bs k ws"
      by (rule take_drop_patch) (use q(7) fit(2) ws in auto)
    ultimately show ?thesis
      using q header_patch [OF q(3), of "j + k" ws] fit ws True
      by (intro in_pageI [of q _ _ "patch qb (j + k) ws" nxt' off' b j]) auto
  next
    case False
    then have p: "in_page pages used b cs" "apart b (length cs) a (length bs)"
      using b st(5) a unfolding pieces_ok_def by auto
    show ?thesis
      by (rule in_page_apart [OF p(1) q(2)]) (use fit(1) q(4,5) p(2) ws in \<open>auto simp: apart_def\<close>)
  qed
  moreover have "apart b (length cs) c (length ds)"
    if "(pieces(a \<mapsto> patch bs k ws)) b = Some cs" "(pieces(a \<mapsto> patch bs k ws)) c = Some ds" "b \<noteq> c" for b cs c ds
    using that st(5) a ws unfolding pieces_ok_def by (auto split: if_splits)
  ultimately have "pieces_ok ?P used (pieces(a \<mapsto> patch bs k ws))"
    unfolding pieces_ok_def by blast
  then show ?thesis
    using ok hd st(4) arena_holdsI [OF ok] by metis
qed

section \<open>Allocating\<close>

lemma UpperAlign_bounds:
  assumes "0 < align" and "off + align \<le> 2 ^ 32"
  shows "off \<le> UpperAlign off align" "UpperAlign off align < off + align"
proof -
  have "(align - off mod align) mod align < align"
    using assms(1) by simp
  then show "off \<le> UpperAlign off align" "UpperAlign off align < off + align"
    using assms(2) by (simp_all add: UpperAlign_def)
qed

lemma UpperAlign_dvd:
  assumes "0 < align" and "off + align \<le> 2 ^ 32"
  shows "align dvd UpperAlign off align"
proof -
  have "(align - off mod align) mod align < align"
    using assms(1) by simp
  then have "UpperAlign off align = off + (align - off mod align) mod align"
    using assms(2) by (simp add: UpperAlign_def)
  moreover have "(off + (align - off mod align) mod align) mod align = (off mod align + (align - off mod align)) mod align"
    by (simp add: mod_add_left_eq mod_add_right_eq)
  moreover have "off mod align + (align - off mod align) = align"
    using mod_less_divisor [OF assms(1), of off] by simp
  ultimately show ?thesis
    by (metis dvd_eq_mod_eq_0 mod_self)
qed

text \<open>A new piece behind the offset of the head page, with the contents of the memory there.\<close>

lemma arena_new_piece:
  assumes ok: "arena_ok ps r keep pages used free ar m" and hd: "pages (hd used) = Some pb" "header pb nxt off'"
    and old: "\<And>b cs. pieces b = Some cs \<Longrightarrow> in_page pages used b cs"
      "\<And>b cs c ds. pieces b = Some cs \<Longrightarrow> pieces c = Some ds \<Longrightarrow> b \<noteq> c \<Longrightarrow> apart b (length cs) c (length ds)"
    and below: "\<And>b cs j. pieces b = Some cs \<Longrightarrow> b = hd used + int j \<Longrightarrow> 12 \<le> j \<Longrightarrow> j \<le> length pb \<Longrightarrow> j + length cs \<le> o'"
    and k: "12 \<le> o'" "o' + k \<le> off'"
  shows "pieces_ok pages used (pieces(hd used + int o' \<mapsto> take k (drop o' pb)))"
    "pieces (hd used + int o') = None \<or> pieces (hd used + int o') = Some []"
proof -
  let ?a = "hd used + int o'"
  have h: "hd used \<in> set used" and len: "off' \<le> length pb"
    using arena_head_in [OF ok] header_bounds [OF hd(2)] by simp_all
  have low: "b + int (length cs) \<le> ?a \<or> ?a + int k \<le> b" if b: "pieces b = Some cs" for b cs
  proof -
    obtain q qb nxt' off1 j where q: "q \<in> set used" "pages q = Some qb" "header qb nxt' off1" "b = q + int j" "12 \<le> j"
      "j + length cs \<le> off1"
      using old(1) [OF b] in_pageE by metis
    show ?thesis
    proof (cases "q = hd used")
      case True
      then have "j + length cs \<le> o'"
        using below [OF b] q(2-6) hd(1) header_bounds [OF q(3)] by simp
      then show ?thesis
        using q(4) True by simp
    next
      case False
      then have "apart q (length qb) (hd used) (length pb)"
        using owns_apart [OF arena_owns [OF ok] arena_block [OF ok q(2)] arena_block [OF ok hd(1)]] by simp
      then show ?thesis
        using q(4-6) header_bounds [OF q(3)] k len by (auto simp: apart_def)
    qed
  qed
  have new: "in_page pages used ?a (take k (drop o' pb))"
    by (rule in_pageI [of "hd used" _ pages pb nxt off' _ o', OF h hd]) (use k len in \<open>auto simp: min_def\<close>)
  have lenk: "length (take k (drop o' pb)) = k"
    using k len by simp
  show "pieces_ok pages used (pieces(?a \<mapsto> take k (drop o' pb)))"
    unfolding pieces_ok_def
  proof (intro conjI allI impI)
    fix b cs
    assume "(pieces(?a \<mapsto> take k (drop o' pb))) b = Some cs"
    then show "in_page pages used b cs"
      using new old(1) by (auto split: if_splits)
  next
    fix b cs c ds
    assume "(pieces(?a \<mapsto> take k (drop o' pb))) b = Some cs" "(pieces(?a \<mapsto> take k (drop o' pb))) c = Some ds" "b \<noteq> c"
    then show "apart b (length cs) c (length ds)"
      using old(2) [of b cs c ds] low [of b cs] low [of c ds] lenk by (auto simp: apart_def split: if_splits)
  qed
  show "pieces ?a = None \<or> pieces ?a = Some []"
  proof (cases "pieces ?a")
    case (Some cs)
    then have "o' + length cs \<le> o'"
      using below [OF Some refl k(1)] k(2) len by simp
    then show ?thesis
      using Some by simp
  qed simp
qed

lemma header_unique: "header bs n1 o1 \<Longrightarrow> header bs n2 o2 \<Longrightarrow> o1 = o2"
  using header_parts(3) [of bs n1 o1] header_parts(3) [of bs n2 o2] le_bytes_inj [of o1 4 o2]
    header_bounds [of bs n1 o1] header_bounds [of bs n2 o2] by simp

lemma head_page_reads:
  assumes ok: "arena_ok ps r keep pages used free ar m" and pb: "pages (hd used) = Some pb" "header pb nxt off"
  shows "page_bytes m (hd used) = length pb" "page_offset m (hd used) = off"
proof -
  have "hd used \<in> set (used @ free)"
    using ok by (simp add: arena_ok_def)
  then obtain bs nx off' where p: "pages (hd used) = Some bs" "header bs nx off'" "word_addr nx"
    by (rule arena_page [OF ok])
  have "header pb nx off"
    using p pb header_unique [OF pb(2)] by auto
  then show "page_bytes m (hd used) = length pb" "page_offset m (hd used) = off"
    using header_load [OF arena_owns [OF ok] arena_block [OF ok pb(1)] _ p(3)] by simp_all
qed

lemma Alloc_head:
  assumes st: "arena_ok ps r keep pages used free ar m" "pages (hd used) = Some pb" "header pb nxt off" "pieces_ok pages used pieces"
    and al: "0 < align" "align \<le> 2 ^ 31" and room: "UpperAlign off align + k + n \<le> length pb"
  obtains m' where "Arena_Alloc ar k align m = Some (hd used + int (UpperAlign off align), ar, m')"
    "pieces (hd used + int (UpperAlign off align)) = None \<or> pieces (hd used + int (UpperAlign off align)) = Some []"
    "arena_at ps r keep (pieces(hd used + int (UpperAlign off align) \<mapsto> load_bytes (ram m') (hd used + int (UpperAlign off align)) k)) n
       used free ar m'" "heap m' = heap m"
proof -
  let ?h = "hd used" and ?o = "UpperAlign off align"
  have b: "12 \<le> off" "off \<le> length pb" "length pb < 2 ^ 31"
    using header_bounds [OF st(3)] by simp_all
  have o: "off \<le> ?o" "?o < off + align"
    using UpperAlign_bounds [OF al(1), of off] al(2) b(2,3) by simp_all
  have head: "arena_head ar = ?h" "?h \<in> set (used @ free)" "?h \<in> set used"
    using st(1) by (simp_all add: arena_ok_def)
  have rd: "page_bytes m ?h = length pb" "page_offset m ?h = off"
    by (rule head_page_reads [OF st(1-3)])+
  let ?m = "set_offset ?h (?o + k) m" and ?pb = "patch pb 8 (le_bytes 4 (?o + k))"
  let ?P = "pages(?h \<mapsto> ?pb)"
  have fit: "?o + k + n \<le> length pb" "12 \<le> ?o + k" "?o + k \<le> length pb"
    using o room b by simp_all
  have ok: "arena_ok ps r keep ?P used free ar ?m"
    by (rule arena_set_offset [OF st(1) head(2) st(2) fit(2,3)])
  have hd: "?P ?h = Some ?pb" "header ?pb nxt (?o + k)" "length ?pb = length pb"
    using header_offset [OF st(3) fit(2,3)] fit b by simp_all
  have in1: "in_page ?P used c cs" if "pieces c = Some cs" for c cs
  proof (rule in_page_header [of pages used c cs ?h pb])
    show "in_page pages used c cs"
      using st(4) that unfolding pieces_ok_def by blast
    fix nxt' off'
    assume p: "header pb nxt' off'"
    have "off' = off"
      by (rule header_unique [OF p st(3)])
    then show "\<exists>nxt'' off''. off' \<le> off'' \<and> header ?pb nxt'' off''"
      using header_offset [OF p fit(2,3)] o(1) by (intro exI [of _ nxt'] exI [of _ "?o + k"]) simp
  qed (use st(2) b fit in \<open>simp_all add: drop_patch_low\<close>)
  have below: "j + length cs \<le> ?o" if c: "pieces c = Some cs" "c = ?h + int j" "12 \<le> j" "j \<le> length ?pb" for c cs j
  proof -
    have "in_page pages used c cs"
      using st(4) c(1) unfolding pieces_ok_def by blast
    then obtain q qb nxt' off1 i where q: "q \<in> set used" "pages q = Some qb" "header qb nxt' off1" "c = q + int i" "12 \<le> i"
      "i + length cs \<le> off1"
      using in_pageE by metis
    show ?thesis
    proof (cases "q = ?h")
      case True
      then have "off1 = off" "i = j"
        using header_unique [of pb nxt' off1 nxt off] q(2-4) st(2,3) c(2) by auto
      then show ?thesis
        using q(6) o(1) by simp
    next
      case False
      then have "apart q (length qb) ?h (length pb)"
        using owns_apart [OF arena_owns [OF st(1)] arena_block [OF st(1) q(2)] arena_block [OF st(1,2)]] by simp
      then show ?thesis
        using q(4-6) header_bounds [OF q(3)] c(2-4) hd(3) by (auto simp: apart_def)
    qed
  qed
  have load: "load_bytes (ram ?m) (?h + int ?o) k = take k (drop ?o ?pb)"
    using owns_load [OF arena_owns [OF ok] arena_block [OF ok hd(1)], of ?o k] fit hd(3) by simp
  have "pieces_ok ?P used (pieces(?h + int ?o \<mapsto> take k (drop ?o ?pb)))" and fresh: "pieces (?h + int ?o) = None \<or> pieces (?h + int ?o) = Some []"
    by (rule arena_new_piece [OF ok hd(1,2) in1 _ below];
        (use st(4) o b in \<open>auto simp: pieces_ok_def\<close>))+
  then have "arena_at ps r keep (pieces(?h + int ?o \<mapsto> load_bytes (ram ?m) (?h + int ?o) k)) n used free ar ?m"
    unfolding load by (intro arena_atI [OF ok hd(1,2)]) (use fit hd(3) in \<open>simp_all del: fun_upd_apply\<close>)
  moreover have "Arena_Alloc ar k align m = Some (?h + int ?o, ar, ?m)"
    using rd fit(3) b(3) by (simp add: Arena_Alloc_def head(1) Let_def)
  moreover have "heap ?m = heap m"
    by (simp add: set_offset_def)
  ultimately show thesis
    using that fresh by blast
qed

lemma Alloc_fits:
  assumes h: "arena_holds ps r keep pieces (k + align + n) ar m" and al: "0 < align" "align \<le> 2 ^ 31"
  obtains a m' where "Arena_Alloc ar k align m = Some (a, ar, m')" "pieces a = None \<or> pieces a = Some []"
    "arena_holds ps r keep (pieces(a \<mapsto> load_bytes (ram m') a k)) n ar m'"
proof -
  obtain pages used free pb nxt off where st: "arena_ok ps r keep pages used free ar m" "pages (hd used) = Some pb"
    "header pb nxt off" "off + (k + align + n) \<le> length pb" "pieces_ok pages used pieces"
    by (rule arena_holdsE [OF h])
  have "UpperAlign off align + k + n \<le> length pb"
    using UpperAlign_bounds [OF al(1), of off] al(2) st(4) header_bounds [OF st(3)] by simp
  then show thesis
    by (rule Alloc_head [OF st(1-3,5) al]) (rule that, assumption+, erule arena_at_holds)
qed

section \<open>Fresh pages\<close>

text \<open>The size of the page taken for a request of \<open>n\<close> bytes, and how many pages of the heap it is.\<close>

definition page_size_for :: "nat \<Rightarrow> nat" where
  "page_size_for n = (n + kPageSize - 1) div kPageSize * kPageSize"

lemma page_size_for_bounds: "0 < n \<Longrightarrow> n \<le> page_size_for n \<and> page_size_for n < n + kPageSize \<and> kPageSize \<le> page_size_for n \<and> page_size_for n mod 8 = 0"
proof -
  assume n: "0 < n"
  let ?q = "(n + 2047) div 2048"
  have "?q * 2048 \<le> n + 2047"
    by (rule div_times_less_eq_dividend)
  moreover have "n + 2047 < 2048 + ?q * 2048"
    by (rule dividend_less_div_times) simp
  moreover have "1 \<le> ?q"
    using n by (simp add: less_eq_div_iff_mult_less_eq)
  moreover have "?q * 2048 = ?q * 256 * 8"
    by simp
  then have "?q * 2048 mod 8 = 0"
    by (metis mod_mult_self2_is_0)
  moreover have "page_size_for n = ?q * 2048"
    by (simp add: page_size_for_def kPageSize_def)
  ultimately show ?thesis
    by (simp add: kPageSize_def)
qed

lemma PageAllocator_allocate_owns:
  assumes o: "owns ps (pages_of ps (page_size_for n) + r) keep m" and n: "0 < n" "n < 2 ^ 30"
  obtains p m' bs where "PageAllocator_allocate m n = Some (p, m')" "keep p = None" "0 < p" "p < 2 ^ 32"
    "owns ps r (keep(p \<mapsto> bs)) m'" "length bs = page_size_for n"
    "take 8 (drop 4 bs) = le_bytes 4 (page_size_for n) @ le_bytes 4 12"
    "\<And>live. pm_inv (heap m) live \<Longrightarrow> \<exists>sz. pm_inv (heap m') (live(p \<mapsto> sz)) \<and> live p = None \<and> pm_low (heap m') = pm_low (heap m)"
proof -
  let ?n = "page_size_for n"
  have b: "n \<le> ?n" "?n < n + 2048" "2048 \<le> ?n" "?n mod 8 = 0"
    using page_size_for_bounds [OF n(1)] by (simp_all add: kPageSize_def)
  have n': "0 < ?n" "?n < 2 ^ 31"
    using b n by simp_all
  have sz: "(n + kPageSize - 1) mod 2 ^ 32 div kPageSize * kPageSize = ?n" "?n mod 2 ^ 32 = ?n"
    using n n'(2) by (simp_all add: page_size_for_def kPageSize_def)
  have eq: "((?n + 8 + 2 ^ 32 - 1) mod 2 ^ 32 div 8 * 8) mod 2 ^ 32 = ?n"
  proof -
    have "(?n + 8 + 2 ^ 32 - 1) mod 2 ^ 32 = ?n + 7"
      using n'(2) mod_add_self2 [of "?n + 7" "2 ^ 32"] by simp
    moreover have "(?n + 7) div 8 * 8 = ?n"
      using b(4) by presburger
    ultimately show ?thesis
      using n'(2) by simp
  qed
  obtain p h where a: "PageMemoryManager_Allocate (heap m) ?n = Some (kTvmErrorNoError, p, h)" "keep p = None" "0 < p"
    "p + int ?n \<le> 2 ^ 32"
    "\<And>bs m'. length bs = ?n \<Longrightarrow> heap m' = h \<Longrightarrow> ram m' = store_bytes (ram m) p bs \<Longrightarrow> owns ps r (keep(p \<mapsto> bs)) m'"
    by (rule owns_alloc [OF o n']) (rule that, assumption+)
  let ?m0 = "m\<lparr>heap := h\<rparr>" and ?b0 = "load_bytes (ram m) p ?n"
  have id: "store_bytes (ram m) p ?b0 = ram m"
    by (rule ext) (auto simp: store_bytes_def load_bytes_nth nat_less_iff)
  have o0: "owns ps r (keep(p \<mapsto> ?b0)) ?m0"
    by (rule a(5)) (simp_all add: id)
  let ?b1 = "patch ?b0 4 (le_bytes 4 ?n)" and ?m1 = "set_size p ?n ?m0"
  have o1: "owns ps r (keep(p \<mapsto> ?b1)) ?m1"
    using owns_store [OF o0, of p ?b0 4 "le_bytes 4 ?n" ?m1] b(3) by (simp add: set_size_def)
  let ?b2 = "patch ?b1 8 (le_bytes 4 12)" and ?m2 = "set_offset p sizeof_ArenaPageHeader ?m1"
  have o2: "owns ps r (keep(p \<mapsto> ?b2)) ?m2"
    using owns_store [OF o1, of p ?b1 8 "le_bytes 4 12" ?m2] b(3) by (simp add: set_offset_def sizeof_ArenaPageHeader_def)
  have "PageAllocator_allocate m n = Some (p, ?m2)"
    using a(1) eq by (simp add: PageAllocator_allocate_def TVMDeviceAllocDataSpace_def sz [simplified] kPageAlign_def Let_def)
  moreover have "take 8 (drop 4 ?b2) = le_bytes 4 ?n @ le_bytes 4 12"
    using b(3) by (simp add: patch_def drop_take)
  moreover have "length ?b2 = ?n"
    using b(3) by simp
  moreover have "\<exists>sz. pm_inv (heap ?m2) (live(p \<mapsto> sz)) \<and> live p = None \<and> pm_low (heap ?m2) = pm_low (heap m)" if "pm_inv (heap m) live" for live
  proof -
    have "page_size (heap m) \<le> 2 ^ 31"
      using o unfolding owns_def room_def by auto
    then have "pm_fits (heap m) ?n"
      using n' by (simp add: pm_fits_def)
    from PageMemoryManager_Allocate_ok [OF that this] show ?thesis
      using a(1) by (auto simp: set_offset_def set_size_def)
  qed
  ultimately show thesis
    using that [of p ?m2 ?b2] o2 a(2-4) b(3) by simp
qed

text \<open>The arena starts with one page.\<close>

lemma GenericArena_exact:
  assumes o: "owns ps (pages_of ps kPageSize + r) keep m" and base: "pm_inv (heap m) base"
  obtains ar m' where "GenericArena m = Some (ar, m')" "arena_exact ps r base keep Map.empty 2036 ar m'"
proof -
  have one: "page_size_for 1 = kPageSize"
    by (simp add: page_size_for_def kPageSize_def)
  obtain p m1 bs where a: "PageAllocator_allocate m 1 = Some (p, m1)" "keep p = None" "0 < p" "p < 2 ^ 32"
    "owns ps r (keep(p \<mapsto> bs)) m1" "length bs = page_size_for 1"
    "take 8 (drop 4 bs) = le_bytes 4 (page_size_for 1) @ le_bytes 4 12"
    "\<And>live. pm_inv (heap m) live \<Longrightarrow> \<exists>sz. pm_inv (heap m1) (live(p \<mapsto> sz)) \<and> live p = None \<and> pm_low (heap m1) = pm_low (heap m)"
    by (rule PageAllocator_allocate_owns [of ps 1 r keep m]) (use o one in \<open>auto simp del: One_nat_def\<close>)
  let ?b = "patch bs 0 (le_bytes 4 (nat 0))" and ?m = "set_next p 0 m1"
  let ?ar = "\<lparr>arena_head = p, arena_tail = p, arena_free_list = 0\<rparr>"
  have len: "length bs = 2048"
    using a(6) one by (simp add: kPageSize_def)
  have o2: "owns ps r (keep(p \<mapsto> ?b)) ?m"
    using owns_store [OF a(5), of p bs 0 "le_bytes 4 (nat 0)" ?m] len by (simp add: set_next_def)
  have "take 12 ?b = le_bytes 4 (nat 0) @ take 8 (drop 4 bs)"
    using len by (simp add: patch_def)
  then have h: "header ?b 0 12" "length ?b = 2048"
    using len a(7) one by (simp_all add: header_def kPageSize_def)
  have "keep ++ [p \<mapsto> ?b] = keep(p \<mapsto> ?b)"
    by simp
  then have "arena_ok ps r keep [p \<mapsto> ?b] [p] [] ?ar ?m"
    using o2 h(1) a(2) unfolding arena_ok_def by (auto simp: dom_def simp del: map_add_upd)
  then have "arena_at ps r keep Map.empty 2036 [p] [] ?ar ?m"
    by (rule arena_atI) (use h in \<open>auto simp: pieces_ok_def\<close>)
  moreover have "beside base [p] ?m"
    by (rule beside_new [of base "[]" m]) (use base a(8) in \<open>auto simp: beside_def set_next_def restrict_map_def\<close>)
  ultimately have "arena_exact ps r base keep Map.empty 2036 ?ar ?m"
    unfolding arena_exact_def by (intro exI [of _ "[p]"] exI [of _ "[]"]) simp
  then show thesis
    using that a(1) by (simp add: GenericArena_def del: One_nat_def)
qed

lemma GenericArena_ok:
  assumes o: "owns ps (pages_of ps kPageSize + r) keep m"
  obtains ar m' where "GenericArena m = Some (ar, m')" "arena_holds ps r keep Map.empty 2036 ar m'"
proof -
  obtain live where "pm_inv (heap m) live"
    using o by (auto simp: owns_def room_def)
  then show thesis
    by (rule GenericArena_exact [OF o]) (auto simp: arena_exact_def intro: that arena_at_holds)
qed

text \<open>After a recycling nothing is handed out and the head page is free behind its header.\<close>

lemma RecycleAll_holds:
  assumes h: "arena_holds ps r keep pieces n ar m"
  obtains ar' m' where "Arena_RecycleAll ar m = (ar', m')" "arena_holds ps r keep Map.empty 2036 ar' m'"
proof -
  obtain pages used free where st: "arena_ok ps r keep pages used free ar m"
    using arena_holdsE [OF h] by metis
  obtain pages' m' ar' bs where rc: "Arena_RecycleAll ar m = (ar', m')"
    "arena_ok ps r keep pages' [hd used] (tl used @ free) ar' m'"
    "pages' (hd used) = Some bs" "header bs 0 12" "length bs = length (the (pages (hd used)))"
    by (rule RecycleAll_ok [OF st])
  have "arena_holds ps r keep Map.empty 2036 ar' m'"
    by (rule arena_holdsI [OF rc(2), of bs 0 12]) (use rc(3,4) header_size [OF rc(4)] in \<open>auto simp: pieces_ok_def\<close>)
  then show thesis
    using that rc(1) by blast
qed

lemma RecycleAll_exact:
  assumes h: "arena_exact ps r base keep pieces n ar m"
  obtains ar' m' where "Arena_RecycleAll ar m = (ar', m')" "arena_exact ps r base keep Map.empty 2036 ar' m'"
proof -
  obtain used free pages where st: "arena_ok ps r keep pages used free ar m" "beside base (used @ free) m"
    using h unfolding arena_exact_def arena_at_def by blast
  obtain pages' m' ar' bs where rc: "Arena_RecycleAll ar m = (ar', m')"
    "arena_ok ps r keep pages' [hd used] (tl used @ free) ar' m'"
    "pages' (hd used) = Some bs" "header bs 0 12" "length bs = length (the (pages (hd used)))"
    by (rule RecycleAll_ok [OF st(1)])
  have "arena_at ps r keep Map.empty 2036 [hd used] (tl used @ free) ar' m'"
    by (rule arena_atI [OF rc(2), of bs 0 12]) (use rc(3,4) header_size [OF rc(4)] in \<open>auto simp: pieces_ok_def\<close>)
  moreover have "heap m' = heap m"
    using rc(1) by (auto simp: Arena_RecycleAll_def Let_def set_next_def set_offset_def)
  moreover have "set ([hd used] @ tl used @ free) = set (used @ free)"
    using st(1) by (cases used) (simp_all add: arena_ok_def)
  ultimately show thesis
    using that rc(1) beside_same [OF st(2)] unfolding arena_exact_def by metis
qed

text \<open>A page put before the others, with its first piece behind the header.\<close>

lemma in_page_push:
  assumes "in_page pages used a bs" and "p \<notin> set used"
  shows "in_page (pages(p \<mapsto> pb)) (p # used) a bs"
  using assms unfolding in_page_def by fastforce

lemma arena_push:
  assumes o: "owns ps r (keep ++ pages(p \<mapsto> bs)) m" and bs: "take 4 (drop 4 bs) = le_bytes 4 (length bs)" "kPageSize \<le> length bs" "length bs < 2 ^ 31"
    and pg: "used \<noteq> []" "linked pages used" "linked pages free" "distinct (p # used @ free)"
      "insert p (dom pages) = set (p # used @ free)" "dom keep \<inter> set (p # used @ free) = {}"
    and ar: "arena_tail ar = last used" "arena_free_list ar = first free"
    and pc: "pieces_ok pages used pieces" and k: "12 \<le> o'" "o' + k \<le> length bs"
    and m': "m' = set_offset p (o' + k) (set_next p (hd used) m)"
  shows "arena_at ps r keep (pieces(p + int o' \<mapsto> load_bytes (ram m') (p + int o') k)) (length bs - (o' + k)) (p # used) free
      (ar\<lparr>arena_head := p\<rparr>) m'"
    "pieces (p + int o') = None \<or> pieces (p + int o') = Some []"
proof -
  let ?b1 = "patch bs 0 (le_bytes 4 (nat (hd used)))"
  let ?b2 = "patch ?b1 8 (le_bytes 4 (o' + k))"
  let ?P = "pages(p \<mapsto> ?b2)" and ?ar = "ar\<lparr>arena_head := p\<rparr>"
  have len: "2048 \<le> length bs"
    using bs(2) by (simp add: kPageSize_def)
  have o1: "owns ps r (keep ++ pages(p \<mapsto> ?b1)) (set_next p (hd used) m)"
    using owns_store [OF o, of p bs 0 "le_bytes 4 (nat (hd used))" "set_next p (hd used) m"] len by (simp add: set_next_def)
  have o2: "owns ps r (keep ++ ?P) m'"
    using owns_store [OF o1, of p ?b1 8 "le_bytes 4 (o' + k)" m'] len by (simp add: m' set_offset_def)
  have "take 12 ?b2 = le_bytes 4 (nat (hd used)) @ take 4 (drop 4 bs) @ le_bytes 4 (o' + k)"
    using len by (simp add: patch_def drop_take)
  then have h: "header ?b2 (hd used) (o' + k)" "length ?b2 = length bs"
    using bs k len by (simp_all add: header_def)
  have "first used = hd used"
    using pg(1) by (cases used) simp_all
  moreover have "linked ?P used" "linked ?P free"
    using linked_other [OF pg(2), of p ?b2] linked_other [OF pg(3), of p ?b2] pg(4) by simp_all
  ultimately have ok: "arena_ok ps r keep ?P (p # used) free ?ar m'"
    using o2 h(1) pg ar unfolding arena_ok_def by (auto simp: dom_def fun_upd_def split: if_splits)
  have old: "in_page ?P (p # used) c cs" if "pieces c = Some cs" for c cs
    by (rule in_page_push) (use pc pg(4) that in \<open>auto simp: pieces_ok_def\<close>)
  have below: "j + length cs \<le> o'" if c: "pieces c = Some cs" "c = hd (p # used) + int j" "12 \<le> j" "j \<le> length ?b2" for c cs j
  proof -
    have "in_page pages used c cs"
      using pc c(1) unfolding pieces_ok_def by blast
    then obtain q qb nxt' off1 i where q: "q \<in> set used" "pages q = Some qb" "header qb nxt' off1" "c = q + int i" "12 \<le> i"
      "i + length cs \<le> off1"
      using in_pageE by metis
    have "q \<noteq> p"
      using q(1) pg(4) by auto
    then have "apart q (length qb) p (length ?b2)"
      using owns_apart [OF arena_owns [OF ok] arena_block [OF ok, of q qb] arena_block [OF ok, of p ?b2]] q(2) by simp
    then show ?thesis
      using q(4-6) header_bounds [OF q(3)] c(2-4) by (auto simp: apart_def)
  qed
  have hd: "?P (hd (p # used)) = Some ?b2"
    by simp
  have load: "load_bytes (ram m') (p + int o') k = take k (drop o' ?b2)"
    using owns_load [OF arena_owns [OF ok] arena_block [OF ok hd], of o' k] k h(2) by simp
  have "pieces_ok ?P (p # used) (pieces(hd (p # used) + int o' \<mapsto> take k (drop o' ?b2)))"
    and fresh: "pieces (hd (p # used) + int o') = None \<or> pieces (hd (p # used) + int o') = Some []"
    by (rule arena_new_piece [OF ok hd h(1) old _ below]; (use pc k in \<open>auto simp: pieces_ok_def\<close>))+
  then show "arena_at ps r keep (pieces(p + int o' \<mapsto> load_bytes (ram m') (p + int o') k)) (length bs - (o' + k)) (p # used) free ?ar m'"
    unfolding load by (intro arena_atI [OF ok hd h(1)]) (use k h(2) in \<open>simp_all del: fun_upd_apply\<close>)
  show "pieces (p + int o') = None \<or> pieces (p + int o') = Some []"
    using fresh by simp
qed

text \<open>
  The general case: the piece comes from the head page, from the first free page or from a new page.
\<close>

lemma arena_drop_free:
  assumes "arena_ok ps r keep pages used (f # fs) ar m"
  obtains fb off where "pages f = Some fb" "header fb (first fs) off" "page_next m f = first fs" "page_bytes m f = length fb" "f \<noteq> 0"
proof -
  have f: "f \<in> set (used @ f # fs)" and l: "linked pages (f # fs)"
    using assms by (simp_all add: arena_ok_def)
  obtain fb nx off where p: "pages f = Some fb" "header fb nx off" "word_addr nx" "0 < f"
    by (rule arena_page [OF assms f])
  obtain off' where h: "header fb (first fs) off'"
    using l p(1) by auto
  have "word_addr (first fs)"
  proof (cases fs)
    case (Cons g gs)
    then have "g \<in> set (used @ f # fs)"
      by simp
    then show ?thesis
      by (rule arena_page [OF assms]) (simp add: Cons word_addr_def)
  qed (simp add: word_addr_def)
  then show thesis
    using that [OF p(1) h] header_load [OF arena_owns [OF assms] arena_block [OF assms p(1)] h] p(4) by simp
qed

lemma Alloc_at:
  assumes h: "arena_at ps (pages_of ps (page_size_for (UpperAlign 12 align + k)) + r) keep pieces n used free ar m"
    and al: "0 < align" "align \<le> 2 ^ 28" and k: "k < 2 ^ 29"
  obtains q o' ar' m' r' n' used' free' where "Arena_Alloc ar k align m = Some (q + int o', ar', m')"
    "pieces (q + int o') = None \<or> pieces (q + int o') = Some []" "align dvd o'" "used' \<noteq> []" "hd used' = q"
    "arena_at ps r' keep (pieces(q + int o' \<mapsto> load_bytes (ram m') (q + int o') k)) n' used' free' ar' m'" "r \<le> r'"
    "\<And>base. beside base (used @ free) m \<Longrightarrow> beside base (used' @ free') m' \<and> pm_low (heap m') = pm_low (heap m)"
proof -
  let ?r = "pages_of ps (page_size_for (UpperAlign 12 align + k)) + r" and ?o = "UpperAlign 12 align"
  obtain pages pb nxt off where st: "arena_ok ps ?r keep pages used free ar m" "pages (hd used) = Some pb"
    "header pb nxt off" "pieces_ok pages used pieces"
    using h unfolding arena_at_def by blast
  have ok: "owns ps ?r (keep ++ pages) m" "dom keep \<inter> set (used @ free) = {}" "dom pages = set (used @ free)" "distinct (used @ free)"
    "linked pages used" "linked pages free" "used \<noteq> []" "arena_head ar = hd used" "arena_tail ar = last used" "arena_free_list ar = first free"
    using st(1) unfolding arena_ok_def by blast+
  have o: "12 \<le> ?o" "?o < 12 + align"
    using UpperAlign_bounds [OF al(1), of 12] al(2) by simp_all
  have small: "?o + k < 2 ^ 32" "?o + k < 2 ^ 31" "0 < ?o + k"
    using o al(2) k by simp_all
  have ou: "UpperAlign off align + k < 2 ^ 32"
    using UpperAlign_bounds [OF al(1), of off] header_bounds [OF st(3)] al(2) k by simp
  have dv: "align dvd ?o" "align dvd UpperAlign off align"
    using UpperAlign_dvd [OF al(1), of 12] UpperAlign_dvd [OF al(1), of off] al(2) header_bounds [OF st(3)] by simp_all
  note rd = head_page_reads [OF st(1-3)]
  consider (head) "UpperAlign off align + k \<le> length pb"
    | (recycled) "length pb < UpperAlign off align + k" "arena_free_list ar \<noteq> 0" "?o + k \<le> page_bytes m (arena_free_list ar)"
    | (new) "length pb < UpperAlign off align + k" "\<not> (arena_free_list ar \<noteq> 0 \<and> ?o + k \<le> page_bytes m (arena_free_list ar))"
    by linarith
  then show thesis
  proof cases
    case head
    obtain m' where m': "Arena_Alloc ar k align m = Some (hd used + int (UpperAlign off align), ar, m')"
      "pieces (hd used + int (UpperAlign off align)) = None \<or> pieces (hd used + int (UpperAlign off align)) = Some []"
      "arena_at ps ?r keep (pieces(hd used + int (UpperAlign off align) \<mapsto> load_bytes (ram m') (hd used + int (UpperAlign off align)) k)) 0
         used free ar m'" "heap m' = heap m"
    proof (rule Alloc_head [OF st(1-4) al(1), of k 0])
      show "UpperAlign off align + k + 0 \<le> length pb" "align \<le> 2 ^ 31"
        using head al(2) by simp_all
    qed (rule that)
    show thesis
      by (rule that [OF m'(1,2) dv(2) ok(7) refl m'(3)]) (use beside_same [OF _ m'(4)] m'(4) in auto)
  next
    case recycled
    then obtain f fs where fr: "free = f # fs"
      using ok(10) by (cases free) simp_all
    obtain fb foff where f: "pages f = Some fb" "header fb (first fs) foff" "page_next m f = first fs" "page_bytes m f = length fb" "f \<noteq> 0"
      using arena_drop_free [of ps ?r keep pages used f fs ar m] st(1) fr by metis
    let ?ar = "ar\<lparr>arena_free_list := first fs\<rparr>" and ?m = "set_offset f (?o + k) (set_next f (hd used) m)"
    have "pages(f \<mapsto> fb) = pages"
      using f(1) by auto
    then have o1: "owns ps ?r (keep ++ pages(f \<mapsto> fb)) m"
      using ok(1) by simp
    have sz: "kPageSize \<le> length fb" "length fb < 2 ^ 31" and fit: "?o + k \<le> length fb"
      using header_size [OF f(2)] header_bounds [OF f(2)] recycled(3) f(4) ok(10) fr by (simp_all add: kPageSize_def)
    have lk: "linked pages fs"
      using ok(6) fr by simp
    have "insert f (dom pages) = dom pages" "distinct (used @ f # fs)"
      using ok(4) f(1) fr by auto
    then have dj: "distinct (f # used @ fs)" "insert f (dom pages) = set (f # used @ fs)" "dom keep \<inter> set (f # used @ fs) = {}"
      using ok(2,3) fr by auto
    have new: "arena_at ps ?r keep (pieces(f + int ?o \<mapsto> load_bytes (ram ?m) (f + int ?o) k)) (length fb - (?o + k)) (f # used) fs
        (?ar\<lparr>arena_head := f\<rparr>) ?m"
      and old: "pieces (f + int ?o) = None \<or> pieces (f + int ?o) = Some []"
      by (rule arena_push [where ar = ?ar, OF o1 header_parts(2) [OF f(2)] sz ok(7,5) lk dj _ _ st(4) o(1) fit refl]; simp add: ok(9))+
    have run: "Arena_Alloc ar k align m = Some (f + int ?o, ?ar\<lparr>arena_head := f\<rparr>, ?m)"
      using rd recycled fr f(3-5) ok(8,10) ou small(1) by (simp add: Arena_Alloc_def Let_def sizeof_ArenaPageHeader_def)
    have "heap ?m = heap m" "set ((f # used) @ fs) = set (used @ free)"
      using fr by (auto simp: set_next_def set_offset_def)
    then show thesis
      by (intro that [OF run old dv(1) _ _ new]) (use beside_same in auto)
  next
    case new
    obtain p m1 bs where a: "PageAllocator_allocate m (?o + k) = Some (p, m1)" "(keep ++ pages) p = None" "0 < p" "p < 2 ^ 32"
      "owns ps r ((keep ++ pages)(p \<mapsto> bs)) m1" "length bs = page_size_for (?o + k)"
      "take 8 (drop 4 bs) = le_bytes 4 (page_size_for (?o + k)) @ le_bytes 4 12"
      "\<And>live. pm_inv (heap m) live \<Longrightarrow> \<exists>sz. pm_inv (heap m1) (live(p \<mapsto> sz)) \<and> live p = None \<and> pm_low (heap m1) = pm_low (heap m)"
      by (rule PageAllocator_allocate_owns [of ps "?o + k" r "keep ++ pages" m]) (use ok(1) small o al(2) k in auto)
    have b: "?o + k \<le> length bs" "kPageSize \<le> length bs" "length bs < ?o + k + kPageSize"
      using page_size_for_bounds [OF small(3)] a(6) by simp_all
    have "take 4 (take 8 (drop 4 bs)) = le_bytes 4 (length bs)"
      unfolding a(7) by (simp add: a(6))
    then have sz: "take 4 (drop 4 bs) = le_bytes 4 (length bs)"
      by simp
    have fresh: "keep p = None" "pages p = None"
      using a(2) by (auto simp: map_add_None)
    let ?m = "set_offset p (?o + k) (set_next p (hd used) m1)"
    have o1: "owns ps r (keep ++ pages(p \<mapsto> bs)) m1"
      using a(5) by simp
    have np: "p \<notin> set (used @ free)" "p \<notin> dom keep"
      using fresh ok(3) by auto
    have dj: "distinct (p # used @ free)" "insert p (dom pages) = set (p # used @ free)" "dom keep \<inter> set (p # used @ free) = {}"
      using np ok(2-4) by (simp_all add: Int_insert_right)
    have len: "length bs < 2 ^ 31"
      using b(3) o(2) al(2) k by (simp add: kPageSize_def)
    have new': "arena_at ps r keep (pieces(p + int ?o \<mapsto> load_bytes (ram ?m) (p + int ?o) k)) (length bs - (?o + k)) (p # used) free
        (ar\<lparr>arena_head := p\<rparr>) ?m"
      and old: "pieces (p + int ?o) = None \<or> pieces (p + int ?o) = Some []"
      by (rule arena_push [OF o1 sz b(2) len ok(7,5,6) dj ok(9,10) st(4) o(1) b(1) refl])+
    have run: "Arena_Alloc ar k align m = Some (p + int ?o, ar\<lparr>arena_head := p\<rparr>, ?m)"
      using rd new ok(8) ou small(1) a(1) by (auto simp: Arena_Alloc_def Let_def sizeof_ArenaPageHeader_def)
    have bes: "beside base ((p # used) @ free) ?m \<and> pm_low (heap ?m) = pm_low (heap m)" if b: "beside base (used @ free) m" for base
    proof
      show "beside base ((p # used) @ free) ?m"
        by (rule beside_new [OF b]) (use a(8) in \<open>auto simp: set_next_def set_offset_def\<close>)
      show "pm_low (heap ?m) = pm_low (heap m)"
        using b a(8) by (auto simp: beside_def set_next_def set_offset_def)
    qed
    show thesis
      by (intro that [OF run old dv(1) _ _ new']) (use bes in auto)
  qed
qed

lemma Alloc_exact:
  assumes h: "arena_exact ps (pages_of ps (page_size_for (UpperAlign 12 align + k)) + r) base keep pieces n ar m"
    and al: "0 < align" "align \<le> 2 ^ 28" and k: "k < 2 ^ 29"
  obtains a ar' m' r' n' where "Arena_Alloc ar k align m = Some (a, ar', m')" "pieces a = None \<or> pieces a = Some []"
    "int align dvd a - arena_head ar'" "int align dvd pm_low (heap m) \<Longrightarrow> align dvd ps \<Longrightarrow> int align dvd a"
    "arena_exact ps r' base keep (pieces(a \<mapsto> load_bytes (ram m') a k)) n' ar' m'" "r \<le> r'"
proof -
  obtain used free where st: "arena_at ps (pages_of ps (page_size_for (UpperAlign 12 align + k)) + r) keep pieces n used free ar m"
    "beside base (used @ free) m"
    using h unfolding arena_exact_def by blast
  obtain q o' ar' m' r' n' used' free' where a: "Arena_Alloc ar k align m = Some (q + int o', ar', m')"
    "pieces (q + int o') = None \<or> pieces (q + int o') = Some []" "align dvd o'" "used' \<noteq> []" "hd used' = q"
    "arena_at ps r' keep (pieces(q + int o' \<mapsto> load_bytes (ram m') (q + int o') k)) n' used' free' ar' m'" "r \<le> r'"
    "beside base (used' @ free') m' \<and> pm_low (heap m') = pm_low (heap m)"
    by (rule Alloc_at [OF st(1) al k]) (use st(2) that in blast)
  obtain pages where ok: "arena_ok ps r' keep pages used' free' ar' m'"
    using a(6) unfolding arena_at_def by blast
  have head: "arena_head ar' = q"
    using a(5) ok unfolding arena_ok_def by simp
  then have "int align dvd q + int o' - arena_head ar'"
    using a(3) by simp
  moreover have "int align dvd q + int o'" if al: "int align dvd pm_low (heap m)" "align dvd ps"
  proof -
    obtain live where live: "pm_inv (heap m') live" "page_size (heap m') = ps"
      using arena_owns [OF ok] by (auto simp: owns_def room_def)
    have "q \<in> set (used' @ free')"
      using a(4,5) by auto
    then obtain bs where "(keep ++ pages) q = Some bs"
      by (rule arena_page [OF ok])
    then obtain sz where "live q = Some sz"
      using owns_live [OF arena_owns [OF ok] _ live(1)] by metis
    then obtain c where "q = pm_low (heap m) + int (c * ps)"
      using block_address [OF live(1)] live(2) a(8) by metis
    then show ?thesis
      using al a(3) by simp
  qed
  moreover have "arena_exact ps r' base keep (pieces(q + int o' \<mapsto> load_bytes (ram m') (q + int o') k)) n' ar' m'"
    using a(6,8) unfolding arena_exact_def by blast
  ultimately show thesis
    using that [of "q + int o'" ar' m' r' n'] a(1,2,7) head by blast
qed

section \<open>Giving the pages back\<close>

lemma linked_mono: "linked pages qs \<Longrightarrow> (\<And>q. q \<in> set qs \<Longrightarrow> pages' q = pages q) \<Longrightarrow> linked pages' qs"
  by (induction qs) auto

lemma linked_word: "owns ps r K m \<Longrightarrow> linked K qs \<Longrightarrow> word_addr (first qs)"
proof (cases qs)
  case (Cons q xs)
  assume "owns ps r K m" "linked K qs"
  then obtain bs off where q: "K q = Some bs" "header bs (first xs) off"
    using Cons by auto
  then show ?thesis
    using owns_range [OF \<open>owns ps r K m\<close> q(1)] header_bounds [OF q(2)] Cons by (simp add: word_addr_def)
qed (simp add: word_addr_def)

lemma FreePageList_ok:
  "owns ps r K m \<Longrightarrow> linked K qs \<Longrightarrow> distinct qs \<Longrightarrow>
   \<exists>m'. FreePageList (first qs) m = Some m' \<and> owns ps r (K |` (- set qs)) m'
     \<and> (\<forall>live. pm_inv (heap m) live \<longrightarrow> pm_inv (heap m') (live |` (- set qs)))"
proof (induction qs arbitrary: K m)
  case Nil
  then show ?case
    by (simp add: FreePageList.simps [of 0] restrict_map_def)
next
  case (Cons q qs)
  obtain bs off where q: "K q = Some bs" "header bs (first qs) off"
    using Cons.prems(2) by auto
  have w: "word_addr (first qs)"
    using linked_word [OF Cons.prems(1)] Cons.prems(2) by simp
  have nxt: "page_next m q = first qs" and q0: "q \<noteq> 0"
    using header_load(1) [OF Cons.prems(1) q w] owns_range(1) [OF Cons.prems(1) q(1)] by simp_all
  obtain h where h: "PageMemoryManager_Free (heap m) q = Some (kTvmErrorNoError, h)"
    "\<And>m'. heap m' = h \<Longrightarrow> ram m' = ram m \<Longrightarrow> owns ps r (K(q := None)) m'"
    using owns_free [OF Cons.prems(1) q(1)] by metis
  let ?m = "m\<lparr>heap := h\<rparr>"
  have o: "owns ps r (K(q := None)) ?m"
    by (rule h(2)) simp_all
  have l: "linked (K(q := None)) qs" and d: "distinct qs"
    by (rule linked_mono [of K], use Cons.prems(2,3) in auto)
  obtain m' where m': "FreePageList (first qs) ?m = Some m'" "owns ps r ((K(q := None)) |` (- set qs)) m'"
    "\<forall>live. pm_inv (heap ?m) live \<longrightarrow> pm_inv (heap m') (live |` (- set qs))"
    using Cons.IH [OF o l d] by blast
  have "pm_inv (heap m') (live |` (- set (q # qs)))" if live: "pm_inv (heap m) live" for live
  proof -
    obtain sz where "live q = Some sz"
      using owns_live [OF Cons.prems(1) q(1) live] by blast
    from PageMemoryManager_Free_ok [OF live this] have "pm_inv (heap ?m) (live(q := None))"
      using h(1) by auto
    moreover have "(live(q := None)) |` (- set qs) = live |` (- set (q # qs))"
      by (auto simp: restrict_map_def fun_eq_iff)
    ultimately show ?thesis
      using m'(3) by metis
  qed
  note exact = this
  have "(K(q := None)) |` (- set qs) = K |` (- set (q # qs))"
    by (auto simp: restrict_map_def fun_eq_iff)
  moreover have "FreePageList (first (q # qs)) m = Some m'"
    using m'(1) h(1) nxt q0
    by (simp add: FreePageList.simps [of q] PageAllocator_deallocate_def TVMDeviceFreeDataSpace_def Let_def)
  ultimately show ?case
    using m'(2) exact by auto
qed

lemma FreeAll_exact:
  assumes "arena_exact ps r base keep pieces n ar m"
  obtains ar' m' where "Arena_FreeAll ar m = Some (ar', m')" "owns ps r keep m'" "pm_inv (heap m') base"
proof -
  obtain pages used free where st: "arena_ok ps r keep pages used free ar m" and "beside base (used @ free) m"
    using assms unfolding arena_exact_def arena_at_def by blast
  then obtain live where live: "pm_inv (heap m) live" "live |` (- set (used @ free)) = base"
    unfolding beside_def by blast
  have ok: "owns ps r (keep ++ pages) m" "dom keep \<inter> set (used @ free) = {}" "dom pages = set (used @ free)"
    "distinct (used @ free)" "linked pages used" "linked pages free" "used \<noteq> []" "arena_head ar = hd used" "arena_free_list ar = first free"
    using st unfolding arena_ok_def by blast+
  have eq: "(keep ++ pages) q = pages q" if "q \<in> set (used @ free)" for q
  proof -
    have "q \<in> dom pages"
      using that ok(3) by blast
    then show ?thesis
      by (auto simp: map_add_def dom_def)
  qed
  have l: "linked (keep ++ pages) used" "linked ((keep ++ pages) |` (- set used)) free"
    by (rule linked_mono [OF ok(5)], use eq in simp, rule linked_mono [OF ok(6)],
      use eq ok(4) in \<open>auto simp: restrict_map_def disjoint_iff\<close>)
  obtain m1 where m1: "FreePageList (first used) m = Some m1" "owns ps r ((keep ++ pages) |` (- set used)) m1"
    "pm_inv (heap m1) (live |` (- set used))"
    using live(1) FreePageList_ok [OF ok(1) l(1)] ok(4) by auto
  obtain m2 where m2: "FreePageList (first free) m1 = Some m2" "owns ps r ((keep ++ pages) |` (- set used) |` (- set free)) m2"
    "pm_inv (heap m2) (live |` (- set used) |` (- set free))"
    using m1(3) FreePageList_ok [OF m1(2) l(2)] ok(4) by auto
  have "first used = arena_head ar"
    using ok(7,8) by (cases used) simp_all
  then have "Arena_FreeAll ar m = Some (ar\<lparr>arena_head := 0, arena_free_list := 0\<rparr>, m2)"
    using m1(1) m2(1) ok(9) by (simp add: Arena_FreeAll_def)
  moreover have "(keep ++ pages) q = keep q \<and> q \<notin> set used \<and> q \<notin> set free" if "keep q \<noteq> None" for q
  proof -
    have "q \<notin> set (used @ free)" "q \<notin> dom pages"
      using that ok(2,3) by auto
    then show ?thesis
      by (simp add: map_add_def domIff)
  qed
  then have "keep \<subseteq>\<^sub>m (keep ++ pages) |` (- set used) |` (- set free)"
    by (auto simp: map_le_def restrict_map_def dom_def)
  then have "owns ps r keep m2"
    using owns_fewer [OF m2(2)] by simp
  moreover have "live |` (- set used) |` (- set free) = base"
    unfolding live(2) [symmetric] by (auto simp: restrict_map_def fun_eq_iff)
  ultimately show thesis
    using that m2(3) by metis
qed

lemma FreeAll_ok:
  assumes "arena_holds ps r keep pieces n ar m"
  obtains ar' m' where "Arena_FreeAll ar m = Some (ar', m')" "owns ps r keep m'"
proof -
  obtain used free where at: "arena_at ps r keep pieces n used free ar m"
    using arena_holds_at [OF assms] by blast
  then obtain pages where ok: "arena_ok ps r keep pages used free ar m"
    unfolding arena_at_def by blast
  obtain live where live: "pm_inv (heap m) live"
    using arena_owns [OF ok] by (auto simp: owns_def room_def)
  have "set (used @ free) \<subseteq> dom live"
  proof
    fix q
    assume "q \<in> set (used @ free)"
    then obtain bs nxt off where "(keep ++ pages) q = Some bs"
      by (rule arena_page [OF ok])
    from owns_live [OF arena_owns [OF ok] this live] show "q \<in> dom live"
      by blast
  qed
  then have "beside (live |` (- set (used @ free))) (used @ free) m"
    using live unfolding beside_def by blast
  then show thesis
    using FreeAll_exact that at unfolding arena_exact_def by metis
qed

end
