(* ===== verification/Rpc_Channel_Facts.thy ===== *)
theory Rpc_Channel_Facts
  imports Rpc_Server Arena_Pages Session_Protocol
begin

text \<open>
  What the primitives of the channel do when nothing goes wrong: a reply is one frame on the wire, a
  read takes the next bytes of the request, and an allocation is a new piece of the arena.
\<close>

section \<open>Replies\<close>

lemma server_fields [simp]:
  "session_framer (set_runtime rt ss) = session_framer ss" "session_stream (set_runtime rt ss) = session_stream ss"
  "receive_buffer (set_runtime rt ss) = receive_buffer ss" "callback_context (set_runtime rt ss) = (callback_context ss)\<lparr>rpc_runtime := rt\<rparr>"
  "session_framer (set_machine m ss) = session_framer ss" "session_stream (set_machine m ss) = session_stream ss"
  "receive_buffer (set_machine m ss) = receive_buffer ss"
  "callback_context (set_machine m ss) = (callback_context ss)\<lparr>rpc_runtime := (srv_runtime ss)\<lparr>rt_machine := m\<rparr>\<rparr>"
  "session_framer (set_arena ar ss) = session_framer ss" "session_stream (set_arena ar ss) = session_stream ss"
  "receive_buffer (set_arena ar ss) = receive_buffer ss" "callback_context (set_arena ar ss) = (callback_context ss)\<lparr>rpc_arena := ar\<rparr>"
  "session_framer (set_flags b ss) = session_framer ss" "session_stream (set_flags b ss) = session_stream ss"
  "receive_buffer (set_flags b ss) = receive_buffer ss" "callback_context (set_flags b ss) = (callback_context ss)\<lparr>allow_clean_shutdown := b\<rparr>"
  by (simp_all add: set_runtime_def set_machine_def set_arena_def set_flags_def)

lemma WriteRawBytes_chunk:
  assumes "Framer_WritePayloadChunk wr (session_framer ss) (session_stream ss) c = Some (kTvmErrorNoError, fr, s)"
    and "c \<noteq> []" and "length c < 2 ^ 31"
  shows "MinRPCReturns_WriteRawBytes wr c ss = Some (ss\<lparr>session_framer := fr, session_stream := s\<rparr>)"
  using assms
  by (simp add: MinRPCReturns_WriteRawBytes.simps [of wr c ss] MinRPCReturns_WriteRawBytes.simps [of wr "[]"]
      MicroIOHandler_PosixWrite_def Session_SendBodyChunk_def sint_of_nat_u32 Let_def)

lemma write_chunks_framer:
  "Framer_WriteChunks wr (session_framer ss) (session_stream ss) (filter (\<lambda>c. c \<noteq> []) cs) = Some (kTvmErrorNoError, fr, s) \<Longrightarrow>
   (\<forall>c\<in>set cs. length c < 2 ^ 31) \<Longrightarrow> write_chunks wr cs ss = Some (ss\<lparr>session_framer := fr, session_stream := s\<rparr>)"
proof (induction cs arbitrary: ss)
  case Nil
  then show ?case by simp
next
  case (Cons c cs)
  show ?case
  proof (cases "c = []")
    case True
    then show ?thesis
      using Cons.IH [of ss] Cons.prems by (simp add: MinRPCReturns_WriteRawBytes.simps [of wr "[]"])
  next
    case False
    obtain e fr1 s1 where w: "Framer_WritePayloadChunk wr (session_framer ss) (session_stream ss) c = Some (e, fr1, s1)"
      using Cons.prems(1) False by (auto simp: bind_eq_Some)
    have e: "e = kTvmErrorNoError"
      using Cons.prems(1) False w by (auto split: if_splits)
    let ?ss = "ss\<lparr>session_framer := fr1, session_stream := s1\<rparr>"
    have "write_chunks wr cs ?ss = Some (?ss\<lparr>session_framer := fr, session_stream := s\<rparr>)"
      by (rule Cons.IH) (use Cons.prems False w e in auto)
    then show ?thesis
      using WriteRawBytes_chunk [of wr ss c fr1 s1] w e False Cons.prems(2) by simp
  qed
qed

lemma concat_filter_nonempty: "concat (filter (\<lambda>c. c \<noteq> []) cs) = concat cs"
  by (induction cs) auto

text \<open>The bytes of a message: its length and its parts.\<close>

definition packet_bytes :: "u8 list \<Rightarrow> u8 list" where
  "packet_bytes body = le_bytes 8 (length body) @ body"

lemma length_packet_bytes [simp]: "length (packet_bytes body) = length body + 8"
  by (simp add: packet_bytes_def)

context write_stream
begin

lemma send_reply_ok:
  assumes acc: "accepts (session_stream ss) n" and n: "2 * length (concat parts) + 37 \<le> n" "n < 2 ^ 31"
  obtains fr s where "send_reply wr (length (concat parts)) parts ss = Some (ss\<lparr>session_framer := fr, session_stream := s\<rparr>)"
    "fr_state fr = kIdle"
    "out s = out (session_stream ss) @ lead (session_framer ss)
       @ frame_packet (session_header_bytes (message_header ss kNormal) @ packet_bytes (concat parts))"
    "accepts s (n - length (lead (session_framer ss)
       @ frame_packet (session_header_bytes (message_header ss kNormal) @ packet_bytes (concat parts))))"
proof -
  let ?h = "session_header_bytes (message_header ss kNormal)"
  let ?b = "concat parts"
  let ?cs = "le_bytes 8 (length ?b) # parts"
  let ?fs = "filter (\<lambda>c. c \<noteq> []) ?cs"
  have cc: "concat (?h # ?fs) = ?h @ packet_bytes ?b"
    unfolding concat.simps concat_filter_nonempty by (simp add: packet_bytes_def)
  have "length (lead (session_framer ss) @ frame_packet (concat (?h # ?fs))) \<le> n"
    unfolding cc using length_frame_packet [of "?h @ packet_bytes ?b"] n(1) by (simp add: lead_def)
  then obtain fr s where snd: "Framer_Send wr (session_framer ss) (session_stream ss) (?h # ?fs) = Some (kTvmErrorNoError, fr, s)"
    "fr_state fr = kIdle" "out s = out (session_stream ss) @ lead (session_framer ss) @ frame_packet (?h @ packet_bytes ?b)"
    "accepts s (n - length (lead (session_framer ss) @ frame_packet (?h @ packet_bytes ?b)))"
    using Send_ok [OF acc, of "session_framer ss" "?h # ?fs"] unfolding cc by blast
  have len: "length (concat (?h # ?fs)) = length ?b + 8 + 3"
    unfolding cc by simp
  obtain e1 fr1 s1 where 1: "Framer_StartPacket wr (session_framer ss) (session_stream ss) (length ?b + 8 + 3) = Some (e1, fr1, s1)"
    using snd(1) unfolding Framer_Send_def len by (auto simp: bind_eq_Some)
  have e1: "e1 = kTvmErrorNoError"
    using snd(1) 1 unfolding Framer_Send_def len by (auto split: if_splits)
  obtain e2 fr2 s2 where 2: "Framer_WritePayloadChunk wr fr1 s1 ?h = Some (e2, fr2, s2)"
    using snd(1) 1 e1 unfolding Framer_Send_def len by (auto simp: bind_eq_Some)
  have e2: "e2 = kTvmErrorNoError"
    using snd(1) 1 2 e1 unfolding Framer_Send_def len by (auto split: if_splits)
  obtain e3 fr3 s3 where 3: "Framer_WriteChunks wr fr2 s2 ?fs = Some (e3, fr3, s3)"
    using snd(1) 1 2 e1 e2 unfolding Framer_Send_def len by (auto simp: bind_eq_Some)
  have e3: "e3 = kTvmErrorNoError"
    using snd(1) 1 2 3 e1 e2 unfolding Framer_Send_def len by (auto split: if_splits)
  have 4: "Framer_FinishPacket wr fr3 s3 = Some (kTvmErrorNoError, fr, s)"
    using snd(1) 1 2 3 e1 e2 e3 unfolding Framer_Send_def len by simp
  have small: "length c < 2 ^ 31" if "c \<in> set ?cs" for c
  proof (cases "c = le_bytes 8 (length ?b)")
    case False
    then have "length c \<le> length ?b"
      using that by (auto simp: length_concat intro: member_le_sum_list)
    then show ?thesis
      using n by simp
  qed simp
  have h: "message_header ss kNormal = \<lparr>sh_session_id = session_id ss, sh_message_type = kNormal\<rparr>"
    by (simp add: message_header_def)
  have sz: "length ?b mod 2 ^ 32 = length ?b" "(length ?b + 8) mod 2 ^ 32 = length ?b + 8"
    using n by simp_all
  have "MicroIOHandler_MessageStart wr (length ?b mod 2 ^ 32) ss = Some (ss\<lparr>session_framer := fr2, session_stream := s2\<rparr>)"
    using 1 2 e1 e2
    by (simp add: MicroIOHandler_MessageStart_def Session_StartMessage_def sizeof_SessionHeader_def sz [simplified] h Let_def)
  moreover have "write_chunks wr ?cs (ss\<lparr>session_framer := fr2, session_stream := s2\<rparr>)
      = Some (ss\<lparr>session_framer := fr3, session_stream := s3\<rparr>)"
    using write_chunks_framer [of wr "ss\<lparr>session_framer := fr2, session_stream := s2\<rparr>" ?cs fr3 s3] 3 e3 small by simp
  moreover have "MicroIOHandler_MessageDone wr (ss\<lparr>session_framer := fr3, session_stream := s3\<rparr>)
      = Some (ss\<lparr>session_framer := fr, session_stream := s\<rparr>)"
    using 4 by (simp add: MicroIOHandler_MessageDone_def Session_FinishMessage_def)
  ultimately have "send_reply wr (length ?b) parts ss = Some (ss\<lparr>session_framer := fr, session_stream := s\<rparr>)"
    by (simp add: send_reply_def del: write_chunks.simps)
  then show thesis
    using that snd by blast
qed

end

section \<open>Reading into the arena\<close>

text \<open>
  While a request is read only the buffer, the arena and the memory change: the connection and the rest
  of the runtime stay as they were.
\<close>

definition quiet :: "'s server \<Rightarrow> 's server \<Rightarrow> bool" where
  "quiet ss ss' \<longleftrightarrow> session_framer ss' = session_framer ss \<and> session_stream ss' = session_stream ss
     \<and> session_id ss' = session_id ss \<and> session_state ss' = session_state ss \<and> local_nonce ss' = local_nonce ss
     \<and> receive_buffer_has_complete_message ss' = receive_buffer_has_complete_message ss
     \<and> fb_capacity (receive_buffer ss') = fb_capacity (receive_buffer ss)
     \<and> is_running (callback_context ss') = is_running (callback_context ss)
     \<and> srv_runtime ss' = (srv_runtime ss)\<lparr>rt_machine := srv_machine ss'\<rparr>"

lemma quiet_refl [simp]: "quiet ss ss"
  by (simp add: quiet_def)

lemma runtime_machine_trans:
  "b = a\<lparr>rt_machine := rt_machine b\<rparr> \<Longrightarrow> c = b\<lparr>rt_machine := rt_machine c\<rparr> \<Longrightarrow> c = a\<lparr>rt_machine := rt_machine c\<rparr>"
  for a b c :: runtime
  by (cases a; cases b; cases c) simp

lemma quiet_trans [trans]: "quiet ss ss' \<Longrightarrow> quiet ss' ss'' \<Longrightarrow> quiet ss ss''"
proof -
  assume q: "quiet ss ss'" "quiet ss' ss''"
  then have "srv_runtime ss'' = (srv_runtime ss)\<lparr>rt_machine := srv_machine ss''\<rparr>"
    unfolding quiet_def by (blast intro: runtime_machine_trans)
  then show ?thesis
    using q unfolding quiet_def by (intro conjI) (elim conjE, assumption | elim conjE, metis)+
qed

text \<open>\<open>ys\<close> is what is left of the request.\<close>

definition serving ::
    "nat \<Rightarrow> nat \<Rightarrow> (addr \<rightharpoonup> u8 list) \<Rightarrow> (addr \<rightharpoonup> u8 list) \<Rightarrow> nat \<Rightarrow> u8 list \<Rightarrow> 's server \<Rightarrow> bool" where
  "serving ps r keep pieces n ys ss \<longleftrightarrow> fb_wf (receive_buffer ss) \<and> fb_contents (receive_buffer ss) = ys
     \<and> arena_holds ps r keep pieces n (rpc_arena (callback_context ss)) (srv_machine ss)"

lemma arena_holds_less: "arena_holds ps r keep pieces n ar m \<Longrightarrow> n' \<le> n \<Longrightarrow> arena_holds ps r keep pieces n' ar m"
  by (erule arena_holdsE) (auto intro: arena_holdsI)

lemma serving_less: "serving ps r keep pieces n ys ss \<Longrightarrow> n' \<le> n \<Longrightarrow> serving ps r keep pieces n' ys ss"
  by (auto simp: serving_def intro: arena_holds_less)

lemma serving_read:
  assumes "serving ps r keep pieces n (xs @ ys) ss"
  obtains ss' where "MinRPCServer_ReadRawBytes (length xs) ss = Some (xs, ss')" "serving ps r keep pieces n ys ss'" "quiet ss ss'"
    "callback_context ss' = callback_context ss"
proof (cases "xs = []")
  case True
  then show thesis
    using that [of ss] assms by (simp add: MinRPCServer_ReadRawBytes.simps [of 0])
next
  case False
  have fb: "fb_wf (receive_buffer ss)" "fb_contents (receive_buffer ss) = xs @ ys"
    using assms by (simp_all add: serving_def)
  obtain fb where fb: "FrameBuffer_Read (receive_buffer ss) (length xs) = Some (xs, fb)" "fb_wf fb" "fb_contents fb = ys"
    "fb_capacity fb = fb_capacity (receive_buffer ss)"
    using FrameBuffer_Read_ok [OF fb(1), of "length xs"] fb(2) by auto
  let ?ss = "ss\<lparr>receive_buffer := fb\<rparr>"
  have "MinRPCServer_ReadRawBytes (length xs) ss = Some (xs, ?ss)"
    using fb(1) False
    by (simp add: MinRPCServer_ReadRawBytes.simps [of "length xs"] MinRPCServer_ReadRawBytes.simps [of 0] MicroIOHandler_PosixRead_def)
  moreover have "serving ps r keep pieces n ys ?ss"
    using assms fb(2,3) by (simp add: serving_def)
  ultimately show thesis
    by (rule that) (use fb(4) in \<open>simp_all add: quiet_def\<close>)
qed

lemma serving_read_nat:
  assumes "serving ps r keep pieces n (le_bytes k v @ ys) ss" and "v < 256 ^ k"
  obtains ss' where "read_nat k ss = Some (v, ss')" "serving ps r keep pieces n ys ss'" "quiet ss ss'"
    "callback_context ss' = callback_context ss"
proof -
  obtain ss' where "MinRPCServer_ReadRawBytes (length (le_bytes k v)) ss = Some (le_bytes k v, ss')" "serving ps r keep pieces n ys ss'"
    "quiet ss ss'" "callback_context ss' = callback_context ss"
    by (rule serving_read [OF assms(1)])
  then show thesis
    using that [of ss'] assms(2) by (simp add: read_nat_def le_value_le_bytes)
qed

lemma serving_read_int:
  assumes "serving ps r keep pieces n (i32_bytes v @ ys) ss" and "i32_ok v"
  obtains ss' where "read_int ss = Some (v, ss')" "serving ps r keep pieces n ys ss'" "quiet ss ss'"
    "callback_context ss' = callback_context ss"
proof -
  have "length (i32_bytes v) = 4"
    by (simp add: i32_bytes_def)
  then obtain ss' where "MinRPCServer_ReadRawBytes 4 ss = Some (i32_bytes v, ss')" "serving ps r keep pieces n ys ss'"
    "quiet ss ss'" "callback_context ss' = callback_context ss"
    using serving_read [OF assms(1)] by metis
  then show thesis
    using that [of ss'] assms(2) by (simp add: read_int_def i32_value_bytes i32_ok_def)
qed

lemma serving_alloc:
  assumes s: "serving ps r keep pieces (elt * c + align + n) ys ss" and al: "0 < align" "align \<le> 2 ^ 31"
    and c: "c < 2 ^ 31" "elt * c < 2 ^ 32"
  obtains a bs ss' where "ArenaAlloc elt align (int c) ss = Some (a, ss')" "pieces a = None \<or> pieces a = Some []"
    "length bs = elt * c" "serving ps r keep (pieces(a \<mapsto> bs)) n ys ss'" "quiet ss ss'"
proof -
  obtain a m where a: "Arena_Alloc (rpc_arena (callback_context ss)) (elt * c) align (srv_machine ss)
      = Some (a, rpc_arena (callback_context ss), m)" "pieces a = None \<or> pieces a = Some []"
    "arena_holds ps r keep (pieces(a \<mapsto> load_bytes (ram m) a (elt * c))) n (rpc_arena (callback_context ss)) m"
    using Alloc_fits [OF _ al] s unfolding serving_def by metis
  let ?ss = "set_arena (rpc_arena (callback_context ss)) (set_machine m ss)"
  have "to_i32 (int c) = int c"
    using c(1) by (intro to_i32_id) auto
  moreover have "to_size (int elt * int c) = elt * c"
    using c(2) by (subst to_size_id) (auto simp: nat_mult_distrib simp flip: of_nat_mult)
  ultimately have "ArenaAlloc elt align (int c) ss = Some (a, ?ss)"
    using a(1) by (simp add: ArenaAlloc_def Arena_allocate_def)
  then show thesis
    by (rule that [OF _ a(2), of ?ss "load_bytes (ram m) a (elt * c)"])
      (use s a(3) in \<open>simp_all add: serving_def quiet_def set_arena_def set_machine_def set_runtime_def\<close>)
qed

lemma serving_store:
  assumes "serving ps r keep pieces n ys ss" and "pieces a = Some bs" and "k + length ws \<le> length bs"
  shows "serving ps r keep (pieces(a \<mapsto> patch bs k ws)) n ys (srv_store (a + int k) ws ss)" "quiet ss (srv_store (a + int k) ws ss)"
  using arena_piece_store [of ps r keep pieces n _ _ a bs k ws] assms
  by (simp_all add: serving_def quiet_def srv_store_def set_machine_def set_runtime_def)

lemma serving_load:
  assumes "serving ps r keep pieces n ys ss" and "pieces a = Some bs" and "k + l \<le> length bs"
  shows "load_bytes (ram (srv_machine ss)) (a + int k) l = take l (drop k bs)"
  using arena_piece_load assms unfolding serving_def by blast

lemma serving_range:
  assumes "serving ps r keep pieces n ys ss" and "pieces a = Some bs"
  shows "0 < a" "a + int (length bs) \<le> 2 ^ 32"
  using arena_piece_range assms unfolding serving_def by blast+

lemma serving_read_array:
  assumes s: "serving ps r keep pieces n (xs @ ys) ss" and a: "pieces a = Some bs" and xs: "length xs \<le> length bs" "length xs < 2 ^ 32"
    and sz: "int elt * count = int (length xs)"
  obtains ss' where "ReadArray a elt count ss = Some ss'" "serving ps r keep (pieces(a \<mapsto> patch bs 0 xs)) n ys ss'" "quiet ss ss'"
proof -
  obtain s1 where s1: "MinRPCServer_ReadRawBytes (length xs) ss = Some (xs, s1)" "serving ps r keep pieces n ys s1" "quiet ss s1"
    by (rule serving_read [OF s])
  have "to_size (int elt * count) = length xs"
    using xs(2) unfolding sz by (subst to_size_id) auto
  then have "ReadArray a elt count ss = Some (srv_store a xs s1)"
    using s1(1) by (simp add: ReadArray_def)
  then show thesis
    using that serving_store [OF s1(2) a, of 0 xs] xs(1) quiet_trans [OF s1(3)] by simp
qed

end
