(* ===== verification/Rpc_Packed.thy ===== *)
theory Rpc_Packed
  imports Rpc_Channel_Facts
begin

text \<open>
  The packed sequence: what one side sends of its arguments, the other side has in its arena after
  \<^verbatim>\<open>RecvPackedSeq\<close>, numbers and handles as values and strings, bytes and tensors as copies.
\<close>

section \<open>The slots of the values\<close>

definition slot_value :: "u8 list \<Rightarrow> nat \<Rightarrow> tvm_value" where
  "slot_value vb i = of_nat (le_value (take 8 (drop (8 * i) vb)))"

lemma le_value_append: "le_value (xs @ ys) = le_value xs + 256 ^ length xs * le_value ys"
  by (induction xs) (simp_all add: algebra_simps)

lemma cut_of_nat: "ucast (of_nat n :: u64) = (of_nat n :: u32)"
  by (subst word_unat_eq_iff) (simp add: unsigned_ucast_eq unat_of_nat take_bit_eq_mod mod_mod_cancel)

lemma of_nat_unat_cut: "(of_nat (unat (x :: u64)) :: u32) = ucast x"
  using cut_of_nat [of "unat x"] by simp

lemma low_word:
  assumes "length bs = 8"
  shows "ucast (of_nat (le_value bs) :: u64) = (of_nat (le_value (take 4 bs)) :: u32)"
proof -
  have "le_value bs = le_value (take 4 bs) + 4294967296 * le_value (drop 4 bs)"
    using le_value_append [of "take 4 bs" "drop 4 bs"] assms by simp
  then have "(of_nat (le_value bs) :: u32) = of_nat (le_value (take 4 bs))"
    by (subst word_unat_eq_iff) (simp add: unat_of_nat del: of_nat_add of_nat_mult)
  then show ?thesis
    by (simp add: cut_of_nat)
qed

lemma slot_patch_same:
  assumes "8 * i + 8 \<le> length vb" and "length ws = 8"
  shows "slot_value (patch vb (8 * i) ws) i = of_nat (le_value ws)"
  using patch_same [of "8 * i" ws vb] assms by (simp add: slot_value_def)

lemma slot_patch_handle:
  assumes "8 * i + 8 \<le> length vb" and "length ws = 4"
  shows "ucast (slot_value (patch vb (8 * i) ws) i) = (of_nat (le_value ws) :: u32)"
proof -
  have "take 4 (take 8 (drop (8 * i) (patch vb (8 * i) ws))) = ws"
    using patch_same [of "8 * i" ws vb] assms by simp
  moreover have "length (take 8 (drop (8 * i) (patch vb (8 * i) ws))) = 8"
    using assms by simp
  ultimately show ?thesis
    unfolding slot_value_def by (simp add: low_word)
qed

lemma slot_patch_other:
  assumes "8 * i + 8 \<le> length vb" and "length ws \<le> 8" and "j \<noteq> i"
  shows "slot_value (patch vb (8 * i) ws) j = slot_value vb j"
proof -
  have "8 * j + 8 \<le> 8 * i \<or> 8 * i + length ws \<le> 8 * j"
    using assms by linarith
  then show ?thesis
    using patch_apart [of "8 * i" ws vb "8 * j" 8] assms by (simp add: slot_value_def)
qed

text \<open>A pointer survives the wire: it is extended by the sender and cut by the receiver.\<close>

lemma pointer_u64_bound: "pointer_u64 p < 256 ^ 8"
  using unsigned_less [of "scast p :: u64"] by (simp add: pointer_u64_def)

lemma pointer_u64_cut: "(of_nat (pointer_u64 p) :: u32) = p"
proof -
  have "(of_nat (pointer_u64 p) :: u32) = ucast (scast p :: u64)"
    by (simp add: pointer_u64_def of_nat_unat_cut)
  also have "\<dots> = p"
    by (rule bit_word_eqI) (auto simp: bit_simps)
  finally show ?thesis .
qed

lemma le_bytes_mod: "le_bytes n (v mod 256 ^ n) = le_bytes n v"
proof (induction n arbitrary: v)
  case (Suc n)
  have "v mod (256 * 256 ^ n) div 256 = v div 256 mod 256 ^ n"
    by (simp add: mod_mult2_eq)
  moreover have "(of_nat (v mod (256 * 256 ^ n)) :: u8) = of_nat v"
    by (subst word_unat_eq_iff) (simp add: unat_of_nat mod_mod_cancel)
  ultimately show ?case
    using Suc [of "v div 256"] by simp
qed simp

lemma le_bytes_pointer: "le_bytes 4 (pointer_u64 p) = le_bytes 4 (unat p)"
proof -
  have "pointer_u64 p mod 2 ^ 32 = unat p"
    using arg_cong [OF pointer_u64_cut [of p], of unat] by (simp add: unat_of_nat)
  then show ?thesis
    using le_bytes_mod [of 4 "pointer_u64 p"] by simp
qed

section \<open>What has been received\<close>

text \<open>
  \<open>received P r t v v'\<close>: of the argument \<open>v\<close> with type code \<open>t\<close> in the memory \<open>r\<close> of the sender, the
  receiver has the value \<open>v'\<close>, and the pieces \<open>P\<close> hold what it points to.
\<close>

definition tensor_piece :: "dl_tensor \<Rightarrow> addr \<Rightarrow> u8 list \<Rightarrow> bool" where
  "tensor_piece t shape img \<longleftrightarrow> length img = 40
     \<and> take 28 img = le_bytes 4 (nat (dt_data t)) @ device_bytes (dt_device t) @ i32_bytes (dt_ndim t)
         @ data_type_bytes (dt_dtype t) @ le_bytes 4 (nat shape) @ le_bytes 4 0
     \<and> drop 32 img = le_bytes 8 (dt_byte_offset t)"

definition received_tensor :: "(addr \<rightharpoonup> u8 list) \<Rightarrow> ram \<Rightarrow> dl_tensor \<Rightarrow> addr \<Rightarrow> bool" where
  "received_tensor P r t a \<longleftrightarrow> (\<exists>shape img. P a = Some img \<and> tensor_piece t shape img
     \<and> (dt_ndim t \<le> 0 \<or> word_addr shape \<and> P shape = Some (load_bytes r (dt_shape t) (8 * nat (dt_ndim t)))))"

definition received :: "(addr \<rightharpoonup> u8 list) \<Rightarrow> ram \<Rightarrow> int \<Rightarrow> tvm_value \<Rightarrow> tvm_value \<Rightarrow> bool" where
  "received P r t v v' \<longleftrightarrow>
     (if t = int kDLInt \<or> t = int kDLUInt \<or> t = int kDLFloat \<or> t = kDLDevice then v' = v
      else if t = kTVMDataType \<or> t = kTVMPackedFuncHandle \<or> t = kTVMModuleHandle \<or> t = kTVMOpaqueHandle
      then v_handle v' = v_handle v
      else if t = kTVMNullptr then v_handle v' = 0
      else if t = kTVMStr
      then \<exists>len. StrLength r (uint (v_handle v)) = Some len
        \<and> P (uint (v_handle v')) = Some (load_bytes r (uint (v_handle v)) len @ [0])
      else if t = kTVMBytes
      then \<exists>d. P (uint (v_handle v')) = Some (le_bytes 4 (nat d) @ le_bytes 4 (load_word r (uint (v_handle v) + 4)))
        \<and> (load_word r (uint (v_handle v) + 4) = 0
           \<or> word_addr d \<and> P d = Some (load_bytes r (int (load_word r (uint (v_handle v)))) (load_word r (uint (v_handle v) + 4))))
      else if t = kTVMDLTensorHandle then received_tensor P r (load_tensor r (uint (v_handle v))) (uint (v_handle v'))
      else False)"

text \<open>Later pieces leave the ones that hold something as they are.\<close>

definition grows :: "(addr \<rightharpoonup> u8 list) \<Rightarrow> (addr \<rightharpoonup> u8 list) \<Rightarrow> bool" where
  "grows P P' \<longleftrightarrow> (\<forall>a bs. P a = Some bs \<longrightarrow> bs \<noteq> [] \<longrightarrow> P' a = Some bs)"

lemma grows_refl [simp]: "grows P P"
  by (simp add: grows_def)

lemma grows_trans [trans]: "grows P P' \<Longrightarrow> grows P' P'' \<Longrightarrow> grows P P''"
  by (simp add: grows_def)

lemma grows_new: "P a = None \<or> P a = Some [] \<Longrightarrow> grows P (P(a \<mapsto> bs))"
  by (auto simp: grows_def)

lemma grows_get: "grows P P' \<Longrightarrow> P a = Some bs \<Longrightarrow> bs \<noteq> [] \<Longrightarrow> P' a = Some bs"
  by (simp add: grows_def)

text \<open>What an argument must be for the receiver to take it: a tensor has a length the packet can give.\<close>

definition sendable :: "ram \<Rightarrow> int \<Rightarrow> tvm_value \<Rightarrow> bool" where
  "sendable r t v \<longleftrightarrow> (t = kTVMDLTensorHandle \<longrightarrow>
     0 \<le> dt_ndim (load_tensor r (uint (v_handle v))) \<and> dt_ndim (load_tensor r (uint (v_handle v))) < 2 ^ 28)"

lemma arena_word_addr:
  assumes "serving ps r keep pieces n ys ss" and "pieces a = Some bs" and "bs \<noteq> []"
  shows "word_addr a"
proof -
  have "0 < a" "a + int (length bs) \<le> 2 ^ 32"
    using serving_range [OF assms(1,2)] by auto
  moreover have "0 < int (length bs)"
    using assms(3) by simp
  ultimately show ?thesis
    unfolding word_addr_def by linarith
qed

lemma v_handle_patch:
  assumes "8 * i + 8 \<le> length vb"
  shows "v_handle (slot_value (patch vb (8 * i) (le_bytes 4 k)) i) = of_nat k"
proof -
  have "(of_nat (k mod 2 ^ 32) :: u32) = of_nat k"
    by (subst word_unat_eq_iff) (simp add: unat_of_nat)
  then show ?thesis
    unfolding v_handle_def using slot_patch_handle [OF assms, of "le_bytes 4 k"] by (simp add: le_value_le_bytes)
qed

lemma v_handle_addr:
  assumes "8 * i + 8 \<le> length vb" and "word_addr a"
  shows "uint (v_handle (slot_value (patch vb (8 * i) (le_bytes 4 (nat a))) i)) = a"
proof -
  have "nat a < 2 ^ LENGTH(32)" "0 \<le> a"
    using assms(2) by (auto simp: word_addr_def)
  then show ?thesis
    unfolding v_handle_patch [OF assms(1)] by (simp add: unsigned_of_int take_bit_int_eq_self)
qed

text \<open>The array of values is one more piece, kept apart from the map of the others.\<close>

lemma piece_apart_vals:
  assumes "(P(vals \<mapsto> vb)) a = None \<or> (P(vals \<mapsto> vb)) a = Some []" and "vb \<noteq> []"
  shows "a \<noteq> vals" "P a = None \<or> P a = Some []" "(P(vals \<mapsto> vb))(a \<mapsto> bs) = (P(a \<mapsto> bs))(vals \<mapsto> vb)"
proof -
  show 1: "a \<noteq> vals"
    using assms by auto
  show "P a = None \<or> P a = Some []"
    using assms(1) 1 by simp
  show "(P(vals \<mapsto> vb))(a \<mapsto> bs) = (P(a \<mapsto> bs))(vals \<mapsto> vb)"
    by (rule fun_upd_twist) (use 1 in simp)
qed

lemma quiet_store [simp]: "quiet ss (srv_store a ws ss)"
  by (simp add: quiet_def srv_store_def set_machine_def set_runtime_def)

lemma quiet_stored: "quiet ss ss' \<Longrightarrow> quiet ss (srv_store a ws ss')"
  by (erule quiet_trans) (rule quiet_store)

lemma serving_store_slot:
  assumes "serving ps r keep (P(vals \<mapsto> vb)) n ys ss" and "8 * i + length ws \<le> length vb"
  shows "serving ps r keep (P(vals \<mapsto> patch vb (8 * i) ws)) n ys (srv_store (vals + 8 * int i) ws ss)"
  using serving_store [OF assms(1), of vals vb "8 * i" ws] assms(2) by simp_all

section \<open>One argument\<close>

lemma recv_string_ok:
  assumes s: "serving ps r keep (P(vals \<mapsto> vb)) (length cs + 2 + n) (le_bytes 8 (length cs) @ cs @ ys) ss" and i: "8 * i + 8 \<le> length vb"
    and cs: "length cs < 2 ^ 31 - 1" and P: "P vals = None"
  obtains a ss' where "recv_arg (vals + 8 * int i) kTVMStr ss = Some ss'"
    "serving ps r keep ((P(a \<mapsto> cs @ [0]))(vals \<mapsto> patch vb (8 * i) (le_bytes 4 (nat a)))) n ys ss'"
    "a \<noteq> vals" "P a = None \<or> P a = Some []" "word_addr a" "quiet ss ss'"
proof -
  have vb: "vb \<noteq> []"
    using i by auto
  obtain s1 where s1: "read_nat 8 ss = Some (length cs, s1)"
    "serving ps r keep (P(vals \<mapsto> vb)) (length cs + 2 + n) (cs @ ys) s1" "quiet ss s1"
    by (rule serving_read_nat [OF s]) (use cs in simp)
  obtain a bs s2 where s2: "ArenaAlloc 1 1 (int (length cs + 1)) s1 = Some (a, s2)"
    "(P(vals \<mapsto> vb)) a = None \<or> (P(vals \<mapsto> vb)) a = Some []" "length bs = 1 * (length cs + 1)"
    "serving ps r keep ((P(vals \<mapsto> vb))(a \<mapsto> bs)) n (cs @ ys) s2" "quiet s1 s2"
    by (rule serving_alloc [of ps r keep "P(vals \<mapsto> vb)" 1 "length cs + 1" 1 n "cs @ ys" s1]) (use s1(2) cs in simp_all)
  note ap = piece_apart_vals [OF s2(2) vb]
  let ?s3 = "srv_store (a + int (length cs)) [0] s2"
  have s3: "serving ps r keep ((P(vals \<mapsto> vb))(a \<mapsto> patch bs (length cs) [0])) n (cs @ ys) ?s3" "quiet s2 ?s3"
    using serving_store [OF s2(4), of a bs "length cs" "[0]"] s2(3) by simp_all
  obtain s4 where s4: "ReadArray a 1 (int (length cs)) ?s3 = Some s4"
    "serving ps r keep ((P(vals \<mapsto> vb))(a \<mapsto> patch (patch bs (length cs) [0]) 0 cs)) n ys s4" "quiet ?s3 s4"
    using serving_read_array [OF s3(1), of a "patch bs (length cs) [0]" 1 "int (length cs)"] s2(3) cs by auto
  have bs: "patch (patch bs (length cs) [0]) 0 cs = cs @ [0]"
    using s2(3) by (simp add: patch_def)
  have "word_addr a"
    using arena_word_addr [OF s4(2), of a "cs @ [0]"] by (simp add: bs)
  moreover have "recv_arg (vals + 8 * int i) kTVMStr ss = Some (srv_store (vals + 8 * int i) (le_bytes 4 (nat a)) s4)"
    using s1(1) s2(1) s4(1) cs by (simp add: recv_arg_def arg_code_defs Let_def add.commute)
  moreover have "serving ps r keep ((P(a \<mapsto> cs @ [0]))(vals \<mapsto> patch vb (8 * i) (le_bytes 4 (nat a)))) n ys
      (srv_store (vals + 8 * int i) (le_bytes 4 (nat a)) s4)"
    by (rule serving_store_slot) (use s4(2) ap(3) bs i in simp_all)
  moreover have "quiet ss (srv_store (vals + 8 * int i) (le_bytes 4 (nat a)) s4)"
    by (rule quiet_stored, rule quiet_trans [OF quiet_trans [OF quiet_trans [OF s1(3) s2(5)] s3(2)] s4(3)])
  ultimately show thesis
    using that ap(1,2) by blast
qed

lemma serving_alloc_apart:
  assumes "serving ps r keep (P(vals \<mapsto> vb)) (elt * c + align + n) ys ss" and "0 < align" "align \<le> 2 ^ 31"
    and "c < 2 ^ 31" "elt * c < 2 ^ 32" and "vb \<noteq> []"
  obtains a bs ss' where "ArenaAlloc elt align (int c) ss = Some (a, ss')" "a \<noteq> vals" "P a = None \<or> P a = Some []"
    "length bs = elt * c" "serving ps r keep ((P(a \<mapsto> bs))(vals \<mapsto> vb)) n ys ss'" "quiet ss ss'"
proof -
  obtain a bs ss' where a: "ArenaAlloc elt align (int c) ss = Some (a, ss')" "(P(vals \<mapsto> vb)) a = None \<or> (P(vals \<mapsto> vb)) a = Some []"
    "length bs = elt * c" "serving ps r keep ((P(vals \<mapsto> vb))(a \<mapsto> bs)) n ys ss'" "quiet ss ss'"
    by (rule serving_alloc [OF assms(1-5)])
  note ap = piece_apart_vals [OF a(2) assms(6)]
  show thesis
    by (rule that [OF a(1) ap(1,2) a(3) _ a(5)]) (use a(4) ap(3) in simp)
qed

text \<open>Stores into a piece other than the array of values.\<close>

lemma upd_under: "a \<noteq> d \<Longrightarrow> P(a \<mapsto> x, d \<mapsto> y, a \<mapsto> z) = P(a \<mapsto> z, d \<mapsto> y)"
  by auto

lemma serving_store_apart:
  assumes "serving ps r keep (P(vals \<mapsto> vb)) n ys ss" and "P a = Some bs" and "a \<noteq> vals" and "k + length ws \<le> length bs"
  shows "serving ps r keep ((P(a \<mapsto> patch bs k ws))(vals \<mapsto> vb)) n ys (srv_store (a + int k) ws ss)"
proof -
  have "serving ps r keep ((P(vals \<mapsto> vb))(a \<mapsto> patch bs k ws)) n ys (srv_store (a + int k) ws ss)"
    using serving_store(1) [OF assms(1), of a bs k ws] assms(2-4) by simp
  then show ?thesis
    using assms(3) by (simp add: fun_upd_twist)
qed

lemma serving_read_array_apart:
  assumes "serving ps r keep (P(vals \<mapsto> vb)) n (xs @ ys) ss" and "P a = Some bs" and "a \<noteq> vals"
    and "length xs = length bs" "length xs < 2 ^ 32" and "int elt * count = int (length xs)"
  obtains ss' where "ReadArray a elt count ss = Some ss'" "serving ps r keep ((P(a \<mapsto> xs))(vals \<mapsto> vb)) n ys ss'" "quiet ss ss'"
proof -
  obtain ss' where "ReadArray a elt count ss = Some ss'"
    "serving ps r keep ((P(vals \<mapsto> vb))(a \<mapsto> patch bs 0 xs)) n ys ss'" "quiet ss ss'"
    using serving_read_array [OF assms(1), of a bs elt count] assms(2-6) by auto
  then show thesis
    using that assms(3,4) by (simp add: fun_upd_twist patch_whole)
qed

lemma recv_bytes_ok:
  assumes s: "serving ps r keep (P(vals \<mapsto> vb)) (length cs + 13 + n) (le_bytes 8 (length cs) @ cs @ ys) ss" and i: "8 * i + 8 \<le> length vb"
    and cs: "length cs < 2 ^ 31 - 1" and P: "P vals = None"
  obtains a d ss' where "recv_arg (vals + 8 * int i) kTVMBytes ss = Some ss'"
    "serving ps r keep ((P(a \<mapsto> le_bytes 4 (nat d) @ le_bytes 4 (length cs), d \<mapsto> cs))(vals \<mapsto> patch vb (8 * i) (le_bytes 4 (nat a)))) n ys ss'"
    "a \<noteq> vals" "d \<noteq> vals" "a \<noteq> d" "P a = None \<or> P a = Some []" "P d = None \<or> P d = Some []" "word_addr a" "word_addr d \<or> cs = []" "quiet ss ss'"
proof -
  have vb: "vb \<noteq> []"
    using i by auto
  obtain s1 where s1: "read_nat 8 ss = Some (length cs, s1)"
    "serving ps r keep (P(vals \<mapsto> vb)) (length cs + 13 + n) (cs @ ys) s1" "quiet ss s1"
    by (rule serving_read_nat [OF s]) (use cs in simp)
  obtain a bs s2 where s2: "ArenaAlloc 8 4 (int 1) s1 = Some (a, s2)" "a \<noteq> vals" "P a = None \<or> P a = Some []" "length bs = 8 * 1"
    "serving ps r keep ((P(a \<mapsto> bs))(vals \<mapsto> vb)) (1 * length cs + 1 + n) (cs @ ys) s2" "quiet s1 s2"
    by (rule serving_alloc_apart [OF serving_less [OF s1(2), of "8 * 1 + 4 + (1 * length cs + 1 + n)"]]) (use vb in simp_all)
  obtain d ds s3 where s3: "ArenaAlloc 1 1 (int (length cs)) s2 = Some (d, s3)" "d \<noteq> vals" "(P(a \<mapsto> bs)) d = None \<or> (P(a \<mapsto> bs)) d = Some []"
    "length ds = 1 * length cs" "serving ps r keep ((P(a \<mapsto> bs, d \<mapsto> ds))(vals \<mapsto> vb)) n (cs @ ys) s3" "quiet s2 s3"
    by (rule serving_alloc_apart [OF s2(5)]) (use cs vb in simp_all)
  have ad: "a \<noteq> d"
    using s3(3) s2(4) by auto
  let ?s4 = "srv_store (a + int 4) (le_bytes 4 (length cs)) s3"
  let ?b4 = "patch bs 4 (le_bytes 4 (length cs))"
  have s4: "serving ps r keep ((P(a \<mapsto> ?b4, d \<mapsto> ds))(vals \<mapsto> vb)) n (cs @ ys) ?s4"
    using serving_store_apart [OF s3(5), of a bs 4 "le_bytes 4 (length cs)"] s2(2,4) ad
    by (simp add: upd_under del: fun_upd_apply add: fun_upd_same fun_upd_other)
  let ?s5 = "srv_store (a + int 0) (le_bytes 4 (nat d)) ?s4"
  let ?b5 = "patch ?b4 0 (le_bytes 4 (nat d))"
  have s5: "serving ps r keep ((P(a \<mapsto> ?b5, d \<mapsto> ds))(vals \<mapsto> vb)) n (cs @ ys) ?s5"
    using serving_store_apart [OF s4, of a ?b4 0 "le_bytes 4 (nat d)"] s2(2,4) ad
    by (simp add: upd_under del: fun_upd_apply add: fun_upd_same fun_upd_other)
  obtain s6 where s6: "ReadArray d 1 (int (length cs)) ?s5 = Some s6"
    "serving ps r keep ((P(a \<mapsto> ?b5, d \<mapsto> cs))(vals \<mapsto> vb)) n ys s6" "quiet ?s5 s6"
  proof (rule serving_read_array_apart [OF s5, of d ds 1 "int (length cs)"])
    fix s6
    assume "ReadArray d 1 (int (length cs)) ?s5 = Some s6"
      "serving ps r keep ((P(a \<mapsto> ?b5, d \<mapsto> ds, d \<mapsto> cs))(vals \<mapsto> vb)) n ys s6" "quiet ?s5 s6"
    then show thesis
      using that unfolding fun_upd_upd by blast
  qed (use s3(2,4) cs in simp_all)
  have b5: "?b5 = le_bytes 4 (nat d) @ le_bytes 4 (length cs)"
    using s2(4) by (simp add: patch_def)
  have wa: "word_addr a"
  proof (rule arena_word_addr [OF s6(2)])
    show "((P(a \<mapsto> ?b5, d \<mapsto> cs))(vals \<mapsto> vb)) a = Some ?b5"
      using s2(2) ad by simp
    show "?b5 \<noteq> []"
      unfolding b5 by (metis append_is_Nil_conv length_le_bytes list.size(3) zero_neq_numeral)
  qed
  have wd: "word_addr d \<or> cs = []"
  proof (cases "cs = []")
    case False
    have "word_addr d"
      by (rule arena_word_addr [OF s6(2), of d cs]) (use False s3(2) in simp_all)
    then show ?thesis ..
  qed simp
  let ?s7 = "srv_store (vals + 8 * int i) (le_bytes 4 (nat a)) s6"
  have "recv_arg (vals + 8 * int i) kTVMBytes ss = Some ?s7"
    using s1(1) s2(1) s3(1) s6(1) by (simp add: recv_arg_def arg_code_defs Let_def)
  moreover have "serving ps r keep ((P(a \<mapsto> le_bytes 4 (nat d) @ le_bytes 4 (length cs), d \<mapsto> cs))(vals \<mapsto> patch vb (8 * i) (le_bytes 4 (nat a)))) n ys ?s7"
    by (rule serving_store_slot) (use s6(2) b5 i in simp_all)
  moreover have "quiet ss ?s7"
    by (rule quiet_stored, rule quiet_trans [OF quiet_stored [OF quiet_stored [OF quiet_trans [OF quiet_trans [OF s1(3) s2(6)] s3(6)]]] s6(3)])
  moreover have "P d = None \<or> P d = Some []"
    using s3(3) ad by simp
  ultimately show thesis
    using that s2(2,3) s3(2) ad wa wd by blast
qed

text \<open>A tensor: its image in the arena is filled field by field, and its shape is a piece of its own.\<close>

lemma length_field_bytes [simp]:
  "length (device_bytes dev) = 8" "length (data_type_bytes dt) = 4" "length (i32_bytes v) = 4"
  by (simp_all add: device_bytes_def data_type_bytes_def i32_bytes_def)

lemma patch_append:
  assumes "length xs = off" and "length ys = length ws"
  shows "patch (xs @ ys @ zs) off ws = xs @ ws @ zs"
  using assms by (simp add: patch_def)

lemma split_lengths:
  "length bs = a + b \<Longrightarrow> \<exists>xs ys. bs = xs @ ys \<and> length xs = a \<and> length ys = b"
  by (rule exI [of _ "take a bs"], rule exI [of _ "drop a bs"]) simp

text \<open>What follows the data pointer has the fields of a tensor, whatever they hold.\<close>

lemma tensor_parts:
  assumes "length bs = 36"
  obtains f2 f3 f4 f5 f6 f7 f8 where "bs = f2 @ f3 @ f4 @ f5 @ f6 @ f7 @ f8" "length f2 = 8" "length f3 = 4"
    "length f4 = 4" "length f5 = 4" "length f6 = 4" "length f7 = 4" "length f8 = 8"
proof -
  obtain f2 g2 where 2: "bs = f2 @ g2" "length f2 = 8" "length g2 = 28"
    using split_lengths [of bs 8 28] assms by auto
  obtain f3 g3 where 3: "g2 = f3 @ g3" "length f3 = 4" "length g3 = 24"
    using split_lengths [of g2 4 24] 2 by auto
  obtain f4 g4 where 4: "g3 = f4 @ g4" "length f4 = 4" "length g4 = 20"
    using split_lengths [of g3 4 20] 3 by auto
  obtain f5 g5 where 5: "g4 = f5 @ g5" "length f5 = 4" "length g5 = 16"
    using split_lengths [of g4 4 16] 4 by auto
  obtain f6 g6 where 6: "g5 = f6 @ g6" "length f6 = 4" "length g6 = 12"
    using split_lengths [of g5 4 12] 5 by auto
  obtain f7 f8 where 7: "g6 = f7 @ f8" "length f7 = 4" "length f8 = 8"
    using split_lengths [of g6 4 8] 6 by auto
  show thesis
    by (rule that [of f2 f3 f4 f5 f6 f7 f8]) (use 2 3 4 5 6 7 in simp_all)
qed

text \<open>A field is stored, or its bytes are read and stored.\<close>

lemma serving_put:
  assumes "serving ps r keep (P(vals \<mapsto> vb)) n ys ss" and "P a = Some (pre @ old @ post)" and "a \<noteq> vals"
    and "length pre = k" and "length old = length ws"
  shows "serving ps r keep ((P(a \<mapsto> pre @ ws @ post))(vals \<mapsto> vb)) n ys (srv_store (a + int k) ws ss)"
proof -
  have "patch (pre @ old @ post) k ws = pre @ ws @ post"
    by (rule patch_append) (use assms(4,5) in simp_all)
  then show ?thesis
    using serving_store_apart [OF assms(1,2,3), of k ws] assms(4,5) by simp
qed

lemma serving_write:
  assumes "serving ps r keep P n ys ss" and "P a = Some (pre @ old @ post)" and "length pre = k" and "length old = length ws"
  shows "serving ps r keep (P(a \<mapsto> pre @ ws @ post)) n ys (srv_store (a + int k) ws ss)"
proof -
  have "patch (pre @ old @ post) k ws = pre @ ws @ post"
    by (rule patch_append) (use assms(3,4) in simp_all)
  then show ?thesis
    using serving_store(1) [OF assms(1,2), of k ws] assms(3,4) by simp
qed

lemma serving_field:
  assumes "serving ps r keep P n (xs @ ys) ss" and "P a = Some (pre @ old @ post)" and "length pre = k" and "length old = l" and "length xs = l"
  obtains ss' where "MinRPCServer_ReadRawBytes l ss = Some (xs, ss')"
    "serving ps r keep (P(a \<mapsto> pre @ xs @ post)) n ys (srv_store (a + int k) xs ss')"
    "quiet ss (srv_store (a + int k) xs ss')"
proof -
  obtain ss' where r: "MinRPCServer_ReadRawBytes (length xs) ss = Some (xs, ss')" "serving ps r keep P n ys ss'" "quiet ss ss'"
    by (rule serving_read [OF assms(1)])
  show thesis
    by (rule that [of ss']) (use r assms serving_write [OF r(2) assms(2,3), of xs] quiet_stored in simp_all)
qed

lemma receive_fields_alone:
  assumes s: "serving ps r keep (P(a \<mapsto> h @ f)) (8 * nd + 8 + n) (dev @ i32_bytes (int nd) @ dt @ sh @ off @ ys) ss"
    and len: "length h = 4" "length f = 36" "length dev = 8" "length dt = 4" "length sh = 8 * nd" "length off = 8"
    and nd: "nd < 2 ^ 28"
  obtains shape gap ss' where "receive_fields a ss = Some ss'" "length gap = 4" "shape \<noteq> a" "P shape = None \<or> P shape = Some []"
    "word_addr shape \<or> sh = []" "quiet ss ss'"
    "serving ps r keep (P(a \<mapsto> h @ dev @ i32_bytes (int nd) @ dt @ le_bytes 4 (nat shape) @ le_bytes 4 0 @ gap @ off, shape \<mapsto> sh)) n ys ss'"
proof -
  let ?nd = "i32_bytes (int nd)"
  obtain f2 f3 f4 f5 f6 f7 f8 where f: "f = f2 @ f3 @ f4 @ f5 @ f6 @ f7 @ f8" "length f2 = 8" "length f3 = 4" "length f4 = 4"
    "length f5 = 4" "length f6 = 4" "length f7 = 4" "length f8 = 8"
    using tensor_parts [OF len(2)] by blast
  have upd: "Q(a \<mapsto> x, a \<mapsto> y) = Q(a \<mapsto> y)" for Q :: "addr \<rightharpoonup> u8 list" and x y
    by simp
  obtain s1 where s1: "MinRPCServer_ReadRawBytes 8 ss = Some (dev, s1)"
    "serving ps r keep (P(a \<mapsto> h @ f, a \<mapsto> h @ dev @ f3 @ f4 @ f5 @ f6 @ f7 @ f8)) (8 * nd + 8 + n)
      (?nd @ dt @ sh @ off @ ys) (srv_store (a + int 4) dev s1)" "quiet ss (srv_store (a + int 4) dev s1)"
    by (rule serving_field [OF s, of a h f2 "f3 @ f4 @ f5 @ f6 @ f7 @ f8" 4 8]) (use f len in simp_all)
  obtain s2 where s2: "MinRPCServer_ReadRawBytes 4 (srv_store (a + int 4) dev s1) = Some (?nd, s2)"
    "serving ps r keep (P(a \<mapsto> h @ dev @ f3 @ f4 @ f5 @ f6 @ f7 @ f8, a \<mapsto> (h @ dev) @ ?nd @ f4 @ f5 @ f6 @ f7 @ f8)) (8 * nd + 8 + n)
      (dt @ sh @ off @ ys) (srv_store (a + int 12) ?nd s2)" "quiet (srv_store (a + int 4) dev s1) (srv_store (a + int 12) ?nd s2)"
    by (rule serving_field [OF s1(2) [unfolded upd], of a "h @ dev" f3 "f4 @ f5 @ f6 @ f7 @ f8" 12 4]) (use f len in simp_all)
  obtain s3 where s3: "MinRPCServer_ReadRawBytes 4 (srv_store (a + int 12) ?nd s2) = Some (dt, s3)"
    "serving ps r keep (P(a \<mapsto> (h @ dev) @ ?nd @ f4 @ f5 @ f6 @ f7 @ f8, a \<mapsto> (h @ dev @ ?nd) @ dt @ f5 @ f6 @ f7 @ f8)) (8 * nd + 8 + n)
      (sh @ off @ ys) (srv_store (a + int 16) dt s3)" "quiet (srv_store (a + int 12) ?nd s2) (srv_store (a + int 16) dt s3)"
    by (rule serving_field [OF s2(2) [unfolded upd], of a "h @ dev @ ?nd" f4 "f5 @ f6 @ f7 @ f8" 16 4]) (use f len in simp_all)
  let ?s3 = "srv_store (a + int 16) dt s3"
  let ?b3 = "h @ dev @ ?nd @ dt @ f5 @ f6 @ f7 @ f8"
  have s3': "serving ps r keep (P(a \<mapsto> ?b3)) (8 * nd + 8 + n) (sh @ off @ ys) ?s3"
    using s3(2) unfolding upd by simp
  have ndim3: "i32_value (load_bytes (ram (srv_machine ?s3)) (a + 12) 4) = int nd"
    using serving_load [OF s3', of a ?b3 12 4] f len nd by (simp add: i32_value_bytes)
  obtain shape sb s4 where s4: "ArenaAlloc 8 8 (int nd) ?s3 = Some (shape, s4)" "(P(a \<mapsto> ?b3)) shape = None \<or> (P(a \<mapsto> ?b3)) shape = Some []"
    "length sb = 8 * nd" "serving ps r keep (P(a \<mapsto> ?b3, shape \<mapsto> sb)) n (sh @ off @ ys) s4" "quiet ?s3 s4"
    by (rule serving_alloc [OF s3']) (use nd in simp_all)
  have sa: "shape \<noteq> a"
    using s4(2) len(1) by auto
  let ?s5 = "srv_store (a + int 20) (le_bytes 4 (nat shape)) s4"
  let ?b5 = "h @ dev @ ?nd @ dt @ le_bytes 4 (nat shape) @ f6 @ f7 @ f8"
  have s5: "serving ps r keep (P(a \<mapsto> ?b5, shape \<mapsto> sb)) n (sh @ off @ ys) ?s5"
    using serving_write [OF s4(4), of a "h @ dev @ ?nd @ dt" f5 "f6 @ f7 @ f8" 20 "le_bytes 4 (nat shape)"] f len sa
    by (simp add: upd_under del: fun_upd_apply le_bytes.simps add: fun_upd_same fun_upd_other)
  have ndim5: "i32_value (load_bytes (ram (srv_machine ?s5)) (a + 12) 4) = int nd"
    using serving_load [OF s5, of a ?b5 12 4] f len nd sa by (simp add: i32_value_bytes)
  obtain s6 where s6: "ReadArray shape 8 (int nd) ?s5 = Some s6"
    "serving ps r keep (P(a \<mapsto> ?b5, shape \<mapsto> sb, shape \<mapsto> patch sb 0 sh)) n (off @ ys) s6" "quiet ?s5 s6"
    by (rule serving_read_array [OF s5, of shape sb 8 "int nd"]) (use s4(3) len nd in simp_all)
  have s6': "serving ps r keep (P(a \<mapsto> ?b5, shape \<mapsto> sh)) n (off @ ys) s6"
    using s6(2) s4(3) len unfolding fun_upd_upd by (simp add: patch_whole del: fun_upd_apply)
  let ?s7 = "srv_store (a + int 24) (le_bytes 4 0) s6"
  let ?b7 = "h @ dev @ ?nd @ dt @ le_bytes 4 (nat shape) @ le_bytes 4 0 @ f7 @ f8"
  have s7: "serving ps r keep (P(a \<mapsto> ?b7, shape \<mapsto> sh)) n (off @ ys) ?s7"
    using serving_write [OF s6', of a "h @ dev @ ?nd @ dt @ le_bytes 4 (nat shape)" f6 "f7 @ f8" 24 "le_bytes 4 0"] f len sa
    by (simp add: upd_under del: fun_upd_apply le_bytes.simps add: fun_upd_same fun_upd_other)
  obtain s8 where s8: "MinRPCServer_ReadRawBytes 8 ?s7 = Some (off, s8)"
    "serving ps r keep (P(a \<mapsto> ?b7, shape \<mapsto> sh, a \<mapsto> (h @ dev @ ?nd @ dt @ le_bytes 4 (nat shape) @ le_bytes 4 0 @ f7) @ off @ [])) n
      ys (srv_store (a + int 32) off s8)" "quiet ?s7 (srv_store (a + int 32) off s8)"
    by (rule serving_field [OF s7, of a "h @ dev @ ?nd @ dt @ le_bytes 4 (nat shape) @ le_bytes 4 0 @ f7" f8 "[]" 32 8])
      (use f len sa in \<open>simp_all del: le_bytes.simps\<close>)
  let ?s9 = "srv_store (a + int 32) off s8"
  have s9: "serving ps r keep (P(a \<mapsto> h @ dev @ ?nd @ dt @ le_bytes 4 (nat shape) @ le_bytes 4 0 @ f7 @ off, shape \<mapsto> sh)) n ys ?s9"
    using s8(2) unfolding upd_under [OF sa [symmetric]] by simp
  have "receive_fields a ss = Some ?s9"
    using s1(1) s2(1) s3(1) s4(1) s6(1) s8(1) ndim3 ndim5 by (simp add: receive_fields_def Let_def del: le_bytes.simps)
  moreover have "quiet ss ?s9"
    by (rule quiet_trans [OF quiet_stored [OF quiet_trans [OF quiet_stored [OF quiet_trans [OF
          quiet_trans [OF quiet_trans [OF s1(3) s2(3)] s3(3)] s4(5)]] s6(3)]] s8(3)])
  moreover have "word_addr shape \<or> sh = []"
  proof (cases "sh = []")
    case False
    have "word_addr shape"
      by (rule arena_word_addr [OF s9, of shape sh]) (use False in simp_all)
    then show ?thesis ..
  qed simp
  moreover have "P shape = None \<or> P shape = Some []"
    using s4(2) sa by simp
  ultimately show thesis
    using that f(7) sa s9 by blast
qed

lemma receive_fields_ok:
  assumes s: "serving ps r keep ((P(a \<mapsto> h @ f))(vals \<mapsto> vb)) (8 * nd + 8 + n)
      (dev @ i32_bytes (int nd) @ dt @ sh @ off @ ys) ss"
    and len: "length h = 4" "length f = 36" "length dev = 8" "length dt = 4" "length sh = 8 * nd" "length off = 8"
    and nd: "nd < 2 ^ 28" and P: "a \<noteq> vals" "vb \<noteq> []"
  obtains shape gap ss' where "receive_fields a ss = Some ss'" "length gap = 4" "shape \<noteq> vals" "shape \<noteq> a" "P shape = None \<or> P shape = Some []"
    "word_addr shape \<or> sh = []" "quiet ss ss'"
    "serving ps r keep ((P(a \<mapsto> h @ dev @ i32_bytes (int nd) @ dt @ le_bytes 4 (nat shape) @ le_bytes 4 0 @ gap @ off, shape \<mapsto> sh))
       (vals \<mapsto> vb)) n ys ss'"
proof -
  have tw: "Q(a \<mapsto> x, vals \<mapsto> vb) = Q(vals \<mapsto> vb, a \<mapsto> x)" for Q :: "addr \<rightharpoonup> u8 list" and x
    by (rule fun_upd_twist) (use P(1) in simp)
  obtain shape gap ss' where r: "receive_fields a ss = Some ss'" "length gap = 4" "shape \<noteq> a"
    "(P(vals \<mapsto> vb)) shape = None \<or> (P(vals \<mapsto> vb)) shape = Some []" "word_addr shape \<or> sh = []" "quiet ss ss'"
    "serving ps r keep ((P(vals \<mapsto> vb))(a \<mapsto> h @ dev @ i32_bytes (int nd) @ dt @ le_bytes 4 (nat shape) @ le_bytes 4 0 @ gap @ off,
       shape \<mapsto> sh)) n ys ss'"
    by (rule receive_fields_alone [OF s [unfolded tw] len nd])
  note ap = piece_apart_vals [OF r(4) P(2)]
  have "P(a \<mapsto> x, vals \<mapsto> vb, shape \<mapsto> sh) = P(a \<mapsto> x, shape \<mapsto> sh, vals \<mapsto> vb)" for x
    by (rule fun_upd_twist) (use ap(1) in simp)
  then show thesis
    using that [OF r(1,2) ap(1) r(3) ap(2) r(5,6)] r(7) unfolding tw [symmetric] by metis
qed

lemma recv_tensor_ok:
  assumes s: "serving ps r keep (P(vals \<mapsto> vb)) (8 * nd + 56 + n)
      (le_bytes 8 h @ dev @ i32_bytes (int nd) @ dt @ sh @ off @ ys) ss"
    and len: "length dev = 8" "length dt = 4" "length sh = 8 * nd" "length off = 8"
    and h: "h < 256 ^ 8" and nd: "nd < 2 ^ 28" and i: "8 * i + 8 \<le> length vb"
  obtains a shape gap ss' where "recv_arg (vals + 8 * int i) kTVMDLTensorHandle ss = Some ss'" "length gap = 4" "a \<noteq> vals" "shape \<noteq> vals"
    "shape \<noteq> a" "P a = None \<or> P a = Some []" "P shape = None \<or> P shape = Some []" "word_addr a" "word_addr shape \<or> sh = []" "quiet ss ss'"
    "serving ps r keep ((P(a \<mapsto> le_bytes 4 h @ dev @ i32_bytes (int nd) @ dt @ le_bytes 4 (nat shape) @ le_bytes 4 0 @ gap @ off, shape \<mapsto> sh))
       (vals \<mapsto> patch vb (8 * i) (le_bytes 4 (nat a)))) n ys ss'"
proof -
  have vb: "vb \<noteq> []"
    using i by auto
  let ?ys = "dev @ i32_bytes (int nd) @ dt @ sh @ off @ ys"
  obtain s1 where s1: "read_nat 8 ss = Some (h, s1)" "serving ps r keep (P(vals \<mapsto> vb)) (8 * nd + 56 + n) ?ys s1" "quiet ss s1"
    by (rule serving_read_nat [OF s h])
  obtain a bs s2 where s2: "ArenaAlloc 40 8 (int 1) s1 = Some (a, s2)" "a \<noteq> vals" "P a = None \<or> P a = Some []" "length bs = 40 * 1"
    "serving ps r keep ((P(a \<mapsto> bs))(vals \<mapsto> vb)) (8 * nd + 8 + n) ?ys s2" "quiet s1 s2"
    by (rule serving_alloc_apart [OF serving_less [OF s1(2), of "40 * 1 + 8 + (8 * nd + 8 + n)"]]) (use vb in simp_all)
  obtain b1 b2 where b: "bs = b1 @ b2" "length b1 = 4" "length b2 = 36"
    using split_lengths [of bs 4 36] s2(4) by auto
  let ?s3 = "srv_store (a + int 0) (le_bytes 4 h) s2"
  have s3: "serving ps r keep ((P(a \<mapsto> le_bytes 4 h @ b2))(vals \<mapsto> vb)) (8 * nd + 8 + n) ?ys ?s3"
    using serving_put [OF s2(5), of a "[]" b1 b2 0 "le_bytes 4 h"] b s2(2) by simp
  obtain shape gap s4 where s4: "receive_fields a ?s3 = Some s4" "length gap = 4" "shape \<noteq> vals" "shape \<noteq> a"
    "P shape = None \<or> P shape = Some []" "word_addr shape \<or> sh = []" "quiet ?s3 s4"
    "serving ps r keep ((P(a \<mapsto> le_bytes 4 h @ dev @ i32_bytes (int nd) @ dt @ le_bytes 4 (nat shape) @ le_bytes 4 0 @ gap @ off, shape \<mapsto> sh))
       (vals \<mapsto> vb)) n ys s4"
    by (rule receive_fields_ok [OF s3 _ b(3) len nd s2(2) vb]) simp_all
  have wa: "word_addr a"
  proof (rule arena_word_addr [OF s3])
    show "((P(a \<mapsto> le_bytes 4 h @ b2))(vals \<mapsto> vb)) a = Some (le_bytes 4 h @ b2)"
      using s2(2) by simp
    show "le_bytes 4 h @ b2 \<noteq> []"
      using b(3) by auto
  qed
  let ?s5 = "srv_store (vals + 8 * int i) (le_bytes 4 (nat a)) s4"
  have "recv_arg (vals + 8 * int i) kTVMDLTensorHandle ss = Some ?s5"
    using s1(1) s2(1) s4(1) by (simp add: recv_arg_def ReceiveDLTensor_def arg_code_defs Let_def)
  moreover have "serving ps r keep ((P(a \<mapsto> le_bytes 4 h @ dev @ i32_bytes (int nd) @ dt @ le_bytes 4 (nat shape) @ le_bytes 4 0 @ gap @ off, shape \<mapsto> sh))
       (vals \<mapsto> patch vb (8 * i) (le_bytes 4 (nat a)))) n ys ?s5"
    by (rule serving_store_slot [OF s4(8)]) (use i in simp)
  moreover have "quiet ss ?s5"
    by (rule quiet_stored, rule quiet_trans [OF quiet_stored [OF quiet_trans [OF s1(3) s2(6)]] s4(7)])
  ultimately show thesis
    using that s2(2,3) s4(2-6) wa by blast
qed

text \<open>The other kinds of argument are read straight into the slot.\<close>

lemma recv_raw_ok:
  assumes s: "serving ps r keep (P(vals \<mapsto> vb)) n (xs @ ys) ss" and xs: "length xs = 8" and i: "8 * i + 8 \<le> length vb"
    and t: "t = int kDLInt \<or> t = int kDLUInt \<or> t = int kDLFloat \<or> t = kDLDevice"
  obtains ss' where "recv_arg (vals + 8 * int i) t ss = Some ss'" "serving ps r keep (P(vals \<mapsto> patch vb (8 * i) xs)) n ys ss'" "quiet ss ss'"
proof -
  obtain s1 where s1: "MinRPCServer_ReadRawBytes 8 ss = Some (xs, s1)" "serving ps r keep (P(vals \<mapsto> vb)) n ys s1" "quiet ss s1"
    using serving_read [OF s] xs by metis
  show thesis
    by (rule that [of "srv_store (vals + 8 * int i) xs s1"])
      (use s1 t xs i serving_store_slot [OF s1(2), of i xs] quiet_stored [OF s1(3)] in \<open>auto simp: recv_arg_def arg_code_defs\<close>)
qed

lemma recv_handle_ok:
  assumes s: "serving ps r keep (P(vals \<mapsto> vb)) n (le_bytes 8 h @ ys) ss" and h: "h < 256 ^ 8" and i: "8 * i + 8 \<le> length vb"
    and t: "t = kTVMPackedFuncHandle \<or> t = kTVMModuleHandle \<or> t = kTVMOpaqueHandle"
  obtains ss' where "recv_arg (vals + 8 * int i) t ss = Some ss'"
    "serving ps r keep (P(vals \<mapsto> patch vb (8 * i) (le_bytes 4 h))) n ys ss'" "quiet ss ss'"
proof -
  obtain s1 where s1: "read_nat 8 ss = Some (h, s1)" "serving ps r keep (P(vals \<mapsto> vb)) n ys s1" "quiet ss s1"
    by (rule serving_read_nat [OF s h])
  show thesis
    by (rule that [of "srv_store (vals + 8 * int i) (le_bytes 4 h) s1"])
      (use s1 t i serving_store_slot [OF s1(2), of i "le_bytes 4 h"] quiet_stored [OF s1(3)] in
        \<open>auto simp: recv_arg_def arg_code_defs simp del: le_bytes.simps\<close>)
qed

lemma recv_data_type_ok:
  assumes s: "serving ps r keep (P(vals \<mapsto> vb)) n (xs @ pad @ ys) ss" and xs: "length xs = 4" "length pad = 4" and i: "8 * i + 8 \<le> length vb"
  obtains ss' where "recv_arg (vals + 8 * int i) kTVMDataType ss = Some ss'"
    "serving ps r keep (P(vals \<mapsto> patch vb (8 * i) xs)) n ys ss'" "quiet ss ss'"
proof -
  obtain s1 where s1: "MinRPCServer_ReadRawBytes 4 ss = Some (xs, s1)" "serving ps r keep (P(vals \<mapsto> vb)) n (pad @ ys) s1" "quiet ss s1"
    using serving_read [OF s] xs by metis
  have s2: "serving ps r keep (P(vals \<mapsto> patch vb (8 * i) xs)) n (pad @ ys) (srv_store (vals + 8 * int i) xs s1)"
    by (rule serving_store_slot [OF s1(2)]) (use i xs in simp)
  obtain s3 where s3: "MinRPCServer_ReadRawBytes 4 (srv_store (vals + 8 * int i) xs s1) = Some (pad, s3)"
    "serving ps r keep (P(vals \<mapsto> patch vb (8 * i) xs)) n ys s3" "quiet (srv_store (vals + 8 * int i) xs s1) s3"
    using serving_read [OF s2] xs by metis
  have "recv_arg (vals + 8 * int i) kTVMDataType ss = Some s3"
    using s1(1) s3(1) by (simp add: recv_arg_def arg_code_defs Let_def)
  then show thesis
    by (rule that) (use s3 quiet_trans [OF quiet_stored [OF s1(3)] s3(3)] in simp_all)
qed

lemma recv_null_ok:
  assumes s: "serving ps r keep (P(vals \<mapsto> vb)) n ys ss" and i: "8 * i + 8 \<le> length vb"
  obtains ss' where "recv_arg (vals + 8 * int i) kTVMNullptr ss = Some ss'"
    "serving ps r keep (P(vals \<mapsto> patch vb (8 * i) (le_bytes 4 0))) n ys ss'" "quiet ss ss'"
  by (rule that [of "srv_store (vals + 8 * int i) (le_bytes 4 0) ss"])
    (use serving_store_slot [OF s, of i "le_bytes 4 0"] i in \<open>auto simp: recv_arg_def arg_code_defs simp del: le_bytes.simps\<close>)

lemma grows_two:
  assumes "P a = None \<or> P a = Some []" and "P d = None \<or> P d = Some []" and "a \<noteq> d"
  shows "grows P (P(a \<mapsto> x, d \<mapsto> y))"
  using assms by (auto simp: grows_def)

lemma received_raw:
  assumes "8 * i + 8 \<le> length vb" and "t = int kDLInt \<or> t = int kDLUInt \<or> t = int kDLFloat \<or> t = kDLDevice"
  shows "received P r t v (slot_value (patch vb (8 * i) (le_bytes 8 (unat v))) i)"
proof -
  have "slot_value (patch vb (8 * i) (le_bytes 8 (unat v))) i = v"
  proof -
    have "unat v < 256 ^ 8"
      using unsigned_less [of v, where ?'a = nat] by simp
    then show ?thesis
      using slot_patch_same [OF assms(1), of "le_bytes 8 (unat v)"] by (simp add: le_value_le_bytes del: le_bytes.simps)
  qed
  then show ?thesis
    using assms(2) by (simp add: received_def)
qed

lemma le_bytes_add: "le_bytes (m + n) v = le_bytes m v @ le_bytes n (v div 256 ^ m)"
  by (induction m arbitrary: v) (simp_all add: div_mult2_eq)

lemma v_handle_patch_value:
  assumes "8 * i + 8 \<le> length vb"
  shows "v_handle (slot_value (patch vb (8 * i) (take 4 (le_bytes 8 (unat v)))) i) = v_handle v"
proof -
  have "take 4 (le_bytes 8 (unat v)) = le_bytes 4 (unat v)"
    using le_bytes_add [of 4 4 "unat v"] by (simp del: le_bytes.simps)
  then have "v_handle (slot_value (patch vb (8 * i) (take 4 (le_bytes 8 (unat v)))) i) = of_nat (unat v)"
    using v_handle_patch [OF assms, of "unat v"] by simp
  then show ?thesis
    by (simp add: of_nat_unat_cut v_handle_def)
qed

lemma load_tensor_data_addr: "word_addr (dt_data (load_tensor r a))"
  using le_value_bound [of "load_bytes r a 4"] by (simp add: load_tensor_def word_addr_def)

lemma recv_sent_tensor:
  assumes s: "serving ps rr keep (P(vals \<mapsto> vb)) (length (concat parts) + 24 + n) (concat parts @ ys) ss"
    and snd: "SendDLTensor r t = Some parts" and nd: "0 \<le> dt_ndim t" "dt_ndim t < 2 ^ 28" and d: "word_addr (dt_data t)"
    and i: "8 * i + 8 \<le> length vb" and P: "P vals = None"
  obtains P' a ss' where "recv_arg (vals + 8 * int i) kTVMDLTensorHandle ss = Some ss'"
    "serving ps rr keep (P'(vals \<mapsto> patch vb (8 * i) (le_bytes 4 (nat a)))) n ys ss'"
    "grows P P'" "P' vals = None" "word_addr a" "received_tensor P' r t a" "quiet ss ss'"
proof -
  let ?nd = "nat (dt_ndim t)"
  let ?sh = "load_bytes r (dt_shape t) (8 * ?nd)"
  let ?h = "pointer_u64 (of_int (dt_data t))"
  have sz: "to_size (8 * dt_ndim t) = 8 * ?nd"
    using nd by (subst to_size_id) (auto simp: nat_mult_distrib)
  have parts: "parts = [le_bytes 8 ?h, device_bytes (dt_device t), i32_bytes (int ?nd), data_type_bytes (dt_dtype t), ?sh,
      le_bytes 8 (dt_byte_offset t)]"
    using snd nd by (auto simp: SendDLTensor_def ThrowError_def sz nat_mult_distrib split: if_splits simp del: le_bytes.simps)
  have len: "length (concat parts) + 24 + n = 8 * ?nd + 56 + n"
    by (simp add: parts)
  have s': "serving ps rr keep (P(vals \<mapsto> vb)) (8 * ?nd + 56 + n) (le_bytes 8 ?h @ device_bytes (dt_device t) @ i32_bytes (int ?nd)
      @ data_type_bytes (dt_dtype t) @ ?sh @ le_bytes 8 (dt_byte_offset t) @ ys) ss"
    using s unfolding len by (simp add: parts del: le_bytes.simps)
  obtain a shape gap ss' where a: "recv_arg (vals + 8 * int i) kTVMDLTensorHandle ss = Some ss'" "length gap = 4" "a \<noteq> vals" "shape \<noteq> vals"
    "shape \<noteq> a" "P a = None \<or> P a = Some []" "P shape = None \<or> P shape = Some []" "word_addr a" "word_addr shape \<or> ?sh = []" "quiet ss ss'"
    "serving ps rr keep ((P(a \<mapsto> le_bytes 4 ?h @ device_bytes (dt_device t) @ i32_bytes (int ?nd) @ data_type_bytes (dt_dtype t)
       @ le_bytes 4 (nat shape) @ le_bytes 4 0 @ gap @ le_bytes 8 (dt_byte_offset t), shape \<mapsto> ?sh))
       (vals \<mapsto> patch vb (8 * i) (le_bytes 4 (nat a)))) n ys ss'"
    by (rule recv_tensor_ok [OF s' _ _ _ _ pointer_u64_bound _ i]) (use nd in simp_all)
  let ?img = "le_bytes 4 ?h @ device_bytes (dt_device t) @ i32_bytes (int ?nd) @ data_type_bytes (dt_dtype t)
       @ le_bytes 4 (nat shape) @ le_bytes 4 0 @ gap @ le_bytes 8 (dt_byte_offset t)"
  let ?P' = "P(a \<mapsto> ?img, shape \<mapsto> ?sh)"
  have "le_bytes 4 ?h = le_bytes 4 (nat (dt_data t))"
  proof -
    have "unat (of_int (dt_data t) :: u32) = nat (dt_data t)"
      using d by (simp add: word_addr_def unat_eq_nat_uint unsigned_of_int take_bit_int_eq_self)
    then show ?thesis
      by (simp add: le_bytes_pointer)
  qed
  then have "tensor_piece t shape ?img"
    using nd a(2) by (simp add: tensor_piece_def del: le_bytes.simps)
  moreover have "dt_ndim t \<le> 0 \<or> word_addr shape"
    using a(9) nd by (auto simp flip: length_0_conv)
  moreover have "?P' a = Some ?img" "?P' shape = Some ?sh"
    using a(5) by simp_all
  ultimately have "received_tensor ?P' r t a"
    unfolding received_tensor_def by blast
  moreover have "grows P ?P'"
    by (rule grows_two [OF a(6,7)]) (use a(5) in simp)
  moreover have "?P' vals = None"
    using a(3,4) P by simp
  ultimately show thesis
    using that a(1,8,10,11) by blast
qed

lemma recv_arg_ok:
  assumes s: "serving ps rr keep (P(vals \<mapsto> vb)) (length (concat parts) + 24 + n) (concat parts @ ys) ss"
    and snd: "send_arg r cm t v = Some parts" and ok: "sendable r t v" and small: "length (concat parts) < 2 ^ 31 - 1"
    and i: "8 * i + 8 \<le> length vb" and P: "P vals = None"
  obtains P' ws ss' where "recv_arg (vals + 8 * int i) t ss = Some ss'" "serving ps rr keep (P'(vals \<mapsto> patch vb (8 * i) ws)) n ys ss'"
    "length ws \<le> 8" "grows P P'" "P' vals = None" "received P' r t v (slot_value (patch vb (8 * i) ws) i)" "quiet ss ss'"
proof -
  have s0: "serving ps rr keep (P(vals \<mapsto> vb)) n (concat parts @ ys) ss"
    by (rule serving_less [OF s]) simp
  consider (raw) "t = int kDLInt \<or> t = int kDLUInt \<or> t = int kDLFloat \<or> t = kDLDevice" "parts = [le_bytes 8 (unat v)]"
    | (dtype) "t = kTVMDataType" "parts = [take 4 (le_bytes 8 (unat v)), le_bytes 4 0]"
    | (handle) "t = kTVMPackedFuncHandle \<or> t = kTVMModuleHandle \<or> t = kTVMOpaqueHandle" "parts = [le_bytes 8 (pointer_u64 (v_handle v))]"
    | (null) "t = kTVMNullptr" "parts = []"
    | (str) len where "t = kTVMStr" "StrLength r (uint (v_handle v)) = Some len" "parts = [le_bytes 8 len, load_bytes r (uint (v_handle v)) len]"
    | (bytes) "t = kTVMBytes" "parts = [le_bytes 8 (load_word r (uint (v_handle v) + 4)),
        load_bytes r (int (load_word r (uint (v_handle v)))) (load_word r (uint (v_handle v) + 4))]"
    | (tensor) "t = kTVMDLTensorHandle" "SendDLTensor r (load_tensor r (uint (v_handle v))) = Some parts"
    using snd unfolding send_arg_def ThrowError_def Let_def
    by (auto simp: bind_eq_Some simp del: le_bytes.simps split: if_splits)
  then show thesis
  proof cases
    case raw
    have s1: "serving ps rr keep (P(vals \<mapsto> vb)) n (le_bytes 8 (unat v) @ ys) ss"
      using s0 unfolding raw by simp
    show thesis
      by (rule recv_raw_ok [OF s1 length_le_bytes i raw(1)], rule that, assumption+)
        (use P received_raw [OF i raw(1)] in simp_all)
  next
    case dtype
    have s1: "serving ps rr keep (P(vals \<mapsto> vb)) n (take 4 (le_bytes 8 (unat v)) @ le_bytes 4 0 @ ys) ss"
      using s0 unfolding dtype by (simp del: le_bytes.simps)
    obtain ss' where "recv_arg (vals + 8 * int i) kTVMDataType ss = Some ss'"
      "serving ps rr keep (P(vals \<mapsto> patch vb (8 * i) (take 4 (le_bytes 8 (unat v))))) n ys ss'" "quiet ss ss'"
      by (rule recv_data_type_ok [OF s1 _ _ i]) simp_all
    then show thesis
      using that [of ss' P "take 4 (le_bytes 8 (unat v))"] P dtype(1) v_handle_patch_value [OF i, of v]
      by (simp add: received_def arg_code_defs del: le_bytes.simps)
  next
    case handle
    have s1: "serving ps rr keep (P(vals \<mapsto> vb)) n (le_bytes 8 (pointer_u64 (v_handle v)) @ ys) ss"
      using s0 unfolding handle by simp
    obtain ss' where "recv_arg (vals + 8 * int i) t ss = Some ss'"
      "serving ps rr keep (P(vals \<mapsto> patch vb (8 * i) (le_bytes 4 (pointer_u64 (v_handle v))))) n ys ss'" "quiet ss ss'"
      by (rule recv_handle_ok [OF s1 pointer_u64_bound i handle(1)])
    then show thesis
      using that [of ss' P "le_bytes 4 (pointer_u64 (v_handle v))"] P handle(1) v_handle_patch [OF i, of "pointer_u64 (v_handle v)"]
        pointer_u64_cut [of "v_handle v"]
      by (auto simp: received_def arg_code_defs simp del: le_bytes.simps)
  next
    case null
    have s1: "serving ps rr keep (P(vals \<mapsto> vb)) n ys ss"
      using s0 unfolding null by simp
    obtain ss' where "recv_arg (vals + 8 * int i) kTVMNullptr ss = Some ss'"
      "serving ps rr keep (P(vals \<mapsto> patch vb (8 * i) (le_bytes 4 0))) n ys ss'" "quiet ss ss'"
      by (rule recv_null_ok [OF s1 i])
    then show thesis
      using that [of ss' P "le_bytes 4 0"] P null(1) v_handle_patch [OF i, of 0]
      by (simp add: received_def arg_code_defs del: le_bytes.simps)
  next
    case (str len)
    let ?cs = "load_bytes r (uint (v_handle v)) len"
    have s1: "serving ps rr keep (P(vals \<mapsto> vb)) (length ?cs + 2 + n) (le_bytes 8 (length ?cs) @ ?cs @ ys) ss"
      using serving_less [OF s, of "len + 2 + n"] unfolding str by (simp del: le_bytes.simps)
    obtain a ss' where a: "recv_arg (vals + 8 * int i) kTVMStr ss = Some ss'"
      "serving ps rr keep ((P(a \<mapsto> ?cs @ [0]))(vals \<mapsto> patch vb (8 * i) (le_bytes 4 (nat a)))) n ys ss'"
      "a \<noteq> vals" "P a = None \<or> P a = Some []" "word_addr a" "quiet ss ss'"
      by (rule recv_string_ok [OF s1 i _ P]) (use small str in simp)
    have "received (P(a \<mapsto> ?cs @ [0])) r t v (slot_value (patch vb (8 * i) (le_bytes 4 (nat a))) i)"
      using str(1,2) v_handle_addr [OF i a(5)] by (simp add: received_def arg_code_defs del: le_bytes.simps)
    then show thesis
      using that [of ss' "P(a \<mapsto> ?cs @ [0])" "le_bytes 4 (nat a)"] a grows_new [where P = P and a = a] a(4) P str(1) by simp
  next
    case bytes
    let ?len = "load_word r (uint (v_handle v) + 4)"
    let ?cs = "load_bytes r (int (load_word r (uint (v_handle v)))) ?len"
    have s1: "serving ps rr keep (P(vals \<mapsto> vb)) (length ?cs + 13 + n) (le_bytes 8 (length ?cs) @ ?cs @ ys) ss"
      using serving_less [OF s, of "?len + 13 + n"] unfolding bytes by (simp del: le_bytes.simps)
    obtain a d ss' where a: "recv_arg (vals + 8 * int i) kTVMBytes ss = Some ss'"
      "serving ps rr keep ((P(a \<mapsto> le_bytes 4 (nat d) @ le_bytes 4 (length ?cs), d \<mapsto> ?cs))(vals \<mapsto> patch vb (8 * i) (le_bytes 4 (nat a)))) n ys ss'"
      "a \<noteq> vals" "d \<noteq> vals" "a \<noteq> d" "P a = None \<or> P a = Some []" "P d = None \<or> P d = Some []" "word_addr a" "word_addr d \<or> ?cs = []"
      "quiet ss ss'"
      by (rule recv_bytes_ok [OF s1 i _ P]) (use small bytes in simp)
    let ?P' = "P(a \<mapsto> le_bytes 4 (nat d) @ le_bytes 4 (length ?cs), d \<mapsto> ?cs)"
    have "?P' a = Some (le_bytes 4 (nat d) @ le_bytes 4 ?len)" "?P' d = Some ?cs" "?len = 0 \<or> word_addr d"
      using a(5,9) by (auto simp del: le_bytes.simps simp flip: length_0_conv)
    then have "received ?P' r t v (slot_value (patch vb (8 * i) (le_bytes 4 (nat a))) i)"
      using bytes(1) v_handle_addr [OF i a(8)] unfolding received_def arg_code_defs
      by (simp del: le_bytes.simps fun_upd_apply) blast
    moreover have "grows P ?P'"
      by (rule grows_two [OF a(6,7,5)])
    moreover have "?P' vals = None"
      using a(3,4) P by simp
    ultimately show thesis
      using that [of ss' ?P' "le_bytes 4 (nat a)"] a(1,2,10) bytes(1) by simp
  next
    case tensor
    let ?t = "load_tensor r (uint (v_handle v))"
    have nd: "0 \<le> dt_ndim ?t" "dt_ndim ?t < 2 ^ 28"
      using ok tensor(1) by (simp_all add: sendable_def)
    obtain P' a ss' where a: "recv_arg (vals + 8 * int i) kTVMDLTensorHandle ss = Some ss'"
      "serving ps rr keep (P'(vals \<mapsto> patch vb (8 * i) (le_bytes 4 (nat a)))) n ys ss'"
      "grows P P'" "P' vals = None" "word_addr a" "received_tensor P' r ?t a" "quiet ss ss'"
      by (rule recv_sent_tensor [OF s tensor(2) nd load_tensor_data_addr i P])
    have "received P' r t v (slot_value (patch vb (8 * i) (le_bytes 4 (nat a))) i)"
      using a(6) tensor(1) v_handle_addr [OF i a(5)] by (simp add: received_def arg_code_defs del: le_bytes.simps)
    then show thesis
      using that [of ss' P' "le_bytes 4 (nat a)"] a tensor(1) by simp
  qed
qed

section \<open>All arguments\<close>

lemma received_tensor_grows:
  assumes g: "grows P P'" and rc: "received_tensor P r t a"
  shows "received_tensor P' r t a"
proof -
  obtain shape img where i: "P a = Some img" "tensor_piece t shape img"
    "dt_ndim t \<le> 0 \<or> word_addr shape \<and> P shape = Some (load_bytes r (dt_shape t) (8 * nat (dt_ndim t)))"
    using rc unfolding received_tensor_def by blast
  have "P' a = Some img"
    by (rule grows_get [OF g i(1)]) (use i(2) in \<open>auto simp: tensor_piece_def\<close>)
  moreover have "dt_ndim t \<le> 0 \<or> word_addr shape \<and> P' shape = Some (load_bytes r (dt_shape t) (8 * nat (dt_ndim t)))"
  proof (cases "dt_ndim t \<le> 0")
    case False
    then have "P' shape = Some (load_bytes r (dt_shape t) (8 * nat (dt_ndim t)))"
      by (intro grows_get [OF g]) (use False i(3) in \<open>auto simp flip: length_0_conv\<close>)
    then show ?thesis
      using False i(3) by blast
  qed simp
  ultimately show ?thesis
    using i(2) unfolding received_tensor_def by blast
qed

lemma received_grows:
  assumes g: "grows P P'" and rc: "received P r t v v'"
  shows "received P' r t v v'"
proof -
  consider "t = kTVMStr" | "t = kTVMBytes" | "t = kTVMDLTensorHandle" | (other) "t \<noteq> kTVMStr" "t \<noteq> kTVMBytes" "t \<noteq> kTVMDLTensorHandle"
    by blast
  then show ?thesis
  proof cases
    case 1
    then obtain len where len: "StrLength r (uint (v_handle v)) = Some len"
      "P (uint (v_handle v')) = Some (load_bytes r (uint (v_handle v)) len @ [0])"
      using rc by (auto simp: received_def arg_code_defs)
    have "P' (uint (v_handle v')) = Some (load_bytes r (uint (v_handle v)) len @ [0])"
      by (rule grows_get [OF g len(2)]) simp
    then show ?thesis
      using 1 len(1) by (simp add: received_def arg_code_defs)
  next
    case 2
    let ?len = "load_word r (uint (v_handle v) + 4)"
    let ?cs = "load_bytes r (int (load_word r (uint (v_handle v)))) ?len"
    obtain d where d: "P (uint (v_handle v')) = Some (le_bytes 4 (nat d) @ le_bytes 4 ?len)"
      "?len = 0 \<or> word_addr d \<and> P d = Some ?cs"
      using rc 2 unfolding received_def arg_code_defs by (simp del: le_bytes.simps) blast
    have "P' (uint (v_handle v')) = Some (le_bytes 4 (nat d) @ le_bytes 4 ?len)"
      by (rule grows_get [OF g d(1)]) (simp flip: length_0_conv)
    moreover have "?len = 0 \<or> word_addr d \<and> P' d = Some ?cs"
    proof (cases "?len = 0")
      case False
      then have "P' d = Some ?cs"
        by (intro grows_get [OF g]) (use False d(2) in \<open>auto simp flip: length_0_conv\<close>)
      then show ?thesis
        using False d(2) by blast
    qed simp
    ultimately show ?thesis
      using 2 unfolding received_def arg_code_defs by (simp del: le_bytes.simps) blast
  next
    case 3
    then show ?thesis
      using rc received_tensor_grows [OF g] by (simp add: received_def arg_code_defs)
  next
    case other
    then show ?thesis
      using rc unfolding received_def by (simp split: if_splits)
  qed
qed

lemma length_i32_list [simp]: "length (concat (map i32_bytes ts)) = 4 * length ts"
  by (induction ts) simp_all

lemma i32_list_nth: "j < length ts \<Longrightarrow> take 4 (drop (4 * j) (concat (map i32_bytes ts))) = i32_bytes (ts ! j)"
proof (induction ts arbitrary: j)
  case (Cons t ts)
  then show ?case
    by (cases j) simp_all
qed simp

lemma load_tcode_piece:
  assumes "serving ps rr keep P n ys ss" and "P tcodes = Some (concat (map i32_bytes ts))" and "j < length ts" and "i32_ok (ts ! j)"
  shows "load_tcode (ram (srv_machine ss)) tcodes j = ts ! j"
  using serving_load [OF assms(1,2), of "4 * j" 4] assms(3,4)
  by (simp add: load_tcode_def i32_list_nth i32_value_bytes i32_ok_def)

lemma load_value_piece:
  assumes "serving ps rr keep P n ys ss" and "P vals = Some vb" and "8 * i + 8 \<le> length vb"
  shows "load_value (ram (srv_machine ss)) vals i = slot_value vb i"
  using serving_load [OF assms(1,2), of "8 * i" 8] assms(3) by (simp add: load_value_def slot_value_def)

lemma recv_args_ok:
  assumes "serving ps rr keep (P(vals \<mapsto> vb)) (length (concat parts) + 24 * length ts + n) (concat parts @ ys) ss"
    and "send_args r cm ts vs = Some parts" and "length vs = length ts" and "\<forall>j<length ts. sendable r (ts ! j) (vs ! j)"
    and "length (concat parts) < 2 ^ 31 - 1" and "8 * (length pre + length ts) \<le> length vb" and "P vals = None"
    and "P tcodes = Some (concat (map i32_bytes (pre @ ts)))" and "list_all i32_ok ts"
  shows "\<exists>P' vb' ss'. recv_args vals tcodes (length pre) (length ts) ss = Some ss' \<and> serving ps rr keep (P'(vals \<mapsto> vb')) n ys ss'
    \<and> length vb' = length vb \<and> grows P P' \<and> P' vals = None
    \<and> (\<forall>j<length ts. received P' r (ts ! j) (vs ! j) (slot_value vb' (length pre + j)))
    \<and> (\<forall>j<length pre. slot_value vb' j = slot_value vb j) \<and> quiet ss ss'"
  using assms
proof (induction ts arbitrary: pre vs parts P vb ss)
  case Nil
  then show ?case
    by (intro exI [of _ P] exI [of _ vb] exI [of _ ss]) simp
next
  case (Cons t ts)
  obtain v vs' where vs: "vs = v # vs'" "length vs' = length ts"
    using Cons.prems(3) by (cases vs) auto
  obtain a b where ab: "send_arg r cm t v = Some a" "send_args r cm ts vs' = Some b" "parts = a @ b"
    using Cons.prems(2) vs by (auto simp: bind_eq_Some)
  let ?i = "length pre"
  let ?n = "length (concat b) + 24 * length ts + n"
  have s: "serving ps rr keep (P(vals \<mapsto> vb)) (length (concat a) + 24 + ?n) (concat a @ concat b @ ys) ss"
    using serving_less [OF Cons.prems(1), of "length (concat a) + 24 + ?n"] by (simp add: ab(3) del: fun_upd_apply)
  have vb: "8 * ?i + 8 \<le> length vb"
    using Cons.prems(6) by simp
  have nv: "tcodes \<noteq> vals"
    using Cons.prems(7,8) by auto
  have tc: "load_tcode (ram (srv_machine ss)) tcodes ?i = t"
    using load_tcode_piece [OF s, of tcodes "pre @ t # ts" ?i] nv Cons.prems(8,9) by simp
  obtain P1 ws s1 where 1: "recv_arg (vals + 8 * int ?i) t ss = Some s1"
    "serving ps rr keep (P1(vals \<mapsto> patch vb (8 * ?i) ws)) ?n (concat b @ ys) s1" "length ws \<le> 8" "grows P P1" "P1 vals = None"
    "received P1 r t v (slot_value (patch vb (8 * ?i) ws) ?i)" "quiet ss s1"
    by (rule recv_arg_ok [OF s ab(1) _ _ vb Cons.prems(7)]) (use Cons.prems(4,5) vs ab(3) in auto)
  let ?vb = "patch vb (8 * ?i) ws"
  have lvb: "length ?vb = length vb"
    using vb 1(3) by simp
  have ok: "\<forall>j<length ts. sendable r (ts ! j) (vs' ! j)"
  proof (intro allI impI)
    fix j
    assume "j < length ts"
    then show "sendable r (ts ! j) (vs' ! j)"
      using Cons.prems(4) [rule_format, of "Suc j"] vs by simp
  qed
  have "P1 tcodes = Some (concat (map i32_bytes (pre @ t # ts)))"
    by (rule grows_get [OF 1(4) Cons.prems(8)]) (simp flip: length_0_conv)
  then obtain P2 vb2 s2 where 2: "recv_args vals tcodes (length (pre @ [t])) (length ts) s1 = Some s2"
    "serving ps rr keep (P2(vals \<mapsto> vb2)) n ys s2" "length vb2 = length ?vb" "grows P1 P2" "P2 vals = None"
    "\<forall>j<length ts. received P2 r (ts ! j) (vs' ! j) (slot_value vb2 (length (pre @ [t]) + j))"
    "\<forall>j<length (pre @ [t]). slot_value vb2 j = slot_value ?vb j" "quiet s1 s2"
    using Cons.IH [OF 1(2) ab(2) vs(2) ok, of "pre @ [t]"] Cons.prems(5,6,9) ab(3) lvb 1(5) by (auto simp del: fun_upd_apply)
  have "received P2 r ((t # ts) ! j) (vs ! j) (slot_value vb2 (?i + j))" if "j < length (t # ts)" for j
  proof (cases j)
    case 0
    then show ?thesis
      using received_grows [OF 2(4) 1(6)] 2(7) vs by simp
  next
    case (Suc k)
    then show ?thesis
      using 2(6) that vs by simp
  qed
  moreover have "slot_value vb2 j = slot_value vb j" if "j < ?i" for j
    using 2(7) that slot_patch_other [OF vb 1(3), of j] by simp
  moreover have "recv_args vals tcodes ?i (length (t # ts)) ss = Some s2"
    using 1(1) 2(1) tc by simp
  ultimately show ?case
    using 2(2,3,5) lvb grows_trans [OF 1(4) 2(4)] quiet_trans [OF 1(7) 2(8)] by (intro exI [of _ P2] exI [of _ vb2] exI [of _ s2]) (simp del: fun_upd_apply)
qed

lemma RecvPackedSeq_ok:
  assumes s: "serving ps rr keep P (length (concat parts) + 32 * length ts + 8 + n) (concat parts @ ys) ss"
    and snd: "SendPackedSeq r vs ts cm = Some parts" and len: "length vs = length ts" and ok: "\<forall>j<length ts. sendable r (ts ! j) (vs ! j)"
    and small: "length (concat parts) < 2 ^ 31 - 1" and i32: "list_all i32_ok ts"
  obtains P' vals tcodes ss' where "RecvPackedSeq ss = Some (vals, tcodes, int (length ts), ss')" "serving ps rr keep P' n ys ss'"
    "grows P P'" "\<forall>j<length ts. load_tcode (ram (srv_machine ss')) tcodes j = ts ! j
      \<and> received P' r (ts ! j) (vs ! j) (load_value (ram (srv_machine ss')) vals j)" "quiet ss ss'"
proof -
  obtain args where args: "send_args r cm ts vs = Some args" "parts = i32_bytes (int (length ts)) # concat (map i32_bytes ts) # args"
    using snd by (auto simp: SendPackedSeq_def bind_eq_Some)
  let ?n = "length ts"
  have num: "i32_ok (int ?n)" "?n < 2 ^ 29"
    using small unfolding args(2) i32_ok_def by auto
  have s0: "serving ps rr keep P (length (concat args) + 36 * ?n + 12 + n) (i32_bytes (int ?n) @ concat (map i32_bytes ts) @ concat args @ ys) ss"
    using serving_less [OF s, of "length (concat args) + 36 * ?n + 12 + n"] by (simp add: args(2))
  obtain s1 where s1: "read_int ss = Some (int ?n, s1)"
    "serving ps rr keep P (length (concat args) + 36 * ?n + 12 + n) (concat (map i32_bytes ts) @ concat args @ ys) s1" "quiet ss s1"
    by (rule serving_read_int [OF s0 num(1)])
  show thesis
  proof (cases "?n = 0")
    case True
    then have "args = []"
      using args(1) by simp
    then show thesis
      using that [of 0 0 s1 P] s1 True serving_less [OF s1(2), of n] by (simp add: RecvPackedSeq_def)
  next
    case False
    obtain vals vb s2 where s2: "ArenaAlloc 8 8 (int ?n) s1 = Some (vals, s2)" "P vals = None \<or> P vals = Some []" "length vb = 8 * ?n"
      "serving ps rr keep (P(vals \<mapsto> vb)) (length (concat args) + 28 * ?n + 4 + n) (concat (map i32_bytes ts) @ concat args @ ys) s2"
      "quiet s1 s2"
      by (rule serving_alloc [OF serving_less [OF s1(2), of "8 * ?n + 8 + (length (concat args) + 28 * ?n + 4 + n)"]])
        (use num in simp_all)
    let ?P = "P(vals := None)"
    have g0: "grows P ?P"
      using s2(2) by (auto simp: grows_def)
    have s2': "serving ps rr keep (?P(vals \<mapsto> vb)) (length (concat args) + 28 * ?n + 4 + n) (concat (map i32_bytes ts) @ concat args @ ys) s2"
      using s2(4) by simp
    have vb: "vb \<noteq> []"
      using s2(3) False by auto
    obtain tcodes tb s3 where s3: "ArenaAlloc 4 4 (int ?n) s2 = Some (tcodes, s3)" "tcodes \<noteq> vals" "?P tcodes = None \<or> ?P tcodes = Some []"
      "length tb = 4 * ?n" "serving ps rr keep ((?P(tcodes \<mapsto> tb))(vals \<mapsto> vb)) (length (concat args) + 24 * ?n + n)
        (concat (map i32_bytes ts) @ concat args @ ys) s3" "quiet s2 s3"
      by (rule serving_alloc_apart [OF serving_less [OF s2', of "4 * ?n + 4 + (length (concat args) + 24 * ?n + n)"]])
        (use num vb in simp_all)
    let ?tb = "concat (map i32_bytes ts)"
    obtain s4 where s4: "ReadArray tcodes 4 (int ?n) s3 = Some s4"
      "serving ps rr keep ((?P(tcodes \<mapsto> tb, tcodes \<mapsto> ?tb))(vals \<mapsto> vb)) (length (concat args) + 24 * ?n + n) (concat args @ ys) s4"
      "quiet s3 s4"
      by (rule serving_read_array_apart [OF s3(5), of tcodes tb 4 "int ?n"]) (use s3(2,4) num in simp_all)
    let ?P1 = "?P(tcodes \<mapsto> ?tb)"
    have s4': "serving ps rr keep (?P1(vals \<mapsto> vb)) (length (concat args) + 24 * ?n + n) (concat args @ ys) s4"
      using s4(2) unfolding fun_upd_upd .
    have P1: "?P1 vals = None" "?P1 tcodes = Some (concat (map i32_bytes ([] @ ts)))" "grows ?P ?P1"
      using s3(2) grows_new [where P = ?P and a = tcodes] s3(3) by simp_all
    obtain P2 vb2 s5 where s5: "recv_args vals tcodes (length ([] :: int list)) ?n s4 = Some s5" "serving ps rr keep (P2(vals \<mapsto> vb2)) n ys s5"
      "length vb2 = length vb" "grows ?P1 P2" "P2 vals = None"
      "\<forall>j<?n. received P2 r (ts ! j) (vs ! j) (slot_value vb2 (length ([] :: int list) + j))" "quiet s4 s5"
      using recv_args_ok [OF s4' args(1) len ok _ _ P1(1,2) i32] small s2(3) unfolding args(2) by (auto simp del: fun_upd_apply)
    have gv: "grows P2 (P2(vals \<mapsto> vb2))"
      using s5(5) by (simp add: grows_def)
    have "length ?tb \<noteq> 0"
      using False by (simp del: length_0_conv)
    then have "?tb \<noteq> []"
      by (metis list.size(3))
    then have "P2 tcodes = Some ?tb"
      by (intro grows_get [OF s5(4)]) simp_all
    then have tc: "(P2(vals \<mapsto> vb2)) tcodes = Some ?tb"
      using s3(2) by simp
    have "load_tcode (ram (srv_machine s5)) tcodes j = ts ! j
      \<and> received (P2(vals \<mapsto> vb2)) r (ts ! j) (vs ! j) (load_value (ram (srv_machine s5)) vals j)" if j: "j < ?n" for j
      using load_tcode_piece [OF s5(2) tc j] load_value_piece [OF s5(2), of vals vb2 j] received_grows [OF gv] s5(3,6) s2(3) j i32
      by (simp add: list_all_length del: fun_upd_apply add: fun_upd_same)
    moreover have "RecvPackedSeq ss = Some (vals, tcodes, int ?n, s5)"
      using s1(1) s2(1) s3(1) s4(1) s5(1) False by (simp add: RecvPackedSeq_def)
    moreover have "quiet ss s5"
      by (rule quiet_trans [OF quiet_trans [OF quiet_trans [OF quiet_trans [OF s1(3) s2(5)] s3(6)] s4(3)] s5(7)])
    moreover have "grows P (P2(vals \<mapsto> vb2))"
      by (rule grows_trans [OF g0 grows_trans [OF P1(3) grows_trans [OF s5(4) gv]]])
    ultimately show thesis
      using that s5(2) by blast
  qed
qed

end
