(* ===== verification/Rpc_Requests.thy ===== *)
theory Rpc_Requests
  imports Rpc_Packed
begin

text \<open>
  What the server does with one request over the serial line: the handler of each request sends exactly
  one reply frame, and the blocks of the device memory are changed as the request says.
\<close>

section \<open>Blocks beside the arena\<close>

text \<open>The blocks that clients own change while the pages of the arena stay as they are.\<close>

lemma arena_ok_keep:
  assumes "arena_ok ps r keep pages used free ar m" and "owns ps r' (keep' ++ pages) m'" and "dom keep' \<inter> dom pages = {}"
  shows "arena_ok ps r' keep' pages used free ar m'"
  using assms by (simp add: arena_ok_def)

lemma arena_ok_apart: "arena_ok ps r keep pages used free ar m \<Longrightarrow> dom keep \<inter> dom pages = {}"
  by (simp add: arena_ok_def)

lemma arena_holds_store:
  assumes h: "arena_holds ps r keep P n ar m" and p: "keep p = Some bs" and k: "k + length ws \<le> length bs"
  shows "arena_holds ps r (keep(p \<mapsto> patch bs k ws)) P n ar (mstore (p + int k) ws m)"
proof -
  obtain pages used free pb nxt off where st: "arena_ok ps r keep pages used free ar m" "pages (hd used) = Some pb"
    "header pb nxt off" "off + n \<le> length pb" "pieces_ok pages used P"
    by (rule arena_holdsE [OF h])
  have np: "p \<notin> dom pages"
    using arena_ok_apart [OF st(1)] p by auto
  have "owns ps r ((keep ++ pages)(p \<mapsto> patch bs k ws)) (mstore (p + int k) ws m)"
    by (rule owns_store [OF arena_owns [OF st(1)] arena_keep [OF st(1) p] k]) simp_all
  then have "owns ps r (keep(p \<mapsto> patch bs k ws) ++ pages) (mstore (p + int k) ws m)"
    using map_add_upd_left [OF np] by metis
  then have "arena_ok ps r (keep(p \<mapsto> patch bs k ws)) pages used free ar (mstore (p + int k) ws m)"
    by (rule arena_ok_keep [OF st(1)]) (use arena_ok_apart [OF st(1)] np in auto)
  then show ?thesis
    by (rule arena_holdsI [OF _ st(2-5)])
qed

lemma arena_holds_alloc:
  assumes h: "arena_holds ps (pages_of ps k + r) keep P n ar m" and k: "0 < k" "k < 2 ^ 31"
  obtains p hp where "PageMemoryManager_Allocate (heap m) k = Some (kTvmErrorNoError, p, hp)" "keep p = None" "word_addr p"
    "arena_holds ps r (keep(p \<mapsto> load_bytes (ram m) p k)) P n ar (m\<lparr>heap := hp\<rparr>)"
proof -
  obtain pages used free pb nxt off where st: "arena_ok ps (pages_of ps k + r) keep pages used free ar m" "pages (hd used) = Some pb"
    "header pb nxt off" "off + n \<le> length pb" "pieces_ok pages used P"
    by (rule arena_holdsE [OF h])
  obtain p hp where p: "PageMemoryManager_Allocate (heap m) k = Some (kTvmErrorNoError, p, hp)" "(keep ++ pages) p = None" "0 < p"
    "p + int k \<le> 2 ^ 32"
    "\<And>bs m'. length bs = k \<Longrightarrow> heap m' = hp \<Longrightarrow> ram m' = store_bytes (ram m) p bs \<Longrightarrow> owns ps r ((keep ++ pages)(p \<mapsto> bs)) m'"
    by (rule owns_alloc [OF arena_owns [OF st(1)] k]) (rule that, assumption+)
  have np: "p \<notin> dom pages" "keep p = None"
    using p(2) by (auto simp: map_add_None)
  let ?bs = "load_bytes (ram m) p k"
  have "owns ps r ((keep ++ pages)(p \<mapsto> ?bs)) (m\<lparr>heap := hp\<rparr>)"
    by (rule p(5)) (simp_all add: store_load_same)
  then have "owns ps r (keep(p \<mapsto> ?bs) ++ pages) (m\<lparr>heap := hp\<rparr>)"
    using map_add_upd_left [OF np(1)] by metis
  then have "arena_ok ps r (keep(p \<mapsto> ?bs)) pages used free ar (m\<lparr>heap := hp\<rparr>)"
    by (rule arena_ok_keep [OF st(1)]) (use arena_ok_apart [OF st(1)] np in auto)
  then have "arena_holds ps r (keep(p \<mapsto> ?bs)) P n ar (m\<lparr>heap := hp\<rparr>)"
    by (rule arena_holdsI [OF _ st(2-5)])
  moreover have "word_addr p"
    using p(3,4) k(1) by (simp add: word_addr_def)
  ultimately show thesis
    using that p(1) np(2) by blast
qed

lemma arena_holds_free:
  assumes h: "arena_holds ps r keep P n ar m" and p: "keep p = Some bs"
  obtains hp where "PageMemoryManager_Free (heap m) p = Some (kTvmErrorNoError, hp)"
    "arena_holds ps r (keep(p := None)) P n ar (m\<lparr>heap := hp\<rparr>)"
proof -
  obtain pages used free pb nxt off where st: "arena_ok ps r keep pages used free ar m" "pages (hd used) = Some pb"
    "header pb nxt off" "off + n \<le> length pb" "pieces_ok pages used P"
    by (rule arena_holdsE [OF h])
  obtain hp where hp: "PageMemoryManager_Free (heap m) p = Some (kTvmErrorNoError, hp)"
    "\<And>m'. heap m' = hp \<Longrightarrow> ram m' = ram m \<Longrightarrow> owns ps r ((keep ++ pages)(p := None)) m'"
    by (rule owns_free [OF arena_owns [OF st(1)] arena_keep [OF st(1) p]]) (rule that, assumption+)
  have np: "p \<notin> dom pages"
    using arena_ok_apart [OF st(1)] p by auto
  have "(keep ++ pages)(p := None) = keep(p := None) ++ pages"
    using np by (auto simp: map_add_def dom_def fun_eq_iff split: option.splits)
  then have "owns ps r (keep(p := None) ++ pages) (m\<lparr>heap := hp\<rparr>)"
    using hp(2) [of "m\<lparr>heap := hp\<rparr>"] by simp
  then have "arena_ok ps r (keep(p := None)) pages used free ar (m\<lparr>heap := hp\<rparr>)"
    by (rule arena_ok_keep [OF st(1)]) (use arena_ok_apart [OF st(1)] in auto)
  then show thesis
    using that hp(1) arena_holdsI [OF _ st(2-5)] by blast
qed

lemma serving_keep_store:
  assumes "serving ps r keep P n ys ss" and "keep p = Some bs" and "k + length ws \<le> length bs"
  shows "serving ps r (keep(p \<mapsto> patch bs k ws)) P n ys (srv_store (p + int k) ws ss)"
  using arena_holds_store [of ps r keep P n _ _ p bs k ws] assms
  by (simp add: serving_def srv_store_def set_machine_def set_runtime_def)

lemma serving_keep_load:
  assumes "serving ps r keep P n ys ss" and "keep p = Some bs" and "k + l \<le> length bs"
  shows "load_bytes (ram (srv_machine ss)) (p + int k) l = take l (drop k bs)"
  using owns_load [of ps r keep "srv_machine ss" p bs k l] arena_holds_owns assms unfolding serving_def by blast

lemma serving_keep_range:
  assumes "serving ps r keep P n ys ss" and "keep p = Some bs"
  shows "0 < p" "p + int (length bs) \<le> 2 ^ 32"
  using owns_range arena_holds_owns assms unfolding serving_def by blast+

section \<open>One reply\<close>

text \<open>What no request changes: the session, the flag of the loop and the runtime beside the machine.\<close>

definition same_device :: "'s server \<Rightarrow> 's server \<Rightarrow> bool" where
  "same_device ss ss' \<longleftrightarrow> session_id ss' = session_id ss \<and> session_state ss' = session_state ss \<and> local_nonce ss' = local_nonce ss
     \<and> receive_buffer_has_complete_message ss' = receive_buffer_has_complete_message ss
     \<and> fb_capacity (receive_buffer ss') = fb_capacity (receive_buffer ss)
     \<and> is_running (callback_context ss') = is_running (callback_context ss)
     \<and> srv_runtime ss' = (srv_runtime ss)\<lparr>rt_machine := srv_machine ss'\<rparr>"

lemma quiet_same_device: "quiet ss ss' \<Longrightarrow> same_device ss ss'"
  by (simp add: quiet_def same_device_def)

lemma same_device_trans: "same_device ss ss' \<Longrightarrow> same_device ss' ss'' \<Longrightarrow> same_device ss ss''"
proof -
  assume q: "same_device ss ss'" "same_device ss' ss''"
  then have "srv_runtime ss'' = (srv_runtime ss)\<lparr>rt_machine := srv_machine ss''\<rparr>"
    unfolding same_device_def by (blast intro: runtime_machine_trans)
  then show ?thesis
    using q unfolding same_device_def by (intro conjI) (elim conjE, assumption | elim conjE, metis)+
qed

text \<open>
  \<open>replied r keep ss body ss'\<close>: between \<open>ss\<close> and \<open>ss'\<close> one message with this body went out, and the
  device memory holds \<open>keep\<close> with \<open>r\<close> untouched pages left.
\<close>

definition replied :: "nat \<Rightarrow> (addr \<rightharpoonup> u8 list) \<Rightarrow> serial server \<Rightarrow> u8 list \<Rightarrow> serial server \<Rightarrow> bool" where
  "replied r keep ss body ss' \<longleftrightarrow>
     (\<exists>P n. arena_holds 256 r keep P n (rpc_arena (callback_context ss')) (srv_machine ss'))
     \<and> fb_wf (receive_buffer ss') \<and> same_device ss ss'
     \<and> g_num_bytes_written (session_stream ss') = g_num_bytes_requested (session_stream ss')
     \<and> fr_state (session_framer ss') = kIdle
     \<and> serial_out (session_stream ss') = serial_out (session_stream ss) @ lead (session_framer ss)
         @ frame_packet (session_header_bytes (message_header ss kNormal) @ packet_bytes body)"

text \<open>The line takes what is sent.\<close>

definition line_ready :: "serial server \<Rightarrow> bool" where
  "line_ready ss \<longleftrightarrow> g_num_bytes_written (session_stream ss) = g_num_bytes_requested (session_stream ss)"

lemma quiet_line: "quiet ss ss' \<Longrightarrow> line_ready ss \<Longrightarrow> line_ready ss'"
  by (simp add: quiet_def line_ready_def)

lemma replied_quiet:
  assumes "quiet ss ss1" and "replied r keep ss1 body ss'"
  shows "replied r keep ss body ss'"
proof -
  have "message_header ss1 kNormal = message_header ss kNormal"
    using assms(1) by (simp add: quiet_def message_header_def)
  then show ?thesis
    using assms same_device_trans [OF quiet_same_device [OF assms(1)]] unfolding replied_def quiet_def by simp
qed

lemma send_reply_replied:
  assumes s: "serving 256 r keep P n ys ss" and l: "line_ready ss" and len: "2 * length (concat parts) + 37 < 2 ^ 31"
  obtains ss' where "send_reply SerialWriteStream_Write (length (concat parts)) parts ss = Some ss'" "replied r keep ss (concat parts) ss'"
proof -
  have acc: "serial_accepts (session_stream ss) (2 * length (concat parts) + 37)"
    using l len by (simp add: serial_accepts_def line_ready_def)
  obtain fr st where r: "send_reply SerialWriteStream_Write (length (concat parts)) parts ss = Some (ss\<lparr>session_framer := fr, session_stream := st\<rparr>)"
    "fr_state fr = kIdle"
    "serial_out st = serial_out (session_stream ss) @ lead (session_framer ss)
       @ frame_packet (session_header_bytes (message_header ss kNormal) @ packet_bytes (concat parts))"
    "serial_accepts st (2 * length (concat parts) + 37 - length (lead (session_framer ss)
       @ frame_packet (session_header_bytes (message_header ss kNormal) @ packet_bytes (concat parts))))"
    by (rule uart.send_reply_ok [OF acc le_refl len])
  have "replied r keep ss (concat parts) (ss\<lparr>session_framer := fr, session_stream := st\<rparr>)"
    using s r(2-4) unfolding replied_def serving_def by (auto simp: same_device_def serial_accepts_def)
  then show thesis
    using that r(1) by blast
qed

definition void_reply :: "u8 list" where
  "void_reply = i32_bytes kReturn @ i32_bytes 1 @ i32_bytes kTVMNullptr"

definition handle_reply :: "u32 \<Rightarrow> u8 list" where
  "handle_reply h = i32_bytes kReturn @ i32_bytes 1 @ i32_bytes kTVMOpaqueHandle @ le_bytes 8 (pointer_u64 h)"

lemma ReturnVoid_replied:
  assumes "serving 256 r keep P n ys ss" and "line_ready ss"
  obtains ss' where "ReturnVoid SerialWriteStream_Write ss = Some ss'" "replied r keep ss void_reply ss'"
proof -
  let ?parts = "[i32_bytes kReturn, i32_bytes 1, i32_bytes kTVMNullptr]"
  have len: "2 * length (concat ?parts) + 37 < 2 ^ 31"
    by simp
  obtain ss' where "send_reply SerialWriteStream_Write (length (concat ?parts)) ?parts ss = Some ss'" "replied r keep ss (concat ?parts) ss'"
    by (rule send_reply_replied [OF assms len])
  then show thesis
    using that by (simp add: ReturnVoid_def void_reply_def)
qed

lemma ReturnHandle_replied:
  assumes "serving 256 r keep P n ys ss" and "line_ready ss"
  obtains ss' where "ReturnHandle SerialWriteStream_Write h ss = Some ss'" "replied r keep ss (handle_reply h) ss'"
proof -
  let ?parts = "[i32_bytes kReturn, i32_bytes 1, i32_bytes kTVMOpaqueHandle, le_bytes 8 (pointer_u64 h)]"
  have len: "2 * length (concat ?parts) + 37 < 2 ^ 31"
    by simp
  obtain ss' where "send_reply SerialWriteStream_Write (length (concat ?parts)) ?parts ss = Some ss'" "replied r keep ss (concat ?parts) ss'"
    by (rule send_reply_replied [OF assms len])
  then show thesis
    using that by (simp add: ReturnHandle_def handle_reply_def del: le_bytes.simps)
qed

lemma ReturnCopyFromRemote_replied:
  assumes s: "serving 256 r keep P n ys ss" and l: "line_ready ss" and p: "keep p = Some bs" "off + k \<le> length bs" and k: "k < 2 ^ 29"
  obtains ss' where "ReturnCopyFromRemote SerialWriteStream_Write (p + int off) k ss = Some ss'"
    "replied r keep ss (i32_bytes kCopyAck @ take k (drop off bs)) ss'"
proof -
  have ld: "load_bytes (ram (srv_machine ss)) (p + int off) k = take k (drop off bs)"
    by (rule serving_keep_load [OF s p])
  let ?parts = "[i32_bytes kCopyAck, take k (drop off bs)]"
  have len: "length (concat ?parts) = 4 + k"
    using p(2) by simp
  have small: "2 * length (concat ?parts) + 37 < 2 ^ 31"
    unfolding len using k by simp
  obtain ss' where "send_reply SerialWriteStream_Write (length (concat ?parts)) ?parts ss = Some ss'" "replied r keep ss (concat ?parts) ss'"
    by (rule send_reply_replied [OF s l small])
  then show thesis
    using that k unfolding len by (simp add: ReturnCopyFromRemote_def ld [simplified])
qed


section \<open>The arguments of a system call\<close>

text \<open>A call whose sequence fits in the arena gets the type codes as sent and values that stand for the sent ones.\<close>

definition packed_args ::
    "(addr \<rightharpoonup> u8 list) \<Rightarrow> ram \<Rightarrow> int list \<Rightarrow> tvm_value list \<Rightarrow> tvm_value list \<Rightarrow> bool" where
  "packed_args P r ts vs vs' \<longleftrightarrow> length vs' = length ts \<and> (\<forall>j<length ts. received P r (ts ! j) (vs ! j) (vs' ! j))"

lemma HandleSyscallFunc_args:
  assumes s: "serving ps rr keep Map.empty 2036 (concat parts @ ys) ss" and snd: "SendPackedSeq r vs ts cm = Some parts"
    and len: "length vs = length ts" and ok: "\<forall>j<length ts. sendable r (ts ! j) (vs ! j)" and i32: "list_all i32_ok ts"
    and room: "length (concat parts) + 32 * length ts + 8 + n = 2036"
  obtains P vs' ss' where "HandleSyscallFunc tg c ss = SysCallFunc tg c vs' ts (int (length ts)) ss'" "packed_args P r ts vs vs'"
    "serving ps rr keep P n ys ss'" "quiet ss ss'"
proof -
  have small: "length (concat parts) < 2 ^ 31 - 1"
    using room by simp
  obtain P vals tcodes ss' where rc: "RecvPackedSeq ss = Some (vals, tcodes, int (length ts), ss')" "serving ps rr keep P n ys ss'"
    "\<forall>j<length ts. load_tcode (ram (srv_machine ss')) tcodes j = ts ! j
      \<and> received P r (ts ! j) (vs ! j) (load_value (ram (srv_machine ss')) vals j)" "quiet ss ss'"
    by (rule RecvPackedSeq_ok [OF s [folded room] snd len ok small i32])
  have "seq_tcodes tcodes (int (length ts)) ss' = ts"
    by (rule nth_equalityI) (use rc(3) in \<open>simp_all add: seq_tcodes_def\<close>)
  moreover have "packed_args P r ts vs (seq_values vals (int (length ts)) ss')"
    using rc(3) by (simp add: packed_args_def seq_values_def)
  ultimately show thesis
    using that rc(1,2,4) by (simp add: HandleSyscallFunc_def)
qed

text \<open>A name in the memory of the client, and what the server reads where it has put it.\<close>

lemma StrLength_loop_text:
  "load_bytes r (a + int k) (length cs + 1) = cs @ [0] \<Longrightarrow> 0 \<notin> set cs \<Longrightarrow> StrLength_loop r a k = Some (k + length cs)"
proof (induction cs arbitrary: k)
  case Nil
  then show ?case
    by (subst StrLength_loop.simps) (simp add: load_bytes_def)
next
  case (Cons c cs)
  have ld: "r (a + int k) = c" "load_bytes r (a + int k + 1) (length cs + 1) = cs @ [0]"
    using Cons.prems(1) load_bytes_append [of r "a + int k" 1 "length cs + 1"] by (simp_all add: load_bytes_def)
  have next_addr: "a + int k + 1 = a + int (k + 1)"
    by simp
  have "StrLength_loop r a (k + 1) = Some (k + 1 + length cs)"
    by (rule Cons.IH [OF ld(2) [unfolded next_addr]]) (use Cons.prems(2) in simp)
  then show ?case
    using ld(1) Cons.prems(2) by (subst StrLength_loop.simps) simp
qed

lemma c_string_text: "load_bytes r a (length cs + 1) = cs @ [0] \<Longrightarrow> 0 \<notin> set cs \<Longrightarrow> c_string r a = Some (cs @ [0])"
proof (induction cs arbitrary: a)
  case Nil
  then show ?case
    by (subst c_string.simps) (simp add: load_bytes_def)
next
  case (Cons c cs)
  have ld: "r a = c" "load_bytes r (a + 1) (length cs + 1) = cs @ [0]"
    using Cons.prems(1) load_bytes_append [of r a 1 "length cs + 1"] by (simp_all add: load_bytes_def)
  have "c_string r (a + 1) = Some (cs @ [0])"
    by (rule Cons.IH) (use ld(2) Cons.prems(2) in simp_all)
  then show ?case
    using ld(1) Cons.prems(2) by (subst c_string.simps) simp
qed

text \<open>A memory that holds a name at address 1, and the value that points to it.\<close>

definition text_ram :: "u8 list \<Rightarrow> ram" where
  "text_ram cs = store_bytes (\<lambda>_. 0) 1 (cs @ [0])"

lemma text_ram_load: "load_bytes (text_ram cs) 1 (length cs + 1) = cs @ [0]"
  using load_store_same [of "\<lambda>_. 0" 1 "cs @ [0]"] by (simp add: text_ram_def)

lemma text_ram_length: "0 \<notin> set cs \<Longrightarrow> StrLength (text_ram cs) 1 = Some (length cs)"
  using StrLength_loop_text [of "text_ram cs" 1 0 cs] text_ram_load by (simp add: StrLength_def)

lemma text_ram_text: "load_bytes (text_ram cs) 1 (length cs) = cs"
  using text_ram_load [of cs] load_bytes_append [of "text_ram cs" 1 "length cs" 1] by (metis append_eq_append_conv length_load_bytes)

lemma v_handle_1: "v_handle 1 = 1"
  by (simp add: v_handle_def)


section \<open>The service\<close>

text \<open>
  What a client may ask for: it starts the server, looks up a function, allocates and frees memory of the
  device, and copies data to and from it. A tensor on the CPU is given by its data pointer, type, shape
  and offset; \<open>dev\<close> and \<open>dt\<close> are the words of a device and of a data type.
\<close>

datatype request =
    Init "u8 list"
  | Get_Func "u8 list"
  | Alloc_Data tvm_value nat nat tvm_value
  | Free_Data tvm_value addr
  | Copy_To addr dl_data_type "int list" nat "u8 list"
  | Copy_From addr dl_data_type "int list" nat nat

definition seq_bytes :: "ram \<Rightarrow> tvm_value list \<Rightarrow> int list \<Rightarrow> u8 list" where
  "seq_bytes r vs ts = (case SendPackedSeq r vs ts True of None \<Rightarrow> [] | Some parts \<Rightarrow> concat parts)"

definition tensor_bytes :: "addr \<Rightarrow> dl_data_type \<Rightarrow> int list \<Rightarrow> nat \<Rightarrow> u8 list" where
  "tensor_bytes p dt sh off = le_bytes 8 (pointer_u64 (of_int p)) @ device_bytes \<lparr>device_type = kDLCPU, device_id = 0\<rparr>
     @ i32_bytes (int (length sh)) @ data_type_bytes dt @ i64s_bytes sh @ le_bytes 8 off"

fun request_code :: "request \<Rightarrow> rpc_code" where
  "request_code (Init v) = kInitServer"
| "request_code (Get_Func name) = kGetGlobalFunc"
| "request_code (Alloc_Data dev n al dt) = kDevAllocData"
| "request_code (Free_Data dev p) = kDevFreeData"
| "request_code (Copy_To p dt sh off bs) = kCopyToRemote"
| "request_code (Copy_From p dt sh off n) = kCopyFromRemote"

fun request_args :: "request \<Rightarrow> u8 list" where
  "request_args (Init v) = le_bytes 8 (length v) @ v @ i32_bytes 0"
| "request_args (Get_Func name) = seq_bytes (text_ram name) [1] [kTVMStr]"
| "request_args (Alloc_Data dev n al dt) =
     seq_bytes (\<lambda>_. 0) [dev, of_nat n, of_nat al, dt] [kDLDevice, int kDLInt, int kDLInt, kTVMDataType]"
| "request_args (Free_Data dev p) = seq_bytes (\<lambda>_. 0) [dev, of_int p] [kDLDevice, kTVMOpaqueHandle]"
| "request_args (Copy_To p dt sh off bs) = tensor_bytes p dt sh off @ le_bytes 8 (length bs) @ bs"
| "request_args (Copy_From p dt sh off n) = tensor_bytes p dt sh off @ le_bytes 8 n"

definition request_body :: "request \<Rightarrow> u8 list" where
  "request_body q = i32_bytes (request_code q) @ request_args q"

text \<open>The size of a block, rounded to its alignment.\<close>

definition remote_size :: "nat \<Rightarrow> nat \<Rightarrow> nat" where
  "remote_size n al = (if al = 1 then n else (n + al - 1) div al * al)"

text \<open>
  The specification. The memory of the device is a map from the addresses of blocks to their contents,
  and a number of untouched pages of 256 bytes; a request changes it and has a reply.
\<close>

type_synonym remote = "(addr \<rightharpoonup> u8 list) \<times> nat"

inductive request_step :: "(u8 list \<Rightarrow> (tvm_crt_error \<times> u32 option) option) \<Rightarrow> remote \<Rightarrow> request \<Rightarrow> u8 list \<Rightarrow> remote \<Rightarrow> bool"
  for lookup where
  init: "request_step lookup (keep, r) (Init v) void_reply (keep, r)"
| get_func: "lookup (name @ [0]) = Some (kTvmErrorNoError, Some h) \<Longrightarrow>
    request_step lookup (keep, r) (Get_Func name) (handle_reply h) (keep, r)"
| alloc: "keep p = None \<Longrightarrow> word_addr p \<Longrightarrow> length bs = remote_size n al \<Longrightarrow>
    request_step lookup (keep, pages_of 256 (remote_size n al) + r) (Alloc_Data dev n al dt) (handle_reply (of_int p)) (keep(p \<mapsto> bs), r)"
| free: "keep p = Some bs \<Longrightarrow> request_step lookup (keep, r) (Free_Data dev p) void_reply (keep(p := None), r)"
| copy_to: "keep p = Some bs \<Longrightarrow> off + length ws \<le> length bs \<Longrightarrow>
    request_step lookup (keep, r) (Copy_To p dt sh off ws) void_reply (keep(p \<mapsto> patch bs off ws), r)"
| copy_from: "keep p = Some bs \<Longrightarrow> off + n \<le> length bs \<Longrightarrow>
    request_step lookup (keep, r) (Copy_From p dt sh off n) (i32_bytes kCopyAck @ take n (drop off bs)) (keep, r)"

text \<open>What the client has to see to: blocks it owns, and a request that fits in the packet and the arena.\<close>

fun request_fits :: "(u8 list \<Rightarrow> (tvm_crt_error \<times> u32 option) option) \<Rightarrow> remote \<Rightarrow> request \<Rightarrow> bool" where
  "request_fits lookup (keep, r) (Init v) = (length v \<le> 2030)"
| "request_fits lookup (keep, r) (Get_Func name) =
     (length name \<le> 1980 \<and> 0 \<notin> set name \<and> (case lookup (name @ [0]) of Some (e, Some h) \<Rightarrow> e = kTvmErrorNoError | _ \<Rightarrow> False))"
| "request_fits lookup (keep, r) (Alloc_Data dev n al dt) =
     (0 < n \<and> 0 < al \<and> n + al < 2 ^ 31 \<and> pages_of 256 (remote_size n al) \<le> r)"
| "request_fits lookup (keep, r) (Free_Data dev p) = (word_addr p \<and> keep p \<noteq> None)"
| "request_fits lookup (keep, r) (Copy_To p dt sh off ws) =
     (word_addr p \<and> off < 2 ^ 32 \<and> (case keep p of None \<Rightarrow> False | Some bs \<Rightarrow> off + length ws \<le> length bs \<and> 8 * length sh \<le> 1980 \<and> 8 * length sh + length ws \<le> 4041))"
| "request_fits lookup (keep, r) (Copy_From p dt sh off n) =
     (word_addr p \<and> off < 2 ^ 32 \<and> (case keep p of None \<Rightarrow> False | Some bs \<Rightarrow> off + n \<le> length bs \<and> n < 2 ^ 29 \<and> 8 * length sh \<le> 1980))"

section \<open>The handlers\<close>

text \<open>The handler of a request: one reply, and the step of the specification.\<close>

definition handles :: "(u8 list \<Rightarrow> (tvm_crt_error \<times> u32 option) option) \<Rightarrow> remote \<Rightarrow> request \<Rightarrow> serial server
    \<Rightarrow> (bool \<times> serial server) option \<Rightarrow> bool" where
  "handles lookup st q ss res \<longleftrightarrow> (\<exists>ss' reply keep' r'. res = Some (True, ss') \<and> replied r' keep' ss reply ss'
     \<and> request_step lookup st q reply (keep', r'))"

lemma handlesI:
  assumes "res = Some (True, ss')" and "replied r' keep' ss1 reply ss'" and "quiet ss ss1" and "request_step lookup st q reply (keep', r')"
  shows "handles lookup st q ss res"
  using assms(1,4) replied_quiet [OF assms(3,2)] unfolding handles_def by blast

lemma code_distinct:
  "\<not> kInitServer \<ge> kSyscallCodeStart" "\<not> kCopyToRemote \<ge> kSyscallCodeStart" "\<not> kCopyFromRemote \<ge> kSyscallCodeStart"
  "kGetGlobalFunc \<ge> kSyscallCodeStart" "kDevAllocData \<ge> kSyscallCodeStart" "kDevFreeData \<ge> kSyscallCodeStart"
  by (simp_all add: rpc_code_defs)

lemma RecvPackedSeq_empty:
  assumes "serving ps r keep P n (i32_bytes 0 @ ys) ss"
  obtains ss' where "RecvPackedSeq ss = Some (0, 0, 0, ss')" "serving ps r keep P n ys ss'" "quiet ss ss'"
proof -
  obtain s1 where "read_int ss = Some (0, s1)" "serving ps r keep P n ys s1" "quiet ss s1"
    by (rule serving_read_int [OF assms]) (simp add: i32_ok_def)
  then show thesis
    using that by (simp add: RecvPackedSeq_def)
qed

lemma handle_init:
  assumes s: "serving 256 r keep Map.empty 2036 (request_args (Init v)) ss" and l: "line_ready ss" and tg: "tg_write tg = SerialWriteStream_Write"
    and v: "length v \<le> 2030"
  shows "handles lookup (keep, r) (Init v) ss (handle_code tg kInitServer ss)"
proof -
  have s0: "serving 256 r keep Map.empty (1 * (length v + 1) + 1 + (2034 - length v)) (le_bytes 8 (length v) @ v @ i32_bytes 0 @ []) ss"
    using serving_less [OF s] v by simp
  obtain s1 where s1: "read_nat 8 ss = Some (length v, s1)"
    "serving 256 r keep Map.empty (1 * (length v + 1) + 1 + (2034 - length v)) (v @ i32_bytes 0 @ []) s1" "quiet ss s1"
    by (rule serving_read_nat [OF s0]) (use v in simp)
  obtain a bs s2 where s2: "ArenaAlloc 1 1 (int (length v + 1)) s1 = Some (a, s2)" "length bs = 1 * (length v + 1)"
    "serving 256 r keep (Map.empty(a \<mapsto> bs)) (2034 - length v) (v @ i32_bytes 0 @ []) s2" "quiet s1 s2"
    by (rule serving_alloc [OF s1(2)]) (use v in simp_all)
  obtain s3 where s3: "ReadArray a 1 (int (length v)) s2 = Some s3"
    "serving 256 r keep (Map.empty(a \<mapsto> bs, a \<mapsto> patch bs 0 v)) (2034 - length v) (i32_bytes 0 @ []) s3" "quiet s2 s3"
    by (rule serving_read_array [OF s2(3), of a bs 1 "int (length v)"]) (use s2(2) v in simp_all)
  obtain s4 where s4: "RecvPackedSeq s3 = Some (0, 0, 0, s4)"
    "serving 256 r keep (Map.empty(a \<mapsto> bs, a \<mapsto> patch bs 0 v)) (2034 - length v) [] s4" "quiet s3 s4"
    by (rule RecvPackedSeq_empty [OF s3(2)])
  have q: "quiet ss s4"
    by (rule quiet_trans [OF quiet_trans [OF quiet_trans [OF s1(3) s2(4)] s3(3)] s4(3)])
  obtain s5 where s5: "ReturnVoid SerialWriteStream_Write s4 = Some s5" "replied r keep s4 void_reply s5"
    by (rule ReturnVoid_replied [OF s4(2) quiet_line [OF q l]])
  have "handle_code tg kInitServer ss = Some (True, s5)"
    using s1(1) s2(1) s3(1) s4(1) s5(1) tg
    by (simp add: handle_code_def HandleInitServer_def MinRPCExecute_InitServer_def code_distinct rpc_code_defs add.commute)
  then show ?thesis
    by (rule handlesI [OF _ s5(2) q]) (rule request_step.init)
qed

lemma runtime_lookup: "quiet ss ss' \<Longrightarrow> TVMFuncGetGlobal name (srv_runtime ss') = TVMFuncGetGlobal name (srv_runtime ss)"
proof -
  assume "quiet ss ss'"
  then have "global_func_registry (srv_runtime ss') = global_func_registry (srv_runtime ss)"
    unfolding quiet_def by (metis (no_types, lifting) runtime.select_convs(2) runtime.surjective runtime.update_convs(1))
  then show ?thesis
    by (simp add: TVMFuncGetGlobal_def)
qed

lemma seq_bytes_func:
  assumes "0 \<notin> set name"
  shows "SendPackedSeq (text_ram name) [1] [kTVMStr] True = Some [i32_bytes 1, i32_bytes kTVMStr, le_bytes 8 (length name), name]"
  using text_ram_length [OF assms] text_ram_text [of name]
  by (simp add: SendPackedSeq_def send_arg_def arg_code_defs v_handle_1 Let_def del: le_bytes.simps)

lemma handle_get_func:
  assumes s: "serving 256 r keep Map.empty 2036 (request_args (Get_Func name)) ss" and l: "line_ready ss" and tg: "tg_write tg = SerialWriteStream_Write"
    and name: "length name \<le> 1980" "0 \<notin> set name" and h: "TVMFuncGetGlobal (name @ [0]) (srv_runtime ss) = Some (kTvmErrorNoError, Some h)"
  shows "handles (\<lambda>nm. TVMFuncGetGlobal nm (srv_runtime ss)) (keep, r) (Get_Func name) ss (handle_code tg kGetGlobalFunc ss)"
proof -
  let ?parts = "[i32_bytes 1, i32_bytes kTVMStr, le_bytes 8 (length name), name]"
  have s0: "serving 256 r keep Map.empty 2036 (concat ?parts @ []) ss"
    using s seq_bytes_func [OF name(2)] by (simp add: seq_bytes_def del: le_bytes.simps)
  have room: "length (concat ?parts) + 32 * length [kTVMStr] + 8 + (1980 - length name) = 2036"
    using name(1) by simp
  obtain P vs s1 where s1: "HandleSyscallFunc tg kGetGlobalFunc ss = SysCallFunc tg kGetGlobalFunc vs [kTVMStr] (int (length [kTVMStr])) s1"
    "packed_args P (text_ram name) [kTVMStr] [1] vs" "serving 256 r keep P (1980 - length name) [] s1" "quiet ss s1"
    by (rule HandleSyscallFunc_args [OF s0 seq_bytes_func [OF name(2)] _ _ _ room]) (simp_all add: sendable_def arg_code_defs i32_ok_def)
  have "P (uint (v_handle (vs ! 0))) = Some (name @ [0])"
    using s1(2) text_ram_length [OF name(2)] text_ram_text [of name] by (auto simp: packed_args_def received_def arg_code_defs v_handle_1)
  then have "load_bytes (ram (srv_machine s1)) (uint (v_handle (vs ! 0))) (length name + 1) = name @ [0]"
    using serving_load [OF s1(3), of _ "name @ [0]" 0 "length name + 1"] by simp
  then have c: "c_string (ram (srv_machine s1)) (uint (v_handle (vs ! 0))) = Some (name @ [0])"
    by (rule c_string_text [OF _ name(2)])
  obtain s2 where s2: "ReturnHandle SerialWriteStream_Write h s1 = Some s2" "replied r keep s1 (handle_reply h) s2"
    by (rule ReturnHandle_replied [OF s1(3) quiet_line [OF s1(4) l]])
  have "handle_code tg kGetGlobalFunc ss = Some (True, s2)"
    using s1(1) s2(1) c h tg runtime_lookup [OF s1(4)]
    by (simp add: handle_code_def code_distinct SysCallFunc_def rpc_code_defs SyscallGetGlobalFunc_def return_handle_def)
  then show ?thesis
    by (rule handlesI [OF _ s2(2) s1(4)]) (rule request_step.get_func, rule h)
qed

text \<open>The memory of the device.\<close>

lemma remote_size_code:
  assumes "0 < n" and "0 < al" and "n + al < 2 ^ 31"
  shows "(if al \<noteq> 1 then ((n + al + 2 ^ 32 - 1) mod 2 ^ 32 div al * al) mod 2 ^ 32 else n) = remote_size n al"
    "0 < remote_size n al" "remote_size n al < 2 ^ 31"
proof -
  have le: "(n + al - 1) div al * al \<le> n + al - 1"
    by (rule div_times_less_eq_dividend)
  have "1 \<le> (n + al - 1) div al"
    using assms by (simp add: less_eq_div_iff_mult_less_eq)
  then show "0 < remote_size n al"
    using assms by (simp add: remote_size_def)
  show "remote_size n al < 2 ^ 31"
    using assms le_less_trans [OF le, of "2 ^ 31"] by (simp add: remote_size_def)
  have "(n + al + 2 ^ 32 - 1) mod 2 ^ 32 = n + al - 1"
  proof -
    have "n + al + 2 ^ 32 - 1 = (n + al - 1) + 2 ^ 32"
      using assms by simp
    then show ?thesis
      using assms by (simp only: mod_add_self2) simp
  qed
  moreover have "(n + al - 1) div al * al mod 2 ^ 32 = (n + al - 1) div al * al"
    by (rule mod_less, rule le_less_trans [OF le]) (use assms in simp)
  ultimately show "(if al \<noteq> 1 then ((n + al + 2 ^ 32 - 1) mod 2 ^ 32 div al * al) mod 2 ^ 32 else n) = remote_size n al"
    by (simp add: remote_size_def)
qed

lemma serving_device_alloc:
  assumes s: "serving 256 (pages_of 256 (remote_size n al) + r) keep P k ys ss" and n: "0 < n" "0 < al" "n + al < 2 ^ 31"
  obtains p m' bs where "TVMDeviceAllocDataSpace (srv_machine ss) n al = Some (0, p, m')" "keep p = None" "word_addr p"
    "length bs = remote_size n al" "serving 256 r (keep(p \<mapsto> bs)) P k ys (set_machine m' ss)" "quiet ss (set_machine m' ss)"
proof -
  note sz = remote_size_code [OF n]
  obtain p hp where p: "PageMemoryManager_Allocate (heap (srv_machine ss)) (remote_size n al) = Some (kTvmErrorNoError, p, hp)"
    "keep p = None" "word_addr p"
    "arena_holds 256 r (keep(p \<mapsto> load_bytes (ram (srv_machine ss)) p (remote_size n al))) P k (rpc_arena (callback_context ss))
       ((srv_machine ss)\<lparr>heap := hp\<rparr>)"
    using arena_holds_alloc [OF _ sz(2,3), of 256 r keep P k "rpc_arena (callback_context ss)" "srv_machine ss"] s unfolding serving_def by metis
  have "TVMDeviceAllocDataSpace (srv_machine ss) n al = Some (0, p, (srv_machine ss)\<lparr>heap := hp\<rparr>)"
    using p(1) n(2) unfolding TVMDeviceAllocDataSpace_def Let_def sz(1) TVMPlatformMemoryAllocate_def by simp
  then show thesis
    by (rule that [OF _ p(2,3)]) (use s p(4) in \<open>simp_all add: serving_def quiet_def set_machine_def set_runtime_def\<close>)
qed

lemma load_values:
  assumes "packed_args P r ts vs vs'" and "j < length ts" and "ts ! j = int kDLInt \<or> ts ! j = kDLDevice"
  shows "vs' ! j = vs ! j"
proof -
  have "received P r (ts ! j) (vs ! j) (vs' ! j)"
    using assms(1,2) by (simp add: packed_args_def)
  then show ?thesis
    using assms(3) by (auto simp: received_def)
qed

lemma seq_bytes_alloc:
  "SendPackedSeq (\<lambda>_. 0) [dev, n, al, dt] [kDLDevice, int kDLInt, int kDLInt, kTVMDataType] True
   = Some [i32_bytes 4, concat (map i32_bytes [kDLDevice, int kDLInt, int kDLInt, kTVMDataType]), le_bytes 8 (unat dev),
       le_bytes 8 (unat n), le_bytes 8 (unat al), take 4 (le_bytes 8 (unat dt)), le_bytes 4 0]"
  by (simp add: SendPackedSeq_def send_arg_def arg_code_defs del: le_bytes.simps)

lemma v_int64_of_nat: "n < 2 ^ 31 \<Longrightarrow> to_size (v_int64 (of_nat n)) = n"
proof -
  assume n: "n < 2 ^ 31"
  have "sint (of_nat n :: u64) = int n"
    using n by (simp add: signed_of_nat signed_take_bit_int_eq_self)
  then show ?thesis
    unfolding v_int64_def using n by (simp only:, subst to_size_id) auto
qed

lemma handle_alloc:
  assumes s: "serving 256 (pages_of 256 (remote_size n al) + r) keep Map.empty 2036 (request_args (Alloc_Data dev n al dt)) ss"
    and l: "line_ready ss" and tg: "tg_write tg = SerialWriteStream_Write" and n: "0 < n" "0 < al" "n + al < 2 ^ 31"
  shows "handles lookup (keep, pages_of 256 (remote_size n al) + r) (Alloc_Data dev n al dt) ss (handle_code tg kDevAllocData ss)"
proof -
  let ?ts = "[kDLDevice, int kDLInt, int kDLInt, kTVMDataType]" and ?vs = "[dev, of_nat n, of_nat al, dt]"
  let ?parts = "[i32_bytes 4, concat (map i32_bytes ?ts), le_bytes 8 (unat dev),
       le_bytes 8 (unat (of_nat n :: u64)), le_bytes 8 (unat (of_nat al :: u64)), take 4 (le_bytes 8 (unat dt)), le_bytes 4 0]"
  let ?r = "pages_of 256 (remote_size n al) + r"
  have s0: "serving 256 ?r keep Map.empty 2036 (concat ?parts @ []) ss"
    using s by (simp only: request_args.simps seq_bytes_def seq_bytes_alloc option.case append_Nil2)
  have room: "length (concat ?parts) + 32 * length ?ts + 8 + 1848 = 2036"
    by (simp del: le_bytes.simps)
  obtain P vs s1 where s1: "HandleSyscallFunc tg kDevAllocData ss = SysCallFunc tg kDevAllocData vs ?ts (int (length ?ts)) s1"
    "packed_args P (\<lambda>_. 0) ?ts ?vs vs" "serving 256 ?r keep P 1848 [] s1" "quiet ss s1"
    by (rule HandleSyscallFunc_args [OF s0 seq_bytes_alloc _ _ _ room])
      (auto simp: sendable_def arg_code_defs i32_ok_def less_Suc_eq nth_Cons')
  have v: "to_size (v_int64 (vs ! 1)) = n" "to_size (v_int64 (vs ! 2)) = al"
    using load_values [OF s1(2), of 1] load_values [OF s1(2), of 2] v_int64_of_nat [of n] v_int64_of_nat [of al] n by simp_all
  obtain p m' bs where p: "TVMDeviceAllocDataSpace (srv_machine s1) n al = Some (0, p, m')" "keep p = None" "word_addr p"
    "length bs = remote_size n al" "serving 256 r (keep(p \<mapsto> bs)) P 1848 [] (set_machine m' s1)" "quiet s1 (set_machine m' s1)"
    by (rule serving_device_alloc [OF s1(3) n])
  note q = quiet_trans [OF s1(4) p(6)]
  obtain s2 where s2: "ReturnHandle SerialWriteStream_Write (of_int p) (set_machine m' s1) = Some s2"
    "replied r (keep(p \<mapsto> bs)) (set_machine m' s1) (handle_reply (of_int p)) s2"
    by (rule ReturnHandle_replied [OF p(5) quiet_line [OF q l]])
  have "SyscallDevAllocData tg vs ?ts 4 s1 = Some s2"
    using p(1) s2(1) tg v by (simp add: SyscallDevAllocData_def return_handle_def Let_def)
  then have "handle_code tg kDevAllocData ss = Some (True, s2)"
    using s1(1) by (simp add: handle_code_def code_distinct SysCallFunc_def rpc_code_defs)
  then show ?thesis
    by (rule handlesI [OF _ s2(2) q]) (rule request_step.alloc, use p(2-4) in simp_all)
qed

lemma seq_bytes_free:
  "SendPackedSeq (\<lambda>_. 0) [dev, v] [kDLDevice, kTVMOpaqueHandle] True
   = Some [i32_bytes 2, concat (map i32_bytes [kDLDevice, kTVMOpaqueHandle]), le_bytes 8 (unat dev), le_bytes 8 (pointer_u64 (v_handle v))]"
  by (simp add: SendPackedSeq_def send_arg_def arg_code_defs del: le_bytes.simps)

lemma handle_of_addr: "word_addr p \<Longrightarrow> uint (v_handle (of_int p)) = p"
proof -
  assume p: "word_addr p"
  then obtain k where k: "p = int k" "k < 2 ^ 32"
    by (metis (no_types, lifting) int_ops(2) nat_0_le of_nat_less_iff of_nat_numeral of_nat_power word_addr_def zero_le_imp_eq_int)
  have "v_handle (of_int p) = of_nat k"
    unfolding v_handle_def k(1) of_int_of_nat_eq by (rule cut_of_nat)
  then show ?thesis
    using k by (simp add: unsigned_of_nat take_bit_nat_eq_self)
qed

lemma handle_free:
  assumes s: "serving 256 r keep Map.empty 2036 (request_args (Free_Data dev p)) ss"
    and l: "line_ready ss" and tg: "tg_write tg = SerialWriteStream_Write" and p: "keep p = Some bs" and wp: "word_addr p"
  shows "handles lookup (keep, r) (Free_Data dev p) ss (handle_code tg kDevFreeData ss)"
proof -
  let ?ts = "[kDLDevice, kTVMOpaqueHandle]" and ?vs = "[dev, of_int p]"
  let ?parts = "[i32_bytes 2, concat (map i32_bytes ?ts), le_bytes 8 (unat dev), le_bytes 8 (pointer_u64 (v_handle (of_int p)))]"
  have s0: "serving 256 r keep Map.empty 2036 (concat ?parts @ []) ss"
    using s by (simp only: request_args.simps seq_bytes_def seq_bytes_free option.case append_Nil2)
  have room: "length (concat ?parts) + 32 * length ?ts + 8 + 1936 = 2036"
    by (simp del: le_bytes.simps)
  obtain P vs s1 where s1: "HandleSyscallFunc tg kDevFreeData ss = SysCallFunc tg kDevFreeData vs ?ts (int (length ?ts)) s1"
    "packed_args P (\<lambda>_. 0) ?ts ?vs vs" "serving 256 r keep P 1936 [] s1" "quiet ss s1"
    by (rule HandleSyscallFunc_args [OF s0 seq_bytes_free _ _ _ room])
      (auto simp: sendable_def arg_code_defs i32_ok_def less_Suc_eq nth_Cons')
  have "v_handle (vs ! 1) = v_handle (of_int p)"
    using s1(2) by (auto simp: packed_args_def received_def arg_code_defs)
  then have v: "uint (v_handle (vs ! 1)) = p"
    using handle_of_addr [OF wp] by simp
  obtain hp where hp: "PageMemoryManager_Free (heap (srv_machine s1)) p = Some (kTvmErrorNoError, hp)"
    "arena_holds 256 r (keep(p := None)) P 1936 (rpc_arena (callback_context s1)) ((srv_machine s1)\<lparr>heap := hp\<rparr>)"
    using arena_holds_free [of 256 r keep P 1936 _ "srv_machine s1" p bs] s1(3) p unfolding serving_def by metis
  let ?m = "(srv_machine s1)\<lparr>heap := hp\<rparr>"
  have s2: "serving 256 r (keep(p := None)) P 1936 [] (set_machine ?m s1)" "quiet s1 (set_machine ?m s1)"
    using s1(3) hp(2) by (simp_all add: serving_def quiet_def set_machine_def set_runtime_def)
  note q = quiet_trans [OF s1(4) s2(2)]
  obtain s3 where s3: "ReturnVoid SerialWriteStream_Write (set_machine ?m s1) = Some s3"
    "replied r (keep(p := None)) (set_machine ?m s1) void_reply s3"
    by (rule ReturnVoid_replied [OF s2(1) quiet_line [OF q l]])
  have "TVMDeviceFreeDataSpace (srv_machine s1) p = Some (0, ?m)"
    using hp(1) by (simp add: TVMDeviceFreeDataSpace_def TVMPlatformMemoryFree_def)
  then have "SyscallDevFreeData tg vs ?ts 2 s1 = Some s3"
    using s3(1) tg v by (simp add: SyscallDevFreeData_def return_status_def)
  then have "handle_code tg kDevFreeData ss = Some (True, s3)"
    using s1(1) by (simp add: handle_code_def code_distinct SysCallFunc_def rpc_code_defs)
  then show ?thesis
    by (rule handlesI [OF _ s3(2) q]) (rule request_step.free, rule p)
qed

text \<open>A copy first reads the tensor into the arena.\<close>

lemma pointer_u64_low: "word_addr p \<Longrightarrow> pointer_u64 (of_int p) mod 2 ^ 32 = nat p"
proof -
  assume p: "word_addr p"
  have "pointer_u64 (of_int p) mod 2 ^ 32 = unat (of_int p :: u32)"
    using arg_cong [OF pointer_u64_cut [of "of_int p"], of unat] by (simp add: unat_of_nat)
  also have "\<dots> = nat p"
    using p by (simp add: word_addr_def unat_eq_nat_uint unsigned_of_int take_bit_int_eq_self)
  finally show ?thesis .
qed

definition cpu_tensor :: "(addr \<rightharpoonup> u8 list) \<Rightarrow> addr \<Rightarrow> nat \<Rightarrow> bool" where
  "cpu_tensor P arr off \<longleftrightarrow> (\<exists>img. P arr = Some img \<and> length img = 40 \<and> take 4 (drop 4 img) = i32_bytes kDLCPU \<and> drop 32 img = le_bytes 8 off)"

lemma cpu_tensor_load:
  assumes s: "serving ps r keep P n ys ss" and t: "cpu_tensor P arr off" and off: "off < 2 ^ 64"
  shows "device_type (dt_device (load_tensor (ram (srv_machine ss)) arr)) = kDLCPU"
    "dt_byte_offset (load_tensor (ram (srv_machine ss)) arr) = off"
proof -
  obtain img where img: "P arr = Some img" "length img = 40" "take 4 (drop 4 img) = i32_bytes kDLCPU" "drop 32 img = le_bytes 8 off"
    using t unfolding cpu_tensor_def by blast
  have "load_bytes (ram (srv_machine ss)) (arr + 4) 4 = i32_bytes kDLCPU"
    using serving_load [OF s img(1), of 4 4] img(2,3) by simp
  then show "device_type (dt_device (load_tensor (ram (srv_machine ss)) arr)) = kDLCPU"
    by (simp add: load_tensor_def kDLCPU_def i32_value_bytes)
  have "load_bytes (ram (srv_machine ss)) (arr + 32) 8 = le_bytes 8 off"
    using serving_load [OF s img(1), of 32 8] img(2,4) by (simp del: le_bytes.simps)
  then show "dt_byte_offset (load_tensor (ram (srv_machine ss)) arr) = off"
    using off by (simp add: load_tensor_def le_value_le_bytes del: le_bytes.simps)
qed

lemma receive_copy_ok:
  assumes s: "serving 256 r keep Map.empty 2036 (tensor_bytes p dt sh off @ le_bytes 8 k @ ys) ss"
    and sh: "8 * length sh \<le> 1980" and k: "k < 2 ^ 64"
  obtains arr P n ss' where "receive_copy ss = Some (arr, pointer_u64 (of_int p), k, ss')" "serving 256 r keep P n ys ss'" "quiet ss ss'"
    "cpu_tensor P arr off"
proof -
  let ?nd = "length sh" and ?h = "pointer_u64 (of_int p)"
  let ?dev = "device_bytes \<lparr>device_type = kDLCPU, device_id = 0\<rparr>"
  let ?fields = "?dev @ i32_bytes (int ?nd) @ data_type_bytes dt @ i64s_bytes sh @ le_bytes 8 off @ le_bytes 8 k @ ys"
  have s0: "serving 256 r keep Map.empty (40 * 1 + 8 + (8 * ?nd + 8 + (1980 - 8 * ?nd))) (le_bytes 8 ?h @ ?fields) ss"
    using s sh by (simp add: tensor_bytes_def del: le_bytes.simps)
  obtain arr bs s1 where s1: "ArenaAlloc 40 8 (int 1) ss = Some (arr, s1)" "length bs = 40 * 1"
    "serving 256 r keep (Map.empty(arr \<mapsto> bs)) (8 * ?nd + 8 + (1980 - 8 * ?nd)) (le_bytes 8 ?h @ ?fields) s1" "quiet ss s1"
    by (rule serving_alloc [OF s0]) simp_all
  obtain s2 where s2: "read_nat 8 s1 = Some (?h, s2)"
    "serving 256 r keep (Map.empty(arr \<mapsto> bs)) (8 * ?nd + 8 + (1980 - 8 * ?nd)) ?fields s2" "quiet s1 s2"
    by (rule serving_read_nat [OF s1(3) pointer_u64_bound])
  obtain b1 b2 where b: "bs = b1 @ b2" "length b1 = 4" "length b2 = 36"
    using split_lengths [of bs 4 36] s1(2) by auto
  let ?s3 = "srv_store (arr + int 0) (le_bytes 4 ?h) s2"
  have s3: "serving 256 r keep (Map.empty(arr \<mapsto> le_bytes 4 ?h @ b2)) (8 * ?nd + 8 + (1980 - 8 * ?nd)) ?fields ?s3"
    using serving_write [OF s2(2), of arr "[]" b1 b2 0 "le_bytes 4 ?h"] b by simp
  obtain shape gap s4 where s4: "receive_fields arr ?s3 = Some s4" "length gap = 4" "shape \<noteq> arr" "quiet ?s3 s4"
    "serving 256 r keep (Map.empty(arr \<mapsto> le_bytes 4 ?h @ ?dev @ i32_bytes (int ?nd) @ data_type_bytes dt @ le_bytes 4 (nat shape)
       @ le_bytes 4 0 @ gap @ le_bytes 8 off, shape \<mapsto> i64s_bytes sh)) (1980 - 8 * ?nd) (le_bytes 8 k @ ys) s4"
    by (rule receive_fields_alone [OF s3 _ b(3)]) (use sh in simp_all)
  let ?img = "le_bytes 4 ?h @ ?dev @ i32_bytes (int ?nd) @ data_type_bytes dt @ le_bytes 4 (nat shape) @ le_bytes 4 0 @ gap @ le_bytes 8 off"
  let ?P = "Map.empty(arr \<mapsto> ?img, shape \<mapsto> i64s_bytes sh)"
  obtain s5 where s5: "read_nat 8 s4 = Some (k, s5)" "serving 256 r keep ?P (1980 - 8 * ?nd) ys s5" "quiet s4 s5"
    by (rule serving_read_nat [OF s4(5)]) (use k in simp)
  have img: "?P arr = Some ?img"
    using s4(3) by simp
  have "cpu_tensor ?P arr off"
    unfolding cpu_tensor_def by (rule exI [of _ ?img]) (use img s4(2) in \<open>simp add: device_bytes_def del: le_bytes.simps fun_upd_apply\<close>)
  moreover have "receive_copy ss = Some (arr, ?h, k, s5)"
    using s1(1) s2(1) s4(1) s5(1) by (simp add: receive_copy_def Let_def del: le_bytes.simps)
  moreover have "quiet ss s5"
    by (rule quiet_trans [OF quiet_trans [OF quiet_stored [OF quiet_trans [OF s1(4) s2(3)]] s4(4)] s5(3)])
  ultimately show thesis
    using that s5(2) by blast
qed

lemma ReadRawBytes_into:
  assumes s: "serving 256 r keep P n (ws @ ys) ss" and p: "keep p = Some bs" "off + length ws \<le> length bs"
  obtains ss' where "MinRPCExecute_ReadRawBytes (p + int off) (length ws) ss = Some (1, ss')"
    "serving 256 r (keep(p \<mapsto> patch bs off ws)) P n ys ss'" "quiet ss ss'"
proof (cases "ws = []")
  case True
  have "patch bs off [] = bs"
    by (simp add: patch_def)
  then have "keep(p \<mapsto> patch bs off ws) = keep"
    using p(1) True by (auto simp: fun_eq_iff)
  then show thesis
    using that [of ss] s True by (simp add: MinRPCExecute_ReadRawBytes.simps [of _ 0])
next
  case False
  have fb: "fb_wf (receive_buffer ss)" "fb_contents (receive_buffer ss) = ws @ ys"
    using s by (simp_all add: serving_def)
  obtain fb where fb: "FrameBuffer_Read (receive_buffer ss) (length ws) = Some (ws, fb)" "fb_wf fb" "fb_contents fb = ys"
    "fb_capacity fb = fb_capacity (receive_buffer ss)"
    using FrameBuffer_Read_ok [OF fb(1), of "length ws"] fb(2) by auto
  let ?s1 = "ss\<lparr>receive_buffer := fb\<rparr>"
  have s1: "serving 256 r keep P n ys ?s1" "quiet ss ?s1"
    using s fb(2-4) by (simp_all add: serving_def quiet_def)
  have "MinRPCExecute_ReadRawBytes (p + int off) (length ws) ss = Some (1, srv_store (p + int off) ws ?s1)"
    using fb(1) False by (simp add: MinRPCExecute_ReadRawBytes.simps [of _ "length ws"] MinRPCExecute_ReadRawBytes.simps [of _ 0]
        MicroIOHandler_PosixRead_def)
  then show thesis
    by (rule that [OF _ serving_keep_store [OF s1(1) p] quiet_stored [OF s1(2)]])
qed

lemma copy_place_ok:
  assumes "serving 256 r keep P n ys ss" and "cpu_tensor P arr off" and "word_addr p" and "off < 2 ^ 32"
  shows "copy_place arr (pointer_u64 (of_int p)) k ss = Some (p + int off, ss)"
  using cpu_tensor_load [OF assms(1,2)] pointer_u64_low [OF assms(3)] assms(3,4) by (simp add: copy_place_def Let_def word_addr_def)

lemma handle_copy_to:
  assumes s: "serving 256 r keep Map.empty 2036 (request_args (Copy_To p dt sh off ws)) ss"
    and l: "line_ready ss" and tg: "tg_write tg = SerialWriteStream_Write" and p: "keep p = Some bs" and wp: "word_addr p"
    and off: "off + length ws \<le> length bs" "off < 2 ^ 32" and sh: "8 * length sh \<le> 1980" and ws: "length ws < 2 ^ 32"
  shows "handles lookup (keep, r) (Copy_To p dt sh off ws) ss (handle_code tg kCopyToRemote ss)"
proof -
  have s0: "serving 256 r keep Map.empty 2036 (tensor_bytes p dt sh off @ le_bytes 8 (length ws) @ ws) ss"
    using s by simp
  obtain arr P n s1 where s1: "receive_copy ss = Some (arr, pointer_u64 (of_int p), length ws, s1)" "serving 256 r keep P n ws s1"
    "quiet ss s1" "cpu_tensor P arr off"
    by (rule receive_copy_ok [OF s0 sh]) (use ws in simp_all)
  have s1': "serving 256 r keep P n (ws @ []) s1"
    using s1(2) by simp
  note place = copy_place_ok [OF s1(2,4) wp off(2), of "length ws"]
  obtain s2 where s2: "MinRPCExecute_ReadRawBytes (p + int off) (length ws) s1 = Some (1, s2)"
    "serving 256 r (keep(p \<mapsto> patch bs off ws)) P n [] s2" "quiet s1 s2"
    by (rule ReadRawBytes_into [OF s1' p off(1)])
  have cpu: "device_type (dt_device (load_tensor (ram (srv_machine s2)) arr)) = kDLCPU"
    by (rule cpu_tensor_load [OF s2(2) s1(4)]) (use off(2) in simp)
  note q = quiet_trans [OF s1(3) s2(3)]
  obtain s3 where s3: "ReturnVoid SerialWriteStream_Write s2 = Some s3" "replied r (keep(p \<mapsto> patch bs off ws)) s2 void_reply s3"
    by (rule ReturnVoid_replied [OF s2(2) quiet_line [OF q l]])
  have "MinRPCExecute_CopyToRemote tg arr (length ws) (p + int off) s1 = Some (1, s3)"
    using s2(1) s3(1) cpu tg ws by (simp add: MinRPCExecute_CopyToRemote_def Let_def return_status_def)
  then have "handle_code tg kCopyToRemote ss = Some (True, s3)"
    using s1(1) place by (simp add: handle_code_def code_distinct HandleCopyToRemote_def rpc_code_defs)
  then show ?thesis
    by (rule handlesI [OF _ s3(2) q]) (rule request_step.copy_to, rule p, rule off(1))
qed

lemma handle_copy_from:
  assumes s: "serving 256 r keep Map.empty 2036 (request_args (Copy_From p dt sh off k)) ss"
    and l: "line_ready ss" and tg: "tg_write tg = SerialWriteStream_Write" and p: "keep p = Some bs" and wp: "word_addr p"
    and off: "off + k \<le> length bs" "off < 2 ^ 32" and sh: "8 * length sh \<le> 1980" and k: "k < 2 ^ 29"
  shows "handles lookup (keep, r) (Copy_From p dt sh off k) ss (handle_code tg kCopyFromRemote ss)"
proof -
  have s0: "serving 256 r keep Map.empty 2036 (tensor_bytes p dt sh off @ le_bytes 8 k @ []) ss"
    using s by simp
  obtain arr P n s1 where s1: "receive_copy ss = Some (arr, pointer_u64 (of_int p), k, s1)" "serving 256 r keep P n [] s1"
    "quiet ss s1" "cpu_tensor P arr off"
    by (rule receive_copy_ok [OF s0 sh]) (use k in simp_all)
  note place = copy_place_ok [OF s1(2,4) wp off(2), of k]
  have cpu: "device_type (dt_device (load_tensor (ram (srv_machine s1)) arr)) = kDLCPU"
    by (rule cpu_tensor_load [OF s1(2,4)]) (use off(2) in simp)
  obtain s2 where s2: "ReturnCopyFromRemote SerialWriteStream_Write (p + int off) k s1 = Some s2"
    "replied r keep s1 (i32_bytes kCopyAck @ take k (drop off bs)) s2"
    by (rule ReturnCopyFromRemote_replied [OF s1(2) quiet_line [OF s1(3) l] p off(1) k])
  have "MinRPCExecute_CopyFromRemote tg arr k (p + int off) s1 = Some s2"
    using s2(1) cpu tg by (simp add: MinRPCExecute_CopyFromRemote_def Let_def)
  then have "handle_code tg kCopyFromRemote ss = Some (True, s2)"
    using s1(1) place by (simp add: handle_code_def code_distinct HandleCopyFromRemote_def rpc_code_defs)
  then show ?thesis
    by (rule handlesI [OF _ s2(2) s1(3)]) (rule request_step.copy_from, rule p, rule off(1))
qed

text \<open>Every request that fits is handled.\<close>

lemma request_handled:
  assumes s: "serving 256 r keep Map.empty 2036 (request_args q) ss" and l: "line_ready ss" and tg: "tg_write tg = SerialWriteStream_Write"
    and fits: "request_fits (\<lambda>nm. TVMFuncGetGlobal nm (srv_runtime ss)) (keep, r) q"
  shows "handles (\<lambda>nm. TVMFuncGetGlobal nm (srv_runtime ss)) (keep, r) q ss (handle_code tg (request_code q) ss)"
proof (cases q)
  case (Init v)
  then show ?thesis
    using handle_init [OF s [unfolded Init] l tg] fits by simp
next
  case (Get_Func name)
  obtain h where "TVMFuncGetGlobal (name @ [0]) (srv_runtime ss) = Some (kTvmErrorNoError, Some h)"
    using fits Get_Func by (auto split: option.splits)
  then show ?thesis
    using handle_get_func [OF s [unfolded Get_Func] l tg] fits Get_Func by simp
next
  case (Alloc_Data dev n al dt)
  then obtain r0 where r0: "r = pages_of 256 (remote_size n al) + r0"
    using fits le_Suc_ex by auto
  show ?thesis
    using handle_alloc [OF s [unfolded Alloc_Data r0] l tg] fits Alloc_Data r0 by simp
next
  case (Free_Data dev p)
  then show ?thesis
    using handle_free [OF s [unfolded Free_Data] l tg] fits by auto
next
  case (Copy_To p dt sh off ws)
  then show ?thesis
    using handle_copy_to [OF s [unfolded Copy_To] l tg] fits by (auto split: option.splits)
next
  case (Copy_From p dt sh off k)
  then show ?thesis
    using handle_copy_from [OF s [unfolded Copy_From] l tg] fits by (auto split: option.splits)
qed

end
