(* ===== verification/Rpc_Service.thy ===== *)
theory Rpc_Service
  imports Rpc_Requests
begin

text \<open>
  The whole device: a request framed on the line goes byte by byte through the main loop, the unframer,
  the session and the server, and its reply goes out in a frame before the loop takes the next byte.
\<close>

section \<open>One packet\<close>

text \<open>The server between requests; \<open>keep\<close> are the blocks of the device memory its clients have.\<close>

definition rpc_ready :: "nat \<Rightarrow> (addr \<rightharpoonup> u8 list) \<Rightarrow> serial server \<Rightarrow> bool" where
  "rpc_ready r keep ss \<longleftrightarrow> session_state ss = kSessionEstablished \<and> fb_wf (receive_buffer ss) \<and> fb_contents (receive_buffer ss) = []
     \<and> fb_room (receive_buffer ss) = 4096 \<and> fb_capacity (receive_buffer ss) = 4096 \<and> \<not> receive_buffer_has_complete_message ss
     \<and> is_running (callback_context ss)
     \<and> g_num_bytes_written (session_stream ss) = 0 \<and> g_num_bytes_requested (session_stream ss) = 0
     \<and> (\<exists>P n. arena_holds 256 r keep P n (rpc_arena (callback_context ss)) (srv_machine ss))"

abbreviation lookup_of :: "'s server \<Rightarrow> u8 list \<Rightarrow> (tvm_crt_error \<times> u32 option) option" where
  "lookup_of ss \<equiv> (\<lambda>name. TVMFuncGetGlobal name (srv_runtime ss))"

lemma lookup_of_quiet: "quiet ss ss' \<Longrightarrow> lookup_of ss' = lookup_of ss"
  by (simp add: runtime_lookup fun_eq_iff)

lemma lookup_of_same: "same_device ss ss' \<Longrightarrow> lookup_of ss' = lookup_of ss"
proof -
  assume "same_device ss ss'"
  then have "global_func_registry (srv_runtime ss') = global_func_registry (srv_runtime ss)"
    unfolding same_device_def by (metis (no_types, lifting) runtime.select_convs(2) runtime.surjective runtime.update_convs(1))
  then show ?thesis
    by (simp add: TVMFuncGetGlobal_def fun_eq_iff)
qed

text \<open>The memory of the packet before is given up, then the length and the code are read.\<close>

lemma ProcessOnePacket_code:
  assumes a: "arena_holds 256 r keep P n (rpc_arena (callback_context ss)) (srv_machine ss)" and fb: "fb_wf (receive_buffer ss)"
    and c: "fb_contents (receive_buffer ss) = packet_bytes (i32_bytes cd @ args)" and cd: "i32_ok cd" and len: "length args < 2 ^ 31"
  obtains ss' where "ProcessOnePacket tg ss = handle_code tg cd ss'" "serving 256 r keep Map.empty 2036 args ss'" "quiet ss ss'"
proof -
  obtain ar m where rc: "Arena_RecycleAll (rpc_arena (callback_context ss)) (srv_machine ss) = (ar, m)"
    "arena_holds 256 r keep Map.empty 2036 ar m"
    by (rule RecycleAll_holds [OF a])
  let ?s1 = "set_flags True (set_arena ar (set_machine m ss))"
  let ?len = "length (i32_bytes cd @ args)"
  have s1: "serving 256 r keep Map.empty 2036 (le_bytes 8 ?len @ i32_bytes cd @ args) ?s1" "quiet ss ?s1"
    using rc(2) fb c by (simp_all add: serving_def packet_bytes_def quiet_def set_flags_def set_arena_def set_machine_def set_runtime_def
        del: le_bytes.simps)
  obtain s2 where s2: "read_nat 8 ?s1 = Some (?len, s2)" "serving 256 r keep Map.empty 2036 (i32_bytes cd @ args) s2" "quiet ?s1 s2"
    by (rule serving_read_nat [OF s1(1)]) (use len in simp)
  obtain s3 where s3: "read_int s2 = Some (cd, s3)" "serving 256 r keep Map.empty 2036 args s3" "quiet s2 s3"
    by (rule serving_read_int [OF s2(2) cd])
  have s4: "serving 256 r keep Map.empty 2036 args (set_flags False s3)" "quiet s3 (set_flags False s3)"
    using s3(2) by (simp_all add: serving_def quiet_def set_flags_def)
  have "ProcessOnePacket tg ss = handle_code tg cd (set_flags False s3)"
    using rc(1) s2(1) s3(1) by (simp add: ProcessOnePacket_def)
  then show thesis
    by (rule that [OF _ s4(1)]) (rule quiet_trans [OF quiet_trans [OF quiet_trans [OF s1(2) s2(3)] s3(3)] s4(2)])
qed

text \<open>The message callback handles the request and clears the buffer.\<close>

definition normal_header :: "'s server \<Rightarrow> session_header" where
  "normal_header ss = \<lparr>sh_session_id = session_id ss, sh_message_type = kNormal\<rparr>"

lemma message_header_normal: "message_header ss kNormal = normal_header ss"
  by (simp add: message_header_def normal_header_def)

text \<open>The counters of the stream, compared and cleared.\<close>

definition settle :: "serial server \<Rightarrow> serial server" where
  "settle ss = ss\<lparr>session_stream := (session_stream ss)\<lparr>g_num_bytes_written := 0, g_num_bytes_requested := 0\<rparr>\<rparr>"

text \<open>What a request leaves when its reply is out and the counters are cleared.\<close>

definition answered :: "nat \<Rightarrow> (addr \<rightharpoonup> u8 list) \<Rightarrow> serial server \<Rightarrow> u8 list \<Rightarrow> serial server \<Rightarrow> bool" where
  "answered r keep ss reply ss' \<longleftrightarrow> rpc_ready r keep ss' \<and> session_id ss' = session_id ss \<and> lookup_of ss' = lookup_of ss
     \<and> fr_state (session_framer ss') = kIdle
     \<and> serial_out (session_stream ss') = serial_out (session_stream ss) @ lead (session_framer ss)
         @ frame_packet (session_header_bytes (normal_header ss) @ packet_bytes reply)"

lemma serial_out_cleared [simp]: "serial_out (s\<lparr>g_num_bytes_written := a, g_num_bytes_requested := b\<rparr>) = serial_out s"
  by (simp add: serial_out_def)

lemma replied_answered:
  assumes ready: "rpc_ready r0 keep0 ss" and cap: "fb_capacity fb = 4096" and rep: "replied r keep (rcv_read ss fb) reply ss1"
  shows "answered r keep ss reply (settle (Session_ClearReceiveBuffer (set_running True ss1)))"
proof -
  have dev: "same_device (rcv_read ss fb) ss1"
    using rep by (simp add: replied_def)
  have "lookup_of ss1 = lookup_of (rcv_read ss fb)"
    by (rule lookup_of_same [OF dev])
  moreover have "fb_wf (FrameBuffer_Clear (receive_buffer ss1))" "fb_contents (FrameBuffer_Clear (receive_buffer ss1)) = []"
    "fb_room (FrameBuffer_Clear (receive_buffer ss1)) = 4096" "fb_capacity (FrameBuffer_Clear (receive_buffer ss1)) = 4096"
    using FrameBuffer_Clear_ok [of "receive_buffer ss1"] rep dev cap
    by (auto simp: replied_def same_device_def rcv_read_def FrameBuffer_Clear_def)
  ultimately show ?thesis
    using ready rep dev unfolding answered_def rpc_ready_def replied_def
    by (simp add: settle_def Session_ClearReceiveBuffer_def set_running_def rcv_read_def same_device_def message_header_normal
        normal_header_def)
qed

lemma request_body_length: "request_fits lookup (keep, r) q \<Longrightarrow> length (request_body q) \<le> 4085"
proof (cases q)
  case (Get_Func name)
  assume "request_fits lookup (keep, r) q"
  then show ?thesis
    using Get_Func seq_bytes_func [of name] by (simp add: request_body_def seq_bytes_def del: le_bytes.simps)
next
  case (Alloc_Data dev n al dt)
  then show ?thesis
    by (simp add: request_body_def seq_bytes_def seq_bytes_alloc del: le_bytes.simps)
next
  case (Free_Data dev p)
  then show ?thesis
    by (simp add: request_body_def seq_bytes_def seq_bytes_free del: le_bytes.simps)
qed (auto simp: request_body_def tensor_bytes_def simp del: le_bytes.simps split: option.splits)

lemma request_code_ok: "i32_ok (request_code q)"
  by (cases q) (simp_all add: rpc_code_defs i32_ok_def)

lemma rcv_filled_capacity [simp]: "fb_capacity (receive_buffer (rcv_filled ss bs)) = fb_capacity (receive_buffer ss)"
  by (simp add: rcv_filled_def fb_append_def)

lemma PacketDone_capacity:
  assumes "rcv_ready ss (3 + length d)"
  obtains fb where "fb_wf fb" "fb_contents fb = d" "fb_capacity fb = fb_capacity (receive_buffer ss)"
    "session_state ss = kSessionEstablished \<Longrightarrow>
     SessionReceiver_PacketDone wr cb (rcv_filled ss (session_header_bytes (normal_header ss) @ d)) True = cb kNormal True (rcv_read ss fb)"
proof -
  let ?fs = "rcv_filled ss (session_header_bytes (normal_header ss) @ d)"
  obtain fb where fb: "FrameBuffer_Read (receive_buffer ?fs) 3 = Some (session_header_bytes (normal_header ss), fb)"
    "fb_wf fb" "fb_contents fb = d" "fb_room fb = fb_room (receive_buffer ss) - (3 + length d)"
    by (rule header_read [OF assms])
  have "fb_capacity fb = fb_capacity (receive_buffer ?fs)"
    using fb(1) unfolding FrameBuffer_Read_def by (auto simp: Let_def bind_eq_Some split: if_splits)
  moreover have eq: "?fs\<lparr>receive_buffer := fb, receive_buffer_has_complete_message := True\<rparr> = rcv_read ss fb"
    by (simp add: rcv_filled_def rcv_read_def)
  moreover have "session_state ss = kSessionEstablished \<Longrightarrow> SessionReceiver_PacketDone wr cb ?fs True = cb kNormal True (rcv_read ss fb)"
    by (simp add: SessionReceiver_PacketDone_def sizeof_SessionHeader_def fb(1) Let_def eq,
       simp add: rcv_read_def rcv_filled_def normal_header_def)
  ultimately show thesis
    using that fb(2,3) by simp
qed

lemma PacketDone_answers:
  assumes ready: "rpc_ready r keep ss" and tg: "tg_write tg = SerialWriteStream_Write" and fits: "request_fits (lookup_of ss) (keep, r) q"
  obtains fin reply keep' r' where "SessionReceiver_PacketDone (tg_write tg) (MicroRPCServer_HandleCompleteMessage tg)
      (rcv_filled ss (session_header_bytes (normal_header ss) @ packet_bytes (request_body q))) True = Some fin"
    "answered r' keep' ss reply (settle fin)" "request_step (lookup_of ss) (keep, r) q reply (keep', r')"
    "g_num_bytes_written (session_stream fin) = g_num_bytes_requested (session_stream fin)" "is_running (callback_context fin)"
proof -
  let ?d = "packet_bytes (request_body q)"
  have len: "length (request_body q) \<le> 4085"
    by (rule request_body_length [OF fits])
  have rr: "rcv_ready ss (3 + length ?d)" and st: "session_state ss = kSessionEstablished"
    using ready len by (simp_all add: rcv_ready_def rpc_ready_def)
  obtain fb where fb: "fb_wf fb" "fb_contents fb = ?d" "fb_capacity fb = fb_capacity (receive_buffer ss)"
    "SessionReceiver_PacketDone (tg_write tg) (MicroRPCServer_HandleCompleteMessage tg)
      (rcv_filled ss (session_header_bytes (normal_header ss) @ ?d)) True
      = MicroRPCServer_HandleCompleteMessage tg kNormal True (rcv_read ss fb)"
    by (rule PacketDone_capacity [OF rr, of "tg_write tg" "MicroRPCServer_HandleCompleteMessage tg"]) (use st in blast)
  obtain P n where a: "arena_holds 256 r keep P n (rpc_arena (callback_context ss)) (srv_machine ss)"
    using ready unfolding rpc_ready_def by blast
  obtain s1 where s1: "ProcessOnePacket tg (rcv_read ss fb) = handle_code tg (request_code q) s1"
    "serving 256 r keep Map.empty 2036 (request_args q) s1" "quiet (rcv_read ss fb) s1"
    by (rule ProcessOnePacket_code [of r keep P n "rcv_read ss fb" "request_code q" "request_args q" tg])
      (use a fb(1,2) request_code_ok [of q] len in \<open>simp_all add: rcv_read_def request_body_def\<close>)
  have lk: "lookup_of s1 = lookup_of ss"
    using lookup_of_quiet [OF s1(3)] by (simp add: rcv_read_def)
  have line: "line_ready s1"
    by (rule quiet_line [OF s1(3)]) (use ready in \<open>simp add: line_ready_def rcv_read_def rpc_ready_def\<close>)
  obtain s2 reply keep' r' where s2: "handle_code tg (request_code q) s1 = Some (True, s2)" "replied r' keep' s1 reply s2"
    "request_step (lookup_of ss) (keep, r) q reply (keep', r')"
    using request_handled [OF s1(2) line tg, of] fits unfolding lk handles_def by blast
  have rep: "replied r' keep' (rcv_read ss fb) reply s2"
    by (rule replied_quiet [OF s1(3) s2(2)])
  let ?fin = "Session_ClearReceiveBuffer (set_running True s2)"
  have cap: "fb_capacity fb = 4096"
    using fb(3) ready by (simp add: rpc_ready_def)
  have "MicroRPCServer_HandleCompleteMessage tg kNormal True (rcv_read ss fb) = Some ?fin"
    using s1(1) s2(1) by (simp add: MicroRPCServer_HandleCompleteMessage_def)
  moreover have "answered r' keep' ss reply (settle ?fin)"
    by (rule replied_answered [OF ready cap rep])
  moreover have "g_num_bytes_written (session_stream ?fin) = g_num_bytes_requested (session_stream ?fin)" "is_running (callback_context ?fin)"
    using rep by (simp_all add: replied_def Session_ClearReceiveBuffer_def set_running_def)
  ultimately show thesis
    using that fb(4) s2(3) by simp
qed

section \<open>Byte by byte\<close>

text \<open>
  The main loop clears the counters between the bytes, so after the last byte of the packet the session
  is what the callback left or that with its counters cleared.
\<close>

definition fed_ok :: "serial target \<Rightarrow> serial server \<Rightarrow> u8 list \<Rightarrow> serial server \<Rightarrow> rx_event list \<Rightarrow> bool" where
  "fed_ok tg ss payload fin evs \<longleftrightarrow> rcv_ok (tg_write tg) (MicroRPCServer_HandleCompleteMessage tg) ss payload evs
     \<and> SessionReceiver_PacketDone (tg_write tg) (MicroRPCServer_HandleCompleteMessage tg) (rcv_filled ss payload) True = Some fin"

definition fed :: "serial server \<Rightarrow> u8 list \<Rightarrow> serial server \<Rightarrow> rx_event list \<Rightarrow> serial server \<Rightarrow> bool" where
  "fed ss payload fin evs s \<longleftrightarrow> (\<exists>bs ws. payload = bs @ ws \<and> evs = map RxByte bs \<and> s = rcv_filled ss bs)
     \<or> (evs = map RxByte payload @ [RxDone True] \<and> (s = fin \<or> s = settle fin))"

lemma fed_reached:
  assumes "fed ss payload fin evs s" and "evs \<noteq> map RxByte payload @ [RxDone True]"
  shows "rcv_reached wr cb ss payload evs s"
  using assms unfolding fed_def rcv_reached_def by blast

lemma reached_fed:
  assumes "rcv_reached wr cb ss payload evs s" and "SessionReceiver_PacketDone wr cb (rcv_filled ss payload) True = Some fin"
  shows "fed ss payload fin evs s"
  using assms unfolding fed_def rcv_reached_def by auto

lemma rcv_ok_not_over: "rcv_ok wr cb ss payload (evs @ x # xs) \<Longrightarrow> evs \<noteq> map RxByte payload @ [RxDone True]"
  by (auto simp: rcv_ok_def)

interpretation feeding: packet_stream SessionReceiver_Write
  "SessionReceiver_PacketDone (tg_write tg) (MicroRPCServer_HandleCompleteMessage tg)"
  "fed_ok tg ss payload fin" "fed ss payload fin"
  for tg :: "serial target" and ss :: "serial server" and payload :: "u8 list" and fin :: "serial server"
proof
  show "fed_ok tg ss payload fin xs" if "fed_ok tg ss payload fin (xs @ ys)" for xs ys
    using that receiver.ok_prefix unfolding fed_ok_def by blast
next
  fix evs :: "rx_event list" and s :: "serial server" and data :: "u8 list"
  assume r: "fed ss payload fin evs s" and d: "data \<noteq> []" and ok: "fed_ok tg ss payload fin (evs @ map RxByte data)"
  let ?wr = "tg_write tg" and ?cb = "MicroRPCServer_HandleCompleteMessage tg"
  have rok: "rcv_ok ?wr ?cb ss payload (evs @ map RxByte data)"
    "SessionReceiver_PacketDone ?wr ?cb (rcv_filled ss payload) True = Some fin"
    using ok by (simp_all add: fed_ok_def)
  have "rcv_reached ?wr ?cb ss payload evs s"
  proof (rule fed_reached [OF r])
    obtain x xs where data: "data = x # xs"
      using d by (cases data) auto
    show "evs \<noteq> map RxByte payload @ [RxDone True]"
      by (rule rcv_ok_not_over) (use rok(1) in \<open>simp add: data\<close>)
  qed
  then obtain n s' where "SessionReceiver_Write s data = Some (n, s')" "0 < n" "nat n \<le> length data"
    "rcv_reached ?wr ?cb ss payload (evs @ map RxByte (take (nat n) data)) s'"
    using receiver.write_ok [OF _ d rok(1)] by blast
  then show "\<exists>r s'. SessionReceiver_Write s data = Some (r, s') \<and> 0 < r \<and> nat r \<le> length data
      \<and> fed ss payload fin (evs @ map RxByte (take (nat r) data)) s'"
    using reached_fed [OF _ rok(2)] by blast
next
  fix evs :: "rx_event list" and s :: "serial server" and b :: bool
  assume r: "fed ss payload fin evs s" and ok: "fed_ok tg ss payload fin (evs @ [RxDone b])"
  let ?wr = "tg_write tg" and ?cb = "MicroRPCServer_HandleCompleteMessage tg"
  have rok: "rcv_ok ?wr ?cb ss payload (evs @ [RxDone b])"
    "SessionReceiver_PacketDone ?wr ?cb (rcv_filled ss payload) True = Some fin"
    using ok by (simp_all add: fed_ok_def)
  have "rcv_reached ?wr ?cb ss payload evs s"
    by (rule fed_reached [OF r]) (rule rcv_ok_not_over [OF rok(1)])
  then show "\<exists>s'. SessionReceiver_PacketDone ?wr ?cb s b = Some s' \<and> fed ss payload fin (evs @ [RxDone b]) s'"
    using receiver.done_ok [OF _ rok(1)] reached_fed [OF _ rok(2)] by blast
qed

lemma rx_emit_rest: "rx_emit evs x = (evs', e, rest, r) \<Longrightarrow> \<exists>evs0. x = (evs0, e, rest, r)"
  by (cases x) auto

lemma rx_run_no_rest: "rx_run r xs = (evs, kTvmErrorNoError, rest, r') \<Longrightarrow> rest = []"
proof (induction xs arbitrary: r evs)
  case (Cons c cs)
  show ?case
  proof (cases r)
    case (RxStart t)
    then show ?thesis
      using Cons by (auto split: if_splits)
  next
    case (RxLength t acc crc)
    then show ?thesis
      using Cons by (auto simp: Let_def split: if_splits dest!: rx_emit_rest)
  next
    case (RxPayload t n crc)
    then show ?thesis
      using Cons by (auto simp: Let_def split: if_splits dest!: rx_emit_rest)
  next
    case (RxCrc t acc crc)
    then show ?thesis
      using Cons by (auto simp: Let_def split: if_splits dest!: rx_emit_rest)
  qed
qed simp

text \<open>Between the bytes of a packet the counters agree and the loop goes on.\<close>

lemma fed_running:
  assumes "fed ss payload fin evs s" and "is_running (callback_context ss)" and "is_running (callback_context fin)"
  shows "is_running (callback_context s)"
  using assms by (auto simp: fed_def rcv_filled_def settle_def)

lemma check_counters_settle:
  assumes "g_num_bytes_written (session_stream ss) = g_num_bytes_requested (session_stream ss)"
  shows "check_counters \<lparr>ms_session = ss, ms_unframer = u\<rparr> = Some \<lparr>ms_session = settle ss, ms_unframer = u\<rparr>"
proof (cases "g_num_bytes_requested (session_stream ss) = 0")
  case True
  then have "settle ss = ss"
    using assms by (simp add: settle_def)
  then show ?thesis
    using True assms by (simp add: check_counters_def)
next
  case False
  then show ?thesis
    using assms by (simp add: check_counters_def settle_def Let_def)
qed

lemma settle_filled:
  assumes "g_num_bytes_written (session_stream ss) = 0" and "g_num_bytes_requested (session_stream ss) = 0"
  shows "settle (rcv_filled ss bs) = rcv_filled ss bs"
  using assms by (simp add: settle_def rcv_filled_def)

lemma settle_settle [simp]: "settle (settle ss) = settle ss"
  by (simp add: settle_def)

lemma fed_settle:
  assumes "fed ss payload fin evs s" and "g_num_bytes_written (session_stream ss) = 0" and "g_num_bytes_requested (session_stream ss) = 0"
    and "g_num_bytes_written (session_stream fin) = g_num_bytes_requested (session_stream fin)"
  shows "fed ss payload fin evs (settle s)" "g_num_bytes_written (session_stream s) = g_num_bytes_requested (session_stream s)"
proof -
  show "fed ss payload fin evs (settle s)"
    using assms(1) settle_filled [OF assms(2,3)] unfolding fed_def by auto
  show "g_num_bytes_written (session_stream s) = g_num_bytes_requested (session_stream s)"
    using assms by (auto simp: fed_def rcv_filled_def settle_def)
qed

text \<open>One byte: the server takes it, the counters are cleared, and the loop is back for the next.\<close>

lemma main_feed_byte:
  assumes w: "server_write tg u s [c] = Some (kTvmErrorNoError, 1, u', s')"
    and run: "is_running (callback_context s)" "is_running (callback_context s')"
    and eq: "g_num_bytes_written (session_stream s') = g_num_bytes_requested (session_stream s')"
  shows "main_feed tg [c] \<lparr>ms_session = s, ms_unframer = u\<rparr> = Some \<lparr>ms_session = settle s', ms_unframer = u'\<rparr>"
proof -
  have "MicroTVMRpcServerLoop tg [c] \<lparr>ms_session = s, ms_unframer = u\<rparr>
      = Some (kTvmErrorNoError, [], \<lparr>ms_session = s', ms_unframer = u'\<rparr>)"
    using w run by (simp add: MicroTVMRpcServerLoop_def MicroRPCServer_Loop_def)
  then show ?thesis
    using check_counters_settle [OF eq] by (subst main_feed.simps) (simp add: main_feed.simps)
qed

lemma main_loop_bytes:
  assumes base: "g_num_bytes_written (session_stream ss) = 0" "g_num_bytes_requested (session_stream ss) = 0"
      "is_running (callback_context ss)"
    and fin: "g_num_bytes_written (session_stream fin) = g_num_bytes_requested (session_stream fin)" "is_running (callback_context fin)"
  shows "uf_wf u \<Longrightarrow> fed ss payload fin evs s \<Longrightarrow> settle s = s \<Longrightarrow> rx_run (uf_abs u) bytes = (evs', kTvmErrorNoError, rest, r) \<Longrightarrow>
    fed_ok tg ss payload fin (evs @ evs') \<Longrightarrow>
    \<exists>u' s'. main_loop tg (map (Pair 0) bytes) \<lparr>ms_session = s, ms_unframer = u\<rparr> = Some (None, \<lparr>ms_session = s', ms_unframer = u'\<rparr>)
      \<and> uf_wf u' \<and> uf_abs u' = r \<and> fed ss payload fin (evs @ evs') s' \<and> settle s' = s'"
proof (induction bytes arbitrary: u evs s evs')
  case Nil
  then show ?case
    by simp
next
  case (Cons c bytes)
  have "rx_run (uf_abs u) ([c] @ bytes) = (evs', kTvmErrorNoError, rest, r)"
    using Cons.prems(4) by simp
  then obtain evs1 r1 rest1 evs2 where c: "rx_run (uf_abs u) [c] = (evs1, kTvmErrorNoError, rest1, r1)"
    and cs: "rx_run r1 bytes = (evs2, kTvmErrorNoError, rest, r)" and evs: "evs' = evs1 @ evs2"
    by (rule rx_run_splitE)
  have ok1: "fed_ok tg ss payload fin (evs @ evs1)"
    using Cons.prems(5) feeding.ok_prefix [of tg ss payload fin "evs @ evs1" evs2] evs by simp
  have "rest1 = []"
    by (rule rx_run_no_rest [OF c])
  then obtain u1 s1 where w: "server_write tg u s [c] = Some (kTvmErrorNoError, 1, u1, s1)" "uf_wf u1" "uf_abs u1 = r1"
    "fed ss payload fin (evs @ evs1) s1"
    using feeding.Unframer_Write_ok [OF Cons.prems(1,2) c ok1] unfolding server_write_def
    by (auto simp: le_Suc_eq)
  note st = fed_settle [OF w(4) base(1,2) fin(1)]
  have f: "main_feed tg [c] \<lparr>ms_session = s, ms_unframer = u\<rparr> = Some \<lparr>ms_session = settle s1, ms_unframer = u1\<rparr>"
    by (rule main_feed_byte [OF w(1) fed_running [OF Cons.prems(2) base(3) fin(2)] fed_running [OF w(4) base(3) fin(2)] st(2)])
  obtain u' s' where "main_loop tg (map (Pair 0) bytes) \<lparr>ms_session = settle s1, ms_unframer = u1\<rparr>
      = Some (None, \<lparr>ms_session = s', ms_unframer = u'\<rparr>)" "uf_wf u'" "uf_abs u' = r" "fed ss payload fin ((evs @ evs1) @ evs2) s'"
    "settle s' = s'"
    using Cons.IH [OF w(2) st(1) settle_settle, of evs2] cs Cons.prems(5) evs w(3) by auto
  then show ?case
    using f evs by (intro exI [of _ u'] exI [of _ s']) (simp add: Let_def)
qed

section \<open>One request\<close>

text \<open>The frame in which a client sends a request, and the device that waits for one.\<close>

definition request_frame :: "serial server \<Rightarrow> request \<Rightarrow> u8 list" where
  "request_frame ss q = frame_packet (session_header_bytes (normal_header ss) @ packet_bytes (request_body q))"

definition service_ready :: "nat \<Rightarrow> (addr \<rightharpoonup> u8 list) \<Rightarrow> serial micro_server \<Rightarrow> bool" where
  "service_ready r keep ms \<longleftrightarrow> rpc_ready r keep (ms_session ms) \<and> uf_wf (ms_unframer ms) \<and> uf_state (ms_unframer ms) = kFindPacketStart"

text \<open>The bytes as the host hands them over: none is left unread.\<close>

definition typed :: "u8 list \<Rightarrow> (int \<times> u8) list" where
  "typed bytes = map (Pair 0) bytes"

lemma main_loop_append:
  "main_loop tg (typed xs) ms = Some (None, ms') \<Longrightarrow> main_loop tg (typed (xs @ ys)) ms = main_loop tg (typed ys) ms'"
proof (induction xs arbitrary: ms)
  case Nil
  then show ?case by (simp add: typed_def)
next
  case (Cons x xs)
  then show ?case
    by (auto simp: typed_def Let_def bind_eq_Some)
qed

text \<open>A frame goes through the loop when its packet is taken and the server still runs afterwards.\<close>

definition loop_ready :: "serial micro_server \<Rightarrow> bool" where
  "loop_ready ms \<longleftrightarrow> uf_wf (ms_unframer ms) \<and> uf_state (ms_unframer ms) = kFindPacketStart
     \<and> g_num_bytes_written (session_stream (ms_session ms)) = 0 \<and> g_num_bytes_requested (session_stream (ms_session ms)) = 0
     \<and> is_running (callback_context (ms_session ms))"

lemma rcv_filled_Nil [simp]: "rcv_filled ss [] = ss"
  by (simp add: rcv_filled_def fb_append_def)

lemma packet_events_over: "map RxByte payload @ [RxDone b] \<noteq> map RxByte bs"
proof
  assume "map RxByte payload @ [RxDone b] = map RxByte bs"
  then have "RxDone b \<in> set (map RxByte bs)"
    by (metis in_set_conv_decomp)
  then show False
    by auto
qed

lemma main_loop_frame:
  assumes ready: "loop_ready ms" and rr: "rcv_ready (ms_session ms) (length payload)"
    and fin: "SessionReceiver_PacketDone (tg_write tg) (MicroRPCServer_HandleCompleteMessage tg) (rcv_filled (ms_session ms) payload) True = Some fin"
      "g_num_bytes_written (session_stream fin) = g_num_bytes_requested (session_stream fin)" "is_running (callback_context fin)"
  obtains ms' where "main_loop tg (typed (frame_packet payload)) ms = Some (None, ms')" "ms_session ms' = settle fin" "loop_ready ms'"
proof -
  let ?ss = "ms_session ms" and ?u = "ms_unframer ms"
  have base: "g_num_bytes_written (session_stream ?ss) = 0" "g_num_bytes_requested (session_stream ?ss) = 0" "is_running (callback_context ?ss)"
    and u: "uf_wf ?u" "uf_state ?u = kFindPacketStart"
    using ready by (simp_all add: loop_ready_def)
  have run: "rx_run (uf_abs ?u) (frame_packet payload) = (map RxByte payload @ [RxDone True], kTvmErrorNoError, [], RxStart False)"
    using rx_run_frame [of payload _ "[]"] rr u(2) by (simp add: uf_abs_def rcv_ready_def)
  have ok: "fed_ok tg ?ss payload fin ([] @ map RxByte payload @ [RxDone True])"
    using rr fin(1) by (simp add: fed_ok_def rcv_ok_def rcv_ready_def)
  have f0: "fed ?ss payload fin [] ?ss"
    unfolding fed_def by (rule disjI1, rule exI [of _ "[]"], rule exI [of _ payload]) simp
  have st0: "settle ?ss = ?ss"
    using base by (simp add: settle_def)
  obtain u' s' where m: "main_loop tg (map (Pair 0) (frame_packet payload)) \<lparr>ms_session = ?ss, ms_unframer = ?u\<rparr>
      = Some (None, \<lparr>ms_session = s', ms_unframer = u'\<rparr>)" "uf_wf u'" "uf_abs u' = RxStart False"
    "fed ?ss payload fin ([] @ map RxByte payload @ [RxDone True]) s'" "settle s' = s'"
    using main_loop_bytes [OF base fin(2,3) u(1) f0 st0 run ok] by blast
  have "s' = fin \<or> s' = settle fin"
    using m(4) packet_events_over unfolding fed_def append_Nil by blast
  then have s': "s' = settle fin"
    using m(5) by auto
  have "uf_state u' = kFindPacketStart"
    using m(3) by (auto simp: uf_abs_def split: unframer_state.splits if_splits)
  then have "loop_ready \<lparr>ms_session = s', ms_unframer = u'\<rparr>"
    using m(2) fin(3) s' by (simp add: loop_ready_def settle_def)
  moreover have "main_loop tg (typed (frame_packet payload)) ms = Some (None, \<lparr>ms_session = s', ms_unframer = u'\<rparr>)"
    using m(1) unfolding typed_def by (cases ms) simp
  ultimately show thesis
    using that s' by simp
qed

lemma service_loop_ready: "service_ready r keep ms \<Longrightarrow> loop_ready ms"
  by (simp add: service_ready_def loop_ready_def rpc_ready_def)

lemma service_step:
  assumes ready: "service_ready r keep ms" and tg: "tg_write tg = SerialWriteStream_Write"
    and fits: "request_fits (lookup_of (ms_session ms)) (keep, r) q"
  obtains ms' reply keep' r' where "main_loop tg (typed (request_frame (ms_session ms) q)) ms = Some (None, ms')"
    "service_ready r' keep' ms'" "answered r' keep' (ms_session ms) reply (ms_session ms')"
    "request_step (lookup_of (ms_session ms)) (keep, r) q reply (keep', r')"
proof -
  let ?ss = "ms_session ms"
  let ?p = "session_header_bytes (normal_header ?ss) @ packet_bytes (request_body q)"
  have rpc: "rpc_ready r keep ?ss"
    using ready by (simp add: service_ready_def)
  obtain fin reply keep' r' where fin: "SessionReceiver_PacketDone (tg_write tg) (MicroRPCServer_HandleCompleteMessage tg)
      (rcv_filled ?ss ?p) True = Some fin"
    "answered r' keep' ?ss reply (settle fin)" "request_step (lookup_of ?ss) (keep, r) q reply (keep', r')"
    "g_num_bytes_written (session_stream fin) = g_num_bytes_requested (session_stream fin)" "is_running (callback_context fin)"
    by (rule PacketDone_answers [OF rpc tg fits])
  have "rcv_ready ?ss (length ?p)"
    using rpc request_body_length [OF fits] by (simp add: rcv_ready_def rpc_ready_def)
  then obtain ms' where "main_loop tg (typed (frame_packet ?p)) ms = Some (None, ms')" "ms_session ms' = settle fin" "loop_ready ms'"
    by (rule main_loop_frame [OF service_loop_ready [OF ready] _ fin(1,4,5)])
  then show thesis
    by (intro that [of ms' r' keep' reply])
      (use fin(2,3) in \<open>simp_all add: request_frame_def service_ready_def loop_ready_def answered_def\<close>)
qed

section \<open>An idle device\<close>

text \<open>A device in a session, with a fresh heap of 128 kilobytes, for the examples.\<close>

definition idle_device :: "arena \<Rightarrow> machine \<Rightarrow> serial micro_server" where
  "idle_device ar m =
     \<lparr>ms_session = (Session (Framer 0) (serial.make 0 0 []) (FrameBuffer (replicate 4096 0) 4096)
        \<lparr>rpc_runtime = (bare_runtime [] 0)\<lparr>rt_machine := m\<rparr>, rpc_arena = ar, allow_clean_shutdown = True, is_running = True\<rparr>)
        \<lparr>session_state := kSessionEstablished\<rparr>,
      ms_unframer = uf_example\<rparr>"

lemma idle_device_ready:
  assumes "arena_holds 256 r keep P n ar m"
  shows "service_ready r keep (idle_device ar m)"
  using assms FrameBuffer_new [of 4096 "replicate 4096 (0 :: u8)"] FrameBuffer_Clear_ok [of "FrameBuffer (replicate 4096 (0 :: u8)) 4096"] uf_example_wf
  by (auto simp: service_ready_def rpc_ready_def idle_device_def Session_def serial.make_def FrameBuffer_Clear_def FrameBuffer_def)

lemma fresh_heap_owns:
  assumes "heap m = fresh_heap 4096 131072 8" and "k \<le> 380"
  shows "owns 256 k Map.empty m"
proof (rule ownsI)
  let ?h = "fresh_heap 4096 131072 8"
  have "pm_inv ?h Map.empty"
    by (rule fresh_pm_inv) simp_all
  moreover have "k \<le> fresh_pages ?h"
    using assms(2) by (simp add: fresh_pages_def fresh_simps sizeof_defs size_sub_def)
  ultimately show "room Map.empty 256 k (heap m)"
    unfolding assms(1) by (simp add: room_def fresh_simps)
  show "0 < pm_low (heap m)" "pm_high (heap m) \<le> 2 ^ 32"
    unfolding assms(1) by (simp_all add: pm_low_def pm_high_def fresh_simps sizeof_defs size_sub_def)
qed simp_all

lemma idle_device_exists: "\<exists>ar m. service_ready 300 Map.empty (idle_device ar m)"
proof -
  let ?m = "\<lparr>heap = fresh_heap 4096 131072 8, ram = (\<lambda>_. 0)\<rparr>"
  have "pages_of 256 kPageSize + 300 \<le> 380"
    by (simp add: pages_of_def kPageSize_def)
  then have "owns 256 (pages_of 256 kPageSize + 300) Map.empty ?m"
    by (intro fresh_heap_owns) simp_all
  then obtain ar m where "arena_holds 256 300 Map.empty Map.empty 2036 ar m"
    using GenericArena_ok by metis
  then show ?thesis
    using idle_device_ready by blast
qed

section \<open>Properties\<close>

text \<open>
  C1. Requests are answered. A device that waits in an established session takes the frame of any
  request of the specification that its client may make and that fits in a packet (the call of a function
  is not one of the six), byte by byte through the main loop, and before it waits for the next byte it has sent exactly one frame, the reply the specification of the service gives. The blocks of the
  device memory are what the specification says, and the device waits for the next request.
\<close>

theorem device_answers_request:
  assumes "service_ready r keep ms" and "tg_write tg = SerialWriteStream_Write"
    and "request_fits (lookup_of (ms_session ms)) (keep, r) q"
  shows "\<exists>ms' reply keep' r'. main_loop tg (typed (request_frame (ms_session ms) q)) ms = Some (None, ms')
    \<and> request_step (lookup_of (ms_session ms)) (keep, r) q reply (keep', r') \<and> service_ready r' keep' ms'
    \<and> serial_out (session_stream (ms_session ms')) = serial_out (session_stream (ms_session ms)) @ lead (session_framer (ms_session ms))
        @ frame_packet (session_header_bytes (normal_header (ms_session ms)) @ packet_bytes reply)"
proof -
  obtain ms' reply keep' r' where "main_loop tg (typed (request_frame (ms_session ms) q)) ms = Some (None, ms')"
    "service_ready r' keep' ms'" "answered r' keep' (ms_session ms) reply (ms_session ms')"
    "request_step (lookup_of (ms_session ms)) (keep, r) q reply (keep', r')"
    by (rule service_step [OF assms])
  then show ?thesis
    unfolding answered_def by blast
qed

definition uart_target :: "serial target" where
  "uart_target = \<lparr>tg_write = SerialWriteStream_Write, tg_image = bare_image, tg_depth = 1, tg_stack = 0, tg_stack_code = 0\<rparr>"

theorem device_answers_request_witness:
  "\<exists>ar m ms' reply keep' r'. main_loop uart_target (typed (request_frame (ms_session (idle_device ar m)) (Alloc_Data 1 100 64 0))) (idle_device ar m)
      = Some (None, ms')
    \<and> request_step (lookup_of (ms_session (idle_device ar m))) (Map.empty, 300) (Alloc_Data 1 100 64 0) reply (keep', r') \<and> service_ready r' keep' ms'
    \<and> serial_out (session_stream (ms_session ms')) = serial_out (session_stream (ms_session (idle_device ar m)))
        @ lead (session_framer (ms_session (idle_device ar m)))
        @ frame_packet (session_header_bytes (normal_header (ms_session (idle_device ar m))) @ packet_bytes reply)"
proof -
  obtain ar m where ready: "service_ready 300 Map.empty (idle_device ar m)"
    using idle_device_exists by blast
  have fits: "request_fits (lookup_of (ms_session (idle_device ar m))) (Map.empty, 300) (Alloc_Data 1 100 64 0)"
    by (simp add: pages_of_def remote_size_def)
  show ?thesis
    by (rule exI [of _ ar], rule exI [of _ m]) (rule device_answers_request [OF ready _ fits], simp add: uart_target_def)
qed

lemma remote_size_le: "0 < al \<Longrightarrow> n \<le> remote_size n al"
proof -
  assume al: "0 < al"
  have "(n + al - 1) mod al < al"
    using al by simp
  then have "n + al - 1 < (n + al - 1) div al * al + al"
    using div_mult_mod_eq [of "n + al - 1" al] by linarith
  then have "n \<le> (n + al - 1) div al * al"
    using al by linarith
  then show ?thesis
    by (simp add: remote_size_def)
qed

lemma step_alloc:
  assumes "request_step lookup (keep, pages_of 256 (remote_size n al) + r) (Alloc_Data dev n al dt) reply (keep', r')"
  obtains p bs where "keep p = None" "word_addr p" "length bs = remote_size n al" "reply = handle_reply (of_int p)" "keep' = keep(p \<mapsto> bs)" "r' = r"
  using assms by (cases rule: request_step.cases) auto

lemma step_copy_to:
  assumes "request_step lookup (keep, r) (Copy_To p dt sh off ws) reply (keep', r')" and "keep p = Some bs"
  shows "reply = void_reply" "keep' = keep(p \<mapsto> patch bs off ws)" "r' = r"
  using assms by (auto elim: request_step.cases)

lemma step_copy_from:
  assumes "request_step lookup (keep, r) (Copy_From p dt sh off n) reply (keep', r')" and "keep p = Some bs"
  shows "reply = i32_bytes kCopyAck @ take n (drop off bs)" "keep' = keep" "r' = r"
  using assms by (auto elim: request_step.cases)

text \<open>The reply the device sends: the header of its session, the length and the body.\<close>

definition reply_frame :: "serial server \<Rightarrow> u8 list \<Rightarrow> u8 list" where
  "reply_frame ss body = lead (session_framer ss) @ frame_packet (session_header_bytes (normal_header ss) @ packet_bytes body)"

text \<open>
  C2. The memory of the device is a memory. A client allocates a block, gets its address, and writes into
  it; what it reads back later is what it wrote, all other blocks of its hold what they held, and the
  device has sent exactly the three replies.
\<close>

theorem remote_memory_round_trip:
  assumes "service_ready (pages_of 256 (remote_size n al) + r) keep ms" and "tg_write tg = SerialWriteStream_Write"
    and "0 < n" and "0 < al" and "n + al < 2 ^ 31" and "length ws = n" and "8 * length sh \<le> 1980" and "8 * length sh + n \<le> 4041"
  shows "\<exists>p m1 m2 m3 keep'. keep p = None
    \<and> main_loop tg (typed (request_frame (ms_session ms) (Alloc_Data dev n al dt))) ms = Some (None, m1)
    \<and> main_loop tg (typed (request_frame (ms_session m1) (Copy_To p ty sh 0 ws))) m1 = Some (None, m2)
    \<and> main_loop tg (typed (request_frame (ms_session m2) (Copy_From p ty sh 0 n))) m2 = Some (None, m3)
    \<and> serial_out (session_stream (ms_session m3)) = serial_out (session_stream (ms_session ms))
        @ reply_frame (ms_session ms) (handle_reply (of_int p)) @ reply_frame (ms_session m1) void_reply
        @ reply_frame (ms_session m2) (i32_bytes kCopyAck @ ws)
    \<and> service_ready r keep' m3 \<and> (\<forall>q bs. keep q = Some bs \<longrightarrow> keep' q = Some bs)"
proof -
  let ?size = "remote_size n al"
  have size: "n \<le> ?size"
    using remote_size_le assms(4) by simp
  obtain m1 a1 keep1 r1 where 1: "main_loop tg (typed (request_frame (ms_session ms) (Alloc_Data dev n al dt))) ms = Some (None, m1)"
    "service_ready r1 keep1 m1" "answered r1 keep1 (ms_session ms) a1 (ms_session m1)"
    "request_step (lookup_of (ms_session ms)) (keep, pages_of 256 ?size + r) (Alloc_Data dev n al dt) a1 (keep1, r1)"
    by (rule service_step [OF assms(1,2), of "Alloc_Data dev n al dt"]) (use assms(3-5) in simp)
  obtain p bs where p: "keep p = None" "word_addr p" "length bs = ?size" "a1 = handle_reply (of_int p)" "keep1 = keep(p \<mapsto> bs)" "r1 = r"
    by (rule step_alloc [OF 1(4)])
  have k1: "keep1 p = Some bs"
    using p(5) by simp
  obtain m2 a2 keep2 r2 where 2: "main_loop tg (typed (request_frame (ms_session m1) (Copy_To p ty sh 0 ws))) m1 = Some (None, m2)"
    "service_ready r2 keep2 m2" "answered r2 keep2 (ms_session m1) a2 (ms_session m2)"
    "request_step (lookup_of (ms_session m1)) (keep1, r1) (Copy_To p ty sh 0 ws) a2 (keep2, r2)"
    by (rule service_step [OF 1(2) assms(2), of "Copy_To p ty sh 0 ws"]) (use assms(6-8) p(2,3) k1 size in simp)
  note s2 = step_copy_to [OF 2(4) k1]
  have k2: "keep2 p = Some (patch bs 0 ws)"
    using s2(2) by simp
  obtain m3 a3 keep3 r3 where 3: "main_loop tg (typed (request_frame (ms_session m2) (Copy_From p ty sh 0 n))) m2 = Some (None, m3)"
    "service_ready r3 keep3 m3" "answered r3 keep3 (ms_session m2) a3 (ms_session m3)"
    "request_step (lookup_of (ms_session m2)) (keep2, r2) (Copy_From p ty sh 0 n) a3 (keep3, r3)"
    by (rule service_step [OF 2(2) assms(2), of "Copy_From p ty sh 0 n"]) (use assms(6-8) p(2,3) k2 size in simp)
  note s3 = step_copy_from [OF 3(4) k2]
  have "take n (patch bs 0 ws) = ws"
    using assms(6) by (simp add: patch_def)
  then have "serial_out (session_stream (ms_session m3)) = serial_out (session_stream (ms_session ms))
        @ reply_frame (ms_session ms) (handle_reply (of_int p)) @ reply_frame (ms_session m1) void_reply
        @ reply_frame (ms_session m2) (i32_bytes kCopyAck @ ws)"
    using 1(3) 2(3) 3(3) p(4) s2(1) s3(1) by (simp add: answered_def reply_frame_def)
  moreover have "\<forall>q bs. keep q = Some bs \<longrightarrow> keep3 q = Some bs"
    using p(1,5) s2(2) s3(2) by auto
  moreover have "service_ready r keep3 m3"
    using 3(2) s2(3) s3(3) p(6) by simp
  ultimately show ?thesis
    using p(1) 1(1) 2(1) 3(1) by blast
qed

theorem remote_memory_round_trip_witness:
  "\<exists>ar m p m1 m2 m3 keep'. (Map.empty :: addr \<rightharpoonup> u8 list) p = None
    \<and> main_loop uart_target (typed (request_frame (ms_session (idle_device ar m)) (Alloc_Data 1 2 1 0))) (idle_device ar m) = Some (None, m1)
    \<and> main_loop uart_target (typed (request_frame (ms_session m1) (Copy_To p \<lparr>code = 1, bits = 8, lanes = 1\<rparr> [2] 0 [0xff, 7]))) m1
      = Some (None, m2)
    \<and> main_loop uart_target (typed (request_frame (ms_session m2) (Copy_From p \<lparr>code = 1, bits = 8, lanes = 1\<rparr> [2] 0 2))) m2
      = Some (None, m3)
    \<and> serial_out (session_stream (ms_session m3)) = serial_out (session_stream (ms_session (idle_device ar m)))
        @ reply_frame (ms_session (idle_device ar m)) (handle_reply (of_int p)) @ reply_frame (ms_session m1) void_reply
        @ reply_frame (ms_session m2) (i32_bytes kCopyAck @ [0xff, 7])
    \<and> service_ready 299 keep' m3"
proof -
  obtain ar m where ready: "service_ready 300 Map.empty (idle_device ar m)"
    using idle_device_exists by blast
  have "pages_of 256 (remote_size 2 1) + 299 = 300"
    by (simp add: pages_of_def remote_size_def)
  then have "service_ready (pages_of 256 (remote_size 2 1) + 299) Map.empty (idle_device ar m)"
    using ready by simp
  from remote_memory_round_trip [OF this, of uart_target "[0xff, 7]" "[2]" 1 0 "\<lparr>code = 1, bits = 8, lanes = 1\<rparr>"]
  show ?thesis
    by (simp only: uart_target_def target.select_convs) (simp, blast)
qed

text \<open>A server that reads a request whose bytes are \<open>ys\<close>, for the examples.\<close>

lemma serving_exists:
  assumes "length ys \<le> 4096"
  shows "\<exists>ss :: serial server. serving 256 300 Map.empty Map.empty 2036 ys ss"
proof -
  let ?m = "\<lparr>heap = fresh_heap 4096 131072 8, ram = (\<lambda>_. 0)\<rparr>"
  have "owns 256 (pages_of 256 kPageSize + 300) Map.empty ?m"
    by (rule fresh_heap_owns) (simp_all add: pages_of_def kPageSize_def)
  then obtain ar m where a: "arena_holds 256 300 Map.empty Map.empty 2036 ar m"
    using GenericArena_ok by metis
  let ?fb = "FrameBuffer (replicate 4096 (0 :: u8)) 4096"
  have fb: "fb_wf (fb_append ?fb ys)" "fb_contents (fb_append ?fb ys) = ys"
    using FrameBuffer_new [of 4096 "replicate 4096 (0 :: u8)"] fb_append_ok [of ?fb ys] assms by auto
  let ?ss = "(ms_session (idle_device ar m))\<lparr>receive_buffer := fb_append ?fb ys\<rparr>"
  have "serving 256 300 Map.empty Map.empty 2036 ys ?ss"
    using a fb by (simp add: serving_def idle_device_def Session_def)
  then show ?thesis
    by blast
qed

text \<open>
  C8. A packed sequence arrives. Whatever arguments one side sends, if they fit in the page of the arena
  that is in use, the other has the type codes and, for
  each argument, a value that stands for it: numbers and handles are equal, strings and byte arrays are
  copies, and a tensor has its device, type, offset and a copy of its shape; all of it in pieces of the
  arena that do not overlap, with the rest of the memory unchanged and the rest of the packet unread.
\<close>

theorem packed_seq_round_trip:
  assumes "serving ps rr keep P (length (concat parts) + 32 * length ts + 8 + n) (concat parts @ ys) ss"
    and "SendPackedSeq r vs ts cm = Some parts" and "length vs = length ts" and "\<forall>j<length ts. sendable r (ts ! j) (vs ! j)"
    and "length (concat parts) < 2 ^ 31 - 1" and "list_all i32_ok ts"
  shows "\<exists>P' vals tcodes ss'. RecvPackedSeq ss = Some (vals, tcodes, int (length ts), ss') \<and> serving ps rr keep P' n ys ss'
    \<and> (\<forall>j<length ts. load_tcode (ram (srv_machine ss')) tcodes j = ts ! j
         \<and> received P' r (ts ! j) (vs ! j) (load_value (ram (srv_machine ss')) vals j))"
  using RecvPackedSeq_ok [OF assms] by metis

theorem packed_seq_round_trip_witness:
  "\<exists>ss P' vals tcodes ss'. RecvPackedSeq (ss :: serial server) = Some (vals, tcodes, 2, ss') \<and> serving 256 300 Map.empty P' 0 [9] ss'
    \<and> load_tcode (ram (srv_machine ss')) tcodes 0 = int kDLInt \<and> load_value (ram (srv_machine ss')) vals 0 = 5
    \<and> load_tcode (ram (srv_machine ss')) tcodes 1 = kTVMStr
    \<and> P' (uint (v_handle (load_value (ram (srv_machine ss')) vals 1))) = Some [65, 66, 0]"
proof -
  let ?r = "text_ram [65, 66]" and ?ts = "[int kDLInt, kTVMStr]" and ?vs = "[5, 1] :: tvm_value list"
  let ?parts = "[i32_bytes 2, concat (map i32_bytes ?ts), le_bytes 8 5, le_bytes 8 2, [65, 66]]"
  have two: "length [65 :: u8, 66] = 2"
    by simp
  have len: "StrLength ?r 1 = Some 2" "load_bytes ?r 1 2 = [65, 66]"
    using text_ram_length [of "[65, 66]"] text_ram_text [of "[65, 66]"] unfolding two by simp_all
  have snd: "SendPackedSeq ?r ?vs ?ts True = Some ?parts"
    using len by (simp add: SendPackedSeq_def send_arg_def arg_code_defs v_handle_1 Let_def del: le_bytes.simps)
  have l: "length (concat ?parts) = 30"
    by (simp del: le_bytes.simps)
  obtain ss :: "serial server" where ss: "serving 256 300 Map.empty Map.empty 2036 (concat ?parts @ [9]) ss"
    using serving_exists [of "concat ?parts @ [9]"] l by auto
  have s: "serving 256 300 Map.empty Map.empty (length (concat ?parts) + 32 * length ?ts + 8 + 0) (concat ?parts @ [9]) ss"
    by (rule serving_less [OF ss]) (simp only: l, simp)
  have "\<exists>P' vals tcodes ss'. RecvPackedSeq ss = Some (vals, tcodes, int (length ?ts), ss') \<and> serving 256 300 Map.empty P' 0 [9] ss'
    \<and> (\<forall>j<length ?ts. load_tcode (ram (srv_machine ss')) tcodes j = ?ts ! j
         \<and> received P' ?r (?ts ! j) (?vs ! j) (load_value (ram (srv_machine ss')) vals j))"
    by (rule packed_seq_round_trip [OF s snd]) (simp_all only: l, auto simp: sendable_def arg_code_defs i32_ok_def less_Suc_eq)
  then obtain P' vals tcodes ss' where rc: "RecvPackedSeq ss = Some (vals, tcodes, int (length ?ts), ss')" "serving 256 300 Map.empty P' 0 [9] ss'"
    "\<forall>j<length ?ts. load_tcode (ram (srv_machine ss')) tcodes j = ?ts ! j
       \<and> received P' ?r (?ts ! j) (?vs ! j) (load_value (ram (srv_machine ss')) vals j)"
    by blast
  have "load_value (ram (srv_machine ss')) vals 0 = 5" "load_tcode (ram (srv_machine ss')) tcodes 0 = int kDLInt"
    using rc(3) [rule_format, of 0] by (simp_all add: received_def)
  moreover have "load_tcode (ram (srv_machine ss')) tcodes 1 = kTVMStr"
    "P' (uint (v_handle (load_value (ram (srv_machine ss')) vals 1))) = Some [65, 66, 0]"
    using rc(3) [rule_format, of 1] len by (simp_all add: received_def arg_code_defs v_handle_1)
  ultimately show ?thesis
    using rc(1,2) by (intro exI [of _ ss] exI [of _ P'] exI [of _ vals] exI [of _ tcodes] exI [of _ ss']) simp
qed

text \<open>
  C9. The arena is safe. As long as the heap has the pages a request may need, a piece of any size and
  alignment is handed out, from the page in use, a recycled page or a new one. It does not overlap the
  pieces handed out before, which keep their contents like the blocks of everybody else, and begins at a
  multiple of the alignment from the start of its page, and in memory where the pool and its pages do. No
  page is ever lost: after a recycling the arena still has all of them, and when it is freed the heap has
  handed out exactly the blocks \<open>base\<close> that it had handed out beside the arena before.
\<close>

theorem arena_pieces_safe:
  assumes "arena_exact ps (pages_of ps (page_size_for (UpperAlign 12 align + k)) + r) base keep P n ar m"
    and "0 < align" and "align \<le> 2 ^ 28" and "k < 2 ^ 29"
  shows "\<exists>a ar' m' r' n'. Arena_Alloc ar k align m = Some (a, ar', m') \<and> (P a = None \<or> P a = Some []) \<and> r \<le> r'
    \<and> int align dvd a - arena_head ar' \<and> (int align dvd pm_low (heap m) \<and> align dvd ps \<longrightarrow> int align dvd a)
    \<and> arena_exact ps r' base keep (P(a \<mapsto> load_bytes (ram m') a k)) n' ar' m'
    \<and> (\<exists>ar2 m2. Arena_RecycleAll ar' m' = (ar2, m2) \<and> arena_exact ps r' base keep Map.empty 2036 ar2 m2)
    \<and> (\<exists>ar3 m3. Arena_FreeAll ar' m' = Some (ar3, m3) \<and> owns ps r' keep m3 \<and> pm_inv (heap m3) base)"
proof -
  obtain a ar' m' r' n' where a: "Arena_Alloc ar k align m = Some (a, ar', m')" "P a = None \<or> P a = Some []"
    "int align dvd a - arena_head ar'" "int align dvd pm_low (heap m) \<and> align dvd ps \<longrightarrow> int align dvd a"
    "arena_exact ps r' base keep (P(a \<mapsto> load_bytes (ram m') a k)) n' ar' m'" "r \<le> r'"
    by (rule Alloc_exact [OF assms]) (rule that, auto)
  obtain ar2 m2 where "Arena_RecycleAll ar' m' = (ar2, m2)" "arena_exact ps r' base keep Map.empty 2036 ar2 m2"
    by (rule RecycleAll_exact [OF a(5)])
  moreover obtain ar3 m3 where "Arena_FreeAll ar' m' = Some (ar3, m3)" "owns ps r' keep m3" "pm_inv (heap m3) base"
    by (rule FreeAll_exact [OF a(5)])
  ultimately show ?thesis
    using a by blast
qed

text \<open>
  An arena on a fresh heap, asked for 5000 bytes at a multiple of 16: it takes a new page of 6144 bytes,
  and when it is freed no block of the heap is in use.
\<close>

theorem arena_pieces_safe_witness:
  "\<exists>ar m a ar' m' r' n' ar3 m3. GenericArena \<lparr>heap = fresh_heap 4096 131072 8, ram = (\<lambda>_. 0)\<rparr> = Some (ar, m)
    \<and> Arena_Alloc ar 5000 16 m = Some (a, ar', m') \<and> (200 :: nat) \<le> r' \<and> 16 dvd a - arena_head ar'
    \<and> arena_exact 256 r' Map.empty Map.empty (Map.empty(a \<mapsto> load_bytes (ram m') a 5000)) n' ar' m'
    \<and> Arena_FreeAll ar' m' = Some (ar3, m3) \<and> pm_inv (heap m3) Map.empty"
proof -
  let ?m = "\<lparr>heap = fresh_heap 4096 131072 8, ram = (\<lambda>_. 0)\<rparr>"
  have pages: "pages_of 256 (page_size_for (UpperAlign 12 16 + 5000)) = 24"
    by (simp add: UpperAlign_def pages_of_def page_size_for_def kPageSize_def)
  have "owns 256 (pages_of 256 kPageSize + 224) Map.empty ?m"
    by (rule fresh_heap_owns) (simp_all add: pages_of_def kPageSize_def)
  moreover have "pm_inv (heap ?m) Map.empty"
    using fresh_pm_inv [of 131072 8 4096] by simp
  ultimately obtain ar m where am: "GenericArena ?m = Some (ar, m)" "arena_exact 256 224 Map.empty Map.empty Map.empty 2036 ar m"
    by (rule GenericArena_exact)
  have h: "arena_exact 256 (pages_of 256 (page_size_for (UpperAlign 12 16 + 5000)) + 200) Map.empty Map.empty Map.empty 2036 ar m"
    unfolding pages using am(2) by simp
  from arena_pieces_safe [OF h] show ?thesis
    using am(1) by simp blast
qed

end
