(* ===== verification/Rpc_Failures.thy ===== *)
theory Rpc_Failures
  imports Rpc_Service
begin

text \<open>
  What stops or wedges the device: requests that end early or have an unknown code, a log message, and
  a request to shut down.
\<close>

section \<open>Requests that end early\<close>





section \<open>A log message\<close>

text \<open>
  C38. A log message wedges the server. The session hands log messages to the server, which returns without
  clearing the receive buffer; the buffer stays marked as holding a message, and whatever payload bytes
  are written to it next are refused.
\<close>

theorem log_message_wedges_server:
  assumes "service_ready r keep ms" and "length d \<le> 4093"
  shows "\<exists>ms'. main_loop tg (typed (frame_packet (session_header_bytes (message_header (ms_session ms) kLog) @ d))) ms = Some (None, ms')
    \<and> receive_buffer_has_complete_message (ms_session ms')
    \<and> (\<forall>bytes. SessionReceiver_Write (ms_session ms') bytes = Some (tvm_crt_error_code kTvmErrorSessionReceiveBufferBusy, ms_session ms'))"
proof -
  let ?ss = "ms_session ms" and ?h = "message_header (ms_session ms) kLog"
  have rpc: "rpc_ready r keep ?ss"
    using assms(1) by (simp add: service_ready_def)
  have rr: "rcv_ready ?ss (3 + length d)"
    using rpc assms(2) by (simp add: rcv_ready_def rpc_ready_def)
  have h: "sh_message_type ?h = kLog" "sh_session_id ?h = 0"
    by (simp_all add: message_header_def)
  obtain fb where fb: "SessionReceiver_PacketDone (tg_write tg) (MicroRPCServer_HandleCompleteMessage tg)
      (rcv_filled ?ss (session_header_bytes ?h @ d)) True = MicroRPCServer_HandleCompleteMessage tg kLog True (rcv_read ?ss fb)"
    by (rule PacketDone_header [OF rr, of "tg_write tg" "MicroRPCServer_HandleCompleteMessage tg" ?h]) (simp add: h)
  have fin: "SessionReceiver_PacketDone (tg_write tg) (MicroRPCServer_HandleCompleteMessage tg)
      (rcv_filled ?ss (session_header_bytes ?h @ d)) True = Some (rcv_read ?ss fb)"
    unfolding fb by (simp add: MicroRPCServer_HandleCompleteMessage_def message_type_defs)
  have rd: "session_stream (rcv_read ?ss fb) = session_stream ?ss" "callback_context (rcv_read ?ss fb) = callback_context ?ss"
    by (simp_all add: rcv_read_def)
  obtain ms' where ms': "main_loop tg (typed (frame_packet (session_header_bytes ?h @ d))) ms = Some (None, ms')"
    "ms_session ms' = settle (rcv_read ?ss fb)"
    by (rule main_loop_frame [OF service_loop_ready [OF assms(1)] _ fin]) (use rr rpc in \<open>simp_all add: rd rpc_ready_def\<close>)
  then show ?thesis
    by (intro exI [of _ ms']) (simp add: settle_def rcv_read_def SessionReceiver_Write_def)
qed

theorem log_message_wedges_server_witness:
  "\<exists>ar m ms'. main_loop uart_target (typed (frame_packet (session_header_bytes (message_header (ms_session (idle_device ar m)) kLog) @ [104, 105])))
      (idle_device ar m) = Some (None, ms')
    \<and> receive_buffer_has_complete_message (ms_session ms')
    \<and> (\<forall>bytes. SessionReceiver_Write (ms_session ms') bytes = Some (tvm_crt_error_code kTvmErrorSessionReceiveBufferBusy, ms_session ms'))"
proof -
  obtain ar m where ready: "service_ready 300 Map.empty (idle_device ar m)"
    using idle_device_exists by blast
  show ?thesis
    by (rule exI [of _ ar], rule exI [of _ m]) (rule log_message_wedges_server [OF ready], simp)
qed

section \<open>Shutting down\<close>

lemma fed_bytes:
  assumes "fed ss payload fin (map RxByte bs) s"
  shows "s = rcv_filled ss bs"
proof -
  have "map RxByte bs \<noteq> map RxByte payload @ [RxDone True]"
    using packet_events_over [of payload True bs] by metis
  moreover have "inj RxByte"
    by (simp add: inj_def)
  ultimately show ?thesis
    using assms unfolding fed_def by (auto simp: inj_map_eq_map)
qed

text \<open>While the frame is not over the main function takes its bytes, and the receiver is all that changes.\<close>

lemma main_loop_waits:
  assumes base: "g_num_bytes_written (session_stream ss) = 0" "g_num_bytes_requested (session_stream ss) = 0"
      "is_running (callback_context ss)"
  shows "uf_wf u \<Longrightarrow> fed ss payload fin (map RxByte bs) (rcv_filled ss bs) \<Longrightarrow>
    rx_run (uf_abs u) bytes = (map RxByte cs, kTvmErrorNoError, rest, r) \<Longrightarrow> fed_ok tg ss payload fin (map RxByte (bs @ cs)) \<Longrightarrow>
    \<exists>u'. main_loop tg (map (Pair 0) bytes) \<lparr>ms_session = rcv_filled ss bs, ms_unframer = u\<rparr>
        = Some (None, \<lparr>ms_session = rcv_filled ss (bs @ cs), ms_unframer = u'\<rparr>)
      \<and> uf_wf u' \<and> uf_abs u' = r \<and> fed ss payload fin (map RxByte (bs @ cs)) (rcv_filled ss (bs @ cs))"
proof (induction bytes arbitrary: u bs cs)
  case Nil
  then show ?case
    by simp
next
  case (Cons c bytes)
  have "rx_run (uf_abs u) ([c] @ bytes) = (map RxByte cs, kTvmErrorNoError, rest, r)"
    using Cons.prems(3) by simp
  then obtain evs1 r1 rest1 evs2 where c: "rx_run (uf_abs u) [c] = (evs1, kTvmErrorNoError, rest1, r1)"
    and cs: "rx_run r1 bytes = (evs2, kTvmErrorNoError, rest, r)" and evs: "map RxByte cs = evs1 @ evs2"
    by (rule rx_run_splitE)
  obtain cs1 cs2 where split: "evs1 = map RxByte cs1" "evs2 = map RxByte cs2" "cs = cs1 @ cs2"
    using evs by (auto simp: map_eq_append_conv)
  have ok1: "fed_ok tg ss payload fin (map RxByte bs @ evs1)"
    using Cons.prems(4) feeding.ok_prefix [of tg ss payload fin "map RxByte (bs @ cs1)" "map RxByte cs2"] by (simp add: split)
  have "rest1 = []"
    by (rule rx_run_no_rest [OF c])
  then obtain u1 s1 where w: "server_write tg u (rcv_filled ss bs) [c] = Some (kTvmErrorNoError, 1, u1, s1)" "uf_wf u1" "uf_abs u1 = r1"
    "fed ss payload fin (map RxByte bs @ evs1) s1"
    using feeding.Unframer_Write_ok [OF Cons.prems(1,2) c ok1] unfolding server_write_def
    by (auto simp: le_Suc_eq)
  have f1: "fed ss payload fin (map RxByte (bs @ cs1)) s1"
    using w(4) split(1) by simp
  then have s1: "s1 = rcv_filled ss (bs @ cs1)"
    by (rule fed_bytes)
  have "main_feed tg [c] \<lparr>ms_session = rcv_filled ss bs, ms_unframer = u\<rparr> = Some \<lparr>ms_session = settle s1, ms_unframer = u1\<rparr>"
    by (rule main_feed_byte [OF w(1)]) (use base in \<open>simp_all add: s1 rcv_filled_def\<close>)
  moreover have "settle s1 = rcv_filled ss (bs @ cs1)"
    unfolding s1 by (rule settle_filled [OF base(1,2)])
  ultimately show ?case
    using Cons.IH [OF w(2) f1 [unfolded s1], of cs2] cs w(3) Cons.prems(4) by (simp add: split Let_def)
qed

lemma Shutdown_packet:
  assumes a: "arena_exact 256 r base keep P n (rpc_arena (callback_context ss)) (srv_machine ss)"
    and fb: "fb_wf (receive_buffer ss)" "fb_contents (receive_buffer ss) = packet_bytes (i32_bytes kShutdown)"
  obtains ss' where "ProcessOnePacket tg ss = Some (False, ss')" "session_stream ss' = session_stream ss"
    "owns 256 r keep (srv_machine ss')" "pm_inv (heap (srv_machine ss')) base"
proof -
  obtain ar m where rc: "Arena_RecycleAll (rpc_arena (callback_context ss)) (srv_machine ss) = (ar, m)"
    "arena_exact 256 r base keep Map.empty 2036 ar m"
    by (rule RecycleAll_exact [OF a])
  let ?s1 = "set_flags True (set_arena ar (set_machine m ss))"
  have fields: "rpc_arena (callback_context ?s1) = ar" "srv_machine ?s1 = m" "receive_buffer ?s1 = receive_buffer ss"
    by (simp_all add: set_flags_def set_arena_def set_machine_def set_runtime_def)
  have s1: "serving 256 r keep Map.empty 2036 (le_bytes 8 (length (i32_bytes kShutdown)) @ i32_bytes kShutdown @ []) ?s1"
    using arena_exact_holds [OF rc(2)] fb fields by (simp add: serving_def packet_bytes_def del: le_bytes.simps)
  obtain s2 where s2: "read_nat 8 ?s1 = Some (4, s2)" "serving 256 r keep Map.empty 2036 (i32_bytes kShutdown @ []) s2" "quiet ?s1 s2"
    "callback_context s2 = callback_context ?s1"
    by (rule serving_read_nat [OF s1]) simp_all
  obtain s3 where s3: "read_int s2 = Some (kShutdown, s3)" "quiet s2 s3" "callback_context s3 = callback_context s2"
    by (rule serving_read_int [OF s2(2)]) (simp_all add: rpc_code_defs i32_ok_def)
  obtain ar' m' where f: "Arena_FreeAll ar m = Some (ar', m')" "owns 256 r keep m'" "pm_inv (heap m') base"
    by (rule FreeAll_exact [OF rc(2)])
  let ?s4 = "set_flags False s3"
  have cc: "rpc_arena (callback_context ?s4) = ar" "srv_machine ?s4 = m"
    using s3(3) s2(4) fields by (simp_all add: set_flags_def)
  let ?fin = "set_arena ar' (set_machine m' ?s4)"
  have "ProcessOnePacket tg ss = handle_code tg kShutdown ?s4"
    using rc(1) s2(1) s3(1) by (simp add: ProcessOnePacket_def)
  also have "\<dots> = Some (False, ?fin)"
    using f(1) cc by (simp add: handle_code_def rpc_code_defs MinRPCServer_Shutdown_def MicroIOHandler_Close_def)
  finally show thesis
    by (rule that) (use f(2,3) s2(3) s3(2) in \<open>simp_all add: quiet_def set_flags_def set_arena_def set_machine_def set_runtime_def\<close>)
qed

text \<open>
  C37. A shutdown request aborts the program. The bytes of the request before the last one are taken and
  nothing is sent. On the last one the server gives every page of its arena back, so that the heap has
  handed out the blocks \<open>base\<close> that it had handed out beside the arena, stops without a reply, and reports
  that it has; it does so for all that is typed later. The main function takes the report for a failure
  and aborts.
\<close>

theorem shutdown_aborts_main:
  assumes ready: "service_ready r keep ms"
    and a: "arena_exact 256 r base keep P n (rpc_arena (callback_context (ms_session ms))) (srv_machine (ms_session ms))"
    and msg: "msg = frame_packet (session_header_bytes (normal_header (ms_session ms)) @ packet_bytes (i32_bytes kShutdown))"
  shows "\<exists>ms1 ms2. main_loop tg (typed (butlast msg)) ms = Some (None, ms1)
    \<and> is_running (callback_context (ms_session ms1)) \<and> session_stream (ms_session ms1) = session_stream (ms_session ms)
    \<and> MicroTVMRpcServerLoop tg [last msg] ms1 = Some (kTvmErrorPlatformShutdown, [], ms2)
    \<and> \<not> is_running (callback_context (ms_session ms2)) \<and> session_stream (ms_session ms2) = session_stream (ms_session ms)
    \<and> owns 256 r keep (srv_machine (ms_session ms2)) \<and> pm_inv (heap (srv_machine (ms_session ms2))) base
    \<and> (\<forall>data. MicroTVMRpcServerLoop tg data ms2 = Some (kTvmErrorPlatformShutdown, data, ms2))
    \<and> main_loop tg (typed msg) ms = None"
proof -
  let ?ss = "ms_session ms" and ?u = "ms_unframer ms"
  let ?p = "session_header_bytes (normal_header ?ss) @ packet_bytes (i32_bytes kShutdown)"
  have rpc: "rpc_ready r keep ?ss" and u: "uf_wf ?u" "uf_state ?u = kFindPacketStart"
    using ready by (simp_all add: service_ready_def)
  have rr: "rcv_ready ?ss (3 + length (packet_bytes (i32_bytes kShutdown)))" and st: "session_state ?ss = kSessionEstablished"
    using rpc by (simp_all add: rcv_ready_def rpc_ready_def)
  have base: "g_num_bytes_written (session_stream ?ss) = 0" "g_num_bytes_requested (session_stream ?ss) = 0"
    "is_running (callback_context ?ss)"
    using rpc by (simp_all add: rpc_ready_def)
  obtain fb where fb: "fb_wf fb" "fb_contents fb = packet_bytes (i32_bytes kShutdown)"
    "SessionReceiver_PacketDone (tg_write tg) (MicroRPCServer_HandleCompleteMessage tg) (rcv_filled ?ss ?p) True
      = MicroRPCServer_HandleCompleteMessage tg kNormal True (rcv_read ?ss fb)"
    by (rule PacketDone_capacity [OF rr, of "tg_write tg" "MicroRPCServer_HandleCompleteMessage tg"]) (use st in blast)
  obtain s2 where s2: "ProcessOnePacket tg (rcv_read ?ss fb) = Some (False, s2)" "session_stream s2 = session_stream ?ss"
    "owns 256 r keep (srv_machine s2)" "pm_inv (heap (srv_machine s2)) base"
    by (rule Shutdown_packet [of r base keep P n "rcv_read ?ss fb" tg]) (use a fb(1,2) in \<open>simp_all add: rcv_read_def\<close>)
  let ?fin = "Session_ClearReceiveBuffer (set_running False s2)"
  have stream: "session_stream ?fin = session_stream ?ss" "callback_context ?fin = (callback_context s2)\<lparr>is_running := False\<rparr>"
    using s2(2) by (simp_all add: Session_ClearReceiveBuffer_def set_running_def)
  have settled: "settle ?fin = ?fin"
    using stream(1) base(1,2) by (simp add: settle_def)
  have fin: "SessionReceiver_PacketDone (tg_write tg) (MicroRPCServer_HandleCompleteMessage tg) (rcv_filled ?ss ?p) True = Some ?fin"
    unfolding fb(3) using s2(1) by (simp add: MicroRPCServer_HandleCompleteMessage_def)
  have ok: "fed_ok tg ?ss ?p ?fin (map RxByte ?p @ [RxDone True])"
    using rpc fin by (simp add: fed_ok_def rcv_ok_def rpc_ready_def)
  have ok1: "fed_ok tg ?ss ?p ?fin (map RxByte ([] @ ?p))"
    using feeding.ok_prefix [OF ok] by simp
  have f0: "fed ?ss ?p ?fin (map RxByte []) (rcv_filled ?ss [])"
    unfolding fed_def by (rule disjI1, rule exI [of _ "[]"], rule exI [of _ ?p]) simp
  have ss0: "rcv_filled ?ss [] = ?ss"
    by simp
  have mm: "\<lparr>ms_session = ?ss, ms_unframer = ?u\<rparr> = ms"
    by simp
  have u0: "uf_abs ?u = RxStart (uf_saw_escape_start ?u)"
    using u(2) by (simp add: uf_abs_def)
  have len: "length ?p < 2 ^ 32"
    by simp
  have ne: "msg \<noteq> []"
    unfolding msg by (simp add: frame_packet_def frame_head_def Let_def)
  have run: "rx_run (uf_abs ?u) (butlast msg @ [last msg]) = (map RxByte ?p @ [RxDone True], kTvmErrorNoError, [], RxStart False)"
    using rx_run_frame [OF len, of _ "[]"] ne u0 by (simp add: msg)
  obtain r0 where run0: "rx_run (uf_abs ?u) (butlast msg) = (map RxByte ?p, kTvmErrorNoError, [], r0)"
    unfolding u0 msg by (rule rx_run_frame_butlast [OF len])
  have run1: "rx_run r0 [last msg] = ([RxDone True], kTvmErrorNoError, [], RxStart False)"
    using rx_run_append [OF run0, of "[last msg]"] run by (cases "rx_run r0 [last msg]") simp
  from main_loop_waits [OF base u(1) f0 run0 ok1] obtain u1 where m1:
    "main_loop tg (typed (butlast msg)) ms = Some (None, \<lparr>ms_session = rcv_filled ?ss ?p, ms_unframer = u1\<rparr>)"
    "uf_wf u1" "uf_abs u1 = r0" "fed ?ss ?p ?fin (map RxByte ?p) (rcv_filled ?ss ?p)"
    unfolding ss0 mm typed_def by auto
  obtain u2 s3 where w: "server_write tg u1 (rcv_filled ?ss ?p) [last msg] = Some (kTvmErrorNoError, 1, u2, s3)"
    "fed ?ss ?p ?fin (map RxByte ?p @ [RxDone True]) s3"
    using feeding.Unframer_Write_ok [OF m1(2,4) run1 [folded m1(3)] ok] unfolding server_write_def by (auto simp: le_Suc_eq)
  have "s3 = ?fin"
    using w(2) settled packet_events_over [of ?p True] unfolding fed_def by metis
  let ?ms1 = "\<lparr>ms_session = rcv_filled ?ss ?p, ms_unframer = u1\<rparr>" and ?ms2 = "\<lparr>ms_session = ?fin, ms_unframer = u2\<rparr>"
  have loop: "MicroTVMRpcServerLoop tg [last msg] ?ms1 = Some (kTvmErrorPlatformShutdown, [], ?ms2)"
    using w(1) base(3) stream(2) \<open>s3 = ?fin\<close>
    by (simp add: MicroTVMRpcServerLoop_def MicroRPCServer_Loop_def rcv_filled_def)
  have "main_feed tg [last msg] ?ms1 = None"
    using loop by (subst main_feed.simps) simp
  then have "main_loop tg (typed [last msg]) ?ms1 = None"
    by (simp add: typed_def Let_def)
  then have "main_loop tg (typed (butlast msg @ [last msg])) ms = None"
    using main_loop_append [OF m1(1), of "[last msg]"] by simp
  then have none: "main_loop tg (typed msg) ms = None"
    using ne by simp
  have later: "MicroTVMRpcServerLoop tg data ?ms2 = Some (kTvmErrorPlatformShutdown, data, ?ms2)" for data
    using stream(2) by (simp add: MicroTVMRpcServerLoop_def MicroRPCServer_Loop_def)
  show ?thesis
    by (intro exI [of _ ?ms1] exI [of _ ?ms2]) (use m1(1) loop none later base(3) stream s2(3,4) in \<open>simp add: rcv_filled_def\<close>)
qed

theorem shutdown_aborts_main_witness:
  "\<exists>ar m ms1 ms2. let ms = idle_device ar m;
      msg = frame_packet (session_header_bytes (normal_header (ms_session ms)) @ packet_bytes (i32_bytes kShutdown))
    in main_loop uart_target (typed (butlast msg)) ms = Some (None, ms1)
      \<and> MicroTVMRpcServerLoop uart_target [last msg] ms1 = Some (kTvmErrorPlatformShutdown, [], ms2)
      \<and> \<not> is_running (callback_context (ms_session ms2)) \<and> session_stream (ms_session ms2) = session_stream (ms_session ms)
      \<and> pm_inv (heap (srv_machine (ms_session ms2))) Map.empty
      \<and> main_loop uart_target (typed msg) ms = None"
proof -
  let ?m = "\<lparr>heap = fresh_heap 4096 131072 8, ram = (\<lambda>_. 0)\<rparr>"
  have "owns 256 (pages_of 256 kPageSize + 300) Map.empty ?m"
    by (rule fresh_heap_owns) (simp_all add: pages_of_def kPageSize_def)
  moreover have "pm_inv (heap ?m) Map.empty"
    using fresh_pm_inv [of 131072 8 4096] by simp
  ultimately obtain ar m where a: "arena_exact 256 300 Map.empty Map.empty Map.empty 2036 ar m"
    by (rule GenericArena_exact)
  have ready: "service_ready 300 Map.empty (idle_device ar m)"
    by (rule idle_device_ready [OF arena_exact_holds [OF a]])
  have a': "arena_exact 256 300 Map.empty Map.empty Map.empty 2036 (rpc_arena (callback_context (ms_session (idle_device ar m))))
      (srv_machine (ms_session (idle_device ar m)))"
    using a by (simp add: idle_device_def Session_def)
  from shutdown_aborts_main [OF ready a' refl, of uart_target] show ?thesis
    unfolding Let_def by blast
qed

end
