(* ===== verification/Aot_Executor.thy ===== *)
theory Aot_Executor
  imports Graph_Run
begin

text \<open>
  Running a compiled program, \<^verbatim>\<open>aot_executor/aot_executor.c\<close>: the arrays that the metadata of the program
  ask for, and the call of its main function with them. The metadata are constants of the generated code:
  a parameter of the model gives what is at their address.
\<close>

section \<open>Metadata\<close>

text \<open>Names are given without their terminator, arrays as lists; the counts are stored next to them.\<close>

record tensor_info =
  ti_name :: "u8 list"
  ti_shape :: "int list"
  ti_num_shape :: int
  ti_dtype :: dl_data_type

record tvm_metadata =
  md_version :: int
  md_inputs :: "tensor_info list"
  md_num_inputs :: int
  md_outputs :: "tensor_info list"
  md_num_outputs :: int
  md_workspace_pools :: "tensor_info list"
  md_num_workspace_pools :: int
  md_num_constant_pools :: int
  md_mod_name :: "u8 list"

type_synonym metadata_at = "u32 \<Rightarrow> tvm_metadata option"

record aot_executor =
  ax_metadata :: u32
  ax_module_handle :: u32
  ax_device :: dl_device
  ax_args :: addr
  ax_num_args :: int

text \<open>The block is cleared when it is created.\<close>

definition blank_aot :: aot_executor where
  "blank_aot = \<lparr>ax_metadata = 0, ax_module_handle = 0, ax_device = \<lparr>device_type = 0, device_id = 0\<rparr>, ax_args = 0, ax_num_args = 0\<rparr>"

definition sizeof_AotExecutor :: nat where "sizeof_AotExecutor = 32"

section \<open>Inputs and outputs\<close>

definition TVMAotExecutor_GetNumInputs :: "metadata_at \<Rightarrow> aot_executor \<Rightarrow> int option" where
  "TVMAotExecutor_GetNumInputs mds ax = do {
     md \<leftarrow> mds (ax_metadata ax);
     Some (to_i32 (md_num_inputs md))
   }"

definition TVMAotExecutor_GetNumOutputs :: "metadata_at \<Rightarrow> aot_executor \<Rightarrow> int option" where
  "TVMAotExecutor_GetNumOutputs mds ax = do {
     md \<leftarrow> mds (ax_metadata ax);
     Some (to_i32 (md_num_outputs md))
   }"

fun aot_index_loop :: "tensor_info list \<Rightarrow> u8 list \<Rightarrow> nat \<Rightarrow> nat \<Rightarrow> int option" where
  "aot_index_loop infos name i 0 = Some (- 1)"
| "aot_index_loop infos name i (Suc n) = do {
     info \<leftarrow> arr_get infos i;
     if ti_name info = name then Some (int i) else aot_index_loop infos name (i + 1) n
   }"

text \<open>A name that is not there stops the program.\<close>

definition TVMAotExecutor_GetInputIndex :: "metadata_at \<Rightarrow> aot_executor \<Rightarrow> u8 list \<Rightarrow> int option" where
  "TVMAotExecutor_GetInputIndex mds ax name = do {
     md \<leftarrow> mds (ax_metadata ax);
     rv \<leftarrow> aot_index_loop (md_inputs md) name 0 (nat (md_num_inputs md));
     CHECK (rv \<ge> 0);
     Some rv
   }"

section \<open>Running\<close>

text \<open>The address of an argument, which starts with its tensor.\<close>

definition aot_arg_at :: "aot_executor \<Rightarrow> nat \<Rightarrow> addr" where
  "aot_arg_at ax i = (ax_args ax + int (sizeof_NDArray * i)) mod 2 ^ 32"

text \<open>The packed function and the arguments are on the stack: places that are not written hold what was there.\<close>

record aot_junk =
  aj_func :: tvm_packed_func
  aj_args :: tvm_args

fun run_args :: "aot_executor \<Rightarrow> nat \<Rightarrow> nat \<Rightarrow> tvm_args \<Rightarrow> tvm_args option" where
  "run_args ax i 0 args = Some args"
| "run_args ax i (Suc n) args = do {
     v \<leftarrow> arr_get (arg_values args) i;
     vs \<leftarrow> arr_set (arg_values args) i (set_handle v (of_int (aot_arg_at ax i)));
     ts \<leftarrow> arr_set (arg_tcodes args) i kTVMDLTensorHandle;
     run_args ax (i + 1) n (args\<lparr>arg_values := vs, arg_tcodes := ts\<rparr>)
   }"

definition tvm_main_suffix :: "u8 list" where
  "tvm_main_suffix = lit ''___tvm_main__''"

text \<open>The lengths are counted up to 120; the name with its terminator has to fit in 120 bytes.\<close>

definition strnlen :: "u8 list \<Rightarrow> nat \<Rightarrow> nat" where
  "strnlen s n = min (length s) n"

definition TVMAotExecutor_Run ::
    "image \<Rightarrow> metadata_at \<Rightarrow> aot_junk \<Rightarrow> aot_executor \<Rightarrow> runtime \<Rightarrow> (int \<times> runtime) option" where
  "TVMAotExecutor_Run im mds junk ax rt = do {
     md \<leftarrow> mds (ax_metadata ax);
     CHECK (strnlen (md_mod_name md) TVM_CRT_MAX_STRLEN_FUNCTION_NAME
       + strnlen tvm_main_suffix TVM_CRT_MAX_STRLEN_FUNCTION_NAME < TVM_CRT_MAX_STRLEN_FUNCTION_NAME);
     let tvm_main_name = md_mod_name md @ tvm_main_suffix;
     CHECK (ax_num_args ax \<le> int TVM_CRT_MAX_ARGS);
     temp_args \<leftarrow> run_args ax 0 (nat (ax_num_args ax)) (aj_args junk);
     let temp_args = temp_args\<lparr>values_count := nat (ax_num_args ax mod 2 ^ 32)\<rparr>;
     (status, tvm_main, rt) \<leftarrow>
       TVMPackedFunc_InitModuleFunc (aj_func junk) (ax_module_handle ax) (tvm_main_name @ [0]) temp_args rt;
     if status \<noteq> 0 then Some (status, rt)
     else do {
       (r, _, rt) \<leftarrow> TVMPackedFunc_Call 2 im tvm_main rt;
       CHECK (r = 0);
       Some (0, rt)
     }
   }"

section \<open>Creation and release\<close>

text \<open>One array for each description, in the places of the argument list; inputs and outputs are counted once.\<close>

fun aot_arrays_loop ::
    "bool \<Rightarrow> tensor_info list \<Rightarrow> nat \<Rightarrow> nat \<Rightarrow> aot_executor \<Rightarrow> nat \<Rightarrow> runtime \<Rightarrow> (int \<times> nat \<times> runtime) option" where
  "aot_arrays_loop counted infos i 0 ax arg_idx rt = Some (0, arg_idx, rt)"
| "aot_arrays_loop counted infos i (Suc n) ax arg_idx rt = do {
     info \<leftarrow> arr_get infos i;
     (status, arr, m) \<leftarrow> TVMNDArray_Empty (rt_machine rt) (to_i32 (ti_num_shape info)) (ti_shape info) (ti_dtype info) (ax_device ax);
     let rt = rt_store (aot_arg_at ax arg_idx) (ndarray_bytes arr) (rt\<lparr>rt_machine := m\<rparr>);
     if status \<noteq> 0 then Some (status, arg_idx + 1, rt)
     else do {
       let rt = (if counted then rt_store (aot_arg_at ax arg_idx) (ndarray_bytes (TVMNDArray_IncrementReference arr)) rt else rt);
       aot_arrays_loop counted infos (i + 1) n ax (arg_idx + 1) rt
     }
   }"

definition tvmgen_prefix :: "u8 list" where
  "tvmgen_prefix = lit ''tvmgen_''"

definition get_c_metdata_suffix :: "u8 list" where
  "get_c_metdata_suffix = lit ''_get_c_metadata''"

definition TVMAotExecutor_Init ::
    "image \<Rightarrow> metadata_at \<Rightarrow> aot_junk \<Rightarrow> aot_executor \<Rightarrow> u32 \<Rightarrow> dl_device \<Rightarrow> u8 list \<Rightarrow> runtime
     \<Rightarrow> (int \<times> aot_executor \<times> runtime) option" where
  "TVMAotExecutor_Init im mds junk ax module_handle dev module_name rt = do {
     let ax = ax\<lparr>ax_module_handle := module_handle, ax_device := dev\<rparr>;
     let temp_args = (aj_args junk)\<lparr>values_count := 0\<rparr>;
     CHECK (strnlen tvmgen_prefix TVM_CRT_MAX_STRLEN_FUNCTION_NAME + strnlen module_name TVM_CRT_MAX_STRLEN_FUNCTION_NAME
       + strnlen get_c_metdata_suffix TVM_CRT_MAX_STRLEN_FUNCTION_NAME < TVM_CRT_MAX_STRLEN_FUNCTION_NAME);
     let get_c_metdata_name = tvmgen_prefix @ module_name @ get_c_metdata_suffix;
     (status, get_c_metadata, rt) \<leftarrow>
       TVMPackedFunc_InitModuleFunc (aj_func junk) (ax_module_handle ax) (get_c_metdata_name @ [0]) temp_args rt;
     if status \<noteq> 0 then Some (status, ax, rt)
     else do {
       (r, get_c_metadata, rt) \<leftarrow> TVMPackedFunc_Call 2 im get_c_metadata rt;
       CHECK (r = 0);
       rv \<leftarrow> arr_get (arg_values (pf_ret_value get_c_metadata)) 0;
       let ax = ax\<lparr>ax_metadata := v_handle rv\<rparr>;
       md \<leftarrow> mds (ax_metadata ax);
       let ax = ax\<lparr>ax_num_args := to_i64 (to_i64 (md_num_inputs md + md_num_outputs md) + md_num_workspace_pools md)\<rparr>;
       (err, p, rt) \<leftarrow> rt_alloc (to_size (ax_num_args ax * int sizeof_NDArray)) rt;
       let ax = ax\<lparr>ax_args := p\<rparr>;
       if err \<noteq> kTvmErrorNoError then Some (- 1, ax, rt)
       else do {
         (status, arg_idx, rt) \<leftarrow> aot_arrays_loop True (md_inputs md) 0 (nat (md_num_inputs md)) ax 0 rt;
         if status \<noteq> 0 then Some (status, ax, rt)
         else do {
           (status, arg_idx, rt) \<leftarrow> aot_arrays_loop True (md_outputs md) 0 (nat (md_num_outputs md)) ax arg_idx rt;
           if status \<noteq> 0 then Some (status, ax, rt)
           else do {
             (status, arg_idx, rt) \<leftarrow>
               aot_arrays_loop False (md_workspace_pools md) 0 (nat (md_num_workspace_pools md)) ax arg_idx rt;
             if status \<noteq> 0 then Some (status, ax, rt)
             else do {
               CHECK (md_num_constant_pools md = 0);
               Some (status, ax, rt)
             }
           }
         }
       }
     }
   }"

text \<open>The results are the status, the address and the state of the executor, \<open>None\<close> without a block.\<close>

definition TVMAotExecutor_Create ::
    "image \<Rightarrow> metadata_at \<Rightarrow> aot_junk \<Rightarrow> u32 \<Rightarrow> dl_device \<Rightarrow> u8 list \<Rightarrow> runtime
     \<Rightarrow> (int \<times> addr \<times> aot_executor option \<times> runtime) option" where
  "TVMAotExecutor_Create im mds junk module_handle dev module_name rt = do {
     (err, p, rt) \<leftarrow> rt_alloc sizeof_AotExecutor rt;
     if err \<noteq> kTvmErrorNoError then Some (- 1, p, None, rt)
     else do {
       (status, ax, rt) \<leftarrow> TVMAotExecutor_Init im mds junk blank_aot module_handle dev module_name rt;
       Some (status, p, Some ax, rt)
     }
   }"

fun release_args :: "aot_executor \<Rightarrow> nat \<Rightarrow> nat \<Rightarrow> runtime \<Rightarrow> (int \<times> runtime) option" where
  "release_args ax i 0 rt = Some (0, rt)"
| "release_args ax i (Suc n) rt = do {
     (status, arr, m) \<leftarrow> TVMNDArray_Release (rt_machine rt) (load_ndarray (rt_ram rt) (aot_arg_at ax i));
     let rt = rt_store (aot_arg_at ax i) (ndarray_bytes arr) (rt\<lparr>rt_machine := m\<rparr>);
     if status \<noteq> 0 then Some (status, rt) else release_args ax (i + 1) n rt
   }"

definition TVMAotExecutor_Release :: "addr \<Rightarrow> aot_executor \<Rightarrow> runtime \<Rightarrow> (int \<times> runtime) option" where
  "TVMAotExecutor_Release self ax rt = do {
     (status, rt) \<leftarrow> (if ax_num_args ax > 0
       then do {
         (status, rt) \<leftarrow> release_args ax 0 (nat (ax_num_args ax)) rt;
         if status \<noteq> 0 then Some (status, rt) else release_blocks [ax_args ax] rt
       }
       else Some (0, rt));
     if status \<noteq> 0 then Some (status, rt) else release_blocks [self] rt
   }"

end
