(* ===== verification/Aot_Run.thy ===== *)
theory Aot_Run
  imports Aot_Executor
begin

text \<open>
  What the executor of a compiled program does: the arrays it makes from the metadata, and the call of the
  main function with them.
\<close>

section \<open>Functions found by name\<close>

lemma named_func:
  assumes m: "module_has rt hdl fs reg" and name: "cname name" "map_of fs name = Some f"
    and ret: "arg_values (pf_ret_value junk) = v # vs" "arg_tcodes (pf_ret_value junk) = t # ts"
  obtains pf where "TVMPackedFunc_InitModuleFunc junk hdl (name @ [0]) args rt = Some (0, pf, rt)"
    "TVMPackedFunc_Call 2 im pf rt = do {
       (r, rv, rc, rt2) \<leftarrow> call_pointer im f (Some (mr_registry reg)) (arg_values args) (arg_tcodes args) (int (values_count args))
         (set_handle v 0) kTVMNullptr rt;
       Some (r, pf\<lparr>pf_ret_value := \<lparr>arg_values = rv # vs, arg_tcodes = rc # ts, values_count = 1\<rparr>\<rparr>, rt2)
     }"
proof -
  obtain i where i: "mr_rep reg fs" "length fs < 0x8000" "length (registered_modules rt) = 6" "i < 6"
    "hdl = EncodeModuleHandle (of_nat i)" "registered_modules rt ! i = Some (mr_registry reg)"
    using m by (auto simp: module_has_def)
  have "name \<in> fst ` set fs"
    using name(2) by (metis map_of_SomeD fst_conv image_eqI)
  then obtain k where k: "k < length fs" "fst (fs ! k) = name"
    "TVMFuncRegistry_Lookup (mr_registry reg) (name @ [0]) = Some (kTvmErrorNoError, Some (of_nat k))"
    using Lookup_ok(1) [OF i(1) name(1), of "[]"] by auto
  have kw: "unat (of_nat k :: u16) = k" "(of_nat k :: u16) < 0x8000"
    using k(1) i(2) by (simp_all add: unat_of_nat word_less_nat_alt)
  have "map_of fs name = Some (snd (fs ! k))"
    using i(1) k(1,2) by (metis map_of_eq_Some_iff mr_rep_def nth_mem prod.collapse)
  then have f: "TVMFuncRegistry_GetByIndex (mr_registry reg) (of_nat k) = Some (kTvmErrorNoError, Some f)"
    using GetByIndex_ok [OF i(1), of "of_nat k"] kw(1) k(1) name(2) by simp
  let ?h = "EncodeFunctionHandle (of_nat i) (of_nat k)"
  let ?pf = "TVMPackedFunc_SetArgs (pf_set_name (junk\<lparr>pf_fexec := ?h\<rparr>) (name @ [0])) args"
  have "TVMPackedFunc_InitModuleFunc junk hdl (name @ [0]) args rt = Some (0, ?pf, rt)"
    using module_lookup [OF i(3,4,6) k(3), of False] by (simp add: TVMPackedFunc_InitModuleFunc_def i(5))
  then show thesis
    using module_call [OF i(3,4,6) kw(2) f, of 1 im] ret
    by (intro that [of ?pf]) (simp_all add: TVMPackedFunc_Call_def TVMPackedFunc_SetArgs_def pf_set_name_def arr_get_def arr_set_def
        numeral_2_eq_2 del: TVMFuncCall.simps)
qed

section \<open>The arrays\<close>

text \<open>A description of an array that can be made, and the pages it takes.\<close>

definition info_ok :: "tensor_info \<Rightarrow> bool" where
  "info_ok info \<longleftrightarrow> good_shape (ti_shape info) (ti_dtype info) \<and> ti_shape info \<noteq> [] \<and> length (ti_shape info) \<le> 6
     \<and> (\<forall>d \<in> set (ti_shape info). d < 2 ^ 31) \<and> ti_num_shape info = int (length (ti_shape info))"

abbreviation info_bytes :: "tensor_info \<Rightarrow> nat" where
  "info_bytes info \<equiv> nat (array_bytes (ti_shape info) (ti_dtype info))"

definition info_pages :: "nat \<Rightarrow> tensor_info \<Rightarrow> nat" where
  "info_pages ps info = pages_of ps (8 * length (ti_shape info)) + pages_of ps (info_bytes info)"

definition arg_array :: "dl_device \<Rightarrow> bool \<Rightarrow> tensor_info \<Rightarrow> addr \<Rightarrow> addr \<Rightarrow> ndarray" where
  "arg_array dev counted info sp dp =
     \<lparr>arr_tensor = new_tensor dev (ti_shape info) (ti_dtype info) sp dp, reference_count = of_bool counted\<rparr>"

text \<open>An array in the bytes of the argument list, with its two blocks.\<close>

definition arg_held :: "aot_executor \<Rightarrow> (addr \<rightharpoonup> u8 list) \<Rightarrow> u8 list \<Rightarrow> bool \<times> tensor_info \<Rightarrow> nat \<Rightarrow> addr \<Rightarrow> bool" where
  "arg_held ax keep bs c i dp \<longleftrightarrow> dp \<noteq> ax_args ax \<and> keep dp = Some (replicate (info_bytes (snd c)) 0)
     \<and> (\<exists>sp. sp \<noteq> ax_args ax \<and> keep sp = Some (i64s_bytes (ti_shape (snd c)))
          \<and> take 48 (drop (48 * i) bs) = ndarray_bytes (arg_array (ax_device ax) (fst c) (snd c) sp dp)
          \<and> tensor_ok (arr_tensor (arg_array (ax_device ax) (fst c) (snd c) sp dp)))"

text \<open>The places from the \<open>k\<close>-th on are filled; nothing before them and no other block has changed.\<close>

definition filled :: "aot_executor \<Rightarrow> nat \<Rightarrow> (bool \<times> tensor_info) list \<Rightarrow> (addr \<rightharpoonup> u8 list) \<Rightarrow> u8 list
    \<Rightarrow> (addr \<rightharpoonup> u8 list) \<Rightarrow> u8 list \<Rightarrow> addr list \<Rightarrow> bool" where
  "filled ax k cs keep bs keep' bs' dps \<longleftrightarrow> keep (ax_args ax) = Some bs \<and> keep' (ax_args ax) = Some bs' \<and> length bs' = length bs
     \<and> (\<forall>q. q \<noteq> ax_args ax \<longrightarrow> keep q \<noteq> None \<longrightarrow> keep' q = keep q)
     \<and> (\<forall>off n. off + n \<le> 48 * k \<longrightarrow> take n (drop off bs') = take n (drop off bs))
     \<and> length dps = length cs \<and> distinct dps
     \<and> (\<forall>j < length cs. keep (dps ! j) = None \<and> arg_held ax keep' bs' (cs ! j) (k + j) (dps ! j))"

lemma filled_none: "keep (ax_args ax) = Some bs \<Longrightarrow> filled ax k [] keep bs keep bs []"
  by (simp add: filled_def)

lemma filled_append:
  assumes "filled ax k cs keep bs keep1 bs1 ds" and "filled ax (k + length cs) cs' keep1 bs1 keep2 bs2 ds'"
  shows "filled ax k (cs @ cs') keep bs keep2 bs2 (ds @ ds')"
proof -
  have a: "keep (ax_args ax) = Some bs" "keep1 (ax_args ax) = Some bs1" "length bs1 = length bs"
    "\<And>q. q \<noteq> ax_args ax \<Longrightarrow> keep q \<noteq> None \<Longrightarrow> keep1 q = keep q"
    "\<And>off n. off + n \<le> 48 * k \<Longrightarrow> take n (drop off bs1) = take n (drop off bs)"
    "length ds = length cs" "distinct ds" "\<And>j. j < length cs \<Longrightarrow> keep (ds ! j) = None"
    "\<And>j. j < length cs \<Longrightarrow> arg_held ax keep1 bs1 (cs ! j) (k + j) (ds ! j)"
    using assms(1) by (simp_all add: filled_def)
  have b: "keep2 (ax_args ax) = Some bs2" "length bs2 = length bs1" "\<And>q. q \<noteq> ax_args ax \<Longrightarrow> keep1 q \<noteq> None \<Longrightarrow> keep2 q = keep1 q"
    "\<And>off n. off + n \<le> 48 * (k + length cs) \<Longrightarrow> take n (drop off bs2) = take n (drop off bs1)"
    "length ds' = length cs'" "distinct ds'" "\<And>j. j < length cs' \<Longrightarrow> keep1 (ds' ! j) = None"
    "\<And>j. j < length cs' \<Longrightarrow> arg_held ax keep2 bs2 (cs' ! j) (k + length cs + j) (ds' ! j)"
    using assms(2) by (simp_all add: filled_def)
  have kept: "keep2 q = keep q" if "q \<noteq> ax_args ax" "keep q \<noteq> None" for q
    using a(4) [OF that] b(3) [OF that(1)] that(2) by simp
  have old: "keep x = None" if "keep1 x = None" for x
    using that a(2,4) by (cases "x = ax_args ax") (simp, metis)
  have first: "arg_held ax keep2 bs2 (cs ! j) (k + j) (ds ! j)" if "j < length cs" for j
  proof -
    have "48 * (k + j) + 48 \<le> 48 * (k + length cs)"
      using that by simp
    then have same: "take 48 (drop (48 * (k + j)) bs2) = take 48 (drop (48 * (k + j)) bs1)"
      by (rule b(4))
    have "keep2 q = keep1 q" if "q \<noteq> ax_args ax" "keep1 q = Some x" for q x
      using b(3) [OF that(1)] that(2) by simp
    then show ?thesis
      using a(9) [OF that] unfolding arg_held_def same by metis
  qed
  have "set ds \<inter> set ds' = {}"
  proof -
    have "keep1 x \<noteq> None" if x: "x \<in> set ds" for x
      using x a(6,9) by (fastforce simp: in_set_conv_nth arg_held_def)
    moreover have "keep1 x = None" if x: "x \<in> set ds'" for x
      using x b(5,7) by (auto simp: in_set_conv_nth)
    ultimately show ?thesis
      by blast
  qed
  moreover have "keep ((ds @ ds') ! j) = None \<and> arg_held ax keep2 bs2 ((cs @ cs') ! j) (k + j) ((ds @ ds') ! j)"
    if "j < length (cs @ cs')" for j
  proof (cases "j < length cs")
    case True
    then show ?thesis
      using a(6,8) first by (simp add: nth_append)
  next
    case False
    then have "j - length cs < length cs'" "k + length cs + (j - length cs) = k + j"
      using that by simp_all
    then show ?thesis
      using False a(6) b(7,8) [of "j - length cs"] old by (simp add: nth_append)
  qed
  moreover have "take n (drop off bs2) = take n (drop off bs)" if "off + n \<le> 48 * k" for off n
    using a(5) [OF that] b(4) [of off n] that by simp
  ultimately show ?thesis
    using a(1,3,6,7) b(1,2,5,6) kept unfolding filled_def by simp
qed

lemma patch_twice: "length x = length y \<Longrightarrow> off + length x \<le> length bs \<Longrightarrow> patch (patch bs off x) off y = patch bs off y"
  by (simp add: patch_def)

lemma aot_arg_in_block:
  assumes "owns ps r keep m" and "keep (ax_args ax) = Some bs" and "48 * k + 48 \<le> length bs"
  shows "aot_arg_at ax k = ax_args ax + int (48 * k)"
  using entry_in_block [OF assms(1,2), of 48 k] assms(3) by (simp add: aot_arg_at_def sizeof_NDArray_def)

lemma aot_array_ok:
  assumes o: "owns ps (info_pages ps info + r) keep (rt_machine rt)" and k: "keep (ax_args ax) = Some bs" "48 * k + 48 \<le> length bs"
    and ok: "info_ok info" and dev: "i32_ok (device_type (ax_device ax))" "i32_ok (device_id (ax_device ax))"
  obtains rt' keep' bs' dp where "\<And>infos i n. arr_get infos i = Some info \<Longrightarrow>
      aot_arrays_loop counted infos i (Suc n) ax k rt = aot_arrays_loop counted infos (i + 1) n ax (k + 1) rt'"
    "owns ps r keep' (rt_machine rt')" "rt' = rt\<lparr>rt_machine := rt_machine rt'\<rparr>" "filled ax k [(counted, info)] keep bs keep' bs' [dp]"
proof -
  let ?sh = "ti_shape info" and ?ty = "ti_dtype info" and ?at = "ax_args ax"
  have sh: "good_shape ?sh ?ty" "?sh \<noteq> []" "length ?sh \<le> 6" "to_i32 (ti_num_shape info) = int (length ?sh)"
    using ok by (simp_all add: info_ok_def to_i32_id)
  have o': "owns ps (pages_of ps (8 * length ?sh) + (pages_of ps (info_bytes info) + r)) keep (rt_machine rt)"
    using o by (simp add: info_pages_def add.assoc)
  obtain sp dp m where a: "TVMNDArray_Empty (rt_machine rt) (int (length ?sh)) ?sh ?ty (ax_device ax)
      = Some (0, \<lparr>arr_tensor = new_tensor (ax_device ax) ?sh ?ty sp dp, reference_count = 0\<rparr>, m)"
    "owns ps r (keep(sp \<mapsto> i64s_bytes ?sh, dp \<mapsto> replicate (info_bytes info) 0)) m"
    "keep sp = None" "keep dp = None" "sp \<noteq> dp" "0 < sp" "sp < 2 ^ 32" "0 < dp" "dp < 2 ^ 32"
    by (rule TVMNDArray_Empty_owns [OF o' sh(1), of ?sh "ax_device ax"]) (use sh(2,3) in simp_all)
  let ?k1 = "keep(sp \<mapsto> i64s_bytes ?sh, dp \<mapsto> replicate (info_bytes info) 0)" and ?rt = "rt\<lparr>rt_machine := m\<rparr>"
  let ?arr = "\<lambda>c. arg_array (ax_device ax) c info sp dp"
  have ne: "sp \<noteq> ?at" "dp \<noteq> ?at"
    using a(3,4) k(1) by auto
  have ad: "aot_arg_at ax k = ?at + int (48 * k)"
    by (rule aot_arg_in_block [OF o k])
  have inc: "TVMNDArray_IncrementReference (?arr False) = ?arr True"
    by (simp add: TVMNDArray_IncrementReference_def arg_array_def)
  define rt1 where "rt1 = rt_store (aot_arg_at ax k) (ndarray_bytes (?arr False)) ?rt"
  define rt' where "rt' = (if counted then rt_store (aot_arg_at ax k) (ndarray_bytes (?arr True)) rt1 else rt1)"
  let ?bs = "patch bs (48 * k) (ndarray_bytes (?arr counted))"
  have k1: "?k1 ?at = Some bs" and o1: "owns ps r ?k1 (rt_machine ?rt)"
    using ne k(1) a(2) by simp_all
  have s1: "owns ps r (?k1(?at \<mapsto> patch bs (48 * k) (ndarray_bytes (?arr False)))) (rt_machine rt1)"
    unfolding rt1_def by (rule rt_store_owns [OF o1 k1 _ ad]) (use k(2) in simp)
  have s2: "owns ps r (?k1(?at \<mapsto> ?bs)) (rt_machine rt')"
  proof (cases counted)
    case True
    have "owns ps r ((?k1(?at \<mapsto> patch bs (48 * k) (ndarray_bytes (?arr False))))(?at \<mapsto>
        patch (patch bs (48 * k) (ndarray_bytes (?arr False))) (48 * k) (ndarray_bytes (?arr True)))) (rt_machine rt')"
      unfolding rt'_def if_P [OF True] by (rule rt_store_owns [OF s1 _ _ ad]) (use k(2) in simp_all)
    then show ?thesis
      using True k(2) by (simp add: patch_twice)
  next
    case False
    then show ?thesis
      using s1 by (simp add: rt'_def)
  qed
  have "aot_arrays_loop counted infos i (Suc n) ax k rt = aot_arrays_loop counted infos (i + 1) n ax (k + 1) rt'"
    if "arr_get infos i = Some info" for infos i n
    using that a(1) sh(4) inc by (simp add: rt'_def rt1_def arg_array_def)
  moreover have "filled ax k [(counted, info)] keep bs (?k1(?at \<mapsto> ?bs)) ?bs [dp]"
  proof -
    have "take 48 (drop (48 * k) ?bs) = ndarray_bytes (?arr counted)"
      using patch_same [of "48 * k" "ndarray_bytes (?arr counted)" bs] k(2) by simp
    moreover have "tensor_ok (arr_tensor (?arr counted))"
      using tensor_ok_new [of sp dp "ax_device ax" ?sh ?ty] a(6-9) dev sh(3) by (simp add: arg_array_def)
    ultimately have "arg_held ax (?k1(?at \<mapsto> ?bs)) ?bs (counted, info) k dp"
      using ne a(5) by (auto simp: arg_held_def)
    moreover have "take j (drop off ?bs) = take j (drop off bs)" if "off + j \<le> 48 * k" for off j
      using patch_apart [of "48 * k" "ndarray_bytes (?arr counted)" bs off j] k(2) that by simp
    ultimately show ?thesis
      using k a(3,4) ne by (auto simp: filled_def)
  qed
  moreover have "rt' = rt\<lparr>rt_machine := rt_machine rt'\<rparr>"
    by (simp add: rt'_def rt1_def rt_store_def)
  ultimately show thesis
    using s2 by (intro that)
qed

lemma aot_arrays_ok:
  assumes "owns ps (sum_list (map (info_pages ps) xs) + r) keep (rt_machine rt)" and "keep (ax_args ax) = Some bs"
    and "48 * (k + length xs) \<le> length bs" and "\<forall>info \<in> set xs. info_ok info"
    and dev: "i32_ok (device_type (ax_device ax))" "i32_ok (device_id (ax_device ax))"
  shows "\<exists>rt' keep' bs' dps. aot_arrays_loop counted (pre @ xs) (length pre) (length xs) ax k rt = Some (0, k + length xs, rt')
    \<and> owns ps r keep' (rt_machine rt') \<and> rt' = rt\<lparr>rt_machine := rt_machine rt'\<rparr>
    \<and> filled ax k (map (Pair counted) xs) keep bs keep' bs' dps"
  using assms(1-4)
proof (induction xs arbitrary: pre k rt keep bs)
  case Nil
  then show ?case
    using filled_none [of keep ax bs k] by (intro exI [of _ rt] exI [of _ keep] exI [of _ bs] exI [of _ "[]"]) simp
next
  case (Cons info xs)
  have o: "owns ps (info_pages ps info + (sum_list (map (info_pages ps) xs) + r)) keep (rt_machine rt)"
    using Cons.prems(1) by (simp add: add.assoc)
  obtain rt1 keep1 bs1 dp where st: "\<And>infos i n. arr_get infos i = Some info \<Longrightarrow>
      aot_arrays_loop counted infos i (Suc n) ax k rt = aot_arrays_loop counted infos (i + 1) n ax (k + 1) rt1"
    "owns ps (sum_list (map (info_pages ps) xs) + r) keep1 (rt_machine rt1)" "rt1 = rt\<lparr>rt_machine := rt_machine rt1\<rparr>"
    "filled ax k [(counted, info)] keep bs keep1 bs1 [dp]"
  proof (rule aot_array_ok [OF o Cons.prems(2) _ _ dev])
    show "48 * k + 48 \<le> length bs" "info_ok info"
      using Cons.prems(3,4) by simp_all
  qed (rule that)
  have "keep1 (ax_args ax) = Some bs1" "48 * (k + 1 + length xs) \<le> length bs1"
    using st(4) Cons.prems(3) by (simp_all add: filled_def)
  from Cons.IH [OF st(2) this, of "pre @ [info]"] obtain rt' keep' bs' dps where ih:
    "aot_arrays_loop counted (pre @ info # xs) (Suc (length pre)) (length xs) ax (k + 1) rt1 = Some (0, k + 1 + length xs, rt')"
    "owns ps r keep' (rt_machine rt')" "rt' = rt1\<lparr>rt_machine := rt_machine rt'\<rparr>"
    "filled ax (k + 1) (map (Pair counted) xs) keep1 bs1 keep' bs' dps"
    using Cons.prems(4) by auto
  have "filled ax k ([(counted, info)] @ map (Pair counted) xs) keep bs keep' bs' ([dp] @ dps)"
    by (rule filled_append [OF st(4)]) (use ih(4) in simp)
  moreover have "aot_arrays_loop counted (pre @ info # xs) (length pre) (length (info # xs)) ax k rt = Some (0, k + length (info # xs), rt')"
    using st(1) [of "pre @ info # xs" "length pre" "length xs"] ih(1) by (simp add: arr_get_def)
  moreover have "rt' = rt\<lparr>rt_machine := rt_machine rt'\<rparr>"
    using ih(3) st(3) by (metis runtime.surjective runtime.update_convs(1))
  ultimately show ?case
    using ih(2) by (intro exI [of _ rt'] exI [of _ keep'] exI [of _ bs'] exI [of _ "dp # dps"]) simp
qed

section \<open>Running the program\<close>

text \<open>The arguments of the main function; the places behind them hold what was on the stack.\<close>

definition main_args :: "aot_junk \<Rightarrow> aot_executor \<Rightarrow> nat \<Rightarrow> tvm_args" where
  "main_args junk ax n = (aj_args junk)
     \<lparr>arg_values := map (\<lambda>i. set_handle (arg_values (aj_args junk) ! i) (of_int (aot_arg_at ax i))) [0..<n] @ drop n (arg_values (aj_args junk)),
      arg_tcodes := replicate n kTVMDLTensorHandle @ drop n (arg_tcodes (aj_args junk)), values_count := n\<rparr>"

lemma run_args_fills:
  assumes "i + n \<le> length (arg_values args)" and "i + n \<le> length (arg_tcodes args)"
  shows "run_args ax i n args = Some (args
    \<lparr>arg_values := take i (arg_values args) @ map (\<lambda>j. set_handle (arg_values args ! j) (of_int (aot_arg_at ax j))) [i..<i + n] @ drop (i + n) (arg_values args),
     arg_tcodes := take i (arg_tcodes args) @ replicate n kTVMDLTensorHandle @ drop (i + n) (arg_tcodes args)\<rparr>)"
  using assms
proof (induction n arbitrary: i args)
  case (Suc n)
  let ?args = "args\<lparr>arg_values := (arg_values args)[i := set_handle (arg_values args ! i) (of_int (aot_arg_at ax i))],
      arg_tcodes := (arg_tcodes args)[i := kTVMDLTensorHandle]\<rparr>"
  have upt: "[i..<i + Suc n] = i # [Suc i..<Suc i + n]"
    by (simp add: upt_conv_Cons)
  have same: "map (\<lambda>j. set_handle (arg_values ?args ! j) (of_int (aot_arg_at ax j))) [Suc i..<Suc i + n]
      = map (\<lambda>j. set_handle (arg_values args ! j) (of_int (aot_arg_at ax j))) [Suc i..<Suc i + n]"
    by (intro map_cong) auto
  have "run_args ax i (Suc n) args = run_args ax (Suc i) n ?args"
    using Suc.prems by (simp add: arr_get_def arr_set_def)
  then show ?case
    using Suc.IH [of "Suc i" ?args] Suc.prems same unfolding upt by (simp add: take_Suc_conv_app_nth del: upt_Suc)
next
  case 0
  then show ?case
    by simp
qed

lemma aot_run_calls:
  assumes md: "mds (ax_metadata ax) = Some md" "length (md_mod_name md) < 107" and n: "ax_num_args ax = int n" "n \<le> 10"
    and m: "module_has rt (ax_module_handle ax) fs reg" and f: "cname (md_mod_name md @ lit ''___tvm_main__'')"
      "map_of fs (md_mod_name md @ lit ''___tvm_main__'') = Some f"
    and junk: "arg_values (pf_ret_value (aj_func junk)) = v # vs" "arg_tcodes (pf_ret_value (aj_func junk)) = t # ts"
      "length (arg_values (aj_args junk)) = 10" "length (arg_tcodes (aj_args junk)) = 10"
  shows "TVMAotExecutor_Run im mds junk ax rt = do {
      (r, _, _, rt2) \<leftarrow> call_pointer im f (Some (mr_registry reg)) (arg_values (main_args junk ax n)) (arg_tcodes (main_args junk ax n)) (int n)
        (set_handle v 0) kTVMNullptr rt;
      CHECK (r = 0);
      Some (0, rt2)
    }"
proof -
  have len: "strnlen (md_mod_name md) 120 + strnlen tvm_main_suffix 120 < 120"
    using md(2) by (simp add: strnlen_def tvm_main_suffix_def lit_def)
  have args: "run_args ax 0 n (aj_args junk) = Some ((main_args junk ax n)\<lparr>values_count := values_count (aj_args junk)\<rparr>)"
    using run_args_fills [of 0 n "aj_args junk" ax] junk(3,4) n(2) by (simp add: main_args_def)
  have cnt: "nat (int n mod 2 ^ 32) = n" "values_count (main_args junk ax n) = n"
    using n(2) by (simp_all add: main_args_def)
  obtain pf where pf: "TVMPackedFunc_InitModuleFunc (aj_func junk) (ax_module_handle ax) ((md_mod_name md @ tvm_main_suffix) @ [0])
      (main_args junk ax n) rt = Some (0, pf, rt)"
    "TVMPackedFunc_Call 2 im pf rt = do {
       (r, rv, rc, rt2) \<leftarrow> call_pointer im f (Some (mr_registry reg)) (arg_values (main_args junk ax n)) (arg_tcodes (main_args junk ax n))
         (int (values_count (main_args junk ax n))) (set_handle v 0) kTVMNullptr rt;
       Some (r, pf\<lparr>pf_ret_value := \<lparr>arg_values = rv # vs, arg_tcodes = rc # ts, values_count = 1\<rparr>\<rparr>, rt2)
     }"
    unfolding tvm_main_suffix_def by (rule named_func [OF m f junk(1,2)])
  have up: "(main_args junk ax n)\<lparr>values_count := n\<rparr> = main_args junk ax n"
    by (simp add: main_args_def)
  show ?thesis
    using md(1) len args n pf cnt
    by (simp add: up TVMAotExecutor_Run_def TVM_CRT_MAX_STRLEN_FUNCTION_NAME_def TVM_CRT_MAX_ARGS_def Let_def split_def bind_assoc
        del: run_args.simps split: option.split)
qed

section \<open>Creation\<close>

definition md_infos :: "tvm_metadata \<Rightarrow> tensor_info list" where
  "md_infos md = md_inputs md @ md_outputs md @ md_workspace_pools md"

text \<open>Metadata with correct counts and without constants, for a main function of one to ten arguments.\<close>

definition metadata_ok :: "tvm_metadata \<Rightarrow> bool" where
  "metadata_ok md \<longleftrightarrow> md_num_inputs md = int (length (md_inputs md)) \<and> md_num_outputs md = int (length (md_outputs md))
     \<and> md_num_workspace_pools md = int (length (md_workspace_pools md)) \<and> md_num_constant_pools md = 0
     \<and> (\<forall>info \<in> set (md_infos md). info_ok info) \<and> md_infos md \<noteq> [] \<and> length (md_infos md) \<le> 10
     \<and> length (md_mod_name md) < 107 \<and> cname (md_mod_name md)"

definition aot_pages :: "nat \<Rightarrow> tvm_metadata \<Rightarrow> nat" where
  "aot_pages ps md = pages_of ps 32 + (pages_of ps (48 * length (md_infos md)) + sum_list (map (info_pages ps) (md_infos md)))"

text \<open>The generated function returns the address of the metadata and changes nothing.\<close>

definition gives_metadata :: "image \<Rightarrow> u32 \<Rightarrow> mutable_func_registry \<Rightarrow> u32 \<Rightarrow> bool" where
  "gives_metadata im g reg h \<longleftrightarrow> (\<forall>args tcs n rv rc rt. \<exists>rc'.
     call_pointer im g (Some (mr_registry reg)) args tcs n rv rc rt = Some (0, set_handle rv h, rc', rt))"

text \<open>An argument after the creation: a tensor with the device, type and shape of its description, and a block of zeros.\<close>

definition arg_ready :: "dl_device \<Rightarrow> tensor_info \<Rightarrow> (addr \<rightharpoonup> u8 list) \<Rightarrow> ram \<Rightarrow> addr \<Rightarrow> addr \<Rightarrow> bool" where
  "arg_ready dev info keep r a dp \<longleftrightarrow>
     (let t = load_tensor r a
      in dt_data t = dp \<and> dt_device t = dev \<and> dt_dtype t = ti_dtype info \<and> tensor_shape r t = ti_shape info
       \<and> keep dp = Some (replicate (info_bytes info) 0))"

lemma arg_held_ready:
  assumes o: "owns ps r keep m" and k: "keep (ax_args ax) = Some bs" "48 * i + 48 \<le> length bs"
    and h: "arg_held ax keep bs (c, info) i dp" and ok: "info_ok info"
  shows "arg_ready (ax_device ax) info keep (ram m) (aot_arg_at ax i) dp"
proof -
  let ?arr = "\<lambda>sp. arg_array (ax_device ax) c info sp dp"
  obtain sp where sp: "keep sp = Some (i64s_bytes (ti_shape info))" "take 48 (drop (48 * i) bs) = ndarray_bytes (?arr sp)"
    "tensor_ok (arr_tensor (?arr sp))"
    using h by (auto simp: arg_held_def)
  have "load_bytes (ram m) (aot_arg_at ax i) 40 = take 40 (take 48 (drop (48 * i) bs))"
    unfolding aot_arg_in_block [OF o k] using owns_load [OF o k(1), of "48 * i" 40] k(2) by simp
  then have "load_bytes (ram m) (aot_arg_at ax i) 40 = tensor_bytes (arr_tensor (?arr sp))"
    unfolding sp(2) by (simp add: ndarray_bytes_def)
  then have t: "load_tensor (ram m) (aot_arg_at ax i) = new_tensor (ax_device ax) (ti_shape info) (ti_dtype info) sp dp"
    using load_tensor_image [OF sp(3)] by (simp add: arg_array_def)
  have "load_bytes (ram m) sp (8 * length (ti_shape info)) = i64s_bytes (ti_shape info)"
    using owns_load_all [OF o sp(1)] by simp
  then have "tensor_shape (ram m) (new_tensor (ax_device ax) (ti_shape info) (ti_dtype info) sp dp) = ti_shape info"
    using ok by (intro tensor_shape_stored) (simp_all add: info_ok_def)
  then show ?thesis
    using t h by (simp add: arg_ready_def arg_held_def)
qed

text \<open>The three groups of arrays, one after the other.\<close>

lemma aot_groups_ok:
  assumes o: "owns ps (sum_list (map (info_pages ps) (md_infos md)) + r) keep (rt_machine rt)" and ok: "metadata_ok md"
    and k: "keep (ax_args ax) = Some bs" "length bs = 48 * length (md_infos md)"
    and dev: "i32_ok (device_type (ax_device ax))" "i32_ok (device_id (ax_device ax))"
  obtains rt1 rt2 rt' keep' bs' dps where
    "aot_arrays_loop True (md_inputs md) 0 (length (md_inputs md)) ax 0 rt = Some (0, length (md_inputs md), rt1)"
    "aot_arrays_loop True (md_outputs md) 0 (length (md_outputs md)) ax (length (md_inputs md)) rt1
       = Some (0, length (md_inputs md) + length (md_outputs md), rt2)"
    "aot_arrays_loop False (md_workspace_pools md) 0 (length (md_workspace_pools md)) ax (length (md_inputs md) + length (md_outputs md)) rt2
       = Some (0, length (md_infos md), rt')"
    "owns ps r keep' (rt_machine rt')" "rt' = rt\<lparr>rt_machine := rt_machine rt'\<rparr>"
    "filled ax 0 (map (Pair True) (md_inputs md @ md_outputs md) @ map (Pair False) (md_workspace_pools md)) keep bs keep' bs' dps"
proof -
  let ?a = "md_inputs md" and ?b = "md_outputs md" and ?c = "md_workspace_pools md" and ?p = "\<lambda>xs. sum_list (map (info_pages ps) xs)"
  have infos: "\<forall>info \<in> set ?a. info_ok info" "\<forall>info \<in> set ?b. info_ok info" "\<forall>info \<in> set ?c. info_ok info"
    using ok by (simp_all add: metadata_ok_def md_infos_def)
  have o1: "owns ps (?p ?a + (?p ?b + (?p ?c + r))) keep (rt_machine rt)"
    using o by (simp add: md_infos_def add.assoc)
  have len: "48 * (0 + length ?a) \<le> length bs"
    using k(2) by (simp add: md_infos_def)
  obtain rt1 keep1 bs1 ds1 where l1: "aot_arrays_loop True ?a 0 (length ?a) ax 0 rt = Some (0, length ?a, rt1)"
    "owns ps (?p ?b + (?p ?c + r)) keep1 (rt_machine rt1)" "rt1 = rt\<lparr>rt_machine := rt_machine rt1\<rparr>"
    "filled ax 0 (map (Pair True) ?a) keep bs keep1 bs1 ds1"
    using aot_arrays_ok [OF o1 k(1) len infos(1) dev, of True "[]"] by auto
  have k1: "keep1 (ax_args ax) = Some bs1" "length bs1 = length bs"
    using l1(4) by (simp_all add: filled_def)
  have len1: "48 * (length ?a + length ?b) \<le> length bs1"
    using k(2) k1(2) by (simp add: md_infos_def)
  obtain rt2 keep2 bs2 ds2 where l2: "aot_arrays_loop True ?b 0 (length ?b) ax (length ?a) rt1 = Some (0, length ?a + length ?b, rt2)"
    "owns ps (?p ?c + r) keep2 (rt_machine rt2)" "rt2 = rt1\<lparr>rt_machine := rt_machine rt2\<rparr>"
    "filled ax (length ?a) (map (Pair True) ?b) keep1 bs1 keep2 bs2 ds2"
    using aot_arrays_ok [OF l1(2) k1(1) len1 infos(2) dev, of True "[]"] by auto
  have k2: "keep2 (ax_args ax) = Some bs2" "length bs2 = length bs"
    using l2(4) k1(2) by (simp_all add: filled_def)
  have len2: "48 * (length ?a + length ?b + length ?c) \<le> length bs2"
    using k(2) k2(2) by (simp add: md_infos_def)
  obtain rt' keep' bs' ds3 where l3: "aot_arrays_loop False ?c 0 (length ?c) ax (length ?a + length ?b) rt2
      = Some (0, length ?a + length ?b + length ?c, rt')"
    "owns ps r keep' (rt_machine rt')" "rt' = rt2\<lparr>rt_machine := rt_machine rt'\<rparr>"
    "filled ax (length ?a + length ?b) (map (Pair False) ?c) keep2 bs2 keep' bs' ds3"
    using aot_arrays_ok [OF l2(2) k2(1) len2 infos(3) dev, of False "[]"] by auto
  have "filled ax 0 (map (Pair True) (?a @ ?b)) keep bs keep2 bs2 (ds1 @ ds2)"
    using filled_append [OF l1(4), of "map (Pair True) ?b"] l2(4) by simp
  from filled_append [OF this, of "map (Pair False) ?c"] l3(4)
  have "filled ax 0 (map (Pair True) (?a @ ?b) @ map (Pair False) ?c) keep bs keep' bs' ((ds1 @ ds2) @ ds3)"
    by simp
  moreover have "rt' = rt\<lparr>rt_machine := rt_machine rt'\<rparr>"
    using l1(3) l2(3) l3(3) by (metis runtime.surjective runtime.update_convs(1))
  ultimately show thesis
    using l1(1) l2(1) l3(1,2) by (intro that) (simp_all add: md_infos_def add.assoc)
qed

lemma Init_ready:
  assumes md: "metadata_ok md" "mds h = Some md" and m: "module_has rt hdl fs reg"
    and name: "cname (tvmgen_prefix @ name @ get_c_metdata_suffix)" "length name < 98"
    and g: "map_of fs (tvmgen_prefix @ name @ get_c_metdata_suffix) = Some g" "gives_metadata im g reg h"
    and dev: "i32_ok (device_type dev)" "i32_ok (device_id dev)"
    and junk: "arg_values (pf_ret_value (aj_func junk)) = v # vs" "arg_tcodes (pf_ret_value (aj_func junk)) = t # ts"
    and o: "owns ps (pages_of ps (48 * length (md_infos md)) + (sum_list (map (info_pages ps) (md_infos md)) + r)) keep (rt_machine rt)"
  obtains a ax rt' keep' dps where "TVMAotExecutor_Init im mds junk blank_aot hdl dev name rt = Some (0, ax, rt')"
    "ax = \<lparr>ax_metadata = h, ax_module_handle = hdl, ax_device = dev, ax_args = a, ax_num_args = int (length (md_infos md))\<rparr>"
    "owns ps r keep' (rt_machine rt')" "keep \<subseteq>\<^sub>m keep'" "distinct dps" "set dps \<inter> dom keep = {}"
    "\<And>i. i < length (md_infos md) \<Longrightarrow> arg_ready dev (md_infos md ! i) keep' (rt_ram rt') (aot_arg_at ax i) (dps ! i)"
proof -
  let ?n = "length (md_infos md)" and ?args = "(aj_args junk)\<lparr>values_count := 0\<rparr>"
  have n: "0 < 48 * ?n" "48 * ?n < 2 ^ 31" "?n \<le> 10" "?n = length (md_inputs md) + length (md_outputs md) + length (md_workspace_pools md)"
    using md(1) by (auto simp: metadata_ok_def md_infos_def)
  have counts: "to_i64 (to_i64 (md_num_inputs md + md_num_outputs md) + md_num_workspace_pools md) = int ?n"
    "to_size (int ?n * int sizeof_NDArray) = 48 * ?n"
    "nat (md_num_inputs md) = length (md_inputs md)" "nat (md_num_outputs md) = length (md_outputs md)"
    "nat (md_num_workspace_pools md) = length (md_workspace_pools md)" "md_num_constant_pools md = 0"
    using md(1) n(3,4) by (simp_all add: metadata_ok_def to_i64_id to_size_id sizeof_NDArray_def)
  obtain pf where pf: "TVMPackedFunc_InitModuleFunc (aj_func junk) hdl ((tvmgen_prefix @ name @ get_c_metdata_suffix) @ [0]) ?args rt = Some (0, pf, rt)"
    "TVMPackedFunc_Call 2 im pf rt = do {
       (r, rv, rc, rt2) \<leftarrow> call_pointer im g (Some (mr_registry reg)) (arg_values ?args) (arg_tcodes ?args) (int (values_count ?args))
         (set_handle v 0) kTVMNullptr rt;
       Some (r, pf\<lparr>pf_ret_value := \<lparr>arg_values = rv # vs, arg_tcodes = rc # ts, values_count = 1\<rparr>\<rparr>, rt2)
     }"
    by (rule named_func [OF m name(1) g(1) junk])
  obtain rc where rc: "call_pointer im g (Some (mr_registry reg)) (arg_values ?args) (arg_tcodes ?args) (int (values_count ?args))
         (set_handle v 0) kTVMNullptr rt = Some (0, set_handle (set_handle v 0) h, rc, rt)"
    using g(2) unfolding gives_metadata_def by blast
  have len: "strnlen tvmgen_prefix 120 + strnlen name 120 + strnlen get_c_metdata_suffix 120 < 120"
    using name(2) by (simp add: strnlen_def tvmgen_prefix_def get_c_metdata_suffix_def lit_def)
  obtain a rt1 bs where al: "rt_alloc (48 * ?n) rt = Some (kTvmErrorNoError, a, rt1)"
    "owns ps (sum_list (map (info_pages ps) (md_infos md)) + r) (keep(a \<mapsto> bs)) (rt_machine rt1)" "keep a = None" "length bs = 48 * ?n"
    "rt1 = rt\<lparr>rt_machine := rt_machine rt1\<rparr>"
    by (rule rt_alloc_owns [OF o n(1,2)])
  let ?ax = "\<lparr>ax_metadata = h, ax_module_handle = hdl, ax_device = dev, ax_args = a, ax_num_args = int ?n\<rparr>"
  have k: "(keep(a \<mapsto> bs)) (ax_args ?ax) = Some bs" "i32_ok (device_type (ax_device ?ax))" "i32_ok (device_id (ax_device ?ax))"
    using dev by simp_all
  obtain rt2 rt3 rt' keep' bs' dps where l:
    "aot_arrays_loop True (md_inputs md) 0 (length (md_inputs md)) ?ax 0 rt1 = Some (0, length (md_inputs md), rt2)"
    "aot_arrays_loop True (md_outputs md) 0 (length (md_outputs md)) ?ax (length (md_inputs md)) rt2
       = Some (0, length (md_inputs md) + length (md_outputs md), rt3)"
    "aot_arrays_loop False (md_workspace_pools md) 0 (length (md_workspace_pools md)) ?ax (length (md_inputs md) + length (md_outputs md)) rt3
       = Some (0, ?n, rt')"
    "owns ps r keep' (rt_machine rt')" "rt' = rt1\<lparr>rt_machine := rt_machine rt'\<rparr>"
    "filled ?ax 0 (map (Pair True) (md_inputs md @ md_outputs md) @ map (Pair False) (md_workspace_pools md)) (keep(a \<mapsto> bs)) bs keep' bs' dps"
    by (rule aot_groups_ok [OF al(2) md(1) k(1) al(4) k(2,3)])
  let ?cs = "map (Pair True) (md_inputs md @ md_outputs md) @ map (Pair False) (md_workspace_pools md)"
  have cs: "length ?cs = ?n" "map snd ?cs = md_infos md"
    using n(4) by (simp_all add: md_infos_def comp_def)
  have fl: "keep' a = Some bs'" "length bs' = 48 * ?n" "\<And>q. q \<noteq> a \<Longrightarrow> keep q \<noteq> None \<Longrightarrow> keep' q = keep q" "length dps = ?n" "distinct dps"
    "\<And>j. j < ?n \<Longrightarrow> keep (dps ! j) = None" "\<And>j. j < ?n \<Longrightarrow> arg_held ?ax keep' bs' (?cs ! j) j (dps ! j)"
    using l(6) al(3,4) cs(1) by (auto simp: filled_def split: if_splits)
  have ready: "arg_ready dev (md_infos md ! i) keep' (rt_ram rt') (aot_arg_at ?ax i) (dps ! i)" if i: "i < ?n" for i
  proof -
    obtain c where c: "?cs ! i = (c, md_infos md ! i)"
      using cs i by (metis nth_map prod.collapse)
    have "keep' (ax_args ?ax) = Some bs'" "48 * i + 48 \<le> length bs'" "info_ok (md_infos md ! i)"
      using fl(1,2) i md(1) by (simp_all add: metadata_ok_def)
    from arg_held_ready [OF l(4) this(1,2) _ this(3), of c "dps ! i"] show ?thesis
      using fl(7) [OF i] c by simp
  qed
  have le: "keep \<subseteq>\<^sub>m keep'"
    using fl(3) al(3) by (auto simp: map_le_def dom_def) (metis option.distinct(1))
  have fresh: "set dps \<inter> dom keep = {}"
    using fl(4,6) by (fastforce simp: in_set_conv_nth)
  have run: "TVMAotExecutor_Init im mds junk blank_aot hdl dev name rt = Some (0, ?ax, rt')"
    using len pf rc al(1) l(1-3) counts md(2)
    by (simp add: TVMAotExecutor_Init_def blank_aot_def TVM_CRT_MAX_STRLEN_FUNCTION_NAME_def Let_def arr_get_def)
  show thesis
    by (rule that [OF run refl l(4) le fl(5) fresh ready])
qed

text \<open>
  C5. With room in the heap, the executor of a compiled program is made from its metadata: for every
  input, output and workspace pool there is a tensor with the described type and shape and a new block of
  zeros, all blocks different, and what other parts keep in their blocks stays. From then on, in every
  state of the runtime that still has the module, a run calls the main function of the program once, with
  these tensors in the order inputs, outputs, pools, and succeeds when that function does.
\<close>
theorem aot_program_runs:
  assumes "metadata_ok md" and "mds h = Some md" and "module_has rt hdl fs reg"
    and "cname (lit ''tvmgen_'' @ name @ lit ''_get_c_metadata'')" and "length name < 98"
    and "map_of fs (lit ''tvmgen_'' @ name @ lit ''_get_c_metadata'') = Some g" and "gives_metadata im g reg h"
    and "map_of fs (md_mod_name md @ lit ''___tvm_main__'') = Some f"
    and "i32_ok (device_type dev)" and "i32_ok (device_id dev)"
    and "arg_values (pf_ret_value (aj_func junk)) = v # vs" and "arg_tcodes (pf_ret_value (aj_func junk)) = t # ts"
    and "length (arg_values (aj_args junk)) = 10" and "length (arg_tcodes (aj_args junk)) = 10"
    and "owns ps (aot_pages ps md + r) keep (rt_machine rt)"
  shows "\<exists>p ax rt' keep' dps. TVMAotExecutor_Create im mds junk hdl dev name rt = Some (0, p, Some ax, rt')
    \<and> owns ps r keep' (rt_machine rt') \<and> keep \<subseteq>\<^sub>m keep' \<and> distinct dps \<and> set dps \<inter> dom keep = {}
    \<and> (\<forall>i < length (md_infos md). arg_ready dev (md_infos md ! i) keep' (rt_ram rt') (aot_arg_at ax i) (dps ! i))
    \<and> (\<forall>rt1. module_has rt1 hdl fs reg \<longrightarrow> TVMAotExecutor_Run im mds junk ax rt1 = do {
         (r, _, _, rt2) \<leftarrow> call_pointer im f (Some (mr_registry reg)) (arg_values (main_args junk ax (length (md_infos md))))
           (arg_tcodes (main_args junk ax (length (md_infos md)))) (int (length (md_infos md))) (set_handle v 0) kTVMNullptr rt1;
         CHECK (r = 0);
         Some (0, rt2)
       })"
proof -
  have o: "owns ps (pages_of ps 32 + (pages_of ps (48 * length (md_infos md)) + (sum_list (map (info_pages ps) (md_infos md)) + r))) keep (rt_machine rt)"
    using assms(15) by (simp add: aot_pages_def add.assoc)
  obtain p rt0 bs where a: "rt_alloc 32 rt = Some (kTvmErrorNoError, p, rt0)"
    "owns ps (pages_of ps (48 * length (md_infos md)) + (sum_list (map (info_pages ps) (md_infos md)) + r)) (keep(p \<mapsto> bs)) (rt_machine rt0)"
    "keep p = None" "rt0 = rt\<lparr>rt_machine := rt_machine rt0\<rparr>"
    by (rule rt_alloc_owns [OF o]) simp_all
  have m0: "module_has rt0 hdl fs reg"
    by (subst a(4)) (use assms(3) in \<open>simp add: module_has_def\<close>)
  obtain at' ax rt' keep' dps where i: "TVMAotExecutor_Init im mds junk blank_aot hdl dev name rt0 = Some (0, ax, rt')"
    "ax = \<lparr>ax_metadata = h, ax_module_handle = hdl, ax_device = dev, ax_args = at', ax_num_args = int (length (md_infos md))\<rparr>"
    "owns ps r keep' (rt_machine rt')" "keep(p \<mapsto> bs) \<subseteq>\<^sub>m keep'" "distinct dps" "set dps \<inter> dom (keep(p \<mapsto> bs)) = {}"
    "\<And>i. i < length (md_infos md) \<Longrightarrow> arg_ready dev (md_infos md ! i) keep' (rt_ram rt') (aot_arg_at ax i) (dps ! i)"
    by (rule Init_ready [where mds = mds and h = h, OF assms(1,2) m0 _ assms(5) _ assms(7,9-12) a(2)]) (use assms(4,6) in \<open>simp_all add: tvmgen_prefix_def get_c_metdata_suffix_def\<close>)
  have run: "TVMAotExecutor_Run im mds junk ax rt1 = do {
         (r, _, _, rt2) \<leftarrow> call_pointer im f (Some (mr_registry reg)) (arg_values (main_args junk ax (length (md_infos md))))
           (arg_tcodes (main_args junk ax (length (md_infos md)))) (int (length (md_infos md))) (set_handle v 0) kTVMNullptr rt1;
         CHECK (r = 0);
         Some (0, rt2)
       }" if "module_has rt1 hdl fs reg" for rt1
    using assms(1,2,8) i(2) that
    by (intro aot_run_calls [OF _ _ _ _ _ _ _ assms(11-14)]) (simp_all add: metadata_ok_def cname_def lit_def)
  have "TVMAotExecutor_Create im mds junk hdl dev name rt = Some (0, p, Some ax, rt')"
    using a(1) i(1) by (simp add: TVMAotExecutor_Create_def sizeof_AotExecutor_def)
  moreover have "keep \<subseteq>\<^sub>m keep'" "set dps \<inter> dom keep = {}"
    using i(4,6) a(3) by (auto simp: map_le_def dom_def split: if_splits)
  ultimately show ?thesis
    using i(3,5,7) run by (intro exI [of _ p] exI [of _ ax] exI [of _ rt'] exI [of _ keep'] exI [of _ dps]) simp
qed

text \<open>A program with one input and one output of four floats.\<close>

definition net_info :: "string \<Rightarrow> tensor_info" where
  "net_info s = \<lparr>ti_name = lit s, ti_shape = [1, 4], ti_num_shape = 2, ti_dtype = f32\<rparr>"

definition net_metadata :: tvm_metadata where
  "net_metadata = \<lparr>md_version = 1, md_inputs = [net_info ''x''], md_num_inputs = 1, md_outputs = [net_info ''y''], md_num_outputs = 1,
     md_workspace_pools = [], md_num_workspace_pools = 0, md_num_constant_pools = 0, md_mod_name = lit ''tvmgen_net''\<rparr>"

abbreviation net_funcs :: "(u8 list \<times> u32) list" where
  "net_funcs \<equiv> [(lit ''tvmgen_net_get_c_metadata'', 0x2000), (lit ''tvmgen_net___tvm_main__'', 0x2004)]"

definition net_registry :: mutable_func_registry where
  "net_registry = \<lparr>mr_buffer = [2, 0] @ lit ''tvmgen_net_get_c_metadata'' @ 0 # lit ''tvmgen_net___tvm_main__'' @ [0, 0, 0, 0x20, 0, 0, 4, 0x20, 0, 0],
     mr_funcs = 53, mr_max_functions = 2\<rparr>"

definition net_image :: image where
  "net_image = bare_image\<lparr>ops := (\<lambda>f res args tcs n rv rc rt. Some (0, if f = 0x2000 then set_handle rv 0x3000 else rv, rc, rt))\<rparr>"

definition net_runtime :: runtime where
  "net_runtime = graph_runtime\<lparr>registered_modules := [None, Some (mr_registry net_registry), None, None, None, None]\<rparr>"

lemma net_registry_rep: "mr_rep net_registry net_funcs"
  by (rule mr_repI [where gap = "[]" and fs = "[0, 0x20, 0, 0, 4, 0x20, 0, 0]"])
    (simp_all add: net_registry_def names_ok_def cname_def lit_def le_bytes_2)

lemma aot_program_runs_witness:
  "\<exists>p ax rt' keep' dps. TVMAotExecutor_Create net_image [0x3000 \<mapsto> net_metadata] \<lparr>aj_func = null_op, aj_args = zero_args\<rparr> (EncodeModuleHandle 1)
       \<lparr>device_type = 1, device_id = 0\<rparr> (lit ''net'') net_runtime = Some (0, p, Some ax, rt')
    \<and> owns 256 300 keep' (rt_machine rt')
    \<and> arg_ready \<lparr>device_type = 1, device_id = 0\<rparr> (net_info ''x'') keep' (rt_ram rt') (aot_arg_at ax 0) (dps ! 0)
    \<and> arg_ready \<lparr>device_type = 1, device_id = 0\<rparr> (net_info ''y'') keep' (rt_ram rt') (aot_arg_at ax 1) (dps ! 1)
    \<and> TVMAotExecutor_Run net_image [0x3000 \<mapsto> net_metadata] \<lparr>aj_func = null_op, aj_args = zero_args\<rparr> ax net_runtime = Some (0, net_runtime)"
proof -
  have good: "good_shape [1, 4] f32" "array_bytes [1, 4] f32 = 16"
    by (simp_all add: good_shape_def array_bytes_def f32_def)
  have infos: "md_infos net_metadata = [net_info ''x'', net_info ''y'']"
    by (simp add: md_infos_def net_metadata_def)
  have md: "metadata_ok net_metadata"
    unfolding metadata_ok_def infos using good by (simp add: net_metadata_def net_info_def info_ok_def lit_def cname_def)
  have m: "module_has net_runtime (EncodeModuleHandle 1) net_funcs net_registry"
    by (auto simp: module_has_def net_registry_rep net_runtime_def intro!: exI [of _ "1 :: nat"])
  have gives: "gives_metadata net_image 0x2000 net_registry 0x3000"
    by (simp add: gives_metadata_def call_pointer_def net_image_def bare_image_def)
  have "owns 256 (6 + 300) Map.empty (rt_machine net_runtime)"
    using graph_runtime_owns [of 6] by (simp add: net_runtime_def)
  moreover have "aot_pages 256 net_metadata = 6"
    unfolding aot_pages_def infos using good by (simp add: net_info_def info_pages_def pages_of_def)
  ultimately have o: "owns 256 (aot_pages 256 net_metadata + 300) Map.empty (rt_machine net_runtime)"
    by simp
  have main: "call_pointer net_image 0x2004 res args tcs n rv rc rt = Some (0, rv, rc, rt)" for res args tcs n rv rc rt
    by (simp add: call_pointer_def net_image_def bare_image_def)
  let ?junk = "\<lparr>aj_func = null_op, aj_args = zero_args\<rparr>" and ?dev = "\<lparr>device_type = 1, device_id = 0\<rparr>"
  have junk: "arg_values (pf_ret_value (aj_func ?junk)) = 0 # replicate 9 0" "arg_tcodes (pf_ret_value (aj_func ?junk)) = 0 # replicate 9 0"
    "length (arg_values (aj_args ?junk)) = 10" "length (arg_tcodes (aj_args ?junk)) = 10"
    by (simp_all add: null_op_def zero_args_def TVM_CRT_MAX_ARGS_def numeral_eq_Suc)
  have names: "cname (lit ''tvmgen_'' @ lit ''net'' @ lit ''_get_c_metadata'')" "length (lit ''net'') < 98"
    "map_of net_funcs (lit ''tvmgen_'' @ lit ''net'' @ lit ''_get_c_metadata'') = Some 0x2000"
    "map_of net_funcs (md_mod_name net_metadata @ lit ''___tvm_main__'') = Some 0x2004"
    by (simp_all add: cname_def lit_def net_metadata_def)
  have dev: "i32_ok (device_type ?dev)" "i32_ok (device_id ?dev)"
    by (simp_all add: i32_ok_def)
  have mds: "[0x3000 \<mapsto> net_metadata] 0x3000 = Some net_metadata"
    by simp
  obtain p ax rt' keep' dps where r: "TVMAotExecutor_Create net_image [0x3000 \<mapsto> net_metadata] ?junk (EncodeModuleHandle 1) ?dev (lit ''net'') net_runtime
      = Some (0, p, Some ax, rt')" "owns 256 300 keep' (rt_machine rt')" "distinct dps"
    "\<forall>i < length (md_infos net_metadata). arg_ready ?dev (md_infos net_metadata ! i) keep' (rt_ram rt') (aot_arg_at ax i) (dps ! i)"
    "\<forall>rt1. module_has rt1 (EncodeModuleHandle 1) net_funcs net_registry \<longrightarrow>
       TVMAotExecutor_Run net_image [0x3000 \<mapsto> net_metadata] ?junk ax rt1 = Some (0, rt1)"
    using aot_program_runs [where mds = "[0x3000 \<mapsto> net_metadata]" and h = "0x3000", OF md mds m names(1,2,3) gives names(4) dev junk o]
    by (auto simp: main)
  show ?thesis
    using r m infos by (intro exI [of _ p] exI [of _ ax] exI [of _ rt'] exI [of _ keep'] exI [of _ dps]) auto
qed
end
