(* ===== verification/Executor_Modules.thy ===== *)
theory Executor_Modules
  imports Aot_Executor Minrpc_Server
begin

text \<open>
  The executors as modules for the host, \<^verbatim>\<open>aot_executor_module/aot_executor_module.c\<close> and
  \<^verbatim>\<open>graph_executor_module/graph_executor_module.c\<close>: one executor each, in a static variable, with packed
  functions over it.
\<close>

section \<open>The static variables\<close>

text \<open>The pointer to the executor with the executor it points to, \<open>None\<close> for a null pointer.\<close>

record 'e executor_module =
  em_registry :: func_registry
  em_executor :: "(addr \<times> 'e) option"

type_synonym 'e module_func =
  "tvm_value list \<Rightarrow> int list \<Rightarrow> int \<Rightarrow> tvm_value \<Rightarrow> int \<Rightarrow> 'e executor_module \<Rightarrow> runtime
   \<Rightarrow> (int \<times> tvm_value \<times> int \<times> 'e executor_module \<times> runtime) option"

text \<open>An error code leaves the result as it is.\<close>

abbreviation refuse :: "tvm_crt_error \<Rightarrow> tvm_value \<Rightarrow> int \<Rightarrow> 'e executor_module \<Rightarrow> runtime
    \<Rightarrow> (int \<times> tvm_value \<times> int \<times> 'e executor_module \<times> runtime) option" where
  "refuse e rv rc em rt \<equiv> Some (tvm_crt_error_code e, rv, rc, em, rt)"

text \<open>A string argument, without its terminator.\<close>

definition v_str :: "runtime \<Rightarrow> tvm_value \<Rightarrow> u8 list option" where
  "v_str rt v = do {
     s \<leftarrow> c_string (rt_ram rt) (uint (v_handle v));
     Some (butlast s)
   }"

text \<open>The count of an array in memory goes up.\<close>

definition increment_at :: "addr \<Rightarrow> runtime \<Rightarrow> runtime" where
  "increment_at a rt =
     rt_store (a + 40) (le_bytes 4 (unat (reference_count (TVMNDArray_IncrementReference (load_ndarray (rt_ram rt) a))))) rt"

section \<open>The module of the compiled program\<close>

text \<open>Where the linker has put the functions.\<close>

record aot_addresses =
  at_aot_GetInput :: u32
  at_aot_GetInputIndex :: u32
  at_aot_NotImplemented :: u32
  at_aot_GetNumInputs :: u32
  at_aot_GetNumOutputs :: u32
  at_aot_GetOutput :: u32
  at_aot_Run :: u32

definition module_names :: "u8 list" where
  "module_names = c_str ''get_input'' @ c_str ''get_input_index'' @ c_str ''get_input_info'' @ c_str ''get_num_inputs''
     @ c_str ''get_num_outputs'' @ c_str ''get_output'' @ c_str ''load_params'' @ c_str ''run'' @ c_str ''set_input'' @ c_str ''share_params''"

definition aot_executor_registry_funcs :: "aot_addresses \<Rightarrow> u32 list" where
  "aot_executor_registry_funcs ad = [at_aot_GetInput ad, at_aot_GetInputIndex ad, at_aot_NotImplemented ad, at_aot_GetNumInputs ad,
     at_aot_GetNumOutputs ad, at_aot_GetOutput ad, at_aot_NotImplemented ad, at_aot_Run ad, at_aot_NotImplemented ad, at_aot_NotImplemented ad]"

definition aot_executor_registry :: "aot_addresses \<Rightarrow> func_registry" where
  "aot_executor_registry ad = \<lparr>fr_names = [10, 0] @ module_names @ [0], fr_funcs = aot_executor_registry_funcs ad\<rparr>"

definition aot_executor_start :: "aot_addresses \<Rightarrow> aot_executor executor_module" where
  "aot_executor_start ad = \<lparr>em_registry = aot_executor_registry ad, em_executor = None\<rparr>"

text \<open>The status of the creation is not looked at; the executor may not exist or not be complete.\<close>

definition TVMAotExecutorModule_Create :: "image \<Rightarrow> metadata_at \<Rightarrow> aot_junk \<Rightarrow> aot_executor module_func" where
  "TVMAotExecutorModule_Create im mds junk args tcodes nargs rv rc em rt =
     (if em_executor em \<noteq> None then refuse kTvmErrorExecutorModuleAlreadyCreated rv rc em rt
      else if nargs \<noteq> 3 then refuse kTvmErrorFunctionCallNumArguments rv rc em rt
      else do {
        tcs \<leftarrow> mem_read tcodes 0 3;
        if tcs \<noteq> [kTVMModuleHandle, kDLDevice, kTVMStr] then refuse kTvmErrorFunctionCallWrongArgType rv rc em rt
        else do {
          d \<leftarrow> arr_get args 1;
          let dev = v_device d;
          if device_type dev \<noteq> kDLCPU then refuse kTvmErrorExecutorModuleBadContext rv rc em rt
          else do {
            hdl \<leftarrow> arr_get args 0;
            s \<leftarrow> arr_get args 2;
            name \<leftarrow> v_str rt s;
            (_, p, ax, rt) \<leftarrow> TVMAotExecutor_Create im mds junk (v_handle hdl) dev name rt;
            let em = em\<lparr>em_executor := map_option (Pair p) ax\<rparr>;
            (status, out_mod, rt) \<leftarrow> TVMModCreateFromCModule (em_registry em) rt;
            if status \<noteq> 0 then do {
              (self, ax) \<leftarrow> em_executor em;
              (_, rt) \<leftarrow> TVMAotExecutor_Release self ax rt;
              Some (status, rv, kTVMNullptr, em, rt)
            }
            else do {
              out_mod \<leftarrow> out_mod;
              Some (tvm_crt_error_code kTvmErrorNoError, set_handle rv out_mod, kTVMModuleHandle, em, rt)
            }
          }
        }
      })"

definition TVMAotExecutorModule_NotImplemented :: "aot_executor module_func" where
  "TVMAotExecutorModule_NotImplemented args tcodes nargs rv rc em rt = refuse kTvmErrorFunctionCallNotImplemented rv rc em rt"

text \<open>The array with an index: its count goes up, and its tensor is the result.\<close>

definition aot_argument :: "aot_executor \<Rightarrow> int \<Rightarrow> tvm_value \<Rightarrow> aot_executor executor_module \<Rightarrow> runtime
    \<Rightarrow> (int \<times> tvm_value \<times> int \<times> aot_executor executor_module \<times> runtime) option" where
  "aot_argument ax index rv em rt =
     (let array = (ax_args ax + int sizeof_NDArray * index) mod 2 ^ 32
      in Some (0, set_handle rv (of_int array), kTVMNDArrayHandle, em, increment_at array rt))"

text \<open>An index may be equal to the number of inputs, and it may be negative.\<close>

definition TVMAotExecutorModule_GetInput :: "metadata_at \<Rightarrow> aot_executor module_func" where
  "TVMAotExecutorModule_GetInput mds args tcodes nargs rv rc em rt = do {
     t \<leftarrow> arr_get tcodes 0;
     v \<leftarrow> arr_get args 0;
     (_, ax) \<leftarrow> em_executor em;
     if t = kTVMArgInt
     then do {
       n \<leftarrow> TVMAotExecutor_GetNumInputs mds ax;
       if v_int64 v > n then refuse kTvmErrorFunctionCallInvalidArg rv rc em rt
       else aot_argument ax (v_int64 v) rv em rt
     }
     else do {
       name \<leftarrow> v_str rt v;
       index \<leftarrow> TVMAotExecutor_GetInputIndex mds ax name;
       if index < 0 then refuse kTvmErrorExecutorModuleNoSuchInput rv rc em rt
       else aot_argument ax index rv em rt
     }
   }"

definition TVMAotExecutorModule_GetOutput :: "metadata_at \<Rightarrow> aot_executor module_func" where
  "TVMAotExecutorModule_GetOutput mds args tcodes nargs rv rc em rt =
     (if nargs \<noteq> 1 then refuse kTvmErrorFunctionCallNumArguments rv rc em rt
      else do {
        v \<leftarrow> arr_get args 0;
        (_, ax) \<leftarrow> em_executor em;
        n \<leftarrow> TVMAotExecutor_GetNumOutputs mds ax;
        if v_int64 v > n then refuse kTvmErrorFunctionCallInvalidArg rv rc em rt
        else do {
          k \<leftarrow> TVMAotExecutor_GetNumInputs mds ax;
          aot_argument ax (to_i64 (v_int64 v + k)) rv em rt
        }
      })"

definition TVMAotExecutorModule_GetInputIndex :: "metadata_at \<Rightarrow> aot_executor module_func" where
  "TVMAotExecutorModule_GetInputIndex mds args tcodes nargs rv rc em rt =
     (if nargs \<noteq> 1 then refuse kTvmErrorFunctionCallNumArguments rv rc em rt
      else do {
        v \<leftarrow> arr_get args 0;
        (_, ax) \<leftarrow> em_executor em;
        name \<leftarrow> v_str rt v;
        index \<leftarrow> TVMAotExecutor_GetInputIndex mds ax name;
        if index < 0 then refuse kTvmErrorExecutorModuleNoSuchInput rv rc em rt
        else Some (0, set_int64 index, kTVMArgInt, em, rt)
      })"

definition TVMAotExecutorModule_GetNumInputs :: "metadata_at \<Rightarrow> aot_executor module_func" where
  "TVMAotExecutorModule_GetNumInputs mds args tcodes nargs rv rc em rt =
     (if nargs \<noteq> 0 then refuse kTvmErrorFunctionCallNumArguments rv rc em rt
      else do {
        (_, ax) \<leftarrow> em_executor em;
        n \<leftarrow> TVMAotExecutor_GetNumInputs mds ax;
        Some (0, set_int64 n, kTVMArgInt, em, rt)
      })"

definition TVMAotExecutorModule_GetNumOutputs :: "metadata_at \<Rightarrow> aot_executor module_func" where
  "TVMAotExecutorModule_GetNumOutputs mds args tcodes nargs rv rc em rt =
     (if nargs \<noteq> 0 then refuse kTvmErrorFunctionCallNumArguments rv rc em rt
      else do {
        (_, ax) \<leftarrow> em_executor em;
        n \<leftarrow> TVMAotExecutor_GetNumOutputs mds ax;
        Some (0, set_int64 n, kTVMArgInt, em, rt)
      })"

definition TVMAotExecutorModule_Run :: "image \<Rightarrow> metadata_at \<Rightarrow> aot_junk \<Rightarrow> aot_executor module_func" where
  "TVMAotExecutorModule_Run im mds junk args tcodes nargs rv rc em rt =
     (if nargs \<noteq> 0 then refuse kTvmErrorFunctionCallNumArguments rv rc em rt
      else do {
        (_, ax) \<leftarrow> em_executor em;
        (status, rt) \<leftarrow> TVMAotExecutor_Run im mds junk ax rt;
        Some (status, rv, rc, em, rt)
      })"

section \<open>The module of the graph\<close>

record graph_addresses =
  at_graph_GetInput :: u32
  at_graph_GetInputIndex :: u32
  at_graph_NotImplemented :: u32
  at_graph_GetNumInputs :: u32
  at_graph_GetNumOutputs :: u32
  at_graph_GetOutput :: u32
  at_graph_LoadParams :: u32
  at_graph_Run :: u32
  at_graph_SetInput :: u32

definition graph_executor_registry_funcs :: "graph_addresses \<Rightarrow> u32 list" where
  "graph_executor_registry_funcs ad = [at_graph_GetInput ad, at_graph_GetInputIndex ad, at_graph_NotImplemented ad, at_graph_GetNumInputs ad,
     at_graph_GetNumOutputs ad, at_graph_GetOutput ad, at_graph_LoadParams ad, at_graph_Run ad, at_graph_SetInput ad, at_graph_NotImplemented ad]"

text \<open>The number of functions in front of the ten names is eight.\<close>

definition graph_executor_registry :: "graph_addresses \<Rightarrow> func_registry" where
  "graph_executor_registry ad = \<lparr>fr_names = [8, 0] @ module_names @ [0], fr_funcs = graph_executor_registry_funcs ad\<rparr>"

definition graph_executor_start :: "graph_addresses \<Rightarrow> graph_executor executor_module" where
  "graph_executor_start ad = \<lparr>em_registry = graph_executor_registry ad, em_executor = None\<rparr>"

definition TVMGraphExecutorModule_Create :: "image \<Rightarrow> stack_junk \<Rightarrow> graph_executor module_func" where
  "TVMGraphExecutorModule_Create im junk args tcodes nargs rv rc em rt =
     (if em_executor em \<noteq> None then refuse kTvmErrorExecutorModuleAlreadyCreated rv rc em rt
      else if nargs \<noteq> 4 then refuse kTvmErrorFunctionCallNumArguments rv rc em rt
      else do {
        tcs \<leftarrow> mem_read tcodes 0 4;
        if tcs \<noteq> [kTVMStr, kTVMModuleHandle, kTVMArgInt, kTVMArgInt] then refuse kTvmErrorFunctionCallWrongArgType rv rc em rt
        else do {
          ty \<leftarrow> arr_get args 2;
          di \<leftarrow> arr_get args 3;
          if v_int64 ty \<noteq> kDLCPU \<or> v_int64 di \<noteq> 0 then refuse kTvmErrorExecutorModuleBadContext rv rc em rt
          else do {
            let dev = \<lparr>device_type = v_int64 ty, device_id = v_int64 di\<rparr>;
            s \<leftarrow> arr_get args 0;
            json \<leftarrow> v_str rt s;
            hdl \<leftarrow> arr_get args 1;
            (ret_value, p, ex, rt) \<leftarrow> TVMGraphExecutor_Create im junk json (v_handle hdl) dev rt;
            let em = em\<lparr>em_executor := map_option (Pair p) ex\<rparr>;
            if ret_value \<noteq> 0 then Some (ret_value, rv, rc, em, rt)
            else do {
              (ret_value, out, rt) \<leftarrow> TVMModCreateFromCModule (em_registry em) rt;
              if ret_value \<noteq> 0 then do {
                (self, ex) \<leftarrow> em_executor em;
                (_, ex, rt) \<leftarrow> TVMGraphExecutor_Release self ex rt;
                Some (ret_value, rv, kTVMNullptr, em\<lparr>em_executor := Some (self, ex)\<rparr>, rt)
              }
              else do {
                out \<leftarrow> out;
                Some (tvm_crt_error_code kTvmErrorNoError, set_handle rv out, kTVMModuleHandle, em, rt)
              }
            }
          }
        }
      })"

text \<open>The tensor of an entry, whose count goes up.\<close>

definition graph_entry :: "graph_executor \<Rightarrow> nat \<Rightarrow> nat \<Rightarrow> tvm_value \<Rightarrow> graph_executor executor_module \<Rightarrow> runtime
    \<Rightarrow> (int \<times> tvm_value \<times> int \<times> graph_executor executor_module \<times> runtime) option" where
  "graph_entry ex nid index rv em rt = do {
     eid \<leftarrow> TVMGraphExecutor_GetEntryId ex nid index;
     let array = entry_at ex eid;
     Some (0, set_handle rv (of_int array), kTVMNDArrayHandle, em, increment_at array rt)
   }"

definition TVMGraphExecutorModule_GetInput :: "graph_executor module_func" where
  "TVMGraphExecutorModule_GetInput args tcodes nargs rv rc em rt =
     (if nargs \<noteq> 1 then refuse kTvmErrorFunctionCallNumArguments rv rc em rt
      else do {
        t \<leftarrow> arr_get tcodes 0;
        if t \<noteq> kTVMStr then refuse kTvmErrorFunctionCallWrongArgType rv rc em rt
        else do {
          v \<leftarrow> arr_get args 0;
          (_, ex) \<leftarrow> em_executor em;
          name \<leftarrow> v_str rt v;
          index \<leftarrow> TVMGraphExecutor_GetInputIndex ex name;
          if index < 0 then refuse kTvmErrorExecutorModuleNoSuchInput rv rc em rt
          else do {
            nid \<leftarrow> item (ge_input_nodes ex) (nat index);
            graph_entry ex nid 0 rv em rt
          }
        }
      })"

definition TVMGraphExecutorModule_GetInputIndex :: "graph_executor module_func" where
  "TVMGraphExecutorModule_GetInputIndex args tcodes nargs rv rc em rt = do {
     v \<leftarrow> arr_get args 0;
     (_, ex) \<leftarrow> em_executor em;
     name \<leftarrow> v_str rt v;
     index \<leftarrow> TVMGraphExecutor_GetInputIndex ex name;
     if index < 0 then refuse kTvmErrorExecutorModuleNoSuchInput rv rc em rt
     else Some (0, set_int64 index, kTVMArgInt, em, rt)
   }"

text \<open>
  The function is declared without parameters and called without the executor: what it takes for one is
  what its argument register holds. The result is an argument of the model.
\<close>

definition TVMGraphExecutorModule_GetNumInputs :: "int \<Rightarrow> graph_executor module_func" where
  "TVMGraphExecutorModule_GetNumInputs garbage args tcodes nargs rv rc em rt =
     (if nargs \<noteq> 0 then refuse kTvmErrorFunctionCallNumArguments rv rc em rt
      else Some (0, set_int64 (to_i32 garbage), kTVMArgInt, em, rt))"

definition TVMGraphExecutorModule_GetNumOutputs :: "graph_executor module_func" where
  "TVMGraphExecutorModule_GetNumOutputs args tcodes nargs rv rc em rt =
     (if nargs \<noteq> 0 then refuse kTvmErrorFunctionCallNumArguments rv rc em rt
      else do {
        (_, ex) \<leftarrow> em_executor em;
        Some (0, set_int64 (TVMGraphExecutor_GetNumOutputs ex), kTVMArgInt, em, rt)
      })"

text \<open>An index may be equal to the number of outputs: the entry behind the table is not readable here.\<close>

definition TVMGraphExecutorModule_GetOutput :: "graph_executor module_func" where
  "TVMGraphExecutorModule_GetOutput args tcodes nargs rv rc em rt =
     (if nargs \<noteq> 1 then refuse kTvmErrorFunctionCallNumArguments rv rc em rt
      else do {
        t \<leftarrow> arr_get tcodes 0;
        if t \<noteq> kTVMArgInt then refuse kTvmErrorFunctionCallWrongArgType rv rc em rt
        else do {
          v \<leftarrow> arr_get args 0;
          let output_index = to_i32 (v_int64 v);
          (_, ex) \<leftarrow> em_executor em;
          if output_index < 0 \<or> output_index > TVMGraphExecutor_GetNumOutputs ex
          then refuse kTvmErrorExecutorModuleNoSuchInput rv rc em rt
          else do {
            e \<leftarrow> item (ge_outputs ex) (nat output_index);
            graph_entry ex (ne_node_id e) (ne_index e) rv em rt
          }
        }
      })"

definition TVMGraphExecutorModule_LoadParams :: "graph_executor module_func" where
  "TVMGraphExecutorModule_LoadParams args tcodes nargs rv rc em rt =
     (if nargs \<noteq> 1 then refuse kTvmErrorFunctionCallNumArguments rv rc em rt
      else do {
        t \<leftarrow> arr_get tcodes 0;
        if t \<noteq> kTVMBytes then refuse kTvmErrorFunctionCallWrongArgType rv rc em rt
        else do {
          v \<leftarrow> arr_get args 0;
          let arr = uint (v_handle v);
          let blob = load_bytes (rt_ram rt) (int (load_word (rt_ram rt) arr)) (load_word (rt_ram rt) (arr + 4));
          (_, ex) \<leftarrow> em_executor em;
          (status, rt) \<leftarrow> TVMGraphExecutor_LoadParams ex blob rt;
          Some (status, rv, kTVMNullptr, em, rt)
        }
      })"

definition TVMGraphExecutorModule_Run :: "image \<Rightarrow> graph_executor module_func" where
  "TVMGraphExecutorModule_Run im args tcodes nargs rv rc em rt =
     (if nargs \<noteq> 0 then refuse kTvmErrorFunctionCallNumArguments rv rc em rt
      else do {
        (self, ex) \<leftarrow> em_executor em;
        (ex, rt) \<leftarrow> TVMGraphExecutor_Run im ex rt;
        Some (0, rv, kTVMNullptr, em\<lparr>em_executor := Some (self, ex)\<rparr>, rt)
      })"

definition TVMGraphExecutorModule_SetInput :: "graph_executor module_func" where
  "TVMGraphExecutorModule_SetInput args tcodes nargs rv rc em rt =
     (if nargs \<noteq> 2 then refuse kTvmErrorFunctionCallNumArguments rv rc em rt
      else do {
        tcs \<leftarrow> mem_read tcodes 0 2;
        if tcs \<noteq> [kTVMStr, kTVMDLTensorHandle] then refuse kTvmErrorFunctionCallWrongArgType rv rc em rt
        else do {
          s \<leftarrow> arr_get args 0;
          d \<leftarrow> arr_get args 1;
          (_, ex) \<leftarrow> em_executor em;
          name \<leftarrow> v_str rt s;
          rt \<leftarrow> TVMGraphExecutor_SetInput ex name (load_tensor (rt_ram rt) (uint (v_handle d))) rt;
          Some (0, rv, kTVMNullptr, em, rt)
        }
      })"

definition TVMGraphExecutorModule_NotImplemented :: "graph_executor module_func" where
  "TVMGraphExecutorModule_NotImplemented args tcodes nargs rv rc em rt = refuse kTvmErrorFunctionCallNotImplemented rv rc em rt"

end
