(* ===== verification/Executor_Calls.thy ===== *)
theory Executor_Calls
  imports Executor_Modules Aot_Run
begin

text \<open>What the host finds behind the modules of the executors: their functions by name, and their inputs.\<close>

section \<open>Functions of a constant registry\<close>

lemma static_lookup:
  assumes "names_ok ns" and "distinct ns" and "k < length ns"
  shows "TVMFuncRegistry_Lookup \<lparr>fr_names = [a, b] @ name_blob ns @ [0], fr_funcs = fs\<rparr> (ns ! k @ [0]) = Some (kTvmErrorNoError, Some (of_nat k))"
proof -
  have n: "cname (ns ! k)" "ns ! k \<in> set ns"
    using assms(1,3) by (simp_all add: names_ok_def)
  have "\<exists>pos. registry_scan ([a, b] @ name_blob ns @ 0 # []) (ns ! k @ 0 # []) 2 0 = Some (True, pos, k)"
    using registry_scan_spec [OF assms(1) n(1), of "[a, b]" "[]" "[]" 0] n(2) assms(2,3) by (auto simp: nth_eq_iff_index_eq numeral_2_eq_2)
  then show ?thesis
    by (auto simp: TVMFuncRegistry_Lookup_def TVMFuncRegistry_Get0thFunctionName_def)
qed

definition executor_functions :: "u8 list list" where
  "executor_functions = map lit [''get_input'', ''get_input_index'', ''get_input_info'', ''get_num_inputs'', ''get_num_outputs'',
     ''get_output'', ''load_params'', ''run'', ''set_input'', ''share_params'']"

lemma executor_functions_facts:
  "names_ok executor_functions" "distinct executor_functions" "length executor_functions = 10" "name_blob executor_functions = module_names"
  by (simp_all add: executor_functions_def names_ok_def cname_def lit_def module_names_def c_str_def)

text \<open>A function of a module whose registry counts \<open>c\<close> of the ten names.\<close>

lemma module_function:
  assumes rt: "length (registered_modules rt) = 6" "i < 6"
      "registered_modules rt ! i = Some \<lparr>fr_names = [c, 0] @ module_names @ [0], fr_funcs = fs\<rparr>"
    and k: "k < 10" "length fs = 10" and c: "c \<le> 10"
  shows "\<exists>h. TVMModGetFunction (EncodeModuleHandle (of_nat i)) (executor_functions ! k @ [0]) q rt = Some (0, Some h, rt)
    \<and> (\<forall>d im args tcs n rv rc. TVMFuncCall (Suc d) im h args tcs n rv rc rt =
         (if k < unat c then call_pointer im (fs ! k) (Some \<lparr>fr_names = [c, 0] @ module_names @ [0], fr_funcs = fs\<rparr>) args tcs n (set_handle rv 0) kTVMNullptr rt
          else Some (- 1, rv, rc, TVMAPIErrorf (''invalid function index: '' @ hex_text 4 k) rt)))"
proof -
  let ?reg = "\<lparr>fr_names = [c, 0] @ module_names @ [0], fr_funcs = fs\<rparr>" and ?k = "of_nat k :: u16"
  have l: "TVMFuncRegistry_Lookup ?reg (executor_functions ! k @ [0]) = Some (kTvmErrorNoError, Some ?k)"
    using static_lookup [OF executor_functions_facts(1,2), of k c 0 fs] k(1) executor_functions_facts(3,4) by simp
  have u: "unat ?k = k" "?k < 0x8000" "\<not> ?k = 0x7fff"
    using k(1) by (auto simp: unat_of_nat word_less_nat_alt word_unat_eq_iff)
  have num: "TVMFuncRegistry_GetNumFuncs ?reg = Some (of_nat (unat c))"
    by (simp add: TVMFuncRegistry_GetNumFuncs_def mem_read_def)
  have "unat c \<le> 10"
    using c by (simp add: word_le_nat_alt)
  then have "unat (of_nat (unat c) :: u16) = unat c"
    by (subst unat_of_nat) simp
  then have g: "TVMFuncRegistry_GetByIndex ?reg ?k
      = (if k < unat c then Some (kTvmErrorNoError, Some (fs ! k)) else Some (kTvmErrorFunctionIndexInvalid, None))"
    using k u(1) by (simp add: TVMFuncRegistry_GetByIndex_def num [simplified] word_le_nat_alt arr_get_def)
  have get: "TVMModGetFunction (EncodeModuleHandle (of_nat i)) (executor_functions ! k @ [0]) q rt = Some (0, Some (EncodeFunctionHandle (of_nat i) ?k), rt)"
    by (rule module_lookup [OF rt l])
  have i: "(of_nat i :: u16) \<noteq> 0x7fff" "(of_nat i :: u16) \<noteq> 6"
    using rt(2) small_index(1) [OF rt(2)] by (auto simp: word_unat_eq_iff)
  have "TVMFuncCall (Suc d) im (EncodeFunctionHandle (of_nat i) ?k) args tcs n rv rc rt
      = Some (- 1, rv, rc, TVMAPIErrorf (''invalid function index: '' @ hex_text 4 k) rt)" if "\<not> k < unat c" for d im args tcs n rv rc
    using rt i u(1) g that small_index(1) [OF rt(2)] DecodeFunctionHandle_module [OF rt(1,2) rt(3) u(2)]
    by (simp add: kTimeEvaluatorModuleIndex_def kGlobalFuncModuleIndex_def TVM_CRT_MAX_REGISTERED_MODULES_def)
  moreover have "TVMFuncCall (Suc d) im (EncodeFunctionHandle (of_nat i) ?k) args tcs n rv rc rt
      = call_pointer im (fs ! k) (Some ?reg) args tcs n (set_handle rv 0) kTVMNullptr rt" if "k < unat c" for d im args tcs n rv rc
    by (rule module_call [OF rt u(2)]) (use g that in simp)
  ultimately show ?thesis
    using get by (intro exI [of _ "EncodeFunctionHandle (of_nat i) ?k"]) (simp del: TVMFuncCall.simps)
qed

lemma registry_funcs_10: "length (aot_executor_registry_funcs ad) = 10" "length (graph_executor_registry_funcs ad') = 10"
  by (simp_all add: aot_executor_registry_funcs_def graph_executor_registry_funcs_def)

lemma aot_module_functions:
  assumes "length (registered_modules rt) = 6" and "i < 6" and "registered_modules rt ! i = Some (aot_executor_registry ad)" and "k < 10"
  shows "\<exists>h. TVMModGetFunction (EncodeModuleHandle (of_nat i)) (executor_functions ! k @ [0]) q rt = Some (0, Some h, rt)
    \<and> (\<forall>d im args tcs n rv rc. TVMFuncCall (Suc d) im h args tcs n rv rc rt
         = call_pointer im (aot_executor_registry_funcs ad ! k) (Some (aot_executor_registry ad)) args tcs n (set_handle rv 0) kTVMNullptr rt)"
  using module_function [OF assms(1,2), of 10 "aot_executor_registry_funcs ad" k q] assms(3,4) registry_funcs_10(1)
  unfolding aot_executor_registry_def by simp

text \<open>
  C40. The module of the graph executor counts eight functions and names ten. Each of the ten names gives
  the host a function handle; a call of one of the first eight reaches the function of that name, but a
  call of \<open>set_input\<close> or \<open>share_params\<close> fails with an invalid index.
\<close>
theorem graph_set_input_unreachable:
  assumes "length (registered_modules rt) = 6" and "i < 6" and "registered_modules rt ! i = Some (graph_executor_registry ad)" and "k < 10"
  shows "\<exists>h. TVMModGetFunction (EncodeModuleHandle (of_nat i)) (executor_functions ! k @ [0]) q rt = Some (0, Some h, rt)
    \<and> (\<forall>d im args tcs n rv rc. TVMFuncCall (Suc d) im h args tcs n rv rc rt =
         (if k < 8 then call_pointer im (graph_executor_registry_funcs ad ! k) (Some (graph_executor_registry ad)) args tcs n (set_handle rv 0) kTVMNullptr rt
          else Some (- 1, rv, rc, TVMAPIErrorf (''invalid function index: '' @ hex_text 4 k) rt)))"
  using module_function [OF assms(1,2), of 8 "graph_executor_registry_funcs ad" k q] assms(3,4) registry_funcs_10(2)
  unfolding graph_executor_registry_def by simp

definition graph_only_runtime :: runtime where
  "graph_only_runtime = (bare_runtime [] 0x8000)
     \<lparr>registered_modules := [Some (graph_executor_registry (graph_addresses.make 1 2 3 4 5 6 7 8 9)), None, None, None, None, None]\<rparr>"

lemma graph_set_input_unreachable_witness:
  "\<exists>h. TVMModGetFunction (EncodeModuleHandle (of_nat 0)) (lit ''set_input'' @ [0]) False graph_only_runtime = Some (0, Some h, graph_only_runtime)
    \<and> TVMFuncCall (Suc 1) bare_image h [] [] 0 0 0 graph_only_runtime
      = Some (- 1, 0, 0, TVMAPIErrorf ''invalid function index: 0008'' graph_only_runtime)"
proof -
  have n: "executor_functions ! 8 = lit ''set_input''" "hex_text 4 8 = ''0008''"
    by (simp add: executor_functions_def) code_simp
  have m: "length (registered_modules graph_only_runtime) = 6" "registered_modules graph_only_runtime ! 0
      = Some (graph_executor_registry (graph_addresses.make 1 2 3 4 5 6 7 8 9))"
    by (simp_all add: graph_only_runtime_def)
  obtain h where h: "TVMModGetFunction (EncodeModuleHandle (of_nat 0)) (executor_functions ! 8 @ [0]) False graph_only_runtime = Some (0, Some h, graph_only_runtime)"
    "\<And>d im args tcs n rv rc. TVMFuncCall (Suc d) im h args tcs n rv rc graph_only_runtime
      = Some (- 1, rv, rc, TVMAPIErrorf (''invalid function index: '' @ hex_text 4 8) graph_only_runtime)"
    using graph_set_input_unreachable [OF m(1) _ m(2), of 8 False] by (auto simp del: TVMFuncCall.simps)
  show ?thesis
    by (rule exI [of _ h], rule conjI) (use h(1) h(2) [of 1 bare_image] n in \<open>simp_all del: TVMFuncCall.simps\<close>)
qed

section \<open>The inputs of a compiled program\<close>

lemma aot_index_found:
  "j < length infos \<Longrightarrow> i \<le> j \<Longrightarrow> i + n = length infos \<Longrightarrow> distinct (map ti_name infos) \<Longrightarrow>
   aot_index_loop infos (ti_name (infos ! j)) i n = Some (int j)"
proof (induction n arbitrary: i)
  case (Suc n)
  show ?case
  proof (cases "i = j")
    case False
    then have "ti_name (infos ! i) \<noteq> ti_name (infos ! j)"
      using Suc.prems nth_eq_iff_index_eq [of "map ti_name infos" i j] by simp
    then show ?thesis
      using Suc False by (simp add: arr_get_def)
  qed (use Suc.prems in \<open>simp add: arr_get_def\<close>)
qed simp

lemma aot_argument_at:
  "aot_argument ax (int i) rv em rt
    = Some (0, set_handle rv (of_int (aot_arg_at ax i)), kTVMNDArrayHandle, em, increment_at (aot_arg_at ax i) rt)"
  by (simp add: aot_argument_def aot_arg_at_def Let_def)

lemma v_int64_small: "n < 2 ^ 63 \<Longrightarrow> v_int64 (set_int64 (int n)) = int n"
  by (simp only: v_int64_def set_int64_def sint_sbintrunc signed_of_int) (simp add: signed_take_bit_int_eq_self)

text \<open>
  C27. The host gets the same tensor for an input by its name and by its index, which are answered to each
  other, and its count goes up by one. The number of inputs is accepted as an index, too: the host then
  gets the first output.
\<close>
theorem aot_inputs_addressed:
  assumes "em_executor em = Some (p, ax)" and "mds (ax_metadata ax) = Some md" and "metadata_ok md"
    and "distinct (map ti_name (md_inputs md))" and "i < length (md_inputs md)" and "v_str rt v = Some (ti_name (md_inputs md ! i))"
  shows "TVMAotExecutorModule_GetInput mds [set_int64 (int i)] [kTVMArgInt] 1 rv rc em rt
      = Some (0, set_handle rv (of_int (aot_arg_at ax i)), kTVMNDArrayHandle, em, increment_at (aot_arg_at ax i) rt)
    \<and> TVMAotExecutorModule_GetInput mds [v] [kTVMStr] 1 rv rc em rt
      = Some (0, set_handle rv (of_int (aot_arg_at ax i)), kTVMNDArrayHandle, em, increment_at (aot_arg_at ax i) rt)
    \<and> TVMAotExecutorModule_GetInputIndex mds [v] [kTVMStr] 1 rv rc em rt = Some (0, set_int64 (int i), kTVMArgInt, em, rt)
    \<and> TVMAotExecutorModule_GetInput mds [set_int64 (int (length (md_inputs md)))] [kTVMArgInt] 1 rv rc em rt
      = TVMAotExecutorModule_GetOutput mds [set_int64 0] [kTVMArgInt] 1 rv rc em rt"
proof -
  let ?n = "length (md_inputs md)"
  have n: "?n \<le> 10" "length (md_outputs md) \<le> 10" "md_num_inputs md = int ?n" "md_num_outputs md = int (length (md_outputs md))"
    using assms(3) by (simp_all add: metadata_ok_def md_infos_def)
  have counts: "TVMAotExecutor_GetNumInputs mds ax = Some (int ?n)" "TVMAotExecutor_GetNumOutputs mds ax = Some (int (length (md_outputs md)))"
    using assms(2) n by (simp_all add: TVMAotExecutor_GetNumInputs_def TVMAotExecutor_GetNumOutputs_def to_i32_id)
  have index: "TVMAotExecutor_GetInputIndex mds ax (ti_name (md_inputs md ! i)) = Some (int i)"
    using aot_index_found [OF assms(5), of 0 ?n] assms(2,4) n(3) by (simp add: TVMAotExecutor_GetInputIndex_def)
  have v: "v_int64 (set_int64 (int i)) = int i" "v_int64 (set_int64 (int ?n)) = int ?n" "v_int64 (set_int64 0) = 0"
    using v_int64_small [of i] v_int64_small [of ?n] v_int64_small [of 0] assms(5) n(1) by simp_all
  have "to_i64 (int ?n) = int ?n"
    using n(1) by (intro to_i64_id) simp_all
  then show ?thesis
    using assms(1,5,6) counts index v
    by (simp add: TVMAotExecutorModule_GetInput_def TVMAotExecutorModule_GetOutput_def TVMAotExecutorModule_GetInputIndex_def arr_get_def
        aot_argument_at type_codes)
qed

definition named_runtime :: runtime where
  "named_runtime = net_runtime\<lparr>rt_machine := \<lparr>heap = fresh_heap 4096 131072 8, ram = (\<lambda>_. 0)(100 := 120)\<rparr>\<rparr>"

lemma aot_inputs_addressed_witness:
  "TVMAotExecutorModule_GetInput [0x3000 \<mapsto> net_metadata] [100] [kTVMStr] 1 0 0
      \<lparr>em_registry = aot_executor_registry (aot_addresses.make 1 2 3 4 5 6 7), em_executor = Some (512, blank_aot\<lparr>ax_metadata := 0x3000, ax_args := 1024\<rparr>)\<rparr>
      named_runtime = Some (0, 1024, kTVMNDArrayHandle,
      \<lparr>em_registry = aot_executor_registry (aot_addresses.make 1 2 3 4 5 6 7), em_executor = Some (512, blank_aot\<lparr>ax_metadata := 0x3000, ax_args := 1024\<rparr>)\<rparr>,
      increment_at 1024 named_runtime)"
proof -
  let ?ax = "blank_aot\<lparr>ax_metadata := 0x3000, ax_args := 1024\<rparr>"
  let ?em = "\<lparr>em_registry = aot_executor_registry (aot_addresses.make 1 2 3 4 5 6 7), em_executor = Some (512, ?ax)\<rparr>"
  have "c_string (rt_ram named_runtime) 100 = Some [120, 0]"
    by (subst c_string.simps, simp add: named_runtime_def, subst c_string.simps, simp)
  then have v: "v_str named_runtime 100 = Some (ti_name (md_inputs net_metadata ! 0))"
    by (simp add: v_str_def v_handle_def net_metadata_def net_info_def lit_def)
  have good: "good_shape [1, 4] f32" "array_bytes [1, 4] f32 = 16"
    by (simp_all add: good_shape_def array_bytes_def f32_def)
  have md: "metadata_ok net_metadata"
    using good by (simp add: metadata_ok_def net_metadata_def net_info_def info_ok_def lit_def cname_def md_infos_def)
  have "em_executor ?em = Some (512, ?ax)" "[0x3000 \<mapsto> net_metadata] (ax_metadata ?ax) = Some net_metadata"
    "distinct (map ti_name (md_inputs net_metadata))" "0 < length (md_inputs net_metadata)"
    by (simp_all add: net_metadata_def)
  from aot_inputs_addressed [OF this(1) _ md this(3,4) v, of "[0x3000 \<mapsto> net_metadata]" 0 0] this(2)
  show ?thesis
    by (simp add: aot_arg_at_def set_handle_def)
qed

end
