(* ===== verification/Spec2Isabelle.thy ===== *)
theory Spec2Isabelle
  imports Crt_Prelude Crc Ring_Buffer Frame_Buffer Write_Stream Framer Unframer Framing Session Session_Protocol
    Page_Allocator Func_Registry Stack_Allocator Platform Json_Reader Json_Text
    Machine Nd_Array Runtime_Api Time_Evaluator Packed_Func Runtime_Typed Graph_Json Heap_Room Owned_Blocks Graph_Text Graph_Executor Graph_Storage Graph_Run Graph_Io
    Arena Rpc_Channel Rpc_Reference Minrpc_Server Rpc_Server Session_Service Arena_Pages Rpc_Channel_Facts Rpc_Packed
    Rpc_Requests Rpc_Service Rpc_Failures Aot_Executor Aot_Run Executor_Modules Executor_Calls
begin

text \<open>
  A verification library for the C runtime of microTVM as the GVSoC template project builds it for a
  32-bit RISC-V core (\<^verbatim>\<open>template_project/crt\<close> and \<^verbatim>\<open>template_project/src/host_driven\<close>).

  \<^bold>\<open>The program.\<close> A host sends requests over a serial line. \<^verbatim>\<open>main\<close> of \<^verbatim>\<open>host_driven/main.cc\<close> reads the
  line one byte at a time and hands the bytes to the server of \<^verbatim>\<open>microtvm_rpc_server/rpc_server.cc\<close>. The
  unframer (\<^verbatim>\<open>framing.cc\<close>) takes the packets out of the line and writes their payload to the receiver of
  the session (\<^verbatim>\<open>session.cc\<close>), which keeps it in a frame buffer and calls the server when a message is
  complete. \<^verbatim>\<open>MinRPCServer\<close> (\<^verbatim>\<open>minrpc_server.h\<close>, \<^verbatim>\<open>rpc_reference.h\<close>) reads one request out of that buffer,
  with an arena (\<^verbatim>\<open>generic_arena.h\<close>) for its arguments, carries it out through the C interface of the
  runtime (\<^verbatim>\<open>crt_runtime_api.c\<close>: modules, functions, device memory, arrays, the time evaluator), and sends
  one reply, which goes through the session and the framer to the UART. The runtime finds functions in
  registries (\<^verbatim>\<open>func_registry.c\<close>), takes its memory from the page allocator (\<^verbatim>\<open>page_allocator.c\<close>), and runs
  models either from a graph in JSON (\<^verbatim>\<open>load_json.c\<close>, \<^verbatim>\<open>graph_executor.c\<close>) or as a compiled program
  (\<^verbatim>\<open>aot_executor.c\<close>, \<^verbatim>\<open>stack_allocator.c\<close>).

  \<^bold>\<open>The theories and the code.\<close> Each theory first has the definitions, in the order and with the names of
  the code, then the lemmas.

  \<^item> \<open>Crt_Prelude\<close>: machine words, checked array access, little-endian layout, error codes (\<^verbatim>\<open>error_codes.h\<close>).
  \<^item> \<open>Crc\<close> (\<^verbatim>\<open>crcccitt.c\<close>, \<^verbatim>\<open>gentab_ccitt.inc\<close>): the table is division by the polynomial; bursts are detected.
  \<^item> \<open>Ring_Buffer\<close> (\<^verbatim>\<open>ringbuffer.c\<close>), \<open>Frame_Buffer\<close> (\<^verbatim>\<open>frame_buffer.cc\<close>): bounded queues of bytes.
  \<^item> \<open>Write_Stream\<close> (\<^verbatim>\<open>write_stream.cc\<close>), \<open>Framer\<close>, \<open>Unframer\<close>, \<open>Framing\<close> (\<^verbatim>\<open>framing.cc\<close>): the wire format,
    the framer against the packet as a list of bytes, the unframer against a receiver that reads byte by
    byte, and both together.
  \<^item> \<open>Session\<close>, \<open>Session_Protocol\<close> (\<^verbatim>\<open>session.cc\<close>): the handshake as a state machine, its invariant over all
    reachable states, delivery of messages between two sessions. \<open>Session_Service\<close> is the session of the device
    with the callback it installs.
  \<^item> \<open>Page_Allocator\<close> (\<^verbatim>\<open>page_allocator.c\<close>), \<open>Platform\<close> (the \<^verbatim>\<open>TVMPlatform\<close> functions of \<^verbatim>\<open>main.cc\<close>),
    \<open>Stack_Allocator\<close> (\<^verbatim>\<open>stack_allocator.c\<close>), \<open>Func_Registry\<close> (\<^verbatim>\<open>func_registry.c\<close>): memory and names.
  \<^item> \<open>Machine\<close> (\<^verbatim>\<open>dlpack.h\<close>), \<open>Nd_Array\<close> (\<^verbatim>\<open>ndarray.c\<close>, \<^verbatim>\<open>crt_backend_api.c\<close>), \<open>Runtime_Api\<close>
    (\<^verbatim>\<open>crt_runtime_api.c\<close>), \<open>Time_Evaluator\<close> (its evaluator, called through a handle), \<open>Packed_Func\<close>
    (\<^verbatim>\<open>packed_func.c\<close>), \<open>Runtime_Typed\<close>: the C interface, and that its handles and tables stay well formed
    under every sequence of calls.
  \<^item> \<open>Json_Reader\<close>, \<open>Json_Text\<close> (\<^verbatim>\<open>load_json.c\<close>), \<open>Graph_Json\<close>, \<open>Graph_Text\<close> (\<^verbatim>\<open>graph_executor.c\<close>, reading):
    printed values and graphs are read back, and the heap keeps exactly the blocks of the graph.
  \<^item> \<open>Heap_Room\<close>, \<open>Owned_Blocks\<close>: a heap with enough untouched pages, and blocks with their contents, shared
    by everything that allocates. \<open>Heap_Room\<close> also has the look-ahead of the JSON reader with its memory.
  \<^item> \<open>Graph_Executor\<close>, \<open>Graph_Storage\<close>, \<open>Graph_Run\<close>, \<open>Graph_Io\<close> (\<^verbatim>\<open>graph_executor.c\<close>, running): the storage
    plan, the operators, inputs, outputs and parameters.
  \<^item> \<open>Arena\<close>, \<open>Arena_Pages\<close> (\<^verbatim>\<open>generic_arena.h\<close>), \<open>Rpc_Channel\<close>, \<open>Rpc_Channel_Facts\<close> (\<^verbatim>\<open>MicroIOHandler\<close>),
    \<open>Rpc_Reference\<close> (\<^verbatim>\<open>rpc_reference.h\<close>), \<open>Minrpc_Server\<close> (\<^verbatim>\<open>minrpc_server.h\<close>), \<open>Rpc_Server\<close>
    (\<^verbatim>\<open>rpc_server.cc\<close>, \<^verbatim>\<open>main\<close>), \<open>Rpc_Packed\<close>, \<open>Rpc_Requests\<close>, \<open>Rpc_Service\<close>, \<open>Rpc_Failures\<close>: the server, its
    specification as a step relation on requests and replies, the refinement, and what wedges it.
  \<^item> \<open>Aot_Executor\<close>, \<open>Aot_Run\<close> (\<^verbatim>\<open>aot_executor.c\<close>), \<open>Executor_Modules\<close>, \<open>Executor_Calls\<close>
    (\<^verbatim>\<open>aot_executor_module.c\<close>, \<^verbatim>\<open>graph_executor_module.c\<close>): compiled programs, and both executors as modules.

  \<^bold>\<open>State and results.\<close> A struct or class is a record, passed in and returned. A function returns an option:
  \<open>None\<close> is a failed \<^verbatim>\<open>CHECK\<close> or assertion, \<^verbatim>\<open>TVMPlatformAbort\<close>, an access outside an object, a read of
  memory that was never written, a null pointer that is followed, or a loop that does not end
  (\<^verbatim>\<open>MicroIOHandler::Exit\<close> is one). Errors that the code reports are values. Pointers are addresses; the
  device memory is a total function from addresses to bytes beside the heap that owns parts of it, so
  aliasing is visible. Small tables that only one component sees are lists in its record.

  \<^bold>\<open>Interfaces.\<close> Where a component relies on another one, the contract is a locale, interpreted on the code:
  \<open>write_stream\<close> (a stream that loses nothing: the UART, and a stream that takes one byte at a time),
  \<open>packet_stream\<close> (what stands behind the unframer: the receiver of a session and that of the server),
  \<open>session_callback\<close> (a callback that keeps the invariant of its session: the server of the device), \<open>byte_queue\<close> (the ring buffer),
  \<open>allocator\<close> (the page allocator and the platform over it), \<open>function_table\<close> (the mutable registry),
  \<open>bounded_stack\<close> (the scopes of the JSON reader), \<open>key_loop\<close> (the three loops over the keys of an object).

  \<^bold>\<open>Target and bounds.\<close> \<^verbatim>\<open>size_t\<close>, pointers and \<^verbatim>\<open>long\<close> have 32 bits, \<^verbatim>\<open>char\<close> is unsigned, signed arithmetic
  wraps. The constants are those of \<^verbatim>\<open>crt_config.h\<close> and \<^verbatim>\<open>main.cc\<close>: 6 dimensions, 10 arguments, 6 modules, a
  registry of 512 bytes, pages of 256 bytes, packets of at most 4096 bytes, which is the receive buffer of
  the session; a page of the arena has 2048 bytes, 2036 of them behind its header. Loops that the data
  bound are recursive functions; loops that might not end (scans for a terminator, the loops over JSON,
  the time evaluator, the main loop) are partial functions, and the properties that use them show that they
  end on the data they are about.
  Packed functions can call each other through the evaluator, so \<^verbatim>\<open>TVMFuncCall\<close> takes the depth of such
  calls; the parameter of the server is \<open>tg_depth\<close>, and 2 is enough for an evaluator that measures an operator.

  \<^bold>\<open>Parameters.\<close> What is not in the repository is an argument: operators of generated models, the system
  library and its metadata, the addresses the linker gives to functions, the image of a \<^verbatim>\<open>double\<close>, the
  cycle counter, formatted text, the log callback of a stream, and what the stack or a fresh block holds
  where the code reads it before it writes it (\<open>junk\<close>).

  \<^bold>\<open>Main results.\<close> \<open>device_answers_request\<close>: whatever the state between requests, the frame of a request goes
  through all layers and leaves exactly the reply frame and the state that the specification names.
  \<open>session_delivers_message\<close>, \<open>handshake_agrees\<close>, \<open>unframer_refines_receiver\<close> and \<open>frame_round_trip\<close> carry it
  on the line, \<open>packed_seq_round_trip\<close>, \<open>arena_pieces_safe\<close> and \<open>page_allocator_safe\<close> in memory.
  \<open>graph_round_trip\<close>, \<open>storage_set_up\<close> and \<open>graph_runs_operators\<close> take a graph from its text to the calls of
  its operators; \<open>aot_program_runs\<close> does so for compiled programs. \<open>runtime_type_safe\<close> is the invariant of the
  C interface. The last properties show what the code does not get right on this target.

  \<^bold>\<open>Not modelled.\<close> The trap of the semihosting call and the wait for a byte (input and output are lists); the
  text of log and error messages, except where it is sent or stored; \<^verbatim>\<open>DumpMetadata\<close>; the generated operators
  under \<^verbatim>\<open>model/codegen\<close>; the logging variant of the server and its abstract interfaces, which the device
  does not build; the vendored headers of \<^verbatim>\<open>dmlc\<close>; the Python API server, the examples and the build files.
\<close>

end
